(* ===== verification/Ebpf_Prelude.thy ===== *)
theory Ebpf_Prelude
  imports Main "HOL-Library.Word" "HOL-Library.Signed_Division"
begin

unbundle bit_operations_syntax

text \<open>
  Shared vocabulary of the development: the exceptions of the C++ code as values, the two
  result types every fallible operation uses, the fact collections of the components, and the
  generic lemmas on lists and words that several components need.

  A C++ function that may throw returns \<^emph>\<open>exn + 'a\<close>; one that in addition appends notes
  to the current program counter's bucket (\<^verbatim>\<open>Unmarshaller::note\<close>) returns the pair of that
  result and the appended notes, which survive an exception because the vector of notes is an
  output parameter of the caller.
\<close>

section \<open>Machine integers and identifiers\<close>

type_synonym u4 = "4 word"
type_synonym u8 = "8 word"
type_synonym i16 = "16 word"
type_synonym i32 = "32 word"
type_synonym u32 = "32 word"
type_synonym u64 = "64 word"
type_synonym pc_t = "32 word"

text \<open>
  \<^verbatim>\<open>gsl::narrow<T>\<close> belongs to the Guidelines Support Library, which is fetched by the build.
  It is a parameter of every definition that calls it: a function from the range of the target
  type and the mathematical value of the argument to the converted value, \<^emph>\<open>None\<close> standing
  for the \<^verbatim>\<open>narrowing_error\<close> exception. \<open>gsl_narrow_spec\<close> is its documented contract.
\<close>

type_synonym gsl_narrow = "int \<times> int \<Rightarrow> int \<Rightarrow> int option"

definition gsl_narrow_spec :: "gsl_narrow \<Rightarrow> bool" where
  "gsl_narrow_spec nrw \<longleftrightarrow>
     (\<forall>lo hi v. nrw (lo, hi) v = (if lo \<le> v \<and> v \<le> hi then Some v else None))"

definition gsl_narrow_ref :: gsl_narrow where
  "gsl_narrow_ref r v = (if fst r \<le> v \<and> v \<le> snd r then Some v else None)"

lemma gsl_narrow_ref_spec [simp]: "gsl_narrow_spec gsl_narrow_ref"
  by (simp add: gsl_narrow_spec_def gsl_narrow_ref_def)

lemma gsl_narrowD:
  "gsl_narrow_spec nrw \<Longrightarrow> nrw (lo, hi) v = (if lo \<le> v \<and> v \<le> hi then Some v else None)"
  by (simp add: gsl_narrow_spec_def)

abbreviation int8_range :: "int \<times> int" where "int8_range \<equiv> (- (2 ^ 7), 2 ^ 7 - 1)"
abbreviation int16_range :: "int \<times> int" where "int16_range \<equiv> (- (2 ^ 15), 2 ^ 15 - 1)"
abbreviation int32_range :: "int \<times> int" where "int32_range \<equiv> (- (2 ^ 31), 2 ^ 31 - 1)"
abbreviation int64_range :: "int \<times> int" where "int64_range \<equiv> (- (2 ^ 63), 2 ^ 63 - 1)"
abbreviation uint8_range :: "int \<times> int" where "uint8_range \<equiv> (0, 2 ^ 8 - 1)"
abbreviation uint32_range :: "int \<times> int" where "uint32_range \<equiv> (0, 2 ^ 32 - 1)"

section \<open>Exceptions and results\<close>

datatype exn =
    InvalidInstruction nat string   \<comment> \<open>\<open>struct InvalidInstruction\<close>: program counter and message\<close>
  | RuntimeError string             \<comment> \<open>\<open>std::runtime_error\<close>, which CRAB_ERROR throws too\<close>
  | InvalidArgument string          \<comment> \<open>\<open>std::invalid_argument\<close>\<close>
  | InvalidControlFlow string       \<comment> \<open>\<open>crab::InvalidControlFlow\<close>\<close>
  | UnmarshalError string           \<comment> \<open>\<open>UnmarshalError\<close> of the ELF reader\<close>
  | StdException                    \<comment> \<open>a bare \<open>std::exception\<close>\<close>
  | OutOfRange                      \<comment> \<open>\<open>std::out_of_range\<close> of a checked container access\<close>
  | NarrowingError                  \<comment> \<open>\<open>gsl::narrowing_error\<close>\<close>
  | AssertionFailure                \<comment> \<open>a failed \<open>assert\<close>\<close>
  | ProcessExit int                 \<comment> \<open>\<open>exit(status)\<close>\<close>

type_synonym 'a res = "exn + 'a"
type_synonym 'a noted = "'a res \<times> string list"

definition bindE :: "'a res \<Rightarrow> ('a \<Rightarrow> 'b res) \<Rightarrow> 'b res" where
  "bindE m f = (case m of Inl e \<Rightarrow> Inl e | Inr a \<Rightarrow> f a)"

definition bindN :: "'a noted \<Rightarrow> ('a \<Rightarrow> 'b noted) \<Rightarrow> 'b noted" where
  "bindN m f = (case m of
      (Inl e, w) \<Rightarrow> (Inl e, w)
    | (Inr a, w) \<Rightarrow> (let (r, w') = f a in (r, w @ w')))"

definition quiet :: "'a res \<Rightarrow> 'a noted" where
  "quiet r = (r, [])"

definition noting :: "string list \<Rightarrow> 'a \<Rightarrow> 'a noted" where
  "noting w a = (Inr a, w)"

definition throwN :: "exn \<Rightarrow> 'a noted" where
  "throwN e = (Inl e, [])"

definition opt_to_res :: "exn \<Rightarrow> 'a option \<Rightarrow> 'a res" where
  "opt_to_res e x = (case x of None \<Rightarrow> Inl e | Some a \<Rightarrow> Inr a)"

definition is_ok :: "'a res \<Rightarrow> bool" where
  "is_ok r \<longleftrightarrow> (case r of Inl _ \<Rightarrow> False | Inr _ \<Rightarrow> True)"

named_theorems res_simps \<open>equations of the result types\<close>
named_theorems isa_consts \<open>the numeric constants of the instruction set\<close>
named_theorems decode_defs \<open>definitions of the instruction decoder\<close>
named_theorems encode_defs \<open>definitions of the instruction encoder\<close>
named_theorems interval_defs \<open>definitions of the interval domain\<close>

lemma bindE_simps [simp]:
  "bindE (Inl e) f = Inl e"
  "bindE (Inr a) f = f a"
  by (simp_all add: bindE_def)

lemma bindE_eq_Inr_iff: "bindE m f = Inr b \<longleftrightarrow> (\<exists>a. m = Inr a \<and> f a = Inr b)"
  by (cases m) simp_all

lemma bindE_eq_Inl_iff: "bindE m f = Inl e \<longleftrightarrow> m = Inl e \<or> (\<exists>a. m = Inr a \<and> f a = Inl e)"
  by (cases m) simp_all

lemma bindE_split: "P (bindE m f) \<longleftrightarrow> (\<forall>e. m = Inl e \<longrightarrow> P (Inl e)) \<and> (\<forall>a. m = Inr a \<longrightarrow> P (f a))"
  by (cases m) simp_all

lemma bindN_simps [simp]:
  "bindN (Inl e, w) f = (Inl e, w)"
  "bindN (Inr a, w) f = (fst (f a), w @ snd (f a))"
  by (simp_all add: bindN_def split_def Let_def)

lemma quiet_simps [simp]: "fst (quiet r) = r" "snd (quiet r) = []"
  by (simp_all add: quiet_def)

lemma noting_simps [simp]: "fst (noting w a) = Inr a" "snd (noting w a) = w"
  by (simp_all add: noting_def)

lemma throwN_simps [simp]: "fst (throwN e) = Inl e" "snd (throwN e) = []"
  by (simp_all add: throwN_def)

lemma fst_bindN: "fst (bindN m f) = bindE (fst m) (\<lambda>a. fst (f a))"
  by (cases m; cases "fst m") simp_all

lemma opt_to_res_simps [simp]:
  "opt_to_res e None = Inl e"
  "opt_to_res e (Some a) = Inr a"
  by (simp_all add: opt_to_res_def)

lemma opt_to_res_eq_Inr_iff [simp]: "opt_to_res e x = Inr a \<longleftrightarrow> x = Some a"
  by (cases x) simp_all

lemma is_ok_simps [simp]: "\<not> is_ok (Inl e)" "is_ok (Inr a)"
  by (simp_all add: is_ok_def)

lemma is_ok_iff: "is_ok r \<longleftrightarrow> (\<exists>a. r = Inr a)"
  by (cases r) simp_all

lemmas res_iffs = bindE_eq_Inr_iff bindE_eq_Inl_iff

section \<open>Postconditions of results\<close>

text \<open>
  \<open>res_post E P r\<close>: an exception satisfies \<open>E\<close>, a value satisfies \<open>P\<close>. The equations of the
  collection \<open>wp\<close> push it through the control flow of a definition, so that a property of a whole
  decision tree is one simplification of its leaves.
\<close>

definition res_post :: "(exn \<Rightarrow> bool) \<Rightarrow> ('a \<Rightarrow> bool) \<Rightarrow> 'a res \<Rightarrow> bool" where
  "res_post E P r = (case r of Inl e \<Rightarrow> E e | Inr a \<Rightarrow> P a)"

named_theorems wp \<open>weakest preconditions of results\<close>

lemma res_post_simps [wp]:
  "res_post E P (Inl e) = E e"
  "res_post E P (Inr a) = P a"
  by (simp_all add: res_post_def)

lemma res_post_bindE [wp]: "res_post E P (bindE m f) = res_post E (\<lambda>a. res_post E P (f a)) m"
  by (cases m) (simp_all add: res_post_def)

lemma res_post_if [wp]:
  "res_post E P (if c then a else b) = ((c \<longrightarrow> res_post E P a) \<and> (\<not> c \<longrightarrow> res_post E P b))"
  by simp

lemma res_post_opt_to_res [wp]:
  "res_post E P (opt_to_res e x) = ((x = None \<longrightarrow> E e) \<and> (\<forall>a. x = Some a \<longrightarrow> P a))"
  by (cases x) (simp_all add: res_post_def)

lemma fst_if [wp]: "fst (if c then a else b) = (if c then fst a else fst b)"
  by simp

lemmas noted_wp [wp] = fst_bindN quiet_simps noting_simps throwN_simps

lemma res_post_mono:
  assumes "res_post E P r" and "\<And>e. E e \<Longrightarrow> E' e" and "\<And>a. P a \<Longrightarrow> Q a"
  shows "res_post E' Q r"
  using assms by (cases r) (simp_all add: res_post_def)

lemma res_post_conj:
  "res_post E P r \<Longrightarrow> res_post E Q r \<Longrightarrow> res_post E (\<lambda>a. P a \<and> Q a) r"
  by (cases r) (simp_all add: res_post_def)

lemma res_post_okD: "res_post E P r \<Longrightarrow> r = Inr a \<Longrightarrow> P a"
  by (simp add: res_post_def)

lemma res_post_errD: "res_post E P r \<Longrightarrow> r = Inl e \<Longrightarrow> E e"
  by (simp add: res_post_def)

definition invalid_at :: "nat \<Rightarrow> exn \<Rightarrow> bool" where
  "invalid_at pc e \<longleftrightarrow> (\<exists>msg. e = InvalidInstruction pc msg)"

lemma invalid_at_intro [simp]: "invalid_at pc (InvalidInstruction pc msg)"
  by (simp add: invalid_at_def)

section \<open>Loops over lists that may throw\<close>

fun foldE :: "('s \<Rightarrow> 'a \<Rightarrow> 's res) \<Rightarrow> 's \<Rightarrow> 'a list \<Rightarrow> 's res" where
  "foldE f s [] = Inr s"
| "foldE f s (x # xs) = bindE (f s x) (\<lambda>s'. foldE f s' xs)"

lemma foldE_invariant:
  assumes "foldE f s xs = Inr s'" "P s" "\<And>s x s'. P s \<Longrightarrow> x \<in> set xs \<Longrightarrow> f s x = Inr s' \<Longrightarrow> P s'"
  shows "P s'"
  using assms
proof (induction xs arbitrary: s)
  case (Cons x xs)
  from Cons.prems(1) obtain s1 where s1: "f s x = Inr s1" "foldE f s1 xs = Inr s'" by (auto simp: bindE_eq_Inr_iff)
  have "P s1" using Cons.prems(3) [OF Cons.prems(2) _ s1(1)] by simp
  moreover have "P t'" if "P t" "y \<in> set xs" "f t y = Inr t'" for t y t'
    using Cons.prems(3) [OF that(1) _ that(3)] that(2) by simp
  ultimately show ?case using Cons.IH [OF s1(2)] by blast
qed simp

lemma foldE_total:
  assumes "P s" "\<And>s x. P s \<Longrightarrow> x \<in> set xs \<Longrightarrow> \<exists>s'. f s x = Inr s' \<and> P s'"
  shows "\<exists>s'. foldE f s xs = Inr s' \<and> P s'"
  using assms
proof (induction xs arbitrary: s)
  case (Cons x xs)
  obtain s1 where s1: "f s x = Inr s1" "P s1" using Cons.prems(2) [OF Cons.prems(1)] by auto
  have "\<exists>t'. f t y = Inr t' \<and> P t'" if "P t" "y \<in> set xs" for t y using Cons.prems(2) [OF that(1)] that(2) by simp
  with Cons.IH [OF s1(2)] s1(1) show ?case by simp
qed simp

section \<open>Strings\<close>

text \<open>Decimal and hexadecimal printing, as \<^verbatim>\<open>std::to_string\<close> and \<^verbatim>\<open>std::hex\<close> do it.\<close>

definition digit_char :: "nat \<Rightarrow> char" where
  "digit_char d = (if d < 10 then char_of (48 + d) else char_of (87 + d))"

fun nat_to_base :: "nat \<Rightarrow> nat \<Rightarrow> string" where
  "nat_to_base b n = (if b < 2 \<or> n < b then [digit_char n]
                      else nat_to_base b (n div b) @ [digit_char (n mod b)])"

declare nat_to_base.simps [simp del]

definition int_to_string :: "int \<Rightarrow> string" where
  "int_to_string i = (if i < 0 then ''-'' @ nat_to_base 10 (nat (- i)) else nat_to_base 10 (nat i))"

definition hex_string :: "nat \<Rightarrow> string" where
  "hex_string n = nat_to_base 16 n"

section \<open>Words and lists\<close>

lemma sint_16_bounds: "- 32768 \<le> sint (x :: i16)" "sint (x :: i16) \<le> 32767"
  using sint_greater_eq [of x] sint_less [of x] by simp_all

lemma sint_32_bounds: "- 2147483648 \<le> sint (x :: i32)" "sint (x :: i32) \<le> 2147483647"
  using sint_greater_eq [of x] sint_less [of x] by simp_all

end
