(* ===== verification/Ebpf_Isa.thy ===== *)
theory Ebpf_Isa
  imports Ebpf_Prelude
begin

text \<open>
  \<^verbatim>\<open>ebpf_vm_isa.hpp\<close>: the 64-bit instruction slot, the opcode constants, the register numbers,
  and the two width tables of \<^verbatim>\<open>asm_unmarshal.cpp\<close>. The bit fields keep their widths: the two
  register numbers are 4-bit words, the signed offset a 16-bit and the signed immediate a
  32-bit word (read with \<open>sint\<close>). The lemmas show that the width tables and the two halves of
  a 64-bit immediate are inverse to one another.
\<close>

section \<open>The instruction slot\<close>

record ebpf_inst =
  opcode :: u8
  dst :: u4
  src :: u4
  offset :: i16
  imm :: i32

definition dst8 :: "ebpf_inst \<Rightarrow> u8" where
  "dst8 inst = ucast (dst inst)"

definition src8 :: "ebpf_inst \<Rightarrow> u8" where
  "src8 inst = ucast (src inst)"

section \<open>Opcode constants\<close>

definition INST_CLS_MASK :: u8 where [isa_consts]: "INST_CLS_MASK = 7"
definition INST_CLS_LD :: u8 where [isa_consts]: "INST_CLS_LD = 0"
definition INST_CLS_LDX :: u8 where [isa_consts]: "INST_CLS_LDX = 1"
definition INST_CLS_ST :: u8 where [isa_consts]: "INST_CLS_ST = 2"
definition INST_CLS_STX :: u8 where [isa_consts]: "INST_CLS_STX = 3"
definition INST_CLS_ALU :: u8 where [isa_consts]: "INST_CLS_ALU = 4"
definition INST_CLS_JMP :: u8 where [isa_consts]: "INST_CLS_JMP = 5"
definition INST_CLS_JMP32 :: u8 where [isa_consts]: "INST_CLS_JMP32 = 6"
definition INST_CLS_ALU64 :: u8 where [isa_consts]: "INST_CLS_ALU64 = 7"
definition INST_SRC_IMM :: u8 where [isa_consts]: "INST_SRC_IMM = 0"
definition INST_SRC_REG :: u8 where [isa_consts]: "INST_SRC_REG = 8"
definition INST_END_LE :: u8 where [isa_consts]: "INST_END_LE = 0"
definition INST_END_BE :: u8 where [isa_consts]: "INST_END_BE = 8"
definition INST_SIZE_W :: u8 where [isa_consts]: "INST_SIZE_W = 0"
definition INST_SIZE_H :: u8 where [isa_consts]: "INST_SIZE_H = 8"
definition INST_SIZE_B :: u8 where [isa_consts]: "INST_SIZE_B = 16"
definition INST_SIZE_DW :: u8 where [isa_consts]: "INST_SIZE_DW = 24"
definition INST_SIZE_MASK :: u8 where [isa_consts]: "INST_SIZE_MASK = 24"
definition INST_MODE_MASK :: u8 where [isa_consts]: "INST_MODE_MASK = 224"
definition INST_MODE_IMM :: u8 where [isa_consts]: "INST_MODE_IMM = 0"
definition INST_MODE_ABS :: u8 where [isa_consts]: "INST_MODE_ABS = 32"
definition INST_MODE_IND :: u8 where [isa_consts]: "INST_MODE_IND = 64"
definition INST_MODE_MEM :: u8 where [isa_consts]: "INST_MODE_MEM = 96"
definition INST_MODE_MEMSX :: u8 where [isa_consts]: "INST_MODE_MEMSX = 128"
definition INST_MODE_UNUSED1 :: u8 where [isa_consts]: "INST_MODE_UNUSED1 = 160"
definition INST_MODE_ATOMIC :: u8 where [isa_consts]: "INST_MODE_ATOMIC = 192"
definition INST_MODE_UNUSED2 :: u8 where [isa_consts]: "INST_MODE_UNUSED2 = 224"
definition INST_OP_LDDW_IMM :: u8 where [isa_consts]: "INST_OP_LDDW_IMM = (INST_CLS_LD OR INST_SRC_IMM OR INST_SIZE_DW)"
definition INST_FETCH :: u8 where [isa_consts]: "INST_FETCH = 1"
definition INST_JA :: u8 where [isa_consts]: "INST_JA = 0"
definition INST_CALL :: u8 where [isa_consts]: "INST_CALL = 8"
definition INST_EXIT :: u8 where [isa_consts]: "INST_EXIT = 9"
definition INST_OP_JA32 :: u8 where [isa_consts]: "INST_OP_JA32 = ((push_bit 4 INST_JA) OR INST_CLS_JMP32)"
definition INST_OP_JA16 :: u8 where [isa_consts]: "INST_OP_JA16 = ((push_bit 4 INST_JA) OR INST_CLS_JMP)"
definition INST_OP_CALL :: u8 where [isa_consts]: "INST_OP_CALL = ((push_bit 4 INST_CALL) OR INST_SRC_IMM OR INST_CLS_JMP)"
definition INST_OP_CALLX :: u8 where [isa_consts]: "INST_OP_CALLX = ((push_bit 4 INST_CALL) OR INST_SRC_REG OR INST_CLS_JMP)"
definition INST_OP_EXIT :: u8 where [isa_consts]: "INST_OP_EXIT = ((push_bit 4 INST_EXIT) OR INST_CLS_JMP)"
definition INST_CALL_STATIC_HELPER :: u8 where [isa_consts]: "INST_CALL_STATIC_HELPER = 0"
definition INST_CALL_LOCAL :: u8 where [isa_consts]: "INST_CALL_LOCAL = 1"
definition INST_CALL_BTF_HELPER :: u8 where [isa_consts]: "INST_CALL_BTF_HELPER = 2"
definition INST_ALU_OP_ADD :: u8 where [isa_consts]: "INST_ALU_OP_ADD = 0"
definition INST_ALU_OP_SUB :: u8 where [isa_consts]: "INST_ALU_OP_SUB = 16"
definition INST_ALU_OP_MUL :: u8 where [isa_consts]: "INST_ALU_OP_MUL = 32"
definition INST_ALU_OP_DIV :: u8 where [isa_consts]: "INST_ALU_OP_DIV = 48"
definition INST_ALU_OP_OR :: u8 where [isa_consts]: "INST_ALU_OP_OR = 64"
definition INST_ALU_OP_AND :: u8 where [isa_consts]: "INST_ALU_OP_AND = 80"
definition INST_ALU_OP_LSH :: u8 where [isa_consts]: "INST_ALU_OP_LSH = 96"
definition INST_ALU_OP_RSH :: u8 where [isa_consts]: "INST_ALU_OP_RSH = 112"
definition INST_ALU_OP_NEG :: u8 where [isa_consts]: "INST_ALU_OP_NEG = 128"
definition INST_ALU_OP_MOD :: u8 where [isa_consts]: "INST_ALU_OP_MOD = 144"
definition INST_ALU_OP_XOR :: u8 where [isa_consts]: "INST_ALU_OP_XOR = 160"
definition INST_ALU_OP_MOV :: u8 where [isa_consts]: "INST_ALU_OP_MOV = 176"
definition INST_ALU_OP_ARSH :: u8 where [isa_consts]: "INST_ALU_OP_ARSH = 192"
definition INST_ALU_OP_END :: u8 where [isa_consts]: "INST_ALU_OP_END = 208"
definition INST_ALU_OP_MASK :: u8 where [isa_consts]: "INST_ALU_OP_MASK = 240"

definition R0_RETURN_VALUE :: u8 where [isa_consts]: "R0_RETURN_VALUE = 0"
definition R6 :: u8 where [isa_consts]: "R6 = 6"
definition R10_STACK_POINTER :: u8 where [isa_consts]: "R10_STACK_POINTER = 10"
definition R11_ATOMIC_SCRATCH :: u8 where [isa_consts]: "R11_ATOMIC_SCRATCH = 11"

section \<open>Widths and 64-bit immediates\<close>

definition opcode_to_width :: "u8 \<Rightarrow> int res" where
  "opcode_to_width op =
     (if op AND INST_SIZE_MASK = INST_SIZE_B then Inr 1
      else if op AND INST_SIZE_MASK = INST_SIZE_H then Inr 2
      else if op AND INST_SIZE_MASK = INST_SIZE_W then Inr 4
      else if op AND INST_SIZE_MASK = INST_SIZE_DW then Inr 8
      else Inl (RuntimeError ''unexpected opcode''))"

definition width_to_opcode :: "int \<Rightarrow> u8 res" where
  "width_to_opcode width =
     (if width = 1 then Inr INST_SIZE_B
      else if width = 2 then Inr INST_SIZE_H
      else if width = 4 then Inr INST_SIZE_W
      else if width = 8 then Inr INST_SIZE_DW
      else Inl (RuntimeError ''unexpected width''))"

definition merge :: "i32 \<Rightarrow> i32 \<Rightarrow> u64" where
  "merge lo next_imm = push_bit 32 (scast next_imm) OR ucast lo"

definition split :: "u64 \<Rightarrow> i32 \<times> i32" where
  "split v = (ucast v, ucast (drop_bit 32 v))"

section \<open>Case analysis on the fields of an opcode\<close>

text \<open>
  An opcode has 256 values; facts about its fields are decided by checking each of them.
\<close>

lemma size_field_cases:
  "op AND INST_SIZE_MASK \<in> {INST_SIZE_W, INST_SIZE_H, INST_SIZE_B, INST_SIZE_DW}"
proof -
  have "\<forall>op :: u8. op AND 24 = 0 \<or> op AND 24 = 8 \<or> op AND 24 = 16 \<or> op AND 24 = 24"
    by code_simp
  then show ?thesis by (auto simp: isa_consts)
qed

lemma class_field_cases:
  "op AND INST_CLS_MASK \<in> {INST_CLS_LD, INST_CLS_LDX, INST_CLS_ST, INST_CLS_STX,
                           INST_CLS_ALU, INST_CLS_JMP, INST_CLS_JMP32, INST_CLS_ALU64}"
proof -
  have "\<forall>op :: u8. op AND 7 = 0 \<or> op AND 7 = 1 \<or> op AND 7 = 2 \<or> op AND 7 = 3
      \<or> op AND 7 = 4 \<or> op AND 7 = 5 \<or> op AND 7 = 6 \<or> op AND 7 = 7"
    by code_simp
  then show ?thesis by (auto simp: isa_consts)
qed

lemma opcode_to_width_total:
  "\<exists>w \<in> {1, 2, 4, 8}. opcode_to_width op = Inr w"
  using size_field_cases [of op] by (auto simp: opcode_to_width_def isa_consts)

lemma opcode_to_width_range: "opcode_to_width op = Inr w \<Longrightarrow> w \<in> {1, 2, 4, 8}"
  by (auto simp: opcode_to_width_def split: if_splits)

lemma width_to_opcode_ok_iff: "is_ok (width_to_opcode w) \<longleftrightarrow> w \<in> {1, 2, 4, 8}"
  by (auto simp: width_to_opcode_def)

lemma split_merge: "split (merge lo hi) = (lo, hi)"
proof -
  have "ucast (merge lo hi) = lo"
    by (rule bit_word_eqI) (auto simp: merge_def bit_simps)
  moreover have "ucast (drop_bit 32 (merge lo hi)) = hi"
    by (rule bit_word_eqI) (auto simp: merge_def bit_simps dest: bit_imp_le_length)
  ultimately show ?thesis by (simp add: split_def)
qed

lemma merge_split: "merge (fst (split v)) (snd (split v)) = v"
proof (rule bit_word_eqI)
  fix n assume "n < LENGTH(64)"
  then have "n < 64" by simp
  then show "bit (merge (fst (split v)) (snd (split v))) n = bit v n"
    by (cases "n < 32") (auto simp: merge_def split_def bit_simps)
qed

section \<open>Properties\<close>

text \<open>
  The two 32-bit halves of a 64-bit immediate and the immediate determine each other: splitting
  what \<^verbatim>\<open>merge\<close> built gives the halves back, and merging the halves of any value gives the value.
\<close>

theorem lddw_immediate_roundtrip:
  "split (merge lo hi) = (lo, hi) \<and> merge (fst (split v)) (snd (split v)) = v"
  by (simp add: split_merge merge_split)

text \<open>
  The size field of an opcode and the access width in bytes are in bijection: every opcode has a
  width, exactly the four widths have an encoding, and encoding is inverted by decoding.
\<close>

theorem width_tables_inverse:
  "(\<exists>w \<in> {1, 2, 4, 8}. opcode_to_width op = Inr w \<and> width_to_opcode w = Inr (op AND INST_SIZE_MASK)) \<and>
   (is_ok (width_to_opcode n) \<longleftrightarrow> n \<in> {1, 2, 4, 8})"
proof -
  have "\<exists>w \<in> {1, 2, 4, 8}. opcode_to_width op = Inr w \<and> width_to_opcode w = Inr (op AND INST_SIZE_MASK)"
    using size_field_cases [of op]
    by (auto simp: opcode_to_width_def width_to_opcode_def isa_consts)
  then show ?thesis by (simp add: width_to_opcode_ok_iff)
qed

end
