(* ===== verification/Ebpf_Syntax.thy ===== *)
theory Ebpf_Syntax
  imports Ebpf_Isa
begin

text \<open>
  \<^verbatim>\<open>asm_syntax.hpp\<close> and \<^verbatim>\<open>crab/label.hpp\<close>: labels, the abstract instructions the decoder
  produces, and the assertions the verifier attaches to them. Every struct is a record, every
  enum and every \<^verbatim>\<open>std::variant\<close> a datatype. Immediate values are 64-bit words, register
  numbers bytes, and the \<^verbatim>\<open>int32_t\<close> fields integers whose range is part of the
  well-formedness predicate of the decoder.
\<close>

section \<open>Labels\<close>

record label_t =
  stack_frame_prefix :: string
  lbl_from :: int
  lbl_to :: int
  special_label :: string

definition make_label :: "int \<Rightarrow> int \<Rightarrow> string \<Rightarrow> label_t" where
  "make_label index to_index prefix =
     \<lparr>stack_frame_prefix = prefix, lbl_from = index, lbl_to = to_index, special_label = ''''\<rparr>"

definition label :: "int \<Rightarrow> label_t" where
  "label index = make_label index (- 1) ''''"

definition make_jump :: "label_t \<Rightarrow> label_t \<Rightarrow> label_t" where
  "make_jump src_label target_label =
     make_label (lbl_from src_label) (lbl_from target_label) (stack_frame_prefix target_label)"

definition make_increment_counter :: "label_t \<Rightarrow> label_t" where
  "make_increment_counter l =
     (make_label (lbl_from l) (lbl_to l) (stack_frame_prefix l))\<lparr>special_label := ''counter''\<rparr>"

definition isjump :: "label_t \<Rightarrow> bool" where
  "isjump l \<longleftrightarrow> lbl_to l \<noteq> - 1"

definition STACK_FRAME_DELIMITER :: char where
  "STACK_FRAME_DELIMITER = CHR ''/''"

definition call_stack_depth :: "label_t \<Rightarrow> int" where
  "call_stack_depth l =
     (if stack_frame_prefix l = [] then 1
      else 2 + int (count_list (stack_frame_prefix l) STACK_FRAME_DELIMITER))"

definition entry_label :: label_t where
  "entry_label = label (- 1)"

definition exit_label :: label_t where
  "exit_label = label (2 ^ 31 - 1)"

section \<open>Operands and instructions\<close>

datatype Reg = Reg u8

primrec reg_v :: "Reg \<Rightarrow> u8" where
  "reg_v (Reg v) = v"

datatype val = Imm u64 | RegV Reg   \<comment> \<open>\<open>Value = std::variant<Imm, Reg>\<close>\<close>

datatype bin_op_t =
    Bin_MOV | Bin_ADD | Bin_SUB | Bin_MUL | Bin_UDIV | Bin_UMOD | Bin_OR | Bin_AND | Bin_LSH
  | Bin_RSH | Bin_ARSH | Bin_XOR | Bin_SDIV | Bin_SMOD | Bin_MOVSX8 | Bin_MOVSX16 | Bin_MOVSX32

record bin_t =
  bin_op :: bin_op_t
  bin_dst :: Reg
  bin_v :: val
  bin_is64 :: bool
  bin_lddw :: bool

datatype un_op_t =
    Un_BE16 | Un_BE32 | Un_BE64 | Un_LE16 | Un_LE32 | Un_LE64
  | Un_SWAP16 | Un_SWAP32 | Un_SWAP64 | Un_NEG

record un_t =
  un_op :: un_op_t
  un_dst :: Reg
  un_is64 :: bool

record load_map_fd_t =
  lmf_dst :: Reg
  lmf_mapfd :: i32

datatype cond_op_t =
    Cond_EQ | Cond_NE | Cond_SET | Cond_NSET | Cond_LT | Cond_LE | Cond_GT | Cond_GE
  | Cond_SLT | Cond_SLE | Cond_SGT | Cond_SGE

record condition_t =
  cond_op :: cond_op_t
  cond_left :: Reg
  cond_right :: val
  cond_is64 :: bool

record jmp_t =
  jmp_cond :: "condition_t option"
  jmp_target :: label_t

datatype arg_single_kind =
    Single_MAP_FD | Single_MAP_FD_PROGRAMS | Single_PTR_TO_MAP_KEY | Single_PTR_TO_MAP_VALUE
  | Single_PTR_TO_CTX | Single_ANYTHING

record arg_single_t =
  single_kind :: arg_single_kind
  single_reg :: Reg

datatype arg_pair_kind =
    Pair_PTR_TO_READABLE_MEM | Pair_PTR_TO_READABLE_MEM_OR_NULL | Pair_PTR_TO_WRITABLE_MEM

record arg_pair_t =
  pair_kind :: arg_pair_kind
  pair_mem :: Reg
  pair_size :: Reg
  pair_can_be_zero :: bool

record call_t =
  call_func :: i32
  call_name :: string
  call_is_map_lookup :: bool
  call_reallocate_packet :: bool
  call_singles :: "arg_single_t list"
  call_pairs :: "arg_pair_t list"
  call_prefix :: string

record call_local_t =
  cl_target :: label_t
  cl_prefix :: string

record deref_t =
  deref_width :: int
  deref_basereg :: Reg
  deref_offset :: int

record mem_t =
  mem_access :: deref_t
  mem_value :: val
  mem_is_load :: bool

record packet_t =
  pkt_width :: int
  pkt_offset :: i32
  pkt_regoffset :: "Reg option"

datatype atomic_op_t =
    Atomic_ADD | Atomic_OR | Atomic_AND | Atomic_XOR | Atomic_XCHG | Atomic_CMPXCHG

record atomic_t =
  at_op :: atomic_op_t
  at_fetch :: bool
  at_access :: deref_t
  at_valreg :: Reg

record assume_t =
  assume_cond :: condition_t
  assume_is_implicit :: bool

datatype Instruction =
    Undefined int
  | Bin bin_t
  | UnOp un_t   \<comment> \<open>\<open>Un\<close> of the source; that name is union in HOL\<close>
  | LoadMapFd load_map_fd_t
  | Call call_t
  | CallLocal call_local_t
  | Callx Reg
  | Exit string
  | Jmp jmp_t
  | Mem mem_t
  | Packet packet_t
  | Atomic atomic_t
  | Assume assume_t
  | IncrementLoopCounter label_t

text \<open>The enumerators of \<^verbatim>\<open>Atomic::Op\<close> carry the encoding of the immediate field.\<close>

primrec atomic_op_code :: "atomic_op_t \<Rightarrow> i32" where
  "atomic_op_code Atomic_ADD = 0x00"
| "atomic_op_code Atomic_OR = 0x40"
| "atomic_op_code Atomic_AND = 0x50"
| "atomic_op_code Atomic_XOR = 0xa0"
| "atomic_op_code Atomic_XCHG = 0xe0"
| "atomic_op_code Atomic_CMPXCHG = 0xf0"

section \<open>Assertions\<close>

datatype access_type = Access_compare | Access_read | Access_write

datatype type_group =
    TG_number | TG_map_fd | TG_ctx | TG_packet | TG_stack | TG_shared | TG_map_fd_programs
  | TG_mem | TG_mem_or_num | TG_pointer | TG_ptr_or_num | TG_stack_or_packet | TG_singleton_ptr

record valid_access_t =
  va_call_stack_depth :: int
  va_reg :: Reg
  va_offset :: int
  va_width :: val
  va_or_null :: bool
  va_access_type :: access_type

datatype Assertion =
    Comparable Reg Reg bool          \<comment> \<open>r1, r2, or\_r2\_is\_number\<close>
  | Addable Reg Reg                  \<comment> \<open>ptr, num\<close>
  | ValidDivisor Reg bool            \<comment> \<open>reg, is\_signed\<close>
  | ValidAccess valid_access_t
  | ValidStore Reg Reg               \<comment> \<open>mem, val\<close>
  | ValidSize Reg bool               \<comment> \<open>reg, can\_be\_zero\<close>
  | ValidMapKeyValue Reg Reg bool    \<comment> \<open>access\_reg, map\_fd\_reg, key\<close>
  | ValidCall i32 string             \<comment> \<open>func, stack\_frame\_prefix\<close>
  | TypeConstraint Reg type_group
  | FuncConstraint Reg
  | ZeroCtxOffset Reg
  | BoundedLoopCount label_t

record guarded_instruction =
  cmd :: Instruction
  preconditions :: "Assertion list"

section \<open>Facts about labels\<close>

lemma label_simps [simp]:
  "lbl_from (label i) = i"
  "lbl_to (label i) = - 1"
  "stack_frame_prefix (label i) = ''''"
  "special_label (label i) = ''''"
  by (simp_all add: label_def make_label_def)

lemma label_inject [simp]: "label i = label j \<longleftrightarrow> i = j"
  by (simp add: label_def make_label_def)

lemma isjump_label [simp]: "\<not> isjump (label i)"
  by (simp add: isjump_def)

lemma make_jump_simps [simp]:
  "lbl_from (make_jump s t) = lbl_from s"
  "lbl_to (make_jump s t) = lbl_from t"
  "stack_frame_prefix (make_jump s t) = stack_frame_prefix t"
  "special_label (make_jump s t) = ''''"
  by (simp_all add: make_jump_def make_label_def)

lemma call_stack_depth_pos: "1 \<le> call_stack_depth l"
  by (simp add: call_stack_depth_def)

lemma atomic_op_code_inject: "atomic_op_code a = atomic_op_code b \<Longrightarrow> a = b"
  by (cases a; cases b) simp_all

end
