(* ===== verification/Ebpf_Platform.thy ===== *)
theory Ebpf_Platform
  imports Ebpf_Syntax
begin

text \<open>
  The platform abstraction layer: \<^verbatim>\<open>ebpf_base.h\<close>, \<^verbatim>\<open>helpers.hpp\<close>,
  \<^verbatim>\<open>platform.hpp\<close>, \<^verbatim>\<open>spec_type_descriptors.hpp\<close>, \<^verbatim>\<open>config.hpp\<close> and the conformance
  groups of \<^verbatim>\<open>bpf_conformance.h\<close>.

  A pointer to a context descriptor is an address: the platform compares such pointers for
  identity, so two descriptors with equal contents are different. The platform callbacks read
  the program type of the program being verified from a thread-local variable; here it is an
  argument of the callbacks.
\<close>

section \<open>Helper prototypes\<close>

datatype ebpf_return_type_t =
    EBPF_RETURN_TYPE_INTEGER
  | EBPF_RETURN_TYPE_PTR_TO_MAP_VALUE_OR_NULL
  | EBPF_RETURN_TYPE_INTEGER_OR_NO_RETURN_IF_SUCCEED
  | EBPF_RETURN_TYPE_UNSUPPORTED

datatype ebpf_argument_type_t =
    EBPF_ARGUMENT_TYPE_DONTCARE
  | EBPF_ARGUMENT_TYPE_ANYTHING
  | EBPF_ARGUMENT_TYPE_CONST_SIZE
  | EBPF_ARGUMENT_TYPE_CONST_SIZE_OR_ZERO
  | EBPF_ARGUMENT_TYPE_PTR_TO_CTX
  | EBPF_ARGUMENT_TYPE_PTR_TO_MAP
  | EBPF_ARGUMENT_TYPE_PTR_TO_MAP_OF_PROGRAMS
  | EBPF_ARGUMENT_TYPE_PTR_TO_MAP_KEY
  | EBPF_ARGUMENT_TYPE_PTR_TO_MAP_VALUE
  | EBPF_ARGUMENT_TYPE_PTR_TO_READABLE_MEM
  | EBPF_ARGUMENT_TYPE_PTR_TO_READABLE_MEM_OR_NULL
  | EBPF_ARGUMENT_TYPE_PTR_TO_WRITABLE_MEM
  | EBPF_ARGUMENT_TYPE_UNSUPPORTED

record ebpf_context_descriptor_t =
  ctx_size :: int
  ctx_data :: int
  ctx_end :: int
  ctx_meta :: int

type_synonym ctx_ptr = nat   \<comment> \<open>address of a context descriptor\<close>

record EbpfHelperPrototype =
  proto_name :: string
  proto_return_type :: ebpf_return_type_t
  proto_argument_type :: "ebpf_argument_type_t list"   \<comment> \<open>array of 5\<close>
  proto_reallocate_packet :: bool
  proto_context_descriptor :: "ctx_ptr option"

definition MAX_CALL_STACK_FRAMES :: int where
  "MAX_CALL_STACK_FRAMES = 8"

definition EBPF_SUBPROGRAM_STACK_SIZE :: int where
  "EBPF_SUBPROGRAM_STACK_SIZE = 512"

definition EBPF_TOTAL_STACK_SIZE :: int where
  "EBPF_TOTAL_STACK_SIZE = MAX_CALL_STACK_FRAMES * EBPF_SUBPROGRAM_STACK_SIZE"

section \<open>Program information and options\<close>

datatype EbpfMapValueType = MapValue_ANY | MapValue_MAP | MapValue_PROGRAM

record EbpfMapType =
  mt_platform_specific_type :: u32
  mt_name :: string
  mt_is_array :: bool
  mt_value_type :: EbpfMapValueType

record EbpfMapDescriptor =
  md_original_fd :: int
  md_type :: u32
  md_key_size :: u32
  md_value_size :: u32
  md_max_entries :: u32
  md_inner_map_fd :: u32

definition DEFAULT_MAP_FD :: u32 where
  "DEFAULT_MAP_FD = 0xffffffff"

record EbpfProgramType =
  pt_name :: string
  pt_context_descriptor :: "ctx_ptr option"
  pt_platform_specific_data :: u64
  pt_section_prefixes :: "string list"
  pt_is_privileged :: bool

record btf_line_info_t =
  li_file_name :: string
  li_source_line :: string
  li_line_number :: u32
  li_column_number :: u32

type_synonym LabeledInstruction = "label_t \<times> Instruction \<times> btf_line_info_t option"
type_synonym InstructionSeq = "LabeledInstruction list"

record ebpf_verifier_options_t =
  check_for_termination :: bool
  must_have_exit :: bool
  assume_assertions :: bool
  mock_map_fds :: bool
  strict :: bool
  allow_division_by_zero :: bool
  setup_constraints :: bool
  big_endian :: bool

definition default_options :: ebpf_verifier_options_t where
  "default_options = \<lparr>check_for_termination = False, must_have_exit = True,
     assume_assertions = False, mock_map_fds = True, strict = False,
     allow_division_by_zero = True, setup_constraints = True, big_endian = False\<rparr>"

section \<open>Conformance groups and the platform\<close>

definition group_base32 :: u32 where "group_base32 = 0x01"
definition group_base64 :: u32 where "group_base64 = 0x02"
definition group_atomic32 :: u32 where "group_atomic32 = 0x04"
definition group_atomic64 :: u32 where "group_atomic64 = 0x08"
definition group_divmul32 :: u32 where "group_divmul32 = 0x10"
definition group_divmul64 :: u32 where "group_divmul64 = 0x20"
definition group_packet :: u32 where "group_packet = 0x40"
definition group_callx :: u32 where "group_callx = 0x80"

definition default_groups :: u32 where
  "default_groups = group_base32 OR group_base64 OR group_atomic32 OR group_atomic64
                    OR group_divmul32 OR group_divmul64"

lemmas group_defs = group_base32_def group_base64_def group_atomic32_def group_atomic64_def
  group_divmul32_def group_divmul64_def group_packet_def group_callx_def default_groups_def

type_synonym EquivalenceKey = "EbpfMapValueType \<times> u32 \<times> u32 \<times> u32"
type_synonym fd_cache = "(EquivalenceKey \<times> int) list"   \<comment> \<open>newest entry last\<close>

text \<open>
  The callbacks on maps get the thread-local cache and descriptor list as arguments and return
  the new ones; \<^verbatim>\<open>parse_maps_section\<close> gets the data, the size and the number of the records.
\<close>

record ebpf_platform_t =
  get_program_type :: "string \<Rightarrow> string \<Rightarrow> EbpfProgramType"
  get_helper_prototype :: "EbpfProgramType \<Rightarrow> i32 \<Rightarrow> EbpfHelperPrototype res"
  is_helper_usable :: "EbpfProgramType \<Rightarrow> i32 \<Rightarrow> bool"
  map_record_size :: nat
  parse_maps_section :: "ebpf_verifier_options_t \<Rightarrow> fd_cache \<Rightarrow> EbpfMapDescriptor list \<Rightarrow> u8 list
    \<Rightarrow> nat \<Rightarrow> nat \<Rightarrow> (fd_cache \<times> EbpfMapDescriptor list) res"
  get_map_descriptor :: "EbpfMapDescriptor list \<Rightarrow> int \<Rightarrow> EbpfMapDescriptor res"
  get_map_type :: "u32 \<Rightarrow> EbpfMapType res"
  resolve_inner_map_references :: "EbpfMapDescriptor list \<Rightarrow> EbpfMapDescriptor list res"
  supported_conformance_groups :: u32

definition supports_group :: "ebpf_platform_t \<Rightarrow> u32 \<Rightarrow> bool" where
  "supports_group p grp \<longleftrightarrow> supported_conformance_groups p AND grp = grp"

record program_info =
  info_platform :: ebpf_platform_t
  info_map_descriptors :: "EbpfMapDescriptor list"
  info_type :: EbpfProgramType
  info_cache :: fd_cache
  info_line_info :: "(int \<times> btf_line_info_t) list"   \<comment> \<open>the \<open>std::map\<close> as its sorted entries\<close>

record raw_program =
  rp_filename :: string
  rp_section_name :: string
  rp_insn_off :: u32
  rp_function_name :: string
  rp_prog :: "ebpf_inst list"
  rp_info :: program_info
  rp_resolved_subprograms :: bool

lemma supports_group_mono:
  assumes "supports_group p (g OR h)"
  shows "supports_group p g" and "supports_group p h"
proof -
  have bits: "bit (supported_conformance_groups p) n" if "bit (g OR h) n" for n
    using assms that bit_and_iff [of "supported_conformance_groups p" "g OR h" n]
    by (simp add: supports_group_def)
  show "supports_group p g" "supports_group p h"
    unfolding supports_group_def
    by (rule bit_word_eqI; use bits in \<open>auto simp: bit_simps\<close>)+
qed

end
