(* ===== verification/Ebpf_Unmarshal.thy ===== *)
theory Ebpf_Unmarshal
  imports Ebpf_Platform
begin

text \<open>
  \<^verbatim>\<open>asm_unmarshal.cpp\<close>: the decoder from raw instruction slots to abstract instructions. One
  definition per member function of \<^verbatim>\<open>Unmarshaller\<close>, in the order of the file, every
  \<^verbatim>\<open>throw\<close> a branch. A message of \<^verbatim>\<open>CRAB_ERROR\<close> is kept up to its first literal.
\<close>

section \<open>Messages and exceptions\<close>

definition make_opcode_message :: "string \<Rightarrow> u8 \<Rightarrow> string" where
  "make_opcode_message msg op = msg @ '' op 0x'' @ hex_string (unat op)"

definition bad_instruction :: "nat \<Rightarrow> u8 \<Rightarrow> exn" where
  "bad_instruction pc op = InvalidInstruction pc (make_opcode_message ''bad instruction'' op)"

definition invalid_op :: "nat \<Rightarrow> string \<Rightarrow> u8 \<Rightarrow> exn" where
  "invalid_op pc msg op = InvalidInstruction pc (make_opcode_message msg op)"

definition getMemIsLoad :: "u8 \<Rightarrow> bool res" where
  "getMemIsLoad op =
     (if op AND INST_CLS_MASK = INST_CLS_LD \<or> op AND INST_CLS_MASK = INST_CLS_LDX then Inr True
      else if op AND INST_CLS_MASK = INST_CLS_ST \<or> op AND INST_CLS_MASK = INST_CLS_STX then Inr False
      else Inl (RuntimeError ''unexpected opcode''))"

definition getMemWidth :: "u8 \<Rightarrow> int res" where
  "getMemWidth op =
     (if op AND INST_SIZE_MASK = INST_SIZE_B then Inr 1
      else if op AND INST_SIZE_MASK = INST_SIZE_H then Inr 2
      else if op AND INST_SIZE_MASK = INST_SIZE_W then Inr 4
      else if op AND INST_SIZE_MASK = INST_SIZE_DW then Inr 8
      else Inl (RuntimeError ''unexpected opcode''))"

definition shift32 :: "Reg \<Rightarrow> bin_op_t \<Rightarrow> Instruction" where
  "shift32 d op = Bin \<lparr>bin_op = op, bin_dst = d, bin_v = Imm 32, bin_is64 = True, bin_lddw = False\<rparr>"

section \<open>Arithmetic instructions\<close>

definition supports :: "program_info \<Rightarrow> u32 \<Rightarrow> bool" where
  "supports info g = supports_group (info_platform info) g"

text \<open>
  \<^verbatim>\<open>getAluOp\<close>, in two halves: the operations that accept a nonzero offset, and the others.
\<close>

definition getAluOp_end :: "program_info \<Rightarrow> nat \<Rightarrow> ebpf_inst \<Rightarrow> un_op_t res" where
  "getAluOp_end info pc inst =
    (let op = opcode inst; bad = Inl (bad_instruction pc op); be = (op AND INST_END_BE \<noteq> 0) in
     if src inst \<noteq> 0 then bad
     else if op AND INST_CLS_MASK = INST_CLS_ALU64 then
       (if be then bad
        else if imm inst = 16 then (if \<not> supports info group_base32 then bad else Inr Un_SWAP16)
        else if imm inst = 32 then (if \<not> supports info group_base32 then bad else Inr Un_SWAP32)
        else if imm inst = 64 then (if \<not> supports info group_base64 then bad else Inr Un_SWAP64)
        else Inl (InvalidInstruction pc ''unsupported immediate''))
     else if imm inst = 16 then
       (if \<not> supports info group_base32 then bad else Inr (if be then Un_BE16 else Un_LE16))
     else if imm inst = 32 then
       (if \<not> supports info group_base32 then bad else Inr (if be then Un_BE32 else Un_LE32))
     else if imm inst = 64 then
       (if \<not> supports info group_base64 then bad else Inr (if be then Un_BE64 else Un_LE64))
     else Inl (InvalidInstruction pc ''unsupported immediate''))"

definition getAluOp :: "program_info \<Rightarrow> nat \<Rightarrow> ebpf_inst \<Rightarrow> (bin_op_t + un_op_t) noted" where
  "getAluOp info pc inst =
    (let op = opcode inst;
         is64 = (op AND INST_CLS_MASK = INST_CLS_ALU64);
         alu = op AND INST_ALU_OP_MASK;
         divmul = supports info (if is64 then group_divmul64 else group_divmul32);
         bin = (\<lambda>b. noting [] (Inl b)) in
     if alu = INST_ALU_OP_DIV then
       (if \<not> divmul then throwN (bad_instruction pc op)
        else if offset inst = 0 then bin Bin_UDIV
        else if offset inst = 1 then bin Bin_SDIV
        else throwN (invalid_op pc ''invalid offset for'' op))
     else if alu = INST_ALU_OP_MOD then
       (if \<not> divmul then throwN (bad_instruction pc op)
        else if offset inst = 0 then bin Bin_UMOD
        else if offset inst = 1 then bin Bin_SMOD
        else throwN (invalid_op pc ''invalid offset for'' op))
     else if alu = INST_ALU_OP_MOV then
       (if 0 < sint (offset inst) \<and> op AND INST_SRC_REG = 0
        then throwN (invalid_op pc ''nonzero offset for'' op)
        else if offset inst = 0 then bin Bin_MOV
        else if offset inst = 8 then bin Bin_MOVSX8
        else if offset inst = 16 then bin Bin_MOVSX16
        else if offset inst = 32 then bin Bin_MOVSX32
        else throwN (invalid_op pc ''invalid offset for'' op))
     else if offset inst \<noteq> 0 then throwN (invalid_op pc ''nonzero offset for'' op)
     else if alu = INST_ALU_OP_ADD then bin Bin_ADD
     else if alu = INST_ALU_OP_SUB then bin Bin_SUB
     else if alu = INST_ALU_OP_MUL then
       (if \<not> divmul then throwN (bad_instruction pc op) else bin Bin_MUL)
     else if alu = INST_ALU_OP_OR then bin Bin_OR
     else if alu = INST_ALU_OP_AND then bin Bin_AND
     else if alu = INST_ALU_OP_LSH then bin Bin_LSH
     else if alu = INST_ALU_OP_RSH then bin Bin_RSH
     else if alu = INST_ALU_OP_NEG then
       (if op AND INST_SRC_REG \<noteq> 0 then throwN (bad_instruction pc op)
        else if src inst \<noteq> 0 then throwN (bad_instruction pc op)
        else if imm inst \<noteq> 0 then throwN (invalid_op pc ''nonzero imm for'' op)
        else noting [] (Inr Un_NEG))
     else if alu = INST_ALU_OP_XOR then bin Bin_XOR
     else if alu = INST_ALU_OP_ARSH then
       noting (if op AND INST_CLS_MASK = INST_CLS_ALU then [''arsh32 is not allowed''] else [])
              (Inl Bin_ARSH)
     else if alu = INST_ALU_OP_END then quiet (bindE (getAluOp_end info pc inst) (\<lambda>u. Inr (Inr u)))
     else if alu = 0xe0 then throwN (bad_instruction pc op)
     else if alu = 0xf0 then throwN (bad_instruction pc op)
     else bin Bin_MOV)"

definition getAtomicOp :: "nat \<Rightarrow> ebpf_inst \<Rightarrow> atomic_op_t res" where
  "getAtomicOp pc inst =
    (let op = imm inst AND NOT (ucast INST_FETCH);
         unsupported = Inl (InvalidInstruction pc ''unsupported immediate'') in
     if op = atomic_op_code Atomic_XCHG \<or> op = atomic_op_code Atomic_CMPXCHG then
       (if imm inst AND ucast INST_FETCH = 0 then unsupported
        else Inr (if op = atomic_op_code Atomic_XCHG then Atomic_XCHG else Atomic_CMPXCHG))
     else if op = atomic_op_code Atomic_ADD then Inr Atomic_ADD
     else if op = atomic_op_code Atomic_OR then Inr Atomic_OR
     else if op = atomic_op_code Atomic_AND then Inr Atomic_AND
     else if op = atomic_op_code Atomic_XOR then Inr Atomic_XOR
     else unsupported)"

definition sign_extend :: "i32 \<Rightarrow> u64" where
  "sign_extend i = scast i"

definition zero_extend :: "i32 \<Rightarrow> u64" where
  "zero_extend i = ucast i"

definition getBinValue :: "nat \<Rightarrow> ebpf_inst \<Rightarrow> val res" where
  "getBinValue pc inst =
    (if opcode inst AND INST_SRC_REG \<noteq> 0 then
       (if imm inst \<noteq> 0 then Inl (invalid_op pc ''nonzero imm for'' (opcode inst))
        else Inr (RegV (Reg (src8 inst))))
     else if src inst \<noteq> 0 then Inl (bad_instruction pc (opcode inst))
     else Inr (Imm (sign_extend (imm inst))))"

definition getJmpOp :: "nat \<Rightarrow> u8 \<Rightarrow> cond_op_t res" where
  "getJmpOp pc op =
    (let n = drop_bit 4 op AND 0xF in
     if n = 0x0 then Inr Cond_EQ
     else if n = 0x1 then Inr Cond_EQ
     else if n = 0x2 then Inr Cond_GT
     else if n = 0x3 then Inr Cond_GE
     else if n = 0x4 then Inr Cond_SET
     else if n = 0x5 then Inr Cond_NE
     else if n = 0x6 then Inr Cond_SGT
     else if n = 0x7 then Inr Cond_SGE
     else if n = 0x8 then Inr Cond_EQ
     else if n = 0x9 then Inr Cond_EQ
     else if n = 0xa then Inr Cond_LT
     else if n = 0xb then Inr Cond_LE
     else if n = 0xc then Inr Cond_SLT
     else if n = 0xd then Inr Cond_SLE
     else if n = 0xe then Inl (bad_instruction pc op)
     else if n = 0xf then Inl (bad_instruction pc op)
     else Inr Cond_EQ)"

section \<open>Memory instructions\<close>

text \<open>The packet-access modes of \<^verbatim>\<open>makeMemOp\<close>: \<open>INST_MODE_ABS\<close> and \<open>INST_MODE_IND\<close>.\<close>

definition makeMemOp_packet :: "program_info \<Rightarrow> nat \<Rightarrow> ebpf_inst \<Rightarrow> int \<Rightarrow> bool \<Rightarrow> Instruction res" where
  "makeMemOp_packet info pc inst width ind =
    (let op = opcode inst; isLD = (op AND INST_CLS_MASK = INST_CLS_LD) in
     if \<not> supports info group_packet \<or> \<not> isLD \<or> width = 8 then Inl (bad_instruction pc op)
     else if dst inst \<noteq> 0 then Inl (invalid_op pc ''nonzero dst for register'' op)
     else if \<not> ind \<and> 0 < src inst then Inl (invalid_op pc ''bad instruction'' op)
     else if ind \<and> R10_STACK_POINTER < src8 inst then Inl (InvalidInstruction pc ''bad register'')
     else if offset inst \<noteq> 0 then Inl (invalid_op pc ''nonzero offset for'' op)
     else Inr (Packet \<lparr>pkt_width = width, pkt_offset = imm inst,
                       pkt_regoffset = (if ind then Some (Reg (src8 inst)) else None)\<rparr>))"

definition makeMemOp_mem :: "nat \<Rightarrow> ebpf_inst \<Rightarrow> int \<Rightarrow> Instruction noted" where
  "makeMemOp_mem pc inst width =
    (let op = opcode inst in
     if op AND INST_CLS_MASK = INST_CLS_LD then throwN (bad_instruction pc op)
     else bindN (quiet (getMemIsLoad op)) (\<lambda>isLoad.
       let isImm = (op AND 1 = 0) in
       if isLoad \<and> dst8 inst = R10_STACK_POINTER
       then throwN (InvalidInstruction pc ''cannot modify r10'')
       else if isImm \<and> src inst \<noteq> 0 then throwN (bad_instruction pc op)
       else if \<not> isImm \<and> imm inst \<noteq> 0 then throwN (invalid_op pc ''nonzero imm for'' op)
       else if isLoad \<and> isImm then throwN AssertionFailure
       else
         let basereg = (if isLoad then src8 inst else dst8 inst) in
         bindN (quiet (opcode_to_width op)) (\<lambda>w.
           noting
             (if basereg = R10_STACK_POINTER \<and>
                 (0 < sint (offset inst) + w \<or> sint (offset inst) < - EBPF_TOTAL_STACK_SIZE)
              then [''Stack access out of bounds''] else [])
             (Mem \<lparr>mem_access = \<lparr>deref_width = width, deref_basereg = Reg basereg,
                                 deref_offset = sint (offset inst)\<rparr>,
                   mem_value = (if isLoad then RegV (Reg (dst8 inst))
                                else if isImm then Imm (zero_extend (imm inst))
                                else RegV (Reg (src8 inst))),
                   mem_is_load = isLoad\<rparr>))))"

definition makeMemOp_atomic :: "program_info \<Rightarrow> nat \<Rightarrow> ebpf_inst \<Rightarrow> int \<Rightarrow> Instruction res" where
  "makeMemOp_atomic info pc inst width =
    (let op = opcode inst; sz = op AND INST_SIZE_MASK in
     if op AND INST_CLS_MASK \<noteq> INST_CLS_STX \<or> (sz \<noteq> INST_SIZE_W \<and> sz \<noteq> INST_SIZE_DW)
     then Inl (bad_instruction pc op)
     else if \<not> supports info (if sz = INST_SIZE_DW then group_atomic64 else group_atomic32)
     then Inl (bad_instruction pc op)
     else bindE (getAtomicOp pc inst) (\<lambda>aop.
       Inr (Atomic \<lparr>at_op = aop,
                    at_fetch = (imm inst AND ucast INST_FETCH = ucast INST_FETCH),
                    at_access = \<lparr>deref_width = width, deref_basereg = Reg (dst8 inst),
                                 deref_offset = sint (offset inst)\<rparr>,
                    at_valreg = Reg (src8 inst)\<rparr>)))"

definition makeMemOp :: "program_info \<Rightarrow> pc_t \<Rightarrow> ebpf_inst \<Rightarrow> Instruction noted" where
  "makeMemOp info pc inst =
    (let op = opcode inst; md = op AND INST_MODE_MASK; n = unat pc in
     if R10_STACK_POINTER < dst8 inst \<or> R10_STACK_POINTER < src8 inst
     then throwN (InvalidInstruction n ''bad register'')
     else bindN (quiet (getMemWidth op)) (\<lambda>width.
       if \<not> supports info (if width = 8 then group_base64 else group_base32)
       then throwN (bad_instruction n op)
       else if md = INST_MODE_IMM then throwN (bad_instruction n op)
       else if md = INST_MODE_ABS then quiet (makeMemOp_packet info n inst width False)
       else if md = INST_MODE_IND then quiet (makeMemOp_packet info n inst width True)
       else if md = INST_MODE_MEM then makeMemOp_mem n inst width
       else if md = INST_MODE_ATOMIC then quiet (makeMemOp_atomic info n inst width)
       else throwN (bad_instruction n op)))"

definition makeAluOp ::
  "ebpf_verifier_options_t \<Rightarrow> program_info \<Rightarrow> nat \<Rightarrow> ebpf_inst \<Rightarrow> Instruction noted" where
  "makeAluOp opts info pc inst =
    (let op = opcode inst; is64 = (op AND INST_CLS_MASK = INST_CLS_ALU64) in
     if \<not> supports info (if is64 then group_base64 else group_base32)
     then throwN (bad_instruction pc op)
     else if dst8 inst = R10_STACK_POINTER then throwN (InvalidInstruction pc ''invalid target r10'')
     else if R10_STACK_POINTER < dst8 inst \<or> R10_STACK_POINTER < src8 inst
     then throwN (InvalidInstruction pc ''bad register'')
     else bindN (getAluOp info pc inst) (\<lambda>alu.
       case alu of
         Inr uop \<Rightarrow> noting [] (UnOp \<lparr>un_op = uop, un_dst = Reg (dst8 inst), un_is64 = is64\<rparr>)
       | Inl bop \<Rightarrow>
           bindN (quiet (getBinValue pc inst)) (\<lambda>v.
             noting
               (if \<not> allow_division_by_zero opts \<and> (bop = Bin_UDIV \<or> bop = Bin_UMOD) \<and> v = Imm 0
                then [''division by zero''] else [])
               (Bin \<lparr>bin_op = bop, bin_dst = Reg (dst8 inst), bin_v = v,
                     bin_is64 = is64, bin_lddw = False\<rparr>))))"

definition makeLddw ::
  "program_info \<Rightarrow> ebpf_inst \<Rightarrow> i32 \<Rightarrow> ebpf_inst list \<Rightarrow> pc_t \<Rightarrow> Instruction res" where
  "makeLddw info inst next_imm insts pc =
    (let op = opcode inst; n = unat pc in
     if \<not> supports info group_base64 then Inl (bad_instruction n op)
     else if length insts - 1 \<le> n then Inl (InvalidInstruction n ''incomplete lddw'')
     else
       let nxt = insts ! unat (pc + 1) in
       if opcode nxt \<noteq> 0 \<or> dst nxt \<noteq> 0 \<or> src nxt \<noteq> 0 \<or> offset nxt \<noteq> 0
       then Inl (InvalidInstruction n ''invalid lddw'')
       else if 1 < src inst then Inl (invalid_op n ''bad instruction'' op)
       else if offset inst \<noteq> 0 then Inl (invalid_op n ''nonzero offset for'' op)
       else if R10_STACK_POINTER < dst8 inst then Inl (InvalidInstruction n ''bad register'')
       else if src inst = 1 then
         (if imm nxt \<noteq> 0 then Inl (InvalidInstruction n ''lddw uses reserved fields'')
          else Inr (LoadMapFd \<lparr>lmf_dst = Reg (dst8 inst), lmf_mapfd = imm inst\<rparr>))
       else Inr (Bin \<lparr>bin_op = Bin_MOV, bin_dst = Reg (dst8 inst),
                      bin_v = Imm (merge (imm inst) next_imm), bin_is64 = True, bin_lddw = True\<rparr>))"

section \<open>Calls\<close>

definition toArgSingleKind :: "ebpf_argument_type_t \<Rightarrow> arg_single_kind" where
  "toArgSingleKind t = (case t of
      EBPF_ARGUMENT_TYPE_ANYTHING \<Rightarrow> Single_ANYTHING
    | EBPF_ARGUMENT_TYPE_PTR_TO_MAP \<Rightarrow> Single_MAP_FD
    | EBPF_ARGUMENT_TYPE_PTR_TO_MAP_OF_PROGRAMS \<Rightarrow> Single_MAP_FD_PROGRAMS
    | EBPF_ARGUMENT_TYPE_PTR_TO_MAP_KEY \<Rightarrow> Single_PTR_TO_MAP_KEY
    | EBPF_ARGUMENT_TYPE_PTR_TO_MAP_VALUE \<Rightarrow> Single_PTR_TO_MAP_VALUE
    | EBPF_ARGUMENT_TYPE_PTR_TO_CTX \<Rightarrow> Single_PTR_TO_CTX
    | _ \<Rightarrow> Single_MAP_FD)"

definition toArgPairKind :: "ebpf_argument_type_t \<Rightarrow> arg_pair_kind" where
  "toArgPairKind t = (case t of
      EBPF_ARGUMENT_TYPE_PTR_TO_READABLE_MEM_OR_NULL \<Rightarrow> Pair_PTR_TO_READABLE_MEM_OR_NULL
    | EBPF_ARGUMENT_TYPE_PTR_TO_READABLE_MEM \<Rightarrow> Pair_PTR_TO_READABLE_MEM
    | EBPF_ARGUMENT_TYPE_PTR_TO_WRITABLE_MEM \<Rightarrow> Pair_PTR_TO_WRITABLE_MEM
    | _ \<Rightarrow> Pair_PTR_TO_READABLE_MEM)"

definition narrow_reg :: "gsl_narrow \<Rightarrow> int \<Rightarrow> Reg res" where
  "narrow_reg nrw i =
     bindE (opt_to_res NarrowingError (nrw uint8_range i)) (\<lambda>v. Inr (Reg (word_of_int v)))"

definition is_mem_arg :: "ebpf_argument_type_t \<Rightarrow> bool" where
  "is_mem_arg t \<longleftrightarrow> t = EBPF_ARGUMENT_TYPE_PTR_TO_READABLE_MEM_OR_NULL
     \<or> t = EBPF_ARGUMENT_TYPE_PTR_TO_READABLE_MEM \<or> t = EBPF_ARGUMENT_TYPE_PTR_TO_WRITABLE_MEM"

definition is_size_arg :: "ebpf_argument_type_t \<Rightarrow> bool" where
  "is_size_arg t \<longleftrightarrow> t = EBPF_ARGUMENT_TYPE_CONST_SIZE \<or> t = EBPF_ARGUMENT_TYPE_CONST_SIZE_OR_ZERO"

text \<open>The messages of the consistency errors of \<^verbatim>\<open>makeCall\<close>.\<close>

definition unsupported_msg :: "string \<Rightarrow> string" where
  "unsupported_msg name = ''unsupported function: '' @ name"

definition mismatched_size_msg :: "string \<Rightarrow> string" where
  "mismatched_size_msg name =
     ''mismatched EBPF_ARGUMENT_TYPE_PTR_TO* and EBPF_ARGUMENT_TYPE_CONST_SIZE: '' @ name"

definition mismatched_size_or_zero_msg :: "string \<Rightarrow> string" where
  "mismatched_size_or_zero_msg name =
     ''mismatched EBPF_ARGUMENT_TYPE_PTR_TO* and EBPF_ARGUMENT_TYPE_CONST_SIZE_OR_ZERO: '' @ name"

definition missing_size_msg :: "string \<Rightarrow> string" where
  "missing_size_msg name =
     ''missing EBPF_ARGUMENT_TYPE_CONST_SIZE or EBPF_ARGUMENT_TYPE_CONST_SIZE_OR_ZERO: '' @ name"

definition not_followed_msg :: "string \<Rightarrow> string" where
  "not_followed_msg name = ''Pointer argument not followed by EBPF_ARGUMENT_TYPE_CONST_SIZE or '' @
     ''EBPF_ARGUMENT_TYPE_CONST_SIZE_OR_ZERO: '' @ name"

text \<open>
  The loop of \<^verbatim>\<open>makeCall\<close> over the five argument slots; \<open>args\<close> is the array of seven, with a
  sentinel at either end.
\<close>

function makeCall_loop ::
  "gsl_narrow \<Rightarrow> string \<Rightarrow> ebpf_argument_type_t list \<Rightarrow> nat \<Rightarrow> call_t \<Rightarrow> call_t res" where
  "makeCall_loop nrw name args i res =
    (if \<not> i < length args - 1 then Inr res
     else if args ! i = EBPF_ARGUMENT_TYPE_UNSUPPORTED then Inl (RuntimeError (unsupported_msg name))
     else if args ! i = EBPF_ARGUMENT_TYPE_DONTCARE then Inr res
     else if args ! i = EBPF_ARGUMENT_TYPE_CONST_SIZE
     then Inl (RuntimeError (mismatched_size_msg name))
     else if args ! i = EBPF_ARGUMENT_TYPE_CONST_SIZE_OR_ZERO
     then Inl (RuntimeError (mismatched_size_or_zero_msg name))
     else if is_mem_arg (args ! i) then
       (if length args - i < 2 then Inl (RuntimeError (missing_size_msg name))
        else if \<not> is_size_arg (args ! (i + 1)) then Inl (RuntimeError (not_followed_msg name))
        else bindE (narrow_reg nrw (int i)) (\<lambda>r. bindE (narrow_reg nrw (int (i + 1))) (\<lambda>r'.
          makeCall_loop nrw name args (i + 2)
            (res\<lparr>call_pairs := call_pairs res @
                  [\<lparr>pair_kind = toArgPairKind (args ! i), pair_mem = r, pair_size = r',
                    pair_can_be_zero = (args ! (i + 1) = EBPF_ARGUMENT_TYPE_CONST_SIZE_OR_ZERO)\<rparr>]\<rparr>))))
     else bindE (narrow_reg nrw (int i)) (\<lambda>r.
       makeCall_loop nrw name args (i + 1)
         (res\<lparr>call_singles := call_singles res @
               [\<lparr>single_kind = toArgSingleKind (args ! i), single_reg = r\<rparr>]\<rparr>)))"
  by pat_completeness auto
termination
  by (relation "measure (\<lambda>(nrw, name, args, i, res). length args - i)") auto

declare makeCall_loop.simps [simp del]

definition makeCall :: "gsl_narrow \<Rightarrow> program_info \<Rightarrow> i32 \<Rightarrow> call_t res" where
  "makeCall nrw info func =
    bindE (get_helper_prototype (info_platform info) (info_type info) func) (\<lambda>proto.
      if proto_return_type proto = EBPF_RETURN_TYPE_UNSUPPORTED
      then Inl (RuntimeError (unsupported_msg (proto_name proto)))
      else
        makeCall_loop nrw (proto_name proto)
          ([EBPF_ARGUMENT_TYPE_DONTCARE] @ proto_argument_type proto @ [EBPF_ARGUMENT_TYPE_DONTCARE]) 1
          \<lparr>call_func = func, call_name = proto_name proto,
           call_is_map_lookup =
             (proto_return_type proto = EBPF_RETURN_TYPE_PTR_TO_MAP_VALUE_OR_NULL),
           call_reallocate_packet = proto_reallocate_packet proto,
           call_singles = [], call_pairs = [], call_prefix = ''''\<rparr>)"

section \<open>Jumps\<close>

definition getJumpTarget :: "gsl_narrow \<Rightarrow> i32 \<Rightarrow> ebpf_inst list \<Rightarrow> pc_t \<Rightarrow> label_t res" where
  "getJumpTarget nrw off insts pc =
    (let new_pc = pc + 1 + off in
     if length insts \<le> unat new_pc then Inl (InvalidInstruction (unat pc) ''jump out of bounds'')
     else if opcode (insts ! unat new_pc) = 0
     then Inl (InvalidInstruction (unat pc) ''jump to middle of lddw'')
     else bindE (opt_to_res NarrowingError (nrw int32_range (uint new_pc))) (\<lambda>i. Inr (label i)))"

definition makeCallLocal ::
  "gsl_narrow \<Rightarrow> ebpf_inst \<Rightarrow> ebpf_inst list \<Rightarrow> pc_t \<Rightarrow> Instruction res" where
  "makeCallLocal nrw inst insts pc =
    (if opcode inst AND INST_SRC_REG \<noteq> 0 then Inl (bad_instruction (unat pc) (opcode inst))
     else if dst inst \<noteq> 0
     then Inl (invalid_op (unat pc) ''nonzero dst for register'' (opcode inst))
     else bindE (getJumpTarget nrw (imm inst) insts pc) (\<lambda>t.
       Inr (CallLocal \<lparr>cl_target = t, cl_prefix = ''''\<rparr>)))"

definition makeCallx :: "gsl_narrow \<Rightarrow> ebpf_inst \<Rightarrow> pc_t \<Rightarrow> Instruction res" where
  "makeCallx nrw inst pc =
    (if R10_STACK_POINTER < dst8 inst then Inl (InvalidInstruction (unat pc) ''bad register'')
     else if imm inst \<noteq> 0 then
       (if 0 < dst inst then Inl (invalid_op (unat pc) ''nonzero imm for'' (opcode inst))
        else if sint (imm inst) < 0 \<or> uint R10_STACK_POINTER < sint (imm inst)
        then Inl (InvalidInstruction (unat pc) ''bad register'')
        else bindE (narrow_reg nrw (sint (imm inst))) (\<lambda>r. Inr (Callx r)))
     else Inr (Callx (Reg (dst8 inst))))"

definition makeJmp_call ::
  "gsl_narrow \<Rightarrow> program_info \<Rightarrow> ebpf_inst \<Rightarrow> ebpf_inst list \<Rightarrow> pc_t \<Rightarrow> Instruction res" where
  "makeJmp_call nrw info inst insts pc =
    (let op = opcode inst; n = unat pc; bad = Inl (bad_instruction n op) in
     if op AND INST_CLS_MASK \<noteq> INST_CLS_JMP then bad
     else if \<not> supports info group_callx \<and> op AND INST_SRC_REG \<noteq> 0 then bad
     else if \<not> supports info group_base32 then bad
     else if INST_CALL_BTF_HELPER \<le> src8 inst then bad
     else if offset inst \<noteq> 0 then Inl (invalid_op n ''nonzero offset for'' op)
     else if src8 inst = INST_CALL_LOCAL then makeCallLocal nrw inst insts pc
     else if op AND INST_SRC_REG \<noteq> 0 then makeCallx nrw inst pc
     else if dst inst \<noteq> 0 then Inl (invalid_op n ''nonzero dst for register'' op)
     else if \<not> is_helper_usable (info_platform info) (info_type info) (imm inst)
     then Inl (InvalidInstruction n (''invalid helper function id '' @ int_to_string (sint (imm inst))))
     else bindE (makeCall nrw info (imm inst)) (\<lambda>c. Inr (Call c)))"

definition makeJmp_exit :: "program_info \<Rightarrow> ebpf_inst \<Rightarrow> pc_t \<Rightarrow> Instruction res" where
  "makeJmp_exit info inst pc =
    (let op = opcode inst; n = unat pc; bad = Inl (bad_instruction n op) in
     if \<not> supports info group_base32 then bad
     else if op AND INST_CLS_MASK \<noteq> INST_CLS_JMP \<or> op AND INST_SRC_REG \<noteq> 0 then bad
     else if src inst \<noteq> 0 then bad
     else if dst inst \<noteq> 0 then Inl (invalid_op n ''nonzero dst for register'' op)
     else if imm inst \<noteq> 0 then Inl (invalid_op n ''nonzero imm for'' op)
     else if offset inst \<noteq> 0 then Inl (invalid_op n ''nonzero offset for'' op)
     else Inr (Exit ''''))"

text \<open>The \<^verbatim>\<open>default\<close> label of the switch, which \<open>INST_JA\<close> falls through to.\<close>

definition makeJmp_default ::
  "gsl_narrow \<Rightarrow> program_info \<Rightarrow> ebpf_inst \<Rightarrow> ebpf_inst list \<Rightarrow> pc_t \<Rightarrow> Instruction res" where
  "makeJmp_default nrw info inst insts pc =
    (let op = opcode inst; n = unat pc;
         is64 = (op AND INST_CLS_MASK = INST_CLS_JMP);
         ja = (op = INST_OP_JA16 \<or> op = INST_OP_JA32) in
     if \<not> supports info (if is64 then group_base64 else group_base32) then Inl (bad_instruction n op)
     else bindE (getJmpOp n op) (\<lambda>cop.
       if op AND INST_SRC_REG = 0 \<and> src inst \<noteq> 0 then Inl (bad_instruction n op)
       else if op AND INST_SRC_REG \<noteq> 0 \<and> imm inst \<noteq> 0
       then Inl (invalid_op n ''nonzero imm for'' op)
       else bindE (getJumpTarget nrw (if op = INST_OP_JA32 then imm inst else scast (offset inst)) insts pc)
         (\<lambda>target.
           if \<not> ja \<and> R10_STACK_POINTER < dst8 inst then Inl (InvalidInstruction n ''bad register'')
           else if \<not> ja \<and> op AND INST_SRC_REG \<noteq> 0 \<and> R10_STACK_POINTER < src8 inst
           then Inl (InvalidInstruction n ''bad register'')
           else Inr (Jmp
             \<lparr>jmp_cond =
                (if ja then None
                 else Some \<lparr>cond_op = cop, cond_left = Reg (dst8 inst),
                            cond_right = (if op AND INST_SRC_REG \<noteq> 0 then RegV (Reg (src8 inst))
                                          else Imm (sign_extend (imm inst))),
                            cond_is64 = is64\<rparr>),
              jmp_target = target\<rparr>))))"

definition makeJmp ::
  "gsl_narrow \<Rightarrow> program_info \<Rightarrow> ebpf_inst \<Rightarrow> ebpf_inst list \<Rightarrow> pc_t \<Rightarrow> Instruction res" where
  "makeJmp nrw info inst insts pc =
    (let op = opcode inst; n = unat pc; cls = op AND INST_CLS_MASK; sel = drop_bit 4 op AND 0xF in
     if sel = INST_CALL then makeJmp_call nrw info inst insts pc
     else if sel = INST_EXIT then makeJmp_exit info inst pc
     else if sel = INST_JA then
       (if cls \<noteq> INST_CLS_JMP \<and> cls \<noteq> INST_CLS_JMP32 then Inl (bad_instruction n op)
        else if \<not> supports info group_base32 then Inl (bad_instruction n op)
        else if op AND INST_SRC_REG \<noteq> 0 then Inl (bad_instruction n op)
        else if cls = INST_CLS_JMP \<and> imm inst \<noteq> 0 then Inl (invalid_op n ''nonzero imm for'' op)
        else if cls = INST_CLS_JMP32 \<and> offset inst \<noteq> 0
        then Inl (invalid_op n ''nonzero offset for'' op)
        else if dst inst \<noteq> 0 then Inl (invalid_op n ''nonzero dst for register'' op)
        else makeJmp_default nrw info inst insts pc)
     else makeJmp_default nrw info inst insts pc)"

section \<open>The decoding loop\<close>

text \<open>
  One iteration of \<^verbatim>\<open>Unmarshaller::unmarshal\<close> up to the note on the last instruction: the
  decoded instruction, whether the next slot is consumed too, and whether control may fall
  through to the next instruction.
\<close>

definition decode_alu ::
  "ebpf_verifier_options_t \<Rightarrow> program_info \<Rightarrow> ebpf_inst list \<Rightarrow> nat \<Rightarrow> (Instruction \<times> bool) noted" where
  "decode_alu opts info insts pc =
    (let inst = insts ! pc in
     bindN (makeAluOp opts info pc inst) (\<lambda>new_ins.
       if length insts - 1 \<le> pc then noting [] (new_ins, False)
       else
         let nxt = insts ! (pc + 1); d = Reg (dst8 inst) in
         if new_ins \<noteq> shift32 d Bin_LSH then noting [] (new_ins, False)
         else if opcode nxt AND INST_CLS_MASK \<noteq> INST_CLS_ALU64 then noting [] (new_ins, False)
         else bindN (makeAluOp opts info (pc + 1) nxt) (\<lambda>next_ins.
           if next_ins = shift32 d Bin_RSH
           then noting [] (Bin \<lparr>bin_op = Bin_MOV, bin_dst = d, bin_v = RegV d,
                                bin_is64 = False, bin_lddw = False\<rparr>, True)
           else if next_ins = shift32 d Bin_ARSH
           then noting [] (Bin \<lparr>bin_op = Bin_MOVSX32, bin_dst = d, bin_v = RegV d,
                                bin_is64 = True, bin_lddw = False\<rparr>, True)
           else noting [] (new_ins, False))))"

definition jump_falls_through :: "Instruction \<Rightarrow> bool" where
  "jump_falls_through ins =
    (case ins of Exit _ \<Rightarrow> False | Jmp j \<Rightarrow> jmp_cond j \<noteq> None | _ \<Rightarrow> True)"

definition unmarshal_step ::
  "gsl_narrow \<Rightarrow> ebpf_verifier_options_t \<Rightarrow> program_info \<Rightarrow> ebpf_inst list \<Rightarrow> nat
     \<Rightarrow> (Instruction \<times> bool \<times> bool) noted" where
  "unmarshal_step nrw opts info insts pc =
    (let inst = insts ! pc; cls = opcode inst AND INST_CLS_MASK in
     if cls = INST_CLS_LD \<and> opcode inst = INST_OP_LDDW_IMM then
       bindN (quiet (makeLddw info inst (if pc < length insts - 1 then imm (insts ! (pc + 1)) else 0)
                              insts (of_nat pc)))
         (\<lambda>i. noting [] (i, True, True))
     else if cls = INST_CLS_LD \<or> cls = INST_CLS_LDX \<or> cls = INST_CLS_ST \<or> cls = INST_CLS_STX then
       bindN (makeMemOp info (of_nat pc) inst) (\<lambda>i. noting [] (i, False, True))
     else if cls = INST_CLS_ALU \<or> cls = INST_CLS_ALU64 then
       bindN (decode_alu opts info insts pc) (\<lambda>(i, skip). noting [] (i, skip, True))
     else if cls = INST_CLS_JMP32 \<or> cls = INST_CLS_JMP then
       bindN (quiet (makeJmp nrw info inst insts (of_nat pc)))
         (\<lambda>i. noting [] (i, False, jump_falls_through i))
     else throwN (RuntimeError ''invalid class: ''))"

definition is_exit :: "Instruction \<Rightarrow> bool" where
  "is_exit ins = (case ins of Exit _ \<Rightarrow> True | _ \<Rightarrow> False)"

definition add_note :: "string list list \<Rightarrow> string list \<Rightarrow> string list list" where
  "add_note notes w = (if notes = [] then [w] else butlast notes @ [last notes @ w])"

definition line_info_at :: "program_info \<Rightarrow> nat \<Rightarrow> btf_line_info_t option res" where
  "line_info_at info pc =
    (if pc < length (info_line_info info)
     then bindE (opt_to_res OutOfRange (map_of (info_line_info info) (int pc))) (\<lambda>l. Inr (Some l))
     else Inr None)"

function unmarshal_loop ::
  "gsl_narrow \<Rightarrow> ebpf_verifier_options_t \<Rightarrow> program_info \<Rightarrow> ebpf_inst list \<Rightarrow> nat
     \<Rightarrow> InstructionSeq \<Rightarrow> string list list \<Rightarrow> nat \<Rightarrow> InstructionSeq res \<times> string list list" where
  "unmarshal_loop nrw opts info insts pc prog notes exit_count =
    (if pc < length insts then
       (case unmarshal_step nrw opts info insts pc of
          (Inl e, w) \<Rightarrow> (Inl e, add_note notes w)
        | (Inr (ins, skip, falls), w) \<Rightarrow>
            (let notes1 = add_note notes (w @ (if pc = length insts - 1 \<and> falls
                                           then [''fallthrough in last instruction''] else [])) in
             case bindE (line_info_at info pc) (\<lambda>li.
                    bindE (opt_to_res NarrowingError (nrw int32_range (int pc))) (\<lambda>i.
                      Inr (label i, ins, li))) of
               Inl e \<Rightarrow> (Inl e, notes1)
             | Inr l \<Rightarrow>
                 unmarshal_loop nrw opts info insts (if skip then pc + 2 else pc + 1) (prog @ [l])
                   (notes1 @ (if skip then [[], []] else [[]]))
                   (if is_exit ins then exit_count + 1 else exit_count)))
     else (Inr prog, if exit_count = 0 then add_note notes [''no exit instruction''] else notes))"
  by pat_completeness auto
termination
  by (relation "measure (\<lambda>(nrw, opts, info, insts, pc, prog, notes, exit_count). length insts - pc)") auto

declare unmarshal_loop.simps [simp del]

text \<open>
  The member function, and the free function that turns an \<^verbatim>\<open>InvalidInstruction\<close> into the
  error string of its result; any other exception leaves it.
\<close>

definition unmarshal_program ::
  "gsl_narrow \<Rightarrow> ebpf_verifier_options_t \<Rightarrow> program_info \<Rightarrow> ebpf_inst list \<Rightarrow> string list list
     \<Rightarrow> InstructionSeq res \<times> string list list" where
  "unmarshal_program nrw opts info insts notes =
    (if insts = [] then (Inl (InvalidArgument ''Zero length programs are not allowed''), notes)
     else unmarshal_loop nrw opts info insts 0 [] notes 0)"

definition unmarshal ::
  "gsl_narrow \<Rightarrow> ebpf_verifier_options_t \<Rightarrow> raw_program \<Rightarrow> string list list
     \<Rightarrow> (string + InstructionSeq) res \<times> string list list" where
  "unmarshal nrw opts raw_prog notes =
    (case unmarshal_program nrw opts (rp_info raw_prog) (rp_prog raw_prog) (notes @ [[]]) of
       (Inr prog, notes') \<Rightarrow> (Inr (Inr prog), notes')
     | (Inl (InvalidInstruction pc what), notes') \<Rightarrow>
         (Inr (Inl (nat_to_base 10 pc @ '': '' @ what @ [char_of (10::nat)])), notes')
     | (Inl e, notes') \<Rightarrow> (Inl e, notes'))"

section \<open>Well-formed decoded instructions\<close>

text \<open>
  The contract of the decoder: register numbers are at most 10, only a 64-bit immediate load
  may name r10 as the destination of an arithmetic instruction, accesses have one of the four
  widths, jumps go to a slot of the program that does not start with a zero opcode, and none of
  the pseudo-instructions of later phases occurs.
\<close>

definition reg_ok :: "Reg \<Rightarrow> bool" where
  "reg_ok r \<longleftrightarrow> reg_v r \<le> R10_STACK_POINTER"

primrec val_ok :: "val \<Rightarrow> bool" where
  "val_ok (Imm _) = True"
| "val_ok (RegV r) = reg_ok r"

primrec is_imm :: "val \<Rightarrow> bool" where
  "is_imm (Imm _) = True"
| "is_imm (RegV _) = False"

definition is_r10 :: "Reg \<Rightarrow> bool" where
  "is_r10 r \<longleftrightarrow> reg_v r = R10_STACK_POINTER"

definition target_ok :: "ebpf_inst list \<Rightarrow> label_t \<Rightarrow> bool" where
  "target_ok insts l \<longleftrightarrow> (\<exists>k < length insts. l = label (int k) \<and> opcode (insts ! k) \<noteq> 0)"

definition deref_ok :: "deref_t \<Rightarrow> bool" where
  "deref_ok d \<longleftrightarrow> deref_width d \<in> {1, 2, 4, 8} \<and> reg_ok (deref_basereg d)
     \<and> - 32768 \<le> deref_offset d \<and> deref_offset d \<le> 32767"

fun wf_instr :: "ebpf_inst list \<Rightarrow> Instruction \<Rightarrow> bool" where
  "wf_instr insts (Bin b) \<longleftrightarrow> reg_ok (bin_dst b) \<and> val_ok (bin_v b) \<and>
     (if bin_lddw b then bin_op b = Bin_MOV \<and> bin_is64 b \<and> is_imm (bin_v b)
      else \<not> is_r10 (bin_dst b)) \<and>
     (bin_op b \<in> {Bin_MOVSX8, Bin_MOVSX16, Bin_MOVSX32} \<longrightarrow> \<not> is_imm (bin_v b))"
| "wf_instr insts (UnOp u) \<longleftrightarrow> reg_ok (un_dst u) \<and> \<not> is_r10 (un_dst u)"
| "wf_instr insts (LoadMapFd l) \<longleftrightarrow> reg_ok (lmf_dst l)"
| "wf_instr insts (Call c) \<longleftrightarrow> call_prefix c = ''''"
| "wf_instr insts (CallLocal c) \<longleftrightarrow> target_ok insts (cl_target c) \<and> cl_prefix c = ''''"
| "wf_instr insts (Callx r) \<longleftrightarrow> reg_ok r"
| "wf_instr insts (Exit p) \<longleftrightarrow> p = ''''"
| "wf_instr insts (Jmp j) \<longleftrightarrow> target_ok insts (jmp_target j) \<and>
     (case jmp_cond j of None \<Rightarrow> True
      | Some c \<Rightarrow> reg_ok (cond_left c) \<and> val_ok (cond_right c) \<and> cond_op c \<noteq> Cond_NSET)"
| "wf_instr insts (Mem m) \<longleftrightarrow> deref_ok (mem_access m) \<and> val_ok (mem_value m) \<and>
     (mem_is_load m \<longrightarrow> (\<exists>r. mem_value m = RegV r \<and> \<not> is_r10 r))"
| "wf_instr insts (Packet p) \<longleftrightarrow> pkt_width p \<in> {1, 2, 4} \<and>
     (case pkt_regoffset p of None \<Rightarrow> True | Some r \<Rightarrow> reg_ok r)"
| "wf_instr insts (Atomic a) \<longleftrightarrow> deref_ok (at_access a) \<and> deref_width (at_access a) \<in> {4, 8} \<and>
     reg_ok (at_valreg a) \<and> (at_op a \<in> {Atomic_XCHG, Atomic_CMPXCHG} \<longrightarrow> at_fetch a)"
| "wf_instr insts (Undefined _) \<longleftrightarrow> False"
| "wf_instr insts (Assume _) \<longleftrightarrow> False"
| "wf_instr insts (IncrementLoopCounter _) \<longleftrightarrow> False"

section \<open>What each decoding function returns or throws\<close>

lemma invalid_at_ops [simp]:
  "invalid_at pc (bad_instruction pc op)"
  "invalid_at pc (invalid_op pc msg op)"
  by (simp_all add: bad_instruction_def invalid_op_def)

lemma getMemWidth_eq: "getMemWidth op = opcode_to_width op"
  by (simp add: getMemWidth_def opcode_to_width_def)

lemma opcode_to_width_wp [wp]:
  "res_post E P (opcode_to_width op) \<longleftrightarrow> (\<forall>w. opcode_to_width op = Inr w \<longrightarrow> P w)"
  using opcode_to_width_total [of op] by (auto simp: wp)

lemma getAluOp_end_wp: "res_post (invalid_at pc) (\<lambda>_. True) (getAluOp_end info pc inst)"
  by (simp add: getAluOp_end_def Let_def wp)

lemma getAluOp_wp:
  "res_post (invalid_at pc)
     (\<lambda>r. \<forall>b. r = Inl b \<and> b \<in> {Bin_MOVSX8, Bin_MOVSX16, Bin_MOVSX32} \<longrightarrow> opcode inst AND INST_SRC_REG \<noteq> 0)
     (fst (getAluOp info pc inst))"
proof -
  have *: "res_post (invalid_at pc) (\<lambda>a. P a) (getAluOp_end info pc inst)" if "\<And>u. P u" for P
    using getAluOp_end_wp by (rule res_post_mono) (simp_all add: that)
  show ?thesis
    by (auto simp: getAluOp_def Let_def wp *)
qed

lemma getAtomicOp_wp:
  "res_post (invalid_at pc)
     (\<lambda>a. a \<in> {Atomic_XCHG, Atomic_CMPXCHG} \<longrightarrow> imm inst AND ucast INST_FETCH \<noteq> 0)
     (getAtomicOp pc inst)"
  by (auto simp: getAtomicOp_def Let_def wp)

lemma getJmpOp_wp: "res_post (invalid_at pc) (\<lambda>c. c \<noteq> Cond_NSET) (getJmpOp pc op)"
  by (simp add: getJmpOp_def Let_def wp)

lemma getBinValue_wp:
  "src8 inst \<le> R10_STACK_POINTER \<Longrightarrow>
   res_post (invalid_at pc)
     (\<lambda>v. val_ok v \<and> (opcode inst AND INST_SRC_REG \<noteq> 0 \<longrightarrow> \<not> is_imm v)) (getBinValue pc inst)"
  by (auto simp: getBinValue_def wp reg_ok_def)

lemma deref_ok_decoded:
  "w \<in> {1, 2, 4, 8} \<Longrightarrow> r \<le> R10_STACK_POINTER \<Longrightarrow>
   deref_ok \<lparr>deref_width = w, deref_basereg = Reg r, deref_offset = sint (off :: i16)\<rparr>"
  using sint_16_bounds [of off] by (simp add: deref_ok_def reg_ok_def)

lemma odd_class_load: "getMemIsLoad op = Inr True \<Longrightarrow> op AND INST_CLS_MASK \<noteq> INST_CLS_LD \<Longrightarrow> op AND 1 \<noteq> 0"
proof -
  assume a: "getMemIsLoad op = Inr True" "op AND INST_CLS_MASK \<noteq> INST_CLS_LD"
  then have "op AND 7 = 1"
    by (auto simp: getMemIsLoad_def isa_consts split: if_splits)
  then have "(op AND 7) AND 1 = 1" by simp
  then show ?thesis by (simp add: and.assoc)
qed

lemma getMemIsLoad_total:
  assumes "op AND INST_CLS_MASK \<in> {INST_CLS_LD, INST_CLS_LDX, INST_CLS_ST, INST_CLS_STX}"
  shows "\<exists>b. getMemIsLoad op = Inr b"
  using assms by (auto simp: getMemIsLoad_def)

lemma makeMemOp_packet_wp:
  assumes "width \<in> {1, 2, 4, 8}"
  shows "res_post (invalid_at pc) (wf_instr insts) (makeMemOp_packet info pc inst width ind)"
  using assms by (auto simp: makeMemOp_packet_def Let_def wp reg_ok_def)

lemma makeMemOp_mem_wp:
  assumes "width \<in> {1, 2, 4, 8}" and "dst8 inst \<le> R10_STACK_POINTER" "src8 inst \<le> R10_STACK_POINTER"
    and "opcode inst AND INST_CLS_MASK \<in> {INST_CLS_LD, INST_CLS_LDX, INST_CLS_ST, INST_CLS_STX}"
  shows "res_post (invalid_at pc) (wf_instr insts) (fst (makeMemOp_mem pc inst width))"
proof -
  obtain b where b: "getMemIsLoad (opcode inst) = Inr b"
    using getMemIsLoad_total [OF assms(4)] by blast
  show ?thesis
    using assms(1-3) odd_class_load [of "opcode inst"]
    by (cases b) (auto simp: makeMemOp_mem_def Let_def wp b deref_ok_decoded reg_ok_def is_r10_def)
qed

lemma fetch_bit: "(i :: i32) AND 1 = 0 \<or> i AND 1 = 1"
  using bit_and_iff [of i 1] by (cases "odd i") (simp_all add: and_one_eq mod2_eq_if)

lemma makeMemOp_atomic_wp:
  assumes "opcode_to_width (opcode inst) = Inr width"
    and "dst8 inst \<le> R10_STACK_POINTER" "src8 inst \<le> R10_STACK_POINTER"
  shows "res_post (invalid_at pc) (wf_instr insts) (makeMemOp_atomic info pc inst width)"
proof -
  have w: "width \<in> {1, 2, 4, 8}" using assms(1) by (rule opcode_to_width_range)
  have w48: "width \<in> {4, 8}"
    if "opcode inst AND INST_SIZE_MASK = INST_SIZE_W \<or> opcode inst AND INST_SIZE_MASK = INST_SIZE_DW"
    using assms(1) that by (auto simp: opcode_to_width_def isa_consts)
  have "res_post (invalid_at pc)
      (\<lambda>a. a \<in> {Atomic_XCHG, Atomic_CMPXCHG} \<longrightarrow> imm inst AND ucast INST_FETCH = ucast INST_FETCH)
      (getAtomicOp pc inst)"
    using getAtomicOp_wp by (rule res_post_mono) (use fetch_bit [of "imm inst"] in \<open>auto simp: isa_consts\<close>)
  then show ?thesis
    unfolding makeMemOp_atomic_def Let_def
    using assms(2,3) w w48
    by (auto simp: wp deref_ok_decoded reg_ok_def elim!: res_post_mono)
qed

lemma makeMemOp_wp:
  assumes "opcode inst AND INST_CLS_MASK \<in> {INST_CLS_LD, INST_CLS_LDX, INST_CLS_ST, INST_CLS_STX}"
  shows "res_post (invalid_at (unat pc)) (wf_instr insts) (fst (makeMemOp info pc inst))"
  using assms
  by (auto simp: makeMemOp_def Let_def wp getMemWidth_eq not_less
      intro!: makeMemOp_packet_wp makeMemOp_mem_wp makeMemOp_atomic_wp
      dest: opcode_to_width_range)

lemma makeAluOp_wp:
  "res_post (invalid_at pc) (wf_instr insts) (fst (makeAluOp opts info pc inst))"
proof -
  let ?movsx = "\<lambda>b. b \<in> {Bin_MOVSX8, Bin_MOVSX16, Bin_MOVSX32}"
  have leaf: "res_post (invalid_at pc) (wf_instr insts)
      (fst (case alu of
         Inr uop \<Rightarrow> noting [] (UnOp \<lparr>un_op = uop, un_dst = Reg (dst8 inst), un_is64 = is64\<rparr>)
       | Inl bop \<Rightarrow>
           bindN (quiet (getBinValue pc inst)) (\<lambda>v. noting (w bop v)
               (Bin \<lparr>bin_op = bop, bin_dst = Reg (dst8 inst), bin_v = v,
                     bin_is64 = is64, bin_lddw = False\<rparr>))))"
    if "\<forall>b. alu = Inl b \<and> ?movsx b \<longrightarrow> opcode inst AND INST_SRC_REG \<noteq> 0"
      and "dst8 inst < R10_STACK_POINTER" "src8 inst \<le> R10_STACK_POINTER" for alu is64 w
    using that getBinValue_wp [of inst pc]
    by (cases alu) (auto simp: wp reg_ok_def is_r10_def elim!: res_post_mono)
  show ?thesis
    unfolding makeAluOp_def Let_def wp
    using getAluOp_wp [of pc inst info]
    by (auto simp: wp not_less intro!: leaf elim!: res_post_mono)
qed

lemma makeLddw_wp:
  "res_post (invalid_at (unat pc)) (wf_instr insts) (makeLddw info inst next_imm insts pc)"
  by (auto simp: makeLddw_def Let_def wp reg_ok_def not_less)

section \<open>Helper calls: the argument loop against its grammar\<close>

text \<open>
  The reference reading of a prototype's argument types: a list of single arguments and of
  pointer/size pairs up to the first unused slot. The index loop with its two sentinels
  computes exactly this.
\<close>

definition add_single :: "ebpf_argument_type_t \<Rightarrow> nat \<Rightarrow> arg_single_t list \<times> arg_pair_t list
    \<Rightarrow> arg_single_t list \<times> arg_pair_t list" where
  "add_single a i r = (\<lparr>single_kind = toArgSingleKind a, single_reg = Reg (of_nat i)\<rparr> # fst r, snd r)"

definition add_pair :: "ebpf_argument_type_t \<Rightarrow> ebpf_argument_type_t \<Rightarrow> nat
    \<Rightarrow> arg_single_t list \<times> arg_pair_t list \<Rightarrow> arg_single_t list \<times> arg_pair_t list" where
  "add_pair a s i r = (fst r, \<lparr>pair_kind = toArgPairKind a, pair_mem = Reg (of_nat i),
     pair_size = Reg (of_nat (Suc i)),
     pair_can_be_zero = (s = EBPF_ARGUMENT_TYPE_CONST_SIZE_OR_ZERO)\<rparr> # snd r)"

fun parse_args :: "nat \<Rightarrow> ebpf_argument_type_t list \<Rightarrow> (arg_single_t list \<times> arg_pair_t list) option" where
  "parse_args i [] = Some ([], [])"
| "parse_args i (a # as) =
    (if a = EBPF_ARGUMENT_TYPE_DONTCARE then Some ([], [])
     else if a = EBPF_ARGUMENT_TYPE_UNSUPPORTED \<or> is_size_arg a then None
     else if is_mem_arg a then
       (case as of [] \<Rightarrow> None
        | s # as' \<Rightarrow> if is_size_arg s then map_option (add_pair a s i) (parse_args (i + 2) as') else None)
     else map_option (add_single a i) (parse_args (i + 1) as))"

text \<open>Prototypes that are read without a consistency error: unsupported types may occur.\<close>

fun args_sane :: "ebpf_argument_type_t list \<Rightarrow> bool" where
  "args_sane [] = True"
| "args_sane (a # as) =
    (if a = EBPF_ARGUMENT_TYPE_DONTCARE \<or> a = EBPF_ARGUMENT_TYPE_UNSUPPORTED then True
     else if is_size_arg a then False
     else if is_mem_arg a then (case as of [] \<Rightarrow> False | s # as' \<Rightarrow> is_size_arg s \<and> args_sane as')
     else args_sane as)"

definition extend_call :: "call_t \<Rightarrow> arg_single_t list \<times> arg_pair_t list \<Rightarrow> call_t" where
  "extend_call c r = c\<lparr>call_singles := call_singles c @ fst r, call_pairs := call_pairs c @ snd r\<rparr>"

definition unsupported_function :: "exn \<Rightarrow> bool" where
  "unsupported_function e \<longleftrightarrow> (\<exists>name. e = RuntimeError (unsupported_msg name))"

definition is_runtime_error :: "exn \<Rightarrow> bool" where
  "is_runtime_error e \<longleftrightarrow> (\<exists>msg. e = RuntimeError msg)"

lemma extend_call_Nil [simp]: "extend_call c ([], []) = c"
  by (simp add: extend_call_def)

lemma narrow_reg_small:
  "gsl_narrow_spec nrw \<Longrightarrow> i \<le> 255 \<Longrightarrow> narrow_reg nrw (int i) = Inr (Reg (of_nat i))"
  by (simp add: narrow_reg_def gsl_narrowD)

lemma size_mem_disjoint: "is_size_arg a \<Longrightarrow> \<not> is_mem_arg a"
  by (auto simp: is_size_arg_def is_mem_arg_def)

lemma arg_type_cases:
  "\<not> is_size_arg a \<Longrightarrow> a \<noteq> EBPF_ARGUMENT_TYPE_CONST_SIZE \<and> a \<noteq> EBPF_ARGUMENT_TYPE_CONST_SIZE_OR_ZERO"
  by (auto simp: is_size_arg_def)

lemma makeCall_loop_single:
  assumes "gsl_narrow_spec nrw" "i < length args - 1" "i \<le> 255"
    and "args ! i \<noteq> EBPF_ARGUMENT_TYPE_DONTCARE" "args ! i \<noteq> EBPF_ARGUMENT_TYPE_UNSUPPORTED"
    and "\<not> is_size_arg (args ! i)" "\<not> is_mem_arg (args ! i)"
  shows "makeCall_loop nrw name args i c =
         makeCall_loop nrw name args (Suc i) (extend_call c (add_single (args ! i) i ([], [])))"
  using assms arg_type_cases [OF assms(6)]
  by (subst makeCall_loop.simps) (simp add: narrow_reg_small extend_call_def add_single_def)

lemma makeCall_loop_pair:
  assumes "gsl_narrow_spec nrw" "i < length args - 1" "i < 255"
    and "is_mem_arg (args ! i)" "is_size_arg (args ! Suc i)"
  shows "makeCall_loop nrw name args i c =
         makeCall_loop nrw name args (Suc (Suc i))
           (extend_call c (add_pair (args ! i) (args ! Suc i) i ([], [])))"
proof -
  have "narrow_reg nrw (int i) = Inr (Reg (of_nat i))"
    and "narrow_reg nrw (int (i + 1)) = Inr (Reg (of_nat (i + 1)))"
    using assms(1,3) narrow_reg_small [of nrw "i + 1"] narrow_reg_small [of nrw i] by simp_all
  moreover have "args ! i \<noteq> EBPF_ARGUMENT_TYPE_DONTCARE" "args ! i \<noteq> EBPF_ARGUMENT_TYPE_UNSUPPORTED"
    "args ! i \<noteq> EBPF_ARGUMENT_TYPE_CONST_SIZE" "args ! i \<noteq> EBPF_ARGUMENT_TYPE_CONST_SIZE_OR_ZERO"
    using assms(4) by (auto simp: is_mem_arg_def)
  moreover have "\<not> length args - i < 2" using assms(2) by simp
  ultimately show ?thesis
    using assms
    by (subst makeCall_loop.simps) (simp add: extend_call_def add_pair_def del: of_nat_Suc)
qed

lemma makeCall_loop_error:
  assumes "i < length args - 1" "args ! i \<noteq> EBPF_ARGUMENT_TYPE_DONTCARE"
    and "args ! i = EBPF_ARGUMENT_TYPE_UNSUPPORTED \<or> is_size_arg (args ! i) \<or>
         (is_mem_arg (args ! i) \<and> \<not> is_size_arg (args ! Suc i))"
  shows "\<exists>msg. makeCall_loop nrw name args i c = Inl (RuntimeError msg) \<and>
           (args ! i = EBPF_ARGUMENT_TYPE_UNSUPPORTED \<longrightarrow> msg = unsupported_msg name)"
  using assms by (subst makeCall_loop.simps) (auto simp: is_size_arg_def is_mem_arg_def)

lemma extend_call_add:
  "extend_call (extend_call c (add_single a i ([], []))) r = extend_call c (add_single a i r)"
  "extend_call (extend_call c (add_pair a s i ([], []))) r = extend_call c (add_pair a s i r)"
  by (simp_all add: extend_call_def add_single_def add_pair_def)

text \<open>What the loop does from a position, in terms of the reference reading of the rest.\<close>

definition loop_agrees ::
  "gsl_narrow \<Rightarrow> string \<Rightarrow> ebpf_argument_type_t list \<Rightarrow> nat \<Rightarrow> ebpf_argument_type_t list \<Rightarrow> bool" where
  "loop_agrees nrw name full i suf \<longleftrightarrow> (\<forall>c. case parse_args i suf of
      Some r \<Rightarrow> makeCall_loop nrw name full i c = Inr (extend_call c r)
    | None \<Rightarrow> \<exists>msg. makeCall_loop nrw name full i c = Inl (RuntimeError msg) \<and>
                (args_sane suf \<longrightarrow> msg = unsupported_msg name))"

lemma loop_agrees_single:
  assumes "gsl_narrow_spec nrw" "i < length full - 1" "i \<le> 255" "full ! i = a"
    and "a \<noteq> EBPF_ARGUMENT_TYPE_DONTCARE" "a \<noteq> EBPF_ARGUMENT_TYPE_UNSUPPORTED"
    and "\<not> is_size_arg a" "\<not> is_mem_arg a" and "loop_agrees nrw name full (Suc i) as"
  shows "loop_agrees nrw name full i (a # as)"
  using assms
  by (fastforce simp: loop_agrees_def makeCall_loop_single extend_call_add split: option.splits)

lemma loop_agrees_pair:
  assumes "gsl_narrow_spec nrw" "i < length full - 1" "i < 255" "full ! i = a" "full ! Suc i = s"
    and "is_mem_arg a" "is_size_arg s" and "loop_agrees nrw name full (Suc (Suc i)) as"
  shows "loop_agrees nrw name full i (a # s # as)"
proof -
  have "a \<noteq> EBPF_ARGUMENT_TYPE_DONTCARE" "a \<noteq> EBPF_ARGUMENT_TYPE_UNSUPPORTED" "\<not> is_size_arg a"
    using assms(6) by (auto simp: is_mem_arg_def is_size_arg_def)
  then show ?thesis using assms
    by (fastforce simp: loop_agrees_def makeCall_loop_pair extend_call_add split: option.splits)
qed

lemma loop_agrees_stop:
  assumes "i < length full - 1" "full ! i = a" "full ! Suc i = hd (as @ [EBPF_ARGUMENT_TYPE_DONTCARE])"
    and "a = EBPF_ARGUMENT_TYPE_DONTCARE \<or> a = EBPF_ARGUMENT_TYPE_UNSUPPORTED \<or> is_size_arg a \<or>
         (is_mem_arg a \<and> \<not> is_size_arg (hd (as @ [EBPF_ARGUMENT_TYPE_DONTCARE])))"
  shows "loop_agrees nrw name full i (a # as)"
proof (cases "a = EBPF_ARGUMENT_TYPE_DONTCARE")
  case True
  then show ?thesis using assms by (simp add: loop_agrees_def makeCall_loop.simps)
next
  case False
  have "parse_args i (a # as) = None"
    using assms(4) False size_mem_disjoint [of a] by (cases as) auto
  moreover have "args_sane (a # as) \<longrightarrow> a = EBPF_ARGUMENT_TYPE_UNSUPPORTED"
    using assms(4) False size_mem_disjoint [of a] by (cases as) auto
  ultimately show ?thesis
    using makeCall_loop_error [of i full nrw name] assms False
    by (fastforce simp: loop_agrees_def simp del: parse_args.simps args_sane.simps)
qed

lemma makeCall_loop_parse:
  assumes nrw: "gsl_narrow_spec nrw" and "args = pre @ suf" "length args \<le> 250"
  shows "loop_agrees nrw name (EBPF_ARGUMENT_TYPE_DONTCARE # args @ [EBPF_ARGUMENT_TYPE_DONTCARE])
           (Suc (length pre)) suf"
  using assms(2,3)
proof (induction "length suf" arbitrary: pre suf rule: less_induct)
  case less
  let ?D = "EBPF_ARGUMENT_TYPE_DONTCARE"
  let ?full = "?D # args @ [?D]"
  show ?case
  proof (cases suf)
    case Nil
    then show ?thesis using less.prems by (simp add: loop_agrees_def makeCall_loop.simps)
  next
    case (Cons a as)
    have len: "Suc (length pre) < length ?full - 1" and nth: "?full ! Suc (length pre) = a"
      and nths: "?full ! Suc (Suc (length pre)) = hd (as @ [?D])"
      using less.prems Cons by (simp_all add: nth_append hd_append hd_conv_nth)
    consider (stop) "a = ?D \<or> a = EBPF_ARGUMENT_TYPE_UNSUPPORTED \<or> is_size_arg a \<or>
         (is_mem_arg a \<and> \<not> is_size_arg (hd (as @ [?D])))"
      | (single) "a \<noteq> ?D" "a \<noteq> EBPF_ARGUMENT_TYPE_UNSUPPORTED" "\<not> is_size_arg a" "\<not> is_mem_arg a"
      | (pair) s as' where "as = s # as'" "is_mem_arg a" "is_size_arg s"
      by (cases as) (auto simp: is_size_arg_def)
    then show ?thesis
    proof cases
      case stop
      then show ?thesis unfolding Cons using len nth nths by (intro loop_agrees_stop) simp_all
    next
      case single
      have "loop_agrees nrw name ?full (Suc (length (pre @ [a]))) as"
        using less.prems Cons by (intro less.hyps) simp_all
      then show ?thesis unfolding Cons
        using nrw len nth single less.prems by (intro loop_agrees_single) simp_all
    next
      case pair
      have "loop_agrees nrw name ?full (Suc (length (pre @ [a, s]))) as'"
        using less.prems Cons pair by (intro less.hyps) simp_all
      then show ?thesis unfolding Cons pair(1)
        using nrw len nth nths pair less.prems by (intro loop_agrees_pair) simp_all
    qed
  qed
qed

lemma makeCall_loop_agrees:
  assumes "gsl_narrow_spec nrw" "length args \<le> 250"
  shows "loop_agrees nrw name (EBPF_ARGUMENT_TYPE_DONTCARE # args @ [EBPF_ARGUMENT_TYPE_DONTCARE]) 1 args"
  using makeCall_loop_parse [OF assms(1), of args "[]" args name] assms(2) by simp

lemma makeCall_eq:
  assumes "gsl_narrow_spec nrw"
    and "get_helper_prototype (info_platform info) (info_type info) func = Inr p"
    and "length (proto_argument_type p) \<le> 250"
    and "proto_return_type p \<noteq> EBPF_RETURN_TYPE_UNSUPPORTED"
    and "parse_args 1 (proto_argument_type p) = Some (ss, ps)"
  shows "makeCall nrw info func = Inr
    \<lparr>call_func = func, call_name = proto_name p,
     call_is_map_lookup = (proto_return_type p = EBPF_RETURN_TYPE_PTR_TO_MAP_VALUE_OR_NULL),
     call_reallocate_packet = proto_reallocate_packet p,
     call_singles = ss, call_pairs = ps, call_prefix = ''''\<rparr>"
  using assms makeCall_loop_agrees [OF assms(1,3), of "proto_name p"]
  by (simp add: makeCall_def loop_agrees_def extend_call_def)

lemma makeCall_error:
  assumes "gsl_narrow_spec nrw"
    and "get_helper_prototype (info_platform info) (info_type info) func = Inr p"
    and "length (proto_argument_type p) \<le> 250" and "args_sane (proto_argument_type p)"
  shows "res_post unsupported_function (\<lambda>c. call_prefix c = '''') (makeCall nrw info func)"
proof (cases "parse_args 1 (proto_argument_type p)")
  case None
  then show ?thesis
    using assms makeCall_loop_agrees [OF assms(1,3), of "proto_name p"]
    by (auto simp: makeCall_def loop_agrees_def wp unsupported_function_def)
next
  case (Some r)
  then show ?thesis
    using assms makeCall_loop_agrees [OF assms(1,3), of "proto_name p"]
    by (auto simp: makeCall_def loop_agrees_def wp unsupported_function_def extend_call_def)
qed

section \<open>Jumps, calls and whole iterations\<close>

lemma unat_of_nat_32: "n < 2 ^ 32 \<Longrightarrow> unat (of_nat n :: u32) = n"
  by (simp add: unsigned_of_nat take_bit_nat_eq_self)

lemma getJumpTarget_wp:
  assumes "gsl_narrow_spec nrw" "length insts \<le> 2 ^ 31"
  shows "res_post (invalid_at (unat pc)) (target_ok insts) (getJumpTarget nrw off insts pc)"
proof -
  let ?new = "pc + 1 + off"
  have u: "uint ?new = int (unat ?new)" by (rule uint_nat)
  have "int (unat ?new) \<le> 2 ^ 31 - 1" if "unat ?new < length insts"
  proof -
    have "unat ?new < 2147483648" using that assms(2) by simp
    then show ?thesis by (simp del: of_nat_unat)
  qed
  then have "nrw int32_range (uint ?new) = Some (int (unat ?new))" if "unat ?new < length insts"
    using that assms(1) unfolding u by (simp add: gsl_narrowD del: of_nat_unat)
  then show ?thesis
    by (auto simp: getJumpTarget_def Let_def wp target_ok_def not_le simp del: of_nat_unat)
qed

lemma narrow_reg_wp:
  assumes "gsl_narrow_spec nrw" "0 \<le> i" "i \<le> 10"
  shows "res_post E reg_ok (narrow_reg nrw i)"
proof -
  have "(word_of_int i :: u8) \<le> 10"
    using assms by (simp add: word_le_def uint_word_of_int)
  then show ?thesis
    using assms by (simp add: narrow_reg_def gsl_narrowD wp reg_ok_def isa_consts)
qed

lemma makeCallLocal_wp:
  assumes "gsl_narrow_spec nrw" "length insts \<le> 2 ^ 31"
  shows "res_post (invalid_at (unat pc)) (wf_instr insts) (makeCallLocal nrw inst insts pc)"
  using getJumpTarget_wp [OF assms, of pc "imm inst"]
  by (auto simp: makeCallLocal_def wp elim!: res_post_mono)

lemma makeCallx_wp:
  assumes "gsl_narrow_spec nrw"
  shows "res_post (invalid_at (unat pc)) (wf_instr insts) (makeCallx nrw inst pc)"
  using narrow_reg_wp [OF assms, of "sint (imm inst)" "invalid_at (unat pc)"]
  by (auto simp: makeCallx_def wp reg_ok_def not_less isa_consts elim!: res_post_mono)

lemma makeJmp_exit_wp: "res_post (invalid_at (unat pc)) (wf_instr insts) (makeJmp_exit info inst pc)"
  by (simp add: makeJmp_exit_def Let_def wp)

lemma makeJmp_default_wp:
  assumes "gsl_narrow_spec nrw" "length insts \<le> 2 ^ 31"
  shows "res_post (invalid_at (unat pc)) (wf_instr insts) (makeJmp_default nrw info inst insts pc)"
  unfolding makeJmp_default_def Let_def
  by (auto simp: wp reg_ok_def not_less
      intro!: res_post_mono [OF getJmpOp_wp] res_post_mono [OF getJumpTarget_wp [OF assms]])

text \<open>
  The interface between the decoder and a platform: a helper that the platform declares usable
  has a prototype of five argument slots that passes the consistency checks of
  \<^verbatim>\<open>makeCall\<close>. Whatever a program contains, decoding on such a platform then ends with a
  program, with an \<^verbatim>\<open>InvalidInstruction\<close> for one of its slots, or with the refusal of an
  unsupported helper.
\<close>

definition decode_error :: "nat \<Rightarrow> nat \<Rightarrow> exn \<Rightarrow> bool" where
  "decode_error lo n e \<longleftrightarrow> (\<exists>k. lo \<le> k \<and> k < n \<and> invalid_at k e) \<or> unsupported_function e"

definition line_info_ok :: "program_info \<Rightarrow> bool" where
  "line_info_ok info \<longleftrightarrow> (\<forall>k < length (info_line_info info). map_of (info_line_info info) (int k) \<noteq> None)"

definition labelled_ok :: "ebpf_inst list \<Rightarrow> nat \<Rightarrow> InstructionSeq \<Rightarrow> bool" where
  "labelled_ok insts lo prog \<longleftrightarrow> sorted_wrt (<) (map (\<lambda>(l, _). lbl_from l) prog) \<and>
     (\<forall>(l, i, _) \<in> set prog. wf_instr insts i \<and>
        (\<exists>k. lo \<le> k \<and> k < length insts \<and> l = label (int k)))"

lemma decode_errorI:
  "invalid_at k e \<Longrightarrow> lo \<le> k \<Longrightarrow> k < n \<Longrightarrow> decode_error lo n e"
  "unsupported_function e \<Longrightarrow> decode_error lo n e"
  by (auto simp: decode_error_def)

lemma decode_error_here [simp]:
  "pc < n \<Longrightarrow> decode_error pc n (bad_instruction pc op)"
  "pc < n \<Longrightarrow> decode_error pc n (invalid_op pc msg op)"
  "pc < n \<Longrightarrow> decode_error pc n (InvalidInstruction pc msg)"
  by (rule decode_errorI(1) [of pc]; simp)+

lemma decode_error_mono: "decode_error lo n e \<Longrightarrow> lo' \<le> lo \<Longrightarrow> decode_error lo' n e"
  by (auto simp: decode_error_def intro: order_trans)

lemma labelled_ok_Cons:
  "labelled_ok insts lo' prog \<Longrightarrow> lo < lo' \<Longrightarrow> lo < length insts \<Longrightarrow> wf_instr insts i \<Longrightarrow>
   labelled_ok insts lo ((label (int lo), i, li) # prog)"
  by (fastforce simp: labelled_ok_def)

lemma decode_alu_wp:
  assumes "pc < length insts"
  shows "res_post (decode_error pc (length insts))
           (\<lambda>(i, skip). wf_instr insts i \<and> (skip \<longrightarrow> Suc pc < length insts))
           (fst (decode_alu opts info insts pc))"
proof -
  have alu: "res_post (decode_error pc (length insts)) (wf_instr insts) (fst (makeAluOp opts info k inst))"
    if "pc \<le> k" "k < length insts" for k inst
    using makeAluOp_wp by (rule res_post_mono) (use that in \<open>auto intro: decode_errorI\<close>)
  show ?thesis
    unfolding decode_alu_def Let_def wp
    using assms
    by (auto simp: wp reg_ok_def is_r10_def shift32_def intro!: res_post_mono [OF alu])
qed

locale helper_platform =
  fixes plat :: ebpf_platform_t
  assumes usable_prototype:
    "is_helper_usable plat ty n \<Longrightarrow> \<exists>p. get_helper_prototype plat ty n = Inr p \<and>
       length (proto_argument_type p) = 5 \<and> args_sane (proto_argument_type p)"
begin

lemma makeJmp_call_wp:
  assumes "gsl_narrow_spec nrw" "length insts \<le> 2 ^ 31" "info_platform info = plat"
    and "unat pc < length insts"
  shows "res_post (decode_error (unat pc) (length insts)) (wf_instr insts)
           (makeJmp_call nrw info inst insts pc)"
proof -
  have 1: "res_post (decode_error (unat pc) (length insts)) (wf_instr insts) (makeCallLocal nrw inst insts pc)"
    and 2: "res_post (decode_error (unat pc) (length insts)) (wf_instr insts) (makeCallx nrw inst pc)"
    using makeCallLocal_wp [OF assms(1,2), of pc inst] makeCallx_wp [OF assms(1), of pc insts inst] assms(4)
    by (auto elim!: res_post_mono intro: decode_errorI)
  have 3: "res_post (decode_error (unat pc) (length insts)) (\<lambda>c. call_prefix c = '''')
      (makeCall nrw info (imm inst))"
    if usable: "is_helper_usable plat (info_type info) (imm inst)"
  proof -
    obtain p where "get_helper_prototype (info_platform info) (info_type info) (imm inst) = Inr p"
      "length (proto_argument_type p) = 5" "args_sane (proto_argument_type p)"
      using usable_prototype [OF usable] assms(3) by auto
    then have "res_post unsupported_function (\<lambda>c. call_prefix c = '''') (makeCall nrw info (imm inst))"
      by (intro makeCall_error [OF assms(1)]) simp_all
    then show ?thesis by (rule res_post_mono) (auto intro: decode_errorI)
  qed
  show ?thesis
    using 1 2 3 assms(3,4)
    by (auto simp: makeJmp_call_def Let_def wp intro: decode_errorI elim!: res_post_mono)
qed

lemma makeJmp_wp:
  assumes "gsl_narrow_spec nrw" "length insts \<le> 2 ^ 31" "info_platform info = plat"
    and "unat pc < length insts"
  shows "res_post (decode_error (unat pc) (length insts)) (wf_instr insts) (makeJmp nrw info inst insts pc)"
proof -
  have "res_post (decode_error (unat pc) (length insts)) (wf_instr insts) (makeJmp_default nrw info inst insts pc)"
    and "res_post (decode_error (unat pc) (length insts)) (wf_instr insts) (makeJmp_exit info inst pc)"
    using makeJmp_default_wp [OF assms(1,2), of pc info inst] makeJmp_exit_wp [of pc insts info inst] assms(4)
    by (auto elim!: res_post_mono intro: decode_errorI)
  then show ?thesis
    using makeJmp_call_wp [OF assms, of inst] assms(4)
    by (auto simp: makeJmp_def Let_def wp intro: decode_errorI)
qed

lemma unmarshal_step_wp:
  assumes "gsl_narrow_spec nrw" "length insts \<le> 2 ^ 31" "info_platform info = plat" "pc < length insts"
  shows "res_post (decode_error pc (length insts)) (\<lambda>(i, skip, falls). wf_instr insts i)
           (fst (unmarshal_step nrw opts info insts pc))"
proof -
  let ?E = "decode_error pc (length insts)"
  have pc: "unat (of_nat pc :: u32) = pc" using assms(2,4) by (intro unat_of_nat_32) simp
  have "res_post ?E (wf_instr insts) (makeLddw info inst nxt insts (of_nat pc))" for inst nxt
    using makeLddw_wp [of "of_nat pc" insts info inst nxt] assms(4)
    by (auto simp: pc elim!: res_post_mono intro: decode_errorI)
  moreover have "res_post ?E (wf_instr insts) (fst (makeMemOp info (of_nat pc) (insts ! pc)))"
    if "opcode (insts ! pc) AND INST_CLS_MASK \<in> {INST_CLS_LD, INST_CLS_LDX, INST_CLS_ST, INST_CLS_STX}"
    using makeMemOp_wp [OF that, of "of_nat pc" insts info] assms(4)
    by (auto simp: pc elim!: res_post_mono intro: decode_errorI)
  moreover have "res_post ?E (wf_instr insts) (makeJmp nrw info (insts ! pc) insts (of_nat pc))"
    using makeJmp_wp [OF assms(1-3), of "of_nat pc" "insts ! pc"] assms(4) by (simp add: pc)
  moreover have "res_post ?E (\<lambda>(i, skip). wf_instr insts i \<and> (skip \<longrightarrow> Suc pc < length insts))
      (fst (decode_alu opts info insts pc))"
    using assms(4) by (rule decode_alu_wp)
  ultimately show ?thesis
    using class_field_cases [of "opcode (insts ! pc)"]
    by (auto simp: unmarshal_step_def Let_def wp split_def elim!: res_post_mono)
qed

end

section \<open>Whole programs\<close>

lemma line_info_at_total: "line_info_ok info \<Longrightarrow> \<exists>li. line_info_at info pc = Inr li"
  by (auto simp: line_info_at_def line_info_ok_def)

text \<open>The three outcomes of an iteration that starts at a slot of the program.\<close>

lemma unmarshal_loop_step:
  assumes "gsl_narrow_spec nrw" "line_info_ok info" "pc < length insts" "length insts \<le> 2 ^ 31"
  shows "(\<exists>e. fst (unmarshal_step nrw opts info insts pc) = Inl e \<and>
              fst (unmarshal_loop nrw opts info insts pc prog nts n) = Inl e) \<or>
         (\<exists>i skip falls li nts' n'. fst (unmarshal_step nrw opts info insts pc) = Inr (i, skip, falls) \<and>
              unmarshal_loop nrw opts info insts pc prog nts n =
              unmarshal_loop nrw opts info insts (if skip then pc + 2 else pc + 1)
                (prog @ [(label (int pc), i, li)]) nts' n')"
proof -
  obtain r w where step: "unmarshal_step nrw opts info insts pc = (r, w)" by fastforce
  obtain li where li: "line_info_at info pc = Inr li"
    using line_info_at_total [OF assms(2)] by blast
  have "int pc \<le> 2 ^ 31 - 1"
  proof -
    have "pc < 2147483648" using assms(3,4) by simp
    then show ?thesis by simp
  qed
  then have narrow: "nrw int32_range (int pc) = Some (int pc)"
    using assms(1) by (simp add: gsl_narrowD)
  show ?thesis
  proof (cases r)
    case (Inl e)
    then show ?thesis using step assms(3) by (subst (1) unmarshal_loop.simps) simp
  next
    case (Inr t)
    obtain i skip falls where "t = (i, skip, falls)" by (cases t)
    with Inr step li narrow assms(3) show ?thesis
      by (subst (1) unmarshal_loop.simps, simp add: Let_def, blast)
  qed
qed

lemma unmarshal_loop_done:
  "\<not> pc < length insts \<Longrightarrow> fst (unmarshal_loop nrw opts info insts pc prog nts n) = Inr prog"
  by (simp add: unmarshal_loop.simps)

context helper_platform
begin

lemma unmarshal_loop_wp:
  assumes "gsl_narrow_spec nrw" "length insts \<le> 2 ^ 31" "info_platform info = plat" "line_info_ok info"
  shows "res_post (decode_error pc (length insts))
           (\<lambda>p. \<exists>new. p = prog @ new \<and> labelled_ok insts pc new)
           (fst (unmarshal_loop nrw opts info insts pc prog nts n))"
proof (induction "length insts - pc" arbitrary: pc prog nts n rule: less_induct)
  case less
  show ?case
  proof (cases "pc < length insts")
    case False
    then show ?thesis by (simp add: unmarshal_loop_done wp labelled_ok_def)
  next
    case True
    have post: "res_post (decode_error pc (length insts)) (\<lambda>(i, skip, falls). wf_instr insts i)
        (fst (unmarshal_step nrw opts info insts pc))"
      using assms True by (intro unmarshal_step_wp) simp_all
    from unmarshal_loop_step [OF assms(1,4) True assms(2), of opts prog nts n] show ?thesis
    proof (elim disjE exE conjE)
      fix e assume "fst (unmarshal_step nrw opts info insts pc) = Inl e"
        and "fst (unmarshal_loop nrw opts info insts pc prog nts n) = Inl e"
      with post show ?thesis by (simp add: wp)
    next
      fix i skip falls li nts' n'
      let ?pc' = "if skip then pc + 2 else pc + 1"
      assume ok: "fst (unmarshal_step nrw opts info insts pc) = Inr (i, skip, falls)"
        and eq: "unmarshal_loop nrw opts info insts pc prog nts n =
          unmarshal_loop nrw opts info insts ?pc' (prog @ [(label (int pc), i, li)]) nts' n'"
      have wf: "wf_instr insts i" using post ok by (simp add: wp)
      have "res_post (decode_error ?pc' (length insts))
          (\<lambda>p. \<exists>new. p = (prog @ [(label (int pc), i, li)]) @ new \<and> labelled_ok insts ?pc' new)
          (fst (unmarshal_loop nrw opts info insts ?pc' (prog @ [(label (int pc), i, li)]) nts' n'))"
        using True by (intro less.hyps) auto
      then show ?thesis
        unfolding eq
        by (rule res_post_mono)
           (use True wf in \<open>auto intro: decode_error_mono intro!: labelled_ok_Cons [where lo' = ?pc']\<close>)
    qed
  qed
qed

lemma unmarshal_program_wp:
  assumes "gsl_narrow_spec nrw" "length insts \<le> 2 ^ 31" "info_platform info = plat" "line_info_ok info"
    and "insts \<noteq> []"
  shows "res_post (decode_error 0 (length insts)) (labelled_ok insts 0)
           (fst (unmarshal_program nrw opts info insts nts))"
  using unmarshal_loop_wp [OF assms(1-4), of 0 "[]" opts nts 0] assms(5)
  by (simp add: unmarshal_program_def)

end

section \<open>Merged shift pairs\<close>

text \<open>
  What the instruction set says of the shifts and moves that the decoder merges, as a function
  of the old destination \<open>x\<close> and the operand \<open>y\<close>; 32-bit operations clear the upper half.
\<close>

definition alu_value :: "bin_op_t \<Rightarrow> bool \<Rightarrow> u64 \<Rightarrow> u64 \<Rightarrow> u64 option" where
  "alu_value op is64 x y =
    (if is64 then
       (case op of
          Bin_LSH \<Rightarrow> Some (push_bit (unat y mod 64) x)
        | Bin_RSH \<Rightarrow> Some (drop_bit (unat y mod 64) x)
        | Bin_ARSH \<Rightarrow> Some (signed_drop_bit (unat y mod 64) x)
        | Bin_MOV \<Rightarrow> Some y
        | Bin_MOVSX32 \<Rightarrow> Some (scast (ucast y :: u32))
        | _ \<Rightarrow> None)
     else (case op of Bin_MOV \<Rightarrow> Some (ucast (ucast y :: u32)) | _ \<Rightarrow> None))"

definition run_bin :: "bin_t \<Rightarrow> u64 \<Rightarrow> u64 option" where
  "run_bin b x =
    (case bin_v b of
       Imm y \<Rightarrow> alu_value (bin_op b) (bin_is64 b) x y
     | RegV r \<Rightarrow> if r = bin_dst b then alu_value (bin_op b) (bin_is64 b) x x else None)"

lemma shift_pair_zero_extends: "drop_bit 32 (push_bit 32 x) = (ucast (ucast (x :: u64) :: u32) :: u64)"
  by (rule bit_word_eqI) (auto simp: bit_simps)

lemma shift_pair_sign_extends: "signed_drop_bit 32 (push_bit 32 x) = (scast (ucast (x :: u64) :: u32) :: u64)"
proof (rule bit_word_eqI)
  fix n
  show "bit (signed_drop_bit 32 (push_bit 32 x)) n = bit (scast (ucast x :: u32) :: u64) n" if "n < LENGTH(64)"
    using that by (cases "n < 31"; cases "n = 31") (auto simp: bit_simps min_def)
qed

lemma decode_alu_merged:
  assumes "fst (decode_alu opts info insts pc) = Inr (ins, True)"
  shows "\<exists>d op. fst (makeAluOp opts info pc (insts ! pc)) = Inr (shift32 d Bin_LSH) \<and>
     fst (makeAluOp opts info (pc + 1) (insts ! (pc + 1))) = Inr (shift32 d op) \<and>
     (op = Bin_RSH \<and> ins = Bin \<lparr>bin_op = Bin_MOV, bin_dst = d, bin_v = RegV d, bin_is64 = False, bin_lddw = False\<rparr> \<or>
      op = Bin_ARSH \<and> ins = Bin \<lparr>bin_op = Bin_MOVSX32, bin_dst = d, bin_v = RegV d, bin_is64 = True, bin_lddw = False\<rparr>)"
proof -
  let ?d = "Reg (dst8 (insts ! pc))"
  have "fst (makeAluOp opts info pc (insts ! pc)) = Inr (shift32 ?d Bin_LSH)"
    using assms by (auto simp: decode_alu_def Let_def fst_bindN bindE_eq_Inr_iff split: if_splits)
  then show ?thesis
    using assms
    by (auto simp: decode_alu_def Let_def fst_bindN bindE_eq_Inr_iff split: if_splits)
qed

end
