(* ===== verification/Ebpf_Marshal.thy ===== *)
theory Ebpf_Marshal
  imports Ebpf_Unmarshal
begin

text \<open>
  \<^verbatim>\<open>asm_marshal.cpp\<close>: the encoder from abstract instructions to raw slots, one definition per
  overload of \<^verbatim>\<open>MarshalVisitor\<close>, and the offsets of \<^verbatim>\<open>crab/label.hpp\<close>. A register number is
  stored in a 4-bit field, which drops its high bits. The lemmas show that decoding an encoded
  instruction gives the instruction back, for the instructions whose encoding is faithful.
\<close>

section \<open>Branch offsets\<close>

definition label_offset :: "label_t \<Rightarrow> pc_t \<Rightarrow> int" where
  "label_offset l pc = lbl_from l - uint pc - 1"

definition fits_int16 :: "int \<Rightarrow> bool" where
  "fits_int16 x \<longleftrightarrow> - (2 ^ 15) \<le> x \<and> x \<le> 2 ^ 15 - 1"

definition label_to_offset16 :: "gsl_narrow \<Rightarrow> pc_t \<Rightarrow> label_t \<Rightarrow> i16 res" where
  "label_to_offset16 nrw pc l =
    (let off = label_offset l pc in
     bindE (opt_to_res NarrowingError (nrw int16_range (if fits_int16 off then off else 0)))
       (\<lambda>v. Inr (word_of_int v)))"

definition label_to_offset32 :: "gsl_narrow \<Rightarrow> pc_t \<Rightarrow> label_t \<Rightarrow> i32 res" where
  "label_to_offset32 nrw pc l =
    (let off = label_offset l pc in
     if fits_int16 off then Inr 0
     else bindE (opt_to_res NarrowingError (nrw int32_range off)) (\<lambda>v. Inr (word_of_int v)))"

section \<open>Operation codes\<close>

primrec cond_code :: "cond_op_t \<Rightarrow> u8 res" where
  "cond_code Cond_EQ = Inr 0x1"
| "cond_code Cond_GT = Inr 0x2"
| "cond_code Cond_GE = Inr 0x3"
| "cond_code Cond_SET = Inr 0x4"
| "cond_code Cond_NSET = Inl AssertionFailure"
| "cond_code Cond_NE = Inr 0x5"
| "cond_code Cond_SGT = Inr 0x6"
| "cond_code Cond_SGE = Inr 0x7"
| "cond_code Cond_LT = Inr 0xa"
| "cond_code Cond_LE = Inr 0xb"
| "cond_code Cond_SLT = Inr 0xc"
| "cond_code Cond_SLE = Inr 0xd"

primrec bin_code :: "bin_op_t \<Rightarrow> u8" where
  "bin_code Bin_ADD = 0x0"
| "bin_code Bin_SUB = 0x1"
| "bin_code Bin_MUL = 0x2"
| "bin_code Bin_SDIV = 0x3"
| "bin_code Bin_UDIV = 0x3"
| "bin_code Bin_OR = 0x4"
| "bin_code Bin_AND = 0x5"
| "bin_code Bin_LSH = 0x6"
| "bin_code Bin_RSH = 0x7"
| "bin_code Bin_SMOD = 0x9"
| "bin_code Bin_UMOD = 0x9"
| "bin_code Bin_XOR = 0xa"
| "bin_code Bin_MOV = 0xb"
| "bin_code Bin_MOVSX8 = 0xb"
| "bin_code Bin_MOVSX16 = 0xb"
| "bin_code Bin_MOVSX32 = 0xb"
| "bin_code Bin_ARSH = 0xc"

definition bin_offset :: "bin_op_t \<Rightarrow> i16" where
  "bin_offset op = (case op of Bin_SDIV \<Rightarrow> 1 | Bin_SMOD \<Rightarrow> 1 | Bin_MOVSX8 \<Rightarrow> 8 | Bin_MOVSX16 \<Rightarrow> 16
     | Bin_MOVSX32 \<Rightarrow> 32 | _ \<Rightarrow> 0)"

primrec imm_endian :: "un_op_t \<Rightarrow> i32 res" where
  "imm_endian Un_NEG = Inl AssertionFailure"
| "imm_endian Un_BE16 = Inr 16"
| "imm_endian Un_LE16 = Inr 16"
| "imm_endian Un_SWAP16 = Inr 16"
| "imm_endian Un_BE32 = Inr 32"
| "imm_endian Un_LE32 = Inr 32"
| "imm_endian Un_SWAP32 = Inr 32"
| "imm_endian Un_BE64 = Inr 64"
| "imm_endian Un_LE64 = Inr 64"
| "imm_endian Un_SWAP64 = Inr 64"

section \<open>One instruction\<close>

definition slot :: "u8 \<Rightarrow> u8 \<Rightarrow> u8 \<Rightarrow> i16 \<Rightarrow> i32 \<Rightarrow> ebpf_inst" where
  "slot op d s off im = \<lparr>opcode = op, dst = ucast d, src = ucast s, offset = off, imm = im\<rparr>"

definition narrow_imm :: "gsl_narrow \<Rightarrow> u64 \<Rightarrow> i32 res" where
  "narrow_imm nrw v = bindE (opt_to_res NarrowingError (nrw int32_range (uint v))) (\<lambda>i. Inr (word_of_int i))"

definition marshal_lddw :: "Reg \<Rightarrow> bool \<Rightarrow> i32 \<Rightarrow> i32 \<Rightarrow> ebpf_inst list res" where
  "marshal_lddw d isFd im next_imm =
     bindE (width_to_opcode 8) (\<lambda>w.
       Inr [slot (INST_CLS_LD OR w) (reg_v d) (if isFd then 1 else 0) 0 im, slot 0 0 0 0 next_imm])"

definition marshal_bin :: "gsl_narrow \<Rightarrow> bin_t \<Rightarrow> ebpf_inst list res" where
  "marshal_bin nrw b =
    (if bin_lddw b then
       (case bin_v b of
          RegV _ \<Rightarrow> Inl AssertionFailure
        | Imm v \<Rightarrow> marshal_lddw (bin_dst b) False (fst (split v)) (snd (split v)))
     else
       let op = (if bin_is64 b then INST_CLS_ALU64 else INST_CLS_ALU) OR push_bit 4 (bin_code (bin_op b));
           off = bin_offset (bin_op b) in
       case bin_v b of
         RegV r \<Rightarrow> Inr [slot (op OR INST_SRC_REG) (reg_v (bin_dst b)) (reg_v r) off 0]
       | Imm v \<Rightarrow> bindE (narrow_imm nrw v) (\<lambda>i. Inr [slot op (reg_v (bin_dst b)) 0 off i]))"

definition marshal_un :: "un_t \<Rightarrow> ebpf_inst list res" where
  "marshal_un u =
    (let d = reg_v (un_dst u);
         endian = (\<lambda>op. bindE (imm_endian (un_op u)) (\<lambda>i. Inr [slot op d 0 0 i])) in
     case un_op u of
       Un_NEG \<Rightarrow> Inr [slot ((if un_is64 u then INST_CLS_ALU64 else INST_CLS_ALU) OR INST_ALU_OP_NEG) d 0 0 0]
     | Un_LE16 \<Rightarrow> endian (INST_CLS_ALU OR INST_END_LE OR INST_ALU_OP_END)
     | Un_LE32 \<Rightarrow> endian (INST_CLS_ALU OR INST_END_LE OR INST_ALU_OP_END)
     | Un_LE64 \<Rightarrow> endian (INST_CLS_ALU OR INST_END_LE OR INST_ALU_OP_END)
     | Un_BE16 \<Rightarrow> endian (INST_CLS_ALU OR INST_END_BE OR INST_ALU_OP_END)
     | Un_BE32 \<Rightarrow> endian (INST_CLS_ALU OR INST_END_BE OR INST_ALU_OP_END)
     | Un_BE64 \<Rightarrow> endian (INST_CLS_ALU OR INST_END_BE OR INST_ALU_OP_END)
     | Un_SWAP16 \<Rightarrow> endian (INST_CLS_ALU64 OR INST_ALU_OP_END)
     | Un_SWAP32 \<Rightarrow> endian (INST_CLS_ALU64 OR INST_ALU_OP_END)
     | Un_SWAP64 \<Rightarrow> endian (INST_CLS_ALU64 OR INST_ALU_OP_END))"

definition marshal_jmp :: "gsl_narrow \<Rightarrow> pc_t \<Rightarrow> jmp_t \<Rightarrow> ebpf_inst list res" where
  "marshal_jmp nrw pc j =
    (case jmp_cond j of
       Some c \<Rightarrow>
         bindE (cond_code (cond_op c)) (\<lambda>code.
         bindE (label_to_offset16 nrw pc (jmp_target j)) (\<lambda>off.
           let op = INST_CLS_JMP OR push_bit 4 code; d = reg_v (cond_left c) in
           case cond_right c of
             RegV r \<Rightarrow> Inr [slot (op OR INST_SRC_REG) d (reg_v r) off 0]
           | Imm v \<Rightarrow> bindE (narrow_imm nrw v) (\<lambda>i. Inr [slot op d 0 off i])))
     | None \<Rightarrow>
         bindE (label_to_offset32 nrw pc (jmp_target j)) (\<lambda>i.
           if i \<noteq> 0 then Inr [slot INST_OP_JA32 0 0 0 i]
           else bindE (label_to_offset16 nrw pc (jmp_target j)) (\<lambda>off. Inr [slot INST_OP_JA16 0 0 off 0])))"

definition marshal_mem :: "gsl_narrow \<Rightarrow> mem_t \<Rightarrow> ebpf_inst list res" where
  "marshal_mem nrw m =
    (let access = mem_access m; base = reg_v (deref_basereg access) in
     bindE (width_to_opcode (deref_width access)) (\<lambda>w.
     bindE (opt_to_res NarrowingError (nrw int16_range (deref_offset access))) (\<lambda>o16.
       let op = INST_MODE_MEM OR w; off = word_of_int o16 in
       if mem_is_load m then
         (case mem_value m of
            Imm _ \<Rightarrow> Inl (RuntimeError ''LD IMM: '')
          | RegV r \<Rightarrow> Inr [slot (op OR (INST_CLS_LD OR 0x1)) (reg_v r) base off 0])
       else
         (case mem_value m of
            RegV r \<Rightarrow> Inr [slot (op OR INST_CLS_ST OR 0x1) base (reg_v r) off 0]
          | Imm v \<Rightarrow> bindE (narrow_imm nrw v) (\<lambda>i. Inr [slot (op OR INST_CLS_ST OR 0x0) base 0 off i])))))"

definition marshal_packet :: "packet_t \<Rightarrow> ebpf_inst list res" where
  "marshal_packet p =
     bindE (width_to_opcode (pkt_width p)) (\<lambda>w.
       case pkt_regoffset p of
         Some r \<Rightarrow> Inr [slot ((INST_CLS_LD OR w) OR INST_MODE_IND) 0 (reg_v r) 0 (pkt_offset p)]
       | None \<Rightarrow> Inr [slot ((INST_CLS_LD OR w) OR INST_MODE_ABS) 0 0 0 (pkt_offset p)])"

definition marshal_atomic :: "gsl_narrow \<Rightarrow> atomic_t \<Rightarrow> ebpf_inst list res" where
  "marshal_atomic nrw a =
    (let im = (if at_fetch a then atomic_op_code (at_op a) OR ucast INST_FETCH else atomic_op_code (at_op a)) in
     bindE (width_to_opcode (deref_width (at_access a))) (\<lambda>w.
     bindE (opt_to_res NarrowingError (nrw int16_range (deref_offset (at_access a)))) (\<lambda>off.
       Inr [slot (INST_CLS_STX OR INST_MODE_ATOMIC OR w) (reg_v (deref_basereg (at_access a)))
              (reg_v (at_valreg a)) (word_of_int off) im])))"

definition marshal_instruction :: "gsl_narrow \<Rightarrow> Instruction \<Rightarrow> pc_t \<Rightarrow> ebpf_inst list res" where
  "marshal_instruction nrw ins pc =
    (case ins of
       Undefined _ \<Rightarrow> Inl AssertionFailure
     | LoadMapFd b \<Rightarrow> marshal_lddw (lmf_dst b) True (lmf_mapfd b) 0
     | Bin b \<Rightarrow> marshal_bin nrw b
     | UnOp u \<Rightarrow> marshal_un u
     | Call c \<Rightarrow> Inr [slot INST_OP_CALL 0 INST_CALL_STATIC_HELPER 0 (call_func c)]
     | CallLocal c \<Rightarrow>
         bindE (label_to_offset32 nrw pc (cl_target c)) (\<lambda>i. Inr [slot INST_OP_CALL 0 INST_CALL_LOCAL 0 i])
     | Callx r \<Rightarrow> Inr [slot INST_OP_CALLX (reg_v r) INST_CALL_STATIC_HELPER 0 0]
     | Exit _ \<Rightarrow> Inr [slot INST_OP_EXIT 0 0 0 0]
     | Assume _ \<Rightarrow> Inl (InvalidArgument ''Cannot marshal assumptions'')
     | Jmp j \<Rightarrow> marshal_jmp nrw pc j
     | Mem m \<Rightarrow> marshal_mem nrw m
     | Packet p \<Rightarrow> marshal_packet p
     | Atomic a \<Rightarrow> marshal_atomic nrw a
     | IncrementLoopCounter _ \<Rightarrow> Inr [])"

section \<open>A whole program\<close>

definition instr_size :: "Instruction \<Rightarrow> nat" where
  "instr_size ins = (case ins of Bin b \<Rightarrow> (if bin_lddw b then 2 else 1) | LoadMapFd _ \<Rightarrow> 2 | _ \<Rightarrow> 1)"

text \<open>\<^verbatim>\<open>get_labels\<close>: a later entry for the same label overwrites an earlier one.\<close>

fun get_labels_loop :: "InstructionSeq \<Rightarrow> nat \<Rightarrow> (label_t \<rightharpoonup> nat) \<Rightarrow> (label_t \<rightharpoonup> nat)" where
  "get_labels_loop [] pc m = m"
| "get_labels_loop ((l, ins, _) # rest) pc m = get_labels_loop rest (pc + instr_size ins) (m(l \<mapsto> pc))"

definition get_labels :: "InstructionSeq \<Rightarrow> (label_t \<rightharpoonup> nat)" where
  "get_labels insts = get_labels_loop insts 0 Map.empty"

definition retarget :: "gsl_narrow \<Rightarrow> (label_t \<rightharpoonup> nat) \<Rightarrow> Instruction \<Rightarrow> Instruction res" where
  "retarget nrw pc_of_label ins =
    (case ins of
       Jmp j \<Rightarrow>
         bindE (opt_to_res OutOfRange (pc_of_label (jmp_target j))) (\<lambda>p.
         bindE (opt_to_res NarrowingError (nrw int32_range (int p))) (\<lambda>i.
           Inr (Jmp (j\<lparr>jmp_target := label i\<rparr>))))
     | _ \<Rightarrow> Inr ins)"

fun marshal_loop ::
  "gsl_narrow \<Rightarrow> (label_t \<rightharpoonup> nat) \<Rightarrow> InstructionSeq \<Rightarrow> pc_t \<Rightarrow> ebpf_inst list \<Rightarrow> ebpf_inst list res" where
  "marshal_loop nrw pc_of_label [] pc out = Inr out"
| "marshal_loop nrw pc_of_label ((l, ins, _) # rest) pc out =
     bindE (retarget nrw pc_of_label ins) (\<lambda>ins'.
     bindE (marshal_instruction nrw ins' pc) (\<lambda>slots.
       marshal_loop nrw pc_of_label rest (pc + of_nat (length slots)) (out @ slots)))"

definition marshal :: "gsl_narrow \<Rightarrow> InstructionSeq \<Rightarrow> ebpf_inst list res" where
  "marshal nrw insts = marshal_loop nrw (get_labels insts) insts 0 []"

section \<open>Fields survive the round trip\<close>

lemma reg_field: "r \<le> 10 \<Longrightarrow> ucast (ucast (r :: u8) :: u4) = r"
proof -
  assume "r \<le> 10"
  then have "unat r < 16" by (simp add: word_le_nat_alt)
  then show ?thesis
    by (simp add: word_unat_eq_iff unsigned_ucast_eq unsigned_take_bit_eq take_bit_nat_eq_self)
qed

lemma slot_simps [simp]:
  "opcode (slot op d s off im) = op"
  "dst (slot op d s off im) = ucast d"
  "src (slot op d s off im) = ucast s"
  "offset (slot op d s off im) = off"
  "imm (slot op d s off im) = im"
  by (simp_all add: slot_def)

lemma slot_regs [simp]:
  "d \<le> 10 \<Longrightarrow> dst8 (slot op d s off im) = d"
  "s \<le> 10 \<Longrightarrow> src8 (slot op d s off im) = s"
  by (simp_all add: dst8_def src8_def reg_field)

definition small_imm :: "u64 \<Rightarrow> bool" where
  "small_imm v \<longleftrightarrow> uint v < 2 ^ 31"

lemma small_immD:
  assumes "small_imm v"
  shows "uint v < 2147483648" "- 2147483648 \<le> uint v"
proof -
  show "uint v < 2147483648" using assms by (simp add: small_imm_def)
  have "0 \<le> uint v" by simp
  then show "- 2147483648 \<le> uint v" by linarith
qed

lemma narrow_imm_small:
  assumes "gsl_narrow_spec nrw" "small_imm v"
  shows "narrow_imm nrw v = Inr (ucast v)"
  using assms small_immD [OF assms(2)] by (simp add: narrow_imm_def gsl_narrowD)

lemma narrow_imm_large:
  assumes "gsl_narrow_spec nrw" "\<not> small_imm v"
  shows "narrow_imm nrw v = Inl NarrowingError"
  using assms by (simp add: narrow_imm_def gsl_narrowD small_imm_def)

lemma extend_small_imm:
  assumes "small_imm v"
  shows "sign_extend (ucast v) = v" and "zero_extend (ucast v) = v"
proof -
  note u = small_immD [OF assms]
  have "signed_take_bit 31 (uint v) = uint v"
    using u by (intro signed_take_bit_int_eq_self) simp_all
  then show "sign_extend (ucast v) = v"
    by (simp add: sign_extend_def scast_eq signed_ucast_eq)
  have "take_bit 32 (uint v) = uint v" using u by (intro take_bit_int_eq_self) simp_all
  then show "zero_extend (ucast v) = v"
    by (simp add: zero_extend_def word_uint_eq_iff unsigned_ucast_eq unsigned_take_bit_eq)
qed

section \<open>Instructions with a faithful encoding\<close>

definition full_platform :: "program_info \<Rightarrow> bool" where
  "full_platform info \<longleftrightarrow> supports info group_base32 \<and> supports info group_base64 \<and>
     supports info group_atomic32 \<and> supports info group_atomic64 \<and>
     supports info group_divmul32 \<and> supports info group_divmul64 \<and> supports info group_packet"

primrec val_encodable :: "val \<Rightarrow> bool" where
  "val_encodable (RegV r) = reg_ok r"
| "val_encodable (Imm v) = small_imm v"

definition bin_encodable :: "bin_t \<Rightarrow> bool" where
  "bin_encodable b \<longleftrightarrow> \<not> bin_lddw b \<and> reg_ok (bin_dst b) \<and> \<not> is_r10 (bin_dst b) \<and>
     val_encodable (bin_v b) \<and>
     (bin_op b \<in> {Bin_MOVSX8, Bin_MOVSX16, Bin_MOVSX32} \<longrightarrow> \<not> is_imm (bin_v b))"

definition un_encodable :: "un_t \<Rightarrow> bool" where
  "un_encodable u \<longleftrightarrow> reg_ok (un_dst u) \<and> \<not> is_r10 (un_dst u) \<and>
     (un_op u \<noteq> Un_NEG \<longrightarrow> (un_is64 u \<longleftrightarrow> un_op u \<in> {Un_SWAP16, Un_SWAP32, Un_SWAP64}))"

lemma alu_reg_bounds:
  "reg_ok r \<Longrightarrow> \<not> is_r10 r \<Longrightarrow> reg_v r < 10"
  by (simp add: reg_ok_def is_r10_def isa_consts order_less_le)

lemma bin_reg_roundtrip:
  assumes "full_platform info" "d < 10" "s \<le> 10"
  shows "fst (makeAluOp opts info pc
           (slot (((if is64 then INST_CLS_ALU64 else INST_CLS_ALU) OR push_bit 4 (bin_code op)) OR INST_SRC_REG)
              d s (bin_offset op) 0))
         = Inr (Bin \<lparr>bin_op = op, bin_dst = Reg d, bin_v = RegV (Reg s), bin_is64 = is64, bin_lddw = False\<rparr>)"
proof -
  have "d \<noteq> 10" "\<not> 10 < d" "\<not> 10 < s" "d \<le> 10" using assms by auto
  then show ?thesis
    using assms
    by (cases op; cases is64)
       (simp_all add: makeAluOp_def Let_def getAluOp_def full_platform_def bin_offset_def isa_consts
          wp getBinValue_def)
qed

lemma bin_imm_roundtrip:
  assumes "full_platform info" "d < 10" "small_imm v" "op \<notin> {Bin_MOVSX8, Bin_MOVSX16, Bin_MOVSX32}"
  shows "fst (makeAluOp opts info pc
           (slot ((if is64 then INST_CLS_ALU64 else INST_CLS_ALU) OR push_bit 4 (bin_code op))
              d 0 (bin_offset op) (ucast v)))
         = Inr (Bin \<lparr>bin_op = op, bin_dst = Reg d, bin_v = Imm v, bin_is64 = is64, bin_lddw = False\<rparr>)"
proof -
  have "d \<noteq> 10" "\<not> 10 < d" "d \<le> 10" using assms by auto
  then show ?thesis
    using assms
    by (cases op; cases is64)
       (simp_all add: makeAluOp_def Let_def getAluOp_def full_platform_def bin_offset_def isa_consts
          wp getBinValue_def extend_small_imm src8_def)
qed

lemma marshal_bin_roundtrip:
  assumes "gsl_narrow_spec nrw" "full_platform info" "bin_encodable b"
  shows "\<exists>i. marshal_bin nrw b = Inr [i] \<and> fst (makeAluOp opts info pc i) = Inr (Bin b)"
proof -
  obtain op d v is64 where b: "b = \<lparr>bin_op = op, bin_dst = Reg d, bin_v = v, bin_is64 = is64, bin_lddw = False\<rparr>"
    using assms(3) by (cases b, case_tac bin_dst) (auto simp: bin_encodable_def)
  have d: "d < 10" using assms(3) alu_reg_bounds [of "Reg d"] by (simp add: b bin_encodable_def)
  show ?thesis
  proof (cases v)
    case (RegV r)
    then obtain s where "r = Reg s" by (cases r)
    with RegV assms(3) bin_reg_roundtrip [OF assms(2) d, of s] show ?thesis
      by (simp add: b bin_encodable_def marshal_bin_def Let_def reg_ok_def isa_consts)
  next
    case (Imm w)
    with assms(3) bin_imm_roundtrip [OF assms(2) d, of w op] show ?thesis
      by (simp add: b bin_encodable_def marshal_bin_def Let_def narrow_imm_small [OF assms(1)])
  qed
qed

lemma marshal_un_roundtrip:
  assumes "full_platform info" "un_encodable u"
  shows "\<exists>i. marshal_un u = Inr [i] \<and> fst (makeAluOp opts info pc i) = Inr (UnOp u)"
proof -
  obtain op d is64 where u: "u = \<lparr>un_op = op, un_dst = Reg d, un_is64 = is64\<rparr>"
    by (cases u, case_tac un_dst) auto
  have "d < 10" using assms(2) alu_reg_bounds [of "Reg d"] by (simp add: u un_encodable_def)
  then have "d \<noteq> 10" "\<not> 10 < d" "d \<le> 10" by auto
  then show ?thesis
    using assms
    by (cases op; cases is64)
       (simp_all add: u un_encodable_def marshal_un_def makeAluOp_def Let_def getAluOp_def
          getAluOp_end_def full_platform_def isa_consts wp src8_def)
qed

lemma narrow_offset16:
  assumes "gsl_narrow_spec nrw" "- 32768 \<le> off" "off \<le> 32767"
  shows "nrw (- 32768, 32767) off = Some off"
  using assms by (simp add: gsl_narrowD)

lemma sint_offset16:
  assumes "- 32768 \<le> off" "off \<le> 32767"
  shows "sint (word_of_int off :: i16) = off"
  using assms by (simp add: signed_of_int signed_take_bit_int_eq_self)

lemma sint_offset32:
  assumes "- 2147483648 \<le> off" "off \<le> 2147483647"
  shows "sint (word_of_int off :: i32) = off"
  using assms by (simp add: signed_of_int signed_take_bit_int_eq_self)

lemma width_to_opcode_cases:
  assumes "w \<in> {1, 2, 4, 8}"
  shows "\<exists>c. width_to_opcode w = Inr c \<and> opcode_to_width c = Inr w \<and>
             c \<in> {INST_SIZE_B, INST_SIZE_H, INST_SIZE_W, INST_SIZE_DW}"
  using assms by (auto simp: width_to_opcode_def opcode_to_width_def isa_consts)

definition mem_encodable :: "mem_t \<Rightarrow> bool" where
  "mem_encodable m \<longleftrightarrow> deref_ok (mem_access m) \<and>
     (if mem_is_load m then (case mem_value m of RegV r \<Rightarrow> reg_ok r \<and> \<not> is_r10 r | Imm _ \<Rightarrow> False)
      else val_encodable (mem_value m))"

definition packet_encodable :: "packet_t \<Rightarrow> bool" where
  "packet_encodable p \<longleftrightarrow> pkt_width p \<in> {1, 2, 4} \<and>
     (case pkt_regoffset p of None \<Rightarrow> True | Some r \<Rightarrow> reg_ok r)"

definition atomic_encodable :: "atomic_t \<Rightarrow> bool" where
  "atomic_encodable a \<longleftrightarrow> deref_ok (at_access a) \<and> deref_width (at_access a) \<in> {4, 8} \<and>
     reg_ok (at_valreg a) \<and> (at_op a \<in> {Atomic_XCHG, Atomic_CMPXCHG} \<longrightarrow> at_fetch a)"

lemma mem_slot_roundtrip:
  assumes "full_platform info" "w \<in> {1, 2, 4, 8}" "width_to_opcode w = Inr c"
    "- 32768 \<le> off" "off \<le> 32767" "b \<le> 10"
  shows "r < 10 \<Longrightarrow> fst (makeMemOp info pc (slot ((INST_MODE_MEM OR c) OR (INST_CLS_LD OR 0x1)) r b (word_of_int off) 0))
      = Inr (Mem \<lparr>mem_access = \<lparr>deref_width = w, deref_basereg = Reg b, deref_offset = off\<rparr>,
                  mem_value = RegV (Reg r), mem_is_load = True\<rparr>)"
    and "r \<le> 10 \<Longrightarrow> fst (makeMemOp info pc (slot ((INST_MODE_MEM OR c) OR INST_CLS_ST OR 0x1) b r (word_of_int off) 0))
      = Inr (Mem \<lparr>mem_access = \<lparr>deref_width = w, deref_basereg = Reg b, deref_offset = off\<rparr>,
                  mem_value = RegV (Reg r), mem_is_load = False\<rparr>)"
    and "small_imm v \<Longrightarrow>
      fst (makeMemOp info pc (slot ((INST_MODE_MEM OR c) OR INST_CLS_ST OR 0x0) b 0 (word_of_int off) (ucast v)))
      = Inr (Mem \<lparr>mem_access = \<lparr>deref_width = w, deref_basereg = Reg b, deref_offset = off\<rparr>,
                  mem_value = Imm v, mem_is_load = False\<rparr>)"
proof -
  have b: "\<not> 10 < b" using assms(6) by auto
  have w: "w = 1 \<or> w = 2 \<or> w = 4 \<or> w = 8" using assms(2) by simp
  note facts = assms(1,3) b assms(6) sint_offset16 [OF assms(4,5)]
  note defs = makeMemOp_def makeMemOp_mem_def Let_def getMemWidth_def opcode_to_width_def
    width_to_opcode_def full_platform_def isa_consts wp getMemIsLoad_def
  show "fst (makeMemOp info pc (slot ((INST_MODE_MEM OR c) OR (INST_CLS_LD OR 0x1)) r b (word_of_int off) 0))
      = Inr (Mem \<lparr>mem_access = \<lparr>deref_width = w, deref_basereg = Reg b, deref_offset = off\<rparr>,
                  mem_value = RegV (Reg r), mem_is_load = True\<rparr>)" if "r < 10"
  proof -
    have "r \<noteq> 10" "\<not> 10 < r" "r \<le> 10" using that by auto
    then show ?thesis using w facts by (elim disjE) (simp_all add: defs)
  qed
  show "fst (makeMemOp info pc (slot ((INST_MODE_MEM OR c) OR INST_CLS_ST OR 0x1) b r (word_of_int off) 0))
      = Inr (Mem \<lparr>mem_access = \<lparr>deref_width = w, deref_basereg = Reg b, deref_offset = off\<rparr>,
                  mem_value = RegV (Reg r), mem_is_load = False\<rparr>)" if "r \<le> 10"
  proof -
    have "\<not> 10 < r" using that by auto
    then show ?thesis using w facts that by (elim disjE) (simp_all add: defs)
  qed
  show "fst (makeMemOp info pc (slot ((INST_MODE_MEM OR c) OR INST_CLS_ST OR 0x0) b 0 (word_of_int off) (ucast v)))
      = Inr (Mem \<lparr>mem_access = \<lparr>deref_width = w, deref_basereg = Reg b, deref_offset = off\<rparr>,
                  mem_value = Imm v, mem_is_load = False\<rparr>)" if "small_imm v"
    using w facts extend_small_imm(2) [OF that] by (elim disjE) (simp_all add: defs src8_def)
qed

lemma marshal_mem_roundtrip:
  assumes "gsl_narrow_spec nrw" "full_platform info" "mem_encodable m"
  shows "\<exists>i. marshal_mem nrw m = Inr [i] \<and> fst (makeMemOp info pc i) = Inr (Mem m)"
proof -
  obtain w b off v ld where m: "m = \<lparr>mem_access = \<lparr>deref_width = w, deref_basereg = Reg b, deref_offset = off\<rparr>,
      mem_value = v, mem_is_load = ld\<rparr>"
    by (metis mem_t.cases deref_t.cases Reg.exhaust)
  have acc: "w \<in> {1, 2, 4, 8}" "- 32768 \<le> off" "off \<le> 32767" "b \<le> 10"
    using assms(3) by (simp_all add: m mem_encodable_def deref_ok_def reg_ok_def isa_consts)
  obtain c where c: "width_to_opcode w = Inr c" using width_to_opcode_cases [OF acc(1)] by blast
  note rt = mem_slot_roundtrip [OF assms(2) acc(1) c acc(2-4)]
  note enc = marshal_mem_def Let_def c narrow_offset16 [OF assms(1) acc(2,3)]
  show ?thesis
  proof (cases v)
    case (RegV r)
    obtain r' where r: "r = Reg r'" by (cases r)
    show ?thesis
    proof (cases ld)
      case True
      then have "r' < 10" using assms(3) alu_reg_bounds [of r] by (simp add: m RegV r mem_encodable_def)
      with True rt(1) show ?thesis by (simp add: m RegV r enc)
    next
      case False
      then have "r' \<le> 10" using assms(3) by (simp add: m RegV r mem_encodable_def reg_ok_def isa_consts)
      with False rt(2) show ?thesis by (simp add: m RegV r enc)
    qed
  next
    case (Imm x)
    then have ld: "\<not> ld" "small_imm x" using assms(3) by (simp_all add: m mem_encodable_def split: if_splits)
    with rt(3) [of x] show ?thesis by (simp add: m Imm enc narrow_imm_small [OF assms(1)])
  qed
qed

lemma marshal_packet_roundtrip:
  assumes "full_platform info" "packet_encodable p"
  shows "\<exists>i. marshal_packet p = Inr [i] \<and> fst (makeMemOp info pc i) = Inr (Packet p)"
proof -
  obtain w off r where p: "p = \<lparr>pkt_width = w, pkt_offset = off, pkt_regoffset = r\<rparr>"
    by (cases p) auto
  have w: "w = 1 \<or> w = 2 \<or> w = 4" using assms(2) by (simp add: p packet_encodable_def)
  note defs = marshal_packet_def makeMemOp_def makeMemOp_packet_def Let_def getMemWidth_def
    opcode_to_width_def width_to_opcode_def full_platform_def isa_consts wp
  show ?thesis
  proof (cases r)
    case None
    with w assms(1) show ?thesis by (elim disjE) (simp_all add: p defs dst8_def src8_def)
  next
    case (Some x)
    obtain x' where x: "x = Reg x'" by (cases x)
    have "x' \<le> 10" "\<not> 10 < x'"
      using assms(2) by (auto simp: p Some x packet_encodable_def reg_ok_def isa_consts)
    with w assms(1) show ?thesis by (elim disjE) (simp_all add: p Some x defs dst8_def)
  qed
qed

lemma marshal_atomic_roundtrip:
  assumes "gsl_narrow_spec nrw" "full_platform info" "atomic_encodable a"
  shows "\<exists>i. marshal_atomic nrw a = Inr [i] \<and> fst (makeMemOp info pc i) = Inr (Atomic a)"
proof -
  obtain op f w b off r where a: "a = \<lparr>at_op = op, at_fetch = f,
      at_access = \<lparr>deref_width = w, deref_basereg = Reg b, deref_offset = off\<rparr>, at_valreg = Reg r\<rparr>"
    by (metis atomic_t.cases deref_t.cases Reg.exhaust)
  have acc: "- 32768 \<le> off" "off \<le> 32767" "b \<le> 10" "\<not> 10 < b" "r \<le> 10" "\<not> 10 < r"
    and w: "w = 4 \<or> w = 8" and f: "op \<in> {Atomic_XCHG, Atomic_CMPXCHG} \<longrightarrow> f"
    using assms(3) by (auto simp: a atomic_encodable_def deref_ok_def reg_ok_def isa_consts)
  note defs = marshal_atomic_def makeMemOp_def makeMemOp_atomic_def Let_def getMemWidth_def
    opcode_to_width_def width_to_opcode_def full_platform_def isa_consts wp getAtomicOp_def
  show ?thesis
    using w assms(2) acc f sint_offset16 [OF acc(1,2)] narrow_offset16 [OF assms(1) acc(1,2)]
    by (elim disjE; cases op; cases f) (simp_all add: a defs)
qed

section \<open>One-slot codecs\<close>

text \<open>
  What the encoder and the decoder of a one-slot instruction promise each other. The decoder is
  a function of the slot alone (the platform and the position are fixed).
\<close>

locale slot_codec =
  fixes enc :: "'a \<Rightarrow> ebpf_inst list res"
    and dec :: "ebpf_inst \<Rightarrow> Instruction res"
    and inj_ins :: "'a \<Rightarrow> Instruction"
    and encodable :: "'a \<Rightarrow> bool"
  assumes round_trip: "encodable x \<Longrightarrow> \<exists>i. enc x = Inr [i] \<and> dec i = Inr (inj_ins x)"
    and inj: "inj_ins x = inj_ins y \<Longrightarrow> x = y"
begin

lemma encoding_injective:
  assumes "encodable x" "encodable y" "enc x = enc y"
  shows "x = y"
proof -
  obtain i j where "enc x = Inr [i]" "dec i = Inr (inj_ins x)" "enc y = Inr [j]" "dec j = Inr (inj_ins y)"
    using round_trip assms(1,2) by blast
  with assms(3) show ?thesis by (auto intro: inj)
qed

lemma encode_list:
  assumes "\<forall>x \<in> set xs. encodable x"
  shows "\<exists>slots. map enc xs = map (\<lambda>i. Inr [i]) slots \<and> map dec slots = map (\<lambda>x. Inr (inj_ins x)) xs"
  using assms
proof (induction xs)
  case (Cons x xs)
  then obtain slots where s: "map enc xs = map (\<lambda>i. Inr [i]) slots" "map dec slots = map (\<lambda>x. Inr (inj_ins x)) xs"
    by auto
  obtain i where "enc x = Inr [i]" "dec i = Inr (inj_ins x)" using round_trip Cons.prems by auto
  with s show ?case by (intro exI [of _ "i # slots"]) simp
qed simp

end

text \<open>The instruction forms that one slot holds.\<close>

definition codec_ready :: "gsl_narrow \<Rightarrow> program_info \<Rightarrow> bool" where
  "codec_ready nrw info \<longleftrightarrow> gsl_narrow_spec nrw \<and> full_platform info"

interpretation bin_codec: slot_codec "marshal_bin nrw" "\<lambda>i. fst (makeAluOp opts info pc i)" Bin
  "\<lambda>b. codec_ready nrw info \<and> bin_encodable b"
  by unfold_locales (simp_all add: codec_ready_def marshal_bin_roundtrip)

interpretation un_codec: slot_codec marshal_un "\<lambda>i. fst (makeAluOp opts info pc i)" UnOp
  "\<lambda>u. full_platform info \<and> un_encodable u"
  by unfold_locales (simp_all add: marshal_un_roundtrip)

interpretation mem_codec: slot_codec "marshal_mem nrw" "\<lambda>i. fst (makeMemOp info pc i)" Mem
  "\<lambda>m. codec_ready nrw info \<and> mem_encodable m"
  by unfold_locales (simp_all add: codec_ready_def marshal_mem_roundtrip)

interpretation packet_codec: slot_codec marshal_packet "\<lambda>i. fst (makeMemOp info pc i)" Packet
  "\<lambda>p. full_platform info \<and> packet_encodable p"
  by unfold_locales (simp_all add: marshal_packet_roundtrip)

interpretation atomic_codec: slot_codec "marshal_atomic nrw" "\<lambda>i. fst (makeMemOp info pc i)" Atomic
  "\<lambda>a. codec_ready nrw info \<and> atomic_encodable a"
  by unfold_locales (simp_all add: codec_ready_def marshal_atomic_roundtrip)

section \<open>Branch targets survive the round trip\<close>

lemma uint_of_nat_pc: "n < 2147483648 \<Longrightarrow> uint (of_nat n :: u32) = int n"
  by (simp add: unsigned_of_nat take_bit_nat_eq_self flip: of_nat_take_bit)

lemma branch_target:
  assumes "gsl_narrow_spec nrw" "length insts \<le> 2147483648" "k < length insts" "opcode (insts ! k) \<noteq> 0"
    "pc < length insts" "off = word_of_int (int k - int pc - 1)"
  shows "getJumpTarget nrw off insts (of_nat pc) = Inr (label (int k))"
proof -
  have off: "of_nat pc + 1 + off = (of_nat k :: u32)" by (simp add: assms(6))
  have k: "uint (of_nat k :: u32) = int k" "unat (of_nat k :: u32) = k"
    using assms(2,3) by (simp_all add: uint_of_nat_pc unat_of_nat_32)
  have "- 2147483648 \<le> int k" "int k \<le> 2147483647" using assms(2,3) by linarith+
  then show ?thesis
    using assms(1,3,4) by (simp add: getJumpTarget_def Let_def off k gsl_narrowD)
qed

definition near :: "nat \<Rightarrow> nat \<Rightarrow> bool" where
  "near pc k \<longleftrightarrow> fits_int16 (int k - int pc - 1)"

lemma offset16_near:
  assumes "gsl_narrow_spec nrw" "pc < 2147483648" "near pc k"
  shows "\<exists>off. label_to_offset16 nrw (of_nat pc) (label (int k)) = Inr off \<and>
           scast off = (word_of_int (int k - int pc - 1) :: u32)"
proof -
  let ?d = "int k - int pc - 1"
  have d: "- 32768 \<le> ?d" "?d \<le> 32767" using assms(3) by (simp_all add: near_def fits_int16_def)
  have u: "uint (of_nat pc :: u32) = int pc" using assms(2) by (rule uint_of_nat_pc)
  have "label_to_offset16 nrw (of_nat pc) (label (int k)) = Inr (word_of_int ?d)"
    using assms(1,3) d
    by (simp add: label_to_offset16_def Let_def label_offset_def u near_def gsl_narrowD)
  moreover have "scast (word_of_int ?d :: i16) = (word_of_int ?d :: u32)"
    unfolding scast_eq using sint_offset16 [OF d] by simp
  ultimately show ?thesis by blast
qed

lemma offset32_near:
  assumes "pc < 2147483648" "near pc k"
  shows "label_to_offset32 nrw (of_nat pc) (label (int k)) = Inr 0"
  using assms uint_of_nat_pc [OF assms(1)]
  by (simp add: label_to_offset32_def Let_def label_offset_def near_def)

lemma offset32_far:
  assumes "gsl_narrow_spec nrw" "pc < 2147483648" "k < 2147483648" "\<not> near pc k"
  shows "\<exists>off. label_to_offset32 nrw (of_nat pc) (label (int k)) = Inr off \<and> off \<noteq> 0 \<and>
           off = word_of_int (int k - int pc - 1)"
proof -
  let ?d = "int k - int pc - 1"
  have u: "uint (of_nat pc :: u32) = int pc" using assms(2) by (rule uint_of_nat_pc)
  have d: "- 2147483648 \<le> ?d" "?d \<le> 2147483647" using assms(2,3) by linarith+
  have "?d \<noteq> 0" using assms(4) by (auto simp: near_def fits_int16_def)
  then have "(word_of_int ?d :: i32) \<noteq> 0" using sint_offset32 [OF d] by force
  then show ?thesis
    using assms(1,4) d
    by (simp add: label_to_offset32_def Let_def label_offset_def u near_def gsl_narrowD)
qed

definition jmp_encodable :: "nat \<Rightarrow> nat \<Rightarrow> jmp_t \<Rightarrow> bool" where
  "jmp_encodable pc k j \<longleftrightarrow> jmp_target j = label (int k) \<and>
     (case jmp_cond j of
        None \<Rightarrow> True
      | Some c \<Rightarrow> near pc k \<and> cond_is64 c \<and> cond_op c \<noteq> Cond_NSET \<and> reg_ok (cond_left c) \<and>
          val_encodable (cond_right c))"

lemma cond_slot_roundtrip:
  assumes "full_platform info" "cond_code op = Inr code" "l \<le> 10"
    and "getJumpTarget nrw (scast off) insts pc = Inr t"
  shows "r \<le> 10 \<Longrightarrow> makeJmp nrw info (slot ((INST_CLS_JMP OR push_bit 4 code) OR INST_SRC_REG) l r off 0) insts pc =
      Inr (Jmp \<lparr>jmp_cond = Some \<lparr>cond_op = op, cond_left = Reg l, cond_right = RegV (Reg r), cond_is64 = True\<rparr>,
                jmp_target = t\<rparr>)"
    and "small_imm v \<Longrightarrow> makeJmp nrw info (slot (INST_CLS_JMP OR push_bit 4 code) l 0 off (ucast v)) insts pc =
      Inr (Jmp \<lparr>jmp_cond = Some \<lparr>cond_op = op, cond_left = Reg l, cond_right = Imm v, cond_is64 = True\<rparr>,
                jmp_target = t\<rparr>)"
proof -
  have l: "\<not> 10 < l" using assms(3) by auto
  note defs = makeJmp_def makeJmp_default_def Let_def getJmpOp_def full_platform_def isa_consts wp
  show "makeJmp nrw info (slot ((INST_CLS_JMP OR push_bit 4 code) OR INST_SRC_REG) l r off 0) insts pc =
      Inr (Jmp \<lparr>jmp_cond = Some \<lparr>cond_op = op, cond_left = Reg l, cond_right = RegV (Reg r), cond_is64 = True\<rparr>,
                jmp_target = t\<rparr>)" if "r \<le> 10"
  proof -
    have "\<not> 10 < r" using that by auto
    then show ?thesis using that assms l by (cases op) (simp_all add: defs)
  qed
  show "makeJmp nrw info (slot (INST_CLS_JMP OR push_bit 4 code) l 0 off (ucast v)) insts pc =
      Inr (Jmp \<lparr>jmp_cond = Some \<lparr>cond_op = op, cond_left = Reg l, cond_right = Imm v, cond_is64 = True\<rparr>,
                jmp_target = t\<rparr>)" if "small_imm v"
    using extend_small_imm(1) [OF that] assms l by (cases op) (simp_all add: defs)
qed

lemma ja_slot_roundtrip:
  assumes "full_platform info"
  shows "getJumpTarget nrw (scast off) insts pc = Inr t \<Longrightarrow>
      makeJmp nrw info (slot INST_OP_JA16 0 0 off 0) insts pc = Inr (Jmp \<lparr>jmp_cond = None, jmp_target = t\<rparr>)"
    and "getJumpTarget nrw i insts pc = Inr t \<Longrightarrow>
      makeJmp nrw info (slot INST_OP_JA32 0 0 0 i) insts pc = Inr (Jmp \<lparr>jmp_cond = None, jmp_target = t\<rparr>)"
  using assms
  by (simp_all add: makeJmp_def makeJmp_default_def Let_def getJmpOp_def full_platform_def isa_consts wp)

lemma marshal_jmp_roundtrip:
  assumes "gsl_narrow_spec nrw" "full_platform info" "jmp_encodable pc k j"
    and "length insts \<le> 2147483648" "pc < length insts" "k < length insts" "opcode (insts ! k) \<noteq> 0"
  shows "\<exists>i. marshal_jmp nrw (of_nat pc) j = Inr [i] \<and> opcode i AND INST_CLS_MASK \<in> {INST_CLS_JMP, INST_CLS_JMP32} \<and>
           makeJmp nrw info i insts (of_nat pc) = Inr (Jmp j)"
proof -
  have bounds: "pc < 2147483648" "k < 2147483648" using assms(4-6) by auto
  have tgt: "getJumpTarget nrw (word_of_int (int k - int pc - 1)) insts (of_nat pc) = Inr (label (int k))"
    by (rule branch_target [OF assms(1,4,6,7,5) refl])
  have j_t: "jmp_target j = label (int k)" using assms(3) by (simp add: jmp_encodable_def)
  show ?thesis
  proof (cases "jmp_cond j")
    case None
    then have j: "j = \<lparr>jmp_cond = None, jmp_target = label (int k)\<rparr>" using j_t by (cases j) simp
    show ?thesis
    proof (cases "near pc k")
      case True
      obtain off where off: "label_to_offset16 nrw (of_nat pc) (label (int k)) = Inr off"
        "scast off = (word_of_int (int k - int pc - 1) :: u32)"
        using offset16_near [OF assms(1) bounds(1) True] by blast
      with tgt ja_slot_roundtrip(1) [OF assms(2), of nrw off] offset32_near [OF bounds(1) True]
      show ?thesis by (simp add: j marshal_jmp_def isa_consts)
    next
      case False
      obtain off where "label_to_offset32 nrw (of_nat pc) (label (int k)) = Inr off" "off \<noteq> 0"
        "off = word_of_int (int k - int pc - 1)"
        using offset32_far [OF assms(1) bounds False] by blast
      with tgt ja_slot_roundtrip(2) [OF assms(2)] show ?thesis by (simp add: j marshal_jmp_def isa_consts)
    qed
  next
    case (Some c)
    obtain op l v where c: "c = \<lparr>cond_op = op, cond_left = Reg l, cond_right = v, cond_is64 = True\<rparr>"
      using assms(3) Some by (cases c, case_tac cond_left) (auto simp: jmp_encodable_def)
    have j: "j = \<lparr>jmp_cond = Some c, jmp_target = label (int k)\<rparr>" using j_t Some by (cases j) simp
    have enc: "near pc k" "op \<noteq> Cond_NSET" "l \<le> 10" "val_encodable v"
      using assms(3) by (simp_all add: j c jmp_encodable_def reg_ok_def isa_consts)
    obtain code where code: "cond_code op = Inr code" using enc(2) by (cases op) auto
    obtain off where off: "label_to_offset16 nrw (of_nat pc) (label (int k)) = Inr off"
      "scast off = (word_of_int (int k - int pc - 1) :: u32)"
      using offset16_near [OF assms(1) bounds(1) enc(1)] by blast
    have cls: "(INST_CLS_JMP OR push_bit 4 code) AND INST_CLS_MASK = INST_CLS_JMP"
      "((INST_CLS_JMP OR push_bit 4 code) OR INST_SRC_REG) AND INST_CLS_MASK = INST_CLS_JMP"
      using code by (cases op; simp add: isa_consts)+
    note rt = cond_slot_roundtrip [OF assms(2) code enc(3), of nrw off insts "of_nat pc", unfolded off(2), OF tgt]
    show ?thesis
    proof (cases v)
      case (RegV r)
      obtain r' where r: "r = Reg r'" by (cases r)
      have "r' \<le> 10" using enc(4) by (simp add: RegV r reg_ok_def isa_consts)
      with rt(1) show ?thesis by (simp add: j c RegV r marshal_jmp_def Let_def code off(1) cls)
    next
      case (Imm x)
      with enc(4) rt(2) [of x] show ?thesis
        by (simp add: j c marshal_jmp_def Let_def code off(1) cls narrow_imm_small [OF assms(1)])
    qed
  qed
qed

section \<open>One iteration of the decoder on an encoded instruction\<close>

lemma bin_slot_class:
  assumes "marshal_bin nrw b = Inr [i]"
  shows "opcode i AND INST_CLS_MASK = (if bin_is64 b then INST_CLS_ALU64 else INST_CLS_ALU)"
proof -
  have op: "c \<in> {INST_CLS_ALU64, INST_CLS_ALU} \<Longrightarrow> (c OR push_bit 4 (bin_code o')) AND INST_CLS_MASK = c"
    "c \<in> {INST_CLS_ALU64, INST_CLS_ALU} \<Longrightarrow> (c OR push_bit 4 (bin_code o') OR INST_SRC_REG) AND INST_CLS_MASK = c"
    for c o'
    by (cases o'; auto simp: isa_consts)+
  show ?thesis
    using assms op
    by (auto simp: marshal_bin_def marshal_lddw_def width_to_opcode_def Let_def or.assoc bindE_eq_Inr_iff
          split: if_splits val.splits)
qed

lemma un_slot_class:
  assumes "marshal_un u = Inr [i]"
  shows "opcode i AND INST_CLS_MASK \<in> {INST_CLS_ALU64, INST_CLS_ALU}"
  using assms by (cases "un_op u"; cases "un_is64 u") (auto simp: marshal_un_def Let_def isa_consts)

lemma mem_slot_class:
  assumes "width_to_opcode w = Inr c"
  shows "((INST_MODE_MEM OR c) OR (INST_CLS_LD OR 0x1)) AND INST_CLS_MASK = INST_CLS_LDX"
    "((INST_MODE_MEM OR c) OR INST_CLS_ST OR 0x1) AND INST_CLS_MASK = INST_CLS_STX"
    "((INST_MODE_MEM OR c) OR INST_CLS_ST) AND INST_CLS_MASK = INST_CLS_ST"
    "(INST_CLS_STX OR INST_MODE_ATOMIC OR c) AND INST_CLS_MASK = INST_CLS_STX"
    "((INST_CLS_LD OR c) OR INST_MODE_IND) AND INST_CLS_MASK = INST_CLS_LD"
    "((INST_CLS_LD OR c) OR INST_MODE_ABS) AND INST_CLS_MASK = INST_CLS_LD"
    "(INST_CLS_LD OR c) OR INST_MODE_IND \<noteq> INST_OP_LDDW_IMM"
    "(INST_CLS_LD OR c) OR INST_MODE_ABS \<noteq> INST_OP_LDDW_IMM"
    "(INST_CLS_LD OR c) OR INST_MODE_IND \<noteq> 0"
    "(INST_CLS_LD OR c) OR INST_MODE_ABS \<noteq> 0"
  using assms by (auto simp: width_to_opcode_def isa_consts split: if_splits)

fun branch_labels :: "Instruction \<Rightarrow> label_t list" where
  "branch_labels (Jmp j) = [jmp_target j]"
| "branch_labels (CallLocal c) = [cl_target c]"
| "branch_labels _ = []"

fun encodable_at :: "gsl_narrow \<Rightarrow> program_info \<Rightarrow> nat \<Rightarrow> Instruction \<Rightarrow> bool" where
  "encodable_at nrw info pc (Bin b) \<longleftrightarrow>
     (if bin_lddw b then bin_op b = Bin_MOV \<and> bin_is64 b \<and> reg_ok (bin_dst b) \<and> is_imm (bin_v b)
      else bin_encodable b)"
| "encodable_at nrw info pc (UnOp u) \<longleftrightarrow> un_encodable u"
| "encodable_at nrw info pc (LoadMapFd l) \<longleftrightarrow> reg_ok (lmf_dst l)"
| "encodable_at nrw info pc (Call c) \<longleftrightarrow>
     is_helper_usable (info_platform info) (info_type info) (call_func c) \<and>
     makeCall nrw info (call_func c) = Inr c"
| "encodable_at nrw info pc (CallLocal c) \<longleftrightarrow> cl_prefix c = '''' \<and> \<not> near pc (nat (lbl_from (cl_target c)))"
| "encodable_at nrw info pc (Callx r) \<longleftrightarrow> reg_ok r \<and> supports info group_callx"
| "encodable_at nrw info pc (Exit p) \<longleftrightarrow> p = ''''"
| "encodable_at nrw info pc (Jmp j) \<longleftrightarrow> jmp_encodable pc (nat (lbl_from (jmp_target j))) j"
| "encodable_at nrw info pc (Mem m) \<longleftrightarrow> mem_encodable m"
| "encodable_at nrw info pc (Packet p) \<longleftrightarrow> packet_encodable p"
| "encodable_at nrw info pc (Atomic a) \<longleftrightarrow> atomic_encodable a"
| "encodable_at nrw info pc _ \<longleftrightarrow> False"

text \<open>
  The slots of an encoded instruction, found at position \<open>pc\<close> of a program, are decoded to that
  instruction; the slots that follow matter only for a left shift by 32, which the decoder merges
  with a right shift by 32 of the same register.
\<close>

definition next_unfused ::
  "ebpf_verifier_options_t \<Rightarrow> program_info \<Rightarrow> nat \<Rightarrow> Instruction \<Rightarrow> ebpf_inst list \<Rightarrow> bool" where
  "next_unfused opts info pc ins rest \<longleftrightarrow>
     (\<forall>d. ins = shift32 d Bin_LSH \<longrightarrow> rest \<noteq> [] \<longrightarrow> opcode (hd rest) AND INST_CLS_MASK = INST_CLS_ALU64 \<longrightarrow>
        (\<exists>i. fst (makeAluOp opts info (pc + 1) (hd rest)) = Inr i \<and>
             i \<noteq> shift32 d Bin_RSH \<and> i \<noteq> shift32 d Bin_ARSH))"

lemma alu_step:
  assumes "opcode i AND INST_CLS_MASK \<in> {INST_CLS_ALU64, INST_CLS_ALU}"
    "fst (makeAluOp opts info pc i) = Inr ins" "next_unfused opts info pc ins post"
    "insts = pre @ i # post" "length pre = pc"
  shows "fst (unmarshal_step nrw opts info insts pc) = Inr (ins, False, True)"
proof -
  have i: "insts ! pc = i" and nxt: "post \<noteq> [] \<Longrightarrow> insts ! Suc pc = hd post"
    and last: "length insts - Suc 0 \<le> pc \<longleftrightarrow> post = []"
    using assms(4,5) by (auto simp: nth_append hd_conv_nth)
  have "fst (decode_alu opts info insts pc) = Inr (ins, False)"
    using assms(2,3) nxt
    by (auto simp: decode_alu_def Let_def i fst_bindN last next_unfused_def bindE_eq_Inr_iff)
  with assms(1) show ?thesis
    by (auto simp: unmarshal_step_def Let_def i fst_bindN isa_consts)
qed

lemma mem_step:
  assumes "opcode i AND INST_CLS_MASK \<in> {INST_CLS_LD, INST_CLS_LDX, INST_CLS_ST, INST_CLS_STX}"
    "opcode i \<noteq> INST_OP_LDDW_IMM" "fst (makeMemOp info (of_nat pc) i) = Inr ins" "insts ! pc = i"
  shows "fst (unmarshal_step nrw opts info insts pc) = Inr (ins, False, True)"
  using assms by (simp add: unmarshal_step_def Let_def fst_bindN)

lemma jmp_step:
  assumes "opcode i AND INST_CLS_MASK \<in> {INST_CLS_JMP, INST_CLS_JMP32}"
    "makeJmp nrw info i insts (of_nat pc) = Inr ins" "insts ! pc = i"
  shows "fst (unmarshal_step nrw opts info insts pc) = Inr (ins, False, jump_falls_through ins)"
  using assms by (auto simp: unmarshal_step_def Let_def fst_bindN isa_consts)

lemma lddw_step:
  assumes "full_platform info" "d \<le> 10" "pc < 2147483648" "isFd \<longrightarrow> hi = 0"
    "marshal_lddw (Reg d) isFd lo hi = Inr s" "insts = pre @ s @ post" "length pre = pc"
  shows "fst (unmarshal_step nrw opts info insts pc) =
     Inr (if isFd then LoadMapFd \<lparr>lmf_dst = Reg d, lmf_mapfd = lo\<rparr>
          else Bin \<lparr>bin_op = Bin_MOV, bin_dst = Reg d, bin_v = Imm (merge lo hi), bin_is64 = True, bin_lddw = True\<rparr>,
          True, True)"
proof -
  have s: "s = [slot INST_OP_LDDW_IMM d (if isFd then 1 else 0) 0 lo, slot 0 0 0 0 hi]"
    using assms(5) by (simp add: marshal_lddw_def width_to_opcode_def isa_consts split: if_splits)
  have u: "unat (of_nat pc :: u32) = pc" "of_nat pc + 1 = (of_nat (Suc pc) :: u32)"
    "unat (of_nat (Suc pc) :: u32) = Suc pc"
    using assms(3) by (simp_all add: unat_of_nat_32 del: of_nat_Suc) simp
  have i: "insts ! pc = hd s" "insts ! Suc pc = s ! 1" "\<not> length insts - 1 \<le> pc"
    using assms(6,7) s by (auto simp: nth_append)
  have d: "\<not> 10 < d" using assms(2) by auto
  show ?thesis
    using assms(1,2,4) d i(3)
    by (cases isFd)
       (simp_all add: unmarshal_step_def Let_def fst_bindN makeLddw_def i(1,2) u s full_platform_def isa_consts
          del: of_nat_Suc)
qed

lemma call_slots_roundtrip:
  assumes "gsl_narrow_spec nrw" "full_platform info"
  shows "is_helper_usable (info_platform info) (info_type info) f \<Longrightarrow> makeCall nrw info f = Inr c \<Longrightarrow>
      makeJmp nrw info (slot INST_OP_CALL 0 INST_CALL_STATIC_HELPER 0 f) insts pc = Inr (Call c)"
    and "getJumpTarget nrw i insts pc = Inr t \<Longrightarrow>
      makeJmp nrw info (slot INST_OP_CALL 0 INST_CALL_LOCAL 0 i) insts pc = Inr (CallLocal \<lparr>cl_target = t, cl_prefix = ''''\<rparr>)"
    and "r \<le> 10 \<Longrightarrow> supports info group_callx \<Longrightarrow>
      makeJmp nrw info (slot INST_OP_CALLX r INST_CALL_STATIC_HELPER 0 0) insts pc = Inr (Callx (Reg r))"
    and "makeJmp nrw info (slot INST_OP_EXIT 0 0 0 0) insts pc = Inr (Exit '''')"
proof -
  have two: "\<not> (2 :: u8) \<le> 1" by (simp add: word_le_nat_alt)
  note defs = makeJmp_def makeJmp_call_def makeJmp_exit_def makeCallLocal_def makeCallx_def Let_def
    full_platform_def isa_consts src8_def two
  show "is_helper_usable (info_platform info) (info_type info) f \<Longrightarrow> makeCall nrw info f = Inr c \<Longrightarrow>
      makeJmp nrw info (slot INST_OP_CALL 0 INST_CALL_STATIC_HELPER 0 f) insts pc = Inr (Call c)"
    "getJumpTarget nrw i insts pc = Inr t \<Longrightarrow>
      makeJmp nrw info (slot INST_OP_CALL 0 INST_CALL_LOCAL 0 i) insts pc = Inr (CallLocal \<lparr>cl_target = t, cl_prefix = ''''\<rparr>)"
    "makeJmp nrw info (slot INST_OP_EXIT 0 0 0 0) insts pc = Inr (Exit '''')"
    using assms by (simp_all add: defs)
  show "makeJmp nrw info (slot INST_OP_CALLX r INST_CALL_STATIC_HELPER 0 0) insts pc = Inr (Callx (Reg r))"
    if "r \<le> 10" "supports info group_callx"
  proof -
    have "\<not> 10 < r" using that(1) by auto
    then show ?thesis using assms that by (simp add: defs)
  qed
qed

lemma mem_enc_class:
  "marshal_mem nrw m = Inr [i] \<Longrightarrow> opcode i AND INST_CLS_MASK \<in> {INST_CLS_LDX, INST_CLS_ST, INST_CLS_STX}"
  "marshal_atomic nrw a = Inr [i] \<Longrightarrow> opcode i AND INST_CLS_MASK = INST_CLS_STX"
  "marshal_packet p = Inr [i] \<Longrightarrow> opcode i AND INST_CLS_MASK = INST_CLS_LD \<and> opcode i \<noteq> 0 \<and> opcode i \<noteq> INST_OP_LDDW_IMM"
  by (auto simp: marshal_mem_def marshal_atomic_def marshal_packet_def Let_def bindE_eq_Inr_iff mem_slot_class
        split: if_splits val.splits option.splits)

lemma lddw_not_class:
  "opcode i AND INST_CLS_MASK \<in> {INST_CLS_LDX, INST_CLS_ST, INST_CLS_STX} \<Longrightarrow> opcode i \<noteq> INST_OP_LDDW_IMM"
  by (auto simp: isa_consts)

text \<open>The encoder succeeds on an encodable instruction, with as many slots as \<open>instr_size\<close> says.\<close>

definition encodes_as :: "program_info \<Rightarrow> Instruction \<Rightarrow> ebpf_inst list \<Rightarrow> bool" where
  "encodes_as info ins s \<longleftrightarrow> length s = instr_size ins \<and> opcode (hd s) \<noteq> 0 \<and>
     (opcode (hd s) AND INST_CLS_MASK = INST_CLS_ALU64 \<longrightarrow>
        (\<forall>opts n. fst (makeAluOp opts info n (hd s)) = Inr ins))"

lemma encodes_as_alu:
  assumes "opcode i AND INST_CLS_MASK \<in> {INST_CLS_ALU64, INST_CLS_ALU}" "instr_size ins = 1"
    "\<And>opts n. fst (makeAluOp opts info n i) = Inr ins"
  shows "encodes_as info ins [i]"
  using assms by (auto simp: encodes_as_def isa_consts)

lemma encodes_as_other:
  assumes "opcode i AND INST_CLS_MASK \<in> {INST_CLS_LDX, INST_CLS_ST, INST_CLS_STX, INST_CLS_JMP, INST_CLS_JMP32}
      \<or> opcode i AND INST_CLS_MASK = INST_CLS_LD \<and> opcode i \<noteq> 0"
    "instr_size ins = Suc (length s)"
  shows "encodes_as info ins (i # s)"
  using assms by (auto simp: encodes_as_def isa_consts)

lemma encode_alu:
  assumes "codec_ready nrw info" "encodable_at nrw info pc ins" "ins = Bin b \<and> \<not> bin_lddw b \<or> ins = UnOp u"
  shows "\<exists>s. marshal_instruction nrw ins (of_nat pc) = Inr s \<and> encodes_as info ins s"
  using assms(3)
proof
  assume ins: "ins = Bin b \<and> \<not> bin_lddw b"
  then have rt: "\<exists>i. marshal_bin nrw b = Inr [i] \<and> fst (makeAluOp opts info n i) = Inr (Bin b)" for opts n
    using marshal_bin_roundtrip assms(1,2) by (simp add: codec_ready_def)
  then obtain i where i: "marshal_bin nrw b = Inr [i]" by blast
  with bin_slot_class [OF i] rt ins show ?thesis
    by (auto simp: marshal_instruction_def instr_size_def intro!: encodes_as_alu)
next
  assume ins: "ins = UnOp u"
  then have rt: "\<exists>i. marshal_un u = Inr [i] \<and> fst (makeAluOp opts info n i) = Inr (UnOp u)" for opts n
    using marshal_un_roundtrip assms(1,2) by (simp add: codec_ready_def)
  then obtain i where i: "marshal_un u = Inr [i]" by blast
  with un_slot_class [OF i] rt ins show ?thesis
    by (auto simp: marshal_instruction_def instr_size_def intro!: encodes_as_alu)
qed

lemma encode_jmp:
  assumes "codec_ready nrw info" "encodable_at nrw info pc (Jmp j)" "pc < 2147483648"
    "k < 2147483648" "jmp_target j = label (int k)"
  shows "\<exists>s. marshal_jmp nrw (of_nat pc) j = Inr s \<and> encodes_as info (Jmp j) s"
proof -
  define insts where "insts = replicate (Suc (max pc k)) (slot 1 0 0 0 0)"
  have "k < length insts" "pc < length insts" "length insts \<le> 2147483648" "opcode (insts ! k) \<noteq> 0"
    using assms(3,4) by (auto simp: insts_def simp del: replicate_Suc)
  then obtain i where "marshal_jmp nrw (of_nat pc) j = Inr [i]"
    "opcode i AND INST_CLS_MASK \<in> {INST_CLS_JMP, INST_CLS_JMP32}"
    using marshal_jmp_roundtrip [of nrw info pc k j insts] assms(1,2,5) by (auto simp: codec_ready_def)
  moreover have "instr_size (Jmp j) = 1" by (simp add: instr_size_def)
  ultimately show ?thesis by (auto intro!: encodes_as_other)
qed

lemma encode_lddw:
  assumes "instr_size ins = 2"
  shows "\<exists>s. marshal_lddw d isFd lo hi = Inr s \<and> encodes_as info ins s"
  using assms by (auto simp: marshal_lddw_def width_to_opcode_def encodes_as_def isa_consts)

lemma marshal_instruction_total:
  assumes "codec_ready nrw info" "encodable_at nrw info pc ins" "pc < 2147483648"
    "\<forall>l \<in> set (branch_labels ins). \<exists>k < 2147483648. l = label (int k)"
  shows "\<exists>s. marshal_instruction nrw ins (of_nat pc) = Inr s \<and> encodes_as info ins s"
proof -
  note ready = assms(1) [unfolded codec_ready_def]
  note defs = marshal_instruction_def instr_size_def
  show ?thesis
  proof (cases ins)
    case (Bin b)
    show ?thesis
    proof (cases "bin_lddw b")
      case True
      then show ?thesis
        using assms(2) encode_lddw [of ins] by (cases "bin_v b") (auto simp: Bin defs marshal_bin_def)
    next
      case False
      then show ?thesis using encode_alu [OF assms(1,2)] Bin by blast
    qed
  next
    case (UnOp u)
    then show ?thesis using encode_alu [OF assms(1,2)] by blast
  next
    case (Mem m)
    then obtain i where "marshal_mem nrw m = Inr [i]"
      using marshal_mem_roundtrip [of nrw info m] ready assms(2) by auto
    with mem_enc_class(1) [OF this] show ?thesis by (auto simp: Mem defs intro!: encodes_as_other)
  next
    case (Atomic a)
    then obtain i where "marshal_atomic nrw a = Inr [i]"
      using marshal_atomic_roundtrip [of nrw info a] ready assms(2) by auto
    with mem_enc_class(2) [OF this] show ?thesis by (auto simp: Atomic defs intro!: encodes_as_other)
  next
    case (Packet p)
    then obtain i where "marshal_packet p = Inr [i]"
      using marshal_packet_roundtrip [of info p] ready assms(2) by auto
    with mem_enc_class(3) [OF this] show ?thesis by (auto simp: Packet defs intro!: encodes_as_other)
  next
    case (LoadMapFd l)
    then show ?thesis using encode_lddw [of ins] by (simp add: defs)
  next
    case (Jmp j)
    then show ?thesis using encode_jmp [of nrw info pc j] assms by (auto simp: marshal_instruction_def)
  next
    case (CallLocal c)
    obtain k where k: "k < 2147483648" "cl_target c = label (int k)" using assms(4) by (auto simp: CallLocal)
    with assms offset32_far [of nrw pc k] ready show ?thesis
      by (auto simp: CallLocal defs isa_consts intro!: encodes_as_other)
  qed (use assms(2) in \<open>auto simp: defs isa_consts intro!: encodes_as_other\<close>)
qed

text \<open>The common situation of the lemmas below: the slots of \<open>ins\<close> stand at \<open>pc\<close>.\<close>

definition placed_at ::
  "gsl_narrow \<Rightarrow> program_info \<Rightarrow> ebpf_inst list \<Rightarrow> nat \<Rightarrow> Instruction \<Rightarrow> ebpf_inst list \<Rightarrow> bool" where
  "placed_at nrw info insts pc ins post \<longleftrightarrow>
     codec_ready nrw info \<and> encodable_at nrw info pc ins \<and> length insts < 2147483648 \<and>
     (\<exists>pre s. marshal_instruction nrw ins (of_nat pc) = Inr s \<and> insts = pre @ s @ post \<and> length pre = pc) \<and>
     (\<forall>l \<in> set (branch_labels ins). target_ok insts l)"

lemma placed_atD:
  assumes "placed_at nrw info insts pc ins post"
  shows "gsl_narrow_spec nrw" "full_platform info" "encodable_at nrw info pc ins" "length insts < 2147483648"
    "pc < 2147483648"
    and "marshal_instruction nrw ins (of_nat pc) = Inr [i] \<Longrightarrow>
      insts ! pc = i \<and> pc < length insts \<and> (\<exists>pre. insts = pre @ i # post \<and> length pre = pc)"
  using assms by (auto simp: placed_at_def codec_ready_def)

lemma alu_placed:
  assumes "placed_at nrw info insts pc ins post" "next_unfused opts info pc ins post"
    "ins = Bin b \<and> \<not> bin_lddw b \<or> ins = UnOp u"
  shows "fst (unmarshal_step nrw opts info insts pc) = Inr (ins, False, True)"
proof -
  note d = placed_atD [OF assms(1)]
  have "\<exists>i. marshal_instruction nrw ins (of_nat pc) = Inr [i] \<and>
          opcode i AND INST_CLS_MASK \<in> {INST_CLS_ALU64, INST_CLS_ALU} \<and> fst (makeAluOp opts info pc i) = Inr ins"
    using assms(3)
  proof
    assume ins: "ins = Bin b \<and> \<not> bin_lddw b"
    then obtain i where i: "marshal_bin nrw b = Inr [i]" "fst (makeAluOp opts info pc i) = Inr (Bin b)"
      using marshal_bin_roundtrip [OF d(1,2), of b opts pc] d(3) by auto
    with bin_slot_class [OF i(1)] ins show ?thesis by (simp add: marshal_instruction_def)
  next
    assume ins: "ins = UnOp u"
    then obtain i where i: "marshal_un u = Inr [i]" "fst (makeAluOp opts info pc i) = Inr (UnOp u)"
      using marshal_un_roundtrip [OF d(2), of u opts pc] d(3) by auto
    with un_slot_class [OF i(1)] ins show ?thesis by (auto simp: marshal_instruction_def)
  qed
  then obtain i where i: "marshal_instruction nrw ins (of_nat pc) = Inr [i]"
    "opcode i AND INST_CLS_MASK \<in> {INST_CLS_ALU64, INST_CLS_ALU}" "fst (makeAluOp opts info pc i) = Inr ins" by blast
  from d(6) [OF i(1)] obtain pre where "insts = pre @ i # post" "length pre = pc" by blast
  from alu_step [OF i(2,3) assms(2) this] show ?thesis .
qed

lemma mem_placed:
  assumes "placed_at nrw info insts pc ins post" "ins = Mem m \<or> ins = Packet p \<or> ins = Atomic a"
  shows "fst (unmarshal_step nrw opts info insts pc) = Inr (ins, False, True)"
proof -
  note d = placed_atD [OF assms(1)]
  have "\<exists>i. marshal_instruction nrw ins (of_nat pc) = Inr [i] \<and> opcode i \<noteq> INST_OP_LDDW_IMM \<and>
          opcode i AND INST_CLS_MASK \<in> {INST_CLS_LD, INST_CLS_LDX, INST_CLS_ST, INST_CLS_STX} \<and>
          fst (makeMemOp info (of_nat pc) i) = Inr ins"
    using assms(2) d(3) marshal_mem_roundtrip [OF d(1,2), of m "of_nat pc"] mem_enc_class(1) [of nrw m]
      marshal_packet_roundtrip [OF d(2), of p "of_nat pc"] mem_enc_class(3) [of p]
      marshal_atomic_roundtrip [OF d(1,2), of a "of_nat pc"] mem_enc_class(2) [of nrw a] lddw_not_class
    by (elim disjE) (force simp: marshal_instruction_def)+
  then obtain i where i: "marshal_instruction nrw ins (of_nat pc) = Inr [i]" "opcode i \<noteq> INST_OP_LDDW_IMM"
    "opcode i AND INST_CLS_MASK \<in> {INST_CLS_LD, INST_CLS_LDX, INST_CLS_ST, INST_CLS_STX}"
    "fst (makeMemOp info (of_nat pc) i) = Inr ins" by blast
  from mem_step [OF i(3,2,4)] d(6) [OF i(1)] show ?thesis by blast
qed

lemma lddw_placed:
  assumes "placed_at nrw info insts pc ins post" "ins = Bin b \<and> bin_lddw b \<or> ins = LoadMapFd l"
  shows "fst (unmarshal_step nrw opts info insts pc) = Inr (ins, True, True)"
proof -
  note d = placed_atD [OF assms(1)]
  obtain s pre where s: "marshal_instruction nrw ins (of_nat pc) = Inr s" "insts = pre @ s @ post" "length pre = pc"
    using assms(1) by (auto simp: placed_at_def)
  show ?thesis using assms(2)
  proof
    assume b: "ins = Bin b \<and> bin_lddw b"
    with d(3) obtain r w where b': "b = \<lparr>bin_op = Bin_MOV, bin_dst = Reg r, bin_v = Imm w, bin_is64 = True, bin_lddw = True\<rparr>"
      "r \<le> 10"
      by (cases b, case_tac bin_dst, case_tac bin_v) (auto simp: reg_ok_def isa_consts)
    with s(1) b have "marshal_lddw (Reg r) False (fst (split w)) (snd (split w)) = Inr s"
      by (simp add: marshal_instruction_def marshal_bin_def)
    from lddw_step [OF d(2) b'(2) d(5) _ this s(2,3)] b b' show ?thesis by (simp add: merge_split)
  next
    assume l: "ins = LoadMapFd l"
    obtain r fd where l': "l = \<lparr>lmf_dst = Reg r, lmf_mapfd = fd\<rparr>" by (metis load_map_fd_t.cases Reg.exhaust)
    have "marshal_lddw (Reg r) True fd 0 = Inr s" "r \<le> 10"
      using s(1) d(3) by (simp_all add: l l' marshal_instruction_def reg_ok_def isa_consts)
    from lddw_step [OF d(2) this(2) d(5) _ this(1) s(2,3)] show ?thesis by (simp add: l l')
  qed
qed

lemma branch_placed:
  assumes "placed_at nrw info insts pc ins post" "ins = Jmp j \<or> ins = CallLocal c"
  shows "fst (unmarshal_step nrw opts info insts pc) = Inr (ins, False, jump_falls_through ins)"
proof -
  note d = placed_atD [OF assms(1)]
  obtain l where l: "l \<in> set (branch_labels ins)" "ins = Jmp j \<Longrightarrow> jmp_target j = l" "ins = CallLocal c \<Longrightarrow> cl_target c = l"
    using assms(2) by auto
  obtain k where k: "k < length insts" "l = label (int k)" "opcode (insts ! k) \<noteq> 0"
    using assms(1) l(1) by (auto simp: placed_at_def target_ok_def)
  have tot: "\<exists>s. marshal_instruction nrw ins (of_nat pc) = Inr s \<and> encodes_as info ins s"
    using marshal_instruction_total [OF _ d(3,5)] assms d(4) l k by (fastforce simp: placed_at_def)
  then obtain i where i: "marshal_instruction nrw ins (of_nat pc) = Inr [i]"
    using assms(2) by (auto simp: encodes_as_def instr_size_def length_Suc_conv)
  note pc = d(6) [OF i]
  have "opcode i AND INST_CLS_MASK \<in> {INST_CLS_JMP, INST_CLS_JMP32} \<and> makeJmp nrw info i insts (of_nat pc) = Inr ins"
    using assms(2)
  proof
    assume j: "ins = Jmp j"
    have enc: "jmp_encodable pc k j" using d(3) l(2) [OF j] k(2) by (simp add: j)
    have "length insts \<le> 2147483648" "pc < length insts" using d(4) pc by simp_all
    from marshal_jmp_roundtrip [OF d(1,2) enc this k(1,3)] i j show ?thesis
      by (simp add: marshal_instruction_def)
  next
    assume c: "ins = CallLocal c"
    obtain off where off: "label_to_offset32 nrw (of_nat pc) (label (int k)) = Inr off"
      "off = word_of_int (int k - int pc - 1)"
      using offset32_far [of nrw pc k] d(1,3,4,5) l(3) [OF c] k by (auto simp: c)
    have i': "i = slot INST_OP_CALL 0 INST_CALL_LOCAL 0 off" using i off l(3) [OF c] by (simp add: c k(2) marshal_instruction_def)
    have "getJumpTarget nrw off insts (of_nat pc) = Inr (label (int k))"
      using branch_target [OF d(1) _ k(1,3) _ off(2)] d(4) pc by simp
    moreover have "c = \<lparr>cl_target = label (int k), cl_prefix = ''''\<rparr>" using d(3) l(3) [OF c] k(2) by (cases c) (simp add: c)
    ultimately show ?thesis
      using call_slots_roundtrip(2) [OF d(1,2)] by (simp add: i' c isa_consts)
  qed
  with jmp_step pc show ?thesis by blast
qed

lemma call_placed:
  assumes "placed_at nrw info insts pc ins post" "ins = Call c \<or> ins = Callx r \<or> ins = Exit p"
  shows "fst (unmarshal_step nrw opts info insts pc) = Inr (ins, False, jump_falls_through ins)"
proof -
  note d = placed_atD [OF assms(1)]
  have "\<exists>i. marshal_instruction nrw ins (of_nat pc) = Inr [i] \<and> opcode i AND INST_CLS_MASK \<in> {INST_CLS_JMP, INST_CLS_JMP32} \<and>
          makeJmp nrw info i insts (of_nat pc) = Inr ins"
    using assms(2)
  proof (elim disjE)
    assume "ins = Call c"
    with d(3) call_slots_roundtrip(1) [OF d(1,2)] show ?thesis by (simp add: marshal_instruction_def isa_consts)
  next
    assume "ins = Callx r"
    with d(3) call_slots_roundtrip(3) [OF d(1,2)] show ?thesis
      by (cases r) (simp add: marshal_instruction_def reg_ok_def isa_consts)
  next
    assume "ins = Exit p"
    with d(3) call_slots_roundtrip(4) [OF d(1,2)] show ?thesis by (simp add: marshal_instruction_def isa_consts)
  qed
  with jmp_step d(6) show ?thesis by blast
qed

lemma step_roundtrip:
  assumes "placed_at nrw info insts pc ins post" "next_unfused opts info pc ins post"
  shows "fst (unmarshal_step nrw opts info insts pc) = Inr (ins, instr_size ins = 2, jump_falls_through ins)"
proof -
  note rt = alu_placed [OF assms] mem_placed [OF assms(1)] lddw_placed [OF assms(1)]
    branch_placed [OF assms(1)] call_placed [OF assms(1)]
  show ?thesis
    using rt placed_atD(3) [OF assms(1)]
    by (cases ins) (simp_all add: instr_size_def jump_falls_through_def split: if_splits)
qed

section \<open>Whole programs\<close>

text \<open>
  A program in the layout the decoder produces: every label is the position of its first slot.
  \<open>encode_from\<close> is the encoder without the relabelling, which does nothing on such a program.
\<close>

definition prog_size :: "InstructionSeq \<Rightarrow> nat" where
  "prog_size prog = sum_list (map (\<lambda>(l, ins, li). instr_size ins) prog)"

fun laid_out :: "nat \<Rightarrow> InstructionSeq \<Rightarrow> bool" where
  "laid_out pc [] \<longleftrightarrow> True"
| "laid_out pc ((l, ins, li) # rest) \<longleftrightarrow> l = label (int pc) \<and> laid_out (pc + instr_size ins) rest"

fun unfused :: "InstructionSeq \<Rightarrow> bool" where
  "unfused ((l, ins, li) # (l', ins', li') # rest) \<longleftrightarrow>
     (\<forall>op \<in> {Bin_RSH, Bin_ARSH}. case ins of
        Bin b \<Rightarrow> \<not> (ins = shift32 (bin_dst b) Bin_LSH \<and> ins' = shift32 (bin_dst b) op)
      | _ \<Rightarrow> True) \<and> unfused ((l', ins', li') # rest)"
| "unfused _ \<longleftrightarrow> True"

definition line_encodable ::
  "gsl_narrow \<Rightarrow> program_info \<Rightarrow> label_t set \<Rightarrow> LabeledInstruction \<Rightarrow> bool" where
  "line_encodable nrw info labels = (\<lambda>(l, ins, li).
     encodable_at nrw info (nat (lbl_from l)) ins \<and> set (branch_labels ins) \<subseteq> labels \<and>
     line_info_at info (nat (lbl_from l)) = Inr li)"

definition program_encodable :: "gsl_narrow \<Rightarrow> program_info \<Rightarrow> InstructionSeq \<Rightarrow> bool" where
  "program_encodable nrw info prog \<longleftrightarrow> prog \<noteq> [] \<and> laid_out 0 prog \<and> unfused prog \<and>
     prog_size prog < 2147483648 \<and> (\<forall>x \<in> set prog. line_encodable nrw info (fst ` set prog) x)"

fun encode_from :: "gsl_narrow \<Rightarrow> nat \<Rightarrow> InstructionSeq \<Rightarrow> ebpf_inst list res" where
  "encode_from nrw pc [] = Inr []"
| "encode_from nrw pc ((l, ins, li) # rest) =
     bindE (marshal_instruction nrw ins (of_nat pc)) (\<lambda>s.
     bindE (encode_from nrw (pc + instr_size ins) rest) (\<lambda>r. Inr (s @ r)))"

lemma prog_size_simps [simp]:
  "prog_size [] = 0"
  "prog_size ((l, ins, li) # rest) = instr_size ins + prog_size rest"
  by (simp_all add: prog_size_def)

lemma instr_size_pos: "0 < instr_size ins"
  by (auto simp: instr_size_def split: Instruction.splits)

lemma laid_out_labels:
  assumes "laid_out pc prog" "l \<in> fst ` set prog"
  shows "\<exists>k. l = label (int k) \<and> pc \<le> k \<and> k < pc + prog_size prog"
  using assms
proof (induction pc prog rule: laid_out.induct)
  case (2 pc l' ins li rest)
  then show ?case using instr_size_pos [of ins] by fastforce
qed simp

lemma get_labels_loop_eq:
  assumes "laid_out pc prog"
  shows "get_labels_loop prog pc m l = (if l \<in> fst ` set prog then Some (nat (lbl_from l)) else m l)"
  using assms by (induction pc prog arbitrary: m rule: laid_out.induct) auto

lemma retarget_id:
  assumes "gsl_narrow_spec nrw" "laid_out 0 prog" "prog_size prog < 2147483648"
    "set (branch_labels ins) \<subseteq> fst ` set prog"
  shows "retarget nrw (get_labels prog) ins = Inr ins"
proof (cases ins)
  case (Jmp j)
  then have j: "jmp_target j \<in> fst ` set prog" using assms(4) by simp
  obtain k where k: "jmp_target j = label (int k)" "k < prog_size prog"
    using laid_out_labels [OF assms(2) j] by auto
  have "get_labels prog (jmp_target j) = Some k"
    using get_labels_loop_eq [OF assms(2)] j k(1) by (simp add: get_labels_def)
  moreover have "- 2147483648 \<le> int k" "int k \<le> 2147483647" using k(2) assms(3) by linarith+
  ultimately show ?thesis
    using assms(1) k(1) by (simp add: retarget_def Jmp gsl_narrowD)
qed (simp_all add: retarget_def)

lemma encode_from_total:
  assumes "codec_ready nrw info" "laid_out pc prog" "pc + prog_size prog < 2147483648"
    "\<forall>x \<in> set prog. line_encodable nrw info labels x" "\<forall>l \<in> labels. \<exists>k < 2147483648. l = label (int k)"
  shows "\<exists>s. encode_from nrw pc prog = Inr s \<and> length s = prog_size prog \<and>
    (\<forall>l \<in> fst ` set prog. opcode (s ! (nat (lbl_from l) - pc)) \<noteq> 0) \<and>
    (prog \<noteq> [] \<longrightarrow> (opcode (hd s) AND INST_CLS_MASK = INST_CLS_ALU64 \<longrightarrow>
        (\<forall>opts n. fst (makeAluOp opts info n (hd s)) = Inr (fst (snd (hd prog))))))"
  using assms(2-4)
proof (induction pc prog rule: laid_out.induct)
  case (2 pc l ins li rest)
  have l: "l = label (int pc)" and rest: "laid_out (pc + instr_size ins) rest" using 2 by simp_all
  have "\<forall>l' \<in> set (branch_labels ins). \<exists>k < 2147483648. l' = label (int k)" "encodable_at nrw info pc ins"
    using 2(4) assms(5) l by (auto simp: line_encodable_def)
  with marshal_instruction_total [OF assms(1), of pc ins] 2(3)
  obtain s where s: "marshal_instruction nrw ins (of_nat pc) = Inr s" "encodes_as info ins s" by auto
  obtain r where r: "encode_from nrw (pc + instr_size ins) rest = Inr r" "length r = prog_size rest"
    "\<forall>l \<in> fst ` set rest. opcode (r ! (nat (lbl_from l) - (pc + instr_size ins))) \<noteq> 0"
    using 2 by (auto simp: add.assoc)
  have s': "s \<noteq> []" "length s = instr_size ins" using s(2) instr_size_pos [of ins] by (auto simp: encodes_as_def)
  have "opcode ((s @ r) ! (nat (lbl_from l') - pc)) \<noteq> 0" if l': "l' \<in> fst ` set rest" for l'
  proof -
    obtain k where k: "l' = label (int k)" "pc + instr_size ins \<le> k" using laid_out_labels [OF rest l'] by blast
    have "opcode (r ! (k - (pc + instr_size ins))) \<noteq> 0" using r(3) l' k(1) by fastforce
    moreover have "\<not> k - pc < length s" "k - pc - length s = k - (pc + instr_size ins)" using k(2) s'(2) by auto
    ultimately show ?thesis by (simp add: k(1) nth_append)
  qed
  moreover have "opcode ((s @ r) ! 0) \<noteq> 0" using s(2) s'(1) by (cases s) (simp_all add: encodes_as_def)
  ultimately show ?case using s s' r l by (auto simp: encodes_as_def)
qed simp

lemma marshal_loop_encode:
  assumes "codec_ready nrw info" "\<forall>(l, ins, li) \<in> set prog. retarget nrw m ins = Inr ins"
    "encode_from nrw pc prog = Inr s" "laid_out pc prog" "pc + prog_size prog < 2147483648"
    "\<forall>x \<in> set prog. line_encodable nrw info labels x" "\<forall>l \<in> labels. \<exists>k < 2147483648. l = label (int k)"
  shows "marshal_loop nrw m prog (of_nat pc) out = Inr (out @ s)"
  using assms(2-6)
proof (induction prog arbitrary: pc s out)
  case (Cons x rest)
  obtain l ins li where x: "x = (l, ins, li)" by (cases x)
  have "\<forall>l' \<in> set (branch_labels ins). \<exists>k < 2147483648. l' = label (int k)" "encodable_at nrw info pc ins"
    using Cons.prems(3,5) assms(7) by (auto simp: x line_encodable_def)
  with marshal_instruction_total [OF assms(1), of pc ins] Cons.prems(4)
  obtain a where a: "marshal_instruction nrw ins (of_nat pc) = Inr a" "length a = instr_size ins"
    by (auto simp: x encodes_as_def)
  then obtain r where r: "encode_from nrw (pc + instr_size ins) rest = Inr r" "s = a @ r"
    using Cons.prems(2) by (auto simp: x bindE_eq_Inr_iff)
  have "marshal_loop nrw m rest (of_nat (pc + instr_size ins)) (out @ a) = Inr ((out @ a) @ r)"
    using Cons.prems r(1) by (intro Cons.IH) (auto simp: x add.assoc)
  then show ?case using Cons.prems(1) a r(2) by (simp add: x)
qed simp

lemma next_unfusedI:
  assumes "unfused ((l, ins, li) # rest)"
    "rest \<noteq> [] \<longrightarrow> (opcode (hd r) AND INST_CLS_MASK = INST_CLS_ALU64 \<longrightarrow>
        (\<forall>opts n. fst (makeAluOp opts info n (hd r)) = Inr (fst (snd (hd rest)))))"
    "rest = [] \<longrightarrow> r = []"
  shows "next_unfused opts info pc ins r"
proof (cases rest)
  case (Cons x xs)
  obtain l' ins' li' where x: "x = (l', ins', li')" by (cases x)
  have "ins = shift32 d Bin_LSH \<Longrightarrow> ins' \<noteq> shift32 d Bin_RSH \<and> ins' \<noteq> shift32 d Bin_ARSH" for d
    using assms(1) by (auto simp: Cons x shift32_def)
  then show ?thesis using assms(2) by (auto simp: Cons x next_unfused_def)
qed (use assms(3) in \<open>simp add: next_unfused_def\<close>)

lemma unfused_tl: "unfused (x # rest) \<Longrightarrow> unfused rest"
  by (cases rest; cases x) auto

text \<open>Where control is in an encoded program: \<open>s\<close> are the slots of what is left of it.\<close>

definition decoding ::
  "gsl_narrow \<Rightarrow> program_info \<Rightarrow> label_t set \<Rightarrow> ebpf_inst list \<Rightarrow> nat \<Rightarrow> InstructionSeq \<Rightarrow> bool" where
  "decoding nrw info labels insts pc prog \<longleftrightarrow>
     codec_ready nrw info \<and> laid_out pc prog \<and> pc + prog_size prog < 2147483648 \<and>
     (\<forall>x \<in> set prog. line_encodable nrw info labels x) \<and> (\<forall>l \<in> labels. target_ok insts l) \<and>
     length insts < 2147483648 \<and> unfused prog \<and>
     (\<exists>pre s. encode_from nrw pc prog = Inr s \<and> insts = pre @ s \<and> length pre = pc)"

lemma decoding_step:
  assumes "decoding nrw info labels insts pc ((l, ins, li) # rest)"
  shows "\<exists>post. placed_at nrw info insts pc ins post \<and> next_unfused opts info pc ins post"
    and "decoding nrw info labels insts (pc + instr_size ins) rest" and "pc < length insts"
    and "line_info_at info pc = Inr li" and "l = label (int pc)"
proof -
  obtain pre s where s: "encode_from nrw pc ((l, ins, li) # rest) = Inr s" "insts = pre @ s" "length pre = pc"
    using assms by (auto simp: decoding_def)
  obtain a r where a: "marshal_instruction nrw ins (of_nat pc) = Inr a" and
    r: "encode_from nrw (pc + instr_size ins) rest = Inr r" and s': "s = a @ r"
    using s(1) by (auto simp: bindE_eq_Inr_iff)
  have lbl: "\<forall>l \<in> labels. \<exists>k < 2147483648. l = label (int k)"
    using assms by (fastforce simp: decoding_def target_ok_def)
  have enc: "encodable_at nrw info pc ins" "\<forall>l \<in> set (branch_labels ins). target_ok insts l"
    "line_info_at info pc = Inr li" "l = label (int pc)"
    using assms by (auto simp: decoding_def line_encodable_def)
  have "\<exists>s. marshal_instruction nrw ins (of_nat pc) = Inr s \<and> encodes_as info ins s"
  proof (rule marshal_instruction_total [OF _ enc(1)])
    show "codec_ready nrw info" "pc < 2147483648" using assms by (simp_all add: decoding_def)
    show "\<forall>l \<in> set (branch_labels ins). \<exists>k < 2147483648. l = label (int k)"
      using assms lbl by (auto simp: decoding_def line_encodable_def)
  qed
  then have len: "length a = instr_size ins" using a by (simp add: encodes_as_def)
  then show "pc < length insts" using instr_size_pos [of ins] s(2,3) s' by simp
  show "line_info_at info pc = Inr li" "l = label (int pc)" using enc(3,4) .
  have placed: "placed_at nrw info insts pc ins r"
    using assms enc a s(2,3) s' by (auto simp: placed_at_def decoding_def)
  have tail: "laid_out (pc + instr_size ins) rest" "pc + instr_size ins + prog_size rest < 2147483648"
    "\<forall>x \<in> set rest. line_encodable nrw info labels x" "codec_ready nrw info"
    using assms by (auto simp: decoding_def)
  from encode_from_total [OF tail(4,1-3) lbl] r
  have "rest \<noteq> [] \<longrightarrow> (opcode (hd r) AND INST_CLS_MASK = INST_CLS_ALU64 \<longrightarrow>
        (\<forall>opts n. fst (makeAluOp opts info n (hd r)) = Inr (fst (snd (hd rest)))))" by auto
  moreover have "rest = [] \<longrightarrow> r = []" using r by auto
  ultimately show "\<exists>post. placed_at nrw info insts pc ins post \<and> next_unfused opts info pc ins post"
    using placed next_unfusedI [of l ins li rest] assms by (auto simp: decoding_def)
  have "insts = (pre @ a) @ r" "length (pre @ a) = pc + instr_size ins" using s s' len by simp_all
  then show "decoding nrw info labels insts (pc + instr_size ins) rest"
    using assms r tail unfused_tl unfolding decoding_def by blast
qed

lemma unmarshal_loop_roundtrip:
  assumes "decoding nrw info labels insts pc prog"
  shows "fst (unmarshal_loop nrw opts info insts pc acc ns n) = Inr (acc @ prog)"
  using assms
proof (induction prog arbitrary: pc acc ns n)
  case Nil
  then show ?case by (auto simp: decoding_def unmarshal_loop.simps [of _ _ _ _ pc])
next
  case (Cons x rest)
  obtain l ins li where x: "x = (l, ins, li)" by (cases x)
  note st = decoding_step [OF Cons.prems [unfolded x]]
  obtain w where w: "unmarshal_step nrw opts info insts pc =
      (Inr (ins, instr_size ins = 2, jump_falls_through ins), w)"
    using st(1) step_roundtrip by (metis prod.collapse)
  have pc: "nrw (- 2147483648, 2147483647) (int pc) = Some (int pc)"
    using Cons.prems st(3) by (simp add: decoding_def codec_ready_def gsl_narrowD)
  have sz: "(if instr_size ins = 2 then pc + 2 else pc + 1) = pc + instr_size ins"
    by (auto simp: instr_size_def split: Instruction.splits)
  show ?case
    using Cons.IH [OF st(2)] st(3-5) pc sz
    by (subst unmarshal_loop.simps) (simp add: w x Let_def)
qed

lemma program_roundtrip:
  assumes "codec_ready nrw info" "program_encodable nrw info prog"
  shows "\<exists>slots. marshal nrw prog = Inr slots \<and> length slots = prog_size prog \<and>
    fst (unmarshal_program nrw opts info slots ns) = Inr prog"
proof -
  let ?labels = "fst ` set prog"
  have p: "prog \<noteq> []" "laid_out 0 prog" "unfused prog" "prog_size prog < 2147483648"
    "\<forall>x \<in> set prog. line_encodable nrw info ?labels x"
    using assms(2) by (simp_all add: program_encodable_def)
  have lbl: "\<forall>l \<in> ?labels. \<exists>k < 2147483648. l = label (int k)"
    using laid_out_labels [OF p(2)] p(4) by (metis add_0 order_less_trans)
  obtain s where s: "encode_from nrw 0 prog = Inr s" "length s = prog_size prog"
    "\<forall>l \<in> ?labels. opcode (s ! nat (lbl_from l)) \<noteq> 0"
    using encode_from_total [OF assms(1) p(2) _ p(5) lbl] p(4) by auto
  have "target_ok s l" if l: "l \<in> ?labels" for l
    using laid_out_labels [OF p(2) l] s(2,3) l unfolding target_ok_def by fastforce
  then have "decoding nrw info ?labels s 0 prog"
    using assms(1) p s by (auto simp: decoding_def)
  then have "fst (unmarshal_loop nrw opts info s 0 [] ns 0) = Inr prog"
    using unmarshal_loop_roundtrip [of nrw info ?labels s 0 prog opts "[]" ns 0] by simp
  moreover obtain l ins li rest where "prog = (l, ins, li) # rest"
    using p(1) by (metis list.exhaust prod.exhaust)
  then have "s \<noteq> []" using s(2) instr_size_pos [of ins] by auto
  moreover have "\<forall>(l, ins, li) \<in> set prog. retarget nrw (get_labels prog) ins = Inr ins"
    using retarget_id [OF _ p(2,4)] assms(1) p(5) by (auto simp: codec_ready_def line_encodable_def)
  then have "marshal nrw prog = Inr s"
    using marshal_loop_encode [OF assms(1) _ s(1) p(2) _ p(5) lbl, of "get_labels prog" "[]"] p(4)
    by (simp add: marshal_def)
  ultimately show ?thesis using s(2) by (simp add: unmarshal_program_def)
qed

section \<open>The encoder is injective\<close>

text \<open>
  An instruction among no-operation jumps: the surroundings in which two instructions with equal
  slots are decoded, to the same result.
\<close>

definition surrounded :: "nat \<Rightarrow> ebpf_inst list \<Rightarrow> nat \<Rightarrow> ebpf_inst list" where
  "surrounded pc s n = replicate pc (slot INST_OP_JA16 0 0 0 0) @ s @ replicate n (slot INST_OP_JA16 0 0 0 0)"

lemma surrounded_target:
  assumes "k < n" "length s = 1 \<Longrightarrow> opcode (hd s) \<noteq> 0" "length s = 1"
  shows "target_ok (surrounded pc s n) (label (int k))"
proof -
  obtain i where s: "s = [i]" using assms(3) by (cases s) auto
  have "opcode (surrounded pc s n ! k) \<noteq> 0"
    using assms by (simp add: surrounded_def s nth_append nth_Cons' isa_consts)
  moreover have "k < length (surrounded pc s n)" using assms(1) by (simp add: surrounded_def)
  ultimately show ?thesis by (auto simp: target_ok_def)
qed

lemma branch_size: "branch_labels ins \<noteq> [] \<Longrightarrow> instr_size ins = 1"
  by (cases ins) (simp_all add: instr_size_def)

lemma decode_surrounded:
  assumes "codec_ready nrw info" "encodable_at nrw info pc ins" "pc + n + 2 < 2147483648"
    "marshal_instruction nrw ins (of_nat pc) = Inr s"
    "\<forall>l \<in> set (branch_labels ins). \<exists>k < n. l = label (int k)"
  shows "fst (unmarshal_step nrw opts info (surrounded pc s n) pc) = Inr (ins, instr_size ins = 2, jump_falls_through ins)"
proof (rule step_roundtrip [where post = "replicate n (slot INST_OP_JA16 0 0 0 0)"])
  have "\<exists>s. marshal_instruction nrw ins (of_nat pc) = Inr s \<and> encodes_as info ins s"
    using assms(3,5) by (intro marshal_instruction_total [OF assms(1,2)]) fastforce+
  then have s: "encodes_as info ins s" using assms(4) by simp
  have "instr_size ins \<le> 2" by (auto simp: instr_size_def split: Instruction.splits)
  then have len: "length (surrounded pc s n) < 2147483648"
    using s assms(3) by (simp add: surrounded_def encodes_as_def)
  have "\<forall>l \<in> set (branch_labels ins). target_ok (surrounded pc s n) l"
    using assms(5) s branch_size [of ins] surrounded_target [of _ n s pc] by (fastforce simp: encodes_as_def)
  then show "placed_at nrw info (surrounded pc s n) pc ins (replicate n (slot INST_OP_JA16 0 0 0 0))"
    using assms len by (auto simp: placed_at_def surrounded_def)
  show "next_unfused opts info pc ins (replicate n (slot INST_OP_JA16 0 0 0 0))"
    by (cases n) (simp_all add: next_unfused_def isa_consts)
qed

lemma marshal_instruction_inj:
  assumes "codec_ready nrw info" "encodable_at nrw info pc i" "encodable_at nrw info pc j" "pc + n + 2 < 2147483648"
    "marshal_instruction nrw i (of_nat pc) = marshal_instruction nrw j (of_nat pc)"
    "\<forall>l \<in> set (branch_labels i) \<union> set (branch_labels j). \<exists>k < n. l = label (int k)"
  shows "i = j"
proof -
  have "n \<le> 2147483648" "pc < 2147483648" using assms(4) by simp_all
  then have "\<forall>l \<in> set (branch_labels i). \<exists>k < 2147483648. l = label (int k)"
    using assms(6) by (meson UnI1 order_less_le_trans)
  then obtain s where s: "marshal_instruction nrw i (of_nat pc) = Inr s"
    using marshal_instruction_total [OF assms(1,2) \<open>pc < 2147483648\<close>] by blast
  with assms(5) have s': "marshal_instruction nrw j (of_nat pc) = Inr s" by simp
  from decode_surrounded [OF assms(1,2,4) s, of undefined] decode_surrounded [OF assms(1,3,4) s', of undefined] assms(6)
  show ?thesis by simp
qed

end
