(* ===== verification/Linux_Prototypes.thy ===== *)
theory Linux_Prototypes
  imports Ebpf_Unmarshal
begin

text \<open>
  \<^verbatim>\<open>linux/gpl/spec_prototypes.cpp\<close> and \<^verbatim>\<open>linux/gpl/spec_type_descriptors.hpp\<close>: the context
  descriptors of the Linux program types, the prototype of every Linux helper, the table indexed by
  helper number and the two lookup functions of the platform. A designated initialiser leaves the
  remaining argument slots zero, that is \<open>EBPF_ARGUMENT_TYPE_DONTCARE\<close>. The descriptors are
  global objects, so each has an address of its own; descriptors that the header makes aliases of
  one another share it.
\<close>

section \<open>Context descriptors\<close>

definition ptregs_size :: int where "ptregs_size = (3 + 63 + 8 + 2) * 8"
definition perf_max_trace_size :: int where "perf_max_trace_size = 2048"
definition cgroup_dev_regions :: int where "cgroup_dev_regions = 3 * 4"
definition kprobe_regions :: int where "kprobe_regions = ptregs_size"
definition tracepoint_regions :: int where "tracepoint_regions = perf_max_trace_size"
definition perf_event_regions :: int where "perf_event_regions = 3 * 8 + ptregs_size"
definition xdp_regions :: int where "xdp_regions = 5 * 4"
definition cgroup_sock_regions :: int where "cgroup_sock_regions = 12 * 4"
definition sock_ops_regions :: int where "sock_ops_regions = 42 * 4 + 2 * 8"
definition sk_skb_regions :: int where "sk_skb_regions = 36 * 4"

definition ctx_descr :: "int \<Rightarrow> int \<Rightarrow> int \<Rightarrow> int \<Rightarrow> ebpf_context_descriptor_t" where
  "ctx_descr sz dt en mt = \<lparr>ctx_size = sz, ctx_data = dt, ctx_end = en, ctx_meta = mt\<rparr>"

definition sk_buff :: ebpf_context_descriptor_t where
  "sk_buff = ctx_descr sk_skb_regions (19 * 4) (20 * 4) (35 * 4)"
definition xdp_md :: ebpf_context_descriptor_t where
  "xdp_md = ctx_descr xdp_regions 0 (1 * 4) (2 * 4)"
definition sk_msg_md :: ebpf_context_descriptor_t where
  "sk_msg_md = ctx_descr (17 * 4) 0 (1 * 8) (- 1)"
definition unspec_descr :: ebpf_context_descriptor_t where
  "unspec_descr = ctx_descr 0 (- 1) (- 1) (- 1)"
definition cgroup_dev_descr :: ebpf_context_descriptor_t where
  "cgroup_dev_descr = ctx_descr cgroup_dev_regions (- 1) (- 1) (- 1)"
definition kprobe_descr :: ebpf_context_descriptor_t where
  "kprobe_descr = ctx_descr kprobe_regions (- 1) (- 1) (- 1)"
definition tracepoint_descr :: ebpf_context_descriptor_t where
  "tracepoint_descr = ctx_descr tracepoint_regions (- 1) (- 1) (- 1)"
definition perf_event_descr :: ebpf_context_descriptor_t where
  "perf_event_descr = ctx_descr perf_event_regions (- 1) (- 1) (- 1)"
definition cgroup_sock_descr :: ebpf_context_descriptor_t where
  "cgroup_sock_descr = ctx_descr cgroup_sock_regions (- 1) (- 1) (- 1)"
definition sock_ops_descr :: ebpf_context_descriptor_t where
  "sock_ops_descr = ctx_descr sock_ops_regions (- 1) (- 1) (- 1)"

lemmas ctx_descr_defs = ctx_descr_def ptregs_size_def perf_max_trace_size_def cgroup_dev_regions_def
  kprobe_regions_def tracepoint_regions_def perf_event_regions_def xdp_regions_def
  cgroup_sock_regions_def sock_ops_regions_def sk_skb_regions_def sk_buff_def xdp_md_def sk_msg_md_def
  unspec_descr_def cgroup_dev_descr_def kprobe_descr_def tracepoint_descr_def perf_event_descr_def
  cgroup_sock_descr_def sock_ops_descr_def

text \<open>The global descriptor objects in declaration order; an address is an index into this list.\<close>

definition context_descriptors :: "ebpf_context_descriptor_t list" where
  "context_descriptors = [sk_buff, xdp_md, sk_msg_md, unspec_descr, cgroup_dev_descr, kprobe_descr,
     tracepoint_descr, perf_event_descr, cgroup_sock_descr, sock_ops_descr]"

named_theorems ctx_ptr_defs \<open>addresses of the global context descriptors\<close>

definition g_sk_buff :: ctx_ptr where [ctx_ptr_defs]: "g_sk_buff = 0"
definition g_xdp_md :: ctx_ptr where [ctx_ptr_defs]: "g_xdp_md = 1"
definition g_sk_msg_md :: ctx_ptr where [ctx_ptr_defs]: "g_sk_msg_md = 2"
definition g_unspec_descr :: ctx_ptr where [ctx_ptr_defs]: "g_unspec_descr = 3"
definition g_cgroup_dev_descr :: ctx_ptr where [ctx_ptr_defs]: "g_cgroup_dev_descr = 4"
definition g_kprobe_descr :: ctx_ptr where [ctx_ptr_defs]: "g_kprobe_descr = 5"
definition g_tracepoint_descr :: ctx_ptr where [ctx_ptr_defs]: "g_tracepoint_descr = 6"
definition g_perf_event_descr :: ctx_ptr where [ctx_ptr_defs]: "g_perf_event_descr = 7"
definition g_cgroup_sock_descr :: ctx_ptr where [ctx_ptr_defs]: "g_cgroup_sock_descr = 8"
definition g_sock_ops_descr :: ctx_ptr where [ctx_ptr_defs]: "g_sock_ops_descr = 9"
definition g_socket_filter_descr :: ctx_ptr where [ctx_ptr_defs]: "g_socket_filter_descr = g_sk_buff"
definition g_sched_descr :: ctx_ptr where [ctx_ptr_defs]: "g_sched_descr = g_sk_buff"
definition g_lwt_xmit_descr :: ctx_ptr where [ctx_ptr_defs]: "g_lwt_xmit_descr = g_sk_buff"
definition g_lwt_inout_descr :: ctx_ptr where [ctx_ptr_defs]: "g_lwt_inout_descr = g_sk_buff"
definition g_sk_skb_descr :: ctx_ptr where [ctx_ptr_defs]: "g_sk_skb_descr = g_sk_buff"
definition g_xdp_descr :: ctx_ptr where [ctx_ptr_defs]: "g_xdp_descr = g_xdp_md"

section \<open>Types the verifier does not support\<close>

abbreviation EBPF_RETURN_TYPE_PTR_TO_SOCK_COMMON_OR_NULL :: ebpf_return_type_t where "EBPF_RETURN_TYPE_PTR_TO_SOCK_COMMON_OR_NULL \<equiv> EBPF_RETURN_TYPE_UNSUPPORTED"
abbreviation EBPF_RETURN_TYPE_PTR_TO_SOCKET_OR_NULL :: ebpf_return_type_t where "EBPF_RETURN_TYPE_PTR_TO_SOCKET_OR_NULL \<equiv> EBPF_RETURN_TYPE_UNSUPPORTED"
abbreviation EBPF_RETURN_TYPE_PTR_TO_TCP_SOCKET_OR_NULL :: ebpf_return_type_t where "EBPF_RETURN_TYPE_PTR_TO_TCP_SOCKET_OR_NULL \<equiv> EBPF_RETURN_TYPE_UNSUPPORTED"
abbreviation EBPF_RETURN_TYPE_PTR_TO_ALLOC_MEM_OR_NULL :: ebpf_return_type_t where "EBPF_RETURN_TYPE_PTR_TO_ALLOC_MEM_OR_NULL \<equiv> EBPF_RETURN_TYPE_UNSUPPORTED"
abbreviation EBPF_RETURN_TYPE_PTR_TO_BTF_ID_OR_NULL :: ebpf_return_type_t where "EBPF_RETURN_TYPE_PTR_TO_BTF_ID_OR_NULL \<equiv> EBPF_RETURN_TYPE_UNSUPPORTED"
abbreviation EBPF_RETURN_TYPE_PTR_TO_MEM_OR_BTF_ID_OR_NULL :: ebpf_return_type_t where "EBPF_RETURN_TYPE_PTR_TO_MEM_OR_BTF_ID_OR_NULL \<equiv> EBPF_RETURN_TYPE_UNSUPPORTED"
abbreviation EBPF_RETURN_TYPE_PTR_TO_BTF_ID :: ebpf_return_type_t where "EBPF_RETURN_TYPE_PTR_TO_BTF_ID \<equiv> EBPF_RETURN_TYPE_UNSUPPORTED"
abbreviation EBPF_RETURN_TYPE_PTR_TO_MEM_OR_BTF_ID :: ebpf_return_type_t where "EBPF_RETURN_TYPE_PTR_TO_MEM_OR_BTF_ID \<equiv> EBPF_RETURN_TYPE_UNSUPPORTED"
abbreviation EBPF_ARGUMENT_TYPE_PTR_TO_BTF_ID_SOCK_COMMON :: ebpf_argument_type_t where "EBPF_ARGUMENT_TYPE_PTR_TO_BTF_ID_SOCK_COMMON \<equiv> EBPF_ARGUMENT_TYPE_UNSUPPORTED"
abbreviation EBPF_ARGUMENT_TYPE_PTR_TO_SPIN_LOCK :: ebpf_argument_type_t where "EBPF_ARGUMENT_TYPE_PTR_TO_SPIN_LOCK \<equiv> EBPF_ARGUMENT_TYPE_UNSUPPORTED"
abbreviation EBPF_ARGUMENT_TYPE_PTR_TO_SOCK_COMMON :: ebpf_argument_type_t where "EBPF_ARGUMENT_TYPE_PTR_TO_SOCK_COMMON \<equiv> EBPF_ARGUMENT_TYPE_UNSUPPORTED"
abbreviation EBPF_ARGUMENT_TYPE_PTR_TO_BTF_ID :: ebpf_argument_type_t where "EBPF_ARGUMENT_TYPE_PTR_TO_BTF_ID \<equiv> EBPF_ARGUMENT_TYPE_UNSUPPORTED"
abbreviation EBPF_ARGUMENT_TYPE_PTR_TO_LONG :: ebpf_argument_type_t where "EBPF_ARGUMENT_TYPE_PTR_TO_LONG \<equiv> EBPF_ARGUMENT_TYPE_UNSUPPORTED"
abbreviation EBPF_ARGUMENT_TYPE_PTR_TO_INT :: ebpf_argument_type_t where "EBPF_ARGUMENT_TYPE_PTR_TO_INT \<equiv> EBPF_ARGUMENT_TYPE_UNSUPPORTED"
abbreviation EBPF_ARGUMENT_TYPE_PTR_TO_CONST_STR :: ebpf_argument_type_t where "EBPF_ARGUMENT_TYPE_PTR_TO_CONST_STR \<equiv> EBPF_ARGUMENT_TYPE_UNSUPPORTED"
abbreviation EBPF_ARGUMENT_TYPE_PTR_TO_FUNC :: ebpf_argument_type_t where "EBPF_ARGUMENT_TYPE_PTR_TO_FUNC \<equiv> EBPF_ARGUMENT_TYPE_UNSUPPORTED"
abbreviation EBPF_ARGUMENT_TYPE_PTR_TO_STACK_OR_NULL :: ebpf_argument_type_t where "EBPF_ARGUMENT_TYPE_PTR_TO_STACK_OR_NULL \<equiv> EBPF_ARGUMENT_TYPE_UNSUPPORTED"
abbreviation EBPF_ARGUMENT_TYPE_CONST_ALLOC_SIZE_OR_ZERO :: ebpf_argument_type_t where "EBPF_ARGUMENT_TYPE_CONST_ALLOC_SIZE_OR_ZERO \<equiv> EBPF_ARGUMENT_TYPE_UNSUPPORTED"
abbreviation EBPF_ARGUMENT_TYPE_PTR_TO_ALLOC_MEM :: ebpf_argument_type_t where "EBPF_ARGUMENT_TYPE_PTR_TO_ALLOC_MEM \<equiv> EBPF_ARGUMENT_TYPE_UNSUPPORTED"
abbreviation EBPF_ARGUMENT_TYPE_PTR_TO_MAP_VALUE_OR_NULL :: ebpf_argument_type_t where "EBPF_ARGUMENT_TYPE_PTR_TO_MAP_VALUE_OR_NULL \<equiv> EBPF_ARGUMENT_TYPE_UNSUPPORTED"
abbreviation EBPF_ARGUMENT_TYPE_PTR_TO_TIMER :: ebpf_argument_type_t where "EBPF_ARGUMENT_TYPE_PTR_TO_TIMER \<equiv> EBPF_ARGUMENT_TYPE_UNSUPPORTED"
abbreviation EBPF_ARGUMENT_TYPE_PTR_TO_PERCPU_BTF_ID :: ebpf_argument_type_t where "EBPF_ARGUMENT_TYPE_PTR_TO_PERCPU_BTF_ID \<equiv> EBPF_ARGUMENT_TYPE_UNSUPPORTED"

section \<open>The prototypes\<close>

definition zero_fill :: "ebpf_argument_type_t list \<Rightarrow> ebpf_argument_type_t list" where
  "zero_fill args = take 5 (args @ replicate 5 EBPF_ARGUMENT_TYPE_DONTCARE)"

definition mk_proto :: "string \<Rightarrow> ebpf_return_type_t \<Rightarrow> ebpf_argument_type_t list \<Rightarrow> bool
    \<Rightarrow> ctx_ptr option \<Rightarrow> EbpfHelperPrototype" where
  "mk_proto name ret args realloc ctx =
     \<lparr>proto_name = name, proto_return_type = ret, proto_argument_type = zero_fill args,
      proto_reallocate_packet = realloc, proto_context_descriptor = ctx\<rparr>"

named_theorems proto_defs \<open>the definitions of the helper prototypes\<close>

definition bpf_unspec_proto :: EbpfHelperPrototype where [proto_defs]:
  "bpf_unspec_proto = mk_proto ''unspec''
     EBPF_RETURN_TYPE_UNSUPPORTED
     []
     False None"

definition bpf_tail_call_proto :: EbpfHelperPrototype where [proto_defs]:
  "bpf_tail_call_proto = mk_proto ''tail_call''
     EBPF_RETURN_TYPE_INTEGER_OR_NO_RETURN_IF_SUCCEED
     [EBPF_ARGUMENT_TYPE_PTR_TO_CTX,
      EBPF_ARGUMENT_TYPE_PTR_TO_MAP_OF_PROGRAMS,
      EBPF_ARGUMENT_TYPE_ANYTHING]
     False None"

definition bpf_override_return_proto :: EbpfHelperPrototype where [proto_defs]:
  "bpf_override_return_proto = mk_proto ''override_return''
     EBPF_RETURN_TYPE_INTEGER
     [EBPF_ARGUMENT_TYPE_PTR_TO_CTX,
      EBPF_ARGUMENT_TYPE_ANYTHING]
     False None"

definition bpf_probe_read_proto :: EbpfHelperPrototype where [proto_defs]:
  "bpf_probe_read_proto = mk_proto ''probe_read''
     EBPF_RETURN_TYPE_INTEGER
     [EBPF_ARGUMENT_TYPE_PTR_TO_WRITABLE_MEM,
      EBPF_ARGUMENT_TYPE_CONST_SIZE_OR_ZERO,
      EBPF_ARGUMENT_TYPE_ANYTHING]
     False None"

definition bpf_probe_read_str_proto :: EbpfHelperPrototype where [proto_defs]:
  "bpf_probe_read_str_proto = mk_proto ''probe_read_str''
     EBPF_RETURN_TYPE_INTEGER
     [EBPF_ARGUMENT_TYPE_PTR_TO_WRITABLE_MEM,
      EBPF_ARGUMENT_TYPE_CONST_SIZE_OR_ZERO,
      EBPF_ARGUMENT_TYPE_ANYTHING]
     False None"

definition bpf_probe_write_user_proto :: EbpfHelperPrototype where [proto_defs]:
  "bpf_probe_write_user_proto = mk_proto ''probe_write_user''
     EBPF_RETURN_TYPE_INTEGER
     [EBPF_ARGUMENT_TYPE_ANYTHING,
      EBPF_ARGUMENT_TYPE_PTR_TO_READABLE_MEM,
      EBPF_ARGUMENT_TYPE_CONST_SIZE]
     False None"

definition bpf_trace_printk_proto :: EbpfHelperPrototype where [proto_defs]:
  "bpf_trace_printk_proto = mk_proto ''trace_printk''
     EBPF_RETURN_TYPE_INTEGER
     [EBPF_ARGUMENT_TYPE_PTR_TO_READABLE_MEM,
      EBPF_ARGUMENT_TYPE_CONST_SIZE]
     False None"

definition bpf_perf_event_read_proto :: EbpfHelperPrototype where [proto_defs]:
  "bpf_perf_event_read_proto = mk_proto ''perf_event_read''
     EBPF_RETURN_TYPE_INTEGER
     [EBPF_ARGUMENT_TYPE_PTR_TO_MAP,
      EBPF_ARGUMENT_TYPE_ANYTHING]
     False None"

definition bpf_perf_event_read_value_proto :: EbpfHelperPrototype where [proto_defs]:
  "bpf_perf_event_read_value_proto = mk_proto ''perf_event_read_value''
     EBPF_RETURN_TYPE_INTEGER
     [EBPF_ARGUMENT_TYPE_PTR_TO_MAP,
      EBPF_ARGUMENT_TYPE_ANYTHING,
      EBPF_ARGUMENT_TYPE_PTR_TO_WRITABLE_MEM,
      EBPF_ARGUMENT_TYPE_CONST_SIZE]
     False None"

definition bpf_perf_event_output_proto :: EbpfHelperPrototype where [proto_defs]:
  "bpf_perf_event_output_proto = mk_proto ''perf_event_output''
     EBPF_RETURN_TYPE_INTEGER
     [EBPF_ARGUMENT_TYPE_PTR_TO_CTX,
      EBPF_ARGUMENT_TYPE_PTR_TO_MAP,
      EBPF_ARGUMENT_TYPE_ANYTHING,
      EBPF_ARGUMENT_TYPE_PTR_TO_READABLE_MEM,
      EBPF_ARGUMENT_TYPE_CONST_SIZE_OR_ZERO]
     False None"

definition bpf_get_current_task_proto :: EbpfHelperPrototype where [proto_defs]:
  "bpf_get_current_task_proto = mk_proto ''get_current_task''
     EBPF_RETURN_TYPE_INTEGER
     []
     False None"

definition bpf_current_task_under_cgroup_proto :: EbpfHelperPrototype where [proto_defs]:
  "bpf_current_task_under_cgroup_proto = mk_proto ''current_task_under_cgroup''
     EBPF_RETURN_TYPE_INTEGER
     [EBPF_ARGUMENT_TYPE_PTR_TO_MAP,
      EBPF_ARGUMENT_TYPE_ANYTHING]
     False None"

definition bpf_perf_prog_read_value_proto :: EbpfHelperPrototype where [proto_defs]:
  "bpf_perf_prog_read_value_proto = mk_proto ''perf_prog_read_value''
     EBPF_RETURN_TYPE_INTEGER
     [EBPF_ARGUMENT_TYPE_PTR_TO_CTX,
      EBPF_ARGUMENT_TYPE_PTR_TO_WRITABLE_MEM,
      EBPF_ARGUMENT_TYPE_CONST_SIZE]
     False (Some g_perf_event_descr)"

definition bpf_map_lookup_elem_proto :: EbpfHelperPrototype where [proto_defs]:
  "bpf_map_lookup_elem_proto = mk_proto ''map_lookup_elem''
     EBPF_RETURN_TYPE_PTR_TO_MAP_VALUE_OR_NULL
     [EBPF_ARGUMENT_TYPE_PTR_TO_MAP,
      EBPF_ARGUMENT_TYPE_PTR_TO_MAP_KEY,
      EBPF_ARGUMENT_TYPE_DONTCARE,
      EBPF_ARGUMENT_TYPE_DONTCARE,
      EBPF_ARGUMENT_TYPE_DONTCARE]
     False None"

definition bpf_map_update_elem_proto :: EbpfHelperPrototype where [proto_defs]:
  "bpf_map_update_elem_proto = mk_proto ''map_update_elem''
     EBPF_RETURN_TYPE_INTEGER
     [EBPF_ARGUMENT_TYPE_PTR_TO_MAP,
      EBPF_ARGUMENT_TYPE_PTR_TO_MAP_KEY,
      EBPF_ARGUMENT_TYPE_PTR_TO_MAP_VALUE,
      EBPF_ARGUMENT_TYPE_ANYTHING,
      EBPF_ARGUMENT_TYPE_DONTCARE]
     False None"

definition bpf_map_delete_elem_proto :: EbpfHelperPrototype where [proto_defs]:
  "bpf_map_delete_elem_proto = mk_proto ''map_delete_elem''
     EBPF_RETURN_TYPE_INTEGER
     [EBPF_ARGUMENT_TYPE_PTR_TO_MAP,
      EBPF_ARGUMENT_TYPE_PTR_TO_MAP_KEY,
      EBPF_ARGUMENT_TYPE_DONTCARE,
      EBPF_ARGUMENT_TYPE_DONTCARE,
      EBPF_ARGUMENT_TYPE_DONTCARE]
     False None"

definition bpf_get_prandom_u32_proto :: EbpfHelperPrototype where [proto_defs]:
  "bpf_get_prandom_u32_proto = mk_proto ''get_prandom_u32''
     EBPF_RETURN_TYPE_INTEGER
     []
     False None"

definition bpf_get_smp_processor_id_proto :: EbpfHelperPrototype where [proto_defs]:
  "bpf_get_smp_processor_id_proto = mk_proto ''get_smp_processor_id''
     EBPF_RETURN_TYPE_INTEGER
     []
     False None"

definition bpf_get_numa_node_id_proto :: EbpfHelperPrototype where [proto_defs]:
  "bpf_get_numa_node_id_proto = mk_proto ''get_numa_node_id''
     EBPF_RETURN_TYPE_INTEGER
     []
     False None"

definition bpf_ktime_get_ns_proto :: EbpfHelperPrototype where [proto_defs]:
  "bpf_ktime_get_ns_proto = mk_proto ''ktime_get_ns''
     EBPF_RETURN_TYPE_INTEGER
     []
     False None"

definition bpf_get_current_pid_tgid_proto :: EbpfHelperPrototype where [proto_defs]:
  "bpf_get_current_pid_tgid_proto = mk_proto ''get_current_pid_tgid''
     EBPF_RETURN_TYPE_INTEGER
     []
     False None"

definition bpf_get_current_uid_gid_proto :: EbpfHelperPrototype where [proto_defs]:
  "bpf_get_current_uid_gid_proto = mk_proto ''get_current_uid_gid''
     EBPF_RETURN_TYPE_INTEGER
     []
     False None"

definition bpf_get_current_comm_proto :: EbpfHelperPrototype where [proto_defs]:
  "bpf_get_current_comm_proto = mk_proto ''get_current_comm''
     EBPF_RETURN_TYPE_INTEGER
     [EBPF_ARGUMENT_TYPE_PTR_TO_WRITABLE_MEM,
      EBPF_ARGUMENT_TYPE_CONST_SIZE]
     False None"

definition bpf_get_current_cgroup_id_proto :: EbpfHelperPrototype where [proto_defs]:
  "bpf_get_current_cgroup_id_proto = mk_proto ''get_current_cgroup_id''
     EBPF_RETURN_TYPE_INTEGER
     []
     False None"

definition bpf_sock_map_update_proto :: EbpfHelperPrototype where [proto_defs]:
  "bpf_sock_map_update_proto = mk_proto ''sock_map_update''
     EBPF_RETURN_TYPE_INTEGER
     [EBPF_ARGUMENT_TYPE_PTR_TO_CTX,
      EBPF_ARGUMENT_TYPE_PTR_TO_MAP,
      EBPF_ARGUMENT_TYPE_PTR_TO_MAP_KEY,
      EBPF_ARGUMENT_TYPE_ANYTHING,
      EBPF_ARGUMENT_TYPE_DONTCARE]
     False (Some g_sock_ops_descr)"

definition bpf_sock_hash_update_proto :: EbpfHelperPrototype where [proto_defs]:
  "bpf_sock_hash_update_proto = mk_proto ''sock_hash_update''
     EBPF_RETURN_TYPE_INTEGER
     [EBPF_ARGUMENT_TYPE_PTR_TO_CTX,
      EBPF_ARGUMENT_TYPE_PTR_TO_MAP,
      EBPF_ARGUMENT_TYPE_PTR_TO_MAP_KEY,
      EBPF_ARGUMENT_TYPE_ANYTHING,
      EBPF_ARGUMENT_TYPE_DONTCARE]
     False (Some g_sock_ops_descr)"

definition bpf_get_stackid_proto :: EbpfHelperPrototype where [proto_defs]:
  "bpf_get_stackid_proto = mk_proto ''get_stackid''
     EBPF_RETURN_TYPE_INTEGER
     [EBPF_ARGUMENT_TYPE_PTR_TO_CTX,
      EBPF_ARGUMENT_TYPE_PTR_TO_MAP,
      EBPF_ARGUMENT_TYPE_ANYTHING]
     False None"

definition bpf_get_stack_proto :: EbpfHelperPrototype where [proto_defs]:
  "bpf_get_stack_proto = mk_proto ''get_stack''
     EBPF_RETURN_TYPE_INTEGER
     [EBPF_ARGUMENT_TYPE_PTR_TO_CTX,
      EBPF_ARGUMENT_TYPE_PTR_TO_WRITABLE_MEM,
      EBPF_ARGUMENT_TYPE_CONST_SIZE_OR_ZERO,
      EBPF_ARGUMENT_TYPE_ANYTHING]
     False None"

definition bpf_skb_store_bytes_proto :: EbpfHelperPrototype where [proto_defs]:
  "bpf_skb_store_bytes_proto = mk_proto ''skb_store_bytes''
     EBPF_RETURN_TYPE_INTEGER
     [EBPF_ARGUMENT_TYPE_PTR_TO_CTX,
      EBPF_ARGUMENT_TYPE_ANYTHING,
      EBPF_ARGUMENT_TYPE_PTR_TO_READABLE_MEM,
      EBPF_ARGUMENT_TYPE_CONST_SIZE,
      EBPF_ARGUMENT_TYPE_ANYTHING]
     False (Some g_sk_buff)"

definition bpf_skb_load_bytes_proto :: EbpfHelperPrototype where [proto_defs]:
  "bpf_skb_load_bytes_proto = mk_proto ''skb_load_bytes''
     EBPF_RETURN_TYPE_INTEGER
     [EBPF_ARGUMENT_TYPE_PTR_TO_CTX,
      EBPF_ARGUMENT_TYPE_ANYTHING,
      EBPF_ARGUMENT_TYPE_PTR_TO_WRITABLE_MEM,
      EBPF_ARGUMENT_TYPE_CONST_SIZE]
     False (Some g_sk_buff)"

definition bpf_skb_load_bytes_relative_proto :: EbpfHelperPrototype where [proto_defs]:
  "bpf_skb_load_bytes_relative_proto = mk_proto ''skb_load_bytes_relative''
     EBPF_RETURN_TYPE_INTEGER
     [EBPF_ARGUMENT_TYPE_PTR_TO_CTX,
      EBPF_ARGUMENT_TYPE_ANYTHING,
      EBPF_ARGUMENT_TYPE_PTR_TO_WRITABLE_MEM,
      EBPF_ARGUMENT_TYPE_CONST_SIZE,
      EBPF_ARGUMENT_TYPE_ANYTHING]
     False (Some g_sk_buff)"

definition bpf_skb_pull_data_proto :: EbpfHelperPrototype where [proto_defs]:
  "bpf_skb_pull_data_proto = mk_proto ''skb_pull_data''
     EBPF_RETURN_TYPE_INTEGER
     [EBPF_ARGUMENT_TYPE_PTR_TO_CTX,
      EBPF_ARGUMENT_TYPE_ANYTHING]
     False (Some g_sk_buff)"

definition bpf_l3_csum_replace_proto :: EbpfHelperPrototype where [proto_defs]:
  "bpf_l3_csum_replace_proto = mk_proto ''l3_csum_replace''
     EBPF_RETURN_TYPE_INTEGER
     [EBPF_ARGUMENT_TYPE_PTR_TO_CTX,
      EBPF_ARGUMENT_TYPE_ANYTHING,
      EBPF_ARGUMENT_TYPE_ANYTHING,
      EBPF_ARGUMENT_TYPE_ANYTHING,
      EBPF_ARGUMENT_TYPE_ANYTHING]
     False (Some g_sk_buff)"

definition bpf_l4_csum_replace_proto :: EbpfHelperPrototype where [proto_defs]:
  "bpf_l4_csum_replace_proto = mk_proto ''l4_csum_replace''
     EBPF_RETURN_TYPE_INTEGER
     [EBPF_ARGUMENT_TYPE_PTR_TO_CTX,
      EBPF_ARGUMENT_TYPE_ANYTHING,
      EBPF_ARGUMENT_TYPE_ANYTHING,
      EBPF_ARGUMENT_TYPE_ANYTHING,
      EBPF_ARGUMENT_TYPE_ANYTHING]
     False (Some g_sk_buff)"

definition bpf_csum_diff_proto :: EbpfHelperPrototype where [proto_defs]:
  "bpf_csum_diff_proto = mk_proto ''csum_diff''
     EBPF_RETURN_TYPE_INTEGER
     [EBPF_ARGUMENT_TYPE_PTR_TO_READABLE_MEM_OR_NULL,
      EBPF_ARGUMENT_TYPE_CONST_SIZE_OR_ZERO,
      EBPF_ARGUMENT_TYPE_PTR_TO_READABLE_MEM_OR_NULL,
      EBPF_ARGUMENT_TYPE_CONST_SIZE_OR_ZERO,
      EBPF_ARGUMENT_TYPE_ANYTHING]
     False None"

definition bpf_csum_update_proto :: EbpfHelperPrototype where [proto_defs]:
  "bpf_csum_update_proto = mk_proto ''csum_update''
     EBPF_RETURN_TYPE_INTEGER
     [EBPF_ARGUMENT_TYPE_PTR_TO_CTX,
      EBPF_ARGUMENT_TYPE_ANYTHING]
     False (Some g_sk_buff)"

definition bpf_clone_redirect_proto :: EbpfHelperPrototype where [proto_defs]:
  "bpf_clone_redirect_proto = mk_proto ''clone_redirect''
     EBPF_RETURN_TYPE_INTEGER
     [EBPF_ARGUMENT_TYPE_PTR_TO_CTX,
      EBPF_ARGUMENT_TYPE_ANYTHING,
      EBPF_ARGUMENT_TYPE_ANYTHING]
     False (Some g_sk_buff)"

definition bpf_redirect_proto :: EbpfHelperPrototype where [proto_defs]:
  "bpf_redirect_proto = mk_proto ''redirect''
     EBPF_RETURN_TYPE_INTEGER
     [EBPF_ARGUMENT_TYPE_ANYTHING,
      EBPF_ARGUMENT_TYPE_ANYTHING]
     False None"

definition bpf_sk_redirect_hash_proto :: EbpfHelperPrototype where [proto_defs]:
  "bpf_sk_redirect_hash_proto = mk_proto ''sk_redirect_hash''
     EBPF_RETURN_TYPE_INTEGER
     [EBPF_ARGUMENT_TYPE_PTR_TO_CTX,
      EBPF_ARGUMENT_TYPE_PTR_TO_MAP,
      EBPF_ARGUMENT_TYPE_PTR_TO_MAP_KEY,
      EBPF_ARGUMENT_TYPE_ANYTHING]
     False (Some g_sk_buff)"

definition bpf_sk_redirect_map_proto :: EbpfHelperPrototype where [proto_defs]:
  "bpf_sk_redirect_map_proto = mk_proto ''sk_redirect_map''
     EBPF_RETURN_TYPE_INTEGER
     [EBPF_ARGUMENT_TYPE_PTR_TO_CTX,
      EBPF_ARGUMENT_TYPE_PTR_TO_MAP,
      EBPF_ARGUMENT_TYPE_ANYTHING,
      EBPF_ARGUMENT_TYPE_ANYTHING]
     False (Some g_sk_buff)"

definition bpf_msg_redirect_hash_proto :: EbpfHelperPrototype where [proto_defs]:
  "bpf_msg_redirect_hash_proto = mk_proto ''msg_redirect_hash''
     EBPF_RETURN_TYPE_INTEGER
     [EBPF_ARGUMENT_TYPE_PTR_TO_CTX,
      EBPF_ARGUMENT_TYPE_PTR_TO_MAP,
      EBPF_ARGUMENT_TYPE_PTR_TO_MAP_KEY,
      EBPF_ARGUMENT_TYPE_ANYTHING]
     False (Some g_sk_msg_md)"

definition bpf_msg_redirect_map_proto :: EbpfHelperPrototype where [proto_defs]:
  "bpf_msg_redirect_map_proto = mk_proto ''msg_redirect_map''
     EBPF_RETURN_TYPE_INTEGER
     [EBPF_ARGUMENT_TYPE_PTR_TO_CTX,
      EBPF_ARGUMENT_TYPE_PTR_TO_MAP,
      EBPF_ARGUMENT_TYPE_ANYTHING,
      EBPF_ARGUMENT_TYPE_ANYTHING]
     False (Some g_sk_msg_md)"

definition bpf_msg_apply_bytes_proto :: EbpfHelperPrototype where [proto_defs]:
  "bpf_msg_apply_bytes_proto = mk_proto ''msg_apply_bytes''
     EBPF_RETURN_TYPE_INTEGER
     [EBPF_ARGUMENT_TYPE_PTR_TO_CTX,
      EBPF_ARGUMENT_TYPE_ANYTHING]
     False (Some g_sk_msg_md)"

definition bpf_msg_cork_bytes_proto :: EbpfHelperPrototype where [proto_defs]:
  "bpf_msg_cork_bytes_proto = mk_proto ''msg_cork_bytes''
     EBPF_RETURN_TYPE_INTEGER
     [EBPF_ARGUMENT_TYPE_PTR_TO_CTX,
      EBPF_ARGUMENT_TYPE_ANYTHING]
     False (Some g_sk_msg_md)"

definition bpf_msg_pull_data_proto :: EbpfHelperPrototype where [proto_defs]:
  "bpf_msg_pull_data_proto = mk_proto ''msg_pull_data''
     EBPF_RETURN_TYPE_INTEGER
     [EBPF_ARGUMENT_TYPE_PTR_TO_CTX,
      EBPF_ARGUMENT_TYPE_ANYTHING,
      EBPF_ARGUMENT_TYPE_ANYTHING,
      EBPF_ARGUMENT_TYPE_ANYTHING]
     False (Some g_sk_msg_md)"

definition bpf_get_cgroup_classid_proto :: EbpfHelperPrototype where [proto_defs]:
  "bpf_get_cgroup_classid_proto = mk_proto ''get_cgroup_classid''
     EBPF_RETURN_TYPE_INTEGER
     [EBPF_ARGUMENT_TYPE_PTR_TO_CTX]
     False (Some g_sk_buff)"

definition bpf_get_route_realm_proto :: EbpfHelperPrototype where [proto_defs]:
  "bpf_get_route_realm_proto = mk_proto ''get_route_realm''
     EBPF_RETURN_TYPE_INTEGER
     [EBPF_ARGUMENT_TYPE_PTR_TO_CTX]
     False (Some g_sk_buff)"

definition bpf_get_hash_recalc_proto :: EbpfHelperPrototype where [proto_defs]:
  "bpf_get_hash_recalc_proto = mk_proto ''get_hash_recalc''
     EBPF_RETURN_TYPE_INTEGER
     [EBPF_ARGUMENT_TYPE_PTR_TO_CTX]
     False (Some g_sk_buff)"

definition bpf_set_hash_invalid_proto :: EbpfHelperPrototype where [proto_defs]:
  "bpf_set_hash_invalid_proto = mk_proto ''set_hash_invalid''
     EBPF_RETURN_TYPE_INTEGER
     [EBPF_ARGUMENT_TYPE_PTR_TO_CTX]
     False (Some g_sk_buff)"

definition bpf_set_hash_proto :: EbpfHelperPrototype where [proto_defs]:
  "bpf_set_hash_proto = mk_proto ''set_hash''
     EBPF_RETURN_TYPE_INTEGER
     [EBPF_ARGUMENT_TYPE_PTR_TO_CTX,
      EBPF_ARGUMENT_TYPE_ANYTHING]
     False (Some g_sk_buff)"

definition bpf_skb_vlan_push_proto :: EbpfHelperPrototype where [proto_defs]:
  "bpf_skb_vlan_push_proto = mk_proto ''skb_vlan_push''
     EBPF_RETURN_TYPE_INTEGER
     [EBPF_ARGUMENT_TYPE_PTR_TO_CTX,
      EBPF_ARGUMENT_TYPE_ANYTHING,
      EBPF_ARGUMENT_TYPE_ANYTHING]
     False (Some g_sk_buff)"

definition bpf_skb_vlan_pop_proto :: EbpfHelperPrototype where [proto_defs]:
  "bpf_skb_vlan_pop_proto = mk_proto ''skb_vlan_pop''
     EBPF_RETURN_TYPE_INTEGER
     [EBPF_ARGUMENT_TYPE_PTR_TO_CTX]
     False (Some g_sk_buff)"

definition bpf_skb_change_proto_proto :: EbpfHelperPrototype where [proto_defs]:
  "bpf_skb_change_proto_proto = mk_proto ''skb_change_proto''
     EBPF_RETURN_TYPE_INTEGER
     [EBPF_ARGUMENT_TYPE_PTR_TO_CTX,
      EBPF_ARGUMENT_TYPE_ANYTHING,
      EBPF_ARGUMENT_TYPE_ANYTHING]
     False (Some g_sk_buff)"

definition bpf_skb_change_type_proto :: EbpfHelperPrototype where [proto_defs]:
  "bpf_skb_change_type_proto = mk_proto ''skb_change_type''
     EBPF_RETURN_TYPE_INTEGER
     [EBPF_ARGUMENT_TYPE_PTR_TO_CTX,
      EBPF_ARGUMENT_TYPE_ANYTHING]
     False (Some g_sk_buff)"

definition bpf_skb_adjust_room_proto :: EbpfHelperPrototype where [proto_defs]:
  "bpf_skb_adjust_room_proto = mk_proto ''skb_adjust_room''
     EBPF_RETURN_TYPE_INTEGER
     [EBPF_ARGUMENT_TYPE_PTR_TO_CTX,
      EBPF_ARGUMENT_TYPE_ANYTHING,
      EBPF_ARGUMENT_TYPE_ANYTHING,
      EBPF_ARGUMENT_TYPE_ANYTHING]
     True (Some g_sk_buff)"

definition bpf_skb_change_tail_proto :: EbpfHelperPrototype where [proto_defs]:
  "bpf_skb_change_tail_proto = mk_proto ''skb_change_tail''
     EBPF_RETURN_TYPE_INTEGER
     [EBPF_ARGUMENT_TYPE_PTR_TO_CTX,
      EBPF_ARGUMENT_TYPE_ANYTHING,
      EBPF_ARGUMENT_TYPE_ANYTHING]
     False (Some g_sk_buff)"

definition bpf_skb_change_head_proto :: EbpfHelperPrototype where [proto_defs]:
  "bpf_skb_change_head_proto = mk_proto ''skb_change_head''
     EBPF_RETURN_TYPE_INTEGER
     [EBPF_ARGUMENT_TYPE_PTR_TO_CTX,
      EBPF_ARGUMENT_TYPE_ANYTHING,
      EBPF_ARGUMENT_TYPE_ANYTHING]
     True (Some g_sk_buff)"

definition bpf_xdp_adjust_head_proto :: EbpfHelperPrototype where [proto_defs]:
  "bpf_xdp_adjust_head_proto = mk_proto ''xdp_adjust_head''
     EBPF_RETURN_TYPE_INTEGER
     [EBPF_ARGUMENT_TYPE_PTR_TO_CTX,
      EBPF_ARGUMENT_TYPE_ANYTHING]
     True (Some g_xdp_descr)"

definition bpf_xdp_adjust_tail_proto :: EbpfHelperPrototype where [proto_defs]:
  "bpf_xdp_adjust_tail_proto = mk_proto ''xdp_adjust_tail''
     EBPF_RETURN_TYPE_INTEGER
     [EBPF_ARGUMENT_TYPE_PTR_TO_CTX,
      EBPF_ARGUMENT_TYPE_ANYTHING]
     True (Some g_xdp_descr)"

definition bpf_xdp_adjust_meta_proto :: EbpfHelperPrototype where [proto_defs]:
  "bpf_xdp_adjust_meta_proto = mk_proto ''xdp_adjust_meta''
     EBPF_RETURN_TYPE_INTEGER
     [EBPF_ARGUMENT_TYPE_PTR_TO_CTX,
      EBPF_ARGUMENT_TYPE_ANYTHING]
     True (Some g_xdp_descr)"

definition bpf_skb_get_tunnel_key_proto :: EbpfHelperPrototype where [proto_defs]:
  "bpf_skb_get_tunnel_key_proto = mk_proto ''skb_get_tunnel_key''
     EBPF_RETURN_TYPE_INTEGER
     [EBPF_ARGUMENT_TYPE_PTR_TO_CTX,
      EBPF_ARGUMENT_TYPE_PTR_TO_WRITABLE_MEM,
      EBPF_ARGUMENT_TYPE_CONST_SIZE,
      EBPF_ARGUMENT_TYPE_ANYTHING]
     False (Some g_sk_buff)"

definition bpf_skb_get_tunnel_opt_proto :: EbpfHelperPrototype where [proto_defs]:
  "bpf_skb_get_tunnel_opt_proto = mk_proto ''skb_get_tunnel_opt''
     EBPF_RETURN_TYPE_INTEGER
     [EBPF_ARGUMENT_TYPE_PTR_TO_CTX,
      EBPF_ARGUMENT_TYPE_PTR_TO_WRITABLE_MEM,
      EBPF_ARGUMENT_TYPE_CONST_SIZE]
     False (Some g_sk_buff)"

definition bpf_skb_set_tunnel_key_proto :: EbpfHelperPrototype where [proto_defs]:
  "bpf_skb_set_tunnel_key_proto = mk_proto ''skb_set_tunnel_key''
     EBPF_RETURN_TYPE_INTEGER
     [EBPF_ARGUMENT_TYPE_PTR_TO_CTX,
      EBPF_ARGUMENT_TYPE_PTR_TO_READABLE_MEM,
      EBPF_ARGUMENT_TYPE_CONST_SIZE,
      EBPF_ARGUMENT_TYPE_ANYTHING]
     False (Some g_sk_buff)"

definition bpf_skb_set_tunnel_opt_proto :: EbpfHelperPrototype where [proto_defs]:
  "bpf_skb_set_tunnel_opt_proto = mk_proto ''skb_set_tunnel_opt''
     EBPF_RETURN_TYPE_INTEGER
     [EBPF_ARGUMENT_TYPE_PTR_TO_CTX,
      EBPF_ARGUMENT_TYPE_PTR_TO_READABLE_MEM,
      EBPF_ARGUMENT_TYPE_CONST_SIZE]
     False (Some g_sk_buff)"

definition bpf_skb_under_cgroup_proto :: EbpfHelperPrototype where [proto_defs]:
  "bpf_skb_under_cgroup_proto = mk_proto ''skb_under_cgroup''
     EBPF_RETURN_TYPE_INTEGER
     [EBPF_ARGUMENT_TYPE_PTR_TO_CTX,
      EBPF_ARGUMENT_TYPE_PTR_TO_MAP,
      EBPF_ARGUMENT_TYPE_ANYTHING]
     False (Some g_sk_buff)"

definition bpf_skb_cgroup_id_proto :: EbpfHelperPrototype where [proto_defs]:
  "bpf_skb_cgroup_id_proto = mk_proto ''skb_cgroup_id''
     EBPF_RETURN_TYPE_INTEGER
     [EBPF_ARGUMENT_TYPE_PTR_TO_CTX]
     False (Some g_sk_buff)"

definition bpf_get_socket_cookie_proto :: EbpfHelperPrototype where [proto_defs]:
  "bpf_get_socket_cookie_proto = mk_proto ''get_socket_cookie''
     EBPF_RETURN_TYPE_INTEGER
     [EBPF_ARGUMENT_TYPE_PTR_TO_CTX]
     False (Some g_sk_buff)"

definition bpf_get_socket_uid_proto :: EbpfHelperPrototype where [proto_defs]:
  "bpf_get_socket_uid_proto = mk_proto ''get_socket_uid''
     EBPF_RETURN_TYPE_INTEGER
     [EBPF_ARGUMENT_TYPE_PTR_TO_CTX]
     False (Some g_sk_buff)"

definition bpf_setsockopt_proto :: EbpfHelperPrototype where [proto_defs]:
  "bpf_setsockopt_proto = mk_proto ''setsockopt''
     EBPF_RETURN_TYPE_INTEGER
     [EBPF_ARGUMENT_TYPE_PTR_TO_CTX,
      EBPF_ARGUMENT_TYPE_ANYTHING,
      EBPF_ARGUMENT_TYPE_ANYTHING,
      EBPF_ARGUMENT_TYPE_PTR_TO_READABLE_MEM,
      EBPF_ARGUMENT_TYPE_CONST_SIZE]
     False None"

definition bpf_getsockopt_proto :: EbpfHelperPrototype where [proto_defs]:
  "bpf_getsockopt_proto = mk_proto ''getsockopt''
     EBPF_RETURN_TYPE_INTEGER
     [EBPF_ARGUMENT_TYPE_PTR_TO_CTX,
      EBPF_ARGUMENT_TYPE_ANYTHING,
      EBPF_ARGUMENT_TYPE_ANYTHING,
      EBPF_ARGUMENT_TYPE_PTR_TO_WRITABLE_MEM,
      EBPF_ARGUMENT_TYPE_CONST_SIZE]
     False None"

definition bpf_sock_ops_cb_flags_set_proto :: EbpfHelperPrototype where [proto_defs]:
  "bpf_sock_ops_cb_flags_set_proto = mk_proto ''sock_ops_cb_flags_set''
     EBPF_RETURN_TYPE_INTEGER
     [EBPF_ARGUMENT_TYPE_PTR_TO_CTX,
      EBPF_ARGUMENT_TYPE_ANYTHING]
     False (Some g_sock_ops_descr)"

definition bpf_bind_proto :: EbpfHelperPrototype where [proto_defs]:
  "bpf_bind_proto = mk_proto ''bind''
     EBPF_RETURN_TYPE_INTEGER
     [EBPF_ARGUMENT_TYPE_PTR_TO_CTX,
      EBPF_ARGUMENT_TYPE_PTR_TO_READABLE_MEM,
      EBPF_ARGUMENT_TYPE_CONST_SIZE]
     False None"

definition bpf_skb_get_xfrm_state_proto :: EbpfHelperPrototype where [proto_defs]:
  "bpf_skb_get_xfrm_state_proto = mk_proto ''skb_get_xfrm_state''
     EBPF_RETURN_TYPE_INTEGER
     [EBPF_ARGUMENT_TYPE_PTR_TO_CTX,
      EBPF_ARGUMENT_TYPE_ANYTHING,
      EBPF_ARGUMENT_TYPE_PTR_TO_WRITABLE_MEM,
      EBPF_ARGUMENT_TYPE_CONST_SIZE,
      EBPF_ARGUMENT_TYPE_ANYTHING]
     False (Some g_sk_buff)"

definition bpf_fib_lookup_proto :: EbpfHelperPrototype where [proto_defs]:
  "bpf_fib_lookup_proto = mk_proto ''fib_lookup''
     EBPF_RETURN_TYPE_INTEGER
     [EBPF_ARGUMENT_TYPE_PTR_TO_CTX,
      EBPF_ARGUMENT_TYPE_PTR_TO_READABLE_MEM,
      EBPF_ARGUMENT_TYPE_CONST_SIZE,
      EBPF_ARGUMENT_TYPE_ANYTHING]
     False None"

definition bpf_lwt_push_encap_proto :: EbpfHelperPrototype where [proto_defs]:
  "bpf_lwt_push_encap_proto = mk_proto ''lwt_push_encap''
     EBPF_RETURN_TYPE_INTEGER
     [EBPF_ARGUMENT_TYPE_PTR_TO_CTX,
      EBPF_ARGUMENT_TYPE_ANYTHING,
      EBPF_ARGUMENT_TYPE_PTR_TO_READABLE_MEM,
      EBPF_ARGUMENT_TYPE_CONST_SIZE]
     False (Some g_sk_buff)"

definition bpf_lwt_seg6_store_bytes_proto :: EbpfHelperPrototype where [proto_defs]:
  "bpf_lwt_seg6_store_bytes_proto = mk_proto ''lwt_seg6_store_bytes''
     EBPF_RETURN_TYPE_INTEGER
     [EBPF_ARGUMENT_TYPE_PTR_TO_CTX,
      EBPF_ARGUMENT_TYPE_ANYTHING,
      EBPF_ARGUMENT_TYPE_PTR_TO_READABLE_MEM,
      EBPF_ARGUMENT_TYPE_CONST_SIZE]
     False (Some g_sk_buff)"

definition bpf_lwt_seg6_action_proto :: EbpfHelperPrototype where [proto_defs]:
  "bpf_lwt_seg6_action_proto = mk_proto ''lwt_seg6_action''
     EBPF_RETURN_TYPE_INTEGER
     [EBPF_ARGUMENT_TYPE_PTR_TO_CTX,
      EBPF_ARGUMENT_TYPE_ANYTHING,
      EBPF_ARGUMENT_TYPE_PTR_TO_READABLE_MEM,
      EBPF_ARGUMENT_TYPE_CONST_SIZE]
     False (Some g_sk_buff)"

definition bpf_lwt_seg6_adjust_srh_proto :: EbpfHelperPrototype where [proto_defs]:
  "bpf_lwt_seg6_adjust_srh_proto = mk_proto ''lwt_seg6_adjust_srh''
     EBPF_RETURN_TYPE_INTEGER
     [EBPF_ARGUMENT_TYPE_PTR_TO_CTX,
      EBPF_ARGUMENT_TYPE_ANYTHING,
      EBPF_ARGUMENT_TYPE_ANYTHING]
     True (Some g_sk_buff)"

definition bpf_rc_repeat_proto :: EbpfHelperPrototype where [proto_defs]:
  "bpf_rc_repeat_proto = mk_proto ''rc_repeat''
     EBPF_RETURN_TYPE_INTEGER
     [EBPF_ARGUMENT_TYPE_PTR_TO_CTX]
     False None"

definition bpf_rc_keydown_proto :: EbpfHelperPrototype where [proto_defs]:
  "bpf_rc_keydown_proto = mk_proto ''rc_keydown''
     EBPF_RETURN_TYPE_INTEGER
     [EBPF_ARGUMENT_TYPE_PTR_TO_CTX,
      EBPF_ARGUMENT_TYPE_ANYTHING,
      EBPF_ARGUMENT_TYPE_ANYTHING,
      EBPF_ARGUMENT_TYPE_ANYTHING]
     False None"

definition bpf_get_local_storage_proto :: EbpfHelperPrototype where [proto_defs]:
  "bpf_get_local_storage_proto = mk_proto ''get_local_storage''
     EBPF_RETURN_TYPE_PTR_TO_MAP_VALUE_OR_NULL
     [EBPF_ARGUMENT_TYPE_PTR_TO_MAP,
      EBPF_ARGUMENT_TYPE_ANYTHING]
     False None"

definition bpf_redirect_map_proto :: EbpfHelperPrototype where [proto_defs]:
  "bpf_redirect_map_proto = mk_proto ''redirect_map''
     EBPF_RETURN_TYPE_INTEGER
     [EBPF_ARGUMENT_TYPE_PTR_TO_MAP,
      EBPF_ARGUMENT_TYPE_ANYTHING,
      EBPF_ARGUMENT_TYPE_ANYTHING]
     False None"

definition bpf_sk_select_reuseport_proto :: EbpfHelperPrototype where [proto_defs]:
  "bpf_sk_select_reuseport_proto = mk_proto ''sk_select_reuseport''
     EBPF_RETURN_TYPE_INTEGER
     []
     False None"

definition bpf_get_current_ancestor_cgroup_id_proto :: EbpfHelperPrototype where [proto_defs]:
  "bpf_get_current_ancestor_cgroup_id_proto = mk_proto ''get_current_ancestor_cgroup_id''
     EBPF_RETURN_TYPE_INTEGER
     []
     False None"

definition bpf_sk_lookup_tcp_proto :: EbpfHelperPrototype where [proto_defs]:
  "bpf_sk_lookup_tcp_proto = mk_proto ''sk_lookup_tcp''
     EBPF_RETURN_TYPE_PTR_TO_SOCK_COMMON_OR_NULL
     [EBPF_ARGUMENT_TYPE_PTR_TO_CTX,
      EBPF_ARGUMENT_TYPE_PTR_TO_READABLE_MEM,
      EBPF_ARGUMENT_TYPE_CONST_SIZE,
      EBPF_ARGUMENT_TYPE_ANYTHING,
      EBPF_ARGUMENT_TYPE_ANYTHING]
     False None"

definition bpf_sk_lookup_udp_proto :: EbpfHelperPrototype where [proto_defs]:
  "bpf_sk_lookup_udp_proto = mk_proto ''sk_lookup_udp''
     EBPF_RETURN_TYPE_PTR_TO_SOCKET_OR_NULL
     []
     False None"

definition bpf_sk_release_proto :: EbpfHelperPrototype where [proto_defs]:
  "bpf_sk_release_proto = mk_proto ''sk_release''
     EBPF_RETURN_TYPE_INTEGER
     [EBPF_ARGUMENT_TYPE_PTR_TO_BTF_ID_SOCK_COMMON]
     False None"

definition bpf_map_push_elem_proto :: EbpfHelperPrototype where [proto_defs]:
  "bpf_map_push_elem_proto = mk_proto ''map_push_elem''
     EBPF_RETURN_TYPE_INTEGER
     []
     False None"

definition bpf_map_pop_elem_proto :: EbpfHelperPrototype where [proto_defs]:
  "bpf_map_pop_elem_proto = mk_proto ''map_pop_elem''
     EBPF_RETURN_TYPE_INTEGER
     []
     False None"

definition bpf_map_peek_elem_proto :: EbpfHelperPrototype where [proto_defs]:
  "bpf_map_peek_elem_proto = mk_proto ''map_peek_elem''
     EBPF_RETURN_TYPE_INTEGER
     []
     False None"

definition bpf_msg_push_data_proto :: EbpfHelperPrototype where [proto_defs]:
  "bpf_msg_push_data_proto = mk_proto ''msg_push_data''
     EBPF_RETURN_TYPE_INTEGER
     []
     False (Some g_sk_msg_md)"

definition bpf_msg_pop_data_proto :: EbpfHelperPrototype where [proto_defs]:
  "bpf_msg_pop_data_proto = mk_proto ''msg_pop_data''
     EBPF_RETURN_TYPE_INTEGER
     []
     False (Some g_sk_msg_md)"

definition bpf_rc_pointer_rel_proto :: EbpfHelperPrototype where [proto_defs]:
  "bpf_rc_pointer_rel_proto = mk_proto ''rc_pointer_rel''
     EBPF_RETURN_TYPE_INTEGER
     []
     False None"

definition bpf_spin_lock_proto :: EbpfHelperPrototype where [proto_defs]:
  "bpf_spin_lock_proto = mk_proto ''spin_lock''
     EBPF_RETURN_TYPE_INTEGER
     [EBPF_ARGUMENT_TYPE_PTR_TO_SPIN_LOCK]
     False None"

definition bpf_spin_unlock_proto :: EbpfHelperPrototype where [proto_defs]:
  "bpf_spin_unlock_proto = mk_proto ''spin_unlock''
     EBPF_RETURN_TYPE_INTEGER
     [EBPF_ARGUMENT_TYPE_PTR_TO_SPIN_LOCK]
     False None"

definition bpf_jiffies64_proto :: EbpfHelperPrototype where [proto_defs]:
  "bpf_jiffies64_proto = mk_proto ''jiffies64''
     EBPF_RETURN_TYPE_INTEGER
     []
     False None"

definition bpf_sk_fullsock_proto :: EbpfHelperPrototype where [proto_defs]:
  "bpf_sk_fullsock_proto = mk_proto ''sk_fullsock''
     EBPF_RETURN_TYPE_PTR_TO_SOCKET_OR_NULL
     [EBPF_ARGUMENT_TYPE_PTR_TO_SOCK_COMMON]
     False None"

definition bpf_tcp_sock_proto :: EbpfHelperPrototype where [proto_defs]:
  "bpf_tcp_sock_proto = mk_proto ''tcp_sock''
     EBPF_RETURN_TYPE_PTR_TO_TCP_SOCKET_OR_NULL
     [EBPF_ARGUMENT_TYPE_PTR_TO_SOCK_COMMON]
     False None"

definition bpf_skb_ecn_set_ce_proto :: EbpfHelperPrototype where [proto_defs]:
  "bpf_skb_ecn_set_ce_proto = mk_proto ''skb_ecn_set_ce''
     EBPF_RETURN_TYPE_INTEGER
     [EBPF_ARGUMENT_TYPE_PTR_TO_CTX]
     False None"

definition bpf_tcp_check_syncookie_proto :: EbpfHelperPrototype where [proto_defs]:
  "bpf_tcp_check_syncookie_proto = mk_proto ''tcp_check_syncookie''
     EBPF_RETURN_TYPE_INTEGER
     [EBPF_ARGUMENT_TYPE_PTR_TO_BTF_ID_SOCK_COMMON,
      EBPF_ARGUMENT_TYPE_PTR_TO_READABLE_MEM,
      EBPF_ARGUMENT_TYPE_CONST_SIZE,
      EBPF_ARGUMENT_TYPE_PTR_TO_READABLE_MEM,
      EBPF_ARGUMENT_TYPE_CONST_SIZE]
     False None"

definition bpf_get_listener_sock_proto :: EbpfHelperPrototype where [proto_defs]:
  "bpf_get_listener_sock_proto = mk_proto ''EbpfHelperPrototype''
     EBPF_RETURN_TYPE_PTR_TO_TCP_SOCKET_OR_NULL
     [EBPF_ARGUMENT_TYPE_PTR_TO_SOCK_COMMON]
     False None"

definition bpf_skc_lookup_tcp_proto :: EbpfHelperPrototype where [proto_defs]:
  "bpf_skc_lookup_tcp_proto = mk_proto ''skc_lookup_tcp''
     EBPF_RETURN_TYPE_PTR_TO_SOCK_COMMON_OR_NULL
     [EBPF_ARGUMENT_TYPE_PTR_TO_CTX,
      EBPF_ARGUMENT_TYPE_PTR_TO_READABLE_MEM,
      EBPF_ARGUMENT_TYPE_CONST_SIZE,
      EBPF_ARGUMENT_TYPE_ANYTHING,
      EBPF_ARGUMENT_TYPE_ANYTHING]
     False None"

definition bpf_sysctl_get_name_proto :: EbpfHelperPrototype where [proto_defs]:
  "bpf_sysctl_get_name_proto = mk_proto ''sysctl_get_name''
     EBPF_RETURN_TYPE_INTEGER
     [EBPF_ARGUMENT_TYPE_PTR_TO_CTX,
      EBPF_ARGUMENT_TYPE_PTR_TO_READABLE_MEM,
      EBPF_ARGUMENT_TYPE_CONST_SIZE,
      EBPF_ARGUMENT_TYPE_ANYTHING]
     False None"

definition bpf_sysctl_get_current_value_proto :: EbpfHelperPrototype where [proto_defs]:
  "bpf_sysctl_get_current_value_proto = mk_proto ''sysctl_get_current_value''
     EBPF_RETURN_TYPE_INTEGER
     [EBPF_ARGUMENT_TYPE_PTR_TO_CTX,
      EBPF_ARGUMENT_TYPE_PTR_TO_WRITABLE_MEM,
      EBPF_ARGUMENT_TYPE_CONST_SIZE]
     False None"

definition bpf_sysctl_get_new_value_proto :: EbpfHelperPrototype where [proto_defs]:
  "bpf_sysctl_get_new_value_proto = mk_proto ''sysctl_get_new_value''
     EBPF_RETURN_TYPE_INTEGER
     [EBPF_ARGUMENT_TYPE_PTR_TO_CTX,
      EBPF_ARGUMENT_TYPE_PTR_TO_WRITABLE_MEM,
      EBPF_ARGUMENT_TYPE_CONST_SIZE]
     False None"

definition bpf_sysctl_set_new_value_proto :: EbpfHelperPrototype where [proto_defs]:
  "bpf_sysctl_set_new_value_proto = mk_proto ''sysctl_set_new_value''
     EBPF_RETURN_TYPE_INTEGER
     [EBPF_ARGUMENT_TYPE_PTR_TO_CTX,
      EBPF_ARGUMENT_TYPE_PTR_TO_READABLE_MEM,
      EBPF_ARGUMENT_TYPE_CONST_SIZE]
     False None"

definition bpf_strtol_proto :: EbpfHelperPrototype where [proto_defs]:
  "bpf_strtol_proto = mk_proto ''strtol''
     EBPF_RETURN_TYPE_INTEGER
     [EBPF_ARGUMENT_TYPE_PTR_TO_READABLE_MEM,
      EBPF_ARGUMENT_TYPE_CONST_SIZE,
      EBPF_ARGUMENT_TYPE_ANYTHING,
      EBPF_ARGUMENT_TYPE_PTR_TO_LONG]
     False None"

definition bpf_strtoul_proto :: EbpfHelperPrototype where [proto_defs]:
  "bpf_strtoul_proto = mk_proto ''strtoul''
     EBPF_RETURN_TYPE_INTEGER
     [EBPF_ARGUMENT_TYPE_PTR_TO_READABLE_MEM,
      EBPF_ARGUMENT_TYPE_CONST_SIZE,
      EBPF_ARGUMENT_TYPE_ANYTHING,
      EBPF_ARGUMENT_TYPE_PTR_TO_LONG]
     False None"

definition bpf_strncmp_proto :: EbpfHelperPrototype where [proto_defs]:
  "bpf_strncmp_proto = mk_proto ''strncmp''
     EBPF_RETURN_TYPE_INTEGER
     [EBPF_ARGUMENT_TYPE_PTR_TO_READABLE_MEM,
      EBPF_ARGUMENT_TYPE_CONST_SIZE,
      EBPF_ARGUMENT_TYPE_PTR_TO_CONST_STR]
     False None"

definition bpf_sk_storage_get_proto :: EbpfHelperPrototype where [proto_defs]:
  "bpf_sk_storage_get_proto = mk_proto ''sk_storage_get''
     EBPF_RETURN_TYPE_PTR_TO_MAP_VALUE_OR_NULL
     [EBPF_ARGUMENT_TYPE_PTR_TO_MAP,
      EBPF_ARGUMENT_TYPE_PTR_TO_BTF_ID_SOCK_COMMON,
      EBPF_ARGUMENT_TYPE_PTR_TO_MAP_VALUE,
      EBPF_ARGUMENT_TYPE_ANYTHING]
     False None"

definition bpf_sk_storage_get_cg_sock_proto :: EbpfHelperPrototype where [proto_defs]:
  "bpf_sk_storage_get_cg_sock_proto = mk_proto ''sk_storage_get''
     EBPF_RETURN_TYPE_PTR_TO_MAP_VALUE_OR_NULL
     [EBPF_ARGUMENT_TYPE_PTR_TO_MAP,
      EBPF_ARGUMENT_TYPE_PTR_TO_CTX,
      EBPF_ARGUMENT_TYPE_PTR_TO_MAP_VALUE,
      EBPF_ARGUMENT_TYPE_ANYTHING]
     False None"

definition bpf_sk_storage_delete_proto :: EbpfHelperPrototype where [proto_defs]:
  "bpf_sk_storage_delete_proto = mk_proto ''sk_storage_delete''
     EBPF_RETURN_TYPE_INTEGER
     [EBPF_ARGUMENT_TYPE_PTR_TO_MAP,
      EBPF_ARGUMENT_TYPE_PTR_TO_BTF_ID_SOCK_COMMON]
     False None"

definition bpf_send_signal_proto :: EbpfHelperPrototype where [proto_defs]:
  "bpf_send_signal_proto = mk_proto ''send_signal''
     EBPF_RETURN_TYPE_INTEGER
     [EBPF_ARGUMENT_TYPE_ANYTHING]
     False None"

definition bpf_send_signal_thread_proto :: EbpfHelperPrototype where [proto_defs]:
  "bpf_send_signal_thread_proto = mk_proto ''send_signal_thread''
     EBPF_RETURN_TYPE_INTEGER
     [EBPF_ARGUMENT_TYPE_ANYTHING]
     False None"

definition bpf_tcp_gen_syncookie_proto :: EbpfHelperPrototype where [proto_defs]:
  "bpf_tcp_gen_syncookie_proto = mk_proto ''tcp_gen_syncookie''
     EBPF_RETURN_TYPE_INTEGER
     [EBPF_ARGUMENT_TYPE_PTR_TO_BTF_ID_SOCK_COMMON,
      EBPF_ARGUMENT_TYPE_PTR_TO_READABLE_MEM,
      EBPF_ARGUMENT_TYPE_CONST_SIZE,
      EBPF_ARGUMENT_TYPE_PTR_TO_READABLE_MEM,
      EBPF_ARGUMENT_TYPE_CONST_SIZE]
     False None"

definition bpf_skb_output_proto :: EbpfHelperPrototype where [proto_defs]:
  "bpf_skb_output_proto = mk_proto ''skb_event_output''
     EBPF_RETURN_TYPE_INTEGER
     [EBPF_ARGUMENT_TYPE_PTR_TO_BTF_ID,
      EBPF_ARGUMENT_TYPE_PTR_TO_MAP,
      EBPF_ARGUMENT_TYPE_ANYTHING,
      EBPF_ARGUMENT_TYPE_PTR_TO_READABLE_MEM,
      EBPF_ARGUMENT_TYPE_CONST_SIZE_OR_ZERO]
     False None"

definition bpf_probe_read_user_proto :: EbpfHelperPrototype where [proto_defs]:
  "bpf_probe_read_user_proto = mk_proto ''probe_read_user''
     EBPF_RETURN_TYPE_INTEGER
     [EBPF_ARGUMENT_TYPE_PTR_TO_WRITABLE_MEM,
      EBPF_ARGUMENT_TYPE_CONST_SIZE_OR_ZERO,
      EBPF_ARGUMENT_TYPE_ANYTHING]
     False None"

definition bpf_probe_read_user_str_proto :: EbpfHelperPrototype where [proto_defs]:
  "bpf_probe_read_user_str_proto = mk_proto ''probe_read_user_str''
     EBPF_RETURN_TYPE_INTEGER
     [EBPF_ARGUMENT_TYPE_PTR_TO_WRITABLE_MEM,
      EBPF_ARGUMENT_TYPE_CONST_SIZE_OR_ZERO,
      EBPF_ARGUMENT_TYPE_ANYTHING]
     False None"

definition bpf_probe_read_kernel_proto :: EbpfHelperPrototype where [proto_defs]:
  "bpf_probe_read_kernel_proto = mk_proto ''probe_read_kernel''
     EBPF_RETURN_TYPE_INTEGER
     [EBPF_ARGUMENT_TYPE_PTR_TO_WRITABLE_MEM,
      EBPF_ARGUMENT_TYPE_CONST_SIZE_OR_ZERO,
      EBPF_ARGUMENT_TYPE_ANYTHING]
     False None"

definition bpf_probe_read_kernel_str_proto :: EbpfHelperPrototype where [proto_defs]:
  "bpf_probe_read_kernel_str_proto = mk_proto ''probe_read_kernel_str''
     EBPF_RETURN_TYPE_INTEGER
     [EBPF_ARGUMENT_TYPE_PTR_TO_WRITABLE_MEM,
      EBPF_ARGUMENT_TYPE_CONST_SIZE_OR_ZERO,
      EBPF_ARGUMENT_TYPE_ANYTHING]
     False None"

definition bpf_tcp_send_ack_proto :: EbpfHelperPrototype where [proto_defs]:
  "bpf_tcp_send_ack_proto = mk_proto ''tcp_send_ack''
     EBPF_RETURN_TYPE_INTEGER
     [EBPF_ARGUMENT_TYPE_PTR_TO_BTF_ID,
      EBPF_ARGUMENT_TYPE_ANYTHING]
     False None"

definition bpf_read_branch_records_proto :: EbpfHelperPrototype where [proto_defs]:
  "bpf_read_branch_records_proto = mk_proto ''read_branch_records''
     EBPF_RETURN_TYPE_INTEGER
     [EBPF_ARGUMENT_TYPE_PTR_TO_CTX,
      EBPF_ARGUMENT_TYPE_PTR_TO_READABLE_MEM_OR_NULL,
      EBPF_ARGUMENT_TYPE_CONST_SIZE_OR_ZERO,
      EBPF_ARGUMENT_TYPE_ANYTHING]
     False None"

definition bpf_get_ns_current_pid_tgid_proto :: EbpfHelperPrototype where [proto_defs]:
  "bpf_get_ns_current_pid_tgid_proto = mk_proto ''get_ns_current_pid_tgid''
     EBPF_RETURN_TYPE_INTEGER
     [EBPF_ARGUMENT_TYPE_ANYTHING,
      EBPF_ARGUMENT_TYPE_ANYTHING,
      EBPF_ARGUMENT_TYPE_PTR_TO_WRITABLE_MEM,
      EBPF_ARGUMENT_TYPE_CONST_SIZE]
     False None"

definition bpf_xdp_output_proto :: EbpfHelperPrototype where [proto_defs]:
  "bpf_xdp_output_proto = mk_proto ''xdp_event_output''
     EBPF_RETURN_TYPE_INTEGER
     [EBPF_ARGUMENT_TYPE_PTR_TO_BTF_ID,
      EBPF_ARGUMENT_TYPE_PTR_TO_MAP,
      EBPF_ARGUMENT_TYPE_ANYTHING,
      EBPF_ARGUMENT_TYPE_PTR_TO_READABLE_MEM,
      EBPF_ARGUMENT_TYPE_CONST_SIZE_OR_ZERO]
     False None"

definition bpf_get_netns_cookie_sock_proto :: EbpfHelperPrototype where [proto_defs]:
  "bpf_get_netns_cookie_sock_proto = mk_proto ''get_netns_cookie_sock''
     EBPF_RETURN_TYPE_INTEGER
     [EBPF_ARGUMENT_TYPE_PTR_TO_CTX]
     False None"

definition bpf_get_netns_cookie_sock_addr_proto :: EbpfHelperPrototype where [proto_defs]:
  "bpf_get_netns_cookie_sock_addr_proto = mk_proto ''get_netns_cookie_sock_addr''
     EBPF_RETURN_TYPE_INTEGER
     [EBPF_ARGUMENT_TYPE_PTR_TO_CTX]
     False None"

definition bpf_sk_assign_proto :: EbpfHelperPrototype where [proto_defs]:
  "bpf_sk_assign_proto = mk_proto ''get_netns_cookie_sock''
     EBPF_RETURN_TYPE_INTEGER
     [EBPF_ARGUMENT_TYPE_PTR_TO_CTX,
      EBPF_ARGUMENT_TYPE_PTR_TO_BTF_ID_SOCK_COMMON,
      EBPF_ARGUMENT_TYPE_ANYTHING]
     False None"

definition bpf_ktime_get_boot_ns_proto :: EbpfHelperPrototype where [proto_defs]:
  "bpf_ktime_get_boot_ns_proto = mk_proto ''ktime_get_boot_ns''
     EBPF_RETURN_TYPE_INTEGER
     []
     False None"

definition bpf_seq_printf_proto :: EbpfHelperPrototype where [proto_defs]:
  "bpf_seq_printf_proto = mk_proto ''seq_printf''
     EBPF_RETURN_TYPE_INTEGER
     [EBPF_ARGUMENT_TYPE_PTR_TO_BTF_ID,
      EBPF_ARGUMENT_TYPE_PTR_TO_READABLE_MEM,
      EBPF_ARGUMENT_TYPE_CONST_SIZE,
      EBPF_ARGUMENT_TYPE_PTR_TO_READABLE_MEM_OR_NULL,
      EBPF_ARGUMENT_TYPE_CONST_SIZE_OR_ZERO]
     False None"

definition bpf_seq_write_proto :: EbpfHelperPrototype where [proto_defs]:
  "bpf_seq_write_proto = mk_proto ''seq_write''
     EBPF_RETURN_TYPE_INTEGER
     [EBPF_ARGUMENT_TYPE_PTR_TO_BTF_ID,
      EBPF_ARGUMENT_TYPE_PTR_TO_READABLE_MEM,
      EBPF_ARGUMENT_TYPE_CONST_SIZE_OR_ZERO]
     False None"

definition bpf_sk_cgroup_id_proto :: EbpfHelperPrototype where [proto_defs]:
  "bpf_sk_cgroup_id_proto = mk_proto ''sk_cgroup_id''
     EBPF_RETURN_TYPE_INTEGER
     [EBPF_ARGUMENT_TYPE_PTR_TO_BTF_ID_SOCK_COMMON]
     False None"

definition bpf_sk_ancestor_cgroup_id_proto :: EbpfHelperPrototype where [proto_defs]:
  "bpf_sk_ancestor_cgroup_id_proto = mk_proto ''sk_ancestor_cgroup_id''
     EBPF_RETURN_TYPE_INTEGER
     [EBPF_ARGUMENT_TYPE_PTR_TO_BTF_ID_SOCK_COMMON,
      EBPF_ARGUMENT_TYPE_ANYTHING]
     False None"

definition bpf_ringbuf_reserve_proto :: EbpfHelperPrototype where [proto_defs]:
  "bpf_ringbuf_reserve_proto = mk_proto ''ringbuf_reserve''
     EBPF_RETURN_TYPE_PTR_TO_ALLOC_MEM_OR_NULL
     [EBPF_ARGUMENT_TYPE_PTR_TO_MAP,
      EBPF_ARGUMENT_TYPE_CONST_ALLOC_SIZE_OR_ZERO,
      EBPF_ARGUMENT_TYPE_ANYTHING]
     False None"

definition bpf_ringbuf_submit_proto :: EbpfHelperPrototype where [proto_defs]:
  "bpf_ringbuf_submit_proto = mk_proto ''ringbuf_submit''
     EBPF_RETURN_TYPE_INTEGER
     [EBPF_ARGUMENT_TYPE_PTR_TO_ALLOC_MEM,
      EBPF_ARGUMENT_TYPE_ANYTHING]
     False None"

definition bpf_ringbuf_discard_proto :: EbpfHelperPrototype where [proto_defs]:
  "bpf_ringbuf_discard_proto = mk_proto ''ringbuf_discard''
     EBPF_RETURN_TYPE_INTEGER
     [EBPF_ARGUMENT_TYPE_PTR_TO_ALLOC_MEM,
      EBPF_ARGUMENT_TYPE_ANYTHING]
     False None"

definition bpf_ringbuf_output_proto :: EbpfHelperPrototype where [proto_defs]:
  "bpf_ringbuf_output_proto = mk_proto ''ringbuf_output''
     EBPF_RETURN_TYPE_INTEGER
     [EBPF_ARGUMENT_TYPE_PTR_TO_MAP,
      EBPF_ARGUMENT_TYPE_PTR_TO_READABLE_MEM,
      EBPF_ARGUMENT_TYPE_CONST_SIZE_OR_ZERO,
      EBPF_ARGUMENT_TYPE_ANYTHING]
     False None"

definition bpf_ringbuf_query_proto :: EbpfHelperPrototype where [proto_defs]:
  "bpf_ringbuf_query_proto = mk_proto ''ringbuf_query''
     EBPF_RETURN_TYPE_INTEGER
     [EBPF_ARGUMENT_TYPE_PTR_TO_MAP,
      EBPF_ARGUMENT_TYPE_ANYTHING]
     False None"

definition bpf_csum_level_proto :: EbpfHelperPrototype where [proto_defs]:
  "bpf_csum_level_proto = mk_proto ''csum_level''
     EBPF_RETURN_TYPE_INTEGER
     [EBPF_ARGUMENT_TYPE_PTR_TO_CTX,
      EBPF_ARGUMENT_TYPE_ANYTHING]
     False None"

definition bpf_skc_to_tcp6_sock_proto :: EbpfHelperPrototype where [proto_defs]:
  "bpf_skc_to_tcp6_sock_proto = mk_proto ''skc_to_tcp6_sock''
     EBPF_RETURN_TYPE_PTR_TO_BTF_ID_OR_NULL
     [EBPF_ARGUMENT_TYPE_PTR_TO_BTF_ID_SOCK_COMMON]
     False None"

definition bpf_skc_to_tcp_sock_proto :: EbpfHelperPrototype where [proto_defs]:
  "bpf_skc_to_tcp_sock_proto = mk_proto ''skc_to_tcp_sock''
     EBPF_RETURN_TYPE_PTR_TO_BTF_ID_OR_NULL
     [EBPF_ARGUMENT_TYPE_PTR_TO_BTF_ID_SOCK_COMMON]
     False None"

definition bpf_skc_to_tcp_timewait_sock_proto :: EbpfHelperPrototype where [proto_defs]:
  "bpf_skc_to_tcp_timewait_sock_proto = mk_proto ''skc_to_tcp_timewait_sock''
     EBPF_RETURN_TYPE_PTR_TO_BTF_ID_OR_NULL
     [EBPF_ARGUMENT_TYPE_PTR_TO_BTF_ID_SOCK_COMMON]
     False None"

definition bpf_skc_to_tcp_request_sock_proto :: EbpfHelperPrototype where [proto_defs]:
  "bpf_skc_to_tcp_request_sock_proto = mk_proto ''skc_to_tcp_request_sock''
     EBPF_RETURN_TYPE_PTR_TO_BTF_ID_OR_NULL
     [EBPF_ARGUMENT_TYPE_PTR_TO_BTF_ID_SOCK_COMMON]
     False None"

definition bpf_skc_to_udp6_sock_proto :: EbpfHelperPrototype where [proto_defs]:
  "bpf_skc_to_udp6_sock_proto = mk_proto ''skc_to_udp6_sock''
     EBPF_RETURN_TYPE_PTR_TO_BTF_ID_OR_NULL
     [EBPF_ARGUMENT_TYPE_PTR_TO_BTF_ID_SOCK_COMMON]
     False None"

definition bpf_sock_from_file_proto :: EbpfHelperPrototype where [proto_defs]:
  "bpf_sock_from_file_proto = mk_proto ''sock_from_file''
     EBPF_RETURN_TYPE_PTR_TO_BTF_ID_OR_NULL
     [EBPF_ARGUMENT_TYPE_PTR_TO_BTF_ID]
     False None"

definition bpf_get_task_stack_proto :: EbpfHelperPrototype where [proto_defs]:
  "bpf_get_task_stack_proto = mk_proto ''get_task_stack''
     EBPF_RETURN_TYPE_INTEGER
     [EBPF_ARGUMENT_TYPE_PTR_TO_BTF_ID,
      EBPF_ARGUMENT_TYPE_PTR_TO_WRITABLE_MEM,
      EBPF_ARGUMENT_TYPE_CONST_SIZE_OR_ZERO,
      EBPF_ARGUMENT_TYPE_ANYTHING]
     False None"

definition bpf_sock_ops_load_hdr_opt_proto :: EbpfHelperPrototype where [proto_defs]:
  "bpf_sock_ops_load_hdr_opt_proto = mk_proto ''sock_ops_load_hdr_opt''
     EBPF_RETURN_TYPE_INTEGER
     [EBPF_ARGUMENT_TYPE_PTR_TO_CTX,
      EBPF_ARGUMENT_TYPE_PTR_TO_READABLE_MEM,
      EBPF_ARGUMENT_TYPE_CONST_SIZE,
      EBPF_ARGUMENT_TYPE_ANYTHING]
     False None"

definition bpf_sock_ops_store_hdr_opt_proto :: EbpfHelperPrototype where [proto_defs]:
  "bpf_sock_ops_store_hdr_opt_proto = mk_proto ''sock_ops_store_hdr_opt''
     EBPF_RETURN_TYPE_INTEGER
     [EBPF_ARGUMENT_TYPE_PTR_TO_CTX,
      EBPF_ARGUMENT_TYPE_PTR_TO_READABLE_MEM,
      EBPF_ARGUMENT_TYPE_CONST_SIZE,
      EBPF_ARGUMENT_TYPE_ANYTHING]
     False None"

definition bpf_sock_ops_reserve_hdr_opt_proto :: EbpfHelperPrototype where [proto_defs]:
  "bpf_sock_ops_reserve_hdr_opt_proto = mk_proto ''sock_ops_reserve_hdr_opt''
     EBPF_RETURN_TYPE_INTEGER
     [EBPF_ARGUMENT_TYPE_PTR_TO_CTX,
      EBPF_ARGUMENT_TYPE_ANYTHING,
      EBPF_ARGUMENT_TYPE_ANYTHING]
     False None"

definition bpf_inode_storage_get_proto :: EbpfHelperPrototype where [proto_defs]:
  "bpf_inode_storage_get_proto = mk_proto ''inode_storage_get''
     EBPF_RETURN_TYPE_PTR_TO_MAP_VALUE_OR_NULL
     [EBPF_ARGUMENT_TYPE_PTR_TO_MAP,
      EBPF_ARGUMENT_TYPE_PTR_TO_BTF_ID,
      EBPF_ARGUMENT_TYPE_PTR_TO_MAP_VALUE_OR_NULL,
      EBPF_ARGUMENT_TYPE_ANYTHING]
     False None"

definition bpf_inode_storage_delete_proto :: EbpfHelperPrototype where [proto_defs]:
  "bpf_inode_storage_delete_proto = mk_proto ''inode_storage_delete''
     EBPF_RETURN_TYPE_INTEGER
     [EBPF_ARGUMENT_TYPE_PTR_TO_MAP,
      EBPF_ARGUMENT_TYPE_PTR_TO_BTF_ID]
     False None"

definition bpf_d_path_proto :: EbpfHelperPrototype where [proto_defs]:
  "bpf_d_path_proto = mk_proto ''d_path''
     EBPF_RETURN_TYPE_INTEGER
     [EBPF_ARGUMENT_TYPE_PTR_TO_BTF_ID,
      EBPF_ARGUMENT_TYPE_PTR_TO_READABLE_MEM,
      EBPF_ARGUMENT_TYPE_CONST_SIZE_OR_ZERO]
     False None"

definition bpf_copy_from_user_proto :: EbpfHelperPrototype where [proto_defs]:
  "bpf_copy_from_user_proto = mk_proto ''copy_from_user''
     EBPF_RETURN_TYPE_INTEGER
     [EBPF_ARGUMENT_TYPE_PTR_TO_WRITABLE_MEM,
      EBPF_ARGUMENT_TYPE_CONST_SIZE_OR_ZERO,
      EBPF_ARGUMENT_TYPE_ANYTHING]
     False None"

definition bpf_per_cpu_ptr_proto :: EbpfHelperPrototype where [proto_defs]:
  "bpf_per_cpu_ptr_proto = mk_proto ''per_cpu_ptr''
     EBPF_RETURN_TYPE_PTR_TO_MEM_OR_BTF_ID_OR_NULL
     [EBPF_ARGUMENT_TYPE_PTR_TO_PERCPU_BTF_ID,
      EBPF_ARGUMENT_TYPE_ANYTHING]
     False None"

definition bpf_this_cpu_ptr_proto :: EbpfHelperPrototype where [proto_defs]:
  "bpf_this_cpu_ptr_proto = mk_proto ''this_cpu_ptr''
     EBPF_RETURN_TYPE_PTR_TO_MEM_OR_BTF_ID
     [EBPF_ARGUMENT_TYPE_PTR_TO_PERCPU_BTF_ID]
     False None"

definition bpf_snprintf_btf_proto :: EbpfHelperPrototype where [proto_defs]:
  "bpf_snprintf_btf_proto = mk_proto ''snprintf_btf''
     EBPF_RETURN_TYPE_INTEGER
     [EBPF_ARGUMENT_TYPE_PTR_TO_READABLE_MEM,
      EBPF_ARGUMENT_TYPE_CONST_SIZE,
      EBPF_ARGUMENT_TYPE_PTR_TO_READABLE_MEM,
      EBPF_ARGUMENT_TYPE_CONST_SIZE,
      EBPF_ARGUMENT_TYPE_ANYTHING]
     False None"

definition bpf_seq_printf_btf_proto :: EbpfHelperPrototype where [proto_defs]:
  "bpf_seq_printf_btf_proto = mk_proto ''seq_printf_btf''
     EBPF_RETURN_TYPE_INTEGER
     [EBPF_ARGUMENT_TYPE_PTR_TO_BTF_ID,
      EBPF_ARGUMENT_TYPE_PTR_TO_READABLE_MEM,
      EBPF_ARGUMENT_TYPE_CONST_SIZE_OR_ZERO,
      EBPF_ARGUMENT_TYPE_ANYTHING]
     False None"

definition bpf_skb_cgroup_classid_proto :: EbpfHelperPrototype where [proto_defs]:
  "bpf_skb_cgroup_classid_proto = mk_proto ''skb_cgroup_classid''
     EBPF_RETURN_TYPE_INTEGER
     [EBPF_ARGUMENT_TYPE_PTR_TO_CTX]
     False None"

definition bpf_redirect_neigh_proto :: EbpfHelperPrototype where [proto_defs]:
  "bpf_redirect_neigh_proto = mk_proto ''redirect_neigh''
     EBPF_RETURN_TYPE_INTEGER
     [EBPF_ARGUMENT_TYPE_ANYTHING,
      EBPF_ARGUMENT_TYPE_PTR_TO_READABLE_MEM_OR_NULL,
      EBPF_ARGUMENT_TYPE_CONST_SIZE_OR_ZERO,
      EBPF_ARGUMENT_TYPE_ANYTHING]
     False None"

definition bpf_redirect_peer_proto :: EbpfHelperPrototype where [proto_defs]:
  "bpf_redirect_peer_proto = mk_proto ''redirect_peer''
     EBPF_RETURN_TYPE_INTEGER
     [EBPF_ARGUMENT_TYPE_ANYTHING,
      EBPF_ARGUMENT_TYPE_ANYTHING]
     False None"

definition bpf_task_storage_get_proto :: EbpfHelperPrototype where [proto_defs]:
  "bpf_task_storage_get_proto = mk_proto ''task_storage_get''
     EBPF_RETURN_TYPE_PTR_TO_MAP_VALUE_OR_NULL
     [EBPF_ARGUMENT_TYPE_PTR_TO_MAP,
      EBPF_ARGUMENT_TYPE_PTR_TO_BTF_ID,
      EBPF_ARGUMENT_TYPE_PTR_TO_MAP_VALUE,
      EBPF_ARGUMENT_TYPE_ANYTHING]
     False None"

definition bpf_task_storage_delete_proto :: EbpfHelperPrototype where [proto_defs]:
  "bpf_task_storage_delete_proto = mk_proto ''task_storage_delete''
     EBPF_RETURN_TYPE_INTEGER
     [EBPF_ARGUMENT_TYPE_PTR_TO_MAP,
      EBPF_ARGUMENT_TYPE_PTR_TO_BTF_ID]
     False None"

definition bpf_get_current_task_btf_proto :: EbpfHelperPrototype where [proto_defs]:
  "bpf_get_current_task_btf_proto = mk_proto ''get_current_task_btf''
     EBPF_RETURN_TYPE_PTR_TO_BTF_ID
     []
     False None"

definition bpf_bprm_opts_set_proto :: EbpfHelperPrototype where [proto_defs]:
  "bpf_bprm_opts_set_proto = mk_proto ''bprm_opts_set''
     EBPF_RETURN_TYPE_INTEGER
     [EBPF_ARGUMENT_TYPE_PTR_TO_BTF_ID,
      EBPF_ARGUMENT_TYPE_ANYTHING]
     False None"

definition bpf_ima_inode_hash_proto :: EbpfHelperPrototype where [proto_defs]:
  "bpf_ima_inode_hash_proto = mk_proto ''ima_inode_hash''
     EBPF_RETURN_TYPE_INTEGER
     [EBPF_ARGUMENT_TYPE_PTR_TO_BTF_ID,
      EBPF_ARGUMENT_TYPE_PTR_TO_WRITABLE_MEM,
      EBPF_ARGUMENT_TYPE_CONST_SIZE]
     False None"

definition bpf_ktime_get_coarse_ns_proto :: EbpfHelperPrototype where [proto_defs]:
  "bpf_ktime_get_coarse_ns_proto = mk_proto ''ktime_get_coarse_ns''
     EBPF_RETURN_TYPE_INTEGER
     []
     False None"

definition bpf_check_mtu_proto :: EbpfHelperPrototype where [proto_defs]:
  "bpf_check_mtu_proto = mk_proto ''check_mtu''
     EBPF_RETURN_TYPE_INTEGER
     [EBPF_ARGUMENT_TYPE_PTR_TO_CTX,
      EBPF_ARGUMENT_TYPE_ANYTHING,
      EBPF_ARGUMENT_TYPE_PTR_TO_INT,
      EBPF_ARGUMENT_TYPE_ANYTHING,
      EBPF_ARGUMENT_TYPE_ANYTHING]
     False None"

definition bpf_for_each_map_elem_proto :: EbpfHelperPrototype where [proto_defs]:
  "bpf_for_each_map_elem_proto = mk_proto ''for_each_map_elem''
     EBPF_RETURN_TYPE_INTEGER
     [EBPF_ARGUMENT_TYPE_PTR_TO_MAP,
      EBPF_ARGUMENT_TYPE_PTR_TO_FUNC,
      EBPF_ARGUMENT_TYPE_PTR_TO_STACK_OR_NULL,
      EBPF_ARGUMENT_TYPE_ANYTHING]
     False None"

definition bpf_snprintf_proto :: EbpfHelperPrototype where [proto_defs]:
  "bpf_snprintf_proto = mk_proto ''snprintf''
     EBPF_RETURN_TYPE_INTEGER
     [EBPF_ARGUMENT_TYPE_PTR_TO_READABLE_MEM_OR_NULL,
      EBPF_ARGUMENT_TYPE_CONST_SIZE_OR_ZERO,
      EBPF_ARGUMENT_TYPE_PTR_TO_CONST_STR,
      EBPF_ARGUMENT_TYPE_PTR_TO_READABLE_MEM_OR_NULL,
      EBPF_ARGUMENT_TYPE_CONST_SIZE_OR_ZERO]
     False None"

definition bpf_sys_bpf_proto :: EbpfHelperPrototype where [proto_defs]:
  "bpf_sys_bpf_proto = mk_proto ''sys_bpf''
     EBPF_RETURN_TYPE_INTEGER
     [EBPF_ARGUMENT_TYPE_ANYTHING,
      EBPF_ARGUMENT_TYPE_PTR_TO_READABLE_MEM,
      EBPF_ARGUMENT_TYPE_CONST_SIZE]
     False None"

definition bpf_btf_find_by_name_kind_proto :: EbpfHelperPrototype where [proto_defs]:
  "bpf_btf_find_by_name_kind_proto = mk_proto ''btf_find_by_name_kind''
     EBPF_RETURN_TYPE_INTEGER
     [EBPF_ARGUMENT_TYPE_PTR_TO_READABLE_MEM,
      EBPF_ARGUMENT_TYPE_CONST_SIZE,
      EBPF_ARGUMENT_TYPE_ANYTHING,
      EBPF_ARGUMENT_TYPE_ANYTHING]
     False None"

definition bpf_sys_close_proto :: EbpfHelperPrototype where [proto_defs]:
  "bpf_sys_close_proto = mk_proto ''sys_close''
     EBPF_RETURN_TYPE_INTEGER
     [EBPF_ARGUMENT_TYPE_ANYTHING]
     False None"

definition bpf_kallsyms_lookup_name_proto :: EbpfHelperPrototype where [proto_defs]:
  "bpf_kallsyms_lookup_name_proto = mk_proto ''kallsyms_lookup_name''
     EBPF_RETURN_TYPE_INTEGER
     [EBPF_ARGUMENT_TYPE_PTR_TO_READABLE_MEM,
      EBPF_ARGUMENT_TYPE_CONST_SIZE_OR_ZERO,
      EBPF_ARGUMENT_TYPE_ANYTHING,
      EBPF_ARGUMENT_TYPE_PTR_TO_LONG]
     False None"

definition bpf_timer_init_proto :: EbpfHelperPrototype where [proto_defs]:
  "bpf_timer_init_proto = mk_proto ''timer_init''
     EBPF_RETURN_TYPE_INTEGER
     [EBPF_ARGUMENT_TYPE_PTR_TO_TIMER,
      EBPF_ARGUMENT_TYPE_PTR_TO_MAP,
      EBPF_ARGUMENT_TYPE_ANYTHING]
     False None"

definition bpf_timer_set_callback_proto :: EbpfHelperPrototype where [proto_defs]:
  "bpf_timer_set_callback_proto = mk_proto ''timer_set_callback''
     EBPF_RETURN_TYPE_INTEGER
     [EBPF_ARGUMENT_TYPE_PTR_TO_TIMER,
      EBPF_ARGUMENT_TYPE_PTR_TO_FUNC]
     False None"

definition bpf_timer_start_proto :: EbpfHelperPrototype where [proto_defs]:
  "bpf_timer_start_proto = mk_proto ''timer_start''
     EBPF_RETURN_TYPE_INTEGER
     [EBPF_ARGUMENT_TYPE_PTR_TO_TIMER,
      EBPF_ARGUMENT_TYPE_ANYTHING,
      EBPF_ARGUMENT_TYPE_ANYTHING]
     False None"

definition bpf_timer_cancel_proto :: EbpfHelperPrototype where [proto_defs]:
  "bpf_timer_cancel_proto = mk_proto ''timer_cancel''
     EBPF_RETURN_TYPE_INTEGER
     [EBPF_ARGUMENT_TYPE_PTR_TO_TIMER]
     False None"

definition bpf_get_func_ip_proto :: EbpfHelperPrototype where [proto_defs]:
  "bpf_get_func_ip_proto = mk_proto ''get_func_ip''
     EBPF_RETURN_TYPE_INTEGER
     [EBPF_ARGUMENT_TYPE_PTR_TO_CTX]
     False None"

definition bpf_get_attach_cookie_proto :: EbpfHelperPrototype where [proto_defs]:
  "bpf_get_attach_cookie_proto = mk_proto ''get_attach_cookie''
     EBPF_RETURN_TYPE_INTEGER
     [EBPF_ARGUMENT_TYPE_PTR_TO_CTX]
     False None"

definition bpf_task_pt_regs_proto :: EbpfHelperPrototype where [proto_defs]:
  "bpf_task_pt_regs_proto = mk_proto ''task_pt_regs''
     EBPF_RETURN_TYPE_PTR_TO_BTF_ID
     [EBPF_ARGUMENT_TYPE_PTR_TO_BTF_ID]
     False None"

definition bpf_get_branch_snapshot_proto :: EbpfHelperPrototype where [proto_defs]:
  "bpf_get_branch_snapshot_proto = mk_proto ''get_branch_snapshot''
     EBPF_RETURN_TYPE_INTEGER
     [EBPF_ARGUMENT_TYPE_PTR_TO_WRITABLE_MEM,
      EBPF_ARGUMENT_TYPE_CONST_SIZE_OR_ZERO]
     False None"

definition bpf_get_func_arg_proto :: EbpfHelperPrototype where [proto_defs]:
  "bpf_get_func_arg_proto = mk_proto ''get_func_arg''
     EBPF_RETURN_TYPE_INTEGER
     [EBPF_ARGUMENT_TYPE_PTR_TO_CTX,
      EBPF_ARGUMENT_TYPE_ANYTHING,
      EBPF_ARGUMENT_TYPE_PTR_TO_LONG]
     False None"

definition bpf_get_func_ret_proto :: EbpfHelperPrototype where [proto_defs]:
  "bpf_get_func_ret_proto = mk_proto ''get_func_ret''
     EBPF_RETURN_TYPE_INTEGER
     [EBPF_ARGUMENT_TYPE_PTR_TO_CTX,
      EBPF_ARGUMENT_TYPE_PTR_TO_LONG]
     False None"

definition bpf_get_func_arg_cnt_proto :: EbpfHelperPrototype where [proto_defs]:
  "bpf_get_func_arg_cnt_proto = mk_proto ''get_func_arg_cnt''
     EBPF_RETURN_TYPE_INTEGER
     [EBPF_ARGUMENT_TYPE_PTR_TO_CTX]
     False None"

definition bpf_trace_vprintk_proto :: EbpfHelperPrototype where [proto_defs]:
  "bpf_trace_vprintk_proto = mk_proto ''trace_vprintk''
     EBPF_RETURN_TYPE_INTEGER
     [EBPF_ARGUMENT_TYPE_PTR_TO_READABLE_MEM,
      EBPF_ARGUMENT_TYPE_CONST_SIZE,
      EBPF_ARGUMENT_TYPE_PTR_TO_READABLE_MEM_OR_NULL,
      EBPF_ARGUMENT_TYPE_CONST_SIZE_OR_ZERO]
     False None"

definition bpf_skc_to_unix_sock_proto :: EbpfHelperPrototype where [proto_defs]:
  "bpf_skc_to_unix_sock_proto = mk_proto ''skc_to_unix_sock''
     EBPF_RETURN_TYPE_PTR_TO_BTF_ID_OR_NULL
     [EBPF_ARGUMENT_TYPE_PTR_TO_BTF_ID_SOCK_COMMON]
     False None"

definition bpf_find_vma_proto :: EbpfHelperPrototype where [proto_defs]:
  "bpf_find_vma_proto = mk_proto ''find_vma''
     EBPF_RETURN_TYPE_INTEGER
     [EBPF_ARGUMENT_TYPE_PTR_TO_BTF_ID,
      EBPF_ARGUMENT_TYPE_ANYTHING,
      EBPF_ARGUMENT_TYPE_PTR_TO_FUNC,
      EBPF_ARGUMENT_TYPE_PTR_TO_STACK_OR_NULL,
      EBPF_ARGUMENT_TYPE_ANYTHING]
     False None"

definition bpf_loop_proto :: EbpfHelperPrototype where [proto_defs]:
  "bpf_loop_proto = mk_proto ''loop''
     EBPF_RETURN_TYPE_INTEGER
     [EBPF_ARGUMENT_TYPE_ANYTHING,
      EBPF_ARGUMENT_TYPE_PTR_TO_FUNC,
      EBPF_ARGUMENT_TYPE_PTR_TO_STACK_OR_NULL,
      EBPF_ARGUMENT_TYPE_ANYTHING]
     False None"

section \<open>The table and the lookup functions\<close>

definition prototypes :: "EbpfHelperPrototype list" where
  "prototypes = [
     bpf_unspec_proto,
     bpf_map_lookup_elem_proto,
     bpf_map_update_elem_proto,
     bpf_map_delete_elem_proto,
     bpf_probe_read_proto,
     bpf_ktime_get_ns_proto,
     bpf_trace_printk_proto,
     bpf_get_prandom_u32_proto,
     bpf_get_smp_processor_id_proto,
     bpf_skb_store_bytes_proto,
     bpf_l3_csum_replace_proto,
     bpf_l4_csum_replace_proto,
     bpf_tail_call_proto,
     bpf_clone_redirect_proto,
     bpf_get_current_pid_tgid_proto,
     bpf_get_current_uid_gid_proto,
     bpf_get_current_comm_proto,
     bpf_get_cgroup_classid_proto,
     bpf_skb_vlan_push_proto,
     bpf_skb_vlan_pop_proto,
     bpf_skb_get_tunnel_key_proto,
     bpf_skb_set_tunnel_key_proto,
     bpf_perf_event_read_proto,
     bpf_redirect_proto,
     bpf_get_route_realm_proto,
     bpf_perf_event_output_proto,
     bpf_skb_load_bytes_proto,
     bpf_get_stackid_proto,
     bpf_csum_diff_proto,
     bpf_skb_get_tunnel_opt_proto,
     bpf_skb_set_tunnel_opt_proto,
     bpf_skb_change_proto_proto,
     bpf_skb_change_type_proto,
     bpf_skb_under_cgroup_proto,
     bpf_get_hash_recalc_proto,
     bpf_get_current_task_proto,
     bpf_probe_write_user_proto,
     bpf_current_task_under_cgroup_proto,
     bpf_skb_change_tail_proto,
     bpf_skb_pull_data_proto,
     bpf_csum_update_proto,
     bpf_set_hash_invalid_proto,
     bpf_get_numa_node_id_proto,
     bpf_skb_change_head_proto,
     bpf_xdp_adjust_head_proto,
     bpf_probe_read_str_proto,
     bpf_get_socket_cookie_proto,
     bpf_get_socket_uid_proto,
     bpf_set_hash_proto,
     bpf_setsockopt_proto,
     bpf_skb_adjust_room_proto,
     bpf_redirect_map_proto,
     bpf_sk_redirect_map_proto,
     bpf_sock_map_update_proto,
     bpf_xdp_adjust_meta_proto,
     bpf_perf_event_read_value_proto,
     bpf_perf_prog_read_value_proto,
     bpf_getsockopt_proto,
     bpf_override_return_proto,
     bpf_sock_ops_cb_flags_set_proto,
     bpf_msg_redirect_map_proto,
     bpf_msg_apply_bytes_proto,
     bpf_msg_cork_bytes_proto,
     bpf_msg_pull_data_proto,
     bpf_bind_proto,
     bpf_xdp_adjust_tail_proto,
     bpf_skb_get_xfrm_state_proto,
     bpf_get_stack_proto,
     bpf_skb_load_bytes_relative_proto,
     bpf_fib_lookup_proto,
     bpf_sock_hash_update_proto,
     bpf_msg_redirect_hash_proto,
     bpf_sk_redirect_hash_proto,
     bpf_lwt_push_encap_proto,
     bpf_lwt_seg6_store_bytes_proto,
     bpf_lwt_seg6_adjust_srh_proto,
     bpf_lwt_seg6_action_proto,
     bpf_rc_repeat_proto,
     bpf_rc_keydown_proto,
     bpf_skb_cgroup_id_proto,
     bpf_get_current_cgroup_id_proto,
     bpf_get_local_storage_proto,
     bpf_sk_select_reuseport_proto,
     bpf_get_current_cgroup_id_proto,
     bpf_sk_lookup_tcp_proto,
     bpf_sk_lookup_udp_proto,
     bpf_sk_release_proto,
     bpf_map_push_elem_proto,
     bpf_map_pop_elem_proto,
     bpf_map_peek_elem_proto,
     bpf_msg_push_data_proto,
     bpf_msg_pop_data_proto,
     bpf_rc_pointer_rel_proto,
     bpf_spin_lock_proto,
     bpf_spin_unlock_proto,
     bpf_sk_fullsock_proto,
     bpf_tcp_sock_proto,
     bpf_skb_ecn_set_ce_proto,
     bpf_get_listener_sock_proto,
     bpf_skc_lookup_tcp_proto,
     bpf_tcp_check_syncookie_proto,
     bpf_sysctl_get_name_proto,
     bpf_sysctl_get_current_value_proto,
     bpf_sysctl_get_new_value_proto,
     bpf_sysctl_set_new_value_proto,
     bpf_strtol_proto,
     bpf_strtoul_proto,
     bpf_sk_storage_get_proto,
     bpf_sk_storage_delete_proto,
     bpf_send_signal_proto,
     bpf_tcp_gen_syncookie_proto,
     bpf_skb_output_proto,
     bpf_probe_read_user_proto,
     bpf_probe_read_kernel_proto,
     bpf_probe_read_user_str_proto,
     bpf_probe_read_kernel_str_proto,
     bpf_tcp_send_ack_proto,
     bpf_send_signal_thread_proto,
     bpf_jiffies64_proto,
     bpf_read_branch_records_proto,
     bpf_get_ns_current_pid_tgid_proto,
     bpf_xdp_output_proto,
     bpf_get_netns_cookie_sock_proto,
     bpf_get_current_ancestor_cgroup_id_proto,
     bpf_sk_assign_proto,
     bpf_ktime_get_boot_ns_proto,
     bpf_seq_printf_proto,
     bpf_seq_write_proto,
     bpf_sk_cgroup_id_proto,
     bpf_sk_ancestor_cgroup_id_proto,
     bpf_ringbuf_output_proto,
     bpf_ringbuf_reserve_proto,
     bpf_ringbuf_submit_proto,
     bpf_ringbuf_discard_proto,
     bpf_ringbuf_query_proto,
     bpf_csum_level_proto,
     bpf_skc_to_tcp6_sock_proto,
     bpf_skc_to_tcp_sock_proto,
     bpf_skc_to_tcp_timewait_sock_proto,
     bpf_skc_to_tcp_request_sock_proto,
     bpf_skc_to_udp6_sock_proto,
     bpf_get_task_stack_proto,
     bpf_sock_ops_load_hdr_opt_proto,
     bpf_sock_ops_store_hdr_opt_proto,
     bpf_sock_ops_reserve_hdr_opt_proto,
     bpf_inode_storage_get_proto,
     bpf_inode_storage_delete_proto,
     bpf_d_path_proto,
     bpf_copy_from_user_proto,
     bpf_snprintf_btf_proto,
     bpf_seq_printf_btf_proto,
     bpf_skb_cgroup_classid_proto,
     bpf_redirect_neigh_proto,
     bpf_per_cpu_ptr_proto,
     bpf_this_cpu_ptr_proto,
     bpf_redirect_peer_proto,
     bpf_task_storage_get_proto,
     bpf_task_storage_delete_proto,
     bpf_get_current_task_btf_proto,
     bpf_bprm_opts_set_proto,
     bpf_ktime_get_coarse_ns_proto,
     bpf_ima_inode_hash_proto,
     bpf_sock_from_file_proto,
     bpf_check_mtu_proto,
     bpf_for_each_map_elem_proto,
     bpf_snprintf_proto,
     bpf_sys_bpf_proto,
     bpf_btf_find_by_name_kind_proto,
     bpf_sys_close_proto,
     bpf_timer_init_proto,
     bpf_timer_set_callback_proto,
     bpf_timer_start_proto,
     bpf_timer_cancel_proto,
     bpf_get_func_ip_proto,
     bpf_get_attach_cookie_proto,
     bpf_task_pt_regs_proto,
     bpf_get_branch_snapshot_proto,
     bpf_trace_vprintk_proto,
     bpf_skc_to_unix_sock_proto,
     bpf_kallsyms_lookup_name_proto,
     bpf_find_vma_proto,
     bpf_loop_proto,
     bpf_strncmp_proto,
     bpf_get_func_arg_proto,
     bpf_get_func_ret_proto,
     bpf_get_func_arg_cnt_proto]"

definition is_helper_usable_linux :: "EbpfProgramType \<Rightarrow> i32 \<Rightarrow> bool" where
  "is_helper_usable_linux ty n \<longleftrightarrow>
     \<not> (int (length prototypes) \<le> sint n \<or> sint n < 0) \<and>
     (let p = prototypes ! nat (sint n) in
      proto_context_descriptor p = None \<or> proto_context_descriptor p = pt_context_descriptor ty)"

definition get_helper_prototype_linux :: "EbpfProgramType \<Rightarrow> i32 \<Rightarrow> EbpfHelperPrototype res" where
  "get_helper_prototype_linux ty n =
     (if \<not> is_helper_usable_linux ty n then Inl StdException else Inr (prototypes ! nat (sint n)))"

section \<open>Consistency of the table\<close>

lemma length_prototypes: "length prototypes = 186"
  by (simp add: prototypes_def)

lemma zero_fill_eval:
  "length (zero_fill args) = 5"
  "zero_fill [] = replicate 5 EBPF_ARGUMENT_TYPE_DONTCARE"
  by (simp_all add: zero_fill_def)

definition proto_sane :: "EbpfHelperPrototype \<Rightarrow> bool" where
  "proto_sane p \<longleftrightarrow> length (proto_argument_type p) = 5 \<and> args_sane (proto_argument_type p)"

lemma mk_proto_sane: "proto_sane (mk_proto name ret args realloc ctx) \<longleftrightarrow> args_sane (zero_fill args)"
  by (simp add: proto_sane_def mk_proto_def zero_fill_eval(1))

lemma prototypes_sane: "list_all proto_sane prototypes"
  unfolding prototypes_def
  by (simp add: proto_defs mk_proto_sane zero_fill_def is_size_arg_def is_mem_arg_def numeral_eq_Suc)

text \<open>
  A pointer to a map key or value is checked against the map of the last map argument before it;
  the assertion generator assumes that there is one. Every supported prototype of the table has it.
\<close>

fun map_before_key :: "bool \<Rightarrow> ebpf_argument_type_t list \<Rightarrow> bool" where
  "map_before_key seen [] = True"
| "map_before_key seen (a # as) =
    (if a = EBPF_ARGUMENT_TYPE_DONTCARE \<or> a = EBPF_ARGUMENT_TYPE_UNSUPPORTED then True
     else if a = EBPF_ARGUMENT_TYPE_PTR_TO_MAP_KEY \<or> a = EBPF_ARGUMENT_TYPE_PTR_TO_MAP_VALUE
     then seen \<and> map_before_key seen as
     else map_before_key (seen \<or> a = EBPF_ARGUMENT_TYPE_PTR_TO_MAP) as)"

definition proto_maps_ok :: "EbpfHelperPrototype \<Rightarrow> bool" where
  "proto_maps_ok p \<longleftrightarrow> map_before_key False (proto_argument_type p)"

lemma mk_proto_maps_ok: "proto_maps_ok (mk_proto name ret args realloc ctx) \<longleftrightarrow> map_before_key False (zero_fill args)"
  by (simp add: proto_maps_ok_def mk_proto_def)

lemma prototypes_maps_ok: "list_all proto_maps_ok prototypes"
  unfolding prototypes_def
  by (simp add: proto_defs mk_proto_maps_ok zero_fill_def numeral_eq_Suc)

section \<open>Properties\<close>

text \<open>
  C25. The table of helper prototypes is consistent with what the rest of the verifier relies on: all
  186 prototypes have five argument slots, every pointer to memory is followed by a size and no size
  stands alone before the first unused or unsupported slot, and every pointer to a map key or
  value comes after the map it is checked against.
\<close>

theorem linux_prototypes_consistent:
  "length prototypes = 186 \<and> list_all (\<lambda>p. proto_sane p \<and> proto_maps_ok p) prototypes"
  using prototypes_sane prototypes_maps_ok by (simp add: length_prototypes list_all_iff)

end
