(* ===== verification/Linux_Platform.thy ===== *)
theory Linux_Platform
  imports Linux_Prototypes "HOL-Library.Sublist"
begin

text \<open>
  \<^verbatim>\<open>linux/linux_platform.cpp\<close> and the map-descriptor functions of \<^verbatim>\<open>asm_files.cpp\<close> it calls:
  program types and their section prefixes, map types, the maps section, mock map descriptors.

  The numeric values of \<^verbatim>\<open>BPF_PROG_TYPE_x\<close> and \<^verbatim>\<open>BPF_MAP_TYPE_x\<close> come from a kernel header;
  they are the parameters \<open>prog_type\<close> and \<open>map_type\<close>, functions of the enumerator's name. The
  enumerators are not macros, so the conditional tail of the map type table is not compiled.
  Creating a real map is a system call: the kernel is the parameter \<open>sys\<close>.
\<close>

section \<open>Program types\<close>

definition PTYPE :: "string \<Rightarrow> ctx_ptr \<Rightarrow> u64 \<Rightarrow> string list \<Rightarrow> EbpfProgramType" where
  "PTYPE name descr native pfxs =
     \<lparr>pt_name = name, pt_context_descriptor = Some descr, pt_platform_specific_data = native,
      pt_section_prefixes = pfxs, pt_is_privileged = False\<rparr>"

definition PTYPE_PRIVILEGED :: "string \<Rightarrow> ctx_ptr \<Rightarrow> u64 \<Rightarrow> string list \<Rightarrow> EbpfProgramType" where
  "PTYPE_PRIVILEGED name descr native pfxs =
     \<lparr>pt_name = name, pt_context_descriptor = Some descr, pt_platform_specific_data = native,
      pt_section_prefixes = pfxs, pt_is_privileged = True\<rparr>"

definition linux_socket_filter_program_type :: "(string \<Rightarrow> u64) \<Rightarrow> EbpfProgramType" where
  "linux_socket_filter_program_type prog_type =
     PTYPE ''socket_filter'' g_socket_filter_descr (prog_type ''SOCKET_FILTER'') [''socket'']"

definition linux_xdp_program_type :: "(string \<Rightarrow> u64) \<Rightarrow> EbpfProgramType" where
  "linux_xdp_program_type prog_type = PTYPE ''xdp'' g_xdp_descr (prog_type ''XDP'') [''xdp'']"

definition cilium_lxc_program_type :: "(string \<Rightarrow> u64) \<Rightarrow> EbpfProgramType" where
  "cilium_lxc_program_type prog_type = PTYPE ''lxc'' g_sched_descr (prog_type ''SOCKET_FILTER'') []"

definition linux_program_types :: "(string \<Rightarrow> u64) \<Rightarrow> EbpfProgramType list" where
  "linux_program_types prog_type =
   [PTYPE ''unspec'' g_unspec_descr (prog_type ''UNSPEC'') [],
    linux_socket_filter_program_type prog_type,
    linux_xdp_program_type prog_type,
    PTYPE ''cgroup_device'' g_cgroup_dev_descr (prog_type ''CGROUP_DEVICE'') [''cgroup/dev''],
    PTYPE ''cgroup_skb'' g_socket_filter_descr (prog_type ''CGROUP_SKB'') [''cgroup/skb''],
    PTYPE ''cgroup_sock'' g_cgroup_sock_descr (prog_type ''CGROUP_SOCK'') [''cgroup/sock''],
    PTYPE_PRIVILEGED ''kprobe'' g_kprobe_descr (prog_type ''KPROBE'') [''kprobe/'', ''kretprobe/''],
    PTYPE ''lwt_in'' g_lwt_inout_descr (prog_type ''LWT_IN'') [''lwt_in''],
    PTYPE ''lwt_out'' g_lwt_inout_descr (prog_type ''LWT_OUT'') [''lwt_out''],
    PTYPE ''lwt_xmit'' g_lwt_xmit_descr (prog_type ''LWT_XMIT'') [''lwt_xmit''],
    PTYPE ''perf_event'' g_perf_event_descr (prog_type ''PERF_EVENT'') [''perf_section'', ''perf_event''],
    PTYPE ''sched_act'' g_sched_descr (prog_type ''SCHED_ACT'') [''action''],
    PTYPE ''sched_cls'' g_sched_descr (prog_type ''SCHED_CLS'') [''classifier''],
    PTYPE ''sk_skb'' g_sk_skb_descr (prog_type ''SK_SKB'') [''sk_skb''],
    PTYPE ''sock_ops'' g_sock_ops_descr (prog_type ''SOCK_OPS'') [''sockops''],
    PTYPE ''tracepoint'' g_tracepoint_descr (prog_type ''TRACEPOINT'') [''tracepoint/''],
    PTYPE ''sk_msg'' g_sk_msg_md (prog_type ''SOCKET_FILTER'') [''sk_msg''],
    PTYPE ''raw_tracepoint'' g_tracepoint_descr (prog_type ''SOCKET_FILTER'') [''raw_tracepoint/''],
    PTYPE ''cgroup_sock_addr'' g_cgroup_sock_descr (prog_type ''SOCKET_FILTER'') [],
    PTYPE ''lwt_seg6local'' g_lwt_xmit_descr (prog_type ''SOCKET_FILTER'') [''lwt_seg6local''],
    PTYPE ''lirc_mode2'' g_sk_msg_md (prog_type ''SOCKET_FILTER'') [''lirc_mode2'']]"

definition string_contains :: "string \<Rightarrow> string \<Rightarrow> bool" where
  "string_contains s sub = sublist sub s"

fun first_matching :: "string \<Rightarrow> EbpfProgramType list \<Rightarrow> EbpfProgramType option" where
  "first_matching sec [] = None"
| "first_matching sec (t # ts) =
     (if list_ex (\<lambda>p. prefix p sec) (pt_section_prefixes t) then Some t else first_matching sec ts)"

definition get_program_type_linux :: "(string \<Rightarrow> u64) \<Rightarrow> string \<Rightarrow> string \<Rightarrow> EbpfProgramType" where
  "get_program_type_linux prog_type sec path =
    (if string_contains path ''cilium'' \<and> string_contains path ''xdp'' then linux_xdp_program_type prog_type
     else if string_contains path ''cilium'' \<and> string_contains path ''lxc''
     then cilium_lxc_program_type prog_type
     else case first_matching sec (linux_program_types prog_type) of
       Some t \<Rightarrow> t
     | None \<Rightarrow> linux_socket_filter_program_type prog_type)"

section \<open>Map types\<close>

definition mk_map_type :: "(string \<Rightarrow> u32) \<Rightarrow> string \<Rightarrow> bool \<Rightarrow> EbpfMapValueType \<Rightarrow> EbpfMapType" where
  "mk_map_type map_type name arr vt =
     \<lparr>mt_platform_specific_type = map_type name, mt_name = name, mt_is_array = arr, mt_value_type = vt\<rparr>"

definition linux_map_types :: "(string \<Rightarrow> u32) \<Rightarrow> EbpfMapType list" where
  "linux_map_types map_type =
   [mk_map_type map_type ''UNSPEC'' False MapValue_ANY,
    mk_map_type map_type ''HASH'' False MapValue_ANY,
    mk_map_type map_type ''ARRAY'' True MapValue_ANY,
    mk_map_type map_type ''PROG_ARRAY'' True MapValue_PROGRAM,
    mk_map_type map_type ''PERF_EVENT_ARRAY'' True MapValue_ANY,
    mk_map_type map_type ''PERCPU_HASH'' False MapValue_ANY,
    mk_map_type map_type ''PERCPU_ARRAY'' True MapValue_ANY,
    mk_map_type map_type ''STACK_TRACE'' False MapValue_ANY,
    mk_map_type map_type ''CGROUP_ARRAY'' True MapValue_ANY,
    mk_map_type map_type ''LRU_HASH'' False MapValue_ANY,
    mk_map_type map_type ''LRU_PERCPU_HASH'' False MapValue_ANY,
    mk_map_type map_type ''LPM_TRIE'' False MapValue_ANY,
    mk_map_type map_type ''ARRAY_OF_MAPS'' True MapValue_MAP,
    mk_map_type map_type ''HASH_OF_MAPS'' False MapValue_MAP,
    mk_map_type map_type ''DEVMAP'' False MapValue_ANY,
    mk_map_type map_type ''SOCKMAP'' False MapValue_ANY,
    mk_map_type map_type ''CPUMAP'' False MapValue_ANY]"

definition get_map_type_linux :: "(string \<Rightarrow> u32) \<Rightarrow> u32 \<Rightarrow> EbpfMapType res" where
  "get_map_type_linux map_type platform_specific_type =
    (let idx = unat platform_specific_type; tab = linux_map_types map_type in
     if idx = 0 \<or> length tab \<le> idx then Inr (tab ! 0)
     else if mt_platform_specific_type (tab ! idx) \<noteq> platform_specific_type then Inl AssertionFailure
     else Inr (tab ! idx))"

section \<open>Map descriptors\<close>

text \<open>
  The state of these functions is the cache of mock file descriptors and the list of map
  descriptors. \<open>bpf_sys\<close> is the kernel as \<^verbatim>\<open>create_map_linux\<close> sees it: a flag of its header, and the
  descriptor that \<^verbatim>\<open>BPF_MAP_CREATE\<close> returns for a map type, key size, value size, number of entries
  and flags, negative for a failure.
\<close>

record bpf_sys =
  bpf_f_no_prealloc :: u32
  bpf_map_create :: "u32 \<Rightarrow> u32 \<Rightarrow> u32 \<Rightarrow> u32 \<Rightarrow> u32 \<Rightarrow> int"

definition equiv_key :: "EbpfMapType \<Rightarrow> u32 \<Rightarrow> u32 \<Rightarrow> u32 \<Rightarrow> EquivalenceKey" where
  "equiv_key mt key_size value_size max_entries =
     (mt_value_type mt, key_size, value_size, if mt_is_array mt then max_entries else 0)"

definition create_map_crab ::
  "gsl_narrow \<Rightarrow> fd_cache \<Rightarrow> EbpfMapType \<Rightarrow> u32 \<Rightarrow> u32 \<Rightarrow> u32 \<Rightarrow> (int \<times> fd_cache) res" where
  "create_map_crab nrw cache mt key_size value_size max_entries =
    (let k = equiv_key mt key_size value_size max_entries in
     case map_of cache k of
       Some fd \<Rightarrow> Inr (fd, cache)
     | None \<Rightarrow>
         bindE (opt_to_res NarrowingError (nrw int32_range (int (length cache)))) (\<lambda>n.
           Inr (n + 1, cache @ [(k, n + 1)])))"

definition find_map_descriptor :: "EbpfMapDescriptor list \<Rightarrow> int \<Rightarrow> EbpfMapDescriptor option" where
  "find_map_descriptor maps map_fd = find (\<lambda>m. md_original_fd m = map_fd) maps"

definition get_map_descriptor_linux :: "EbpfMapDescriptor list \<Rightarrow> int \<Rightarrow> EbpfMapDescriptor res" where
  "get_map_descriptor_linux maps map_fd =
    (case find_map_descriptor maps map_fd of
       Some m \<Rightarrow> Inr m
     | None \<Rightarrow> Inl (UnmarshalError (''map_fd '' @ int_to_string map_fd @ '' not found'')))"

definition create_map_linux ::
  "gsl_narrow \<Rightarrow> (string \<Rightarrow> u32) \<Rightarrow> bpf_sys \<Rightarrow> ebpf_verifier_options_t \<Rightarrow> fd_cache
     \<Rightarrow> u32 \<Rightarrow> u32 \<Rightarrow> u32 \<Rightarrow> u32 \<Rightarrow> (int \<times> fd_cache) res" where
  "create_map_linux nrw map_type sys opts cache ty key_size value_size max_entries =
    (if mock_map_fds opts then
       bindE (get_map_type_linux map_type ty) (\<lambda>mt.
         create_map_crab nrw cache mt key_size value_size max_entries)
     else
       let map_fd = bpf_map_create sys ty key_size value_size 20
                      (if ty = map_type ''HASH'' then bpf_f_no_prealloc sys else 0) in
       if map_fd < 0 then Inl (ProcessExit 2) else Inr (map_fd, cache))"

section \<open>The maps section\<close>

record bpf_load_map_def =
  def_type :: u32
  def_key_size :: u32
  def_value_size :: u32
  def_max_entries :: u32
  def_map_flags :: u32
  def_inner_map_idx :: u32
  def_numa_node :: u32

text \<open>
  Four bytes of a zero-initialised structure into which at most \<open>map_def_size\<close> bytes were copied,
  on a little-endian host. A copy that would leave the section's data reads nothing in the model.
\<close>

definition byte_at :: "u8 list \<Rightarrow> nat \<Rightarrow> nat \<Rightarrow> nat \<Rightarrow> u8" where
  "byte_at data base map_def_size k =
     (if k < min map_def_size 28 \<and> base + k < length data then data ! (base + k) else 0)"

definition le32 :: "u8 \<Rightarrow> u8 \<Rightarrow> u8 \<Rightarrow> u8 \<Rightarrow> u32" where
  "le32 b0 b1 b2 b3 =
     ucast b0 OR push_bit 8 (ucast b1) OR push_bit 16 (ucast b2) OR push_bit 24 (ucast b3)"

definition read_map_def :: "u8 list \<Rightarrow> nat \<Rightarrow> nat \<Rightarrow> bpf_load_map_def" where
  "read_map_def data map_def_size i =
    (let b = byte_at data (i * map_def_size) map_def_size;
         f = (\<lambda>n. le32 (b (4 * n)) (b (4 * n + 1)) (b (4 * n + 2)) (b (4 * n + 3))) in
     \<lparr>def_type = f 0, def_key_size = f 1, def_value_size = f 2, def_max_entries = f 3,
      def_map_flags = f 4, def_inner_map_idx = f 5, def_numa_node = f 6\<rparr>)"

fun add_map_defs ::
  "gsl_narrow \<Rightarrow> (string \<Rightarrow> u32) \<Rightarrow> bpf_sys \<Rightarrow> ebpf_verifier_options_t \<Rightarrow> fd_cache
     \<Rightarrow> EbpfMapDescriptor list \<Rightarrow> bpf_load_map_def list \<Rightarrow> (fd_cache \<times> EbpfMapDescriptor list) res" where
  "add_map_defs nrw map_type sys opts cache maps [] = Inr (cache, maps)"
| "add_map_defs nrw map_type sys opts cache maps (s # defs) =
     bindE (get_map_type_linux map_type (def_type s)) (\<lambda>_.
     bindE (create_map_linux nrw map_type sys opts cache (def_type s) (def_key_size s)
              (def_value_size s) (def_max_entries s)) (\<lambda>(fd, cache').
       add_map_defs nrw map_type sys opts cache'
         (maps @ [\<lparr>md_original_fd = fd, md_type = def_type s, md_key_size = def_key_size s,
                    md_value_size = def_value_size s, md_max_entries = def_max_entries s,
                    md_inner_map_fd = def_inner_map_idx s\<rparr>]) defs))"

definition parse_maps_section_linux ::
  "gsl_narrow \<Rightarrow> (string \<Rightarrow> u32) \<Rightarrow> bpf_sys \<Rightarrow> ebpf_verifier_options_t \<Rightarrow> fd_cache
     \<Rightarrow> EbpfMapDescriptor list \<Rightarrow> u8 list \<Rightarrow> nat \<Rightarrow> nat \<Rightarrow> (fd_cache \<times> EbpfMapDescriptor list) res" where
  "parse_maps_section_linux nrw map_type sys opts cache maps data map_def_size map_count =
     add_map_defs nrw map_type sys opts cache maps
       (map (read_map_def data map_def_size) [0..<map_count])"

fun resolve_loop :: "EbpfMapDescriptor list \<Rightarrow> nat \<Rightarrow> nat \<Rightarrow> EbpfMapDescriptor list res" where
  "resolve_loop maps i 0 = Inr maps"
| "resolve_loop maps i (Suc k) =
    (let inner = md_inner_map_fd (maps ! i) in
     if length maps \<le> unat inner
     then Inl (UnmarshalError (''bad inner map index '' @ nat_to_base 10 (unat inner)
                               @ '' for map '' @ nat_to_base 10 i))
     else resolve_loop
            (maps[i := (maps ! i)\<lparr>md_inner_map_fd := word_of_int (md_original_fd (maps ! unat inner))\<rparr>])
            (Suc i) k)"

definition resolve_inner_map_references_linux :: "EbpfMapDescriptor list \<Rightarrow> EbpfMapDescriptor list res" where
  "resolve_inner_map_references_linux maps = resolve_loop maps 0 (length maps)"

section \<open>The platform\<close>

definition g_ebpf_platform_linux ::
  "gsl_narrow \<Rightarrow> (string \<Rightarrow> u64) \<Rightarrow> (string \<Rightarrow> u32) \<Rightarrow> bpf_sys \<Rightarrow> ebpf_platform_t" where
  "g_ebpf_platform_linux nrw prog_type map_type sys =
     \<lparr>get_program_type = get_program_type_linux prog_type,
      get_helper_prototype = get_helper_prototype_linux,
      is_helper_usable = is_helper_usable_linux,
      map_record_size = 28,
      parse_maps_section = parse_maps_section_linux nrw map_type sys,
      get_map_descriptor = get_map_descriptor_linux,
      get_map_type = get_map_type_linux map_type,
      resolve_inner_map_references = resolve_inner_map_references_linux,
      supported_conformance_groups = default_groups OR group_packet\<rparr>"

section \<open>The platform meets the decoder's contract\<close>

lemma linux_usable_prototype:
  assumes "is_helper_usable_linux ty n"
  shows "get_helper_prototype_linux ty n = Inr (prototypes ! nat (sint n))"
    and "nat (sint n) < length prototypes"
    and "proto_sane (prototypes ! nat (sint n))"
proof -
  show "get_helper_prototype_linux ty n = Inr (prototypes ! nat (sint n))"
    using assms by (simp add: get_helper_prototype_linux_def)
  show lt: "nat (sint n) < length prototypes"
    using assms by (auto simp: is_helper_usable_linux_def)
  show "proto_sane (prototypes ! nat (sint n))"
    using prototypes_sane lt by (simp add: list_all_length)
qed

interpretation linux_helpers: helper_platform "g_ebpf_platform_linux nrw prog_type map_type sys"
  for nrw prog_type map_type sys
proof
  fix ty n
  assume "is_helper_usable (g_ebpf_platform_linux nrw prog_type map_type sys) ty n"
  then have "is_helper_usable_linux ty n" by (simp add: g_ebpf_platform_linux_def)
  from linux_usable_prototype [OF this]
  show "\<exists>p. get_helper_prototype (g_ebpf_platform_linux nrw prog_type map_type sys) ty n = Inr p \<and>
          length (proto_argument_type p) = 5 \<and> args_sane (proto_argument_type p)"
    by (simp add: g_ebpf_platform_linux_def proto_sane_def)
qed

lemma linux_groups:
  "supports_group (g_ebpf_platform_linux nrw prog_type map_type sys) group_base32"
  "supports_group (g_ebpf_platform_linux nrw prog_type map_type sys) group_base64"
  "supports_group (g_ebpf_platform_linux nrw prog_type map_type sys) group_atomic32"
  "supports_group (g_ebpf_platform_linux nrw prog_type map_type sys) group_atomic64"
  "supports_group (g_ebpf_platform_linux nrw prog_type map_type sys) group_divmul32"
  "supports_group (g_ebpf_platform_linux nrw prog_type map_type sys) group_divmul64"
  "supports_group (g_ebpf_platform_linux nrw prog_type map_type sys) group_packet"
  "\<not> supports_group (g_ebpf_platform_linux nrw prog_type map_type sys) group_callx"
  by (simp_all add: supports_group_def g_ebpf_platform_linux_def group_defs)

section \<open>Section names determine the program type\<close>

definition matches :: "string \<Rightarrow> EbpfProgramType \<Rightarrow> bool" where
  "matches sec t \<longleftrightarrow> list_ex (\<lambda>p. prefix p sec) (pt_section_prefixes t)"

definition all_prefixes :: "EbpfProgramType list \<Rightarrow> string list" where
  "all_prefixes ts = concat (map pt_section_prefixes ts)"

definition prefix_free :: "string list \<Rightarrow> bool" where
  "prefix_free ps \<longleftrightarrow> distinct ps \<and> list_all (\<lambda>p. list_all (\<lambda>q. p = q \<or> \<not> prefix p q) ps) ps"

lemma prefix_freeD:
  assumes "prefix_free ps" "p \<in> set ps" "q \<in> set ps" "prefix p s" "prefix q s"
  shows "p = q"
proof -
  have "prefix p q \<or> prefix q p" using assms(4,5) by (rule prefix_same_cases)
  then show ?thesis using assms(1-3) by (auto simp: prefix_free_def list_all_iff)
qed

lemma linux_prefixes:
  "all_prefixes (linux_program_types prog_type) =
    [''socket'', ''xdp'', ''cgroup/dev'', ''cgroup/skb'', ''cgroup/sock'', ''kprobe/'', ''kretprobe/'',
     ''lwt_in'', ''lwt_out'', ''lwt_xmit'', ''perf_section'', ''perf_event'', ''action'', ''classifier'',
     ''sk_skb'', ''sockops'', ''tracepoint/'', ''sk_msg'', ''raw_tracepoint/'', ''lwt_seg6local'',
     ''lirc_mode2'']"
  by (simp add: all_prefixes_def linux_program_types_def PTYPE_def PTYPE_PRIVILEGED_def
      linux_socket_filter_program_type_def linux_xdp_program_type_def)

lemma linux_prefix_free: "prefix_free (all_prefixes (linux_program_types prog_type))"
  unfolding linux_prefixes by (simp add: prefix_free_def)

lemma first_matching_Some:
  "first_matching sec ts = Some t \<Longrightarrow> t \<in> set ts \<and> matches sec t"
  by (induction ts) (auto simp: matches_def split: if_splits)

lemma first_matching_None: "first_matching sec ts = None \<longleftrightarrow> (\<forall>t \<in> set ts. \<not> matches sec t)"
  by (induction ts) (auto simp: matches_def)

lemma distinct_concat_unique:
  "distinct (concat (map f ts)) \<Longrightarrow> t \<in> set ts \<Longrightarrow> u \<in> set ts \<Longrightarrow> p \<in> set (f t) \<Longrightarrow> p \<in> set (f u) \<Longrightarrow> t = u"
  by (induction ts) fastforce+

lemma linux_match_unique:
  assumes "t \<in> set (linux_program_types prog_type)" "u \<in> set (linux_program_types prog_type)"
    and "matches sec t" "matches sec u"
  shows "t = u"
proof -
  let ?ts = "linux_program_types prog_type"
  obtain p q where p: "p \<in> set (pt_section_prefixes t)" "prefix p sec"
    and q: "q \<in> set (pt_section_prefixes u)" "prefix q sec"
    using assms(3,4) by (auto simp: matches_def list_ex_iff)
  have "p \<in> set (all_prefixes ?ts)" "q \<in> set (all_prefixes ?ts)"
    using assms(1,2) p q by (auto simp: all_prefixes_def)
  with linux_prefix_free [of prog_type] p q have "p = q" by (blast intro: prefix_freeD)
  moreover have "distinct (concat (map pt_section_prefixes ?ts))"
    using linux_prefix_free [of prog_type] by (simp add: prefix_free_def all_prefixes_def)
  ultimately show ?thesis
    using assms(1,2) p q by (blast intro: distinct_concat_unique)
qed

section \<open>Mock map descriptors\<close>

text \<open>
  The cache hands out the descriptors 1, 2, 3, \dots in order, one per equivalence key.
\<close>

definition cache_inv :: "fd_cache \<Rightarrow> bool" where
  "cache_inv cache \<longleftrightarrow> map snd cache = [1..int (length cache)] \<and> distinct (map fst cache)"

lemma upto_snoc: "[1..int n] @ [int n + 1] = [1..int n + 1]"
  by (simp add: upto_rec2)

lemma cache_inv_Nil [simp]: "cache_inv []"
  by (simp add: cache_inv_def)

lemma cache_inv_lookup_inj:
  assumes "cache_inv cache" "map_of cache k = Some fd" "map_of cache k' = Some fd"
  shows "k = k'"
proof -
  have "distinct (map snd cache)" using assms(1) by (simp add: cache_inv_def)
  moreover have "(k, fd) \<in> set cache" "(k', fd) \<in> set cache"
    using assms(2,3) by (auto dest: map_of_SomeD)
  ultimately show ?thesis
    by (metis (no_types, lifting) distinct_map inj_on_def prod.inject snd_conv)
qed

lemma create_map_crab_inv:
  assumes "cache_inv cache" "gsl_narrow_spec nrw"
    and "create_map_crab nrw cache mt ks vs me = Inr (fd, cache')"
  shows "cache_inv cache' \<and> map_of cache' (equiv_key mt ks vs me) = Some fd \<and>
         (\<forall>k v. map_of cache k = Some v \<longrightarrow> map_of cache' k = Some v)"
proof (cases "map_of cache (equiv_key mt ks vs me)")
  case (Some v)
  then show ?thesis using assms by (simp add: create_map_crab_def)
next
  case None
  let ?k = "equiv_key mt ks vs me"
  have eq: "fd = int (length cache) + 1" "cache' = cache @ [(?k, int (length cache) + 1)]"
    using assms(2,3) None by (auto simp: create_map_crab_def Let_def gsl_narrowD res_iffs split: if_splits)
  have "?k \<notin> fst ` set cache" using None by (simp add: map_of_eq_None_iff)
  then show ?thesis
    using assms(1) None eq upto_snoc [of "length cache"]
    by (auto simp: cache_inv_def map_add_def add.commute)
qed

section \<open>Inner map references\<close>

lemma resolve_loop_ok:
  assumes "\<forall>j < length maps. i \<le> j \<longrightarrow> unat (md_inner_map_fd (maps ! j)) < length maps"
    and "i + k = length maps"
  shows "\<exists>maps'. resolve_loop maps i k = Inr maps' \<and> length maps' = length maps \<and>
     (\<forall>j < length maps. maps' ! j = (if j < i then maps ! j else (maps ! j)\<lparr>md_inner_map_fd :=
        word_of_int (md_original_fd (maps ! unat (md_inner_map_fd (maps ! j))))\<rparr>))"
  using assms
proof (induction k arbitrary: maps i)
  case 0
  then show ?case by simp
next
  case (Suc k)
  let ?inner = "unat (md_inner_map_fd (maps ! i))"
  let ?m = "maps[i := (maps ! i)\<lparr>md_inner_map_fd := word_of_int (md_original_fd (maps ! ?inner))\<rparr>]"
  have "i < length maps" using Suc.prems(2) by simp
  then have fd: "md_original_fd (?m ! j) = md_original_fd (maps ! j)" for j
    by (cases "j = i") auto
  have "\<exists>maps'. resolve_loop ?m (Suc i) k = Inr maps' \<and> length maps' = length ?m \<and>
     (\<forall>j < length ?m. maps' ! j = (if j < Suc i then ?m ! j else (?m ! j)\<lparr>md_inner_map_fd :=
        word_of_int (md_original_fd (?m ! unat (md_inner_map_fd (?m ! j))))\<rparr>))"
    using Suc.prems by (intro Suc.IH) (auto simp: nth_list_update)
  moreover have "?inner < length maps" using Suc.prems by simp
  ultimately show ?case
    unfolding fd by (auto simp: nth_list_update Let_def less_Suc_eq)
qed

lemma resolve_loop_inner_range:
  assumes "resolve_loop maps i k = Inr maps'" "i + k = length maps"
  shows "\<forall>j < length maps. i \<le> j \<longrightarrow> unat (md_inner_map_fd (maps ! j)) < length maps"
  using assms
proof (induction k arbitrary: maps i)
  case (Suc k)
  let ?inner = "unat (md_inner_map_fd (maps ! i))"
  let ?m = "maps[i := (maps ! i)\<lparr>md_inner_map_fd := word_of_int (md_original_fd (maps ! ?inner))\<rparr>]"
  have head: "?inner < length maps" and rest: "resolve_loop ?m (Suc i) k = Inr maps'"
    using Suc.prems(1) by (auto simp: Let_def split: if_splits)
  from Suc.IH [OF rest] Suc.prems(2) head show ?case
    by (auto simp: nth_list_update Suc_le_eq le_less)
qed simp

section \<open>Properties\<close>

text \<open>
  C24. A section name selects the program type whose prefix it starts with, at most one type of the
  table matches it, and a name that no type matches selects the socket filter; the order of the
  table does not matter. (Paths of the cilium project are the exception the code makes.)
\<close>

theorem section_selects_program_type:
  assumes "\<not> string_contains path ''cilium''"
  shows "let ts = linux_program_types prog_type; t = get_program_type_linux prog_type sec path in
     (\<forall>u \<in> set ts. matches sec u \<longleftrightarrow> matches sec t \<and> u = t) \<and>
     ((\<forall>u \<in> set ts. \<not> matches sec u) \<longrightarrow> t = linux_socket_filter_program_type prog_type)"
proof (cases "first_matching sec (linux_program_types prog_type)")
  case None
  then have no: "\<not> matches sec u" if "u \<in> set (linux_program_types prog_type)" for u
    using that by (simp add: first_matching_None)
  moreover have "linux_socket_filter_program_type prog_type \<in> set (linux_program_types prog_type)"
    by (simp add: linux_program_types_def)
  ultimately show ?thesis using assms None by (auto simp: get_program_type_linux_def Let_def)
next
  case (Some t)
  then have "t \<in> set (linux_program_types prog_type)" "matches sec t"
    by (auto dest: first_matching_Some)
  then show ?thesis
    using assms Some linux_match_unique by (fastforce simp: get_program_type_linux_def Let_def)
qed

theorem section_selects_program_type_witness:
  "matches ''xdp_prog'' (get_program_type_linux (\<lambda>_. 0) ''xdp_prog'' ''a.o'')"
proof -
  have "linux_xdp_program_type (\<lambda>_. 0) \<in> set (linux_program_types (\<lambda>_. 0))" "matches ''xdp_prog'' (linux_xdp_program_type (\<lambda>_. 0))"
    by (simp_all add: linux_program_types_def matches_def linux_xdp_program_type_def PTYPE_def)
  moreover have "\<not> string_contains ''a.o'' ''cilium''" 
    using sublist_length_le [of "''cilium''" "''a.o''"] by (auto simp: string_contains_def)
  ultimately show ?thesis
    using section_selects_program_type [of "''a.o''" "\<lambda>_. 0" "''xdp_prog''"] unfolding Let_def by blast
qed

text \<open>
  C23. Creating maps one after another with mock descriptors, from an empty cache, gives two maps the
  same descriptor exactly when their equivalence keys agree; descriptors are positive, and the
  descriptor of an equivalence class never changes.
\<close>

fun create_all :: "gsl_narrow \<Rightarrow> fd_cache \<Rightarrow> (EbpfMapType \<times> u32 \<times> u32 \<times> u32) list \<Rightarrow> (int list \<times> fd_cache) res" where
  "create_all nrw cache [] = Inr ([], cache)"
| "create_all nrw cache ((mt, ks, vs, me) # reqs) =
     bindE (create_map_crab nrw cache mt ks vs me) (\<lambda>(fd, cache').
     bindE (create_all nrw cache' reqs) (\<lambda>(fds, cache''). Inr (fd # fds, cache'')))"

definition request_key :: "EbpfMapType \<times> u32 \<times> u32 \<times> u32 \<Rightarrow> EquivalenceKey" where
  "request_key = (\<lambda>(mt, ks, vs, me). equiv_key mt ks vs me)"

lemma create_all_cache:
  assumes "gsl_narrow_spec nrw" "cache_inv cache" "create_all nrw cache reqs = Inr (fds, cache')"
  shows "cache_inv cache' \<and> (\<forall>k v. map_of cache k = Some v \<longrightarrow> map_of cache' k = Some v) \<and>
     length fds = length reqs \<and> (\<forall>i < length reqs. map_of cache' (request_key (reqs ! i)) = Some (fds ! i))"
  using assms(2,3)
proof (induction reqs arbitrary: cache fds)
  case (Cons q reqs)
  obtain mt ks vs me where q: "q = (mt, ks, vs, me)" by (cases q)
  obtain fd c fds' where c: "create_map_crab nrw cache mt ks vs me = Inr (fd, c)"
    "create_all nrw c reqs = Inr (fds', cache')" "fds = fd # fds'"
    using Cons.prems(2) by (auto simp: q bindE_eq_Inr_iff)
  note inv = create_map_crab_inv [OF Cons.prems(1) assms(1) c(1)]
  have ih: "cache_inv cache' \<and> (\<forall>k v. map_of c k = Some v \<longrightarrow> map_of cache' k = Some v) \<and>
     length fds' = length reqs \<and> (\<forall>i < length reqs. map_of cache' (request_key (reqs ! i)) = Some (fds' ! i))"
    using Cons.IH [OF _ c(2)] inv by blast
  moreover have "map_of cache' (equiv_key mt ks vs me) = Some fd" using ih inv by blast
  moreover have "\<forall>k v. map_of cache k = Some v \<longrightarrow> map_of cache' k = Some v" using ih inv by blast
  ultimately show ?case by (simp add: c(3) q request_key_def nth_Cons')
qed simp

lemma cache_fd_positive: "cache_inv cache \<Longrightarrow> map_of cache k = Some fd \<Longrightarrow> 1 \<le> fd"
proof -
  assume inv: "cache_inv cache" and "map_of cache k = Some fd"
  then have "fd \<in> set (map snd cache)" by (force dest: map_of_SomeD)
  moreover have "map snd cache = [1..int (length cache)]" using inv by (simp add: cache_inv_def)
  ultimately have "fd \<in> set [1..int (length cache)]" by simp
  then show "1 \<le> fd" by simp
qed

theorem mock_fds_identify_equivalent_maps:
  assumes "gsl_narrow_spec nrw" "create_all nrw [] reqs = Inr (fds, cache)"
    and "i < length reqs" "j < length reqs"
  shows "(fds ! i = fds ! j \<longleftrightarrow> request_key (reqs ! i) = request_key (reqs ! j)) \<and> 1 \<le> fds ! i"
proof -
  have c: "cache_inv cache" "map_of cache (request_key (reqs ! i)) = Some (fds ! i)"
    "map_of cache (request_key (reqs ! j)) = Some (fds ! j)"
    using create_all_cache [OF assms(1) cache_inv_Nil assms(2)] assms(3,4) by blast+
  then show ?thesis by (auto dest: cache_inv_lookup_inj cache_fd_positive)
qed

definition example_map_type :: EbpfMapType where
  "example_map_type = \<lparr>mt_platform_specific_type = 2, mt_name = ''ARRAY'', mt_is_array = False, mt_value_type = MapValue_ANY\<rparr>"

theorem mock_fds_identify_equivalent_maps_witness:
  "([1, 2, 1] ! 0 = ([1, 2, 1] ! 2 :: int) \<longleftrightarrow>
      request_key (example_map_type, 4, 8, 16) = request_key (example_map_type, 4, 8, 32)) \<and> 1 \<le> ([1, 2, 1] ! 0 :: int)"
proof -
  let ?reqs = "[(example_map_type, 4, 8, 16), (example_map_type, 4, 4, 16), (example_map_type, 4, 8, 32)]"
  have "\<exists>cache. create_all gsl_narrow_ref [] ?reqs = Inr ([1, 2, 1], cache)"
    by (simp add: create_map_crab_def equiv_key_def example_map_type_def gsl_narrow_ref_def Let_def)
  then obtain cache where "create_all gsl_narrow_ref [] ?reqs = Inr ([1, 2, 1], cache)" by blast
  from mock_fds_identify_equivalent_maps [OF gsl_narrow_ref_spec this, of 0 2] show ?thesis by simp
qed

text \<open>
  Resolving inner map references succeeds exactly when every stored index names a map of the
  list; then each descriptor keeps everything but its inner reference, which becomes the file
  descriptor of the map that its index named before any reference was rewritten.
\<close>

theorem resolve_inner_maps_exact:
  "(\<exists>maps'. resolve_inner_map_references_linux maps = Inr maps' \<and> length maps' = length maps \<and>
      (\<forall>j < length maps. maps' ! j = (maps ! j)\<lparr>md_inner_map_fd :=
         word_of_int (md_original_fd (maps ! unat (md_inner_map_fd (maps ! j))))\<rparr>))
   \<longleftrightarrow> list_all (\<lambda>m. unat (md_inner_map_fd m) < length maps) maps"
proof -
  have "list_all (\<lambda>m. unat (md_inner_map_fd m) < length maps) maps \<longleftrightarrow>
      (\<forall>j < length maps. unat (md_inner_map_fd (maps ! j)) < length maps)"
    by (simp add: list_all_length)
  then show ?thesis
    using resolve_loop_ok [of maps 0 "length maps"] resolve_loop_inner_range [of maps 0 "length maps"]
    by (auto simp: resolve_inner_map_references_linux_def)
qed

definition example_maps :: "EbpfMapDescriptor list" where
  "example_maps =
    [\<lparr>md_original_fd = 7, md_type = 12, md_key_size = 4, md_value_size = 4, md_max_entries = 1, md_inner_map_fd = 1\<rparr>,
     \<lparr>md_original_fd = 9, md_type = 1, md_key_size = 4, md_value_size = 8, md_max_entries = 1, md_inner_map_fd = 0\<rparr>]"

theorem resolve_inner_maps_exact_witness:
  "\<exists>maps'. resolve_inner_map_references_linux example_maps = Inr maps' \<and> length maps' = length example_maps \<and>
      (\<forall>j < length example_maps. maps' ! j = (example_maps ! j)\<lparr>md_inner_map_fd :=
         word_of_int (md_original_fd (example_maps ! unat (md_inner_map_fd (example_maps ! j))))\<rparr>)"
  unfolding resolve_inner_maps_exact by (simp add: example_maps_def)

text \<open>
  A map read from the maps section is found again through its file descriptor: looking up the
  descriptor of any map of the list gives a map with that descriptor, and a descriptor that no map
  has is reported as an error.
\<close>

theorem map_descriptor_lookup:
  "case get_map_descriptor_linux maps fd of
     Inr m \<Rightarrow> m \<in> set maps \<and> md_original_fd m = fd
   | Inl e \<Rightarrow> fd \<notin> md_original_fd ` set maps \<and> (\<exists>msg. e = UnmarshalError msg)"
  by (auto simp: get_map_descriptor_linux_def find_map_descriptor_def find_None_iff find_Some_iff
      split: option.splits)

end
