(* ===== verification/Std_Containers.thy ===== *)
theory Std_Containers
  imports Ebpf_Prelude "HOL-Library.Char_ord" "HOL-Library.List_Lexorder" "HOL-Library.Product_Lexorder"
begin

text \<open>
  The ordered containers of the standard library as the components use them: a \<^verbatim>\<open>std::set\<close> is its
  sorted list of elements, a \<^verbatim>\<open>std::map\<close> its list of entries sorted by key. Iteration over a container
  is recursion over the list. The strings that are keys compare by unsigned characters, and tuples
  lexicographically, as the library theories define it.
\<close>

section \<open>Ordered sets\<close>

type_synonym 'a oset = "'a list"

definition oset_ok :: "'a::linorder oset \<Rightarrow> bool" where
  "oset_ok xs \<longleftrightarrow> sorted xs \<and> distinct xs"

definition oset_insert :: "'a::linorder \<Rightarrow> 'a oset \<Rightarrow> 'a oset" where
  "oset_insert x xs = (if x \<in> set xs then xs else insort x xs)"

definition oset_erase :: "'a \<Rightarrow> 'a oset \<Rightarrow> 'a oset" where
  "oset_erase x xs = filter (\<lambda>y. y \<noteq> x) xs"

lemma oset_simps [simp]:
  "set (oset_insert x xs) = insert x (set xs)" "set (oset_erase x xs) = set xs - {x}"
  "oset_ok []" "oset_ok xs \<Longrightarrow> oset_ok (oset_insert x xs)" "oset_ok xs \<Longrightarrow> oset_ok (oset_erase x xs)"
  by (auto simp: oset_insert_def oset_erase_def oset_ok_def set_insort_key sorted_insort distinct_insort sorted_wrt_filter)

lemma oset_eqI: "oset_ok xs \<Longrightarrow> oset_ok ys \<Longrightarrow> set xs = set ys \<Longrightarrow> xs = ys"
  by (auto simp: oset_ok_def intro: sorted_distinct_set_unique)

section \<open>Ordered maps\<close>

type_synonym ('k, 'v) omap = "('k \<times> 'v) list"

fun omap_put :: "'k::linorder \<Rightarrow> 'v \<Rightarrow> ('k, 'v) omap \<Rightarrow> ('k, 'v) omap" where
  "omap_put k v [] = [(k, v)]"
| "omap_put k v ((k', v') # m) =
    (if k < k' then (k, v) # (k', v') # m
     else if k = k' then (k, v) # m
     else (k', v') # omap_put k v m)"

definition omap_keys :: "('k, 'v) omap \<Rightarrow> 'k list" where
  "omap_keys m = map fst m"

definition omap_ok :: "('k::linorder, 'v) omap \<Rightarrow> bool" where
  "omap_ok m \<longleftrightarrow> sorted (omap_keys m) \<and> distinct (omap_keys m)"

definition omap_at :: "('k, 'v) omap \<Rightarrow> 'k \<Rightarrow> 'v res" where
  "omap_at m k = opt_to_res OutOfRange (map_of m k)"

lemma map_of_omap_put [simp]: "map_of (omap_put k v m) = (map_of m)(k \<mapsto> v)"
  by (induction k v m rule: omap_put.induct) auto

lemma set_omap_keys: "set (omap_keys m) = dom (map_of m)"
  by (simp add: omap_keys_def dom_map_of_conv_image_fst)

lemma keys_omap_put [simp]: "set (omap_keys (omap_put k v m)) = insert k (set (omap_keys m))"
  by (simp add: set_omap_keys)

lemma omap_keys_simps [simp]: "omap_keys [] = []" "omap_keys ((k, v) # m) = k # omap_keys m"
  by (simp_all add: omap_keys_def)

lemma omap_ok_Cons: "omap_ok ((k, v) # m) \<longleftrightarrow> omap_ok m \<and> (\<forall>k' \<in> set (omap_keys m). k < k')"
  by (auto simp: omap_ok_def omap_keys_def less_le)

lemma omap_ok_Nil [simp]: "omap_ok []"
  by (simp add: omap_ok_def omap_keys_def)

lemma omap_ok_put [simp]: "omap_ok m \<Longrightarrow> omap_ok (omap_put k v m)"
  by (induction k v m rule: omap_put.induct) (auto simp: omap_ok_Cons)

lemma map_of_eq_mem: "omap_ok m \<Longrightarrow> map_of m k = Some v \<longleftrightarrow> (k, v) \<in> set m"
  by (auto simp: omap_ok_def omap_keys_def map_of_eq_Some_iff)

lemma in_omap_keys: "k \<in> set (omap_keys m) \<longleftrightarrow> (\<exists>v. map_of m k = Some v)"
  by (auto simp: set_omap_keys)

end
