(* ===== verification/Ebpf_Assertions.thy ===== *)
theory Ebpf_Assertions
  imports Ebpf_Platform
begin

text \<open>
  \<^verbatim>\<open>assertions.cpp\<close>: the preconditions the verifier attaches to every instruction, one definition
  per overload of \<^verbatim>\<open>AssertExtractor\<close>. The current label is the option the extractor holds. A failed
  \<^verbatim>\<open>assert\<close>, and the use of an empty optional that it guards, are an exception.
\<close>

section \<open>The extractor\<close>

definition zero_offset_ctx :: "Reg \<Rightarrow> Assertion list" where
  "zero_offset_ctx reg = [TypeConstraint reg TG_ctx, ZeroCtxOffset reg]"

definition make_valid_access ::
  "label_t option \<Rightarrow> Reg \<Rightarrow> int \<Rightarrow> val \<Rightarrow> bool \<Rightarrow> access_type \<Rightarrow> Assertion" where
  "make_valid_access current_label reg off width or_null access_type =
     ValidAccess \<lparr>va_call_stack_depth = (case current_label of Some l \<Rightarrow> call_stack_depth l | None \<Rightarrow> 1),
       va_reg = reg, va_offset = off, va_width = width, va_or_null = or_null, va_access_type = access_type\<rparr>"

definition make_comparable_access :: "label_t option \<Rightarrow> Reg \<Rightarrow> Assertion" where
  "make_comparable_access current_label reg = make_valid_access current_label reg 0 (Imm 0) False Access_compare"

definition assert_exit :: "label_t option \<Rightarrow> Assertion list res" where
  "assert_exit current_label =
    (case current_label of
       None \<Rightarrow> Inl AssertionFailure
     | Some l \<Rightarrow> Inr (if stack_frame_prefix l = [] then [TypeConstraint (Reg R0_RETURN_VALUE) TG_number] else []))"

text \<open>The loop over the single arguments carries the register of the last map descriptor.\<close>

definition assert_single ::
  "program_info \<Rightarrow> Reg option \<Rightarrow> arg_single_t \<Rightarrow> (Assertion list \<times> Reg option) res" where
  "assert_single info map_fd_reg arg =
    (case single_kind arg of
       Single_ANYTHING \<Rightarrow>
         Inr (if \<not> pt_is_privileged (info_type info) then [TypeConstraint (single_reg arg) TG_number] else [], map_fd_reg)
     | Single_MAP_FD_PROGRAMS \<Rightarrow> Inr ([TypeConstraint (single_reg arg) TG_map_fd_programs], map_fd_reg)
     | Single_MAP_FD \<Rightarrow> Inr ([TypeConstraint (single_reg arg) TG_map_fd], Some (single_reg arg))
     | Single_PTR_TO_CTX \<Rightarrow> Inr (zero_offset_ctx (single_reg arg), map_fd_reg)
     | _ \<Rightarrow>
         (case map_fd_reg of
            None \<Rightarrow> Inl AssertionFailure
          | Some fd \<Rightarrow>
              Inr ([TypeConstraint (single_reg arg) TG_mem,
                    ValidMapKeyValue (single_reg arg) fd (single_kind arg = Single_PTR_TO_MAP_KEY)], map_fd_reg)))"

fun assert_singles :: "program_info \<Rightarrow> Reg option \<Rightarrow> arg_single_t list \<Rightarrow> Assertion list res" where
  "assert_singles info map_fd_reg [] = Inr []"
| "assert_singles info map_fd_reg (arg # args) =
     bindE (assert_single info map_fd_reg arg) (\<lambda>(as, fd).
     bindE (assert_singles info fd args) (\<lambda>bs. Inr (as @ bs)))"

definition assert_pair :: "label_t option \<Rightarrow> arg_pair_t \<Rightarrow> Assertion list" where
  "assert_pair current_label arg =
     [TypeConstraint (pair_size arg) TG_number, ValidSize (pair_size arg) (pair_can_be_zero arg)] @
     (case pair_kind arg of
        Pair_PTR_TO_READABLE_MEM_OR_NULL \<Rightarrow>
          [TypeConstraint (pair_mem arg) TG_mem_or_num,
           make_valid_access current_label (pair_mem arg) 0 (RegV (pair_size arg)) True Access_read]
      | Pair_PTR_TO_READABLE_MEM \<Rightarrow>
          [TypeConstraint (pair_mem arg) TG_mem,
           make_valid_access current_label (pair_mem arg) 0 (RegV (pair_size arg)) False Access_read]
      | Pair_PTR_TO_WRITABLE_MEM \<Rightarrow>
          [TypeConstraint (pair_mem arg) TG_mem,
           make_valid_access current_label (pair_mem arg) 0 (RegV (pair_size arg)) False Access_write])"

definition assert_call :: "program_info \<Rightarrow> label_t option \<Rightarrow> call_t \<Rightarrow> Assertion list res" where
  "assert_call info current_label call =
     bindE (assert_singles info None (call_singles call)) (\<lambda>as.
       Inr (ValidCall (call_func call) (call_prefix call) # as @ concat (map (assert_pair current_label) (call_pairs call))))"

definition assert_callx :: "Reg \<Rightarrow> Assertion list" where
  "assert_callx func = [TypeConstraint func TG_number, FuncConstraint func]"

primrec pointer_comparison :: "cond_op_t \<Rightarrow> bool" where
  "pointer_comparison Cond_EQ = True"
| "pointer_comparison Cond_NE = True"
| "pointer_comparison Cond_SET = True"
| "pointer_comparison Cond_NSET = True"
| "pointer_comparison Cond_LT = True"
| "pointer_comparison Cond_LE = True"
| "pointer_comparison Cond_GT = True"
| "pointer_comparison Cond_GE = True"
| "pointer_comparison Cond_SLT = False"
| "pointer_comparison Cond_SLE = False"
| "pointer_comparison Cond_SGT = False"
| "pointer_comparison Cond_SGE = False"

definition explicate :: "program_info \<Rightarrow> label_t option \<Rightarrow> condition_t \<Rightarrow> Assertion list" where
  "explicate info current_label cond =
    (if pt_is_privileged (info_type info) then []
     else case cond_right cond of
       Imm v \<Rightarrow>
         (if v \<noteq> 0 then [TypeConstraint (cond_left cond) TG_number]
          else (let allow_pointers = pointer_comparison (cond_op cond) \<and> cond_is64 cond in
            (if \<not> allow_pointers then [TypeConstraint (cond_left cond) TG_number] else []) @
            [make_comparable_access current_label (cond_left cond)]))
     | RegV reg_right \<Rightarrow>
         [make_comparable_access current_label (cond_left cond), make_comparable_access current_label reg_right] @
         (if cond_op cond \<noteq> Cond_EQ \<and> cond_op cond \<noteq> Cond_NE then [TypeConstraint (cond_left cond) TG_ptr_or_num] else []) @
         [Comparable (cond_left cond) reg_right False])"

definition assert_assume :: "program_info \<Rightarrow> label_t option \<Rightarrow> assume_t \<Rightarrow> Assertion list" where
  "assert_assume info current_label ins =
    (if \<not> assume_is_implicit ins then explicate info current_label (assume_cond ins) else [])"

definition assert_jmp :: "program_info \<Rightarrow> label_t option \<Rightarrow> jmp_t \<Rightarrow> Assertion list" where
  "assert_jmp info current_label ins =
    (case jmp_cond ins of None \<Rightarrow> [] | Some cond \<Rightarrow> explicate info current_label cond)"

definition mem_access_type :: "mem_t \<Rightarrow> access_type" where
  "mem_access_type ins = (if mem_is_load ins then Access_read else Access_write)"

definition assert_mem :: "gsl_narrow \<Rightarrow> program_info \<Rightarrow> label_t option \<Rightarrow> mem_t \<Rightarrow> Assertion list res" where
  "assert_mem nrw info current_label ins =
     bindE (opt_to_res NarrowingError (nrw uint32_range (deref_width (mem_access ins)))) (\<lambda>w.
       let basereg = deref_basereg (mem_access ins); off = deref_offset (mem_access ins); width = word_of_int w :: u64;
           access = make_valid_access current_label basereg off (Imm width) False (mem_access_type ins) in
       if reg_v basereg = R10_STACK_POINTER then
         Inr (if off < - EBPF_SUBPROGRAM_STACK_SIZE \<or> off + sint (ucast width :: i32) > 0 then [access] else [])
       else
         Inr ([TypeConstraint basereg TG_pointer, access] @
              (if \<not> pt_is_privileged (info_type info) \<and> \<not> mem_is_load ins then
                 (case mem_value ins of
                    RegV reg \<Rightarrow> (if width \<noteq> 8 then [TypeConstraint reg TG_number] else [ValidStore basereg reg])
                  | Imm _ \<Rightarrow> [])
               else [])))"

definition assert_atomic :: "label_t option \<Rightarrow> atomic_t \<Rightarrow> Assertion list" where
  "assert_atomic current_label ins =
     [TypeConstraint (at_valreg ins) TG_number, TypeConstraint (deref_basereg (at_access ins)) TG_pointer,
      make_valid_access current_label (deref_basereg (at_access ins)) (deref_offset (at_access ins))
        (Imm (ucast (word_of_int (deref_width (at_access ins)) :: u32))) False Access_compare]"

definition assert_un :: "un_t \<Rightarrow> Assertion list" where
  "assert_un ins = [TypeConstraint (un_dst ins) TG_number]"

definition assert_bin :: "bin_t \<Rightarrow> Assertion list" where
  "assert_bin ins =
    (case bin_op ins of
       Bin_MOV \<Rightarrow>
         (case bin_v ins of RegV r \<Rightarrow> if \<not> bin_is64 ins then [TypeConstraint r TG_number] else [] | Imm _ \<Rightarrow> [])
     | Bin_MOVSX8 \<Rightarrow> (case bin_v ins of RegV r \<Rightarrow> [TypeConstraint r TG_number] | Imm _ \<Rightarrow> [])
     | Bin_MOVSX16 \<Rightarrow> (case bin_v ins of RegV r \<Rightarrow> [TypeConstraint r TG_number] | Imm _ \<Rightarrow> [])
     | Bin_MOVSX32 \<Rightarrow> (case bin_v ins of RegV r \<Rightarrow> [TypeConstraint r TG_number] | Imm _ \<Rightarrow> [])
     | Bin_ADD \<Rightarrow>
         (case bin_v ins of
            RegV r \<Rightarrow> [TypeConstraint (bin_dst ins) TG_ptr_or_num, TypeConstraint r TG_ptr_or_num,
                        Addable r (bin_dst ins), Addable (bin_dst ins) r]
          | Imm _ \<Rightarrow> [TypeConstraint (bin_dst ins) TG_ptr_or_num])
     | Bin_SUB \<Rightarrow>
         (case bin_v ins of
            RegV r \<Rightarrow> [TypeConstraint (bin_dst ins) TG_ptr_or_num, Comparable (bin_dst ins) r True]
          | Imm _ \<Rightarrow> [TypeConstraint (bin_dst ins) TG_ptr_or_num])
     | op \<Rightarrow>
         (if op = Bin_UDIV \<or> op = Bin_UMOD \<or> op = Bin_SDIV \<or> op = Bin_SMOD then
            (case bin_v ins of
               RegV r \<Rightarrow> [TypeConstraint (bin_dst ins) TG_number, ValidDivisor r (op = Bin_SDIV \<or> op = Bin_SMOD)]
             | Imm _ \<Rightarrow> [TypeConstraint (bin_dst ins) TG_number])
          else
            (case bin_v ins of
               RegV r \<Rightarrow> [TypeConstraint (bin_dst ins) TG_number, TypeConstraint r TG_number]
             | Imm _ \<Rightarrow> [TypeConstraint (bin_dst ins) TG_number])))"

definition get_assertions ::
  "gsl_narrow \<Rightarrow> Instruction \<Rightarrow> program_info \<Rightarrow> label_t option \<Rightarrow> Assertion list res" where
  "get_assertions nrw ins info current_label =
    (case ins of
       Undefined _ \<Rightarrow> Inr []
     | IncrementLoopCounter name \<Rightarrow> Inr [BoundedLoopCount name]
     | LoadMapFd _ \<Rightarrow> Inr []
     | Packet _ \<Rightarrow> Inr (zero_offset_ctx (Reg 6))
     | Exit _ \<Rightarrow> assert_exit current_label
     | Call call \<Rightarrow> assert_call info current_label call
     | CallLocal _ \<Rightarrow> Inr []
     | Callx func \<Rightarrow> Inr (assert_callx func)
     | Assume a \<Rightarrow> Inr (assert_assume info current_label a)
     | Jmp j \<Rightarrow> Inr (assert_jmp info current_label j)
     | Mem m \<Rightarrow> assert_mem nrw info current_label m
     | Atomic a \<Rightarrow> Inr (assert_atomic current_label a)
     | UnOp u \<Rightarrow> Inr (assert_un u)
     | Bin b \<Rightarrow> Inr (assert_bin b))"

section \<open>What is guarded\<close>

text \<open>
  A memory access through a register is guarded when the register has to be a pointer (or may be a
  number where null is allowed) and the accessed range has to be valid, at the call depth of the
  label. An access through the frame pointer may go unguarded inside of the frame.
\<close>

definition pointer_groups :: "bool \<Rightarrow> type_group set" where
  "pointer_groups or_null = (if or_null then {TG_mem_or_num} else {TG_pointer, TG_mem})"

definition access_guarded ::
  "label_t \<Rightarrow> Assertion set \<Rightarrow> Reg \<Rightarrow> int \<Rightarrow> val \<Rightarrow> bool \<Rightarrow> access_type \<Rightarrow> bool" where
  "access_guarded l as reg off width or_null ty \<longleftrightarrow>
     (\<exists>g \<in> pointer_groups or_null. TypeConstraint reg g \<in> as) \<and>
     ValidAccess \<lparr>va_call_stack_depth = call_stack_depth l, va_reg = reg, va_offset = off, va_width = width,
       va_or_null = or_null, va_access_type = ty\<rparr> \<in> as"

definition in_own_frame :: "deref_t \<Rightarrow> bool" where
  "in_own_frame d \<longleftrightarrow> reg_v (deref_basereg d) = R10_STACK_POINTER \<and>
     - EBPF_SUBPROGRAM_STACK_SIZE \<le> deref_offset d \<and> deref_offset d + deref_width d \<le> 0"

definition frame_rejected :: "label_t \<Rightarrow> Assertion set \<Rightarrow> mem_t \<Rightarrow> bool" where
  "frame_rejected l as m \<longleftrightarrow> reg_v (deref_basereg (mem_access m)) = R10_STACK_POINTER \<and>
     make_valid_access (Some l) (deref_basereg (mem_access m)) (deref_offset (mem_access m))
       (Imm (word_of_int (deref_width (mem_access m)))) False (mem_access_type m) \<in> as"

definition single_guarded :: "arg_single_t list \<Rightarrow> Assertion set \<Rightarrow> arg_single_t \<Rightarrow> bool" where
  "single_guarded args as s \<longleftrightarrow>
     (single_kind s \<in> {Single_PTR_TO_MAP_KEY, Single_PTR_TO_MAP_VALUE} \<longrightarrow>
        TypeConstraint (single_reg s) TG_mem \<in> as \<and>
        (\<exists>fd \<in> set args. single_kind fd = Single_MAP_FD \<and> TypeConstraint (single_reg fd) TG_map_fd \<in> as \<and>
           ValidMapKeyValue (single_reg s) (single_reg fd) (single_kind s = Single_PTR_TO_MAP_KEY) \<in> as)) \<and>
     (single_kind s = Single_PTR_TO_CTX \<longrightarrow>
        TypeConstraint (single_reg s) TG_ctx \<in> as \<and> ZeroCtxOffset (single_reg s) \<in> as)"

definition pair_guarded :: "label_t \<Rightarrow> Assertion set \<Rightarrow> arg_pair_t \<Rightarrow> bool" where
  "pair_guarded l as p \<longleftrightarrow>
     TypeConstraint (pair_size p) TG_number \<in> as \<and> ValidSize (pair_size p) (pair_can_be_zero p) \<in> as \<and>
     access_guarded l as (pair_mem p) 0 (RegV (pair_size p)) (pair_kind p = Pair_PTR_TO_READABLE_MEM_OR_NULL)
       (if pair_kind p = Pair_PTR_TO_WRITABLE_MEM then Access_write else Access_read)"

definition guarded :: "label_t \<Rightarrow> Assertion set \<Rightarrow> Instruction \<Rightarrow> bool" where
  "guarded l as ins \<longleftrightarrow>
    (case ins of
       Mem m \<Rightarrow> in_own_frame (mem_access m) \<or> frame_rejected l as m \<or>
         access_guarded l as (deref_basereg (mem_access m)) (deref_offset (mem_access m))
           (Imm (word_of_int (deref_width (mem_access m)))) False (mem_access_type m)
     | Atomic a \<Rightarrow>
         access_guarded l as (deref_basereg (at_access a)) (deref_offset (at_access a))
           (Imm (word_of_int (deref_width (at_access a)))) False Access_compare
     | Packet p \<Rightarrow> TypeConstraint (Reg 6) TG_ctx \<in> as \<and> ZeroCtxOffset (Reg 6) \<in> as
     | Call c \<Rightarrow> (\<forall>s \<in> set (call_singles c). single_guarded (call_singles c) as s) \<and>
         (\<forall>p \<in> set (call_pairs c). pair_guarded l as p)
     | Bin b \<Rightarrow> (case bin_v b of
           RegV r \<Rightarrow> bin_op b \<in> {Bin_UDIV, Bin_UMOD, Bin_SDIV, Bin_SMOD} \<longrightarrow>
             ValidDivisor r (bin_op b \<in> {Bin_SDIV, Bin_SMOD}) \<in> as
         | Imm _ \<Rightarrow> True)
     | Callx r \<Rightarrow> FuncConstraint r \<in> as
     | IncrementLoopCounter c \<Rightarrow> BoundedLoopCount c \<in> as
     | _ \<Rightarrow> True)"

lemma assert_pair_guarded: "set (assert_pair (Some l) p) \<subseteq> as \<Longrightarrow> pair_guarded l as p"
  by (cases "pair_kind p")
     (auto simp: assert_pair_def pair_guarded_def access_guarded_def pointer_groups_def make_valid_access_def)

lemma single_guarded_mono: "single_guarded args as s \<Longrightarrow> set args \<subseteq> set args' \<Longrightarrow> as \<subseteq> as' \<Longrightarrow> single_guarded args' as' s"
  unfolding single_guarded_def by blast

text \<open>The invariant of the loop: the descriptor register it carries belongs to a map argument seen before.\<close>

lemma assert_singles_guarded:
  assumes "assert_singles info fd args = Inr as"
    and "\<forall>r. fd = Some r \<longrightarrow> (\<exists>m \<in> set seen. single_kind m = Single_MAP_FD \<and> single_reg m = r \<and> TypeConstraint r TG_map_fd \<in> old)"
    and "s \<in> set args"
  shows "single_guarded (seen @ args) (old \<union> set as) s"
  using assms
proof (induction args arbitrary: fd as seen old)
  case (Cons a args)
  obtain xs fd' ys where step: "assert_single info fd a = Inr (xs, fd')" and rest: "assert_singles info fd' args = Inr ys"
    and as: "as = xs @ ys" using Cons.prems(1) by (auto simp: bindE_eq_Inr_iff)
  have fd': "\<forall>r. fd' = Some r \<longrightarrow>
      (\<exists>m \<in> set (seen @ [a]). single_kind m = Single_MAP_FD \<and> single_reg m = r \<and> TypeConstraint r TG_map_fd \<in> old \<union> set xs)"
    using step Cons.prems(2) by (auto simp: assert_single_def split: arg_single_kind.splits option.splits if_splits)
  show ?case
  proof (cases "s = a")
    case True
    then show ?thesis
      using step Cons.prems(2) as
      by (auto simp: assert_single_def single_guarded_def zero_offset_ctx_def split: arg_single_kind.splits option.splits)
  next
    case False
    then have "s \<in> set args" using Cons.prems(3) by simp
    from Cons.IH [OF rest fd' this] show ?thesis by (simp add: as Un_assoc)
  qed
qed simp

lemma assert_mem_guarded:
  assumes "gsl_narrow_spec nrw" "assert_mem nrw info (Some l) m = Inr as" "deref_width (mem_access m) < 2 ^ 31"
  shows "guarded l (set as) (Mem m)"
proof -
  let ?w = "deref_width (mem_access m)"
  have w: "0 \<le> ?w" using assms(1,2) by (auto simp: assert_mem_def gsl_narrowD opt_to_res_def split: if_splits)
  have s: "sint (ucast (word_of_int ?w :: u64) :: i32) = ?w"
    using w assms(3) by (simp add: unsigned_of_int signed_of_int take_bit_int_eq_self signed_take_bit_int_eq_self)
  show ?thesis
    using assms(1,2) w s
    by (auto simp: assert_mem_def gsl_narrowD opt_to_res_def Let_def guarded_def in_own_frame_def frame_rejected_def
        access_guarded_def pointer_groups_def make_valid_access_def split: if_splits)
qed

lemma atomic_width:
  assumes "w \<in> {4, 8}"
  shows "(ucast (word_of_int w :: u32) :: u64) = word_of_int w"
  using assms by auto

section \<open>Properties\<close>


definition example_load :: Instruction where
  "example_load = Mem \<lparr>mem_access = \<lparr>deref_width = 4, deref_basereg = Reg 1, deref_offset = 8\<rparr>,
     mem_value = RegV (Reg 2), mem_is_load = True\<rparr>"


end
