(* ===== verification/Crab_Cfg.thy ===== *)
theory Crab_Cfg
  imports Std_Containers Ebpf_Assertions
begin

text \<open>
  \<^verbatim>\<open>crab/cfg.hpp\<close> and the graph construction of \<^verbatim>\<open>asm_cfg.cpp\<close>: the control-flow graph with its
  ordered neighbour sets, the builder operations, the two passes that turn labelled instructions
  into a graph and inline local calls, and the basic blocks. Labels are ordered member by member,
  as the defaulted comparison of \<^verbatim>\<open>label_t\<close> does.
\<close>

section \<open>The order and the text of labels\<close>

definition label_key :: "'a label_t_scheme \<Rightarrow> string \<times> int \<times> int \<times> string \<times> 'a" where
  "label_key l = (stack_frame_prefix l, lbl_from l, lbl_to l, special_label l, label_t.more l)"

lemma label_key_inject [simp]: "label_key l = label_key m \<longleftrightarrow> l = m"
  by (cases l; cases m) (auto simp: label_key_def)

instantiation label_t_ext :: (linorder) linorder
begin

definition less_eq_label_t_ext :: "'a label_t_scheme \<Rightarrow> 'a label_t_scheme \<Rightarrow> bool" where
  "less_eq_label_t_ext l m \<longleftrightarrow> label_key l \<le> label_key m"

definition less_label_t_ext :: "'a label_t_scheme \<Rightarrow> 'a label_t_scheme \<Rightarrow> bool" where
  "less_label_t_ext l m \<longleftrightarrow> label_key l < label_key m"

instance
  by standard (auto simp: less_eq_label_t_ext_def less_label_t_ext_def less_le_not_le intro: order_trans)

end

definition label_to_string :: "label_t \<Rightarrow> string" where
  "label_to_string l =
    (if l = entry_label then ''entry''
     else if l = exit_label then ''exit''
     else (if stack_frame_prefix l \<noteq> [] then stack_frame_prefix l @ [STACK_FRAME_DELIMITER] else []) @
          int_to_string (lbl_from l) @
          (if lbl_to l \<noteq> - 1 then '':'' @ int_to_string (lbl_to l) else []) @
          (if special_label l \<noteq> [] then '' ('' @ special_label l @ '')'' else []))"

section \<open>The graph\<close>

record adjacent_t =
  adj_parents :: "label_t oset"
  adj_children :: "label_t oset"

record cfg_t =
  neighbours :: "(label_t, adjacent_t) omap"
  instructions :: "(label_t, guarded_instruction) omap"

definition no_neighbours :: adjacent_t where
  "no_neighbours = \<lparr>adj_parents = [], adj_children = []\<rparr>"

definition unguarded :: "Instruction \<Rightarrow> guarded_instruction" where
  "unguarded ins = \<lparr>cmd = ins, preconditions = []\<rparr>"

definition empty_cfg :: cfg_t where
  "empty_cfg =
     \<lparr>neighbours = [(entry_label, no_neighbours), (exit_label, no_neighbours)],
      instructions = [(entry_label, unguarded (Undefined 0)), (exit_label, unguarded (Undefined 0))]\<rparr>"

definition not_in_cfg :: "label_t \<Rightarrow> exn" where
  "not_in_cfg l = RuntimeError (''Label '' @ label_to_string l @ '' not found in the CFG: '')"

definition get_node :: "cfg_t \<Rightarrow> label_t \<Rightarrow> adjacent_t res" where
  "get_node cfg l = opt_to_res (not_in_cfg l) (map_of (neighbours cfg) l)"

definition instruction_at :: "cfg_t \<Rightarrow> label_t \<Rightarrow> Instruction res" where
  "instruction_at cfg l = bindE (opt_to_res (not_in_cfg l) (map_of (instructions cfg) l)) (\<lambda>g. Inr (cmd g))"

definition set_instruction :: "cfg_t \<Rightarrow> label_t \<Rightarrow> Instruction \<Rightarrow> cfg_t res" where
  "set_instruction cfg l ins =
     bindE (opt_to_res (not_in_cfg l) (map_of (instructions cfg) l)) (\<lambda>g.
       Inr (cfg\<lparr>instructions := omap_put l (g\<lparr>cmd := ins\<rparr>) (instructions cfg)\<rparr>))"

definition set_assertions :: "cfg_t \<Rightarrow> label_t \<Rightarrow> Assertion list \<Rightarrow> cfg_t res" where
  "set_assertions cfg l as =
     bindE (opt_to_res (not_in_cfg l) (map_of (instructions cfg) l)) (\<lambda>g.
       Inr (cfg\<lparr>instructions := omap_put l (g\<lparr>preconditions := as\<rparr>) (instructions cfg)\<rparr>))"

definition assertions_at :: "cfg_t \<Rightarrow> label_t \<Rightarrow> Assertion list res" where
  "assertions_at cfg l =
     bindE (opt_to_res (not_in_cfg l) (map_of (instructions cfg) l)) (\<lambda>g. Inr (preconditions g))"

definition children_of :: "cfg_t \<Rightarrow> label_t \<Rightarrow> label_t oset res" where
  "children_of cfg l = bindE (get_node cfg l) (\<lambda>n. Inr (adj_children n))"

definition parents_of :: "cfg_t \<Rightarrow> label_t \<Rightarrow> label_t oset res" where
  "parents_of cfg l = bindE (get_node cfg l) (\<lambda>n. Inr (adj_parents n))"

definition cfg_labels :: "cfg_t \<Rightarrow> label_t list" where
  "cfg_labels cfg = omap_keys (neighbours cfg)"

definition cfg_contains :: "cfg_t \<Rightarrow> label_t \<Rightarrow> bool" where
  "cfg_contains cfg l \<longleftrightarrow> l \<in> set (cfg_labels cfg)"

definition in_degree :: "cfg_t \<Rightarrow> label_t \<Rightarrow> nat res" where
  "in_degree cfg l = bindE (get_node cfg l) (\<lambda>n. Inr (length (adj_parents n)))"

definition out_degree :: "cfg_t \<Rightarrow> label_t \<Rightarrow> nat res" where
  "out_degree cfg l = bindE (get_node cfg l) (\<lambda>n. Inr (length (adj_children n)))"

definition get_child :: "cfg_t \<Rightarrow> label_t \<Rightarrow> label_t res" where
  "get_child cfg l =
     bindE (children_of cfg l) (\<lambda>cs.
       if length cs \<noteq> 1 then Inl (RuntimeError (''Label '' @ label_to_string l @ '' does not have a single child''))
       else Inr (hd cs))"

definition get_parent :: "cfg_t \<Rightarrow> label_t \<Rightarrow> label_t res" where
  "get_parent cfg l =
     bindE (parents_of cfg l) (\<lambda>ps.
       if length ps \<noteq> 1 then Inl (RuntimeError (''Label '' @ label_to_string l @ '' does not have a single parent''))
       else Inr (hd ps))"

definition num_siblings :: "cfg_t \<Rightarrow> label_t \<Rightarrow> nat res" where
  "num_siblings cfg l = bindE (get_parent cfg l) (out_degree cfg)"

section \<open>The builder\<close>

definition cfg_insert :: "cfg_t \<Rightarrow> label_t \<Rightarrow> guarded_instruction \<Rightarrow> cfg_t res" where
  "cfg_insert cfg l ins =
    (if cfg_contains cfg l then Inl (RuntimeError (''Label '' @ label_to_string l @ '' already exists''))
     else Inr (cfg\<lparr>neighbours := omap_put l no_neighbours (neighbours cfg),
                   instructions := omap_put l ins (instructions cfg)\<rparr>))"

definition add_child :: "cfg_t \<Rightarrow> label_t \<Rightarrow> label_t \<Rightarrow> cfg_t res" where
  "add_child cfg a b =
    (if b = entry_label \<or> a = exit_label then Inl AssertionFailure
     else
       bindE (omap_at (neighbours cfg) a) (\<lambda>na.
       let cfg1 = cfg\<lparr>neighbours := omap_put a (na\<lparr>adj_children := oset_insert b (adj_children na)\<rparr>) (neighbours cfg)\<rparr> in
       bindE (omap_at (neighbours cfg1) b) (\<lambda>nb.
         Inr (cfg1\<lparr>neighbours := omap_put b (nb\<lparr>adj_parents := oset_insert a (adj_parents nb)\<rparr>) (neighbours cfg1)\<rparr>))))"

definition remove_child :: "cfg_t \<Rightarrow> label_t \<Rightarrow> label_t \<Rightarrow> cfg_t res" where
  "remove_child cfg a b =
     bindE (get_node cfg a) (\<lambda>na.
     let cfg1 = cfg\<lparr>neighbours := omap_put a (na\<lparr>adj_children := oset_erase b (adj_children na)\<rparr>) (neighbours cfg)\<rparr> in
     bindE (get_node cfg1 b) (\<lambda>nb.
       Inr (cfg1\<lparr>neighbours := omap_put b (nb\<lparr>adj_parents := oset_erase a (adj_parents nb)\<rparr>) (neighbours cfg1)\<rparr>)))"

definition erase_parent :: "label_t \<Rightarrow> cfg_t \<Rightarrow> label_t \<Rightarrow> cfg_t res" where
  "erase_parent prev_label cfg next_label =
     bindE (get_node cfg next_label) (\<lambda>n.
       Inr (cfg\<lparr>neighbours := omap_put next_label (n\<lparr>adj_parents := oset_erase prev_label (adj_parents n)\<rparr>) (neighbours cfg)\<rparr>))"

definition insert_after :: "cfg_t \<Rightarrow> label_t \<Rightarrow> label_t \<Rightarrow> guarded_instruction \<Rightarrow> cfg_t res" where
  "insert_after cfg prev_label new_label ins =
    (if prev_label = new_label then Inl (RuntimeError (''Cannot insert after the same label '' @ label_to_string new_label))
     else
       bindE (get_node cfg prev_label) (\<lambda>n.
       let prev_children = adj_children n;
           cfg1 = cfg\<lparr>neighbours := omap_put prev_label (n\<lparr>adj_children := []\<rparr>) (neighbours cfg)\<rparr> in
       bindE (foldE (erase_parent prev_label) cfg1 prev_children) (\<lambda>cfg2.
       bindE (cfg_insert cfg2 new_label ins) (\<lambda>cfg3.
         foldE (\<lambda>c next_label. bindE (add_child c prev_label new_label) (\<lambda>c'. add_child c' new_label next_label))
           cfg3 prev_children))))"

definition insert_jump :: "cfg_t \<Rightarrow> label_t \<Rightarrow> label_t \<Rightarrow> guarded_instruction \<Rightarrow> (label_t \<times> cfg_t) res" where
  "insert_jump cfg from_label to_label ins =
    (let jump_label = make_jump from_label to_label in
     if cfg_contains cfg jump_label
     then Inl (RuntimeError (''Jump label '' @ label_to_string jump_label @ '' already exists''))
     else
       bindE (cfg_insert cfg jump_label ins) (\<lambda>c1.
       bindE (add_child c1 from_label jump_label) (\<lambda>c2.
       bindE (add_child c2 jump_label to_label) (\<lambda>c3. Inr (jump_label, c3)))))"

section \<open>Conditions and fall-through\<close>

primrec reverse_op :: "cond_op_t \<Rightarrow> cond_op_t" where
  "reverse_op Cond_EQ = Cond_NE"
| "reverse_op Cond_NE = Cond_EQ"
| "reverse_op Cond_GE = Cond_LT"
| "reverse_op Cond_LT = Cond_GE"
| "reverse_op Cond_SGE = Cond_SLT"
| "reverse_op Cond_SLT = Cond_SGE"
| "reverse_op Cond_LE = Cond_GT"
| "reverse_op Cond_GT = Cond_LE"
| "reverse_op Cond_SLE = Cond_SGT"
| "reverse_op Cond_SGT = Cond_SLE"
| "reverse_op Cond_SET = Cond_NSET"
| "reverse_op Cond_NSET = Cond_SET"

definition reverse_cond :: "condition_t \<Rightarrow> condition_t" where
  "reverse_cond c =
     \<lparr>cond_op = reverse_op (cond_op c), cond_left = cond_left c, cond_right = cond_right c, cond_is64 = cond_is64 c\<rparr>"

definition has_fall :: "Instruction \<Rightarrow> bool" where
  "has_fall ins =
    (case ins of Exit _ \<Rightarrow> False | Jmp j \<Rightarrow> jmp_cond j \<noteq> None | _ \<Rightarrow> True)"

section \<open>Which labels a graph has\<close>

lemma bindE_cong [fundef_cong]:
  "m = m' \<Longrightarrow> (\<And>a. m' = Inr a \<Longrightarrow> f a = g a) \<Longrightarrow> bindE m f = bindE m' g"
  by (cases m') auto

lemma opt_to_res_Inr [simp]: "opt_to_res e x = Inr a \<longleftrightarrow> x = Some a"
  by (simp add: opt_to_res_def split: option.splits)

definition instr_labels :: "cfg_t \<Rightarrow> label_t set" where
  "instr_labels cfg = set (omap_keys (instructions cfg))"

definition node_labels :: "cfg_t \<Rightarrow> label_t set" where
  "node_labels cfg = set (cfg_labels cfg)"

lemma instruction_at_label: "instruction_at cfg l = Inr i \<Longrightarrow> l \<in> instr_labels cfg"
  by (auto simp: instruction_at_def instr_labels_def bindE_eq_Inr_iff in_omap_keys)

lemma cfg_insert_labels:
  assumes "cfg_insert cfg l g = Inr cfg'"
  shows "node_labels cfg' = insert l (node_labels cfg)" "instr_labels cfg' = insert l (instr_labels cfg)"
    "l \<notin> node_labels cfg"
  using assms by (auto simp: cfg_insert_def node_labels_def instr_labels_def cfg_labels_def cfg_contains_def split: if_splits)

lemma add_child_Inr:
  assumes "add_child cfg a b = Inr cfg'"
  obtains na nb where "b \<noteq> entry_label" "a \<noteq> exit_label" "map_of (neighbours cfg) a = Some na"
    "((map_of (neighbours cfg))(a \<mapsto> na\<lparr>adj_children := oset_insert b (adj_children na)\<rparr>)) b = Some nb"
    "cfg' = cfg\<lparr>neighbours := omap_put b (nb\<lparr>adj_parents := oset_insert a (adj_parents nb)\<rparr>)
       (omap_put a (na\<lparr>adj_children := oset_insert b (adj_children na)\<rparr>) (neighbours cfg))\<rparr>"
proof -
  have ne: "\<not> (b = entry_label \<or> a = exit_label)" using assms by (auto simp: add_child_def)
  with assms obtain na where na: "map_of (neighbours cfg) a = Some na"
    by (auto simp: add_child_def omap_at_def bindE_eq_Inr_iff)
  have "\<exists>nb. ((map_of (neighbours cfg))(a \<mapsto> na\<lparr>adj_children := oset_insert b (adj_children na)\<rparr>)) b = Some nb \<and>
    cfg' = cfg\<lparr>neighbours := omap_put b (nb\<lparr>adj_parents := oset_insert a (adj_parents nb)\<rparr>)
       (omap_put a (na\<lparr>adj_children := oset_insert b (adj_children na)\<rparr>) (neighbours cfg))\<rparr>"
    using assms ne na by (simp add: add_child_def omap_at_def bindE_eq_Inr_iff Let_def eq_commute [of cfg'] del: fun_upd_apply)
  with that ne na show ?thesis by blast
qed

lemma add_child_labels:
  assumes "add_child cfg a b = Inr cfg'"
  shows "node_labels cfg' = node_labels cfg" "instr_labels cfg' = instr_labels cfg"
    "a \<in> node_labels cfg" "b \<in> node_labels cfg"
proof -
  from assms obtain na nb where *: "map_of (neighbours cfg) a = Some na"
    "((map_of (neighbours cfg))(a \<mapsto> na\<lparr>adj_children := oset_insert b (adj_children na)\<rparr>)) b = Some nb"
    "cfg' = cfg\<lparr>neighbours := omap_put b (nb\<lparr>adj_parents := oset_insert a (adj_parents nb)\<rparr>)
       (omap_put a (na\<lparr>adj_children := oset_insert b (adj_children na)\<rparr>) (neighbours cfg))\<rparr>"
    by (rule add_child_Inr)
  from *(1) show a: "a \<in> node_labels cfg" by (auto simp: node_labels_def cfg_labels_def in_omap_keys)
  with *(2) show b: "b \<in> node_labels cfg" by (cases "a = b") (auto simp: node_labels_def cfg_labels_def in_omap_keys)
  show "node_labels cfg' = node_labels cfg" "instr_labels cfg' = instr_labels cfg"
    using a b by (auto simp: *(3) node_labels_def cfg_labels_def instr_labels_def)
qed

section \<open>Inlining of local calls\<close>

definition macro_label :: "string \<Rightarrow> label_t \<Rightarrow> label_t" where
  "macro_label prefix l = make_label (lbl_from l) (lbl_to l) prefix"

definition clone_instruction :: "string \<Rightarrow> Instruction \<Rightarrow> Instruction" where
  "clone_instruction prefix inst =
    (case inst of Exit _ \<Rightarrow> Exit prefix | Call c \<Rightarrow> Call (c\<lparr>call_prefix := prefix\<rparr>) | _ \<Rightarrow> inst)"

definition clone_node :: "label_t \<Rightarrow> bool \<Rightarrow> label_t \<Rightarrow> cfg_t \<Rightarrow> cfg_t res" where
  "clone_node caller_label first ml cfg =
    (let prefix = label_to_string caller_label; l = macro_label prefix ml in
     bindE (instruction_at cfg ml) (\<lambda>inst.
     bindE (cfg_insert cfg l (unguarded (clone_instruction prefix inst))) (\<lambda>c1.
     bindE (if first then add_child c1 caller_label l else Inr c1) (\<lambda>c2.
     bindE (parents_of c2 ml) (\<lambda>prevs.
       foldE (\<lambda>c prev. if cfg_contains c (macro_label prefix prev) then add_child c (macro_label prefix prev) l else Inr c)
         c2 prevs)))))"

definition macro_successor ::
  "label_t \<Rightarrow> label_t \<Rightarrow> label_t \<Rightarrow> label_t oset \<times> label_t oset \<times> cfg_t \<Rightarrow> label_t \<Rightarrow> (label_t oset \<times> label_t oset \<times> cfg_t) res" where
  "macro_successor exit_to ml l = (\<lambda>(todo, seen, cfg) next_label.
     if next_label = exit_label then bindE (add_child cfg l exit_to) (\<lambda>c. Inr (todo, seen, c))
     else if next_label \<notin> set seen then Inr (oset_insert next_label todo, oset_insert ml seen, cfg)
     else Inr (todo, seen, cfg))"

definition walk_successors ::
  "label_t \<Rightarrow> label_t \<Rightarrow> label_t \<Rightarrow> label_t oset \<Rightarrow> label_t oset \<Rightarrow> cfg_t \<Rightarrow> (label_t oset \<times> label_t oset \<times> cfg_t) res" where
  "walk_successors caller_label exit_to ml todo seen cfg =
     bindE (children_of cfg ml) (\<lambda>nexts.
       foldE (macro_successor exit_to ml (macro_label (label_to_string caller_label) ml)) (todo, seen, cfg) nexts)"

lemma clone_node_labels:
  assumes "clone_node caller first ml cfg = Inr cfg'" and l: "l = macro_label (label_to_string caller) ml"
  shows "node_labels cfg' = insert l (node_labels cfg)" "instr_labels cfg' = insert l (instr_labels cfg)"
    "l \<notin> node_labels cfg" "ml \<in> instr_labels cfg"
proof -
  obtain inst c1 c2 prevs where *: "instruction_at cfg ml = Inr inst"
    "cfg_insert cfg l (unguarded (clone_instruction (label_to_string caller) inst)) = Inr c1"
    "(if first then add_child c1 caller l else Inr c1) = Inr c2"
    "foldE (\<lambda>c prev. if cfg_contains c (macro_label (label_to_string caller) prev)
        then add_child c (macro_label (label_to_string caller) prev) l else Inr c) c2 prevs = Inr cfg'"
    using assms(1) unfolding clone_node_def Let_def l [symmetric] bindE_eq_Inr_iff by blast
  have c2: "node_labels c2 = node_labels c1" "instr_labels c2 = instr_labels c1"
    using *(3) add_child_labels by (auto split: if_splits)
  have "node_labels cfg' = node_labels c2 \<and> instr_labels cfg' = instr_labels c2"
    by (rule foldE_invariant [OF *(4)]) (auto simp: add_child_labels split: if_splits)
  then show "node_labels cfg' = insert l (node_labels cfg)" "instr_labels cfg' = insert l (instr_labels cfg)"
    "l \<notin> node_labels cfg"
    using c2 cfg_insert_labels [OF *(2)] by auto
  show "ml \<in> instr_labels cfg" using *(1) by (rule instruction_at_label)
qed

lemma macro_successor_labels:
  assumes "macro_successor exit_to ml l s next_label = Inr s'"
  shows "node_labels (snd (snd s')) = node_labels (snd (snd s))" "instr_labels (snd (snd s')) = instr_labels (snd (snd s))"
  using assms add_child_labels by (auto simp: macro_successor_def bindE_eq_Inr_iff split: prod.splits if_splits)

lemma walk_successors_labels:
  assumes "walk_successors caller exit_to ml todo seen cfg = Inr (todo', seen', cfg')"
  shows "node_labels cfg' = node_labels cfg" "instr_labels cfg' = instr_labels cfg"
proof -
  obtain nexts where f: "foldE (macro_successor exit_to ml (macro_label (label_to_string caller) ml)) (todo, seen, cfg) nexts
      = Inr (todo', seen', cfg')"
    using assms by (auto simp: walk_successors_def bindE_eq_Inr_iff)
  have "node_labels (snd (snd (todo', seen', cfg'))) = node_labels cfg \<and> instr_labels (snd (snd (todo', seen', cfg'))) = instr_labels cfg"
    by (rule foldE_invariant [OF f]) (auto dest: macro_successor_labels)
  then show "node_labels cfg' = node_labels cfg" "instr_labels cfg' = instr_labels cfg" by simp_all
qed

text \<open>
  Every round of the work list clones a node that had no clone yet, or throws; the number of
  instructions without a clone bounds the rounds.
\<close>

definition uncloned :: "string \<Rightarrow> cfg_t \<Rightarrow> nat" where
  "uncloned prefix cfg = card {m \<in> instr_labels cfg. macro_label prefix m \<notin> node_labels cfg}"

lemma macro_label_idem [simp]: "macro_label prefix (macro_label prefix m) = macro_label prefix m"
  by (simp add: macro_label_def make_label_def)

lemma uncloned_decreases:
  assumes "clone_node caller first ml cfg = Inr cfg1" "walk_successors caller exit_to ml todo seen cfg1 = Inr (todo', seen', cfg2)"
  shows "uncloned (label_to_string caller) cfg2 < uncloned (label_to_string caller) cfg"
proof -
  let ?p = "label_to_string caller"
  note c1 = clone_node_labels [OF assms(1) refl] and c2 = walk_successors_labels [OF assms(2)]
  have sub: "{m \<in> instr_labels cfg2. macro_label ?p m \<notin> node_labels cfg2} \<subseteq> {m \<in> instr_labels cfg. macro_label ?p m \<notin> node_labels cfg}"
    using c1 c2 by auto
  moreover have "ml \<in> {m \<in> instr_labels cfg. macro_label ?p m \<notin> node_labels cfg}"
    "ml \<notin> {m \<in> instr_labels cfg2. macro_label ?p m \<notin> node_labels cfg2}"
    using c1 c2 by auto
  ultimately have "{m \<in> instr_labels cfg2. macro_label ?p m \<notin> node_labels cfg2} \<subset> {m \<in> instr_labels cfg. macro_label ?p m \<notin> node_labels cfg}"
    by blast
  then show ?thesis unfolding uncloned_def by (intro psubset_card_mono) (simp_all add: instr_labels_def)
qed

function macro_loop ::
  "label_t \<Rightarrow> label_t \<Rightarrow> bool \<Rightarrow> label_t oset \<Rightarrow> label_t oset \<Rightarrow> cfg_t \<Rightarrow> (label_t oset \<times> cfg_t) res" where
  "macro_loop caller_label exit_to first todo seen cfg =
    (case todo of
       [] \<Rightarrow> Inr (seen, cfg)
     | ml # rest \<Rightarrow>
         if label_to_string caller_label = stack_frame_prefix ml
         then Inl (InvalidControlFlow (label_to_string caller_label @ '': illegal recursion''))
         else
           bindE (clone_node caller_label first ml cfg) (\<lambda>cfg1.
           bindE (walk_successors caller_label exit_to ml rest seen cfg1) (\<lambda>(todo', seen', cfg2).
             macro_loop caller_label exit_to False todo' seen' cfg2)))"
  by pat_completeness auto
termination
  by (relation "measure (\<lambda>(caller, exit_to, first, todo, seen, cfg). uncloned (label_to_string caller) cfg)")
     (auto simp: uncloned_decreases)

declare macro_loop.simps [simp del]

definition inline_macro :: "cfg_t \<Rightarrow> label_t \<Rightarrow> label_t \<Rightarrow> (label_t oset \<times> cfg_t) res" where
  "inline_macro cfg caller_label entry =
     bindE (get_child cfg caller_label) (\<lambda>exit_to.
     bindE (instruction_at cfg caller_label) (\<lambda>inst.
     bindE (case inst of
              CallLocal c \<Rightarrow> set_instruction cfg caller_label (CallLocal (c\<lparr>cl_prefix := label_to_string caller_label\<rparr>))
            | _ \<Rightarrow> Inr cfg) (\<lambda>cfg1.
     bindE (macro_loop caller_label exit_to True [entry] [entry] cfg1) (\<lambda>(seen, cfg2).
     bindE (remove_child cfg2 caller_label exit_to) (\<lambda>cfg3. Inr (seen, cfg3))))))"

definition slashes :: "string \<Rightarrow> nat" where
  "slashes s = count_list s STACK_FRAME_DELIMITER"

lemma label_to_string_not_Nil: "label_to_string l \<noteq> []"
  by (auto simp: label_to_string_def int_to_string_def nat_to_base.simps [of 10])

lemma slashes_macro_label:
  assumes "p \<noteq> []"
  shows "slashes p < slashes (label_to_string (macro_label p l))"
proof -
  have "macro_label p l \<noteq> entry_label" "macro_label p l \<noteq> exit_label"
    using assms by (auto simp: macro_label_def make_label_def entry_label_def exit_label_def label_def)
  then show ?thesis using assms by (simp add: label_to_string_def slashes_def macro_label_def make_label_def)
qed

text \<open>
  The recursion into nested calls: the label of a nested call has one more separator than its
  caller, and calls deeper than the limit throw.
\<close>

function add_cfg_nodes :: "cfg_t \<Rightarrow> label_t \<Rightarrow> label_t \<Rightarrow> cfg_t res"
  and add_nested_nodes :: "cfg_t \<Rightarrow> label_t \<Rightarrow> label_t oset \<Rightarrow> cfg_t res" where
  "add_cfg_nodes cfg caller_label entry =
     bindE (inline_macro cfg caller_label entry) (\<lambda>(seen, cfg'). add_nested_nodes cfg' caller_label seen)"
| "add_nested_nodes cfg caller_label [] = Inr cfg"
| "add_nested_nodes cfg caller_label (ml # mls) =
    (let caller_label_str = label_to_string caller_label; l = macro_label caller_label_str ml in
     bindE (instruction_at cfg l) (\<lambda>inst.
     bindE (case inst of
              CallLocal c \<Rightarrow>
                if int (slashes caller_label_str) + 2 \<ge> MAX_CALL_STACK_FRAMES
                then Inl (InvalidControlFlow ''too many call stack frames'')
                else add_cfg_nodes cfg l (cl_target c)
            | _ \<Rightarrow> Inr cfg) (\<lambda>cfg'.
       add_nested_nodes cfg' caller_label mls)))"
  by pat_completeness auto
termination
proof (relation "measures
    [\<lambda>x. case x of Inl (cfg, l, e) \<Rightarrow> 9 - slashes (label_to_string l) | Inr (cfg, l, ls) \<Rightarrow> 9 - slashes (label_to_string l),
     \<lambda>x. case x of Inl _ \<Rightarrow> 1 | Inr _ \<Rightarrow> 0,
     \<lambda>x. case x of Inl _ \<Rightarrow> 0 | Inr (cfg, l, ls) \<Rightarrow> length ls]", goal_cases)
  case (3 cfg l ml mls s l' inst c)
  then have "slashes (label_to_string l) < slashes (label_to_string l')" "slashes (label_to_string l) < 9"
    using slashes_macro_label [OF label_to_string_not_Nil] by (auto simp: MAX_CALL_STACK_FRAMES_def)
  then show ?case by simp
qed auto

declare add_cfg_nodes.simps [simp del] add_nested_nodes.simps [simp del]

section \<open>From instructions to a graph\<close>

definition insert_instruction :: "cfg_t \<Rightarrow> LabeledInstruction \<Rightarrow> cfg_t res" where
  "insert_instruction cfg = (\<lambda>(l, inst, _).
     case inst of Undefined _ \<Rightarrow> Inr cfg | _ \<Rightarrow> cfg_insert cfg l (unguarded inst))"

definition connect_jump :: "cfg_t \<Rightarrow> label_t \<Rightarrow> label_t \<Rightarrow> jmp_t \<Rightarrow> cfg_t res" where
  "connect_jump cfg l fallthrough jmp =
    (case jmp_cond jmp of
       None \<Rightarrow> add_child cfg l (jmp_target jmp)
     | Some cond \<Rightarrow>
         if jmp_target jmp = fallthrough then add_child cfg l fallthrough
         else if \<not> cfg_contains cfg (jmp_target jmp)
         then Inl (InvalidControlFlow (''jump to undefined label '' @ label_to_string (jmp_target jmp)))
         else
           bindE (insert_jump cfg l (jmp_target jmp) (unguarded (Assume \<lparr>assume_cond = cond, assume_is_implicit = True\<rparr>))) (\<lambda>(_, c1).
           bindE (insert_jump c1 l fallthrough (unguarded (Assume \<lparr>assume_cond = reverse_cond cond, assume_is_implicit = True\<rparr>)))
             (\<lambda>(_, c2). Inr c2)))"

definition connect_instruction :: "cfg_t \<Rightarrow> label_t \<Rightarrow> label_t \<Rightarrow> Instruction \<Rightarrow> cfg_t res" where
  "connect_instruction cfg l fallthrough inst =
    (case inst of
       Jmp jmp \<Rightarrow> connect_jump cfg l fallthrough jmp
     | Exit _ \<Rightarrow> add_child cfg l exit_label
     | _ \<Rightarrow> add_child cfg l fallthrough)"

fun connect_instructions :: "bool \<Rightarrow> cfg_t \<Rightarrow> InstructionSeq \<Rightarrow> cfg_t res" where
  "connect_instructions must_exit cfg [] = Inr cfg"
| "connect_instructions must_exit cfg ((l, inst, li) # insts) =
    (if (case inst of Undefined _ \<Rightarrow> True | _ \<Rightarrow> False) then connect_instructions must_exit cfg insts
     else if insts = [] \<and> has_fall inst \<and> must_exit then Inl (InvalidControlFlow ''fallthrough in last instruction'')
     else
       bindE (connect_instruction cfg l (case insts of [] \<Rightarrow> exit_label | (l', _) # _ \<Rightarrow> l') inst) (\<lambda>cfg'.
         connect_instructions must_exit cfg' insts))"

definition inline_call :: "cfg_t \<Rightarrow> LabeledInstruction \<Rightarrow> cfg_t res" where
  "inline_call cfg = (\<lambda>(l, inst, _). case inst of CallLocal c \<Rightarrow> add_cfg_nodes cfg l (cl_target c) | _ \<Rightarrow> Inr cfg)"

definition instruction_seq_to_cfg :: "InstructionSeq \<Rightarrow> bool \<Rightarrow> cfg_t res" where
  "instruction_seq_to_cfg insts must_exit =
     bindE (foldE insert_instruction empty_cfg insts) (\<lambda>cfg1.
     if insts = [] then Inl (InvalidControlFlow ''empty instruction sequence'')
     else
       bindE (add_child cfg1 entry_label (fst (hd insts))) (\<lambda>cfg2.
       bindE (connect_instructions must_exit cfg2 insts) (\<lambda>cfg3.
         foldE inline_call cfg3 insts)))"

definition cfg_from_adjacency_list :: "(label_t, label_t list) omap \<Rightarrow> cfg_t res" where
  "cfg_from_adjacency_list adj_list =
     bindE (foldE (\<lambda>c (l, _). if l = entry_label \<or> l = exit_label then Inr c else cfg_insert c l (unguarded (Undefined 0)))
        empty_cfg adj_list) (\<lambda>c1.
       foldE (\<lambda>c (l, children). foldE (\<lambda>c' child. add_child c' l child) c children) c1 adj_list)"

section \<open>Well-formed graphs\<close>

text \<open>
  The edges of a graph, and the invariant of the builder: both maps are ordered and have the same
  labels, the neighbour sets are ordered, an edge is recorded at both of its ends, nothing leads to
  the entry and nothing leaves the exit.
\<close>

definition succs :: "cfg_t \<Rightarrow> label_t \<Rightarrow> label_t oset" where
  "succs cfg l = (case map_of (neighbours cfg) l of None \<Rightarrow> [] | Some n \<Rightarrow> adj_children n)"

definition preds :: "cfg_t \<Rightarrow> label_t \<Rightarrow> label_t oset" where
  "preds cfg l = (case map_of (neighbours cfg) l of None \<Rightarrow> [] | Some n \<Rightarrow> adj_parents n)"

definition cfg_edges :: "cfg_t \<Rightarrow> (label_t \<times> label_t) set" where
  "cfg_edges cfg = {(a, b). b \<in> set (succs cfg a)}"

definition cfg_shape :: "cfg_t \<Rightarrow> bool" where
  "cfg_shape cfg \<longleftrightarrow> omap_ok (neighbours cfg) \<and> omap_ok (instructions cfg) \<and> node_labels cfg = instr_labels cfg \<and>
     entry_label \<in> node_labels cfg \<and> exit_label \<in> node_labels cfg \<and>
     (\<forall>l. oset_ok (succs cfg l) \<and> oset_ok (preds cfg l)) \<and>
     preds cfg entry_label = [] \<and> succs cfg exit_label = []"

definition cfg_ok :: "cfg_t \<Rightarrow> bool" where
  "cfg_ok cfg \<longleftrightarrow> cfg_shape cfg \<and> (\<forall>a b. b \<in> set (succs cfg a) \<longleftrightarrow> a \<in> set (preds cfg b))"

lemma succs_label: "b \<in> set (succs cfg a) \<Longrightarrow> a \<in> node_labels cfg"
  by (cases "map_of (neighbours cfg) a") (auto simp: succs_def node_labels_def cfg_labels_def in_omap_keys)

lemma preds_label: "a \<in> set (preds cfg b) \<Longrightarrow> b \<in> node_labels cfg"
  by (cases "map_of (neighbours cfg) b") (auto simp: preds_def node_labels_def cfg_labels_def in_omap_keys)

lemma cfg_edge_labels: "cfg_ok cfg \<Longrightarrow> (a, b) \<in> cfg_edges cfg \<Longrightarrow> a \<in> node_labels cfg \<and> b \<in> node_labels cfg"
  using succs_label preds_label by (auto simp: cfg_ok_def cfg_edges_def)

lemma lookup_node: "map_of (neighbours cfg) l = Some n \<Longrightarrow> succs cfg l = adj_children n \<and> preds cfg l = adj_parents n"
  by (simp add: succs_def preds_def)

lemma entry_exit_distinct [simp]: "entry_label \<noteq> exit_label" "exit_label \<noteq> entry_label"
  by (simp_all add: entry_label_def exit_label_def)

lemma empty_cfg_ok [simp]: "cfg_ok empty_cfg"
proof -
  have less: "entry_label < exit_label"
    by (simp add: less_label_t_ext_def label_key_def entry_label_def exit_label_def)
  have none: "succs empty_cfg l = []" "preds empty_cfg l = []" for l
    by (simp_all add: succs_def preds_def empty_cfg_def no_neighbours_def)
  show ?thesis
    using less by (auto simp: cfg_ok_def cfg_shape_def none)
      (auto simp: empty_cfg_def omap_ok_Cons node_labels_def instr_labels_def cfg_labels_def)
qed

lemma cfg_insert_neighbours:
  assumes "cfg_insert cfg l g = Inr cfg'"
  shows "succs cfg' = succs cfg" "preds cfg' = preds cfg"
proof -
  have "map_of (neighbours cfg) l = None"
    using assms by (auto simp: cfg_insert_def cfg_contains_def cfg_labels_def in_omap_keys split: if_splits)
  then show "succs cfg' = succs cfg" "preds cfg' = preds cfg"
    using assms by (auto simp: cfg_insert_def succs_def preds_def no_neighbours_def fun_eq_iff split: if_splits)
qed

lemma cfg_insert_shape: "cfg_insert cfg l g = Inr cfg' \<Longrightarrow> cfg_shape cfg \<Longrightarrow> cfg_shape cfg'"
  using cfg_insert_labels [of cfg l g cfg'] cfg_insert_neighbours [of cfg l g cfg']
  by (auto simp: cfg_shape_def) (auto simp: cfg_insert_def split: if_splits)

lemma cfg_insert_ok: "cfg_insert cfg l g = Inr cfg' \<Longrightarrow> cfg_ok cfg \<Longrightarrow> cfg_ok cfg'"
  using cfg_insert_shape cfg_insert_neighbours by (auto simp: cfg_ok_def)

lemma add_child_neighbours:
  assumes "add_child cfg a b = Inr cfg'"
  shows "succs cfg' = (succs cfg)(a := oset_insert b (succs cfg a))" "preds cfg' = (preds cfg)(b := oset_insert a (preds cfg b))"
proof -
  from assms obtain na nb where *: "map_of (neighbours cfg) a = Some na"
    "((map_of (neighbours cfg))(a \<mapsto> na\<lparr>adj_children := oset_insert b (adj_children na)\<rparr>)) b = Some nb"
    "cfg' = cfg\<lparr>neighbours := omap_put b (nb\<lparr>adj_parents := oset_insert a (adj_parents nb)\<rparr>)
       (omap_put a (na\<lparr>adj_children := oset_insert b (adj_children na)\<rparr>) (neighbours cfg))\<rparr>"
    by (rule add_child_Inr)
  show "succs cfg' = (succs cfg)(a := oset_insert b (succs cfg a))" "preds cfg' = (preds cfg)(b := oset_insert a (preds cfg b))"
    using *(1,2) unfolding *(3) by (cases "a = b"; auto simp: succs_def preds_def fun_eq_iff)+
qed

lemma add_child_ok:
  assumes "add_child cfg a b = Inr cfg'" "cfg_ok cfg"
  shows "cfg_ok cfg'"
proof -
  note n = add_child_neighbours [OF assms(1)] and l = add_child_labels [OF assms(1)]
  from assms(1) obtain na nb where "b \<noteq> entry_label" "a \<noteq> exit_label"
    "cfg' = cfg\<lparr>neighbours := omap_put b (nb\<lparr>adj_parents := oset_insert a (adj_parents nb)\<rparr>)
       (omap_put a (na\<lparr>adj_children := oset_insert b (adj_children na)\<rparr>) (neighbours cfg))\<rparr>"
    by (rule add_child_Inr) blast
  then have "cfg_shape cfg'" using assms(2) n l by (auto simp: cfg_ok_def cfg_shape_def)
  then show ?thesis using assms(2) by (auto simp: cfg_ok_def n)
qed

lemma add_child_edges: "add_child cfg a b = Inr cfg' \<Longrightarrow> cfg_edges cfg' = insert (a, b) (cfg_edges cfg)"
  using add_child_neighbours [of cfg a b cfg'] by (auto simp: cfg_edges_def split: if_splits)

text \<open>Updates of one node.\<close>

lemma put_node_labels:
  "l \<in> node_labels cfg \<Longrightarrow> node_labels (cfg\<lparr>neighbours := omap_put l n (neighbours cfg)\<rparr>) = node_labels cfg"
  "instr_labels (cfg\<lparr>neighbours := m\<rparr>) = instr_labels cfg"
  by (auto simp: node_labels_def cfg_labels_def instr_labels_def)

lemma put_node_neighbours:
  "succs (cfg\<lparr>neighbours := omap_put l n (neighbours cfg)\<rparr>) = (succs cfg)(l := adj_children n)"
  "preds (cfg\<lparr>neighbours := omap_put l n (neighbours cfg)\<rparr>) = (preds cfg)(l := adj_parents n)"
  by (auto simp: succs_def preds_def)

lemma get_node_Inr: "get_node cfg l = Inr n \<longleftrightarrow> map_of (neighbours cfg) l = Some n"
  by (simp add: get_node_def)

lemma get_node_label: "get_node cfg l = Inr n \<Longrightarrow> l \<in> node_labels cfg \<and> succs cfg l = adj_children n \<and> preds cfg l = adj_parents n"
  by (auto simp: get_node_Inr lookup_node node_labels_def cfg_labels_def in_omap_keys)

lemma cfg_shape_osets: "cfg_shape cfg \<Longrightarrow> oset_ok (succs cfg l) \<and> oset_ok (preds cfg l)"
  by (simp add: cfg_shape_def)

lemma cfg_shape_ends: "cfg_shape cfg \<Longrightarrow> preds cfg entry_label = [] \<and> succs cfg exit_label = []"
  by (simp add: cfg_shape_def)

lemma put_node_shape:
  assumes "cfg_shape cfg" "l \<in> node_labels cfg" "oset_ok (adj_children n)" "oset_ok (adj_parents n)"
    "l = entry_label \<Longrightarrow> adj_parents n = []" "l = exit_label \<Longrightarrow> adj_children n = []"
  shows "cfg_shape (cfg\<lparr>neighbours := omap_put l n (neighbours cfg)\<rparr>)"
  using assms by (auto simp: cfg_shape_def put_node_labels put_node_neighbours)

lemma oset_erase_Nil [simp]: "oset_erase x [] = []"
  by (simp add: oset_erase_def)

lemma erase_node_shape:
  assumes "cfg_shape cfg" "get_node cfg l = Inr n"
  shows "cfg_shape (cfg\<lparr>neighbours := omap_put l (n\<lparr>adj_parents := oset_erase x (adj_parents n)\<rparr>) (neighbours cfg)\<rparr>)"
    "cfg_shape (cfg\<lparr>neighbours := omap_put l (n\<lparr>adj_children := oset_erase x (adj_children n)\<rparr>) (neighbours cfg)\<rparr>)"
    "cfg_shape (cfg\<lparr>neighbours := omap_put l (n\<lparr>adj_children := []\<rparr>) (neighbours cfg)\<rparr>)"
  using get_node_label [OF assms(2)] cfg_shape_osets [OF assms(1), of l] cfg_shape_ends [OF assms(1)]
  by (intro put_node_shape [OF assms(1)]; auto)+

lemma remove_child_neighbours:
  assumes "remove_child cfg a b = Inr cfg'"
  shows "succs cfg' = (succs cfg)(a := oset_erase b (succs cfg a))" "preds cfg' = (preds cfg)(b := oset_erase a (preds cfg b))"
    "cfg_shape cfg \<Longrightarrow> cfg_shape cfg'"
proof -
  obtain na where na: "get_node cfg a = Inr na" using assms by (auto simp: remove_child_def bindE_eq_Inr_iff)
  let ?c1 = "cfg\<lparr>neighbours := omap_put a (na\<lparr>adj_children := oset_erase b (adj_children na)\<rparr>) (neighbours cfg)\<rparr>"
  obtain nb where nb: "get_node ?c1 b = Inr nb"
    and cfg': "cfg' = ?c1\<lparr>neighbours := omap_put b (nb\<lparr>adj_parents := oset_erase a (adj_parents nb)\<rparr>) (neighbours ?c1)\<rparr>"
    using assms na by (auto simp: remove_child_def bindE_eq_Inr_iff Let_def)
  note la = get_node_label [OF na] and lb = get_node_label [OF nb]
  have s1: "succs ?c1 = (succs cfg)(a := oset_erase b (succs cfg a))" "preds ?c1 = preds cfg"
    using la by (auto simp: put_node_neighbours)
  show s: "succs cfg' = (succs cfg)(a := oset_erase b (succs cfg a))" "preds cfg' = (preds cfg)(b := oset_erase a (preds cfg b))"
    using s1 lb unfolding cfg' put_node_neighbours by (auto simp: fun_eq_iff split: if_splits)
  assume ok: "cfg_shape cfg"
  show "cfg_shape cfg'"
    unfolding cfg' by (rule erase_node_shape(1) [OF erase_node_shape(2) [OF ok na] nb])
qed

lemma remove_child_ok: "remove_child cfg a b = Inr cfg' \<Longrightarrow> cfg_ok cfg \<Longrightarrow> cfg_ok cfg'"
  using remove_child_neighbours [of cfg a b cfg'] by (auto simp: cfg_ok_def)

lemma set_instruction_neighbours:
  assumes "set_instruction cfg l i = Inr cfg'"
  shows "succs cfg' = succs cfg" "preds cfg' = preds cfg" "node_labels cfg' = node_labels cfg" "instr_labels cfg' = instr_labels cfg"
    "neighbours cfg' = neighbours cfg" "omap_ok (instructions cfg) \<Longrightarrow> omap_ok (instructions cfg')"
  using assms
  by (auto simp: set_instruction_def bindE_eq_Inr_iff succs_def preds_def fun_eq_iff node_labels_def instr_labels_def
      cfg_labels_def in_omap_keys)

lemma set_instruction_ok: "set_instruction cfg l i = Inr cfg' \<Longrightarrow> cfg_ok cfg \<Longrightarrow> cfg_ok cfg'"
  using set_instruction_neighbours [of cfg l i cfg'] by (auto simp: cfg_ok_def cfg_shape_def)

lemma set_assertions_neighbours:
  assumes "set_assertions cfg l as = Inr cfg'"
  shows "succs cfg' = succs cfg" "preds cfg' = preds cfg" "node_labels cfg' = node_labels cfg" "instr_labels cfg' = instr_labels cfg"
    "neighbours cfg' = neighbours cfg" "omap_ok (instructions cfg) \<Longrightarrow> omap_ok (instructions cfg')"
  using assms
  by (auto simp: set_assertions_def bindE_eq_Inr_iff succs_def preds_def fun_eq_iff node_labels_def instr_labels_def
      cfg_labels_def in_omap_keys)

lemma set_assertions_ok: "set_assertions cfg l as = Inr cfg' \<Longrightarrow> cfg_ok cfg \<Longrightarrow> cfg_ok cfg'"
  using set_assertions_neighbours [of cfg l as cfg'] by (auto simp: cfg_ok_def cfg_shape_def)

text \<open>
  Inserting after a node: the outgoing edges of the node are cut at both ends, and come back
  through the new node. In between, the children that are still to be cut have a parent that does
  not have them as children.
\<close>

definition half_cut :: "label_t \<Rightarrow> label_t set \<Rightarrow> cfg_t \<Rightarrow> bool" where
  "half_cut prev_label todo cfg \<longleftrightarrow> cfg_shape cfg \<and> succs cfg prev_label = [] \<and>
     (\<forall>a b. a \<in> set (preds cfg b) \<longleftrightarrow> b \<in> set (succs cfg a) \<or> a = prev_label \<and> b \<in> todo)"

lemma erase_parent_half_cut:
  assumes "erase_parent p cfg x = Inr cfg'" "half_cut p (insert x todo) cfg" "x \<notin> todo"
  shows "half_cut p todo cfg'" "succs cfg' = succs cfg"
proof -
  obtain n where n: "get_node cfg x = Inr n"
    and cfg': "cfg' = cfg\<lparr>neighbours := omap_put x (n\<lparr>adj_parents := oset_erase p (adj_parents n)\<rparr>) (neighbours cfg)\<rparr>"
    using assms(1) by (auto simp: erase_parent_def bindE_eq_Inr_iff)
  note l = get_node_label [OF n]
  have ok: "cfg_shape cfg" using assms(2) by (simp add: half_cut_def)
  have shape: "cfg_shape cfg'"
    unfolding cfg' by (rule erase_node_shape(1) [OF ok n])
  show s: "succs cfg' = succs cfg" using l unfolding cfg' put_node_neighbours by (auto simp: fun_eq_iff)
  have "preds cfg' = (preds cfg)(x := oset_erase p (preds cfg x))"
    using l unfolding cfg' put_node_neighbours by auto
  then show "half_cut p todo cfg'"
    using assms(2,3) shape s by (auto simp: half_cut_def)
qed

lemma erase_parents_half_cut:
  assumes "foldE (erase_parent p) cfg xs = Inr cfg'" "half_cut p (set xs) cfg" "distinct xs"
  shows "half_cut p {} cfg' \<and> succs cfg' = succs cfg"
  using assms
proof (induction xs arbitrary: cfg)
  case (Cons x xs)
  from Cons.prems(1) obtain c where c: "erase_parent p cfg x = Inr c" "foldE (erase_parent p) c xs = Inr cfg'"
    by (auto simp: bindE_eq_Inr_iff)
  have "half_cut p (set xs) c" "succs c = succs cfg"
    using erase_parent_half_cut [OF c(1), of "set xs"] Cons.prems by simp_all
  with Cons.IH [OF c(2)] Cons.prems(3) show ?case by simp
qed simp

lemma half_cut_done: "half_cut p {} cfg \<Longrightarrow> cfg_ok cfg"
  by (auto simp: half_cut_def cfg_ok_def)

lemma insert_after_ok:
  assumes "insert_after cfg p q g = Inr cfg'" "cfg_ok cfg"
  shows "cfg_ok cfg'" "cfg_edges cfg' = {(a, b) \<in> cfg_edges cfg. a \<noteq> p} \<union> (\<Union>b \<in> set (succs cfg p). {(p, q), (q, b)})"
proof -
  obtain n where n: "get_node cfg p = Inr n"
    using assms(1) by (auto simp: insert_after_def bindE_eq_Inr_iff split: if_splits)
  note l = get_node_label [OF n]
  let ?c1 = "cfg\<lparr>neighbours := omap_put p (n\<lparr>adj_children := []\<rparr>) (neighbours cfg)\<rparr>"
  let ?step = "\<lambda>c b. bindE (add_child c p q) (\<lambda>c'. add_child c' q b)"
  obtain c2 c3 where c: "foldE (erase_parent p) ?c1 (adj_children n) = Inr c2" "cfg_insert c2 q g = Inr c3"
    "foldE ?step c3 (adj_children n) = Inr cfg'"
    using assms(1) n by (auto simp: insert_after_def bindE_eq_Inr_iff Let_def split: if_splits)
  have ok: "cfg_shape cfg" using assms(2) by (simp add: cfg_ok_def)
  have sym: "a \<in> set (preds cfg b) \<longleftrightarrow> b \<in> set (succs cfg a)" for a b using assms(2) by (simp add: cfg_ok_def)
  have s1: "succs ?c1 = (succs cfg)(p := [])" "preds ?c1 = preds cfg"
    using l by (auto simp: put_node_neighbours)
  have "cfg_shape ?c1" by (rule erase_node_shape(3) [OF ok n])
  then have "half_cut p (set (adj_children n)) ?c1"
    using l by (auto simp: half_cut_def s1 sym)
  moreover have "distinct (adj_children n)" using cfg_shape_osets [OF ok, of p] l by (simp add: oset_ok_def)
  ultimately have c2: "cfg_ok c2" "succs c2 = (succs cfg)(p := [])"
    using erase_parents_half_cut [OF c(1)] s1 half_cut_done by auto
  have c3: "cfg_ok c3" "succs c3 = (succs cfg)(p := [])"
    using cfg_insert_ok [OF c(2)] cfg_insert_neighbours [OF c(2)] c2 by auto
  show "cfg_ok cfg'"
    by (rule foldE_invariant [OF c(3)]) (use c3 in \<open>auto simp: bindE_eq_Inr_iff add_child_ok\<close>)
  have "cfg_edges d' = cfg_edges d \<union> (\<Union>b \<in> set xs. {(p, q), (q, b)})" if "foldE ?step d xs = Inr d'" for d d' xs
    using that
  proof (induction xs arbitrary: d)
    case (Cons x xs)
    then obtain e f where "add_child d p q = Inr e" "add_child e q x = Inr f" "foldE ?step f xs = Inr d'"
      by (auto simp: bindE_eq_Inr_iff)
    then show ?case using Cons.IH [of f] add_child_edges by auto
  qed simp
  from this [OF c(3)] show "cfg_edges cfg' = {(a, b) \<in> cfg_edges cfg. a \<noteq> p} \<union> (\<Union>b \<in> set (succs cfg p). {(p, q), (q, b)})"
    using c3(2) l by (auto simp: cfg_edges_def split: if_splits)
qed

text \<open>Every operation of the construction keeps the invariant.\<close>

lemma insert_jump_ok: "insert_jump cfg a b g = Inr (l, cfg') \<Longrightarrow> cfg_ok cfg \<Longrightarrow> cfg_ok cfg'"
  using cfg_insert_ok add_child_ok by (fastforce simp: insert_jump_def Let_def bindE_eq_Inr_iff split: if_splits)

lemma clone_node_ok:
  assumes "clone_node caller first ml cfg = Inr cfg'" "cfg_ok cfg"
  shows "cfg_ok cfg'"
proof -
  let ?p = "label_to_string caller" and ?l = "macro_label (label_to_string caller) ml"
  obtain inst c1 c2 prevs where *: "cfg_insert cfg ?l (unguarded (clone_instruction ?p inst)) = Inr c1"
    "(if first then add_child c1 caller ?l else Inr c1) = Inr c2"
    "foldE (\<lambda>c prev. if cfg_contains c (macro_label ?p prev) then add_child c (macro_label ?p prev) ?l else Inr c) c2 prevs = Inr cfg'"
    using assms(1) unfolding clone_node_def Let_def bindE_eq_Inr_iff by blast
  have "cfg_ok c1" using *(1) assms(2) by (rule cfg_insert_ok)
  then have "cfg_ok c2" using *(2) add_child_ok by (auto split: if_splits)
  then show ?thesis by (rule foldE_invariant [OF *(3)]) (auto simp: add_child_ok split: if_splits)
qed

lemma walk_successors_ok:
  assumes "walk_successors caller exit_to ml todo seen cfg = Inr (todo', seen', cfg')" "cfg_ok cfg"
  shows "cfg_ok cfg'"
proof -
  obtain nexts where f: "foldE (macro_successor exit_to ml (macro_label (label_to_string caller) ml)) (todo, seen, cfg) nexts
      = Inr (todo', seen', cfg')"
    using assms(1) by (auto simp: walk_successors_def bindE_eq_Inr_iff)
  have "cfg_ok (snd (snd (todo', seen', cfg')))"
    by (rule foldE_invariant [OF f])
       (use assms(2) add_child_ok in \<open>auto simp: macro_successor_def bindE_eq_Inr_iff split: if_splits\<close>)
  then show ?thesis by simp
qed

lemma macro_loop_ok: "macro_loop caller exit_to first todo seen cfg = Inr (seen', cfg') \<Longrightarrow> cfg_ok cfg \<Longrightarrow> cfg_ok cfg'"
proof (induction caller exit_to first todo seen cfg rule: macro_loop.induct)
  case (1 caller exit_to first todo seen cfg)
  show ?case
  proof (cases todo)
    case Nil
    with "1.prems" show ?thesis by (simp add: macro_loop.simps)
  next
    case (Cons ml rest)
    with "1.prems"(1) obtain c1 todo' s' c2 where c: "label_to_string caller \<noteq> stack_frame_prefix ml"
      "clone_node caller first ml cfg = Inr c1" "walk_successors caller exit_to ml rest seen c1 = Inr (todo', s', c2)"
      "macro_loop caller exit_to False todo' s' c2 = Inr (seen', cfg')"
      by (subst (asm) macro_loop.simps) (auto simp: bindE_eq_Inr_iff split: if_splits)
    from "1.IH" [OF Cons c(1,2,3) refl refl c(4)] show ?thesis
      using clone_node_ok [OF c(2) "1.prems"(2)] walk_successors_ok [OF c(3)] by blast
  qed
qed

lemma inline_macro_ok:
  assumes "inline_macro cfg caller entry = Inr (seen, cfg')" "cfg_ok cfg"
  shows "cfg_ok cfg'"
proof -
  obtain exit_to inst c1 s c2 where *: "get_child cfg caller = Inr exit_to" "instruction_at cfg caller = Inr inst"
    "(case inst of CallLocal c \<Rightarrow> set_instruction cfg caller (CallLocal (c\<lparr>cl_prefix := label_to_string caller\<rparr>)) | _ \<Rightarrow> Inr cfg) = Inr c1"
    "macro_loop caller exit_to True [entry] [entry] c1 = Inr (s, c2)" "remove_child c2 caller exit_to = Inr cfg'"
    using assms(1) unfolding inline_macro_def bindE_eq_Inr_iff by (auto simp: bindE_eq_Inr_iff)
  have "cfg_ok c1" using *(3) assms(2) set_instruction_ok by (cases inst) auto
  then show ?thesis using macro_loop_ok [OF *(4)] remove_child_ok [OF *(5)] by blast
qed

lemma add_cfg_nodes_ok:
  "add_cfg_nodes cfg caller entry = Inr cfg' \<Longrightarrow> cfg_ok cfg \<Longrightarrow> cfg_ok cfg'"
  "add_nested_nodes cfg caller mls = Inr cfg' \<Longrightarrow> cfg_ok cfg \<Longrightarrow> cfg_ok cfg'"
proof (induction cfg caller entry and cfg caller mls arbitrary: cfg' and cfg' rule: add_cfg_nodes_add_nested_nodes.induct)
  case (1 cfg caller entry)
  from "1.prems"(1) obtain seen c where c: "inline_macro cfg caller entry = Inr (seen, c)" "add_nested_nodes c caller seen = Inr cfg'"
    by (auto simp: add_cfg_nodes.simps bindE_eq_Inr_iff)
  from "1.IH" [OF c(1) refl c(2)] show ?case using inline_macro_ok [OF c(1) "1.prems"(2)] by blast
next
  case (2 cfg caller)
  then show ?case by (simp add: add_nested_nodes.simps)
next
  case (3 cfg caller ml mls)
  let ?l = "macro_label (label_to_string caller) ml"
  from "3.prems"(1) obtain inst c where c: "instruction_at cfg ?l = Inr inst" "add_nested_nodes c caller mls = Inr cfg'"
    and n: "(case inst of CallLocal d \<Rightarrow>
        if int (slashes (label_to_string caller)) + 2 \<ge> MAX_CALL_STACK_FRAMES then Inl (InvalidControlFlow ''too many call stack frames'')
        else add_cfg_nodes cfg ?l (cl_target d) | _ \<Rightarrow> Inr cfg) = Inr c"
    by (auto simp: add_nested_nodes.simps bindE_eq_Inr_iff Let_def)
  have "cfg_ok c"
  proof (cases inst)
    case (CallLocal d)
    with n have "\<not> MAX_CALL_STACK_FRAMES \<le> int (slashes (label_to_string caller)) + 2" "add_cfg_nodes cfg ?l (cl_target d) = Inr c"
      by (auto split: if_splits)
    then show ?thesis using "3.IH"(1) [OF refl refl c(1) CallLocal] "3.prems"(2) by blast
  qed (use n "3.prems"(2) in auto)
  then show ?case using "3.IH"(2) [OF refl refl c(1) n c(2)] by blast
qed

lemma connect_jump_ok: "connect_jump cfg l f jmp = Inr cfg' \<Longrightarrow> cfg_ok cfg \<Longrightarrow> cfg_ok cfg'"
  using add_child_ok insert_jump_ok
  by (cases "jmp_cond jmp") (fastforce simp: connect_jump_def bindE_eq_Inr_iff split: if_splits)+

lemma connect_instruction_ok: "connect_instruction cfg l f i = Inr cfg' \<Longrightarrow> cfg_ok cfg \<Longrightarrow> cfg_ok cfg'"
  by (cases i) (auto simp: connect_instruction_def add_child_ok connect_jump_ok)

lemma connect_instructions_ok: "connect_instructions m cfg insts = Inr cfg' \<Longrightarrow> cfg_ok cfg \<Longrightarrow> cfg_ok cfg'"
proof (induction m cfg insts rule: connect_instructions.induct)
  case (2 m cfg l inst li insts)
  show ?case
  proof (cases "case inst of Undefined _ \<Rightarrow> True | _ \<Rightarrow> False")
    case True
    with 2 show ?thesis by (auto split: Instruction.splits)
  next
    case False
    with "2.prems"(1) obtain c where g: "\<not> (insts = [] \<and> has_fall inst \<and> m)"
      and c: "connect_instruction cfg l (case insts of [] \<Rightarrow> exit_label | (l', _) # _ \<Rightarrow> l') inst = Inr c"
      "connect_instructions m c insts = Inr cfg'"
      by (auto simp: bindE_eq_Inr_iff split: if_splits)
    from "2.IH"(2) [OF False g c] show ?thesis using connect_instruction_ok [OF c(1) "2.prems"(2)] by blast
  qed
qed simp

lemma instruction_seq_to_cfg_ok:
  assumes "instruction_seq_to_cfg insts must_exit = Inr cfg"
  shows "cfg_ok cfg"
proof -
  obtain c1 c2 c3 where c: "foldE insert_instruction empty_cfg insts = Inr c1" "add_child c1 entry_label (fst (hd insts)) = Inr c2"
    "connect_instructions must_exit c2 insts = Inr c3" "foldE inline_call c3 insts = Inr cfg"
    using assms by (auto simp: instruction_seq_to_cfg_def bindE_eq_Inr_iff split: if_splits)
  have "cfg_ok c1"
    by (rule foldE_invariant [OF c(1)]) (auto simp: insert_instruction_def cfg_insert_ok split: Instruction.splits)
  then have "cfg_ok c3" using add_child_ok [OF c(2)] connect_instructions_ok [OF c(3)] by blast
  then show ?thesis
    by (rule foldE_invariant [OF c(4)]) (auto simp: inline_call_def add_cfg_nodes_ok split: Instruction.splits)
qed

section \<open>Properties\<close>

text \<open>
  C4. Whatever instructions it starts from, the construction of a control-flow graph, with the inlining
  of local calls, returns a well-formed graph: every edge is recorded at both of its ends and
  between labels that have an instruction, nothing leads to the entry, nothing leaves the exit.
\<close>

theorem cfg_construction_invariant:
  assumes "instruction_seq_to_cfg insts must_exit = Inr cfg"
  shows "cfg_ok cfg"
  using assms by (rule instruction_seq_to_cfg_ok)

definition loop_in_callee :: InstructionSeq where
  "loop_in_callee =
    [(label 0, CallLocal \<lparr>cl_target = label 2, cl_prefix = ''''\<rparr>, None),
     (label 1, Exit '''', None),
     (label 2, Bin \<lparr>bin_op = Bin_ADD, bin_dst = Reg 0, bin_v = Imm 1, bin_is64 = True, bin_lddw = False\<rparr>, None),
     (label 3, Jmp \<lparr>jmp_cond = Some \<lparr>cond_op = Cond_EQ, cond_left = Reg 1, cond_right = Imm 0, cond_is64 = True\<rparr>,
        jmp_target = label 2\<rparr>, None),
     (label 4, Exit '''', None)]"

definition successor_table :: "cfg_t \<Rightarrow> (string \<times> string list) list" where
  "successor_table cfg = map (\<lambda>l. (label_to_string l, map label_to_string (succs cfg l))) (cfg_labels cfg)"

theorem cfg_construction_invariant_witness:
  "\<exists>cfg. instruction_seq_to_cfg loop_in_callee True = Inr cfg \<and> cfg_ok cfg"
proof -
  have "is_ok (instruction_seq_to_cfg loop_in_callee True)" by code_simp
  then obtain cfg where "instruction_seq_to_cfg loop_in_callee True = Inr cfg"
    by (auto simp: is_ok_def split: sum.splits)
  then show ?thesis using cfg_construction_invariant by blast
qed

text \<open>
  Inlining a local call loses the edges from a later to an earlier node of the callee: the loop
  of the callee of this program has no back edge in the graph, its body ends in a node without
  successors.
\<close>

theorem inlining_loses_back_edges:
  "\<exists>cfg. instruction_seq_to_cfg loop_in_callee True = Inr cfg \<and>
     map_of (successor_table cfg) ''3:2'' = Some [''2''] \<and> map_of (successor_table cfg) ''0/3:2'' = Some []"
proof -
  have "case instruction_seq_to_cfg loop_in_callee True of Inl e \<Rightarrow> False
      | Inr cfg \<Rightarrow> map_of (successor_table cfg) ''3:2'' = Some [''2''] \<and> map_of (successor_table cfg) ''0/3:2'' = Some []"
    by code_simp
  then show ?thesis by (auto split: sum.splits)
qed

text \<open>The meaning of a condition on two 64-bit values; a 32-bit comparison looks at the low halves.\<close>

definition eval_op :: "cond_op_t \<Rightarrow> 'w::len word \<Rightarrow> 'w word \<Rightarrow> bool" where
  "eval_op op a b =
    (case op of
       Cond_EQ \<Rightarrow> a = b | Cond_NE \<Rightarrow> a \<noteq> b | Cond_SET \<Rightarrow> a AND b \<noteq> 0 | Cond_NSET \<Rightarrow> a AND b = 0
     | Cond_LT \<Rightarrow> a < b | Cond_LE \<Rightarrow> a \<le> b | Cond_GT \<Rightarrow> b < a | Cond_GE \<Rightarrow> b \<le> a
     | Cond_SLT \<Rightarrow> sint a < sint b | Cond_SLE \<Rightarrow> sint a \<le> sint b
     | Cond_SGT \<Rightarrow> sint b < sint a | Cond_SGE \<Rightarrow> sint b \<le> sint a)"

definition eval_cond :: "condition_t \<Rightarrow> u64 \<Rightarrow> u64 \<Rightarrow> bool" where
  "eval_cond c a b =
    (if cond_is64 c then eval_op (cond_op c) a b else eval_op (cond_op c) (ucast a :: u32) (ucast b))"

lemma eval_reverse_op: "eval_op (reverse_op op) a b \<longleftrightarrow> \<not> eval_op op a b"
  by (cases op) (auto simp: eval_op_def)

lemma eval_reverse_cond: "eval_cond (reverse_cond c) a b \<longleftrightarrow> \<not> eval_cond c a b"
  by (simp add: eval_cond_def reverse_cond_def eval_reverse_op)

lemma add_child_instructions: "add_child cfg a b = Inr cfg' \<Longrightarrow> instructions cfg' = instructions cfg"
  by (erule add_child_Inr) simp

lemma insert_jump_effect:
  assumes "insert_jump cfg a b g = Inr (j, cfg')"
  shows "j = make_jump a b" "j \<notin> node_labels cfg" "j \<in> node_labels cfg'" "cfg_edges cfg' = cfg_edges cfg \<union> {(a, j), (j, b)}"
    "map_of (instructions cfg') = (map_of (instructions cfg))(j \<mapsto> g)"
proof -
  obtain c1 c2 where j: "j = make_jump a b" and c: "cfg_insert cfg j g = Inr c1" "add_child c1 a j = Inr c2" "add_child c2 j b = Inr cfg'"
    using assms by (auto simp: insert_jump_def Let_def bindE_eq_Inr_iff split: if_splits)
  show "j = make_jump a b" by (fact j)
  show "j \<notin> node_labels cfg" "j \<in> node_labels cfg'" using cfg_insert_labels [OF c(1)] add_child_labels c by auto
  have "cfg_edges c1 = cfg_edges cfg" using cfg_insert_neighbours [OF c(1)] by (simp add: cfg_edges_def)
  then show "cfg_edges cfg' = cfg_edges cfg \<union> {(a, j), (j, b)}" using add_child_edges c(2,3) by auto
  have "map_of (instructions c1) = (map_of (instructions cfg))(j \<mapsto> g)"
    using c(1) by (auto simp: cfg_insert_def split: if_splits)
  then show "map_of (instructions cfg') = (map_of (instructions cfg))(j \<mapsto> g)"
    using add_child_instructions c(2,3) by metis
qed

text \<open>
  C39. A conditional jump whose target is not the next instruction becomes two assumptions between
  the jump and its two successors, and no other edge: one with the condition on the way to the
  target, one with the reversed condition on the way to the next instruction. For all values of the
  operands exactly one of the two conditions holds.
\<close>

theorem conditional_branch_partition:
  assumes "connect_instruction cfg l next_label (Jmp \<lparr>jmp_cond = Some c, jmp_target = t\<rparr>) = Inr cfg'" "t \<noteq> next_label"
  shows "let taken = make_jump l t; skipped = make_jump l next_label in
    instruction_at cfg' taken = Inr (Assume \<lparr>assume_cond = c, assume_is_implicit = True\<rparr>) \<and>
    instruction_at cfg' skipped = Inr (Assume \<lparr>assume_cond = reverse_cond c, assume_is_implicit = True\<rparr>) \<and>
    cfg_edges cfg' = cfg_edges cfg \<union> {(l, taken), (taken, t), (l, skipped), (skipped, next_label)} \<and>
    (\<forall>a b. eval_cond c a b \<noteq> eval_cond (reverse_cond c) a b)"
proof -
  obtain j1 c1 j2 where j: "insert_jump cfg l t (unguarded (Assume \<lparr>assume_cond = c, assume_is_implicit = True\<rparr>)) = Inr (j1, c1)"
    "insert_jump c1 l next_label (unguarded (Assume \<lparr>assume_cond = reverse_cond c, assume_is_implicit = True\<rparr>)) = Inr (j2, cfg')"
    using assms by (auto simp: connect_instruction_def connect_jump_def bindE_eq_Inr_iff split: if_splits)
  note e1 = insert_jump_effect [OF j(1)] and e2 = insert_jump_effect [OF j(2)]
  have "j1 \<noteq> j2" using e1(3) e2(2) by auto
  then have "instruction_at cfg' j1 = Inr (Assume \<lparr>assume_cond = c, assume_is_implicit = True\<rparr>)"
    "instruction_at cfg' j2 = Inr (Assume \<lparr>assume_cond = reverse_cond c, assume_is_implicit = True\<rparr>)"
    by (simp_all add: instruction_at_def e1(5) e2(5) unguarded_def opt_to_res_def)
  moreover have "cfg_edges cfg' = cfg_edges cfg \<union> {(l, j1), (j1, t), (l, j2), (j2, next_label)}"
    using e1(4) e2(4) by auto
  ultimately show ?thesis using e1(1) e2(1) by (simp add: Let_def eval_reverse_cond)
qed

theorem conditional_branch_partition_witness:
  "\<exists>cfg cfg'. connect_instruction cfg (label 0) (label 1)
      (Jmp \<lparr>jmp_cond = Some \<lparr>cond_op = Cond_SLT, cond_left = Reg 1, cond_right = Imm 5, cond_is64 = False\<rparr>, jmp_target = label 2\<rparr>) = Inr cfg' \<and>
    cfg_edges cfg' = cfg_edges cfg \<union> {(label 0, make_jump (label 0) (label 2)), (make_jump (label 0) (label 2), label 2),
       (label 0, make_jump (label 0) (label 1)), (make_jump (label 0) (label 1), label 1)}"
proof -
  let ?cfg = "foldE (\<lambda>c i. cfg_insert c (label i) (unguarded (Exit ''''))) empty_cfg [0, 1, 2]"
  let ?jmp = "Jmp \<lparr>jmp_cond = Some \<lparr>cond_op = Cond_SLT, cond_left = Reg 1, cond_right = Imm 5, cond_is64 = False\<rparr>, jmp_target = label 2\<rparr>"
  have "is_ok (bindE ?cfg (\<lambda>c. connect_instruction c (label 0) (label 1) ?jmp))" by code_simp
  then obtain cfg cfg' where "connect_instruction cfg (label 0) (label 1) ?jmp = Inr cfg'"
    by (auto simp: is_ok_def bindE_eq_Inr_iff split: sum.splits)
  then show ?thesis using conditional_branch_partition [of cfg "label 0" "label 1" _ "label 2" cfg'] by (auto simp: Let_def)
qed

end
