(* ===== verification/Run_Loops.thy ===== *)
theory Run_Loops
  imports Ebpf_Prelude "HOL-Library.Monad_Syntax"
begin

text \<open>
  Code that may throw and may not end returns \<open>None\<close> when it does not end and a result otherwise.
  \<open>loop_run\<close> is the loop that repeats its body until the body breaks with a value; its two rules are the
  invariant rule and the termination rule.
\<close>

section \<open>Results of code that may throw or not end\<close>

type_synonym 'a run = "'a res option"

definition bindR :: "'a run \<Rightarrow> ('a \<Rightarrow> 'b run) \<Rightarrow> 'b run" where
  "bindR m f = Option.bind m (\<lambda>r. case r of Inl e \<Rightarrow> Some (Inl e) | Inr a \<Rightarrow> f a)"

definition lift_res :: "'a res \<Rightarrow> 'a run" where
  "lift_res r = Some r"

lemma bindR_simps [simp]:
  "bindR None f = None" "bindR (Some (Inl e)) f = Some (Inl e)" "bindR (Some (Inr a)) f = f a"
  "bindR (lift_res (Inl e)) f = Some (Inl e)" "bindR (lift_res (Inr a)) f = f a"
  by (simp_all add: bindR_def lift_res_def)

lemma bindR_eq_Inr: "bindR m f = Some (Inr b) \<longleftrightarrow> (\<exists>a. m = Some (Inr a) \<and> f a = Some (Inr b))"
  by (cases m; cases "the m") auto

lemma lift_res_Inr [simp]: "lift_res r = Some (Inr a) \<longleftrightarrow> r = Inr a"
  by (simp add: lift_res_def)

lemma map_run_Inr: "map_option (map_sum id f) m = Some (Inr y) \<longleftrightarrow> (\<exists>x. m = Some (Inr x) \<and> f x = y)"
  by (cases m; cases "the m") auto

lemma bindR_mono [partial_function_mono]:
  assumes m: "mono_option B" and f: "\<And>a. mono_option (\<lambda>g. C a g)"
  shows "mono_option (\<lambda>g. bindR (B g) (\<lambda>a. C a g))"
proof -
  have "mono_option (\<lambda>g. case r of Inl e \<Rightarrow> Some (Inl e) | Inr a \<Rightarrow> C a g)" for r
    using f by (cases r) (auto intro: partial_function_mono)
  then show ?thesis unfolding bindR_def by (intro bind_mono m)
qed

primrec foldR :: "('s \<Rightarrow> 'a \<Rightarrow> 's run) \<Rightarrow> 's \<Rightarrow> 'a list \<Rightarrow> 's run" where
  "foldR f s [] = Some (Inr s)"
| "foldR f s (x # xs) = bindR (f s x) (\<lambda>s'. foldR f s' xs)"

lemma foldR_invariant:
  assumes "foldR f s xs = Some (Inr s')" "P s" "\<And>s x s'. P s \<Longrightarrow> x \<in> set xs \<Longrightarrow> f s x = Some (Inr s') \<Longrightarrow> P s'"
  shows "P s'"
  using assms
proof (induction xs arbitrary: s)
  case (Cons x xs)
  from Cons.prems(1) obtain s1 where s1: "f s x = Some (Inr s1)" "foldR f s1 xs = Some (Inr s')" by (auto simp: bindR_eq_Inr)
  have "P s1" using Cons.prems(3) [OF Cons.prems(2) _ s1(1)] by simp
  moreover have "P t'" if "P t" "y \<in> set xs" "f t y = Some (Inr t')" for t y t'
    using Cons.prems(3) [OF that(1) _ that(3)] that(2) by simp
  ultimately show ?case using Cons.IH [OF s1(2)] by blast
qed simp

section \<open>Loops\<close>

partial_function (option) loop_run :: "('a \<Rightarrow> ('a + 'b) run) \<Rightarrow> 'a \<Rightarrow> 'b run" where
  "loop_run f a = bindR (f a) (\<lambda>r. case r of Inl a' \<Rightarrow> loop_run f a' | Inr b \<Rightarrow> Some (Inr b))"

lemma loop_run_code [code]: "loop_run f a = bindR (f a) (case_sum (loop_run f) (\<lambda>b. Some (Inr b)))"
  by (rule loop_run.simps)

lemma loop_run_invariant:
  assumes "loop_run f a = Some (Inr b)" "P a"
    and step: "\<And>a a'. P a \<Longrightarrow> f a = Some (Inr (Inl a')) \<Longrightarrow> P a'"
    and stop: "\<And>a b. P a \<Longrightarrow> f a = Some (Inr (Inr b)) \<Longrightarrow> Q b"
  shows "Q b"
proof -
  have "f' = f \<longrightarrow> P a \<longrightarrow> (\<forall>b'. r = Inr b' \<longrightarrow> Q b')" if "loop_run f' a = Some r" for f' a r
  proof (rule loop_run.raw_induct [OF _ that])
    fix loop f' a r
    assume IH: "\<And>f' a r. loop f' a = Some r \<Longrightarrow> f' = f \<longrightarrow> P a \<longrightarrow> (\<forall>b'. r = Inr b' \<longrightarrow> Q b')"
      and body: "bindR (f' a) (\<lambda>r. case r of Inl a' \<Rightarrow> loop f' a' | Inr b \<Rightarrow> Some (Inr b)) = Some r"
    show "f' = f \<longrightarrow> P a \<longrightarrow> (\<forall>b'. r = Inr b' \<longrightarrow> Q b')"
    proof (intro impI allI)
      fix b'
      assume *: "f' = f" "P a" "r = Inr b'"
      with body obtain x where x: "f a = Some (Inr x)" "(case x of Inl a' \<Rightarrow> loop f a' | Inr b \<Rightarrow> Some (Inr b)) = Some (Inr b')"
        by (auto simp: bindR_eq_Inr)
      show "Q b'"
      proof (cases x)
        case (Inl a')
        then show ?thesis using x *(2) step IH [of f a'] by auto
      next
        case (Inr b)
        then show ?thesis using x *(2) stop by auto
      qed
    qed
  qed
  with assms(1,2) show ?thesis by blast
qed

lemma loop_run_terminates:
  assumes "wf R" "P a"
    and step: "\<And>a. P a \<Longrightarrow> \<exists>r. f a = Some r \<and> (\<forall>a'. r = Inr (Inl a') \<longrightarrow> P a' \<and> (a', a) \<in> R)"
  shows "\<exists>r. loop_run f a = Some r"
  using assms(1,2)
proof (induction a rule: wf_induct_rule)
  case (less a)
  obtain r where r: "f a = Some r" "\<forall>a'. r = Inr (Inl a') \<longrightarrow> P a' \<and> (a', a) \<in> R" using step less.prems by blast
  show ?case using r less.IH by (subst loop_run.simps) (auto split: sum.splits simp: bindR_def)
qed

lemma loop_run_total:
  assumes "wf R" "P a"
    and step: "\<And>a. P a \<Longrightarrow> (\<exists>a'. f a = Some (Inr (Inl a')) \<and> P a' \<and> (a', a) \<in> R) \<or> (\<exists>b. f a = Some (Inr (Inr b)) \<and> Q b)"
  shows "\<exists>b. loop_run f a = Some (Inr b) \<and> Q b"
  using assms(1,2)
proof (induction a rule: wf_induct_rule)
  case (less a)
  from step [OF less.prems] show ?case
  proof (elim disjE exE conjE)
    fix a' assume a': "f a = Some (Inr (Inl a'))" "P a'" "(a', a) \<in> R"
    with less.IH show ?thesis by (subst loop_run.simps) simp
  qed (subst loop_run.simps, simp)
qed

lemma foldR_total:
  assumes "P s" "\<And>s x. P s \<Longrightarrow> x \<in> set xs \<Longrightarrow> \<exists>s'. f s x = Some (Inr s') \<and> P s'"
  shows "\<exists>s'. foldR f s xs = Some (Inr s') \<and> P s'"
  using assms
proof (induction xs arbitrary: s)
  case (Cons x xs)
  obtain s1 where s1: "f s x = Some (Inr s1)" "P s1" using Cons.prems(2) [OF Cons.prems(1)] by auto
  have "\<exists>t'. f t y = Some (Inr t') \<and> P t'" if "P t" "y \<in> set xs" for t y using Cons.prems(2) [OF that(1)] that(2) by simp
  with Cons.IH [OF s1(2)] s1(1) show ?case by simp
qed simp

end
