(* ===== verification/Crab_Wto.thy ===== *)
theory Crab_Wto
  imports Crab_Cfg Run_Loops
begin

text \<open>
  \<^verbatim>\<open>crab/wto.hpp\<close> and \<^verbatim>\<open>crab/wto.cpp\<close>: the weak topological order of a control-flow graph, by the
  iterative form of Bourdoncle's algorithm. Cycles live in a list and are referred to by their index,
  as the code refers to them by shared and weak pointers: all cycles that end up in the order stay
  alive through it. A partition is the top level or the component list of a cycle; component lists
  grow at the end and are read backwards.
\<close>

section \<open>The order\<close>

datatype cycle_or_label = CycleC nat | LabelC label_t

type_synonym wto_partition_t = "cycle_or_label list"

record wto_cycle_t =
  cyc_components :: wto_partition_t
  cyc_containing :: "nat option"

record wto_t =
  wto_components :: wto_partition_t
  wto_cycles :: "wto_cycle_t list"
  wto_containing :: "(label_t, nat option) omap"

definition cycle_head :: "wto_cycle_t list \<Rightarrow> nat \<Rightarrow> label_t res" where
  "cycle_head cycles i =
    (if length cycles \<le> i then Inl StdException
     else case cyc_components (cycles ! i) of
       [] \<Rightarrow> Inl (RuntimeError ''Empty cycle'')
     | cs \<Rightarrow> (case last cs of
                LabelC l \<Rightarrow> Inr l
              | CycleC _ \<Rightarrow> Inl (RuntimeError ''Expected label_t at the back of _components'')))"

definition wto_head :: "wto_t \<Rightarrow> label_t \<Rightarrow> label_t option res" where
  "wto_head wto l =
    (case map_of (wto_containing wto) l of
       None \<Rightarrow> Inr None
     | Some None \<Rightarrow> Inr None
     | Some (Some i) \<Rightarrow>
         bindE (cycle_head (wto_cycles wto) i) (\<lambda>first.
           if first \<noteq> l then Inr (Some first)
           else case cyc_containing (wto_cycles wto ! i) of
             Some parent \<Rightarrow> bindE (cycle_head (wto_cycles wto) parent) (\<lambda>h. Inr (Some h))
           | None \<Rightarrow> Inr None))"

partial_function (option) collect_heads :: "wto_t \<Rightarrow> label_t \<Rightarrow> label_t list run" where
  "collect_heads wto l =
     bindR (lift_res (wto_head wto l)) (\<lambda>h.
       case h of
         None \<Rightarrow> Some (Inr [])
       | Some x \<Rightarrow> bindR (collect_heads wto x) (\<lambda>hs. Some (Inr (x # hs))))"

definition collect_rest :: "(label_t \<Rightarrow> label_t list run) \<Rightarrow> label_t option \<Rightarrow> label_t list run" where
  "collect_rest f h = (case h of None \<Rightarrow> Some (Inr []) | Some x \<Rightarrow> bindR (f x) (\<lambda>hs. Some (Inr (x # hs))))"

lemma collect_heads_code [code]:
  "collect_heads wto l = bindR (lift_res (wto_head wto l)) (collect_rest (collect_heads wto))"
  by (subst collect_heads.simps) (simp add: collect_rest_def [abs_def])

definition nesting :: "wto_t \<Rightarrow> label_t \<Rightarrow> label_t list run" where
  "nesting wto l = collect_heads wto l"

text \<open>A nesting lists the heads from the innermost to the outermost.\<close>

definition nesting_greater :: "label_t list \<Rightarrow> label_t list \<Rightarrow> bool" where
  "nesting_greater heads other \<longleftrightarrow>
     length other < length heads \<and>
     (\<forall>index \<in> set [0..<length other]. heads ! (length heads - 1 - index) = other ! (length other - 1 - index))"

text \<open>The components as the iterators of the code present them, with the cycles in place of their pointers.\<close>

datatype wto_comp = Vertex label_t | Cycle "wto_comp list"

primrec comp_of :: "wto_cycle_t list \<Rightarrow> nat \<Rightarrow> cycle_or_label \<Rightarrow> wto_comp" where
  "comp_of cycles 0 c = (case c of LabelC l \<Rightarrow> Vertex l | CycleC _ \<Rightarrow> Cycle [])"
| "comp_of cycles (Suc n) c =
    (case c of LabelC l \<Rightarrow> Vertex l
     | CycleC i \<Rightarrow> Cycle (map (comp_of cycles n) (rev (cyc_components (cycles ! i)))))"

definition wto_view :: "wto_t \<Rightarrow> wto_comp list" where
  "wto_view wto = map (comp_of (wto_cycles wto) (length (wto_cycles wto))) (rev (wto_components wto))"

definition comp_head :: "wto_comp list \<Rightarrow> label_t res" where
  "comp_head cs =
    (case cs of
       [] \<Rightarrow> Inl (RuntimeError ''Empty cycle'')
     | Vertex l # _ \<Rightarrow> Inr l
     | Cycle _ # _ \<Rightarrow> Inl (RuntimeError ''Expected label_t at the back of _components''))"

fun is_component_member :: "label_t \<Rightarrow> wto_comp \<Rightarrow> bool res"
  and is_any_member :: "label_t \<Rightarrow> wto_comp list \<Rightarrow> bool res" where
  "is_component_member l (Vertex v) = Inr (v = l)"
| "is_component_member l (Cycle cs) = bindE (comp_head cs) (\<lambda>h. if h = l then Inr True else is_any_member l cs)"
| "is_any_member l [] = Inr False"
| "is_any_member l (c # cs) = bindE (is_component_member l c) (\<lambda>b. if b then Inr True else is_any_member l cs)"

definition for_each_loop_head :: "('s \<Rightarrow> label_t \<Rightarrow> 's res) \<Rightarrow> wto_comp list \<Rightarrow> 's \<Rightarrow> 's res" where
  "for_each_loop_head f cs s =
     foldE (\<lambda>s c. case c of Vertex _ \<Rightarrow> Inr s | Cycle body \<Rightarrow> bindE (comp_head body) (f s)) s cs"

section \<open>The builder\<close>

datatype visit_task_type_t = PushSuccessors | StartVisit | ContinueVisit

datatype partition_ref = TopLevel | InCycle nat

record visit_args_t =
  vt_type :: visit_task_type_t
  vt_vertex :: label_t
  vt_partition :: partition_ref
  vt_containing :: "nat option"

record wto_vertex_data_t =
  vd_dfn :: int
  vd_head_dfn :: int
  vd_cycle :: "nat option"

definition DFN_INF :: int where
  "DFN_INF = 2 ^ 31 - 1"

record wto_builder_t =
  wb_data :: "label_t \<Rightarrow> wto_vertex_data_t"
  wb_num :: int
  wb_stack :: "label_t list"
  wb_visits :: "visit_args_t list"
  wb_components :: wto_partition_t
  wb_cycles :: "wto_cycle_t list"
  wb_containing :: "(label_t, nat option) omap"

definition visit_args :: "visit_task_type_t \<Rightarrow> label_t \<Rightarrow> partition_ref \<Rightarrow> nat option \<Rightarrow> visit_args_t" where
  "visit_args t v p c = \<lparr>vt_type = t, vt_vertex = v, vt_partition = p, vt_containing = c\<rparr>"

definition set_data :: "label_t \<Rightarrow> wto_vertex_data_t \<Rightarrow> wto_builder_t \<Rightarrow> wto_builder_t" where
  "set_data v d b = b\<lparr>wb_data := (wb_data b)(v := d)\<rparr>"

definition append_component :: "partition_ref \<Rightarrow> cycle_or_label \<Rightarrow> wto_builder_t \<Rightarrow> wto_builder_t" where
  "append_component p c b =
    (case p of
       TopLevel \<Rightarrow> b\<lparr>wb_components := wb_components b @ [c]\<rparr>
     | InCycle i \<Rightarrow>
         b\<lparr>wb_cycles := (wb_cycles b)[i := (wb_cycles b ! i)\<lparr>cyc_components := cyc_components (wb_cycles b ! i) @ [c]\<rparr>]\<rparr>)"

definition emplace_containing :: "label_t \<Rightarrow> nat option \<Rightarrow> wto_builder_t \<Rightarrow> wto_builder_t" where
  "emplace_containing v c b =
    (if v \<in> set (omap_keys (wb_containing b)) then b else b\<lparr>wb_containing := omap_put v c (wb_containing b)\<rparr>)"

definition push_unvisited :: "label_t list \<Rightarrow> partition_ref \<Rightarrow> nat option \<Rightarrow> wto_builder_t \<Rightarrow> wto_builder_t" where
  "push_unvisited succ_labels p c b =
     b\<lparr>wb_visits := map (\<lambda>s. visit_args PushSuccessors s p c) (filter (\<lambda>s. vd_dfn (wb_data b s) = 0) succ_labels) @ wb_visits b\<rparr>"

definition push_successors :: "cfg_t \<Rightarrow> label_t \<Rightarrow> partition_ref \<Rightarrow> nat option \<Rightarrow> wto_builder_t \<Rightarrow> wto_builder_t res" where
  "push_successors cfg v p c b =
    (if vd_dfn (wb_data b v) \<noteq> 0 then Inr b
     else
       let b1 = set_data v ((wb_data b v)\<lparr>vd_dfn := wb_num b + 1\<rparr>) (b\<lparr>wb_num := wb_num b + 1\<rparr>);
           b2 = b1\<lparr>wb_stack := v # wb_stack b1, wb_visits := visit_args StartVisit v p c # wb_visits b1\<rparr> in
       bindE (children_of cfg v) (\<lambda>cs. Inr (push_unvisited cs p c b2)))"

definition min_dfn :: "wto_vertex_data_t \<Rightarrow> int" where
  "min_dfn d = (if vd_head_dfn d \<noteq> 0 \<and> vd_dfn d \<noteq> DFN_INF then vd_head_dfn d else vd_dfn d)"

definition lowest_head :: "wto_builder_t \<Rightarrow> int \<Rightarrow> label_t list \<Rightarrow> int \<times> bool" where
  "lowest_head b head_dfn succ_labels =
     fold (\<lambda>s (h, is_loop). if min_dfn (wb_data b s) \<le> h then (min_dfn (wb_data b s), True) else (h, is_loop))
       succ_labels (head_dfn, False)"

definition reset_data :: "label_t list \<Rightarrow> wto_builder_t \<Rightarrow> wto_builder_t" where
  "reset_data vs b = fold (\<lambda>v b. set_data v ((wb_data b v)\<lparr>vd_dfn := 0, vd_head_dfn := 0\<rparr>) b) vs b"

definition start_loop :: "label_t \<Rightarrow> label_t list \<Rightarrow> partition_ref \<Rightarrow> nat \<Rightarrow> int \<Rightarrow> wto_builder_t \<Rightarrow> wto_builder_t res" where
  "start_loop v cs p cyc head_dfn b =
    (case dropWhile (\<lambda>e. e \<noteq> v) (wb_stack b) of
       [] \<Rightarrow> Inl StdException
     | _ # rest \<Rightarrow>
         let b1 = reset_data (takeWhile (\<lambda>e. e \<noteq> v) (wb_stack b)) (b\<lparr>wb_stack := rest\<rparr>);
             b2 = set_data v ((wb_data b1 v)\<lparr>vd_head_dfn := head_dfn, vd_cycle := Some cyc\<rparr>) b1;
             b3 = b2\<lparr>wb_visits := visit_args ContinueVisit v p (Some cyc) # wb_visits b2\<rparr> in
         Inr (push_unvisited cs (InCycle cyc) (Some cyc) b3))"

definition start_visit :: "cfg_t \<Rightarrow> label_t \<Rightarrow> partition_ref \<Rightarrow> nat option \<Rightarrow> wto_builder_t \<Rightarrow> wto_builder_t res" where
  "start_visit cfg v p c b =
     bindE (children_of cfg v) (\<lambda>cs.
       let (head_dfn, is_loop) = lowest_head b (vd_dfn (wb_data b v)) cs;
           cyc = length (wb_cycles b);
           b1 = b\<lparr>wb_cycles := wb_cycles b @ [\<lparr>cyc_components = [], cyc_containing = c\<rparr>]\<rparr> in
       if head_dfn = vd_dfn (wb_data b v) then
         let b2 = set_data v ((wb_data b1 v)\<lparr>vd_dfn := DFN_INF\<rparr>) b1 in
         if is_loop then start_loop v cs p cyc head_dfn b2
         else
           let b3 = emplace_containing v c (append_component p (LabelC v) (b2\<lparr>wb_stack := tl (wb_stack b2)\<rparr>)) in
           Inr (set_data v ((wb_data b3 v)\<lparr>vd_head_dfn := head_dfn\<rparr>) b3)
       else Inr (set_data v ((wb_data b1 v)\<lparr>vd_head_dfn := head_dfn\<rparr>) b1))"

definition continue_visit :: "label_t \<Rightarrow> partition_ref \<Rightarrow> nat option \<Rightarrow> wto_builder_t \<Rightarrow> wto_builder_t res" where
  "continue_visit v p c b =
    (case c of
       None \<Rightarrow> Inl StdException
     | Some cyc \<Rightarrow>
         Inr (emplace_containing v (Some cyc) (append_component p (CycleC cyc) (append_component (InCycle cyc) (LabelC v) b))))"

definition visit_step :: "cfg_t \<Rightarrow> visit_args_t \<Rightarrow> wto_builder_t \<Rightarrow> wto_builder_t res" where
  "visit_step cfg args b =
    (case vt_type args of
       PushSuccessors \<Rightarrow> push_successors cfg (vt_vertex args) (vt_partition args) (vt_containing args) b
     | StartVisit \<Rightarrow> start_visit cfg (vt_vertex args) (vt_partition args) (vt_containing args) b
     | ContinueVisit \<Rightarrow> continue_visit (vt_vertex args) (vt_partition args) (vt_containing args) b)"

partial_function (option) build_loop :: "cfg_t \<Rightarrow> wto_builder_t \<Rightarrow> wto_builder_t run" where
  "build_loop cfg b =
    (case wb_visits b of
       [] \<Rightarrow> Some (Inr b)
     | args # rest \<Rightarrow> bindR (lift_res (visit_step cfg args (b\<lparr>wb_visits := rest\<rparr>))) (build_loop cfg))"

declare build_loop.simps [code]

definition initial_builder :: wto_builder_t where
  "initial_builder =
     \<lparr>wb_data = (\<lambda>_. \<lparr>vd_dfn = 0, vd_head_dfn = 0, vd_cycle = None\<rparr>), wb_num = 0, wb_stack = [],
      wb_visits = [visit_args PushSuccessors entry_label TopLevel None], wb_components = [], wb_cycles = [], wb_containing = []\<rparr>"

definition make_wto :: "cfg_t \<Rightarrow> wto_t run" where
  "make_wto cfg =
     bindR (build_loop cfg initial_builder) (\<lambda>b.
       Some (Inr \<lparr>wto_components = wb_components b, wto_cycles = wb_cycles b, wto_containing = wb_containing b\<rparr>))"

section \<open>Weak topological orders\<close>

text \<open>
  What makes a sequence of components a weak topological order of the graph: its vertices are
  distinct, a single vertex has no edge to itself, a cycle starts with its head, and no edge leads
  from a later to an earlier component of the same sequence. So an edge leads forward, or to the head
  of a cycle around its source.
\<close>

fun comp_nodes :: "wto_comp \<Rightarrow> label_t list"
  and comps_nodes :: "wto_comp list \<Rightarrow> label_t list" where
  "comp_nodes (Vertex v) = [v]"
| "comp_nodes (Cycle cs) = comps_nodes cs"
| "comps_nodes [] = []"
| "comps_nodes (c # cs) = comp_nodes c @ comps_nodes cs"

definition no_edge_back :: "cfg_t \<Rightarrow> label_t list \<Rightarrow> label_t list \<Rightarrow> bool" where
  "no_edge_back cfg earlier later \<longleftrightarrow> (\<forall>u \<in> set later. \<forall>v \<in> set (succs cfg u). v \<notin> set earlier)"

fun comp_ok :: "cfg_t \<Rightarrow> wto_comp \<Rightarrow> bool"
  and comps_ok :: "cfg_t \<Rightarrow> wto_comp list \<Rightarrow> bool" where
  "comp_ok cfg (Vertex v) \<longleftrightarrow> v \<notin> set (succs cfg v)"
| "comp_ok cfg (Cycle []) \<longleftrightarrow> False"
| "comp_ok cfg (Cycle (Vertex h # body)) \<longleftrightarrow> h \<notin> set (comps_nodes body) \<and> comps_ok cfg body"
| "comp_ok cfg (Cycle (Cycle cs # body)) \<longleftrightarrow> False"
| "comps_ok cfg [] \<longleftrightarrow> True"
| "comps_ok cfg (c # cs) \<longleftrightarrow> comp_ok cfg c \<and> comps_ok cfg cs \<and> no_edge_back cfg (comp_nodes c) (comps_nodes cs) \<and>
     (\<forall>v \<in> set (comp_nodes c). v \<notin> set (comps_nodes cs))"

definition wto_ok :: "cfg_t \<Rightarrow> wto_comp list \<Rightarrow> bool" where
  "wto_ok cfg cs \<longleftrightarrow> comps_ok cfg cs \<and>
     (case cs of Vertex v # _ \<Rightarrow> v = entry_label | _ \<Rightarrow> False) \<and>
     (\<forall>u \<in> set (comps_nodes cs). \<forall>v \<in> set (succs cfg u). v \<in> set (comps_nodes cs))"

text \<open>A loop around \<^verbatim>\<open>1\<close> and \<^verbatim>\<open>3\<close>, with a loop at \<^verbatim>\<open>2\<close> in it.\<close>

definition nested_graph :: "cfg_t res" where
  "nested_graph = cfg_from_adjacency_list
    [(entry_label, [label 1]), (label 1, [label 2]), (label 2, [label 2, label 3]), (label 3, [label 1, exit_label])]"

definition nested_order :: "wto_comp list" where
  "nested_order = [Vertex entry_label, Cycle [Vertex (label 1), Cycle [Vertex (label 2)], Vertex (label 3)], Vertex exit_label]"

definition nested_wto :: "wto_t run" where
  "nested_wto = bindR (lift_res nested_graph) make_wto"

definition collect_loop_heads :: "wto_comp list \<Rightarrow> label_t list res" where
  "collect_loop_heads cs = for_each_loop_head (\<lambda>hs h. Inr (hs @ [h])) cs []"

lemma nested_wto_order: "map_option (map_sum id wto_view) nested_wto = Some (Inr nested_order)"
  by code_simp

lemma nested_wto_ok: "map_sum id (\<lambda>cfg. wto_ok cfg nested_order) nested_graph = Inr True"
  by code_simp

lemma nested_wto_nesting: "bindR nested_wto (\<lambda>w. nesting w (label 2)) = Some (Inr [label 1])"
  "bindR nested_wto (\<lambda>w. nesting w (label 1)) = Some (Inr [])"
  by code_simp+

section \<open>Properties\<close>

text \<open>
  On a graph with a loop inside a loop the builder returns a weak topological order, the inner
  loop nested in the outer one; but the visit of all loop heads reaches the head of the outer loop only,
  so no loop counter is set up for the inner one.
\<close>

theorem inner_loop_heads_not_visited:
  "\<exists>cfg wto. nested_graph = Inr cfg \<and> make_wto cfg = Some (Inr wto) \<and> wto_ok cfg (wto_view wto) \<and>
     wto_view wto = [Vertex entry_label, Cycle [Vertex (label 1), Cycle [Vertex (label 2)], Vertex (label 3)], Vertex exit_label] \<and>
     nesting wto (label 2) = Some (Inr [label 1]) \<and>
     for_each_loop_head (\<lambda>hs h. Inr (hs @ [h])) (wto_view wto) [] = Inr [label 1]"
proof -
  obtain cfg where cfg: "nested_graph = Inr cfg"
    using nested_wto_ok by (metis id_apply map_sum.simps(1) old.sum.exhaust sum.distinct(1))
  have made: "nested_wto = make_wto cfg" unfolding nested_wto_def cfg by simp
  then obtain wto where wto: "make_wto cfg = Some (Inr wto)" and view: "wto_view wto = nested_order"
    using nested_wto_order [unfolded map_run_Inr] by metis
  have "collect_loop_heads nested_order = Inr [label 1]" by code_simp
  moreover have "wto_ok cfg nested_order" using nested_wto_ok unfolding cfg by simp
  moreover have "nesting wto (label 2) = Some (Inr [label 1])" using nested_wto_nesting(1) unfolding made wto by simp
  ultimately show ?thesis
    using cfg wto view by (intro exI [of _ cfg] exI [of _ wto]) (simp add: nested_order_def [symmetric] collect_loop_heads_def)
qed

end
