(* ===== verification/Crab_Number.thy ===== *)
theory Crab_Number
  imports Ebpf_Prelude "HOL-Library.Signed_Division"
begin

text \<open>
  \<^verbatim>\<open>crab_utils/num_big.hpp\<close> and \<^verbatim>\<open>crab_utils/num_extended.hpp\<close>: the unbounded integers of the
  analysis and their extension by two infinities. The multiprecision integer inside
  \<^verbatim>\<open>number_t\<close> is HOL's \<open>int\<close>; its division truncates towards zero, and its bitwise operators give
  the value of the two's complement operation. \<^verbatim>\<open>CRAB_ERROR\<close> is an exception.
\<close>

section \<open>Machine integer types\<close>

datatype int_type = Signed nat | Unsigned nat

abbreviation int8_t :: int_type where "int8_t \<equiv> Signed 8"
abbreviation int16_t :: int_type where "int16_t \<equiv> Signed 16"
abbreviation int32_t :: int_type where "int32_t \<equiv> Signed 32"
abbreviation int64_t :: int_type where "int64_t \<equiv> Signed 64"
abbreviation uint8_t :: int_type where "uint8_t \<equiv> Unsigned 8"
abbreviation uint16_t :: int_type where "uint16_t \<equiv> Unsigned 16"
abbreviation uint32_t :: int_type where "uint32_t \<equiv> Unsigned 32"
abbreviation uint64_t :: int_type where "uint64_t \<equiv> Unsigned 64"

primrec type_width :: "int_type \<Rightarrow> nat" where
  "type_width (Signed w) = w"
| "type_width (Unsigned w) = w"

primrec type_min :: "int_type \<Rightarrow> int" where
  "type_min (Signed w) = - (2 ^ (w - 1))"
| "type_min (Unsigned w) = 0"

primrec type_max :: "int_type \<Rightarrow> int" where
  "type_max (Signed w) = 2 ^ (w - 1) - 1"
| "type_max (Unsigned w) = 2 ^ w - 1"

primrec swap_signedness :: "int_type \<Rightarrow> int_type" where
  "swap_signedness (Signed w) = Unsigned w"
| "swap_signedness (Unsigned w) = Signed w"

primrec make_unsigned :: "int_type \<Rightarrow> int_type" where
  "make_unsigned (Signed w) = Unsigned w"
| "make_unsigned (Unsigned w) = Unsigned w"

text \<open>The value of a \<^verbatim>\<open>static_cast\<close> between integer types: reduction modulo the width.\<close>

primrec static_cast :: "int_type \<Rightarrow> int \<Rightarrow> int" where
  "static_cast (Signed w) n = signed_take_bit (w - 1) n"
| "static_cast (Unsigned w) n = take_bit w n"

section \<open>Unbounded integers\<close>

type_synonym number_t = int

definition fits :: "int_type \<Rightarrow> number_t \<Rightarrow> bool" where
  "fits T n \<longleftrightarrow> type_min T \<le> n \<and> n \<le> type_max T"

definition fits_cast_to :: "int_type \<Rightarrow> number_t \<Rightarrow> bool" where
  "fits_cast_to T n \<longleftrightarrow> fits T n \<or> fits (swap_signedness T) n"

definition does_not_fit :: exn where
  "does_not_fit = RuntimeError ''number_t ''"

definition num_narrow :: "int_type \<Rightarrow> number_t \<Rightarrow> int res" where
  "num_narrow T n = (if \<not> fits T n then Inl does_not_fit else Inr n)"

definition cast_to :: "int_type \<Rightarrow> number_t \<Rightarrow> int res" where
  "cast_to T n =
    (if fits T n then Inr n
     else if fits (swap_signedness T) n then Inr (static_cast T n)
     else Inl does_not_fit)"

definition truncate_to :: "int_type \<Rightarrow> number_t \<Rightarrow> int" where
  "truncate_to T n = static_cast T (n AND type_max (make_unsigned T))"

definition with_width :: "(int_type \<Rightarrow> 'a res) \<Rightarrow> (nat \<Rightarrow> int_type) \<Rightarrow> exn \<Rightarrow> int \<Rightarrow> 'a res" where
  "with_width f mk e width =
    (if width = 8 then f (mk 8) else if width = 16 then f (mk 16)
     else if width = 32 then f (mk 32) else if width = 64 then f (mk 64) else Inl e)"

definition invalid_width :: exn where
  "invalid_width = RuntimeError ''invalid finite width''"

definition cast_to_sint :: "int \<Rightarrow> number_t \<Rightarrow> number_t res" where
  "cast_to_sint width n = (if width = 0 then Inr n else with_width (\<lambda>T. cast_to T n) Signed invalid_width width)"

definition cast_to_uint :: "int \<Rightarrow> number_t \<Rightarrow> number_t res" where
  "cast_to_uint width n = (if width = 0 then Inr n else with_width (\<lambda>T. cast_to T n) Unsigned invalid_width width)"

definition truncate_to_sint :: "int \<Rightarrow> number_t \<Rightarrow> number_t res" where
  "truncate_to_sint width n =
    (if width = 0 then Inr n else with_width (\<lambda>T. Inr (truncate_to T n)) Signed invalid_width width)"

definition truncate_to_uint :: "int \<Rightarrow> number_t \<Rightarrow> number_t res" where
  "truncate_to_uint width n =
    (if width = 0 then Inr n else with_width (\<lambda>T. Inr (truncate_to T n)) Unsigned invalid_width width)"

definition num_div :: "number_t \<Rightarrow> number_t \<Rightarrow> number_t res" where
  "num_div n x = (if x = 0 then Inl (RuntimeError ''number_t: division by zero [1]'') else Inr (n sdiv x))"

definition num_mod :: "number_t \<Rightarrow> number_t \<Rightarrow> number_t res" where
  "num_mod n x = (if x = 0 then Inl (RuntimeError ''number_t: division by zero [2]'') else Inr (n smod x))"

definition num_abs :: "number_t \<Rightarrow> number_t" where
  "num_abs n = (if n < 0 then - n else n)"

definition check_shift :: "number_t \<Rightarrow> nat res" where
  "check_shift x =
    (if x < 0 then Inl (RuntimeError ''Shift amount cannot be negative'')
     else if \<not> fits int32_t x then Inl does_not_fit
     else Inr (nat x))"

definition num_shl :: "number_t \<Rightarrow> number_t \<Rightarrow> number_t res" where
  "num_shl n x = bindE (check_shift x) (\<lambda>k. Inr (push_bit k n))"

definition num_shr :: "number_t \<Rightarrow> number_t \<Rightarrow> number_t res" where
  "num_shr n x = bindE (check_shift x) (\<lambda>k. Inr (drop_bit k n))"

text \<open>
  \<^verbatim>\<open>msb\<close> of a positive number plus one is its number of binary digits; the library function
  throws on a negative argument.
\<close>

fun binary_digits :: "nat \<Rightarrow> nat" where
  "binary_digits n = (if n = 0 then 0 else Suc (binary_digits (n div 2)))"

declare binary_digits.simps [simp del]

definition fill_ones :: "number_t \<Rightarrow> number_t res" where
  "fill_ones n =
    (if n = 0 then Inr 0
     else if n < 0 then Inl OutOfRange
     else Inr (2 ^ binary_digits (nat n) - 1))"

section \<open>Extended numbers\<close>

record extended_number =
  ext_is_infinite :: bool
  ext_n :: number_t

text \<open>The private constructor, the two infinities and the implicit conversion of a number.\<close>

definition mk_extended :: "bool \<Rightarrow> number_t \<Rightarrow> extended_number" where
  "mk_extended is_inf n =
     \<lparr>ext_is_infinite = is_inf, ext_n = (if is_inf then (if n > 0 then 1 else - 1) else n)\<rparr>"

definition plus_infinity :: extended_number where
  "plus_infinity = mk_extended True 1"

definition minus_infinity :: extended_number where
  "minus_infinity = mk_extended True (- 1)"

definition finite_ext :: "number_t \<Rightarrow> extended_number" where
  "finite_ext n = \<lparr>ext_is_infinite = False, ext_n = n\<rparr>"

definition is_infinite :: "extended_number \<Rightarrow> bool" where
  "is_infinite x = ext_is_infinite x"

definition is_finite :: "extended_number \<Rightarrow> bool" where
  "is_finite x = (\<not> ext_is_infinite x)"

definition is_plus_infinity :: "extended_number \<Rightarrow> bool" where
  "is_plus_infinity x = (is_infinite x \<and> ext_n x > 0)"

definition is_minus_infinity :: "extended_number \<Rightarrow> bool" where
  "is_minus_infinity x = (is_infinite x \<and> ext_n x < 0)"

definition ext_narrow :: "int_type \<Rightarrow> extended_number \<Rightarrow> int res" where
  "ext_narrow T x =
    (if ext_is_infinite x then Inl (RuntimeError ''Bound: cannot narrow infinite value'')
     else num_narrow T (ext_n x))"

definition ext_neg :: "extended_number \<Rightarrow> extended_number" where
  "ext_neg x = mk_extended (ext_is_infinite x) (- ext_n x)"

definition ext_add :: "extended_number \<Rightarrow> extended_number \<Rightarrow> extended_number res" where
  "ext_add x y =
    (if is_finite x then (if is_finite y then Inr (finite_ext (ext_n x + ext_n y)) else Inr y)
     else if is_finite y \<or> ext_n y = ext_n x then Inr x
     else Inl (RuntimeError ''Bound: undefined operation -oo + +oo''))"

definition ext_sub :: "extended_number \<Rightarrow> extended_number \<Rightarrow> extended_number res" where
  "ext_sub x y = ext_add x (ext_neg y)"

definition ext_mul :: "extended_number \<Rightarrow> extended_number \<Rightarrow> extended_number" where
  "ext_mul x y =
    (if ext_n y = 0 then y
     else if ext_n x = 0 then x
     else mk_extended (ext_is_infinite x \<or> ext_is_infinite y) (ext_n x * ext_n y))"

definition AbsDiv ::
  "extended_number \<Rightarrow> extended_number \<Rightarrow> (number_t \<Rightarrow> number_t \<Rightarrow> extended_number res) \<Rightarrow> extended_number res" where
  "AbsDiv x y f =
    (if ext_n y = 0 then Inl (RuntimeError ''Bound: division by zero'')
     else if is_infinite y then
       (if is_infinite x then Inl (RuntimeError ''Bound: inf / inf'') else Inr (finite_ext 0))
     else if is_infinite x then Inr x
     else f (ext_n x) (ext_n y))"

definition ext_div :: "extended_number \<Rightarrow> extended_number \<Rightarrow> extended_number res" where
  "ext_div x y = AbsDiv x y (\<lambda>a b. bindE (num_div a b) (\<lambda>q. Inr (finite_ext q)))"

definition ext_mod :: "extended_number \<Rightarrow> extended_number \<Rightarrow> extended_number res" where
  "ext_mod x y = AbsDiv x y (\<lambda>a b. bindE (num_mod a b) (\<lambda>r. Inr (finite_ext r)))"

definition to_u64 :: "number_t \<Rightarrow> number_t res" where
  "to_u64 n = (if n \<ge> 0 then Inr n else cast_to uint64_t n)"

definition ext_UDiv :: "extended_number \<Rightarrow> extended_number \<Rightarrow> extended_number res" where
  "ext_UDiv x y = AbsDiv x y (\<lambda>a b.
     bindE (to_u64 a) (\<lambda>a'. bindE (to_u64 b) (\<lambda>b'. bindE (num_div a' b') (\<lambda>q. Inr (finite_ext q)))))"

definition ext_URem :: "extended_number \<Rightarrow> extended_number \<Rightarrow> extended_number res" where
  "ext_URem x y = AbsDiv x y (\<lambda>a b.
     bindE (to_u64 a) (\<lambda>a'. bindE (to_u64 b) (\<lambda>b'. bindE (num_mod a' b') (\<lambda>r. Inr (finite_ext r)))))"

definition ext_le :: "extended_number \<Rightarrow> extended_number \<Rightarrow> bool" where
  "ext_le x y =
    (if ext_is_infinite x \<noteq> ext_is_infinite y
     then (if ext_is_infinite x then ext_n x < 0 else ext_n y > 0)
     else ext_n x \<le> ext_n y)"

definition ext_ge :: "extended_number \<Rightarrow> extended_number \<Rightarrow> bool" where
  "ext_ge x y =
    (if ext_is_infinite x \<noteq> ext_is_infinite y
     then (if ext_is_infinite x then ext_n x > 0 else ext_n y < 0)
     else ext_n x \<ge> ext_n y)"

definition ext_less :: "extended_number \<Rightarrow> extended_number \<Rightarrow> bool" where
  "ext_less x y = (\<not> ext_ge x y)"

definition ext_greater :: "extended_number \<Rightarrow> extended_number \<Rightarrow> bool" where
  "ext_greater x y = (\<not> ext_le x y)"

definition ext_abs :: "extended_number \<Rightarrow> extended_number" where
  "ext_abs x = (if ext_ge x (finite_ext 0) then x else ext_neg x)"

definition ext_number :: "extended_number \<Rightarrow> number_t option" where
  "ext_number x = (if is_infinite x then None else Some (ext_n x))"

text \<open>\<^verbatim>\<open>std::min\<close>, \<^verbatim>\<open>std::max\<close> and the two results of \<^verbatim>\<open>std::minmax\<close> on a list, all by \<open>operator<\<close>.\<close>

definition ext_min :: "extended_number \<Rightarrow> extended_number \<Rightarrow> extended_number" where
  "ext_min x y = (if ext_less y x then y else x)"

definition ext_max :: "extended_number \<Rightarrow> extended_number \<Rightarrow> extended_number" where
  "ext_max x y = (if ext_less x y then y else x)"

definition ext_min_list :: "extended_number list \<Rightarrow> extended_number" where
  "ext_min_list xs = fold (\<lambda>x m. if ext_less x m then x else m) (tl xs) (hd xs)"

definition ext_max_list :: "extended_number list \<Rightarrow> extended_number" where
  "ext_max_list xs = fold (\<lambda>x m. if ext_less x m then m else x) (tl xs) (hd xs)"

section \<open>Numbers and machine integers\<close>

lemma type_bounds [simp]: "type_min T \<le> type_max T"
  by (cases T) (simp_all add: order_trans [of _ 0])

lemma static_cast_id:
  assumes "fits T n" "0 < type_width T"
  shows "static_cast T n = n"
proof (cases T)
  case (Signed w)
  with assms show ?thesis by (simp add: fits_def signed_take_bit_int_eq_self)
next
  case (Unsigned w)
  with assms show ?thesis by (simp add: fits_def take_bit_int_eq_self)
qed

lemma static_cast_fits: "0 < type_width T \<Longrightarrow> fits T (static_cast T n)"
proof (cases T)
  case (Signed w)
  then show ?thesis
    using signed_take_bit_int_greater_eq_minus_exp [of "w - 1" n] signed_take_bit_int_less_exp [of "w - 1" n]
    by (simp add: fits_def)
next
  case (Unsigned w)
  then show ?thesis by (simp add: fits_def)
qed

lemma static_cast_mod:
  assumes "0 < type_width T"
  shows "static_cast T n mod 2 ^ type_width T = n mod 2 ^ type_width T"
proof (cases T)
  case (Signed w)
  then have "take_bit w (signed_take_bit (w - 1) n) = take_bit w n"
    using assms by (simp add: take_bit_signed_take_bit)
  then show ?thesis by (simp add: Signed take_bit_eq_mod)
next
  case (Unsigned w)
  then show ?thesis by (simp add: take_bit_eq_mod)
qed

lemma truncate_to_eq: "0 < type_width T \<Longrightarrow> truncate_to T n = static_cast T n"
proof (cases T)
  case (Signed w)
  assume "0 < type_width T"
  then have "\<not> w \<le> w - 1" by (simp add: Signed)
  moreover have "n AND (2 ^ w - 1) = take_bit w n" by (simp add: take_bit_eq_mask mask_eq_exp_minus_1)
  ultimately show ?thesis by (simp add: truncate_to_def Signed signed_take_bit_take_bit)
next
  case (Unsigned w)
  have "n AND (2 ^ w - 1) = take_bit w n" by (simp add: take_bit_eq_mask mask_eq_exp_minus_1)
  then show ?thesis by (simp add: truncate_to_def Unsigned)
qed

text \<open>A cast, where it does not throw, is truncation; it throws outside of both ranges of the width.\<close>

lemma cast_to_eq:
  assumes "0 < type_width T"
  shows "cast_to T n = (if fits_cast_to T n then Inr (truncate_to T n) else Inl does_not_fit)"
  using assms static_cast_id [of T n] by (simp add: cast_to_def fits_cast_to_def truncate_to_eq)

lemma binary_digits_bound: "n < 2 ^ binary_digits n"
proof (induction n rule: binary_digits.induct)
  case (1 n)
  show ?case
  proof (cases "n = 0")
    case False
    with 1 have "n div 2 < 2 ^ binary_digits (n div 2)" by blast
    with False show ?thesis by (subst binary_digits.simps) simp
  qed (simp add: binary_digits.simps)
qed

section \<open>Extended numbers: the abstract order\<close>

text \<open>
  The abstract numbers with two infinities, linearly ordered. A concrete number is valid when its
  payload is normalised at infinity; every operation keeps that, and the concrete operations and
  comparisons are those of the abstract numbers.
\<close>

datatype ext = MInf | Fin int | PInf

instantiation ext :: linorder
begin

definition less_eq_ext :: "ext \<Rightarrow> ext \<Rightarrow> bool" where
  "less_eq_ext x y = (case x of MInf \<Rightarrow> True | PInf \<Rightarrow> y = PInf
     | Fin a \<Rightarrow> (case y of MInf \<Rightarrow> False | Fin b \<Rightarrow> a \<le> b | PInf \<Rightarrow> True))"

definition less_ext :: "ext \<Rightarrow> ext \<Rightarrow> bool" where
  "less_ext x y = (x \<le> y \<and> \<not> y \<le> (x :: ext))"

instance
  by standard (auto simp: less_eq_ext_def less_ext_def split: ext.splits)

end

lemma ext_order_simps [simp]:
  "MInf \<le> x" "x \<le> PInf" "Fin a \<le> Fin b \<longleftrightarrow> a \<le> b" "\<not> Fin a \<le> MInf" "\<not> PInf \<le> Fin a" "\<not> PInf \<le> MInf"
  by (simp_all add: less_eq_ext_def split: ext.splits)

lemma ext_strict_simps [simp]:
  "Fin a < Fin b \<longleftrightarrow> a < b" "MInf < Fin a" "Fin a < PInf" "MInf < PInf" "\<not> x < MInf" "\<not> PInf < x"
  by (auto simp: less_ext_def less_eq_ext_def split: ext.splits)

definition ext_ok :: "extended_number \<Rightarrow> bool" where
  "ext_ok x \<longleftrightarrow> (ext_is_infinite x \<longrightarrow> ext_n x = 1 \<or> ext_n x = - 1)"

definition abs_ext :: "extended_number \<Rightarrow> ext" where
  "abs_ext x = (if ext_is_infinite x then (if ext_n x > 0 then PInf else MInf) else Fin (ext_n x))"

lemma abs_ext_simps [simp]:
  "abs_ext plus_infinity = PInf" "abs_ext minus_infinity = MInf" "abs_ext (finite_ext n) = Fin n"
  by (simp_all add: abs_ext_def plus_infinity_def minus_infinity_def finite_ext_def mk_extended_def)

lemma ext_ok_simps [simp]:
  "ext_ok plus_infinity" "ext_ok minus_infinity" "ext_ok (finite_ext n)" "ext_ok (mk_extended i n)"
  by (simp_all add: ext_ok_def plus_infinity_def minus_infinity_def finite_ext_def mk_extended_def)

lemma abs_ext_inj: "ext_ok x \<Longrightarrow> ext_ok y \<Longrightarrow> abs_ext x = abs_ext y \<longleftrightarrow> x = y"
  by (auto simp: abs_ext_def ext_ok_def split: if_splits)

lemma ext_exhaust:
  assumes "ext_ok x"
  obtains "x = minus_infinity" | n where "x = finite_ext n" | "x = plus_infinity"
  using assms
  by (cases x) (auto simp: ext_ok_def plus_infinity_def minus_infinity_def finite_ext_def mk_extended_def)

lemma ext_compare_refines:
  assumes "ext_ok x" "ext_ok y"
  shows "ext_le x y \<longleftrightarrow> abs_ext x \<le> abs_ext y" "ext_ge x y \<longleftrightarrow> abs_ext y \<le> abs_ext x"
    "ext_less x y \<longleftrightarrow> abs_ext x < abs_ext y" "ext_greater x y \<longleftrightarrow> abs_ext y < abs_ext x"
proof -
  show le: "ext_le x y \<longleftrightarrow> abs_ext x \<le> abs_ext y" and ge: "ext_ge x y \<longleftrightarrow> abs_ext y \<le> abs_ext x"
    using assms by (auto simp: ext_le_def ext_ge_def abs_ext_def ext_ok_def)
  show "ext_less x y \<longleftrightarrow> abs_ext x < abs_ext y" "ext_greater x y \<longleftrightarrow> abs_ext y < abs_ext x"
    using le ge by (auto simp: ext_less_def ext_greater_def)
qed

lemma ext_neg_simps [simp]:
  "ext_neg plus_infinity = minus_infinity" "ext_neg minus_infinity = plus_infinity"
  "ext_neg (finite_ext n) = finite_ext (- n)"
  by (simp_all add: ext_neg_def plus_infinity_def minus_infinity_def finite_ext_def mk_extended_def)

lemma ext_kind_simps [simp]:
  "is_infinite plus_infinity" "is_infinite minus_infinity" "\<not> is_infinite (finite_ext n)"
  "\<not> is_finite plus_infinity" "\<not> is_finite minus_infinity" "is_finite (finite_ext n)"
  "ext_number plus_infinity = None" "ext_number minus_infinity = None" "ext_number (finite_ext n) = Some n"
  "ext_narrow T (finite_ext n) = num_narrow T n"
  by (simp_all add: is_infinite_def is_finite_def ext_number_def ext_narrow_def plus_infinity_def minus_infinity_def
      finite_ext_def mk_extended_def)

lemma ext_distinct [simp]:
  "plus_infinity \<noteq> minus_infinity" "minus_infinity \<noteq> plus_infinity"
  "finite_ext n \<noteq> plus_infinity" "plus_infinity \<noteq> finite_ext n"
  "finite_ext n \<noteq> minus_infinity" "minus_infinity \<noteq> finite_ext n"
  "finite_ext n = finite_ext m \<longleftrightarrow> n = m"
  by (simp_all add: plus_infinity_def minus_infinity_def finite_ext_def mk_extended_def)

lemma ext_add_simps [simp]:
  "ext_add (finite_ext a) (finite_ext b) = Inr (finite_ext (a + b))"
  "ext_add (finite_ext a) plus_infinity = Inr plus_infinity"
  "ext_add (finite_ext a) minus_infinity = Inr minus_infinity"
  "ext_add plus_infinity (finite_ext b) = Inr plus_infinity"
  "ext_add minus_infinity (finite_ext b) = Inr minus_infinity"
  "ext_add plus_infinity plus_infinity = Inr plus_infinity"
  "ext_add minus_infinity minus_infinity = Inr minus_infinity"
  by (simp_all add: ext_add_def is_finite_def plus_infinity_def minus_infinity_def finite_ext_def mk_extended_def)

lemma opposite_infinities:
  "\<exists>e. ext_add plus_infinity minus_infinity = Inl e" "\<exists>e. ext_add minus_infinity plus_infinity = Inl e"
  by (simp_all add: ext_add_def is_finite_def plus_infinity_def minus_infinity_def mk_extended_def)

lemma ext_mul_simps [simp]:
  "ext_mul (finite_ext a) (finite_ext b) = finite_ext (a * b)"
  "ext_mul plus_infinity (finite_ext b) =
     (if b = 0 then finite_ext 0 else if b > 0 then plus_infinity else minus_infinity)"
  "ext_mul minus_infinity (finite_ext b) =
     (if b = 0 then finite_ext 0 else if b > 0 then minus_infinity else plus_infinity)"
  "ext_mul (finite_ext b) plus_infinity =
     (if b = 0 then finite_ext 0 else if b > 0 then plus_infinity else minus_infinity)"
  "ext_mul (finite_ext b) minus_infinity =
     (if b = 0 then finite_ext 0 else if b > 0 then minus_infinity else plus_infinity)"
  "ext_mul plus_infinity plus_infinity = plus_infinity" "ext_mul minus_infinity minus_infinity = plus_infinity"
  "ext_mul plus_infinity minus_infinity = minus_infinity" "ext_mul minus_infinity plus_infinity = minus_infinity"
  by (auto simp: ext_mul_def plus_infinity_def minus_infinity_def finite_ext_def mk_extended_def)

lemma ext_div_simps [simp]:
  "b \<noteq> 0 \<Longrightarrow> ext_div (finite_ext a) (finite_ext b) = Inr (finite_ext (a sdiv b))"
  "b \<noteq> 0 \<Longrightarrow> ext_div plus_infinity (finite_ext b) = Inr plus_infinity"
  "b \<noteq> 0 \<Longrightarrow> ext_div minus_infinity (finite_ext b) = Inr minus_infinity"
  by (simp_all add: ext_div_def AbsDiv_def num_div_def is_infinite_def plus_infinity_def minus_infinity_def finite_ext_def
      mk_extended_def)

lemma ext_UDiv_simps [simp]:
  "0 \<le> a \<Longrightarrow> 0 < b \<Longrightarrow> ext_UDiv (finite_ext a) (finite_ext b) = Inr (finite_ext (a sdiv b))"
  by (simp add: ext_UDiv_def AbsDiv_def num_div_def to_u64_def is_infinite_def finite_ext_def)

lemma ext_compare_simps [simp]:
  assumes "ext_ok x"
  shows "ext_le x (finite_ext b) \<longleftrightarrow> abs_ext x \<le> Fin b" "ext_le (finite_ext b) x \<longleftrightarrow> Fin b \<le> abs_ext x"
    "ext_ge x (finite_ext b) \<longleftrightarrow> Fin b \<le> abs_ext x" "ext_ge (finite_ext b) x \<longleftrightarrow> abs_ext x \<le> Fin b"
    "ext_less x (finite_ext b) \<longleftrightarrow> abs_ext x < Fin b" "ext_less (finite_ext b) x \<longleftrightarrow> Fin b < abs_ext x"
    "ext_greater x (finite_ext b) \<longleftrightarrow> Fin b < abs_ext x" "ext_greater (finite_ext b) x \<longleftrightarrow> abs_ext x < Fin b"
  using assms by (simp_all add: ext_compare_refines)

lemma ext_min_max_refine:
  assumes "ext_ok x" "ext_ok y"
  shows "ext_ok (ext_min x y)" "ext_ok (ext_max x y)"
    "abs_ext (ext_min x y) = min (abs_ext x) (abs_ext y)" "abs_ext (ext_max x y) = max (abs_ext x) (abs_ext y)"
  using assms by (auto simp: ext_min_def ext_max_def ext_compare_refines min_def max_def)

lemma fold_ext_min:
  assumes "ext_ok m" "\<forall>x \<in> set xs. ext_ok x"
  shows "ext_ok (fold (\<lambda>x m. if ext_less x m then x else m) xs m) \<and>
    abs_ext (fold (\<lambda>x m. if ext_less x m then x else m) xs m) = Min (insert (abs_ext m) (abs_ext ` set xs))"
  using assms
proof (induction xs arbitrary: m)
  case (Cons x xs)
  then show ?case
    by (cases "xs = []") (auto simp: ext_compare_refines min_def insert_commute)
qed simp

lemma fold_ext_max:
  assumes "ext_ok m" "\<forall>x \<in> set xs. ext_ok x"
  shows "ext_ok (fold (\<lambda>x m. if ext_less x m then m else x) xs m) \<and>
    abs_ext (fold (\<lambda>x m. if ext_less x m then m else x) xs m) = Max (insert (abs_ext m) (abs_ext ` set xs))"
  using assms
proof (induction xs arbitrary: m)
  case (Cons x xs)
  then show ?case
    by (cases "xs = []") (auto simp: ext_compare_refines max_def insert_commute)
qed simp

lemma ext_minmax_list:
  assumes "xs \<noteq> []" "\<forall>x \<in> set xs. ext_ok x"
  shows "ext_ok (ext_min_list xs)" "ext_ok (ext_max_list xs)"
    "abs_ext (ext_min_list xs) = Min (abs_ext ` set xs)" "abs_ext (ext_max_list xs) = Max (abs_ext ` set xs)"
  using assms fold_ext_min [of "hd xs" "tl xs"] fold_ext_max [of "hd xs" "tl xs"]
  by (cases xs; simp add: ext_min_list_def ext_max_list_def)+

section \<open>The properties of extended numbers\<close>

text \<open>
  The four comparisons of extended numbers are those of the integers with a least and a
  greatest element, and addition throws exactly on opposite infinities.
\<close>

theorem extended_numbers_refine_order:
  assumes "ext_ok x" "ext_ok y"
  shows "(ext_le x y \<longleftrightarrow> abs_ext x \<le> abs_ext y) \<and> (ext_ge x y \<longleftrightarrow> abs_ext y \<le> abs_ext x) \<and>
    (ext_less x y \<longleftrightarrow> abs_ext x < abs_ext y) \<and> (ext_greater x y \<longleftrightarrow> abs_ext y < abs_ext x) \<and>
    (x = y \<longleftrightarrow> abs_ext x = abs_ext y) \<and>
    ((\<exists>e. ext_add x y = Inl e) \<longleftrightarrow> {abs_ext x, abs_ext y} = {MInf, PInf})"
proof -
  have "(\<exists>e. ext_add x y = Inl e) \<longleftrightarrow> {abs_ext x, abs_ext y} = {MInf, PInf}"
    using assms by (elim ext_exhaust) (auto simp: doubleton_eq_iff opposite_infinities)
  then show ?thesis using ext_compare_refines [OF assms] abs_ext_inj [OF assms] by blast
qed

theorem extended_numbers_refine_order_witness:
  "ext_less (finite_ext 3) plus_infinity \<longleftrightarrow> abs_ext (finite_ext 3) < abs_ext plus_infinity"
  using extended_numbers_refine_order [of "finite_ext 3" plus_infinity] by simp

end
