(* ===== verification/Crab_Fwd_Analyzer.thy ===== *)
theory Crab_Fwd_Analyzer
  imports Crab_Wto Crab_Number
begin

text \<open>
  \<^verbatim>\<open>crab/fwd_analyzer.hpp\<close> and \<^verbatim>\<open>crab/fwd_analyzer.cpp\<close>: the iteration over the components of the weak
  topological order, with widening and narrowing at the heads of the cycles. The iterator uses the
  abstract states only through the operations of \<^verbatim>\<open>ebpf_domain_t\<close>, which are the fields of a record
  here. The number of an iteration is a 32-bit unsigned integer, as in the code.
\<close>

section \<open>The domain the iterator is written against\<close>

record 'd domain_ops =
  dom_bottom :: 'd
  dom_le :: "'d \<Rightarrow> 'd \<Rightarrow> bool"
  dom_join :: "'d \<Rightarrow> 'd \<Rightarrow> 'd"   \<comment> \<open>\<open>operator|\<close>\<close>
  dom_join_into :: "'d \<Rightarrow> 'd \<Rightarrow> 'd"   \<comment> \<open>\<open>operator|=\<close>\<close>
  dom_meet :: "'d \<Rightarrow> 'd \<Rightarrow> 'd"
  dom_widen :: "'d \<Rightarrow> 'd \<Rightarrow> bool \<Rightarrow> 'd"
  dom_narrow :: "'d \<Rightarrow> 'd \<Rightarrow> 'd"
  dom_is_bottom :: "'d \<Rightarrow> bool"
  dom_transform :: "'d \<Rightarrow> Instruction \<Rightarrow> 'd res"
  dom_assume :: "'d \<Rightarrow> Assertion \<Rightarrow> 'd res"
  dom_check :: "'d \<Rightarrow> Assertion \<Rightarrow> string list res"
  dom_initialize_loop_counter :: "'d \<Rightarrow> label_t \<Rightarrow> 'd res"
  dom_loop_count_upper_bound :: "'d \<Rightarrow> extended_number"

section \<open>The table of invariants\<close>

record 'd invariant_map_pair =
  inv_pre :: 'd
  inv_post :: 'd

type_synonym 'd invariant_table_t = "(label_t, 'd invariant_map_pair) omap"

record 'd iterator_t =
  it_inv :: "'d invariant_table_t"
  it_skip :: bool

definition set_pre :: "label_t \<Rightarrow> 'd \<Rightarrow> 'd iterator_t \<Rightarrow> 'd iterator_t res" where
  "set_pre l v st =
     bindE (omap_at (it_inv st) l) (\<lambda>p. Inr (st\<lparr>it_inv := omap_put l (p\<lparr>inv_pre := v\<rparr>) (it_inv st)\<rparr>))"

definition set_post :: "label_t \<Rightarrow> 'd \<Rightarrow> 'd iterator_t \<Rightarrow> 'd iterator_t res" where
  "set_post l v st =
     bindE (omap_at (it_inv st) l) (\<lambda>p. Inr (st\<lparr>it_inv := omap_put l (p\<lparr>inv_post := v\<rparr>) (it_inv st)\<rparr>))"

definition get_pre :: "'d iterator_t \<Rightarrow> label_t \<Rightarrow> 'd res" where
  "get_pre st l = bindE (omap_at (it_inv st) l) (\<lambda>p. Inr (inv_pre p))"

definition get_post :: "'d iterator_t \<Rightarrow> label_t \<Rightarrow> 'd res" where
  "get_post st l = bindE (omap_at (it_inv st) l) (\<lambda>p. Inr (inv_post p))"

definition transfer :: "ebpf_verifier_options_t \<Rightarrow> 'd domain_ops \<Rightarrow> cfg_t \<Rightarrow> label_t \<Rightarrow> 'd \<Rightarrow> 'd res" where
  "transfer opts ops cfg l pre =
     bindE (if assume_assertions opts then bindE (assertions_at cfg l) (foldE (dom_assume ops) pre) else Inr pre) (\<lambda>pre1.
     bindE (instruction_at cfg l) (dom_transform ops pre1))"

definition transform_to_post ::
  "ebpf_verifier_options_t \<Rightarrow> 'd domain_ops \<Rightarrow> cfg_t \<Rightarrow> label_t \<Rightarrow> 'd \<Rightarrow> 'd iterator_t \<Rightarrow> 'd iterator_t res" where
  "transform_to_post opts ops cfg l pre st = bindE (transfer opts ops cfg l pre) (\<lambda>post. set_post l post st)"

definition join_posts :: "'d domain_ops \<Rightarrow> 'd iterator_t \<Rightarrow> label_t list \<Rightarrow> 'd res" where
  "join_posts ops st prevs =
     foldE (\<lambda>res prev. bindE (get_post st prev) (\<lambda>d. Inr (dom_join_into ops res d))) (dom_bottom ops) prevs"

definition join_all_prevs :: "'d domain_ops \<Rightarrow> cfg_t \<Rightarrow> label_t \<Rightarrow> 'd iterator_t \<Rightarrow> 'd res" where
  "join_all_prevs ops cfg node st =
    (if node = entry_label then get_pre st node else bindE (parents_of cfg node) (join_posts ops st))"

section \<open>Widening and narrowing\<close>

definition widening_delay :: u32 where
  "widening_delay = 2"

definition descending_iterations :: u32 where
  "descending_iterations = 2000000"

definition extrapolate :: "'d domain_ops \<Rightarrow> 'd \<Rightarrow> 'd \<Rightarrow> u32 \<Rightarrow> 'd" where
  "extrapolate ops before after iteration =
    (if iteration < widening_delay then dom_join ops before after
     else dom_widen ops before after (iteration = widening_delay))"

definition refine :: "'d domain_ops \<Rightarrow> 'd \<Rightarrow> 'd \<Rightarrow> u32 \<Rightarrow> 'd" where
  "refine ops before after iteration =
    (if iteration = 1 then dom_meet ops before after else dom_narrow ops before after)"

section \<open>Visits\<close>

definition visit_vertex ::
  "ebpf_verifier_options_t \<Rightarrow> 'd domain_ops \<Rightarrow> cfg_t \<Rightarrow> label_t \<Rightarrow> 'd iterator_t \<Rightarrow> 'd iterator_t res" where
  "visit_vertex opts ops cfg node st0 =
    (let st = (if it_skip st0 \<and> node = entry_label then st0\<lparr>it_skip := False\<rparr> else st0) in
     if it_skip st then Inr st
     else
       bindE (join_all_prevs ops cfg node st) (\<lambda>pre.
       bindE (set_pre node pre st) (transform_to_post opts ops cfg node pre)))"

definition initial_invariant :: "'d domain_ops \<Rightarrow> cfg_t \<Rightarrow> wto_t \<Rightarrow> label_t \<Rightarrow> 'd iterator_t \<Rightarrow> 'd run" where
  "initial_invariant ops cfg wto head st =
     bindR (nesting wto head) (\<lambda>cycle_nesting.
     bindR (lift_res (parents_of cfg head)) (\<lambda>prevs.
       foldR (\<lambda>inv prev. bindR (nesting wto prev) (\<lambda>n.
           if nesting_greater n cycle_nesting then Some (Inr inv)
           else lift_res (bindE (get_post st prev) (\<lambda>d. Inr (dom_join_into ops inv d)))))
         (dom_bottom ops) prevs))"

text \<open>One round of each of the two loops: it continues with \<open>Inl\<close> and breaks with \<open>Inr\<close>.\<close>

definition increasing_round ::
  "ebpf_verifier_options_t \<Rightarrow> 'd domain_ops \<Rightarrow> cfg_t \<Rightarrow> label_t \<Rightarrow> ('d iterator_t \<Rightarrow> 'd iterator_t run) \<Rightarrow>
   'd \<times> u32 \<times> 'd iterator_t \<Rightarrow> ('d \<times> u32 \<times> 'd iterator_t + 'd \<times> 'd iterator_t) run" where
  "increasing_round opts ops cfg head body = (\<lambda>(invariant, iteration, st).
     bindR (lift_res (bindE (set_pre head invariant st) (transform_to_post opts ops cfg head invariant))) (\<lambda>st1.
     bindR (body st1) (\<lambda>st2.
     bindR (lift_res (join_all_prevs ops cfg head st2)) (\<lambda>new_pre.
       if dom_le ops new_pre invariant
       then lift_res (bindE (set_pre head new_pre st2) (\<lambda>st3. Inr (Inr (new_pre, st3))))
       else Some (Inr (Inl (extrapolate ops invariant new_pre iteration, iteration + 1, st2)))))))"

definition decreasing_round ::
  "ebpf_verifier_options_t \<Rightarrow> 'd domain_ops \<Rightarrow> cfg_t \<Rightarrow> label_t \<Rightarrow> ('d iterator_t \<Rightarrow> 'd iterator_t run) \<Rightarrow>
   'd \<times> u32 \<times> 'd iterator_t \<Rightarrow> ('d \<times> u32 \<times> 'd iterator_t + 'd iterator_t) run" where
  "decreasing_round opts ops cfg head body = (\<lambda>(invariant, iteration, st).
     bindR (lift_res (transform_to_post opts ops cfg head invariant st)) (\<lambda>st1.
     bindR (body st1) (\<lambda>st2.
     bindR (lift_res (join_all_prevs ops cfg head st2)) (\<lambda>new_pre.
       if dom_le ops invariant new_pre then Some (Inr (Inr st2))
       else if descending_iterations < iteration then Some (Inr (Inr st2))
       else
         let invariant1 = refine ops invariant new_pre iteration in
         lift_res (bindE (set_pre head invariant1 st2) (\<lambda>st3. Inr (Inl (invariant1, iteration + 1, st3))))))))"

definition stabilize_cycle ::
  "ebpf_verifier_options_t \<Rightarrow> 'd domain_ops \<Rightarrow> cfg_t \<Rightarrow> label_t \<Rightarrow> ('d iterator_t \<Rightarrow> 'd iterator_t run) \<Rightarrow> 'd \<Rightarrow>
   'd iterator_t \<Rightarrow> 'd iterator_t run" where
  "stabilize_cycle opts ops cfg head body invariant st =
     bindR (loop_run (increasing_round opts ops cfg head body) (invariant, 1, st)) (\<lambda>(invariant1, st1).
       loop_run (decreasing_round opts ops cfg head body) (invariant1, 1, st1))"

definition enter_cycle ::
  "'d domain_ops \<Rightarrow> cfg_t \<Rightarrow> wto_t \<Rightarrow> wto_comp list \<Rightarrow> label_t \<Rightarrow> 'd iterator_t \<Rightarrow> ('d option \<times> 'd iterator_t) run" where
  "enter_cycle ops cfg wto cs head st =
    (if it_skip st then
       bindR (lift_res (is_component_member entry_label (Cycle cs))) (\<lambda>entry_in_this_cycle.
         let st1 = st\<lparr>it_skip := \<not> entry_in_this_cycle\<rparr> in
         if \<not> entry_in_this_cycle then Some (Inr (None, st1))
         else lift_res (bindE (get_pre st1 entry_label) (\<lambda>d. Inr (Some d, st1))))
     else bindR (initial_invariant ops cfg wto head st) (\<lambda>d. Some (Inr (Some d, st))))"

definition stabilize_entered ::
  "ebpf_verifier_options_t \<Rightarrow> 'd domain_ops \<Rightarrow> cfg_t \<Rightarrow> label_t \<Rightarrow> ('d iterator_t \<Rightarrow> 'd iterator_t run) \<Rightarrow>
   'd option \<times> 'd iterator_t \<Rightarrow> 'd iterator_t run" where
  "stabilize_entered opts ops cfg head body = (\<lambda>(inv, st).
     case inv of None \<Rightarrow> Some (Inr st) | Some d \<Rightarrow> stabilize_cycle opts ops cfg head body d st)"

fun visit_comp ::
  "ebpf_verifier_options_t \<Rightarrow> 'd domain_ops \<Rightarrow> cfg_t \<Rightarrow> wto_t \<Rightarrow> wto_comp \<Rightarrow> 'd iterator_t \<Rightarrow> 'd iterator_t run"
  and visit_body ::
  "ebpf_verifier_options_t \<Rightarrow> 'd domain_ops \<Rightarrow> cfg_t \<Rightarrow> wto_t \<Rightarrow> label_t \<Rightarrow> wto_comp list \<Rightarrow> 'd iterator_t \<Rightarrow> 'd iterator_t run" where
  "visit_comp opts ops cfg wto (Vertex node) st = lift_res (visit_vertex opts ops cfg node st)"
| "visit_comp opts ops cfg wto (Cycle cs) st =
     bindR (lift_res (comp_head cs)) (\<lambda>head.
     bindR (enter_cycle ops cfg wto cs head st)
       (stabilize_entered opts ops cfg head (\<lambda>st'. visit_body opts ops cfg wto head cs st')))"
| "visit_body opts ops cfg wto head [] st = Some (Inr st)"
| "visit_body opts ops cfg wto head (c # cs) st =
     bindR (if c = Vertex head then Some (Inr st) else visit_comp opts ops cfg wto c st)
       (\<lambda>st'. visit_body opts ops cfg wto head cs st')"

section \<open>The whole analysis\<close>

definition initial_table :: "'d domain_ops \<Rightarrow> cfg_t \<Rightarrow> 'd invariant_table_t" where
  "initial_table ops cfg = map (\<lambda>l. (l, \<lparr>inv_pre = dom_bottom ops, inv_post = dom_bottom ops\<rparr>)) (cfg_labels cfg)"

definition initialize_loop_counters ::
  "ebpf_verifier_options_t \<Rightarrow> 'd domain_ops \<Rightarrow> wto_t \<Rightarrow> 'd \<Rightarrow> 'd res" where
  "initialize_loop_counters opts ops wto entry_inv =
    (if check_for_termination opts
     then for_each_loop_head (dom_initialize_loop_counter ops) (wto_view wto) entry_inv
     else Inr entry_inv)"

definition run_forward_analyzer ::
  "ebpf_verifier_options_t \<Rightarrow> 'd domain_ops \<Rightarrow> cfg_t \<Rightarrow> 'd \<Rightarrow> 'd invariant_table_t run" where
  "run_forward_analyzer opts ops cfg entry_inv =
     bindR (make_wto cfg) (\<lambda>wto.
     bindR (lift_res (bindE (initialize_loop_counters opts ops wto entry_inv) (\<lambda>inv.
       set_pre entry_label inv \<lparr>it_inv = initial_table ops cfg, it_skip = True\<rparr>))) (\<lambda>st.
     bindR (foldR (\<lambda>st c. visit_comp opts ops cfg wto c st) st (wto_view wto)) (\<lambda>st'.
       Some (Inr (it_inv st')))))"

end
