(* ===== verification/Crab_Fwd_Sound.thy ===== *)
theory Crab_Fwd_Sound
  imports Crab_Fwd_Analyzer
begin

text \<open>
  The forward analysis covers every execution. An execution is a path through the control-flow graph
  that starts at the entry in a state of the entry invariant. What a visit of a set of vertices computes
  is stated relative to the states that flow into the set; a cycle is the fixpoint at its head.
  Neither monotonicity of the transfer functions nor an upper bound from widening is needed (the
  widening of \<^verbatim>\<open>ebpf_domain_t\<close> gives none when it cuts its result back to constant limits): the
  increasing iteration checks its result, and the decreasing one intersects states that both cover.
\<close>

section \<open>Executions inside a set of vertices\<close>

inductive reach_in ::
  "(label_t \<Rightarrow> 's \<Rightarrow> 's \<Rightarrow> bool) \<Rightarrow> (label_t \<times> label_t) set \<Rightarrow> label_t set \<Rightarrow> (label_t \<Rightarrow> 's set) \<Rightarrow> label_t \<Rightarrow> 's \<Rightarrow> bool"
  for S :: "label_t \<Rightarrow> 's \<Rightarrow> 's \<Rightarrow> bool" and E :: "(label_t \<times> label_t) set" and N :: "label_t set" and inp :: "label_t \<Rightarrow> 's set" where
  reach_start: "v \<in> N \<Longrightarrow> s \<in> inp v \<Longrightarrow> reach_in S E N inp v s"
| reach_step: "reach_in S E N inp u s \<Longrightarrow> S u s s' \<Longrightarrow> (u, v) \<in> E \<Longrightarrow> v \<in> N \<Longrightarrow> reach_in S E N inp v s'"

inductive_cases reach_inE: "reach_in S E N inp v s"

lemma reach_in_mem: "reach_in S E N inp v s \<Longrightarrow> v \<in> N"
  by (erule reach_in.cases) auto

section \<open>What the iterator needs of a domain\<close>

definition sound_lattice :: "'d domain_ops \<Rightarrow> ('d \<Rightarrow> 's set) \<Rightarrow> ('d \<Rightarrow> bool) \<Rightarrow> bool" where
  "sound_lattice ops gam ok \<longleftrightarrow>
     ok (dom_bottom ops) \<and>
     (\<forall>a b. ok a \<longrightarrow> ok b \<longrightarrow>
        (dom_le ops a b \<longrightarrow> gam a \<subseteq> gam b) \<and>
        ok (dom_join ops a b) \<and>
        ok (dom_join_into ops a b) \<and> gam a \<union> gam b \<subseteq> gam (dom_join_into ops a b) \<and>
        ok (dom_meet ops a b) \<and> gam a \<inter> gam b \<subseteq> gam (dom_meet ops a b) \<and>
        ok (dom_narrow ops a b) \<and> gam a \<inter> gam b \<subseteq> gam (dom_narrow ops a b) \<and>
        (\<forall>to_constants. ok (dom_widen ops a b to_constants)))"

definition sound_transfer ::
  "ebpf_verifier_options_t \<Rightarrow> 'd domain_ops \<Rightarrow> cfg_t \<Rightarrow> ('d \<Rightarrow> 's set) \<Rightarrow> ('d \<Rightarrow> bool) \<Rightarrow> (label_t \<Rightarrow> 's \<Rightarrow> 's \<Rightarrow> bool) \<Rightarrow> bool" where
  "sound_transfer opts ops cfg gam ok S \<longleftrightarrow>
     (\<forall>l d d'. ok d \<longrightarrow> transfer opts ops cfg l d = Inr d' \<longrightarrow> ok d' \<and> (\<forall>s \<in> gam d. \<forall>s'. S l s s' \<longrightarrow> s' \<in> gam d'))"

lemma sound_latticeD:
  assumes "sound_lattice ops gam ok"
  shows "ok (dom_bottom ops)"
    and "ok a \<Longrightarrow> ok b \<Longrightarrow> dom_le ops a b \<Longrightarrow> gam a \<subseteq> gam b"
    and "ok a \<Longrightarrow> ok b \<Longrightarrow> ok (dom_join_into ops a b)" "ok a \<Longrightarrow> ok b \<Longrightarrow> gam a \<union> gam b \<subseteq> gam (dom_join_into ops a b)"
    and "ok a \<Longrightarrow> ok b \<Longrightarrow> ok (extrapolate ops a b i)"
    and "ok a \<Longrightarrow> ok b \<Longrightarrow> ok (refine ops a b i)" "ok a \<Longrightarrow> ok b \<Longrightarrow> gam a \<inter> gam b \<subseteq> gam (refine ops a b i)"
  using assms by (simp_all add: sound_lattice_def extrapolate_def refine_def)

lemma sound_transferD:
  assumes "sound_transfer opts ops cfg gam ok S" "ok d" "transfer opts ops cfg l d = Inr d'"
  shows "ok d'" "s \<in> gam d \<Longrightarrow> S l s s' \<Longrightarrow> s' \<in> gam d'"
  using assms unfolding sound_transfer_def by blast+

section \<open>The table\<close>

definition pre_of :: "'d iterator_t \<Rightarrow> label_t \<Rightarrow> 'd" where
  "pre_of st l = inv_pre (the (map_of (it_inv st) l))"

definition post_of :: "'d iterator_t \<Rightarrow> label_t \<Rightarrow> 'd" where
  "post_of st l = inv_post (the (map_of (it_inv st) l))"

definition table_ok :: "('d \<Rightarrow> bool) \<Rightarrow> 'd iterator_t \<Rightarrow> bool" where
  "table_ok ok st \<longleftrightarrow> \<not> it_skip st \<and> (\<forall>l p. map_of (it_inv st) l = Some p \<longrightarrow> ok (inv_pre p) \<and> ok (inv_post p))"

definition same_outside :: "label_t set \<Rightarrow> 'd iterator_t \<Rightarrow> 'd iterator_t \<Rightarrow> bool" where
  "same_outside N st st' \<longleftrightarrow>
     dom (map_of (it_inv st')) = dom (map_of (it_inv st)) \<and> (\<forall>l. l \<notin> N \<longrightarrow> map_of (it_inv st') l = map_of (it_inv st) l)"

lemma same_outside_refl [simp]: "same_outside N st st"
  by (simp add: same_outside_def)

lemma same_outside_trans: "same_outside N st st1 \<Longrightarrow> same_outside M st1 st2 \<Longrightarrow> N \<subseteq> K \<Longrightarrow> M \<subseteq> K \<Longrightarrow> same_outside K st st2"
  unfolding same_outside_def by (metis subsetD)

lemma same_outside_of: "same_outside N st st' \<Longrightarrow> l \<notin> N \<Longrightarrow> pre_of st' l = pre_of st l \<and> post_of st' l = post_of st l"
  by (simp add: same_outside_def pre_of_def post_of_def)

lemma set_pre_effect:
  assumes "set_pre l v st = Inr st'"
  shows "same_outside {l} st st'" "pre_of st' l = v" "post_of st' l = post_of st l"
    "it_skip st' = it_skip st" "table_ok ok st \<Longrightarrow> ok v \<Longrightarrow> table_ok ok st'"
  using assms
  by (auto simp: set_pre_def bindE_eq_Inr_iff omap_at_def same_outside_def pre_of_def post_of_def table_ok_def split: if_splits)

lemma set_post_effect:
  assumes "set_post l v st = Inr st'"
  shows "same_outside {l} st st'" "pre_of st' l = pre_of st l" "post_of st' l = v"
    "it_skip st' = it_skip st" "table_ok ok st \<Longrightarrow> ok v \<Longrightarrow> table_ok ok st'"
  using assms
  by (auto simp: set_post_def bindE_eq_Inr_iff omap_at_def same_outside_def pre_of_def post_of_def table_ok_def split: if_splits)

lemma transform_to_post_effect:
  assumes "transform_to_post opts ops cfg l d st = Inr st'" "sound_transfer opts ops cfg gam ok S" "table_ok ok st" "ok d"
  shows "same_outside {l} st st'" "pre_of st' l = pre_of st l" "table_ok ok st'"
    "s \<in> gam d \<Longrightarrow> S l s s' \<Longrightarrow> s' \<in> gam (post_of st' l)"
proof -
  obtain d' where d': "transfer opts ops cfg l d = Inr d'" and st': "set_post l d' st = Inr st'"
    using assms(1) by (auto simp: transform_to_post_def bindE_eq_Inr_iff)
  note tr = sound_transferD [OF assms(2,4) d']
  show "same_outside {l} st st'" "pre_of st' l = pre_of st l" using set_post_effect [OF st'] by auto
  show "table_ok ok st'" using set_post_effect(5) [OF st' assms(3) tr(1)] .
  show "s' \<in> gam (post_of st' l)" if "s \<in> gam d" "S l s s'" using tr(2) that set_post_effect(3) [OF st'] by simp
qed

lemma get_Inr: "get_post st l = Inr d \<longleftrightarrow> l \<in> dom (map_of (it_inv st)) \<and> d = post_of st l"
  "get_pre st l = Inr d \<longleftrightarrow> l \<in> dom (map_of (it_inv st)) \<and> d = pre_of st l"
  by (auto simp: get_post_def get_pre_def bindE_eq_Inr_iff omap_at_def post_of_def pre_of_def)

lemma table_ok_of: "table_ok ok st \<Longrightarrow> l \<in> dom (map_of (it_inv st)) \<Longrightarrow> ok (pre_of st l) \<and> ok (post_of st l)"
  by (auto simp: table_ok_def pre_of_def post_of_def)

lemma join_posts_from:
  assumes "foldE (\<lambda>res prev. bindE (get_post st prev) (\<lambda>d. Inr (dom_join_into ops res d))) a prevs = Inr d"
    and L: "sound_lattice ops gam ok" and t: "table_ok ok st" and "ok a"
  shows "ok d \<and> gam a \<subseteq> gam d \<and> (\<forall>u \<in> set prevs. gam (post_of st u) \<subseteq> gam d)"
  using assms(1,4)
proof (induction prevs arbitrary: a)
  case (Cons u prevs)
  obtain e where e: "get_post st u = Inr e"
    "foldE (\<lambda>res prev. bindE (get_post st prev) (\<lambda>d. Inr (dom_join_into ops res d))) (dom_join_into ops a e) prevs = Inr d"
    using Cons.prems(1) by (auto simp: bindE_eq_Inr_iff)
  then have oke: "ok e" "e = post_of st u" using table_ok_of [OF t, of u] by (auto simp: get_Inr)
  have j: "ok (dom_join_into ops a e)" "gam a \<union> gam e \<subseteq> gam (dom_join_into ops a e)"
    using sound_latticeD [OF L] Cons.prems(2) oke by auto
  show ?case using Cons.IH [OF e(2) j(1)] j(2) oke by auto
qed simp

lemma join_all_prevs_sound:
  assumes "join_all_prevs ops cfg node st = Inr d" "node \<noteq> entry_label" "sound_lattice ops gam ok" "table_ok ok st"
    and "cfg_ok cfg" "(u, node) \<in> cfg_edges cfg"
  shows "gam (post_of st u) \<subseteq> gam d"
proof -
  obtain prevs where p: "parents_of cfg node = Inr prevs" "join_posts ops st prevs = Inr d"
    using assms(1,2) by (auto simp: join_all_prevs_def bindE_eq_Inr_iff)
  have "u \<in> set prevs" using p(1) assms(5,6) by (auto simp: parents_of_def bindE_eq_Inr_iff cfg_ok_def cfg_edges_def dest: get_node_label)
  then show ?thesis using join_posts_from [OF p(2) [unfolded join_posts_def] assms(3,4)] sound_latticeD(1) [OF assms(3)] by blast
qed

lemma join_all_prevs_ok:
  assumes "join_all_prevs ops cfg node st = Inr d" "sound_lattice ops gam ok" "table_ok ok st"
  shows "ok d"
proof (cases "node = entry_label")
  case True
  then show ?thesis using assms(1) table_ok_of [OF assms(3), of entry_label] by (auto simp: join_all_prevs_def get_Inr)
next
  case False
  then obtain prevs where "join_posts ops st prevs = Inr d"
    using assms(1) by (auto simp: join_all_prevs_def bindE_eq_Inr_iff)
  then show ?thesis using join_posts_from [OF _ assms(2,3)] sound_latticeD(1) [OF assms(2)] unfolding join_posts_def by blast
qed

section \<open>What a visit of a set of vertices achieves\<close>

definition inflow :: "cfg_t \<Rightarrow> ('d \<Rightarrow> 's set) \<Rightarrow> 'd iterator_t \<Rightarrow> label_t set \<Rightarrow> label_t \<Rightarrow> 's set" where
  "inflow cfg gam st N v =
     {s. \<exists>u. u \<notin> N \<and> (u, v) \<in> cfg_edges cfg \<and> s \<in> gam (post_of st u)} \<union> (if v = entry_label then gam (pre_of st v) else {})"

definition covered :: "('d \<Rightarrow> 's set) \<Rightarrow> (label_t \<Rightarrow> 's \<Rightarrow> 's \<Rightarrow> bool) \<Rightarrow> 'd iterator_t \<Rightarrow> label_t \<Rightarrow> 's \<Rightarrow> bool" where
  "covered gam S st v s \<longleftrightarrow> s \<in> gam (pre_of st v) \<and> (\<forall>s'. S v s s' \<longrightarrow> s' \<in> gam (post_of st v))"

definition flows ::
  "cfg_t \<Rightarrow> ('d \<Rightarrow> 's set) \<Rightarrow> (label_t \<Rightarrow> 's \<Rightarrow> 's \<Rightarrow> bool) \<Rightarrow> 'd iterator_t \<Rightarrow> label_t set \<Rightarrow> label_t \<Rightarrow> 's \<Rightarrow> bool" where
  "flows cfg gam S st N = reach_in S (cfg_edges cfg) N (inflow cfg gam st N)"

definition visit_spec ::
  "cfg_t \<Rightarrow> ('d \<Rightarrow> 's set) \<Rightarrow> ('d \<Rightarrow> bool) \<Rightarrow> (label_t \<Rightarrow> 's \<Rightarrow> 's \<Rightarrow> bool) \<Rightarrow> label_t set \<Rightarrow> 'd iterator_t \<Rightarrow> 'd iterator_t \<Rightarrow> bool" where
  "visit_spec cfg gam ok S N st st' \<longleftrightarrow>
     same_outside N st st' \<and> table_ok ok st' \<and> (\<forall>v s. flows cfg gam S st N v s \<longrightarrow> covered gam S st' v s)"

lemma flows_induct [consumes 1, case_names outside entry step]:
  assumes "flows cfg gam S st N v s"
    and "\<And>u v s. v \<in> N \<Longrightarrow> u \<notin> N \<Longrightarrow> (u, v) \<in> cfg_edges cfg \<Longrightarrow> s \<in> gam (post_of st u) \<Longrightarrow> P v s"
    and "\<And>s. entry_label \<in> N \<Longrightarrow> s \<in> gam (pre_of st entry_label) \<Longrightarrow> P entry_label s"
    and "\<And>u v s s'. flows cfg gam S st N u s \<Longrightarrow> P u s \<Longrightarrow> S u s s' \<Longrightarrow> (u, v) \<in> cfg_edges cfg \<Longrightarrow> u \<in> N \<Longrightarrow> v \<in> N \<Longrightarrow> P v s'"
  shows "P v s"
  using assms(1) unfolding flows_def
proof (induction rule: reach_in.induct)
  case (reach_start v s)
  then show ?case using assms(2,3) by (auto simp: inflow_def split: if_splits)
next
  case (reach_step u s s' v)
  then show ?case using assms(4) [of u s s' v] reach_in_mem [OF reach_step(1)] by (simp add: flows_def)
qed

lemma flows_outside: "v \<in> N \<Longrightarrow> u \<notin> N \<Longrightarrow> (u, v) \<in> cfg_edges cfg \<Longrightarrow> s \<in> gam (post_of st u) \<Longrightarrow> flows cfg gam S st N v s"
  unfolding flows_def by (rule reach_start) (auto simp: inflow_def)

lemma flows_entry: "entry_label \<in> N \<Longrightarrow> s \<in> gam (pre_of st entry_label) \<Longrightarrow> flows cfg gam S st N entry_label s"
  unfolding flows_def by (rule reach_start) (auto simp: inflow_def)

lemma flows_step: "flows cfg gam S st N u s \<Longrightarrow> S u s s' \<Longrightarrow> (u, v) \<in> cfg_edges cfg \<Longrightarrow> v \<in> N \<Longrightarrow> flows cfg gam S st N v s'"
  unfolding flows_def by (rule reach_step)

lemma flows_mem: "flows cfg gam S st N v s \<Longrightarrow> v \<in> N"
  unfolding flows_def by (rule reach_in_mem)

text \<open>A single vertex without an edge to itself.\<close>

lemma visit_vertex_spec:
  assumes "visit_vertex opts ops cfg v st = Inr st'" "table_ok ok st" "v \<notin> set (succs cfg v)"
    and L: "sound_lattice ops gam ok" and T: "sound_transfer opts ops cfg gam ok S" and C: "cfg_ok cfg"
  shows "visit_spec cfg gam ok S {v} st st'"
proof -
  have ns: "\<not> it_skip st" using assms(2) by (simp add: table_ok_def)
  then obtain d st1 where *: "join_all_prevs ops cfg v st = Inr d" "set_pre v d st = Inr st1"
    "transform_to_post opts ops cfg v d st1 = Inr st'"
    using assms(1) by (auto simp: visit_vertex_def Let_def bindE_eq_Inr_iff)
  have okd: "ok d" using join_all_prevs_ok [OF *(1) L assms(2)] .
  note pre = set_pre_effect [OF *(2)]
  note t1 = pre(5) [OF assms(2) okd]
  note post = transform_to_post_effect [OF *(3) T t1 okd]
  have d: "s \<in> gam d" if "flows cfg gam S st {v} w s" for w s
    using that
  proof (induction rule: flows_induct)
    case (outside u w s)
    then have "w \<noteq> entry_label" using C by (auto simp: cfg_ok_def cfg_shape_def cfg_edges_def)
    then show ?case using outside join_all_prevs_sound [OF *(1) _ L assms(2) C, of u] by auto
  next
    case (entry s)
    then show ?case using *(1) by (auto simp: join_all_prevs_def get_Inr)
  qed (use assms(3) in \<open>auto simp: cfg_edges_def\<close>)
  show ?thesis
    unfolding visit_spec_def covered_def
    using d pre(2) post same_outside_trans [OF pre(1) post(1), of "{v}"] flows_mem by fastforce
qed

text \<open>One set after another, when no edge leads back.\<close>

lemma visit_spec_seq:
  assumes 1: "visit_spec cfg gam ok S N st st1" and 2: "visit_spec cfg gam ok S M st1 st2"
    and disj: "N \<inter> M = {}" and no_back: "\<And>u v. u \<in> M \<Longrightarrow> (u, v) \<in> cfg_edges cfg \<Longrightarrow> v \<notin> N"
  shows "visit_spec cfg gam ok S (N \<union> M) st st2"
proof -
  have o1: "same_outside N st st1" and o2: "same_outside M st1 st2" using 1 2 by (auto simp: visit_spec_def)
  have split: "(v \<in> N \<longrightarrow> flows cfg gam S st N v s) \<and> (v \<in> M \<longrightarrow> flows cfg gam S st1 M v s)"
    if "flows cfg gam S st (N \<union> M) v s" for v s
    using that
  proof (induction rule: flows_induct)
    case (outside u v s)
    then show ?case using same_outside_of [OF o1, of u] by (auto intro: flows_outside)
  next
    case (entry s)
    moreover have "entry_label \<notin> N" if "entry_label \<in> M" using that disj by blast
    ultimately show ?case using same_outside_of [OF o1, of entry_label] by (auto intro!: flows_entry)
  next
    case (step u v s s')
    show ?case
    proof (intro conjI impI)
      assume "v \<in> N"
      then show "flows cfg gam S st N v s'" using step no_back by (auto intro: flows_step)
    next
      assume v: "v \<in> M"
      show "flows cfg gam S st1 M v s'"
      proof (cases "u \<in> M")
        case False
        then have "covered gam S st1 u s" using step 1 by (auto simp: visit_spec_def)
        then show ?thesis using step v False by (auto simp: covered_def intro: flows_outside)
      qed (use step v in \<open>auto intro: flows_step\<close>)
    qed
  qed
  have "covered gam S st2 v s" if "flows cfg gam S st (N \<union> M) v s" for v s
  proof (cases "v \<in> M")
    case True
    then show ?thesis using split [OF that] 2 by (auto simp: visit_spec_def)
  next
    case False
    then have "covered gam S st1 v s" using split [OF that] flows_mem [OF that] 1 by (auto simp: visit_spec_def)
    then show ?thesis using same_outside_of [OF o2 False] by (simp add: covered_def)
  qed
  then show ?thesis using 2 same_outside_trans [OF o1 o2, of "N \<union> M"] by (simp add: visit_spec_def)
qed

lemma visit_spec_Nil: "table_ok ok st \<Longrightarrow> visit_spec cfg gam ok S {} st st"
  by (auto simp: visit_spec_def dest: flows_mem)

section \<open>Cycles\<close>

text \<open>
  Around the body of a cycle: the head was given a state \<open>I\<close> and transformed, which gives \<open>st1\<close>, and the body
  was visited, which gives \<open>st2\<close>. If \<open>I\<close> covers what arrives at the head, everything in the cycle is covered,
  and the join over the predecessors of the head covers what arrives there.
\<close>

definition round_spec ::
  "cfg_t \<Rightarrow> ('d \<Rightarrow> 's set) \<Rightarrow> ('d \<Rightarrow> bool) \<Rightarrow> (label_t \<Rightarrow> 's \<Rightarrow> 's \<Rightarrow> bool) \<Rightarrow> label_t \<Rightarrow> label_t set \<Rightarrow> 'd \<Rightarrow>
   'd iterator_t \<Rightarrow> 'd iterator_t \<Rightarrow> 'd iterator_t \<Rightarrow> bool" where
  "round_spec cfg gam ok S h B I st st1 st2 \<longleftrightarrow>
     same_outside (insert h B) st st1 \<and> visit_spec cfg gam ok S B st1 st2 \<and>
     (\<forall>s s'. s \<in> gam I \<longrightarrow> S h s s' \<longrightarrow> s' \<in> gam (post_of st1 h))"

lemma round_step:
  assumes r: "round_spec cfg gam ok S h B I st st1 st2" and h: "h \<notin> B" "s \<in> gam I" and s': "S h s s'"
  shows "s' \<in> gam (post_of st2 h)" and "v \<in> B \<Longrightarrow> (h, v) \<in> cfg_edges cfg \<Longrightarrow> flows cfg gam S st1 B v s'"
  using assms same_outside_of [of B st1 st2 h] by (auto simp: round_spec_def visit_spec_def intro: flows_outside)

lemma round_outside:
  assumes r: "round_spec cfg gam ok S h B I st st1 st2" and u: "u \<notin> insert h B"
  shows "post_of st1 u = post_of st u" "post_of st2 u = post_of st u"
proof -
  have "same_outside (insert h B) st st1" "same_outside B st1 st2" using r by (auto simp: round_spec_def visit_spec_def)
  then show "post_of st1 u = post_of st u" "post_of st2 u = post_of st u"
    using u same_outside_of [of "insert h B" st st1 u] same_outside_of [of B st1 st2 u] by simp_all
qed

lemma round_covered:
  assumes "round_spec cfg gam ok S h B I st st1 st2" "flows cfg gam S st1 B u s" "S u s s'"
  shows "s' \<in> gam (post_of st2 u)"
  using assms by (auto simp: round_spec_def visit_spec_def covered_def)

lemma round_body:
  assumes r: "round_spec cfg gam ok S h B I st st1 st2" and h: "h \<notin> B" "entry_label \<notin> insert h B"
    and head: "\<And>s. flows cfg gam S st (insert h B) h s \<Longrightarrow> s \<in> gam I"
    and "flows cfg gam S st (insert h B) v s" "v \<in> B"
  shows "flows cfg gam S st1 B v s"
  using assms(5,6)
proof (induction rule: flows_induct)
  case (outside u v s)
  then show ?case using round_outside(1) [OF r, of u] by (auto intro: flows_outside)
next
  case (step u v s s')
  show ?case
  proof (cases "u = h")
    case True
    then show ?thesis using step head round_step(2) [OF r h(1)] by blast
  qed (use step in \<open>auto intro: flows_step\<close>)
qed (use h in auto)

lemma round_head:
  assumes r: "round_spec cfg gam ok S h B I st st1 st2" and h: "h \<notin> B" "entry_label \<notin> insert h B"
    and head: "\<And>s. flows cfg gam S st (insert h B) h s \<Longrightarrow> s \<in> gam I"
    and J: "\<And>u. (u, h) \<in> cfg_edges cfg \<Longrightarrow> gam (post_of st2 u) \<subseteq> gam J"
    and f: "flows cfg gam S st (insert h B) h s"
  shows "s \<in> gam J"
proof -
  have "v = h \<longrightarrow> s \<in> gam J" if "flows cfg gam S st (insert h B) v s" for v s
    using that
  proof (induction rule: flows_induct)
    case (outside u v s)
    then show ?case using round_outside(2) [OF r, of u] J [of u] by auto
  next
    case (step u v s s')
    have "s' \<in> gam (post_of st2 u)"
      using step head round_step(1) [OF r h(1)] round_covered [OF r round_body [OF r h head step(1)]] by auto
    then show ?case using step J [of u] by auto
  qed (use h in auto)
  with f show ?thesis by blast
qed

lemma round_post_fixpoint:
  assumes r: "round_spec cfg gam ok S h B I st st1 st2" and h: "h \<notin> B" "entry_label \<notin> insert h B"
    and J: "\<And>u. (u, h) \<in> cfg_edges cfg \<Longrightarrow> gam (post_of st2 u) \<subseteq> gam I"
    and f: "flows cfg gam S st (insert h B) h s"
  shows "s \<in> gam I"
proof -
  have "(v = h \<longrightarrow> s \<in> gam I) \<and> (v \<in> B \<longrightarrow> flows cfg gam S st1 B v s)" if "flows cfg gam S st (insert h B) v s" for v s
    using that
  proof (induction rule: flows_induct)
    case (outside u v s)
    then show ?case using round_outside [OF r, of u] J [of u] by (auto intro: flows_outside)
  next
    case (step u v s s')
    have "s' \<in> gam (post_of st2 u)"
      using step round_step(1) [OF r h(1)] round_covered [OF r] by auto
    moreover have "v \<in> B \<longrightarrow> flows cfg gam S st1 B v s'"
      using step round_step(2) [OF r h(1)] by (auto intro: flows_step)
    ultimately show ?case using step J [of u] by auto
  qed (use h in auto)
  with f show ?thesis by blast
qed

definition body_spec ::
  "cfg_t \<Rightarrow> ('d \<Rightarrow> 's set) \<Rightarrow> ('d \<Rightarrow> bool) \<Rightarrow> (label_t \<Rightarrow> 's \<Rightarrow> 's \<Rightarrow> bool) \<Rightarrow> label_t set \<Rightarrow> ('d iterator_t \<Rightarrow> 'd iterator_t run) \<Rightarrow> bool" where
  "body_spec cfg gam ok S B body \<longleftrightarrow>
     (\<forall>st st'. table_ok ok st \<longrightarrow> body st = Some (Inr st') \<longrightarrow> visit_spec cfg gam ok S B st st')"

lemma head_round:
  assumes "transform_to_post opts ops cfg h I st = Inr st1" "body st1 = Some (Inr st2)"
    and b: "body_spec cfg gam ok S B body" and h: "h \<notin> B"
    and st: "same_outside (insert h B) st0 st" "table_ok ok st" "ok I"
    and T: "sound_transfer opts ops cfg gam ok S"
  shows "round_spec cfg gam ok S h B I st0 st1 st2" "table_ok ok st2" "same_outside (insert h B) st0 st2"
    "pre_of st2 h = pre_of st h"
proof -
  note post = transform_to_post_effect [OF assms(1) T st(2,3)]
  have v: "visit_spec cfg gam ok S B st1 st2" using b assms(2) post(3) by (auto simp: body_spec_def)
  have o1: "same_outside (insert h B) st0 st1" using same_outside_trans [OF st(1) post(1), of "insert h B"] by auto
  show "round_spec cfg gam ok S h B I st0 st1 st2" using v o1 post(4) by (auto simp: round_spec_def)
  show "table_ok ok st2" using v by (simp add: visit_spec_def)
  have o2: "same_outside B st1 st2" using v by (simp add: visit_spec_def)
  show "same_outside (insert h B) st0 st2" using same_outside_trans [OF o1 o2, of "insert h B"] by auto
  show "pre_of st2 h = pre_of st h" using same_outside_of [OF o2 h] post(2) by simp
qed

text \<open>The state between the loops, and inside the second one: the invariant at the head covers it.\<close>

definition head_covered ::
  "cfg_t \<Rightarrow> ('d \<Rightarrow> 's set) \<Rightarrow> ('d \<Rightarrow> bool) \<Rightarrow> (label_t \<Rightarrow> 's \<Rightarrow> 's \<Rightarrow> bool) \<Rightarrow> label_t \<Rightarrow> label_t set \<Rightarrow> 'd iterator_t \<Rightarrow>
   'd \<Rightarrow> 'd iterator_t \<Rightarrow> bool" where
  "head_covered cfg gam ok S h B st0 I st \<longleftrightarrow>
     same_outside (insert h B) st0 st \<and> table_ok ok st \<and> ok I \<and> pre_of st h = I \<and>
     (\<forall>s. flows cfg gam S st0 (insert h B) h s \<longrightarrow> s \<in> gam I)"

lemma set_pre_head:
  assumes "set_pre h J st = Inr st'" "same_outside (insert h B) st0 st" "table_ok ok st" "ok J"
    and "\<And>s. flows cfg gam S st0 (insert h B) h s \<Longrightarrow> s \<in> gam J"
  shows "head_covered cfg gam ok S h B st0 J st'"
proof -
  have "same_outside (insert h B) st0 st'" using same_outside_trans [OF assms(2) set_pre_effect(1) [OF assms(1)]] by blast
  then show ?thesis using set_pre_effect [OF assms(1)] assms(3-5) by (simp add: head_covered_def)
qed

lemma increasing_loop_covers:
  assumes "loop_run (increasing_round opts ops cfg h body) (I, i, st0) = Some (Inr r)"
    and b: "body_spec cfg gam ok S B body" and h: "h \<notin> B" "entry_label \<notin> insert h B"
    and st: "table_ok ok st0" "ok I"
    and L: "sound_lattice ops gam ok" and T: "sound_transfer opts ops cfg gam ok S" and C: "cfg_ok cfg"
  shows "head_covered cfg gam ok S h B st0 (fst r) (snd r)"
proof (rule loop_run_invariant [OF assms(1), where P = "\<lambda>(I, i, st). ok I \<and> table_ok ok st \<and> same_outside (insert h B) st0 st"])
  have round: "\<exists>st1 st2 J. round_spec cfg gam ok S h B I st0 st1 st2 \<and> table_ok ok st2 \<and> same_outside (insert h B) st0 st2 \<and> ok J \<and>
      (\<forall>u. (u, h) \<in> cfg_edges cfg \<longrightarrow> gam (post_of st2 u) \<subseteq> gam J) \<and>
      (if dom_le ops J I then \<exists>st3. set_pre h J st2 = Inr st3 \<and> x = Inr (J, st3) else x = Inl (extrapolate ops I J i, i + 1, st2))"
    if p: "ok I" "table_ok ok st" "same_outside (insert h B) st0 st" "increasing_round opts ops cfg h body (I, i, st) = Some (Inr x)" for I i st x
  proof -
    from p(4) obtain sta st1 st2 J where *: "set_pre h I st = Inr sta" "transform_to_post opts ops cfg h I sta = Inr st1"
      "body st1 = Some (Inr st2)" "join_all_prevs ops cfg h st2 = Inr J"
      "if dom_le ops J I then \<exists>st3. set_pre h J st2 = Inr st3 \<and> x = Inr (J, st3) else x = Inl (extrapolate ops I J i, i + 1, st2)"
      by (auto simp: increasing_round_def bindR_eq_Inr bindE_eq_Inr_iff split: if_splits)
    have sta: "same_outside (insert h B) st0 sta" "table_ok ok sta"
      using same_outside_trans [OF p(3) set_pre_effect(1) [OF *(1)], of "insert h B"] set_pre_effect(5) [OF *(1) p(2,1)] by auto
    note hr = head_round [OF *(2,3) b h(1) sta p(1) T]
    have "ok J" using join_all_prevs_ok [OF *(4) L hr(2)] .
    then show ?thesis using hr * join_all_prevs_sound [OF *(4) _ L hr(2) C] h(2) by blast
  qed
  show "case a' of (I, i, st) \<Rightarrow> ok I \<and> table_ok ok st \<and> same_outside (insert h B) st0 st"
    if "case a of (I, i, st) \<Rightarrow> ok I \<and> table_ok ok st \<and> same_outside (insert h B) st0 st"
      "increasing_round opts ops cfg h body a = Some (Inr (Inl a'))" for a a'
    using round [of "fst a" "snd (snd a)" "fst (snd a)" "Inl a'"] that sound_latticeD(5) [OF L]
    by (auto split: if_splits prod.splits)
  show "head_covered cfg gam ok S h B st0 (fst r) (snd r)"
    if "case a of (I, i, st) \<Rightarrow> ok I \<and> table_ok ok st \<and> same_outside (insert h B) st0 st"
      "increasing_round opts ops cfg h body a = Some (Inr (Inr r))" for a r
  proof -
    obtain I i st where a: "a = (I, i, st)" by (cases a)
    have P: "ok I" "table_ok ok st" "same_outside (insert h B) st0 st" using that(1) a by simp_all
    from round [OF P that(2) [unfolded a]] obtain st1 st2 J st3 where *: "round_spec cfg gam ok S h B I st0 st1 st2" "table_ok ok st2" "same_outside (insert h B) st0 st2"
      "ok J" "\<forall>u. (u, h) \<in> cfg_edges cfg \<longrightarrow> gam (post_of st2 u) \<subseteq> gam J" "dom_le ops J I" "set_pre h J st2 = Inr st3" "r = (J, st3)"
      by (auto split: if_splits)
    have JI: "gam J \<subseteq> gam I" using sound_latticeD(2) [OF L *(4) P(1) *(6)] .
    have "s \<in> gam I" if "flows cfg gam S st0 (insert h B) h s" for s
      using round_post_fixpoint [OF *(1) h _ that] *(5) JI by blast
    then have "s \<in> gam J" if "flows cfg gam S st0 (insert h B) h s" for s
      using round_head [OF *(1) h _ _ that] *(5) by blast
    then show ?thesis using set_pre_head [OF *(7,3,2,4), of cfg gam S] *(8) by auto
  qed
qed (use st in simp)

lemma decreasing_loop_covers:
  assumes "loop_run (decreasing_round opts ops cfg h body) (I, i, st) = Some (Inr st')"
    and b: "body_spec cfg gam ok S B body" and h: "h \<notin> B" "entry_label \<notin> insert h B"
    and st: "head_covered cfg gam ok S h B st0 I st"
    and L: "sound_lattice ops gam ok" and T: "sound_transfer opts ops cfg gam ok S" and C: "cfg_ok cfg"
  shows "visit_spec cfg gam ok S (insert h B) st0 st'"
proof (rule loop_run_invariant [OF assms(1), where P = "\<lambda>(I, i, st). head_covered cfg gam ok S h B st0 I st"])
  have round: "visit_spec cfg gam ok S (insert h B) st0 st2 \<and>
      (x = Inr st2 \<or> (\<exists>J st3. x = Inl (J, i + 1, st3) \<and> head_covered cfg gam ok S h B st0 J st3))"
    if p: "head_covered cfg gam ok S h B st0 I st" and
      *: "transform_to_post opts ops cfg h I st = Inr st1" "body st1 = Some (Inr st2)" "join_all_prevs ops cfg h st2 = Inr J"
      "x = Inr st2 \<or> (\<exists>st3. set_pre h (refine ops I J i) st2 = Inr st3 \<and> x = Inl (refine ops I J i, i + 1, st3))" for I i st st1 st2 J x
  proof -
    have q: "same_outside (insert h B) st0 st" "table_ok ok st" "ok I" "pre_of st h = I"
      and cov: "\<And>s. flows cfg gam S st0 (insert h B) h s \<Longrightarrow> s \<in> gam I"
      using p by (auto simp: head_covered_def)
    note hr = head_round [OF *(1,2) b h(1) q(1-3) T]
    have okJ: "ok J" using join_all_prevs_ok [OF *(3) L hr(2)] .
    have "s \<in> gam J" if "flows cfg gam S st0 (insert h B) h s" for s
      using round_head [OF hr(1) h cov _ that] join_all_prevs_sound [OF *(3) _ L hr(2) C] h(2) by blast
    then have "s \<in> gam (refine ops I J i)" if "flows cfg gam S st0 (insert h B) h s" for s
      using that cov sound_latticeD(7) [OF L q(3) okJ, of i] by blast
    then have 1: "head_covered cfg gam ok S h B st0 (refine ops I J i) st3" if "set_pre h (refine ops I J i) st2 = Inr st3" for st3
      using set_pre_head [OF that hr(3,2)] sound_latticeD(6) [OF L q(3) okJ] by blast
    have "covered gam S st2 v s" if f: "flows cfg gam S st0 (insert h B) v s" for v s
    proof (cases "v = h")
      case True
      then show ?thesis using cov f round_step(1) [OF hr(1) h(1)] hr(4) q(4) by (auto simp: covered_def)
    next
      case False
      then have "flows cfg gam S st1 B v s" using round_body [OF hr(1) h cov f] flows_mem [OF f] by blast
      then show ?thesis using hr(1) by (auto simp: round_spec_def visit_spec_def)
    qed
    then show ?thesis using 1 hr(2,3) *(4) by (auto simp: visit_spec_def)
  qed
  have cases: "\<exists>st1 st2 J. transform_to_post opts ops cfg h I st = Inr st1 \<and> body st1 = Some (Inr st2) \<and>
      join_all_prevs ops cfg h st2 = Inr J \<and>
      (x = Inr st2 \<or> (\<exists>st3. set_pre h (refine ops I J i) st2 = Inr st3 \<and> x = Inl (refine ops I J i, i + 1, st3)))"
    if "decreasing_round opts ops cfg h body (I, i, st) = Some (Inr x)" for I i st x
    using that by (auto simp: decreasing_round_def bindR_eq_Inr bindE_eq_Inr_iff Let_def split: if_splits)
  show "case a' of (I, i, st) \<Rightarrow> head_covered cfg gam ok S h B st0 I st"
    if p: "case a of (I, i, st) \<Rightarrow> head_covered cfg gam ok S h B st0 I st"
      "decreasing_round opts ops cfg h body a = Some (Inr (Inl a'))" for a a'
  proof -
    obtain I i st where a: "a = (I, i, st)" by (cases a)
    from cases [OF p(2) [unfolded a]] round [of I st _ _ _ "Inl a'" i] p(1) [unfolded a] show ?thesis by fastforce
  qed
  show "visit_spec cfg gam ok S (insert h B) st0 st'"
    if p: "case a of (I, i, st) \<Rightarrow> head_covered cfg gam ok S h B st0 I st"
      "decreasing_round opts ops cfg h body a = Some (Inr (Inr st'))" for a st'
  proof -
    obtain I i st where a: "a = (I, i, st)" by (cases a)
    from cases [OF p(2) [unfolded a]] round [of I st _ _ _ "Inr st'" i] p(1) [unfolded a] show ?thesis by fastforce
  qed
qed (use st in simp)

section \<open>The whole order\<close>

lemma foldR_join_ok:
  assumes "foldR (\<lambda>inv prev. bindR (nesting wto prev) (\<lambda>n. if nesting_greater n cn then Some (Inr inv)
        else lift_res (bindE (get_post st prev) (\<lambda>d. Inr (dom_join_into ops inv d))))) a prevs = Some (Inr d)"
    and L: "sound_lattice ops gam ok" and t: "table_ok ok st" and "ok a"
  shows "ok d"
  using assms(1,4)
proof (rule foldR_invariant)
  fix a prev a'
  assume "ok a" "bindR (nesting wto prev) (\<lambda>n. if nesting_greater n cn then Some (Inr a)
        else lift_res (bindE (get_post st prev) (\<lambda>d. Inr (dom_join_into ops a d)))) = Some (Inr a')"
  then show "ok a'"
    using table_ok_of [OF t, of prev] sound_latticeD(3) [OF L]
    by (auto simp: bindR_eq_Inr bindE_eq_Inr_iff get_Inr split: if_splits)
qed

lemma enter_cycle_running:
  assumes "enter_cycle ops cfg wto cs h st = Some (Inr r)" "table_ok ok st" "sound_lattice ops gam ok"
  obtains d where "r = (Some d, st)" "ok d"
proof -
  have "\<not> it_skip st" using assms(2) by (simp add: table_ok_def)
  then obtain d where d: "initial_invariant ops cfg wto h st = Some (Inr d)" "r = (Some d, st)"
    using assms(1) by (auto simp: enter_cycle_def bindR_eq_Inr)
  from d(1) have "ok d"
    using foldR_join_ok [OF _ assms(3,2)] sound_latticeD(1) [OF assms(3)]
    by (auto simp: initial_invariant_def bindR_eq_Inr)
  with d(2) that show ?thesis by blast
qed

lemma stabilize_cycle_spec:
  assumes "stabilize_cycle opts ops cfg h body d st = Some (Inr st')"
    and b: "body_spec cfg gam ok S B body" and h: "h \<notin> B" "entry_label \<notin> insert h B"
    and st: "table_ok ok st" "ok d"
    and L: "sound_lattice ops gam ok" and T: "sound_transfer opts ops cfg gam ok S" and C: "cfg_ok cfg"
  shows "visit_spec cfg gam ok S (insert h B) st st'"
proof -
  obtain r where r: "loop_run (increasing_round opts ops cfg h body) (d, 1, st) = Some (Inr r)"
    "loop_run (decreasing_round opts ops cfg h body) (fst r, 1, snd r) = Some (Inr st')"
    using assms(1) by (auto simp: stabilize_cycle_def bindR_eq_Inr split: prod.splits)
  show ?thesis
    using decreasing_loop_covers [OF r(2) b h increasing_loop_covers [OF r(1) b h st L T C] L T C] .
qed

lemma visit_comp_spec:
  assumes L: "sound_lattice ops gam ok" and T: "sound_transfer opts ops cfg gam ok S" and C: "cfg_ok cfg"
  shows "visit_comp opts ops cfg wto c st = Some (Inr st') \<Longrightarrow> comp_ok cfg c \<Longrightarrow> entry_label \<notin> set (comp_nodes c) \<Longrightarrow>
      table_ok ok st \<Longrightarrow> visit_spec cfg gam ok S (set (comp_nodes c)) st st'"
    and "visit_body opts ops cfg wto h cs st = Some (Inr st') \<Longrightarrow> comps_ok cfg cs \<Longrightarrow> h \<notin> set (comps_nodes cs) \<Longrightarrow>
      entry_label \<notin> set (comps_nodes cs) \<Longrightarrow> table_ok ok st \<Longrightarrow> visit_spec cfg gam ok S (set (comps_nodes cs)) st st'"
  using T C
proof (induction cfg c and cfg cs arbitrary: st st' and st st' h rule: comp_ok_comps_ok.induct)
  case (1 cfg v)
  then show ?case using visit_vertex_spec [OF _ _ _ L, of opts cfg v st st' S] by auto
next
  case (3 cfg h body)
  let ?body = "visit_body opts ops cfg wto h (Vertex h # body)"
  obtain r where r: "enter_cycle ops cfg wto (Vertex h # body) h st = Some (Inr r)"
    "stabilize_entered opts ops cfg h ?body r = Some (Inr st')"
    using 3(2) by (auto simp: bindR_eq_Inr comp_head_def)
  obtain d where d: "r = (Some d, st)" "ok d" by (rule enter_cycle_running [OF r(1) 3(5) L])
  have hB: "h \<notin> set (comps_nodes body)" "entry_label \<notin> insert h (set (comps_nodes body))" using 3(3,4) by auto
  have "body_spec cfg gam ok S (set (comps_nodes body)) ?body"
    unfolding body_spec_def using 3(1) [of h] 3(3,6,7) hB by auto
  then show ?case
    using stabilize_cycle_spec [OF _ _ hB 3(5) d(2) L 3(6,7)] r(2) d(1) by (simp add: stabilize_entered_def)
next
  case (6 cfg c cs)
  have c: "c \<noteq> Vertex h" using 6(5) by auto
  obtain st1 where st1: "visit_comp opts ops cfg wto c st = Some (Inr st1)" "visit_body opts ops cfg wto h cs st1 = Some (Inr st')"
    using 6(3) c by (auto simp: bindR_eq_Inr)
  have 1: "visit_spec cfg gam ok S (set (comp_nodes c)) st st1" using 6(1) [OF st1(1)] 6(4-9) by auto
  then have 2: "visit_spec cfg gam ok S (set (comps_nodes cs)) st1 st'"
    using 6(2) [OF st1(2)] 6(4-9) by (auto simp: visit_spec_def)
  have "visit_spec cfg gam ok S (set (comp_nodes c) \<union> set (comps_nodes cs)) st st'"
    using 6(4) by (intro visit_spec_seq [OF 1 2]) (auto simp: no_edge_back_def cfg_edges_def)
  then show ?case by simp
qed (auto simp: visit_spec_Nil comp_head_def)

section \<open>The contract of a domain\<close>

text \<open>
  The meaning of instructions, assertions and the set-up of a loop counter are parameters here: a state
  transformer for every instruction, a predicate for every assertion, and a function on states for
  the counter of a loop head.
\<close>

definition sound_domain ::
  "'d domain_ops \<Rightarrow> ('d \<Rightarrow> 's set) \<Rightarrow> ('d \<Rightarrow> bool) \<Rightarrow> (Instruction \<Rightarrow> 's \<Rightarrow> 's set) \<Rightarrow> (Assertion \<Rightarrow> 's \<Rightarrow> bool) \<Rightarrow>
   (label_t \<Rightarrow> 's \<Rightarrow> 's) \<Rightarrow> bool" where
  "sound_domain ops gam ok sem holds reset \<longleftrightarrow>
     sound_lattice ops gam ok \<and>
     (\<forall>d d' ins. ok d \<longrightarrow> dom_transform ops d ins = Inr d' \<longrightarrow> ok d' \<and> (\<forall>s \<in> gam d. sem ins s \<subseteq> gam d')) \<and>
     (\<forall>d d' a. ok d \<longrightarrow> dom_assume ops d a = Inr d' \<longrightarrow> ok d' \<and> (\<forall>s \<in> gam d. holds a s \<longrightarrow> s \<in> gam d')) \<and>
     (\<forall>d d' l. ok d \<longrightarrow> dom_initialize_loop_counter ops d l = Inr d' \<longrightarrow> ok d' \<and> (\<forall>s \<in> gam d. reset l s \<in> gam d')) \<and>
     (\<forall>d. ok d \<longrightarrow> dom_is_bottom ops d \<longrightarrow> gam d = {}) \<and>
     (\<forall>d a. ok d \<longrightarrow> dom_check ops d a = Inr [] \<longrightarrow> (\<forall>s \<in> gam d. holds a s))"

lemma sound_domainD:
  assumes "sound_domain ops gam ok sem holds reset"
  shows "sound_lattice ops gam ok"
    and "ok d \<Longrightarrow> dom_transform ops d ins = Inr d' \<Longrightarrow> ok d' \<and> (\<forall>s \<in> gam d. sem ins s \<subseteq> gam d')"
    and "ok d \<Longrightarrow> dom_assume ops d a = Inr d' \<Longrightarrow> ok d' \<and> (\<forall>s \<in> gam d. holds a s \<longrightarrow> s \<in> gam d')"
    and "ok d \<Longrightarrow> dom_initialize_loop_counter ops d l = Inr d' \<Longrightarrow> ok d' \<and> (\<forall>s \<in> gam d. reset l s \<in> gam d')"
    and "ok d \<Longrightarrow> dom_is_bottom ops d \<Longrightarrow> gam d = {}"
    and "ok d \<Longrightarrow> dom_check ops d a = Inr [] \<Longrightarrow> s \<in> gam d \<Longrightarrow> holds a s"
  using assms unfolding sound_domain_def by blast+

text \<open>A step executes the instruction of a label; under \<^verbatim>\<open>assume_assertions\<close> only where its assertions hold.\<close>

definition assertions_hold :: "cfg_t \<Rightarrow> (Assertion \<Rightarrow> 's \<Rightarrow> bool) \<Rightarrow> label_t \<Rightarrow> 's \<Rightarrow> bool" where
  "assertions_hold cfg holds l s \<longleftrightarrow> (\<forall>as. assertions_at cfg l = Inr as \<longrightarrow> (\<forall>a \<in> set as. holds a s))"

definition exec_step ::
  "ebpf_verifier_options_t \<Rightarrow> cfg_t \<Rightarrow> (Instruction \<Rightarrow> 's \<Rightarrow> 's set) \<Rightarrow> (Assertion \<Rightarrow> 's \<Rightarrow> bool) \<Rightarrow> label_t \<Rightarrow> 's \<Rightarrow> 's \<Rightarrow> bool" where
  "exec_step opts cfg sem holds l s s' \<longleftrightarrow>
     (\<exists>ins. instruction_at cfg l = Inr ins \<and> s' \<in> sem ins s) \<and> (assume_assertions opts \<longrightarrow> assertions_hold cfg holds l s)"

lemma assume_all_sound:
  assumes "foldE (dom_assume ops) d as = Inr d'" "sound_domain ops gam ok sem holds reset" "ok d"
  shows "ok d' \<and> (\<forall>s \<in> gam d. (\<forall>a \<in> set as. holds a s) \<longrightarrow> s \<in> gam d')"
  using assms(1,3)
proof (induction as arbitrary: d)
  case (Cons a as)
  then obtain e where e: "dom_assume ops d a = Inr e" "foldE (dom_assume ops) e as = Inr d'" by (auto simp: bindE_eq_Inr_iff)
  have "ok e" "\<And>s. s \<in> gam d \<Longrightarrow> holds a s \<Longrightarrow> s \<in> gam e"
    using sound_domainD(3) [OF assms(2) Cons.prems(2) e(1)] by blast+
  with Cons.IH [OF e(2)] show ?case by simp
qed auto

lemma sound_domain_transfer:
  assumes D: "sound_domain ops gam ok sem holds reset"
  shows "sound_transfer opts ops cfg gam ok (exec_step opts cfg sem holds)"
  unfolding sound_transfer_def
proof (intro allI impI)
  fix l d d'
  assume d: "ok d" and "transfer opts ops cfg l d = Inr d'"
  then obtain e ins where e: "(if assume_assertions opts then bindE (assertions_at cfg l) (foldE (dom_assume ops) d) else Inr d) = Inr e"
    and ins: "instruction_at cfg l = Inr ins" "dom_transform ops e ins = Inr d'"
    by (auto simp: transfer_def bindE_eq_Inr_iff)
  have "ok e \<and> (\<forall>s \<in> gam d. (assume_assertions opts \<longrightarrow> assertions_hold cfg holds l s) \<longrightarrow> s \<in> gam e)"
  proof (cases "assume_assertions opts")
    case True
    then obtain as where as: "assertions_at cfg l = Inr as" "foldE (dom_assume ops) d as = Inr e"
      using e by (auto simp: bindE_eq_Inr_iff)
    from assume_all_sound [OF as(2) D d] as(1) True show ?thesis by (simp add: assertions_hold_def)
  qed (use e d in simp)
  then show "ok d' \<and> (\<forall>s \<in> gam d. \<forall>s'. exec_step opts cfg sem holds l s s' \<longrightarrow> s' \<in> gam d')"
    using sound_domainD(2) [OF D _ ins(2)] ins(1) by (auto simp: exec_step_def)
qed

fun loop_heads :: "wto_comp list \<Rightarrow> label_t list" where
  "loop_heads [] = []"
| "loop_heads (Cycle (Vertex h # _) # cs) = h # loop_heads cs"
| "loop_heads (_ # cs) = loop_heads cs"

definition entry_states ::
  "ebpf_verifier_options_t \<Rightarrow> wto_t \<Rightarrow> (label_t \<Rightarrow> 's \<Rightarrow> 's) \<Rightarrow> 's set \<Rightarrow> 's set" where
  "entry_states opts wto reset X = (if check_for_termination opts then fold reset (loop_heads (wto_view wto)) ` X else X)"

lemma loop_counters_sound:
  assumes "for_each_loop_head (dom_initialize_loop_counter ops) cs d = Inr d'"
    and "sound_domain ops gam ok sem holds reset" "ok d"
  shows "ok d' \<and> (\<forall>s \<in> gam d. fold reset (loop_heads cs) s \<in> gam d')"
  using assms(1,3) unfolding for_each_loop_head_def
proof (induction cs arbitrary: d rule: loop_heads.induct)
  case (2 h body cs)
  then obtain e where e: "dom_initialize_loop_counter ops d h = Inr e"
    "foldE (\<lambda>s c. case c of Vertex _ \<Rightarrow> Inr s | Cycle body \<Rightarrow> bindE (comp_head body) (dom_initialize_loop_counter ops s)) e cs = Inr d'"
    by (auto simp: bindE_eq_Inr_iff comp_head_def)
  have "ok e" "\<And>s. s \<in> gam d \<Longrightarrow> reset h s \<in> gam e"
    using sound_domainD(4) [OF assms(2) 2(3) e(1)] by blast+
  with 2(1) [OF e(2)] show ?case by simp
qed (auto simp: bindE_eq_Inr_iff comp_head_def)

lemma initialize_loop_counters_sound:
  assumes "initialize_loop_counters opts ops wto d = Inr d'" "sound_domain ops gam ok sem holds reset" "ok d"
  shows "ok d'" "entry_states opts wto reset (gam d) \<subseteq> gam d'"
  using assms loop_counters_sound [OF _ assms(2,3), of "wto_view wto" d']
  by (auto simp: initialize_loop_counters_def entry_states_def split: if_splits)

section \<open>The analysis covers every execution\<close>

definition reachable ::
  "(label_t \<Rightarrow> 's \<Rightarrow> 's \<Rightarrow> bool) \<Rightarrow> cfg_t \<Rightarrow> 's set \<Rightarrow> label_t \<Rightarrow> 's \<Rightarrow> bool" where
  "reachable S cfg X = reach_in S (cfg_edges cfg) UNIV (\<lambda>v. if v = entry_label then X else {})"

lemma reachable_induct [consumes 1, case_names entry step]:
  assumes "reachable S cfg X l s" "\<And>s. s \<in> X \<Longrightarrow> P entry_label s"
    and "\<And>u s s' v. reachable S cfg X u s \<Longrightarrow> P u s \<Longrightarrow> S u s s' \<Longrightarrow> (u, v) \<in> cfg_edges cfg \<Longrightarrow> P v s'"
  shows "P l s"
  using assms(1) unfolding reachable_def
  by (induction rule: reach_in.induct) (use assms(2,3) in \<open>auto simp: reachable_def split: if_splits\<close>)

lemma visit_body_eq_foldR:
  "h \<notin> set (comps_nodes cs) \<Longrightarrow> visit_body opts ops cfg wto h cs st = foldR (\<lambda>st c. visit_comp opts ops cfg wto c st) st cs"
proof (induction cs arbitrary: st)
  case (Cons c cs)
  then have "c \<noteq> Vertex h" by auto
  moreover have "visit_body opts ops cfg wto h cs = (\<lambda>st. foldR (\<lambda>st c. visit_comp opts ops cfg wto c st) st cs)"
    using Cons by auto
  ultimately show ?case by simp
qed simp

lemma map_of_initial_table:
  "map_of (initial_table ops cfg) l =
    (if l \<in> node_labels cfg then Some \<lparr>inv_pre = dom_bottom ops, inv_post = dom_bottom ops\<rparr> else None)"
proof -
  have "map_of (map (\<lambda>l. (l, x)) ls) l = (if l \<in> set ls then Some x else None)" for ls :: "label_t list" and x :: "'a invariant_map_pair"
    by (induction ls) auto
  then show ?thesis by (simp add: initial_table_def node_labels_def)
qed

lemma initial_state_ok:
  assumes "sound_lattice ops gam ok" "ok d" "set_pre entry_label d \<lparr>it_inv = initial_table ops cfg, it_skip = True\<rparr> = Inr st"
  shows "table_ok ok (st\<lparr>it_skip := False\<rparr>)" "it_skip st"
proof -
  have "table_ok ok \<lparr>it_inv = initial_table ops cfg, it_skip = False\<rparr>"
    using sound_latticeD(1) [OF assms(1)] by (auto simp: table_ok_def map_of_initial_table split: if_splits)
  then show "table_ok ok (st\<lparr>it_skip := False\<rparr>)"
    using assms(2,3) by (auto simp: set_pre_def bindE_eq_Inr_iff omap_at_def table_ok_def split: if_splits)
  show "it_skip st" using set_pre_effect(4) [OF assms(3)] by simp
qed

lemma visits_cover:
  assumes run: "foldR (\<lambda>st c. visit_comp opts ops cfg wto c st) st cs = Some (Inr st')"
    and wto: "wto_ok cfg cs" and st: "table_ok ok (st\<lparr>it_skip := False\<rparr>)" "it_skip st"
    and L: "sound_lattice ops gam ok" and T: "sound_transfer opts ops cfg gam ok S" and C: "cfg_ok cfg"
  shows "visit_spec cfg gam ok S (set (comps_nodes cs)) (st\<lparr>it_skip := False\<rparr>) st'"
proof -
  obtain cs' where cs: "cs = Vertex entry_label # cs'" using wto by (auto simp: wto_ok_def split: list.splits wto_comp.splits)
  have k: "comps_ok cfg cs" using wto by (simp add: wto_ok_def)
  then have e: "entry_label \<notin> set (succs cfg entry_label)" "comps_ok cfg cs'" "entry_label \<notin> set (comps_nodes cs')"
    "no_edge_back cfg [entry_label] (comps_nodes cs')" by (auto simp: cs)
  obtain st1 where st1: "visit_vertex opts ops cfg entry_label st = Inr st1"
    "foldR (\<lambda>st c. visit_comp opts ops cfg wto c st) st1 cs' = Some (Inr st')"
    using run by (auto simp: cs bindR_eq_Inr)
  have "visit_vertex opts ops cfg entry_label (st\<lparr>it_skip := False\<rparr>) = Inr st1"
    using st1(1) st(2) by (simp add: visit_vertex_def)
  note 1 = visit_vertex_spec [OF this st(1) e(1) L T C]
  then have 2: "visit_spec cfg gam ok S (set (comps_nodes cs')) st1 st'"
    using visit_comp_spec(2) [OF L T C, of wto entry_label cs' st1 st'] st1(2) e
    by (auto simp: visit_spec_def visit_body_eq_foldR)
  have "visit_spec cfg gam ok S ({entry_label} \<union> set (comps_nodes cs')) (st\<lparr>it_skip := False\<rparr>) st'"
    using e by (intro visit_spec_seq [OF 1 2]) (auto simp: no_edge_back_def cfg_edges_def)
  then show ?thesis by (simp add: cs)
qed

lemma analysis_covers:
  assumes run: "run_forward_analyzer opts ops cfg d = Some (Inr tab)" and C: "cfg_ok cfg"
    and wto: "make_wto cfg = Some (Inr wto)" "wto_ok cfg (wto_view wto)"
    and D: "sound_domain ops gam ok sem holds reset" and d: "ok d"
    and reach: "reachable (exec_step opts cfg sem holds) cfg (entry_states opts wto reset (gam d)) l s"
  shows "\<exists>p. map_of tab l = Some p \<and> ok (inv_pre p) \<and> s \<in> gam (inv_pre p) \<and>
    (\<forall>s'. exec_step opts cfg sem holds l s s' \<longrightarrow> s' \<in> gam (inv_post p))"
proof -
  note L = sound_domainD(1) [OF D] and T = sound_domain_transfer [OF D, of opts cfg]
  obtain d1 st st' where *: "initialize_loop_counters opts ops wto d = Inr d1"
    "set_pre entry_label d1 \<lparr>it_inv = initial_table ops cfg, it_skip = True\<rparr> = Inr st"
    "foldR (\<lambda>st c. visit_comp opts ops cfg wto c st) st (wto_view wto) = Some (Inr st')" "tab = it_inv st'"
    using run wto(1) by (auto simp: run_forward_analyzer_def bindR_eq_Inr bindE_eq_Inr_iff)
  note entry = initialize_loop_counters_sound [OF *(1) D d] and pre = set_pre_effect [OF *(2)]
  note t = initial_state_ok [OF L entry(1) *(2)]
  let ?N = "set (comps_nodes (wto_view wto))" and ?S = "exec_step opts cfg sem holds"
  note spec = visits_cover [OF *(3) wto(2) t L T C]
  have "flows cfg gam ?S (st\<lparr>it_skip := False\<rparr>) ?N l s \<and> l \<in> node_labels cfg"
    using reach
  proof (induction rule: reachable_induct)
    case (entry s)
    moreover have "entry_label \<in> ?N" using wto(2) by (auto simp: wto_ok_def split: list.splits wto_comp.splits)
    moreover have "s \<in> gam (pre_of (st\<lparr>it_skip := False\<rparr>) entry_label)"
      using entry initialize_loop_counters_sound(2) [OF *(1) D d] pre(2) by (auto simp: pre_of_def)
    ultimately show ?case using C by (auto simp: cfg_ok_def cfg_shape_def intro: flows_entry)
  next
    case (step u s s' v)
    have "u \<in> ?N" by (rule flows_mem [OF conjunct1 [OF step.IH]])
    then have "v \<in> ?N" using wto(2) step(3) by (auto simp: wto_ok_def cfg_edges_def)
    then show ?case using flows_step [OF conjunct1 [OF step.IH] step(2,3)] cfg_edge_labels [OF C step(3)] by simp
  qed
  then have cov: "covered gam ?S st' l s" and l: "l \<in> node_labels cfg" using spec unfolding visit_spec_def by blast+
  have "dom (map_of (it_inv st)) = node_labels cfg"
    using pre(1) by (auto simp: same_outside_def map_of_initial_table dom_def split: if_splits)
  then have "dom (map_of tab) = node_labels cfg" using spec unfolding visit_spec_def same_outside_def *(4) by simp
  with l obtain p where p: "map_of tab l = Some p" by blast
  have "table_ok ok st'" using spec unfolding visit_spec_def by blast
  then have "ok (inv_pre p)" using p *(4) unfolding table_ok_def by blast
  then show ?thesis using cov p unfolding covered_def pre_of_def post_of_def *(4) by auto
qed

end
