(* ===== verification/Crab_Fwd_Termination.thy ===== *)
theory Crab_Fwd_Termination
  imports Crab_Fwd_Sound
begin

text \<open>
  The forward analysis ends. The increasing loop ends because from the third round on it widens without
  the constant limits, which lowers a rank; the rank is small enough that the 32-bit number of the round
  does not wrap around before, after which the loop would join again. The decreasing loop ends by its count.
\<close>

section \<open>Returning\<close>

definition returns :: "'a run \<Rightarrow> bool" where
  "returns m \<longleftrightarrow> m \<noteq> None"

lemma returns_simps [simp]: "returns (Some r)" "returns (lift_res r)" "\<not> returns None"
  by (simp_all add: returns_def lift_res_def)

lemma returns_bindR: "returns m \<Longrightarrow> (\<And>a. m = Some (Inr a) \<Longrightarrow> returns (f a)) \<Longrightarrow> returns (bindR m f)"
  by (cases m; cases "the m") auto

lemma returns_foldR: "(\<And>s x. x \<in> set xs \<Longrightarrow> returns (f s x)) \<Longrightarrow> returns (foldR f s xs)"
  by (induction xs arbitrary: s) (auto intro!: returns_bindR)

definition widening_rank :: "'d domain_ops \<Rightarrow> ('d \<Rightarrow> bool) \<Rightarrow> ('d \<Rightarrow> nat) \<Rightarrow> bool" where
  "widening_rank ops ok rank \<longleftrightarrow>
     (\<forall>a. ok a \<longrightarrow> rank a < 2 ^ 31) \<and>
     (\<forall>a b. ok a \<longrightarrow> ok b \<longrightarrow> \<not> dom_le ops b a \<longrightarrow> rank (dom_widen ops a b False) < rank a)"

lemma unat_next: "unat i + 1 < 2 ^ 32 \<Longrightarrow> unat (i + 1) = unat (i :: u32) + 1"
  by (simp add: unat_word_ariths(1))

lemma extrapolate_late:
  assumes "3 \<le> unat i"
  shows "extrapolate ops a b i = dom_widen ops a b False"
proof -
  have "\<not> i < 2" "i \<noteq> 2" using assms by (auto simp: word_less_nat_alt)
  then show ?thesis by (simp add: extrapolate_def widening_delay_def)
qed

section \<open>The loops\<close>

definition increasing_measure :: "('d \<Rightarrow> nat) \<Rightarrow> 'd \<times> u32 \<times> 'd iterator_t \<Rightarrow> nat" where
  "increasing_measure rank = (\<lambda>(I, i, st). if 3 \<le> unat i then rank I else 2 ^ 31 + 3 - unat i)"

definition increasing_inv :: "('d \<Rightarrow> bool) \<Rightarrow> ('d \<Rightarrow> nat) \<Rightarrow> 'd \<times> u32 \<times> 'd iterator_t \<Rightarrow> bool" where
  "increasing_inv ok rank = (\<lambda>(I, i, st). ok I \<and> table_ok ok st \<and> 1 \<le> unat i \<and> (3 \<le> unat i \<longrightarrow> unat i + rank I < 2 ^ 31 + 3))"

lemma increasing_measure_step:
  assumes "increasing_inv ok rank (I, i, st)" "ok J" "\<not> dom_le ops J I" "widening_rank ops ok rank"
    "sound_lattice ops gam ok" "table_ok ok st'"
  shows "increasing_inv ok rank (extrapolate ops I J i, i + 1, st')"
    "increasing_measure rank (extrapolate ops I J i, i + 1, st') < increasing_measure rank (I, i, st)"
proof -
  let ?E = "extrapolate ops I J i"
  have I: "ok I" "1 \<le> unat i" "3 \<le> unat i \<longrightarrow> unat i + rank I < 2 ^ 31 + 3" using assms(1) by (auto simp: increasing_inv_def)
  have E: "ok ?E" using sound_latticeD(5) [OF assms(5) I(1) assms(2)] .
  have r: "rank ?E < 2 ^ 31" using assms(4) E by (auto simp: widening_rank_def)
  have late: "rank ?E < rank I" if "3 \<le> unat i"
    using that assms(2-4) I(1) by (simp add: extrapolate_late widening_rank_def)
  have "unat i + 1 < 2 ^ 32" using I(3) by (cases "3 \<le> unat i") auto
  then have n: "unat (i + 1) = unat i + 1" by (rule unat_next)
  have "(3 \<le> unat (i + 1) \<longrightarrow> unat (i + 1) + rank ?E < 2 ^ 31 + 3)"
    using n r late I(3) by (cases "3 \<le> unat i") auto
  then show "increasing_inv ok rank (?E, i + 1, st')" using E n assms(6) by (simp add: increasing_inv_def)
  show "increasing_measure rank (?E, i + 1, st') < increasing_measure rank (I, i, st)"
    using n r late I(2) by (cases "3 \<le> unat i"; cases "unat i = 2") (auto simp: increasing_measure_def)
qed

lemma increasing_loop_returns:
  assumes body: "\<And>st. table_ok ok st \<Longrightarrow> returns (body st)" "body_spec cfg gam ok S B body"
    and st: "ok I" "table_ok ok st"
    and L: "sound_lattice ops gam ok" and T: "sound_transfer opts ops cfg gam ok S" and W: "widening_rank ops ok rank"
  shows "returns (loop_run (increasing_round opts ops cfg h body) (I, 1, st))"
proof -
  let ?f = "increasing_round opts ops cfg h body" and ?R = "measure (increasing_measure rank)"
  have "\<exists>r. loop_run ?f (I, 1, st) = Some r"
  proof (rule loop_run_terminates [where R = ?R and P = "increasing_inv ok rank"])
    fix a
    assume P: "increasing_inv ok rank a"
    obtain I i st where a: "a = (I, i, st)" by (cases a)
    have I: "ok I" "table_ok ok st" using P by (auto simp: a increasing_inv_def)
    have st1: "table_ok ok st1" if "bindE (set_pre h I st) (transform_to_post opts ops cfg h I) = Inr st1" for st1
      using that set_pre_effect(5) [OF _ I(2,1)] transform_to_post_effect(3) [OF _ T _ I(1)] by (auto simp: bindE_eq_Inr_iff)
    have ret: "returns (?f a)"
      unfolding a increasing_round_def prod.case by (intro returns_bindR body(1)) (auto intro: st1)
    have "increasing_inv ok rank a' \<and> (a', a) \<in> ?R" if next_round: "?f a = Some (Inr (Inl a'))" for a'
    proof -
      obtain st1 st2 J where *: "bindE (set_pre h I st) (transform_to_post opts ops cfg h I) = Inr st1"
        "body st1 = Some (Inr st2)" "join_all_prevs ops cfg h st2 = Inr J" "\<not> dom_le ops J I"
        "a' = (extrapolate ops I J i, i + 1, st2)"
        using next_round unfolding a increasing_round_def by (auto simp: bindR_eq_Inr bindE_eq_Inr_iff split: if_splits)
      have t2: "table_ok ok st2" using body(2) st1 [OF *(1)] *(2) by (auto simp: body_spec_def visit_spec_def)
      show ?thesis
        using increasing_measure_step [OF P [unfolded a] join_all_prevs_ok [OF *(3) L t2] *(4) W L t2] by (simp add: a *(5))
    qed
    with ret show "\<exists>r. ?f a = Some r \<and> (\<forall>a'. r = Inr (Inl a') \<longrightarrow> increasing_inv ok rank a' \<and> (a', a) \<in> ?R)"
      by (auto simp: returns_def)
  qed (use st in \<open>auto simp: increasing_inv_def\<close>)
  then show ?thesis by auto
qed

lemma decreasing_loop_returns:
  assumes body: "\<And>st. table_ok ok st \<Longrightarrow> returns (body st)" "body_spec cfg gam ok S B body"
    and st: "ok I" "table_ok ok st"
    and L: "sound_lattice ops gam ok" and T: "sound_transfer opts ops cfg gam ok S"
  shows "returns (loop_run (decreasing_round opts ops cfg h body) (I, 1, st))"
proof -
  let ?f = "decreasing_round opts ops cfg h body"
  let ?P = "\<lambda>(I, i :: u32, st). ok I \<and> table_ok ok st \<and> unat i \<le> 2000001"
  let ?R = "measure (\<lambda>(I :: 'a, i :: u32, st :: 'a iterator_t). 2000002 - unat i)"
  have "\<exists>r. loop_run ?f (I, 1, st) = Some r"
  proof (rule loop_run_terminates [where R = ?R and P = ?P])
    fix a
    assume P: "?P a"
    obtain I i st where a: "a = (I, i, st)" by (cases a)
    have I: "ok I" "table_ok ok st" "unat i \<le> 2000001" using P by (auto simp: a)
    have st1: "table_ok ok st1" if "transform_to_post opts ops cfg h I st = Inr st1" for st1
      using that transform_to_post_effect(3) [OF _ T I(2,1)] by blast
    have ret: "returns (?f a)"
      unfolding a decreasing_round_def prod.case by (intro returns_bindR body(1)) (auto intro: st1 simp: Let_def)
    have "?P a' \<and> (a', a) \<in> ?R" if next_round: "?f a = Some (Inr (Inl a'))" for a'
    proof -
      obtain st1 st2 J st3 where *: "transform_to_post opts ops cfg h I st = Inr st1"
        "body st1 = Some (Inr st2)" "join_all_prevs ops cfg h st2 = Inr J" "\<not> descending_iterations < i"
        "set_pre h (refine ops I J i) st2 = Inr st3" "a' = (refine ops I J i, i + 1, st3)"
        using next_round unfolding a decreasing_round_def by (auto simp: bindR_eq_Inr bindE_eq_Inr_iff Let_def split: if_splits)
      have t2: "table_ok ok st2" using body(2) st1 [OF *(1)] *(2) by (auto simp: body_spec_def visit_spec_def)
      have J: "ok (refine ops I J i)" using sound_latticeD(6) [OF L I(1) join_all_prevs_ok [OF *(3) L t2]] .
      have i: "unat i \<le> 2000000" using *(4) by (simp add: descending_iterations_def word_less_nat_alt)
      then have "unat (i + 1) = unat i + 1" by (intro unat_next) simp
      then show ?thesis using J i set_pre_effect(5) [OF *(5) t2 J] by (simp add: a *(6))
    qed
    with ret show "\<exists>r. ?f a = Some r \<and> (\<forall>a'. r = Inr (Inl a') \<longrightarrow> ?P a' \<and> (a', a) \<in> ?R)"
      by (auto simp: returns_def)
  qed (use st in auto)
  then show ?thesis by auto
qed

section \<open>The visits\<close>

lemma initial_invariant_returns:
  assumes "\<And>l. returns (nesting wto l)"
  shows "returns (initial_invariant ops cfg wto h st)"
  unfolding initial_invariant_def using assms by (intro returns_bindR returns_foldR) auto

lemma stabilize_cycle_returns:
  assumes body: "\<And>st. table_ok ok st \<Longrightarrow> returns (body st)" "body_spec cfg gam ok S B body"
    and h: "h \<notin> B" "entry_label \<notin> insert h B" and st: "table_ok ok st" "ok d"
    and L: "sound_lattice ops gam ok" and T: "sound_transfer opts ops cfg gam ok S" and C: "cfg_ok cfg"
    and W: "widening_rank ops ok rank"
  shows "returns (stabilize_cycle opts ops cfg h body d st)"
  unfolding stabilize_cycle_def
proof (rule returns_bindR)
  show "returns (loop_run (increasing_round opts ops cfg h body) (d, 1, st))"
    using increasing_loop_returns [OF body st(2,1) L T W] .
  fix r
  assume "loop_run (increasing_round opts ops cfg h body) (d, 1, st) = Some (Inr r)"
  then have "head_covered cfg gam ok S h B st (fst r) (snd r)" using increasing_loop_covers [OF _ body(2) h st L T C] by blast
  then have "ok (fst r)" "table_ok ok (snd r)" by (auto simp: head_covered_def)
  then show "returns (case r of (invariant1, st1) \<Rightarrow> loop_run (decreasing_round opts ops cfg h body) (invariant1, 1, st1))"
    using decreasing_loop_returns [OF body _ _ L T] by (auto split: prod.splits)
qed

lemma visit_comp_returns:
  assumes L: "sound_lattice ops gam ok" and N: "\<And>l. returns (nesting wto l)" and W: "widening_rank ops ok rank"
    and T: "sound_transfer opts ops cfg gam ok S" and C: "cfg_ok cfg"
  shows "comp_ok cfg c \<Longrightarrow> entry_label \<notin> set (comp_nodes c) \<Longrightarrow> table_ok ok st \<Longrightarrow> returns (visit_comp opts ops cfg wto c st)"
    and "comps_ok cfg cs \<Longrightarrow> h \<notin> set (comps_nodes cs) \<Longrightarrow> entry_label \<notin> set (comps_nodes cs) \<Longrightarrow> table_ok ok st \<Longrightarrow>
      returns (visit_body opts ops cfg wto h cs st)"
  using T C
proof (induction cfg c and cfg cs arbitrary: st and st h rule: comp_ok_comps_ok.induct)
  case (3 cfg h body)
  let ?body = "visit_body opts ops cfg wto h (Vertex h # body)" and ?B = "set (comps_nodes body)"
  have hB: "h \<notin> ?B" "entry_label \<notin> insert h ?B" using 3(2,3) by auto
  have rb: "returns (?body st)" if "table_ok ok st" for st
    using 3(1) [of h st] 3(2,5,6) hB that by auto
  have bs: "body_spec cfg gam ok S ?B ?body"
    unfolding body_spec_def using visit_comp_spec(2) [OF L 3(5,6), of wto h body] 3(2) hB by auto
  have ns: "\<not> it_skip st" using 3(4) by (simp add: table_ok_def)
  have "returns (enter_cycle ops cfg wto (Vertex h # body) h st)"
    unfolding enter_cycle_def if_not_P [OF ns] by (intro returns_bindR initial_invariant_returns N) simp
  moreover have "returns (stabilize_entered opts ops cfg h ?body r)"
    if entered: "enter_cycle ops cfg wto (Vertex h # body) h st = Some (Inr r)" for r
  proof -
    obtain d where "r = (Some d, st)" "ok d" by (rule enter_cycle_running [OF entered 3(4) L])
    then show ?thesis using stabilize_cycle_returns [OF rb bs hB 3(4) _ L 3(5,6) W] by (simp add: stabilize_entered_def)
  qed
  ultimately show ?case
    unfolding visit_comp.simps comp_head_def by (intro returns_bindR) auto
next
  case (6 cfg c cs)
  have c: "c \<noteq> Vertex h" using 6(4) by auto
  have 1: "returns (visit_comp opts ops cfg wto c st)" using 6(1) [of st] 6(3-8) by auto
  have "returns (visit_body opts ops cfg wto h cs st1)" if "visit_comp opts ops cfg wto c st = Some (Inr st1)" for st1
  proof -
    have "table_ok ok st1" using visit_comp_spec(1) [OF L 6(7,8) that] 6(3-6) by (auto simp: visit_spec_def)
    then show ?thesis using 6(2) [of h st1] 6(3-8) by auto
  qed
  then show ?case using 1 c by (auto intro: returns_bindR)
qed auto

lemma analysis_returns:
  assumes C: "cfg_ok cfg" and wto: "make_wto cfg = Some (Inr wto)" "wto_ok cfg (wto_view wto)" "\<And>l. returns (nesting wto l)"
    and D: "sound_domain ops gam ok sem holds reset" and W: "widening_rank ops ok rank" and d: "ok d"
  shows "returns (run_forward_analyzer opts ops cfg d)"
proof -
  note L = sound_domainD(1) [OF D] and T = sound_domain_transfer [OF D, of opts cfg]
  have "returns (foldR (\<lambda>st c. visit_comp opts ops cfg wto c st) st (wto_view wto))"
    if start: "bindE (initialize_loop_counters opts ops wto d) (\<lambda>i. set_pre entry_label i \<lparr>it_inv = initial_table ops cfg, it_skip = True\<rparr>) = Inr st" for st
  proof -
    obtain d1 where *: "initialize_loop_counters opts ops wto d = Inr d1"
      "set_pre entry_label d1 \<lparr>it_inv = initial_table ops cfg, it_skip = True\<rparr> = Inr st"
      using start by (auto simp: bindE_eq_Inr_iff)
    note t = initial_state_ok [OF L initialize_loop_counters_sound(1) [OF *(1) D d] *(2)]
    obtain cs where cs: "wto_view wto = Vertex entry_label # cs" "comps_ok cfg cs" "entry_label \<notin> set (comps_nodes cs)"
      "entry_label \<notin> set (succs cfg entry_label)"
      using wto(2) by (auto simp: wto_ok_def split: list.splits wto_comp.splits)
    have "returns (foldR (\<lambda>st c. visit_comp opts ops cfg wto c st) st1 cs)" if "visit_vertex opts ops cfg entry_label st = Inr st1" for st1
    proof -
      have "visit_vertex opts ops cfg entry_label (st\<lparr>it_skip := False\<rparr>) = Inr st1"
        using that t(2) by (simp add: visit_vertex_def)
      then have "table_ok ok st1" using visit_vertex_spec [OF _ t(1) cs(4) L T C] by (auto simp: visit_spec_def)
      then show ?thesis
        using visit_comp_returns(2) [OF L wto(3) W T C cs(2,3,3)] by (simp add: visit_body_eq_foldR cs(3))
    qed
    then show ?thesis by (auto simp: cs(1) intro!: returns_bindR)
  qed
  then show ?thesis unfolding run_forward_analyzer_def wto(1) by (auto intro!: returns_bindR)
qed

end
