(* ===== verification/Asm_Ostream.thy ===== *)
theory Asm_Ostream
  imports Crab_Cfg
begin

text \<open>
  The instruction printer of \<^verbatim>\<open>asm_ostream.cpp\<close> and the printing operators of \<^verbatim>\<open>asm_syntax.hpp\<close>, as functions
  into strings, and the listing of a program.
\<close>

section \<open>Operands\<close>

definition reg_to_string :: "Reg \<Rightarrow> string" where
  "reg_to_string r = ''r'' @ int_to_string (uint (reg_v r))"

definition val_to_string :: "val \<Rightarrow> string" where
  "val_to_string v = (case v of Imm i \<Rightarrow> int_to_string (sint i) | RegV r \<Rightarrow> reg_to_string r)"

definition reg_name :: "Reg \<Rightarrow> bool \<Rightarrow> string" where
  "reg_name r is64 = (if is64 then ''r'' else ''w'') @ int_to_string (uint (reg_v r))"

definition size_to_string :: "int \<Rightarrow> string" where
  "size_to_string w = ''u'' @ int_to_string (w * 8)"

primrec single_kind_to_string :: "arg_single_kind \<Rightarrow> string" where
  "single_kind_to_string Single_ANYTHING = ''uint64_t''"
| "single_kind_to_string Single_PTR_TO_CTX = ''ctx''"
| "single_kind_to_string Single_MAP_FD = ''map_fd''"
| "single_kind_to_string Single_MAP_FD_PROGRAMS = ''map_fd_programs''"
| "single_kind_to_string Single_PTR_TO_MAP_KEY = ''map_key''"
| "single_kind_to_string Single_PTR_TO_MAP_VALUE = ''map_value''"

primrec pair_kind_to_string :: "arg_pair_kind \<Rightarrow> string" where
  "pair_kind_to_string Pair_PTR_TO_READABLE_MEM = ''mem''"
| "pair_kind_to_string Pair_PTR_TO_READABLE_MEM_OR_NULL = ''mem?''"
| "pair_kind_to_string Pair_PTR_TO_WRITABLE_MEM = ''out''"

definition single_to_string :: "arg_single_t \<Rightarrow> string" where
  "single_to_string a = single_kind_to_string (single_kind a) @ '' '' @ reg_to_string (single_reg a)"

definition pair_to_string :: "arg_pair_t \<Rightarrow> string" where
  "pair_to_string a =
     pair_kind_to_string (pair_kind a) @ '' '' @ reg_to_string (pair_mem a) @ ''['' @ reg_to_string (pair_size a) @
     (if pair_can_be_zero a then ''?'' else '''') @ ''], uint64_t '' @ reg_to_string (pair_size a)"

primrec bin_op_to_string :: "bin_op_t \<Rightarrow> string" where
  "bin_op_to_string Bin_MOV = ''''"
| "bin_op_to_string Bin_MOVSX8 = ''s8''"
| "bin_op_to_string Bin_MOVSX16 = ''s16''"
| "bin_op_to_string Bin_MOVSX32 = ''s32''"
| "bin_op_to_string Bin_ADD = ''+''"
| "bin_op_to_string Bin_SUB = ''-''"
| "bin_op_to_string Bin_MUL = ''*''"
| "bin_op_to_string Bin_UDIV = ''/''"
| "bin_op_to_string Bin_SDIV = ''s/''"
| "bin_op_to_string Bin_UMOD = ''%''"
| "bin_op_to_string Bin_SMOD = ''s%''"
| "bin_op_to_string Bin_OR = ''|''"
| "bin_op_to_string Bin_AND = ''&''"
| "bin_op_to_string Bin_LSH = ''<<''"
| "bin_op_to_string Bin_RSH = ''>>''"
| "bin_op_to_string Bin_ARSH = ''>>>''"
| "bin_op_to_string Bin_XOR = ''^''"

primrec cond_op_to_string :: "cond_op_t \<Rightarrow> string" where
  "cond_op_to_string Cond_EQ = ''==''"
| "cond_op_to_string Cond_NE = ''!=''"
| "cond_op_to_string Cond_SET = ''&==''"
| "cond_op_to_string Cond_NSET = ''&!=''"
| "cond_op_to_string Cond_LT = ''<''"
| "cond_op_to_string Cond_LE = ''<=''"
| "cond_op_to_string Cond_GT = ''>''"
| "cond_op_to_string Cond_GE = ''>=''"
| "cond_op_to_string Cond_SLT = ''s<''"
| "cond_op_to_string Cond_SLE = ''s<=''"
| "cond_op_to_string Cond_SGT = ''s>''"
| "cond_op_to_string Cond_SGE = ''s>=''"

primrec un_op_to_string :: "un_op_t \<Rightarrow> string" where
  "un_op_to_string Un_BE16 = ''be16 ''"
| "un_op_to_string Un_BE32 = ''be32 ''"
| "un_op_to_string Un_BE64 = ''be64 ''"
| "un_op_to_string Un_LE16 = ''le16 ''"
| "un_op_to_string Un_LE32 = ''le32 ''"
| "un_op_to_string Un_LE64 = ''le64 ''"
| "un_op_to_string Un_SWAP16 = ''swap16 ''"
| "un_op_to_string Un_SWAP32 = ''swap32 ''"
| "un_op_to_string Un_SWAP64 = ''swap64 ''"
| "un_op_to_string Un_NEG = ''-''"

section \<open>Instructions\<close>

definition print_bin :: "bin_t \<Rightarrow> string" where
  "print_bin b =
     reg_name (bin_dst b) (bin_is64 b) @ '' '' @ bin_op_to_string (bin_op b) @ ''= '' @ val_to_string (bin_v b) @
     (if bin_lddw b then '' ll'' else '''')"

definition print_un :: "un_t \<Rightarrow> string" where
  "print_un u = reg_to_string (un_dst u) @ '' = '' @ un_op_to_string (un_op u) @ reg_to_string (un_dst u)"

text \<open>The loop over the argument registers 1 to 5; a pair takes two of them.\<close>

function print_call_args :: "arg_single_t list \<Rightarrow> arg_pair_t list \<Rightarrow> nat \<Rightarrow> string" where
  "print_call_args singles pairs r =
    (if 5 < r then ''''
     else
       case find (\<lambda>a. uint (reg_v (single_reg a)) = int r) singles of
         Some a \<Rightarrow> (if 1 < r then '', '' else '''') @ single_to_string a @ print_call_args singles pairs (r + 1)
       | None \<Rightarrow>
           (case find (\<lambda>a. uint (reg_v (pair_mem a)) = int r) pairs of
              Some a \<Rightarrow> (if 1 < r then '', '' else '''') @ pair_to_string a @ print_call_args singles pairs (r + 2)
            | None \<Rightarrow> ''''))"
  by pat_completeness auto
termination
  by (relation "measure (\<lambda>(_, _, r). 6 - r)") auto

declare print_call_args.simps [simp del]

definition print_call :: "call_t \<Rightarrow> string" where
  "print_call c =
     ''r0 = '' @ call_name c @ '':'' @ int_to_string (sint (call_func c)) @ ''('' @
     print_call_args (call_singles c) (call_pairs c) 1 @ '')''"

definition print_condition :: "condition_t \<Rightarrow> string" where
  "print_condition c =
     reg_to_string (cond_left c) @ '' '' @ (if cond_is64 c then '''' else ''w'') @ cond_op_to_string (cond_op c) @ '' '' @
     val_to_string (cond_right c)"

definition print_jmp :: "jmp_t \<Rightarrow> string" where
  "print_jmp j =
     (case jmp_cond j of Some c \<Rightarrow> ''if '' @ print_condition c @ '' '' | None \<Rightarrow> '''') @
     ''goto label <'' @ label_to_string (jmp_target j) @ ''>''"

definition print_jmp_offset :: "jmp_t \<Rightarrow> int \<Rightarrow> string" where
  "print_jmp_offset j delta =
     (case jmp_cond j of Some c \<Rightarrow> ''if '' @ print_condition c @ '' '' | None \<Rightarrow> '''') @
     ''goto '' @ (if 0 < delta then ''+'' else '''') @ int_to_string delta @ '' <'' @ label_to_string (jmp_target j) @ ''>''"

definition print_packet :: "packet_t \<Rightarrow> string" where
  "print_packet p =
     ''r0 = '' @ ''*('' @ size_to_string (pkt_width p) @ '' *)skb['' @
     (case pkt_regoffset p of Some r \<Rightarrow> reg_to_string r | None \<Rightarrow> '''') @
     (if pkt_offset p \<noteq> 0
      then (if pkt_regoffset p \<noteq> None then '' + '' else '''') @ int_to_string (sint (pkt_offset p))
      else '''') @ '']''"

definition print_deref :: "deref_t \<Rightarrow> string" where
  "print_deref a =
     ''*('' @ size_to_string (deref_width a) @ '' *)'' @ ''('' @ reg_to_string (deref_basereg a) @
     (if deref_offset a < 0 then '' - '' else '' + '') @ int_to_string \<bar>deref_offset a\<bar> @ '')''"

definition print_mem :: "mem_t \<Rightarrow> string" where
  "print_mem m =
     (if mem_is_load m then val_to_string (mem_value m) @ '' = '' else '''') @ print_deref (mem_access m) @
     (if \<not> mem_is_load m then '' = '' @ val_to_string (mem_value m) else '''')"

primrec atomic_op_to_string :: "atomic_op_t \<Rightarrow> string \<times> bool" where
  "atomic_op_to_string Atomic_ADD = (''+'', True)"
| "atomic_op_to_string Atomic_OR = (''|'', True)"
| "atomic_op_to_string Atomic_AND = (''&'', True)"
| "atomic_op_to_string Atomic_XOR = (''^'', True)"
| "atomic_op_to_string Atomic_XCHG = (''x'', False)"
| "atomic_op_to_string Atomic_CMPXCHG = (''cx'', False)"

definition print_atomic :: "atomic_t \<Rightarrow> string" where
  "print_atomic a =
    (let (op, showfetch) = atomic_op_to_string (at_op a) in
     ''lock '' @ print_deref (at_access a) @ '' '' @ op @ ''= '' @ reg_to_string (at_valreg a) @
     (if showfetch \<and> at_fetch a then '' fetch'' else ''''))"

definition loop_counter_name :: "label_t \<Rightarrow> string" where
  "loop_counter_name l = ''pc['' @ label_to_string l @ '']''"

definition instruction_to_string :: "Instruction \<Rightarrow> string" where
  "instruction_to_string ins =
    (case ins of
       Undefined code \<Rightarrow> ''Undefined{'' @ int_to_string code @ ''}''
     | Bin b \<Rightarrow> print_bin b
     | UnOp u \<Rightarrow> print_un u
     | LoadMapFd m \<Rightarrow> reg_to_string (lmf_dst m) @ '' = map_fd '' @ int_to_string (sint (lmf_mapfd m))
     | Call c \<Rightarrow> print_call c
     | CallLocal c \<Rightarrow> ''call <'' @ label_to_string (cl_target c) @ ''>''
     | Callx r \<Rightarrow> ''callx '' @ reg_to_string r
     | Exit _ \<Rightarrow> ''exit''
     | Jmp j \<Rightarrow> print_jmp j
     | Mem m \<Rightarrow> print_mem m
     | Packet p \<Rightarrow> print_packet p
     | Atomic a \<Rightarrow> print_atomic a
     | Assume a \<Rightarrow> ''assume '' @ print_condition (assume_cond a)
     | IncrementLoopCounter l \<Rightarrow> loop_counter_name l @ ''++'')"

section \<open>Listings\<close>

definition line_info_to_string :: "btf_line_info_t \<Rightarrow> string" where
  "line_info_to_string li =
     ''; '' @ li_file_name li @ '':'' @ int_to_string (uint (li_line_number li)) @ [CHR 0x0A] @
     ''; '' @ li_source_line li @ [CHR 0x0A]"

definition instruction_size :: "Instruction \<Rightarrow> u32" where
  "instruction_size ins = (case ins of Bin b \<Rightarrow> if bin_lddw b then 2 else 1 | LoadMapFd _ \<Rightarrow> 2 | _ \<Rightarrow> 1)"

fun listing_labels :: "InstructionSeq \<Rightarrow> u32 \<Rightarrow> (label_t, u32) omap \<Rightarrow> (label_t, u32) omap" where
  "listing_labels [] pc m = m"
| "listing_labels ((l, ins, _) # insts) pc m = listing_labels insts (pc + instruction_size ins) (omap_put l pc m)"

definition pad_left :: "nat \<Rightarrow> string \<Rightarrow> string" where
  "pad_left n s = replicate (n - length s) CHR 0x20 @ s"

definition print_source :: "btf_line_info_t option \<Rightarrow> bool \<Rightarrow> string \<Rightarrow> string \<times> string" where
  "print_source line_info print_line_info previous_source =
    (case line_info of
       Some li \<Rightarrow> if print_line_info \<and> li_source_line li \<noteq> previous_source
                 then (line_info_to_string li, li_source_line li) else ([], previous_source)
     | None \<Rightarrow> ([], previous_source))"

definition print_instruction_line ::
  "(label_t, u32) omap \<Rightarrow> label_t option \<Rightarrow> u32 \<Rightarrow> label_t \<Rightarrow> Instruction \<Rightarrow> string res" where
  "print_instruction_line labels label_to_print pc l ins =
     bindE
       (case ins of
          Jmp j \<Rightarrow>
            (case map_of labels (jmp_target j) of
               None \<Rightarrow> Inl (RuntimeError (''Cannot find label '' @ label_to_string (jmp_target j)))
             | Some target_pc \<Rightarrow> Inr (print_jmp_offset j (sint (target_pc - pc - 1))))
        | _ \<Rightarrow> Inr (instruction_to_string ins))
       (\<lambda>body. Inr
         ((if isjump l then [CHR 0x0A] @ label_to_string l @ '':'' @ [CHR 0x0A] else []) @
          (if label_to_print \<noteq> None then int_to_string (uint pc) @ '': ''
           else pad_left 8 (int_to_string (uint pc)) @ '':'' @ [CHR 0x09]) @ body @ [CHR 0x0A]))"

fun print_listing ::
  "(label_t, u32) omap \<Rightarrow> label_t option \<Rightarrow> bool \<Rightarrow> InstructionSeq \<Rightarrow> u32 \<Rightarrow> string \<Rightarrow> string res" where
  "print_listing labels label_to_print print_line_info [] pc previous_source = Inr []"
| "print_listing labels label_to_print print_line_info ((l, ins, li) # insts) pc previous_source =
    (if label_to_print = None \<or> label_to_print = Some l then
       let (source, previous) = print_source li print_line_info previous_source in
       bindE (print_instruction_line labels label_to_print pc l ins) (\<lambda>line.
       bindE (print_listing labels label_to_print print_line_info insts (pc + instruction_size ins) previous) (\<lambda>rest.
         Inr (source @ line @ rest)))
     else print_listing labels label_to_print print_line_info insts (pc + instruction_size ins) previous_source)"

definition print_program :: "InstructionSeq \<Rightarrow> label_t option \<Rightarrow> bool \<Rightarrow> string res" where
  "print_program insts label_to_print print_line_info =
     print_listing (listing_labels insts 0 []) label_to_print print_line_info insts 0 []"

definition map_descriptor_to_string :: "EbpfMapDescriptor \<Rightarrow> string" where
  "map_descriptor_to_string d =
     ''('' @ ''original_fd = '' @ int_to_string (md_original_fd d) @ '', '' @ ''inner_map_fd = '' @ int_to_string (uint (md_inner_map_fd d)) @ '', '' @
     ''type = '' @ int_to_string (uint (md_type d)) @ '', '' @ ''max_entries = '' @ int_to_string (uint (md_max_entries d)) @ '', '' @
     ''value_size = '' @ int_to_string (uint (md_value_size d)) @ '', '' @ ''key_size = '' @ int_to_string (uint (md_key_size d)) @ '')''"

definition print_map_descriptors :: "EbpfMapDescriptor list \<Rightarrow> string" where
  "print_map_descriptors ds =
     concat (map (\<lambda>(i, d). ''map '' @ int_to_string (int i) @ '':'' @ map_descriptor_to_string d @ [CHR 0x0A]) (enumerate 0 ds))"

end
