(* ===== verification/Crab_Verifier.thy ===== *)
theory Crab_Verifier
  imports Crab_Fwd_Termination Asm_Ostream
begin

text \<open>
  \<^verbatim>\<open>crab_verifier.cpp\<close> and \<^verbatim>\<open>crab_verifier.hpp\<close>: from the table of invariants to the verdict, the report and
  the loop bound. The entry invariant is an argument, as it is for \<^verbatim>\<open>analyze\<close>.
\<close>

section \<open>The verdict\<close>

fun all_checked :: "'d domain_ops \<Rightarrow> 'd \<Rightarrow> Assertion list \<Rightarrow> bool res" where
  "all_checked ops pre [] = Inr True"
| "all_checked ops pre (a # as) =
     bindE (dom_check ops pre a) (\<lambda>ws. if ws \<noteq> [] then Inr False else all_checked ops pre as)"

fun verified :: "'d domain_ops \<Rightarrow> cfg_t \<Rightarrow> 'd invariant_table_t \<Rightarrow> bool res" where
  "verified ops cfg [] = Inr True"
| "verified ops cfg ((l, p) # tab) =
    (if dom_is_bottom ops (inv_pre p) then verified ops cfg tab
     else
       bindE (assertions_at cfg l) (\<lambda>as.
       bindE (all_checked ops (inv_pre p) as) (\<lambda>b. if b then verified ops cfg tab else Inr False)))"

definition analyze ::
  "ebpf_verifier_options_t \<Rightarrow> 'd domain_ops \<Rightarrow> cfg_t \<Rightarrow> 'd \<Rightarrow> 'd invariant_table_t run" where
  "analyze opts ops cfg entry_invariant = run_forward_analyzer opts ops cfg entry_invariant"

definition verify :: "ebpf_verifier_options_t \<Rightarrow> 'd domain_ops \<Rightarrow> cfg_t \<Rightarrow> 'd \<Rightarrow> bool run" where
  "verify opts ops cfg entry_invariant =
     bindR (analyze opts ops cfg entry_invariant) (\<lambda>tab. lift_res (verified ops cfg tab))"

section \<open>The report\<close>

record report_t =
  rep_warnings :: "(label_t, string list) omap"
  rep_reachability :: "(label_t, string list) omap"

definition add_message :: "label_t \<Rightarrow> string \<Rightarrow> (label_t, string list) omap \<Rightarrow> (label_t, string list) omap" where
  "add_message l msg m = omap_put l ((case map_of m l of None \<Rightarrow> [] | Some ms \<Rightarrow> ms) @ [msg]) m"

definition report_assertions :: "'d domain_ops \<Rightarrow> label_t \<Rightarrow> 'd \<Rightarrow> report_t \<Rightarrow> Assertion list \<Rightarrow> report_t res" where
  "report_assertions ops l pre =
     foldE (\<lambda>rep a. bindE (dom_check ops pre a) (\<lambda>warnings.
       Inr (rep\<lparr>rep_warnings := fold (add_message l) warnings (rep_warnings rep)\<rparr>)))"

definition report_unreachable :: "'d domain_ops \<Rightarrow> cfg_t \<Rightarrow> label_t \<Rightarrow> 'd \<Rightarrow> report_t \<Rightarrow> report_t res" where
  "report_unreachable ops cfg l post rep =
     bindE (instruction_at cfg l) (\<lambda>ins.
       case ins of
         Assume a \<Rightarrow>
           if dom_is_bottom ops post
           then Inr (rep\<lparr>rep_reachability :=
                  add_message l (''Code becomes unreachable ('' @ instruction_to_string (Assume a) @ '')'') (rep_reachability rep)\<rparr>)
           else Inr rep
       | _ \<Rightarrow> Inr rep)"

definition check_assertions :: "'d domain_ops \<Rightarrow> cfg_t \<Rightarrow> 'd invariant_table_t \<Rightarrow> report_t res" where
  "check_assertions ops cfg tab =
     foldE (\<lambda>rep (l, p).
       if dom_is_bottom ops (inv_pre p) then Inr rep
       else
         bindE (assertions_at cfg l) (\<lambda>as.
         bindE (report_assertions ops l (inv_pre p) rep as) (report_unreachable ops cfg l (inv_post p))))
       \<lparr>rep_warnings = [], rep_reachability = []\<rparr> tab"

definition report_verified :: "report_t \<Rightarrow> bool" where
  "report_verified rep \<longleftrightarrow> rep_warnings rep = []"

definition message_set :: "(label_t, string list) omap \<Rightarrow> string oset" where
  "message_set m = fold (\<lambda>(l, msgs) res. fold (\<lambda>msg. oset_insert (label_to_string l @ '': '' @ msg)) msgs res) m []"

definition warning_set :: "report_t \<Rightarrow> string oset" where
  "warning_set rep = message_set (rep_warnings rep)"

definition reachability_set :: "report_t \<Rightarrow> string oset" where
  "reachability_set rep = message_set (rep_reachability rep)"

definition all_messages :: "report_t \<Rightarrow> string oset" where
  "all_messages rep = fold oset_insert (reachability_set rep) (warning_set rep)"

section \<open>The loop bound\<close>

definition max_loop_count :: "'d domain_ops \<Rightarrow> 'd invariant_table_t \<Rightarrow> int res" where
  "max_loop_count ops tab =
    (let m = fold (\<lambda>(l, p) m. ext_max m (dom_loop_count_upper_bound ops (inv_post p))) tab (finite_ext 0) in
     case ext_number m of
       Some n \<Rightarrow> if fits int32_t n then cast_to int32_t n else Inr (type_max int32_t)
     | None \<Rightarrow> Inr (type_max int32_t))"

section \<open>The verdict covers every execution\<close>

lemma all_checked_True: "all_checked ops d as = Inr True \<Longrightarrow> a \<in> set as \<Longrightarrow> dom_check ops d a = Inr []"
  by (induction as) (auto simp: bindE_eq_Inr_iff split: if_splits)

lemma verified_True:
  "verified ops cfg tab = Inr True \<Longrightarrow> (l, p) \<in> set tab \<Longrightarrow>
     dom_is_bottom ops (inv_pre p) \<or> (\<exists>as. assertions_at cfg l = Inr as \<and> (\<forall>a \<in> set as. dom_check ops (inv_pre p) a = Inr []))"
  by (induction tab) (auto simp: bindE_eq_Inr_iff all_checked_True split: if_splits)

definition concrete_step :: "cfg_t \<Rightarrow> (Instruction \<Rightarrow> 's \<Rightarrow> 's set) \<Rightarrow> label_t \<Rightarrow> 's \<Rightarrow> 's \<Rightarrow> bool" where
  "concrete_step cfg sem l s s' \<longleftrightarrow> (\<exists>ins. instruction_at cfg l = Inr ins \<and> s' \<in> sem ins s)"

lemma reachable_start: "s \<in> X \<Longrightarrow> reachable S cfg X entry_label s"
  unfolding reachable_def by (rule reach_start) auto

lemma reachable_next: "reachable S cfg X u s \<Longrightarrow> S u s s' \<Longrightarrow> (u, v) \<in> cfg_edges cfg \<Longrightarrow> reachable S cfg X v s'"
  unfolding reachable_def by (rule reach_step) auto

lemma verified_covers:
  assumes "verified ops cfg tab = Inr True" "sound_domain ops gam ok sem holds reset"
    and "map_of tab l = Some p" "ok (inv_pre p)" "s \<in> gam (inv_pre p)"
  shows "assertions_hold cfg holds l s"
proof -
  have "\<not> dom_is_bottom ops (inv_pre p)" using sound_domainD(5) [OF assms(2,4)] assms(5) by blast
  then obtain as where "assertions_at cfg l = Inr as" "\<forall>a \<in> set as. dom_check ops (inv_pre p) a = Inr []"
    using verified_True [OF assms(1) map_of_SomeD [OF assms(3)]] by blast
  then show ?thesis using sound_domainD(6) [OF assms(2,4) _ assms(5)] by (auto simp: assertions_hold_def)
qed

lemma verify_covers:
  assumes run: "verify opts ops cfg d = Some (Inr True)" and C: "cfg_ok cfg"
    and wto: "make_wto cfg = Some (Inr wto)" "wto_ok cfg (wto_view wto)"
    and D: "sound_domain ops gam ok sem holds reset" and d: "ok d"
    and reach: "reachable (concrete_step cfg sem) cfg (entry_states opts wto reset (gam d)) l s"
  shows "assertions_hold cfg holds l s"
proof -
  obtain tab where tab: "run_forward_analyzer opts ops cfg d = Some (Inr tab)" "verified ops cfg tab = Inr True"
    using run by (auto simp: verify_def analyze_def bindR_eq_Inr)
  let ?S = "exec_step opts cfg sem holds" and ?X = "entry_states opts wto reset (gam d)"
  have holds: "assertions_hold cfg holds l s" if reached: "reachable ?S cfg ?X l s" for l s
  proof -
    obtain p where "map_of tab l = Some p" "ok (inv_pre p)" "s \<in> gam (inv_pre p)"
      using analysis_covers [OF tab(1) C wto D d reached] by blast
    then show ?thesis by (rule verified_covers [OF tab(2) D])
  qed
  have "reachable ?S cfg ?X l s"
    using reach
  proof (induction rule: reachable_induct)
    case (entry s)
    then show ?case by (rule reachable_start)
  next
    case (step u s s' v)
    then have "?S u s s'" using holds [OF step.IH] by (simp add: exec_step_def concrete_step_def)
    then show ?case by (rule reachable_next [OF step.IH _ step(3)])
  qed
  then show ?thesis by (rule holds)
qed

section \<open>The report agrees with the verdict\<close>

lemma add_message_not_Nil: "fold (add_message l) ws m = [] \<longleftrightarrow> ws = [] \<and> m = []"
proof (induction ws arbitrary: m)
  case (Cons w ws)
  have "omap_put l x m \<noteq> []" for x by (induction l x m rule: omap_put.induct) auto
  then show ?case using Cons by (simp add: add_message_def)
qed simp

lemma report_assertions_verdict:
  assumes "report_assertions ops l d rep as = Inr rep'"
  shows "\<exists>b. all_checked ops d as = Inr b \<and> (report_verified rep' \<longleftrightarrow> b \<and> report_verified rep)"
  using assms unfolding report_assertions_def
proof (induction as arbitrary: rep)
  case (Cons a as)
  obtain ws rep1 where ws: "dom_check ops d a = Inr ws" and rep1: "rep1 = rep\<lparr>rep_warnings := fold (add_message l) ws (rep_warnings rep)\<rparr>"
    and rest: "foldE (\<lambda>rep a. bindE (dom_check ops d a) (\<lambda>warnings.
       Inr (rep\<lparr>rep_warnings := fold (add_message l) warnings (rep_warnings rep)\<rparr>))) rep1 as = Inr rep'"
    using Cons.prems by (auto simp: bindE_eq_Inr_iff)
  have "report_verified rep1 \<longleftrightarrow> ws = [] \<and> report_verified rep" by (auto simp: report_verified_def rep1 add_message_not_Nil)
  with Cons.IH [OF rest] ws show ?case by auto
qed (simp add: exI [of _ True])

lemma report_unreachable_verdict: "report_unreachable ops cfg l d rep = Inr rep' \<Longrightarrow> report_verified rep' = report_verified rep"
  unfolding report_unreachable_def bindE_eq_Inr_iff
  by (elim exE conjE, split Instruction.split_asm) (auto simp: report_verified_def split: if_splits)

lemma check_assertions_from:
  assumes "foldE (\<lambda>rep (l, p).
       if dom_is_bottom ops (inv_pre p) then Inr rep
       else
         bindE (assertions_at cfg l) (\<lambda>as.
         bindE (report_assertions ops l (inv_pre p) rep as) (report_unreachable ops cfg l (inv_post p)))) rep tab = Inr rep'"
  shows "\<exists>b. verified ops cfg tab = Inr b \<and> (report_verified rep' \<longleftrightarrow> b \<and> report_verified rep)"
  using assms
proof (induction tab arbitrary: rep)
  case (Cons e tab)
  obtain l p where e: "e = (l, p)" by (cases e)
  show ?case
  proof (cases "dom_is_bottom ops (inv_pre p)")
    case False
    then obtain as rep1 rep2 where *: "assertions_at cfg l = Inr as" "report_assertions ops l (inv_pre p) rep as = Inr rep1"
      "report_unreachable ops cfg l (inv_post p) rep1 = Inr rep2"
      "foldE (\<lambda>rep (l, p).
       if dom_is_bottom ops (inv_pre p) then Inr rep
       else
         bindE (assertions_at cfg l) (\<lambda>as.
         bindE (report_assertions ops l (inv_pre p) rep as) (report_unreachable ops cfg l (inv_post p)))) rep2 tab = Inr rep'"
      using Cons.prems by (auto simp: e bindE_eq_Inr_iff)
    obtain b c where b: "all_checked ops (inv_pre p) as = Inr b" "report_verified rep1 \<longleftrightarrow> b \<and> report_verified rep"
      and c: "verified ops cfg tab = Inr c" "report_verified rep' \<longleftrightarrow> c \<and> report_verified rep2"
      using report_assertions_verdict [OF *(2)] Cons.IH [OF *(4)] by blast
    have "verified ops cfg (e # tab) = Inr (b \<and> c)" using b(1) c(1) by (simp add: e *(1) False)
    then show ?thesis using b(2) c(2) report_unreachable_verdict [OF *(3)] by auto
  qed (use Cons in \<open>simp add: e\<close>)
qed auto

section \<open>The loop bound is a bound\<close>

lemma fold_ext_max_upper:
  assumes "ext_ok m" "\<forall>(l, p) \<in> set tab. ext_ok (f p)"
  shows "ext_ok (fold (\<lambda>(l, p) m. ext_max m (f p)) tab m)"
    "abs_ext m \<le> abs_ext (fold (\<lambda>(l, p) m. ext_max m (f p)) tab m)"
    "(l, p) \<in> set tab \<Longrightarrow> abs_ext (f p) \<le> abs_ext (fold (\<lambda>(l, p) m. ext_max m (f p)) tab m)"
proof -
  have "ext_ok (fold (\<lambda>(l, p) m. ext_max m (f p)) tab m) \<and>
    abs_ext m \<le> abs_ext (fold (\<lambda>(l, p) m. ext_max m (f p)) tab m) \<and>
    (\<forall>(l, p) \<in> set tab. abs_ext (f p) \<le> abs_ext (fold (\<lambda>(l, p) m. ext_max m (f p)) tab m))"
    using assms
  proof (induction tab arbitrary: m)
    case (Cons e tab)
    obtain l p where e: "e = (l, p)" by (cases e)
    have "ext_ok (f p)" using Cons.prems(2) by (simp add: e)
    then have m: "ext_ok (ext_max m (f p))" "abs_ext (ext_max m (f p)) = max (abs_ext m) (abs_ext (f p))"
      using Cons.prems(1) by (simp_all add: ext_min_max_refine)
    from Cons.IH [OF m(1)] Cons.prems(2) m(2) show ?case by (auto simp: e)
  qed simp
  then show "ext_ok (fold (\<lambda>(l, p) m. ext_max m (f p)) tab m)"
    "abs_ext m \<le> abs_ext (fold (\<lambda>(l, p) m. ext_max m (f p)) tab m)"
    "(l, p) \<in> set tab \<Longrightarrow> abs_ext (f p) \<le> abs_ext (fold (\<lambda>(l, p) m. ext_max m (f p)) tab m)" by auto
qed

lemma max_loop_count_bounds:
  assumes "\<forall>(l, p) \<in> set tab. ext_ok (dom_loop_count_upper_bound ops (inv_post p))"
  shows "\<exists>r. max_loop_count ops tab = Inr r \<and> 0 \<le> r \<and> r \<le> 2 ^ 31 - 1 \<and>
    (\<forall>(l, p) \<in> set tab. abs_ext (dom_loop_count_upper_bound ops (inv_post p)) \<le> Fin r \<or> r = 2 ^ 31 - 1)"
proof -
  define m where "m = fold (\<lambda>(l, p) m. ext_max m (dom_loop_count_upper_bound ops (inv_post p))) tab (finite_ext 0)"
  note up = fold_ext_max_upper [where f = "\<lambda>p. dom_loop_count_upper_bound ops (inv_post p)", of "finite_ext 0" tab, folded m_def]
  have m: "ext_ok m" "Fin 0 \<le> abs_ext m" using up(1,2) assms by auto
  have each: "abs_ext (dom_loop_count_upper_bound ops (inv_post p)) \<le> abs_ext m" if "(l, p) \<in> set tab" for l p
    using up(3) assms that by auto
  show ?thesis
  proof (cases "ext_is_infinite m \<or> \<not> fits int32_t (ext_n m)")
    case True
    then have "max_loop_count ops tab = Inr (2 ^ 31 - 1)"
      by (auto simp: max_loop_count_def m_def [symmetric] ext_number_def is_infinite_def type_max_def)
    then show ?thesis by auto
  next
    case False
    then have "max_loop_count ops tab = Inr (ext_n m)" "abs_ext m = Fin (ext_n m)"
      by (auto simp: max_loop_count_def m_def [symmetric] ext_number_def is_infinite_def cast_to_def abs_ext_def)
    then show ?thesis using m(2) False each by (auto simp: fits_def type_max_def)
  qed
qed

end
