(* ===== verification/Crab_Prepare.thy ===== *)
theory Crab_Prepare
  imports Crab_Wto
begin

text \<open>
  The rest of \<^verbatim>\<open>asm_cfg.cpp\<close>: preparation of the graph for the analysis, with loop counters and assertions,
  basic blocks for printing, and statistics.
\<close>

section \<open>Preparation\<close>

definition insert_loop_counter :: "cfg_t \<Rightarrow> label_t \<Rightarrow> cfg_t res" where
  "insert_loop_counter cfg l = insert_after cfg l (make_increment_counter l) (unguarded (IncrementLoopCounter l))"

definition insert_loop_counters :: "cfg_t \<Rightarrow> cfg_t run" where
  "insert_loop_counters cfg =
     bindR (make_wto cfg) (\<lambda>wto. lift_res (for_each_loop_head insert_loop_counter (wto_view wto) cfg))"

definition annotate :: "gsl_narrow \<Rightarrow> program_info \<Rightarrow> cfg_t \<Rightarrow> label_t \<times> guarded_instruction \<Rightarrow> cfg_t res" where
  "annotate nrw info cfg = (\<lambda>(l, ins). bindE (get_assertions nrw (cmd ins) info (Some l)) (set_assertions cfg l))"

definition prepare_cfg :: "gsl_narrow \<Rightarrow> InstructionSeq \<Rightarrow> program_info \<Rightarrow> ebpf_verifier_options_t \<Rightarrow> cfg_t run" where
  "prepare_cfg nrw prog info options =
     bindR (lift_res (instruction_seq_to_cfg prog (must_have_exit options))) (\<lambda>cfg.
     bindR (if check_for_termination options then insert_loop_counters cfg else Some (Inr cfg)) (\<lambda>cfg1.
       lift_res (foldE (annotate nrw info) cfg1 (instructions cfg1))))"

section \<open>Basic blocks\<close>

type_synonym basic_block_t = "label_t list"

fun block_insert :: "basic_block_t \<Rightarrow> basic_block_t list \<Rightarrow> basic_block_t list" where
  "block_insert bb [] = [bb]"
| "block_insert bb (b # bs) =
    (if hd bb < hd b then bb # b # bs
     else if hd bb = hd b then b # bs
     else b # block_insert bb bs)"

text \<open>The inner loop extends a block while there is a single way on. It ends since every round marks a new label.\<close>

function extend_block :: "cfg_t \<Rightarrow> label_t \<Rightarrow> basic_block_t \<Rightarrow> label_t oset \<Rightarrow> label_t oset \<Rightarrow>
    (basic_block_t \<times> label_t oset \<times> label_t oset) res" where
  "extend_block cfg l bb worklist seen =
     bindE (out_degree cfg l) (\<lambda>out.
       if out \<noteq> 1 then Inr (bb, worklist, seen)
       else
         bindE (get_child cfg (last bb)) (\<lambda>next_label.
           if next_label \<in> set seen \<or> next_label = exit_label then Inr (bb, worklist, seen)
           else
             bindE (in_degree cfg next_label) (\<lambda>n.
               if n \<noteq> 1 then Inr (bb, worklist, seen)
               else
                 extend_block cfg next_label ((if hd bb = entry_label then [] else bb) @ [next_label])
                   (oset_erase next_label worklist) (oset_insert next_label seen))))"
  by pat_completeness auto
termination
proof (relation "measure (\<lambda>(cfg, l, bb, worklist, seen). card (node_labels cfg - set seen))", goal_cases)
  case (2 cfg l bb worklist seen out next_label n)
  then have "next_label \<in> node_labels cfg"
    by (auto simp: in_degree_def bindE_eq_Inr_iff dest: get_node_label)
  then have "node_labels cfg - set (oset_insert next_label seen) \<subset> node_labels cfg - set seen" using 2 by auto
  then show ?case by (simp only: in_measure prod.case) (simp add: node_labels_def psubset_card_mono)
qed simp

declare extend_block.simps [simp del]

definition starts_elsewhere :: "cfg_t \<Rightarrow> label_t \<Rightarrow> bool res" where
  "starts_elsewhere cfg l =
     bindE (in_degree cfg l) (\<lambda>n. if n = 1 then bindE (num_siblings cfg l) (\<lambda>k. Inr (k = 1)) else Inr False)"

lemma oset_erase_length: "length (oset_erase x xs) \<le> length xs"
  by (simp add: oset_erase_def)

lemma extend_block_worklist:
  "extend_block cfg l bb worklist seen = Inr (bb', worklist', seen') \<Longrightarrow> length worklist' \<le> length worklist"
proof (induction cfg l bb worklist seen rule: extend_block.induct)
  case (1 cfg l bb worklist seen)
  show ?case
    using 1(2) unfolding extend_block.simps [of cfg l] bindE_eq_Inr_iff
    by (auto simp: bindE_eq_Inr_iff split: if_splits dest!: 1(1) intro: order_trans oset_erase_length)
qed

function basic_blocks :: "cfg_t \<Rightarrow> label_t oset \<Rightarrow> label_t oset \<Rightarrow> basic_block_t list \<Rightarrow> basic_block_t list res" where
  "basic_blocks cfg [] seen res = Inr res"
| "basic_blocks cfg (l # worklist) seen res =
    (if l \<in> set seen then basic_blocks cfg worklist seen res
     else
       bindE (starts_elsewhere cfg l) (\<lambda>skip.
         if skip then basic_blocks cfg worklist (oset_insert l seen) res
         else
           bindE (extend_block cfg l [l] worklist (oset_insert l seen)) (\<lambda>r.
             basic_blocks cfg (fst (snd r)) (snd (snd r)) (block_insert (fst r) res))))"
  by pat_completeness auto
termination
  by (relation "measure (\<lambda>(cfg, worklist, seen, res). length worklist)")
     (auto dest!: extend_block_worklist [of _ _ _ _ _ "fst r" "fst (snd r)" "snd (snd r)" for r, unfolded prod.collapse] simp: less_Suc_eq_le)

definition collect_basic_blocks :: "cfg_t \<Rightarrow> bool \<Rightarrow> basic_block_t list res" where
  "collect_basic_blocks cfg simplify =
    (if \<not> simplify then Inr (map (\<lambda>l. [l]) (filter (\<lambda>l. l \<noteq> entry_label \<and> l \<noteq> exit_label) (cfg_labels cfg)))
     else basic_blocks cfg (cfg_labels cfg) [] [])"

section \<open>Statistics\<close>

definition instype :: "Instruction \<Rightarrow> string" where
  "instype ins =
    (case ins of
       Call c \<Rightarrow>
         if call_is_map_lookup c then ''call_1''
         else if call_pairs c = [] \<and> list_all (\<lambda>a. single_kind a = Single_ANYTHING) (call_singles c) then ''call_nomem''
         else ''call_mem''
     | Callx _ \<Rightarrow> ''callx''
     | Mem m \<Rightarrow> if mem_is_load m then ''load'' else ''store''
     | Atomic _ \<Rightarrow> ''load_store''
     | Packet _ \<Rightarrow> ''packet_access''
     | Bin b \<Rightarrow> if bin_op b \<in> {Bin_MOV, Bin_MOVSX8, Bin_MOVSX16, Bin_MOVSX32} then ''assign'' else ''arith''
     | UnOp _ \<Rightarrow> ''arith''
     | LoadMapFd _ \<Rightarrow> ''assign''
     | Assume _ \<Rightarrow> ''assume''
     | _ \<Rightarrow> ''other'')"

definition stats_headers :: "string list" where
  "stats_headers =
     [''instructions'', ''joins'', ''other'', ''jumps'', ''assign'', ''arith'', ''load'', ''store'', ''load_store'',
      ''packet_access'', ''call_1'', ''call_mem'', ''call_nomem'', ''reallocate'', ''map_in_map'', ''arith64'', ''arith32'']"

type_synonym stats_t = "(string, int) omap"

definition stat_of :: "stats_t \<Rightarrow> string \<Rightarrow> int" where
  "stat_of m k = (case map_of m k of None \<Rightarrow> 0 | Some n \<Rightarrow> n)"

definition stat_inc :: "string \<Rightarrow> stats_t \<Rightarrow> stats_t" where
  "stat_inc k m = omap_put k (stat_of m k + 1) m"

definition stat_instruction :: "Instruction \<Rightarrow> stats_t \<Rightarrow> stats_t" where
  "stat_instruction ins m =
     stat_inc (instype ins)
      (case ins of
         LoadMapFd f \<Rightarrow> if lmf_mapfd f = - 1 then omap_put ''map_in_map'' 1 m else m
       | Call c \<Rightarrow> if call_reallocate_packet c then omap_put ''reallocate'' 1 m else m
       | Bin b \<Rightarrow> stat_inc (if bin_is64 b then ''arith64'' else ''arith32'') m
       | _ \<Rightarrow> m)"

definition stat_label :: "cfg_t \<Rightarrow> stats_t \<Rightarrow> label_t \<Rightarrow> stats_t res" where
  "stat_label cfg m l =
    (let m1 = stat_inc ''instructions'' m in
     bindE (instruction_at cfg l) (\<lambda>ins.
     let m2 = stat_instruction ins m1 in
     bindE (in_degree cfg l) (\<lambda>i.
     let m3 = (if 1 < i then stat_inc ''joins'' m2 else m2) in
     bindE (out_degree cfg l) (\<lambda>out. Inr (if 1 < out then stat_inc ''jumps'' m3 else m3)))))"

definition collect_stats :: "cfg_t \<Rightarrow> stats_t res" where
  "collect_stats cfg = foldE (stat_label cfg) (fold (\<lambda>h m. omap_put h 0 m) stats_headers []) (cfg_labels cfg)"

section \<open>Every instruction of a prepared graph carries its assertions\<close>

lemma insert_loop_counters_ok:
  assumes "insert_loop_counters cfg = Some (Inr cfg')" "cfg_ok cfg"
  shows "cfg_ok cfg'"
proof -
  obtain wto where "for_each_loop_head insert_loop_counter (wto_view wto) cfg = Inr cfg'"
    using assms(1) by (auto simp: insert_loop_counters_def bindR_eq_Inr)
  then show ?thesis
    unfolding for_each_loop_head_def
    by (rule foldE_invariant)
       (use assms(2) in \<open>auto simp: insert_loop_counter_def bindE_eq_Inr_iff insert_after_ok(1) split: wto_comp.splits\<close>)
qed

lemma set_assertions_Inr:
  "set_assertions cfg l as = Inr cfg' \<longleftrightarrow>
    (\<exists>g. map_of (instructions cfg) l = Some g \<and> cfg' = cfg\<lparr>instructions := omap_put l (g\<lparr>preconditions := as\<rparr>) (instructions cfg)\<rparr>)"
  by (auto simp: set_assertions_def bindE_eq_Inr_iff)

lemma annotate_Inr:
  "annotate nrw info cfg (l, g) = Inr cfg' \<longleftrightarrow>
    (\<exists>as. get_assertions nrw (cmd g) info (Some l) = Inr as \<and> set_assertions cfg l as = Inr cfg')"
  by (simp add: annotate_def bindE_eq_Inr_iff)

lemma annotate_all:
  assumes "foldE (annotate nrw info) cfg xs = Inr cfg'" "distinct (map fst xs)"
    and "\<And>l g. (l, g) \<in> set xs \<Longrightarrow> \<exists>h. map_of (instructions cfg) l = Some h \<and> cmd h = cmd g"
  shows "(\<forall>(l, g) \<in> set xs. \<exists>as h. get_assertions nrw (cmd g) info (Some l) = Inr as \<and>
      map_of (instructions cfg') l = Some h \<and> cmd h = cmd g \<and> preconditions h = as) \<and>
    (\<forall>l. l \<notin> fst ` set xs \<longrightarrow> map_of (instructions cfg') l = map_of (instructions cfg) l)"
  using assms
proof (induction xs arbitrary: cfg)
  case (Cons x xs)
  obtain l g where x: "x = (l, g)" by (cases x)
  obtain as c h where c: "get_assertions nrw (cmd g) info (Some l) = Inr as" "foldE (annotate nrw info) c xs = Inr cfg'"
    and h: "map_of (instructions cfg) l = Some h" "c = cfg\<lparr>instructions := omap_put l (h\<lparr>preconditions := as\<rparr>) (instructions cfg)\<rparr>"
    using Cons.prems(1) by (auto simp: x annotate_Inr bindE_eq_Inr_iff set_assertions_Inr)
  have "cmd h = cmd g" using Cons.prems(3) [of l g] h(1) by (auto simp: x)
  moreover have "(\<forall>(l, g) \<in> set xs. \<exists>as h. get_assertions nrw (cmd g) info (Some l) = Inr as \<and>
      map_of (instructions cfg') l = Some h \<and> cmd h = cmd g \<and> preconditions h = as) \<and>
    (\<forall>l. l \<notin> fst ` set xs \<longrightarrow> map_of (instructions cfg') l = map_of (instructions c) l)"
  proof (rule Cons.IH [OF c(2)])
    show "distinct (map fst xs)" using Cons.prems(2) by simp
    fix l' g'
    assume "(l', g') \<in> set xs"
    moreover from this have "l' \<noteq> l" using Cons.prems(2) by (force simp: x)
    ultimately show "\<exists>h. map_of (instructions c) l' = Some h \<and> cmd h = cmd g'"
      using Cons.prems(3) [of l' g'] by (simp add: h(2))
  qed
  ultimately show ?case using Cons.prems(2) c(1) by (simp add: x h(2))
qed simp

lemma annotate_ok: "foldE (annotate nrw info) cfg xs = Inr cfg' \<Longrightarrow> cfg_ok cfg \<Longrightarrow> cfg_ok cfg' \<and> node_labels cfg' = node_labels cfg"
proof (induction xs arbitrary: cfg)
  case (Cons x xs)
  obtain l g where x: "x = (l, g)" by (cases x)
  from Cons.prems obtain as c where "set_assertions cfg l as = Inr c" "foldE (annotate nrw info) c xs = Inr cfg'"
    by (auto simp: x annotate_Inr bindE_eq_Inr_iff)
  then show ?case using Cons set_assertions_ok set_assertions_neighbours(3) by metis
qed simp

lemma cfg_ok_instructions: "cfg_ok cfg \<Longrightarrow> l \<in> node_labels cfg \<Longrightarrow> \<exists>g. (l, g) \<in> set (instructions cfg)"
  by (auto simp: cfg_ok_def cfg_shape_def instr_labels_def omap_keys_def)

lemma prepare_cfg_annotates:
  assumes "prepare_cfg nrw prog info options = Some (Inr cfg)"
  shows "cfg_ok cfg \<and> (\<forall>l \<in> node_labels cfg. \<exists>ins as. instruction_at cfg l = Inr ins \<and>
    get_assertions nrw ins info (Some l) = Inr as \<and> assertions_at cfg l = Inr as)"
proof -
  obtain c0 c1 where c: "instruction_seq_to_cfg prog (must_have_exit options) = Inr c0"
    "(if check_for_termination options then insert_loop_counters c0 else Some (Inr c0)) = Some (Inr c1)"
    "foldE (annotate nrw info) c1 (instructions c1) = Inr cfg"
    using assms by (auto simp: prepare_cfg_def bindR_eq_Inr)
  have ok: "cfg_ok c1"
    using c(2) insert_loop_counters_ok instruction_seq_to_cfg_ok [OF c(1)] by (auto split: if_splits)
  have d: "distinct (map fst (instructions c1))" and lk: "\<And>l g. (l, g) \<in> set (instructions c1) \<Longrightarrow> map_of (instructions c1) l = Some g"
    using ok by (auto simp: cfg_ok_def cfg_shape_def omap_ok_def omap_keys_def)
  have all: "\<forall>(l, g) \<in> set (instructions c1). \<exists>as h. get_assertions nrw (cmd g) info (Some l) = Inr as \<and>
      map_of (instructions cfg) l = Some h \<and> cmd h = cmd g \<and> preconditions h = as"
    using annotate_all [OF c(3) d] lk by blast
  have "\<exists>ins as. instruction_at cfg l = Inr ins \<and> get_assertions nrw ins info (Some l) = Inr as \<and> assertions_at cfg l = Inr as"
    if l: "l \<in> node_labels cfg" for l
  proof -
    obtain g where "(l, g) \<in> set (instructions c1)" using l annotate_ok [OF c(3) ok] cfg_ok_instructions [OF ok] by blast
    then obtain as h where "get_assertions nrw (cmd g) info (Some l) = Inr as" "map_of (instructions cfg) l = Some h"
      "cmd h = cmd g" "preconditions h = as" using all by blast
    then show ?thesis by (simp add: instruction_at_def assertions_at_def)
  qed
  then show ?thesis using annotate_ok [OF c(3) ok] by blast
qed

text \<open>
  C5. A prepared graph is well-formed, and every label carries exactly the assertions that its instruction
  calls for, under the options that check termination too, where loop counters were inserted.
\<close>

theorem prepared_graph_annotated:
  assumes "prepare_cfg nrw prog info options = Some (Inr cfg)"
  shows "cfg_ok cfg \<and> (\<forall>l \<in> node_labels cfg. \<exists>ins as. instruction_at cfg l = Inr ins \<and>
    get_assertions nrw ins info (Some l) = Inr as \<and> assertions_at cfg l = Inr as)"
  by (rule prepare_cfg_annotates [OF assms])

definition endless_count :: InstructionSeq where
  "endless_count =
    [(label 0, Bin \<lparr>bin_op = Bin_ADD, bin_dst = Reg 0, bin_v = Imm 1, bin_is64 = True, bin_lddw = False\<rparr>, None),
     (label 1, Jmp \<lparr>jmp_cond = None, jmp_target = label 0\<rparr>, None)]"

theorem prepared_graph_annotated_witness:
  "\<forall>info. \<exists>cfg. prepare_cfg gsl_narrow_ref endless_count info (default_options\<lparr>check_for_termination := True\<rparr>) = Some (Inr cfg) \<and>
     cfg_ok cfg \<and> assertions_at cfg (make_increment_counter (label 0)) = Inr [BoundedLoopCount (label 0)]"
proof
  fix info
  let ?prep = "prepare_cfg gsl_narrow_ref endless_count info (default_options\<lparr>check_for_termination := True\<rparr>)"
  have "bindR ?prep (\<lambda>cfg. lift_res (assertions_at cfg (make_increment_counter (label 0)))) = Some (Inr [BoundedLoopCount (label 0)])"
    by code_simp
  then obtain cfg where "?prep = Some (Inr cfg)" "assertions_at cfg (make_increment_counter (label 0)) = Inr [BoundedLoopCount (label 0)]"
    by (auto simp: bindR_eq_Inr)
  with prepared_graph_annotated [OF this(1)]
  show "\<exists>cfg. ?prep = Some (Inr cfg) \<and> cfg_ok cfg \<and> assertions_at cfg (make_increment_counter (label 0)) = Inr [BoundedLoopCount (label 0)]"
    by blast
qed

text \<open>The blocks that are printed leave out the target of a backward jump that nothing else leads to.\<close>

definition backward_goto :: InstructionSeq where
  "backward_goto =
    [(label 0, Jmp \<lparr>jmp_cond = Some \<lparr>cond_op = Cond_EQ, cond_left = Reg 1, cond_right = Imm 0, cond_is64 = True\<rparr>,
        jmp_target = label 3\<rparr>, None),
     (label 1, Jmp \<lparr>jmp_cond = None, jmp_target = label 3\<rparr>, None),
     (label 2, Exit [], None),
     (label 3, Jmp \<lparr>jmp_cond = None, jmp_target = label 2\<rparr>, None)]"

text \<open>
  In the graph of this program, whose exit instruction at \<^verbatim>\<open>2\<close> is reached only by the backward jump
  at \<^verbatim>\<open>3\<close>, that instruction is in none of the basic blocks that are collected for printing.
\<close>

theorem basic_blocks_lose_instruction:
  "\<exists>cfg bs. instruction_seq_to_cfg backward_goto True = Inr cfg \<and> collect_basic_blocks cfg True = Inr bs \<and>
     label 2 \<in> set (cfg_labels cfg) \<and> succs cfg (label 3) = [label 2] \<and> label 2 \<notin> set (concat bs)"
proof -
  have "case instruction_seq_to_cfg backward_goto True of Inl _ \<Rightarrow> False | Inr cfg \<Rightarrow>
      (case collect_basic_blocks cfg True of Inl _ \<Rightarrow> False | Inr bs \<Rightarrow>
        label 2 \<in> set (cfg_labels cfg) \<and> succs cfg (label 3) = [label 2] \<and> label 2 \<notin> set (concat bs))"
    by code_simp
  then show ?thesis by (auto split: sum.splits)
qed

end
