(* ===== verification/Crab_Wto_Frames.thy ===== *)
theory Crab_Wto_Frames
  imports Crab_Wto
begin

text \<open>
  The builder of \<^verbatim>\<open>crab/wto.cpp\<close> returns a weak topological order. The visit stack is read as the
  frames of the recursive algorithm: a vertex whose visit has started and not ended owns the closed
  vertices above it on the vertex stack; a cycle that is being built owns the vertices that were reset when
  it started. The invariant says that low links are correct, that a finished vertex has only finished
  successors, and that no edge leads back inside of a partition.
\<close>

section \<open>Vocabulary\<close>

type_synonym vdata = "label_t \<Rightarrow> wto_vertex_data_t"

definition dfn :: "vdata \<Rightarrow> label_t \<Rightarrow> int" where
  "dfn D x = vd_dfn (D x)"

definition low :: "vdata \<Rightarrow> label_t \<Rightarrow> int" where
  "low D x = vd_head_dfn (D x)"

definition active :: "vdata \<Rightarrow> label_t \<Rightarrow> bool" where
  "active D x \<longleftrightarrow> 0 < dfn D x \<and> dfn D x < DFN_INF"

definition fin :: "vdata \<Rightarrow> label_t \<Rightarrow> bool" where
  "fin D x \<longleftrightarrow> dfn D x = DFN_INF"

text \<open>A partition under construction, the vertices that may go into it, and its components so far, first one first.\<close>

type_synonym level = "partition_ref \<times> label_t set \<times> wto_comp list"

definition cont_of :: "partition_ref \<Rightarrow> nat option" where
  "cont_of p = (case p of TopLevel \<Rightarrow> None | InCycle i \<Rightarrow> Some i)"

definition top_task :: "visit_args_t list \<Rightarrow> visit_args_t option" where
  "top_task ts = (case dropWhile (\<lambda>t. vt_type t = PushSuccessors) ts of [] \<Rightarrow> None | t # _ \<Rightarrow> Some t)"

definition owner_succ :: "cfg_t \<Rightarrow> visit_args_t list \<Rightarrow> label_t \<Rightarrow> bool" where
  "owner_succ cfg ts s \<longleftrightarrow>
    (case top_task ts of None \<Rightarrow> s = entry_label | Some t \<Rightarrow> s \<in> set (succs cfg (vt_vertex t)))"

lemma visit_args_simps [simp]:
  "vt_type (visit_args ty v p c) = ty" "vt_vertex (visit_args ty v p c) = v"
  "vt_partition (visit_args ty v p c) = p" "vt_containing (visit_args ty v p c) = c"
  by (simp_all add: visit_args_def)

lemma top_task_simps [simp]:
  "top_task [] = None"
  "vt_type t = PushSuccessors \<Longrightarrow> top_task (t # ts) = top_task ts"
  "vt_type t \<noteq> PushSuccessors \<Longrightarrow> top_task (t # ts) = Some t"
  by (simp_all add: top_task_def)

lemma top_task_pushes [simp]: "top_task (map (\<lambda>s. visit_args PushSuccessors s p c) ss @ ts) = top_task ts"
  by (induction ss) (simp_all add: visit_args_def)

text \<open>Every vertex of the list has an edge from a vertex after it in the list, or from the given one.\<close>

definition linked :: "cfg_t \<Rightarrow> label_t \<Rightarrow> label_t list \<Rightarrow> bool" where
  "linked cfg v cl \<longleftrightarrow> (\<forall>a x b. cl = a @ x # b \<longrightarrow> (\<exists>y \<in> insert v (set b). x \<in> set (succs cfg y)))"

lemma linked_Nil [simp]: "linked cfg v []"
  by (simp add: linked_def)

lemma linked_append:
  assumes "linked cfg v cl" "v \<in> set (succs cfg u)" "linked cfg u cl'"
  shows "linked cfg u (cl @ v # cl')"
  unfolding linked_def
proof (intro allI impI)
  fix a x b
  assume "cl @ v # cl' = a @ x # b"
  then consider us where "cl = a @ x # us" "b = us @ v # cl'" | "a = cl" "x = v" "b = cl'" | us where "a = cl @ v # us" "cl' = us @ x # b"
    by (auto simp: append_eq_append_conv2 Cons_eq_append_conv append_eq_Cons_conv)
  then show "\<exists>y \<in> insert u (set b). x \<in> set (succs cfg y)"
  proof cases
    case 1
    then have "\<exists>y \<in> insert v (set us). x \<in> set (succs cfg y)" using assms(1) by (simp add: linked_def)
    then show ?thesis using 1 by auto
  qed (use assms in \<open>simp_all add: linked_def\<close>)
qed

lemma linked_last: "linked cfg v (cl @ [z]) \<Longrightarrow> z \<in> set (succs cfg v)"
  unfolding linked_def by (metis empty_iff insert_iff list.set(1))

lemma linked_closed:
  assumes "linked cfg v l" "P v" "\<And>y x. P y \<Longrightarrow> y \<in> insert v (set l) \<Longrightarrow> x \<in> set (succs cfg y) \<Longrightarrow> x \<in> set l \<Longrightarrow> P x"
    and "x \<in> set l"
  shows "P x"
proof -
  have "\<forall>x \<in> set b. P x" if "l = a @ b" for a b
    using that
  proof (induction b arbitrary: a)
    case (Cons y b)
    then have b: "\<forall>x \<in> set b. P x" by (metis append_Cons append_Nil append_assoc)
    obtain w where w: "w \<in> insert v (set b)" "y \<in> set (succs cfg w)" using assms(1) Cons.prems unfolding linked_def by metis
    have "P w" "w \<in> insert v (set l)" "y \<in> set l" using w(1) b assms(2) Cons.prems by auto
    then show ?case using assms(3) w(2) b by auto
  qed simp
  then show ?thesis using assms(4) by blast
qed

section \<open>The frames of the visit stack\<close>

definition open_ok :: "cfg_t \<Rightarrow> vdata \<Rightarrow> label_t set \<Rightarrow> label_t set \<Rightarrow> label_t list \<Rightarrow> label_t \<Rightarrow> bool" where
  "open_ok cfg D R Q cl v \<longleftrightarrow>
     low D v = 0 \<and> insert v (set cl) \<subseteq> R \<and> linked cfg v cl \<and>
     (\<forall>x \<in> insert v (set cl). \<forall>s \<in> set (succs cfg x). dfn D s \<noteq> 0 \<or> s \<in> Q) \<and>
     (\<forall>x \<in> set cl. low D x \<noteq> 0 \<and>
        (\<forall>s \<in> set (succs cfg x). active D s \<longrightarrow> (\<exists>z \<in> set cl. z \<in> set (succs cfg v) \<and> low D z \<le> dfn D s)))"

definition cycle_ok ::
  "cfg_t \<Rightarrow> vdata \<Rightarrow> label_t \<Rightarrow> label_t set \<Rightarrow> label_t set \<Rightarrow> label_t list \<Rightarrow> label_t set \<Rightarrow> level list \<Rightarrow> bool" where
  "cycle_ok cfg D w R R2 st Q outer \<longleftrightarrow>
     fin D w \<and> w \<notin> R \<and> insert w R \<subseteq> R2 \<and> set st \<inter> R = {} \<and>
     (\<forall>s \<in> set (succs cfg w). (s \<in> R \<or> fin D s) \<and> (dfn D s \<noteq> 0 \<or> s \<in> Q)) \<and>
     (\<exists>l. set l = R \<and> linked cfg w l) \<and>
     (\<forall>(p, R', cs) \<in> set outer. \<forall>x \<in> set (comps_nodes cs). x \<notin> insert w R \<and> (\<forall>s \<in> set (succs cfg x). s \<notin> insert w R))"

fun frames :: "cfg_t \<Rightarrow> vdata \<Rightarrow> visit_args_t list \<Rightarrow> label_t list \<Rightarrow> level list \<Rightarrow> label_t set \<Rightarrow> bool" where
  "frames cfg D [] st Ls Q \<longleftrightarrow> st = [] \<and> (\<exists>cs. Ls = [(TopLevel, node_labels cfg, cs)])"
| "frames cfg D (t # ts) st [] Q \<longleftrightarrow> False"
| "frames cfg D (t # ts) st ((p, R, cs) # Ls) Q \<longleftrightarrow>
    (case vt_type t of
       PushSuccessors \<Rightarrow>
         vt_partition t = p \<and> vt_containing t = cont_of p \<and> owner_succ cfg ts (vt_vertex t) \<and>
         frames cfg D ts st ((p, R, cs) # Ls) (insert (vt_vertex t) Q)
     | StartVisit \<Rightarrow>
         vt_partition t = p \<and> vt_containing t = cont_of p \<and> owner_succ cfg ts (vt_vertex t) \<and>
         (\<exists>cl st'. st = cl @ vt_vertex t # st' \<and> open_ok cfg D R Q cl (vt_vertex t) \<and> frames cfg D ts st' ((p, R, cs) # Ls) Q)
     | ContinueVisit \<Rightarrow>
         (\<exists>i p2 R2 cs2 Ls2. p = InCycle i \<and> vt_containing t = Some i \<and> Ls = (p2, R2, cs2) # Ls2 \<and> vt_partition t = p2 \<and>
            cycle_ok cfg D (vt_vertex t) R R2 st Q Ls \<and> frames cfg D ts st Ls (Q \<union> R)))"

lemma open_ok_low:
  assumes "open_ok cfg D R Q cl v" "x \<in> set cl" "s \<in> set (succs cfg x)" "active D s"
  obtains z where "z \<in> set cl" "z \<in> set (succs cfg v)" "low D z \<le> dfn D s"
  using assms unfolding open_ok_def by blast

lemma open_ok_cong:
  assumes "open_ok cfg D R Q cl v" and lows: "\<And>x. x \<in> insert v (set cl) \<Longrightarrow> low D' x = low D x"
    and nz: "\<And>s. dfn D s \<noteq> 0 \<or> s \<in> Q \<Longrightarrow> dfn D' s \<noteq> 0 \<or> s \<in> Q'"
    and act: "\<And>s. active D' s \<Longrightarrow> (active D s \<and> dfn D' s = dfn D s) \<or> (\<forall>z \<in> set cl. low D z \<le> dfn D' s)"
  shows "open_ok cfg D' R Q' cl v"
proof -
  have L: "\<exists>z \<in> set cl. z \<in> set (succs cfg v) \<and> low D' z \<le> dfn D' s" if x: "x \<in> set cl" "s \<in> set (succs cfg x)" "active D' s" for x s
  proof (cases "active D s \<and> dfn D' s = dfn D s")
    case True
    obtain z where "z \<in> set cl" "z \<in> set (succs cfg v)" "low D z \<le> dfn D s"
      using open_ok_low [OF assms(1) x(1,2)] True by blast
    then show ?thesis using lows True by (intro bexI [of _ z]) auto
  next
    case False
    then have le: "\<forall>z \<in> set cl. low D z \<le> dfn D' s" using act [OF x(3)] by blast
    obtain a z where cl: "cl = a @ [z]" using x(1) by (cases cl rule: rev_cases) auto
    then have "z \<in> set (succs cfg v)" using assms(1) linked_last by (auto simp: open_ok_def)
    then show ?thesis using le cl lows by (intro bexI [of _ z]) auto
  qed
  then show ?thesis using assms(1) nz lows unfolding open_ok_def by auto
qed

lemma cycle_ok_cong:
  assumes "cycle_ok cfg D w R R2 st Q outer" "\<And>s. fin D s \<Longrightarrow> fin D' s"
    and "\<And>s. dfn D s \<noteq> 0 \<or> s \<in> Q \<Longrightarrow> dfn D' s \<noteq> 0 \<or> s \<in> Q'"
  shows "cycle_ok cfg D' w R R2 st Q' outer"
  using assms unfolding cycle_ok_def by blast

lemma frames_cong:
  assumes "frames cfg D ts st Ls Q"
    and "\<And>x. x \<in> set st \<Longrightarrow> low D' x = low D x" "\<And>s. fin D s \<Longrightarrow> fin D' s"
    and "\<And>s. dfn D s \<noteq> 0 \<or> s \<in> Q \<Longrightarrow> dfn D' s \<noteq> 0 \<or> s \<in> Q'"
    and "\<And>s. active D' s \<Longrightarrow> (active D s \<and> dfn D' s = dfn D s) \<or> (\<forall>z \<in> set st. low D z \<le> dfn D' s)"
  shows "frames cfg D' ts st Ls Q'"
  using assms
proof (induction ts arbitrary: st Ls Q Q')
  case (Cons t ts)
  note p = Cons.prems
  obtain pr R cs Ls' where Ls: "Ls = (pr, R, cs) # Ls'" using p(1) by (cases Ls) auto
  show ?case
  proof (cases "vt_type t")
    case PushSuccessors
    have "frames cfg D' ts st Ls (insert (vt_vertex t) Q')"
      using PushSuccessors p by (intro Cons.IH [of st Ls "insert (vt_vertex t) Q"]) (auto simp: Ls)
    then show ?thesis using PushSuccessors p(1) by (simp add: Ls)
  next
    case StartVisit
    then obtain cl st' where st: "st = cl @ vt_vertex t # st'" "open_ok cfg D R Q cl (vt_vertex t)" "frames cfg D ts st' Ls Q"
      using p(1) by (auto simp: Ls)
    have act: "(active D s \<and> dfn D' s = dfn D s) \<or> (\<forall>z \<in> set cl. low D z \<le> dfn D' s)"
      "(active D s \<and> dfn D' s = dfn D s) \<or> (\<forall>z \<in> set st'. low D z \<le> dfn D' s)" if "active D' s" for s
      using p(5) [OF that] by (auto simp: st(1))
    have "open_ok cfg D' R Q' cl (vt_vertex t)"
      by (rule open_ok_cong [OF st(2) _ p(4) act(1)]) (auto simp: st(1) p(2))
    moreover have "frames cfg D' ts st' Ls Q'"
      by (rule Cons.IH [OF st(3) _ p(3,4) act(2)]) (auto simp: st(1) p(2))
    ultimately show ?thesis using StartVisit p(1) st(1) by (auto simp: Ls)
  next
    case ContinueVisit
    then obtain i p2 R2 cs2 Ls2 where c: "pr = InCycle i" "vt_containing t = Some i" "Ls' = (p2, R2, cs2) # Ls2" "vt_partition t = p2"
      "cycle_ok cfg D (vt_vertex t) R R2 st Q Ls'" "frames cfg D ts st Ls' (Q \<union> R)" using p(1) by (auto simp: Ls)
    have "frames cfg D' ts st Ls' (Q' \<union> R)"
      using p(2-5) by (intro Cons.IH [OF c(6)]) auto
    moreover have "cycle_ok cfg D' (vt_vertex t) R R2 st Q' Ls'" by (rule cycle_ok_cong [OF c(5) p(3,4)])
    ultimately show ?thesis using ContinueVisit c by (auto simp: Ls)
  qed
qed auto

lemma frames_drop:
  assumes "frames cfg D ts st Ls Q" "\<And>s. s \<in> Q \<Longrightarrow> dfn D s \<noteq> 0 \<or> s \<in> Q'"
  shows "frames cfg D ts st Ls Q'"
  by (rule frames_cong [OF assms(1)]) (use assms(2) in auto)

text \<open>Below the lowest open vertex of a level there is nothing of the level.\<close>

lemma frames_below:
  assumes "frames cfg D ts st ((p, R, cs) # Ls) Q" "\<And>t. top_task ts = Some t \<Longrightarrow> vt_type t \<noteq> StartVisit"
  shows "set st \<inter> R = {}"
  using assms
proof (induction ts arbitrary: Q)
  case (Cons t ts)
  show ?case
  proof (cases "vt_type t")
    case PushSuccessors
    then show ?thesis using Cons by auto
  next
    case ContinueVisit
    then show ?thesis using Cons.prems by (auto simp: cycle_ok_def)
  qed (use Cons.prems in auto)
qed auto

text \<open>A vertex that stays on the stack when its visit ends joins the closed vertices of its owner.\<close>

lemma frames_absorb:
  assumes "frames cfg D ts st ((p, R, cs) # Ls) Q" "top_task ts = Some t" "vt_type t = StartVisit"
    and v: "v \<in> set (succs cfg (vt_vertex t))" "v \<notin> set st"
    and D': "\<And>x. dfn D' x = dfn D x" "\<And>x. x \<noteq> v \<Longrightarrow> low D' x = low D x"
    and cl: "insert v (set cl) \<subseteq> R" "linked cfg v cl"
      "\<And>x s. x \<in> insert v (set cl) \<Longrightarrow> s \<in> set (succs cfg x) \<Longrightarrow> dfn D s \<noteq> 0"
      "\<And>x. x \<in> insert v (set cl) \<Longrightarrow> low D' x \<noteq> 0"
      "\<And>x s. x \<in> insert v (set cl) \<Longrightarrow> s \<in> set (succs cfg x) \<Longrightarrow> active D s \<Longrightarrow> low D' v \<le> dfn D s"
  shows "frames cfg D' ts (cl @ v # st) ((p, R, cs) # Ls) Q"
  using assms(1,2)
proof (induction ts arbitrary: Q)
  case (Cons t' ts)
  have same: "active D' x = active D x" "fin D' x = fin D x" for x by (simp_all add: active_def fin_def D'(1))
  show ?case
  proof (cases "vt_type t'")
    case PushSuccessors
    then show ?thesis using Cons by simp
  next
    case StartVisit
    then have t': "t' = t" using Cons.prems(2) by simp
    let ?u = "vt_vertex t"
    obtain cl' st' where st: "st = cl' @ ?u # st'" "open_ok cfg D R Q cl' ?u" "frames cfg D ts st' ((p, R, cs) # Ls) Q"
      using Cons.prems(1) StartVisit by (auto simp: t')
    have nv: "v \<notin> set cl'" "v \<noteq> ?u" "v \<notin> set st'" using v(2) st(1) by auto
    have lk: "linked cfg ?u (cl @ v # cl')" using linked_append [OF cl(2) v(1)] st(2) by (auto simp: open_ok_def)
    have L: "\<exists>z \<in> set (cl @ v # cl'). z \<in> set (succs cfg ?u) \<and> low D' z \<le> dfn D' s"
      if x: "x \<in> set (cl @ v # cl')" "s \<in> set (succs cfg x)" "active D' s" for x s
    proof (cases "x \<in> set cl'")
      case True
      then obtain z where "z \<in> set cl'" "z \<in> set (succs cfg ?u)" "low D z \<le> dfn D s"
        using open_ok_low [OF st(2) True x(2)] x(3) same by blast
      moreover from this have "z \<noteq> v" using nv by blast
      ultimately show ?thesis using D' by auto
    next
      case False
      then have "low D' v \<le> dfn D s" using cl(5) x same by auto
      then show ?thesis using v(1) D'(1) by auto
    qed
    have ne: "\<And>x. x \<in> set cl' \<Longrightarrow> x \<noteq> v" using nv(1) by blast
    have "low D' ?u = 0" using st(2) D'(2) nv(2) by (simp add: open_ok_def)
    moreover have "insert ?u (set (cl @ v # cl')) \<subseteq> R" using st(2) cl(1) by (auto simp: open_ok_def)
    moreover have "dfn D' s \<noteq> 0 \<or> s \<in> Q" if "x \<in> insert ?u (set (cl @ v # cl'))" "s \<in> set (succs cfg x)" for x s
      using that st(2) cl(3) [of x s] D'(1) by (auto simp: open_ok_def)
    moreover have "low D' x \<noteq> 0" if "x \<in> set (cl @ v # cl')" for x
      using that st(2) cl(4) [of x] D'(2) [OF ne, of x] by (auto simp: open_ok_def)
    ultimately have "open_ok cfg D' R Q (cl @ v # cl') ?u" using lk L unfolding open_ok_def by blast
    moreover have "frames cfg D' ts st' ((p, R, cs) # Ls) Q"
      using nv(3) by (intro frames_cong [OF st(3)] D'(2)) (auto simp: same D'(1))
    ultimately have "\<exists>cl2 st2. cl @ v # st = cl2 @ ?u # st2 \<and> open_ok cfg D' R Q cl2 ?u \<and> frames cfg D' ts st2 ((p, R, cs) # Ls) Q"
      by (intro exI [of _ "cl @ v # cl'"] exI [of _ st']) (simp add: st(1))
    then show ?thesis using Cons.prems(1) StartVisit by (simp add: t')
  qed (use Cons.prems assms(3) in auto)
qed auto

lemma frames_pushes:
  assumes "frames cfg D ts st ((p, R, cs) # Ls) (Q \<union> set ss)" "\<And>s. s \<in> set ss \<Longrightarrow> owner_succ cfg ts s"
  shows "frames cfg D (map (\<lambda>s. visit_args PushSuccessors s p (cont_of p)) ss @ ts) st ((p, R, cs) # Ls) Q"
  using assms
proof (induction ss arbitrary: Q)
  case (Cons s ss)
  have "frames cfg D (map (\<lambda>s. visit_args PushSuccessors s p (cont_of p)) ss @ ts) st ((p, R, cs) # Ls) (insert s Q)"
    using Cons.prems by (intro Cons.IH) auto
  moreover have "owner_succ cfg (map (\<lambda>s. visit_args PushSuccessors s p (cont_of p)) ss @ ts) s"
    using Cons.prems(2) [of s] by (simp add: owner_succ_def)
  ultimately show ?case by (simp add: visit_args_def)
qed simp

lemma owner_region:
  assumes "frames cfg D ts st ((p, R, cs) # Ls) Q" "owner_succ cfg ts v" "\<not> fin D v" "cfg_ok cfg"
    and "\<And>x s. x \<in> R \<Longrightarrow> s \<in> set (succs cfg x) \<Longrightarrow> s \<in> R \<or> fin D s"
  shows "v \<in> R"
  using assms(1,2)
proof (induction ts arbitrary: Q)
  case Nil
  then show ?case using assms(4) by (auto simp: owner_succ_def cfg_ok_def cfg_shape_def)
next
  case (Cons t ts)
  show ?case
  proof (cases "vt_type t")
    case PushSuccessors
    then show ?thesis using Cons by (auto simp: owner_succ_def)
  next
    case StartVisit
    then have "vt_vertex t \<in> R" using Cons.prems(1) by (auto simp: open_ok_def)
    then show ?thesis using assms(3,5) Cons.prems(2) StartVisit by (auto simp: owner_succ_def)
  next
    case ContinueVisit
    then show ?thesis using assms(3) Cons.prems by (auto simp: owner_succ_def cycle_ok_def)
  qed
qed

section \<open>The invariant\<close>

definition stack_ok :: "cfg_t \<Rightarrow> vdata \<Rightarrow> int \<Rightarrow> label_t list \<Rightarrow> bool" where
  "stack_ok cfg D num st \<longleftrightarrow>
     distinct st \<and> (\<forall>x. x \<in> set st \<longleftrightarrow> active D x) \<and> sorted_wrt (\<lambda>x y. dfn D y < dfn D x) st \<and> 0 \<le> num \<and>
     (\<forall>x. (dfn D x = 0 \<or> active D x \<or> fin D x) \<and> (active D x \<longrightarrow> dfn D x \<le> num) \<and>
          (dfn D x = 0 \<longrightarrow> low D x = 0) \<and> (dfn D x \<noteq> 0 \<longrightarrow> x \<in> node_labels cfg))"

definition potential :: "cfg_t \<Rightarrow> vdata \<Rightarrow> nat" where
  "potential cfg D =
     card {x \<in> node_labels cfg. dfn D x = 0} + card (node_labels cfg) * card {x \<in> node_labels cfg. \<not> fin D x}"

definition low_ok :: "cfg_t \<Rightarrow> vdata \<Rightarrow> level list \<Rightarrow> bool" where
  "low_ok cfg D Ls \<longleftrightarrow>
    (\<forall>x. active D x \<longrightarrow> low D x \<noteq> 0 \<longrightarrow>
      (\<exists>y. active D y \<and> low D x = dfn D y \<and> dfn D y < dfn D x \<and> (\<exists>z. y \<in> set (succs cfg z)) \<and>
           (\<forall>(p, R, cs) \<in> set Ls. x \<in> R \<longrightarrow> y \<in> R)))"

definition open_heads :: "visit_args_t list \<Rightarrow> label_t set" where
  "open_heads vis = vt_vertex ` {t \<in> set vis. vt_type t = ContinueVisit}"

lemma open_heads_simps [simp]:
  "open_heads [] = {}"
  "open_heads (t # ts) = (if vt_type t = ContinueVisit then insert (vt_vertex t) (open_heads ts) else open_heads ts)"
  "open_heads (us @ ts) = open_heads us \<union> open_heads ts"
  by (auto simp: open_heads_def)

lemma open_heads_pushes [simp]: "open_heads (map (\<lambda>s. visit_args PushSuccessors s p c) ss) = {}"
  by (auto simp: open_heads_def visit_args_def)

definition level_ok :: "cfg_t \<Rightarrow> vdata \<Rightarrow> level \<Rightarrow> bool" where
  "level_ok cfg D = (\<lambda>(p, R, cs).
     R \<subseteq> node_labels cfg \<and> (\<forall>x \<in> R. \<forall>s \<in> set (succs cfg x). s \<in> R \<or> fin D s) \<and> comps_ok cfg cs \<and>
     set (comps_nodes cs) \<subseteq> R \<and> (\<forall>x \<in> set (comps_nodes cs). fin D x \<and> (\<forall>s \<in> set (succs cfg x). fin D s)))"

definition levels_ok :: "cfg_t \<Rightarrow> vdata \<Rightarrow> level list \<Rightarrow> visit_args_t list \<Rightarrow> bool" where
  "levels_ok cfg D Ls vis \<longleftrightarrow>
     (\<forall>L \<in> set Ls. level_ok cfg D L) \<and>
     (\<forall>x. fin D x \<longrightarrow> x \<in> open_heads vis \<or> (\<exists>L \<in> set Ls. x \<in> set (comps_nodes (snd (snd L)))))"

definition core :: "cfg_t \<Rightarrow> vdata \<Rightarrow> int \<Rightarrow> label_t list \<Rightarrow> visit_args_t list \<Rightarrow> level list \<Rightarrow> bool" where
  "core cfg D num st vis Ls \<longleftrightarrow>
     stack_ok cfg D num st \<and> low_ok cfg D Ls \<and> levels_ok cfg D Ls vis \<and> frames cfg D vis st Ls {} \<and>
     num + int (potential cfg D) \<le> int (card (node_labels cfg) * (card (node_labels cfg) + 1))"

definition small_graph :: "cfg_t \<Rightarrow> bool" where
  "small_graph cfg \<longleftrightarrow> int (card (node_labels cfg) * (card (node_labels cfg) + 1)) < DFN_INF"

lemma finite_labels [simp]: "finite (node_labels cfg)"
  by (simp add: node_labels_def)

lemma succs_in_labels: "cfg_ok cfg \<Longrightarrow> s \<in> set (succs cfg x) \<Longrightarrow> s \<in> node_labels cfg"
  using cfg_edge_labels [of cfg x s] by (simp add: cfg_edges_def)

lemma core_num: "core cfg D num st vis Ls \<Longrightarrow> small_graph cfg \<Longrightarrow> num < DFN_INF"
  unfolding core_def small_graph_def by linarith

lemma status: "stack_ok cfg D num st \<Longrightarrow> dfn D x \<noteq> 0 \<Longrightarrow> active D x \<or> fin D x"
  by (auto simp: stack_ok_def)

lemma DFN_INF_pos [simp]: "0 < DFN_INF" "DFN_INF \<noteq> 0" "0 \<noteq> DFN_INF"
  by (simp_all add: DFN_INF_def)

lemma level_ok_mono: "level_ok cfg D L \<Longrightarrow> (\<And>x. fin D x \<Longrightarrow> fin D' x) \<Longrightarrow> level_ok cfg D' L"
  unfolding level_ok_def by (cases L) auto

lemma core_level:
  assumes "core cfg D num st vis ((p, R, cs) # Ls)"
  shows "R \<subseteq> node_labels cfg" "x \<in> R \<Longrightarrow> s \<in> set (succs cfg x) \<Longrightarrow> s \<in> R \<or> fin D s" "comps_ok cfg cs"
    "set (comps_nodes cs) \<subseteq> R" "x \<in> set (comps_nodes cs) \<Longrightarrow> fin D x" "x \<in> set (comps_nodes cs) \<Longrightarrow> s \<in> set (succs cfg x) \<Longrightarrow> fin D s"
  using assms by (auto simp: core_def levels_ok_def level_ok_def)

section \<open>Pushing the successors of a vertex\<close>

lemma push_skip:
  assumes "core cfg D num st (t # ts) Ls" "vt_type t = PushSuccessors" "dfn D (vt_vertex t) \<noteq> 0"
  shows "core cfg D num st ts Ls"
proof -
  have f: "frames cfg D (t # ts) st Ls {}" using assms(1) by (simp add: core_def)
  then obtain p R cs Ls' where Ls: "Ls = (p, R, cs) # Ls'" by (cases Ls) auto
  have "frames cfg D ts st Ls {vt_vertex t}" using f assms(2) by (simp add: Ls)
  then have "frames cfg D ts st Ls {}" by (rule frames_drop) (use assms(3) in auto)
  moreover have "open_heads (t # ts) = open_heads ts" using assms(2) by (auto simp: open_heads_def)
  ultimately show ?thesis using assms(1) by (simp add: core_def levels_ok_def)
qed

lemma push_new:
  assumes c: "core cfg D num st (t # ts) Ls" and t: "vt_type t = PushSuccessors" "vt_vertex t = v"
    and z: "dfn D v = 0" and C: "cfg_ok cfg" and small: "small_graph cfg"
    and D': "D' = D(v := (D v)\<lparr>vd_dfn := num + 1\<rparr>)" and ss: "ss = filter (\<lambda>s. dfn D' s = 0) (succs cfg v)"
  shows "core cfg D' (num + 1) (v # st)
      (map (\<lambda>s. visit_args PushSuccessors s (vt_partition t) (vt_containing t)) ss @
       visit_args StartVisit v (vt_partition t) (vt_containing t) # ts) Ls"
    "potential cfg D' < potential cfg D" "v \<in> node_labels cfg"
proof -
  have f: "frames cfg D (t # ts) st Ls {}" and S: "stack_ok cfg D num st" using c by (auto simp: core_def)
  then obtain p R cs Ls' where Ls: "Ls = (p, R, cs) # Ls'" by (cases Ls) auto
  have tp: "vt_partition t = p" "vt_containing t = cont_of p" "owner_succ cfg ts v" and f1: "frames cfg D ts st Ls {v}"
    using f t by (auto simp: Ls)
  have nfin: "\<not> fin D v" "\<not> active D v" using z by (auto simp: fin_def active_def)
  have vR: "v \<in> R" using owner_region [OF f1 [unfolded Ls] tp(3) nfin(1) C] core_level(2) [OF c [unfolded Ls]] by blast
  then show vV: "v \<in> node_labels cfg" using core_level(1) [OF c [unfolded Ls]] by blast
  have num0: "0 \<le> num" using S by (simp add: stack_ok_def)
  have dfn': "dfn D' x = (if x = v then num + 1 else dfn D x)" and low': "low D' x = low D x" for x
    by (simp_all add: D' dfn_def low_def)
  have zero: "{x \<in> node_labels cfg. dfn D' x = 0} = {x \<in> node_labels cfg. dfn D x = 0} - {v}" using num0 by (auto simp: dfn')
  have pos: "v \<in> {x \<in> node_labels cfg. dfn D x = 0}" using vV z by simp
  have cardz: "card {x \<in> node_labels cfg. dfn D' x = 0} + 1 = card {x \<in> node_labels cfg. dfn D x = 0}"
    unfolding zero using card_Suc_Diff1 [OF _ pos] by simp
  have numb: "num + 1 < DFN_INF"
  proof -
    have "card {x \<in> node_labels cfg. dfn D x = 0} \<ge> 1" using cardz by linarith
    then have "1 \<le> potential cfg D" by (simp add: potential_def)
    then show ?thesis using c small unfolding core_def small_graph_def by linarith
  qed
  have act': "active D' x \<longleftrightarrow> active D x \<or> x = v" and fin': "fin D' x \<longleftrightarrow> fin D x" for x
    using num0 numb nfin by (auto simp: active_def fin_def dfn')
  have pot: "potential cfg D' + 1 = potential cfg D" using cardz by (simp add: potential_def fin')
  then show "potential cfg D' < potential cfg D" by simp
  have mem: "x \<in> set st \<longleftrightarrow> active D x" for x using S by (simp add: stack_ok_def)
  have nv: "v \<notin> set st" using mem nfin by simp
  have lowst: "low D x \<le> num" if "x \<in> set st" for x
  proof (cases "low D x = 0")
    case False
    have "active D x" using that mem by simp
    then obtain y where "active D y" "low D x = dfn D y" using c False unfolding core_def low_ok_def by blast
    then show ?thesis using S by (auto simp: stack_ok_def)
  qed (use num0 in simp)
  have "sorted_wrt (\<lambda>x y. dfn D' y < dfn D' x) (v # st)"
  proof -
    have "sorted_wrt (\<lambda>x y. dfn D' y < dfn D' x) st"
      by (rule sorted_wrt_mono_rel [of _ "\<lambda>x y. dfn D y < dfn D x"]) (use S nv in \<open>auto simp: dfn' stack_ok_def\<close>)
    moreover have "dfn D' y < dfn D' v" if "y \<in> set st" for y
    proof -
      have "dfn D y \<le> num" using that S by (auto simp: stack_ok_def)
      then show ?thesis using that nv by (auto simp: dfn')
    qed
    ultimately show ?thesis by simp
  qed
  then have 1: "stack_ok cfg D' (num + 1) (v # st)"
    using S nv vV num0 mem unfolding stack_ok_def by (auto simp: act' fin' dfn' low')
  have 2: "low_ok cfg D' Ls"
    unfolding low_ok_def
  proof (intro allI impI)
    fix x
    assume x: "active D' x" "low D' x \<noteq> 0"
    then have "x \<noteq> v" using S z by (auto simp: low' stack_ok_def)
    then have "active D x" using x act' by blast
    then obtain y where y: "active D y" "low D x = dfn D y" "dfn D y < dfn D x" "\<exists>z. y \<in> set (succs cfg z)"
      "\<forall>(p, R, cs) \<in> set Ls. x \<in> R \<longrightarrow> y \<in> R" using c x(2) unfolding core_def low_ok_def low' by blast
    moreover have "y \<noteq> v" using y(1) nfin(2) by blast
    ultimately show "\<exists>y. active D' y \<and> low D' x = dfn D' y \<and> dfn D' y < dfn D' x \<and> (\<exists>z. y \<in> set (succs cfg z)) \<and>
        (\<forall>(p, R, cs) \<in> set Ls. x \<in> R \<longrightarrow> y \<in> R)"
      using \<open>x \<noteq> v\<close> by (intro exI [of _ y]) (simp add: act' low' dfn')
  qed
  let ?push = "map (\<lambda>s. visit_args PushSuccessors s p (cont_of p)) ss"
  have "open_heads (?push @ visit_args StartVisit v p (cont_of p) # ts) = open_heads (t # ts)"
    using t(1) by (auto simp: open_heads_def visit_args_def)
  then have 3: "levels_ok cfg D' Ls (?push @ visit_args StartVisit v p (cont_of p) # ts)"
    using c level_ok_mono [of cfg D _ D'] fin' by (auto simp: core_def levels_ok_def)
  have ft: "frames cfg D' ts st Ls (set ss)"
  proof (rule frames_cong [OF f1])
    fix s
    assume "active D' s"
    then show "(active D s \<and> dfn D' s = dfn D s) \<or> (\<forall>z \<in> set st. low D z \<le> dfn D' s)"
      using lowst nfin(2) by (auto simp: act' dfn' intro: order_trans [of _ num])
  qed (use num0 in \<open>auto simp: low' fin' dfn'\<close>)
  have "low D v = 0" using S z by (simp add: stack_ok_def)
  then have "open_ok cfg D' R (set ss) [] v" using vR by (auto simp: open_ok_def low' ss)
  then have "\<exists>cl st'. v # st = cl @ v # st' \<and> open_ok cfg D' R (set ss) cl v \<and> frames cfg D' ts st' Ls (set ss)"
    using ft by (intro exI [of _ "[]"] exI [of _ st]) simp
  then have "frames cfg D' (visit_args StartVisit v p (cont_of p) # ts) (v # st) Ls (set ss)"
    using tp(3) by (simp add: Ls visit_args_def)
  then have 4: "frames cfg D' (?push @ visit_args StartVisit v p (cont_of p) # ts) (v # st) Ls {}"
    unfolding Ls by (intro frames_pushes) (auto simp: ss owner_succ_def visit_args_def)
  show "core cfg D' (num + 1) (v # st)
      (map (\<lambda>s. visit_args PushSuccessors s (vt_partition t) (vt_containing t)) ss @
       visit_args StartVisit v (vt_partition t) (vt_containing t) # ts) Ls"
    using 1 2 3 4 pot c unfolding tp core_def by simp
qed

section \<open>The end of the visit of a vertex\<close>

definition link_of :: "vdata \<Rightarrow> label_t \<Rightarrow> int" where
  "link_of D s = (if low D s \<noteq> 0 \<and> \<not> fin D s then low D s else dfn D s)"

lemma min_dfn_link: "min_dfn (D s) = link_of D s"
  by (simp add: min_dfn_def link_of_def low_def fin_def dfn_def)

lemma lowest_head_spec:
  assumes "lowest_head b h0 ss = (h, lp)"
  shows "h \<le> h0 \<and> (\<forall>s \<in> set ss. h \<le> link_of (wb_data b) s) \<and> (h = h0 \<or> (\<exists>s \<in> set ss. h = link_of (wb_data b) s)) \<and>
    (lp \<longleftrightarrow> (\<exists>s \<in> set ss. link_of (wb_data b) s \<le> h0))"
proof -
  let ?f = "\<lambda>s (h, is_loop). if min_dfn (wb_data b s) \<le> h then (min_dfn (wb_data b s), True) else (h, is_loop)"
  have "h \<le> h0 \<and> (\<forall>s \<in> set ss. h \<le> link_of (wb_data b) s) \<and> (h = h0 \<or> (\<exists>s \<in> set ss. h = link_of (wb_data b) s)) \<and>
    (lp \<longleftrightarrow> l0 \<or> (\<exists>s \<in> set ss. link_of (wb_data b) s \<le> h0))" if "fold ?f ss (h0, l0) = (h, lp)" for l0
    using that
  proof (induction ss arbitrary: h0 l0)
    case (Cons s ss)
    show ?case
    proof (cases "link_of (wb_data b) s \<le> h0")
      case True
      then have "fold ?f ss (link_of (wb_data b) s, True) = (h, lp)" using Cons.prems by (simp add: min_dfn_link)
      note ih = Cons.IH [OF this]
      then have "h \<le> h0" using True by linarith
      moreover have "lp" using ih by simp
      ultimately show ?thesis using ih True by simp
    next
      case False
      then have "fold ?f ss (h0, l0) = (h, lp)" using Cons.prems by (simp add: min_dfn_link)
      note ih = Cons.IH [OF this]
      then have "h \<le> link_of (wb_data b) s" using False by linarith
      then show ?thesis using ih False by auto
    qed
  qed simp
  then show ?thesis using assms unfolding lowest_head_def by blast
qed

lemma link_le_dfn: "low_ok cfg D Ls \<Longrightarrow> active D s \<Longrightarrow> link_of D s \<le> dfn D s"
proof -
  assume a: "low_ok cfg D Ls" "active D s"
  show ?thesis
  proof (cases "low D s = 0")
    case False
    then obtain y where "low D s = dfn D y" "dfn D y < dfn D s" using a unfolding low_ok_def by blast
    then show ?thesis by (simp add: link_of_def)
  qed (simp add: link_of_def)
qed

lemma start_frame:
  assumes "core cfg D num st (t # ts) Ls" "vt_type t = StartVisit" "vt_vertex t = v"
  obtains p R cs Ls' cl st' where "Ls = (p, R, cs) # Ls'" "vt_partition t = p" "vt_containing t = cont_of p" "owner_succ cfg ts v"
    "st = cl @ v # st'" "open_ok cfg D R {} cl v" "frames cfg D ts st' Ls {}"
    "active D v" "\<And>x. x \<in> set cl \<Longrightarrow> active D x \<and> dfn D v < dfn D x" "\<And>x. x \<in> set st' \<Longrightarrow> active D x \<and> dfn D x < dfn D v"
    "v \<notin> set cl" "v \<notin> set st'" "set cl \<inter> set st' = {}"
proof -
  have f: "frames cfg D (t # ts) st Ls {}" and S: "stack_ok cfg D num st" using assms(1) by (auto simp: core_def)
  then obtain p R cs Ls' where Ls: "Ls = (p, R, cs) # Ls'" by (cases Ls) auto
  obtain cl st' where st: "st = cl @ v # st'" "open_ok cfg D R {} cl v" "frames cfg D ts st' Ls {}"
    using f assms(2,3) by (auto simp: Ls)
  show thesis
  proof (rule that [OF Ls _ _ _ st])
    show "active D v" "\<And>x. x \<in> set cl \<Longrightarrow> active D x \<and> dfn D v < dfn D x" "\<And>x. x \<in> set st' \<Longrightarrow> active D x \<and> dfn D x < dfn D v"
      "v \<notin> set cl" "v \<notin> set st'" "set cl \<inter> set st' = {}"
      using S by (auto simp: stack_ok_def st(1) sorted_wrt_append)
  qed (use f assms(2,3) in \<open>auto simp: Ls\<close>)
qed

lemma start_closes:
  assumes c: "core cfg D num st (t # ts) Ls" and t: "vt_type t = StartVisit" "vt_vertex t = v"
    and C: "cfg_ok cfg"
    and h: "h < dfn D v" "\<And>s. s \<in> set (succs cfg v) \<Longrightarrow> h \<le> link_of D s" "s0 \<in> set (succs cfg v)" "h = link_of D s0"
    and D': "D' = D(v := (D v)\<lparr>vd_head_dfn := h\<rparr>)"
  shows "core cfg D' num st ts Ls" "potential cfg D' = potential cfg D" "ts \<noteq> []"
proof -
  obtain p R cs Ls' cl st' where Ls: "Ls = (p, R, cs) # Ls'" and own: "owner_succ cfg ts v"
    and st: "st = cl @ v # st'" and op: "open_ok cfg D R {} cl v" and f: "frames cfg D ts st' Ls {}"
    and av: "active D v" and acl: "\<And>x. x \<in> set cl \<Longrightarrow> active D x \<and> dfn D v < dfn D x"
    and ast: "\<And>x. x \<in> set st' \<Longrightarrow> active D x \<and> dfn D x < dfn D v" and nv: "v \<notin> set cl" "v \<notin> set st'"
    by (rule start_frame [OF c t]) blast
  have S: "stack_ok cfg D num st" and LO: "low_ok cfg D Ls" using c by (auto simp: core_def)
  have mem: "x \<in> set st \<longleftrightarrow> active D x" for x using S by (simp add: stack_ok_def)
  have dfn': "dfn D' x = dfn D x" and low': "low D' x = (if x = v then h else low D x)" for x
    by (simp_all add: D' dfn_def low_def)
  have same: "active D' x = active D x" "fin D' x = fin D x" for x by (simp_all add: active_def fin_def dfn')
  show pot: "potential cfg D' = potential cfg D" by (simp add: potential_def dfn' same)
  have vR: "v \<in> R" "low D v = 0" and nz: "\<And>x s. x \<in> insert v (set cl) \<Longrightarrow> s \<in> set (succs cfg x) \<Longrightarrow> dfn D s \<noteq> 0"
    using op by (auto simp: open_ok_def)
  have "\<not> fin D s0"
  proof
    assume "fin D s0"
    then have "h = DFN_INF" using h(4) by (simp add: link_of_def fin_def)
    then show False using h(1) av by (simp add: active_def)
  qed
  then have as0: "active D s0" using status [OF S nz [of v s0]] h(3) by blast
  have s0R: "s0 \<in> R" using core_level(2) [OF c [unfolded Ls] vR(1) h(3)] \<open>\<not> fin D s0\<close> by blast
  text \<open>the vertex that the link points to\<close>
  have "\<exists>y. active D y \<and> h = dfn D y \<and> (\<exists>z. y \<in> set (succs cfg z)) \<and> (\<forall>(p, R, cs) \<in> set Ls. v \<in> R \<longrightarrow> y \<in> R)"
  proof (cases "low D s0 = 0")
    case True
    then have "h = dfn D s0" using h(4) by (simp add: link_of_def)
    moreover have "\<forall>(p, R, cs) \<in> set Ls. v \<in> R \<longrightarrow> s0 \<in> R"
      using c h(3) \<open>\<not> fin D s0\<close> unfolding core_def levels_ok_def level_ok_def by fastforce
    ultimately show ?thesis using as0 h(3) by blast
  next
    case False
    then obtain y where y: "active D y" "low D s0 = dfn D y" "\<exists>z. y \<in> set (succs cfg z)" "\<forall>(p, R, cs) \<in> set Ls. s0 \<in> R \<longrightarrow> y \<in> R"
      using LO as0 unfolding low_ok_def by blast
    have "h = dfn D y" using h(4) y(2) False \<open>\<not> fin D s0\<close> by (simp add: link_of_def)
    moreover have "\<forall>(p, R, cs) \<in> set Ls. v \<in> R \<longrightarrow> y \<in> R"
      using c h(3) \<open>\<not> fin D s0\<close> y(4) unfolding core_def levels_ok_def level_ok_def by fastforce
    ultimately show ?thesis using y by blast
  qed
  then obtain y where y: "active D y" "h = dfn D y" "\<exists>z. y \<in> set (succs cfg z)" "\<forall>(p, R, cs) \<in> set Ls. v \<in> R \<longrightarrow> y \<in> R" by blast
  have yR: "y \<in> R" using y(4) vR(1) by (auto simp: Ls)
  have "y \<in> set st'" using mem [of y] y(1,2) h(1) acl by (force simp: st)
  then have "\<exists>u. top_task ts = Some u \<and> vt_type u = StartVisit"
    using frames_below [OF f [unfolded Ls]] yR by blast
  then obtain u where u: "top_task ts = Some u" "vt_type u = StartVisit" by blast
  then show "ts \<noteq> []" by auto
  have hpos: "h \<noteq> 0" using y(1,2) by (simp add: active_def)
  have "frames cfg D' ts (cl @ v # st') ((p, R, cs) # Ls') {}"
  proof (rule frames_absorb [OF f [unfolded Ls] u])
    show "v \<in> set (succs cfg (vt_vertex u))" using own u by (simp add: owner_succ_def)
    show "insert v (set cl) \<subseteq> R" "linked cfg v cl" using op by (auto simp: open_ok_def)
    show "low D' x \<noteq> 0" if "x \<in> insert v (set cl)" for x using that op hpos by (auto simp: low' open_ok_def)
    show "low D' v \<le> dfn D s" if x: "x \<in> insert v (set cl)" "s \<in> set (succs cfg x)" "active D s" for x s
    proof (cases "x = v")
      case True
      then show ?thesis using h(2) [of s] x link_le_dfn [OF LO x(3)] by (simp add: low')
    next
      case False
      then obtain z where z: "z \<in> set cl" "z \<in> set (succs cfg v)" "low D z \<le> dfn D s"
        using open_ok_low [OF op _ x(2,3)] x(1) by blast
      have "link_of D z = low D z" using z(1) op acl [OF z(1)] by (auto simp: link_of_def open_ok_def active_def fin_def)
      then show ?thesis using h(2) [OF z(2)] z(3) by (simp add: low')
    qed
  qed (use nv nz low' dfn' in auto)
  then have 4: "frames cfg D' ts st Ls {}" by (simp add: st Ls)
  have 2: "low_ok cfg D' Ls"
    unfolding low_ok_def same dfn'
  proof (intro allI impI)
    fix x
    assume x: "active D x" "low D' x \<noteq> 0"
    show "\<exists>y. active D y \<and> low D' x = dfn D y \<and> dfn D y < dfn D x \<and> (\<exists>z. y \<in> set (succs cfg z)) \<and>
        (\<forall>(p, R, cs) \<in> set Ls. x \<in> R \<longrightarrow> y \<in> R)"
    proof (cases "x = v")
      case True
      then show ?thesis using y h(1) by (intro exI [of _ y]) (simp add: low')
    next
      case False
      then show ?thesis using LO x unfolding low_ok_def low' by simp
    qed
  qed
  have "open_heads (t # ts) = open_heads ts" using t(1) by (auto simp: open_heads_def)
  then have 3: "levels_ok cfg D' Ls ts" using c level_ok_mono [of cfg D _ D'] same by (auto simp: core_def levels_ok_def)
  have 1: "stack_ok cfg D' num st" using S av unfolding stack_ok_def by (auto simp: same dfn' low' active_def)
  show "core cfg D' num st ts Ls" using 1 2 3 4 pot c unfolding core_def by simp
qed

lemma frames_head:
  "frames cfg D ts st ((p, R, cs) # Ls) Q \<Longrightarrow> frames cfg D ts st ((p, R, cs') # Ls) Q"
proof (induction ts arbitrary: st Q)
  case (Cons t ts)
  then show ?case by (cases "vt_type t") auto
qed auto

lemma frames_heads_outside:
  "frames cfg D ts st ((p, R, cs) # Ls) Q \<Longrightarrow> x \<in> open_heads ts \<Longrightarrow> x \<notin> R"
proof (induction ts arbitrary: st p R cs Ls Q)
  case (Cons t ts)
  show ?case
  proof (cases "vt_type t")
    case ContinueVisit
    then obtain p2 R2 cs2 Ls2 Q2 where f: "frames cfg D ts st ((p2, R2, cs2) # Ls2) Q2" "R \<subseteq> R2" "vt_vertex t \<notin> R"
      using Cons.prems(1) by (auto simp: cycle_ok_def)
    from Cons.prems(2) consider "x = vt_vertex t" | "x \<in> open_heads ts" by (auto simp: open_heads_def)
    then show ?thesis using f Cons.IH [OF f(1)] by cases auto
  qed (use Cons in \<open>auto simp: open_heads_def\<close>)
qed (simp add: open_heads_def)

lemma start_places:
  assumes c: "core cfg D num st (t # ts) ((p, R, cs) # Ls)" and t: "vt_type t = StartVisit" "vt_vertex t = v"
    and h: "\<And>s. s \<in> set (succs cfg v) \<Longrightarrow> dfn D v < link_of D s"
    and D': "D' = D(v := (D v)\<lparr>vd_dfn := DFN_INF, vd_head_dfn := h\<rparr>)"
  shows "core cfg D' num (tl st) ts ((p, R, Vertex v # cs) # Ls)" "potential cfg D' < potential cfg D" "st \<noteq> []" "hd st = v"
proof -
  obtain cl st' where own: "owner_succ cfg ts v"
    and st: "st = cl @ v # st'" and op: "open_ok cfg D R {} cl v" and f: "frames cfg D ts st' ((p, R, cs) # Ls) {}"
    and av: "active D v" and acl: "\<And>x. x \<in> set cl \<Longrightarrow> active D x \<and> dfn D v < dfn D x"
    and ast: "\<And>x. x \<in> set st' \<Longrightarrow> active D x \<and> dfn D x < dfn D v" and nv: "v \<notin> set cl" "v \<notin> set st'"
    by (rule start_frame [OF c t]) blast
  have S: "stack_ok cfg D num st" and LO: "low_ok cfg D ((p, R, cs) # Ls)" using c by (auto simp: core_def)
  have mem: "x \<in> set st \<longleftrightarrow> active D x" for x using S by (simp add: stack_ok_def)
  have vR: "v \<in> R" "low D v = 0" and nz: "\<And>s. s \<in> set (succs cfg v) \<Longrightarrow> dfn D s \<noteq> 0" using op by (auto simp: open_ok_def)
  have cl: "cl = []"
  proof (rule ccontr)
    assume "cl \<noteq> []"
    then obtain a z where z: "cl = a @ [z]" by (cases cl rule: rev_cases) auto
    then have zs: "z \<in> set (succs cfg v)" "low D z \<noteq> 0" using op linked_last by (auto simp: open_ok_def)
    have az: "active D z" using acl z by simp
    then obtain y where y: "active D y" "low D z = dfn D y" "dfn D y < dfn D z" using LO zs(2) unfolding low_ok_def by blast
    have "dfn D z \<le> dfn D x" if "x \<in> set cl" for x using that S by (auto simp: stack_ok_def st z sorted_wrt_append)
    then have "y \<notin> set cl" using y(3) by fastforce
    then have "dfn D y \<le> dfn D v" using mem [of y] y(1) ast by (fastforce simp: st)
    moreover have "link_of D z = dfn D y" using zs(2) y(2) az by (simp add: link_of_def fin_def active_def)
    ultimately show False using h [OF zs(1)] by simp
  qed
  have sfin: "fin D s" if s: "s \<in> set (succs cfg v)" for s
  proof (rule ccontr)
    assume "\<not> fin D s"
    then have a: "active D s" using status [OF S nz [OF s]] by blast
    then have "dfn D s \<le> dfn D v" using mem [of s] ast by (fastforce simp: st cl)
    then show False using h [OF s] link_le_dfn [OF LO a] by linarith
  qed
  have dfn': "dfn D' x = (if x = v then DFN_INF else dfn D x)" and low': "low D' x = (if x = v then h else low D x)" for x
    by (simp_all add: D' dfn_def low_def)
  have nfv: "\<not> fin D v" using av by (simp add: active_def fin_def)
  have act': "active D' x \<longleftrightarrow> active D x \<and> x \<noteq> v" and fin': "fin D' x \<longleftrightarrow> fin D x \<or> x = v" for x
    by (auto simp: active_def fin_def dfn')
  have vV: "v \<in> node_labels cfg" using core_level(1) [OF c] vR by blast
  have zero: "{x \<in> node_labels cfg. dfn D' x = 0} = {x \<in> node_labels cfg. dfn D x = 0}" using av by (auto simp: dfn' active_def)
  have "card {x \<in> node_labels cfg. \<not> fin D' x} < card {x \<in> node_labels cfg. \<not> fin D x}"
    using vV nfv by (intro psubset_card_mono) (auto simp: fin')
  moreover have "card (node_labels cfg) > 0" using vV by (auto simp: card_gt_0_iff)
  ultimately show pot: "potential cfg D' < potential cfg D" by (simp add: potential_def zero)
  show "st \<noteq> []" "hd st = v" by (simp_all add: st cl)
  have 1: "stack_ok cfg D' num st'"
  proof -
    have "sorted_wrt (\<lambda>x y. dfn D' y < dfn D' x) st'"
      by (rule sorted_wrt_mono_rel [of _ "\<lambda>x y. dfn D y < dfn D x"]) (use S nv in \<open>auto simp: dfn' stack_ok_def st cl\<close>)
    moreover have "x \<in> set st' \<longleftrightarrow> active D' x" for x using mem [of x] nv by (auto simp: act' st cl)
    ultimately show ?thesis using S vV unfolding stack_ok_def by (auto simp: act' fin' dfn' low' st)
  qed
  have 2: "low_ok cfg D' ((p, R, Vertex v # cs) # Ls)"
    unfolding low_ok_def
  proof (intro allI impI)
    fix x
    assume x: "active D' x" "low D' x \<noteq> 0"
    then have xv: "x \<noteq> v" "active D x" "low D x \<noteq> 0" by (auto simp: act' low')
    then obtain y where y: "active D y" "low D x = dfn D y" "dfn D y < dfn D x" "\<exists>z. y \<in> set (succs cfg z)"
      "\<forall>(p, R, cs) \<in> set ((p, R, cs) # Ls). x \<in> R \<longrightarrow> y \<in> R" using LO unfolding low_ok_def by blast
    have "dfn D x < dfn D v" using mem [of x] ast xv by (auto simp: st cl)
    then have "y \<noteq> v" using y(3) by auto
    then show "\<exists>y. active D' y \<and> low D' x = dfn D' y \<and> dfn D' y < dfn D' x \<and> (\<exists>z. y \<in> set (succs cfg z)) \<and>
        (\<forall>(p, R, cs) \<in> set ((p, R, Vertex v # cs) # Ls). x \<in> R \<longrightarrow> y \<in> R)"
      using y xv by (intro exI [of _ y]) (simp add: act' low' dfn')
  qed
  have hd: "open_heads (t # ts) = open_heads ts" using t(1) by (auto simp: open_heads_def)
  have "level_ok cfg D' (p, R, Vertex v # cs)"
  proof -
    have "comps_ok cfg (Vertex v # cs)"
      using core_level(3,5,6) [OF c] sfin nfv by (auto simp: no_edge_back_def)
    then show ?thesis using core_level [OF c] vR sfin by (auto simp: level_ok_def fin')
  qed
  moreover have "level_ok cfg D' L" if "L \<in> set Ls" for L
    using that c by (intro level_ok_mono [of cfg D L D']) (auto simp: core_def levels_ok_def fin')
  moreover have "x \<in> open_heads ts \<or> (\<exists>L \<in> set ((p, R, Vertex v # cs) # Ls). x \<in> set (comps_nodes (snd (snd L))))" if "fin D' x" for x
    using that c hd by (auto simp: core_def levels_ok_def fin')
  ultimately have 3: "levels_ok cfg D' ((p, R, Vertex v # cs) # Ls) ts" unfolding levels_ok_def by auto
  have "frames cfg D' ts st' ((p, R, cs) # Ls) {}"
    by (rule frames_cong [OF f]) (use nv in \<open>auto simp: low' fin' dfn' act'\<close>)
  then have 4: "frames cfg D' ts st' ((p, R, Vertex v # cs) # Ls) {}" by (rule frames_head)
  show "core cfg D' num (tl st) ts ((p, R, Vertex v # cs) # Ls)"
    using 1 2 3 4 pot c unfolding core_def by (simp add: st cl)
qed

lemma start_loops:
  assumes c: "core cfg D num st (t # ts) ((p, R, cs) # Ls)" and t: "vt_type t = StartVisit" "vt_vertex t = v"
    and h: "\<And>s. s \<in> set (succs cfg v) \<Longrightarrow> dfn D v \<le> link_of D s"
    and cl: "cl = takeWhile (\<lambda>e. e \<noteq> v) st"
    and D': "\<And>x. dfn D' x = (if x = v then DFN_INF else if x \<in> set cl then 0 else dfn D x)"
      "\<And>x. x \<in> set cl \<Longrightarrow> low D' x = 0" "\<And>x. x \<noteq> v \<Longrightarrow> x \<notin> set cl \<Longrightarrow> low D' x = low D x"
    and ss: "ss = filter (\<lambda>s. dfn D' s = 0) (succs cfg v)"
  shows "core cfg D' num (tl (dropWhile (\<lambda>e. e \<noteq> v) st))
      (map (\<lambda>s. visit_args PushSuccessors s (InCycle i) (Some i)) ss @ visit_args ContinueVisit v p (Some i) # ts)
      ((InCycle i, set cl, []) # (p, R, cs) # Ls)" "potential cfg D' < potential cfg D" "v \<in> set st"
proof -
  obtain cl' st' where own: "owner_succ cfg ts v"
    and st0: "st = cl' @ v # st'" and op0: "open_ok cfg D R {} cl' v" and f: "frames cfg D ts st' ((p, R, cs) # Ls) {}"
    and av: "active D v" and acl0: "\<And>x. x \<in> set cl' \<Longrightarrow> active D x \<and> dfn D v < dfn D x"
    and ast: "\<And>x. x \<in> set st' \<Longrightarrow> active D x \<and> dfn D x < dfn D v" and nv0: "v \<notin> set cl'" "v \<notin> set st'" and dj0: "set cl' \<inter> set st' = {}"
    by (rule start_frame [OF c t]) blast
  have cl': "cl' = cl" and rest: "dropWhile (\<lambda>e. e \<noteq> v) st = v # st'"
    using nv0(1) by (auto simp: cl st0 takeWhile_append dropWhile_append)
  note st = st0 [unfolded cl'] and op = op0 [unfolded cl'] and acl = acl0 [unfolded cl'] and nv = nv0 [unfolded cl'] and dj = dj0 [unfolded cl']
  have S: "stack_ok cfg D num st" and LO: "low_ok cfg D ((p, R, cs) # Ls)" using c by (auto simp: core_def)
  have mem: "x \<in> set st \<longleftrightarrow> active D x" for x using S by (simp add: stack_ok_def)
  have vR: "insert v (set cl) \<subseteq> R" "low D v = 0" and lk: "linked cfg v cl"
    and nz: "\<And>x s. x \<in> insert v (set cl) \<Longrightarrow> s \<in> set (succs cfg x) \<Longrightarrow> dfn D s \<noteq> 0" using op by (auto simp: open_ok_def)
  have act': "active D' x \<longleftrightarrow> active D x \<and> x \<noteq> v \<and> x \<notin> set cl" and fin': "fin D' x \<longleftrightarrow> fin D x \<or> x = v" for x
    using acl [of x] by (auto simp: active_def fin_def D'(1))
  have nfv: "\<not> fin D x" if "x \<in> insert v (set cl)" for x using that av acl [of x] by (auto simp: active_def fin_def)
  have vV: "insert v (set cl) \<subseteq> node_labels cfg" using core_level(1) [OF c] vR by blast
  text \<open>no link leaves the cycle, so its vertices lead to it or to finished ones\<close>
  have stay_v: "s \<in> set cl \<or> fin D' s" if s: "s \<in> set (succs cfg v)" for s
  proof (rule ccontr)
    assume a: "\<not> (s \<in> set cl \<or> fin D' s)"
    then have as: "active D s" using status [OF S nz [of v s]] s by (auto simp: fin')
    then have "s \<in> set st'" using mem [of s] a by (auto simp: fin' st)
    then show False using h [OF s] link_le_dfn [OF LO as] ast by fastforce
  qed
  have stay: "s \<in> set cl \<or> fin D' s" if x: "x \<in> set cl" "s \<in> set (succs cfg x)" for x s
  proof (rule ccontr)
    assume a: "\<not> (s \<in> set cl \<or> fin D' s)"
    then have as: "active D s" using status [OF S nz [of x s]] x by (auto simp: fin')
    then have sst: "s \<in> set st'" using mem [of s] a by (auto simp: fin' st)
    obtain z where z: "z \<in> set cl" "z \<in> set (succs cfg v)" "low D z \<le> dfn D s" using open_ok_low [OF op x as] by blast
    have "link_of D z = low D z" using z(1) op acl [OF z(1)] by (auto simp: link_of_def open_ok_def active_def fin_def)
    then show False using h [OF z(2)] z(3) ast [OF sst] by simp
  qed
  have zero: "{x \<in> node_labels cfg. dfn D' x = 0} = {x \<in> node_labels cfg. dfn D x = 0} \<union> set cl"
    using av vV nv by (auto simp: D'(1) active_def)
  have nfin: "{x \<in> node_labels cfg. \<not> fin D x} = insert v {x \<in> node_labels cfg. \<not> fin D' x}"
    using vV nfv by (auto simp: fin')
  have cards: "card {x \<in> node_labels cfg. dfn D' x = 0} \<le> card {x \<in> node_labels cfg. dfn D x = 0} + card (set cl)"
    unfolding zero by (rule card_Un_le)
  have clV: "card (set cl) < card (node_labels cfg)" using vV nv(1) by (intro psubset_card_mono) auto
  have "card {x \<in> node_labels cfg. \<not> fin D x} = Suc (card {x \<in> node_labels cfg. \<not> fin D' x})"
    unfolding nfin by (rule card_insert_disjoint) (simp_all add: fin')
  then show pot: "potential cfg D' < potential cfg D" using cards clV by (simp add: potential_def)
  show "v \<in> set st" by (simp add: st)
  have 1: "stack_ok cfg D' num st'"
  proof -
    have "sorted_wrt (\<lambda>x y. dfn D' y < dfn D' x) st'"
      by (rule sorted_wrt_mono_rel [of _ "\<lambda>x y. dfn D y < dfn D x"])
        (use S nv dj in \<open>auto simp: D'(1) stack_ok_def st sorted_wrt_append\<close>)
    moreover have "x \<in> set st' \<longleftrightarrow> active D' x" for x using mem [of x] nv dj by (auto simp: act' st)
    moreover have "(dfn D' x = 0 \<or> active D' x \<or> fin D' x) \<and> (active D' x \<longrightarrow> dfn D' x \<le> num) \<and> (dfn D' x = 0 \<longrightarrow> low D' x = 0) \<and>
        (dfn D' x \<noteq> 0 \<longrightarrow> x \<in> node_labels cfg)" for x
      using S vV D'(2,3) [of x] unfolding stack_ok_def by (auto simp: act' fin' D'(1))
    ultimately show ?thesis using S unfolding stack_ok_def by (simp add: st)
  qed
  have 2: "low_ok cfg D' ((InCycle i, set cl, []) # (p, R, cs) # Ls)"
    unfolding low_ok_def
  proof (intro allI impI)
    fix x
    assume x: "active D' x" "low D' x \<noteq> 0"
    then have xv: "x \<noteq> v" "x \<notin> set cl" "active D x" "low D x \<noteq> 0" using D'(3) [of x] by (auto simp: act')
    then obtain y where y: "active D y" "low D x = dfn D y" "dfn D y < dfn D x" "\<exists>z. y \<in> set (succs cfg z)"
      "\<forall>(p, R, cs) \<in> set ((p, R, cs) # Ls). x \<in> R \<longrightarrow> y \<in> R" using LO unfolding low_ok_def by blast
    have "dfn D x < dfn D v" using mem [of x] ast xv by (auto simp: st)
    then have "y \<noteq> v" "y \<notin> set cl" using y(3) acl [of y] by auto
    then show "\<exists>y. active D' y \<and> low D' x = dfn D' y \<and> dfn D' y < dfn D' x \<and> (\<exists>z. y \<in> set (succs cfg z)) \<and>
        (\<forall>(p, R, cs) \<in> set ((InCycle i, set cl, []) # (p, R, cs) # Ls). x \<in> R \<longrightarrow> y \<in> R)"
      using y xv by (intro exI [of _ y]) (simp add: act' D')
  qed
  let ?vis = "map (\<lambda>s. visit_args PushSuccessors s (InCycle i) (Some i)) ss @ visit_args ContinueVisit v p (Some i) # ts"
  have hd: "open_heads ?vis = insert v (open_heads (t # ts))" using t(1) by simp
  have "level_ok cfg D' (InCycle i, set cl, [])" using vV stay by (auto simp: level_ok_def)
  moreover have "level_ok cfg D' L" if "L \<in> set ((p, R, cs) # Ls)" for L
    by (rule level_ok_mono [of cfg D L D']) (use that c in \<open>auto simp: core_def levels_ok_def fin'\<close>)
  moreover have "x \<in> open_heads ?vis \<or> (\<exists>L \<in> set ((p, R, cs) # Ls). x \<in> set (comps_nodes (snd (snd L))))" if "fin D' x" for x
    using that c unfolding hd by (auto simp: core_def levels_ok_def fin')
  ultimately have 3: "levels_ok cfg D' ((InCycle i, set cl, []) # (p, R, cs) # Ls) ?vis" unfolding levels_ok_def by auto
  have outer: "x \<notin> insert v (set cl) \<and> (\<forall>s \<in> set (succs cfg x). s \<notin> insert v (set cl))"
    if "(p', R', cs') \<in> set ((p, R, cs) # Ls)" "x \<in> set (comps_nodes cs')" for p' R' cs' x
  proof -
    have "level_ok cfg D (p', R', cs')" using that(1) c unfolding core_def levels_ok_def by blast
    then have "fin D x" "\<forall>s \<in> set (succs cfg x). fin D s" using that(2) by (auto simp: level_ok_def)
    then show ?thesis using nfv by blast
  qed
  have cyc: "cycle_ok cfg D' v (set cl) R st' (set ss) ((p, R, cs) # Ls)"
    unfolding cycle_ok_def
  proof (intro conjI)
    show "\<forall>(p', R', cs') \<in> set ((p, R, cs) # Ls). \<forall>x \<in> set (comps_nodes cs').
        x \<notin> insert v (set cl) \<and> (\<forall>s \<in> set (succs cfg x). s \<notin> insert v (set cl))"
      using outer by blast
  qed (use vR nv dj stay_v lk in \<open>auto simp: fin' ss\<close>)
  have ft: "frames cfg D' ts st' ((p, R, cs) # Ls) (set ss \<union> set cl)"
  proof (rule frames_cong [OF f])
    show "low D' x = low D x" if "x \<in> set st'" for x using that nv dj by (intro D'(3)) auto
  qed (auto simp: fin' act' D'(1))
  have "frames cfg D' (visit_args ContinueVisit v p (Some i) # ts) st' ((InCycle i, set cl, []) # (p, R, cs) # Ls) (set ss)"
    using cyc ft by (simp add: visit_args_def)
  then have "frames cfg D' (map (\<lambda>s. visit_args PushSuccessors s (InCycle i) (cont_of (InCycle i))) ss @ visit_args ContinueVisit v p (Some i) # ts) st'
      ((InCycle i, set cl, []) # (p, R, cs) # Ls) {}"
    by (intro frames_pushes) (auto simp: ss owner_succ_def visit_args_def)
  then have 4: "frames cfg D' ?vis st' ((InCycle i, set cl, []) # (p, R, cs) # Ls) {}" by (simp add: cont_of_def)
  show "core cfg D' num (tl (dropWhile (\<lambda>e. e \<noteq> v) st)) ?vis ((InCycle i, set cl, []) # (p, R, cs) # Ls)"
    using 1 2 3 4 pot c unfolding core_def by (simp add: rest)
qed

section \<open>The end of a cycle\<close>

lemma low_ok_mono:
  assumes "low_ok cfg D Ls" "\<And>p R cs. (p, R, cs) \<in> set Ls' \<Longrightarrow> \<exists>p' cs'. (p', R, cs') \<in> set Ls"
  shows "low_ok cfg D Ls'"
  unfolding low_ok_def
proof (intro allI impI)
  fix x
  assume "active D x" "low D x \<noteq> 0"
  then obtain y where y: "active D y" "low D x = dfn D y" "dfn D y < dfn D x" "\<exists>z. y \<in> set (succs cfg z)"
    "\<forall>(p, R, cs) \<in> set Ls. x \<in> R \<longrightarrow> y \<in> R" using assms(1) unfolding low_ok_def by blast
  have "x \<in> R \<longrightarrow> y \<in> R" if "(p, R, cs) \<in> set Ls'" for p R cs using assms(2) [OF that] y(5) by blast
  then show "\<exists>y. active D y \<and> low D x = dfn D y \<and> dfn D y < dfn D x \<and> (\<exists>z. y \<in> set (succs cfg z)) \<and>
      (\<forall>(p, R, cs) \<in> set Ls'. x \<in> R \<longrightarrow> y \<in> R)" using y(1-4) by blast
qed

lemma cycle_frame:
  assumes "core cfg D num st (t # ts) Ls" "vt_type t = ContinueVisit" "vt_vertex t = w"
  obtains i R cs p2 R2 cs2 Ls2 where "Ls = (InCycle i, R, cs) # (p2, R2, cs2) # Ls2" "vt_containing t = Some i" "vt_partition t = p2"
    "cycle_ok cfg D w R R2 st {} ((p2, R2, cs2) # Ls2)" "frames cfg D ts st ((p2, R2, cs2) # Ls2) R"
proof -
  have f: "frames cfg D (t # ts) st Ls {}" using assms(1) by (auto simp: core_def)
  then obtain p R cs Ls' where Ls: "Ls = (p, R, cs) # Ls'" by (cases Ls) auto
  show thesis using f assms(2,3) that by (auto simp: Ls)
qed

lemma cycle_finished:
  assumes c: "core cfg D num st (t # ts) ((InCycle i, R, cs) # (p2, R2, cs2) # Ls)" and t: "vt_type t = ContinueVisit" "vt_vertex t = w"
    and cy: "cycle_ok cfg D w R R2 st {} ((p2, R2, cs2) # Ls)" and f: "frames cfg D ts st ((p2, R2, cs2) # Ls) R"
  shows "x \<in> R \<Longrightarrow> fin D x" "s \<in> set (succs cfg w) \<Longrightarrow> fin D s"
proof -
  have S: "stack_ok cfg D num st" using c by (auto simp: core_def)
  have fw: "fin D w" and wR: "w \<notin> R" and RR: "R \<subseteq> R2" and out: "set st \<inter> R = {}"
    and sw: "\<And>s. s \<in> set (succs cfg w) \<Longrightarrow> (s \<in> R \<or> fin D s) \<and> dfn D s \<noteq> 0" using cy by (auto simp: cycle_ok_def)
  show fs: "fin D s" if "s \<in> set (succs cfg w)" for s
    using sw [OF that] status [OF S, of s] S out by (auto simp: stack_ok_def)
  obtain l where l: "set l = R" "linked cfg w l" using cy by (auto simp: cycle_ok_def)
  show "fin D x" if "x \<in> R"
  proof (rule linked_closed [OF l(2), of "fin D"])
    fix y x
    assume y: "fin D y" "y \<in> insert w (set l)" "x \<in> set (succs cfg y)" "x \<in> set l"
    show "fin D x"
    proof (cases "y = w")
      case False
      then have yR: "y \<in> R" using y(2) l by simp
      have "y \<notin> open_heads (t # ts)"
        using frames_heads_outside [OF f, of y] yR RR wR t by (auto simp: open_heads_def)
      then obtain L where L: "L \<in> set ((InCycle i, R, cs) # (p2, R2, cs2) # Ls)" "y \<in> set (comps_nodes (snd (snd L)))"
        using c y(1) unfolding core_def levels_ok_def by blast
      have "level_ok cfg D L" using c L(1) unfolding core_def levels_ok_def by blast
      then show ?thesis using L(2) y(3) by (cases L) (auto simp: level_ok_def)
    qed (use fs y in blast)
  qed (use fw that l in auto)
qed

lemma cycle_ends:
  assumes c: "core cfg D num st (t # ts) ((InCycle i, R, cs) # (p2, R2, cs2) # Ls)" and t: "vt_type t = ContinueVisit" "vt_vertex t = w"
    and cy: "cycle_ok cfg D w R R2 st {} ((p2, R2, cs2) # Ls)" and f: "frames cfg D ts st ((p2, R2, cs2) # Ls) R"
  shows "core cfg D num st ts ((p2, R2, Cycle (Vertex w # cs) # cs2) # Ls)"
proof -
  note fn = cycle_finished [OF c t cy f]
  have c2: "level_ok cfg D (InCycle i, R, cs)" "level_ok cfg D (p2, R2, cs2)" using c by (auto simp: core_def levels_ok_def)
  have cyc: "fin D w" "w \<notin> R" "w \<in> R2" "R \<subseteq> R2" and out: "\<And>x. x \<in> set (comps_nodes cs2) \<Longrightarrow> x \<notin> insert w R \<and> (\<forall>s \<in> set (succs cfg x). s \<notin> insert w R)"
    using cy by (auto simp: cycle_ok_def)
  have nodes: "set (comps_nodes cs) \<subseteq> R" using c2(1) by (simp add: level_ok_def)
  have "comps_ok cfg (Cycle (Vertex w # cs) # cs2)"
    using c2 cyc out nodes by (fastforce simp: level_ok_def no_edge_back_def)
  then have new: "level_ok cfg D (p2, R2, Cycle (Vertex w # cs) # cs2)"
    using c2 cyc fn by (auto simp: level_ok_def)
  have "x \<in> open_heads ts \<or> (\<exists>L \<in> set ((p2, R2, Cycle (Vertex w # cs) # cs2) # Ls). x \<in> set (comps_nodes (snd (snd L))))" if "fin D x" for x
    using that c t by (auto simp: core_def levels_ok_def open_heads_def)
  then have 3: "levels_ok cfg D ((p2, R2, Cycle (Vertex w # cs) # cs2) # Ls) ts"
    using new c by (auto simp: core_def levels_ok_def)
  have 2: "low_ok cfg D ((p2, R2, Cycle (Vertex w # cs) # cs2) # Ls)"
    by (rule low_ok_mono [of cfg D "(InCycle i, R, cs) # (p2, R2, cs2) # Ls"]) (use c in \<open>auto simp: core_def\<close>)
  have "frames cfg D ts st ((p2, R2, cs2) # Ls) {}" by (rule frames_drop [OF f]) (use fn(1) in \<open>auto simp: fin_def\<close>)
  then have 4: "frames cfg D ts st ((p2, R2, Cycle (Vertex w # cs) # cs2) # Ls) {}" by (rule frames_head)
  show ?thesis using 2 3 4 c unfolding core_def by simp
qed

end
