(* ===== verification/Crab_Wto_Shape.thy ===== *)
theory Crab_Wto_Shape
  imports Crab_Wto_Frames
begin

text \<open>
  How the lists that the builder of \<^verbatim>\<open>crab/wto.cpp\<close> fills represent the components of the levels under
  construction. A cycle is referred to by its index; a cycle nested in another has a larger index, so
  the iterators unfold every cycle to the end. The map from a label to the cycle around it leads to cycles
  with a head, and from a cycle to one with a smaller index, so \<^verbatim>\<open>collect_heads\<close> ends.
\<close>

section \<open>Cycles by index and cycles by value\<close>

fun rep :: "wto_cycle_t list \<Rightarrow> nat set \<Rightarrow> nat \<Rightarrow> wto_comp \<Rightarrow> cycle_or_label \<Rightarrow> bool"
  and reps :: "wto_cycle_t list \<Rightarrow> nat set \<Rightarrow> nat \<Rightarrow> wto_comp list \<Rightarrow> cycle_or_label list \<Rightarrow> bool" where
  "rep C P m (Vertex l) c \<longleftrightarrow> c = LabelC l"
| "rep C P m (Cycle ws) c \<longleftrightarrow>
    (case c of LabelC _ \<Rightarrow> False
     | CycleC i \<Rightarrow> m \<le> i \<and> i < length C \<and> i \<notin> P \<and> reps C P (Suc i) ws (rev (cyc_components (C ! i))))"
| "reps C P m [] cs \<longleftrightarrow> cs = []"
| "reps C P m (w # ws) cs \<longleftrightarrow> (case cs of [] \<Rightarrow> False | c # cs' \<Rightarrow> rep C P m w c \<and> reps C P m ws cs')"

definition same_done :: "wto_cycle_t list \<Rightarrow> nat set \<Rightarrow> wto_cycle_t list \<Rightarrow> nat set \<Rightarrow> bool" where
  "same_done C P C' P' \<longleftrightarrow> length C \<le> length C' \<and> (\<forall>i < length C. i \<notin> P \<longrightarrow> C' ! i = C ! i \<and> i \<notin> P')"

lemma rep_cong:
  "rep C P m w c \<Longrightarrow> same_done C P C' P' \<Longrightarrow> rep C' P' m w c"
  "reps C P m ws cs \<Longrightarrow> same_done C P C' P' \<Longrightarrow> reps C' P' m ws cs"
  by (induction C P m w c and C P m ws cs rule: rep_reps.induct)
    (auto simp: same_done_def split: cycle_or_label.splits list.splits)

text \<open>The index bound is enough fuel for the iterators.\<close>

lemma rep_comp_of:
  "rep C P m w c \<Longrightarrow> length C \<le> n + m \<Longrightarrow> comp_of C n c = w"
  "reps C P m ws cs \<Longrightarrow> length C \<le> n + m \<Longrightarrow> map (comp_of C n) cs = ws"
proof (induction C P m w c and C P m ws cs arbitrary: n and n rule: rep_reps.induct)
  case (1 C P m l c)
  then show ?case by (cases n) auto
next
  case (2 C P m ws c)
  then obtain i where i: "c = CycleC i" "m \<le> i" "i < length C" "reps C P (Suc i) ws (rev (cyc_components (C ! i)))"
    by (auto split: cycle_or_label.splits)
  then obtain k where k: "n = Suc k" using 2(3) by (cases n) auto
  have "map (comp_of C k) (rev (cyc_components (C ! i))) = ws"
    using i 2(3) k by (intro 2(1)) auto
  then show ?case by (simp add: i k)
qed (auto split: list.splits)

section \<open>The representation of the levels\<close>

definition plist :: "wto_builder_t \<Rightarrow> partition_ref \<Rightarrow> wto_partition_t" where
  "plist b p = (case p of TopLevel \<Rightarrow> wb_components b | InCycle i \<Rightarrow> cyc_components (wb_cycles b ! i))"

definition lower :: "partition_ref \<Rightarrow> nat" where
  "lower p = (case p of TopLevel \<Rightarrow> 0 | InCycle i \<Rightarrow> Suc i)"

definition pending :: "level list \<Rightarrow> nat set" where
  "pending Ls = {i. InCycle i \<in> fst ` set Ls}"

definition headed :: "wto_builder_t \<Rightarrow> nat \<Rightarrow> bool" where
  "headed b i \<longleftrightarrow> i < length (wb_cycles b) \<and>
     (\<exists>cs h. cyc_components (wb_cycles b ! i) = cs @ [LabelC h] \<and> map_of (wb_containing b) h = Some (Some i))"

definition usable :: "wto_builder_t \<Rightarrow> nat set \<Rightarrow> nat \<Rightarrow> bool" where
  "usable b P i \<longleftrightarrow> i \<in> P \<or> headed b i"

definition contained :: "wto_builder_t \<Rightarrow> nat set \<Rightarrow> bool" where
  "contained b P \<longleftrightarrow>
     (\<forall>l i. map_of (wb_containing b) l = Some (Some i) \<longrightarrow> usable b P i) \<and>
     (\<forall>i j. usable b P i \<longrightarrow> cyc_containing (wb_cycles b ! i) = Some j \<longrightarrow> j < i \<and> usable b P j)"

definition level_shape :: "wto_builder_t \<Rightarrow> nat set \<Rightarrow> level \<Rightarrow> bool" where
  "level_shape b P = (\<lambda>(p, R, cs). lower p \<le> length (wb_cycles b) \<and> reps (wb_cycles b) P (lower p) cs (rev (plist b p)))"

definition shape :: "wto_builder_t \<Rightarrow> level list \<Rightarrow> bool" where
  "shape b Ls \<longleftrightarrow>
     sorted_wrt (\<lambda>L M. lower (fst M) < lower (fst L)) Ls \<and> (\<forall>L \<in> set Ls. level_shape b (pending Ls) L) \<and>
     contained b (pending Ls) \<and>
     (\<forall>l \<in> set (omap_keys (wb_containing b)). \<exists>L \<in> set Ls. l \<in> set (comps_nodes (snd (snd L))))"

lemma shape_cong:
  "shape b Ls \<Longrightarrow> wb_components b' = wb_components b \<Longrightarrow> wb_cycles b' = wb_cycles b \<Longrightarrow> wb_containing b' = wb_containing b \<Longrightarrow> shape b' Ls"
  by (simp add: shape_def contained_def usable_def headed_def level_shape_def plist_def cong: partition_ref.case_cong)

section \<open>Operations on the representation\<close>

lemma append_component_effect:
  assumes "lower p \<le> length (wb_cycles b)"
  shows "plist (append_component p c b) q = (if q = p then plist b p @ [c] else plist b q)"
    "length (wb_cycles (append_component p c b)) = length (wb_cycles b)"
    "cyc_containing (wb_cycles (append_component p c b) ! j) = cyc_containing (wb_cycles b ! j)"
    "InCycle j \<noteq> p \<Longrightarrow> wb_cycles (append_component p c b) ! j = wb_cycles b ! j"
    "wb_containing (append_component p c b) = wb_containing b" "wb_data (append_component p c b) = wb_data b"
    "wb_num (append_component p c b) = wb_num b" "wb_stack (append_component p c b) = wb_stack b"
    "wb_visits (append_component p c b) = wb_visits b"
  using assms
  by (auto simp: append_component_def plist_def lower_def nth_list_update split: partition_ref.splits)

lemma emplace_containing_effect:
  "wb_cycles (emplace_containing v c b) = wb_cycles b" "plist (emplace_containing v c b) p = plist b p"
  "wb_data (emplace_containing v c b) = wb_data b" "wb_num (emplace_containing v c b) = wb_num b"
  "wb_stack (emplace_containing v c b) = wb_stack b" "wb_visits (emplace_containing v c b) = wb_visits b"
  by (simp_all add: emplace_containing_def plist_def cong: partition_ref.case_cong)

lemma emplace_containing_lookup:
  "v \<notin> set (omap_keys (wb_containing b)) \<Longrightarrow>
   map_of (wb_containing (emplace_containing v c b)) = (map_of (wb_containing b))(v \<mapsto> c)"
  "set (omap_keys (wb_containing (emplace_containing v c b))) = insert v (set (omap_keys (wb_containing b)))"
  by (auto simp: emplace_containing_def)

lemma headed_mono:
  assumes "headed b i" "length (wb_cycles b) \<le> length (wb_cycles b')" "wb_cycles b' ! i = wb_cycles b ! i"
    "\<And>h. map_of (wb_containing b) h = Some (Some i) \<Longrightarrow> map_of (wb_containing b') h = Some (Some i)"
  shows "headed b' i"
  using assms unfolding headed_def by auto

lemma level_shape_mono:
  assumes "level_shape b P (p, R, cs)" "same_done (wb_cycles b) P (wb_cycles b') P'" "plist b' p = plist b p"
  shows "level_shape b' P' (p, R, cs)"
  using assms rep_cong(2) [OF _ assms(2)] by (auto simp: level_shape_def same_done_def)

lemma pending_bound: "shape b Ls \<Longrightarrow> i \<in> pending Ls \<Longrightarrow> i < length (wb_cycles b)"
proof -
  assume S: "shape b Ls" and "i \<in> pending Ls"
  then obtain R cs where "(InCycle i, R, cs) \<in> set Ls" by (auto simp: pending_def)
  then have "level_shape b (pending Ls) (InCycle i, R, cs)" using S unfolding shape_def by blast
  then show ?thesis by (simp add: level_shape_def lower_def)
qed

lemma usable_bound: "shape b Ls \<Longrightarrow> usable b (pending Ls) i \<Longrightarrow> i < length (wb_cycles b)"
  using pending_bound by (auto simp: usable_def headed_def)

lemma contained_mono:
  assumes "contained b P" "\<And>i. usable b' P' i \<longleftrightarrow> usable b P i"
    "\<And>i. usable b P i \<Longrightarrow> cyc_containing (wb_cycles b' ! i) = cyc_containing (wb_cycles b ! i)"
    "\<And>l i. map_of (wb_containing b') l = Some (Some i) \<Longrightarrow> usable b' P' i"
  shows "contained b' P'"
  unfolding contained_def
proof (intro conjI allI impI)
  fix i j
  assume a: "usable b' P' i" "cyc_containing (wb_cycles b' ! i) = Some j"
  then have "usable b P i" "cyc_containing (wb_cycles b ! i) = Some j" using assms(2,3) by auto
  then have "j < i \<and> usable b P j" using assms(1) unfolding contained_def by blast
  then show "j < i" "usable b' P' j" using assms(2) by simp_all
qed (use assms(4) in blast)

text \<open>A cycle is created at the start of every visit, used or not.\<close>

lemma shape_new_cycle:
  assumes S: "shape b Ls" and b': "wb_cycles b' = wb_cycles b @ [c]" "wb_components b' = wb_components b" "wb_containing b' = wb_containing b"
  shows "shape b' Ls"
proof -
  have same: "same_done (wb_cycles b) (pending Ls) (wb_cycles b') (pending Ls)"
    by (auto simp: same_done_def b' nth_append)
  have L: "level_shape b' (pending Ls) (p, R, cs)" if "(p, R, cs) \<in> set Ls" for p R cs
  proof (rule level_shape_mono [OF _ same])
    show "level_shape b (pending Ls) (p, R, cs)" using S that by (simp add: shape_def)
    then show "plist b' p = plist b p" by (auto simp: plist_def b' level_shape_def lower_def nth_append split: partition_ref.splits)
  qed
  have u: "usable b' (pending Ls) i \<longleftrightarrow> usable b (pending Ls) i" if "i < length (wb_cycles b)" for i
    using that by (auto simp: usable_def headed_def b' nth_append)
  have nu: "\<not> usable b' (pending Ls) i" if "i \<ge> length (wb_cycles b)" for i
  proof
    assume "usable b' (pending Ls) i"
    then obtain h where "i \<in> pending Ls \<or> map_of (wb_containing b) h = Some (Some i)" by (auto simp: usable_def headed_def b')
    then have "usable b (pending Ls) i" using S unfolding shape_def contained_def usable_def by blast
    then show False using usable_bound [OF S] that by fastforce
  qed
  have "contained b' (pending Ls)"
  proof -
    have c: "contained b (pending Ls)" using S by (simp add: shape_def)
    have "j < i \<and> usable b' (pending Ls) j" if "usable b' (pending Ls) i" "cyc_containing (wb_cycles b' ! i) = Some j" for i j
    proof -
      have i: "i < length (wb_cycles b)" using that(1) nu by (meson not_le)
      then have "usable b (pending Ls) i" "cyc_containing (wb_cycles b ! i) = Some j" using that u by (auto simp: b' nth_append)
      then have "j < i \<and> usable b (pending Ls) j" using c by (simp add: contained_def)
      then show ?thesis using i u by simp
    qed
    moreover have "usable b' (pending Ls) i" if "map_of (wb_containing b') l = Some (Some i)" for l i
    proof -
      have "usable b (pending Ls) i" using that c by (simp add: contained_def b')
      then show ?thesis using u usable_bound [OF S] by blast
    qed
    ultimately show ?thesis by (simp add: contained_def)
  qed
  then show ?thesis using S L by (auto simp: shape_def b')
qed

text \<open>A vertex is placed in the innermost level.\<close>

lemma shape_place:
  assumes S: "shape b ((p, R, cs) # Ls)" and v: "v \<notin> set (omap_keys (wb_containing b))"
    and b': "b' = emplace_containing v (cont_of p) (append_component p (LabelC v) b)"
  shows "shape b' ((p, R, Vertex v # cs) # Ls)"
proof -
  let ?L = "(p, R, cs) # Ls" and ?L' = "(p, R, Vertex v # cs) # Ls"
  have pend: "pending ?L' = pending ?L" by (simp add: pending_def)
  have lo: "lower p \<le> length (wb_cycles b)" using S by (simp add: shape_def level_shape_def)
  note eff = append_component_effect [OF lo]
  have same: "same_done (wb_cycles b) (pending ?L) (wb_cycles b') (pending ?L)"
    using eff(4) by (auto simp: same_done_def b' emplace_containing_effect eff pending_def)
  have pl: "plist b' q = (if q = p then plist b p @ [LabelC v] else plist b q)" for q
    by (simp add: b' emplace_containing_effect eff)
  have mo: "map_of (wb_containing b') = (map_of (wb_containing b))(v \<mapsto> cont_of p)"
    using v by (simp add: b' emplace_containing_lookup eff)
  have ks: "set (omap_keys (wb_containing b')) = insert v (set (omap_keys (wb_containing b)))"
    by (simp add: b' emplace_containing_lookup eff)
  have "reps (wb_cycles b') (pending ?L) (lower p) cs (rev (plist b p))"
    by (rule rep_cong(2) [OF _ same]) (use S in \<open>simp add: shape_def level_shape_def\<close>)
  then have L0: "level_shape b' (pending ?L') (p, R, Vertex v # cs)"
    using lo by (simp add: level_shape_def pend pl) (simp add: b' emplace_containing_effect eff)
  have L1: "level_shape b' (pending ?L') (q, R', cs')" if "(q, R', cs') \<in> set Ls" for q R' cs'
    unfolding pend
  proof (rule level_shape_mono [OF _ same])
    show "level_shape b (pending ?L) (q, R', cs')" using S that by (simp add: shape_def)
    have "lower q < lower p" using S that by (force simp: shape_def)
    then show "plist b' q = plist b q" by (auto simp: pl)
  qed
  have old: "map_of (wb_containing b) h = Some (Some i) \<Longrightarrow> map_of (wb_containing b') h = Some (Some i)" for h i
    using v by (auto simp: mo in_omap_keys)
  have u: "usable b' (pending ?L) i" if "usable b (pending ?L) i" for i
  proof (cases "i \<in> pending ?L")
    case False
    then have "headed b i" using that by (simp add: usable_def)
    moreover have "wb_cycles b' ! i = wb_cycles b ! i"
      using False by (auto simp: b' emplace_containing_effect pending_def intro!: eff(4))
    ultimately have "headed b' i" using old by (intro headed_mono [of b i b']) (simp_all add: b' emplace_containing_effect eff)
    then show ?thesis by (simp add: usable_def)
  qed (simp add: usable_def)
  have back_u: "usable b (pending ?L) i" if "usable b' (pending ?L) i" for i
  proof (cases "i \<in> pending ?L")
    case False
    then have h: "headed b' i" using that by (simp add: usable_def)
    have "wb_cycles b' ! i = wb_cycles b ! i"
      using False by (auto simp: b' emplace_containing_effect pending_def intro!: eff(4))
    moreover have "cont_of p \<noteq> Some i" using False by (auto simp: cont_of_def pending_def split: partition_ref.splits)
    ultimately have "headed b i" using h unfolding headed_def mo by (auto simp: b' emplace_containing_effect eff split: if_splits)
    then show ?thesis by (simp add: usable_def)
  qed (simp add: usable_def)
  have cn: "cont_of p = Some i \<Longrightarrow> i \<in> pending ?L" for i by (auto simp: cont_of_def pending_def split: partition_ref.splits)
  have c: "contained b (pending ?L)" using S by (simp add: shape_def)
  have "contained b' (pending ?L)"
  proof (rule contained_mono [OF c])
    show "usable b' (pending ?L) i \<longleftrightarrow> usable b (pending ?L) i" for i using u back_u by blast
    show "cyc_containing (wb_cycles b' ! i) = cyc_containing (wb_cycles b ! i)" for i by (simp add: b' emplace_containing_effect eff)
    show "usable b' (pending ?L) i" if "map_of (wb_containing b') l = Some (Some i)" for l i
    proof (cases "l = v")
      case True
      then show ?thesis using that cn by (simp add: mo usable_def)
    next
      case False
      then have "usable b (pending ?L) i" using that c unfolding mo contained_def by simp
      then show ?thesis by (rule u)
    qed
  qed
  then show ?thesis
    using S L0 L1 by (auto simp: shape_def pend ks)
qed

text \<open>A cycle starts: its level is the innermost one.\<close>

lemma shape_open:
  assumes S: "shape b ((p, R, cs) # Ls)"
    and b': "wb_cycles b' = wb_cycles b @ [\<lparr>cyc_components = [], cyc_containing = cont_of p\<rparr>]"
      "wb_components b' = wb_components b" "wb_containing b' = wb_containing b"
  shows "shape b' ((InCycle (length (wb_cycles b)), Q, []) # (p, R, cs) # Ls)"
proof -
  let ?n = "length (wb_cycles b)" and ?L = "(p, R, cs) # Ls"
  let ?L' = "(InCycle ?n, Q, []) # ?L"
  have pend: "pending ?L' = insert ?n (pending ?L)" by (auto simp: pending_def)
  have S': "shape b' ?L" by (rule shape_new_cycle [OF S b'])
  have same: "same_done (wb_cycles b) (pending ?L) (wb_cycles b') (pending ?L')"
    by (auto simp: same_done_def b' nth_append pend)
  have lo: "lower (fst L) \<le> ?n" "level_shape b (pending ?L) L" if "L \<in> set ?L" for L
    using S that unfolding shape_def level_shape_def by (cases L; fastforce)+
  have L: "level_shape b' (pending ?L') L" if "L \<in> set ?L" for L
  proof -
    obtain q R' cs' where q: "L = (q, R', cs')" by (cases L)
    have "plist b' q = plist b q"
      using lo(1) [OF that] by (auto simp: q plist_def b' lower_def nth_append split: partition_ref.splits)
    then show ?thesis using lo(2) [OF that] level_shape_mono [OF _ same] by (simp add: q)
  qed
  have u: "usable b' (pending ?L') i \<longleftrightarrow> i = ?n \<or> usable b' (pending ?L) i" for i by (auto simp: usable_def pend)
  have "contained b' (pending ?L')"
    unfolding contained_def
  proof (intro conjI allI impI)
    fix l i
    assume "map_of (wb_containing b') l = Some (Some i)"
    then show "usable b' (pending ?L') i" using S' unfolding u shape_def contained_def by blast
  next
    fix i j
    assume a: "usable b' (pending ?L') i" "cyc_containing (wb_cycles b' ! i) = Some j"
    have "j < i \<and> usable b' (pending ?L) j"
    proof (cases "i = ?n")
      case True
      then have "p = InCycle j" using a(2) by (auto simp: b' cont_of_def split: partition_ref.splits)
      then show ?thesis using True lo(1) [of "(p, R, cs)"] by (simp add: lower_def usable_def pending_def)
    next
      case False
      then show ?thesis using a S' unfolding u shape_def contained_def by blast
    qed
    then show "j < i" "usable b' (pending ?L') j" by (auto simp: u)
  qed
  moreover have "level_shape b' (pending ?L') (InCycle ?n, Q, [])" by (simp add: level_shape_def lower_def plist_def b')
  moreover have "lower (fst L) < lower (InCycle ?n)" if "L \<in> set ?L" for L using lo(1) [OF that] by (simp add: lower_def)
  ultimately show ?thesis using S' L by (auto simp: shape_def)
qed

text \<open>A cycle ends: its head goes in front of it, and the cycle into the level around it.\<close>

lemma shape_close:
  assumes S: "shape b ((InCycle i, R, cs) # (p, R2, cs2) # Ls)" and w: "w \<notin> set (omap_keys (wb_containing b))"
    and b': "b' = emplace_containing w (Some i) (append_component p (CycleC i) (append_component (InCycle i) (LabelC w) b))"
  shows "shape b' ((p, R2, Cycle (Vertex w # cs) # cs2) # Ls)"
proof -
  let ?L = "(InCycle i, R, cs) # (p, R2, cs2) # Ls" and ?L' = "(p, R2, Cycle (Vertex w # cs) # cs2) # Ls"
  let ?b1 = "append_component (InCycle i) (LabelC w) b"
  have lo: "lower (InCycle i) \<le> length (wb_cycles b)" "lower p \<le> length (wb_cycles b)" using S by (auto simp: shape_def level_shape_def)
  have below: "lower q < lower (InCycle i)" if "q \<in> fst ` set ((p, R2, cs2) # Ls)" for q using S that by (force simp: shape_def)
  have belowp: "lower q < lower p" if "q \<in> fst ` set Ls" for q using S that by (force simp: shape_def)
  note e1 = append_component_effect [OF lo(1)]
  have lo2: "lower p \<le> length (wb_cycles ?b1)" using lo(2) by (simp add: e1)
  note e2 = append_component_effect [OF lo2] and eff = emplace_containing_effect
  have pend: "pending ?L = insert i (pending ?L')" "i \<notin> pending ?L'"
    using below by (auto simp: pending_def)
  have pi: "p \<noteq> InCycle i" "lower p \<le> i" using below [of p] by (auto simp: lower_def)
  have len: "length (wb_cycles b') = length (wb_cycles b)" by (simp add: b' eff e2 e1)
  have cyc: "wb_cycles b' ! j = wb_cycles b ! j" if "j \<notin> pending ?L" for j
    using that e1(4) [of j] e2(4) [of j] by (auto simp: b' eff pending_def)
  have cont: "cyc_containing (wb_cycles b' ! j) = cyc_containing (wb_cycles b ! j)" for j by (simp add: b' eff e2 e1)
  have same: "same_done (wb_cycles b) (pending ?L) (wb_cycles b') (pending ?L')"
    using cyc by (auto simp: same_done_def len pend)
  have pl: "plist b' q = (if q = p then plist b p @ [CycleC i] else if q = InCycle i then plist b q @ [LabelC w] else plist b q)" for q
    using pi by (simp add: b' eff e2 e1)
  have mo: "map_of (wb_containing b') = (map_of (wb_containing b))(w \<mapsto> Some i)"
    using w by (simp add: b' emplace_containing_lookup e2 e1)
  have ks: "set (omap_keys (wb_containing b')) = insert w (set (omap_keys (wb_containing b)))"
    by (simp add: b' emplace_containing_lookup e2 e1)
  have ci: "cyc_components (wb_cycles b' ! i) = plist b (InCycle i) @ [LabelC w]"
    using pl [of "InCycle i"] pi by (simp add: plist_def)
  have "reps (wb_cycles b') (pending ?L') (Suc i) cs (rev (plist b (InCycle i)))"
    by (rule rep_cong(2) [OF _ same]) (use S in \<open>simp add: shape_def level_shape_def lower_def\<close>)
  moreover have "reps (wb_cycles b') (pending ?L') (lower p) cs2 (rev (plist b p))"
    by (rule rep_cong(2) [OF _ same]) (use S in \<open>simp add: shape_def level_shape_def\<close>)
  moreover have "i < length (wb_cycles b')" using lo(1) len by (simp add: lower_def)
  ultimately have L0: "level_shape b' (pending ?L') (p, R2, Cycle (Vertex w # cs) # cs2)"
    using lo(2) pi pend(2) by (simp add: level_shape_def pl len ci)
  have L1: "level_shape b' (pending ?L') (q, R', cs')" if "(q, R', cs') \<in> set Ls" for q R' cs'
  proof (rule level_shape_mono [OF _ same])
    show "level_shape b (pending ?L) (q, R', cs')" using S that by (simp add: shape_def)
    have "q \<noteq> p" "q \<noteq> InCycle i" using belowp [of q] below [of q] that by force+
    then show "plist b' q = plist b q" by (simp add: pl)
  qed
  have hi: "headed b' i" using \<open>i < length (wb_cycles b')\<close> by (auto simp: headed_def ci mo)
  have old: "map_of (wb_containing b) h = Some (Some j) \<Longrightarrow> map_of (wb_containing b') h = Some (Some j)" for h j
    using w by (auto simp: mo in_omap_keys)
  have u: "usable b' (pending ?L') j \<longleftrightarrow> usable b (pending ?L) j" for j
  proof (cases "j \<in> pending ?L")
    case True
    then show ?thesis using hi by (auto simp: usable_def pend(1))
  next
    case False
    then have ne: "j \<noteq> i" "j \<notin> pending ?L'" by (auto simp: pend(1))
    have "headed b' j \<longleftrightarrow> headed b j"
    proof
      assume "headed b j"
      then show "headed b' j" by (rule headed_mono) (simp_all add: len cyc [OF False] old)
    next
      assume "headed b' j"
      then show "headed b j" using ne(1) by (auto simp: headed_def len cyc [OF False] mo split: if_splits)
    qed
    then show ?thesis using False ne by (simp add: usable_def)
  qed
  have c: "contained b (pending ?L)" using S by (simp add: shape_def)
  have "contained b' (pending ?L')"
  proof (rule contained_mono [OF c u cont])
    show "usable b' (pending ?L') j" if "map_of (wb_containing b') l = Some (Some j)" for l j
    proof (cases "l = w")
      case True
      then show ?thesis using that hi by (simp add: mo usable_def)
    next
      case False
      then have "usable b (pending ?L) j" using that c unfolding mo contained_def by simp
      then show ?thesis by (simp add: u)
    qed
  qed
  then show ?thesis using S L0 L1 by (auto simp: shape_def ks)
qed

section \<open>What a finished order gives\<close>

definition finished_wto :: "wto_builder_t \<Rightarrow> wto_t" where
  "finished_wto b = \<lparr>wto_components = wb_components b, wto_cycles = wb_cycles b, wto_containing = wb_containing b\<rparr>"

lemma shape_view:
  assumes "shape b [(TopLevel, R, cs)]"
  shows "wto_view (finished_wto b) = cs"
proof -
  have "reps (wb_cycles b) (pending [(TopLevel, R, cs)]) 0 cs (rev (wb_components b))"
    using assms by (simp add: shape_def level_shape_def lower_def plist_def)
  from rep_comp_of(2) [OF this, of "length (wb_cycles b)"] show ?thesis by (simp add: wto_view_def finished_wto_def)
qed

lemma headed_head:
  assumes "headed b i"
  obtains h where "cycle_head (wb_cycles b) i = Inr h" "map_of (wb_containing b) h = Some (Some i)"
proof -
  from assms obtain cs h where h: "i < length (wb_cycles b)" "cyc_components (wb_cycles b ! i) = cs @ [LabelC h]"
    "map_of (wb_containing b) h = Some (Some i)" unfolding headed_def by blast
  have "cycle_head (wb_cycles b) i = Inr h"
    using h(1,2) by (cases cs) (auto simp: cycle_head_def)
  then show thesis using that h(3) by blast
qed

lemma collect_heads_of_head:
  assumes c: "contained b {}" and "headed b i" "cycle_head (wb_cycles b) i = Inr h" "map_of (wb_containing b) h = Some (Some i)"
  shows "\<exists>hs. collect_heads (finished_wto b) h = Some (Inr hs)"
  using assms(2-)
proof (induction i arbitrary: h rule: less_induct)
  case (less i)
  show ?case
  proof (cases "cyc_containing (wb_cycles b ! i)")
    case None
    then have "wto_head (finished_wto b) h = Inr None" using less.prems by (simp add: wto_head_def finished_wto_def)
    then show ?thesis by (subst collect_heads.simps) simp
  next
    case (Some j)
    have j: "j < i" "headed b j" using c Some less.prems(1) by (auto simp: contained_def usable_def)
    obtain g where g: "cycle_head (wb_cycles b) j = Inr g" "map_of (wb_containing b) g = Some (Some j)" by (rule headed_head [OF j(2)])
    have "wto_head (finished_wto b) h = Inr (Some g)" using less.prems Some g(1) by (simp add: wto_head_def finished_wto_def)
    then show ?thesis using less.IH [OF j g] by (subst collect_heads.simps) auto
  qed
qed

lemma nesting_total:
  assumes c: "contained b {}"
  shows "\<exists>hs. nesting (finished_wto b) l = Some (Inr hs)"
proof -
  consider "map_of (wb_containing b) l \<in> {None, Some None}" | i where "map_of (wb_containing b) l = Some (Some i)"
    by (cases "map_of (wb_containing b) l"; cases "the (map_of (wb_containing b) l)") auto
  then show ?thesis
  proof cases
    case 1
    then have "wto_head (finished_wto b) l = Inr None" by (auto simp: wto_head_def finished_wto_def)
    then show ?thesis unfolding nesting_def by (subst collect_heads.simps) simp
  next
    case 2
    then have "headed b i" using c by (auto simp: contained_def usable_def)
    then obtain h where h: "cycle_head (wb_cycles b) i = Inr h" "map_of (wb_containing b) h = Some (Some i)" by (rule headed_head)
    note ch = collect_heads_of_head [OF c \<open>headed b i\<close> h]
    show ?thesis
    proof (cases "h = l")
      case False
      then have "wto_head (finished_wto b) l = Inr (Some h)" using 2 h(1) by (simp add: wto_head_def finished_wto_def)
      then show ?thesis using ch unfolding nesting_def by (subst collect_heads.simps) auto
    qed (use ch in \<open>simp add: nesting_def\<close>)
  qed
qed

end
