(* ===== verification/Crab_Wto_Correct.thy ===== *)
theory Crab_Wto_Correct
  imports Crab_Wto_Shape
begin

text \<open>
  The builder of \<^verbatim>\<open>crab/wto.cpp\<close> ends without an exception on every well-formed graph that is small
  enough for the 32-bit visit numbers, its result is a weak topological order of the vertices that are
  reachable from the entry, and the nesting of every label can be computed from it.
\<close>

section \<open>The invariant of the builder\<close>

definition entry_first :: "vdata \<Rightarrow> visit_args_t list \<Rightarrow> level list \<Rightarrow> bool" where
  "entry_first D vis Ls \<longleftrightarrow>
    (if vis = [] then (\<exists>R cs. Ls = [(TopLevel, R, Vertex entry_label # cs)])
     else vt_vertex (last vis) = entry_label \<and>
       (vt_type (last vis) = StartVisit \<or> (vis = [last vis] \<and> vt_type (last vis) = PushSuccessors \<and> dfn D entry_label = 0)))"

definition builder_ok :: "cfg_t \<Rightarrow> wto_builder_t \<Rightarrow> level list \<Rightarrow> bool" where
  "builder_ok cfg b Ls \<longleftrightarrow>
     core cfg (wb_data b) (wb_num b) (wb_stack b) (wb_visits b) Ls \<and> shape b Ls \<and> entry_first (wb_data b) (wb_visits b) Ls"

lemma entry_first_tail:
  assumes "entry_first D (t # ts) Ls" "ts \<noteq> []"
  shows "entry_first D' (us @ ts) Ls'" "entry_first D' (us @ u # ts) Ls'"
  using assms by (auto simp: entry_first_def)

lemma entry_first_last:
  assumes "entry_first D [t] Ls"
  shows "vt_vertex t = entry_label"
  using assms by (simp add: entry_first_def)

lemma children_of_label: "v \<in> node_labels cfg \<Longrightarrow> children_of cfg v = Inr (succs cfg v)"
  by (auto simp: children_of_def get_node_def succs_def node_labels_def cfg_labels_def in_omap_keys)

lemma entry_no_pred: "cfg_ok cfg \<Longrightarrow> entry_label \<notin> set (succs cfg z)"
  by (simp add: cfg_ok_def cfg_shape_def)

lemma reset_data_effect:
  "wb_data (reset_data vs b) x = (if x \<in> set vs then (wb_data b x)\<lparr>vd_dfn := 0, vd_head_dfn := 0\<rparr> else wb_data b x)"
  "wb_num (reset_data vs b) = wb_num b" "wb_stack (reset_data vs b) = wb_stack b" "wb_visits (reset_data vs b) = wb_visits b"
  "wb_components (reset_data vs b) = wb_components b" "wb_cycles (reset_data vs b) = wb_cycles b"
  "wb_containing (reset_data vs b) = wb_containing b"
  unfolding reset_data_def by (induction vs arbitrary: b) (auto simp: set_data_def)

lemma dfn_inj: "stack_ok cfg D num st \<Longrightarrow> active D x \<Longrightarrow> active D y \<Longrightarrow> dfn D x = dfn D y \<Longrightarrow> x = y"
proof (rule ccontr)
  assume S: "stack_ok cfg D num st" and a: "active D x" "active D y" "dfn D x = dfn D y" and "x \<noteq> y"
  have "x \<in> set st" "y \<in> set st" "sorted_wrt (\<lambda>x y. dfn D y < dfn D x) st" using S a by (auto simp: stack_ok_def)
  then have "dfn D x < dfn D y \<or> dfn D y < dfn D x"
    using \<open>x \<noteq> y\<close> by (induction st) auto
  then show False using a(3) by simp
qed

text \<open>No vertex links to the entry, so it does not start a cycle.\<close>

lemma entry_not_linked:
  assumes c: "core cfg D num st (t # ts) Ls" and C: "cfg_ok cfg" and a: "active D entry_label"
  shows "link_of D s \<noteq> dfn D entry_label \<or> s \<notin> set (succs cfg entry_label)"
proof (rule ccontr)
  assume "\<not> ?thesis"
  then have s: "link_of D s = dfn D entry_label" "s \<in> set (succs cfg entry_label)" by auto
  have S: "stack_ok cfg D num st" and LO: "low_ok cfg D Ls" using c by (auto simp: core_def)
  have act: "active D s"
  proof -
    have "\<not> fin D s" using s(1) a by (auto simp: link_of_def fin_def active_def split: if_splits)
    moreover have "dfn D s \<noteq> 0" using s(1) a S by (auto simp: link_of_def active_def stack_ok_def split: if_splits)
    ultimately show ?thesis using status [OF S] by blast
  qed
  show False
  proof (cases "low D s = 0")
    case True
    then have "s = entry_label" using dfn_inj [OF S act a] s(1) by (simp add: link_of_def)
    then show False using s(2) entry_no_pred [OF C] by simp
  next
    case False
    then obtain y where y: "active D y" "low D s = dfn D y" "\<exists>z. y \<in> set (succs cfg z)" using LO act unfolding low_ok_def by blast
    have "dfn D y = dfn D entry_label" using s(1) y(2) False act by (simp add: link_of_def fin_def active_def)
    then have "y = entry_label" using dfn_inj [OF S y(1) a] by blast
    then show False using y(3) entry_no_pred [OF C] by blast
  qed
qed

section \<open>The steps\<close>

lemma push_step:
  assumes G: "builder_ok cfg b Ls" and C: "cfg_ok cfg" and small: "small_graph cfg"
    and vis: "wb_visits b = t # ts" and t: "vt_type t = PushSuccessors"
  obtains b' where "visit_step cfg t (b\<lparr>wb_visits := ts\<rparr>) = Inr b'" "builder_ok cfg b' Ls"
    "potential cfg (wb_data b') < potential cfg (wb_data b) \<or>
     potential cfg (wb_data b') = potential cfg (wb_data b) \<and> length (wb_visits b') < length (wb_visits b)"
proof (cases "dfn (wb_data b) (vt_vertex t) = 0")
  case False
  have c: "core cfg (wb_data b) (wb_num b) (wb_stack b) (t # ts) Ls" and S: "shape b Ls" and e: "entry_first (wb_data b) (t # ts) Ls"
    using G by (auto simp: builder_ok_def vis)
  have "ts \<noteq> []" using e False t by (auto simp: entry_first_def)
  then have "builder_ok cfg (b\<lparr>wb_visits := ts\<rparr>) Ls"
    using push_skip [OF c t False] shape_cong [OF S] entry_first_tail(1) [OF e, of _ "[]"] by (simp add: builder_ok_def)
  then show thesis using False t vis by (intro that) (auto simp: visit_step_def push_successors_def dfn_def)
next
  case True
  have c: "core cfg (wb_data b) (wb_num b) (wb_stack b) (t # ts) Ls" and S: "shape b Ls" and e: "entry_first (wb_data b) (t # ts) Ls"
    using G by (auto simp: builder_ok_def vis)
  let ?v = "vt_vertex t"
  let ?D = "(wb_data b)(?v := (wb_data b ?v)\<lparr>vd_dfn := wb_num b + 1\<rparr>)"
  let ?ss = "filter (\<lambda>s. dfn ?D s = 0) (succs cfg ?v)"
  note new = push_new [OF c t refl True C small refl refl]
  define b' where "b' = b\<lparr>wb_data := ?D, wb_num := wb_num b + 1, wb_stack := ?v # wb_stack b,
    wb_visits := map (\<lambda>s. visit_args PushSuccessors s (vt_partition t) (vt_containing t)) ?ss @
       visit_args StartVisit ?v (vt_partition t) (vt_containing t) # ts\<rparr>"
  have "entry_first ?D (us @ visit_args StartVisit ?v q d # ts) Ls" for us q d
  proof (cases "ts = []")
    case True
    then show ?thesis using entry_first_last e by (simp add: entry_first_def)
  qed (rule entry_first_tail(2) [OF e])
  then have "builder_ok cfg b' Ls"
    using new(1) shape_cong [OF S] by (simp add: builder_ok_def b'_def)
  moreover have "visit_step cfg t (b\<lparr>wb_visits := ts\<rparr>) = Inr b'"
    using t True by (simp add: visit_step_def push_successors_def dfn_def children_of_label [OF new(3)] push_unvisited_def set_data_def b'_def)
  moreover have "potential cfg (wb_data b') < potential cfg (wb_data b)" using new(2) by (simp add: b'_def)
  ultimately show thesis using that by blast
qed

lemma start_step:
  assumes G: "builder_ok cfg b Ls" and C: "cfg_ok cfg"
    and vis: "wb_visits b = t # ts" and t: "vt_type t = StartVisit"
  obtains b' Ls' where "visit_step cfg t (b\<lparr>wb_visits := ts\<rparr>) = Inr b'" "builder_ok cfg b' Ls'"
    "potential cfg (wb_data b') < potential cfg (wb_data b) \<or>
     potential cfg (wb_data b') = potential cfg (wb_data b) \<and> length (wb_visits b') < length (wb_visits b)"
proof -
  let ?v = "vt_vertex t" and ?D = "wb_data b"
  have c: "core cfg ?D (wb_num b) (wb_stack b) (t # ts) Ls" and S: "shape b Ls" and e: "entry_first ?D (t # ts) Ls"
    using G by (auto simp: builder_ok_def vis)
  obtain p R cs Ls0 where Ls: "Ls = (p, R, cs) # Ls0" and tp: "vt_partition t = p" "vt_containing t = cont_of p" and av: "active ?D ?v"
    by (rule start_frame [OF c t refl]) blast
  note c' = c [unfolded Ls] and S' = S [unfolded Ls]
  have vV: "?v \<in> node_labels cfg" using c av by (auto simp: core_def stack_ok_def active_def)
  define b0 where "b0 = b\<lparr>wb_visits := ts\<rparr>"
  obtain h lp where hl: "lowest_head b0 (vd_dfn (?D ?v)) (succs cfg ?v) = (h, lp)" by (cases "lowest_head b0 (vd_dfn (?D ?v)) (succs cfg ?v)")
  note spec = lowest_head_spec [OF hl [folded dfn_def], unfolded b0_def, simplified]
  define cyc where "cyc = length (wb_cycles b)"
  define b1 where "b1 = b0\<lparr>wb_cycles := wb_cycles b @ [\<lparr>cyc_components = [], cyc_containing = cont_of p\<rparr>]\<rparr>"
  have new: "shape b1 Ls" by (rule shape_new_cycle [OF S]) (simp_all add: b1_def b0_def)
  have run: "visit_step cfg t (b\<lparr>wb_visits := ts\<rparr>) = start_visit cfg ?v p (cont_of p) b0"
    using t by (simp add: visit_step_def tp b0_def)
  consider (closes) "h \<noteq> dfn ?D ?v" | (places) "h = dfn ?D ?v" "\<not> lp" | (loops) "h = dfn ?D ?v" "lp" by blast
  then show thesis
  proof cases
    case closes
    then have hlt: "h < dfn ?D ?v" using spec by linarith
    obtain s0 where s0: "s0 \<in> set (succs cfg ?v)" "h = link_of ?D s0" using spec closes by blast
    let ?D' = "?D(?v := (?D ?v)\<lparr>vd_head_dfn := h\<rparr>)"
    have all: "\<And>s. s \<in> set (succs cfg ?v) \<Longrightarrow> h \<le> link_of ?D s" using spec by blast
    note cl = start_closes [OF c t refl C hlt all s0 refl]
    have "builder_ok cfg (b1\<lparr>wb_data := ?D'\<rparr>) Ls"
      using cl shape_cong [OF new] entry_first_tail(1) [OF e cl(3), of _ "[]"] by (simp add: builder_ok_def b1_def b0_def)
    moreover have "start_visit cfg ?v p (cont_of p) b0 = Inr (b1\<lparr>wb_data := ?D'\<rparr>)"
      using closes hl by (simp add: start_visit_def children_of_label [OF vV] b1_def b0_def dfn_def set_data_def)
    ultimately show ?thesis using run cl(2) by (intro that [of "b1\<lparr>wb_data := ?D'\<rparr>" Ls]) (simp_all add: b1_def b0_def vis)
  next
    case places
    let ?D' = "?D(?v := (?D ?v)\<lparr>vd_dfn := DFN_INF, vd_head_dfn := h\<rparr>)"
    have all: "\<And>s. s \<in> set (succs cfg ?v) \<Longrightarrow> dfn ?D ?v < link_of ?D s" using spec places by force
    note pl = start_places [OF c' t refl all refl [of ?D']]
    define b2 where "b2 = b1\<lparr>wb_data := ?D', wb_stack := tl (wb_stack b)\<rparr>"
    define b3 where "b3 = emplace_containing ?v (cont_of p) (append_component p (LabelC ?v) b2)"
    have lo: "lower p \<le> length (wb_cycles b2)" "lower p \<le> length (wb_cycles b1)" using new by (auto simp: b2_def Ls shape_def level_shape_def)
    note eff = emplace_containing_effect append_component_effect [OF lo(1)]
    have "?v \<notin> set (omap_keys (wb_containing b))"
    proof
      assume "?v \<in> set (omap_keys (wb_containing b))"
      then obtain L where L: "L \<in> set Ls" "?v \<in> set (comps_nodes (snd (snd L)))" using S unfolding shape_def by blast
      have "level_ok cfg ?D L" using L(1) c unfolding core_def levels_ok_def by blast
      then have "fin ?D ?v" using L(2) by (cases L) (auto simp: level_ok_def)
      then show False using av by (simp add: fin_def active_def)
    qed
    then have "shape b3 ((p, R, Vertex ?v # cs) # Ls0)"
      by (intro shape_place [OF _ _ b3_def] shape_cong [OF new [unfolded Ls]]) (simp_all add: b2_def b1_def b0_def)
    moreover have "entry_first ?D' ts ((p, R, Vertex ?v # cs) # Ls0)"
    proof (cases "ts = []")
      case True
      then have "?v = entry_label" using e entry_first_last by blast
      moreover have "p = TopLevel \<and> Ls0 = []" using pl(1) True by (auto simp: core_def)
      ultimately show ?thesis using True by (simp add: entry_first_def)
    qed (use entry_first_tail(1) [OF e, of _ "[]"] in simp)
    ultimately have "builder_ok cfg b3 ((p, R, Vertex ?v # cs) # Ls0)"
      using pl(1) by (simp add: builder_ok_def b3_def eff) (simp add: b2_def b1_def b0_def)
    moreover have "start_visit cfg ?v p (cont_of p) b0 = Inr b3"
    proof -
      define g where "g = b1\<lparr>wb_data := ?D(?v := (?D ?v)\<lparr>vd_dfn := DFN_INF\<rparr>), wb_stack := tl (wb_stack b)\<rparr>"
      have "start_visit cfg ?v p (cont_of p) b0 =
        (let a = emplace_containing ?v (cont_of p) (append_component p (LabelC ?v) g) in
         Inr (set_data ?v ((wb_data a ?v)\<lparr>vd_head_dfn := h\<rparr>) a))"
        using places hl by (simp add: start_visit_def children_of_label [OF vV] b1_def b0_def dfn_def set_data_def g_def Let_def)
      also have "\<dots> = Inr b3"
        by (auto simp: Let_def set_data_def b3_def b2_def g_def emplace_containing_def append_component_def split: partition_ref.splits)
      finally show ?thesis .
    qed
    moreover have "wb_data b3 = ?D'" by (simp add: b3_def eff) (simp add: b2_def)
    ultimately show ?thesis using run pl(2) by (intro that [of b3 "(p, R, Vertex ?v # cs) # Ls0"]) simp_all
  next
    case loops
    have all: "\<And>s. s \<in> set (succs cfg ?v) \<Longrightarrow> dfn ?D ?v \<le> link_of ?D s" using spec loops by force
    obtain s0 where s0: "s0 \<in> set (succs cfg ?v)" "link_of ?D s0 = dfn ?D ?v" using spec loops all by (metis order_antisym)
    define cl where "cl = takeWhile (\<lambda>e. e \<noteq> ?v) (wb_stack b)"
    define D' where "D' = (\<lambda>x. if x \<in> set cl then (?D x)\<lparr>vd_dfn := 0, vd_head_dfn := 0\<rparr> else ?D x)
      (?v := (?D ?v)\<lparr>vd_dfn := DFN_INF, vd_head_dfn := h, vd_cycle := Some cyc\<rparr>)"
    have ncl: "?v \<notin> set cl" by (auto simp: cl_def dest: set_takeWhileD)
    have D': "dfn D' x = (if x = ?v then DFN_INF else if x \<in> set cl then 0 else dfn ?D x)"
      "x \<in> set cl \<Longrightarrow> low D' x = 0" "x \<noteq> ?v \<Longrightarrow> x \<notin> set cl \<Longrightarrow> low D' x = low ?D x" for x
      using ncl by (auto simp: D'_def dfn_def low_def)
    let ?ss = "filter (\<lambda>s. dfn D' s = 0) (succs cfg ?v)" and ?Ls = "(InCycle cyc, set cl, []) # (p, R, cs) # Ls0"
    note lo1 = start_loops(1) [where i = cyc, OF c' t refl all cl_def D' refl]
      and lo = start_loops(2,3) [OF c' t refl all cl_def D' refl]
    define b3 where "b3 = b1\<lparr>wb_data := D', wb_stack := tl (dropWhile (\<lambda>e. e \<noteq> ?v) (wb_stack b)),
      wb_visits := map (\<lambda>s. visit_args PushSuccessors s (InCycle cyc) (Some cyc)) ?ss @ visit_args ContinueVisit ?v p (Some cyc) # ts\<rparr>"
    have "shape b3 ?Ls"
      unfolding cyc_def by (rule shape_open [OF S']) (simp_all add: b3_def b1_def b0_def)
    moreover have "ts \<noteq> []"
    proof
      assume "ts = []"
      then have "?v = entry_label" using e entry_first_last by blast
      then show False using entry_not_linked [OF c C] av s0 by auto
    qed
    ultimately have "builder_ok cfg b3 ?Ls"
      using lo1 entry_first_tail(2) [OF e] by (simp add: builder_ok_def b3_def b1_def b0_def)
    moreover have "start_visit cfg ?v p (cont_of p) b0 = Inr b3"
    proof -
      obtain rest where rest: "dropWhile (\<lambda>e. e \<noteq> ?v) (wb_stack b) = ?v # rest"
        using lo(2) by (metis (mono_tags, lifting) dropWhile_eq_Nil_conv hd_dropWhile list.exhaust_sel)
      define b2 where "b2 = b1\<lparr>wb_data := ?D(?v := (?D ?v)\<lparr>vd_dfn := DFN_INF\<rparr>)\<rparr>"
      have "start_visit cfg ?v p (cont_of p) b0 = start_loop ?v (succs cfg ?v) p cyc h b2"
        using loops hl by (simp add: start_visit_def children_of_label [OF vV] b2_def b1_def b0_def dfn_def set_data_def cyc_def)
      moreover have "start_loop ?v (succs cfg ?v) p cyc h b2 = Inr b3"
      proof -
        define r where "r = reset_data cl (b2\<lparr>wb_stack := rest\<rparr>)"
        have stk: "wb_stack b2 = wb_stack b" by (simp add: b2_def b1_def b0_def)
        have r: "wb_num r = wb_num b" "wb_stack r = rest" "wb_visits r = ts" "wb_components r = wb_components b"
          "wb_cycles r = wb_cycles b1" "wb_containing r = wb_containing b" "wb_data r ?v = (?D ?v)\<lparr>vd_dfn := DFN_INF\<rparr>"
          "(wb_data r)(?v := (?D ?v)\<lparr>vd_dfn := DFN_INF, vd_head_dfn := h, vd_cycle := Some cyc\<rparr>) = D'"
          using ncl by (auto simp: r_def reset_data_effect b2_def b1_def b0_def D'_def)
        have "start_loop ?v (succs cfg ?v) p cyc h b2 = Inr (push_unvisited (succs cfg ?v) (InCycle cyc) (Some cyc)
            (r\<lparr>wb_data := D', wb_visits := visit_args ContinueVisit ?v p (Some cyc) # ts\<rparr>))"
          using rest stk by (simp add: start_loop_def cl_def [symmetric] r_def [symmetric] set_data_def r Let_def)
        also have "\<dots> = Inr b3"
          by (simp add: push_unvisited_def b3_def r b1_def b0_def rest dfn_def)
        finally show ?thesis .
      qed
      ultimately show ?thesis by simp
    qed
    ultimately show ?thesis using run lo(1) by (intro that [of b3 ?Ls]) (simp_all add: b3_def)
  qed
qed

lemma continue_step:
  assumes G: "builder_ok cfg b Ls" and vis: "wb_visits b = t # ts" and t: "vt_type t = ContinueVisit"
  obtains b' Ls' where "visit_step cfg t (b\<lparr>wb_visits := ts\<rparr>) = Inr b'" "builder_ok cfg b' Ls'"
    "potential cfg (wb_data b') = potential cfg (wb_data b) \<and> length (wb_visits b') < length (wb_visits b)"
proof -
  let ?w = "vt_vertex t" and ?D = "wb_data b"
  have c: "core cfg ?D (wb_num b) (wb_stack b) (t # ts) Ls" and S: "shape b Ls" and e: "entry_first ?D (t # ts) Ls"
    using G by (auto simp: builder_ok_def vis)
  obtain i R cs p2 R2 cs2 Ls2 where Ls: "Ls = (InCycle i, R, cs) # (p2, R2, cs2) # Ls2" and tp: "vt_containing t = Some i" "vt_partition t = p2"
    and cy: "cycle_ok cfg ?D ?w R R2 (wb_stack b) {} ((p2, R2, cs2) # Ls2)" and f: "frames cfg ?D ts (wb_stack b) ((p2, R2, cs2) # Ls2) R"
    by (rule cycle_frame [OF c t refl]) blast
  let ?Ls = "(p2, R2, Cycle (Vertex ?w # cs) # cs2) # Ls2"
  have ends: "core cfg ?D (wb_num b) (wb_stack b) ts ?Ls" by (rule cycle_ends [OF c [unfolded Ls] t refl cy f])
  have free: "?w \<notin> set (omap_keys (wb_containing b))"
  proof
    assume "?w \<in> set (omap_keys (wb_containing b))"
    then obtain L where L: "L \<in> set Ls" "?w \<in> set (comps_nodes (snd (snd L)))" using S unfolding shape_def by blast
    have "L \<noteq> (InCycle i, R, cs)"
      using L(2) cy core_level(4) [OF c [unfolded Ls]] by (auto simp: cycle_ok_def)
    then have "L \<in> set ((p2, R2, cs2) # Ls2)" using L(1) by (simp add: Ls)
    moreover have "\<forall>(p, R', cs) \<in> set ((p2, R2, cs2) # Ls2). \<forall>x \<in> set (comps_nodes cs). x \<notin> insert ?w R"
      using cy unfolding cycle_ok_def by blast
    ultimately have "case L of (p, R', cs) \<Rightarrow> \<forall>x \<in> set (comps_nodes cs). x \<notin> insert ?w R" by (rule bspec [rotated])
    then show False using L(2) by (cases L) auto
  qed
  define b0 where "b0 = b\<lparr>wb_visits := ts\<rparr>"
  define b' where "b' = emplace_containing ?w (Some i) (append_component p2 (CycleC i) (append_component (InCycle i) (LabelC ?w) b0))"
  have S0: "shape b0 ((InCycle i, R, cs) # (p2, R2, cs2) # Ls2)"
    by (rule shape_cong [OF S [unfolded Ls]]) (simp_all add: b0_def)
  have lo: "lower (InCycle i) \<le> length (wb_cycles b0)" "lower p2 \<le> length (wb_cycles (append_component (InCycle i) (LabelC ?w) b0))"
    using S0 by (auto simp: shape_def level_shape_def append_component_effect)
  note eff = emplace_containing_effect append_component_effect [OF lo(1)] append_component_effect [OF lo(2)]
  have fields: "wb_data b' = ?D" "wb_num b' = wb_num b" "wb_stack b' = wb_stack b" "wb_visits b' = ts"
    by (simp_all add: b'_def eff) (simp_all add: b0_def)
  have "shape b' ?Ls" by (rule shape_close [OF S0 _ b'_def]) (use free in \<open>simp add: b0_def\<close>)
  moreover have "ts \<noteq> []" using e t by (auto simp: entry_first_def)
  ultimately have "builder_ok cfg b' ?Ls"
    using ends entry_first_tail(1) [OF e, of _ "[]"] by (simp add: builder_ok_def fields)
  moreover have "visit_step cfg t (b\<lparr>wb_visits := ts\<rparr>) = Inr b'"
    using t by (simp add: visit_step_def continue_visit_def tp b'_def b0_def)
  ultimately show thesis by (intro that [of b' ?Ls]) (simp_all add: fields vis)
qed

section \<open>The loop\<close>

lemma visit_progress:
  assumes "builder_ok cfg b Ls" "cfg_ok cfg" "small_graph cfg" "wb_visits b = t # ts"
  obtains b' Ls' where "visit_step cfg t (b\<lparr>wb_visits := ts\<rparr>) = Inr b'" "builder_ok cfg b' Ls'"
    "((potential cfg (wb_data b'), length (wb_visits b')), (potential cfg (wb_data b), length (wb_visits b))) \<in> less_than <*lex*> less_than"
proof (cases "vt_type t")
  case PushSuccessors
  show thesis by (rule push_step [OF assms PushSuccessors]) (rule that; auto)
next
  case StartVisit
  show thesis by (rule start_step [OF assms(1,2,4) StartVisit]) (rule that; auto)
next
  case ContinueVisit
  show thesis by (rule continue_step [OF assms(1,4) ContinueVisit]) (rule that; auto)
qed

lemma build_loop_returns:
  assumes "builder_ok cfg b Ls" "cfg_ok cfg" "small_graph cfg"
  shows "\<exists>b' Ls'. build_loop cfg b = Some (Inr b') \<and> builder_ok cfg b' Ls' \<and> wb_visits b' = []"
  using assms(1)
proof (induction "(potential cfg (wb_data b), length (wb_visits b))" arbitrary: b Ls
    rule: wf_induct_rule [OF wf_lex_prod [OF wf_less_than wf_less_than]])
  case less: 1
  show ?case
  proof (cases "wb_visits b")
    case Nil
    then show ?thesis using less.prems by (subst build_loop.simps) auto
  next
    case (Cons t ts)
    obtain b' Ls' where b': "visit_step cfg t (b\<lparr>wb_visits := ts\<rparr>) = Inr b'" "builder_ok cfg b' Ls'"
      "((potential cfg (wb_data b'), length (wb_visits b')), (potential cfg (wb_data b), length (wb_visits b))) \<in> less_than <*lex*> less_than"
      by (rule visit_progress [OF less.prems assms(2,3) Cons])
    show ?thesis using less.hyps [OF b'(3) b'(2)] Cons b'(1) by (subst build_loop.simps) simp
  qed
qed

lemma initial_builder_ok: "cfg_ok cfg \<Longrightarrow> builder_ok cfg initial_builder [(TopLevel, node_labels cfg, [])]"
proof -
  assume C: "cfg_ok cfg"
  let ?D = "wb_data initial_builder"
  have dfn0: "dfn ?D x = 0" "low ?D x = 0" for x by (simp_all add: initial_builder_def dfn_def low_def)
  have af: "\<not> active ?D x" "\<not> fin ?D x" for x by (simp_all add: active_def fin_def dfn0)
  have "potential cfg ?D = card (node_labels cfg) * (card (node_labels cfg) + 1)"
    by (simp add: potential_def dfn0 af)
  moreover have "stack_ok cfg ?D 0 []" by (simp add: stack_ok_def dfn0 af)
  moreover have "low_ok cfg ?D Ls" for Ls by (simp add: low_ok_def af)
  moreover have "levels_ok cfg ?D [(TopLevel, node_labels cfg, [])] vis" for vis
    using succs_in_labels [OF C] by (auto simp: levels_ok_def level_ok_def af)
  moreover have "frames cfg ?D (wb_visits initial_builder) [] [(TopLevel, node_labels cfg, [])] {}"
    by (simp add: initial_builder_def cont_of_def owner_succ_def)
  ultimately have "core cfg ?D 0 [] (wb_visits initial_builder) [(TopLevel, node_labels cfg, [])]" by (simp add: core_def)
  moreover have "wb_num initial_builder = 0" "wb_stack initial_builder = []" by (simp_all add: initial_builder_def)
  moreover have "shape initial_builder [(TopLevel, node_labels cfg, [])]"
    by (simp add: initial_builder_def shape_def level_shape_def lower_def plist_def contained_def usable_def headed_def pending_def)
  moreover have "entry_first ?D (wb_visits initial_builder) [(TopLevel, node_labels cfg, [])]"
    using dfn0(1) by (simp add: entry_first_def) (simp add: initial_builder_def)
  ultimately show ?thesis by (simp add: builder_ok_def)
qed

lemma comps_ok_distinct: "comp_ok cfg c \<Longrightarrow> distinct (comp_nodes c)" "comps_ok cfg cs \<Longrightarrow> distinct (comps_nodes cs)"
  by (induction cfg c and cfg cs rule: comp_ok_comps_ok.induct) auto

text \<open>The order that the builder returns, for the components that use it.\<close>

lemma make_wto_correct:
  assumes C: "cfg_ok cfg" and small: "small_graph cfg"
  obtains wto where "make_wto cfg = Some (Inr wto)" "wto_ok cfg (wto_view wto)" "\<And>l. \<exists>hs. nesting wto l = Some (Inr hs)"
proof -
  obtain b Ls where run: "build_loop cfg initial_builder = Some (Inr b)" and G: "builder_ok cfg b Ls" and vis: "wb_visits b = []"
    using build_loop_returns [OF initial_builder_ok [OF C] C small] by blast
  have c: "core cfg (wb_data b) (wb_num b) (wb_stack b) [] Ls" and S: "shape b Ls" and e: "entry_first (wb_data b) [] Ls"
    using G by (auto simp: builder_ok_def vis)
  obtain R cs where Ls: "Ls = [(TopLevel, R, Vertex entry_label # cs)]" using e by (auto simp: entry_first_def)
  have view: "wto_view (finished_wto b) = Vertex entry_label # cs" using shape_view S by (simp add: Ls)
  have all: "x \<in> set (comps_nodes (Vertex entry_label # cs))" if "fin (wb_data b) x" for x
    using that c unfolding core_def levels_ok_def Ls by simp
  have "s \<in> set (comps_nodes (Vertex entry_label # cs))" if "u \<in> set (comps_nodes (Vertex entry_label # cs))" "s \<in> set (succs cfg u)" for u s
    using core_level(6) [OF c [unfolded Ls] that] all by blast
  then have ok: "wto_ok cfg (wto_view (finished_wto b))" using core_level(3) [OF c [unfolded Ls]] by (simp add: wto_ok_def view)
  have "pending Ls = {}" by (simp add: pending_def Ls)
  then have "contained b {}" using S by (simp add: shape_def)
  then have nest: "\<exists>hs. nesting (finished_wto b) l = Some (Inr hs)" for l by (rule nesting_total)
  have "make_wto cfg = Some (Inr (finished_wto b))" by (simp add: make_wto_def run finished_wto_def)
  then show thesis using that ok nest by blast
qed

end
