(* ===== verification/Crab_Interval.thy ===== *)
theory Crab_Interval
  imports Crab_Number
begin

text \<open>
  \<^verbatim>\<open>crab/interval.hpp\<close> and \<^verbatim>\<open>crab/interval.cpp\<close>: intervals of unbounded integers with bounds that
  may be infinite. An operation whose bounds arithmetic can throw returns a result; the others
  are plain functions. The empty interval is kept in the form \<open>[0, -1]\<close> by the constructor.
\<close>

section \<open>Construction and observation\<close>

type_synonym bound_t = extended_number

record interval_t =
  ivl_lb :: bound_t
  ivl_ub :: bound_t

definition bottom :: interval_t where
  "bottom = \<lparr>ivl_lb = finite_ext 0, ivl_ub = finite_ext (- 1)\<rparr>"

definition interval :: "bound_t \<Rightarrow> bound_t \<Rightarrow> interval_t" where
  "interval l u =
     \<lparr>ivl_lb = (if ext_greater l u then finite_ext 0 else l), ivl_ub = (if ext_greater l u then finite_ext (- 1) else u)\<rparr>"

definition interval_num :: "number_t \<Rightarrow> interval_t" where
  "interval_num n = \<lparr>ivl_lb = finite_ext n, ivl_ub = finite_ext n\<rparr>"

definition interval_bound :: "bound_t \<Rightarrow> interval_t" where
  "interval_bound b =
     \<lparr>ivl_lb = (if is_infinite b then finite_ext 0 else b), ivl_ub = (if is_infinite b then finite_ext (- 1) else b)\<rparr>"

definition ivl_top :: interval_t where
  "ivl_top = interval minus_infinity plus_infinity"

definition is_bottom :: "interval_t \<Rightarrow> bool" where
  "is_bottom i = ext_greater (ivl_lb i) (ivl_ub i)"

definition is_top :: "interval_t \<Rightarrow> bool" where
  "is_top i = (is_infinite (ivl_lb i) \<and> is_infinite (ivl_ub i))"

definition finite_size :: "interval_t \<Rightarrow> number_t option res" where
  "finite_size i = bindE (ext_sub (ivl_ub i) (ivl_lb i)) (\<lambda>d. Inr (ext_number d))"

definition ivl_size :: "interval_t \<Rightarrow> bound_t res" where
  "ivl_size i = (if is_bottom i then Inr (finite_ext 0) else ext_sub (ivl_ub i) (ivl_lb i))"

definition ivl_is_singleton :: "interval_t \<Rightarrow> bool" where
  "ivl_is_singleton i = (ivl_lb i = ivl_ub i)"

definition singleton :: "interval_t \<Rightarrow> number_t option" where
  "singleton i = (if \<not> is_bottom i \<and> ivl_lb i = ivl_ub i then ext_number (ivl_lb i) else None)"

definition contains :: "interval_t \<Rightarrow> number_t \<Rightarrow> bool" where
  "contains i n = (if is_bottom i then False else ext_le (ivl_lb i) (finite_ext n) \<and> ext_le (finite_ext n) (ivl_ub i))"

definition pair_number :: "interval_t \<Rightarrow> (number_t \<times> number_t) res" where
  "pair_number i =
     bindE (opt_to_res StdException (ext_number (ivl_lb i))) (\<lambda>l.
     bindE (opt_to_res StdException (ext_number (ivl_ub i))) (\<lambda>u. Inr (l, u)))"

section \<open>The lattice\<close>

definition ivl_eq :: "interval_t \<Rightarrow> interval_t \<Rightarrow> bool" where
  "ivl_eq i x = (if is_bottom i then is_bottom x else ivl_lb i = ivl_lb x \<and> ivl_ub i = ivl_ub x)"

definition ivl_le :: "interval_t \<Rightarrow> interval_t \<Rightarrow> bool" where
  "ivl_le i x =
    (if is_bottom i then True
     else if is_bottom x then False
     else ext_le (ivl_lb x) (ivl_lb i) \<and> ext_le (ivl_ub i) (ivl_ub x))"

definition ivl_join :: "interval_t \<Rightarrow> interval_t \<Rightarrow> interval_t" where
  "ivl_join i x =
    (if is_bottom i then x
     else if is_bottom x then i
     else interval (ext_min (ivl_lb i) (ivl_lb x)) (ext_max (ivl_ub i) (ivl_ub x)))"

definition ivl_meet :: "interval_t \<Rightarrow> interval_t \<Rightarrow> interval_t" where
  "ivl_meet i x =
    (if is_bottom i \<or> is_bottom x then bottom
     else interval (ext_max (ivl_lb i) (ivl_lb x)) (ext_min (ivl_ub i) (ivl_ub x)))"

definition widen :: "interval_t \<Rightarrow> interval_t \<Rightarrow> interval_t" where
  "widen i x =
    (if is_bottom i then x
     else if is_bottom x then i
     else interval (if ext_less (ivl_lb x) (ivl_lb i) then minus_infinity else ivl_lb i)
                   (if ext_less (ivl_ub i) (ivl_ub x) then plus_infinity else ivl_ub i))"

definition widening_thresholds ::
  "interval_t \<Rightarrow> interval_t \<Rightarrow> (bound_t \<Rightarrow> bound_t) \<Rightarrow> (bound_t \<Rightarrow> bound_t) \<Rightarrow> interval_t" where
  "widening_thresholds i x get_prev get_next =
    (if is_bottom i then x
     else if is_bottom x then i
     else interval (if ext_less (ivl_lb x) (ivl_lb i) then get_prev (ivl_lb x) else ivl_lb i)
                   (if ext_less (ivl_ub i) (ivl_ub x) then get_next (ivl_ub x) else ivl_ub i))"

definition ivl_narrow :: "interval_t \<Rightarrow> interval_t \<Rightarrow> interval_t" where
  "ivl_narrow i x =
    (if is_bottom i \<or> is_bottom x then bottom
     else interval (if is_infinite (ivl_lb i) \<and> is_finite (ivl_lb x) then ivl_lb x else ivl_lb i)
                   (if is_infinite (ivl_ub i) \<and> is_finite (ivl_ub x) then ivl_ub x else ivl_ub i))"

definition ivl_pair_bound :: "int_type \<Rightarrow> int \<Rightarrow> int \<Rightarrow> interval_t \<Rightarrow> (int \<times> int) res" where
  "ivl_pair_bound T l u i =
    (let b = ivl_meet (interval (finite_ext l) (finite_ext u)) i in
     if is_bottom b then Inl (RuntimeError ''Cannot convert bottom to tuple'')
     else bindE (ext_narrow T (ivl_lb b)) (\<lambda>bl. bindE (ext_narrow T (ivl_ub b)) (\<lambda>bu. Inr (bl, bu))))"

section \<open>Arithmetic\<close>

definition ivl_add :: "interval_t \<Rightarrow> interval_t \<Rightarrow> interval_t res" where
  "ivl_add i x =
    (if is_bottom i \<or> is_bottom x then Inr bottom
     else bindE (ext_add (ivl_lb i) (ivl_lb x)) (\<lambda>l. bindE (ext_add (ivl_ub i) (ivl_ub x)) (\<lambda>u. Inr (interval l u))))"

definition ivl_neg :: "interval_t \<Rightarrow> interval_t" where
  "ivl_neg i = (if is_bottom i then bottom else interval (ext_neg (ivl_ub i)) (ext_neg (ivl_lb i)))"

definition ivl_sub :: "interval_t \<Rightarrow> interval_t \<Rightarrow> interval_t res" where
  "ivl_sub i x =
    (if is_bottom i \<or> is_bottom x then Inr bottom
     else bindE (ext_sub (ivl_lb i) (ivl_ub x)) (\<lambda>l. bindE (ext_sub (ivl_ub i) (ivl_lb x)) (\<lambda>u. Inr (interval l u))))"

definition minmax_interval :: "bound_t list \<Rightarrow> interval_t" where
  "minmax_interval bs = interval (ext_min_list bs) (ext_max_list bs)"

definition corners ::
  "(bound_t \<Rightarrow> bound_t \<Rightarrow> bound_t res) \<Rightarrow> interval_t \<Rightarrow> interval_t \<Rightarrow> interval_t res" where
  "corners f a x =
     bindE (f (ivl_lb a) (ivl_lb x)) (\<lambda>p. bindE (f (ivl_lb a) (ivl_ub x)) (\<lambda>q.
     bindE (f (ivl_ub a) (ivl_lb x)) (\<lambda>r. bindE (f (ivl_ub a) (ivl_ub x)) (\<lambda>s.
       Inr (minmax_interval [p, q, r, s])))))"

definition ivl_mul :: "interval_t \<Rightarrow> interval_t \<Rightarrow> interval_t" where
  "ivl_mul i x =
    (if is_bottom i \<or> is_bottom x then bottom
     else minmax_interval [ext_mul (ivl_lb i) (ivl_lb x), ext_mul (ivl_lb i) (ivl_ub x),
                           ext_mul (ivl_ub i) (ivl_lb x), ext_mul (ivl_ub i) (ivl_ub x)])"

definition make_dividend_when_both_nonzero :: "interval_t \<Rightarrow> interval_t \<Rightarrow> interval_t res" where
  "make_dividend_when_both_nonzero dividend divisor =
    (if ext_ge (ivl_ub dividend) (finite_ext 0) then Inr dividend
     else if ext_less (ivl_ub divisor) (finite_ext 0)
     then bindE (ivl_add dividend divisor) (\<lambda>s. ivl_add s (interval_num 1))
     else bindE (ivl_add dividend (interval_num 1)) (\<lambda>s. ivl_sub s divisor))"

definition neg_part :: "interval_t \<Rightarrow> interval_t" where
  "neg_part i = interval (ivl_lb i) (finite_ext (- 1))"

definition pos_part :: "interval_t \<Rightarrow> interval_t" where
  "pos_part i = interval (finite_ext 1) (ivl_ub i)"

definition join3 :: "interval_t res \<Rightarrow> interval_t res \<Rightarrow> interval_t \<Rightarrow> interval_t res" where
  "join3 p q z = bindE p (\<lambda>a. bindE q (\<lambda>b. Inr (ivl_join (ivl_join a b) z)))"

definition both_nonzero ::
  "(bound_t \<Rightarrow> bound_t \<Rightarrow> bound_t res) \<Rightarrow> interval_t \<Rightarrow> interval_t \<Rightarrow> interval_t res" where
  "both_nonzero f i x = bindE (make_dividend_when_both_nonzero i x) (\<lambda>a. corners f a x)"

lemma parts_without_zero [simp]: "\<not> contains (neg_part i) 0" "\<not> contains (pos_part i) 0"
  by (auto simp: contains_def neg_part_def pos_part_def interval_def is_bottom_def ext_greater_def ext_le_def
      finite_ext_def)

definition zeros :: "interval_t \<Rightarrow> interval_t \<Rightarrow> nat" where
  "zeros i x = (if contains i 0 then 1 else 0) + (if contains x 0 then 1 else 0)"

function ivl_div :: "interval_t \<Rightarrow> interval_t \<Rightarrow> interval_t res" where
  "ivl_div i x =
    (if is_bottom i \<or> is_bottom x then Inr bottom
     else case singleton x of
       Some c \<Rightarrow>
         (if c = 1 then Inr i
          else if c > 0 then
            bindE (ext_div (ivl_lb i) (finite_ext c)) (\<lambda>l. bindE (ext_div (ivl_ub i) (finite_ext c)) (\<lambda>u. Inr (interval l u)))
          else if c < 0 then
            bindE (ext_div (ivl_ub i) (finite_ext c)) (\<lambda>l. bindE (ext_div (ivl_lb i) (finite_ext c)) (\<lambda>u. Inr (interval l u)))
          else Inr (interval_num 0))
     | None \<Rightarrow>
         if contains x 0 then join3 (ivl_div i (neg_part x)) (ivl_div i (pos_part x)) (interval_num 0)
         else if contains i 0 then join3 (ivl_div (neg_part i) x) (ivl_div (pos_part i) x) (interval_num 0)
         else both_nonzero ext_div i x)"
  by pat_completeness auto
termination
  by (relation "measure (\<lambda>(i, x). zeros i x)") (auto simp: zeros_def)

function SDiv :: "interval_t \<Rightarrow> interval_t \<Rightarrow> interval_t res" where
  "SDiv i x =
    (if is_bottom i \<or> is_bottom x then Inr bottom
     else if (case singleton x of Some n \<Rightarrow> fits_cast_to int64_t n | None \<Rightarrow> False) then
       bindE (cast_to int64_t (the (singleton x))) (\<lambda>c.
         if c = 1 then Inr i
         else if c \<noteq> 0 then
           bindE (ext_div (ivl_lb i) (finite_ext c)) (\<lambda>l. bindE (ext_div (ivl_ub i) (finite_ext c)) (\<lambda>u. Inr (interval l u)))
         else Inr (interval_num 0))
     else if contains x 0 then join3 (SDiv i (neg_part x)) (SDiv i (pos_part x)) (interval_num 0)
     else if contains i 0 then join3 (SDiv (neg_part i) x) (SDiv (pos_part i) x) (interval_num 0)
     else both_nonzero ext_div i x)"
  by pat_completeness auto
termination
  by (relation "measure (\<lambda>(i, x). zeros i x)") (auto simp: zeros_def)

function UDiv :: "interval_t \<Rightarrow> interval_t \<Rightarrow> interval_t res" where
  "UDiv i x =
    (if is_bottom i \<or> is_bottom x then Inr bottom
     else if (case singleton x of Some n \<Rightarrow> fits_cast_to int64_t n | None \<Rightarrow> False) then
       bindE (cast_to uint64_t (the (singleton x))) (\<lambda>c.
         if c = 1 then Inr i
         else if c > 0 then
           bindE (ext_UDiv (ivl_lb i) (finite_ext c)) (\<lambda>l. bindE (ext_UDiv (ivl_ub i) (finite_ext c)) (\<lambda>u. Inr (interval l u)))
         else Inr (interval_num 0))
     else if contains x 0 then join3 (UDiv i (neg_part x)) (UDiv i (pos_part x)) (interval_num 0)
     else if contains i 0 then join3 (UDiv (neg_part i) x) (UDiv (pos_part i) x) (interval_num 0)
     else both_nonzero ext_UDiv i x)"
  by pat_completeness auto
termination
  by (relation "measure (\<lambda>(i, x). zeros i x)") (auto simp: zeros_def)

function SRem :: "interval_t \<Rightarrow> interval_t \<Rightarrow> interval_t res" where
  "SRem i x =
    (if is_bottom i \<or> is_bottom x then Inr bottom
     else case (singleton i, singleton x) of
       (Some dividend, Some divisor) \<Rightarrow>
         (if divisor = 0 then Inr (interval_num dividend)
          else bindE (num_mod dividend divisor) (\<lambda>r. Inr (interval_num r)))
     | _ \<Rightarrow>
         if contains x 0 then join3 (SRem i (neg_part x)) (SRem i (pos_part x)) i
         else if is_finite (ivl_ub x) \<and> is_finite (ivl_lb x) then
           bindE (pair_number x) (\<lambda>(xlb, xub).
             let min_divisor = min (num_abs xlb) (num_abs xub); max_divisor = max (num_abs xlb) (num_abs xub) in
             if ext_less (ivl_ub i) (finite_ext min_divisor) \<and> ext_less (ext_neg (ivl_lb i)) (finite_ext min_divisor)
             then Inr i
             else if ext_less (ivl_lb i) (finite_ext 0) then
               (if ext_greater (ivl_ub i) (finite_ext 0)
                then Inr (interval (finite_ext (- (max_divisor - 1))) (finite_ext (max_divisor - 1)))
                else Inr (interval (finite_ext (- (max_divisor - 1))) (finite_ext 0)))
             else Inr (interval (finite_ext 0) (finite_ext (max_divisor - 1))))
         else Inr (ivl_join i (interval_num 0)))"
  by pat_completeness auto
termination
  by (relation "measure (\<lambda>(i, x). zeros i x)") (auto simp: zeros_def)

function URem :: "interval_t \<Rightarrow> interval_t \<Rightarrow> interval_t res" where
  "URem i x =
    (if is_bottom i \<or> is_bottom x then Inr bottom
     else if (case (singleton i, singleton x) of
                (Some a, Some b) \<Rightarrow> fits_cast_to uint64_t a \<and> fits_cast_to uint64_t b | _ \<Rightarrow> False) then
       (let a = the (singleton i); b = the (singleton x) in
        if b = 0 then Inr (interval_num a)
        else bindE (cast_to uint64_t a) (\<lambda>av. bindE (cast_to uint64_t b) (\<lambda>bv. Inr (interval_num (av mod bv)))))
     else if contains x 0 then join3 (URem i (neg_part x)) (URem i (pos_part x)) i
     else if contains i 0 then join3 (URem (neg_part i) x) (URem (pos_part i) x) i
     else if is_infinite (ivl_lb x) \<or> is_infinite (ivl_ub x) then
       (if ext_less (ivl_ub i) (finite_ext 0) then Inr ivl_top
        else bindE (ivl_sub i (interval_num 1)) (\<lambda>d. Inr (ivl_join d (interval_num 0))))
     else
       bindE (if is_finite (ivl_ub i)
              then bindE (cast_to uint64_t (ext_n (ivl_ub i))) (\<lambda>a.
                   bindE (cast_to uint64_t (ext_n (ivl_lb x))) (\<lambda>b. Inr (a < b)))
              else Inr False) (\<lambda>smaller.
         if smaller then Inr i
         else bindE (cast_to uint64_t (ext_n (ivl_ub x))) (\<lambda>m. Inr (interval (finite_ext 0) (finite_ext (m - 1))))))"
  by pat_completeness auto
termination
  by (relation "measure (\<lambda>(i, x). zeros i x)") (auto simp: zeros_def)

declare ivl_div.simps [simp del] SDiv.simps [simp del] UDiv.simps [simp del] SRem.simps [simp del] URem.simps [simp del]

section \<open>Finite-width views\<close>

definition full :: "int_type \<Rightarrow> interval_t" where
  "full T = interval (finite_ext (type_min T)) (finite_ext (type_max T))"

definition nonnegative_range :: "int_type \<Rightarrow> interval_t" where
  "nonnegative_range T = interval (finite_ext 0) (finite_ext (type_max T))"

definition negative_range :: "int_type \<Rightarrow> interval_t" where
  "negative_range T = interval (finite_ext (type_min T)) (finite_ext (- 1))"

definition high_range :: "int_type \<Rightarrow> interval_t" where
  "high_range T = interval (finite_ext (type_max (swap_signedness T) + 1)) (finite_ext (type_max T))"

definition bad_width :: exn where
  "bad_width = RuntimeError ''Invalid width ''"

definition signed_int :: "int \<Rightarrow> interval_t res" where
  "signed_int width = with_width (\<lambda>T. Inr (full T)) Signed bad_width width"

definition unsigned_int :: "int \<Rightarrow> interval_t res" where
  "unsigned_int width = with_width (\<lambda>T. Inr (full T)) Unsigned bad_width width"

definition nonnegative :: "int \<Rightarrow> interval_t res" where
  "nonnegative width = with_width (\<lambda>T. Inr (nonnegative_range T)) Signed bad_width width"

definition negative :: "int \<Rightarrow> interval_t res" where
  "negative width = with_width (\<lambda>T. Inr (negative_range T)) Signed bad_width width"

definition unsigned_high :: "int \<Rightarrow> interval_t res" where
  "unsigned_high width = with_width (\<lambda>T. Inr (high_range T)) Unsigned bad_width width"

definition ivl_truncate_to :: "int_type \<Rightarrow> interval_t \<Rightarrow> interval_t res" where
  "ivl_truncate_to T i =
    (if ivl_le i (full T) then Inr i
     else bindE (finite_size i) (\<lambda>size.
       case size of
         Some s \<Rightarrow>
           (if fits T s then
              let llb = truncate_to T (ext_n (ivl_lb i)); lub = truncate_to T (ext_n (ivl_ub i)) in
              if llb \<le> lub then Inr (interval (finite_ext llb) (finite_ext lub)) else Inr (full T)
            else Inr (full T))
       | None \<Rightarrow> Inr (full T)))"

definition ivl_truncate_to_sint :: "int \<Rightarrow> interval_t \<Rightarrow> interval_t res" where
  "ivl_truncate_to_sint width i = with_width (\<lambda>T. ivl_truncate_to T i) Signed bad_width width"

definition ivl_truncate_to_uint :: "int \<Rightarrow> interval_t \<Rightarrow> interval_t res" where
  "ivl_truncate_to_uint width i = with_width (\<lambda>T. ivl_truncate_to T i) Unsigned bad_width width"

section \<open>Bitwise operations\<close>

definition and_uint32_max :: "interval_t \<Rightarrow> interval_t res" where
  "and_uint32_max i =
     bindE (finite_size i) (\<lambda>width.
       case width of
         Some w \<Rightarrow>
           (let lb32 = truncate_to uint32_t (ext_n (ivl_lb i)); ub32 = truncate_to uint32_t (ext_n (ivl_ub i)) in
            if fits uint32_t w \<and> lb32 < ub32 \<and> lb32 + truncate_to uint32_t w = ub32
            then Inr (interval (finite_ext lb32) (finite_ext ub32))
            else Inr (full uint32_t))
       | None \<Rightarrow> Inr (full uint32_t))"

definition ivl_And :: "interval_t \<Rightarrow> interval_t \<Rightarrow> interval_t res" where
  "ivl_And i x =
    (if is_bottom i \<or> is_bottom x then Inr bottom
     else if \<not> (is_top i \<or> ext_ge (ivl_lb i) (finite_ext 0)) then Inl AssertionFailure
     else if \<not> (is_top x \<or> ext_ge (ivl_lb x) (finite_ext 0)) then Inl AssertionFailure
     else case (singleton i, singleton x) of
       (Some l, Some r) \<Rightarrow> Inr (interval_num (l AND r))
     | _ \<Rightarrow>
         if ivl_eq x (interval_num (type_max uint32_t)) then and_uint32_max i
         else if contains x (type_max uint64_t) then ivl_truncate_to uint64_t i
         else if \<not> is_top i \<and> \<not> is_top x then Inr (interval (finite_ext 0) (ext_min (ivl_ub i) (ivl_ub x)))
         else if \<not> is_top x then Inr (interval (finite_ext 0) (ivl_ub x))
         else if \<not> is_top i then Inr (interval (finite_ext 0) (ivl_ub i))
         else Inr ivl_top)"

definition or_nonsingleton :: "interval_t \<Rightarrow> interval_t \<Rightarrow> interval_t res" where
  "or_nonsingleton i x =
    (if ext_ge (ivl_lb i) (finite_ext 0) \<and> ext_ge (ivl_lb x) (finite_ext 0) then
       (case (ext_number (ivl_ub i), ext_number (ivl_ub x)) of
          (Some l, Some r) \<Rightarrow> bindE (fill_ones (max l r)) (\<lambda>u. Inr (interval (finite_ext 0) (finite_ext u)))
        | _ \<Rightarrow> Inr (interval (finite_ext 0) plus_infinity))
     else Inr ivl_top)"

definition ivl_Or :: "interval_t \<Rightarrow> interval_t \<Rightarrow> interval_t res" where
  "ivl_Or i x =
    (if is_bottom i \<or> is_bottom x then Inr bottom
     else case (singleton i, singleton x) of
       (Some l, Some r) \<Rightarrow> Inr (interval_num (l OR r))
     | _ \<Rightarrow> or_nonsingleton i x)"

definition ivl_Xor :: "interval_t \<Rightarrow> interval_t \<Rightarrow> interval_t res" where
  "ivl_Xor i x =
    (if is_bottom i \<or> is_bottom x then Inr bottom
     else case (singleton i, singleton x) of
       (Some l, Some r) \<Rightarrow> Inr (interval_num (l XOR r))
     | _ \<Rightarrow> ivl_Or i x)"

primrec double_loop :: "nat \<Rightarrow> number_t \<Rightarrow> number_t" where
  "double_loop 0 factor = factor"
| "double_loop (Suc k) factor = double_loop k (factor * 2)"

definition ivl_Shl :: "interval_t \<Rightarrow> interval_t \<Rightarrow> interval_t" where
  "ivl_Shl i x =
    (if is_bottom i \<or> is_bottom x then bottom
     else case singleton x of
       Some k \<Rightarrow>
         (if k < 0 then ivl_top
          else if k \<le> 128 then ivl_mul i (interval_num (double_loop (nat k) 1))
          else ivl_top)
     | None \<Rightarrow> ivl_top)"

definition ivl_AShr :: "interval_t \<Rightarrow> interval_t \<Rightarrow> interval_t res" where
  "ivl_AShr i x =
    (if is_bottom i \<or> is_bottom x then Inr bottom
     else case singleton x of
       Some k \<Rightarrow>
         (if k < 0 then Inr ivl_top
          else if k \<le> 128 then ivl_div i (interval_num (double_loop (nat k) 1))
          else Inr ivl_top)
     | None \<Rightarrow> Inr ivl_top)"

definition ivl_LShr :: "interval_t \<Rightarrow> interval_t \<Rightarrow> interval_t res" where
  "ivl_LShr i x =
    (if is_bottom i \<or> is_bottom x then Inr bottom
     else case singleton x of
       Some k \<Rightarrow>
         (if k > 0 \<and> ext_ge (ivl_lb i) (finite_ext 0) \<and> is_finite (ivl_ub i) then
            bindE (pair_number i) (\<lambda>(l, u).
              bindE (num_shr l k) (\<lambda>l'. bindE (num_shr u k) (\<lambda>u'. Inr (interval (finite_ext l') (finite_ext u')))))
          else Inr ivl_top)
     | None \<Rightarrow> Inr ivl_top)"

end
