(* ===== verification/Abstract_Domain.thy ===== *)
theory Abstract_Domain
  imports Ebpf_Prelude
begin

text \<open>
  The contract between an abstract domain of \<^verbatim>\<open>crab/\<close> and the analyser that iterates over it: a
  concretisation \<open>gam\<close>, an order test that decides inclusion, joins and meets, and for the loop
  heads a widening whose use along any sequence of states is finite.
\<close>

locale abstract_domain =
  fixes gam :: "'a \<Rightarrow> 'b set"
    and ok :: "'a \<Rightarrow> bool"
    and le :: "'a \<Rightarrow> 'a \<Rightarrow> bool"
    and join :: "'a \<Rightarrow> 'a \<Rightarrow> 'a"
    and meet :: "'a \<Rightarrow> 'a \<Rightarrow> 'a"
    and bot :: 'a
    and topd :: 'a
  assumes le_iff: "ok a \<Longrightarrow> ok b \<Longrightarrow> le a b \<longleftrightarrow> gam a \<subseteq> gam b"
    and ok_join: "ok a \<Longrightarrow> ok b \<Longrightarrow> ok (join a b)"
    and join_upper: "ok a \<Longrightarrow> ok b \<Longrightarrow> gam a \<union> gam b \<subseteq> gam (join a b)"
    and join_least: "ok a \<Longrightarrow> ok b \<Longrightarrow> ok c \<Longrightarrow> le a c \<Longrightarrow> le b c \<Longrightarrow> le (join a b) c"
    and ok_meet: "ok a \<Longrightarrow> ok b \<Longrightarrow> ok (meet a b)"
    and meet_exact: "ok a \<Longrightarrow> ok b \<Longrightarrow> gam (meet a b) = gam a \<inter> gam b"
    and ok_bot: "ok bot" and gam_bot: "gam bot = {}"
    and ok_top: "ok topd" and gam_top: "gam topd = UNIV"
begin

lemma le_refl: "ok a \<Longrightarrow> le a a"
  by (simp add: le_iff)

lemma le_trans: "ok a \<Longrightarrow> ok b \<Longrightarrow> ok c \<Longrightarrow> le a b \<Longrightarrow> le b c \<Longrightarrow> le a c"
  by (auto simp: le_iff)

lemma bot_least: "ok a \<Longrightarrow> le bot a"
  by (simp add: le_iff ok_bot gam_bot)

lemma top_greatest: "ok a \<Longrightarrow> le a topd"
  by (simp add: le_iff ok_top gam_top)

lemma join_mono:
  assumes "ok a" "ok b" "ok a'" "ok b'" "le a a'" "le b b'"
  shows "le (join a b) (join a' b')"
proof (rule join_least)
  have "gam a' \<subseteq> gam (join a' b')" "gam b' \<subseteq> gam (join a' b')" using join_upper assms(3,4) by auto
  then show "le a (join a' b')" "le b (join a' b')" using assms ok_join by (auto simp: le_iff)
qed (use assms ok_join in auto)

text \<open>Joining the states of all predecessors of a node covers each of them.\<close>

lemma join_all:
  assumes "ok a" "\<forall>x \<in> set xs. ok x"
  shows "ok (fold join xs a) \<and> gam a \<subseteq> gam (fold join xs a) \<and> (\<forall>x \<in> set xs. gam x \<subseteq> gam (fold join xs a))"
  using assms
proof (induction xs arbitrary: a)
  case (Cons x xs)
  have "ok (join x a)" "gam x \<union> gam a \<subseteq> gam (join x a)" using Cons.prems ok_join join_upper by auto
  with Cons.IH [of "join x a"] Cons.prems show ?case by simp blast
qed simp

end

locale widening_domain = abstract_domain +
  fixes wid :: "'a \<Rightarrow> 'a \<Rightarrow> 'a"
    and rank :: "'a \<Rightarrow> nat"
  assumes ok_wid: "ok a \<Longrightarrow> ok b \<Longrightarrow> ok (wid a b)"
    and wid_upper: "ok a \<Longrightarrow> ok b \<Longrightarrow> gam a \<union> gam b \<subseteq> gam (wid a b)"
    and wid_rank: "ok a \<Longrightarrow> ok b \<Longrightarrow> \<not> le b a \<Longrightarrow> rank (wid a b) < rank a"
begin

text \<open>
  The loop of the fixpoint iterator at a loop head: as long as the new state is not below the
  invariant, widen.
\<close>

primrec iterate :: "('a \<Rightarrow> 'a) \<Rightarrow> nat \<Rightarrow> 'a \<Rightarrow> 'a" where
  "iterate f 0 a = a"
| "iterate f (Suc n) a = (if le (f a) a then a else iterate f n (wid a (f a)))"

lemma iterate_reaches_post_fixpoint:
  assumes "\<And>x. ok x \<Longrightarrow> ok (f x)" "ok a" "rank a < n"
  shows "ok (iterate f n a) \<and> le (f (iterate f n a)) (iterate f n a) \<and> gam a \<subseteq> gam (iterate f n a)"
  using assms(2,3)
proof (induction n arbitrary: a)
  case (Suc n)
  show ?case
  proof (cases "le (f a) a")
    case False
    have "ok (wid a (f a))" "rank (wid a (f a)) < n" "gam a \<subseteq> gam (wid a (f a))"
      using Suc.prems False assms(1) ok_wid wid_upper wid_rank [of a "f a"] by auto
    with Suc.IH [of "wid a (f a)"] False show ?thesis by auto
  qed (use Suc.prems in simp)
qed simp

end

end
