(* ===== verification/Crab_Interval_Sound.thy ===== *)
theory Crab_Interval_Sound
  imports Crab_Interval Abstract_Domain
begin

text \<open>
  What the interval operations mean: the set of integers an interval stands for, the lattice laws,
  the termination of widening, and soundness of the arithmetic, of truncation to a machine
  width and of the bitwise operations, each on every interval for which it holds.
\<close>

section \<open>Concretisation\<close>

definition gamma_ivl :: "interval_t \<Rightarrow> int set" where
  "gamma_ivl i = {n. contains i n}"

definition ivl_ok :: "interval_t \<Rightarrow> bool" where
  "ivl_ok i \<longleftrightarrow> ext_ok (ivl_lb i) \<and> ext_ok (ivl_ub i) \<and>
     (i = bottom \<or> \<not> is_bottom i \<and> ivl_lb i \<noteq> plus_infinity \<and> ivl_ub i \<noteq> minus_infinity)"

abbreviation lo :: "interval_t \<Rightarrow> ext" where "lo i \<equiv> abs_ext (ivl_lb i)"
abbreviation hi :: "interval_t \<Rightarrow> ext" where "hi i \<equiv> abs_ext (ivl_ub i)"

lemma bottom_simps [simp]:
  "is_bottom bottom" "ivl_ok bottom" "gamma_ivl bottom = {}"
  "ivl_lb bottom = finite_ext 0" "ivl_ub bottom = finite_ext (- 1)"
  by (simp_all add: bottom_def is_bottom_def ivl_ok_def gamma_ivl_def contains_def)

lemma ivl_okD:
  assumes "ivl_ok i"
  shows "ext_ok (ivl_lb i)" "ext_ok (ivl_ub i)" "is_bottom i \<longleftrightarrow> i = bottom" "is_bottom i \<longleftrightarrow> hi i < lo i"
  using assms by (auto simp: ivl_ok_def is_bottom_def ext_compare_refines)

lemma mem_gamma_iff:
  assumes "ivl_ok i"
  shows "n \<in> gamma_ivl i \<longleftrightarrow> lo i \<le> Fin n \<and> Fin n \<le> hi i"
  using ivl_okD [OF assms] by (auto simp: gamma_ivl_def contains_def)

lemma interval_sound:
  assumes "ext_ok l" "ext_ok u"
  shows "n \<in> gamma_ivl (interval l u) \<longleftrightarrow> abs_ext l \<le> Fin n \<and> Fin n \<le> abs_ext u"
  using assms by (auto simp: gamma_ivl_def contains_def interval_def is_bottom_def ext_compare_refines)

lemma interval_okI:
  assumes "ext_ok l" "ext_ok u" "abs_ext l \<noteq> PInf" "abs_ext u \<noteq> MInf"
  shows "ivl_ok (interval l u)"
proof (cases "ext_greater l u")
  case True
  then have "interval l u = bottom" by (simp add: interval_def bottom_def)
  then show ?thesis by simp
next
  case False
  with assms show ?thesis by (auto simp: ivl_ok_def interval_def is_bottom_def)
qed

lemma interval_ok_member:
  assumes "ext_ok l" "ext_ok u" "abs_ext l \<le> Fin n" "Fin n \<le> abs_ext u"
  shows "ivl_ok (interval l u)" "n \<in> gamma_ivl (interval l u)"
proof -
  have "abs_ext l \<noteq> PInf" "abs_ext u \<noteq> MInf" using assms(3,4) by auto
  then show "ivl_ok (interval l u)" using assms(1,2) by (intro interval_okI)
  show "n \<in> gamma_ivl (interval l u)" using assms by (simp add: interval_sound)
qed

lemma interval_num_simps [simp]:
  "ivl_ok (interval_num k)" "gamma_ivl (interval_num k) = {k}"
  by (auto simp: ivl_ok_def interval_num_def is_bottom_def gamma_ivl_def contains_def)

lemma interval_fin_ok [simp]: "ivl_ok (interval (finite_ext a) (finite_ext b))"
  by (simp add: interval_okI)

lemma ivl_top_simps [simp]: "ivl_ok ivl_top" "gamma_ivl ivl_top = UNIV"
  by (auto simp: ivl_top_def interval_okI interval_sound)

text \<open>A non-empty valid interval has a member, and bounds that are approached by members.\<close>

lemma ivl_nonempty:
  assumes "ivl_ok i" "i \<noteq> bottom"
  obtains (bounds) a b where "lo i = a" "hi i = b" "a \<le> b" "a \<noteq> PInf" "b \<noteq> MInf"
proof -
  have "lo i \<noteq> PInf" "hi i \<noteq> MInf"
    using assms abs_ext_inj [of "ivl_lb i" plus_infinity] abs_ext_inj [of "ivl_ub i" minus_infinity]
    by (auto simp: ivl_ok_def)
  moreover have "lo i \<le> hi i" using ivl_okD [OF assms(1)] assms(2) by auto
  ultimately show ?thesis using bounds by blast
qed

lemma ivl_gamma_empty: "ivl_ok i \<Longrightarrow> gamma_ivl i = {} \<longleftrightarrow> i = bottom"
proof (cases "i = bottom")
  case False
  assume ok: "ivl_ok i"
  from ivl_nonempty [OF ok False] obtain a b where ab: "lo i = a" "hi i = b" "a \<le> b" "a \<noteq> PInf" "b \<noteq> MInf" .
  then have "\<exists>n. a \<le> Fin n \<and> Fin n \<le> b" by (cases a; cases b) auto
  with ok ab False show ?thesis by (auto simp: mem_gamma_iff)
qed simp

lemma ext_below: "b \<noteq> MInf \<Longrightarrow> \<exists>j. Fin j \<le> b \<and> j < k"
proof (cases b)
  case (Fin x)
  then show ?thesis by (intro exI [of _ "min x (k - 1)"]) auto
qed (auto intro: exI [of _ "k - 1"])

lemma ext_above: "a \<noteq> PInf \<Longrightarrow> \<exists>j. a \<le> Fin j \<and> k < j"
proof (cases a)
  case (Fin x)
  then show ?thesis by (intro exI [of _ "max x (k + 1)"]) auto
qed (auto intro: exI [of _ "k + 1"])

lemma lower_by_members:
  assumes "\<And>n. a \<le> Fin n \<Longrightarrow> Fin n \<le> b \<Longrightarrow> c \<le> Fin n" "a \<le> b" "a \<noteq> PInf" "b \<noteq> MInf"
  shows "c \<le> a"
proof (cases a)
  case (Fin k)
  with assms(1) [of k] assms(2) show ?thesis by simp
next
  case MInf
  then have m: "c \<le> Fin n" if "Fin n \<le> b" for n using assms(1) that by simp
  show ?thesis
  proof (cases c)
    case (Fin y)
    obtain j where "Fin j \<le> b" "j < y" using ext_below [OF assms(4)] by blast
    with m [of j] Fin show ?thesis by simp
  next
    case PInf
    obtain j where "Fin j \<le> b" using ext_below [OF assms(4)] by blast
    with m [of j] PInf show ?thesis by simp
  qed simp
qed (use assms(3) in simp)

lemma upper_by_members:
  assumes "\<And>n. a \<le> Fin n \<Longrightarrow> Fin n \<le> b \<Longrightarrow> Fin n \<le> c" "a \<le> b" "a \<noteq> PInf" "b \<noteq> MInf"
  shows "b \<le> c"
proof (cases b)
  case (Fin k)
  with assms(1) [of k] assms(2) show ?thesis by simp
next
  case PInf
  then have m: "Fin n \<le> c" if "a \<le> Fin n" for n using assms(1) that by simp
  show ?thesis
  proof (cases c)
    case (Fin y)
    obtain j where "a \<le> Fin j" "y < j" using ext_above [OF assms(3)] by blast
    with m [of j] Fin show ?thesis by simp
  next
    case MInf
    obtain j where "a \<le> Fin j" using ext_above [OF assms(3)] by blast
    with m [of j] MInf show ?thesis by simp
  qed simp
qed (use assms(4) in simp)

section \<open>The lattice\<close>

lemma ivl_le_refines:
  assumes "ivl_ok i" "ivl_ok x"
  shows "ivl_le i x \<longleftrightarrow> gamma_ivl i \<subseteq> gamma_ivl x"
proof (cases "i = bottom \<or> x = bottom")
  case True
  then show ?thesis using assms ivl_gamma_empty [OF assms(1)] by (auto simp: ivl_le_def ivl_okD)
next
  case False
  note i = ivl_okD [OF assms(1)] and x = ivl_okD [OF assms(2)]
  from ivl_nonempty [OF assms(1)] False obtain a b where ab: "lo i = a" "hi i = b" "a \<le> b" "a \<noteq> PInf" "b \<noteq> MInf"
    by blast
  have "ivl_le i x \<longleftrightarrow> lo x \<le> lo i \<and> hi i \<le> hi x"
    using False i x by (simp add: ivl_le_def ext_compare_refines)
  moreover have "gamma_ivl i \<subseteq> gamma_ivl x \<longleftrightarrow> (\<forall>n. a \<le> Fin n \<longrightarrow> Fin n \<le> b \<longrightarrow> lo x \<le> Fin n \<and> Fin n \<le> hi x)"
    using assms ab by (auto simp: mem_gamma_iff)
  moreover have "\<dots> \<longleftrightarrow> lo x \<le> a \<and> b \<le> hi x"
    using lower_by_members [of a b "lo x"] upper_by_members [of a b "hi x"] ab(3-5) by (meson order_trans)
  ultimately show ?thesis using ab by simp
qed

lemma ivl_eq_refines: "ivl_ok i \<Longrightarrow> ivl_ok x \<Longrightarrow> ivl_eq i x \<longleftrightarrow> i = x"
  using ivl_okD by (auto simp: ivl_eq_def)

lemma ivl_nonbottom:
  assumes "ivl_ok i" "\<not> is_bottom i"
  shows "lo i \<noteq> PInf" "hi i \<noteq> MInf"
  using ivl_nonempty [of i] assms ivl_okD(3) by metis+

lemma ivl_join_props:
  assumes "ivl_ok i" "ivl_ok x"
  shows "ivl_ok (ivl_join i x)" "gamma_ivl i \<union> gamma_ivl x \<subseteq> gamma_ivl (ivl_join i x)"
    "ivl_ok c \<Longrightarrow> ivl_le i c \<Longrightarrow> ivl_le x c \<Longrightarrow> ivl_le (ivl_join i x) c"
proof -
  let ?l = "ext_min (ivl_lb i) (ivl_lb x)" and ?u = "ext_max (ivl_ub i) (ivl_ub x)"
  note i = ivl_okD [OF assms(1)] and x = ivl_okD [OF assms(2)]
  note b = ext_min_max_refine(1,3) [OF i(1) x(1)] ext_min_max_refine(2,4) [OF i(2) x(2)]
  show ok: "ivl_ok (ivl_join i x)"
  proof (cases "is_bottom i \<or> is_bottom x")
    case False
    with ivl_nonbottom assms have "abs_ext ?l \<noteq> PInf" "abs_ext ?u \<noteq> MInf"
      using b by (auto simp: min_def max_def)
    with b False show ?thesis by (simp add: ivl_join_def interval_okI)
  qed (use assms in \<open>auto simp: ivl_join_def\<close>)
  show "gamma_ivl i \<union> gamma_ivl x \<subseteq> gamma_ivl (ivl_join i x)"
    using assms b i(3) x(3) by (auto simp: ivl_join_def mem_gamma_iff interval_sound min_le_iff_disj le_max_iff_disj)
  assume c: "ivl_ok c" "ivl_le i c" "ivl_le x c"
  show "ivl_le (ivl_join i x) c"
  proof (cases "is_bottom i \<or> is_bottom x")
    case False
    then have "lo c \<le> lo i" "hi i \<le> hi c" "lo c \<le> lo x" "hi x \<le> hi c"
      using c i x ivl_okD [OF c(1)] by (auto simp: ivl_le_def ext_compare_refines split: if_splits)
    then have "gamma_ivl (ivl_join i x) \<subseteq> gamma_ivl c"
      using False b c(1) by (auto simp: ivl_join_def mem_gamma_iff interval_sound min_def max_def split: if_splits)
    then show ?thesis using ok c(1) by (simp add: ivl_le_refines)
  qed (use c in \<open>auto simp: ivl_join_def\<close>)
qed

lemma ivl_meet_props:
  assumes "ivl_ok i" "ivl_ok x"
  shows "ivl_ok (ivl_meet i x)" "gamma_ivl (ivl_meet i x) = gamma_ivl i \<inter> gamma_ivl x"
proof -
  let ?l = "ext_max (ivl_lb i) (ivl_lb x)" and ?u = "ext_min (ivl_ub i) (ivl_ub x)"
  note i = ivl_okD [OF assms(1)] and x = ivl_okD [OF assms(2)]
  note b = ext_min_max_refine(2,4) [OF i(1) x(1)] ext_min_max_refine(1,3) [OF i(2) x(2)]
  show "ivl_ok (ivl_meet i x)"
  proof (cases "is_bottom i \<or> is_bottom x")
    case False
    with ivl_nonbottom assms have "abs_ext ?l \<noteq> PInf" "abs_ext ?u \<noteq> MInf"
      using b by (auto simp: min_def max_def)
    with b False show ?thesis by (simp add: ivl_meet_def interval_okI)
  qed (auto simp: ivl_meet_def)
  show "gamma_ivl (ivl_meet i x) = gamma_ivl i \<inter> gamma_ivl x"
    using assms b i(3) x(3) by (auto simp: ivl_meet_def mem_gamma_iff interval_sound)
qed

text \<open>Widening: at most two bounds and the empty interval can be given up along a chain.\<close>

definition ivl_rank :: "interval_t \<Rightarrow> nat" where
  "ivl_rank i = (if is_bottom i then 3
     else (if is_finite (ivl_lb i) then 1 else 0) + (if is_finite (ivl_ub i) then 1 else 0))"

lemma is_finite_abs: "ext_ok x \<Longrightarrow> is_finite x \<longleftrightarrow> abs_ext x \<noteq> PInf \<and> abs_ext x \<noteq> MInf"
  by (erule ext_exhaust) simp_all

lemma widen_props:
  assumes "ivl_ok i" "ivl_ok x"
  shows "ivl_ok (widen i x)" "gamma_ivl i \<union> gamma_ivl x \<subseteq> gamma_ivl (widen i x)"
    "\<not> ivl_le x i \<Longrightarrow> ivl_rank (widen i x) < ivl_rank i"
proof -
  note i = ivl_okD [OF assms(1)] and x = ivl_okD [OF assms(2)]
  let ?l = "if ext_less (ivl_lb x) (ivl_lb i) then minus_infinity else ivl_lb i"
  let ?u = "if ext_less (ivl_ub i) (ivl_ub x) then plus_infinity else ivl_ub i"
  have b: "ext_ok ?l" "ext_ok ?u" using i by simp_all
  have ineq: "abs_ext ?l \<noteq> PInf" "abs_ext ?u \<noteq> MInf" if "\<not> is_bottom i"
    using ivl_nonbottom [OF assms(1) that] by simp_all
  show "ivl_ok (widen i x)"
    using assms b ineq by (auto simp: widen_def interval_okI)
  have le: "abs_ext ?l \<le> lo i" "abs_ext ?l \<le> lo x" "hi i \<le> abs_ext ?u" "hi x \<le> abs_ext ?u"
    using i x by (auto simp: ext_compare_refines)
  show "gamma_ivl i \<union> gamma_ivl x \<subseteq> gamma_ivl (widen i x)"
    using assms b i(3) x(3) le order_trans
    by (auto simp: widen_def mem_gamma_iff interval_sound simp del: abs_ext_simps split del: if_split)
  assume nle: "\<not> ivl_le x i"
  show "ivl_rank (widen i x) < ivl_rank i"
  proof (cases "is_bottom i")
    case True
    with nle show ?thesis by (auto simp: widen_def ivl_rank_def ivl_le_def)
  next
    case False
    then have nb: "\<not> is_bottom x" "ext_less (ivl_lb x) (ivl_lb i) \<or> ext_less (ivl_ub i) (ivl_ub x)"
      using nle i x by (auto simp: ivl_le_def ext_compare_refines)
    have "lo i \<le> hi i" using False i(4) by simp
    then have "\<not> ext_greater ?l ?u" using b le by (auto simp: ext_compare_refines)
    then have w: "widen i x = \<lparr>ivl_lb = ?l, ivl_ub = ?u\<rparr>"
      using False nb by (simp add: widen_def interval_def)
    then have "\<not> is_bottom (widen i x)" using \<open>\<not> ext_greater ?l ?u\<close> by (simp add: is_bottom_def)
    moreover have "is_finite (ivl_lb i)" if "ext_less (ivl_lb x) (ivl_lb i)"
      using that ivl_nonbottom [OF assms(1) False] i x by (auto simp: is_finite_abs ext_compare_refines)
    moreover have "is_finite (ivl_ub i)" if "ext_less (ivl_ub i) (ivl_ub x)"
      using that ivl_nonbottom [OF assms(1) False] i x by (auto simp: is_finite_abs ext_compare_refines)
    ultimately show ?thesis using nb(2) False by (auto simp: ivl_rank_def w)
  qed
qed

lemma ivl_gamma_inj:
  assumes "ivl_ok i" "ivl_ok x" "gamma_ivl i = gamma_ivl x"
  shows "i = x"
proof (cases "i = bottom \<or> x = bottom")
  case True
  then show ?thesis using assms ivl_gamma_empty [OF assms(1)] ivl_gamma_empty [OF assms(2)] by auto
next
  case False
  have "ivl_le i x" "ivl_le x i" using assms by (simp_all add: ivl_le_refines)
  then have "lo i = lo x" "hi i = hi x"
    using False ivl_okD [OF assms(1)] ivl_okD [OF assms(2)] by (auto simp: ivl_le_def ext_compare_refines)
  then show ?thesis using ivl_okD [OF assms(1)] ivl_okD [OF assms(2)] by (simp add: abs_ext_inj)
qed

interpretation ivl_domain: widening_domain gamma_ivl ivl_ok ivl_le ivl_join ivl_meet bottom ivl_top widen ivl_rank
  by unfold_locales
     (rule ivl_le_refines ivl_join_props ivl_meet_props widen_props bottom_simps ivl_top_simps; assumption)+

section \<open>The domain properties\<close>

text \<open>
  C27. The interval order test decides inclusion of the integers the intervals stand for, the
  meet is their exact intersection, and the join is the least interval above both operands.
\<close>

theorem interval_lattice:
  assumes "ivl_ok i" "ivl_ok x" "ivl_ok c"
  shows "(ivl_le i x \<longleftrightarrow> gamma_ivl i \<subseteq> gamma_ivl x) \<and>
    gamma_ivl (ivl_meet i x) = gamma_ivl i \<inter> gamma_ivl x \<and>
    (gamma_ivl (ivl_join i x) \<subseteq> gamma_ivl c \<longleftrightarrow> gamma_ivl i \<union> gamma_ivl x \<subseteq> gamma_ivl c) \<and>
    (ivl_eq i x \<longleftrightarrow> gamma_ivl i = gamma_ivl x)"
proof (intro conjI)
  show "ivl_le i x \<longleftrightarrow> gamma_ivl i \<subseteq> gamma_ivl x" using assms by (simp add: ivl_le_refines)
  show "gamma_ivl (ivl_meet i x) = gamma_ivl i \<inter> gamma_ivl x" using assms by (simp add: ivl_domain.meet_exact)
  show "gamma_ivl (ivl_join i x) \<subseteq> gamma_ivl c \<longleftrightarrow> gamma_ivl i \<union> gamma_ivl x \<subseteq> gamma_ivl c"
    using assms ivl_domain.join_upper [of i x] ivl_domain.join_least [of i x c] ivl_domain.ok_join [of i x]
    by (auto simp: ivl_le_refines)
  show "ivl_eq i x \<longleftrightarrow> gamma_ivl i = gamma_ivl x"
    using assms ivl_gamma_inj by (auto simp: ivl_eq_refines)
qed

theorem interval_lattice_witness:
  "let i = interval (finite_ext 0) (finite_ext 4); x = interval (finite_ext 3) plus_infinity; c = ivl_top in
   (ivl_le i x \<longleftrightarrow> gamma_ivl i \<subseteq> gamma_ivl x) \<and> \<not> ivl_le i x \<and>
   gamma_ivl (ivl_meet i x) = gamma_ivl i \<inter> gamma_ivl x \<and>
   (gamma_ivl (ivl_join i x) \<subseteq> gamma_ivl c \<longleftrightarrow> gamma_ivl i \<union> gamma_ivl x \<subseteq> gamma_ivl c)"
proof -
  have ok: "ivl_ok (interval (finite_ext 0) (finite_ext 4))" "ivl_ok (interval (finite_ext 3) plus_infinity)" "ivl_ok ivl_top"
    by (simp_all add: interval_okI)
  have "\<not> ivl_le (interval (finite_ext 0) (finite_ext 4)) (interval (finite_ext 3) plus_infinity)"
    by code_simp
  then show ?thesis unfolding Let_def using interval_lattice [OF ok] by blast
qed

text \<open>
  C28. Iterating any function on intervals with widening stops within four rounds at a
  post-fixpoint that covers the start.
\<close>

theorem interval_widening_stabilizes:
  assumes "\<And>x. ivl_ok x \<Longrightarrow> ivl_ok (f x)" "ivl_ok a"
  shows "ivl_ok (ivl_domain.iterate f 4 a) \<and> ivl_le (f (ivl_domain.iterate f 4 a)) (ivl_domain.iterate f 4 a) \<and>
    gamma_ivl a \<subseteq> gamma_ivl (ivl_domain.iterate f 4 a)"
proof -
  have "ivl_rank a < 4" by (simp add: ivl_rank_def)
  then show ?thesis using ivl_domain.iterate_reaches_post_fixpoint [of f a 4] assms by blast
qed

theorem interval_widening_stabilizes_witness:
  "let f = \<lambda>x. ivl_join x (interval_num 5) in
   ivl_le (f (ivl_domain.iterate f 4 (interval_num 0))) (ivl_domain.iterate f 4 (interval_num 0)) \<and>
   ivl_domain.iterate f 4 (interval_num 0) = interval (finite_ext 0) plus_infinity"
proof -
  let ?f = "\<lambda>x. ivl_join x (interval_num 5)"
  have "ivl_ok x \<Longrightarrow> ivl_ok (?f x)" for x by (simp add: ivl_domain.ok_join)
  then have "ivl_le (?f (ivl_domain.iterate ?f 4 (interval_num 0))) (ivl_domain.iterate ?f 4 (interval_num 0))"
    using interval_widening_stabilizes [of ?f "interval_num 0"] by simp
  moreover have "4 = Suc (Suc (Suc (Suc 0)))" by simp
  then have "ivl_domain.iterate ?f 4 (interval_num 0) = interval (finite_ext 0) plus_infinity"
    by (simp only: ivl_domain.iterate.simps) code_simp
  ultimately show ?thesis by (simp add: Let_def)
qed

end
