(* ===== verification/Crab_Interval_Arith.thy ===== *)
theory Crab_Interval_Arith
  imports Crab_Interval_Sound
begin

text \<open>
  Soundness of interval arithmetic: the result of an operation contains the result of the operation
  on every pair of members. Division by zero gives zero and a remainder by zero the dividend, as the
  instruction set defines them.
\<close>

section \<open>Addition, subtraction, negation\<close>

lemma ext_add_lower:
  assumes "ext_ok x" "ext_ok y" "abs_ext x \<le> Fin n" "abs_ext y \<le> Fin m"
  shows "\<exists>z. ext_add x y = Inr z \<and> ext_ok z \<and> abs_ext z \<le> Fin (n + m)"
  using assms by (elim ext_exhaust) auto

lemma ext_add_upper:
  assumes "ext_ok x" "ext_ok y" "Fin n \<le> abs_ext x" "Fin m \<le> abs_ext y"
  shows "\<exists>z. ext_add x y = Inr z \<and> ext_ok z \<and> Fin (n + m) \<le> abs_ext z"
  using assms by (elim ext_exhaust) auto

lemma ext_neg_ok:
  assumes "ext_ok x"
  shows "ext_ok (ext_neg x)" "abs_ext (ext_neg x) \<le> Fin n \<longleftrightarrow> Fin (- n) \<le> abs_ext x"
    "Fin n \<le> abs_ext (ext_neg x) \<longleftrightarrow> abs_ext x \<le> Fin (- n)"
  using assms by (elim ext_exhaust; auto)+

lemma ivl_add_sound:
  assumes "ivl_ok i" "ivl_ok x" "n \<in> gamma_ivl i" "m \<in> gamma_ivl x"
  shows "\<exists>j. ivl_add i x = Inr j \<and> ivl_ok j \<and> n + m \<in> gamma_ivl j"
proof -
  note i = ivl_okD [OF assms(1)] and x = ivl_okD [OF assms(2)]
  have mem: "lo i \<le> Fin n" "Fin n \<le> hi i" "lo x \<le> Fin m" "Fin m \<le> hi x"
    using assms by (simp_all add: mem_gamma_iff)
  obtain l where l: "ext_add (ivl_lb i) (ivl_lb x) = Inr l" "ext_ok l" "abs_ext l \<le> Fin (n + m)"
    using ext_add_lower [OF i(1) x(1) mem(1,3)] by blast
  obtain u where u: "ext_add (ivl_ub i) (ivl_ub x) = Inr u" "ext_ok u" "Fin (n + m) \<le> abs_ext u"
    using ext_add_upper [OF i(2) x(2) mem(2,4)] by blast
  have "\<not> is_bottom i" "\<not> is_bottom x" using assms i(3) x(3) by auto
  then show ?thesis using l u interval_ok_member [OF l(2) u(2) l(3) u(3)] by (simp add: ivl_add_def)
qed

lemma ivl_sub_sound:
  assumes "ivl_ok i" "ivl_ok x" "n \<in> gamma_ivl i" "m \<in> gamma_ivl x"
  shows "\<exists>j. ivl_sub i x = Inr j \<and> ivl_ok j \<and> n - m \<in> gamma_ivl j"
proof -
  note i = ivl_okD [OF assms(1)] and x = ivl_okD [OF assms(2)]
  have mem: "lo i \<le> Fin n" "Fin n \<le> hi i" "lo x \<le> Fin m" "Fin m \<le> hi x"
    using assms by (simp_all add: mem_gamma_iff)
  have neg: "abs_ext (ext_neg (ivl_ub x)) \<le> Fin (- m)" "Fin (- m) \<le> abs_ext (ext_neg (ivl_lb x))"
    using mem x by (simp_all add: ext_neg_ok)
  obtain l where l: "ext_sub (ivl_lb i) (ivl_ub x) = Inr l" "ext_ok l" "abs_ext l \<le> Fin (n - m)"
    using ext_add_lower [OF i(1) ext_neg_ok(1) [OF x(2)] mem(1) neg(1)] by (auto simp: ext_sub_def)
  obtain u where u: "ext_sub (ivl_ub i) (ivl_lb x) = Inr u" "ext_ok u" "Fin (n - m) \<le> abs_ext u"
    using ext_add_upper [OF i(2) ext_neg_ok(1) [OF x(1)] mem(2) neg(2)] by (auto simp: ext_sub_def)
  have "\<not> is_bottom i" "\<not> is_bottom x" using assms i(3) x(3) by auto
  then show ?thesis using l u interval_ok_member [OF l(2) u(2) l(3) u(3)] by (simp add: ivl_sub_def)
qed

lemma ivl_neg_sound:
  assumes "ivl_ok i" "n \<in> gamma_ivl i"
  shows "ivl_ok (ivl_neg i) \<and> - n \<in> gamma_ivl (ivl_neg i)"
proof -
  note i = ivl_okD [OF assms(1)]
  have mem: "lo i \<le> Fin n" "Fin n \<le> hi i" using assms by (simp_all add: mem_gamma_iff)
  have neg: "abs_ext (ext_neg (ivl_ub i)) \<le> Fin (- n)" "Fin (- n) \<le> abs_ext (ext_neg (ivl_lb i))"
    using mem i by (simp_all add: ext_neg_ok)
  have "\<not> is_bottom i" using assms i(3) by auto
  then show ?thesis
    using interval_ok_member [OF ext_neg_ok(1) [OF i(2)] ext_neg_ok(1) [OF i(1)] neg] by (simp add: ivl_neg_def)
qed

section \<open>Multiplication\<close>

fun emul :: "ext \<Rightarrow> ext \<Rightarrow> ext" where
  "emul (Fin a) (Fin b) = Fin (a * b)"
| "emul (Fin a) PInf = (if a = 0 then Fin 0 else if a > 0 then PInf else MInf)"
| "emul (Fin a) MInf = (if a = 0 then Fin 0 else if a > 0 then MInf else PInf)"
| "emul PInf (Fin a) = (if a = 0 then Fin 0 else if a > 0 then PInf else MInf)"
| "emul MInf (Fin a) = (if a = 0 then Fin 0 else if a > 0 then MInf else PInf)"
| "emul PInf PInf = PInf"
| "emul MInf MInf = PInf"
| "emul PInf MInf = MInf"
| "emul MInf PInf = MInf"

lemma ext_mul_refines:
  assumes "ext_ok x" "ext_ok y"
  shows "ext_ok (ext_mul x y)" "abs_ext (ext_mul x y) = emul (abs_ext x) (abs_ext y)"
  using assms by (elim ext_exhaust; simp)+

lemma emul_commute: "emul x y = emul y x"
  by (cases x; cases y) (simp_all add: mult.commute)

text \<open>For a fixed factor, multiplication is monotone or antitone in the other one.\<close>

lemma emul_between:
  assumes "a \<le> x" "x \<le> b"
  shows "(\<exists>c \<in> {a, b}. emul c y \<le> emul x y) \<and> (\<exists>c \<in> {a, b}. emul x y \<le> emul c y)"
proof -
  have sgn: "emul c y \<le> emul d y" if "c \<le> d" "Fin 0 \<le> y" for c d
    using that by (cases c; cases d; cases y) (auto simp: mult_right_mono mult_nonneg_nonneg mult_nonpos_nonneg)
  have sgn': "emul d y \<le> emul c y" if "c \<le> d" "y \<le> Fin 0" for c d
    using that by (cases c; cases d; cases y) (auto simp: mult_right_mono_neg)
  show ?thesis
  proof (cases "Fin 0 \<le> y")
    case True
    then show ?thesis using sgn assms by blast
  next
    case False
    then have "y \<le> Fin 0" by (simp add: order_less_imp_le)
    then show ?thesis using sgn' assms by blast
  qed
qed

lemma emul_corners:
  assumes "a \<le> x" "x \<le> b" "c \<le> y" "y \<le> d"
  shows "Min {emul a c, emul a d, emul b c, emul b d} \<le> emul x y"
    and "emul x y \<le> Max {emul a c, emul a d, emul b c, emul b d}"
proof -
  let ?S = "{emul a c, emul a d, emul b c, emul b d}"
  obtain p where p: "p \<in> {a, b}" "emul p y \<le> emul x y" using emul_between [OF assms(1,2)] by blast
  obtain q where q: "q \<in> {c, d}" "emul p q \<le> emul p y"
    using emul_between [OF assms(3,4), of p] by (auto simp: emul_commute [of _ p])
  have "emul p q \<in> ?S" using p(1) q(1) by auto
  then have "Min ?S \<le> emul p q" by (intro Min_le) simp_all
  then show "Min ?S \<le> emul x y" using p(2) q(2) by (meson order_trans)
  obtain p' where p': "p' \<in> {a, b}" "emul x y \<le> emul p' y" using emul_between [OF assms(1,2)] by blast
  obtain q' where q': "q' \<in> {c, d}" "emul p' y \<le> emul p' q'"
    using emul_between [OF assms(3,4), of p'] by (auto simp: emul_commute [of _ p'])
  have "emul p' q' \<in> ?S" using p'(1) q'(1) by auto
  then have "emul p' q' \<le> Max ?S" by (intro Max_ge) simp_all
  then show "emul x y \<le> Max ?S" using p'(2) q'(2) by (meson order_trans)
qed

lemma minmax_interval_sound:
  assumes "bs \<noteq> []" "\<forall>x \<in> set bs. ext_ok x" "Min (abs_ext ` set bs) \<le> Fin n" "Fin n \<le> Max (abs_ext ` set bs)"
  shows "ivl_ok (minmax_interval bs)" "n \<in> gamma_ivl (minmax_interval bs)"
  using interval_ok_member [OF ext_minmax_list(1,2) [OF assms(1,2)]] ext_minmax_list(3,4) [OF assms(1,2)] assms(3,4)
  by (simp_all add: minmax_interval_def)

lemma ivl_mul_sound:
  assumes "ivl_ok i" "ivl_ok x" "n \<in> gamma_ivl i" "m \<in> gamma_ivl x"
  shows "ivl_ok (ivl_mul i x)" "n * m \<in> gamma_ivl (ivl_mul i x)"
proof -
  note i = ivl_okD [OF assms(1)] and x = ivl_okD [OF assms(2)]
  have mem: "lo i \<le> Fin n" "Fin n \<le> hi i" "lo x \<le> Fin m" "Fin m \<le> hi x"
    using assms by (simp_all add: mem_gamma_iff)
  have nb: "\<not> is_bottom i" "\<not> is_bottom x" using assms i(3) x(3) by auto
  let ?bs = "[ext_mul (ivl_lb i) (ivl_lb x), ext_mul (ivl_lb i) (ivl_ub x),
              ext_mul (ivl_ub i) (ivl_lb x), ext_mul (ivl_ub i) (ivl_ub x)]"
  have ok: "\<forall>b \<in> set ?bs. ext_ok b" using i x by (simp add: ext_mul_refines)
  have "abs_ext ` set ?bs = {emul (lo i) (lo x), emul (lo i) (hi x), emul (hi i) (lo x), emul (hi i) (hi x)}"
    using i x by (simp add: ext_mul_refines)
  with emul_corners [OF mem] have "Min (abs_ext ` set ?bs) \<le> Fin (n * m)" "Fin (n * m) \<le> Max (abs_ext ` set ?bs)"
    by simp_all
  from minmax_interval_sound [OF _ ok this] nb show "ivl_ok (ivl_mul i x)" "n * m \<in> gamma_ivl (ivl_mul i x)"
    by (simp_all add: ivl_mul_def)
qed

section \<open>Truncating division and remainder\<close>

lemma sdiv_mono_pos: "a \<le> b \<Longrightarrow> 0 < c \<Longrightarrow> a sdiv c \<le> b sdiv (c :: int)"
proof -
  assume ab: "a \<le> b" and c: "0 < c"
  have pos: "n sdiv c = n div c" if "0 \<le> n" for n using that c by (simp add: signed_divide_int_def sgn_if)
  have neg: "n sdiv c = - (- n div c)" if "n < 0" for n using that c by (simp add: signed_divide_int_def)
  show ?thesis
  proof (cases "0 \<le> a")
    case True
    then show ?thesis using ab c pos by (simp add: zdiv_mono1)
  next
    case False
    have "0 \<le> - a div c" using False c by (simp add: pos_imp_zdiv_nonneg_iff)
    show ?thesis
    proof (cases "0 \<le> b")
      case True
      then have "0 \<le> b div c" using c by (simp add: pos_imp_zdiv_nonneg_iff)
      then show ?thesis using True False \<open>0 \<le> - a div c\<close> pos [of b] neg [of a] by simp
    next
      case nb: False
      have "- b div c \<le> - a div c" using ab c by (simp add: zdiv_mono1)
      then show ?thesis using nb False neg [of a] neg [of b] by simp
    qed
  qed
qed

lemma sdiv_minus_right: "a sdiv (- c) = - (a sdiv (c :: int))"
  by (simp add: signed_divide_int_def)

lemma sdiv_mono_neg: "a \<le> b \<Longrightarrow> c < 0 \<Longrightarrow> b sdiv c \<le> a sdiv (c :: int)"
  using sdiv_mono_pos [of a b "- c"] sdiv_minus_right [of a "- c"] sdiv_minus_right [of b "- c"] by simp

lemma smod_bounds:
  fixes n m :: int
  shows "m \<noteq> 0 \<Longrightarrow> \<bar>n smod m\<bar> < \<bar>m\<bar>" "0 \<le> n \<Longrightarrow> 0 \<le> n smod m \<and> n smod m \<le> n"
    "n \<le> 0 \<Longrightarrow> n \<le> n smod m \<and> n smod m \<le> 0" "\<bar>n\<bar> < \<bar>m\<bar> \<Longrightarrow> n smod m = n"
proof -
  have r: "0 \<le> \<bar>n\<bar> mod \<bar>m\<bar>" "\<bar>n\<bar> mod \<bar>m\<bar> \<le> \<bar>n\<bar>" 
    by (cases "m = 0"; simp add: zmod_le_nonneg_dividend)+
  show "\<bar>n smod m\<bar> < \<bar>m\<bar>" if "m \<noteq> 0"
    using that pos_mod_bound [of "\<bar>m\<bar>" "\<bar>n\<bar>"] r by (simp add: signed_modulo_int_def abs_mult sgn_if)
  show "0 \<le> n smod m \<and> n smod m \<le> n" if "0 \<le> n"
    using that r by (simp add: signed_modulo_int_def sgn_if)
  show "n \<le> n smod m \<and> n smod m \<le> 0" if "n \<le> 0"
    using that r by (simp add: signed_modulo_int_def sgn_if)
  show "n smod m = n" if "\<bar>n\<bar> < \<bar>m\<bar>"
    using that by (simp add: signed_modulo_int_def mult.commute abs_mult_sgn mod_pos_pos_trivial)
qed

lemma ext_div_pos_mono:
  assumes "ext_ok x" "0 < c"
  shows "\<exists>z. ext_div x (finite_ext c) = Inr z \<and> ext_ok z \<and>
     (abs_ext x \<le> Fin n \<longrightarrow> abs_ext z \<le> Fin (n sdiv c)) \<and> (Fin n \<le> abs_ext x \<longrightarrow> Fin (n sdiv c) \<le> abs_ext z)"
  using assms by (elim ext_exhaust) (auto simp: sdiv_mono_pos)

lemma ext_div_neg_mono:
  assumes "\<exists>k. x = finite_ext k" "c < 0"
  shows "\<exists>z. ext_div x (finite_ext c) = Inr z \<and> ext_ok z \<and>
     (abs_ext x \<le> Fin n \<longrightarrow> Fin (n sdiv c) \<le> abs_ext z) \<and> (Fin n \<le> abs_ext x \<longrightarrow> abs_ext z \<le> Fin (n sdiv c))"
  using assms by (auto simp: sdiv_mono_neg)

lemma singleton_num [simp]: "singleton (interval_num c) = Some c" "\<not> is_bottom (interval_num c)"
  by (simp_all add: singleton_def interval_num_def is_bottom_def)

lemma ivl_div_positive_constant:
  assumes "ivl_ok i" "n \<in> gamma_ivl i" "0 < c"
  shows "\<exists>j. ivl_div i (interval_num c) = Inr j \<and> ivl_ok j \<and> n sdiv c \<in> gamma_ivl j"
proof (cases "c = 1")
  case True
  then show ?thesis using assms ivl_okD(3) [OF assms(1)] by (auto simp: ivl_div.simps)
next
  case False
  note i = ivl_okD [OF assms(1)]
  have mem: "lo i \<le> Fin n" "Fin n \<le> hi i" using assms by (simp_all add: mem_gamma_iff)
  obtain l where l: "ext_div (ivl_lb i) (finite_ext c) = Inr l" "ext_ok l" "abs_ext l \<le> Fin (n sdiv c)"
    using ext_div_pos_mono [OF i(1) assms(3), of n] mem(1) by blast
  obtain u where u: "ext_div (ivl_ub i) (finite_ext c) = Inr u" "ext_ok u" "Fin (n sdiv c) \<le> abs_ext u"
    using ext_div_pos_mono [OF i(2) assms(3), of n] mem(2) by blast
  have "\<not> is_bottom i" using assms i(3) by auto
  then show ?thesis
    using False assms(3) l u interval_ok_member [OF l(2) u(2) l(3) u(3)] by (simp add: ivl_div.simps [of i])
qed

section \<open>Intervals with finite bounds\<close>

definition fin_ivl :: "int \<Rightarrow> int \<Rightarrow> interval_t" where
  "fin_ivl a b = \<lparr>ivl_lb = finite_ext a, ivl_ub = finite_ext b\<rparr>"

lemma fin_ivl_simps [simp]:
  "ivl_lb (fin_ivl a b) = finite_ext a" "ivl_ub (fin_ivl a b) = finite_ext b"
  "is_bottom (fin_ivl a b) \<longleftrightarrow> b < a" "contains (fin_ivl a b) n \<longleftrightarrow> a \<le> n \<and> n \<le> b"
  "a \<le> b \<Longrightarrow> ivl_ok (fin_ivl a b)" "n \<in> gamma_ivl (fin_ivl a b) \<longleftrightarrow> a \<le> n \<and> n \<le> b"
  "a \<le> b \<Longrightarrow> singleton (fin_ivl a b) = (if a = b then Some a else None)"
  "neg_part (fin_ivl a b) = (if - 1 < a then bottom else fin_ivl a (- 1))"
  "pos_part (fin_ivl a b) = (if b < 1 then bottom else fin_ivl 1 b)"
  by (auto simp: fin_ivl_def is_bottom_def contains_def ivl_ok_def gamma_ivl_def singleton_def neg_part_def
      pos_part_def interval_def bottom_def)

lemma interval_fin: "interval (finite_ext a) (finite_ext b) = (if b < a then bottom else fin_ivl a b)"
  by (simp add: interval_def fin_ivl_def bottom_def)

lemma fin_ivl_exists:
  assumes "ivl_ok i" "n \<in> gamma_ivl i" "gamma_ivl i \<subseteq> {p..q}"
  obtains a b where "i = fin_ivl a b" "a \<le> n" "n \<le> b" "p \<le> a" "b \<le> q"
proof -
  have nb: "i \<noteq> bottom" using assms(2) by auto
  from ivl_nonempty [OF assms(1) nb] have ne: "lo i \<noteq> PInf" "hi i \<noteq> MInf" "lo i \<le> hi i" by metis+
  have "Fin p \<le> lo i" "hi i \<le> Fin q"
    using lower_by_members [of "lo i" "hi i" "Fin p"] upper_by_members [of "lo i" "hi i" "Fin q"] ne assms(1,3)
    by (auto simp: subset_iff mem_gamma_iff)
  then obtain a b where ab: "lo i = Fin a" "hi i = Fin b" using ne by (cases "lo i"; cases "hi i") auto
  have ok: "ext_ok (ivl_lb i)" "ext_ok (ivl_ub i)" using ivl_okD [OF assms(1)] by blast+
  have "ivl_lb i = finite_ext a" "ivl_ub i = finite_ext b"
    using ab abs_ext_inj [OF ok(1), of "finite_ext a"] abs_ext_inj [OF ok(2), of "finite_ext b"] by simp_all
  then have "i = fin_ivl a b" by (simp add: fin_ivl_def)
  with that ab \<open>Fin p \<le> lo i\<close> \<open>hi i \<le> Fin q\<close> assms(1,2) show ?thesis by (auto simp: mem_gamma_iff)
qed

section \<open>Signed remainder\<close>

lemma join_sound:
  assumes "ivl_ok i" "ivl_ok x" "n \<in> gamma_ivl i \<or> n \<in> gamma_ivl x"
  shows "ivl_ok (ivl_join i x)" "n \<in> gamma_ivl (ivl_join i x)"
  using assms ivl_join_props [OF assms(1,2)] by auto

lemma join3_sound:
  assumes "p = Inr a" "q = Inr b" "ivl_ok a" "ivl_ok b" "ivl_ok z"
    "n \<in> gamma_ivl a \<or> n \<in> gamma_ivl b \<or> n \<in> gamma_ivl z"
  shows "\<exists>j. join3 p q z = Inr j \<and> ivl_ok j \<and> n \<in> gamma_ivl j"
  using assms ivl_join_props(1,2) [of a b] ivl_join_props(1,2) [of "ivl_join a b" z] by (auto simp: join3_def)

lemma gamma_convex:
  assumes "ivl_ok i" "a \<in> gamma_ivl i" "b \<in> gamma_ivl i" "a \<le> c" "c \<le> b"
  shows "c \<in> gamma_ivl i"
  using assms by (auto simp: mem_gamma_iff) (meson ext_order_simps(3) order_trans)+

lemma SRem_finite_divisor:
  assumes "ivl_ok i" "n \<in> gamma_ivl i" "c \<le> m" "m \<le> d" "0 < c \<or> d < 0" "singleton i = None \<or> c \<noteq> d"
  shows "\<exists>j. SRem i (fin_ivl c d) = Inr j \<and> ivl_ok j \<and> n smod m \<in> gamma_ivl j"
proof -
  note i = ivl_okD [OF assms(1)]
  have nb: "\<not> is_bottom i" "\<not> d < c" using assms(2-4) i(3) by auto
  define mn where "mn = min (num_abs c) (num_abs d)"
  define mx where "mx = max (num_abs c) (num_abs d)"
  have m: "m \<noteq> 0" "mn \<le> \<bar>m\<bar>" "\<bar>m\<bar> \<le> mx" using assms(3-5) by (auto simp: mn_def mx_def num_abs_def)
  have mem: "lo i \<le> Fin n" "Fin n \<le> hi i" using assms by (simp_all add: mem_gamma_iff)
  have eq: "SRem i (fin_ivl c d) =
     (if hi i < Fin mn \<and> abs_ext (ext_neg (ivl_lb i)) < Fin mn then Inr i
      else if lo i < Fin 0 then
        (if Fin 0 < hi i then Inr (interval (finite_ext (- (mx - 1))) (finite_ext (mx - 1)))
         else Inr (interval (finite_ext (- (mx - 1))) (finite_ext 0)))
      else Inr (interval (finite_ext 0) (finite_ext (mx - 1))))"
  proof -
    have cd: "c \<le> d" using assms(3,4) by simp
    have "SRem i (fin_ivl c d) =
      (if ext_less (ivl_ub i) (finite_ext mn) \<and> ext_less (ext_neg (ivl_lb i)) (finite_ext mn) then Inr i
       else if ext_less (ivl_lb i) (finite_ext 0) then
         (if ext_greater (ivl_ub i) (finite_ext 0) then Inr (interval (finite_ext (- (mx - 1))) (finite_ext (mx - 1)))
          else Inr (interval (finite_ext (- (mx - 1))) (finite_ext 0)))
       else Inr (interval (finite_ext 0) (finite_ext (mx - 1))))"
      using assms(5,6) nb cd
      by (subst SRem.simps, elim disjE; cases "singleton i") (simp_all add: pair_number_def mn_def mx_def Let_def)
    then show ?thesis using i(1,2) ext_neg_ok(1) [OF i(1)] by simp
  qed
  show ?thesis
  proof (cases "hi i < Fin mn \<and> abs_ext (ext_neg (ivl_lb i)) < Fin mn")
    case True
    have "n < mn" using True mem(2) by (cases "hi i") auto
    moreover have "- n < mn" using i(1) True mem(1) by (elim ext_exhaust) auto
    ultimately have "n smod m = n" using m(2) by (intro smod_bounds(4)) simp
    then show ?thesis using True assms(1,2) eq by simp
  next
    case False
    have r: "\<bar>n smod m\<bar> \<le> mx - 1" using smod_bounds(1) [OF m(1), of n] m(3) by simp
    have "n \<le> 0" if "\<not> Fin 0 < hi i" using that mem(2) by (cases "hi i") auto
    moreover have "0 \<le> n" if "\<not> lo i < Fin 0" using that mem(1) by (cases "lo i") auto
    ultimately show ?thesis
      using False r smod_bounds(2,3) [of n m] eq by (auto simp: interval_fin)
  qed
qed

lemma SRem_infinite_divisor:
  assumes "ivl_ok i" "ivl_ok x" "n \<in> gamma_ivl i" "\<not> is_bottom x" "\<not> contains x 0" "is_infinite (ivl_lb x) \<or> is_infinite (ivl_ub x)"
  shows "\<exists>j. SRem i x = Inr j \<and> ivl_ok j \<and> n smod m \<in> gamma_ivl j"
proof -
  have nb: "\<not> is_bottom i" using assms(1,3) ivl_okD(3) by auto
  have "singleton x = None" using assms(6) by (auto simp: singleton_def ext_number_def)
  then have eq: "SRem i x = Inr (ivl_join i (interval_num 0))"
    using nb assms(4-6) by (subst SRem.simps) (auto simp: is_finite_def is_infinite_def split: option.splits)
  let ?j = "ivl_join i (interval_num 0)"
  have j: "ivl_ok ?j" "n \<in> gamma_ivl ?j" "0 \<in> gamma_ivl ?j"
    using join_sound [OF assms(1), of "interval_num 0"] assms(3) by auto
  have "n smod m \<in> gamma_ivl ?j"
    using gamma_convex [OF j(1,2,3)] gamma_convex [OF j(1,3,2)] smod_bounds(2,3) [of n m] by (cases "0 \<le> n") auto
  then show ?thesis using eq j(1) by simp
qed

lemma finite_bounds_fin_ivl:
  assumes "ivl_ok x" "is_finite (ivl_lb x)" "is_finite (ivl_ub x)"
  shows "\<exists>c d. x = fin_ivl c d"
proof -
  obtain c where "ivl_lb x = finite_ext c" using ivl_okD(1) [OF assms(1)] assms(2) by (auto elim: ext_exhaust)
  moreover obtain d where "ivl_ub x = finite_ext d" using ivl_okD(2) [OF assms(1)] assms(3) by (auto elim: ext_exhaust)
  ultimately have "x = fin_ivl c d" by (simp add: fin_ivl_def)
  then show ?thesis by blast
qed

lemma SRem_nonzero_divisor:
  assumes "ivl_ok i" "ivl_ok x" "n \<in> gamma_ivl i" "m \<in> gamma_ivl x" "\<not> contains x 0"
  shows "\<exists>j. SRem i x = Inr j \<and> ivl_ok j \<and> n smod m \<in> gamma_ivl j"
proof (cases "is_finite (ivl_lb x) \<and> is_finite (ivl_ub x)")
  case False
  moreover have "\<not> is_bottom x" using assms(2,4) ivl_okD(3) by auto
  ultimately show ?thesis using SRem_infinite_divisor [OF assms(1,2,3)] assms(5) by (simp add: is_finite_def is_infinite_def)
next
  case True
  then obtain c d where x: "x = fin_ivl c d" using finite_bounds_fin_ivl [OF assms(2)] by blast
  have cd: "c \<le> m" "m \<le> d" "0 < c \<or> d < 0" using assms(4,5) x by auto
  show ?thesis
  proof (cases "singleton i = None \<or> c \<noteq> d")
    case True
    then show ?thesis using SRem_finite_divisor [OF assms(1,3) cd] x by simp
  next
    case False
    then obtain k where k: "singleton i = Some k" "c = d" by auto
    then have "ivl_lb i = finite_ext k" "ivl_ub i = finite_ext k" "\<not> is_bottom i"
      using ivl_okD(1) [OF assms(1)] by (auto simp: singleton_def elim!: ext_exhaust split: if_splits)
    then have "n = k" using assms(1,3) by (simp add: mem_gamma_iff)
    then show ?thesis
      using k cd \<open>\<not> is_bottom i\<close> by (subst SRem.simps) (auto simp: x num_mod_def)
  qed
qed

lemma part_members:
  assumes "ivl_ok x" "m \<in> gamma_ivl x"
  shows "ivl_ok (neg_part x)" "ivl_ok (pos_part x)" "m < 0 \<Longrightarrow> m \<in> gamma_ivl (neg_part x)"
    "0 < m \<Longrightarrow> m \<in> gamma_ivl (pos_part x)"
proof -
  note x = ivl_okD [OF assms(1)]
  have mem: "lo x \<le> Fin m" "Fin m \<le> hi x" using assms by (simp_all add: mem_gamma_iff)
  show "ivl_ok (neg_part x)" "ivl_ok (pos_part x)"
    using x mem by (auto simp: neg_part_def pos_part_def intro!: interval_okI)
  show "m < 0 \<Longrightarrow> m \<in> gamma_ivl (neg_part x)" "0 < m \<Longrightarrow> m \<in> gamma_ivl (pos_part x)"
    using x mem by (auto simp: neg_part_def pos_part_def interval_sound)
qed

lemma SRem_empty [simp]: "is_bottom x \<Longrightarrow> SRem i x = Inr bottom"
  by (simp add: SRem.simps [of i x])

lemma SRem_total_nonzero:
  assumes "ivl_ok i" "ivl_ok x" "n \<in> gamma_ivl i" "\<not> contains x 0"
  shows "\<exists>j. SRem i x = Inr j \<and> ivl_ok j"
proof (cases "is_bottom x")
  case False
  then have "gamma_ivl x \<noteq> {}" using assms(2) ivl_gamma_empty ivl_okD(3) by blast
  then show ?thesis using SRem_nonzero_divisor [OF assms(1-3)] assms(4) by blast
qed simp

lemma SRem_sound_lemma:
  assumes "ivl_ok i" "ivl_ok x" "n \<in> gamma_ivl i" "m \<in> gamma_ivl x"
  shows "\<exists>j. SRem i x = Inr j \<and> ivl_ok j \<and> n smod m \<in> gamma_ivl j"
proof (cases "contains x 0")
  case False
  then show ?thesis using SRem_nonzero_divisor assms by blast
next
  case zero: True
  have nb: "\<not> is_bottom i" "\<not> is_bottom x" using assms ivl_okD(3) by auto
  note pt = part_members [OF assms(2,4)]
  show ?thesis
  proof (cases "singleton i \<noteq> None \<and> singleton x \<noteq> None")
    case True
    then obtain k l where kl: "singleton i = Some k" "singleton x = Some l" by auto
    then have "ivl_lb i = finite_ext k" "ivl_ub i = finite_ext k" "ivl_lb x = finite_ext l" "ivl_ub x = finite_ext l"
      using ivl_okD(1) assms(1,2) by (auto simp: singleton_def ext_number_def finite_ext_def is_infinite_def split: if_splits)
    then have "n = k" "m = l" using assms by (simp_all add: mem_gamma_iff)
    then show ?thesis using kl nb by (subst SRem.simps) (simp add: num_mod_def)
  next
    case False
    then have eq: "SRem i x = join3 (SRem i (neg_part x)) (SRem i (pos_part x)) i"
      using nb zero by (subst SRem.simps) (auto split: option.splits)
    obtain a where a: "SRem i (neg_part x) = Inr a" "ivl_ok a" "m < 0 \<Longrightarrow> n smod m \<in> gamma_ivl a"
      using SRem_nonzero_divisor [OF assms(1) pt(1) assms(3) pt(3)] SRem_total_nonzero [OF assms(1) pt(1) assms(3)]
      by (cases "m < 0") auto
    obtain b where b: "SRem i (pos_part x) = Inr b" "ivl_ok b" "0 < m \<Longrightarrow> n smod m \<in> gamma_ivl b"
      using SRem_nonzero_divisor [OF assms(1) pt(2) assms(3) pt(4)] SRem_total_nonzero [OF assms(1) pt(2) assms(3)]
      by (cases "0 < m") auto
    have "n smod m \<in> gamma_ivl a \<or> n smod m \<in> gamma_ivl b \<or> n smod m \<in> gamma_ivl i"
      using a(3) b(3) assms(3) by (cases m "0 :: int" rule: linorder_cases) auto
    from join3_sound [OF a(1) b(1) a(2) b(2) assms(1) this] eq show ?thesis by simp
  qed
qed

section \<open>Unsigned division and remainder\<close>

abbreviation u64_max :: int where "u64_max \<equiv> 18446744073709551615"

lemma u64_casts:
  assumes "0 \<le> c" "c \<le> u64_max"
  shows "cast_to uint64_t c = Inr c" "fits_cast_to int64_t c" "fits_cast_to uint64_t c"
  using assms by (simp_all add: cast_to_def fits_cast_to_def fits_def)

lemma sdiv_eq_div: "0 \<le> a \<Longrightarrow> 0 \<le> b \<Longrightarrow> a sdiv b = a div (b :: int)"
  by (simp add: signed_divide_int_def sgn_if)

lemma UDiv_constant:
  assumes "0 \<le> a" "a \<le> n" "n \<le> b" "0 \<le> c" "c \<le> u64_max"
  shows "\<exists>j. UDiv (fin_ivl a b) (fin_ivl c c) = Inr j \<and> ivl_ok j \<and> n div c \<in> gamma_ivl j"
proof -
  have "UDiv (fin_ivl a b) (fin_ivl c c) =
     (if c = 1 then Inr (fin_ivl a b) else if c > 0 then Inr (interval (finite_ext (a div c)) (finite_ext (b div c)))
      else Inr (interval_num 0))"
    using assms by (subst UDiv.simps) (simp add: u64_casts sdiv_eq_div)
  moreover have "a div c \<le> n div c" "n div c \<le> b div c" if "0 < c" using that assms by (simp_all add: zdiv_mono1)
  ultimately show ?thesis using assms by (cases "0 < c") (auto simp: interval_fin)
qed

lemma div_corners:
  assumes "1 \<le> (a :: int)" "a \<le> n" "n \<le> b" "1 \<le> c" "c \<le> m" "m \<le> d"
  shows "a div d \<le> n div m" "n div m \<le> b div c"
proof -
  have "a div d \<le> a div m" "a div m \<le> n div m" "n div m \<le> n div c" "n div c \<le> b div c"
    using assms by (simp_all add: zdiv_mono1 zdiv_mono2)
  then show "a div d \<le> n div m" "n div m \<le> b div c" by linarith+
qed

lemma UDiv_positive:
  assumes "1 \<le> a" "a \<le> n" "n \<le> b" "1 \<le> c" "c \<le> m" "m \<le> d" "d \<le> u64_max"
  shows "\<exists>j. UDiv (fin_ivl a b) (fin_ivl c d) = Inr j \<and> ivl_ok j \<and> n div m \<in> gamma_ivl j"
proof (cases "c = d")
  case True
  then have "m = d" using assms by simp
  then show ?thesis using UDiv_constant [of a n b d] assms True by simp
next
  case False
  let ?q = "[a div c, a div d, b div c, b div d]"
  have eq: "UDiv (fin_ivl a b) (fin_ivl c d) = Inr (minmax_interval (map finite_ext ?q))"
    using False assms
    by (subst UDiv.simps) (simp add: both_nonzero_def make_dividend_when_both_nonzero_def corners_def sdiv_eq_div)
  have img: "abs_ext ` set (map finite_ext ?q) = Fin ` set ?q" by simp
  have "Min (Fin ` set ?q) \<le> Fin (a div d)" by (intro Min_le) simp_all
  moreover have "Fin (b div c) \<le> Max (Fin ` set ?q)" by (intro Max_ge) simp_all
  moreover have "Fin (a div d) \<le> Fin (n div m)" "Fin (n div m) \<le> Fin (b div c)"
    using div_corners assms(1-6) by simp_all
  ultimately have "Min (abs_ext ` set (map finite_ext ?q)) \<le> Fin (n div m)"
    "Fin (n div m) \<le> Max (abs_ext ` set (map finite_ext ?q))"
    unfolding img by (meson order_trans)+
  then show ?thesis unfolding eq using minmax_interval_sound [of "map finite_ext ?q"] by simp
qed

lemma UDiv_empty [simp]: "is_bottom i \<or> is_bottom x \<Longrightarrow> UDiv i x = Inr bottom"
  by (simp add: UDiv.simps [of i x])

lemma UDiv_nonzero_divisor:
  assumes "0 \<le> a" "a \<le> n" "n \<le> b" "1 \<le> c" "c \<le> m" "m \<le> d" "d \<le> u64_max"
  shows "\<exists>j. UDiv (fin_ivl a b) (fin_ivl c d) = Inr j \<and> ivl_ok j \<and> n div m \<in> gamma_ivl j"
proof (cases "c = d \<or> 1 \<le> a")
  case True
  then show ?thesis using UDiv_constant [of a n b d] UDiv_positive assms by (cases "c = d") auto
next
  case False
  then have a: "a = 0" "c \<noteq> d" using assms by simp_all
  have eq: "UDiv (fin_ivl a b) (fin_ivl c d) = join3 (UDiv bottom (fin_ivl c d)) (UDiv (pos_part (fin_ivl a b)) (fin_ivl c d)) (interval_num 0)"
    using a assms by (subst UDiv.simps) simp
  have "\<exists>j. UDiv (pos_part (fin_ivl a b)) (fin_ivl c d) = Inr j \<and> ivl_ok j \<and> (n \<noteq> 0 \<longrightarrow> n div m \<in> gamma_ivl j)"
    using UDiv_positive [of 1 "if n = 0 then b else n" b c m d] assms by (cases "b < 1"; cases "n = 0") auto
  then obtain j where j: "UDiv (pos_part (fin_ivl a b)) (fin_ivl c d) = Inr j" "ivl_ok j" "n \<noteq> 0 \<longrightarrow> n div m \<in> gamma_ivl j"
    by blast
  have "n div m \<in> gamma_ivl bottom \<or> n div m \<in> gamma_ivl j \<or> n div m \<in> gamma_ivl (interval_num 0)"
    using j(3) by (cases "n = 0") auto
  from join3_sound [OF _ j(1) _ j(2) _ this] show ?thesis unfolding eq by simp
qed

lemma UDiv_sound_lemma:
  assumes "0 \<le> a" "a \<le> n" "n \<le> b" "0 \<le> c" "c \<le> m" "m \<le> d" "d \<le> u64_max"
  shows "\<exists>j. UDiv (fin_ivl a b) (fin_ivl c d) = Inr j \<and> ivl_ok j \<and> n div m \<in> gamma_ivl j"
proof (cases "c = d \<or> 1 \<le> c")
  case True
  then show ?thesis using UDiv_constant [of a n b d] UDiv_nonzero_divisor assms by (cases "c = d") auto
next
  case False
  then have c: "c = 0" "1 \<le> d" using assms by simp_all
  have eq: "UDiv (fin_ivl a b) (fin_ivl c d) = join3 (UDiv (fin_ivl a b) bottom) (UDiv (fin_ivl a b) (fin_ivl 1 d)) (interval_num 0)"
    using c assms by (subst UDiv.simps) simp
  obtain j where j: "UDiv (fin_ivl a b) (fin_ivl 1 d) = Inr j" "ivl_ok j" "m \<noteq> 0 \<longrightarrow> n div m \<in> gamma_ivl j"
    using UDiv_nonzero_divisor [of a n b 1 "if m = 0 then d else m" d] assms c by (cases "m = 0") auto
  have "n div m \<in> gamma_ivl bottom \<or> n div m \<in> gamma_ivl j \<or> n div m \<in> gamma_ivl (interval_num 0)"
    using j(3) by (cases "m = 0") auto
  from join3_sound [OF _ j(1) _ j(2) _ this] show ?thesis unfolding eq by simp
qed

lemma URem_positive:
  assumes "1 \<le> a" "a \<le> n" "n \<le> b" "b \<le> u64_max" "1 \<le> c" "c \<le> m" "m \<le> d" "d \<le> u64_max"
  shows "\<exists>j. URem (fin_ivl a b) (fin_ivl c d) = Inr j \<and> ivl_ok j \<and> n mod m \<in> gamma_ivl j"
proof -
  have casts: "cast_to uint64_t a = Inr a" "cast_to uint64_t b = Inr b" "cast_to uint64_t c = Inr c" "cast_to uint64_t d = Inr d"
    "fits_cast_to uint64_t b" "fits_cast_to uint64_t d"
    using assms by (simp_all add: u64_casts)
  have fin: "ext_n (finite_ext k) = k" for k by (simp add: finite_ext_def)
  have "0 < m" using assms by linarith
  then have "n mod m < m" "0 \<le> n mod m" by simp_all
  then have m: "0 \<le> n mod m" "n mod m \<le> d - 1" using assms by linarith+
  show ?thesis
  proof (cases "a = b \<and> c = d")
    case True
    then have "n = b" "m = d" using assms by simp_all
    then show ?thesis using True assms casts by (subst URem.simps) simp
  next
    case False
    then have "URem (fin_ivl a b) (fin_ivl c d) =
        (if b < c then Inr (fin_ivl a b) else Inr (interval (finite_ext 0) (finite_ext (d - 1))))"
      using assms casts by (subst URem.simps) (auto simp: fin)
    moreover have "n mod m = n" if "b < c" using that assms by simp
    ultimately show ?thesis using m assms by (auto simp: interval_fin)
  qed
qed

lemma URem_empty [simp]: "is_bottom i \<or> is_bottom x \<Longrightarrow> URem i x = Inr bottom"
  by (simp add: URem.simps [of i x])

lemma URem_zero_dividend:
  assumes "1 \<le> c" "c \<le> m" "m \<le> d" "d \<le> u64_max" "0 \<le> n" "n \<le> b" "b \<le> u64_max"
  shows "\<exists>j. URem (fin_ivl 0 b) (fin_ivl c d) = Inr j \<and> ivl_ok j \<and> n mod m \<in> gamma_ivl j"
proof (cases "b = 0 \<and> c = d")
  case True
  then show ?thesis using assms u64_casts [of d] u64_casts [of 0] by (subst URem.simps) simp
next
  case False
  have eq: "URem (fin_ivl 0 b) (fin_ivl c d) =
      join3 (URem bottom (fin_ivl c d)) (URem (pos_part (fin_ivl 0 b)) (fin_ivl c d)) (fin_ivl 0 b)"
    using False assms by (subst URem.simps) (cases "b = 0"; cases "c = d"; simp)
  have "\<exists>j. URem (pos_part (fin_ivl 0 b)) (fin_ivl c d) = Inr j \<and> ivl_ok j \<and> (n \<noteq> 0 \<longrightarrow> n mod m \<in> gamma_ivl j)"
    using URem_positive [of 1 "if n = 0 then b else n" b c m d] assms by (cases "b < 1"; cases "n = 0") auto
  then obtain j where j: "URem (pos_part (fin_ivl 0 b)) (fin_ivl c d) = Inr j" "ivl_ok j" "n \<noteq> 0 \<longrightarrow> n mod m \<in> gamma_ivl j"
    by blast
  have "n mod m \<in> gamma_ivl bottom \<or> n mod m \<in> gamma_ivl j \<or> n mod m \<in> gamma_ivl (fin_ivl 0 b)"
    using j(3) assms by (cases "n = 0") auto
  from join3_sound [OF _ j(1) _ j(2) _ this] assms show ?thesis unfolding eq by simp
qed

lemma URem_nonzero_divisor:
  assumes "0 \<le> a" "a \<le> n" "n \<le> b" "b \<le> u64_max" "1 \<le> c" "c \<le> m" "m \<le> d" "d \<le> u64_max"
  shows "\<exists>j. URem (fin_ivl a b) (fin_ivl c d) = Inr j \<and> ivl_ok j \<and> n mod m \<in> gamma_ivl j"
  using URem_positive [of a n b c m d] URem_zero_dividend [of c m d n b] assms by (cases "a = 0") auto

lemma URem_sound_lemma:
  assumes "0 \<le> a" "a \<le> n" "n \<le> b" "b \<le> u64_max" "0 \<le> c" "c \<le> m" "m \<le> d" "d \<le> u64_max"
  shows "\<exists>j. URem (fin_ivl a b) (fin_ivl c d) = Inr j \<and> ivl_ok j \<and> n mod m \<in> gamma_ivl j"
proof (cases "1 \<le> c")
  case True
  then show ?thesis using URem_nonzero_divisor assms by blast
next
  case False
  then have c: "c = 0" using assms by simp
  show ?thesis
  proof (cases "a = b \<and> d = 0")
    case True
    then show ?thesis using assms c u64_casts [of b] u64_casts [of 0] by (subst URem.simps) simp
  next
    case nd: False
    have eq: "URem (fin_ivl a b) (fin_ivl c d) = join3 (URem (fin_ivl a b) bottom) (URem (fin_ivl a b) (pos_part (fin_ivl c d))) (fin_ivl a b)"
      using nd c assms by (subst URem.simps) (cases "a = b"; cases "d = 0"; simp)
    have "\<exists>j. URem (fin_ivl a b) (pos_part (fin_ivl c d)) = Inr j \<and> ivl_ok j \<and> (m \<noteq> 0 \<longrightarrow> n mod m \<in> gamma_ivl j)"
      using URem_nonzero_divisor [of a n b 1 "if m = 0 then d else m" d] assms c by (cases "d < 1"; cases "m = 0") auto
    then obtain j where j: "URem (fin_ivl a b) (pos_part (fin_ivl c d)) = Inr j" "ivl_ok j" "m \<noteq> 0 \<longrightarrow> n mod m \<in> gamma_ivl j"
      by blast
    have "n mod m \<in> gamma_ivl bottom \<or> n mod m \<in> gamma_ivl j \<or> n mod m \<in> gamma_ivl (fin_ivl a b)"
      using j(3) assms by (cases "m = 0") auto
    from join3_sound [OF _ j(1) _ j(2) _ this] assms show ?thesis unfolding eq by simp
  qed
qed

end
