(* ===== verification/Crab_Interval_Bits.thy ===== *)
theory Crab_Interval_Bits
  imports Crab_Interval_Arith
begin

text \<open>
  Soundness of the finite-width view of \<^verbatim>\<open>crab/interval.hpp\<close> (truncation to a machine type) and
  of the bitwise operations of \<^verbatim>\<open>crab/interval.cpp\<close>.
\<close>

section \<open>Truncation to a machine type\<close>

lemma static_cast_shift:
  assumes "0 < type_width T"
  shows "static_cast T n = (n - type_min T) mod 2 ^ type_width T + type_min T"
proof (cases T)
  case (Signed w)
  then have "signed_take_bit (w - 1) n = take_bit w (n + 2 ^ (w - 1)) - 2 ^ (w - 1)"
    using assms signed_take_bit_eq_take_bit_shift [of "w - 1" n] by simp
  with Signed show ?thesis by (simp add: take_bit_eq_mod)
next
  case (Unsigned w)
  then show ?thesis by (simp add: take_bit_eq_mod)
qed

lemma type_max_less: "0 < type_width T \<Longrightarrow> type_max T < 2 ^ type_width T"
proof (cases T)
  case (Signed w)
  assume "0 < type_width T"
  have "(2 :: int) ^ (w - 1) \<le> 2 ^ w" by (intro power_increasing) simp_all
  with Signed show ?thesis using less_le_trans [of "2 ^ (w - 1) - 1 :: int" "2 ^ (w - 1)" "2 ^ w"] by simp
qed simp

text \<open>Inside one period of the reduction the residues keep the order.\<close>

lemma mod_between:
  fixes a b n W :: int
  assumes "a \<le> n" "n \<le> b" "b - a < W" "a mod W \<le> b mod W" "0 < W"
  shows "a mod W \<le> n mod W" "n mod W \<le> b mod W"
proof -
  have eqs: "a = W * (a div W) + a mod W" "b = W * (b div W) + b mod W" "n = W * (n div W) + n mod W" by simp_all
  have le: "a div W \<le> n div W" "n div W \<le> b div W" using assms by (simp_all add: zdiv_mono1)
  have "b div W \<le> a div W"
  proof (rule ccontr)
    assume "\<not> b div W \<le> a div W"
    then have "W * 1 \<le> W * (b div W - a div W)" using assms(5) by (intro mult_left_mono) simp_all
    then have "W \<le> W * (b div W) - W * (a div W)" by (simp add: right_diff_distrib)
    with assms(3,4) eqs show False by linarith
  qed
  then have "n div W = a div W" "b div W = a div W" using le by linarith+
  then show "a mod W \<le> n mod W" "n mod W \<le> b mod W" using eqs assms(1,2) by (metis add_le_cancel_left)+
qed

lemma static_cast_between:
  assumes "0 < type_width T" "a \<le> n" "n \<le> b" "b - a \<le> type_max T" "static_cast T a \<le> static_cast T b"
  shows "static_cast T a \<le> static_cast T n" "static_cast T n \<le> static_cast T b"
proof -
  let ?W = "2 ^ type_width T :: int" and ?m = "type_min T"
  have "a - ?m \<le> n - ?m" "n - ?m \<le> b - ?m" "(b - ?m) - (a - ?m) < ?W" "(a - ?m) mod ?W \<le> (b - ?m) mod ?W"
    using assms type_max_less [OF assms(1)] by (simp_all add: static_cast_shift)
  from mod_between [OF this] show "static_cast T a \<le> static_cast T n" "static_cast T n \<le> static_cast T b"
    by (simp_all add: static_cast_shift [OF assms(1)])
qed

lemma ext_n_finite [simp]: "ext_n (finite_ext k) = k"
  by (simp add: finite_ext_def)

lemma full_simps [simp]:
  "ivl_ok (full T)" "n \<in> gamma_ivl (full T) \<longleftrightarrow> fits T n"
  by (simp_all add: full_def interval_sound fits_def)

lemma finite_size_cases:
  assumes "ivl_ok i" "i \<noteq> bottom"
  shows "(\<exists>a b. i = fin_ivl a b \<and> a \<le> b \<and> finite_size i = Inr (Some (b - a))) \<or> finite_size i = Inr None"
proof -
  note i = ivl_okD [OF assms(1)]
  have ne: "lo i \<noteq> PInf" "hi i \<noteq> MInf" "lo i \<le> hi i" using ivl_nonempty [OF assms] by metis+
  show ?thesis
  proof (cases "is_finite (ivl_lb i) \<and> is_finite (ivl_ub i)")
    case True
    then obtain a b where ab: "i = fin_ivl a b" using finite_bounds_fin_ivl [OF assms(1)] by blast
    then show ?thesis using ne by (auto simp: finite_size_def ext_sub_def)
  next
    case False
    then have "finite_size i = Inr None"
      using i(1,2) ne by (elim ext_exhaust) (auto simp: finite_size_def ext_sub_def)
    then show ?thesis by simp
  qed
qed

lemma ivl_truncate_to_sound_lemma:
  assumes "ivl_ok i" "n \<in> gamma_ivl i" "0 < type_width T"
  shows "\<exists>j. ivl_truncate_to T i = Inr j \<and> ivl_ok j \<and> static_cast T n \<in> gamma_ivl j"
proof (cases "ivl_le i (full T)")
  case True
  then have "fits T n" using assms(1,2) ivl_le_refines [of i "full T"] by auto
  then show ?thesis using True assms by (simp add: ivl_truncate_to_def static_cast_id)
next
  case False
  have full: "fits T (static_cast T n)" using assms(3) by (rule static_cast_fits)
  have nb: "i \<noteq> bottom" using assms(2) by auto
  consider (fin) a b where "i = fin_ivl a b" "a \<le> b" "finite_size i = Inr (Some (b - a))" | (inf) "finite_size i = Inr None"
    using finite_size_cases [OF assms(1) nb] by blast
  then show ?thesis
  proof cases
    case fin
    let ?l = "static_cast T a" and ?u = "static_cast T b"
    have eq: "ivl_truncate_to T i = (if fits T (b - a) \<and> ?l \<le> ?u then Inr (interval (finite_ext ?l) (finite_ext ?u)) else Inr (full T))"
      using False fin assms(3) by (simp add: ivl_truncate_to_def truncate_to_eq Let_def)
    have "a \<le> n" "n \<le> b" using assms(2) fin(1) by simp_all
    then have "?l \<le> static_cast T n \<and> static_cast T n \<le> ?u" if "fits T (b - a)" "?l \<le> ?u"
      using static_cast_between [OF assms(3), of a n b] that by (simp add: fits_def)
    then show ?thesis using eq full by (simp add: interval_sound)
  next
    case inf
    then show ?thesis using False full by (simp add: ivl_truncate_to_def)
  qed
qed

lemma ivl_truncate_to_fits:
  assumes "ivl_ok i" "ivl_truncate_to T i = Inr j" "0 < type_width T"
  shows "ivl_le j (full T)"
proof (cases "ivl_le i (full T)")
  case True
  then show ?thesis using assms by (simp add: ivl_truncate_to_def)
next
  case False
  then have nb: "i \<noteq> bottom" by (auto simp: ivl_le_def)
  have full: "ivl_le (full T) (full T)" by (simp add: ivl_domain.le_refl)
  have bounds: "type_min T \<le> static_cast T k" "static_cast T k \<le> type_max T" for k
    using static_cast_fits [OF assms(3), of k] by (simp_all add: fits_def)
  have "ivl_le (interval (finite_ext (static_cast T a)) (finite_ext (static_cast T b))) (full T)" for a b
    using bounds(1) [of a] bounds(2) [of b] by (auto simp: ivl_le_refines interval_sound fits_def)
  then show ?thesis
    using assms(2,3) False finite_size_cases [OF assms(1) nb] full
    by (auto simp: ivl_truncate_to_def truncate_to_eq Let_def split: if_splits)
qed

section \<open>Sound operations\<close>

text \<open>
  The contract of a binary operation of the domain: where its guard admits the operands, it
  returns an interval with every result of the concrete operation. A machine operation at a
  width is the unbounded one followed by truncation, so every sound operation gives a sound
  machine operation.
\<close>

definition wrapped ::
  "(interval_t \<Rightarrow> interval_t \<Rightarrow> interval_t res) \<Rightarrow> int_type \<Rightarrow> interval_t \<Rightarrow> interval_t \<Rightarrow> interval_t res" where
  "wrapped f T i x = bindE (f i x) (ivl_truncate_to T)"

locale sound_operation =
  fixes aop :: "interval_t \<Rightarrow> interval_t \<Rightarrow> interval_t res"
    and cop :: "int \<Rightarrow> int \<Rightarrow> int"
    and guard :: "interval_t \<Rightarrow> interval_t \<Rightarrow> bool"
  assumes sound: "guard i x \<Longrightarrow> ivl_ok i \<Longrightarrow> ivl_ok x \<Longrightarrow> n \<in> gamma_ivl i \<Longrightarrow> m \<in> gamma_ivl x \<Longrightarrow>
      \<exists>j. aop i x = Inr j \<and> ivl_ok j \<and> cop n m \<in> gamma_ivl j"
begin

lemma wrapped_sound:
  assumes "guard i x" "ivl_ok i" "ivl_ok x" "n \<in> gamma_ivl i" "m \<in> gamma_ivl x" "0 < type_width T"
  shows "\<exists>j. wrapped aop T i x = Inr j \<and> ivl_ok j \<and> static_cast T (cop n m) \<in> gamma_ivl j"
proof -
  obtain j where "aop i x = Inr j" "ivl_ok j" "cop n m \<in> gamma_ivl j" using sound assms(1-5) by blast
  with ivl_truncate_to_sound_lemma [OF this(2,3) assms(6)] show ?thesis by (simp add: wrapped_def)
qed

lemma covers:
  assumes "guard i x" "ivl_ok i" "ivl_ok x" "gamma_ivl i \<noteq> {}" "gamma_ivl x \<noteq> {}"
  shows "\<exists>j. aop i x = Inr j \<and> (\<lambda>(n, m). cop n m) ` (gamma_ivl i \<times> gamma_ivl x) \<subseteq> gamma_ivl j"
proof -
  obtain n m where nm: "n \<in> gamma_ivl i" "m \<in> gamma_ivl x" using assms(4,5) by blast
  obtain j where j: "aop i x = Inr j" using sound [OF assms(1-3) nm] by blast
  then show ?thesis using sound [OF assms(1-3)] by fastforce
qed

end

interpretation add_op: sound_operation ivl_add "(+)" "\<lambda>_ _. True"
  by unfold_locales (rule ivl_add_sound)

interpretation sub_op: sound_operation ivl_sub "(-)" "\<lambda>_ _. True"
  by unfold_locales (rule ivl_sub_sound)

interpretation mul_op: sound_operation "\<lambda>i x. Inr (ivl_mul i x)" "(*)" "\<lambda>_ _. True"
  by unfold_locales (simp add: ivl_mul_sound)

interpretation srem_op: sound_operation SRem "\<lambda>n m. n smod m" "\<lambda>_ _. True"
  by unfold_locales (rule SRem_sound_lemma)

definition in_u64 :: "interval_t \<Rightarrow> bool" where
  "in_u64 i = ivl_le i (full uint64_t)"

lemma in_u64_fin:
  assumes "in_u64 i" "ivl_ok i" "n \<in> gamma_ivl i"
  obtains a b where "i = fin_ivl a b" "0 \<le> a" "a \<le> n" "n \<le> b" "b \<le> u64_max"
proof -
  have "gamma_ivl i \<subseteq> {0..u64_max}"
    using assms ivl_le_refines [of i "full uint64_t"] by (auto simp: in_u64_def fits_def)
  from fin_ivl_exists [OF assms(2,3) this] that show ?thesis by metis
qed

interpretation udiv_op: sound_operation UDiv "(div)" "\<lambda>i x. in_u64 i \<and> in_u64 x"
proof unfold_locales
  fix i x :: interval_t and n m :: int
  assume "in_u64 i \<and> in_u64 x" and ok: "ivl_ok i" "ivl_ok x" "n \<in> gamma_ivl i" "m \<in> gamma_ivl x"
  then obtain a b c d where "i = fin_ivl a b" "0 \<le> a" "a \<le> n" "n \<le> b" "x = fin_ivl c d" "0 \<le> c" "c \<le> m" "m \<le> d" "d \<le> u64_max"
    using in_u64_fin [of i n] in_u64_fin [of x m] by metis
  then show "\<exists>j. UDiv i x = Inr j \<and> ivl_ok j \<and> n div m \<in> gamma_ivl j" using UDiv_sound_lemma by blast
qed

interpretation urem_op: sound_operation URem "(mod)" "\<lambda>i x. in_u64 i \<and> in_u64 x"
proof unfold_locales
  fix i x :: interval_t and n m :: int
  assume "in_u64 i \<and> in_u64 x" and ok: "ivl_ok i" "ivl_ok x" "n \<in> gamma_ivl i" "m \<in> gamma_ivl x"
  then obtain a b c d where "i = fin_ivl a b" "0 \<le> a" "a \<le> n" "n \<le> b" "b \<le> u64_max"
    "x = fin_ivl c d" "0 \<le> c" "c \<le> m" "m \<le> d" "d \<le> u64_max"
    using in_u64_fin [of i n] in_u64_fin [of x m] by metis
  then show "\<exists>j. URem i x = Inr j \<and> ivl_ok j \<and> n mod m \<in> gamma_ivl j" using URem_sound_lemma by blast
qed

section \<open>Shifts\<close>

lemma double_loop_power: "double_loop k f = f * 2 ^ k"
  by (induction k arbitrary: f) simp_all

lemma singleton_member:
  assumes "ivl_ok x" "m \<in> gamma_ivl x" "singleton x = Some k"
  shows "m = k" "x = fin_ivl k k"
proof -
  have "ivl_lb x = finite_ext k" "ivl_ub x = finite_ext k"
    using assms(3) ivl_okD(1) [OF assms(1)] by (auto simp: singleton_def elim!: ext_exhaust split: if_splits)
  then show x: "x = fin_ivl k k" by (simp add: fin_ivl_def)
  with assms(2) show "m = k" by simp
qed

lemma ivl_Shl_sound_lemma:
  assumes "ivl_ok i" "ivl_ok x" "n \<in> gamma_ivl i" "m \<in> gamma_ivl x"
  shows "ivl_ok (ivl_Shl i x) \<and> n * 2 ^ nat m \<in> gamma_ivl (ivl_Shl i x)"
proof -
  have nb: "\<not> is_bottom i" "\<not> is_bottom x" using assms ivl_okD(3) by auto
  show ?thesis
  proof (cases "singleton x")
    case (Some k)
    then have "m = k" using singleton_member assms by blast
    then show ?thesis
      using Some nb ivl_mul_sound [OF assms(1) _ assms(3), of "interval_num (2 ^ nat k)" "2 ^ nat k"]
      by (simp add: ivl_Shl_def double_loop_power)
  qed (use nb in \<open>simp add: ivl_Shl_def\<close>)
qed

lemma ivl_LShr_sound_lemma:
  assumes "ivl_ok i" "ivl_ok x" "n \<in> gamma_ivl i" "m \<in> gamma_ivl x" "m < 2 ^ 31"
  shows "\<exists>j. ivl_LShr i x = Inr j \<and> ivl_ok j \<and> n div 2 ^ nat m \<in> gamma_ivl j"
proof -
  note i = ivl_okD [OF assms(1)]
  have nb: "\<not> is_bottom i" "\<not> is_bottom x" using assms ivl_okD(3) by auto
  show ?thesis
  proof (cases "\<exists>k. singleton x = Some k \<and> k > 0 \<and> ext_ge (ivl_lb i) (finite_ext 0) \<and> is_finite (ivl_ub i)")
    case True
    then obtain k where k: "singleton x = Some k" "k > 0" "Fin 0 \<le> lo i" "is_finite (ivl_ub i)" using i(1) by auto
    then have m: "m = k" using singleton_member assms by blast
    have "is_finite (ivl_lb i)" using k(3) i(1) assms(1,3) by (auto elim!: ext_exhaust simp: mem_gamma_iff)
    then obtain a b where ab: "i = fin_ivl a b" using finite_bounds_fin_ivl [OF assms(1)] k(4) by blast
    have "check_shift k = Inr (nat k)" using k(2) m assms(5) by (simp add: check_shift_def fits_def)
    then have "ivl_LShr i x = Inr (interval (finite_ext (a div 2 ^ nat k)) (finite_ext (b div 2 ^ nat k)))"
      using nb k ab by (simp add: ivl_LShr_def pair_number_def num_shr_def drop_bit_eq_div)
    moreover have "a div 2 ^ nat k \<le> n div 2 ^ nat k" "n div 2 ^ nat k \<le> b div 2 ^ nat k"
      using assms(3) ab by (simp_all add: zdiv_mono1)
    ultimately show ?thesis using m by (simp add: interval_sound)
  next
    case False
    then have "ivl_LShr i x = Inr ivl_top" using nb by (auto simp: ivl_LShr_def split: option.splits)
    then show ?thesis by simp
  qed
qed

lemma ivl_AShr_sound_lemma:
  assumes "ivl_ok i" "ivl_ok x" "n \<in> gamma_ivl i" "m \<in> gamma_ivl x" "0 \<le> n"
  shows "\<exists>j. ivl_AShr i x = Inr j \<and> ivl_ok j \<and> n div 2 ^ nat m \<in> gamma_ivl j"
proof -
  have nb: "\<not> is_bottom i" "\<not> is_bottom x" using assms ivl_okD(3) by auto
  show ?thesis
  proof (cases "singleton x")
    case (Some k)
    then have "m = k" using singleton_member assms by blast
    then show ?thesis
      using Some nb ivl_div_positive_constant [OF assms(1,3), of "2 ^ nat k"] sdiv_eq_div [OF assms(5), of "2 ^ nat k"]
      by (simp add: ivl_AShr_def double_loop_power)
  qed (use nb in \<open>simp add: ivl_AShr_def\<close>)
qed

section \<open>Bitwise operations\<close>

lemma fill_ones_bound:
  assumes "0 \<le> k"
  obtains d where "fill_ones k = Inr (2 ^ d - 1)" "k < 2 ^ d"
proof (cases "k = 0")
  case True
  with that [of 0] show ?thesis by (simp add: fill_ones_def)
next
  case False
  have "nat k < 2 ^ binary_digits (nat k)" by (rule binary_digits_bound)
  then have "k < 2 ^ binary_digits (nat k)" using assms by (simp add: nat_less_iff)
  with that False assms show ?thesis by (simp add: fill_ones_def)
qed

lemma or_nonsingleton_sound:
  assumes "ivl_ok i" "ivl_ok x" "n \<in> gamma_ivl i" "m \<in> gamma_ivl x"
    and "\<And>d. 0 \<le> n \<Longrightarrow> 0 \<le> m \<Longrightarrow> n < 2 ^ d \<Longrightarrow> m < 2 ^ d \<Longrightarrow> 0 \<le> r \<and> r < 2 ^ d"
    and "0 \<le> n \<Longrightarrow> 0 \<le> m \<Longrightarrow> 0 \<le> r"
  shows "\<exists>j. or_nonsingleton i x = Inr j \<and> ivl_ok j \<and> r \<in> gamma_ivl j"
proof (cases "Fin 0 \<le> lo i \<and> Fin 0 \<le> lo x")
  case True
  have mem: "lo i \<le> Fin n" "Fin n \<le> hi i" "lo x \<le> Fin m" "Fin m \<le> hi x"
    using assms by (simp_all add: mem_gamma_iff)
  then have pos: "0 \<le> n" "0 \<le> m" using True by (metis ext_order_simps(3) order_trans)+
  note ok = ivl_okD [OF assms(1)] ivl_okD [OF assms(2)]
  show ?thesis
  proof (cases "\<exists>b d. ivl_ub i = finite_ext b \<and> ivl_ub x = finite_ext d")
    case fin: True
    then obtain b d where bd: "ivl_ub i = finite_ext b" "ivl_ub x = finite_ext d" by blast
    then have le: "n \<le> b" "m \<le> d" using mem by simp_all
    then have "0 \<le> max b d" using pos by simp
    then obtain k where k: "fill_ones (max b d) = Inr (2 ^ k - 1)" "max b d < 2 ^ k" by (rule fill_ones_bound)
    then have "0 \<le> r" "r < 2 ^ k" using assms(5) [of k] pos le by auto
    then show ?thesis using True bd k ok by (simp add: or_nonsingleton_def interval_sound)
  next
    case False
    then have "or_nonsingleton i x = Inr (interval (finite_ext 0) plus_infinity)"
      using True ok mem by (auto simp: or_nonsingleton_def elim!: ext_exhaust [of "ivl_ub i"] ext_exhaust [of "ivl_ub x"])
    then show ?thesis using assms(6) pos by (simp add: interval_sound interval_okI)
  qed
next
  case False
  then have "or_nonsingleton i x = Inr ivl_top" using ivl_okD [OF assms(1)] ivl_okD [OF assms(2)] by (auto simp: or_nonsingleton_def)
  then show ?thesis by simp
qed

lemma ivl_Or_sound_lemma:
  assumes "ivl_ok i" "ivl_ok x" "n \<in> gamma_ivl i" "m \<in> gamma_ivl x"
  shows "\<exists>j. ivl_Or i x = Inr j \<and> ivl_ok j \<and> n OR m \<in> gamma_ivl j"
proof -
  have nb: "\<not> is_bottom i" "\<not> is_bottom x" using assms ivl_okD(3) by auto
  have "\<exists>j. or_nonsingleton i x = Inr j \<and> ivl_ok j \<and> n OR m \<in> gamma_ivl j"
    using assms by (rule or_nonsingleton_sound) (simp_all add: OR_upper)
  then show ?thesis using nb singleton_member(1) [OF assms(1,3)] singleton_member(1) [OF assms(2,4)]
    by (auto simp: ivl_Or_def split: option.splits)
qed

lemma ivl_Xor_sound_lemma:
  assumes "ivl_ok i" "ivl_ok x" "n \<in> gamma_ivl i" "m \<in> gamma_ivl x"
  shows "\<exists>j. ivl_Xor i x = Inr j \<and> ivl_ok j \<and> n XOR m \<in> gamma_ivl j"
proof -
  have nb: "\<not> is_bottom i" "\<not> is_bottom x" using assms ivl_okD(3) by auto
  have "\<exists>j. or_nonsingleton i x = Inr j \<and> ivl_ok j \<and> n XOR m \<in> gamma_ivl j"
    using assms by (rule or_nonsingleton_sound) (simp_all add: XOR_upper)
  then show ?thesis using nb singleton_member(1) [OF assms(1,3)] singleton_member(1) [OF assms(2,4)]
    by (auto simp: ivl_Xor_def ivl_Or_def split: option.splits)
qed

text \<open>
  The guard of \<^verbatim>\<open>And\<close>: its two assertions, and no interval that has \<^verbatim>\<open>UINT64_MAX\<close> beside other
  members as a mask.
\<close>

definition and_guard :: "interval_t \<Rightarrow> interval_t \<Rightarrow> bool" where
  "and_guard i x \<longleftrightarrow> (is_top i \<or> ext_ge (ivl_lb i) (finite_ext 0)) \<and> (is_top x \<or> ext_ge (ivl_lb x) (finite_ext 0)) \<and>
     (contains x (type_max uint64_t) \<longrightarrow> singleton x \<noteq> None)"

lemma and_uint32_max_sound:
  assumes "ivl_ok i" "n \<in> gamma_ivl i"
  shows "\<exists>j. and_uint32_max i = Inr j \<and> ivl_ok j \<and> n AND 4294967295 \<in> gamma_ivl j"
proof -
  have nb: "i \<noteq> bottom" using assms by auto
  have eq: "n AND 4294967295 = static_cast uint32_t n" for n :: int
    using take_bit_eq_mask [of 32 n] by (simp add: mask_eq_exp_minus_1)
  have "fits uint32_t (n AND 4294967295)" unfolding eq by (rule static_cast_fits) simp
  then have full: "n AND 4294967295 \<in> gamma_ivl (full uint32_t)" by simp
  consider (fin) a b where "i = fin_ivl a b" "a \<le> b" "finite_size i = Inr (Some (b - a))" | (inf) "finite_size i = Inr None"
    using finite_size_cases [OF assms(1) nb] by blast
  then show ?thesis
  proof cases
    case fin
    have "a \<le> n" "n \<le> b" using assms(2) fin(1) by simp_all
    then have "static_cast uint32_t a \<le> static_cast uint32_t n \<and> static_cast uint32_t n \<le> static_cast uint32_t b"
      if "fits uint32_t (b - a)" "static_cast uint32_t a < static_cast uint32_t b"
      using static_cast_between [of uint32_t a n b] that by (simp add: fits_def del: static_cast.simps)
    then show ?thesis
      using fin full unfolding eq
      by (auto simp: and_uint32_max_def truncate_to_eq Let_def interval_sound simp del: static_cast.simps
          split: if_splits)
  next
    case inf
    then show ?thesis using full by (simp add: and_uint32_max_def)
  qed
qed

lemma and_bounds:
  assumes "0 \<le> (m :: int)"
  shows "0 \<le> n AND m" "n AND m \<le> m" "0 \<le> n \<Longrightarrow> n AND m \<le> n"
  using assms AND_lower AND_upper2 AND_upper1 by (simp_all add: AND_upper2)

lemma is_top_cases:
  assumes "ivl_ok i" "n \<in> gamma_ivl i" "is_top i \<or> ext_ge (ivl_lb i) (finite_ext 0)" "\<not> is_top i"
  shows "0 \<le> n" "Fin n \<le> hi i" "ext_ok (ivl_ub i)"
proof -
  have "Fin 0 \<le> lo i" "lo i \<le> Fin n" "Fin n \<le> hi i"
    using assms ivl_okD [OF assms(1)] by (simp_all add: mem_gamma_iff)
  then show "0 \<le> n" "Fin n \<le> hi i" by (metis ext_order_simps(3) order_trans)+
  show "ext_ok (ivl_ub i)" using ivl_okD [OF assms(1)] by simp
qed

lemma and_tail_sound:
  assumes ok: "ivl_ok i" "ivl_ok x" "n \<in> gamma_ivl i" "m \<in> gamma_ivl x"
    and g: "is_top i \<or> ext_ge (ivl_lb i) (finite_ext 0)" "is_top x \<or> ext_ge (ivl_lb x) (finite_ext 0)"
  shows "\<exists>j. (if \<not> is_top i \<and> \<not> is_top x then Inr (interval (finite_ext 0) (ext_min (ivl_ub i) (ivl_ub x)))
         else if \<not> is_top x then Inr (interval (finite_ext 0) (ivl_ub x))
         else if \<not> is_top i then Inr (interval (finite_ext 0) (ivl_ub i))
         else Inr ivl_top) = (Inr j :: interval_t res) \<and> ivl_ok j \<and> n AND m \<in> gamma_ivl j"
proof -
  note i = is_top_cases [OF ok(1,3) g(1)] and x = is_top_cases [OF ok(2,4) g(2)]
  have within: "ivl_ok (interval (finite_ext 0) u) \<and> n AND m \<in> gamma_ivl (interval (finite_ext 0) u)"
    if "ext_ok u" "0 \<le> n AND m" "Fin (n AND m) \<le> abs_ext u" for u
    using interval_ok_member [of "finite_ext 0" u "n AND m"] that by simp
  consider "\<not> is_top i" "\<not> is_top x" | "is_top i" "\<not> is_top x" | "\<not> is_top i" "is_top x" | "is_top i" "is_top x"
    by blast
  then show ?thesis
  proof cases
    case 1
    have "Fin (n AND m) \<le> hi i" "Fin (n AND m) \<le> hi x"
      using and_bounds [of m n] i [OF 1(1)] x [OF 1(2)] by (metis ext_order_simps(3) order_trans)+
    then have "Fin (n AND m) \<le> abs_ext (ext_min (ivl_ub i) (ivl_ub x))" "ext_ok (ext_min (ivl_ub i) (ivl_ub x))"
      using i [OF 1(1)] x [OF 1(2)] by (simp_all add: ext_min_max_refine)
    then show ?thesis using 1 within and_bounds(1) [of m n] x(1) [OF 1(2)] by simp
  next
    case 2
    have "Fin (n AND m) \<le> hi x" using and_bounds(2) [of m n] x [OF 2(2)] by (metis ext_order_simps(3) order_trans)
    then show ?thesis using 2 within and_bounds(1) [of m n] x [OF 2(2)] by simp
  next
    case 3
    have "Fin (n AND m) \<le> hi i"
      using and_bounds(2) [of n m] i [OF 3(1)] by (metis and.commute ext_order_simps(3) order_trans)
    then show ?thesis using 3 within and_bounds(1) [of n m] i [OF 3(1)] by (simp add: and.commute)
  next
    case 4
    then show ?thesis by simp
  qed
qed

lemma ivl_And_sound_lemma:
  assumes "and_guard i x" "ivl_ok i" "ivl_ok x" "n \<in> gamma_ivl i" "m \<in> gamma_ivl x"
  shows "\<exists>j. ivl_And i x = Inr j \<and> ivl_ok j \<and> n AND m \<in> gamma_ivl j"
proof -
  have nb: "\<not> is_bottom i" "\<not> is_bottom x" using assms ivl_okD(3) by auto
  have g: "is_top i \<or> ext_ge (ivl_lb i) (finite_ext 0)" "is_top x \<or> ext_ge (ivl_lb x) (finite_ext 0)"
    using assms(1) by (simp_all add: and_guard_def)
  note s = singleton_member [OF assms(2,4)] singleton_member [OF assms(3,5)]
  let ?goal = "\<lambda>r. \<exists>j. r = Inr j \<and> ivl_ok j \<and> n AND m \<in> gamma_ivl j"
  show ?thesis
  proof (cases "singleton i \<noteq> None \<and> singleton x \<noteq> None")
    case True
    then show ?thesis using nb g s by (auto simp: ivl_And_def)
  next
    case ns: False
    consider (u32) "ivl_eq x (interval_num (type_max uint32_t))"
      | (u64) "\<not> ivl_eq x (interval_num (type_max uint32_t))" "contains x (type_max uint64_t)"
      | (tail) "\<not> ivl_eq x (interval_num (type_max uint32_t))" "\<not> contains x (type_max uint64_t)"
      by blast
    then show ?thesis
    proof cases
      case u32
      then have "x = interval_num 4294967295" using assms(3) by (simp add: ivl_eq_refines)
      then have "m = 4294967295" using assms(5) by simp
      moreover have "ivl_And i x = and_uint32_max i" using u32 nb g ns by (auto simp: ivl_And_def split: option.splits)
      ultimately show ?thesis using and_uint32_max_sound [OF assms(2,4)] by simp
    next
      case u64
      then obtain k where k: "singleton x = Some k" using assms(1) by (auto simp: and_guard_def)
      then have "m = u64_max" using s(3,4) u64(2) by simp
      moreover have "n AND u64_max = static_cast uint64_t n"
        using take_bit_eq_mask [of 64 n] by (simp add: mask_eq_exp_minus_1)
      moreover have "ivl_And i x = ivl_truncate_to uint64_t i"
        using u64 nb g ns by (auto simp: ivl_And_def split: option.splits)
      ultimately show ?thesis using ivl_truncate_to_sound_lemma [OF assms(2,4), of uint64_t] by simp
    next
      case tail
      then show ?thesis
        using and_tail_sound [OF assms(2-5) g] nb g ns unfolding ivl_And_def by (auto split: option.splits)
    qed
  qed
qed

interpretation or_op: sound_operation ivl_Or "(OR)" "\<lambda>_ _. True"
  by unfold_locales (rule ivl_Or_sound_lemma)

interpretation xor_op: sound_operation ivl_Xor "(XOR)" "\<lambda>_ _. True"
  by unfold_locales (rule ivl_Xor_sound_lemma)

interpretation and_op: sound_operation ivl_And "(AND)" and_guard
  by unfold_locales (rule ivl_And_sound_lemma)

interpretation shl_op: sound_operation "\<lambda>i x. Inr (ivl_Shl i x)" "\<lambda>n m. n * 2 ^ nat m" "\<lambda>_ _. True"
  by unfold_locales (simp add: ivl_Shl_sound_lemma)

definition lshr_guard :: "interval_t \<Rightarrow> interval_t \<Rightarrow> bool" where
  "lshr_guard i x = ivl_le x (interval (finite_ext 0) (finite_ext (type_max int32_t)))"

interpretation lshr_op: sound_operation ivl_LShr "\<lambda>n m. n div 2 ^ nat m" lshr_guard
proof unfold_locales
  fix i x :: interval_t and n m :: int
  assume "lshr_guard i x" and ok: "ivl_ok i" "ivl_ok x" "n \<in> gamma_ivl i" "m \<in> gamma_ivl x"
  then have "m < 2 ^ 31" by (auto simp: lshr_guard_def ivl_le_refines interval_sound)
  then show "\<exists>j. ivl_LShr i x = Inr j \<and> ivl_ok j \<and> n div 2 ^ nat m \<in> gamma_ivl j" using ok by (rule ivl_LShr_sound_lemma [rotated 4])
qed

section \<open>The arithmetic properties\<close>

text \<open>
  C30. Truncation of an interval to a machine type returns an interval inside the type's range
  that has the reduction of every member, for intervals of any size and infinite ones.
\<close>

theorem truncate_interval_sound:
  assumes "ivl_ok i" "n \<in> gamma_ivl i" "0 < type_width T"
  shows "\<exists>j. ivl_truncate_to T i = Inr j \<and> ivl_le j (full T) \<and> static_cast T n \<in> gamma_ivl j"
  using ivl_truncate_to_sound_lemma [OF assms] ivl_truncate_to_fits [OF assms(1) _ assms(3)] assms(2) by fastforce

theorem truncate_interval_sound_witness:
  "\<exists>j. ivl_truncate_to int8_t (fin_ivl 120 130) = Inr j \<and> ivl_le j (full int8_t) \<and> static_cast int8_t 129 \<in> gamma_ivl j"
  by (rule truncate_interval_sound) simp_all

text \<open>
  C29. Addition, subtraction and multiplication of intervals followed by truncation return an
  interval that has the machine result, with wrap-around, of every pair of members; none of the
  infinities makes them throw.
\<close>

theorem wrapped_arithmetic_sound:
  assumes "ivl_ok i" "ivl_ok x" "n \<in> gamma_ivl i" "m \<in> gamma_ivl x" "0 < type_width T"
  shows "(\<exists>j. wrapped ivl_add T i x = Inr j \<and> static_cast T (n + m) \<in> gamma_ivl j) \<and>
    (\<exists>j. wrapped ivl_sub T i x = Inr j \<and> static_cast T (n - m) \<in> gamma_ivl j) \<and>
    (\<exists>j. wrapped (\<lambda>i x. Inr (ivl_mul i x)) T i x = Inr j \<and> static_cast T (n * m) \<in> gamma_ivl j)"
  using add_op.wrapped_sound [OF TrueI assms] sub_op.wrapped_sound [OF TrueI assms] mul_op.wrapped_sound [OF TrueI assms]
  by blast

theorem wrapped_arithmetic_sound_witness:
  "(\<exists>j. wrapped ivl_add uint8_t (fin_ivl 250 255) (interval_num 10) = Inr j \<and> static_cast uint8_t (252 + 10) \<in> gamma_ivl j) \<and>
   static_cast uint8_t (252 + 10) = 6"
proof
  show "\<exists>j. wrapped ivl_add uint8_t (fin_ivl 250 255) (interval_num 10) = Inr j \<and> static_cast uint8_t (252 + 10) \<in> gamma_ivl j"
    using wrapped_arithmetic_sound [of "fin_ivl 250 255" "interval_num 10" 252 10 uint8_t] by simp
qed code_simp

text \<open>
  C32. The signed remainder of two intervals has the truncating remainder of every pair of
  members, with the dividend itself as the remainder by zero.
\<close>

theorem signed_remainder_sound:
  assumes "ivl_ok i" "ivl_ok x" "n \<in> gamma_ivl i" "m \<in> gamma_ivl x"
  shows "\<exists>j. SRem i x = Inr j \<and> (if m = 0 then n else n smod m) \<in> gamma_ivl j"
  using srem_op.sound [OF TrueI assms] by (cases "m = 0") auto

theorem signed_remainder_sound_witness:
  "\<exists>j. SRem (fin_ivl (- 7) 9) (fin_ivl (- 3) 4) = Inr j \<and> - 7 smod 4 \<in> gamma_ivl j"
  using signed_remainder_sound [of "fin_ivl (- 7) 9" "fin_ivl (- 3) 4" "- 7" 4] by simp

text \<open>
  C31. On intervals of unsigned 64-bit values, unsigned division and remainder return and have the
  result of the eBPF instruction on every pair of machine words, division by zero giving zero and
  remainder by zero the dividend.
\<close>

theorem unsigned_division_sound:
  fixes a b :: "64 word"
  assumes "in_u64 i" "in_u64 x" "ivl_ok i" "ivl_ok x" "uint a \<in> gamma_ivl i" "uint b \<in> gamma_ivl x"
  shows "(\<exists>j. UDiv i x = Inr j \<and> uint (if b = 0 then 0 else a div b) \<in> gamma_ivl j) \<and>
    (\<exists>j. URem i x = Inr j \<and> uint (if b = 0 then a else a mod b) \<in> gamma_ivl j)"
proof -
  have "uint (if b = 0 then 0 else a div b) = uint a div uint b" "uint (if b = 0 then a else a mod b) = uint a mod uint b"
    by (simp_all add: uint_div uint_mod)
  then show ?thesis using udiv_op.sound [of i x "uint a" "uint b"] urem_op.sound [of i x "uint a" "uint b"] assms by metis
qed

theorem unsigned_division_sound_witness:
  "\<exists>j. UDiv (fin_ivl 10 100) (fin_ivl 0 7) = Inr j \<and> uint ((50 :: 64 word) div 6) \<in> gamma_ivl j"
  using unsigned_division_sound [of "fin_ivl 10 100" "fin_ivl 0 7" 50 6]
  by (simp add: in_u64_def ivl_le_refines subset_iff fits_def)

text \<open>
  C33. Bitwise or, exclusive or and left shift of intervals have the result of the operation on
  every pair of members, and so has bitwise and where its assertions hold and the mask is not an
  interval that has \<^verbatim>\<open>UINT64_MAX\<close> beside other values.
\<close>

theorem bitwise_sound:
  assumes "ivl_ok i" "ivl_ok x" "n \<in> gamma_ivl i" "m \<in> gamma_ivl x"
  shows "(\<exists>j. ivl_Or i x = Inr j \<and> n OR m \<in> gamma_ivl j) \<and> (\<exists>j. ivl_Xor i x = Inr j \<and> n XOR m \<in> gamma_ivl j) \<and>
    n * 2 ^ nat m \<in> gamma_ivl (ivl_Shl i x) \<and>
    (and_guard i x \<longrightarrow> (\<exists>j. ivl_And i x = Inr j \<and> n AND m \<in> gamma_ivl j))"
  using or_op.sound [OF TrueI assms] xor_op.sound [OF TrueI assms] ivl_Shl_sound_lemma [OF assms]
    and_op.sound [OF _ assms] by blast

theorem bitwise_sound_witness:
  "(\<exists>j. ivl_Or (fin_ivl 1 9) (fin_ivl 0 6) = Inr j \<and> 9 OR 6 \<in> gamma_ivl j) \<and>
   (\<exists>j. ivl_And (fin_ivl 1 9) (fin_ivl 0 6) = Inr j \<and> 9 AND 6 \<in> gamma_ivl j)"
proof -
  have "and_guard (fin_ivl 1 9) (fin_ivl 0 6)" by (simp add: and_guard_def)
  then show ?thesis using bitwise_sound [of "fin_ivl 1 9" "fin_ivl 0 6" 9 6] by simp
qed

text \<open>
  Logical right shift by any amount that fits an \<^verbatim>\<open>int\<close>, and arithmetic right shift of
  non-negative values, have the floor of the division by the power of two.
\<close>

theorem right_shift_sound:
  assumes "ivl_ok i" "ivl_ok x" "n \<in> gamma_ivl i" "m \<in> gamma_ivl x"
  shows "(m < 2 ^ 31 \<longrightarrow> (\<exists>j. ivl_LShr i x = Inr j \<and> n div 2 ^ nat m \<in> gamma_ivl j)) \<and>
    (0 \<le> n \<longrightarrow> (\<exists>j. ivl_AShr i x = Inr j \<and> n div 2 ^ nat m \<in> gamma_ivl j))"
  using ivl_LShr_sound_lemma [OF assms] ivl_AShr_sound_lemma [OF assms] by blast

theorem right_shift_sound_witness:
  "\<exists>j. ivl_LShr (fin_ivl 16 40) (interval_num 3) = Inr j \<and> 33 div 2 ^ nat 3 \<in> gamma_ivl j"
  using right_shift_sound [of "fin_ivl 16 40" "interval_num 3" 33 3] by simp

section \<open>Operations that lose values\<close>

text \<open>
  Signed division by a negative constant keeps the order of the bounds of the dividend, so
  the quotient of a non-singleton interval is empty: \<open>[2, 4]\<close> divided by \<open>-2\<close>.
\<close>

theorem signed_division_negative_constant:
  "SDiv (fin_ivl 2 4) (interval_num (- 2)) = Inr bottom \<and> 2 \<in> gamma_ivl (fin_ivl 2 4) \<and> 2 sdiv (- 2) \<notin> gamma_ivl bottom \<and>
   ivl_div (fin_ivl 2 4) (interval_num (- 2)) = Inr (fin_ivl (- 2) (- 1))"
proof -
  have "SDiv (fin_ivl 2 4) (interval_num (- 2)) = Inr bottom" by code_simp
  moreover have "ivl_div (fin_ivl 2 4) (interval_num (- 2)) = Inr (fin_ivl (- 2) (- 1))" by code_simp
  ultimately show ?thesis by simp
qed

text \<open>
  Division of a negative interval by a positive one moves the dividend down first, and misses
  the quotient \<open>-3 / 4 = 0\<close> in \<open>[-3, -3] / [3, 4]\<close>.
\<close>

theorem division_of_negative_loses_zero:
  "ivl_div (fin_ivl (- 3) (- 3)) (fin_ivl 3 4) = Inr (fin_ivl (- 2) (- 1)) \<and>
   SDiv (fin_ivl (- 3) (- 3)) (fin_ivl 3 4) = Inr (fin_ivl (- 2) (- 1)) \<and>
   (- 3) sdiv 4 \<notin> gamma_ivl (fin_ivl (- 2) (- 1))"
proof -
  have "ivl_div (fin_ivl (- 3) (- 3)) (fin_ivl 3 4) = Inr (fin_ivl (- 2) (- 1))" by code_simp
  moreover have "SDiv (fin_ivl (- 3) (- 3)) (fin_ivl 3 4) = Inr (fin_ivl (- 2) (- 1))" by code_simp
  moreover have "(- 3) sdiv 4 = (0 :: int)" by code_simp
  ultimately show ?thesis by simp
qed

text \<open>
  Arithmetic right shift divides towards zero, while the instruction rounds down:
  \<open>-1\<close> shifted by one is \<open>-1\<close>, the interval result is \<open>0\<close>.
\<close>

theorem arithmetic_shift_rounds_to_zero:
  "ivl_AShr (interval_num (- 1)) (interval_num 1) = Inr (interval_num 0) \<and> (- 1) div 2 ^ nat 1 \<notin> gamma_ivl (interval_num 0)"
proof -
  have "ivl_AShr (interval_num (- 1)) (interval_num 1) = Inr (interval_num 0)" by code_simp
  then show ?thesis by simp
qed

text \<open>
  Unsigned remainder by an unbounded divisor takes one from the dividend, so it misses the
  remainder \<open>5\<close> of \<open>5\<close> by \<open>7\<close>; and unsigned division of two unbounded intervals throws.
\<close>

theorem unsigned_remainder_unbounded_divisor:
  "URem (interval_num 5) (interval (finite_ext 3) plus_infinity) = Inr (fin_ivl 0 4) \<and>
   7 \<in> gamma_ivl (interval (finite_ext 3) plus_infinity) \<and> 5 mod 7 \<notin> gamma_ivl (fin_ivl 0 4) \<and>
   UDiv (interval (finite_ext 1) plus_infinity) (interval (finite_ext 1) plus_infinity) = Inl (RuntimeError ''Bound: inf / inf'')"
proof -
  have "URem (interval_num 5) (interval (finite_ext 3) plus_infinity) = Inr (fin_ivl 0 4)" by code_simp
  moreover have "UDiv (interval (finite_ext 1) plus_infinity) (interval (finite_ext 1) plus_infinity) =
      Inl (RuntimeError ''Bound: inf / inf'')" by code_simp
  ultimately show ?thesis by (simp add: interval_sound)
qed

text \<open>
  Bitwise and with a mask that may be \<^verbatim>\<open>UINT64_MAX\<close> returns the first operand, though the
  mask may as well be zero.
\<close>

theorem and_with_all_ones_in_mask:
  "ivl_And (fin_ivl 5 7) (fin_ivl 0 u64_max) = Inr (fin_ivl 5 7) \<and> 0 \<in> gamma_ivl (fin_ivl 0 u64_max) \<and>
   5 AND 0 \<notin> gamma_ivl (fin_ivl 5 7)"
proof -
  have "ivl_And (fin_ivl 5 7) (fin_ivl 0 u64_max) = Inr (fin_ivl 5 7)" by code_simp
  then show ?thesis by simp
qed

end
