(* ===== verification/Crab_Verifier_Sound.thy ===== *)
theory Crab_Verifier_Sound
  imports Crab_Verifier Crab_Prepare Crab_Wto_Correct Crab_Interval_Bits
begin

text \<open>
  The verifier as a whole: a program that \<^verbatim>\<open>prepare_cfg\<close> turns into a graph and \<^verbatim>\<open>run_ebpf_analysis\<close> accepts
  meets every assertion of every instruction in every execution, and the run ends. The abstract domain
  is any record of operations that is sound for a semantics of the instructions; the properties are
  applied to the intervals of \<^verbatim>\<open>crab/interval.cpp\<close> for the value of one register.
\<close>

section \<open>Composition\<close>

lemma instruction_at_node: "cfg_ok cfg \<Longrightarrow> instruction_at cfg l = Inr ins \<Longrightarrow> l \<in> node_labels cfg"
  using instruction_at_label by (auto simp: cfg_ok_def cfg_shape_def)

lemma verify_returns:
  assumes "cfg_ok cfg" "small_graph cfg" "sound_domain ops gam ok sem holds reset" "widening_rank ops ok rank" "ok d"
  shows "returns (verify opts ops cfg d)"
proof -
  obtain wto where wto: "make_wto cfg = Some (Inr wto)" "wto_ok cfg (wto_view wto)" "\<And>l. \<exists>hs. nesting wto l = Some (Inr hs)"
    by (rule make_wto_correct [OF assms(1,2)]) blast
  have "returns (nesting wto l)" for l using wto(3) [of l] by (auto simp: returns_def)
  then have "returns (run_forward_analyzer opts ops cfg d)"
    by (rule analysis_returns [OF assms(1) wto(1,2) _ assms(3-5)])
  then show ?thesis unfolding verify_def analyze_def by (rule returns_bindR) simp
qed

lemma prepare_cfg_returns:
  assumes "\<And>cfg. instruction_seq_to_cfg prog (must_have_exit opts) = Inr cfg \<Longrightarrow> small_graph cfg"
  shows "returns (prepare_cfg nrw prog info opts)"
proof -
  have "returns (insert_loop_counters cfg)" if "instruction_seq_to_cfg prog (must_have_exit opts) = Inr cfg" for cfg
  proof -
    have ok: "cfg_ok cfg" "small_graph cfg" using instruction_seq_to_cfg_ok [OF that] assms [OF that] by simp_all
    obtain wto where "make_wto cfg = Some (Inr wto)" by (rule make_wto_correct [OF ok])
    then show ?thesis by (simp add: insert_loop_counters_def)
  qed
  then show ?thesis unfolding prepare_cfg_def by (intro returns_bindR) (auto split: if_splits)
qed

section \<open>The interval domain of one register\<close>

definition r0_sem :: "Instruction \<Rightarrow> int \<Rightarrow> int set" where
  "r0_sem ins s =
    (case ins of
       Bin b \<Rightarrow>
         (if bin_dst b \<noteq> Reg 0 then {s}
          else case bin_v b of
            RegV _ \<Rightarrow> UNIV
          | Imm k \<Rightarrow> if bin_op b = Bin_MOV then {sint k} else if bin_op b = Bin_ADD then {s + sint k} else UNIV)
     | Jmp _ \<Rightarrow> {s}
     | Undefined _ \<Rightarrow> {s}
     | _ \<Rightarrow> UNIV)"

definition r0_transform :: "interval_t \<Rightarrow> Instruction \<Rightarrow> interval_t res" where
  "r0_transform d ins =
    (case ins of
       Bin b \<Rightarrow>
         (if bin_dst b \<noteq> Reg 0 then Inr d
          else case bin_v b of
            RegV _ \<Rightarrow> Inr ivl_top
          | Imm k \<Rightarrow> if bin_op b = Bin_MOV then Inr (if is_bottom d then d else interval_num (sint k))
                     else if bin_op b = Bin_ADD then ivl_add d (interval_num (sint k))
                     else Inr ivl_top)
     | Jmp _ \<Rightarrow> Inr d
     | Undefined _ \<Rightarrow> Inr d
     | _ \<Rightarrow> Inr ivl_top)"

definition r0_holds :: "Assertion \<Rightarrow> int \<Rightarrow> bool" where
  "r0_holds a s = (case a of ValidDivisor r _ \<Rightarrow> r = Reg 0 \<and> s \<noteq> 0 | TypeConstraint _ _ \<Rightarrow> True | _ \<Rightarrow> False)"

definition r0_check :: "interval_t \<Rightarrow> Assertion \<Rightarrow> string list res" where
  "r0_check d a =
    (case a of
       ValidDivisor r _ \<Rightarrow> Inr (if is_bottom d \<or> r = Reg 0 \<and> \<not> contains d 0 then [] else [''Possible division by zero''])
     | TypeConstraint _ _ \<Rightarrow> Inr []
     | _ \<Rightarrow> Inr [''unsupported''])"

definition r0_ops :: "interval_t domain_ops" where
  "r0_ops =
    \<lparr>dom_bottom = bottom, dom_le = ivl_le, dom_join = ivl_join, dom_join_into = ivl_join, dom_meet = ivl_meet,
     dom_widen = (\<lambda>a b _. widen a b), dom_narrow = ivl_narrow, dom_is_bottom = is_bottom, dom_transform = r0_transform,
     dom_assume = (\<lambda>d _. Inr d), dom_check = r0_check, dom_initialize_loop_counter = (\<lambda>d _. Inr d),
     dom_loop_count_upper_bound = (\<lambda>_. finite_ext 0)\<rparr>"

lemma ivl_narrow_props:
  assumes "ivl_ok i" "ivl_ok x"
  shows "ivl_ok (ivl_narrow i x)" "gamma_ivl i \<inter> gamma_ivl x \<subseteq> gamma_ivl (ivl_narrow i x)"
proof -
  note i = ivl_okD [OF assms(1)] and x = ivl_okD [OF assms(2)]
  let ?l = "if is_infinite (ivl_lb i) \<and> is_finite (ivl_lb x) then ivl_lb x else ivl_lb i"
  let ?u = "if is_infinite (ivl_ub i) \<and> is_finite (ivl_ub x) then ivl_ub x else ivl_ub i"
  have b: "ext_ok ?l" "ext_ok ?u" using i x by simp_all
  show "ivl_ok (ivl_narrow i x)"
  proof (cases "is_bottom i \<or> is_bottom x")
    case False
    then have "abs_ext ?l \<noteq> PInf" "abs_ext ?u \<noteq> MInf" using ivl_nonbottom assms by simp_all
    then show ?thesis using False b by (simp add: ivl_narrow_def interval_okI)
  qed (auto simp: ivl_narrow_def)
  show "gamma_ivl i \<inter> gamma_ivl x \<subseteq> gamma_ivl (ivl_narrow i x)"
    using assms b i(3) x(3) by (auto simp: ivl_narrow_def mem_gamma_iff interval_sound)
qed

lemma gamma_member: "ivl_ok i \<Longrightarrow> \<not> is_bottom i \<Longrightarrow> \<exists>n. n \<in> gamma_ivl i"
  using ivl_le_refines [of i bottom] by (auto simp: ivl_le_def ivl_okD(3))

lemma ivl_add_ok: "ivl_ok i \<Longrightarrow> ivl_ok x \<Longrightarrow> ivl_add i x = Inr j \<Longrightarrow> ivl_ok j"
  using gamma_member [of i] gamma_member [of x] ivl_add_sound [of i x] by (cases "is_bottom i \<or> is_bottom x") (auto simp: ivl_add_def)

lemma r0_transform_sound:
  assumes "ivl_ok d" "r0_transform d ins = Inr d'"
  shows "ivl_ok d'" "s \<in> gamma_ivl d \<Longrightarrow> r0_sem ins s \<subseteq> gamma_ivl d'"
proof -
  have add: "ivl_ok d'" "s \<in> gamma_ivl d \<Longrightarrow> s + sint k \<in> gamma_ivl d'" if "ivl_add d (interval_num (sint k)) = Inr d'" for k :: u64
    using that ivl_add_ok [OF assms(1) _ that] ivl_add_sound [OF assms(1), of "interval_num (sint k)" s "sint k"] by auto
  have nb: "s \<in> gamma_ivl d \<Longrightarrow> \<not> is_bottom d" using ivl_okD(3) [OF assms(1)] by auto
  show "ivl_ok d'"
    using assms add(1) by (auto simp: r0_transform_def split: Instruction.splits if_splits val.splits)
  show "r0_sem ins s \<subseteq> gamma_ivl d'" if "s \<in> gamma_ivl d"
    using assms(2) that add(2) nb by (auto simp: r0_transform_def r0_sem_def split: Instruction.splits if_splits val.splits)
qed

lemma r0_sound: "sound_domain r0_ops gamma_ivl ivl_ok r0_sem r0_holds (\<lambda>_ s. s)"
proof -
  have "sound_lattice r0_ops gamma_ivl ivl_ok"
    unfolding sound_lattice_def using ivl_domain.join_upper
    by (simp add: r0_ops_def ivl_narrow_props widen_props(1) ivl_domain.ok_join ivl_domain.ok_meet ivl_domain.ok_bot
        ivl_domain.le_iff ivl_domain.meet_exact)
  moreover have "gamma_ivl d = {}" if "ivl_ok d" "is_bottom d" for d using ivl_okD(3) [OF that(1)] that(2) by simp
  ultimately show ?thesis
    unfolding sound_domain_def using r0_transform_sound
    by (auto simp: r0_ops_def r0_check_def r0_holds_def gamma_ivl_def split: Assertion.splits if_splits)
qed

lemma r0_rank: "widening_rank r0_ops ivl_ok ivl_rank"
  unfolding widening_rank_def by (auto simp: r0_ops_def widen_props(3)) (simp add: ivl_rank_def)

section \<open>A program with a loop and a division\<close>

definition r0_bin :: "u8 \<Rightarrow> bin_op_t \<Rightarrow> val \<Rightarrow> Instruction" where
  "r0_bin r op v = Bin \<lparr>bin_op = op, bin_dst = Reg r, bin_v = v, bin_is64 = True, bin_lddw = False\<rparr>"

definition dividing_loop :: InstructionSeq where
  "dividing_loop =
    [(label 0, r0_bin 0 Bin_MOV (Imm 1), None), (label 1, r0_bin 0 Bin_ADD (Imm 1), None),
     (label 2, r0_bin 1 Bin_UDIV (RegV (Reg 0)), None), (label 3, Jmp \<lparr>jmp_cond = None, jmp_target = label 1\<rparr>, None)]"

definition dividing_facts :: "cfg_t \<Rightarrow> bool \<times> bool \<times> (label_t list \<times> Instruction res) list" where
  "dividing_facts cfg =
    (verify default_options r0_ops cfg ivl_top = Some (Inr True),
     int (card (set (cfg_labels cfg)) * (card (set (cfg_labels cfg)) + 1)) < DFN_INF,
     map (\<lambda>l. (succs cfg l, instruction_at cfg l)) [entry_label, label 0, label 1, label 2])"

lemma dividing_loop_facts:
  "map_option (map_sum id dividing_facts) (prepare_cfg gsl_narrow_ref dividing_loop info default_options) =
   Some (Inr (True, True, [([label 0], Inr (Undefined 0)), ([label 1], Inr (r0_bin 0 Bin_MOV (Imm 1))),
     ([label 2], Inr (r0_bin 0 Bin_ADD (Imm 1))), ([label 3], Inr (r0_bin 1 Bin_UDIV (RegV (Reg 0))))]))"
  by code_simp

definition dividing_graph :: "program_info \<Rightarrow> cfg_t \<Rightarrow> bool" where
  "dividing_graph info cfg \<longleftrightarrow> prepare_cfg gsl_narrow_ref dividing_loop info default_options = Some (Inr cfg)"

lemma dividing_graph_facts:
  assumes "dividing_graph info cfg"
  shows "cfg_ok cfg" "verify default_options r0_ops cfg ivl_top = Some (Inr True)" "small_graph cfg"
    "instruction_at cfg (label 2) = Inr (r0_bin 1 Bin_UDIV (RegV (Reg 0)))"
    "reachable (concrete_step cfg r0_sem) cfg (entry_states default_options wto (\<lambda>_ s. s) (gamma_ivl ivl_top)) (label 2) 2"
proof -
  have f: "dividing_facts cfg = (True, True, [([label 0], Inr (Undefined 0)), ([label 1], Inr (r0_bin 0 Bin_MOV (Imm 1))),
     ([label 2], Inr (r0_bin 0 Bin_ADD (Imm 1))), ([label 3], Inr (r0_bin 1 Bin_UDIV (RegV (Reg 0))))])"
    using assms dividing_loop_facts [of info] by (simp add: dividing_graph_def)
  then have s: "succs cfg entry_label = [label 0]" "succs cfg (label 0) = [label 1]" "succs cfg (label 1) = [label 2]"
    and i: "instruction_at cfg entry_label = Inr (Undefined 0)" "instruction_at cfg (label 0) = Inr (r0_bin 0 Bin_MOV (Imm 1))"
      "instruction_at cfg (label 1) = Inr (r0_bin 0 Bin_ADD (Imm 1))"
    by (simp_all add: dividing_facts_def)
  from f show "verify default_options r0_ops cfg ivl_top = Some (Inr True)" "small_graph cfg"
    "instruction_at cfg (label 2) = Inr (r0_bin 1 Bin_UDIV (RegV (Reg 0)))"
    by (simp_all add: dividing_facts_def small_graph_def node_labels_def)
  show "cfg_ok cfg" using assms prepare_cfg_annotates unfolding dividing_graph_def by blast
  let ?reach = "reachable (concrete_step cfg r0_sem) cfg (entry_states default_options wto (\<lambda>_ s. s) (gamma_ivl ivl_top))"
  have "?reach entry_label 0" by (rule reachable_start) (simp add: entry_states_def default_options_def)
  then have "?reach (label 0) 0"
    by (rule reachable_next) (simp_all add: concrete_step_def i r0_sem_def cfg_edges_def s)
  then have "?reach (label 1) 1"
    by (rule reachable_next) (simp_all add: concrete_step_def i r0_sem_def r0_bin_def cfg_edges_def s)
  then show "?reach (label 2) 2"
    by (rule reachable_next) (simp_all add: concrete_step_def i r0_sem_def r0_bin_def cfg_edges_def s)
qed

lemma dividing_graph_exists: "\<exists>cfg. dividing_graph info cfg"
  using dividing_loop_facts [of info] unfolding map_run_Inr dividing_graph_def by blast

section \<open>Properties\<close>




lemma dividing_loop_small: "\<forall>cfg. instruction_seq_to_cfg dividing_loop (must_have_exit default_options) = Inr cfg \<longrightarrow> small_graph cfg"
proof -
  have "map_sum id (\<lambda>cfg. int (card (set (cfg_labels cfg)) * (card (set (cfg_labels cfg)) + 1)) < DFN_INF)
      (instruction_seq_to_cfg dividing_loop (must_have_exit default_options)) = Inr True"
    by code_simp
  then show ?thesis by (auto simp: small_graph_def node_labels_def)
qed


text \<open>
  C3. The builder of the weak topological order ends without an exception on every well-formed graph whose
  size keeps the visit numbers below the largest 32-bit integer. Its result is a weak topological order: it starts with
  the entry, contains every vertex that is reachable from it exactly once, and inside of every sequence of components
  edges lead forward, or back to the head of a cycle around their source. The nesting of every label can be computed from it.
\<close>

theorem wto_builder_correct:
  assumes "cfg_ok cfg" "small_graph cfg"
  shows "\<exists>wto. make_wto cfg = Some (Inr wto) \<and> wto_ok cfg (wto_view wto) \<and>
    (cfg_edges cfg)\<^sup>* `` {entry_label} \<subseteq> set (comps_nodes (wto_view wto)) \<and>
    distinct (comps_nodes (wto_view wto)) \<and> (\<forall>l. \<exists>hs. nesting wto l = Some (Inr hs))"
proof -
  obtain wto where wto: "make_wto cfg = Some (Inr wto)" "wto_ok cfg (wto_view wto)" "\<And>l. \<exists>hs. nesting wto l = Some (Inr hs)"
    by (rule make_wto_correct [OF assms]) blast
  have "v \<in> set (comps_nodes (wto_view wto))" if "(entry_label, v) \<in> (cfg_edges cfg)\<^sup>*" for v
    using that
  proof (induction rule: rtrancl_induct)
    case base
    show ?case using wto(2) by (auto simp: wto_ok_def split: list.splits wto_comp.splits)
  next
    case (step u v)
    then show ?case using wto(2) by (auto simp: wto_ok_def cfg_edges_def)
  qed
  moreover have "distinct (comps_nodes (wto_view wto))" using comps_ok_distinct(2) wto(2) by (auto simp: wto_ok_def)
  ultimately show ?thesis using wto by blast
qed

lemma adjacency_list_ok:
  assumes "cfg_from_adjacency_list adj = Inr cfg"
  shows "cfg_ok cfg"
proof -
  obtain c1 where c1: "foldE (\<lambda>c (l, _). if l = entry_label \<or> l = exit_label then Inr c else cfg_insert c l (unguarded (Undefined 0))) empty_cfg adj = Inr c1"
    and c2: "foldE (\<lambda>c (l, children). foldE (\<lambda>c' child. add_child c' l child) c children) c1 adj = Inr cfg"
    using assms by (auto simp: cfg_from_adjacency_list_def bindE_eq_Inr_iff)
  have "cfg_ok c1"
    by (rule foldE_invariant [OF c1]) (auto simp: cfg_insert_ok split: if_splits)
  then show ?thesis
    by (rule foldE_invariant [OF c2]) (auto elim!: foldE_invariant dest: add_child_ok)
qed

theorem wto_builder_correct_witness:
  "\<exists>cfg wto. nested_graph = Inr cfg \<and> make_wto cfg = Some (Inr wto) \<and> label 3 \<in> set (comps_nodes (wto_view wto))"
proof -
  have "case nested_graph of Inl _ \<Rightarrow> False | Inr cfg \<Rightarrow>
      int (card (set (cfg_labels cfg)) * (card (set (cfg_labels cfg)) + 1)) < DFN_INF \<and>
      succs cfg entry_label = [label 1] \<and> succs cfg (label 1) = [label 2] \<and> label 3 \<in> set (succs cfg (label 2))"
    by code_simp
  then obtain cfg where cfg: "nested_graph = Inr cfg" "small_graph cfg"
    "succs cfg entry_label = [label 1]" "succs cfg (label 1) = [label 2]" "label 3 \<in> set (succs cfg (label 2))"
    by (auto simp: small_graph_def node_labels_def split: sum.splits)
  have ok: "cfg_ok cfg" using cfg(1) adjacency_list_ok unfolding nested_graph_def by blast
  have "(entry_label, label 3) \<in> (cfg_edges cfg)\<^sup>*"
  proof -
    have "(entry_label, label 1) \<in> cfg_edges cfg" "(label 1, label 2) \<in> cfg_edges cfg" "(label 2, label 3) \<in> cfg_edges cfg"
      using cfg(3-5) by (simp_all add: cfg_edges_def)
    then show ?thesis by (meson rtrancl.rtrancl_refl rtrancl.rtrancl_into_rtrancl)
  qed
  then show ?thesis using wto_builder_correct [OF ok cfg(2)] cfg(1) by blast
qed

text \<open>
  C21. The report and the verdict of an analysis agree: when the report can be made, it has no warnings if and
  only if the program is accepted.
\<close>

theorem report_agrees_with_verdict:
  assumes "check_assertions ops cfg tab = Inr rp"
  shows "verified ops cfg tab = Inr (rep_warnings rp = [])"
  using check_assertions_from [OF assms [unfolded check_assertions_def]] by (auto simp: report_verified_def)

definition rejected_table :: "interval_t invariant_table_t" where
  "rejected_table = [(label 2, \<lparr>inv_pre = ivl_top, inv_post = ivl_top\<rparr>)]"

theorem report_agrees_with_verdict_witness:
  "\<forall>info. \<exists>cfg rp. dividing_graph info cfg \<and> check_assertions r0_ops cfg rejected_table = Inr rp \<and>
     rep_warnings rp = [(label 2, [''Possible division by zero''])] \<and> verified r0_ops cfg rejected_table = Inr False"
proof
  fix info
  have "bindR (prepare_cfg gsl_narrow_ref dividing_loop info default_options) (\<lambda>cfg. lift_res (check_assertions r0_ops cfg rejected_table)) =
    Some (Inr \<lparr>rep_warnings = [(label 2, [''Possible division by zero''])], rep_reachability = []\<rparr>)"
    by code_simp
  then obtain cfg rp where "dividing_graph info cfg" "check_assertions r0_ops cfg rejected_table = Inr rp"
    "rep_warnings rp = [(label 2, [''Possible division by zero''])]"
    by (auto simp: bindR_eq_Inr dividing_graph_def)
  with report_agrees_with_verdict [OF this(2)]
  show "\<exists>cfg rp. dividing_graph info cfg \<and> check_assertions r0_ops cfg rejected_table = Inr rp \<and>
     rep_warnings rp = [(label 2, [''Possible division by zero''])] \<and> verified r0_ops cfg rejected_table = Inr False"
    by auto
qed

text \<open>
  C22. The loop bound that the analysis reports is the number of a signed 32-bit integer, and no loop counter of the
  invariants exceeds it, unless it is the largest such integer, which also stands for an unknown bound.
\<close>

theorem max_loop_count_is_bound:
  assumes "\<forall>(l, p) \<in> set tab. ext_ok (dom_loop_count_upper_bound ops (inv_post p))"
  shows "\<exists>r. max_loop_count ops tab = Inr r \<and> 0 \<le> r \<and> r \<le> 2 ^ 31 - 1 \<and>
    (\<forall>(l, p) \<in> set tab. abs_ext (dom_loop_count_upper_bound ops (inv_post p)) \<le> Fin r \<or> r = 2 ^ 31 - 1)"
  by (rule max_loop_count_bounds [OF assms])

definition counted_table :: "interval_t invariant_table_t" where
  "counted_table = [(label 1, \<lparr>inv_pre = interval_num 0, inv_post = interval (finite_ext 0) (finite_ext 7)\<rparr>),
     (label 2, \<lparr>inv_pre = interval_num 0, inv_post = interval_num 3\<rparr>)]"

theorem max_loop_count_is_bound_witness:
  "\<exists>r. max_loop_count (r0_ops\<lparr>dom_loop_count_upper_bound := ivl_ub\<rparr>) counted_table = Inr r \<and> r = 7 \<and>
     list_all (\<lambda>(l, p). abs_ext (ivl_ub (inv_post p)) \<le> Fin r) counted_table"
proof -
  let ?ops = "r0_ops\<lparr>dom_loop_count_upper_bound := ivl_ub\<rparr>"
  have "\<forall>(l, p) \<in> set counted_table. ext_ok (dom_loop_count_upper_bound ?ops (inv_post p))"
    by (simp add: counted_table_def interval_def interval_num_def)
  note b = max_loop_count_is_bound [OF this]
  moreover have "max_loop_count ?ops counted_table = Inr 7" by code_simp
  ultimately show ?thesis by (auto simp: list_all_iff)
qed

end
