(* ===== verification/Crab_Bitset.thy ===== *)
theory Crab_Bitset
  imports Abstract_Domain Ebpf_Platform Std_Containers
begin

text \<open>
  The bit-set domain of \<^verbatim>\<open>crab/bitset_domain.hpp\<close>: one bit per byte of the stack, set when the byte may
  hold something that is not a number. \<^verbatim>\<open>std::bitset<EBPF_TOTAL_STACK_SIZE>\<close> is a word of 4096 bits.
  Positions are \<^verbatim>\<open>size_t\<close>, whose sums and differences wrap, and lengths are \<^verbatim>\<open>int\<close>; both
  conversions are written out. \<^verbatim>\<open>std::bitset::set\<close> and \<^verbatim>\<open>reset\<close> throw on a position out of range.
\<close>

section \<open>Sets of constraints as text\<close>

text \<open>\<^verbatim>\<open>string_invariant\<close> of \<^verbatim>\<open>string_constraints.hpp\<close> and \<^verbatim>\<open>asm_parse.cpp\<close>: \<open>None\<close> is bottom.\<close>

type_synonym string_invariant = "string oset option"

definition si_top :: string_invariant where
  "si_top = Some []"

definition si_bottom :: string_invariant where
  "si_bottom = None"

definition si_is_bottom :: "string_invariant \<Rightarrow> bool" where
  "si_is_bottom si = (si = None)"

definition si_empty :: "string_invariant \<Rightarrow> bool" where
  "si_empty si = (si = Some [])"

definition si_value :: "string_invariant \<Rightarrow> string oset res" where
  "si_value si = opt_to_res (RuntimeError ''cannot iterate bottom'') si"

definition si_minus :: "string_invariant \<Rightarrow> string_invariant \<Rightarrow> string_invariant res" where
  "si_minus a b =
    (if si_is_bottom a then Inr si_bottom
     else bindE (si_value a) (\<lambda>xs. Inr (Some
       (fold (\<lambda>cst res. if si_is_bottom b \<or> cst \<notin> set (the b) then oset_insert cst res else res) xs []))))"

definition si_plus :: "string_invariant \<Rightarrow> string_invariant \<Rightarrow> string_invariant res" where
  "si_plus a b =
    (if si_is_bottom a then Inr b
     else bindE (si_value b) (\<lambda>ys. Inr (Some
       (fold (\<lambda>cst res. if cst \<notin> set res then oset_insert cst res else res) ys (the a)))))"

section \<open>The domain\<close>

type_synonym bits_t = "4096 word"

record bitset_domain_t =
  non_numerical_bytes :: bits_t

definition bitset_new :: bitset_domain_t where
  "bitset_new = \<lparr>non_numerical_bytes = - 1\<rparr>"

definition bitset_of :: "bits_t \<Rightarrow> bitset_domain_t" where
  "bitset_of bs = \<lparr>non_numerical_bytes = bs\<rparr>"

definition bitset_set_to_top :: "bitset_domain_t \<Rightarrow> bitset_domain_t" where
  "bitset_set_to_top b = b\<lparr>non_numerical_bytes := - 1\<rparr>"

definition bitset_set_to_bottom :: "bitset_domain_t \<Rightarrow> bitset_domain_t" where
  "bitset_set_to_bottom b = b\<lparr>non_numerical_bytes := 0\<rparr>"

definition bitset_is_top :: "bitset_domain_t \<Rightarrow> bool" where
  "bitset_is_top b = (non_numerical_bytes b = - 1)"

definition bitset_is_bottom :: "bitset_domain_t \<Rightarrow> bool" where
  "bitset_is_bottom b = False"

definition bitset_le :: "bitset_domain_t \<Rightarrow> bitset_domain_t \<Rightarrow> bool" where
  "bitset_le a b = (non_numerical_bytes a OR non_numerical_bytes b = non_numerical_bytes b)"

definition bitset_eq :: "bitset_domain_t \<Rightarrow> bitset_domain_t \<Rightarrow> bool" where
  "bitset_eq a b = (non_numerical_bytes a = non_numerical_bytes b)"

definition bitset_join :: "bitset_domain_t \<Rightarrow> bitset_domain_t \<Rightarrow> bitset_domain_t" where
  "bitset_join a b = bitset_of (non_numerical_bytes a OR non_numerical_bytes b)"

definition bitset_meet :: "bitset_domain_t \<Rightarrow> bitset_domain_t \<Rightarrow> bitset_domain_t" where
  "bitset_meet a b = bitset_of (non_numerical_bytes a AND non_numerical_bytes b)"

definition bitset_widen :: "bitset_domain_t \<Rightarrow> bitset_domain_t \<Rightarrow> bitset_domain_t" where
  "bitset_widen a b = bitset_of (non_numerical_bytes a OR non_numerical_bytes b)"

definition bitset_narrow :: "bitset_domain_t \<Rightarrow> bitset_domain_t \<Rightarrow> bitset_domain_t" where
  "bitset_narrow a b = bitset_of (non_numerical_bytes a AND non_numerical_bytes b)"

section \<open>Ranges of bytes\<close>

text \<open>\<open>stack_left lb\<close> is \<^verbatim>\<open>(int)(EBPF_TOTAL_STACK_SIZE - lb)\<close>, \<open>pos_add lb j\<close> is \<^verbatim>\<open>lb + j\<close>.\<close>

definition stack_left :: "nat \<Rightarrow> int" where
  "stack_left lb = sint (word_of_int (EBPF_TOTAL_STACK_SIZE - int lb) :: 32 word)"

definition pos_add :: "nat \<Rightarrow> nat \<Rightarrow> nat" where
  "pos_add lb j = (lb + j) mod 2 ^ 64"

definition range_width :: "nat \<Rightarrow> int \<Rightarrow> nat" where
  "range_width lb width = nat (min width (stack_left lb))"

fun uniformity_loop :: "bits_t \<Rightarrow> nat list \<Rightarrow> bool \<times> bool \<Rightarrow> (bool \<times> bool) res" where
  "uniformity_loop bs [] acc = Inr acc"
| "uniformity_loop bs (i # is) (only_num, only_non_num) =
    (if i \<ge> 4096 then Inl (RuntimeError ''bitset index out of range'')
     else uniformity_loop bs is (only_num \<and> \<not> bit bs i, only_non_num \<and> bit bs i))"

definition uniformity :: "bitset_domain_t \<Rightarrow> nat \<Rightarrow> int \<Rightarrow> (bool \<times> bool) res" where
  "uniformity b lb width =
    uniformity_loop (non_numerical_bytes b) (map (pos_add lb) [0..<range_width lb width]) (True, True)"

function all_num_end :: "bits_t \<Rightarrow> nat \<Rightarrow> nat" where
  "all_num_end bs ub = (if ub < 4096 \<and> \<not> bit bs ub then all_num_end bs (ub + 1) else ub)"
  by auto
termination by (relation "measure (\<lambda>(bs, ub). 4096 - ub)") auto

declare all_num_end.simps [simp del]

definition all_num_width :: "bitset_domain_t \<Rightarrow> nat \<Rightarrow> int" where
  "all_num_width b lb = int (all_num_end (non_numerical_bytes b) lb - lb)"

fun bits_foldE :: "(nat \<Rightarrow> bits_t \<Rightarrow> bits_t) \<Rightarrow> nat list \<Rightarrow> bits_t \<Rightarrow> bits_t res" where
  "bits_foldE f [] bs = Inr bs"
| "bits_foldE f (i # is) bs = (if i \<ge> 4096 then Inl OutOfRange else bits_foldE f is (f i bs))"

definition bitset_reset :: "bitset_domain_t \<Rightarrow> nat \<Rightarrow> int \<Rightarrow> bitset_domain_t res" where
  "bitset_reset b lb n =
    bindE (bits_foldE unset_bit (map (pos_add lb) [0..<range_width lb n]) (non_numerical_bytes b))
      (\<lambda>bs. Inr (b\<lparr>non_numerical_bytes := bs\<rparr>))"

definition bitset_havoc :: "bitset_domain_t \<Rightarrow> nat \<Rightarrow> int \<Rightarrow> bitset_domain_t res" where
  "bitset_havoc b lb width =
    bindE (bits_foldE set_bit (map (pos_add lb) [0..<range_width lb width]) (non_numerical_bytes b))
      (\<lambda>bs. Inr (b\<lparr>non_numerical_bytes := bs\<rparr>))"

definition all_num :: "bitset_domain_t \<Rightarrow> int \<Rightarrow> int \<Rightarrow> bool res" where
  "all_num b lb ub =
    (if \<not> lb < ub then Inl AssertionFailure
     else let lb = max lb 0; ub = min ub EBPF_TOTAL_STACK_SIZE in
       Inr (if lb < 0 \<or> ub > 4096 then False
            else list_all (\<lambda>i. \<not> bit (non_numerical_bytes b) i) [nat lb..<nat ub]))"

section \<open>Printing\<close>

text \<open>
  Both printers walk over the maximal runs of numerical bytes; the loop counter skips the byte that
  ends a run. A run is its first position and the position after its last one.
\<close>

lemma all_num_end_ge: "ub \<le> all_num_end bs ub"
  by (induction bs ub rule: all_num_end.induct) (subst all_num_end.simps, auto)

function num_runs :: "bits_t \<Rightarrow> nat \<Rightarrow> (nat \<times> nat) list" where
  "num_runs bs i =
    (if i \<ge> 4096 then []
     else if bit bs i then num_runs bs (i + 1)
     else let j = all_num_end bs (i + 1) in (i, j) # num_runs bs (j + 1))"
  by auto

termination
proof (relation "measure (\<lambda>(bs, i). 4096 - i)", goal_cases)
  case (3 bs i x)
  then show ?case using all_num_end_ge [of "i + 1" bs] by simp
qed auto

declare num_runs.simps [simp del]

definition run_to_string :: "nat \<times> nat \<Rightarrow> string" where
  "run_to_string r = nat_to_base 10 (fst r) @
     (if snd r > fst r + 1 then ''...'' @ nat_to_base 10 (snd r - 1) else [])"

definition bitset_print :: "bitset_domain_t \<Rightarrow> string" where
  "bitset_print b = ''Numbers -> {'' @
     concat (case map (\<lambda>r. ''['' @ run_to_string r @ '']'') (num_runs (non_numerical_bytes b) 0) of
         [] \<Rightarrow> [] | s # ss \<Rightarrow> s # map ((@) '', '') ss) @ ''}''"

definition bitset_to_set :: "bitset_domain_t \<Rightarrow> string_invariant" where
  "bitset_to_set b =
    (if bitset_is_bottom b then si_bottom
     else if bitset_is_top b then si_top
     else Some (fold (\<lambda>r res. oset_insert (''s['' @ run_to_string r @ ''].type=number'') res)
       (num_runs (non_numerical_bytes b) 0) []))"

section \<open>Meaning\<close>

text \<open>The bytes that may hold something other than a number.\<close>

definition nonnum :: "bitset_domain_t \<Rightarrow> nat set" where
  "nonnum b = {i. i < 4096 \<and> bit (non_numerical_bytes b) i}"

lemma nonnum_bit: "i \<in> nonnum b \<longleftrightarrow> bit (non_numerical_bytes b) i"
proof -
  have "bit (non_numerical_bytes b) i \<Longrightarrow> i < 4096" using bit_imp_le_length [of "non_numerical_bytes b" i] by simp
  then show ?thesis by (auto simp: nonnum_def)
qed

lemma nonnum_eqI: "nonnum a = nonnum b \<Longrightarrow> non_numerical_bytes a = non_numerical_bytes b"
  by (rule bit_eqI) (metis nonnum_bit)

lemma nonnum_inj: "nonnum a = nonnum b \<longleftrightarrow> a = (b :: bitset_domain_t)"
  by (auto dest: nonnum_eqI)

lemma nonnum_simps [simp]:
  "nonnum (bitset_join a b) = nonnum a \<union> nonnum b" "nonnum (bitset_meet a b) = nonnum a \<inter> nonnum b"
  "nonnum (bitset_widen a b) = nonnum a \<union> nonnum b" "nonnum (bitset_narrow a b) = nonnum a \<inter> nonnum b"
  "nonnum bitset_new = {0..<4096}" "nonnum (bitset_set_to_top b) = {0..<4096}" "nonnum (bitset_set_to_bottom b) = {}"
  by (auto simp: nonnum_def bitset_join_def bitset_meet_def bitset_widen_def bitset_narrow_def bitset_new_def
      bitset_set_to_top_def bitset_set_to_bottom_def bitset_of_def bit_or_iff bit_and_iff)

lemma bitset_le_iff: "bitset_le a b \<longleftrightarrow> nonnum a \<subseteq> nonnum b"
proof -
  have "bitset_le a b \<longleftrightarrow> nonnum (bitset_join a b) = nonnum b"
    unfolding nonnum_inj by (cases b) (simp add: bitset_le_def bitset_join_def bitset_of_def)
  then show ?thesis by auto
qed

lemma bitset_is_top_iff: "bitset_is_top b \<longleftrightarrow> nonnum b = {0..<4096}"
proof -
  have "bitset_is_top b \<longleftrightarrow> nonnum b = nonnum bitset_new" unfolding nonnum_inj by (auto simp: bitset_is_top_def bitset_new_def)
  then show ?thesis by simp
qed

text \<open>
  The positions of a range that starts on the stack: the clamped length keeps all of them below
  the end, so neither the sum nor the position is out of range.
\<close>

lemma stack_left_eq: "lb \<le> 4096 \<Longrightarrow> stack_left lb = 4096 - int lb"
  unfolding stack_left_def EBPF_TOTAL_STACK_SIZE_def MAX_CALL_STACK_FRAMES_def EBPF_SUBPROGRAM_STACK_SIZE_def sint_sbintrunc'
  by (rule trans [OF signed_take_bit_int_eq_self]) simp_all

lemma range_positions:
  assumes "lb \<le> 4096"
  shows "map (pos_add lb) [0..<range_width lb width] = [lb..<min 4096 (lb + nat width)]"
proof -
  have w: "range_width lb width = min (nat width) (4096 - lb)"
    using assms by (auto simp: range_width_def stack_left_eq min_def)
  have "map (pos_add lb) [0..<range_width lb width] = map (\<lambda>j. j + lb) [0..<range_width lb width]"
    using assms by (auto simp: pos_add_def w intro!: map_cong)
  also have "\<dots> = [lb..<range_width lb width + lb]" by (simp add: map_add_upt)
  also have "range_width lb width + lb = min 4096 (lb + nat width)" using assms w by auto
  finally show ?thesis .
qed

lemma bits_foldE_set:
  assumes "\<forall>i \<in> set is. i < 4096"
  shows "\<exists>bs'. bits_foldE f is bs = Inr bs' \<and> bs' = fold f is bs"
  using assms by (induction "is" arbitrary: bs) auto

lemma bit_fold_set_bit: "bit (fold set_bit is (bs :: bits_t)) i \<longleftrightarrow> bit bs i \<or> (i \<in> set is \<and> i < 4096)"
  by (induction "is" arbitrary: bs) (auto simp: bit_set_bit_iff)

lemma bit_fold_unset_bit: "bit (fold unset_bit is (bs :: bits_t)) i \<longleftrightarrow> bit bs i \<and> i \<notin> set is"
  by (induction "is" arbitrary: bs) (auto simp: bit_unset_bit_iff)

lemma uniformity_loop_spec:
  assumes "\<forall>i \<in> set is. i < 4096"
  shows "uniformity_loop bs is (p, q) = Inr (p \<and> (\<forall>i \<in> set is. \<not> bit bs i), q \<and> (\<forall>i \<in> set is. bit bs i))"
  using assms by (induction "is" arbitrary: p q) auto

lemma all_num_end_spec:
  "all_num_end bs ub \<le> max ub 4096 \<and> (\<forall>i \<in> {ub..<all_num_end bs ub}. \<not> bit bs i) \<and>
   (all_num_end bs ub < 4096 \<longrightarrow> bit bs (all_num_end bs ub))"
proof (induction bs ub rule: all_num_end.induct)
  case (1 bs ub)
  show ?case
  proof (cases "ub < 4096 \<and> \<not> bit bs ub")
    case True
    then have "all_num_end bs ub = all_num_end bs (ub + 1)" by (subst all_num_end.simps) simp
    moreover have "\<not> bit bs i" if "i \<in> {ub..<all_num_end bs (ub + 1)}" for i
      using that True 1 [OF True] by (cases "i = ub") simp_all
    moreover have "max (ub + 1) 4096 = max ub 4096" using True by simp
    ultimately show ?thesis using 1 [OF True] by simp
  next
    case False
    then have "all_num_end bs ub = ub" by (subst all_num_end.simps) auto
    with False show ?thesis by auto
  qed
qed

section \<open>Properties\<close>


text \<open>
  C37. On a range that starts on the stack, no operation throws: \<^verbatim>\<open>havoc\<close> and \<^verbatim>\<open>reset\<close> change exactly the
  bytes of the range that are on the stack, \<^verbatim>\<open>uniformity\<close> says whether these bytes are all numbers and
  whether they are all something else, and \<^verbatim>\<open>all_num_width\<close> is the length of the longest run of
  numerical bytes.
\<close>

theorem bitset_ranges:
  assumes "lb \<le> 4096" and R_def: "R = {lb..<min 4096 (lb + nat width)}"
  shows "\<exists>h r. bitset_havoc b lb width = Inr h \<and> nonnum h = nonnum b \<union> R \<and>
      bitset_reset b lb width = Inr r \<and> nonnum r = nonnum b - R \<and>
      uniformity b lb width = Inr (R \<inter> nonnum b = {}, R \<subseteq> nonnum b) \<and>
      {lb..<lb + nat (all_num_width b lb)} \<inter> nonnum b = {} \<and>
      (lb + nat (all_num_width b lb) = 4096 \<or> lb + nat (all_num_width b lb) \<in> nonnum b)"
proof -
  let ?is = "[lb..<min 4096 (lb + nat width)]"
  have lt: "\<forall>i \<in> set ?is. i < 4096" by simp
  let ?e = "all_num_end (non_numerical_bytes b) lb"
  have e: "lb + nat (all_num_width b lb) = ?e" using all_num_end_ge [of lb "non_numerical_bytes b"] by (simp add: all_num_width_def)
  have run: "?e \<le> 4096" "\<forall>i \<in> {lb..<?e}. \<not> bit (non_numerical_bytes b) i" "?e < 4096 \<longrightarrow> bit (non_numerical_bytes b) ?e"
    using all_num_end_spec [of "non_numerical_bytes b" lb] assms(1) by (auto simp: max_def split: if_splits)
  have "uniformity b lb width = Inr (R \<inter> nonnum b = {}, R \<subseteq> nonnum b)"
    unfolding uniformity_def range_positions [OF assms(1)] uniformity_loop_spec [OF lt]
    by (auto simp: R_def nonnum_bit)
  moreover have "bits_foldE set_bit ?is (non_numerical_bytes b) = Inr (fold set_bit ?is (non_numerical_bytes b))"
    "bits_foldE unset_bit ?is (non_numerical_bytes b) = Inr (fold unset_bit ?is (non_numerical_bytes b))"
    using bits_foldE_set [OF lt] by blast+
  moreover have "{lb..<?e} \<inter> nonnum b = {}" "?e = 4096 \<or> ?e \<in> nonnum b" using run by (auto simp: nonnum_bit)
  ultimately show ?thesis
    unfolding bitset_havoc_def bitset_reset_def range_positions [OF assms(1)] e
    by (auto simp: R_def nonnum_bit bit_fold_set_bit bit_fold_unset_bit)
qed

theorem bitset_ranges_witness:
  "\<exists>h r. bitset_havoc bitset_new 4090 10 = Inr h \<and> nonnum h = nonnum bitset_new \<union> {4090..<4096} \<and>
      bitset_reset bitset_new 4090 10 = Inr r \<and> nonnum r = nonnum bitset_new - {4090..<4096} \<and>
      uniformity bitset_new 4090 10 = Inr ({4090..<4096} \<inter> nonnum bitset_new = {}, {4090..<4096} \<subseteq> nonnum bitset_new)"
  using bitset_ranges [of 4090 "{4090..<4096}" 10 bitset_new] by (fastforce simp del: nonnum_simps)

end
