(* ===== verification/Crab_Adapt_Graph.thy ===== *)
theory Crab_Adapt_Graph
  imports Std_Containers
begin

text \<open>
  The weighted graph of \<^verbatim>\<open>crab_utils/adapt_sgraph.hpp\<close>. Both directions of an edge hold the index of its
  weight in one vector; freed vertices and freed weight indices are kept on stacks (the end of the
  list is the top) and used again. Keys of the adjacency maps are 16-bit, so vertex numbers are
  reduced when they become keys; the edge counter is a machine word. Accesses to a vector at a
  vertex that does not exist are undefined in the code and excluded by the preconditions here, and
  so is the assertion in \<^verbatim>\<open>new_vertex\<close>, which the invariant \<open>graph_ok\<close> implies.
\<close>

section \<open>Sparse maps\<close>

type_synonym smap = "(nat, nat) omap"

definition key16 :: "nat \<Rightarrow> nat" where
  "key16 k = k mod 65536"

definition smap_contains :: "smap \<Rightarrow> nat \<Rightarrow> bool" where
  "smap_contains m k = (map_of m (key16 k) \<noteq> None)"

definition smap_lookup :: "smap \<Rightarrow> nat \<Rightarrow> nat option" where
  "smap_lookup m k = map_of m (key16 k)"

definition smap_remove :: "nat \<Rightarrow> smap \<Rightarrow> smap" where
  "smap_remove k m = filter (\<lambda>(k', v). k' \<noteq> key16 k) m"

definition smap_add :: "nat \<Rightarrow> nat \<Rightarrow> smap \<Rightarrow> smap" where
  "smap_add k v m = omap_put (key16 k) v m"

section \<open>The graph\<close>

type_synonym vert_id = nat
type_synonym Weight = int

record adapt_graph =
  ag_preds :: "smap list"
  ag_succs :: "smap list"
  ag_ws :: "Weight list"
  ag_edge_count :: u64
  ag_is_free :: "bool list"
  ag_free_id :: "vert_id list"
  ag_free_widx :: "nat list"

definition graph_new :: adapt_graph where
  "graph_new = \<lparr>ag_preds = [], ag_succs = [], ag_ws = [], ag_edge_count = 0, ag_is_free = [], ag_free_id = [], ag_free_widx = []\<rparr>"

definition graph_verts :: "adapt_graph \<Rightarrow> vert_id list" where
  "graph_verts g = filter (\<lambda>v. \<not> ag_is_free g ! v) [0..<length (ag_is_free g)]"

definition graph_succs :: "adapt_graph \<Rightarrow> vert_id \<Rightarrow> vert_id list" where
  "graph_succs g v = omap_keys (ag_succs g ! v)"

definition graph_preds :: "adapt_graph \<Rightarrow> vert_id \<Rightarrow> vert_id list" where
  "graph_preds g v = omap_keys (ag_preds g ! v)"

definition graph_e_succs :: "adapt_graph \<Rightarrow> vert_id \<Rightarrow> (vert_id \<times> Weight) list" where
  "graph_e_succs g v = map (\<lambda>(d, i). (d, ag_ws g ! i)) (ag_succs g ! v)"

definition graph_e_preds :: "adapt_graph \<Rightarrow> vert_id \<Rightarrow> (vert_id \<times> Weight) list" where
  "graph_e_preds g v = map (\<lambda>(s, i). (s, ag_ws g ! i)) (ag_preds g ! v)"

definition graph_is_empty :: "adapt_graph \<Rightarrow> bool" where
  "graph_is_empty g = (ag_edge_count g = 0)"

definition graph_size :: "adapt_graph \<Rightarrow> nat" where
  "graph_size g = length (ag_succs g)"

definition num_edges :: "adapt_graph \<Rightarrow> u64" where
  "num_edges g = ag_edge_count g"

definition new_vertex :: "adapt_graph \<Rightarrow> vert_id \<times> adapt_graph" where
  "new_vertex g =
    (if ag_free_id g \<noteq> [] then
       let v = last (ag_free_id g) in
       (v, g\<lparr>ag_free_id := butlast (ag_free_id g), ag_is_free := (ag_is_free g)[v := False]\<rparr>)
     else
       (length (ag_succs g),
        g\<lparr>ag_is_free := ag_is_free g @ [False], ag_succs := ag_succs g @ [[]], ag_preds := ag_preds g @ [[]]\<rparr>))"

function growTo :: "nat \<Rightarrow> adapt_graph \<Rightarrow> adapt_graph" where
  "growTo v g = (if graph_size g < v then growTo v (snd (new_vertex g)) else g)"
  by auto
termination
proof (relation "measure (\<lambda>(v, g). (v - graph_size g) + length (ag_free_id g))", goal_cases)
  case (2 v g)
  show ?case
  proof (cases "ag_free_id g")
    case Nil
    with 2 show ?thesis by (simp add: new_vertex_def graph_size_def)
  next
    case (Cons a xs)
    with 2 show ?thesis by (simp add: new_vertex_def graph_size_def Let_def)
  qed
qed simp

declare growTo.simps [simp del]

definition graph_forget :: "vert_id \<Rightarrow> adapt_graph \<Rightarrow> adapt_graph" where
  "graph_forget v g =
    (if ag_is_free g ! v then g
     else
       let g = fold (\<lambda>(key, val) g. g\<lparr>ag_free_widx := ag_free_widx g @ [val],
                   ag_preds := (ag_preds g)[key := smap_remove v (ag_preds g ! key)]\<rparr>) (ag_succs g ! v) g;
           g = g\<lparr>ag_edge_count := ag_edge_count g - of_nat (length (ag_succs g ! v)), ag_succs := (ag_succs g)[v := []]\<rparr>;
           g = fold (\<lambda>k g. g\<lparr>ag_succs := (ag_succs g)[k := smap_remove v (ag_succs g ! k)]\<rparr>) (omap_keys (ag_preds g ! v)) g;
           g = g\<lparr>ag_edge_count := ag_edge_count g - of_nat (length (ag_preds g ! v)), ag_preds := (ag_preds g)[v := []]\<rparr>
       in g\<lparr>ag_is_free := (ag_is_free g)[v := True], ag_free_id := ag_free_id g @ [v]\<rparr>)"

definition clear_edges :: "adapt_graph \<Rightarrow> adapt_graph" where
  "clear_edges g =
    (let g = g\<lparr>ag_ws := []\<rparr>;
         g = fold (\<lambda>v g. g\<lparr>ag_succs := (ag_succs g)[v := []], ag_preds := (ag_preds g)[v := []]\<rparr>) (graph_verts g) g
     in g\<lparr>ag_edge_count := 0\<rparr>)"

definition graph_clear :: "adapt_graph \<Rightarrow> adapt_graph" where
  "graph_clear g = g\<lparr>ag_ws := [], ag_succs := [], ag_preds := [], ag_is_free := [], ag_free_id := [], ag_free_widx := [],
     ag_edge_count := 0\<rparr>"

definition graph_elem :: "adapt_graph \<Rightarrow> vert_id \<Rightarrow> vert_id \<Rightarrow> bool" where
  "graph_elem g s d = smap_contains (ag_succs g ! s) d"

definition graph_edge_val :: "adapt_graph \<Rightarrow> vert_id \<Rightarrow> vert_id \<Rightarrow> Weight" where
  "graph_edge_val g s d = ag_ws g ! the (smap_lookup (ag_succs g ! s) d)"

definition graph_lookup :: "adapt_graph \<Rightarrow> vert_id \<Rightarrow> vert_id \<Rightarrow> Weight option" where
  "graph_lookup g s d = map_option (\<lambda>i. ag_ws g ! i) (smap_lookup (ag_succs g ! s) d)"

text \<open>\<open>put_weight\<close> is the assignment through the reference that the other \<^verbatim>\<open>lookup\<close> fills in.\<close>

definition put_weight :: "vert_id \<Rightarrow> Weight \<Rightarrow> vert_id \<Rightarrow> adapt_graph \<Rightarrow> adapt_graph" where
  "put_weight s w d g = (case smap_lookup (ag_succs g ! s) d of None \<Rightarrow> g | Some i \<Rightarrow> g\<lparr>ag_ws := (ag_ws g)[i := w]\<rparr>)"

definition new_weight :: "Weight \<Rightarrow> adapt_graph \<Rightarrow> nat \<times> adapt_graph" where
  "new_weight w g =
    (if ag_free_widx g \<noteq> [] then
       let i = last (ag_free_widx g) in
       (i, g\<lparr>ag_free_widx := butlast (ag_free_widx g), ag_ws := (ag_ws g)[i := w]\<rparr>)
     else (length (ag_ws g), g\<lparr>ag_ws := ag_ws g @ [w]\<rparr>))"

definition add_edge :: "vert_id \<Rightarrow> Weight \<Rightarrow> vert_id \<Rightarrow> adapt_graph \<Rightarrow> adapt_graph" where
  "add_edge s w d g =
    (let (i, g) = new_weight w g in
     g\<lparr>ag_succs := (ag_succs g)[s := smap_add d i (ag_succs g ! s)],
       ag_preds := (ag_preds g)[d := smap_add s i (ag_preds g ! d)],
       ag_edge_count := ag_edge_count g + 1\<rparr>)"

definition update_edge :: "vert_id \<Rightarrow> Weight \<Rightarrow> vert_id \<Rightarrow> adapt_graph \<Rightarrow> adapt_graph" where
  "update_edge s w d g = (case smap_lookup (ag_succs g ! s) d of
      Some i \<Rightarrow> g\<lparr>ag_ws := (ag_ws g)[i := min (ag_ws g ! i) w]\<rparr>
    | None \<Rightarrow> add_edge s w d g)"

definition set_edge :: "vert_id \<Rightarrow> Weight \<Rightarrow> vert_id \<Rightarrow> adapt_graph \<Rightarrow> adapt_graph" where
  "set_edge s w d g = (case smap_lookup (ag_succs g ! s) d of
      Some i \<Rightarrow> g\<lparr>ag_ws := (ag_ws g)[i := w]\<rparr>
    | None \<Rightarrow> add_edge s w d g)"

definition edge_string :: "vert_id \<times> Weight \<Rightarrow> string" where
  "edge_string e = ''('' @ int_to_string (snd e) @ '':'' @ nat_to_base 10 (fst e) @ '')''"

definition adjacency_string :: "adapt_graph \<Rightarrow> vert_id \<Rightarrow> string" where
  "adjacency_string g v = ''[v'' @ nat_to_base 10 v @ '' -> '' @ edge_string (hd (graph_e_succs g v)) @
     concat (map (\<lambda>e. '', '' @ edge_string e) (tl (graph_e_succs g v))) @ '']''"

definition graph_print :: "adapt_graph \<Rightarrow> string" where
  "graph_print g = ''[|'' @
     (case map (adjacency_string g) (filter (\<lambda>v. graph_e_succs g v \<noteq> []) (graph_verts g)) of
        [] \<Rightarrow> [] | s # ss \<Rightarrow> s @ concat (map ((@) '', '') ss)) @ ''|]''"

section \<open>The edges of a graph\<close>

type_synonym edge_map = "vert_id \<times> vert_id \<Rightarrow> Weight option"

definition weight_index :: "adapt_graph \<Rightarrow> vert_id \<Rightarrow> vert_id \<Rightarrow> nat option" where
  "weight_index g s d = (if s < graph_size g then map_of (ag_succs g ! s) d else None)"

definition edges :: "adapt_graph \<Rightarrow> edge_map" where
  "edges g = (\<lambda>(s, d). map_option (\<lambda>i. ag_ws g ! i) (weight_index g s d))"

definition verts :: "adapt_graph \<Rightarrow> vert_id set" where
  "verts g = {v. v < graph_size g \<and> \<not> ag_is_free g ! v}"

text \<open>
  The invariant: the two directions agree, live edges have weight indices of their own, freed
  vertices have no edges and are exactly those on the stack, the counter counts the edges.
\<close>

definition adj_ok :: "adapt_graph \<Rightarrow> bool" where
  "adj_ok g \<longleftrightarrow> length (ag_preds g) = graph_size g \<and>
     (\<forall>v < graph_size g. omap_ok (ag_succs g ! v) \<and> omap_ok (ag_preds g ! v)) \<and>
     (\<forall>s d i. weight_index g s d = Some i \<longrightarrow> s \<in> verts g \<and> d \<in> verts g) \<and>
     (\<forall>s < graph_size g. \<forall>d < graph_size g. map_of (ag_preds g ! d) s = weight_index g s d) \<and>
     (\<forall>d < graph_size g. \<forall>s i. map_of (ag_preds g ! d) s = Some i \<longrightarrow> s < graph_size g)"

definition index_ok :: "adapt_graph \<Rightarrow> bool" where
  "index_ok g \<longleftrightarrow> (\<forall>s d i. weight_index g s d = Some i \<longrightarrow> i < length (ag_ws g) \<and> i \<notin> set (ag_free_widx g)) \<and>
     (\<forall>s d s' d' i. weight_index g s d = Some i \<and> weight_index g s' d' = Some i \<longrightarrow> s = s' \<and> d = d') \<and>
     distinct (ag_free_widx g) \<and> (\<forall>i \<in> set (ag_free_widx g). i < length (ag_ws g))"

definition free_ok :: "adapt_graph \<Rightarrow> bool" where
  "free_ok g \<longleftrightarrow> length (ag_is_free g) = graph_size g \<and> distinct (ag_free_id g) \<and>
     set (ag_free_id g) = {v. v < graph_size g \<and> ag_is_free g ! v}"

definition graph_ok :: "adapt_graph \<Rightarrow> bool" where
  "graph_ok g \<longleftrightarrow> graph_size g \<le> 65536 \<and> adj_ok g \<and> index_ok g \<and> free_ok g \<and>
     ag_edge_count g = of_nat (card (dom (edges g)))"

lemma edges_def': "edges g (s, d) = map_option (\<lambda>i. ag_ws g ! i) (weight_index g s d)"
  by (simp add: edges_def)

lemma dom_edges: "dom (edges g) = {(s, d). weight_index g s d \<noteq> None}"
  by (auto simp: edges_def dom_def)

lemma finite_verts [simp]: "finite (verts g)"
  by (simp add: verts_def)

lemma adj_okD:
  assumes "adj_ok g"
  shows "length (ag_preds g) = graph_size g" "v < graph_size g \<Longrightarrow> omap_ok (ag_succs g ! v)"
    "v < graph_size g \<Longrightarrow> omap_ok (ag_preds g ! v)" "weight_index g s d = Some i \<Longrightarrow> s \<in> verts g"
    "weight_index g s d = Some i \<Longrightarrow> d \<in> verts g"
    "s < graph_size g \<Longrightarrow> d < graph_size g \<Longrightarrow> map_of (ag_preds g ! d) s = weight_index g s d"
    "d < graph_size g \<Longrightarrow> map_of (ag_preds g ! d) s = Some i \<Longrightarrow> s < graph_size g"
  using assms unfolding adj_ok_def by blast+

lemma index_okD:
  assumes "index_ok g"
  shows "weight_index g s d = Some i \<Longrightarrow> i < length (ag_ws g)" "weight_index g s d = Some i \<Longrightarrow> i \<notin> set (ag_free_widx g)"
    "weight_index g s d = Some i \<Longrightarrow> weight_index g s' d' = Some i \<Longrightarrow> s = s' \<and> d = d'"
    "distinct (ag_free_widx g)" "i \<in> set (ag_free_widx g) \<Longrightarrow> i < length (ag_ws g)"
  using assms unfolding index_ok_def by blast+

lemma graph_okD:
  assumes "graph_ok g"
  shows "graph_size g \<le> 65536" "adj_ok g" "index_ok g" "free_ok g" "length (ag_succs g) = graph_size g"
    "length (ag_is_free g) = graph_size g" "ag_edge_count g = of_nat (card (dom (edges g)))"
  using assms by (simp_all add: graph_ok_def free_ok_def graph_size_def)

lemmas graph_adj = adj_okD [OF graph_okD(2)] and graph_index = index_okD [OF graph_okD(3)]

lemma vertsD: "v \<in> verts g \<Longrightarrow> v < graph_size g"
  by (simp add: verts_def)

lemma edges_verts: "graph_ok g \<Longrightarrow> edges g (s, d) = Some w \<Longrightarrow> s \<in> verts g \<and> d \<in> verts g"
  by (auto simp: edges_def' dest: graph_adj(4,5))

lemma finite_edges: "graph_ok g \<Longrightarrow> finite (dom (edges g))"
  by (rule finite_subset [of _ "verts g \<times> verts g"]) (auto dest: edges_verts)

lemma key16_vert: "graph_ok g \<Longrightarrow> v \<in> verts g \<Longrightarrow> key16 v = v"
  using graph_okD(1) [of g] by (auto simp: key16_def verts_def)

lemma smap_lookup_index: "graph_ok g \<Longrightarrow> s \<in> verts g \<Longrightarrow> d \<in> verts g \<Longrightarrow> smap_lookup (ag_succs g ! s) d = weight_index g s d"
  using vertsD [of s g] by (simp add: smap_lookup_def key16_vert weight_index_def)

lemma graph_lookup_edges [simp]:
  "graph_ok g \<Longrightarrow> s \<in> verts g \<Longrightarrow> d \<in> verts g \<Longrightarrow> graph_lookup g s d = edges g (s, d)"
  by (simp add: graph_lookup_def smap_lookup_index edges_def')

lemma graph_elem_edges [simp]:
  "graph_ok g \<Longrightarrow> s \<in> verts g \<Longrightarrow> d \<in> verts g \<Longrightarrow> graph_elem g s d \<longleftrightarrow> edges g (s, d) \<noteq> None"
  using smap_lookup_index [of g s d] by (simp add: graph_elem_def smap_contains_def smap_lookup_def edges_def')

lemma graph_edge_val_edges: "graph_ok g \<Longrightarrow> edges g (s, d) = Some w \<Longrightarrow> graph_edge_val g s d = w"
  using edges_verts [of g s d w] smap_lookup_index [of g s d] by (auto simp: graph_edge_val_def edges_def')

lemma set_graph_verts: "graph_ok g \<Longrightarrow> set (graph_verts g) = verts g"
  using graph_okD(6) [of g] by (auto simp: graph_verts_def verts_def)

lemma distinct_graph_verts [simp]: "distinct (graph_verts g)"
  by (simp add: graph_verts_def)

lemma mem_elts: "omap_ok m \<Longrightarrow> (k, w) \<in> set (map (\<lambda>(k, i). (k, f i)) m) \<longleftrightarrow> map_option f (map_of m k) = Some w"
  by (auto simp: map_of_eq_mem)

lemma set_e_succs: "graph_ok g \<Longrightarrow> s \<in> verts g \<Longrightarrow> (d, w) \<in> set (graph_e_succs g s) \<longleftrightarrow> edges g (s, d) = Some w"
  using vertsD [of s g] mem_elts [OF graph_adj(2)] by (simp add: graph_e_succs_def edges_def' weight_index_def del: set_map)

lemma preds_index:
  assumes "graph_ok g" "d < graph_size g"
  shows "map_of (ag_preds g ! d) s = weight_index g s d"
proof (cases "s < graph_size g")
  case False
  then have "map_of (ag_preds g ! d) s = None" using graph_adj(7) [OF assms] by (meson option.exhaust)
  then show ?thesis using False by (simp add: weight_index_def)
qed (use assms graph_adj(6) in blast)

lemma set_e_preds: "graph_ok g \<Longrightarrow> d \<in> verts g \<Longrightarrow> (s, w) \<in> set (graph_e_preds g d) \<longleftrightarrow> edges g (s, d) = Some w"
  using mem_elts [OF graph_adj(3) [OF _ vertsD], of g d s w "\<lambda>i. ag_ws g ! i"] preds_index [of g d s] vertsD [of d g]
  by (simp add: graph_e_preds_def edges_def' del: set_map)

lemma distinct_e_succs: "graph_ok g \<Longrightarrow> s \<in> verts g \<Longrightarrow> distinct (map fst (graph_e_succs g s))"
  using vertsD [of s g] graph_adj(2) [of g s]
  by (simp add: graph_e_succs_def omap_ok_def omap_keys_def comp_def case_prod_unfold)

lemma distinct_e_preds: "graph_ok g \<Longrightarrow> d \<in> verts g \<Longrightarrow> distinct (map fst (graph_e_preds g d))"
  using vertsD [of d g] graph_adj(3) [of g d]
  by (simp add: graph_e_preds_def omap_ok_def omap_keys_def comp_def case_prod_unfold)

lemma graph_succs_e: "graph_succs g s = map fst (graph_e_succs g s)"
  by (simp add: graph_succs_def graph_e_succs_def omap_keys_def comp_def case_prod_unfold)

lemma graph_preds_e: "graph_preds g s = map fst (graph_e_preds g s)"
  by (simp add: graph_preds_def graph_e_preds_def omap_keys_def comp_def case_prod_unfold)

section \<open>Refinement of the operations\<close>

lemma edges_eqI: "ag_ws g' = ag_ws g \<Longrightarrow> (\<And>s d. weight_index g' s d = weight_index g s d) \<Longrightarrow> edges g' = edges g"
  by (auto simp: edges_def)

lemma graph_new_ok [simp]: "graph_ok graph_new" "edges graph_new = Map.empty" "verts graph_new = {}" "graph_size graph_new = 0"
proof -
  have "weight_index graph_new s d = None" for s d by (simp add: weight_index_def graph_new_def graph_size_def)
  then show e: "edges graph_new = Map.empty" by (auto simp: edges_def)
  show "graph_ok graph_new" unfolding graph_ok_def e adj_ok_def index_ok_def free_ok_def
    using \<open>\<And>s d. weight_index graph_new s d = None\<close> by (simp add: graph_size_def) (simp add: graph_new_def)
  show "verts graph_new = {}" "graph_size graph_new = 0" by (simp_all add: graph_new_def graph_size_def verts_def)
qed

lemma new_vertex_ok:
  assumes ok: "graph_ok g" and room: "ag_free_id g = [] \<Longrightarrow> graph_size g < 65536" and nv: "new_vertex g = (v, g')"
  shows "graph_ok g'" "edges g' = edges g" "v \<notin> verts g" "verts g' = insert v (verts g)"
    "graph_size g' = (if ag_free_id g = [] then graph_size g + 1 else graph_size g)"
    "v = (if ag_free_id g = [] then graph_size g else last (ag_free_id g))"
    "ag_free_id g' = butlast (ag_free_id g)"
proof -
  note free = graph_okD(4) [OF ok, unfolded free_ok_def] and adj = graph_adj [OF ok] and idx = graph_index [OF ok]
  have "graph_ok g' \<and> edges g' = edges g \<and> v \<notin> verts g \<and> verts g' = insert v (verts g) \<and>
    graph_size g' = (if ag_free_id g = [] then graph_size g + 1 else graph_size g) \<and>
    v = (if ag_free_id g = [] then graph_size g else last (ag_free_id g)) \<and> ag_free_id g' = butlast (ag_free_id g)"
  proof (cases "ag_free_id g = []")
    case False
    let ?v = "last (ag_free_id g)"
    have g': "v = ?v" "g' = g\<lparr>ag_free_id := butlast (ag_free_id g), ag_is_free := (ag_is_free g)[?v := False]\<rparr>"
      using nv False by (auto simp: new_vertex_def Let_def)
    have sz: "graph_size g' = graph_size g" by (simp add: g' graph_size_def)
    have v: "?v < graph_size g" "ag_is_free g ! ?v" using free last_in_set [OF False] by auto
    have wi: "weight_index g' = weight_index g" by (intro ext, simp add: weight_index_def sz) (simp add: g')
    have fl: "length (ag_is_free g) = graph_size g" using free by blast
    have fr: "ag_is_free g' ! u \<longleftrightarrow> u \<noteq> ?v \<and> ag_is_free g ! u" if "u < graph_size g" for u
      using that fl v(1) by (auto simp: g' nth_list_update)
    have vs: "verts g' = insert ?v (verts g)" using v(1) fr by (auto simp: verts_def sz)
    have ws: "ag_ws g' = ag_ws g" "ag_preds g' = ag_preds g" "ag_succs g' = ag_succs g" "ag_free_widx g' = ag_free_widx g"
      "ag_edge_count g' = ag_edge_count g" by (simp_all add: g')
    have ed: "edges g' = edges g" by (rule edges_eqI) (simp_all add: wi ws)
    have ids: "ag_free_id g = butlast (ag_free_id g) @ [?v]" using False by simp
    have "distinct (butlast (ag_free_id g))" "?v \<notin> set (butlast (ag_free_id g))"
      using free ids by (metis distinct_append, metis distinct_append disjoint_insert(1) list.set(2))
    moreover have "set (ag_free_id g) = insert ?v (set (butlast (ag_free_id g)))" by (subst ids) simp
    ultimately have "set (butlast (ag_free_id g)) = {u. u < graph_size g \<and> ag_is_free g ! u} - {?v}" using free by auto
    then have "free_ok g'"
      using fl fr \<open>distinct (butlast (ag_free_id g))\<close> by (auto simp: free_ok_def sz) (simp_all add: g')
    moreover have "adj_ok g'" using adj unfolding adj_ok_def wi sz ws vs by blast
    moreover have "index_ok g'" using idx unfolding index_ok_def wi ws by blast
    ultimately have "graph_ok g'" using ok by (simp add: graph_ok_def sz ed ws)
    then show ?thesis using False v by (simp add: sz ed vs) (simp add: g' verts_def)
  next
    case True
    have g': "v = graph_size g" "g' = g\<lparr>ag_is_free := ag_is_free g @ [False], ag_succs := ag_succs g @ [[]], ag_preds := ag_preds g @ [[]]\<rparr>"
      using nv True by (auto simp: new_vertex_def graph_size_def)
    have sz: "graph_size g' = graph_size g + 1" by (simp add: g' graph_size_def)
    have wi: "weight_index g' s d = weight_index g s d" for s d
      by (simp add: weight_index_def sz less_Suc_eq) (simp add: g' nth_append graph_size_def)
    have ws: "ag_ws g' = ag_ws g" "ag_free_widx g' = ag_free_widx g" "ag_edge_count g' = ag_edge_count g" by (simp_all add: g')
    have fl: "length (ag_is_free g) = graph_size g" using free by blast
    have fr: "ag_is_free g' ! u \<longleftrightarrow> u < graph_size g \<and> ag_is_free g ! u" if "u < graph_size g + 1" for u
      using that fl by (auto simp: g' nth_append)
    have vs: "verts g' = insert (graph_size g) (verts g)" using fr by (auto simp: verts_def sz)
    have ed: "edges g' = edges g" by (rule edges_eqI) (simp_all add: wi ws)
    have sl: "length (ag_succs g) = graph_size g" by (simp add: graph_size_def)
    have pr: "ag_preds g' ! d = (if d < graph_size g then ag_preds g ! d else [])"
      "ag_succs g' ! d = (if d < graph_size g then ag_succs g ! d else [])" if "d < graph_size g + 1" for d
      using that adj(1) sl by (simp_all add: g' nth_append)
    have none: "weight_index g s d = None" if "\<not> (s < graph_size g \<and> d < graph_size g)" for s d
      using that adj(4,5) [of s d] vertsD by (meson not_Some_eq)
    have "adj_ok g'" unfolding adj_ok_def wi sz vs
    proof (intro conjI allI impI)
      show "length (ag_preds g') = graph_size g + 1" using adj(1) by (simp add: g')
      show "omap_ok (ag_succs g' ! u)" "omap_ok (ag_preds g' ! u)" if "u < graph_size g + 1" for u
        using adj(2,3) pr [OF that] by simp_all
      show "map_of (ag_preds g' ! d) s = weight_index g s d" if "s < graph_size g + 1" "d < graph_size g + 1" for s d
      proof (cases "d < graph_size g")
        case True
        then show ?thesis using preds_index [OF ok] pr(1) [OF that(2)] by simp
      qed (use none pr(1) [OF that(2)] in simp)
      show "s < graph_size g + 1" if "d < graph_size g + 1" "map_of (ag_preds g' ! d) s = Some i" for d s i
        using adj(7) [of d s i] pr(1) [OF that(1)] that(2) by (simp split: if_splits)
    qed (use adj(4,5) in blast)+
    moreover have "index_ok g'" using idx unfolding index_ok_def wi ws by blast
    moreover have "free_ok g'"
    proof -
      have "{u. u < graph_size g + 1 \<and> ag_is_free g' ! u} = {}" using free True fr by auto
      then show ?thesis using True fl by (simp add: free_ok_def sz) (simp add: g')
    qed
    ultimately have "graph_ok g'" using ok room True by (simp add: graph_ok_def sz ed ws)
    then show ?thesis using True by (simp add: sz ed vs) (simp add: g' verts_def)
  qed
  then show "graph_ok g'" "edges g' = edges g" "v \<notin> verts g" "verts g' = insert v (verts g)"
    "graph_size g' = (if ag_free_id g = [] then graph_size g + 1 else graph_size g)"
    "v = (if ag_free_id g = [] then graph_size g else last (ag_free_id g))"
    "ag_free_id g' = butlast (ag_free_id g)" by blast+
qed

lemma card_edges_less: "graph_ok g \<Longrightarrow> card (dom (edges g)) < 2 ^ 64"
proof -
  assume ok: "graph_ok g"
  have "dom (edges g) \<subseteq> {..<65536} \<times> {..<65536}"
    using edges_verts [OF ok] vertsD graph_okD(1) [OF ok] by (fastforce simp: dom_def)
  then have "card (dom (edges g)) \<le> card (({..<65536} :: nat set) \<times> ({..<65536} :: nat set))" by (intro card_mono) simp_all
  then show ?thesis by (simp add: card_cartesian_product)
qed

lemma graph_is_empty_iff: "graph_ok g \<Longrightarrow> graph_is_empty g \<longleftrightarrow> edges g = Map.empty"
proof -
  assume ok: "graph_ok g"
  have "unat (of_nat (card (dom (edges g))) :: u64) = card (dom (edges g))"
    using card_edges_less [OF ok] by (simp add: unat_of_nat)
  then have "graph_is_empty g \<longleftrightarrow> card (dom (edges g)) = 0"
    using graph_okD(7) [OF ok] unfolding graph_is_empty_def by (metis unat_eq_zero)
  then show ?thesis using finite_edges [OF ok] by auto
qed

text \<open>A write to the weight of an existing edge changes that edge only.\<close>

lemma weight_update_ok:
  assumes ok: "graph_ok g" and i: "weight_index g s d = Some i"
  shows "graph_ok (g\<lparr>ag_ws := (ag_ws g)[i := w]\<rparr>)" "edges (g\<lparr>ag_ws := (ag_ws g)[i := w]\<rparr>) = (edges g)((s, d) \<mapsto> w)"
    "verts (g\<lparr>ag_ws := (ag_ws g)[i := w]\<rparr>) = verts g"
proof -
  let ?g = "g\<lparr>ag_ws := (ag_ws g)[i := w]\<rparr>"
  have sz: "graph_size ?g = graph_size g" by (simp add: graph_size_def)
  have wi: "weight_index ?g = weight_index g" by (intro ext) (simp add: weight_index_def sz)
  show vs: "verts ?g = verts g" by (simp add: verts_def sz)
  show ed: "edges ?g = (edges g)((s, d) \<mapsto> w)"
  proof (rule ext, clarify)
    fix s' d'
    show "edges ?g (s', d') = ((edges g)((s, d) \<mapsto> w)) (s', d')"
    proof (cases "weight_index g s' d'")
      case (Some j)
      then have "j = i \<longleftrightarrow> (s', d') = (s, d)" using graph_index(3) [OF ok i, of s' d'] i by auto
      then show ?thesis using Some i graph_index(1) [OF ok] by (auto simp: edges_def' wi nth_list_update)
    qed (use i in \<open>auto simp: edges_def' wi\<close>)
  qed
  have "(s, d) \<in> dom (edges g)" using i by (simp add: dom_edges)
  then have "dom (edges ?g) = dom (edges g)" by (auto simp: ed)
  moreover have flds: "ag_preds ?g = ag_preds g" "ag_succs ?g = ag_succs g" "ag_free_widx ?g = ag_free_widx g" "length (ag_ws ?g) = length (ag_ws g)"
    by simp_all
  have "adj_ok ?g" using graph_okD(2) [OF ok] unfolding adj_ok_def sz wi vs flds .
  moreover have "index_ok ?g" using graph_okD(3) [OF ok] unfolding index_ok_def wi flds .
  moreover have "free_ok ?g" using graph_okD(4) [OF ok] by (simp add: free_ok_def sz)
  ultimately show "graph_ok ?g" using ok by (simp add: graph_ok_def sz)
qed

lemma put_weight_ok:
  assumes "graph_ok g" "edges g (s, d) = Some w0"
  shows "graph_ok (put_weight s w d g)" "edges (put_weight s w d g) = (edges g)((s, d) \<mapsto> w)" "verts (put_weight s w d g) = verts g"
proof -
  obtain i where i: "weight_index g s d = Some i" using assms(2) by (auto simp: edges_def')
  then have "put_weight s w d g = g\<lparr>ag_ws := (ag_ws g)[i := w]\<rparr>"
    using edges_verts [OF assms] smap_lookup_index [OF assms(1)] by (simp add: put_weight_def)
  with weight_update_ok [OF assms(1) i] show "graph_ok (put_weight s w d g)"
    "edges (put_weight s w d g) = (edges g)((s, d) \<mapsto> w)" "verts (put_weight s w d g) = verts g" by simp_all
qed

lemma new_weight_ok:
  assumes ok: "graph_ok g" and nw: "new_weight w g = (i, g')"
  shows "i < length (ag_ws g')" "ag_ws g' ! i = w" "length (ag_ws g) \<le> length (ag_ws g')"
    "\<And>j. j < length (ag_ws g) \<Longrightarrow> j \<noteq> i \<Longrightarrow> ag_ws g' ! j = ag_ws g ! j"
    "i < length (ag_ws g) \<Longrightarrow> i \<in> set (ag_free_widx g)" "set (ag_free_widx g') = set (ag_free_widx g) - {i}"
    "distinct (ag_free_widx g')" "ag_succs g' = ag_succs g" "ag_preds g' = ag_preds g" "ag_is_free g' = ag_is_free g"
    "ag_free_id g' = ag_free_id g" "ag_edge_count g' = ag_edge_count g"
proof -
  note free = graph_index(4,5) [OF ok]
  have "i < length (ag_ws g') \<and> ag_ws g' ! i = w \<and> length (ag_ws g) \<le> length (ag_ws g') \<and>
    (\<forall>j. j < length (ag_ws g) \<longrightarrow> j \<noteq> i \<longrightarrow> ag_ws g' ! j = ag_ws g ! j) \<and>
    (i < length (ag_ws g) \<longrightarrow> i \<in> set (ag_free_widx g)) \<and> set (ag_free_widx g') = set (ag_free_widx g) - {i} \<and>
    distinct (ag_free_widx g') \<and> ag_succs g' = ag_succs g \<and> ag_preds g' = ag_preds g \<and> ag_is_free g' = ag_is_free g \<and>
    ag_free_id g' = ag_free_id g \<and> ag_edge_count g' = ag_edge_count g"
  proof (cases "ag_free_widx g" rule: rev_cases)
    case Nil
    then show ?thesis using nw by (auto simp: new_weight_def nth_append)
  next
    case (snoc ks k)
    have "k < length (ag_ws g)" "distinct ks" "k \<notin> set ks" using free snoc by auto
    then show ?thesis using nw snoc by (auto simp: new_weight_def Let_def nth_list_update)
  qed
  then show "i < length (ag_ws g')" "ag_ws g' ! i = w" "length (ag_ws g) \<le> length (ag_ws g')"
    "\<And>j. j < length (ag_ws g) \<Longrightarrow> j \<noteq> i \<Longrightarrow> ag_ws g' ! j = ag_ws g ! j"
    "i < length (ag_ws g) \<Longrightarrow> i \<in> set (ag_free_widx g)" "set (ag_free_widx g') = set (ag_free_widx g) - {i}"
    "distinct (ag_free_widx g')" "ag_succs g' = ag_succs g" "ag_preds g' = ag_preds g" "ag_is_free g' = ag_is_free g"
    "ag_free_id g' = ag_free_id g" "ag_edge_count g' = ag_edge_count g" by blast+
qed

lemma add_edge_ok:
  assumes ok: "graph_ok g" and s: "s \<in> verts g" and d: "d \<in> verts g" and new: "edges g (s, d) = None"
  shows "graph_ok (add_edge s w d g)" "edges (add_edge s w d g) = (edges g)((s, d) \<mapsto> w)" "verts (add_edge s w d g) = verts g"
proof -
  obtain i g1 where nw: "new_weight w g = (i, g1)" by (cases "new_weight w g")
  note w = new_weight_ok [OF ok nw]
  let ?g = "add_edge s w d g"
  have g: "?g = g1\<lparr>ag_succs := (ag_succs g)[s := smap_add d i (ag_succs g ! s)], ag_preds := (ag_preds g)[d := smap_add s i (ag_preds g ! d)],
      ag_edge_count := ag_edge_count g + 1\<rparr>"
    by (simp add: add_edge_def nw w)
  note k = key16_vert [OF ok s] key16_vert [OF ok d] and lt = vertsD [OF s] vertsD [OF d]
  have pl: "length (ag_preds g) = graph_size g" "length (ag_succs g) = graph_size g" using graph_adj(1) [OF ok] by (simp_all add: graph_size_def)
  have sz: "graph_size ?g = graph_size g" by (simp add: g graph_size_def)
  have none: "weight_index g s d = None" using new by (simp add: edges_def')
  have wi: "weight_index ?g s' d' = (if (s', d') = (s, d) then Some i else weight_index g s' d')" for s' d'
    using lt pl k by (simp add: weight_index_def sz) (auto simp: g nth_list_update smap_add_def)
  have ws: "ag_ws ?g = ag_ws g1" by (simp add: g)
  have fresh: "j \<noteq> i" "j < length (ag_ws g)" if "weight_index g s' d' = Some j" for s' d' j
    using graph_index(1,2) [OF ok that] w(5) by auto
  show ed: "edges ?g = (edges g)((s, d) \<mapsto> w)"
  proof (rule ext, clarify)
    fix s' d'
    show "edges ?g (s', d') = ((edges g)((s, d) \<mapsto> w)) (s', d')"
    proof (cases "weight_index g s' d'")
      case None
      then show ?thesis using w(2) by (auto simp: edges_def' wi ws)
    next
      case (Some j)
      then have "(s', d') \<noteq> (s, d)" using none by auto
      then show ?thesis using Some w(4) [OF fresh(2,1) [OF Some]] by (auto simp: edges_def' wi ws)
    qed
  qed
  show vs: "verts ?g = verts g" by (simp add: verts_def sz) (simp add: g w)
  have pr: "map_of (ag_preds ?g ! d') = (if d' = d then (map_of (ag_preds g ! d))(s \<mapsto> i) else map_of (ag_preds g ! d'))"
    if "d' < graph_size g" for d' using that pl k lt by (simp add: g nth_list_update smap_add_def)
  have "adj_ok ?g" unfolding adj_ok_def sz vs wi
  proof (intro conjI allI impI)
    show "length (ag_preds ?g) = graph_size g" using pl by (simp add: g)
    show "omap_ok (ag_succs ?g ! v)" "omap_ok (ag_preds ?g ! v)" if "v < graph_size g" for v
      using that graph_adj(2,3) [OF ok] lt pl by (simp_all add: g nth_list_update smap_add_def)
    show "map_of (ag_preds ?g ! d') s' = (if (s', d') = (s, d) then Some i else weight_index g s' d')"
      if "s' < graph_size g" "d' < graph_size g" for s' d' using pr [OF that(2)] preds_index [OF ok that(2)] by auto
    show "s' < graph_size g" if "d' < graph_size g" "map_of (ag_preds ?g ! d') s' = Some j" for s' d' j
      using pr [OF that(1)] that graph_adj(7) [OF ok that(1)] lt by (auto split: if_splits)
  qed (use s d graph_adj(4,5) [OF ok] in \<open>simp_all split: if_splits\<close>)
  moreover have "index_ok ?g"
  proof -
    have ws: "ag_ws ?g = ag_ws g1" "ag_free_widx ?g = ag_free_widx g1" by (simp_all add: g)
    show ?thesis unfolding index_ok_def wi ws
    proof (intro conjI allI impI ballI)
      show "j < length (ag_ws g1)" "j \<notin> set (ag_free_widx g1)" if "(if (s', d') = (s, d) then Some i else weight_index g s' d') = Some j" for s' d' j
        using that w(1,3,6) graph_index(1,2) [OF ok, of s' d' j] by (auto split: if_splits)
      show "s' = s''" "d' = d''" if "(if (s', d') = (s, d) then Some i else weight_index g s' d') = Some j \<and>
          (if (s'', d'') = (s, d) then Some i else weight_index g s'' d'') = Some j" for s' d' s'' d'' j
        using that fresh graph_index(3) [OF ok, of s' d' j s'' d''] by (auto split: if_splits)
      show "j < length (ag_ws g1)" if "j \<in> set (ag_free_widx g1)" for j using that w(3,6) graph_index(5) [OF ok, of j] by simp
    qed (rule w(7))
  qed
  moreover have "free_ok ?g" using graph_okD(4) [OF ok] by (simp add: free_ok_def sz) (simp add: g w)
  moreover have "card (dom (edges ?g)) = card (dom (edges g)) + 1" using new finite_edges [OF ok] by (simp add: ed domIff)
  moreover have "ag_edge_count ?g = ag_edge_count g + 1" by (simp add: g)
  ultimately show "graph_ok ?g" using ok by (simp add: graph_ok_def sz)
qed

lemma set_edge_ok:
  assumes ok: "graph_ok g" and s: "s \<in> verts g" and d: "d \<in> verts g"
  shows "graph_ok (set_edge s w d g)" "edges (set_edge s w d g) = (edges g)((s, d) \<mapsto> w)" "verts (set_edge s w d g) = verts g"
proof (atomize (full), cases "weight_index g s d")
  case None
  then have "set_edge s w d g = add_edge s w d g" "edges g (s, d) = None"
    using smap_lookup_index [OF assms] by (simp_all add: set_edge_def edges_def')
  with add_edge_ok [OF assms] show "graph_ok (set_edge s w d g) \<and> edges (set_edge s w d g) = (edges g)((s, d) \<mapsto> w) \<and> verts (set_edge s w d g) = verts g" by simp
next
  case (Some i)
  then have "set_edge s w d g = g\<lparr>ag_ws := (ag_ws g)[i := w]\<rparr>" using smap_lookup_index [OF assms] by (simp add: set_edge_def)
  with weight_update_ok [OF ok Some] show "graph_ok (set_edge s w d g) \<and> edges (set_edge s w d g) = (edges g)((s, d) \<mapsto> w) \<and> verts (set_edge s w d g) = verts g" by simp
qed

lemma update_edge_ok:
  assumes ok: "graph_ok g" and s: "s \<in> verts g" and d: "d \<in> verts g"
    and w'_def: "w' = (case edges g (s, d) of None \<Rightarrow> w | Some w0 \<Rightarrow> min w0 w)"
  shows "graph_ok (update_edge s w d g)" "edges (update_edge s w d g) = (edges g)((s, d) \<mapsto> w')" "verts (update_edge s w d g) = verts g"
proof (atomize (full), cases "weight_index g s d")
  case None
  then have "update_edge s w d g = add_edge s w d g" "edges g (s, d) = None"
    using smap_lookup_index [OF assms(1-3)] by (simp_all add: update_edge_def edges_def')
  with add_edge_ok [OF assms(1-3)] show "graph_ok (update_edge s w d g) \<and> edges (update_edge s w d g) = (edges g)((s, d) \<mapsto> w') \<and> verts (update_edge s w d g) = verts g" by (simp add: w'_def)
next
  case (Some i)
  then have "update_edge s w d g = g\<lparr>ag_ws := (ag_ws g)[i := w']\<rparr>"
    using smap_lookup_index [OF assms(1-3)] by (simp add: update_edge_def w'_def edges_def')
  with weight_update_ok [OF ok Some] show "graph_ok (update_edge s w d g) \<and> edges (update_edge s w d g) = (edges g)((s, d) \<mapsto> w') \<and> verts (update_edge s w d g) = verts g" by simp
qed

lemma graph_ops_size [simp]:
  "graph_size (add_edge s w d g) = graph_size g" "graph_size (set_edge s w d g) = graph_size g"
  "graph_size (update_edge s w d g) = graph_size g" "graph_size (put_weight s w d g) = graph_size g"
  "ag_free_id (add_edge s w d g) = ag_free_id g" "ag_free_id (set_edge s w d g) = ag_free_id g"
  "ag_free_id (update_edge s w d g) = ag_free_id g" "ag_free_id (put_weight s w d g) = ag_free_id g"
  by (auto simp: graph_size_def add_edge_def new_weight_def set_edge_def update_edge_def put_weight_def Let_def split: option.splits)

text \<open>Removing a vertex visits its adjacency lists; each visit rewrites another list.\<close>

lemma fold_update_nth:
  assumes "distinct ks" "j < length xs"
  shows "fold (\<lambda>k xs. xs[k := f (xs ! k)]) ks xs ! j = (if j \<in> set ks then f (xs ! j) else xs ! j)"
  using assms
proof (induction ks arbitrary: xs)
  case (Cons k ks)
  then show ?case by (cases "j = k") auto
qed simp

lemma fold_update_length [simp]: "length (fold (\<lambda>k xs. xs[k := f (xs ! k)]) ks xs) = length xs"
  by (induction ks arbitrary: xs) simp_all

lemma forget_fold_preds:
  "fold (\<lambda>(key, val) g. g\<lparr>ag_free_widx := ag_free_widx g @ [val], ag_preds := (ag_preds g)[key := smap_remove v (ag_preds g ! key)]\<rparr>) es g =
   g\<lparr>ag_free_widx := ag_free_widx g @ map snd es, ag_preds := fold (\<lambda>k xs. xs[k := smap_remove v (xs ! k)]) (map fst es) (ag_preds g)\<rparr>"
  by (induction es arbitrary: g) auto

lemma forget_fold_succs:
  "fold (\<lambda>k g. g\<lparr>ag_succs := (ag_succs g)[k := smap_remove v (ag_succs g ! k)]\<rparr>) ks g =
   g\<lparr>ag_succs := fold (\<lambda>k xs. xs[k := smap_remove v (xs ! k)]) ks (ag_succs g)\<rparr>"
  by (induction ks arbitrary: g) auto

lemma omap_ok_remove: "omap_ok m \<Longrightarrow> omap_ok (smap_remove k m)"
  unfolding smap_remove_def
proof (induction m)
  case (Cons x m)
  then show ?case by (cases x) (auto simp: omap_ok_Cons omap_keys_def)
qed simp

lemma map_of_smap_remove: "map_of (smap_remove k m) = (map_of m)(key16 k := None)"
  unfolding smap_remove_def by (induction m) (auto simp: fun_eq_iff)

lemma map_of_remove_absent: "omap_ok m \<Longrightarrow> key16 k \<notin> set (omap_keys m) \<Longrightarrow> map_of (smap_remove k m) = map_of m"
  by (auto simp: map_of_smap_remove fun_eq_iff in_omap_keys)

definition forget_result :: "vert_id \<Rightarrow> adapt_graph \<Rightarrow> adapt_graph" where
  "forget_result v g =
    (let preds = fold (\<lambda>k xs. xs[k := smap_remove v (xs ! k)]) (omap_keys (ag_succs g ! v)) (ag_preds g);
         succs = fold (\<lambda>k xs. xs[k := smap_remove v (xs ! k)]) (omap_keys (preds ! v)) ((ag_succs g)[v := []]) in
     g\<lparr>ag_free_widx := ag_free_widx g @ map snd (ag_succs g ! v), ag_preds := preds[v := []], ag_succs := succs,
       ag_edge_count := ag_edge_count g - of_nat (length (ag_succs g ! v)) - of_nat (length (preds ! v)),
       ag_is_free := (ag_is_free g)[v := True], ag_free_id := ag_free_id g @ [v]\<rparr>)"

lemma graph_forget_result: "graph_forget v g = (if ag_is_free g ! v then g else forget_result v g)"
  by (simp add: graph_forget_def forget_result_def forget_fold_preds forget_fold_succs omap_keys_def Let_def)

lemma graph_forget_size [simp]: "graph_size (graph_forget v g) = graph_size g"
  by (simp add: graph_forget_result forget_result_def graph_size_def Let_def)

lemma length_omap: "omap_ok m \<Longrightarrow> length m = card (dom (map_of m))"
  using distinct_card [of "omap_keys m"] by (simp add: omap_ok_def omap_keys_def dom_map_of_conv_image_fst)

lemma graph_forget_ok:
  assumes ok: "graph_ok g" and v: "v \<in> verts g"
  shows "graph_ok (graph_forget v g)" "edges (graph_forget v g) = (\<lambda>(s, d). if s = v \<or> d = v then None else edges g (s, d))"
    "verts (graph_forget v g) = verts g - {v}" "ag_free_id (graph_forget v g) = ag_free_id g @ [v]"
proof -
  let ?g = "graph_forget v g"
  have gr: "?g = forget_result v g" using v by (simp add: graph_forget_result verts_def)
  note lt = vertsD [OF v] and k = key16_vert [OF ok v] and free = graph_okD(4) [OF ok, unfolded free_ok_def]
  have pl: "length (ag_preds g) = graph_size g" "length (ag_succs g) = graph_size g" using graph_adj(1) [OF ok] by (simp_all add: graph_size_def)
  define preds where "preds = fold (\<lambda>k xs. xs[k := smap_remove v (xs ! k)]) (omap_keys (ag_succs g ! v)) (ag_preds g)"
  define succs where "succs = fold (\<lambda>k xs. xs[k := smap_remove v (xs ! k)]) (omap_keys (preds ! v)) ((ag_succs g)[v := []])"
  have flds: "ag_succs ?g = succs" "ag_preds ?g = preds[v := []]" "ag_ws ?g = ag_ws g" "ag_free_widx ?g = ag_free_widx g @ map snd (ag_succs g ! v)"
    "ag_edge_count ?g = ag_edge_count g - of_nat (length (ag_succs g ! v)) - of_nat (length (preds ! v))"
    "ag_is_free ?g = (ag_is_free g)[v := True]" "ag_free_id ?g = ag_free_id g @ [v]"
    by (simp_all add: gr forget_result_def preds_def succs_def Let_def)
  have sz: "graph_size ?g = graph_size g" by simp
  have succ_keys: "d \<in> set (omap_keys (ag_succs g ! v)) \<longleftrightarrow> weight_index g v d \<noteq> None" for d
    using lt by (auto simp: in_omap_keys weight_index_def)
  have okp: "omap_ok (ag_preds g ! d)" "omap_ok (ag_succs g ! d)" if "d < graph_size g" for d using graph_adj(2,3) [OF ok that] by simp_all
  have dist: "distinct (omap_keys m)" if "omap_ok m" for m :: smap using that by (simp add: omap_ok_def)
  have pn: "preds ! d = (if d \<in> set (omap_keys (ag_succs g ! v)) then smap_remove v (ag_preds g ! d) else ag_preds g ! d)"
    if "d < graph_size g" for d
    unfolding preds_def by (rule fold_update_nth [OF dist [OF okp(2) [OF lt]]]) (simp add: that pl)
  have pm: "map_of (preds ! d) s = (if s = v then None else weight_index g s d)" if d: "d < graph_size g" for s d
    using preds_index [OF ok d, of s] pn [OF d] succ_keys [of d] k by (auto simp: map_of_smap_remove)
  have pok: "omap_ok (preds ! d)" if "d < graph_size g" for d using pn [OF that] okp(1) [OF that] omap_ok_remove by simp
  have pred_keys: "s \<in> set (omap_keys (preds ! v)) \<longleftrightarrow> s \<noteq> v \<and> weight_index g s v \<noteq> None" for s
    using pm [OF lt, of s] by (auto simp: in_omap_keys)
  have sn: "succs ! s = (if s \<in> set (omap_keys (preds ! v)) then smap_remove v (((ag_succs g)[v := []]) ! s) else ((ag_succs g)[v := []]) ! s)"
    if "s < graph_size g" for s
    unfolding succs_def by (rule fold_update_nth [OF dist [OF pok [OF lt]]]) (simp add: that pl)
  have wi: "weight_index ?g s d = (if s = v \<or> d = v then None else weight_index g s d)" for s d
  proof (cases "s < graph_size g")
    case True
    have "map_of (ag_succs g ! s) v = None" if "s \<notin> set (omap_keys (preds ! v))" "s \<noteq> v"
      using that pred_keys [of s] True by (simp add: weight_index_def)
    then show ?thesis using sn [OF True] k True lt pl pred_keys [of v]
      by (cases "s = v") (auto simp: weight_index_def flds sz map_of_smap_remove)
  qed (simp add: weight_index_def)
  show ed: "edges ?g = (\<lambda>(s, d). if s = v \<or> d = v then None else edges g (s, d))"
    by (auto simp: edges_def wi flds fun_eq_iff)
  show vs: "verts ?g = verts g - {v}" using free lt by (auto simp: verts_def flds sz nth_list_update)
  show "ag_free_id ?g = ag_free_id g @ [v]" by (simp add: flds)
  have "adj_ok ?g" unfolding adj_ok_def sz vs wi
  proof (intro conjI allI impI)
    show "length (ag_preds ?g) = graph_size g" using pl by (simp add: flds preds_def)
    show "omap_ok (ag_preds ?g ! u)" if "u < graph_size g" for u using pok [OF that] that lt pl by (cases "u = v") (simp_all add: flds preds_def)
    show "omap_ok (ag_succs ?g ! u)" if "u < graph_size g" for u
      using sn [OF that] okp(2) [OF that] that lt pl omap_ok_remove by (cases "u = v") (simp_all add: flds)
    show "map_of (ag_preds ?g ! d) s = (if s = v \<or> d = v then None else weight_index g s d)" if "s < graph_size g" "d < graph_size g" for s d
      using pm [OF that(2), of s] lt pl that by (cases "d = v") (simp_all add: flds preds_def)
    show "s < graph_size g" if "d < graph_size g" "map_of (ag_preds ?g ! d) s = Some i" for d s i
      using that pm [OF that(1), of s] lt pl graph_adj(4) [OF ok, of s d i] vertsD by (cases "d = v") (auto simp: flds preds_def split: if_splits)
  qed (use graph_adj(4,5) [OF ok] in \<open>auto split: if_splits\<close>)
  moreover have "index_ok ?g"
  proof -
    have mi: "i \<in> set (map snd (ag_succs g ! v)) \<longleftrightarrow> (\<exists>d. weight_index g v d = Some i)" for i
      using lt okp(2) [OF lt] by (auto simp: weight_index_def map_of_eq_mem image_iff) force
    have dw: "distinct (map snd (ag_succs g ! v))"
    proof -
      have "inj_on snd (set (ag_succs g ! v))"
      proof (rule inj_onI, clarsimp)
        fix a b i assume "(a, i) \<in> set (ag_succs g ! v)" "(b, i) \<in> set (ag_succs g ! v)"
        then have "weight_index g v a = Some i" "weight_index g v b = Some i" using lt okp(2) [OF lt] by (simp_all add: weight_index_def map_of_eq_mem)
        then show "a = b" using graph_index(3) [OF ok] by blast
      qed
      moreover have "distinct (ag_succs g ! v)" using dist [OF okp(2) [OF lt]] by (simp add: omap_keys_def distinct_map)
      ultimately show ?thesis by (simp add: distinct_map)
    qed
    have other: "i \<notin> set (map snd (ag_succs g ! v))" if "weight_index g s d = Some i" "s \<noteq> v" for s d i
      using mi that graph_index(3) [OF ok that(1)] by blast
    show ?thesis unfolding index_ok_def wi flds
    proof (intro conjI allI impI ballI)
      fix s d i
      assume *: "(if s = v \<or> d = v then None else weight_index g s d) = Some i"
      then have **: "weight_index g s d = Some i" "s \<noteq> v" by (simp_all split: if_splits)
      show "i < length (ag_ws g)" using graph_index(1) [OF ok **(1)] .
      show "i \<notin> set (ag_free_widx g @ map snd (ag_succs g ! v))" using graph_index(2) [OF ok **(1)] other [OF **] by simp
    next
      fix s d s' d' i
      assume "(if s = v \<or> d = v then None else weight_index g s d) = Some i \<and> (if s' = v \<or> d' = v then None else weight_index g s' d') = Some i"
      then have "weight_index g s d = Some i" "weight_index g s' d' = Some i" by (simp_all split: if_splits)
      then show "s = s'" "d = d'" using graph_index(3) [OF ok] by blast+
    next
      have "set (ag_free_widx g) \<inter> set (map snd (ag_succs g ! v)) = {}" using mi graph_index(2) [OF ok] by blast
      then show "distinct (ag_free_widx g @ map snd (ag_succs g ! v))" using dw graph_index(4) [OF ok] by simp
    next
      fix i assume "i \<in> set (ag_free_widx g @ map snd (ag_succs g ! v))"
      then have "i \<in> set (ag_free_widx g) \<or> i \<in> set (map snd (ag_succs g ! v))" by simp
      then show "i < length (ag_ws g)" using mi graph_index(1,5) [OF ok] by blast
    qed
  qed
  moreover have "free_ok ?g"
  proof -
    have fl: "length (ag_is_free g) = graph_size g" and fv: "\<not> ag_is_free g ! v" using free v by (auto simp: verts_def)
    have fs: "set (ag_free_id g) = {u. u < graph_size g \<and> ag_is_free g ! u}" and fd: "distinct (ag_free_id g)" using free by blast+
    have "ag_is_free ?g ! u \<longleftrightarrow> u = v \<or> ag_is_free g ! u" if "u < graph_size g" for u
      using that fl lt by (auto simp: flds nth_list_update)
    then have "{u. u < graph_size g \<and> ag_is_free ?g ! u} = insert v (set (ag_free_id g))" using lt fs by auto
    moreover have "v \<notin> set (ag_free_id g)" using fs fv by simp
    ultimately show ?thesis using fl fd by (simp add: free_ok_def sz) (simp add: flds)
  qed
  moreover have "ag_edge_count ?g = of_nat (card (dom (edges ?g)))"
  proof -
    let ?out = "{v} \<times> dom (map_of (ag_succs g ! v))" and ?in = "dom (map_of (preds ! v)) \<times> {v}"
    have sm: "map_of (ag_succs g ! v) d = weight_index g v d" for d using lt by (simp add: weight_index_def)
    have part: "dom (edges g) = dom (edges ?g) \<union> (?out \<union> ?in)" "dom (edges ?g) \<inter> (?out \<union> ?in) = {}" "?out \<inter> ?in = {}"
      using sm pm [OF lt] by (auto simp: dom_def edges_def' wi split: if_splits)
    have fin: "finite (dom (edges g))" using finite_edges [OF ok] .
    then have "card (dom (edges g)) = card (dom (edges ?g)) + (card ?out + card ?in)"
      using part by (metis card_Un_disjoint finite_Un)
    also have "card ?out = length (ag_succs g ! v)" using length_omap [OF okp(2) [OF lt]] by (simp add: card_cartesian_product)
    also have "card ?in = length (preds ! v)" using length_omap [OF pok [OF lt]] by (simp add: card_cartesian_product)
    finally show ?thesis using graph_okD(7) [OF ok] by (simp add: flds)
  qed
  ultimately show "graph_ok ?g" using graph_okD(1) [OF ok] by (simp add: graph_ok_def)
qed

lemma growTo_ok:
  assumes "graph_ok g" "ag_free_id g = []" "n \<le> 65536" "graph_size g \<le> n"
  shows "graph_ok (growTo n g) \<and> edges (growTo n g) = edges g \<and> graph_size (growTo n g) = n \<and>
    verts (growTo n g) = verts g \<union> {graph_size g..<n} \<and> ag_free_id (growTo n g) = []"
  using assms
proof (induction n g rule: growTo.induct)
  case (1 n g)
  show ?case
  proof (cases "graph_size g < n")
    case True
    obtain v g' where nv: "new_vertex g = (v, g')" by (cases "new_vertex g")
    have room: "ag_free_id g = [] \<Longrightarrow> graph_size g < 65536" using True "1.prems" by simp
    note g' = new_vertex_ok [OF "1.prems"(1) room nv]
    have "graph_size g' = graph_size g + 1" "ag_free_id g' = []" "v = graph_size g" using g'(5-7) "1.prems"(2) by simp_all
    moreover have "growTo n g = growTo n g'" using True nv by (subst growTo.simps) simp
    moreover have "insert (graph_size g) (verts g \<union> {Suc (graph_size g)..<n}) = verts g \<union> {graph_size g..<n}" using True by auto
    ultimately show ?thesis using 1 True g'(1,2,4) nv by simp
  qed (use 1 in \<open>simp add: growTo.simps\<close>)
qed

lemma growTo_new:
  assumes "n \<le> 65536"
  shows "graph_ok (growTo n graph_new)" "edges (growTo n graph_new) = Map.empty" "graph_size (growTo n graph_new) = n"
    "verts (growTo n graph_new) = {..<n}" "ag_free_id (growTo n graph_new) = []"
proof -
  have "ag_free_id graph_new = []" by (simp add: graph_new_def)
  from growTo_ok [OF graph_new_ok(1) this assms] show "graph_ok (growTo n graph_new)" "edges (growTo n graph_new) = Map.empty"
    "graph_size (growTo n graph_new) = n" "verts (growTo n graph_new) = {..<n}" "ag_free_id (growTo n graph_new) = []"
    by (simp_all add: lessThan_atLeast0)
qed

section \<open>The interface of a weighted graph\<close>

text \<open>
  What the algorithms on difference bounds rely on: a finite map of weighted edges, with
  enumeration of the edges at a vertex. Laws for a path of updates follow in the locale.
\<close>

locale weighted_graph =
  fixes ok :: "'g \<Rightarrow> bool" and E :: "'g \<Rightarrow> edge_map" and V :: "'g \<Rightarrow> vert_id set"
    and get :: "'g \<Rightarrow> vert_id \<Rightarrow> vert_id \<Rightarrow> Weight option"
    and out_edges in_edges :: "'g \<Rightarrow> vert_id \<Rightarrow> (vert_id \<times> Weight) list"
    and set_e :: "vert_id \<Rightarrow> Weight \<Rightarrow> vert_id \<Rightarrow> 'g \<Rightarrow> 'g"
    and del :: "vert_id \<Rightarrow> 'g \<Rightarrow> 'g"
  assumes E_verts: "ok g \<Longrightarrow> E g (s, d) = Some w \<Longrightarrow> s \<in> V g \<and> d \<in> V g"
    and get_E: "ok g \<Longrightarrow> s \<in> V g \<Longrightarrow> d \<in> V g \<Longrightarrow> get g s d = E g (s, d)"
    and out_E: "ok g \<Longrightarrow> s \<in> V g \<Longrightarrow> (d, w) \<in> set (out_edges g s) \<longleftrightarrow> E g (s, d) = Some w"
    and in_E: "ok g \<Longrightarrow> d \<in> V g \<Longrightarrow> (s, w) \<in> set (in_edges g d) \<longleftrightarrow> E g (s, d) = Some w"
    and set_E: "ok g \<Longrightarrow> s \<in> V g \<Longrightarrow> d \<in> V g \<Longrightarrow>
      ok (set_e s w d g) \<and> E (set_e s w d g) = (E g)((s, d) \<mapsto> w) \<and> V (set_e s w d g) = V g"
    and del_E: "ok g \<Longrightarrow> v \<in> V g \<Longrightarrow> ok (del v g) \<and> V (del v g) = V g - {v} \<and>
      E (del v g) = (\<lambda>(s, d). if s = v \<or> d = v then None else E g (s, d))"
begin

lemma set_all:
  assumes "ok g" "\<forall>(s, d, w) \<in> set es. s \<in> V g \<and> d \<in> V g"
  shows "ok (fold (\<lambda>(s, d, w). set_e s w d) es g) \<and> V (fold (\<lambda>(s, d, w). set_e s w d) es g) = V g \<and>
    E (fold (\<lambda>(s, d, w). set_e s w d) es g) = fold (\<lambda>(s, d, w) m. m((s, d) \<mapsto> w)) es (E g)"
  using assms
proof (induction es arbitrary: g)
  case (Cons e es)
  obtain s d w where e: "e = (s, d, w)" by (cases e)
  have "ok (set_e s w d g)" "V (set_e s w d g) = V g" "E (set_e s w d g) = (E g)((s, d) \<mapsto> w)"
    using set_E [OF Cons.prems(1)] Cons.prems(2) e by auto
  with Cons.IH [of "set_e s w d g"] Cons.prems(2) e show ?case by simp
qed simp

lemma in_out: "ok g \<Longrightarrow> s \<in> V g \<Longrightarrow> d \<in> V g \<Longrightarrow> (d, w) \<in> set (out_edges g s) \<longleftrightarrow> (s, w) \<in> set (in_edges g d)"
  by (simp add: out_E in_E)

end

interpretation adapt: weighted_graph graph_ok edges verts graph_lookup graph_e_succs graph_e_preds set_edge graph_forget
  by unfold_locales (use edges_verts set_e_succs set_e_preds set_edge_ok graph_forget_ok in simp_all)

section \<open>Properties\<close>

text \<open>
  C18. The sparse graph with its shared weight vector, its stacks of freed vertices and freed weight
  indices, and its 16-bit keys implements a finite map of weighted edges, as long as it has at
  most 65536 vertices: a new vertex is unused and changes no edge, setting and minimising an edge
  change that edge only, forgetting a vertex removes exactly the edges at it, lookup and the lists
  of both directions give the map, the empty test is right although the counter is 64 bits wide,
  and every operation keeps the invariant.
\<close>

theorem adapt_graph_refines_edge_map:
  assumes "graph_ok g" "s \<in> verts g" "d \<in> verts g" "graph_size g < 65536"
  shows "graph_lookup g s d = edges g (s, d) \<and> (graph_is_empty g \<longleftrightarrow> edges g = Map.empty) \<and>
    set (graph_e_succs g s) = {(t, w). edges g (s, t) = Some w} \<and> set (graph_e_preds g d) = {(t, w). edges g (t, d) = Some w} \<and>
    (let h = set_edge s w d g in graph_ok h \<and> edges h = (edges g)((s, d) \<mapsto> w)) \<and>
    (let h = update_edge s w d g in graph_ok h \<and>
      edges h = (edges g)((s, d) \<mapsto> (case edges g (s, d) of None \<Rightarrow> w | Some w0 \<Rightarrow> min w0 w))) \<and>
    (let h = graph_forget s g in graph_ok h \<and> verts h = verts g - {s} \<and>
      edges h = (\<lambda>(a, b). if a = s \<or> b = s then None else edges g (a, b))) \<and>
    (let (v, h) = new_vertex g in graph_ok h \<and> v \<notin> verts g \<and> verts h = insert v (verts g) \<and> edges h = edges g)"
proof -
  obtain v h where nv: "new_vertex g = (v, h)" by (cases "new_vertex g")
  have "graph_ok h" "v \<notin> verts g" "verts h = insert v (verts g)" "edges h = edges g"
    using new_vertex_ok [OF assms(1) _ nv] assms(4) by simp_all
  moreover have "set (graph_e_succs g s) = {(t, w). edges g (s, t) = Some w}" using adapt.out_E [OF assms(1,2)] by auto
  moreover have "set (graph_e_preds g d) = {(t, w). edges g (t, d) = Some w}" using adapt.in_E [OF assms(1,3)] by auto
  ultimately show ?thesis
    using adapt.get_E [OF assms(1-3)] graph_is_empty_iff [OF assms(1)] adapt.set_E [OF assms(1-3)]
      update_edge_ok [OF assms(1-3) refl] adapt.del_E [OF assms(1,2)]
    by (simp add: Let_def nv)
qed

theorem adapt_graph_refines_edge_map_witness:
  "let h = update_edge 0 5 1 (set_edge 0 7 1 (growTo 2 graph_new)) in graph_ok h \<and> edges h = [(0, 1) \<mapsto> 5]"
proof -
  let ?g = "growTo 2 graph_new"
  have g: "graph_ok ?g" "edges ?g = Map.empty" "graph_size ?g = 2" "verts ?g = {..<2}" using growTo_new [of 2] by simp_all
  let ?g1 = "set_edge 0 7 1 ?g"
  have s: "let h = ?g1 in graph_ok h \<and> edges h = (edges ?g)((0, 1) \<mapsto> 7)"
    using adapt_graph_refines_edge_map [of ?g 0 1 7] g by simp
  have v: "verts ?g1 = {..<2}" using set_edge_ok(3) [OF g(1), of 0 1 7] g(4) by simp
  have "let h = update_edge 0 5 1 ?g1 in graph_ok h \<and>
      edges h = (edges ?g1)((0, 1) \<mapsto> (case edges ?g1 (0, 1) of None \<Rightarrow> 5 | Some w0 \<Rightarrow> min w0 5))"
    using adapt_graph_refines_edge_map [of ?g1 0 1 5] s v g by (simp add: Let_def)
  then show ?thesis using s g(2) by (simp add: Let_def)
qed

end
