(* ===== verification/Crab_Graph_Views.thy ===== *)
theory Crab_Graph_Views
  imports Crab_Adapt_Graph
begin

text \<open>
  The graph views and the syntactic operations of \<^verbatim>\<open>crab_utils/graph_ops.hpp\<close>. A view is a record of the
  functions its users call: \<open>whole\<close> is the graph itself, \<open>graph_perm\<close> renames the vertices by a
  partial permutation, \<open>sub_graph\<close> leaves out one vertex and \<open>graph_rev\<close> reverses the edges.
  Iteration over a range is a list; the iterators that skip an entry in their comparison do it here
  in the same place.
\<close>

section \<open>Views\<close>

record graph_view =
  gv_size :: nat
  gv_verts :: "vert_id list"
  gv_elem :: "vert_id \<Rightarrow> vert_id \<Rightarrow> bool"
  gv_lookup :: "vert_id \<Rightarrow> vert_id \<Rightarrow> Weight option"
  gv_edge_val :: "vert_id \<Rightarrow> vert_id \<Rightarrow> Weight"
  gv_succs :: "vert_id \<Rightarrow> vert_id list"
  gv_preds :: "vert_id \<Rightarrow> vert_id list"
  gv_e_succs :: "vert_id \<Rightarrow> (vert_id \<times> Weight) list"
  gv_e_preds :: "vert_id \<Rightarrow> (vert_id \<times> Weight) list"

definition whole :: "adapt_graph \<Rightarrow> graph_view" where
  "whole g = \<lparr>gv_size = graph_size g, gv_verts = graph_verts g, gv_elem = graph_elem g, gv_lookup = graph_lookup g,
     gv_edge_val = graph_edge_val g, gv_succs = graph_succs g, gv_preds = graph_preds g,
     gv_e_succs = graph_e_succs g, gv_e_preds = graph_e_preds g\<rparr>"

definition invalid_vert :: vert_id where
  "invalid_vert = 4294967295"

definition perm_inv :: "vert_id list \<Rightarrow> adapt_graph \<Rightarrow> vert_id list" where
  "perm_inv perm g = fold (\<lambda>vi ix. if perm ! vi = invalid_vert then ix else ix[perm ! vi := vi]) [0..<length perm]
     (replicate (graph_size g) invalid_vert)"

definition perm_adj :: "vert_id list \<Rightarrow> vert_id list \<Rightarrow> vert_id list" where
  "perm_adj ix vs = map (\<lambda>v. ix ! v) (filter (\<lambda>v. ix ! v \<noteq> invalid_vert) vs)"

definition perm_e_adj :: "vert_id list \<Rightarrow> (vert_id \<times> Weight) list \<Rightarrow> (vert_id \<times> Weight) list" where
  "perm_e_adj ix es = map (\<lambda>(v, w). (ix ! v, w)) (filter (\<lambda>(v, w). ix ! v \<noteq> invalid_vert) es)"

definition graph_perm :: "vert_id list \<Rightarrow> adapt_graph \<Rightarrow> graph_view" where
  "graph_perm perm g =
    (let ix = perm_inv perm g;
         out = (\<lambda>x y. perm ! x > graph_size g \<or> perm ! y > graph_size g) in
     \<lparr>gv_size = length perm, gv_verts = [0..<length perm],
      gv_elem = (\<lambda>x y. if out x y then False else graph_elem g (perm ! x) (perm ! y)),
      gv_lookup = (\<lambda>x y. if out x y then None else graph_lookup g (perm ! x) (perm ! y)),
      gv_edge_val = (\<lambda>x y. graph_edge_val g (perm ! x) (perm ! y)),
      gv_succs = (\<lambda>v. if perm ! v = invalid_vert then [] else perm_adj ix (graph_succs g (perm ! v))),
      gv_preds = (\<lambda>v. if perm ! v = invalid_vert then [] else perm_adj ix (graph_preds g (perm ! v))),
      gv_e_succs = (\<lambda>v. if perm ! v = invalid_vert then [] else perm_e_adj ix (graph_e_succs g (perm ! v))),
      gv_e_preds = (\<lambda>v. if perm ! v = invalid_vert then [] else perm_e_adj ix (graph_e_preds g (perm ! v)))\<rparr>)"

text \<open>The comparison of a \<^verbatim>\<open>SubGraph\<close> iterator steps over one entry that is the excluded vertex.\<close>

fun excluding :: "('a \<Rightarrow> vert_id) \<Rightarrow> vert_id \<Rightarrow> 'a list \<Rightarrow> 'a list" where
  "excluding f v_ex [] = []"
| "excluding f v_ex (x # xs) =
    (if f x = v_ex then (case xs of [] \<Rightarrow> [] | y # ys \<Rightarrow> y # excluding f v_ex ys) else x # excluding f v_ex xs)"

definition sub_graph :: "graph_view \<Rightarrow> vert_id \<Rightarrow> graph_view" where
  "sub_graph g v_ex =
     \<lparr>gv_size = gv_size g, gv_verts = excluding id v_ex (gv_verts g),
      gv_elem = (\<lambda>x y. x \<noteq> v_ex \<and> y \<noteq> v_ex \<and> gv_elem g x y),
      gv_lookup = (\<lambda>x y. if x \<noteq> v_ex \<and> y \<noteq> v_ex then gv_lookup g x y else None),
      gv_edge_val = gv_edge_val g,
      gv_succs = (\<lambda>v. excluding id v_ex (gv_succs g v)), gv_preds = (\<lambda>v. excluding id v_ex (gv_preds g v)),
      gv_e_succs = (\<lambda>v. excluding fst v_ex (gv_e_succs g v)), gv_e_preds = (\<lambda>v. excluding fst v_ex (gv_e_preds g v))\<rparr>"

definition graph_rev :: "graph_view \<Rightarrow> graph_view" where
  "graph_rev g =
     \<lparr>gv_size = gv_size g, gv_verts = gv_verts g, gv_elem = (\<lambda>x y. gv_elem g y x), gv_lookup = (\<lambda>x y. gv_lookup g y x),
      gv_edge_val = (\<lambda>x y. gv_edge_val g y x), gv_succs = gv_preds g, gv_preds = gv_succs g,
      gv_e_succs = gv_e_preds g, gv_e_preds = gv_e_succs g\<rparr>"

section \<open>Syntactic operations\<close>

text \<open>\<open>view_edges\<close> is the order in which the nested loops of the operations visit the edges.\<close>

definition view_edges :: "graph_view \<Rightarrow> (vert_id \<times> vert_id \<times> Weight) list" where
  "view_edges g = concat (map (\<lambda>s. map (\<lambda>(d, w). (s, d, w)) (gv_e_succs g s)) (gv_verts g))"

definition graph_copy :: "graph_view \<Rightarrow> adapt_graph" where
  "graph_copy v = fold (\<lambda>(s, d, w). add_edge s w d) (view_edges v) (growTo (gv_size v) graph_new)"

definition graph_join :: "graph_view \<Rightarrow> graph_view \<Rightarrow> adapt_graph res" where
  "graph_join l r =
    (if gv_size l \<noteq> gv_size r then Inl AssertionFailure
     else Inr (fold (\<lambda>(s, d, w) g. case gv_lookup r s d of None \<Rightarrow> g | Some wr \<Rightarrow> add_edge s (max w wr) d g)
       (view_edges l) (growTo (gv_size l) graph_new)))"

definition graph_meet :: "graph_view \<Rightarrow> graph_view \<Rightarrow> adapt_graph res" where
  "graph_meet l r =
    (if gv_size l \<noteq> gv_size r then Inl AssertionFailure
     else Inr (fold (\<lambda>(s, d, w) g. case graph_lookup g s d of None \<Rightarrow> add_edge s w d g
         | Some wg \<Rightarrow> if w < wg then put_weight s w d g else g)
       (view_edges r) (graph_copy l)))"

definition widen_vertex :: "graph_view \<Rightarrow> graph_view \<Rightarrow> vert_id \<Rightarrow> adapt_graph \<times> vert_id oset \<Rightarrow> adapt_graph \<times> vert_id oset" where
  "widen_vertex l r s st =
    (let (g, unstable) = st;
         g = fold (\<lambda>(d, w) g. case gv_lookup l s d of None \<Rightarrow> g | Some wl \<Rightarrow> if w \<le> wl then add_edge s wl d g else g)
               (gv_e_succs r s) g
     in (g, if list_ex (\<lambda>d. \<not> graph_elem g s d) (gv_succs l s) then oset_insert s unstable else unstable))"

definition graph_widen :: "graph_view \<Rightarrow> graph_view \<Rightarrow> vert_id oset \<Rightarrow> (adapt_graph \<times> vert_id oset) res" where
  "graph_widen l r unstable =
    (if gv_size l \<noteq> gv_size r then Inl AssertionFailure
     else Inr (fold (widen_vertex l r) (gv_verts r) (growTo (gv_size l) graph_new, unstable)))"

definition apply_delta :: "adapt_graph \<Rightarrow> (vert_id \<times> vert_id \<times> Weight) list \<Rightarrow> adapt_graph" where
  "apply_delta g delta = fold (\<lambda>(s, d, w). set_edge s w d) delta g"

section \<open>The edges of a view\<close>

text \<open>\<open>presents g E V\<close>: through its functions, the view shows the edges \<open>E\<close> between the vertices \<open>V\<close>.\<close>

definition adj_presents :: "(vert_id \<Rightarrow> (vert_id \<times> Weight) list) \<Rightarrow> (vert_id \<Rightarrow> vert_id \<Rightarrow> Weight option) \<Rightarrow> vert_id set \<Rightarrow> bool" where
  "adj_presents adj E V \<longleftrightarrow> (\<forall>v \<in> V. distinct (map fst (adj v)) \<and> (\<forall>u w. (u, w) \<in> set (adj v) \<longleftrightarrow> E v u = Some w))"

definition presents :: "graph_view \<Rightarrow> edge_map \<Rightarrow> vert_id set \<Rightarrow> bool" where
  "presents g E V \<longleftrightarrow> set (gv_verts g) = V \<and> distinct (gv_verts g) \<and> (\<forall>v \<in> V. v < gv_size g) \<and>
     (\<forall>s d w. E (s, d) = Some w \<longrightarrow> s \<in> V \<and> d \<in> V) \<and>
     (\<forall>s \<in> V. \<forall>d \<in> V. gv_lookup g s d = E (s, d) \<and> (gv_elem g s d \<longleftrightarrow> E (s, d) \<noteq> None)) \<and>
     (\<forall>s d w. E (s, d) = Some w \<longrightarrow> gv_edge_val g s d = w) \<and>
     adj_presents (gv_e_succs g) (\<lambda>s d. E (s, d)) V \<and> adj_presents (gv_e_preds g) (\<lambda>d s. E (s, d)) V \<and>
     (\<forall>v \<in> V. gv_succs g v = map fst (gv_e_succs g v) \<and> gv_preds g v = map fst (gv_e_preds g v))"

lemma presentsD:
  assumes "presents g E V"
  shows "set (gv_verts g) = V" "distinct (gv_verts g)" "v \<in> V \<Longrightarrow> v < gv_size g" "E (s, d) = Some w \<Longrightarrow> s \<in> V"
    "E (s, d) = Some w \<Longrightarrow> d \<in> V" "s \<in> V \<Longrightarrow> d \<in> V \<Longrightarrow> gv_lookup g s d = E (s, d)"
    "s \<in> V \<Longrightarrow> d \<in> V \<Longrightarrow> gv_elem g s d \<longleftrightarrow> E (s, d) \<noteq> None"
    "E (s, d) = Some w \<Longrightarrow> gv_edge_val g s d = w" "s \<in> V \<Longrightarrow> distinct (map fst (gv_e_succs g s))"
    "s \<in> V \<Longrightarrow> (d, w) \<in> set (gv_e_succs g s) \<longleftrightarrow> E (s, d) = Some w" "d \<in> V \<Longrightarrow> distinct (map fst (gv_e_preds g d))"
    "d \<in> V \<Longrightarrow> (s, w) \<in> set (gv_e_preds g d) \<longleftrightarrow> E (s, d) = Some w"
    "v \<in> V \<Longrightarrow> gv_succs g v = map fst (gv_e_succs g v)" "v \<in> V \<Longrightarrow> gv_preds g v = map fst (gv_e_preds g v)"
  using assms unfolding presents_def adj_presents_def by blast+

lemma presents_whole: "graph_ok g \<Longrightarrow> presents (whole g) (edges g) (verts g)"
  unfolding presents_def adj_presents_def whole_def
  by (auto simp: set_graph_verts vertsD graph_edge_val_edges set_e_succs set_e_preds distinct_e_succs distinct_e_preds
      graph_succs_e graph_preds_e dest: edges_verts)

lemma presents_rev: "presents g E V \<Longrightarrow> presents (graph_rev g) (\<lambda>(s, d). E (d, s)) V"
  unfolding presents_def graph_rev_def by auto

lemma excluding_filter: "distinct (map f xs) \<Longrightarrow> excluding f v xs = filter (\<lambda>x. f x \<noteq> v) xs"
proof (induction f v xs rule: excluding.induct)
  case (2 f v x xs)
  have none: "filter (\<lambda>x. f x \<noteq> v) ys = ys" if "v \<notin> f ` set ys" for ys using that by (auto intro!: filter_True)
  show ?case
  proof (cases "f x = v")
    case True
    then have "v \<notin> f ` set xs" using 2 by auto
    moreover have "excluding f v ys = ys" if "v \<notin> f ` set ys" for ys using that by (induction ys) auto
    ultimately show ?thesis using True none by (auto split: list.splits)
  qed (use 2 in simp)
qed simp

lemma presents_sub:
  assumes "presents g E V"
  shows "presents (sub_graph g x) (\<lambda>(s, d). if s = x \<or> d = x then None else E (s, d)) (V - {x})"
proof -
  note p = presentsD [OF assms]
  let ?E = "\<lambda>(s, d). if s = x \<or> d = x then None else E (s, d)"
  have ex: "excluding fst x (gv_e_succs g v) = filter (\<lambda>e. fst e \<noteq> x) (gv_e_succs g v)"
    "excluding fst x (gv_e_preds g v) = filter (\<lambda>e. fst e \<noteq> x) (gv_e_preds g v)"
    "excluding id x (gv_succs g v) = filter (\<lambda>u. u \<noteq> x) (map fst (gv_e_succs g v))"
    "excluding id x (gv_preds g v) = filter (\<lambda>u. u \<noteq> x) (map fst (gv_e_preds g v))" if "v \<in> V" for v
    using p(9,11,13,14) [OF that] excluding_filter [of fst] excluding_filter [of id] by simp_all
  have vs: "excluding id x (gv_verts g) = filter (\<lambda>v. v \<noteq> x) (gv_verts g)" using excluding_filter [of id] p(2) by simp
  have "adj_presents (gv_e_succs (sub_graph g x)) (\<lambda>s d. ?E (s, d)) (V - {x})"
    "adj_presents (gv_e_preds (sub_graph g x)) (\<lambda>d s. ?E (s, d)) (V - {x})"
    using p(9-12) ex(1,2) by (auto simp: adj_presents_def sub_graph_def distinct_map_filter)
  moreover have "map fst (filter (\<lambda>e. fst e \<noteq> x) es) = filter (\<lambda>u. u \<noteq> x) (map fst es)" for es :: "(nat \<times> int) list"
    by (simp add: filter_map comp_def)
  ultimately show ?thesis
    using p(1-8) ex vs unfolding presents_def by (auto simp: sub_graph_def split: if_splits)
qed

text \<open>A partial permutation: its valid entries are vertices of the graph, each at most once.\<close>

definition perm_ok :: "vert_id list \<Rightarrow> adapt_graph \<Rightarrow> bool" where
  "perm_ok perm g \<longleftrightarrow> length perm \<le> 65536 \<and> (\<forall>v < length perm. perm ! v \<noteq> invalid_vert \<longrightarrow> perm ! v \<in> verts g) \<and>
     (\<forall>u < length perm. \<forall>v < length perm. perm ! u = perm ! v \<and> perm ! u \<noteq> invalid_vert \<longrightarrow> u = v)"

definition perm_edges :: "vert_id list \<Rightarrow> edge_map \<Rightarrow> edge_map" where
  "perm_edges perm E = (\<lambda>(s, d). if s < length perm \<and> d < length perm \<and> perm ! s \<noteq> invalid_vert \<and> perm ! d \<noteq> invalid_vert
     then E (perm ! s, perm ! d) else None)"

lemma perm_inv_prefix:
  assumes "graph_ok g" "perm_ok perm g" "k \<le> length perm"
  defines "ix \<equiv> fold (\<lambda>vi ix. if perm ! vi = invalid_vert then ix else ix[perm ! vi := vi]) [0..<k] (replicate (graph_size g) invalid_vert)"
  shows "length ix = graph_size g \<and> (\<forall>v < k. perm ! v \<noteq> invalid_vert \<longrightarrow> ix ! (perm ! v) = v) \<and>
    (\<forall>u < graph_size g. (\<forall>v < k. perm ! v \<noteq> u) \<longrightarrow> ix ! u = invalid_vert)"
  unfolding ix_def using assms(3)
proof (induction k)
  case (Suc k)
  let ?ix = "fold (\<lambda>vi ix. if perm ! vi = invalid_vert then ix else ix[perm ! vi := vi]) [0..<k] (replicate (graph_size g) invalid_vert)"
  show ?case
  proof (cases "perm ! k = invalid_vert")
    case True
    then show ?thesis using Suc by (auto simp: less_Suc_eq)
  next
    case False
    then have k: "perm ! k < graph_size g" using assms(2) Suc.prems vertsD by (auto simp: perm_ok_def)
    have "perm ! v \<noteq> perm ! k" if "v < k" for v
    proof
      assume "perm ! v = perm ! k"
      moreover have "v < length perm" "k < length perm" using that Suc.prems by simp_all
      ultimately have "v = k" using False assms(2) unfolding perm_ok_def by metis
      with that show False by simp
    qed
    then show ?thesis using Suc False k by (auto simp: less_Suc_eq nth_list_update) blast
  qed
qed simp

lemma perm_inv_spec:
  assumes "graph_ok g" "perm_ok perm g"
  shows "v < length perm \<Longrightarrow> perm ! v \<noteq> invalid_vert \<Longrightarrow> perm_inv perm g ! (perm ! v) = v"
    "u \<in> verts g \<Longrightarrow> perm_inv perm g ! u \<noteq> invalid_vert \<Longrightarrow> perm_inv perm g ! u < length perm \<and> perm ! (perm_inv perm g ! u) = u"
proof -
  note p = perm_inv_prefix [OF assms le_refl, folded perm_inv_def]
  then show s: "v < length perm \<Longrightarrow> perm ! v \<noteq> invalid_vert \<Longrightarrow> perm_inv perm g ! (perm ! v) = v" for v by blast
  assume u: "u \<in> verts g" "perm_inv perm g ! u \<noteq> invalid_vert"
  then obtain v where v: "v < length perm" "perm ! v = u" using p vertsD by blast
  have "u \<noteq> invalid_vert" using vertsD [OF u(1)] graph_okD(1) [OF assms(1)] by (simp add: invalid_vert_def)
  then show "perm_inv perm g ! u < length perm \<and> perm ! (perm_inv perm g ! u) = u" using s [of v] v by simp
qed

lemma perm_adj_presents:
  assumes ok: "graph_ok g" "perm_ok perm g"
    and E': "\<And>s d w. s \<in> verts g \<Longrightarrow> (d, w) \<in> set (adj s) \<longleftrightarrow> E s d = Some w" "\<And>s d w. E s d = Some w \<Longrightarrow> d \<in> verts g"
    and dist: "\<And>s. s \<in> verts g \<Longrightarrow> distinct (map fst (adj s))"
  shows "adj_presents (\<lambda>v. if perm ! v = invalid_vert then [] else perm_e_adj (perm_inv perm g) (adj (perm ! v)))
    (\<lambda>s d. if s < length perm \<and> d < length perm \<and> perm ! s \<noteq> invalid_vert \<and> perm ! d \<noteq> invalid_vert then E (perm ! s) (perm ! d) else None)
    {..<length perm}"
  unfolding adj_presents_def
proof (intro ballI conjI allI)
  fix v assume v: "v \<in> {..<length perm}"
  let ?ix = "perm_inv perm g"
  note ix = perm_inv_spec [OF ok]
  show "distinct (map fst (if perm ! v = invalid_vert then [] else perm_e_adj ?ix (adj (perm ! v))))"
  proof (cases "perm ! v = invalid_vert")
    case False
    then have pv: "perm ! v \<in> verts g" using v ok(2) by (auto simp: perm_ok_def)
    let ?es = "filter (\<lambda>(u, w). ?ix ! u \<noteq> invalid_vert) (adj (perm ! v))"
    have d: "distinct (map fst ?es)" using dist [OF pv] by (rule distinct_map_filter)
    have "inj_on (\<lambda>u. ?ix ! u) (fst ` set ?es)"
    proof (rule inj_onI)
      fix a b assume "a \<in> fst ` set ?es" "b \<in> fst ` set ?es" "?ix ! a = ?ix ! b"
      then have "a \<in> verts g" "?ix ! a \<noteq> invalid_vert" "b \<in> verts g" "?ix ! b \<noteq> invalid_vert"
        using E' pv by (auto simp: image_iff)
      then show "a = b" using ix(2) \<open>?ix ! a = ?ix ! b\<close> by metis
    qed
    then have "distinct (map (\<lambda>u. ?ix ! u) (map fst ?es))" using d by (subst distinct_map) simp
    moreover have "map fst (perm_e_adj ?ix (adj (perm ! v))) = map (\<lambda>u. ?ix ! u) (map fst ?es)"
      by (simp add: perm_e_adj_def case_prod_unfold)
    ultimately show ?thesis using False by simp
  qed simp
  fix u w
  show "((u, w) \<in> set (if perm ! v = invalid_vert then [] else perm_e_adj ?ix (adj (perm ! v)))) =
    ((if v < length perm \<and> u < length perm \<and> perm ! v \<noteq> invalid_vert \<and> perm ! u \<noteq> invalid_vert then E (perm ! v) (perm ! u) else None) = Some w)"
    (is "?l = ?r")
  proof (cases "perm ! v = invalid_vert")
    case False
    then have pv: "perm ! v \<in> verts g" using v ok(2) by (auto simp: perm_ok_def)
    have mem: "?l \<longleftrightarrow> (\<exists>x. (x, w) \<in> set (adj (perm ! v)) \<and> ?ix ! x \<noteq> invalid_vert \<and> u = ?ix ! x)"
      using False by (auto simp: perm_e_adj_def image_iff)
    show ?thesis
    proof
      assume ?l
      then obtain x where x: "(x, w) \<in> set (adj (perm ! v))" "?ix ! x \<noteq> invalid_vert" "u = ?ix ! x" using mem by blast
      then have e: "E (perm ! v) x = Some w" using E'(1) [OF pv] by blast
      then have xv: "x \<in> verts g" using E'(2) by blast
      have "u < length perm" "perm ! u = x" using ix(2) [OF xv x(2)] x(3) by simp_all
      moreover have "x \<noteq> invalid_vert" using vertsD [OF xv] graph_okD(1) [OF ok(1)] by (simp add: invalid_vert_def)
      ultimately show ?r using False v e by simp
    next
      assume ?r
      then have r: "u < length perm" "perm ! u \<noteq> invalid_vert" "E (perm ! v) (perm ! u) = Some w" by (auto split: if_splits)
      have "u \<noteq> invalid_vert" using r(1) ok(2) by (auto simp: perm_ok_def invalid_vert_def)
      then show ?l using mem r ix(1) [OF r(1,2)] E'(1) [OF pv] by metis
    qed
  qed simp
qed

lemma perm_adj_fst: "perm_adj ix (map fst es) = map fst (perm_e_adj ix es)"
  by (simp add: perm_adj_def perm_e_adj_def filter_map comp_def case_prod_unfold)

lemma presents_perm:
  assumes ok: "graph_ok g" "perm_ok perm g"
  shows "presents (graph_perm perm g) (perm_edges perm (edges g)) {..<length perm}"
proof -
  have small: "\<not> perm ! v > graph_size g" if "v < length perm" "perm ! v \<noteq> invalid_vert" for v
    using that ok(2) vertsD [of "perm ! v" g] by (auto simp: perm_ok_def)
  have big: "perm ! v > graph_size g" if "perm ! v = invalid_vert" for v
    using that graph_okD(1) [OF ok(1)] by (simp add: invalid_vert_def)
  have live: "perm ! v \<in> verts g" if "v < length perm" "perm ! v \<noteq> invalid_vert" for v using that ok(2) by (simp add: perm_ok_def)
  have "adj_presents (gv_e_succs (graph_perm perm g)) (\<lambda>s d. perm_edges perm (edges g) (s, d)) {..<length perm}"
    using perm_adj_presents [OF ok, of "graph_e_succs g" "\<lambda>s d. edges g (s, d)"] set_e_succs [OF ok(1)] distinct_e_succs [OF ok(1)] edges_verts [OF ok(1)]
    by (simp add: graph_perm_def perm_edges_def Let_def)
  moreover have "adj_presents (gv_e_preds (graph_perm perm g)) (\<lambda>d s. perm_edges perm (edges g) (s, d)) {..<length perm}"
  proof -
    have "adj_presents (gv_e_preds (graph_perm perm g)) (\<lambda>d s. if d < length perm \<and> s < length perm \<and> perm ! d \<noteq> invalid_vert \<and> perm ! s \<noteq> invalid_vert then edges g (perm ! s, perm ! d) else None) {..<length perm}"
      using perm_adj_presents [OF ok, of "graph_e_preds g" "\<lambda>d s. edges g (s, d)"] set_e_preds [OF ok(1)] distinct_e_preds [OF ok(1)] edges_verts [OF ok(1)]
      by (simp add: graph_perm_def Let_def)
    then show ?thesis by (simp add: adj_presents_def perm_edges_def conj_commute conj_left_commute)
  qed
  ultimately show ?thesis
    unfolding presents_def using big small live graph_lookup_edges [OF ok(1)] graph_elem_edges [OF ok(1)] graph_edge_val_edges [OF ok(1)]
    by (auto simp: graph_perm_def perm_edges_def Let_def graph_succs_e graph_preds_e perm_adj_fst split: if_splits)
qed

section \<open>Edges of the syntactic operations\<close>

lemma distinct_concat_pairs:
  assumes "distinct vs" "\<forall>v \<in> set vs. distinct (map fst (f v))"
  shows "distinct (map (\<lambda>(s, d, w). (s, d)) (concat (map (\<lambda>s. map (\<lambda>(d, w). (s, d, w)) (f s)) vs)))"
  using assms
proof (induction vs)
  case (Cons v vs)
  let ?key = "\<lambda>(s, d, w). (s, d)" and ?row = "\<lambda>s. map (\<lambda>(d, w). (s, d, w)) (f s)"
  have "map ?key (?row v) = map (Pair v) (map fst (f v))" by (simp add: case_prod_unfold comp_def)
  moreover have "distinct (map (Pair v) (map fst (f v)))" using Cons.prems(2) by (subst distinct_map) (auto simp: inj_on_def)
  ultimately have "distinct (map ?key (?row v))" by (simp only:)
  moreover have "distinct (map ?key (concat (map ?row vs)))" using Cons by simp
  moreover have "set (map ?key (?row v)) \<inter> set (map ?key (concat (map ?row vs))) = {}" using Cons.prems(1) by auto
  ultimately show ?case by (simp only: list.map concat.simps map_append distinct_append)
qed simp

lemma view_edges_set: "presents g E V \<Longrightarrow> (s, d, w) \<in> set (view_edges g) \<longleftrightarrow> E (s, d) = Some w"
proof -
  assume p: "presents g E V"
  note P = presentsD [OF p]
  have "(s, d, w) \<in> set (view_edges g) \<longleftrightarrow> s \<in> V \<and> (d, w) \<in> set (gv_e_succs g s)"
    using P(1) by (auto simp: view_edges_def image_iff split: prod.splits)
  then show ?thesis using P(4,10) by metis
qed

lemma view_edges_distinct: "presents g E V \<Longrightarrow> distinct (map (\<lambda>(s, d, w). (s, d)) (view_edges g))"
  unfolding view_edges_def using presentsD(1,2,9) by (intro distinct_concat_pairs) blast+

text \<open>
  A loop that visits every edge of a view once and rewrites that edge in the result rewrites the
  edge map pointwise.
\<close>

lemma fold_edges_list:
  assumes "distinct (map (\<lambda>(s, d, w). (s, d)) es)" "graph_ok g"
    and step: "\<And>s d w h. (s, d, w) \<in> set es \<Longrightarrow> graph_ok h \<Longrightarrow> verts h = verts g \<Longrightarrow> graph_size h = graph_size g \<Longrightarrow>
      ag_free_id h = ag_free_id g \<Longrightarrow> edges h (s, d) = edges g (s, d) \<Longrightarrow>
      graph_ok (f (s, d, w) h) \<and> verts (f (s, d, w) h) = verts g \<and> graph_size (f (s, d, w) h) = graph_size g \<and>
      ag_free_id (f (s, d, w) h) = ag_free_id g \<and> edges (f (s, d, w) h) = (edges h)((s, d) := r s d w)"
  shows "graph_ok (fold f es g) \<and> verts (fold f es g) = verts g \<and> graph_size (fold f es g) = graph_size g \<and>
    ag_free_id (fold f es g) = ag_free_id g \<and>
    (\<forall>s d w. (s, d, w) \<in> set es \<longrightarrow> edges (fold f es g) (s, d) = r s d w) \<and>
    (\<forall>s d. (\<forall>w. (s, d, w) \<notin> set es) \<longrightarrow> edges (fold f es g) (s, d) = edges g (s, d))"
  using assms(1) step
proof (induction es rule: rev_induct)
  case (snoc e es)
  obtain s d w where e: "e = (s, d, w)" by (cases e)
  have IH: "graph_ok (fold f es g) \<and> verts (fold f es g) = verts g \<and> graph_size (fold f es g) = graph_size g \<and>
    ag_free_id (fold f es g) = ag_free_id g \<and>
    (\<forall>s d w. (s, d, w) \<in> set es \<longrightarrow> edges (fold f es g) (s, d) = r s d w) \<and>
    (\<forall>s d. (\<forall>w. (s, d, w) \<notin> set es) \<longrightarrow> edges (fold f es g) (s, d) = edges g (s, d))"
    using snoc by simp
  have new: "(s, d, w') \<notin> set es" for w' using snoc.prems(1) e by (auto simp: image_iff split: prod.splits)
  then have "edges (fold f es g) (s, d) = edges g (s, d)" using IH by blast
  then have st: "graph_ok (f e (fold f es g)) \<and> verts (f e (fold f es g)) = verts g \<and> graph_size (f e (fold f es g)) = graph_size g \<and>
     ag_free_id (f e (fold f es g)) = ag_free_id g \<and> edges (f e (fold f es g)) = (edges (fold f es g))((s, d) := r s d w)"
    unfolding e using IH e by (intro snoc.prems(2)) simp_all
  have "(\<forall>s' d' w'. (s', d', w') \<in> set (es @ [e]) \<longrightarrow> edges (f e (fold f es g)) (s', d') = r s' d' w')"
    using st IH new e by auto
  moreover have "(\<forall>s' d'. (\<forall>w'. (s', d', w') \<notin> set (es @ [e])) \<longrightarrow> edges (f e (fold f es g)) (s', d') = edges g (s', d'))"
    using st IH e by auto
  ultimately show ?case using st by simp
qed (use assms(2) in simp)

lemma fold_view_edges:
  assumes p: "presents v E V" and ok: "graph_ok g" and V: "V \<subseteq> verts g"
    and step: "\<And>s d w h. E (s, d) = Some w \<Longrightarrow> graph_ok h \<Longrightarrow> s \<in> verts h \<Longrightarrow> d \<in> verts h \<Longrightarrow> edges h (s, d) = edges g (s, d) \<Longrightarrow>
      graph_ok (f (s, d, w) h) \<and> verts (f (s, d, w) h) = verts h \<and> graph_size (f (s, d, w) h) = graph_size h \<and>
      ag_free_id (f (s, d, w) h) = ag_free_id h \<and> edges (f (s, d, w) h) = (edges h)((s, d) := r s d w)"
  shows "graph_ok (fold f (view_edges v) g)" "verts (fold f (view_edges v) g) = verts g"
    "graph_size (fold f (view_edges v) g) = graph_size g" "ag_free_id (fold f (view_edges v) g) = ag_free_id g"
    "edges (fold f (view_edges v) g) = (\<lambda>(s, d). case E (s, d) of None \<Rightarrow> edges g (s, d) | Some w \<Rightarrow> r s d w)"
proof -
  have "graph_ok (f (s, d, w) h) \<and> verts (f (s, d, w) h) = verts g \<and> graph_size (f (s, d, w) h) = graph_size g \<and>
      ag_free_id (f (s, d, w) h) = ag_free_id g \<and> edges (f (s, d, w) h) = (edges h)((s, d) := r s d w)"
    if "(s, d, w) \<in> set (view_edges v)" "graph_ok h" "verts h = verts g" "graph_size h = graph_size g" "ag_free_id h = ag_free_id g"
      "edges h (s, d) = edges g (s, d)" for s d w h
  proof -
    have e: "E (s, d) = Some w" using that(1) view_edges_set [OF p] by blast
    then have "s \<in> verts h" "d \<in> verts h" using presentsD(4,5) [OF p e] V that(3) by auto
    with step [OF e that(2) _ _ that(6)] that(3-5) show ?thesis by simp
  qed
  note * = fold_edges_list [OF view_edges_distinct [OF p] ok, where f = f and r = r, OF this]
  have hit: "edges (fold f (view_edges v) g) (s, d) = r s d w" if "(s, d, w) \<in> set (view_edges v)" for s d w using * that by blast
  have miss: "edges (fold f (view_edges v) g) (s, d) = edges g (s, d)" if "\<And>w. (s, d, w) \<notin> set (view_edges v)" for s d using * that by blast
  from * show "graph_ok (fold f (view_edges v) g)" "verts (fold f (view_edges v) g) = verts g"
    "graph_size (fold f (view_edges v) g) = graph_size g" "ag_free_id (fold f (view_edges v) g) = ag_free_id g" by blast+
  show "edges (fold f (view_edges v) g) = (\<lambda>(s, d). case E (s, d) of None \<Rightarrow> edges g (s, d) | Some w \<Rightarrow> r s d w)"
  proof (rule ext, clarify)
    fix s d
    show "edges (fold f (view_edges v) g) (s, d) = (case E (s, d) of None \<Rightarrow> edges g (s, d) | Some w \<Rightarrow> r s d w)"
    proof (cases "E (s, d)")
      case None
      then have "(s, d, w) \<notin> set (view_edges v)" for w using view_edges_set [OF p] by simp
      from miss [OF this] None show ?thesis by simp
    next
      case (Some w)
      then have "(s, d, w) \<in> set (view_edges v)" using view_edges_set [OF p] by simp
      from hit [OF this] Some show ?thesis by simp
    qed
  qed
qed

definition edges_join :: "edge_map \<Rightarrow> edge_map \<Rightarrow> edge_map" where
  "edges_join L R e = (case (L e, R e) of (Some a, Some b) \<Rightarrow> Some (max a b) | _ \<Rightarrow> None)"

definition edges_meet :: "edge_map \<Rightarrow> edge_map \<Rightarrow> edge_map" where
  "edges_meet L R e = (case (L e, R e) of (Some a, Some b) \<Rightarrow> Some (min a b) | (None, b) \<Rightarrow> b | (a, None) \<Rightarrow> a)"

definition edges_widen :: "edge_map \<Rightarrow> edge_map \<Rightarrow> edge_map" where
  "edges_widen L R e = (case (L e, R e) of (Some a, Some b) \<Rightarrow> if b \<le> a then Some a else None | _ \<Rightarrow> None)"

text \<open>A fresh graph with the vertices below its size.\<close>

definition dense :: "nat \<Rightarrow> adapt_graph \<Rightarrow> bool" where
  "dense n g \<longleftrightarrow> graph_ok g \<and> graph_size g = n \<and> verts g = {..<n} \<and> ag_free_id g = []"

lemma dense_growTo: "n \<le> 65536 \<Longrightarrow> dense n (growTo n graph_new)"
  using growTo_new [of n] by (simp add: dense_def)

lemma graph_copy_edges:
  assumes "presents v E V" "gv_size v \<le> 65536"
  shows "dense (gv_size v) (graph_copy v)" "edges (graph_copy v) = E"
proof -
  note g = growTo_new [OF assms(2)]
  have "V \<subseteq> verts (growTo (gv_size v) graph_new)" using presentsD(3) [OF assms(1)] g(4) by auto
  note f = fold_view_edges [OF assms(1) g(1) this, where f = "\<lambda>(s, d, w). add_edge s w d" and r = "\<lambda>s d w. Some w"]
  then show "dense (gv_size v) (graph_copy v)" "edges (graph_copy v) = E"
    using add_edge_ok g by (auto simp: graph_copy_def dense_def fun_eq_iff split: option.splits)
qed

lemma graph_join_edges:
  assumes l: "presents l L V" and r: "presents r R V" and sz: "gv_size l = gv_size r" "gv_size l \<le> 65536"
  shows "\<exists>g. graph_join l r = Inr g \<and> dense (gv_size l) g \<and> edges g = edges_join L R"
proof -
  note g = growTo_new [OF sz(2)]
  have V: "V \<subseteq> verts (growTo (gv_size l) graph_new)" using presentsD(3) [OF l] g(4) by auto
  let ?f = "\<lambda>(s, d, w) g. case gv_lookup r s d of None \<Rightarrow> g | Some wr \<Rightarrow> add_edge s (max w wr) d g"
  have step: "graph_ok (?f (s, d, w) h) \<and> verts (?f (s, d, w) h) = verts h \<and> graph_size (?f (s, d, w) h) = graph_size h \<and>
      ag_free_id (?f (s, d, w) h) = ag_free_id h \<and>
      edges (?f (s, d, w) h) = (edges h)((s, d) := (case R (s, d) of None \<Rightarrow> None | Some wr \<Rightarrow> Some (max w wr)))"
    if "L (s, d) = Some w" "graph_ok h" "s \<in> verts h" "d \<in> verts h" "edges h (s, d) = edges (growTo (gv_size l) graph_new) (s, d)" for s d w h
    using that presentsD(6) [OF r presentsD(4,5) [OF l that(1)]] add_edge_ok [of h s d] g(2)
    by (auto split: option.splits)
  note f = fold_view_edges [OF l g(1) V, where f = ?f and r = "\<lambda>s d w. case R (s, d) of None \<Rightarrow> None | Some wr \<Rightarrow> Some (max w wr)", OF step]
  have "edges (fold ?f (view_edges l) (growTo (gv_size l) graph_new)) = edges_join L R"
    by (rule trans [OF f(5)]) (auto simp: g(2) edges_join_def fun_eq_iff split: option.splits)
  then show ?thesis using f g sz by (simp add: graph_join_def dense_def)
qed

lemma graph_meet_edges:
  assumes l: "presents l L V" and r: "presents r R V'" and sz: "gv_size l = gv_size r" "gv_size l \<le> 65536"
  shows "\<exists>g. graph_meet l r = Inr g \<and> dense (gv_size l) g \<and> edges g = edges_meet L R"
proof -
  note c = graph_copy_edges [OF l sz(2), unfolded dense_def]
  have V: "V' \<subseteq> verts (graph_copy l)" using presentsD(3) [OF r] c sz by auto
  let ?f = "\<lambda>(s, d, w) g. case graph_lookup g s d of None \<Rightarrow> add_edge s w d g | Some wg \<Rightarrow> if w < wg then put_weight s w d g else g"
  have step: "graph_ok (?f (s, d, w) h) \<and> verts (?f (s, d, w) h) = verts h \<and> graph_size (?f (s, d, w) h) = graph_size h \<and>
      ag_free_id (?f (s, d, w) h) = ag_free_id h \<and>
      edges (?f (s, d, w) h) = (edges h)((s, d) := (case L (s, d) of None \<Rightarrow> Some w | Some wl \<Rightarrow> Some (min wl w)))"
    if "R (s, d) = Some w" "graph_ok h" "s \<in> verts h" "d \<in> verts h" "edges h (s, d) = edges (graph_copy l) (s, d)" for s d w h
    using that c add_edge_ok [of h s d] put_weight_ok [of h s d]
    by (auto simp: min_def fun_upd_idem split: option.splits)
  have ok: "graph_ok (graph_copy l)" using c by blast
  note f = fold_view_edges [OF r ok V, where f = ?f and r = "\<lambda>s d w. case L (s, d) of None \<Rightarrow> Some w | Some wl \<Rightarrow> Some (min wl w)", OF step]
  have "edges (fold ?f (view_edges r) (graph_copy l)) = edges_meet L R"
    using f(5) c by (auto simp: edges_meet_def fun_eq_iff split: option.splits)
  then show ?thesis using f c sz by (simp add: graph_meet_def dense_def)
qed

lemma widen_vertex_fold:
  "fst (fold (widen_vertex l r) vs st) =
   fold (\<lambda>(s, d, w) g. case gv_lookup l s d of None \<Rightarrow> g | Some wl \<Rightarrow> if w \<le> wl then add_edge s wl d g else g)
     (concat (map (\<lambda>s. map (\<lambda>(d, w). (s, d, w)) (gv_e_succs r s)) vs)) (fst st)"
proof (induction vs arbitrary: st)
  case (Cons s vs)
  have "fst (widen_vertex l r s st) =
    fold (\<lambda>(s, d, w) g. case gv_lookup l s d of None \<Rightarrow> g | Some wl \<Rightarrow> if w \<le> wl then add_edge s wl d g else g)
      (map (\<lambda>(d, w). (s, d, w)) (gv_e_succs r s)) (fst st)"
    by (auto simp: widen_vertex_def Let_def fold_map split: prod.splits option.splits intro!: fold_cong)
  with Cons show ?case by simp
qed simp

lemma graph_widen_edges:
  assumes l: "presents l L V" and r: "presents r R V" and sz: "gv_size l = gv_size r" "gv_size l \<le> 65536"
  shows "\<exists>g u. graph_widen l r unstable = Inr (g, u) \<and> dense (gv_size l) g \<and> edges g = edges_widen L R"
proof -
  note g = growTo_new [OF sz(2)]
  have V: "V \<subseteq> verts (growTo (gv_size l) graph_new)" using presentsD(3) [OF l] g(4) by auto
  let ?f = "\<lambda>(s, d, w) g. case gv_lookup l s d of None \<Rightarrow> g | Some wl \<Rightarrow> if w \<le> wl then add_edge s wl d g else g"
  have step: "graph_ok (?f (s, d, w) h) \<and> verts (?f (s, d, w) h) = verts h \<and> graph_size (?f (s, d, w) h) = graph_size h \<and>
      ag_free_id (?f (s, d, w) h) = ag_free_id h \<and>
      edges (?f (s, d, w) h) = (edges h)((s, d) := (case L (s, d) of None \<Rightarrow> None | Some wl \<Rightarrow> if w \<le> wl then Some wl else None))"
    if "R (s, d) = Some w" "graph_ok h" "s \<in> verts h" "d \<in> verts h" "edges h (s, d) = edges (growTo (gv_size l) graph_new) (s, d)" for s d w h
    using that presentsD(6) [OF l presentsD(4,5) [OF r that(1)]] add_edge_ok [of h s d] g(2)
    by (auto split: option.splits)
  note f = fold_view_edges [OF r g(1) V, where f = ?f and r = "\<lambda>s d w. case L (s, d) of None \<Rightarrow> None | Some wl \<Rightarrow> if w \<le> wl then Some wl else None", OF step]
  let ?st = "fold (widen_vertex l r) (gv_verts r) (growTo (gv_size l) graph_new, unstable)"
  have fst: "fst ?st = fold ?f (view_edges r) (growTo (gv_size l) graph_new)" unfolding widen_vertex_fold view_edges_def by simp
  have "edges (fst ?st) = edges_widen L R"
    unfolding fst by (rule trans [OF f(5)]) (auto simp: g(2) edges_widen_def fun_eq_iff split: option.splits)
  moreover have "dense (gv_size l) (fst ?st)" unfolding dense_def fst using f(1-4) g by simp
  ultimately show ?thesis using sz by (simp add: graph_widen_def) (metis prod.collapse)
qed

end
