(* ===== verification/Crab_Heap.thy ===== *)
theory Crab_Heap
  imports Ebpf_Prelude "HOL-Library.Multiset"
begin

text \<open>
  The binary heap of \<^verbatim>\<open>crab_utils/heap.hpp\<close> with its table of positions: a vector of elements and a
  vector that gives every element its position, or -1. The comparison reads an array of keys that
  its user changes between calls, so it is an argument of every operation. The elements are vertex
  numbers, hence natural numbers. A failed \<^verbatim>\<open>assert\<close> is an exception.
\<close>

record heap_t =
  hp_heap :: "nat list"
  hp_indices :: "int list"

type_synonym heap_lt = "nat \<Rightarrow> nat \<Rightarrow> bool"

definition hp_left :: "nat \<Rightarrow> nat" where "hp_left i = i * 2 + 1"
definition hp_right :: "nat \<Rightarrow> nat" where "hp_right i = (i + 1) * 2"
definition hp_parent :: "nat \<Rightarrow> nat" where "hp_parent i = (i - 1) div 2"

definition heap_new :: heap_t where
  "heap_new = \<lparr>hp_heap = [], hp_indices = []\<rparr>"

function percolate_up_loop :: "heap_lt \<Rightarrow> nat \<Rightarrow> nat \<Rightarrow> nat list \<Rightarrow> int list \<Rightarrow> nat list \<times> int list" where
  "percolate_up_loop lt x i hp ix =
    (if i \<noteq> 0 \<and> lt x (hp ! hp_parent i)
     then let v = hp ! hp_parent i in percolate_up_loop lt x (hp_parent i) (hp[i := v]) (ix[v := int i])
     else (hp[i := x], ix[x := int i]))"
  by auto
termination by (relation "measure (\<lambda>(lt, x, i, hp, ix). i)") (auto simp: hp_parent_def)

declare percolate_up_loop.simps [simp del]

definition percolateUp :: "heap_lt \<Rightarrow> nat \<Rightarrow> heap_t \<Rightarrow> heap_t" where
  "percolateUp lt i h =
    (let (hp, ix) = percolate_up_loop lt (hp_heap h ! i) i (hp_heap h) (hp_indices h) in
     h\<lparr>hp_heap := hp, hp_indices := ix\<rparr>)"

definition min_child :: "heap_lt \<Rightarrow> nat list \<Rightarrow> nat \<Rightarrow> nat" where
  "min_child lt hp i =
    (if hp_right i < length hp \<and> lt (hp ! hp_right i) (hp ! hp_left i) then hp_right i else hp_left i)"

function percolate_down_loop :: "heap_lt \<Rightarrow> nat \<Rightarrow> nat \<Rightarrow> nat list \<Rightarrow> int list \<Rightarrow> nat list \<times> int list" where
  "percolate_down_loop lt x i hp ix =
    (if hp_left i < length hp
     then let child = min_child lt hp i in
       if \<not> lt (hp ! child) x then (hp[i := x], ix[x := int i])
       else let v = hp ! child in percolate_down_loop lt x child (hp[i := v]) (ix[v := int i])
     else (hp[i := x], ix[x := int i]))"
  by auto
termination
  by (relation "measure (\<lambda>(lt, x, i, hp, ix). length hp - i)") (auto simp: min_child_def hp_left_def hp_right_def)

declare percolate_down_loop.simps [simp del]

definition percolateDown :: "heap_lt \<Rightarrow> heap_t \<Rightarrow> heap_t" where
  "percolateDown lt h =
    (let (hp, ix) = percolate_down_loop lt (hp_heap h ! 0) 0 (hp_heap h) (hp_indices h) in
     h\<lparr>hp_heap := hp, hp_indices := ix\<rparr>)"

function heapProperty :: "heap_lt \<Rightarrow> heap_t \<Rightarrow> nat \<Rightarrow> bool" where
  "heapProperty lt h i =
    (if i \<ge> length (hp_heap h) then True
     else (i = 0 \<or> \<not> lt (hp_heap h ! i) (hp_heap h ! hp_parent i)) \<and>
       heapProperty lt h (hp_left i) \<and> heapProperty lt h (hp_right i))"
  by auto
termination
  by (relation "measure (\<lambda>(lt, h, i). length (hp_heap h) - i)") (auto simp: hp_left_def hp_right_def)

declare heapProperty.simps [simp del]

definition heap_size :: "heap_t \<Rightarrow> nat" where
  "heap_size h = length (hp_heap h)"

definition heap_empty :: "heap_t \<Rightarrow> bool" where
  "heap_empty h = (hp_heap h = [])"

definition inHeap :: "heap_t \<Rightarrow> nat \<Rightarrow> bool" where
  "inHeap h n = (n < length (hp_indices h) \<and> hp_indices h ! n \<ge> 0)"

definition heap_get :: "heap_t \<Rightarrow> nat \<Rightarrow> nat res" where
  "heap_get h i = (if i < length (hp_heap h) then Inr (hp_heap h ! i) else Inl AssertionFailure)"

definition heap_decrease :: "heap_lt \<Rightarrow> nat \<Rightarrow> heap_t \<Rightarrow> heap_t res" where
  "heap_decrease lt n h =
    (if \<not> inHeap h n then Inl AssertionFailure else Inr (percolateUp lt (nat (hp_indices h ! n)) h))"

definition grow_indices :: "nat \<Rightarrow> int list \<Rightarrow> int list" where
  "grow_indices n ix = (if n \<ge> length ix then ix @ replicate (n + 1 - length ix) (- 1) else ix)"

definition heap_insert :: "heap_lt \<Rightarrow> nat \<Rightarrow> heap_t \<Rightarrow> heap_t res" where
  "heap_insert lt n h =
    (let h1 = h\<lparr>hp_indices := grow_indices n (hp_indices h)\<rparr> in
     if inHeap h1 n then Inl AssertionFailure
     else let i = length (hp_heap h1);
              h2 = h1\<lparr>hp_indices := (hp_indices h1)[n := int i], hp_heap := hp_heap h1 @ [n]\<rparr> in
          Inr (percolateUp lt i h2))"

definition heap_removeMin :: "heap_lt \<Rightarrow> heap_t \<Rightarrow> nat \<times> heap_t" where
  "heap_removeMin lt h =
    (let x = hp_heap h ! 0; v = last (hp_heap h);
         h1 = h\<lparr>hp_heap := butlast ((hp_heap h)[0 := v]), hp_indices := ((hp_indices h)[v := 0])[x := - 1]\<rparr> in
     (x, if length (hp_heap h1) > 1 then percolateDown lt h1 else h1))"

section \<open>Moving an element\<close>

text \<open>
  The loops carry a hole; filling it turns each of their steps into an exchange of two elements,
  on which positions and order are easier to follow.
\<close>

definition exchange :: "nat \<Rightarrow> nat \<Rightarrow> nat list \<times> int list \<Rightarrow> nat list \<times> int list" where
  "exchange i j = (\<lambda>(hp, ix). (hp[i := hp ! j, j := hp ! i], ix[hp ! j := int i, hp ! i := int j]))"

function sift_up :: "heap_lt \<Rightarrow> nat \<Rightarrow> nat list \<times> int list \<Rightarrow> nat list \<times> int list" where
  "sift_up lt i s =
    (if i \<noteq> 0 \<and> lt (fst s ! i) (fst s ! hp_parent i) then sift_up lt (hp_parent i) (exchange i (hp_parent i) s) else s)"
  by auto
termination by (relation "measure (\<lambda>(lt, i, s). i)") (auto simp: hp_parent_def)

function sift_down :: "heap_lt \<Rightarrow> nat \<Rightarrow> nat list \<times> int list \<Rightarrow> nat list \<times> int list" where
  "sift_down lt i s =
    (if hp_left i < length (fst s) \<and> lt (fst s ! min_child lt (fst s) i) (fst s ! i)
     then sift_down lt (min_child lt (fst s) i) (exchange i (min_child lt (fst s) i) s) else s)"
  by auto
termination
  by (relation "measure (\<lambda>(lt, i, s). length (fst s) - i)") (auto simp: min_child_def hp_left_def hp_right_def exchange_def split: prod.splits)

declare sift_up.simps [simp del] sift_down.simps [simp del]

lemma update_overwrite: "(ix :: 'a list)[x := a, v := b, x := c] = ix[v := b, x := c]"
  by (cases "x = v") (simp_all add: list_update_swap)

lemma parent_less: "i \<noteq> 0 \<Longrightarrow> hp_parent i < i"
  by (simp add: hp_parent_def)

lemma percolate_up_sift:
  "i < length hp \<Longrightarrow> percolate_up_loop lt x i hp ix = sift_up lt i (hp[i := x], ix[x := int i])"
proof (induction lt x i hp ix rule: percolate_up_loop.induct)
  case (1 lt x i hp ix)
  show ?case
  proof (cases "i \<noteq> 0 \<and> lt x (hp ! hp_parent i)")
    case True
    let ?p = "hp_parent i" and ?v = "hp ! hp_parent i"
    have "?p < i" using True parent_less by simp
    have "exchange i ?p (hp[i := x], ix[x := int i]) = (hp[i := ?v, ?p := x], ix[?v := int i, x := int ?p])"
      using \<open>?p < i\<close> "1.prems" by (simp add: exchange_def update_overwrite)
    moreover have "percolate_up_loop lt x i hp ix = percolate_up_loop lt x ?p (hp[i := ?v]) (ix[?v := int i])"
      using True by (subst percolate_up_loop.simps) (simp add: Let_def)
    moreover have "sift_up lt i (hp[i := x], ix[x := int i]) = sift_up lt ?p (exchange i ?p (hp[i := x], ix[x := int i]))"
      using True \<open>?p < i\<close> "1.prems" by (subst sift_up.simps) simp
    ultimately show ?thesis using 1 True \<open>?p < i\<close> by simp
  next
    case False
    then show ?thesis using "1.prems" parent_less [of i]
      by (subst percolate_up_loop.simps, subst sift_up.simps) auto
  qed
qed

lemma min_child_update: "min_child lt (hp[i := x]) i = min_child lt hp i"
  by (auto simp: min_child_def hp_left_def hp_right_def)

lemma min_child_range: "hp_left i < length hp \<Longrightarrow> i < min_child lt hp i \<and> min_child lt hp i < length hp"
  by (auto simp: min_child_def hp_left_def hp_right_def)

lemma percolate_down_sift:
  "i < length hp \<Longrightarrow> percolate_down_loop lt x i hp ix = sift_down lt i (hp[i := x], ix[x := int i])"
proof (induction lt x i hp ix rule: percolate_down_loop.induct)
  case (1 lt x i hp ix)
  let ?c = "min_child lt hp i"
  let ?v = "hp ! ?c"
  show ?case
  proof (cases "hp_left i < length hp \<and> lt ?v x")
    case True
    have c: "i < ?c" "?c < length hp" using True min_child_range by blast+
    have "exchange i ?c (hp[i := x], ix[x := int i]) = (hp[i := ?v, ?c := x], ix[?v := int i, x := int ?c])"
      using c "1.prems" by (simp add: exchange_def update_overwrite)
    moreover have "percolate_down_loop lt x i hp ix = percolate_down_loop lt x ?c (hp[i := ?v]) (ix[?v := int i])"
      using True by (subst percolate_down_loop.simps) (simp add: Let_def)
    moreover have "sift_down lt i (hp[i := x], ix[x := int i]) = sift_down lt ?c (exchange i ?c (hp[i := x], ix[x := int i]))"
      using True c "1.prems" by (subst sift_down.simps) (simp add: min_child_update)
    ultimately show ?thesis using 1(1) [of ?c ?v] True c by simp
  next
    case False
    moreover have "i < ?c" if "hp_left i < length hp" using that min_child_range by blast
    ultimately show ?thesis using "1.prems"
      by (subst percolate_down_loop.simps, subst sift_down.simps) (auto simp: Let_def min_child_update)
  qed
qed

section \<open>Positions\<close>

text \<open>The two vectors agree: every element is at its position, and nothing else has a position.\<close>

definition positions_ok :: "nat list \<Rightarrow> int list \<Rightarrow> bool" where
  "positions_ok hp ix \<longleftrightarrow> (\<forall>i < length hp. hp ! i < length ix \<and> ix ! (hp ! i) = int i) \<and>
     (\<forall>n < length ix. ix ! n \<ge> 0 \<longrightarrow> nat (ix ! n) < length hp \<and> hp ! nat (ix ! n) = n)"

lemma positions_distinct: "positions_ok hp ix \<Longrightarrow> distinct hp"
  unfolding distinct_conv_nth positions_ok_def by (metis of_nat_eq_iff)

lemma positions_mem: "positions_ok hp ix \<Longrightarrow> n \<in> set hp \<longleftrightarrow> n < length ix \<and> ix ! n \<ge> 0"
  unfolding positions_ok_def by (metis in_set_conv_nth of_nat_0_le_iff)

lemma exchange_positions:
  assumes "positions_ok hp ix" "i < length hp" "j < length hp" "i \<noteq> j"
  shows "positions_ok (fst (exchange i j (hp, ix))) (snd (exchange i j (hp, ix)))"
proof -
  have d: "hp ! i \<noteq> hp ! j" using positions_distinct [OF assms(1)] assms by (simp add: nth_eq_iff_index_eq)
  have l: "hp ! i < length ix" "hp ! j < length ix" using assms by (auto simp: positions_ok_def)
  have "hp[i := hp ! j, j := hp ! i] ! k < length ix \<and>
      ix[hp ! j := int i, hp ! i := int j] ! (hp[i := hp ! j, j := hp ! i] ! k) = int k" if "k < length hp" for k
  proof -
    consider "k = i" | "k = j" | "k \<noteq> i" "k \<noteq> j" by blast
    then show ?thesis
    proof cases
      case 3
      then have "hp ! k \<noteq> hp ! i" "hp ! k \<noteq> hp ! j"
        using positions_distinct [OF assms(1)] assms that by (simp_all add: nth_eq_iff_index_eq)
      with 3 assms that show ?thesis by (simp add: positions_ok_def)
    qed (use d l assms in simp_all)
  qed
  moreover have "nat (ix[hp ! j := int i, hp ! i := int j] ! n) < length hp \<and>
      hp[i := hp ! j, j := hp ! i] ! nat (ix[hp ! j := int i, hp ! i := int j] ! n) = n"
    if "n < length ix" "ix[hp ! j := int i, hp ! i := int j] ! n \<ge> 0" for n
  proof -
    consider "n = hp ! i" | "n = hp ! j" | "n \<noteq> hp ! i" "n \<noteq> hp ! j" by blast
    then show ?thesis
    proof cases
      case 3
      then have n: "nat (ix ! n) < length hp" "hp ! nat (ix ! n) = n" using that assms by (auto simp: positions_ok_def)
      with 3 have "nat (ix ! n) \<noteq> i" "nat (ix ! n) \<noteq> j" by auto
      with 3 n show ?thesis by simp
    qed (use d l assms in simp_all)
  qed
  ultimately show ?thesis by (simp add: exchange_def positions_ok_def)
qed

lemma exchange_simps [simp]: "length (fst (exchange i j s)) = length (fst s)"
  by (simp add: exchange_def split: prod.splits)

lemma exchange_set:
  assumes "i < length (fst s)" "j < length (fst s)"
  shows "set (fst (exchange i j s)) = set (fst s)"
  using assms by (cases s) (simp add: exchange_def set_swap)

lemma exchange_nth:
  assumes "i < length (fst s)" "j < length (fst s)"
  shows "fst (exchange i j s) ! k = (if k = j then fst s ! i else if k = i then fst s ! j else fst s ! k)"
  using assms by (cases s) (auto simp: exchange_def nth_list_update)

text \<open>A path of exchanges keeps the elements and the positions.\<close>

definition same_elems :: "nat list \<times> int list \<Rightarrow> nat list \<times> int list \<Rightarrow> bool" where
  "same_elems s t \<longleftrightarrow> length (fst t) = length (fst s) \<and> set (fst t) = set (fst s) \<and>
     (positions_ok (fst s) (snd s) \<longrightarrow> positions_ok (fst t) (snd t))"

lemma same_elems_refl: "same_elems s s"
  by (simp add: same_elems_def)

lemma same_elems_exchange:
  assumes "i < length (fst s)" "j < length (fst s)" "i \<noteq> j" "same_elems (exchange i j s) t"
  shows "same_elems s t"
  using assms exchange_set [of i s j] exchange_positions [of "fst s" "snd s" i j] by (simp add: same_elems_def)

lemma sift_up_elems: "i < length (fst s) \<Longrightarrow> same_elems s (sift_up lt i s)"
proof (induction lt i s rule: sift_up.induct)
  case (1 lt i s)
  show ?case
  proof (cases "i \<noteq> 0 \<and> lt (fst s ! i) (fst s ! hp_parent i)")
    case True
    then have "hp_parent i < i" by (simp add: parent_less)
    with 1 True have "same_elems s (sift_up lt (hp_parent i) (exchange i (hp_parent i) s))"
      by (intro same_elems_exchange [of i s "hp_parent i"]) simp_all
    then show ?thesis using True by (subst sift_up.simps) simp
  qed (subst sift_up.simps, auto simp: same_elems_refl)
qed

lemma sift_down_elems: "i < length (fst s) \<Longrightarrow> same_elems s (sift_down lt i s)"
proof (induction lt i s rule: sift_down.induct)
  case (1 lt i s)
  let ?c = "min_child lt (fst s) i"
  show ?case
  proof (cases "hp_left i < length (fst s) \<and> lt (fst s ! ?c) (fst s ! i)")
    case True
    then have "i < ?c" "?c < length (fst s)" using min_child_range by blast+
    with 1 True have "same_elems s (sift_down lt ?c (exchange i ?c s))"
      by (intro same_elems_exchange [of i s ?c]) simp_all
    then show ?thesis using True by (subst sift_down.simps) simp
  qed (subst sift_down.simps, auto simp: same_elems_refl)
qed

section \<open>Order\<close>

text \<open>
  The comparison of the clients: by a key. The heap order may be broken at one position, towards
  its parent while an element moves up and towards its children while it moves down.
\<close>

definition key_lt :: "(nat \<Rightarrow> int) \<Rightarrow> heap_lt" where
  "key_lt key x y \<longleftrightarrow> key x < key y"

definition edge_ordered :: "(nat \<Rightarrow> int) \<Rightarrow> nat list \<Rightarrow> nat \<Rightarrow> bool" where
  "edge_ordered key hp j \<longleftrightarrow> key (hp ! hp_parent j) \<le> key (hp ! j)"

definition ordered :: "(nat \<Rightarrow> int) \<Rightarrow> nat list \<Rightarrow> bool" where
  "ordered key hp \<longleftrightarrow> (\<forall>j. 0 < j \<and> j < length hp \<longrightarrow> edge_ordered key hp j)"

definition ordered_up :: "(nat \<Rightarrow> int) \<Rightarrow> nat list \<Rightarrow> nat \<Rightarrow> bool" where
  "ordered_up key hp i \<longleftrightarrow> (\<forall>j. 0 < j \<and> j < length hp \<longrightarrow> (j \<noteq> i \<longrightarrow> edge_ordered key hp j) \<and>
     (hp_parent j = i \<and> i \<noteq> 0 \<longrightarrow> key (hp ! hp_parent i) \<le> key (hp ! j)))"

definition ordered_down :: "(nat \<Rightarrow> int) \<Rightarrow> nat list \<Rightarrow> nat \<Rightarrow> bool" where
  "ordered_down key hp i \<longleftrightarrow> (\<forall>j. 0 < j \<and> j < length hp \<longrightarrow> (hp_parent j \<noteq> i \<longrightarrow> edge_ordered key hp j) \<and>
     (hp_parent j = i \<and> i \<noteq> 0 \<longrightarrow> key (hp ! hp_parent i) \<le> key (hp ! j)))"

lemma sift_up_ordered:
  "i < length (fst s) \<Longrightarrow> ordered_up key (fst s) i \<Longrightarrow> ordered key (fst (sift_up (key_lt key) i s))"
proof (induction "key_lt key" i s rule: sift_up.induct)
  case (1 i s)
  let ?p = "hp_parent i" and ?a = "fst s"
  show ?case
  proof (cases "i \<noteq> 0 \<and> key_lt key (?a ! i) (?a ! ?p)")
    case True
    then have p: "?p < i" "?p < length ?a" using 1(2) parent_less [of i] by simp_all
    have lt: "key (?a ! i) < key (?a ! ?p)" using True by (simp add: key_lt_def)
    let ?b = "fst (exchange i ?p s)"
    note nth = exchange_nth [OF 1(2) p(2)]
    have ord: "edge_ordered key ?a j" if "0 < j" "j < length ?a" "j \<noteq> i" for j
      using 1(3) that by (simp add: ordered_up_def)
    have child: "key (?a ! ?p) \<le> key (?a ! j)" if "0 < j" "j < length ?a" "hp_parent j = i" for j
      using 1(3) that True by (simp add: ordered_up_def)
    have "edge_ordered key ?b j" if j: "0 < j" "j < length ?a" "j \<noteq> ?p" for j
    proof (cases "j = i")
      case False
      then show ?thesis
        using ord [OF j(1,2) False] child [OF j(1,2)] lt j(3) p(1) by (auto simp: edge_ordered_def nth)
    qed (use lt p in \<open>simp add: edge_ordered_def nth\<close>)
    moreover have "key (?b ! hp_parent ?p) \<le> key (?b ! j)" if j: "0 < j" "j < length ?a" "hp_parent j = ?p" "?p \<noteq> 0" for j
    proof -
      have "hp_parent ?p < ?p" using j(4) parent_less by simp
      have pp: "key (?a ! hp_parent ?p) \<le> key (?a ! ?p)" using ord [of ?p] p j(4) by (simp add: edge_ordered_def)
      have "j \<noteq> ?p" using j parent_less [of ?p] by auto
      show ?thesis
        using pp ord [OF j(1,2)] j(3) \<open>hp_parent ?p < ?p\<close> \<open>j \<noteq> ?p\<close> p(1) by (cases "j = i") (simp_all add: edge_ordered_def nth)
    qed
    ultimately have "ordered_up key ?b ?p" by (simp add: ordered_up_def)
    then have "ordered key (fst (sift_up (key_lt key) ?p (exchange i ?p s)))" using 1(1) True p by simp
    then show ?thesis using True by (subst sift_up.simps) simp
  next
    case False
    then have "edge_ordered key ?a i" if "i \<noteq> 0" using that by (auto simp: edge_ordered_def key_lt_def)
    then have "ordered key ?a" using 1(3) by (metis ordered_def ordered_up_def not_gr_zero)
    then show ?thesis using False by (subst sift_up.simps) auto
  qed
qed

lemma parent_iff: "0 < j \<Longrightarrow> hp_parent j = i \<longleftrightarrow> j = hp_left i \<or> j = hp_right i"
  by (auto simp: hp_parent_def hp_left_def hp_right_def)

lemma min_child_least:
  assumes "hp_left i < length hp" "0 < j" "j < length hp" "hp_parent j = i"
  shows "key (hp ! min_child (key_lt key) hp i) \<le> key (hp ! j)" "hp_parent (min_child (key_lt key) hp i) = i" 
  using assms parent_iff [of j i] by (auto simp: min_child_def key_lt_def hp_left_def hp_right_def hp_parent_def)

lemma sift_down_ordered:
  "i < length (fst s) \<Longrightarrow> ordered_down key (fst s) i \<Longrightarrow> ordered key (fst (sift_down (key_lt key) i s))"
proof (induction "key_lt key" i s rule: sift_down.induct)
  case (1 i s)
  let ?a = "fst s"
  let ?c = "min_child (key_lt key) ?a i"
  have ord: "edge_ordered key ?a j" if "0 < j" "j < length ?a" "hp_parent j \<noteq> i" for j
    using 1(3) that by (simp add: ordered_down_def)
  have above: "key (?a ! hp_parent i) \<le> key (?a ! j)" if "0 < j" "j < length ?a" "hp_parent j = i" "i \<noteq> 0" for j
    using 1(3) that by (simp add: ordered_down_def)
  show ?case
  proof (cases "hp_left i < length ?a \<and> key_lt key (?a ! ?c) (?a ! i)")
    case True
    then have c: "i < ?c" "?c < length ?a" using min_child_range by blast+
    have pc: "hp_parent ?c = i" by (simp add: min_child_def hp_left_def hp_right_def hp_parent_def)
    have lt: "key (?a ! ?c) < key (?a ! i)" using True by (simp add: key_lt_def)
    let ?b = "fst (exchange i ?c s)"
    note nth = exchange_nth [OF 1(2) c(2)]
    have "edge_ordered key ?b j" if j: "0 < j" "j < length ?a" "hp_parent j \<noteq> ?c" for j
    proof -
      consider "j = ?c" | "j = i" | "j \<noteq> ?c" "j \<noteq> i" "hp_parent j = i" | "j \<noteq> ?c" "j \<noteq> i" "hp_parent j \<noteq> i" by blast
      then show ?thesis
      proof cases
        case 2
        then have "hp_parent i < i" using j parent_less by simp
        then show ?thesis using 2 above [of ?c] c pc j by (simp add: edge_ordered_def nth)
      next
        case 3
        then show ?thesis using min_child_least(1) [of i ?a j key] True j by (simp add: edge_ordered_def nth)
      qed (use lt c pc j ord [OF j(1,2)] in \<open>simp_all add: edge_ordered_def nth\<close>)
    qed
    moreover have "key (?b ! hp_parent ?c) \<le> key (?b ! j)" if j: "0 < j" "j < length ?a" "hp_parent j = ?c" for j
    proof -
      have "?c < j" using j parent_less [of j] by simp
      then show ?thesis using ord [of j] j c by (simp add: edge_ordered_def nth pc)
    qed
    ultimately have "ordered_down key ?b ?c" by (simp add: ordered_down_def)
    then have "ordered key (fst (sift_down (key_lt key) ?c (exchange i ?c s)))" using 1(1) True c by simp
    then show ?thesis using True by (subst sift_down.simps) simp
  next
    case False
    have "edge_ordered key ?a j" if j: "0 < j" "j < length ?a" for j
    proof (cases "hp_parent j = i")
      case True
      then have "hp_left i < length ?a" using j by (auto simp: parent_iff hp_left_def hp_right_def)
      then show ?thesis
        using False min_child_least(1) [of i ?a j key] j True by (auto simp: edge_ordered_def key_lt_def)
    qed (use ord j in blast)
    then have "ordered key ?a" by (simp add: ordered_def)
    then show ?thesis using False by (subst sift_down.simps) auto
  qed
qed

section \<open>The operations\<close>

definition heap_ok :: "heap_t \<Rightarrow> bool" where
  "heap_ok h \<longleftrightarrow> positions_ok (hp_heap h) (hp_indices h)"

definition heap_ordered :: "(nat \<Rightarrow> int) \<Rightarrow> heap_t \<Rightarrow> bool" where
  "heap_ordered key h \<longleftrightarrow> ordered key (hp_heap h)"

definition heap_elems :: "heap_t \<Rightarrow> nat set" where
  "heap_elems h = set (hp_heap h)"

lemma heap_new_ok [simp]: "heap_ok heap_new" "heap_ordered key heap_new" "heap_elems heap_new = {}"
  by (simp_all add: heap_ok_def heap_new_def positions_ok_def heap_ordered_def ordered_def heap_elems_def)

lemma inHeap_iff: "heap_ok h \<Longrightarrow> inHeap h n \<longleftrightarrow> n \<in> heap_elems h"
  by (simp add: inHeap_def heap_ok_def heap_elems_def positions_mem)

lemma heap_empty_iff: "heap_empty h \<longleftrightarrow> heap_elems h = {}"
  by (simp add: heap_empty_def heap_elems_def)

lemma finite_heap_elems [simp]: "finite (heap_elems h)"
  by (simp add: heap_elems_def)

lemma percolateUp_sift:
  assumes "heap_ok h" "i < length (hp_heap h)"
  shows "hp_heap (percolateUp lt i h) = fst (sift_up lt i (hp_heap h, hp_indices h)) \<and>
         hp_indices (percolateUp lt i h) = snd (sift_up lt i (hp_heap h, hp_indices h))"
proof -
  have "(hp_indices h)[hp_heap h ! i := int i] = hp_indices h"
    using assms by (metis heap_ok_def list_update_id positions_ok_def)
  then show ?thesis
    using percolate_up_sift [OF assms(2), of lt "hp_heap h ! i" "hp_indices h"] by (simp add: percolateUp_def split: prod.splits)
qed

lemma percolateDown_sift:
  assumes "heap_ok h" "hp_heap h \<noteq> []"
  shows "hp_heap (percolateDown lt h) = fst (sift_down lt 0 (hp_heap h, hp_indices h)) \<and>
         hp_indices (percolateDown lt h) = snd (sift_down lt 0 (hp_heap h, hp_indices h))"
proof -
  have "0 < length (hp_heap h)" using assms(2) by simp
  moreover from this have "(hp_indices h)[hp_heap h ! 0 := int 0] = hp_indices h"
    using assms by (metis heap_ok_def list_update_id positions_ok_def)
  ultimately show ?thesis
    using percolate_down_sift [of 0 "hp_heap h" lt "hp_heap h ! 0" "hp_indices h"] by (simp add: percolateDown_def split: prod.splits)
qed

lemma percolateUp_ok:
  assumes "heap_ok h" "i < length (hp_heap h)"
  shows "heap_ok (percolateUp lt i h)" "heap_elems (percolateUp lt i h) = heap_elems h"
    "ordered_up key (hp_heap h) i \<Longrightarrow> heap_ordered key (percolateUp (key_lt key) i h)"
  using percolateUp_sift [OF assms] sift_up_elems [of i "(hp_heap h, hp_indices h)"] sift_up_ordered [of i "(hp_heap h, hp_indices h)" key] assms
  by (simp_all add: heap_ok_def heap_elems_def heap_ordered_def same_elems_def)

lemma percolateDown_ok:
  assumes "heap_ok h" "hp_heap h \<noteq> []"
  shows "heap_ok (percolateDown lt h)" "heap_elems (percolateDown lt h) = heap_elems h"
    "ordered_down key (hp_heap h) 0 \<Longrightarrow> heap_ordered key (percolateDown (key_lt key) h)"
  using percolateDown_sift [OF assms] sift_down_elems [of 0 "(hp_heap h, hp_indices h)"] sift_down_ordered [of 0 "(hp_heap h, hp_indices h)" key] assms
  by (simp_all add: heap_ok_def heap_elems_def heap_ordered_def same_elems_def)

lemma positions_grow: "positions_ok hp ix \<Longrightarrow> positions_ok hp (grow_indices n ix)"
  by (auto simp: positions_ok_def grow_indices_def nth_append)

lemma positions_append:
  assumes "positions_ok hp ix" "n < length ix" "n \<notin> set hp"
  shows "positions_ok (hp @ [n]) (ix[n := int (length hp)])"
  using assms unfolding positions_ok_def
  by (auto simp: nth_append nth_list_update less_Suc_eq)

lemma ordered_append: "ordered key hp \<Longrightarrow> ordered_up key (hp @ [n]) (length hp)"
proof -
  assume o: "ordered key hp"
  have "edge_ordered key (hp @ [n]) j" if "0 < j" "j < length hp" for j
    using o that parent_less [of j] by (auto simp: ordered_def edge_ordered_def nth_append)
  moreover have "hp_parent j \<noteq> length hp" if "0 < j" "j < Suc (length hp)" for j using that parent_less [of j] by simp
  ultimately show ?thesis by (auto simp: ordered_up_def less_Suc_eq)
qed

lemma heap_insert_ok:
  assumes "heap_ok h" "n \<notin> heap_elems h"
  shows "\<exists>h'. heap_insert (key_lt key) n h = Inr h' \<and> heap_ok h' \<and> heap_elems h' = insert n (heap_elems h) \<and>
    (heap_ordered key h \<longrightarrow> heap_ordered key h')"
proof -
  let ?ix = "grow_indices n (hp_indices h)"
  let ?h2 = "h\<lparr>hp_indices := ?ix[n := int (length (hp_heap h))], hp_heap := hp_heap h @ [n]\<rparr>"
  have n: "n < length ?ix" by (simp add: grow_indices_def)
  have pos: "positions_ok (hp_heap h) ?ix" using assms(1) positions_grow by (simp add: heap_ok_def)
  have "\<not> inHeap (h\<lparr>hp_indices := ?ix\<rparr>) n"
    using positions_mem [OF pos, of n] assms(2) n by (simp add: inHeap_def heap_elems_def)
  then have ins: "heap_insert (key_lt key) n h = Inr (percolateUp (key_lt key) (length (hp_heap h)) ?h2)"
    by (simp add: heap_insert_def Let_def)
  have ok: "heap_ok ?h2" using positions_append [OF pos n] assms(2) by (simp add: heap_ok_def heap_elems_def)
  have "heap_elems ?h2 = insert n (heap_elems h)" by (simp add: heap_elems_def)
  with ins percolateUp_ok [OF ok] ordered_append [of key "hp_heap h" n] show ?thesis
    by (simp add: heap_ordered_def)
qed

lemma heap_decrease_ok:
  assumes "heap_ok h" "n \<in> heap_elems h"
  shows "\<exists>h'. heap_decrease (key_lt key) n h = Inr h' \<and> heap_ok h' \<and> heap_elems h' = heap_elems h \<and>
    (heap_ordered old h \<and> key n \<le> old n \<and> (\<forall>m. m \<noteq> n \<longrightarrow> key m = old m) \<longrightarrow> heap_ordered key h')"
proof -
  let ?i = "nat (hp_indices h ! n)" and ?a = "hp_heap h"
  have i: "?i < length ?a" "?a ! ?i = n"
    using assms by (auto simp: heap_ok_def heap_elems_def positions_mem) (auto simp: positions_ok_def)
  have dec: "heap_decrease (key_lt key) n h = Inr (percolateUp (key_lt key) ?i h)"
    using assms inHeap_iff by (simp add: heap_decrease_def)
  have "ordered_up key ?a ?i" if old: "heap_ordered old h" and le: "key n \<le> old n" and eq: "\<forall>m. m \<noteq> n \<longrightarrow> key m = old m"
    unfolding ordered_up_def edge_ordered_def
  proof (intro allI impI conjI)
    fix j assume j: "0 < j \<and> j < length ?a"
    have other: "?a ! k \<noteq> n" if "k \<noteq> ?i" "k < length ?a" for k
      using that i positions_distinct assms(1) by (metis heap_ok_def nth_eq_iff_index_eq)
    have pj: "old (?a ! hp_parent j) \<le> old (?a ! j)" using old j by (simp add: heap_ordered_def ordered_def edge_ordered_def)
    have less: "hp_parent j < j" using j parent_less by simp
    have up: "key m \<le> old m" for m using le eq by (cases "m = n") simp_all
    show "key (?a ! hp_parent j) \<le> key (?a ! j)" if "j \<noteq> ?i" using that other [of j] j eq pj up [of "?a ! hp_parent j"] by simp
    show "key (?a ! hp_parent ?i) \<le> key (?a ! j)" if *: "hp_parent j = ?i \<and> ?i \<noteq> 0"
    proof -
      have "old (?a ! hp_parent ?i) \<le> old (?a ! ?i)" using old * i(1) unfolding heap_ordered_def ordered_def edge_ordered_def by (metis not_gr_zero)
      then show ?thesis using pj * other [of j] less j eq up [of "?a ! hp_parent ?i"] by simp
    qed
  qed
  with dec percolateUp_ok [OF assms(1) i(1)] show ?thesis by auto
qed

lemma ordered_root:
  assumes "ordered key hp" "i < length hp"
  shows "key (hp ! 0) \<le> key (hp ! i)"
  using assms(2)
proof (induction i rule: less_induct)
  case (less i)
  show ?case
  proof (cases "i = 0")
    case False
    then have "key (hp ! 0) \<le> key (hp ! hp_parent i)" using less parent_less [of i] by simp
    also have "\<dots> \<le> key (hp ! i)" using assms(1) less False by (simp add: ordered_def edge_ordered_def)
    finally show ?thesis .
  qed simp
qed

lemma positions_pop:
  assumes "positions_ok hp ix" "hp \<noteq> []"
  shows "positions_ok (butlast (hp[0 := last hp])) (ix[last hp := 0, hp ! 0 := - 1])"
proof -
  let ?x = "hp ! 0" and ?v = "last hp" and ?b = "butlast (hp[0 := last hp])"
  have pos: "0 < length hp" using assms(2) by simp
  have v: "?v = hp ! (length hp - 1)" using assms(2) by (rule last_conv_nth)
  have len: "?x < length ix" "?v < length ix" using assms(1) pos v by (simp_all add: positions_ok_def)
  have dist: "hp ! i = hp ! j \<longleftrightarrow> i = j" if "i < length hp" "j < length hp" for i j
    using that positions_distinct [OF assms(1)] by (simp add: nth_eq_iff_index_eq)
  have nb: "?b ! k = (if k = 0 then ?v else hp ! k)" if "k < length hp - 1" for k
    using that pos by (simp add: nth_butlast nth_list_update)
  have "?b ! k < length ix \<and> ix[?v := 0, ?x := - 1] ! (?b ! k) = int k" if k: "k < length hp - 1" for k
  proof (cases "k = 0")
    case True
    have "?v \<noteq> ?x" using dist [of "length hp - 1" 0] v k pos by simp
    then show ?thesis using True nb [OF k] len by simp
  next
    case False
    have "hp ! k \<noteq> ?x" "hp ! k \<noteq> ?v" using dist [of k 0] dist [of k "length hp - 1"] k v pos False by simp_all
    then show ?thesis using False nb [OF k] assms(1) k by (simp add: positions_ok_def)
  qed
  moreover have "nat (ix[?v := 0, ?x := - 1] ! n) < length hp - 1 \<and> ?b ! nat (ix[?v := 0, ?x := - 1] ! n) = n"
    if n: "n < length ix" "ix[?v := 0, ?x := - 1] ! n \<ge> 0" for n
  proof -
    have x: "n \<noteq> ?x" using n len by (auto simp: nth_list_update)
    show ?thesis
    proof (cases "n = ?v")
      case True
      then have "1 < length hp" using x v pos by (cases "length hp = 1") auto
      then show ?thesis using True x len nb [of 0] by simp
    next
      case False
      then have k: "nat (ix ! n) < length hp" "hp ! nat (ix ! n) = n" using n x assms(1) by (auto simp: positions_ok_def)
      have "nat (ix ! n) \<noteq> 0" using k(2) x by metis
      moreover have "nat (ix ! n) \<noteq> length hp - 1" using k(2) False v by metis
      ultimately show ?thesis using k False x nb [of "nat (ix ! n)"] by simp
    qed
  qed
  ultimately show ?thesis unfolding positions_ok_def by simp
qed

lemma heap_removeMin_ok:
  assumes "heap_ok h" "heap_elems h \<noteq> {}" "heap_removeMin (key_lt key) h = (x, h')"
  shows "heap_ok h'" "x \<in> heap_elems h" "heap_elems h' = heap_elems h - {x}"
    "heap_ordered key h \<Longrightarrow> heap_ordered key h' \<and> (\<forall>y \<in> heap_elems h. key x \<le> key y)"
proof -
  let ?a = "hp_heap h"
  let ?h1 = "h\<lparr>hp_heap := butlast (?a[0 := last ?a]), hp_indices := (hp_indices h)[last ?a := 0, ?a ! 0 := - 1]\<rparr>"
  have ne: "?a \<noteq> []" using assms(2) by (simp add: heap_elems_def)
  have x: "x = ?a ! 0" and h': "h' = (if length (hp_heap ?h1) > 1 then percolateDown (key_lt key) ?h1 else ?h1)"
    using assms(3) by (auto simp: heap_removeMin_def Let_def)
  have ok1: "heap_ok ?h1" using positions_pop [of ?a "hp_indices h"] assms(1) ne by (simp add: heap_ok_def)
  obtain ys where ys: "?a = x # ys" using ne x by (cases ?a) auto
  have dist: "distinct ?a" using assms(1) positions_distinct by (simp add: heap_ok_def)
  have b: "hp_heap ?h1 = (if ys = [] then [] else last ys # butlast ys)" by (simp add: ys)
  have el1: "heap_elems ?h1 = heap_elems h - {x}"
  proof (cases "ys = []")
    case False
    have "set ys = insert (last ys) (set (butlast ys))" by (subst append_butlast_last_id [OF False, symmetric]) simp
    then show ?thesis using dist b False by (simp add: heap_elems_def ys)
  qed (use b in \<open>simp add: heap_elems_def ys\<close>)
  show "x \<in> heap_elems h" using ys by (simp add: heap_elems_def)
  have big: "hp_heap ?h1 \<noteq> []" if "length (hp_heap ?h1) > 1" using that by (metis list.size(3) not_less_zero)
  show "heap_ok h'" using h' ok1 percolateDown_ok(1) [OF ok1 big] by simp
  show "heap_elems h' = heap_elems h - {x}" using h' el1 percolateDown_ok(2) [OF ok1 big] by simp
  show "heap_ordered key h' \<and> (\<forall>y \<in> heap_elems h. key x \<le> key y)" if o: "heap_ordered key h"
  proof
    have down: "ordered_down key (hp_heap ?h1) 0"
    proof -
      have "edge_ordered key (hp_heap ?h1) j" if j: "0 < j" "j < length (hp_heap ?h1)" "hp_parent j \<noteq> 0" for j
      proof -
        have "j < length ?a - 1" "hp_parent j < j" using j parent_less by simp_all
        then show ?thesis using o j by (simp add: heap_ordered_def ordered_def edge_ordered_def nth_butlast)
      qed
      then show ?thesis by (simp add: ordered_down_def)
    qed
    have "ordered key (hp_heap ?h1)" if "\<not> length (hp_heap ?h1) > 1" using that by (auto simp: ordered_def)
    then show "heap_ordered key h'" using h' percolateDown_ok(3) [OF ok1 big down] by (auto simp: heap_ordered_def)
    show "\<forall>y \<in> heap_elems h. key x \<le> key y"
      using o x ordered_root [of key ?a] by (auto simp: heap_ordered_def heap_elems_def in_set_conv_nth)
  qed
qed

section \<open>The interface of a queue\<close>

text \<open>
  What the shortest-path loops rely on: a set of elements, kept in order of keys that only
  decrease. \<open>put\<close> is the pattern of the clients: lower the key of a vertex, then move it up when it
  is queued and insert it when it is not.
\<close>

locale addressable_queue =
  fixes ok :: "'h \<Rightarrow> bool" and elems :: "'h \<Rightarrow> nat set" and sorted_by :: "(nat \<Rightarrow> int) \<Rightarrow> 'h \<Rightarrow> bool"
    and is_in :: "'h \<Rightarrow> nat \<Rightarrow> bool"
    and ins :: "(nat \<Rightarrow> int) \<Rightarrow> nat \<Rightarrow> 'h \<Rightarrow> 'h res" and dec :: "(nat \<Rightarrow> int) \<Rightarrow> nat \<Rightarrow> 'h \<Rightarrow> 'h res"
    and rem :: "(nat \<Rightarrow> int) \<Rightarrow> 'h \<Rightarrow> nat \<times> 'h"
  assumes is_in_iff: "ok h \<Longrightarrow> is_in h n \<longleftrightarrow> n \<in> elems h"
    and sorted_cong: "ok h \<Longrightarrow> sorted_by old h \<Longrightarrow> (\<And>m. m \<in> elems h \<Longrightarrow> key m = old m) \<Longrightarrow> sorted_by key h"
    and ins_law: "ok h \<Longrightarrow> n \<notin> elems h \<Longrightarrow>
      \<exists>h'. ins key n h = Inr h' \<and> ok h' \<and> elems h' = insert n (elems h) \<and> (sorted_by key h \<longrightarrow> sorted_by key h')"
    and dec_law: "ok h \<Longrightarrow> n \<in> elems h \<Longrightarrow>
      \<exists>h'. dec key n h = Inr h' \<and> ok h' \<and> elems h' = elems h \<and>
        (sorted_by old h \<and> key n \<le> old n \<and> (\<forall>m. m \<noteq> n \<longrightarrow> key m = old m) \<longrightarrow> sorted_by key h')"
    and rem_law: "ok h \<Longrightarrow> elems h \<noteq> {} \<Longrightarrow> rem key h = (x, h') \<Longrightarrow>
      ok h' \<and> x \<in> elems h \<and> elems h' = elems h - {x} \<and>
        (sorted_by key h \<longrightarrow> sorted_by key h' \<and> (\<forall>y \<in> elems h. key x \<le> key y))"
begin

lemma put_law:
  assumes "ok h"
  shows "\<exists>h'. (if is_in h n then dec key n h else ins key n h) = Inr h' \<and> ok h' \<and> elems h' = insert n (elems h) \<and>
    (sorted_by old h \<and> (n \<in> elems h \<longrightarrow> key n \<le> old n) \<and> (\<forall>m. m \<noteq> n \<longrightarrow> key m = old m) \<longrightarrow> sorted_by key h')"
proof (cases "n \<in> elems h")
  case True
  then show ?thesis using dec_law [OF assms True, of key old] assms by (auto simp: is_in_iff)
next
  case False
  have "sorted_by key h" if "sorted_by old h" "\<forall>m. m \<noteq> n \<longrightarrow> key m = old m"
    using that False by (intro sorted_cong [OF assms that(1)]) auto
  then show ?thesis using ins_law [OF assms False, of key] assms False by (auto simp: is_in_iff)
qed

end

lemma ordered_cong:
  assumes "heap_ok h" "heap_ordered old h" "\<And>m. m \<in> heap_elems h \<Longrightarrow> key m = old m"
  shows "heap_ordered key h"
  unfolding heap_ordered_def ordered_def edge_ordered_def
proof (intro allI impI)
  fix j assume j: "0 < j \<and> j < length (hp_heap h)"
  then have "hp_parent j < length (hp_heap h)" using parent_less [of j] by simp
  then show "key (hp_heap h ! hp_parent j) \<le> key (hp_heap h ! j)"
    using assms j by (simp add: heap_ordered_def ordered_def edge_ordered_def heap_elems_def)
qed

interpretation heap_queue: addressable_queue heap_ok heap_elems heap_ordered inHeap
  "\<lambda>key. heap_insert (key_lt key)" "\<lambda>key. heap_decrease (key_lt key)" "\<lambda>key. heap_removeMin (key_lt key)"
proof (unfold_locales, goal_cases)
  case (2 h old key)
  then show ?case by (rule ordered_cong)
next
  case (5 h key x h')
  then show ?case using heap_removeMin_ok [OF 5] by blast
qed (simp_all add: inHeap_iff heap_insert_ok heap_decrease_ok)

lemma heapProperty_above:
  assumes "ordered key (hp_heap h)"
  shows "heapProperty (key_lt key) h i"
  using assms
proof (induction "key_lt key" h i rule: heapProperty.induct)
  case (1 h i)
  show ?case
  proof (cases "i \<ge> length (hp_heap h)")
    case False
    then have "i = 0 \<or> \<not> key_lt key (hp_heap h ! i) (hp_heap h ! hp_parent i)"
      using 1(3) by (auto simp: ordered_def edge_ordered_def key_lt_def)
    then show ?thesis using 1 False by (subst heapProperty.simps) auto
  qed (subst heapProperty.simps, simp)
qed

lemma heapProperty_below:
  assumes "heapProperty lt h 0" "j < length (hp_heap h)"
  shows "heapProperty lt h j"
  using assms(2)
proof (induction j rule: less_induct)
  case (less j)
  show ?case
  proof (cases "j = 0")
    case False
    then have "heapProperty lt h (hp_parent j)" "hp_parent j < length (hp_heap h)" using less parent_less [of j] by simp_all
    then have "heapProperty lt h (hp_left (hp_parent j))" "heapProperty lt h (hp_right (hp_parent j))"
      using heapProperty.simps [of lt h "hp_parent j"] by simp_all
    then show ?thesis using parent_iff [of j "hp_parent j"] False by auto
  qed (use assms(1) in simp)
qed

lemma heapProperty_iff: "heapProperty (key_lt key) h 0 \<longleftrightarrow> heap_ordered key h"
proof
  assume p: "heapProperty (key_lt key) h 0"
  have "edge_ordered key (hp_heap h) j" if "0 < j" "j < length (hp_heap h)" for j
    using heapProperty_below [OF p that(2)] that heapProperty.simps [of "key_lt key" h j]
    by (simp add: edge_ordered_def key_lt_def)
  then show "heap_ordered key h" by (simp add: heap_ordered_def ordered_def)
qed (simp add: heap_ordered_def heapProperty_above)

section \<open>Properties\<close>

text \<open>
  C19. The heap is a priority queue under keys that decrease: starting from a consistent heap with
  the heap property, lowering the key of a vertex and moving it up, or inserting it when it is not
  queued, never fails an assertion and restores both; and \<^verbatim>\<open>removeMin\<close> then returns an element with
  the least key and removes exactly it.
\<close>

theorem heap_is_priority_queue:
  assumes "heap_ok h" "heapProperty (key_lt old) h 0" "k \<le> old n"
  shows "\<exists>h'. (if inHeap h n then heap_decrease (key_lt (old(n := k))) n h else heap_insert (key_lt (old(n := k))) n h) = Inr h' \<and>
    heap_ok h' \<and> heapProperty (key_lt (old(n := k))) h' 0 \<and> heap_elems h' = insert n (heap_elems h) \<and>
    (let (x, h'') = heap_removeMin (key_lt (old(n := k))) h' in
      heap_ok h'' \<and> heapProperty (key_lt (old(n := k))) h'' 0 \<and> x \<in> heap_elems h' \<and>
      heap_elems h'' = heap_elems h' - {x} \<and> (\<forall>y \<in> heap_elems h'. (old(n := k)) x \<le> (old(n := k)) y))"
proof -
  let ?key = "old(n := k)"
  obtain h' where h': "(if inHeap h n then heap_decrease (key_lt ?key) n h else heap_insert (key_lt ?key) n h) = Inr h'"
    "heap_ok h'" "heap_elems h' = insert n (heap_elems h)" "heap_ordered ?key h'"
    using heap_queue.put_law [OF assms(1), of n ?key old] assms(2,3) by (auto simp: heapProperty_iff)
  obtain x h'' where r: "heap_removeMin (key_lt ?key) h' = (x, h'')" by fastforce
  have "heap_elems h' \<noteq> {}" using h'(3) by simp
  from heap_queue.rem_law [OF h'(2) this r] h' r show ?thesis by (simp add: heapProperty_iff)
qed

theorem heap_is_priority_queue_witness:
  "\<exists>h'. (if inHeap heap_new 3 then heap_decrease (key_lt ((\<lambda>_. 0)(3 := - 1))) 3 heap_new
          else heap_insert (key_lt ((\<lambda>_. 0)(3 := - 1))) 3 heap_new) = Inr h' \<and>
    heap_ok h' \<and> heap_elems h' = {3}"
proof -
  have p: "heapProperty (key_lt (\<lambda>_. 0)) heap_new 0" by (simp add: heapProperty_iff)
  have "(- 1 :: int) \<le> 0" by simp
  from heap_is_priority_queue [OF heap_new_ok(1) p this, of 3]
  obtain h' where h': "(if inHeap heap_new 3 then heap_decrease (key_lt ((\<lambda>_. 0)(3 := - 1))) 3 heap_new
      else heap_insert (key_lt ((\<lambda>_. 0)(3 := - 1))) 3 heap_new) = Inr h'" "heap_ok h'" "heap_elems h' = insert 3 {}"
    unfolding heap_new_ok by blast
  then show ?thesis by blast
qed

end
