(* ===== verification/Crab_Graph_Ops.thy ===== *)
theory Crab_Graph_Ops
  imports Crab_Graph_Views Crab_Heap Run_Loops
begin

text \<open>
  The algorithms of \<^verbatim>\<open>GraphOps\<close> in \<^verbatim>\<open>crab_utils/graph_ops.hpp\<close> that keep a graph of difference bounds
  closed and its potentials valid. The scratch arrays, which are shared between calls only to save
  allocations and are initialised by every routine where it reads them, are functions from vertices
  here: a time stamp that is not current is the distance \<open>None\<close>. A loop over the heap is \<open>loop_run\<close>.
  Ranges that a loop iterates over while it changes other lists of the graph are taken before it.
\<close>

section \<open>Shortest paths\<close>

definition E_LEFT :: nat where "E_LEFT = 1"
definition E_RIGHT :: nat where "E_RIGHT = 2"
definition V_UNSTABLE :: nat where "V_UNSTABLE = 0"
definition V_STABLE :: nat where "V_STABLE = 1"
definition BF_NONE :: nat where "BF_NONE = 0"
definition BF_SCC :: nat where "BF_SCC = 1"
definition BF_QUEUED :: nat where "BF_QUEUED = 2"

type_synonym potential_fn = "vert_id \<Rightarrow> Weight"
type_synonym edge_vector = "(vert_id \<times> vert_id \<times> Weight) list"

record dijkstra =
  dj_dist :: "vert_id \<Rightarrow> Weight option"
  dj_mark :: "vert_id \<Rightarrow> nat"
  dj_heap :: heap_t

definition dists_of :: "(vert_id \<Rightarrow> Weight option) \<Rightarrow> vert_id \<Rightarrow> Weight" where
  "dists_of dist v = (case dist v of Some k \<Rightarrow> k | None \<Rightarrow> 0)"

definition dists_compare :: "(vert_id \<Rightarrow> Weight) \<Rightarrow> heap_lt" where
  "dists_compare dists = key_lt dists"

text \<open>The update of a queued or new vertex, common to the shortest-path loops.\<close>

definition heap_put :: "(vert_id \<Rightarrow> Weight) \<Rightarrow> vert_id \<Rightarrow> heap_t \<Rightarrow> heap_t res" where
  "heap_put dists v h = (if inHeap h v then heap_decrease (dists_compare dists) v h else heap_insert (dists_compare dists) v h)"

definition dijkstra_first :: "potential_fn \<Rightarrow> (vert_id \<Rightarrow> nat) \<Rightarrow> vert_id \<Rightarrow> dijkstra \<Rightarrow> vert_id \<times> Weight \<Rightarrow> dijkstra res" where
  "dijkstra_first p start_mark source st e =
    (let dest = fst e;
         st = st\<lparr>dj_dist := (dj_dist st)(dest := Some (p source + snd e - p dest)), dj_mark := (dj_mark st)(dest := start_mark dest)\<rparr> in
     bindE (heap_insert (dists_compare (dists_of (dj_dist st))) dest (dj_heap st)) (\<lambda>h. Inr (st\<lparr>dj_heap := h\<rparr>)))"

definition dijkstra_start :: "graph_view \<Rightarrow> potential_fn \<Rightarrow> (vert_id \<Rightarrow> nat) \<Rightarrow> vert_id \<Rightarrow> dijkstra res" where
  "dijkstra_start g p start_mark source =
    foldE (dijkstra_first p start_mark source)
      \<lparr>dj_dist = [source \<mapsto> 0], dj_mark = (\<lambda>_. 0), dj_heap = heap_new\<rparr> (gv_e_succs g source)"

definition dijkstra_relax :: "Weight \<Rightarrow> nat \<Rightarrow> vert_id \<Rightarrow> dijkstra \<Rightarrow> dijkstra res" where
  "dijkstra_relax v mark ed st =
    (if dj_dist st ed = None \<or> v < the (dj_dist st ed) then
       let st = st\<lparr>dj_dist := (dj_dist st)(ed := Some v), dj_mark := (dj_mark st)(ed := mark)\<rparr> in
       bindE (heap_put (dists_of (dj_dist st)) ed (dj_heap st)) (\<lambda>h. Inr (st\<lparr>dj_heap := h\<rparr>))
     else if v = the (dj_dist st ed) then Inr (st\<lparr>dj_mark := (dj_mark st)(ed := dj_mark st ed OR mark)\<rparr>)
     else Inr st)"

text \<open>
  One round: the nearest vertex, a new edge when its distance improves on the edge from the source,
  and its successors with their marks, as the caller chooses them.
\<close>

definition dijkstra_round ::
    "graph_view \<Rightarrow> potential_fn \<Rightarrow> vert_id \<Rightarrow> (vert_id \<Rightarrow> nat \<Rightarrow> (vert_id \<times> Weight \<times> nat) list) \<Rightarrow>
     dijkstra \<times> (vert_id \<times> Weight) list \<Rightarrow> (dijkstra \<times> (vert_id \<times> Weight) list + (vert_id \<times> Weight) list) run" where
  "dijkstra_round g p source expand = (\<lambda>(st, out).
    if heap_empty (dj_heap st) then Some (Inr (Inr out))
    else
      let (es, h) = heap_removeMin (dists_compare (dists_of (dj_dist st))) (dj_heap st);
          es_cost = dists_of (dj_dist st) es + p es;
          es_val = es_cost - p source;
          out = (case gv_lookup g source es of
                   None \<Rightarrow> out @ [(es, es_val)]
                 | Some w \<Rightarrow> if w > es_val then out @ [(es, es_val)] else out)
      in lift_res (bindE
           (foldE (\<lambda>st (ed, val, mark). dijkstra_relax (es_cost + val - p ed) mark ed st) (st\<lparr>dj_heap := h\<rparr>)
             (expand es (dj_mark st es)))
           (\<lambda>st. Inr (Inl (st, out)))))"

definition chrome_dijkstra ::
    "graph_view \<Rightarrow> potential_fn \<Rightarrow> (nat \<Rightarrow> vert_id list) \<Rightarrow> (vert_id \<Rightarrow> vert_id \<Rightarrow> nat) \<Rightarrow> vert_id \<Rightarrow> (vert_id \<times> Weight) list run" where
  "chrome_dijkstra g p colour_succs edge_marks source =
    (if gv_size g = 0 then Some (Inr [])
     else bindR (lift_res (dijkstra_start g p (edge_marks source) source)) (\<lambda>st.
       loop_run (dijkstra_round g p source (\<lambda>es mark.
           if mark = E_LEFT OR E_RIGHT then []
           else map (\<lambda>ed. (ed, gv_edge_val g es ed, edge_marks es ed))
             (if mark = E_LEFT then colour_succs (2 * es + 1) else colour_succs (2 * es)))) (st, [])))"

definition edge_mark :: "graph_view \<Rightarrow> graph_view \<Rightarrow> vert_id \<times> vert_id \<times> Weight \<Rightarrow> nat" where
  "edge_mark l r = (\<lambda>(s, d, w). (if gv_lookup l s d = Some w then E_LEFT else 0) OR (if gv_lookup r s d = Some w then E_RIGHT else 0))"

text \<open>The successor lists by colour: index \<open>2 * s\<close> for edges of the left graph only, \<open>2 * s + 1\<close> for the right.\<close>

definition partition_edges ::
    "graph_view \<Rightarrow> graph_view \<Rightarrow> graph_view \<Rightarrow> ((nat \<Rightarrow> vert_id list) \<times> (vert_id \<Rightarrow> vert_id \<Rightarrow> nat)) res" where
  "partition_edges g l r =
    foldE (\<lambda>(succs, marks) (s, d, w).
        let mark = edge_mark l r (s, d, w) in
        if mark = 0 then Inl AssertionFailure
        else Inr (if mark = E_LEFT then succs(2 * s := succs (2 * s) @ [d])
                  else if mark = E_RIGHT then succs(2 * s + 1 := succs (2 * s + 1) @ [d]) else succs,
                  (\<lambda>a b. if a = s \<and> b = d then mark else marks a b)))
      (\<lambda>_. [], \<lambda>_ _. 0) (view_edges g)"

definition close_after_meet :: "graph_view \<Rightarrow> potential_fn \<Rightarrow> graph_view \<Rightarrow> graph_view \<Rightarrow> edge_vector run" where
  "close_after_meet g pots l r =
    (if gv_size l \<noteq> gv_size r then Some (Inl AssertionFailure)
     else bindR (lift_res (partition_edges g l r)) (\<lambda>(colour_succs, edge_marks).
       foldR (\<lambda>delta v. bindR (chrome_dijkstra g pots colour_succs edge_marks v)
           (\<lambda>adjs. Some (Inr (delta @ map (\<lambda>(d, w). (v, d, w)) adjs)))) [] (gv_verts g)))"

definition dijkstra_recover :: "graph_view \<Rightarrow> potential_fn \<Rightarrow> (vert_id \<Rightarrow> bool) \<Rightarrow> vert_id \<Rightarrow> edge_vector \<Rightarrow> edge_vector run" where
  "dijkstra_recover g p is_stable source delta =
    (if gv_size g = 0 \<or> is_stable source then Some (Inr delta)
     else bindR (lift_res (dijkstra_start g p (\<lambda>_. V_UNSTABLE) source)) (\<lambda>st.
       bindR (loop_run (dijkstra_round g p source (\<lambda>es mark.
           if mark = V_STABLE then []
           else map (\<lambda>(ed, val). (ed, val, if is_stable es then V_STABLE else V_UNSTABLE)) (gv_e_succs g es))) (st, []))
         (\<lambda>out. Some (Inr (delta @ map (\<lambda>(d, w). (source, d, w)) out)))))"

definition close_after_widen :: "graph_view \<Rightarrow> potential_fn \<Rightarrow> (vert_id \<Rightarrow> bool) \<Rightarrow> edge_vector run" where
  "close_after_widen g p is_stable =
    foldR (\<lambda>delta v. if \<not> is_stable v then dijkstra_recover g p is_stable v delta else Some (Inr delta)) [] (gv_verts g)"

section \<open>Repairing potentials\<close>

record repair =
  rp_dists :: "vert_id \<Rightarrow> Weight"
  rp_dists_alt :: "vert_id \<Rightarrow> Weight"
  rp_heap :: heap_t

definition repair_relax :: "Weight list \<Rightarrow> vert_id \<Rightarrow> repair \<Rightarrow> vert_id \<times> Weight \<Rightarrow> repair res" where
  "repair_relax p es st = (\<lambda>(ed, val).
    if rp_dists_alt st ed = p ! ed then
      let gnext_ed = rp_dists_alt st es + val - rp_dists_alt st ed in
      if gnext_ed < rp_dists st ed then
        let st = st\<lparr>rp_dists := (rp_dists st)(ed := gnext_ed)\<rparr> in
        bindE (heap_put (rp_dists st) ed (rp_heap st)) (\<lambda>h. Inr (st\<lparr>rp_heap := h\<rparr>))
      else Inr st
    else Inr st)"

definition repair_round :: "graph_view \<Rightarrow> Weight list \<Rightarrow> repair \<Rightarrow> (repair + repair) run" where
  "repair_round g p st =
    (if heap_empty (rp_heap st) then Some (Inr (Inr st))
     else
       let (es, h) = heap_removeMin (dists_compare (rp_dists st)) (rp_heap st);
           st = st\<lparr>rp_heap := h, rp_dists_alt := (rp_dists_alt st)(es := p ! es + rp_dists st es)\<rparr>
       in lift_res (bindE (foldE (repair_relax p es) st (gv_e_succs g es)) (\<lambda>st. Inr (Inl st))))"

text \<open>The result is \<open>None\<close> for \<^verbatim>\<open>false\<close>, which leaves the potentials as they were.\<close>

definition repair_potential :: "graph_view \<Rightarrow> Weight list \<Rightarrow> vert_id \<Rightarrow> vert_id \<Rightarrow> Weight list option run" where
  "repair_potential g p ii jj =
    (let dists = (\<lambda>_. 0)(jj := p ! ii + gv_edge_val g ii jj - p ! jj) in
     if dists jj \<ge> 0 then Some (Inr (Some p))
     else
       bindR (lift_res (heap_insert (dists_compare dists) jj heap_new)) (\<lambda>h.
       bindR (loop_run (repair_round g p) \<lparr>rp_dists = dists, rp_dists_alt = (\<lambda>v. p ! v), rp_heap = h\<rparr>) (\<lambda>st.
         Some (Inr (if rp_dists st ii < 0 then None
                    else Some (fold (\<lambda>v p. p[v := rp_dists_alt st v]) (gv_verts g) p))))))"

section \<open>Closing over one vertex or edge\<close>

record assign_queue =
  aq_dists :: "vert_id \<Rightarrow> Weight"
  aq_mark :: "vert_id \<Rightarrow> nat"
  aq_reach :: "vert_id list"

definition assign_relax :: "vert_id \<times> Weight \<Rightarrow> Weight \<Rightarrow> assign_queue \<Rightarrow> assign_queue" where
  "assign_relax edge d_wt st =
    (let e = fst edge; e_wt = d_wt + snd edge in
     if aq_mark st e = 0 then st\<lparr>aq_dists := (aq_dists st)(e := e_wt), aq_mark := (aq_mark st)(e := BF_QUEUED), aq_reach := aq_reach st @ [e]\<rparr>
     else st\<lparr>aq_dists := (aq_dists st)(e := min e_wt (aq_dists st e))\<rparr>)"

definition assign_visit :: "graph_view \<Rightarrow> vert_id \<Rightarrow> assign_queue \<Rightarrow> assign_queue" where
  "assign_visit g d st = (let d_wt = aq_dists st d in fold (\<lambda>edge. assign_relax edge d_wt) (gv_e_succs g d) st)"

text \<open>\<^verbatim>\<open>std::sort\<close> leaves the order of equal elements open; the stable sort stands for it.\<close>

definition close_after_assign_fwd :: "graph_view \<Rightarrow> potential_fn \<Rightarrow> vert_id \<Rightarrow> (vert_id \<times> Weight) list" where
  "close_after_assign_fwd g p v =
    (let dists = fold (\<lambda>(d, val) dists. dists(d := val)) (gv_e_succs g v) ((\<lambda>_. 0)(v := 0));
         mark = fold (\<lambda>(d, val) mark. mark(d := BF_QUEUED)) (gv_e_succs g v) ((\<lambda>_. 0)(v := BF_QUEUED));
         adj = sort_key (\<lambda>d. dists d - p d) (map fst (gv_e_succs g v));
         st = fold (assign_visit g) adj \<lparr>aq_dists = dists, aq_mark = mark, aq_reach = []\<rparr>
     in map (\<lambda>d. (d, aq_dists st d)) (adj @ aq_reach st))"

definition close_after_assign :: "graph_view \<Rightarrow> potential_fn \<Rightarrow> vert_id \<Rightarrow> edge_vector" where
  "close_after_assign g p v =
    map (\<lambda>(vid, wt). (v, vid, wt)) (close_after_assign_fwd g p v) @
    map (\<lambda>(vid, wt). (vid, v, wt)) (close_after_assign_fwd (graph_rev g) (\<lambda>v. - p v) v)"

text \<open>\<open>improve\<close> stores a bound when there is none or a weaker one, and tells whether it did.\<close>

definition improve :: "vert_id \<Rightarrow> Weight \<Rightarrow> vert_id \<Rightarrow> adapt_graph \<Rightarrow> adapt_graph \<times> bool" where
  "improve s w d g = (case graph_lookup g s d of
      None \<Rightarrow> (add_edge s w d g, True)
    | Some w0 \<Rightarrow> if w0 \<le> w then (g, False) else (put_weight s w d g, True))"

text \<open>
  \<open>improve_all\<close> is the loop over the sources of the edge, or over its destinations: it improves
  the bound that goes through the edge of weight \<open>c\<close> and collects the vertices for which it did.
\<close>

fun improve_all :: "(vert_id \<Rightarrow> vert_id \<times> vert_id) \<Rightarrow> vert_id \<Rightarrow> Weight \<Rightarrow> (vert_id \<times> Weight) list \<Rightarrow>
    adapt_graph \<times> (vert_id \<times> Weight) list \<Rightarrow> adapt_graph \<times> (vert_id \<times> Weight) list" where
  "improve_all f skip c [] st = st"
| "improve_all f skip c ((v, val) # es) (g, dec) =
    (if v = skip then improve_all f skip c es (g, dec)
     else let (g, new) = improve (fst (f v)) (val + c) (snd (f v)) g in
       improve_all f skip c es (g, if new then dec @ [(v, val)] else dec))"

definition improve_pairs :: "Weight \<Rightarrow> (vert_id \<times> Weight) list \<Rightarrow> (vert_id \<times> Weight) list \<Rightarrow> adapt_graph \<Rightarrow> adapt_graph" where
  "improve_pairs c src_dec dest_dec g =
    fold (\<lambda>(se, p1) g. fold (\<lambda>(de, p2) g. fst (improve se (c + p1 + p2) de g)) dest_dec g) src_dec g"

definition close_over_edge :: "adapt_graph \<Rightarrow> vert_id \<Rightarrow> vert_id \<Rightarrow> adapt_graph res" where
  "close_over_edge g ii jj =
    (if ii = 0 \<or> jj = 0 then Inl AssertionFailure
     else
       let c = graph_edge_val g ii jj in
       case improve_all (\<lambda>se. (se, jj)) jj c (gv_e_preds (sub_graph (whole g) 0) ii) (g, []) of (g, src_dec) \<Rightarrow>
       case improve_all (\<lambda>de. (ii, de)) ii c (gv_e_succs (sub_graph (whole g) 0) jj) (g, []) of (g, dest_dec) \<Rightarrow>
         Inr (improve_pairs c src_dec dest_dec g))"

section \<open>Selecting potentials\<close>

record scc_state =
  sc_mark :: "vert_id \<Rightarrow> nat"
  sc_low :: "vert_id \<Rightarrow> nat"
  sc_stack :: "vert_id list"
  sc_index :: nat
  sc_sccs :: "vert_id list list"

definition sc_enter :: "vert_id \<Rightarrow> scc_state \<Rightarrow> scc_state" where
  "sc_enter v st = st\<lparr>sc_mark := (sc_mark st)(v := 2 * sc_index st + 1), sc_low := (sc_low st)(v := sc_index st),
     sc_index := sc_index st + 1, sc_stack := sc_stack st @ [v]\<rparr>"

text \<open>The loop that pops a component off the stack, whose top is the end of the list.\<close>

definition sc_pop :: "vert_id \<Rightarrow> scc_state \<Rightarrow> scc_state" where
  "sc_pop v st =
    (let scc = takeWhile (\<lambda>w. w \<noteq> v) (rev (sc_stack st)) @ [v] in
     st\<lparr>sc_stack := take (length (sc_stack st) - length scc) (sc_stack st),
        sc_mark := fold (\<lambda>w mark. mark(w := mark w - mark w mod 2)) scc (sc_mark st), sc_sccs := sc_sccs st @ [scc]\<rparr>)"

definition sc_leave :: "vert_id \<Rightarrow> scc_state \<Rightarrow> scc_state" where
  "sc_leave v st = (if sc_low st v = sc_mark st v div 2 then sc_pop v st else st)"

definition sc_min_low :: "vert_id \<Rightarrow> nat \<Rightarrow> scc_state \<Rightarrow> scc_state" where
  "sc_min_low v k st = st\<lparr>sc_low := (sc_low st)(v := min (sc_low st v) k)\<rparr>"

text \<open>The recursive search, with the successors of \<open>v\<close> that are left as an argument.\<close>

partial_function (option) sc_visit :: "graph_view \<Rightarrow> vert_id \<Rightarrow> vert_id list \<Rightarrow> scc_state \<Rightarrow> scc_state option" where
  "sc_visit x v ws st = (case ws of
      [] \<Rightarrow> Some (sc_leave v st)
    | w # ws' \<Rightarrow>
        if sc_mark st w = 0 then
          Option.bind (sc_visit x w (gv_succs x w) (sc_enter w st)) (\<lambda>st. sc_visit x v ws' (sc_min_low v (sc_low st w) st))
        else if sc_mark st w mod 2 = 1 then sc_visit x v ws' (sc_min_low v (sc_mark st w div 2) st)
        else sc_visit x v ws' st)"

declare sc_visit.simps [code]

definition strong_connect :: "graph_view \<Rightarrow> vert_id \<Rightarrow> scc_state \<Rightarrow> scc_state option" where
  "strong_connect x v st = sc_visit x v (gv_succs x v) (sc_enter v st)"

primrec scc_roots :: "graph_view \<Rightarrow> vert_id list \<Rightarrow> scc_state \<Rightarrow> scc_state option" where
  "scc_roots x [] st = Some st"
| "scc_roots x (v # vs) st =
    (if sc_mark st v = 0
     then Option.bind (strong_connect x v (st\<lparr>sc_stack := [], sc_index := 1\<rparr>)) (scc_roots x vs)
     else scc_roots x vs st)"

definition compute_sccs :: "graph_view \<Rightarrow> vert_id list list option" where
  "compute_sccs x = map_option sc_sccs (scc_roots x (gv_verts x)
     \<lparr>sc_mark = (\<lambda>_. 0), sc_low = (\<lambda>_. 0), sc_stack = [], sc_index = 1, sc_sccs = []\<rparr>)"

record bellman =
  bf_pot :: "Weight list"
  bf_mark :: "vert_id \<Rightarrow> nat"
  bf_next :: "vert_id list"

definition bf_relax :: "graph_view \<Rightarrow> vert_id \<Rightarrow> bellman \<Rightarrow> bellman" where
  "bf_relax g s st =
    (let st = st\<lparr>bf_mark := (bf_mark st)(s := BF_SCC)\<rparr>; s_pot = bf_pot st ! s in
     fold (\<lambda>(d, val) st.
        if s_pot + val < bf_pot st ! d then
          let st = st\<lparr>bf_pot := (bf_pot st)[d := s_pot + val]\<rparr> in
          if bf_mark st d = BF_SCC then st\<lparr>bf_next := bf_next st @ [d], bf_mark := (bf_mark st)(d := BF_SCC + BF_QUEUED)\<rparr> else st
        else st) (gv_e_succs g s) st)"

text \<open>
  The rounds over one component: the queue is emptied from its end, the vertices that change
  form the queue of the next round. The rounds are counted by the elements of the component.
\<close>

fun bf_rounds :: "graph_view \<Rightarrow> vert_id list \<Rightarrow> vert_id list \<times> bellman \<Rightarrow> vert_id list \<times> bellman" where
  "bf_rounds g [] (q, st) = (q, st)"
| "bf_rounds g (_ # vs) (q, st) =
    (let st = fold (bf_relax g) (rev q) st; q = bf_next st; st = st\<lparr>bf_next := []\<rparr> in
     if q = [] then (q, st) else bf_rounds g vs (q, st))"

definition bf_feasible :: "graph_view \<Rightarrow> vert_id list \<Rightarrow> bellman \<Rightarrow> bool" where
  "bf_feasible g q st = list_all (\<lambda>s. list_all (\<lambda>(d, val). \<not> bf_pot st ! s + val < bf_pot st ! d) (gv_e_succs g s)) q"

fun bf_sccs :: "graph_view \<Rightarrow> vert_id list list \<Rightarrow> bellman \<Rightarrow> bellman option" where
  "bf_sccs g [] st = Some st"
| "bf_sccs g (scc # sccs) st =
    (let st = st\<lparr>bf_mark := fold (\<lambda>v mark. mark(v := BF_SCC + BF_QUEUED)) scc (bf_mark st), bf_next := []\<rparr>;
         (q, st) = bf_rounds g scc (scc, st) in
     if bf_feasible g q st then bf_sccs g sccs st else None)"

definition select_potentials :: "graph_view \<Rightarrow> Weight list \<Rightarrow> Weight list option run" where
  "select_potentials g potentials =
    (if \<not> length potentials \<ge> gv_size g then Some (Inl AssertionFailure)
     else Option.bind (compute_sccs g) (\<lambda>sccs.
       Some (Inr (map_option bf_pot (bf_sccs g sccs \<lparr>bf_pot = potentials, bf_mark = (\<lambda>_. BF_NONE), bf_next = []\<rparr>)))))"

end
