(* ===== verification/Crab_Variable.thy ===== *)
theory Crab_Variable
  imports Crab_Number Std_Containers Ebpf_Syntax "HOL-Library.Sublist"
begin

text \<open>
  The variables of the abstract domains: \<^verbatim>\<open>crab/variable.hpp\<close>, \<^verbatim>\<open>crab/var_factory.cpp\<close>, the enumerations
  of \<^verbatim>\<open>crab/type_encoding.hpp\<close> and their names in \<^verbatim>\<open>crab/type_domain.cpp\<close>. A variable is an index into
  a registry of names that is local to the thread and only grows; here the registry is an
  argument, and a factory function returns it extended.
\<close>

section \<open>Kinds and types\<close>

datatype data_kind_t = types | svalues | uvalues | ctx_offsets | map_fds | packet_offsets | shared_offsets |
  stack_offsets | shared_region_sizes | stack_numeric_sizes

definition all_kinds :: "data_kind_t list" where
  "all_kinds = [types, svalues, uvalues, ctx_offsets, map_fds, packet_offsets, shared_offsets,
     stack_offsets, shared_region_sizes, stack_numeric_sizes]"

definition kind_index :: "data_kind_t \<Rightarrow> nat" where
  "kind_index k = length (takeWhile (\<lambda>k'. k' \<noteq> k) all_kinds)"

definition KIND_MIN :: data_kind_t where "KIND_MIN = types"
definition KIND_MAX :: data_kind_t where "KIND_MAX = stack_numeric_sizes"

type_synonym type_encoding_t = int

definition T_UNINIT :: type_encoding_t where "T_UNINIT = - 7"
definition T_MAP_PROGRAMS :: type_encoding_t where "T_MAP_PROGRAMS = - 6"
definition T_MAP :: type_encoding_t where "T_MAP = - 5"
definition T_NUM :: type_encoding_t where "T_NUM = - 4"
definition T_CTX :: type_encoding_t where "T_CTX = - 3"
definition T_PACKET :: type_encoding_t where "T_PACKET = - 2"
definition T_STACK :: type_encoding_t where "T_STACK = - 1"
definition T_SHARED :: type_encoding_t where "T_SHARED = 0"
definition T_MIN :: type_encoding_t where "T_MIN = T_UNINIT"
definition T_MAX :: type_encoding_t where "T_MAX = T_SHARED"

lemmas type_encoding_defs = T_UNINIT_def T_MAP_PROGRAMS_def T_MAP_def T_NUM_def T_CTX_def T_PACKET_def
  T_STACK_def T_SHARED_def T_MIN_def T_MAX_def

definition name_of :: "data_kind_t \<Rightarrow> string" where
  "name_of kind = (case kind of
      ctx_offsets \<Rightarrow> ''ctx_offset'' | map_fds \<Rightarrow> ''map_fd'' | packet_offsets \<Rightarrow> ''packet_offset''
    | shared_offsets \<Rightarrow> ''shared_offset'' | shared_region_sizes \<Rightarrow> ''shared_region_size''
    | stack_numeric_sizes \<Rightarrow> ''stack_numeric_size'' | stack_offsets \<Rightarrow> ''stack_offset''
    | svalues \<Rightarrow> ''svalue'' | types \<Rightarrow> ''type'' | uvalues \<Rightarrow> ''uvalue'')"

definition regkind :: "string \<Rightarrow> data_kind_t res" where
  "regkind s = opt_to_res (RuntimeError (''Bad kind: '' @ s)) (map_of
    [(''type'', types), (''ctx_offset'', ctx_offsets), (''map_fd'', map_fds), (''packet_offset'', packet_offsets),
     (''shared_offset'', shared_offsets), (''stack_offset'', stack_offsets),
     (''shared_region_size'', shared_region_sizes), (''stack_numeric_size'', stack_numeric_sizes),
     (''svalue'', svalues), (''uvalue'', uvalues)] s)"

definition iterate_kinds :: "data_kind_t \<Rightarrow> data_kind_t \<Rightarrow> data_kind_t list res" where
  "iterate_kinds lb ub =
    (if kind_index lb > kind_index ub then
       Inl (RuntimeError (''lower bound '' @ name_of lb @ '' is greater than upper bound '' @ name_of ub))
     else if kind_index lb < kind_index KIND_MIN \<or> kind_index ub > kind_index KIND_MAX then
       Inl (RuntimeError (''bounds '' @ name_of lb @ '' and '' @ name_of ub @ '' are out of range''))
     else Inr (filter (\<lambda>k. kind_index lb \<le> kind_index k \<and> kind_index k \<le> kind_index ub) all_kinds))"

definition type_to_string :: "type_encoding_t \<Rightarrow> string res" where
  "type_to_string s =
    (if s = T_SHARED then Inr ''shared'' else if s = T_STACK then Inr ''stack''
     else if s = T_PACKET then Inr ''packet'' else if s = T_CTX then Inr ''ctx''
     else if s = T_NUM then Inr ''number'' else if s = T_MAP then Inr ''map_fd''
     else if s = T_MAP_PROGRAMS then Inr ''map_fd_programs'' else if s = T_UNINIT then Inr ''uninit''
     else Inl (RuntimeError ''Unsupported type encoding''))"

definition string_to_type_encoding :: "string \<Rightarrow> type_encoding_t res" where
  "string_to_type_encoding s = opt_to_res (RuntimeError (''Unsupported type name: '' @ s)) (map_of
    [(''uninit'', T_UNINIT), (''map_fd_programs'', T_MAP_PROGRAMS), (''map_fd'', T_MAP), (''number'', T_NUM),
     (''ctx'', T_CTX), (''stack'', T_STACK), (''packet'', T_PACKET), (''shared'', T_SHARED)] s)"

text \<open>The bounds in the messages print as types, which throws the message of the printer first.\<close>

definition iterate_types :: "type_encoding_t \<Rightarrow> type_encoding_t \<Rightarrow> type_encoding_t list res" where
  "iterate_types lb ub =
    (if lb > ub then bindE (type_to_string lb) (\<lambda>l. bindE (type_to_string ub) (\<lambda>u.
       Inl (RuntimeError (''lower bound '' @ l @ '' is greater than upper bound '' @ u))))
     else if lb < T_MIN \<or> ub > T_MAX then bindE (type_to_string lb) (\<lambda>l. bindE (type_to_string ub) (\<lambda>u.
       Inl (RuntimeError (''bounds '' @ l @ '' and '' @ u @ '' are out of range''))))
     else Inr [lb..ub])"

fun foldE_map :: "('a \<Rightarrow> 'b res) \<Rightarrow> 'a list \<Rightarrow> 'b list res" where
  "foldE_map f [] = Inr []"
| "foldE_map f (x # xs) = bindE (f x) (\<lambda>y. bindE (foldE_map f xs) (\<lambda>ys. Inr (y # ys)))"

fun comma_join :: "string list \<Rightarrow> string" where
  "comma_join [] = []"
| "comma_join [s] = s"
| "comma_join (s # ss) = s @ '', '' @ comma_join ss"

definition typeset_to_string :: "type_encoding_t list \<Rightarrow> string res" where
  "typeset_to_string items = bindE (foldE_map type_to_string items) (\<lambda>ss. Inr (''{'' @ comma_join ss @ ''}''))"

section \<open>The registry\<close>

type_synonym variable_t = nat
type_synonym names = "string list"

definition default_variable_names :: names where
  "default_variable_names = [
    ''r0.svalue'', ''r0.uvalue'', ''r0.ctx_offset'', ''r0.map_fd'', ''r0.packet_offset'',
    ''r0.shared_offset'', ''r0.stack_offset'', ''r0.type'', ''r0.shared_region_size'', ''r0.stack_numeric_size'',
    ''r1.svalue'', ''r1.uvalue'', ''r1.ctx_offset'', ''r1.map_fd'', ''r1.packet_offset'',
    ''r1.shared_offset'', ''r1.stack_offset'', ''r1.type'', ''r1.shared_region_size'', ''r1.stack_numeric_size'',
    ''r2.svalue'', ''r2.uvalue'', ''r2.ctx_offset'', ''r2.map_fd'', ''r2.packet_offset'',
    ''r2.shared_offset'', ''r2.stack_offset'', ''r2.type'', ''r2.shared_region_size'', ''r2.stack_numeric_size'',
    ''r3.svalue'', ''r3.uvalue'', ''r3.ctx_offset'', ''r3.map_fd'', ''r3.packet_offset'',
    ''r3.shared_offset'', ''r3.stack_offset'', ''r3.type'', ''r3.shared_region_size'', ''r3.stack_numeric_size'',
    ''r4.svalue'', ''r4.uvalue'', ''r4.ctx_offset'', ''r4.map_fd'', ''r4.packet_offset'',
    ''r4.shared_offset'', ''r4.stack_offset'', ''r4.type'', ''r4.shared_region_size'', ''r4.stack_numeric_size'',
    ''r5.svalue'', ''r5.uvalue'', ''r5.ctx_offset'', ''r5.map_fd'', ''r5.packet_offset'',
    ''r5.shared_offset'', ''r5.stack_offset'', ''r5.type'', ''r5.shared_region_size'', ''r5.stack_numeric_size'',
    ''r6.svalue'', ''r6.uvalue'', ''r6.ctx_offset'', ''r6.map_fd'', ''r6.packet_offset'',
    ''r6.shared_offset'', ''r6.stack_offset'', ''r6.type'', ''r6.shared_region_size'', ''r6.stack_numeric_size'',
    ''r7.svalue'', ''r7.uvalue'', ''r7.ctx_offset'', ''r7.map_fd'', ''r7.packet_offset'',
    ''r7.shared_offset'', ''r7.stack_offset'', ''r7.type'', ''r7.shared_region_size'', ''r7.stack_numeric_size'',
    ''r8.svalue'', ''r8.uvalue'', ''r8.ctx_offset'', ''r8.map_fd'', ''r8.packet_offset'',
    ''r8.shared_offset'', ''r8.stack_offset'', ''r8.type'', ''r8.shared_region_size'', ''r8.stack_numeric_size'',
    ''r9.svalue'', ''r9.uvalue'', ''r9.ctx_offset'', ''r9.map_fd'', ''r9.packet_offset'',
    ''r9.shared_offset'', ''r9.stack_offset'', ''r9.type'', ''r9.shared_region_size'', ''r9.stack_numeric_size'',
    ''r10.svalue'', ''r10.uvalue'', ''r10.ctx_offset'', ''r10.map_fd'', ''r10.packet_offset'',
    ''r10.shared_offset'', ''r10.stack_offset'', ''r10.type'', ''r10.shared_region_size'', ''r10.stack_numeric_size'',
    ''data_size'', ''meta_size'']"

definition var_make :: "string \<Rightarrow> names \<Rightarrow> variable_t \<times> names" where
  "var_make n ns =
    (if n \<notin> set ns then (length ns, ns @ [n]) else (length (takeWhile (\<lambda>n'. n' \<noteq> n) ns), ns))"

definition var_name :: "names \<Rightarrow> variable_t \<Rightarrow> string res" where
  "var_name ns v = (if v < length ns then Inr (ns ! v) else Inl OutOfRange)"

text \<open>\<open>str_contains\<close> is \<^verbatim>\<open>find(sub) != npos\<close>.\<close>

fun str_contains :: "string \<Rightarrow> string \<Rightarrow> bool" where
  "str_contains [] sub = prefix sub []"
| "str_contains (c # s) sub = (prefix sub (c # s) \<or> str_contains s sub)"

definition is_type :: "names \<Rightarrow> variable_t \<Rightarrow> bool res" where
  "is_type ns v = bindE (var_name ns v) (\<lambda>n. Inr (str_contains n ''.type''))"

definition is_unsigned :: "names \<Rightarrow> variable_t \<Rightarrow> bool res" where
  "is_unsigned ns v = bindE (var_name ns v) (\<lambda>n. Inr (str_contains n ''.uvalue''))"

definition var_reg :: "data_kind_t \<Rightarrow> int \<Rightarrow> names \<Rightarrow> variable_t \<times> names" where
  "var_reg kind i ns = var_make (''r'' @ int_to_string i @ ''.'' @ name_of kind) ns"

definition mk_scalar_name :: "data_kind_t \<Rightarrow> number_t \<Rightarrow> number_t \<Rightarrow> string" where
  "mk_scalar_name kind off sz =
    ''s['' @ int_to_string off @ (if sz \<noteq> 1 then ''...'' @ int_to_string (off + sz - 1) else []) @
    ''].'' @ name_of kind"

definition stack_frame_var :: "data_kind_t \<Rightarrow> int \<Rightarrow> string \<Rightarrow> names \<Rightarrow> variable_t \<times> names" where
  "stack_frame_var kind i pfx ns =
    var_make (pfx @ [STACK_FRAME_DELIMITER] @ ''r'' @ int_to_string i @ ''.'' @ name_of kind) ns"

definition cell_var :: "data_kind_t \<Rightarrow> number_t \<Rightarrow> number_t \<Rightarrow> names \<Rightarrow> (variable_t \<times> names) res" where
  "cell_var arr off sz ns = bindE (cast_to uint64_t off) (\<lambda>o'. Inr (var_make (mk_scalar_name arr o' sz) ns))"

text \<open>\<open>upto_last_dot\<close> is \<^verbatim>\<open>name.substr(0, name.rfind('.') + 1)\<close>, empty when there is no dot.\<close>

definition upto_last_dot :: "string \<Rightarrow> string" where
  "upto_last_dot s = rev (dropWhile (\<lambda>c. c \<noteq> CHR ''.'') (rev s))"

definition kind_var :: "data_kind_t \<Rightarrow> variable_t \<Rightarrow> names \<Rightarrow> (variable_t \<times> names) res" where
  "kind_var kind type_variable ns =
    bindE (var_name ns type_variable) (\<lambda>n. Inr (var_make (upto_last_dot n @ name_of kind) ns))"

definition meta_offset :: "names \<Rightarrow> variable_t \<times> names" where
  "meta_offset ns = var_make ''meta_offset'' ns"

definition packet_size :: "names \<Rightarrow> variable_t \<times> names" where
  "packet_size ns = var_make ''packet_size'' ns"

definition loop_counter :: "string \<Rightarrow> names \<Rightarrow> variable_t \<times> names" where
  "loop_counter l ns = var_make (''pc['' @ l @ '']'') ns"

definition ends_with :: "string \<Rightarrow> string \<Rightarrow> bool" where
  "ends_with str sfx = (length str \<ge> length sfx \<and> drop (length str - length sfx) str = sfx)"

definition get_type_variables :: "names \<Rightarrow> variable_t list" where
  "get_type_variables ns = map (\<lambda>n. fst (var_make n ns)) (filter (\<lambda>n. ends_with n ''.type'') ns)"

definition is_in_stack :: "names \<Rightarrow> variable_t \<Rightarrow> bool res" where
  "is_in_stack ns v = bindE (var_name ns v) (\<lambda>n. Inr (n \<noteq> [] \<and> hd n = CHR ''s''))"

definition printing_order :: "names \<Rightarrow> variable_t \<Rightarrow> variable_t \<Rightarrow> bool res" where
  "printing_order ns a b = bindE (var_name ns a) (\<lambda>m. bindE (var_name ns b) (\<lambda>n. Inr (m < n)))"

definition get_loop_counters :: "names \<Rightarrow> variable_t list" where
  "get_loop_counters ns = map (\<lambda>n. fst (var_make n ns)) (filter (\<lambda>n. prefix ''pc'' n) ns)"

record reg_pack_t =
  rp_svalue :: variable_t
  rp_uvalue :: variable_t
  rp_ctx_offset :: variable_t
  rp_map_fd :: variable_t
  rp_packet_offset :: variable_t
  rp_shared_offset :: variable_t
  rp_stack_offset :: variable_t
  rp_type :: variable_t
  rp_shared_region_size :: variable_t
  rp_stack_numeric_size :: variable_t

definition reg_pack :: "int \<Rightarrow> names \<Rightarrow> reg_pack_t \<times> names" where
  "reg_pack i ns =
    (let (a, ns) = var_reg svalues i ns; (b, ns) = var_reg uvalues i ns; (c, ns) = var_reg ctx_offsets i ns;
         (d, ns) = var_reg map_fds i ns; (e, ns) = var_reg packet_offsets i ns; (f, ns) = var_reg shared_offsets i ns;
         (g, ns) = var_reg stack_offsets i ns; (h, ns) = var_reg types i ns; (j, ns) = var_reg shared_region_sizes i ns;
         (k, ns) = var_reg stack_numeric_sizes i ns in
     (\<lparr>rp_svalue = a, rp_uvalue = b, rp_ctx_offset = c, rp_map_fd = d, rp_packet_offset = e, rp_shared_offset = f,
       rp_stack_offset = g, rp_type = h, rp_shared_region_size = j, rp_stack_numeric_size = k\<rparr>, ns))"

section \<open>Properties of the registry\<close>

lemma takeWhile_first: "x \<in> set xs \<Longrightarrow> length (takeWhile (\<lambda>y. y \<noteq> x) xs) < length xs \<and> xs ! length (takeWhile (\<lambda>y. y \<noteq> x) xs) = x"
  by (induction xs) auto

lemma var_make_name:
  assumes "var_make n ns = (v, ns')"
  shows "v < length ns'" "ns' ! v = n" "prefix ns ns'" "distinct ns \<Longrightarrow> distinct ns'" "n \<in> set ns'" "set ns' = insert n (set ns)"
  using assms takeWhile_first [of n ns] by (auto simp: var_make_def split: if_splits)

lemma var_make_known:
  assumes "distinct ns" "v < length ns"
  shows "var_make (ns ! v) ns = (v, ns)"
proof -
  have "length (takeWhile (\<lambda>y. y \<noteq> ns ! v) ns) = v"
    using takeWhile_first [of "ns ! v" ns] assms by (metis nth_eq_iff_index_eq nth_mem)
  then show ?thesis using assms by (simp add: var_make_def)
qed

lemma var_name_prefix: "var_name ns v = Inr n \<Longrightarrow> prefix ns ns' \<Longrightarrow> var_name ns' v = Inr n"
  by (auto simp: var_name_def prefix_def nth_append split: if_splits)

text \<open>The names of all variables that have kinds end in a dot and the name of the kind.\<close>

lemma name_of_no_dot: "CHR ''.'' \<notin> set (name_of k)"
  by (cases k) (auto simp: name_of_def)

lemma upto_last_dot_kind: "upto_last_dot (base @ ''.'' @ name_of k) = base @ ''.''"
proof -
  have "dropWhile (\<lambda>c. c \<noteq> CHR ''.'') (rev (name_of k) @ CHR ''.'' # rev base) = CHR ''.'' # rev base"
    using name_of_no_dot [of k] by (subst dropWhile_append2) auto
  then show ?thesis by (simp add: upto_last_dot_def)
qed

lemma kind_var_base:
  assumes "var_name ns v = Inr (base @ ''.'' @ name_of k)"
  shows "kind_var k' v ns = Inr (var_make (base @ ''.'' @ name_of k') ns)"
  using assms upto_last_dot_kind [of base k] by (simp add: kind_var_def)

text \<open>The initial registry is the table of the registers and their kinds, and two more names.\<close>

definition default_kinds :: "data_kind_t list" where
  "default_kinds = [svalues, uvalues, ctx_offsets, map_fds, packet_offsets, shared_offsets, stack_offsets, types,
     shared_region_sizes, stack_numeric_sizes]"

lemma mem_default_kinds: "k \<in> set default_kinds"
  by (cases k) (simp_all add: default_kinds_def)

lemma default_names_eq:
  "default_variable_names =
     concat (map (\<lambda>i. map (\<lambda>k. ''r'' @ int_to_string i @ ''.'' @ name_of k) default_kinds) [0..10]) @ [''data_size'', ''meta_size'']"
  by code_simp

section \<open>Properties\<close>

text \<open>
  C36. The registry of variables: a factory call only appends to it, keeps its names distinct,
  leaves every existing variable its name and returns the one variable of the given name, so two
  calls give the same variable exactly when the names are equal.
\<close>

theorem variable_registry:
  assumes "distinct ns" "var_make m ns = (u, ns1)" "prefix ns1 ns2" "distinct ns2" "var_make n ns2 = (v, ns3)"
  shows "distinct ns3 \<and> prefix ns ns3 \<and> var_name ns3 u = Inr m \<and> var_name ns3 v = Inr n \<and> (u = v \<longleftrightarrow> m = n)"
proof -
  note u = var_make_name [OF assms(2)] and v = var_make_name [OF assms(5)]
  have ns: "prefix ns ns3" using u(3) assms(3) v(3) by (meson prefix_order.trans)
  have nu: "var_name ns3 u = Inr m"
    by (rule var_name_prefix [OF _ prefix_order.trans [OF assms(3) v(3)]]) (use u(1,2) in \<open>simp add: var_name_def\<close>)
  have nv: "var_name ns3 v = Inr n" using v(1,2) by (simp add: var_name_def)
  have "u < length ns3" "v < length ns3" "ns3 ! u = m" "ns3 ! v = n"
    using nu nv by (simp_all add: var_name_def split: if_splits)
  then have "u = v \<longleftrightarrow> m = n" using nth_eq_iff_index_eq [OF v(4) [OF assms(4)]] by blast
  with ns nu nv v(4) [OF assms(4)] show ?thesis by blast
qed

theorem variable_registry_witness:
  "distinct [''a'', ''b''] \<and> prefix [''a''] [''a'', ''b''] \<and> var_name [''a'', ''b''] 0 = Inr ''a'' \<and>
     var_name [''a'', ''b''] 1 = Inr ''b'' \<and> ((0 :: nat) = 1 \<longleftrightarrow> ''a'' = ''b'')"
  by (rule variable_registry [of "[''a'']" "''a''" 0 "[''a'']" "[''a'']" "''b''" 1 "[''a'', ''b'']"])
     (simp_all add: var_make_def)

text \<open>
  C35. The kinds of one register, stack cell or saved register belong together: \<^verbatim>\<open>kind_var\<close> applied to
  the type variable of any of them gives the variable the factory of that kind gives.
\<close>

theorem kind_var_consistent:
  assumes "distinct ns"
  shows "(let (t, ns1) = var_reg types i ns in kind_var k t ns1 = Inr (var_reg k i ns1)) \<and>
    (let (t, ns1) = stack_frame_var types i pfx ns in kind_var k t ns1 = Inr (stack_frame_var k i pfx ns1)) \<and>
    (case cell_var types off sz ns of Inl e \<Rightarrow> True | Inr (t, ns1) \<Rightarrow> kind_var k t ns1 = cell_var k off sz ns1)"
proof (intro conjI)
  have kind: "kind_var k t ns1 = Inr (var_make (base @ ''.'' @ name_of k) ns1)"
    if "var_make (base @ ''.'' @ name_of types) ns = (t, ns1)" for base t ns1
    using var_make_name(1,2) [OF that] by (intro kind_var_base [where k = types]) (simp add: var_name_def)
  show "let (t, ns1) = var_reg types i ns in kind_var k t ns1 = Inr (var_reg k i ns1)"
    using kind [of "''r'' @ int_to_string i"] by (auto simp: var_reg_def Let_def split: prod.splits)
  show "let (t, ns1) = stack_frame_var types i pfx ns in kind_var k t ns1 = Inr (stack_frame_var k i pfx ns1)"
    using kind [of "pfx @ [STACK_FRAME_DELIMITER] @ ''r'' @ int_to_string i"]
    by (auto simp: stack_frame_var_def Let_def split: prod.splits)
  show "case cell_var types off sz ns of Inl e \<Rightarrow> True | Inr (t, ns1) \<Rightarrow> kind_var k t ns1 = cell_var k off sz ns1"
  proof (cases "cast_to uint64_t off")
    case (Inr o')
    define base where "base = ''s['' @ int_to_string o' @ (if sz \<noteq> 1 then ''...'' @ int_to_string (o' + sz - 1) else []) @ '']''"
    have name: "mk_scalar_name k' o' sz = base @ ''.'' @ name_of k'" for k'
      by (simp add: mk_scalar_name_def base_def)
    show ?thesis unfolding cell_var_def Inr bindE_simps name using kind by (simp split: prod.splits)
  qed (simp add: cell_var_def)
qed

theorem kind_var_consistent_witness:
  "(let (t, ns1) = var_reg types 3 default_variable_names in kind_var svalues t ns1 = Inr (var_reg svalues 3 ns1))"
  using kind_var_consistent [of default_variable_names 3 svalues "''''" 0 1]
  by (simp add: default_variable_names_def)

text \<open>
  The kinds and the types survive printing and reading, and the ten kinds of the eleven
  registers are variables of the initial registry, so that using a register never extends it.
\<close>

theorem kind_names_roundtrip:
  "regkind (name_of k) = Inr k \<and>
   list_all (\<lambda>t. bindE (type_to_string t) string_to_type_encoding = Inr t) [T_MIN..T_MAX] \<and>
   list_all (\<lambda>i. snd (var_reg k i default_variable_names) = default_variable_names) [0..10]"
proof (intro conjI)
  show "regkind (name_of k) = Inr k" by (cases k) (simp_all add: regkind_def name_of_def)
  show "list_all (\<lambda>t. bindE (type_to_string t) string_to_type_encoding = Inr t) [T_MIN..T_MAX]" by code_simp
  have "''r'' @ int_to_string i @ ''.'' @ name_of k \<in> set default_variable_names" if "i \<in> set [0..10]" for i
    using that mem_default_kinds [of k] unfolding default_names_eq by auto
  then show "list_all (\<lambda>i. snd (var_reg k i default_variable_names) = default_variable_names) [0..10]"
    by (simp add: list_all_iff var_reg_def var_make_def)
qed

end
