(* ===== verification/Crab_Linear.thy ===== *)
theory Crab_Linear
  imports Crab_Variable
begin

text \<open>
  Linear expressions and constraints: \<^verbatim>\<open>crab/linear_expression.hpp\<close>, \<^verbatim>\<open>crab/linear_constraint.hpp\<close> and the
  operators of \<^verbatim>\<open>crab/dsl_syntax.hpp\<close>. The map of variable terms is an ordered map from variables to
  coefficients; \<open>lin_eval\<close> and \<open>lin_holds\<close> give expressions and constraints their meaning under a
  valuation of the variables.
\<close>

section \<open>Expressions\<close>

record linear_expression_t =
  constant_term :: number_t
  variable_terms :: "(variable_t, number_t) omap"

definition coefficient_of :: "linear_expression_t \<Rightarrow> variable_t \<Rightarrow> number_t" where
  "coefficient_of e v = (case map_of (variable_terms e) v of None \<Rightarrow> 0 | Some c \<Rightarrow> c)"

definition lin_const :: "number_t \<Rightarrow> linear_expression_t" where
  "lin_const c = \<lparr>constant_term = c, variable_terms = []\<rparr>"

definition lin_var :: "variable_t \<Rightarrow> linear_expression_t" where
  "lin_var v = \<lparr>constant_term = 0, variable_terms = [(v, 1)]\<rparr>"

definition lin_term :: "number_t \<Rightarrow> variable_t \<Rightarrow> linear_expression_t" where
  "lin_term c v = \<lparr>constant_term = 0, variable_terms = (if c \<noteq> 0 then [(v, c)] else [])\<rparr>"

definition lin_make :: "(variable_t, number_t) omap \<Rightarrow> number_t \<Rightarrow> linear_expression_t" where
  "lin_make terms c = \<lparr>constant_term = c, variable_terms = filter (\<lambda>(v, k). k \<noteq> 0) terms\<rparr>"

definition is_constant :: "linear_expression_t \<Rightarrow> bool" where
  "is_constant e = (variable_terms e = [])"

definition lin_multiply :: "linear_expression_t \<Rightarrow> number_t \<Rightarrow> linear_expression_t" where
  "lin_multiply e k = lin_make (map (\<lambda>(v, c). (v, c * k)) (variable_terms e)) (constant_term e * k)"

definition lin_plus_const :: "linear_expression_t \<Rightarrow> number_t \<Rightarrow> linear_expression_t" where
  "lin_plus_const e k = lin_make (variable_terms e) (constant_term e + k)"

definition lin_plus_var :: "linear_expression_t \<Rightarrow> variable_t \<Rightarrow> linear_expression_t" where
  "lin_plus_var e v = lin_make (omap_put v (coefficient_of e v + 1) (variable_terms e)) (constant_term e)"

definition lin_plus :: "linear_expression_t \<Rightarrow> linear_expression_t \<Rightarrow> linear_expression_t" where
  "lin_plus e f = lin_make
     (fold (\<lambda>(v, c) m. omap_put v (coefficient_of e v + c) m) (variable_terms f) (variable_terms e))
     (constant_term e + constant_term f)"

definition lin_negate :: "linear_expression_t \<Rightarrow> linear_expression_t" where
  "lin_negate e = lin_multiply e (- 1)"

definition lin_subtract_const :: "linear_expression_t \<Rightarrow> number_t \<Rightarrow> linear_expression_t" where
  "lin_subtract_const e k = lin_make (variable_terms e) (constant_term e - k)"

definition lin_subtract_var :: "linear_expression_t \<Rightarrow> variable_t \<Rightarrow> linear_expression_t" where
  "lin_subtract_var e v = lin_make (omap_put v (coefficient_of e v - 1) (variable_terms e)) (constant_term e)"

definition lin_subtract :: "linear_expression_t \<Rightarrow> linear_expression_t \<Rightarrow> linear_expression_t" where
  "lin_subtract e f = lin_make
     (fold (\<lambda>(v, c) m. omap_put v (coefficient_of e v - c) m) (variable_terms f) (variable_terms e))
     (constant_term e - constant_term f)"

fun output_terms :: "names \<Rightarrow> bool \<Rightarrow> (variable_t, number_t) omap \<Rightarrow> string res" where
  "output_terms ns first [] = Inr []"
| "output_terms ns first ((v, c) # m) =
    bindE (var_name ns v) (\<lambda>n. bindE (output_terms ns False m) (\<lambda>s.
      Inr ((if first then [] else '' + '') @
        (if c = - 1 then ''-'' else if c \<noteq> 1 then int_to_string c @ '' * '' else []) @ n @ s)))"

definition output_variable_terms :: "names \<Rightarrow> linear_expression_t \<Rightarrow> string res" where
  "output_variable_terms ns e = output_terms ns True (variable_terms e)"

definition lin_to_string :: "names \<Rightarrow> linear_expression_t \<Rightarrow> string res" where
  "lin_to_string ns e = bindE (output_variable_terms ns e) (\<lambda>s. let k = constant_term e in
     Inr (s @ (if k < 0 then int_to_string k else if k > 0 then '' + '' @ int_to_string k else [])))"

section \<open>Constraints\<close>

datatype constraint_kind_t = EQUALS_ZERO | LESS_THAN_OR_EQUALS_ZERO | LESS_THAN_ZERO | NOT_ZERO

record linear_constraint_t =
  cst_expression :: linear_expression_t
  cst_kind :: constraint_kind_t

definition mk_cst :: "linear_expression_t \<Rightarrow> constraint_kind_t \<Rightarrow> linear_constraint_t" where
  "mk_cst e k = \<lparr>cst_expression = e, cst_kind = k\<rparr>"

definition is_tautology :: "linear_constraint_t \<Rightarrow> bool" where
  "is_tautology c =
    (if \<not> is_constant (cst_expression c) then False
     else let k = constant_term (cst_expression c) in
       case cst_kind c of EQUALS_ZERO \<Rightarrow> k = 0 | LESS_THAN_OR_EQUALS_ZERO \<Rightarrow> k \<le> 0
       | LESS_THAN_ZERO \<Rightarrow> k < 0 | NOT_ZERO \<Rightarrow> k \<noteq> 0)"

definition is_contradiction :: "linear_constraint_t \<Rightarrow> bool" where
  "is_contradiction c = (if \<not> is_constant (cst_expression c) then False else \<not> is_tautology c)"

definition cst_negate :: "linear_constraint_t \<Rightarrow> linear_constraint_t" where
  "cst_negate c = (case cst_kind c of
      NOT_ZERO \<Rightarrow> mk_cst (cst_expression c) EQUALS_ZERO
    | EQUALS_ZERO \<Rightarrow> mk_cst (cst_expression c) NOT_ZERO
    | LESS_THAN_ZERO \<Rightarrow> mk_cst (lin_negate (cst_expression c)) LESS_THAN_OR_EQUALS_ZERO
    | LESS_THAN_OR_EQUALS_ZERO \<Rightarrow> mk_cst (lin_negate (cst_expression c)) LESS_THAN_ZERO)"

definition false_const :: linear_constraint_t where
  "false_const = mk_cst (lin_const 0) NOT_ZERO"

definition true_const :: linear_constraint_t where
  "true_const = mk_cst (lin_const 0) EQUALS_ZERO"

definition cst_to_string :: "names \<Rightarrow> linear_constraint_t \<Rightarrow> string res" where
  "cst_to_string ns c =
    (if is_contradiction c then Inr ''false''
     else if is_tautology c then Inr ''true''
     else bindE (output_variable_terms ns (cst_expression c)) (\<lambda>s. Inr (s @
       (case cst_kind c of EQUALS_ZERO \<Rightarrow> '' == '' | LESS_THAN_OR_EQUALS_ZERO \<Rightarrow> '' <= ''
        | LESS_THAN_ZERO \<Rightarrow> '' < '' | NOT_ZERO \<Rightarrow> '' != '') @
       int_to_string (- constant_term (cst_expression c)))))"

section \<open>Operators\<close>

definition dsl_le :: "linear_expression_t \<Rightarrow> linear_expression_t \<Rightarrow> linear_constraint_t" where
  "dsl_le e f = mk_cst (lin_subtract e f) LESS_THAN_OR_EQUALS_ZERO"

definition dsl_less :: "linear_expression_t \<Rightarrow> linear_expression_t \<Rightarrow> linear_constraint_t" where
  "dsl_less e f = mk_cst (lin_subtract e f) LESS_THAN_ZERO"

definition dsl_ge :: "linear_expression_t \<Rightarrow> linear_expression_t \<Rightarrow> linear_constraint_t" where
  "dsl_ge e f = dsl_le f e"

definition dsl_greater :: "linear_expression_t \<Rightarrow> linear_expression_t \<Rightarrow> linear_constraint_t" where
  "dsl_greater e f = dsl_less f e"

definition dsl_eq :: "linear_expression_t \<Rightarrow> linear_expression_t \<Rightarrow> linear_constraint_t" where
  "dsl_eq e f = mk_cst (lin_subtract e f) EQUALS_ZERO"

definition dsl_neq :: "linear_expression_t \<Rightarrow> linear_expression_t \<Rightarrow> linear_constraint_t" where
  "dsl_neq e f = mk_cst (lin_subtract e f) NOT_ZERO"

definition eq_vars :: "variable_t \<Rightarrow> variable_t \<Rightarrow> linear_constraint_t" where
  "eq_vars a b = mk_cst (lin_subtract (lin_var a) (lin_var b)) EQUALS_ZERO"

definition neq_vars :: "variable_t \<Rightarrow> variable_t \<Rightarrow> linear_constraint_t" where
  "neq_vars a b = mk_cst (lin_subtract (lin_var a) (lin_var b)) NOT_ZERO"

section \<open>Meaning\<close>

type_synonym valuation = "variable_t \<Rightarrow> int"

definition terms_eval :: "valuation \<Rightarrow> (variable_t, number_t) omap \<Rightarrow> int" where
  "terms_eval \<sigma> m = (\<Sum>(v, c) \<leftarrow> m. c * \<sigma> v)"

definition lin_eval :: "valuation \<Rightarrow> linear_expression_t \<Rightarrow> int" where
  "lin_eval \<sigma> e = constant_term e + terms_eval \<sigma> (variable_terms e)"

definition lin_holds :: "valuation \<Rightarrow> linear_constraint_t \<Rightarrow> bool" where
  "lin_holds \<sigma> c = (let k = lin_eval \<sigma> (cst_expression c) in
     case cst_kind c of EQUALS_ZERO \<Rightarrow> k = 0 | LESS_THAN_OR_EQUALS_ZERO \<Rightarrow> k \<le> 0 | LESS_THAN_ZERO \<Rightarrow> k < 0
     | NOT_ZERO \<Rightarrow> k \<noteq> 0)"

text \<open>The invariant of the class: terms sorted by variable, none with a zero coefficient.\<close>

definition lin_ok :: "linear_expression_t \<Rightarrow> bool" where
  "lin_ok e \<longleftrightarrow> omap_ok (variable_terms e) \<and> (\<forall>(v, c) \<in> set (variable_terms e). c \<noteq> 0)"

lemma terms_eval_simps [simp]:
  "terms_eval \<sigma> [] = 0" "terms_eval \<sigma> ((v, c) # m) = c * \<sigma> v + terms_eval \<sigma> m"
  by (simp_all add: terms_eval_def)

lemma terms_eval_filter [simp]: "terms_eval \<sigma> (filter (\<lambda>(v, k). k \<noteq> 0) m) = terms_eval \<sigma> m"
  by (induction m) auto

lemma terms_eval_map [simp]: "terms_eval \<sigma> (map (\<lambda>(v, c). (v, c * k)) m) = k * terms_eval \<sigma> m"
  by (induction m) (auto simp: algebra_simps)

lemma omap_ok_filter: "omap_ok m \<Longrightarrow> omap_ok (filter P m)"
proof (induction m)
  case (Cons x m)
  then show ?case by (cases x) (auto simp: omap_ok_Cons omap_keys_def)
qed simp

lemma omap_ok_map: "omap_ok m \<Longrightarrow> omap_ok (map (\<lambda>(v, c). (v, f c)) m)"
proof -
  have "omap_keys (map (\<lambda>(v, c). (v, f c)) m) = omap_keys m" by (induction m) auto
  then show "omap_ok m \<Longrightarrow> omap_ok (map (\<lambda>(v, c). (v, f c)) m)" by (simp add: omap_ok_def)
qed

definition coeff :: "(variable_t, number_t) omap \<Rightarrow> variable_t \<Rightarrow> number_t" where
  "coeff m v = (case map_of m v of None \<Rightarrow> 0 | Some c \<Rightarrow> c)"

lemma coeff_put [simp]: "coeff (omap_put v c m) u = (if u = v then c else coeff m u)"
  by (simp add: coeff_def)

lemma terms_eval_put: "omap_ok m \<Longrightarrow> terms_eval \<sigma> (omap_put v c m) = terms_eval \<sigma> m + (c - coeff m v) * \<sigma> v"
proof (induction v c m rule: omap_put.induct)
  case (2 v c v' c' m)
  have "coeff ((v', c') # m) v = 0" if "v < v'"
  proof -
    have "v \<notin> set (omap_keys ((v', c') # m))" using that 2(2) by (fastforce simp: omap_ok_Cons)
    then show ?thesis by (auto simp: coeff_def in_omap_keys split: option.splits)
  qed
  moreover have "coeff ((v', c') # m) v = (if v = v' then c' else coeff m v)" by (simp add: coeff_def)
  ultimately show ?case using 2 by (auto simp: omap_ok_Cons algebra_simps)
qed (simp add: coeff_def)

lemma terms_fold:
  assumes "omap_ok es" "omap_ok m" "\<forall>v \<in> set (omap_keys es). coeff m v = f v"
  shows "terms_eval \<sigma> (fold (\<lambda>(v, c) m. omap_put v (f v + k * c) m) es m) = terms_eval \<sigma> m + k * terms_eval \<sigma> es \<and>
         omap_ok (fold (\<lambda>(v, c) m. omap_put v (f v + k * c) m) es m)"
  using assms
proof (induction es arbitrary: m)
  case (Cons e es)
  obtain v c where e: "e = (v, c)" by (cases e)
  have "\<forall>u \<in> set (omap_keys es). coeff (omap_put v (f v + k * c) m) u = f u"
    using Cons.prems e by (auto simp: omap_ok_Cons)
  moreover have "coeff m v = f v" "omap_ok es" using Cons.prems e by (auto simp: omap_ok_Cons)
  ultimately show ?case
    using Cons.IH [of "omap_put v (f v + k * c) m"] Cons.prems(2) e by (simp add: terms_eval_put algebra_simps)
qed simp

lemma coefficient_of_coeff: "coefficient_of e v = coeff (variable_terms e) v"
  by (simp add: coefficient_of_def coeff_def)

lemma lin_make_simps [simp]:
  "lin_eval \<sigma> (lin_make m k) = k + terms_eval \<sigma> m" "omap_ok m \<Longrightarrow> lin_ok (lin_make m k)"
  by (auto simp: lin_eval_def lin_make_def lin_ok_def omap_ok_filter)

lemma lin_okD [simp]: "lin_ok e \<Longrightarrow> omap_ok (variable_terms e)"
  by (simp add: lin_ok_def)

lemma lin_plus_sound: "lin_ok e \<Longrightarrow> lin_ok f \<Longrightarrow> lin_ok (lin_plus e f) \<and> lin_eval \<sigma> (lin_plus e f) = lin_eval \<sigma> e + lin_eval \<sigma> f"
  using terms_fold [of "variable_terms f" "variable_terms e" "coefficient_of e" \<sigma> 1]
  by (simp add: lin_plus_def coefficient_of_coeff) (simp add: lin_eval_def)

lemma lin_subtract_sound:
  "lin_ok e \<Longrightarrow> lin_ok f \<Longrightarrow> lin_ok (lin_subtract e f) \<and> lin_eval \<sigma> (lin_subtract e f) = lin_eval \<sigma> e - lin_eval \<sigma> f"
  using terms_fold [of "variable_terms f" "variable_terms e" "coefficient_of e" \<sigma> "- 1"]
  by (simp add: lin_subtract_def coefficient_of_coeff) (simp add: lin_eval_def)

lemma lin_multiply_sound: "lin_ok e \<Longrightarrow> lin_ok (lin_multiply e k) \<and> lin_eval \<sigma> (lin_multiply e k) = lin_eval \<sigma> e * k"
  using omap_ok_map [of "variable_terms e" "\<lambda>c. c * k"]
  by (simp add: lin_multiply_def) (simp add: lin_eval_def algebra_simps)

lemma lin_negate_sound: "lin_ok e \<Longrightarrow> lin_ok (lin_negate e) \<and> lin_eval \<sigma> (lin_negate e) = - lin_eval \<sigma> e"
  using lin_multiply_sound [of e "- 1"] by (simp add: lin_negate_def)

lemma lin_update_sound:
  assumes "lin_ok e"
  shows "lin_ok (lin_plus_var e v) \<and> lin_eval \<sigma> (lin_plus_var e v) = lin_eval \<sigma> e + \<sigma> v"
    "lin_ok (lin_subtract_var e v) \<and> lin_eval \<sigma> (lin_subtract_var e v) = lin_eval \<sigma> e - \<sigma> v"
    "lin_ok (lin_plus_const e k) \<and> lin_eval \<sigma> (lin_plus_const e k) = lin_eval \<sigma> e + k"
    "lin_ok (lin_subtract_const e k) \<and> lin_eval \<sigma> (lin_subtract_const e k) = lin_eval \<sigma> e - k"
  using assms
  by (simp_all add: lin_plus_var_def lin_subtract_var_def lin_plus_const_def lin_subtract_const_def
      terms_eval_put coefficient_of_coeff) (simp_all add: lin_eval_def)

lemma lin_base_sound [simp]:
  "lin_ok (lin_const k)" "lin_eval \<sigma> (lin_const k) = k" "lin_ok (lin_var v)" "lin_eval \<sigma> (lin_var v) = \<sigma> v"
  "lin_ok (lin_term k v)" "lin_eval \<sigma> (lin_term k v) = k * \<sigma> v"
  by (simp_all add: lin_ok_def lin_eval_def lin_const_def lin_var_def lin_term_def omap_ok_Cons)

lemma cst_negate_sound: "lin_ok (cst_expression c) \<Longrightarrow> lin_holds \<sigma> (cst_negate c) \<longleftrightarrow> \<not> lin_holds \<sigma> c"
  using lin_negate_sound [of "cst_expression c" \<sigma>]
  by (auto simp: lin_holds_def cst_negate_def mk_cst_def Let_def split: constraint_kind_t.splits)

lemma cst_negate_ok: "lin_ok (cst_expression c) \<Longrightarrow> lin_ok (cst_expression (cst_negate c))"
  using lin_negate_sound [of "cst_expression c"] by (auto simp: cst_negate_def mk_cst_def split: constraint_kind_t.splits)

lemma is_tautology_holds: "is_tautology c \<Longrightarrow> lin_holds \<sigma> c"
  by (auto simp: is_tautology_def lin_holds_def is_constant_def lin_eval_def Let_def
      split: constraint_kind_t.splits if_splits)

lemma is_contradiction_fails: "is_contradiction c \<Longrightarrow> \<not> lin_holds \<sigma> c"
  by (auto simp: is_contradiction_def is_tautology_def lin_holds_def is_constant_def lin_eval_def Let_def
      split: constraint_kind_t.splits if_splits)

lemma dsl_holds:
  assumes "lin_ok e" "lin_ok f"
  shows "lin_holds \<sigma> (dsl_le e f) \<longleftrightarrow> lin_eval \<sigma> e \<le> lin_eval \<sigma> f" "lin_holds \<sigma> (dsl_less e f) \<longleftrightarrow> lin_eval \<sigma> e < lin_eval \<sigma> f"
    "lin_holds \<sigma> (dsl_ge e f) \<longleftrightarrow> lin_eval \<sigma> f \<le> lin_eval \<sigma> e" "lin_holds \<sigma> (dsl_greater e f) \<longleftrightarrow> lin_eval \<sigma> f < lin_eval \<sigma> e"
    "lin_holds \<sigma> (dsl_eq e f) \<longleftrightarrow> lin_eval \<sigma> e = lin_eval \<sigma> f" "lin_holds \<sigma> (dsl_neq e f) \<longleftrightarrow> lin_eval \<sigma> e \<noteq> lin_eval \<sigma> f"
  using lin_subtract_sound [OF assms, of \<sigma>] lin_subtract_sound [OF assms(2,1), of \<sigma>]
  by (simp_all add: dsl_le_def dsl_less_def dsl_ge_def dsl_greater_def dsl_eq_def dsl_neq_def lin_holds_def mk_cst_def)

section \<open>Properties\<close>

text \<open>
  C34. Arithmetic on linear expressions keeps the invariant that terms are sorted and have non-zero
  coefficients, and computes on every valuation what its name says; the constraint operators
  compare the values of their operands, and negation is logical negation.
\<close>

theorem linear_arithmetic:
  assumes "lin_ok e" "lin_ok f"
  shows "lin_ok (lin_plus e f) \<and> lin_eval \<sigma> (lin_plus e f) = lin_eval \<sigma> e + lin_eval \<sigma> f \<and>
    lin_ok (lin_subtract e f) \<and> lin_eval \<sigma> (lin_subtract e f) = lin_eval \<sigma> e - lin_eval \<sigma> f \<and>
    lin_ok (lin_multiply e k) \<and> lin_eval \<sigma> (lin_multiply e k) = lin_eval \<sigma> e * k \<and>
    lin_eval \<sigma> (lin_plus_var e v) = lin_eval \<sigma> e + \<sigma> v \<and> lin_eval \<sigma> (lin_subtract_var e v) = lin_eval \<sigma> e - \<sigma> v \<and>
    (lin_holds \<sigma> (dsl_le e f) \<longleftrightarrow> lin_eval \<sigma> e \<le> lin_eval \<sigma> f) \<and> (lin_holds \<sigma> (dsl_less e f) \<longleftrightarrow> lin_eval \<sigma> e < lin_eval \<sigma> f) \<and>
    (lin_holds \<sigma> (dsl_eq e f) \<longleftrightarrow> lin_eval \<sigma> e = lin_eval \<sigma> f) \<and>
    (lin_holds \<sigma> (cst_negate (mk_cst e kind)) \<longleftrightarrow> \<not> lin_holds \<sigma> (mk_cst e kind))"
proof -
  have "lin_holds \<sigma> (cst_negate (mk_cst e kind)) \<longleftrightarrow> \<not> lin_holds \<sigma> (mk_cst e kind)"
    using assms(1) by (intro cst_negate_sound) (simp add: mk_cst_def)
  moreover have "lin_eval \<sigma> (lin_subtract e f) = lin_eval \<sigma> e - lin_eval \<sigma> f" using assms lin_subtract_sound by blast
  ultimately show ?thesis
    using assms lin_plus_sound lin_subtract_sound lin_multiply_sound lin_update_sound
    by (simp add: dsl_le_def dsl_less_def dsl_eq_def lin_holds_def mk_cst_def)
qed

theorem linear_arithmetic_witness:
  "lin_eval (\<lambda>v. 10) (lin_plus (lin_var 3) (lin_term (- 2) 3)) = 10 + - 20 \<and>
   (lin_holds (\<lambda>v. 10) (dsl_le (lin_var 3) (lin_term (- 2) 3)) \<longleftrightarrow> (10 :: int) \<le> - 20)"
  using linear_arithmetic [of "lin_var 3" "lin_term (- 2) 3" "\<lambda>v. 10" 0 0 NOT_ZERO] by simp

end
