(* ===== verification/Crab_Split_Dbm.thy ===== *)
theory Crab_Split_Dbm
  imports Crab_Graph_Ops Crab_Interval Crab_Linear
begin

text \<open>
  \<^verbatim>\<open>crab/split_dbm.hpp\<close> and \<^verbatim>\<open>crab/split_dbm.cpp\<close>: the zone domain. A state maps variables to the vertices
  of a graph of difference bounds; vertex 0 stands for zero, so that bounds of single variables are
  edges from and to it. \<^verbatim>\<open>false\<close> or an empty optional, for an infeasible state, is \<open>None\<close>; assertions
  that fail and numeric exceptions are results \<open>Inl\<close>; loops that run until a queue is empty are in the
  \<open>run\<close> type. \<^verbatim>\<open>convert_NtoW_overflow\<close>, which copies a number when weights are unbounded, is the identity
  that never reports an overflow. The registry of names, which tells the signedness of a
  variable, is the argument \<open>ns\<close>.
\<close>

section \<open>State\<close>

datatype arith_binop_t = ADD | SUB | MUL | SDIV | UDIV | SREM | UREM
datatype bitwise_binop_t = Bitwise_AND | Bitwise_OR | Bitwise_XOR | SHL | LSHR | ASHR

type_synonym vert_map_t = "(variable_t, vert_id) omap"
type_synonym diffcst_t = "(variable_t \<times> variable_t) \<times> Weight"

record split_dbm =
  db_vert_map :: vert_map_t
  db_rev_map :: "variable_t option list"
  db_g :: adapt_graph
  db_potential :: "Weight list"
  db_unstable :: "vert_id oset"

definition dbm_top :: split_dbm where
  "dbm_top = \<lparr>db_vert_map = [], db_rev_map = [None], db_g = growTo 1 graph_new, db_potential = [0], db_unstable = []\<rparr>"

definition set_to_top :: "split_dbm \<Rightarrow> split_dbm" where
  "set_to_top d = dbm_top"

definition dbm_is_top :: "split_dbm \<Rightarrow> bool" where
  "dbm_is_top d = graph_is_empty (db_g d)"

definition dbm_size :: "split_dbm \<Rightarrow> nat \<times> u64" where
  "dbm_size d = (graph_size (db_g d), num_edges (db_g d))"

definition try_at :: "vert_map_t \<Rightarrow> variable_t \<Rightarrow> vert_id option" where
  "try_at m v = map_of m v"

definition get_vert :: "variable_t \<Rightarrow> split_dbm \<Rightarrow> (vert_id \<times> split_dbm) res" where
  "get_vert v d = (case try_at (db_vert_map d) v of
      Some y \<Rightarrow> Inr (y, d)
    | None \<Rightarrow>
        let (vert, g) = new_vertex (db_g d);
            d = d\<lparr>db_g := g, db_vert_map := omap_put v vert (db_vert_map d)\<rparr> in
        if \<not> vert \<le> length (db_rev_map d) then Inl AssertionFailure
        else
          let d = (if vert < length (db_rev_map d)
                   then d\<lparr>db_potential := (db_potential d)[vert := 0], db_rev_map := (db_rev_map d)[vert := Some v]\<rparr>
                   else d\<lparr>db_potential := db_potential d @ [0], db_rev_map := db_rev_map d @ [Some v]\<rparr>)
          in if vert = 0 then Inl AssertionFailure else Inr (vert, d))"

section \<open>Intervals of variables and expressions\<close>

definition truncate_bound :: "bool \<Rightarrow> int \<Rightarrow> number_t \<Rightarrow> bound_t res" where
  "truncate_bound uns finite_width n =
    bindE (if uns then truncate_to_uint finite_width n else truncate_to_sint finite_width n) (\<lambda>k. Inr (finite_ext k))"

definition interval_at :: "names \<Rightarrow> vert_map_t \<Rightarrow> adapt_graph \<Rightarrow> variable_t \<Rightarrow> int \<Rightarrow> interval_t res" where
  "interval_at ns m r x finite_width = (case map_of m x of
      None \<Rightarrow> Inr ivl_top
    | Some v \<Rightarrow>
        bindE (if graph_elem r v 0
               then bindE (is_unsigned ns x) (\<lambda>uns. truncate_bound uns finite_width (- graph_edge_val r v 0))
               else Inr minus_infinity) (\<lambda>lb.
        bindE (if graph_elem r 0 v
               then bindE (is_unsigned ns x) (\<lambda>uns. truncate_bound uns finite_width (graph_edge_val r 0 v))
               else Inr plus_infinity) (\<lambda>ub. Inr (interval lb ub))))"

definition get_interval :: "names \<Rightarrow> split_dbm \<Rightarrow> variable_t \<Rightarrow> int \<Rightarrow> interval_t res" where
  "get_interval ns d x finite_width = interval_at ns (db_vert_map d) (db_g d) x finite_width"

definition dbm_index :: "names \<Rightarrow> split_dbm \<Rightarrow> variable_t \<Rightarrow> interval_t res" where
  "dbm_index ns d x = interval_at ns (db_vert_map d) (db_g d) x 0"

definition pot_value :: "split_dbm \<Rightarrow> variable_t \<Rightarrow> Weight" where
  "pot_value d v = (case try_at (db_vert_map d) v of Some y \<Rightarrow> db_potential d ! y | None \<Rightarrow> 0)"

definition eval_expression :: "split_dbm \<Rightarrow> linear_expression_t \<Rightarrow> Weight" where
  "eval_expression d e =
    fold (\<lambda>(variable, coef) out. out + (pot_value d variable - db_potential d ! 0) * coef) (variable_terms e) (constant_term e)"

definition compute_residual :: "names \<Rightarrow> split_dbm \<Rightarrow> linear_expression_t \<Rightarrow> variable_t \<Rightarrow> interval_t res" where
  "compute_residual ns d e pivot =
    foldE (\<lambda>residual (variable, coefficient).
        if variable \<noteq> pivot
        then bindE (dbm_index ns d variable) (\<lambda>i. ivl_sub residual (ivl_mul (interval_num coefficient) i))
        else Inr residual)
      (interval_num (- constant_term e)) (variable_terms e)"

definition eval_interval :: "names \<Rightarrow> split_dbm \<Rightarrow> linear_expression_t \<Rightarrow> interval_t res" where
  "eval_interval ns d e =
    foldE (\<lambda>r (variable, coefficient). bindE (dbm_index ns d variable) (\<lambda>i. ivl_add r (ivl_mul (interval_num coefficient) i)))
      (interval_num (constant_term e)) (variable_terms e)"

section \<open>Difference constraints of expressions\<close>

text \<open>The loop over the terms of an assigned expression; \<open>None\<close> is its early return.\<close>

type_synonym diff_terms_t = "variable_t option \<times> (variable_t \<times> Weight) list \<times> Weight"

fun diff_terms :: "(variable_t \<Rightarrow> interval_t res) \<Rightarrow> bool \<Rightarrow> (variable_t \<times> number_t) list \<Rightarrow> diff_terms_t \<Rightarrow> diff_terms_t option res" where
  "diff_terms ix extract_upper_bounds [] st = Inr (Some st)"
| "diff_terms ix extract_upper_bounds ((y, coef) # ts) (unbounded_var, terms, residual) =
    bindE (ix y) (\<lambda>i.
      if coef < 0 then
        (case ext_number (if extract_upper_bounds then ivl_lb i else ivl_ub i) of
           None \<Rightarrow> Inr None
         | Some ymax \<Rightarrow> diff_terms ix extract_upper_bounds ts (unbounded_var, terms, residual + ymax * coef))
      else
        (case ext_number (if extract_upper_bounds then ivl_ub i else ivl_lb i) of
           None \<Rightarrow> if unbounded_var \<noteq> None \<or> coef \<noteq> 1 then Inr None
                   else diff_terms ix extract_upper_bounds ts (Some y, terms, residual)
         | Some ymax \<Rightarrow> diff_terms ix extract_upper_bounds ts (unbounded_var, terms @ [(y, ymax)], residual + ymax * coef)))"

definition diffcsts_of_assign :: "names \<Rightarrow> split_dbm \<Rightarrow> linear_expression_t \<Rightarrow> bool \<Rightarrow> (variable_t \<times> Weight) list res" where
  "diffcsts_of_assign ns d exp extract_upper_bounds =
    bindE (diff_terms (dbm_index ns d) extract_upper_bounds (variable_terms exp) (None, [], constant_term exp)) (\<lambda>r.
      case r of
        None \<Rightarrow> Inr []
      | Some (Some v, terms, residual) \<Rightarrow> Inr [(v, residual)]
      | Some (None, terms, residual) \<Rightarrow> Inr (map (\<lambda>(v, n). (v, residual - n)) terms))"

text \<open>The terms of an inequality by sign, each with its coefficient, variable and finite bound.\<close>

record leq_terms =
  lt_ub :: Weight
  lt_lbvar :: "(variable_t \<times> Weight) option"
  lt_ubvar :: "(variable_t \<times> Weight) option"
  lt_pos :: "((Weight \<times> variable_t) \<times> Weight) list"
  lt_neg :: "((Weight \<times> variable_t) \<times> Weight) list"

fun split_terms :: "(variable_t \<Rightarrow> interval_t res) \<Rightarrow> (variable_t \<times> number_t) list \<Rightarrow> leq_terms \<Rightarrow> leq_terms option res" where
  "split_terms ix [] st = Inr (Some st)"
| "split_terms ix ((y, coef) # ts) st =
    bindE (ix y) (\<lambda>i.
      if coef > 0 then
        (case ext_number (ivl_lb i) of
           None \<Rightarrow> if lt_lbvar st \<noteq> None then Inr None else split_terms ix ts (st\<lparr>lt_lbvar := Some (y, coef)\<rparr>)
         | Some ymin \<Rightarrow> split_terms ix ts (st\<lparr>lt_ub := lt_ub st - ymin * coef, lt_pos := lt_pos st @ [((coef, y), ymin)]\<rparr>))
      else
        (case ext_number (ivl_ub i) of
           None \<Rightarrow> if lt_ubvar st \<noteq> None then Inr None else split_terms ix ts (st\<lparr>lt_ubvar := Some (y, - coef)\<rparr>)
         | Some ymax \<Rightarrow> split_terms ix ts (st\<lparr>lt_ub := lt_ub st - ymax * coef, lt_neg := lt_neg st @ [((- coef, y), ymax)]\<rparr>)))"

type_synonym leq_csts = "diffcst_t list \<times> (variable_t \<times> Weight) list \<times> (variable_t \<times> Weight) list"

definition csts_of_terms :: "leq_terms \<Rightarrow> leq_csts res" where
  "csts_of_terms st =
    (case (lt_lbvar st, lt_ubvar st) of
       (Some (x, cx), Some (y, cy)) \<Rightarrow> Inr (if cx = 1 \<and> cy = 1 then [((x, y), lt_ub st)] else [], [], [])
     | (Some (x, cx), None) \<Rightarrow>
         bindE (num_div (lt_ub st) cx) (\<lambda>u.
           Inr (if cx = 1 then map (\<lambda>((c, y), k). ((x, y), lt_ub st - k)) (lt_neg st) else [], [], [(x, u)]))
     | (None, Some (y, cy)) \<Rightarrow>
         bindE (num_div (- lt_ub st) cy) (\<lambda>l.
           Inr (if cy = 1 then map (\<lambda>((c, x), k). ((x, y), lt_ub st + k)) (lt_pos st) else [], [(y, l)], []))
     | (None, None) \<Rightarrow>
         bindE (foldE_map (\<lambda>((c, y), k). bindE (num_div (- lt_ub st) c) (\<lambda>q. Inr (y, q + k))) (lt_neg st)) (\<lambda>lbs.
         bindE (foldE_map (\<lambda>((c, x), k). bindE (num_div (lt_ub st) c) (\<lambda>q. Inr (x, q + k))) (lt_pos st)) (\<lambda>ubs.
           Inr (concat (map (\<lambda>((_, y), neg_k). map (\<lambda>((_, x), pos_k). ((x, y), lt_ub st - neg_k + pos_k)) (lt_pos st)) (lt_neg st)),
                lbs, ubs))))"

definition diffcsts_of_lin_leq :: "names \<Rightarrow> split_dbm \<Rightarrow> linear_expression_t \<Rightarrow> leq_csts res" where
  "diffcsts_of_lin_leq ns d exp =
    bindE (split_terms (dbm_index ns d) (variable_terms exp)
        \<lparr>lt_ub = - constant_term exp, lt_lbvar = None, lt_ubvar = None, lt_pos = [], lt_neg = []\<rparr>) (\<lambda>r.
      case r of None \<Rightarrow> Inr ([], [], []) | Some st \<Rightarrow> csts_of_terms st)"

section \<open>Normal form\<close>

definition dbm_normalize :: "split_dbm \<Rightarrow> split_dbm run" where
  "dbm_normalize d =
    (if db_unstable d = [] then Some (Inr d)
     else
       let p = (\<lambda>v. db_potential d ! v) in
       bindR (close_after_widen (sub_graph (whole (db_g d)) 0) p (\<lambda>v. v \<in> set (db_unstable d))) (\<lambda>delta.
         let g = apply_delta (db_g d) delta in
         Some (Inr (d\<lparr>db_g := apply_delta g (close_after_assign (whole g) p 0), db_unstable := []\<rparr>))))"

text \<open>The constructor from the components normalises.\<close>

definition mk_dbm :: "vert_map_t \<Rightarrow> variable_t option list \<Rightarrow> adapt_graph \<Rightarrow> Weight list \<Rightarrow> vert_id oset \<Rightarrow> split_dbm run" where
  "mk_dbm vm rm g p u =
    (if \<not> graph_size g > 0 then Some (Inl AssertionFailure)
     else dbm_normalize \<lparr>db_vert_map = vm, db_rev_map = rm, db_g = g, db_potential = p, db_unstable = u\<rparr>)"

definition omap_erase :: "'k \<Rightarrow> ('k, 'v) omap \<Rightarrow> ('k, 'v) omap" where
  "omap_erase k m = filter (\<lambda>(k', v). k' \<noteq> k) m"

definition forget_var :: "variable_t \<Rightarrow> split_dbm \<Rightarrow> split_dbm run" where
  "forget_var v d = (case try_at (db_vert_map d) v of
      Some y \<Rightarrow> dbm_normalize (d\<lparr>db_g := graph_forget y (db_g d), db_rev_map := (db_rev_map d)[y := None],
         db_vert_map := omap_erase v (db_vert_map d)\<rparr>)
    | None \<Rightarrow> Some (Inr d))"

definition dbm_forget :: "variable_t list \<Rightarrow> split_dbm \<Rightarrow> split_dbm run" where
  "dbm_forget variables d =
    (if dbm_is_top d then Some (Inr d)
     else bindR (foldR (\<lambda>d v. if map_of (db_vert_map d) v \<noteq> None then forget_var v d else Some (Inr d)) d variables) dbm_normalize)"

section \<open>Adding constraints\<close>

text \<open>\<open>bindO\<close> returns \<^verbatim>\<open>false\<close> when its first argument does.\<close>

definition bindO :: "'a option run \<Rightarrow> ('a \<Rightarrow> 'b option run) \<Rightarrow> 'b option run" where
  "bindO m f = bindR m (\<lambda>r. case r of None \<Rightarrow> Some (Inr None) | Some a \<Rightarrow> f a)"

definition retO :: "'a \<Rightarrow> 'a option run" where
  "retO a = Some (Inr (Some a))"

primrec foldO :: "('s \<Rightarrow> 'a \<Rightarrow> 's option run) \<Rightarrow> 's \<Rightarrow> 'a list \<Rightarrow> 's option run" where
  "foldO f s [] = retO s"
| "foldO f s (x # xs) = bindO (f s x) (\<lambda>s'. foldO f s' xs)"

definition dbm_repair :: "vert_id \<Rightarrow> vert_id \<Rightarrow> split_dbm \<Rightarrow> split_dbm option run" where
  "dbm_repair source dest d =
    bindR (repair_potential (whole (db_g d)) (db_potential d) source dest) (\<lambda>r.
      Some (Inr (map_option (\<lambda>p. d\<lparr>db_potential := p\<rparr>) r)))"

definition add_lower_bound :: "split_dbm \<Rightarrow> variable_t \<times> Weight \<Rightarrow> split_dbm option run" where
  "add_lower_bound d = (\<lambda>(var, n).
    bindR (lift_res (get_vert var d)) (\<lambda>(vert, d).
      if (case graph_lookup (db_g d) vert 0 of Some w \<Rightarrow> w \<le> - n | None \<Rightarrow> False) then retO d
      else dbm_repair vert 0 (d\<lparr>db_g := set_edge vert (- n) 0 (db_g d)\<rparr>)))"

definition add_upper_bound :: "split_dbm \<Rightarrow> variable_t \<times> Weight \<Rightarrow> split_dbm option run" where
  "add_upper_bound d = (\<lambda>(var, n).
    bindR (lift_res (get_vert var d)) (\<lambda>(vert, d).
      if (case graph_lookup (db_g d) 0 vert of Some w \<Rightarrow> w \<le> n | None \<Rightarrow> False) then retO d
      else dbm_repair 0 vert (d\<lparr>db_g := set_edge 0 n vert (db_g d)\<rparr>)))"

definition add_difference :: "split_dbm \<Rightarrow> diffcst_t \<Rightarrow> split_dbm option run" where
  "add_difference d = (\<lambda>((x, y), k).
    bindR (lift_res (get_vert y d)) (\<lambda>(source, d).
    bindR (lift_res (get_vert x d)) (\<lambda>(dest, d).
    bindO (dbm_repair source dest (d\<lparr>db_g := update_edge source k dest (db_g d)\<rparr>)) (\<lambda>d.
    bindR (lift_res (close_over_edge (db_g d) source dest)) (\<lambda>g. retO (d\<lparr>db_g := g\<rparr>))))))"

definition add_linear_leq :: "names \<Rightarrow> linear_expression_t \<Rightarrow> split_dbm \<Rightarrow> split_dbm option run" where
  "add_linear_leq ns exp d =
    bindR (lift_res (diffcsts_of_lin_leq ns d exp)) (\<lambda>(csts, lbs, ubs).
    bindO (foldO add_lower_bound d lbs) (\<lambda>d.
    bindO (foldO add_upper_bound d ubs) (\<lambda>d.
    bindO (foldO add_difference d csts) (\<lambda>d.
      bindR (dbm_normalize (d\<lparr>db_g := apply_delta (db_g d) (close_after_assign (whole (db_g d)) (\<lambda>v. db_potential d ! v) 0)\<rparr>)) retO))))"

definition trim_interval :: "interval_t \<Rightarrow> number_t \<Rightarrow> interval_t" where
  "trim_interval i n =
    (if ivl_lb i = finite_ext n then interval (finite_ext (n + 1)) (ivl_ub i)
     else if ivl_ub i = finite_ext n then interval (ivl_lb i) (finite_ext (n - 1))
     else if is_top i \<and> n = 0 then interval (finite_ext 1) (finite_ext (type_max uint64_t))
     else i)"

text \<open>Strengthening the lower bound of vertex \<open>v\<close>, then the bounds that follow by its incoming edges.\<close>

definition propagate_lower :: "Weight \<Rightarrow> split_dbm \<Rightarrow> vert_id \<times> Weight \<Rightarrow> split_dbm option run" where
  "propagate_lower lb_val d = (\<lambda>(u, val).
    if u = 0 then retO d else dbm_repair u 0 (d\<lparr>db_g := update_edge u (val + lb_val) 0 (db_g d)\<rparr>))"

definition strengthen_lower :: "vert_id \<Rightarrow> bound_t \<Rightarrow> split_dbm \<Rightarrow> split_dbm option run" where
  "strengthen_lower v lb d = (case ext_number lb of
      None \<Rightarrow> retO d
    | Some n \<Rightarrow>
        if (case graph_lookup (db_g d) v 0 of Some w \<Rightarrow> - n < w | None \<Rightarrow> False) then
          bindO (dbm_repair v 0 (d\<lparr>db_g := set_edge v (- n) 0 (db_g d)\<rparr>)) (\<lambda>d.
            foldO (propagate_lower (- n)) d (graph_e_preds (db_g d) v))
        else retO d)"

definition propagate_upper :: "Weight \<Rightarrow> split_dbm \<Rightarrow> vert_id \<times> Weight \<Rightarrow> split_dbm option run" where
  "propagate_upper ub_val d = (\<lambda>(u, val).
    if u = 0 then retO d else dbm_repair 0 u (d\<lparr>db_g := update_edge 0 (val + ub_val) u (db_g d)\<rparr>))"

definition strengthen_upper :: "vert_id \<Rightarrow> bound_t \<Rightarrow> split_dbm \<Rightarrow> split_dbm option run" where
  "strengthen_upper v ub d = (case ext_number ub of
      None \<Rightarrow> retO d
    | Some n \<Rightarrow>
        if (case graph_lookup (db_g d) 0 v of Some w \<Rightarrow> n < w | None \<Rightarrow> False) then
          bindO (dbm_repair 0 v (d\<lparr>db_g := set_edge 0 n v (db_g d)\<rparr>)) (\<lambda>d.
            foldO (propagate_upper n) d (graph_e_succs (db_g d) v))
        else retO d)"

definition add_univar_disequation :: "names \<Rightarrow> variable_t \<Rightarrow> number_t \<Rightarrow> split_dbm \<Rightarrow> split_dbm option run" where
  "add_univar_disequation ns x n d =
    bindR (lift_res (get_interval ns d x 0)) (\<lambda>i.
      let new_i = trim_interval i n in
      if is_bottom new_i then Some (Inr None)
      else if is_top new_i \<or> \<not> ivl_le new_i i then retO d
      else
        bindR (lift_res (get_vert x d)) (\<lambda>(v, d).
        bindO (strengthen_lower v (ivl_lb new_i) d) (\<lambda>d.
        bindO (strengthen_upper v (ivl_ub new_i) d) (\<lambda>d.
          bindR (dbm_normalize d) retO))))"

definition disequation_term :: "names \<Rightarrow> linear_expression_t \<Rightarrow> split_dbm \<Rightarrow> variable_t \<times> number_t \<Rightarrow> split_dbm option run" where
  "disequation_term ns e d = (\<lambda>(variable, coefficient).
    bindR (lift_res (bindE (compute_residual ns d e variable) (\<lambda>r. ivl_div r (interval_num coefficient)))) (\<lambda>i.
      case singleton i of Some k \<Rightarrow> add_univar_disequation ns variable k d | None \<Rightarrow> retO d))"

definition add_constraint :: "names \<Rightarrow> linear_constraint_t \<Rightarrow> split_dbm \<Rightarrow> split_dbm option run" where
  "add_constraint ns cst d =
    (if is_tautology cst then retO d
     else if is_contradiction cst then Some (Inr None)
     else bindO (case cst_kind cst of
         LESS_THAN_OR_EQUALS_ZERO \<Rightarrow> add_linear_leq ns (cst_expression cst) d
       | LESS_THAN_ZERO \<Rightarrow> add_linear_leq ns (lin_plus_const (cst_expression cst) 1) d
       | EQUALS_ZERO \<Rightarrow>
           bindO (add_linear_leq ns (cst_expression cst) d) (add_linear_leq ns (lin_negate (cst_expression cst)))
       | NOT_ZERO \<Rightarrow> foldO (disequation_term ns (cst_expression cst)) d (variable_terms (cst_expression cst)))
       (\<lambda>d. bindR (dbm_normalize d) retO))"

section \<open>Assignment\<close>

definition dbm_set :: "variable_t \<Rightarrow> interval_t \<Rightarrow> split_dbm \<Rightarrow> split_dbm run" where
  "dbm_set x intv d =
    (if is_bottom intv then Some (Inl AssertionFailure)
     else bindR (forget_var x d) (\<lambda>d.
       if is_top intv then Some (Inr d)
       else bindR (lift_res (get_vert x d)) (\<lambda>(v, d).
         let d = (case ext_number (ivl_ub intv) of None \<Rightarrow> d
                  | Some ub \<Rightarrow> d\<lparr>db_potential := (db_potential d)[v := db_potential d ! 0 + ub], db_g := set_edge 0 ub v (db_g d)\<rparr>);
             d = (case ext_number (ivl_lb intv) of None \<Rightarrow> d
                  | Some lb \<Rightarrow> d\<lparr>db_potential := (db_potential d)[v := db_potential d ! 0 + lb], db_g := set_edge v (- lb) 0 (db_g d)\<rparr>)
         in dbm_normalize d)))"

definition set_and_normalize :: "variable_t \<Rightarrow> interval_t \<Rightarrow> split_dbm \<Rightarrow> split_dbm run" where
  "set_and_normalize x intv d = bindR (dbm_set x intv d) dbm_normalize"

text \<open>The vertex that the assigned variable moves to, with its potential.\<close>

definition assign_vertex :: "variable_t \<Rightarrow> Weight \<Rightarrow> split_dbm \<Rightarrow> (vert_id \<times> split_dbm) res" where
  "assign_vertex lhs e_val d =
    (let (vert, g) = new_vertex (db_g d); d = d\<lparr>db_g := g\<rparr>; pot = db_potential d ! 0 + e_val in
     if \<not> vert \<le> length (db_rev_map d) then Inl AssertionFailure
     else Inr (vert, if vert = length (db_rev_map d)
       then d\<lparr>db_rev_map := db_rev_map d @ [Some lhs], db_potential := db_potential d @ [pot]\<rparr>
       else d\<lparr>db_potential := (db_potential d)[vert := pot], db_rev_map := (db_rev_map d)[vert := Some lhs]\<rparr>))"

text \<open>The edges of the difference constraints; a variable without a vertex gets one.\<close>

definition delta_of_diffs :: "(vert_id \<Rightarrow> Weight \<Rightarrow> vert_id \<times> vert_id \<times> Weight) \<Rightarrow> (variable_t \<times> Weight) list \<Rightarrow>
    split_dbm \<times> edge_vector \<Rightarrow> (split_dbm \<times> edge_vector) res" where
  "delta_of_diffs mk diffs st =
    foldE (\<lambda>(d, delta) (var, n). bindE (get_vert var d) (\<lambda>(u, d). Inr (d, delta @ [mk u n]))) st diffs"

definition assign_edges :: "vert_id \<Rightarrow> (variable_t \<times> Weight) list \<Rightarrow> (variable_t \<times> Weight) list \<Rightarrow> interval_t \<Rightarrow> split_dbm \<Rightarrow> split_dbm res" where
  "assign_edges vert diffs_lb diffs_ub value_interval d =
    bindE (delta_of_diffs (\<lambda>u n. (vert, u, - n)) diffs_lb (d, [])) (\<lambda>st.
    bindE (delta_of_diffs (\<lambda>u n. (u, vert, n)) diffs_ub st) (\<lambda>(d, delta).
      let g = apply_delta (db_g d) delta;
          g = apply_delta g (close_after_assign (sub_graph (whole g) 0) (\<lambda>v. db_potential d ! v) vert);
          g = (case ext_number (ivl_lb value_interval) of None \<Rightarrow> g | Some lb \<Rightarrow> update_edge vert (- lb) 0 g);
          g = (case ext_number (ivl_ub value_interval) of None \<Rightarrow> g | Some ub \<Rightarrow> update_edge 0 ub vert g)
      in Inr (d\<lparr>db_g := g\<rparr>)))"

definition dbm_assign :: "names \<Rightarrow> variable_t \<Rightarrow> linear_expression_t \<Rightarrow> split_dbm \<Rightarrow> split_dbm run" where
  "dbm_assign ns lhs e d =
    bindR (lift_res (eval_interval ns d e)) (\<lambda>value_interval.
      if ivl_is_singleton value_interval then set_and_normalize lhs value_interval d
      else
        bindR (lift_res (diffcsts_of_assign ns d e True)) (\<lambda>diffs_ub.
        bindR (lift_res (diffcsts_of_assign ns d e False)) (\<lambda>diffs_lb.
          if diffs_lb = [] \<and> diffs_ub = [] then set_and_normalize lhs value_interval d
          else
            bindR (lift_res (assign_vertex lhs (eval_expression d e) d)) (\<lambda>(vert, d).
            bindR (lift_res (assign_edges vert diffs_lb diffs_ub value_interval d)) (\<lambda>d.
            bindR (forget_var lhs d) (\<lambda>d.
              dbm_normalize (d\<lparr>db_vert_map := omap_put lhs vert (db_vert_map d)\<rparr>)))))))"

text \<open>The overloads for an optional variable, an integer, a variable and an optional expression.\<close>

definition assign_optional_var :: "names \<Rightarrow> variable_t option \<Rightarrow> linear_expression_t \<Rightarrow> split_dbm \<Rightarrow> split_dbm run" where
  "assign_optional_var ns x e d = (case x of Some x \<Rightarrow> dbm_assign ns x e d | None \<Rightarrow> Some (Inr d))"

definition assign_int :: "names \<Rightarrow> variable_t \<Rightarrow> int \<Rightarrow> split_dbm \<Rightarrow> split_dbm run" where
  "assign_int ns x n d = dbm_assign ns x (lin_const n) d"

definition assign_var :: "names \<Rightarrow> variable_t \<Rightarrow> variable_t \<Rightarrow> split_dbm \<Rightarrow> split_dbm run" where
  "assign_var ns x v d = dbm_assign ns x (lin_var v) d"

definition assign_optional_expr :: "names \<Rightarrow> variable_t \<Rightarrow> linear_expression_t option \<Rightarrow> split_dbm \<Rightarrow> split_dbm run" where
  "assign_optional_expr ns x e d = (case e of Some e \<Rightarrow> dbm_assign ns x e d | None \<Rightarrow> forget_var x d)"

section \<open>Operators\<close>

text \<open>Operations other than addition, subtraction and multiplication by a number go through intervals.\<close>

definition set_result :: "variable_t \<Rightarrow> interval_t res \<Rightarrow> split_dbm \<Rightarrow> split_dbm run" where
  "set_result x r d = bindR (lift_res r) (\<lambda>i. dbm_set x i d)"

definition arith_interval :: "arith_binop_t \<Rightarrow> interval_t \<Rightarrow> interval_t \<Rightarrow> interval_t res" where
  "arith_interval op i j = (case op of
      MUL \<Rightarrow> Inr (ivl_mul i j) | SDIV \<Rightarrow> SDiv i j | UDIV \<Rightarrow> UDiv i j | SREM \<Rightarrow> SRem i j | UREM \<Rightarrow> URem i j
    | _ \<Rightarrow> Inl (RuntimeError ''DBM: unreachable''))"

definition apply_arith_var :: "names \<Rightarrow> arith_binop_t \<Rightarrow> variable_t \<Rightarrow> variable_t \<Rightarrow> variable_t \<Rightarrow> int \<Rightarrow> split_dbm \<Rightarrow> split_dbm run" where
  "apply_arith_var ns op x y z finite_width d =
    bindR (case op of
        ADD \<Rightarrow> dbm_assign ns x (lin_plus_var (lin_var y) z) d
      | SUB \<Rightarrow> dbm_assign ns x (lin_subtract_var (lin_var y) z) d
      | _ \<Rightarrow> set_result x (bindE (get_interval ns d y finite_width) (\<lambda>i. bindE (get_interval ns d z finite_width) (arith_interval op i))) d)
      dbm_normalize"

definition read_imm_for_udiv_or_umod :: "number_t \<Rightarrow> int \<Rightarrow> number_t res" where
  "read_imm_for_udiv_or_umod k width =
    (if \<not> (width = 32 \<or> width = 64) then Inl AssertionFailure
     else if width = 32 then cast_to uint32_t k else cast_to int32_t k)"

definition read_imm_for_sdiv_or_smod :: "number_t \<Rightarrow> int \<Rightarrow> number_t res" where
  "read_imm_for_sdiv_or_smod k width =
    (if \<not> (width = 32 \<or> width = 64) then Inl AssertionFailure
     else if width = 32 then cast_to int32_t k else cast_to int64_t k)"

definition read_imm :: "arith_binop_t \<Rightarrow> number_t \<Rightarrow> int \<Rightarrow> number_t res" where
  "read_imm op k width =
    (if op = SDIV \<or> op = SREM then read_imm_for_sdiv_or_smod k width else read_imm_for_udiv_or_umod k width)"

definition apply_arith_num :: "names \<Rightarrow> arith_binop_t \<Rightarrow> variable_t \<Rightarrow> variable_t \<Rightarrow> number_t \<Rightarrow> int \<Rightarrow> split_dbm \<Rightarrow> split_dbm run" where
  "apply_arith_num ns op x y k finite_width d =
    bindR (case op of
        ADD \<Rightarrow> dbm_assign ns x (lin_plus_const (lin_var y) k) d
      | SUB \<Rightarrow> dbm_assign ns x (lin_subtract_const (lin_var y) k) d
      | MUL \<Rightarrow> dbm_assign ns x (lin_term k y) d
      | _ \<Rightarrow> set_result x (bindE (get_interval ns d y finite_width) (\<lambda>i.
               bindE (read_imm op k finite_width) (\<lambda>n. arith_interval op i (interval_num n)))) d)
      dbm_normalize"

definition bitwise_interval :: "bitwise_binop_t \<Rightarrow> interval_t \<Rightarrow> interval_t \<Rightarrow> interval_t res" where
  "bitwise_interval op yi zi = (case op of
      Bitwise_AND \<Rightarrow> ivl_And yi zi | Bitwise_OR \<Rightarrow> ivl_Or yi zi | Bitwise_XOR \<Rightarrow> ivl_Xor yi zi
    | SHL \<Rightarrow> Inr (ivl_Shl yi zi) | LSHR \<Rightarrow> ivl_LShr yi zi | ASHR \<Rightarrow> ivl_AShr yi zi)"

definition apply_bitwise_var :: "names \<Rightarrow> bitwise_binop_t \<Rightarrow> variable_t \<Rightarrow> variable_t \<Rightarrow> variable_t \<Rightarrow> int \<Rightarrow> split_dbm \<Rightarrow> split_dbm run" where
  "apply_bitwise_var ns op x y z finite_width d =
    bindR (set_result x (bindE (dbm_index ns d y) (\<lambda>yi. bindE (dbm_index ns d z) (bitwise_interval op yi))) d) dbm_normalize"

definition apply_bitwise_num :: "names \<Rightarrow> bitwise_binop_t \<Rightarrow> variable_t \<Rightarrow> variable_t \<Rightarrow> number_t \<Rightarrow> int \<Rightarrow> split_dbm \<Rightarrow> split_dbm run" where
  "apply_bitwise_num ns op x y k finite_width d =
    bindR (dbm_normalize d) (\<lambda>d.
    bindR (set_result x (bindE (dbm_index ns d y) (\<lambda>yi. bindE (cast_to uint64_t k) (\<lambda>n. bitwise_interval op yi (interval_num n)))) d)
      dbm_normalize)"

section \<open>Order\<close>

fun allE :: "('a \<Rightarrow> bool res) \<Rightarrow> 'a list \<Rightarrow> bool res" where
  "allE f [] = Inr True"
| "allE f (x # xs) = bindE (f x) (\<lambda>b. if b then allE f xs else Inr False)"

text \<open>The vertices of the right state renamed to those of the left; \<open>None\<close> when one has no counterpart.\<close>

fun leq_renaming :: "vert_map_t \<Rightarrow> adapt_graph \<Rightarrow> (variable_t \<times> vert_id) list \<Rightarrow> vert_id list \<Rightarrow> vert_id list option" where
  "leq_renaming m og [] vert_renaming = Some vert_renaming"
| "leq_renaming m og ((v, n) # vs) vert_renaming =
    (if graph_succs og n = [] \<and> graph_preds og n = [] then leq_renaming m og vs vert_renaming
     else case try_at m v of Some y \<Rightarrow> leq_renaming m og vs (vert_renaming[n := y]) | None \<Rightarrow> None)"

definition leq_edge :: "adapt_graph \<Rightarrow> vert_id list \<Rightarrow> vert_id \<Rightarrow> vert_id \<times> Weight \<Rightarrow> bool res" where
  "leq_edge g vert_renaming x = (\<lambda>(oy, ow).
    let y = vert_renaming ! oy in
    if y = invalid_vert then Inl AssertionFailure
    else Inr ((case graph_lookup g x y of Some w \<Rightarrow> w \<le> ow | None \<Rightarrow> False) \<or>
      (case (graph_lookup g x 0, graph_lookup g 0 y) of (Some wx, Some wy) \<Rightarrow> wx + wy \<le> ow | _ \<Rightarrow> False)))"

definition leq_vertex :: "adapt_graph \<Rightarrow> adapt_graph \<Rightarrow> vert_id list \<Rightarrow> vert_id \<Rightarrow> bool res" where
  "leq_vertex g og vert_renaming ox =
    (if graph_succs og ox = [] then Inr True
     else if vert_renaming ! ox = invalid_vert then Inl AssertionFailure
     else allE (leq_edge g vert_renaming (vert_renaming ! ox)) (graph_e_succs og ox))"

definition dbm_leq :: "split_dbm \<Rightarrow> split_dbm \<Rightarrow> bool res" where
  "dbm_leq d e =
    (if dbm_is_top e then Inr True
     else if dbm_is_top d then Inr False
     else if length (db_vert_map d) < length (db_vert_map e) then Inr False
     else
       case leq_renaming (db_vert_map d) (db_g e) (db_vert_map e) ((replicate (graph_size (db_g e)) invalid_vert)[0 := 0]) of
         None \<Rightarrow> Inr False
       | Some vert_renaming \<Rightarrow>
           if \<not> graph_size (db_g d) > 0 then Inl AssertionFailure
           else allE (leq_vertex (db_g d) (db_g e) vert_renaming) (graph_verts (db_g e)))"

section \<open>Join and widening\<close>

text \<open>The variables that both states have, with their vertices.\<close>

definition common_vars :: "split_dbm \<Rightarrow> split_dbm \<Rightarrow> (variable_t \<times> vert_id \<times> vert_id) list" where
  "common_vars d e =
    concat (map (\<lambda>(v, n). case try_at (db_vert_map e) v of Some y \<Rightarrow> [(v, n, y)] | None \<Rightarrow> []) (db_vert_map d))"

definition common_potential :: "Weight list \<Rightarrow> vert_id list \<Rightarrow> Weight list" where
  "common_potential p ns = 0 # map (\<lambda>n. p ! n - p ! 0) ns"

definition out_vmap :: "(variable_t \<times> 'a) list \<Rightarrow> vert_map_t" where
  "out_vmap vs = zip (map fst vs) [1..<Suc (length vs)]"

text \<open>The bounds that \<open>gx\<close> implies through vertex 0 for the relations of \<open>gy\<close>.\<close>

definition deferred_edges :: "graph_view \<Rightarrow> graph_view \<Rightarrow> nat \<Rightarrow> adapt_graph" where
  "deferred_edges gx gy sz =
    (let gy_excl = sub_graph gy 0 in
     fold (\<lambda>(s, d) g. case (gv_lookup gx s 0, gv_lookup gx 0 d) of
         (Some ws, Some wd) \<Rightarrow> add_edge s (ws + wd) d g | _ \<Rightarrow> g)
       (concat (map (\<lambda>s. map (Pair s) (gv_succs gy_excl s)) (gv_verts gy_excl))) (growTo sz graph_new))"

definition meet_and_close :: "graph_view \<Rightarrow> adapt_graph \<Rightarrow> Weight list \<Rightarrow> adapt_graph run" where
  "meet_and_close gx g_i pot =
    bindR (lift_res (graph_meet gx (whole g_i))) (\<lambda>g_r.
    bindR (close_after_meet (sub_graph (whole g_r) 0) (\<lambda>v. pot ! v) gx (whole g_i)) (\<lambda>delta.
      Some (Inr (apply_delta g_r delta))))"

definition stricter :: "(vert_id \<Rightarrow> Weight option) \<Rightarrow> (vert_id \<Rightarrow> Weight option) \<Rightarrow> vert_id \<Rightarrow> bool" where
  "stricter bx by' v = (case (bx v, by' v) of (Some wx, Some wy) \<Rightarrow> wx < wy | _ \<Rightarrow> False)"

text \<open>The relations between a lower bound that one side improves and an upper bound that the other improves.\<close>

definition cross_edges :: "graph_view \<Rightarrow> graph_view \<Rightarrow> vert_id list \<Rightarrow> vert_id list \<Rightarrow> adapt_graph \<Rightarrow> adapt_graph" where
  "cross_edges gx gy lbs ubs g =
    fold (\<lambda>s g. let dx_s = gv_edge_val gx s 0; dy_s = gv_edge_val gy s 0 in
      fold (\<lambda>d g. if s = d then g
          else update_edge s (max (dx_s + gv_edge_val gx 0 d) (dy_s + gv_edge_val gy 0 d)) d g) ubs g) lbs g"

definition collect_vertex :: "vert_id \<Rightarrow> adapt_graph \<times> vert_map_t \<times> variable_t option list \<Rightarrow> adapt_graph \<times> vert_map_t \<times> variable_t option list" where
  "collect_vertex v = (\<lambda>(g, vm, rm).
    if v = 0 \<or> \<not> (graph_succs g v = [] \<and> graph_preds g v = []) then (g, vm, rm)
    else (graph_forget v g, (case rm ! v of Some x \<Rightarrow> omap_erase x vm | None \<Rightarrow> vm), rm[v := None]))"

definition join_graph :: "graph_view \<Rightarrow> graph_view \<Rightarrow> adapt_graph \<Rightarrow> adapt_graph" where
  "join_graph gx gy g =
    (let vs = gv_verts (sub_graph gx 0);
         ubx = gv_lookup gx 0; uby = gv_lookup gy 0; lbx = (\<lambda>v. gv_lookup gx v 0); lby = (\<lambda>v. gv_lookup gy v 0);
         g = cross_edges gx gy (filter (stricter lby lbx) vs) (filter (stricter ubx uby) vs) g
     in cross_edges gx gy (filter (stricter lbx lby) vs) (filter (stricter uby ubx) vs) g)"

definition dbm_join :: "split_dbm \<Rightarrow> split_dbm \<Rightarrow> split_dbm run" where
  "dbm_join d e =
    (if dbm_is_top e then Some (Inr e)
     else if dbm_is_top d then Some (Inr d)
     else if db_potential d = [] \<or> \<not> graph_size (db_g d) > 0 \<or> \<not> graph_size (db_g e) > 0 then Some (Inl AssertionFailure)
     else
       let cs = common_vars d e;
           xs = map (\<lambda>(v, n, y). n) cs; ys = map (\<lambda>(v, n, y). y) cs;
           pot_rx = common_potential (db_potential d) xs; pot_ry = common_potential (db_potential e) ys;
           gx = graph_perm (0 # xs) (db_g d); gy = graph_perm (0 # ys) (db_g e); sz = Suc (length cs)
       in
         bindR (meet_and_close gx (deferred_edges gx gy sz) pot_rx) (\<lambda>g_rx.
         bindR (meet_and_close gy (deferred_edges gy gx sz) pot_ry) (\<lambda>g_ry.
         bindR (lift_res (graph_join (whole g_rx) (whole g_ry))) (\<lambda>join_g.
           let join_g = join_graph gx gy join_g;
               (join_g, vmap, revmap) = fold collect_vertex (graph_verts join_g) (join_g, out_vmap cs, None # map (\<lambda>(v, _). Some v) cs)
           in mk_dbm vmap revmap join_g pot_rx []))))"

definition dbm_widen :: "split_dbm \<Rightarrow> split_dbm \<Rightarrow> split_dbm run" where
  "dbm_widen d e =
    (if db_potential d = [] \<or> \<not> graph_size (db_g d) > 0 \<or> \<not> graph_size (db_g e) > 0 then Some (Inl AssertionFailure)
     else
       let cs = common_vars d e;
           xs = map (\<lambda>(v, n, y). n) cs; ys = map (\<lambda>(v, n, y). y) cs in
       bindR (lift_res (graph_widen (graph_perm (0 # xs) (db_g d)) (graph_perm (0 # ys) (db_g e)) (db_unstable d))) (\<lambda>(widen_g, unstable).
         mk_dbm (out_vmap cs) (None # map (\<lambda>(v, _). Some v) cs) widen_g (common_potential (db_potential d) xs) unstable))"

section \<open>Meet and narrowing\<close>

record meet_state =
  mt_verts :: vert_map_t
  mt_rev :: "variable_t option list"
  mt_perm_x :: "vert_id list"
  mt_perm_y :: "vert_id list"
  mt_pi :: "Weight list"

definition meet_left :: "split_dbm \<Rightarrow> meet_state" where
  "meet_left d =
    \<lparr>mt_verts = out_vmap (db_vert_map d), mt_rev = None # map (\<lambda>(v, _). Some v) (db_vert_map d),
     mt_perm_x = 0 # map snd (db_vert_map d), mt_perm_y = 0 # map (\<lambda>_. invalid_vert) (db_vert_map d),
     mt_pi = common_potential (db_potential d) (map snd (db_vert_map d))\<rparr>"

definition meet_right :: "Weight list \<Rightarrow> variable_t \<times> vert_id \<Rightarrow> meet_state \<Rightarrow> meet_state" where
  "meet_right p = (\<lambda>(v, n) st. case map_of (mt_verts st) v of
      None \<Rightarrow> st\<lparr>mt_rev := mt_rev st @ [Some v], mt_perm_y := mt_perm_y st @ [n], mt_perm_x := mt_perm_x st @ [invalid_vert],
        mt_pi := mt_pi st @ [p ! n - p ! 0], mt_verts := omap_put v (length (mt_perm_y st)) (mt_verts st)\<rparr>
    | Some i \<Rightarrow> st\<lparr>mt_perm_y := (mt_perm_y st)[i := n]\<rparr>)"

definition dbm_meet :: "split_dbm \<Rightarrow> split_dbm \<Rightarrow> split_dbm option run" where
  "dbm_meet d e =
    (if dbm_is_top d then retO e
     else if dbm_is_top e then retO d
     else if \<not> graph_size (db_g d) > 0 \<or> \<not> graph_size (db_g e) > 0 then Some (Inl AssertionFailure)
     else
       let st = fold (meet_right (db_potential e)) (db_vert_map e) (meet_left d);
           gx = graph_perm (mt_perm_x st) (db_g d); gy = graph_perm (mt_perm_y st) (db_g e) in
       bindR (lift_res (graph_meet gx gy)) (\<lambda>meet_g.
       bindO (select_potentials (whole meet_g) (mt_pi st)) (\<lambda>meet_pi.
       bindR (close_after_meet (sub_graph (whole meet_g) 0) (\<lambda>v. meet_pi ! v) gx gy) (\<lambda>delta.
         let meet_g = apply_delta meet_g delta;
             meet_g = apply_delta meet_g (close_after_assign (whole meet_g) (\<lambda>v. meet_pi ! v) 0) in
         bindR (mk_dbm (mt_verts st) (mt_rev st) meet_g meet_pi []) retO))))"

definition dbm_narrow :: "split_dbm \<Rightarrow> split_dbm \<Rightarrow> split_dbm" where
  "dbm_narrow d e = (if dbm_is_top d then e else d)"

section \<open>Queries\<close>

definition intersect_aux :: "names \<Rightarrow> linear_constraint_t \<Rightarrow> split_dbm \<Rightarrow> bool run" where
  "intersect_aux ns cst d = bindR (add_constraint ns cst d) (\<lambda>r. Some (Inr (r \<noteq> None)))"

definition entail_aux :: "names \<Rightarrow> linear_constraint_t \<Rightarrow> split_dbm \<Rightarrow> bool run" where
  "entail_aux ns cst d = bindR (add_constraint ns (cst_negate cst) d) (\<lambda>r. Some (Inr (r = None)))"

definition dbm_intersect :: "names \<Rightarrow> linear_constraint_t \<Rightarrow> split_dbm \<Rightarrow> bool run" where
  "dbm_intersect ns cst d =
    (if is_contradiction cst then Some (Inr False)
     else if dbm_is_top d \<or> is_tautology cst then Some (Inr True)
     else intersect_aux ns cst d)"

text \<open>The cases that the interval of the expression decides.\<close>

definition entailed_by_interval :: "interval_t \<Rightarrow> constraint_kind_t \<Rightarrow> bool" where
  "entailed_by_interval i k = (case k of
      EQUALS_ZERO \<Rightarrow> singleton i = Some 0
    | LESS_THAN_OR_EQUALS_ZERO \<Rightarrow> ext_le (ivl_ub i) (finite_ext 0)
    | LESS_THAN_ZERO \<Rightarrow> ext_less (ivl_ub i) (finite_ext 0)
    | NOT_ZERO \<Rightarrow> ext_less (ivl_ub i) (finite_ext 0) \<or> ext_greater (ivl_lb i) (finite_ext 0))"

definition dbm_entail :: "names \<Rightarrow> linear_constraint_t \<Rightarrow> split_dbm \<Rightarrow> bool run" where
  "dbm_entail ns rhs d =
    (if is_tautology rhs then Some (Inr True)
     else if is_contradiction rhs then Some (Inr False)
     else bindR (lift_res (eval_interval ns d (cst_expression rhs))) (\<lambda>i.
       if entailed_by_interval i (cst_kind rhs) then Some (Inr True)
       else if cst_kind rhs = EQUALS_ZERO then
         bindR (entail_aux ns (mk_cst (cst_expression rhs) LESS_THAN_OR_EQUALS_ZERO) d) (\<lambda>b.
           if b then entail_aux ns (mk_cst (lin_negate (cst_expression rhs)) LESS_THAN_OR_EQUALS_ZERO) d else Some (Inr False))
       else entail_aux ns rhs d))"

end
