(* ===== verification/Crab_Graph_Sound.thy ===== *)
theory Crab_Graph_Sound
  imports Crab_Graph_Ops
begin

text \<open>
  Meaning of the graphs of difference bounds and correctness of the algorithms on them. An edge of
  weight \<open>w\<close> from \<open>s\<close> to \<open>d\<close> says \<open>d - s \<le> w\<close>. The closure algorithms only add bounds that all solutions
  satisfy, whatever the potentials are, and end on every graph that has a solution; repairing the
  potentials always ends, and decides whether there is one.
\<close>

section \<open>Solutions\<close>

definition sat :: "edge_map \<Rightarrow> (vert_id \<Rightarrow> int) \<Rightarrow> bool" where
  "sat E q \<longleftrightarrow> (\<forall>s d w. E (s, d) = Some w \<longrightarrow> q d - q s \<le> w)"

definition entails :: "edge_map \<Rightarrow> vert_id \<Rightarrow> Weight \<Rightarrow> vert_id \<Rightarrow> bool" where
  "entails E s w d \<longleftrightarrow> (\<forall>q. sat E q \<longrightarrow> q d - q s \<le> w)"

lemma satD: "sat E q \<Longrightarrow> E (s, d) = Some w \<Longrightarrow> q d - q s \<le> w"
  by (simp add: sat_def)

lemma entailsD: "entails E s w d \<Longrightarrow> sat E q \<Longrightarrow> q d - q s \<le> w"
  by (simp add: entails_def)

lemma entails_edge: "E (s, d) = Some w \<Longrightarrow> entails E s w d"
  by (simp add: entails_def sat_def)

lemma entails_trans: "entails E s a m \<Longrightarrow> entails E m b d \<Longrightarrow> entails E s (a + b) d"
  unfolding entails_def by fastforce

lemma entails_le: "entails E s a d \<Longrightarrow> a \<le> b \<Longrightarrow> entails E s b d"
  unfolding entails_def by fastforce

lemma entails_refl: "entails E s 0 s"
  by (simp add: entails_def)

lemma sat_upd: "sat E q \<Longrightarrow> entails E s w d \<Longrightarrow> sat (E((s, d) \<mapsto> w)) q"
  by (auto simp: sat_def entails_def)

lemma sat_mono: "sat E q \<Longrightarrow> (\<And>s d w. E' (s, d) = Some w \<Longrightarrow> entails E s w d) \<Longrightarrow> sat E' q"
  by (auto simp: sat_def entails_def)

lemma sat_shift: "sat E q \<Longrightarrow> sat E (\<lambda>v. q v + k)"
  by (simp add: sat_def)

lemma sat_empty [simp]: "sat Map.empty q"
  by (simp add: sat_def)

lemma sat_join: "sat L q \<or> sat R q \<Longrightarrow> sat (edges_join L R) q"
  unfolding sat_def edges_join_def by (fastforce split: option.splits)

lemma sat_widen: "sat L q \<or> sat R q \<Longrightarrow> sat (edges_widen L R) q"
  unfolding sat_def edges_widen_def by (fastforce split: option.splits if_splits)

lemma sat_meet: "sat (edges_meet L R) q \<longleftrightarrow> sat L q \<and> sat R q"
proof
  assume m: "sat (edges_meet L R) q"
  have "q d - q s \<le> w" if e: "L (s, d) = Some w \<or> R (s, d) = Some w" for s d w
  proof -
    obtain w' where "edges_meet L R (s, d) = Some w'" "w' \<le> w"
      using e by (cases "L (s, d)"; cases "R (s, d)") (auto simp: edges_meet_def)
    then show ?thesis using satD [OF m] by fastforce
  qed
  then show "sat L q \<and> sat R q" by (simp add: sat_def)
next
  assume "sat L q \<and> sat R q"
  then show "sat (edges_meet L R) q" unfolding sat_def edges_meet_def by (auto split: option.splits simp: min_def)
qed

text \<open>Adding entailed bounds keeps every solution.\<close>

definition delta_ok :: "edge_map \<Rightarrow> vert_id set \<Rightarrow> edge_vector \<Rightarrow> bool" where
  "delta_ok E V delta \<longleftrightarrow> (\<forall>s d w. (s, d, w) \<in> set delta \<longrightarrow> s \<in> V \<and> d \<in> V \<and> entails E s w d)"

lemma delta_ok_simps [simp]: "delta_ok E V []" "delta_ok E V (xs @ ys) \<longleftrightarrow> delta_ok E V xs \<and> delta_ok E V ys"
  by (auto simp: delta_ok_def)

lemma delta_ok_mono: "delta_ok E' V' delta \<Longrightarrow> V' \<subseteq> V \<Longrightarrow> (\<And>q. sat E q \<Longrightarrow> sat E' q) \<Longrightarrow> delta_ok E V delta"
  by (fastforce simp: delta_ok_def entails_def)

lemma fold_upd_sat:
  assumes "delta_ok E V delta" "sat E q" "sat E' q"
  shows "sat (fold (\<lambda>(s, d, w) m. m((s, d) \<mapsto> w)) delta E') q"
  using assms
proof (induction delta arbitrary: E')
  case (Cons e delta)
  obtain s d w where e: "e = (s, d, w)" by (cases e)
  have "q d - q s \<le> w" using Cons.prems e by (auto simp: delta_ok_def entails_def)
  then have "sat (E'((s, d) \<mapsto> w)) q" using Cons.prems(3) by (auto simp: sat_def)
  moreover have "delta_ok E V delta" using Cons.prems(1) by (simp add: delta_ok_def)
  ultimately have "sat (fold (\<lambda>(s, d, w) m. m((s, d) \<mapsto> w)) delta (E'((s, d) \<mapsto> w))) q" using Cons by blast
  then show ?case unfolding e by (simp only: fold_simps prod.case)
qed simp

lemma apply_delta_ok:
  assumes "graph_ok g" "delta_ok (edges g) (verts g) delta"
  shows "graph_ok (apply_delta g delta)" "verts (apply_delta g delta) = verts g"
    "sat (edges g) q \<Longrightarrow> sat (edges (apply_delta g delta)) q"
proof -
  have "\<forall>(s, d, w) \<in> set delta. s \<in> verts g \<and> d \<in> verts g" using assms(2) by (auto simp: delta_ok_def)
  note a = adapt.set_all [OF assms(1) this, folded apply_delta_def]
  then show "graph_ok (apply_delta g delta)" "verts (apply_delta g delta) = verts g" by blast+
  show "sat (edges g) q \<Longrightarrow> sat (edges (apply_delta g delta)) q" using a fold_upd_sat [OF assms(2)] by simp
qed

lemma apply_delta_size [simp]: "graph_size (apply_delta g delta) = graph_size g" "ag_free_id (apply_delta g delta) = ag_free_id g"
  by (induction delta arbitrary: g) (auto simp: apply_delta_def)

section \<open>The shortest-path loops\<close>

text \<open>
  Every distance is a bound that all solutions satisfy, and the queue holds vertices with a
  distance. For one solution \<open>q\<close>, distances are bounded below, so that lowering one can happen only
  finitely often.
\<close>

definition dist_ok :: "edge_map \<Rightarrow> vert_id set \<Rightarrow> potential_fn \<Rightarrow> vert_id \<Rightarrow> dijkstra \<Rightarrow> bool" where
  "dist_ok E V p source st \<longleftrightarrow> heap_ok (dj_heap st) \<and> heap_elems (dj_heap st) \<subseteq> dom (dj_dist st) \<and> dom (dj_dist st) \<subseteq> V \<and>
     (\<forall>v k. dj_dist st v = Some k \<longrightarrow> entails E source (k + p v - p source) v)"

definition out_ok :: "edge_map \<Rightarrow> vert_id set \<Rightarrow> vert_id \<Rightarrow> (vert_id \<times> Weight) list \<Rightarrow> bool" where
  "out_ok E V source out \<longleftrightarrow> (\<forall>d w. (d, w) \<in> set out \<longrightarrow> d \<in> V \<and> entails E source w d)"

definition slack :: "potential_fn \<Rightarrow> vert_id \<Rightarrow> (vert_id \<Rightarrow> int) \<Rightarrow> dijkstra \<Rightarrow> vert_id \<Rightarrow> nat" where
  "slack p source q st v = (case dj_dist st v of None \<Rightarrow> 0 | Some k \<Rightarrow> nat (k + p v - p source - (q v - q source)))"

definition slacks :: "vert_id set \<Rightarrow> potential_fn \<Rightarrow> vert_id \<Rightarrow> (vert_id \<Rightarrow> int) \<Rightarrow> dijkstra \<Rightarrow> nat \<times> nat" where
  "slacks V p source q st = (card (V - dom (dj_dist st)), \<Sum>v \<in> V. slack p source q st v)"

definition dijkstra_rel :: "vert_id set \<Rightarrow> potential_fn \<Rightarrow> vert_id \<Rightarrow> (vert_id \<Rightarrow> int) \<Rightarrow> (dijkstra \<times> dijkstra) set" where
  "dijkstra_rel V p source q =
    inv_image (less_than <*lex*> less_than <*lex*> less_than)
      (\<lambda>st. (fst (slacks V p source q st), snd (slacks V p source q st), card (heap_elems (dj_heap st))))"

lemma wf_dijkstra_rel: "wf (dijkstra_rel V p source q)"
  unfolding dijkstra_rel_def by (intro wf_inv_image wf_lex_prod wf_less_than)

lemma lex_pair: "((a, b), (c, d)) \<in> less_than <*lex*> less_than \<longleftrightarrow> a < c \<or> a = c \<and> b < d"
  by simp

lemma slacks_less:
  assumes "finite V" "sat E q" "dist_ok E V p source st" "ed \<in> V" "dj_dist st ed = None \<or> v < the (dj_dist st ed)"
    and "entails E source (v + p ed - p source) ed"
    and st': "dj_dist st' = (dj_dist st)(ed := Some v)"
  shows "(slacks V p source q st', slacks V p source q st) \<in> less_than <*lex*> less_than"
proof (cases "dj_dist st ed")
  case None
  have "V - dom (dj_dist st') = (V - dom (dj_dist st)) - {ed}" by (auto simp: st')
  moreover have "ed \<in> V - dom (dj_dist st)" using assms(4) None by (auto simp: domIff)
  ultimately have "card (V - dom (dj_dist st')) < card (V - dom (dj_dist st))" using assms(1) by (metis card_Diff1_less finite_Diff)
  then show ?thesis by (simp add: slacks_def lex_pair)
next
  case (Some k)
  have same: "V - dom (dj_dist st') = V - dom (dj_dist st)" using Some by (auto simp: st' dom_def)
  have "q ed - q source \<le> v + p ed - p source" using entailsD [OF assms(6,2)] by simp
  then have lt: "slack p source q st' ed < slack p source q st ed" using assms(5) Some by (simp add: slack_def st')
  have other: "slack p source q st' u = slack p source q st u" if "u \<noteq> ed" for u using that by (simp add: slack_def st')
  have "(\<Sum>u \<in> V. slack p source q st' u) < (\<Sum>u \<in> V. slack p source q st u)"
  proof (rule sum_strict_mono_ex1)
    show "\<forall>u \<in> V. slack p source q st' u \<le> slack p source q st u" using lt other by (metis le_less order_refl)
    show "\<exists>u \<in> V. slack p source q st' u < slack p source q st u" using lt assms(4) by blast
  qed (rule assms(1))
  then show ?thesis using same by (simp add: slacks_def lex_pair)
qed

lemma heap_put_ok:
  assumes "heap_ok h"
  shows "\<exists>h'. heap_put dists v h = Inr h' \<and> heap_ok h' \<and> heap_elems h' = insert v (heap_elems h)"
  using heap_queue.put_law [OF assms, of v dists dists] by (auto simp: heap_put_def dists_compare_def)

text \<open>A relaxation keeps the invariant, and lowers the measure unless it changes no distance.\<close>

definition relaxed :: "vert_id set \<Rightarrow> potential_fn \<Rightarrow> vert_id \<Rightarrow> (vert_id \<Rightarrow> int) \<Rightarrow> dijkstra \<Rightarrow> dijkstra \<Rightarrow> bool" where
  "relaxed V p source q st st' \<longleftrightarrow> (slacks V p source q st', slacks V p source q st) \<in> less_than <*lex*> less_than \<or>
     dj_dist st' = dj_dist st \<and> dj_heap st' = dj_heap st"

lemma relaxed_trans: "relaxed V p source q a b \<Longrightarrow> relaxed V p source q b c \<Longrightarrow> relaxed V p source q a c"
  by (auto simp: relaxed_def slacks_def slack_def)

lemma dijkstra_relax_ok:
  assumes "finite V" "sat E q" "dist_ok E V p source st" "ed \<in> V" "entails E source (v + p ed - p source) ed"
  shows "\<exists>st'. dijkstra_relax v mark ed st = Inr st' \<and> dist_ok E V p source st' \<and> relaxed V p source q st st'"
proof (cases "dj_dist st ed = None \<or> v < the (dj_dist st ed)")
  case True
  let ?st = "st\<lparr>dj_dist := (dj_dist st)(ed := Some v), dj_mark := (dj_mark st)(ed := mark)\<rparr>"
  have hok: "heap_ok (dj_heap st)" using assms(3) by (simp add: dist_ok_def)
  obtain h where h: "heap_put (dists_of (dj_dist ?st)) ed (dj_heap st) = Inr h" "heap_ok h" "heap_elems h = insert ed (heap_elems (dj_heap st))"
    using heap_put_ok [OF hok, of "dists_of (dj_dist ?st)" ed] by blast
  have "(slacks V p source q (?st\<lparr>dj_heap := h\<rparr>), slacks V p source q st) \<in> less_than <*lex*> less_than"
    by (rule slacks_less [OF assms(1-4) True assms(5)]) simp
  moreover have "dist_ok E V p source (?st\<lparr>dj_heap := h\<rparr>)" using assms(3-5) h by (auto simp: dist_ok_def)
  moreover have "dijkstra_relax v mark ed st = Inr (?st\<lparr>dj_heap := h\<rparr>)" using True h(1) by (simp add: dijkstra_relax_def Let_def)
  ultimately show ?thesis unfolding relaxed_def by blast
next
  case False
  then show ?thesis using assms(3) by (auto simp: dijkstra_relax_def dist_ok_def relaxed_def)
qed

lemma dijkstra_round_ok:
  assumes g: "presents g E V" and fin: "finite V" and q: "sat E q" and src: "source \<in> V"
    and expand: "\<And>es mark ed val m. es \<in> V \<Longrightarrow> (ed, val, m) \<in> set (expand es mark) \<Longrightarrow> E (es, ed) = Some val"
    and inv: "dist_ok E V p source st \<and> out_ok E V source out"
  shows "(\<exists>st' out'. dijkstra_round g p source expand (st, out) = Some (Inr (Inl (st', out'))) \<and>
      (dist_ok E V p source st' \<and> out_ok E V source out') \<and> (st', st) \<in> dijkstra_rel V p source q) \<or>
    dijkstra_round g p source expand (st, out) = Some (Inr (Inr out))"
proof (cases "heap_empty (dj_heap st)")
  case False
  obtain es h where r: "heap_removeMin (dists_compare (dists_of (dj_dist st))) (dj_heap st) = (es, h)" by fastforce
  have ne: "heap_elems (dj_heap st) \<noteq> {}" using False by (simp add: heap_empty_iff)
  have hok: "heap_ok (dj_heap st)" using inv by (simp add: dist_ok_def)
  note rem = heap_queue.rem_law [OF hok ne r [unfolded dists_compare_def]]
  have es: "es \<in> V" "es \<in> dom (dj_dist st)" using rem inv by (auto simp: dist_ok_def)
  let ?cost = "dists_of (dj_dist st) es + p es"
  have ent: "entails E source (?cost - p source) es" using inv es(2) by (auto simp: dist_ok_def dists_of_def)
  let ?out = "case gv_lookup g source es of None \<Rightarrow> out @ [(es, ?cost - p source)]
    | Some w \<Rightarrow> if w > ?cost - p source then out @ [(es, ?cost - p source)] else out"
  have out: "out_ok E V source ?out" using inv ent es(1) by (auto simp: out_ok_def split: option.splits)
  let ?st = "st\<lparr>dj_heap := h\<rparr>"
  have start: "dist_ok E V p source ?st" using inv rem by (auto simp: dist_ok_def)
  have step: "\<exists>s'. (case x of (ed, val, mark) \<Rightarrow> dijkstra_relax (?cost + val - p ed) mark ed s) = Inr s' \<and>
      dist_ok E V p source s' \<and> relaxed V p source q ?st s'"
    if s: "dist_ok E V p source s \<and> relaxed V p source q ?st s" and x: "x \<in> set (expand es (dj_mark st es))" for s x
  proof -
    obtain ed val m where x': "x = (ed, val, m)" by (cases x)
    have e: "E (es, ed) = Some val" using expand [OF es(1)] x x' by blast
    have "entails E source ((?cost - p source) + val) ed" by (rule entails_trans [OF ent entails_edge [of E es ed val, OF e]])
    then have "entails E source ((?cost + val - p ed) + p ed - p source) ed" by (simp add: algebra_simps)
    from dijkstra_relax_ok [OF fin q _ presentsD(5) [OF g e] this, of s m] s x' show ?thesis
      using relaxed_trans by fastforce
  qed
  have "relaxed V p source q ?st ?st" by (simp add: relaxed_def)
  then have "\<exists>s'. foldE (\<lambda>st (ed, val, mark). dijkstra_relax (?cost + val - p ed) mark ed st) ?st (expand es (dj_mark st es)) = Inr s' \<and>
      dist_ok E V p source s' \<and> relaxed V p source q ?st s'"
    using start step by (intro foldE_total) simp_all
  then obtain s' where s': "foldE (\<lambda>st (ed, val, mark). dijkstra_relax (?cost + val - p ed) mark ed st) ?st (expand es (dj_mark st es)) = Inr s'"
    "dist_ok E V p source s'" "relaxed V p source q ?st s'" by blast
  have "card (heap_elems h) < card (heap_elems (dj_heap st))" using rem by (metis card_Diff1_less finite_heap_elems)
  moreover have "slacks V p source q ?st = slacks V p source q st" by (simp add: slacks_def slack_def)
  ultimately have "(s', st) \<in> dijkstra_rel V p source q"
    using s'(3) by (cases "slacks V p source q s'"; cases "slacks V p source q st")
      (auto simp: relaxed_def dijkstra_rel_def lex_pair slacks_def slack_def)
  moreover have "dijkstra_round g p source expand (st, out) = Some (Inr (Inl (s', ?out)))"
    using False r s'(1) by (simp add: dijkstra_round_def Let_def lift_res_def)
  ultimately show ?thesis using s'(2) out by blast
qed (simp add: dijkstra_round_def)

lemma dijkstra_loop_ok:
  assumes g: "presents g E V" and fin: "finite V" and q: "sat E q" and src: "source \<in> V"
    and expand: "\<And>es mark ed val m. es \<in> V \<Longrightarrow> (ed, val, m) \<in> set (expand es mark) \<Longrightarrow> E (es, ed) = Some val"
    and inv: "dist_ok E V p source st"
  shows "\<exists>out. loop_run (dijkstra_round g p source expand) (st, []) = Some (Inr out) \<and> out_ok E V source out"
proof (rule loop_run_total [where R = "inv_image (dijkstra_rel V p source q) fst" and P = "\<lambda>(st, out). dist_ok E V p source st \<and> out_ok E V source out"])
  fix a assume a: "case a of (st, out) \<Rightarrow> dist_ok E V p source st \<and> out_ok E V source out"
  obtain st out where [simp]: "a = (st, out)" by (cases a)
  have "dist_ok E V p source st \<and> out_ok E V source out" using a by simp
  from dijkstra_round_ok [OF g fin q src expand this] this
  show "(\<exists>a'. dijkstra_round g p source expand a = Some (Inr (Inl a')) \<and> (case a' of (st, out) \<Rightarrow> dist_ok E V p source st \<and> out_ok E V source out) \<and>
      (a', a) \<in> inv_image (dijkstra_rel V p source q) fst) \<or>
    (\<exists>b. dijkstra_round g p source expand a = Some (Inr (Inr b)) \<and> out_ok E V source b)" by fastforce
qed (use inv in \<open>auto simp: wf_dijkstra_rel out_ok_def\<close>)

lemma dijkstra_start_loop:
  assumes "distinct (map fst es)" "\<forall>d w. (d, w) \<in> set es \<longrightarrow> d \<in> V \<and> E (source, d) = Some w"
    and "dist_ok E V p source st" "heap_elems (dj_heap st) \<inter> fst ` set es = {}"
  shows "\<exists>st'. foldE (dijkstra_first p m source) st es = Inr st' \<and> dist_ok E V p source st'"
  using assms
proof (induction es arbitrary: st)
  case (Cons e es)
  obtain d w where e: "e = (d, w)" by (cases e)
  have d: "d \<in> V" "E (source, d) = Some w" using Cons.prems(2) e by auto
  let ?st = "st\<lparr>dj_dist := (dj_dist st)(d := Some (p source + w - p d)), dj_mark := (dj_mark st)(d := m d)\<rparr>"
  have "heap_ok (dj_heap st)" "d \<notin> heap_elems (dj_heap st)" using Cons.prems e by (auto simp: dist_ok_def)
  from heap_insert_ok [OF this, of "dists_of (dj_dist ?st)"] obtain h where
    h: "heap_insert (dists_compare (dists_of (dj_dist ?st))) d (dj_heap st) = Inr h" "heap_ok h" "heap_elems h = insert d (heap_elems (dj_heap st))"
    unfolding dists_compare_def by blast
  have "entails E source (p source + w - p d + p d - p source) d" using entails_edge [of E source d w] d(2) by simp
  then have ok: "dist_ok E V p source (?st\<lparr>dj_heap := h\<rparr>)" using Cons.prems(3) h(2,3) d(1) by (auto simp: dist_ok_def)
  have new: "heap_elems (dj_heap (?st\<lparr>dj_heap := h\<rparr>)) \<inter> fst ` set es = {}" using Cons.prems(1,4) h(3) e by auto
  have rest: "distinct (map fst es)" "\<forall>d w. (d, w) \<in> set es \<longrightarrow> d \<in> V \<and> E (source, d) = Some w" using Cons.prems(1,2) by auto
  have "dijkstra_first p m source st e = Inr (?st\<lparr>dj_heap := h\<rparr>)" using h(1) e by (simp add: dijkstra_first_def Let_def)
  with Cons.IH [OF rest ok new] show ?case by (simp only: foldE.simps bindE_simps)
qed simp

lemma dijkstra_start_ok:
  assumes g: "presents g E V" and src: "source \<in> V"
  shows "\<exists>st. dijkstra_start g p m source = Inr st \<and> dist_ok E V p source st"
  unfolding dijkstra_start_def
proof (rule dijkstra_start_loop)
  show "distinct (map fst (gv_e_succs g source))" by (rule presentsD(9) [OF g src])
  show "\<forall>d w. (d, w) \<in> set (gv_e_succs g source) \<longrightarrow> d \<in> V \<and> E (source, d) = Some w"
    using presentsD(10) [OF g src] presentsD(5) [OF g] by blast
qed (use src in \<open>auto simp: dist_ok_def entails_def\<close>)

lemma out_delta: "source \<in> V \<Longrightarrow> out_ok E V source out \<Longrightarrow> delta_ok E V (map (\<lambda>(d, w). (source, d, w)) out)"
  by (auto simp: out_ok_def delta_ok_def)

lemma chrome_dijkstra_ok:
  assumes g: "presents g E V" and fin: "finite V" and q: "sat E q" and src: "source \<in> V"
    and succs: "\<And>es ed i. ed \<in> set (colour_succs i) \<Longrightarrow> i = 2 * es \<or> i = 2 * es + 1 \<Longrightarrow> E (es, ed) \<noteq> None"
  shows "\<exists>out. chrome_dijkstra g p colour_succs marks source = Some (Inr out) \<and> out_ok E V source out"
proof (cases "gv_size g = 0")
  case False
  let ?expand = "\<lambda>es mark. if mark = E_LEFT OR E_RIGHT then [] else map (\<lambda>ed. (ed, gv_edge_val g es ed, marks es ed))
    (if mark = E_LEFT then colour_succs (2 * es + 1) else colour_succs (2 * es))"
  have ex: "E (es, ed) = Some val" if "(ed, val, m) \<in> set (?expand es mark)" for es mark ed val m
  proof -
    have "ed \<in> set (colour_succs (if mark = E_LEFT then 2 * es + 1 else 2 * es))" "val = gv_edge_val g es ed"
      using that by (auto split: if_splits)
    then obtain w where "E (es, ed) = Some w" using succs [of ed "if mark = E_LEFT then 2 * es + 1 else 2 * es" es] by (auto split: if_splits)
    then show ?thesis using presentsD(8) [OF g] \<open>val = gv_edge_val g es ed\<close> by simp
  qed
  obtain st where st: "dijkstra_start g p (marks source) source = Inr st" "dist_ok E V p source st" using dijkstra_start_ok [OF g src] by blast
  obtain out where "loop_run (dijkstra_round g p source ?expand) (st, []) = Some (Inr out)" "out_ok E V source out"
    using dijkstra_loop_ok [OF g fin q src _ st(2), of ?expand] ex by blast
  then show ?thesis using False st(1) by (simp add: chrome_dijkstra_def)
qed (simp add: chrome_dijkstra_def out_ok_def)

text \<open>The colouring fails no assertion when every edge comes from one of the two graphs.\<close>

lemma partition_edges_ok:
  assumes g: "presents g E V" and marks: "\<And>s d w. E (s, d) = Some w \<Longrightarrow> gv_lookup l s d = Some w \<or> gv_lookup r s d = Some w"
  shows "\<exists>succs marks. partition_edges g l r = Inr (succs, marks) \<and>
    (\<forall>es ed i. ed \<in> set (succs i) \<longrightarrow> i = 2 * es \<or> i = 2 * es + 1 \<longrightarrow> E (es, ed) \<noteq> None)"
proof -
  let ?P = "\<lambda>(succs :: nat \<Rightarrow> vert_id list, marks :: vert_id \<Rightarrow> vert_id \<Rightarrow> nat). \<forall>es ed i. ed \<in> set (succs i) \<longrightarrow> i = 2 * es \<or> i = 2 * es + 1 \<longrightarrow> E (es, ed) \<noteq> None"
  have "\<exists>s'. partition_edges g l r = Inr s' \<and> ?P s'"
    unfolding partition_edges_def
  proof (rule foldE_total)
    fix st x assume st: "?P st" and x: "x \<in> set (view_edges g)"
    obtain succs marks where st': "st = (succs, marks)" by (cases st)
    obtain s d w where x': "x = (s, d, w)" by (cases x)
    have e: "E (s, d) = Some w" using x x' view_edges_set [OF g] by blast
    have "edge_mark l r (s, d, w) \<noteq> 0" using marks [OF e] by (auto simp: edge_mark_def E_LEFT_def E_RIGHT_def)
    moreover have "even (2 * s :: nat)" "odd (2 * s + 1 :: nat)" by simp_all
    ultimately show "\<exists>s'. (case st of (succs, marks) \<Rightarrow> \<lambda>(s, d, w). let mark = edge_mark l r (s, d, w) in
        if mark = 0 then Inl AssertionFailure
        else Inr (if mark = E_LEFT then succs(2 * s := succs (2 * s) @ [d]) else if mark = E_RIGHT then succs(2 * s + 1 := succs (2 * s + 1) @ [d]) else succs,
          \<lambda>a b. if a = s \<and> b = d then mark else marks a b)) x = Inr s' \<and> ?P s'"
      using st e unfolding st' x' by (auto simp: Let_def) presburger+
  qed simp
  then show ?thesis by auto
qed

lemma close_after_meet_ok:
  assumes g: "presents g E V" and fin: "finite V" and q: "sat E q" and sz: "gv_size l = gv_size r"
    and marks: "\<And>s d w. E (s, d) = Some w \<Longrightarrow> gv_lookup l s d = Some w \<or> gv_lookup r s d = Some w"
  shows "\<exists>delta. close_after_meet g p l r = Some (Inr delta) \<and> delta_ok E V delta"
proof -
  obtain succs ms where pe: "partition_edges g l r = Inr (succs, ms)"
    and succs: "\<And>es ed i. ed \<in> set (succs i) \<Longrightarrow> i = 2 * es \<or> i = 2 * es + 1 \<Longrightarrow> E (es, ed) \<noteq> None"
    using partition_edges_ok [OF g marks] by blast
  have "\<exists>delta. foldR (\<lambda>delta v. bindR (chrome_dijkstra g p succs ms v)
      (\<lambda>adjs. Some (Inr (delta @ map (\<lambda>(d, w). (v, d, w)) adjs)))) [] (gv_verts g) = Some (Inr delta) \<and> delta_ok E V delta"
  proof (rule foldR_total)
    fix delta v assume d: "delta_ok E V delta" and v: "v \<in> set (gv_verts g)"
    have v: "v \<in> V" using v presentsD(1) [OF g] by simp
    obtain out where "chrome_dijkstra g p succs ms v = Some (Inr out)" "out_ok E V v out"
      using chrome_dijkstra_ok [OF g fin q v, of succs p ms] succs by blast
    with d out_delta [OF v] show "\<exists>s'. bindR (chrome_dijkstra g p succs ms v) (\<lambda>adjs. Some (Inr (delta @ map (\<lambda>(d, w). (v, d, w)) adjs))) = Some (Inr s') \<and> delta_ok E V s'"
      by simp
  qed simp
  then show ?thesis using sz pe by (simp add: close_after_meet_def)
qed

lemma dijkstra_recover_ok:
  assumes g: "presents g E V" and fin: "finite V" and q: "sat E q" and src: "source \<in> V" and d: "delta_ok E V delta"
  shows "\<exists>delta'. dijkstra_recover g p stab source delta = Some (Inr delta') \<and> delta_ok E V delta'"
proof (cases "gv_size g = 0 \<or> stab source")
  case False
  let ?expand = "\<lambda>es mark. if mark = V_STABLE then [] else map (\<lambda>(ed, val). (ed, val, if stab es then V_STABLE else V_UNSTABLE)) (gv_e_succs g es)"
  have ex: "E (es, ed) = Some val" if es: "es \<in> V" and m: "(ed, val, m) \<in> set (?expand es mark)" for es mark ed val m
  proof -
    have "(ed, val) \<in> set (gv_e_succs g es)" using m by (auto split: if_splits)
    then show ?thesis using presentsD(10) [OF g es] by blast
  qed
  obtain st where st: "dijkstra_start g p (\<lambda>_. V_UNSTABLE) source = Inr st" "dist_ok E V p source st" using dijkstra_start_ok [OF g src] by blast
  obtain out where "loop_run (dijkstra_round g p source ?expand) (st, []) = Some (Inr out)" "out_ok E V source out"
    using dijkstra_loop_ok [OF g fin q src _ st(2), of ?expand] ex by blast
  then show ?thesis using False st(1) d out_delta [OF src] by (simp add: dijkstra_recover_def)
qed (use d in \<open>simp add: dijkstra_recover_def\<close>)

lemma close_after_widen_ok:
  assumes g: "presents g E V" and fin: "finite V" and q: "sat E q"
  shows "\<exists>delta. close_after_widen g p stab = Some (Inr delta) \<and> delta_ok E V delta"
  unfolding close_after_widen_def
proof (rule foldR_total)
  fix delta v assume d: "delta_ok E V delta" and v: "v \<in> set (gv_verts g)"
  have v: "v \<in> V" using v presentsD(1) [OF g] by simp
  show "\<exists>s'. (if \<not> stab v then dijkstra_recover g p stab v delta else Some (Inr delta)) = Some (Inr s') \<and> delta_ok E V s'"
    using dijkstra_recover_ok [OF g fin q v d] d by simp
qed simp

section \<open>Closing over one vertex\<close>

definition queue_ok :: "edge_map \<Rightarrow> vert_id set \<Rightarrow> vert_id \<Rightarrow> assign_queue \<Rightarrow> bool" where
  "queue_ok E V v st \<longleftrightarrow> (\<forall>d. aq_mark st d \<noteq> 0 \<longrightarrow> d \<in> V \<and> entails E v (aq_dists st d) d) \<and>
     (\<forall>d \<in> set (aq_reach st). aq_mark st d \<noteq> 0)"

lemma assign_visit_ok:
  assumes g: "presents g E V" and st: "queue_ok E V v st" and d: "aq_mark st d \<noteq> 0"
  shows "queue_ok E V v (assign_visit g d st) \<and> (\<forall>u. aq_mark st u \<noteq> 0 \<longrightarrow> aq_mark (assign_visit g d st) u \<noteq> 0)"
proof -
  have dV: "d \<in> V" "entails E v (aq_dists st d) d" using st d by (auto simp: queue_ok_def)
  define k where "k = aq_dists st d"
  let ?P = "\<lambda>st'. queue_ok E V v st' \<and> (\<forall>u. aq_mark st u \<noteq> 0 \<longrightarrow> aq_mark st' u \<noteq> 0)"
  have step: "?P (assign_relax x k st')" if st': "?P st'" and x: "x \<in> set (gv_e_succs g d)" for x st'
  proof -
    obtain e val where x': "x = (e, val)" by (cases x)
    have e: "E (d, e) = Some val" using x x' presentsD(10) [OF g dV(1)] by blast
    have "entails E v (k + val) e" unfolding k_def using entails_trans [OF dV(2) entails_edge [of E d e val, OF e]] .
    moreover have "e \<in> V" using presentsD(5) [OF g e] .
    ultimately show ?thesis using st' by (auto simp: x' queue_ok_def assign_relax_def Let_def BF_QUEUED_def min_def)
  qed
  have "?P (fold (\<lambda>edge. assign_relax edge k) xs st')" if "?P st'" "set xs \<subseteq> set (gv_e_succs g d)" for xs st'
    using that
  proof (induction xs arbitrary: st')
    case (Cons x xs)
    have "?P (assign_relax x k st')" by (rule step) (use Cons.prems in simp_all)
    moreover have "set xs \<subseteq> set (gv_e_succs g d)" using Cons.prems(2) by simp
    ultimately have "?P (fold (\<lambda>edge. assign_relax edge k) xs (assign_relax x k st'))" by (rule Cons.IH)
    then show ?case unfolding fold_simps .
  qed simp
  from this [of st "gv_e_succs g d"] st show ?thesis by (simp add: assign_visit_def Let_def k_def)
qed

lemma fold_upd_fst: "fold (\<lambda>(d, val) f. f(d := h d val)) es f u \<noteq> f u \<Longrightarrow> u \<in> fst ` set es"
  by (induction es arbitrary: f) (force split: if_splits prod.splits)+

lemma fold_upd_val: "distinct (map fst es) \<Longrightarrow> (u, val) \<in> set es \<Longrightarrow> fold (\<lambda>(d, val) f. f(d := h d val)) es f u = h u val"
proof (induction es arbitrary: f)
  case (Cons e es)
  obtain d w where e: "e = (d, w)" by (cases e)
  show ?case
  proof (cases "(u, val) = e")
    case True
    then have u: "u \<notin> fst ` set es" using Cons.prems e by auto
    have "fold (\<lambda>(d, val) f. f(d := h d val)) es (f(u := h u val)) u = (f(u := h u val)) u"
      by (rule ccontr) (use fold_upd_fst [of h es "f(u := h u val)" u] u in blast)
    then have f: "fold (\<lambda>(d, val) f. f(d := h d val)) es (f(u := h u val)) u = h u val" by simp
    have ud: "d = u" "w = val" using True e by simp_all
    show ?thesis unfolding e fold_simps prod.case ud by (rule f)
  next
    case False
    then have "(u, val) \<in> set es" "distinct (map fst es)" using Cons.prems by auto
    then have f: "fold (\<lambda>(d, val) f. f(d := h d val)) es (f(d := h d w)) u = h u val" by (intro Cons.IH)
    show ?thesis unfolding e fold_simps prod.case by (rule f)
  qed
qed simp

lemma out_ok_map: "(\<And>d. d \<in> set ds \<Longrightarrow> d \<in> V \<and> entails E v (f d) d) \<Longrightarrow> out_ok E V v (map (\<lambda>d. (d, f d)) ds)"
  by (auto simp: out_ok_def)

lemma close_after_assign_fwd_ok:
  assumes g: "presents g E V" and v: "v \<in> V"
  shows "out_ok E V v (close_after_assign_fwd g p v)"
proof -
  let ?es = "gv_e_succs g v"
  let ?dists = "fold (\<lambda>(d, val) dists. dists(d := val)) ?es ((\<lambda>_. 0)(v := 0))"
  let ?mark = "fold (\<lambda>(d, val) mark. mark(d := BF_QUEUED)) ?es ((\<lambda>_. 0)(v := BF_QUEUED))"
  let ?adj = "sort_key (\<lambda>d. ?dists d - p d) (map fst ?es)"
  let ?init = "\<lparr>aq_dists = ?dists, aq_mark = ?mark, aq_reach = []\<rparr>"
  have dist: "distinct (map fst ?es)" by (rule presentsD(9) [OF g v])
  have val: "?dists d = w" "?mark d = BF_QUEUED" if "(d, w) \<in> set ?es" for d w
    using fold_upd_val [OF dist that, of "\<lambda>d w. w"] fold_upd_val [OF dist that, of "\<lambda>d w. BF_QUEUED"] by simp_all
  have ent: "d \<in> V \<and> entails E v (?dists d) d" if m: "?mark d \<noteq> 0" for d
  proof (cases "d \<in> fst ` set ?es")
    case True
    then obtain w where w: "(d, w) \<in> set ?es" by auto
    then have "E (v, d) = Some w" using presentsD(10) [OF g v] by blast
    then show ?thesis using val(1) [OF w] entails_edge [of E v d w] presentsD(5) [OF g] by simp
  next
    case False
    then have "?mark d = ((\<lambda>_. 0)(v := BF_QUEUED)) d" using fold_upd_fst [where h = "\<lambda>d w. BF_QUEUED"] by metis
    then have "d = v" using m by (auto split: if_splits)
    moreover have "?dists d = ((\<lambda>_. 0)(v := 0)) d" using False fold_upd_fst [where h = "\<lambda>d w. w"] by metis
    ultimately show ?thesis using v entails_refl by simp
  qed
  have adj: "?mark d \<noteq> 0" if "d \<in> set ?adj" for d
  proof -
    have "d \<in> fst ` set ?es" using that by (simp only: set_sort set_map)
    then obtain w where "(d, w) \<in> set ?es" by auto
    from val(2) [OF this] show ?thesis by (simp add: BF_QUEUED_def)
  qed
  have "queue_ok E V v (fold (assign_visit g) xs st) \<and> (\<forall>u. aq_mark st u \<noteq> 0 \<longrightarrow> aq_mark (fold (assign_visit g) xs st) u \<noteq> 0)"
    if "queue_ok E V v st" "\<forall>d \<in> set xs. aq_mark st d \<noteq> 0" for xs st
    using that
  proof (induction xs arbitrary: st)
    case (Cons d xs)
    have "queue_ok E V v (assign_visit g d st)" "\<forall>u. aq_mark st u \<noteq> 0 \<longrightarrow> aq_mark (assign_visit g d st) u \<noteq> 0"
      using assign_visit_ok [OF g Cons.prems(1), of d] Cons.prems(2) by auto
    with Cons show ?case by simp
  qed simp
  note run = this [of ?init ?adj]
  have init: "queue_ok E V v ?init" unfolding queue_ok_def assign_queue.simps using ent by simp
  have "\<forall>d \<in> set ?adj. aq_mark ?init d \<noteq> 0" unfolding assign_queue.simps using adj by blast
  note run = run [OF init this]
  have q: "queue_ok E V v (fold (assign_visit g) ?adj ?init)" using run by blast
  have qm: "\<forall>d \<in> set ?adj. aq_mark (fold (assign_visit g) ?adj ?init) d \<noteq> 0"
  proof
    fix d assume "d \<in> set ?adj"
    from adj [OF this] have "aq_mark ?init d \<noteq> 0" unfolding assign_queue.simps .
    then show "aq_mark (fold (assign_visit g) ?adj ?init) d \<noteq> 0" using run by blast
  qed
  let ?st = "fold (assign_visit g) ?adj ?init"
  have "close_after_assign_fwd g p v = map (\<lambda>d. (d, aq_dists ?st d)) (?adj @ aq_reach ?st)"
    by (simp only: close_after_assign_fwd_def Let_def)
  moreover have "d \<in> V \<and> entails E v (aq_dists ?st d) d" if "d \<in> set (?adj @ aq_reach ?st)" for d
  proof -
    have "aq_mark ?st d \<noteq> 0" using that q qm unfolding queue_ok_def set_append by blast
    then show ?thesis using q unfolding queue_ok_def by blast
  qed
  ultimately show ?thesis using out_ok_map [of "?adj @ aq_reach ?st" V E v "aq_dists ?st"] by (simp only:)
qed

lemma entails_rev: "entails (\<lambda>(s, d). E (d, s)) s w d \<longleftrightarrow> entails E d w s"
proof -
  have flip: "sat (\<lambda>(s, d). E (d, s)) (\<lambda>v. - q v) \<longleftrightarrow> sat E q" for q by (auto simp: sat_def)
  have "q s - q d \<le> w" if "entails (\<lambda>(s, d). E (d, s)) s w d" "sat E q" for q using entailsD [OF that(1), of "\<lambda>v. - q v"] that(2) flip by simp
  moreover have "q d - q s \<le> w" if "entails E d w s" "sat (\<lambda>(s, d). E (d, s)) q" for q
    using entailsD [OF that(1), of "\<lambda>v. - q v"] that(2) flip [of "\<lambda>v. - q v"] by simp
  ultimately show ?thesis unfolding entails_def [of E] by (metis entails_def)
qed

lemma close_after_assign_ok:
  assumes g: "presents g E V" and v: "v \<in> V"
  shows "delta_ok E V (close_after_assign g p v)"
proof -
  have "delta_ok E V (map (\<lambda>(vid, wt). (vid, v, wt)) (close_after_assign_fwd (graph_rev g) (\<lambda>v. - p v) v))"
    using close_after_assign_fwd_ok [OF presents_rev [OF g] v, of "\<lambda>v. - p v"] v
    unfolding out_ok_def delta_ok_def entails_rev by auto
  then show ?thesis using out_delta [OF v close_after_assign_fwd_ok [OF g v]] by (simp add: close_after_assign_def)
qed

section \<open>Closing over one edge\<close>

text \<open>\<open>strengthens g h\<close>: \<open>h\<close> has the same vertices, and only bounds that the solutions of \<open>g\<close> satisfy.\<close>

definition strengthens :: "adapt_graph \<Rightarrow> adapt_graph \<Rightarrow> bool" where
  "strengthens g h \<longleftrightarrow> graph_ok h \<and> verts h = verts g \<and> graph_size h = graph_size g \<and> ag_free_id h = ag_free_id g \<and>
     (\<forall>s d w. edges h (s, d) = Some w \<longrightarrow> entails (edges g) s w d)"

lemma strengthens_refl: "graph_ok g \<Longrightarrow> strengthens g g"
  by (simp add: strengthens_def entails_edge)

lemma strengthens_sat: "strengthens g h \<Longrightarrow> sat (edges g) q \<Longrightarrow> sat (edges h) q"
  by (rule sat_mono) (auto simp: strengthens_def)

lemma strengthens_upd:
  assumes "strengthens g h" "graph_ok h'" "verts h' = verts h" "graph_size h' = graph_size h" "ag_free_id h' = ag_free_id h"
    "edges h' = (edges h)((s, d) \<mapsto> w)" "entails (edges g) s w d"
  shows "strengthens g h'"
  using assms by (auto simp: strengthens_def)

lemma improve_ok:
  assumes h: "strengthens g h" and s: "s \<in> verts g" and d: "d \<in> verts g" and e: "entails (edges g) s w d"
  shows "strengthens g (fst (improve s w d h))"
proof -
  have hv: "graph_ok h" "s \<in> verts h" "d \<in> verts h" using h s d by (auto simp: strengthens_def)
  show ?thesis
  proof (cases "edges h (s, d)")
    case None
    then show ?thesis using hv add_edge_ok [OF hv None, of w] strengthens_upd [OF h _ _ _ _ _ e] by (simp add: improve_def)
  next
    case (Some w0)
    then show ?thesis using hv h put_weight_ok [OF hv(1) Some, of w] strengthens_upd [OF h _ _ _ _ _ e] by (simp add: improve_def)
  qed
qed

lemma improve_all_ok:
  assumes "strengthens g h" "\<forall>e \<in> set dec. P e" "\<forall>e \<in> set es. P e"
    "\<forall>x val. (x, val) \<in> set es \<longrightarrow> x \<noteq> skip \<longrightarrow> fst (f x) \<in> verts g \<and> snd (f x) \<in> verts g \<and> entails (edges g) (fst (f x)) (val + c) (snd (f x))"
    "improve_all f skip c es (h, dec) = (h', dec')"
  shows "strengthens g h' \<and> (\<forall>e \<in> set dec'. P e)"
  using assms
proof (induction es arbitrary: h dec)
  case (Cons e es)
  obtain x val where e: "e = (x, val)" by (cases e)
  show ?case
  proof (cases "x = skip")
    case False
    obtain h1 new where i: "improve (fst (f x)) (val + c) (snd (f x)) h = (h1, new)" by fastforce
    have "fst (f x) \<in> verts g \<and> snd (f x) \<in> verts g \<and> entails (edges g) (fst (f x)) (val + c) (snd (f x))"
      using Cons.prems(4) e False by simp
    then have h1: "strengthens g h1" using improve_ok [OF Cons.prems(1), of "fst (f x)" "snd (f x)" "val + c"] i by simp
    have "improve_all f skip c es (h1, if new then dec @ [(x, val)] else dec) = (h', dec')"
      using Cons.prems(5) False i by (simp add: e)
    note IH = Cons.IH [OF h1 _ _ _ this]
    show ?thesis by (rule IH) (use Cons.prems(2-4) e in simp_all)
  next
    case True
    then have "improve_all f skip c es (h, dec) = (h', dec')" using Cons.prems(5) by (simp add: e)
    note IH = Cons.IH [OF Cons.prems(1) _ _ _ this]
    show ?thesis by (rule IH) (use Cons.prems(2-4) in simp_all)
  qed
qed simp

lemma improve_pairs_ok:
  assumes h: "strengthens g h"
    and pairs: "\<And>se p1 de p2. (se, p1) \<in> set src_dec \<Longrightarrow> (de, p2) \<in> set dest_dec \<Longrightarrow>
      se \<in> verts g \<and> de \<in> verts g \<and> entails (edges g) se (c + p1 + p2) de"
  shows "strengthens g (improve_pairs c src_dec dest_dec h)"
proof -
  have inner: "strengthens g (fold (\<lambda>(de, p2) g. fst (improve se (c + p1 + p2) de g)) ys h)"
    if "strengthens g h" "(se, p1) \<in> set src_dec" "set ys \<subseteq> set dest_dec" for h se p1 ys
    using that
  proof (induction ys arbitrary: h)
    case (Cons y ys)
    obtain de p2 where y: "y = (de, p2)" by (cases y)
    have "se \<in> verts g \<and> de \<in> verts g \<and> entails (edges g) se (c + p1 + p2) de" 
      by (rule pairs) (use Cons.prems y in simp_all)
    then have "strengthens g (fst (improve se (c + p1 + p2) de h))" using improve_ok [OF Cons.prems(1)] by blast
    from Cons.IH [OF this Cons.prems(2)] Cons.prems(3) show ?case by (simp add: y)
  qed simp
  have "strengthens g (fold (\<lambda>(se, p1) g. fold (\<lambda>(de, p2) g. fst (improve se (c + p1 + p2) de g)) dest_dec g) xs h)"
    if "strengthens g h" "set xs \<subseteq> set src_dec" for h xs
    using that
  proof (induction xs arbitrary: h)
    case (Cons x xs)
    obtain se p1 where x: "x = (se, p1)" by (cases x)
    have "strengthens g (fold (\<lambda>(de, p2) g. fst (improve se (c + p1 + p2) de g)) dest_dec h)"
      by (rule inner) (use Cons.prems x in simp_all)
    from Cons.IH [OF this] Cons.prems(2) show ?case by (simp add: x)
  qed simp
  from this [OF h, of src_dec] show ?thesis by (simp add: improve_pairs_def)
qed

lemma close_over_edge_ok:
  assumes ok: "graph_ok g" and e: "edges g (ii, jj) = Some c" and nz: "ii \<noteq> 0" "jj \<noteq> 0"
  shows "\<exists>h. close_over_edge g ii jj = Inr h \<and> strengthens g h"
proof -
  have v: "ii \<in> verts g" "jj \<in> verts g" using edges_verts [OF ok e] by blast+
  have c: "graph_edge_val g ii jj = c" using graph_edge_val_edges [OF ok e] .
  have ec: "entails (edges g) ii c jj" using entails_edge [of "edges g" ii jj c] e by simp
  have sub: "presents (sub_graph (whole h) 0) (\<lambda>(s, d). if s = 0 \<or> d = 0 then None else edges h (s, d)) (verts h - {0})" if "graph_ok h" for h
    using presents_sub [OF presents_whole [OF that]] .
  let ?into = "gv_e_preds (sub_graph (whole g) 0) ii"
  have into: "se \<in> verts g \<and> entails (edges g) se val ii" if "(se, val) \<in> set ?into" for se val
  proof -
    have "edges g (se, ii) = Some val" using that presentsD(12) [OF sub [OF ok], of ii se val] v(1) nz(1) by (auto split: if_splits)
    then show ?thesis using edges_verts [OF ok] entails_edge [of "edges g" se ii val] by blast
  qed
  obtain h1 src_dec where r1: "improve_all (\<lambda>se. (se, jj)) jj c ?into (g, []) = (h1, src_dec)" by fastforce
  have o1: "strengthens g h1 \<and> (\<forall>e \<in> set src_dec. fst e \<in> verts g \<and> entails (edges g) (fst e) (snd e) ii)"
    by (rule improve_all_ok [OF strengthens_refl [OF ok] _ _ _ r1]) (use into v(2) entails_trans [OF _ ec] in auto)
  have h1: "strengthens g h1" "graph_ok h1" "verts h1 = verts g" using o1 by (auto simp: strengthens_def)
  let ?from = "gv_e_succs (sub_graph (whole h1) 0) jj"
  have from_jj: "de \<in> verts g \<and> entails (edges g) jj val de" if "(de, val) \<in> set ?from" for de val
  proof -
    have "edges h1 (jj, de) = Some val" using that presentsD(10) [OF sub [OF h1(2)], of jj de val] v(2) h1(3) nz(2) by (auto split: if_splits)
    then show ?thesis using edges_verts [OF h1(2)] h1(1,3) unfolding strengthens_def by blast
  qed
  obtain h2 dest_dec where r2: "improve_all (\<lambda>de. (ii, de)) ii c ?from (h1, []) = (h2, dest_dec)" by fastforce
  have via: "entails (edges g) ii (val + c) de" if "(de, val) \<in> set ?from" for de val
    using from_jj [OF that] entails_trans [OF ec, of val de] by (simp add: add.commute)
  have o2: "strengthens g h2 \<and> (\<forall>e \<in> set dest_dec. fst e \<in> verts g \<and> entails (edges g) jj (snd e) (fst e))"
    by (rule improve_all_ok [OF h1(1) _ _ _ r2]) (use from_jj v(1) via in auto)
  have "close_over_edge g ii jj = Inr (improve_pairs c src_dec dest_dec h2)"
    using nz by (simp add: close_over_edge_def c r1 r2)
  moreover have "strengthens g (improve_pairs c src_dec dest_dec h2)"
  proof (rule improve_pairs_ok)
    fix se p1 de p2 assume "(se, p1) \<in> set src_dec" "(de, p2) \<in> set dest_dec"
    then have "entails (edges g) se p1 ii" "entails (edges g) jj p2 de" and vs: "se \<in> verts g" "de \<in> verts g"
      using o1 o2 by auto
    then have "entails (edges g) se (p1 + c + p2) de" by (intro entails_trans [OF entails_trans [OF _ ec]])
    then show "se \<in> verts g \<and> de \<in> verts g \<and> entails (edges g) se (c + p1 + p2) de" using vs by (simp add: add.commute)
  qed (use o2 in blast)
  ultimately show ?thesis by blast
qed

end
