(* ===== verification/Crab_Repair_Potential.thy ===== *)
theory Crab_Repair_Potential
  imports Crab_Graph_Sound
begin

text \<open>
  Correctness of \<^verbatim>\<open>GraphOps::repair_potential\<close>, the incremental shortest-path search after an edge has
  been added. It ends on every graph, it fails exactly when the graph has a negative cycle, and
  otherwise the repaired potentials satisfy every edge, the new one included.
\<close>

section \<open>The invariant of the search\<close>

text \<open>
  A vertex with a negative distance waits in the queue until it is taken out and final. A distance
  is a bound from \<open>ii\<close> that all solutions satisfy.
\<close>

definition final :: "Weight list \<Rightarrow> repair \<Rightarrow> vert_id \<Rightarrow> bool" where
  "final p st v \<longleftrightarrow> rp_dists_alt st v \<noteq> p ! v"

definition repair_ok :: "edge_map \<Rightarrow> vert_id set \<Rightarrow> Weight list \<Rightarrow> vert_id \<Rightarrow> repair \<Rightarrow> bool" where
  "repair_ok E V p ii st \<longleftrightarrow> heap_ok (rp_heap st) \<and> heap_ordered (rp_dists st) (rp_heap st) \<and> heap_elems (rp_heap st) \<subseteq> V \<and>
     (\<forall>v. rp_dists st v \<le> 0) \<and> (\<forall>v. final p st v \<longrightarrow> v \<notin> heap_elems (rp_heap st) \<and> rp_dists_alt st v = p ! v + rp_dists st v) \<and>
     (\<forall>v. rp_dists st v < 0 \<longleftrightarrow> v \<in> heap_elems (rp_heap st) \<or> final p st v) \<and>
     (\<forall>v. rp_dists st v < 0 \<longrightarrow> v \<in> V \<and> entails E ii (p ! v + rp_dists st v - p ! ii) v)"

text \<open>
  For potentials that satisfy every edge but the new one: as long as \<open>ii\<close> is not reached, vertices become
  final in the order of their distances, and the edges out of a final vertex are satisfied.
\<close>

definition tight :: "Weight list \<Rightarrow> repair \<Rightarrow> vert_id \<Rightarrow> vert_id \<times> Weight \<Rightarrow> bool" where
  "tight p st s e \<longleftrightarrow> p ! fst e + rp_dists st (fst e) \<le> p ! s + rp_dists st s + snd e"

definition repair_order :: "edge_map \<Rightarrow> Weight list \<Rightarrow> vert_id \<Rightarrow> vert_id \<Rightarrow> vert_id option \<Rightarrow> repair \<Rightarrow> bool" where
  "repair_order E p ii jj cur st \<longleftrightarrow> (\<forall>v u. final p st v \<longrightarrow> u \<in> heap_elems (rp_heap st) \<longrightarrow> rp_dists st v \<le> rp_dists st u) \<and>
     (\<forall>c. cur = Some c \<longrightarrow> final p st c \<and> (\<forall>v. final p st v \<longrightarrow> rp_dists st v \<le> rp_dists st c)) \<and>
     (\<forall>s d w. final p st s \<longrightarrow> cur \<noteq> Some s \<longrightarrow> E (s, d) = Some w \<longrightarrow> tight p st s (d, w)) \<and>
     (\<forall>w. E (ii, jj) = Some w \<longrightarrow> rp_dists st jj \<le> p ! ii + w - p ! jj)"

definition nearly :: "edge_map \<Rightarrow> Weight list \<Rightarrow> vert_id \<Rightarrow> vert_id \<Rightarrow> bool" where
  "nearly E p ii jj \<longleftrightarrow> (\<forall>s d w. E (s, d) = Some w \<longrightarrow> (s, d) \<noteq> (ii, jj) \<longrightarrow> p ! d - p ! s \<le> w)"

definition repair_mono :: "Weight list \<Rightarrow> repair \<Rightarrow> repair \<Rightarrow> bool" where
  "repair_mono p st st' \<longleftrightarrow> rp_dists_alt st' = rp_dists_alt st \<and> (\<forall>v. rp_dists st' v \<le> rp_dists st v) \<and>
     (\<forall>v. final p st v \<longrightarrow> rp_dists st' v = rp_dists st v)"

lemma repair_mono_refl [simp]: "repair_mono p st st"
  by (simp add: repair_mono_def)

lemma repair_mono_trans: "repair_mono p a b \<Longrightarrow> repair_mono p b c \<Longrightarrow> repair_mono p a c"
  unfolding repair_mono_def final_def by (metis order_trans)

lemma repair_mono_final: "repair_mono p a b \<Longrightarrow> final p b v = final p a v"
  by (simp add: repair_mono_def final_def)

lemma tight_mono: "repair_mono p a b \<Longrightarrow> final p a s \<Longrightarrow> tight p a s e \<Longrightarrow> tight p b s e"
  unfolding repair_mono_def tight_def by (metis add_left_mono order_trans)

section \<open>One relaxation\<close>

lemma heap_put_law:
  assumes "heap_ok h" "heap_ordered old h" "key n \<le> old n" "\<And>m. m \<noteq> n \<Longrightarrow> key m = old m"
  shows "\<exists>h'. heap_put key n h = Inr h' \<and> heap_ok h' \<and> heap_elems h' = insert n (heap_elems h) \<and> heap_ordered key h'"
  using heap_queue.put_law [OF assms(1), of n key old] assms(2-4) unfolding heap_put_def dists_compare_def by blast

definition relax_post :: "edge_map \<Rightarrow> vert_id set \<Rightarrow> Weight list \<Rightarrow> vert_id \<Rightarrow> vert_id \<Rightarrow> vert_id \<Rightarrow> repair \<Rightarrow> repair \<Rightarrow> bool" where
  "relax_post E V p ii jj es st st' \<longleftrightarrow> repair_ok E V p ii st' \<and> repair_mono p st st' \<and>
     (nearly E p ii jj \<longrightarrow> es \<noteq> ii \<longrightarrow> repair_order E p ii jj (Some es) st \<longrightarrow> repair_order E p ii jj (Some es) st')"

lemma repair_relax_ok:
  assumes ok: "repair_ok E V p ii st" and es: "final p st es" and e: "E (es, ed) = Some val" and ed: "ed \<in> V"
  shows "\<exists>st'. repair_relax p es st (ed, val) = Inr st' \<and> relax_post E V p ii jj es st st' \<and> (\<not> final p st ed \<longrightarrow> tight p st' es (ed, val))"
proof -
  have alt: "rp_dists_alt st es = p ! es + rp_dists st es" "rp_dists st es < 0" using ok es by (auto simp: repair_ok_def)
  let ?g = "p ! es + rp_dists st es + val - p ! ed"
  show ?thesis
  proof (cases "final p st ed \<or> rp_dists st ed \<le> ?g")
    case True
    then have "repair_relax p es st (ed, val) = Inr st" using alt by (auto simp: repair_relax_def final_def Let_def)
    moreover have "\<not> final p st ed \<longrightarrow> tight p st es (ed, val)" using True by (auto simp: tight_def)
    ultimately show ?thesis using ok by (auto simp: relax_post_def)
  next
    case False
    then have nf: "\<not> final p st ed" and lt: "?g < rp_dists st ed" by auto
    have ne: "ed \<noteq> es" using nf es by auto
    let ?d = "(rp_dists st)(ed := ?g)"
    have hok: "heap_ok (rp_heap st)" using ok by (simp add: repair_ok_def)
    have ord: "heap_ordered (rp_dists st) (rp_heap st)" using ok by (simp add: repair_ok_def)
    obtain h where h: "heap_put ?d ed (rp_heap st) = Inr h" "heap_ok h" "heap_elems h = insert ed (heap_elems (rp_heap st))" "heap_ordered ?d h"
      using heap_put_law [OF hok ord, of ?d ed] lt by (metis fun_upd_other fun_upd_same less_imp_le)
    define st' where "st' = st\<lparr>rp_dists := ?d, rp_heap := h\<rparr>"
    have run: "repair_relax p es st (ed, val) = Inr st'"
      using nf lt h(1) alt(1) by (simp add: repair_relax_def final_def Let_def st'_def)
    have fin: "final p st' v = final p st v" for v by (simp add: final_def st'_def)
    have mono: "repair_mono p st st'" using lt nf by (auto simp: repair_mono_def st'_def)
    have neg: "?g < 0" using lt ok unfolding repair_ok_def by (meson less_le_trans)
    have "entails E ii (p ! es + rp_dists st es - p ! ii + val) ed"
      using ok alt(2) by (intro entails_trans [OF _ entails_edge [of E es ed val, OF e]]) (simp add: repair_ok_def)
    then have ent: "entails E ii (p ! ed + ?g - p ! ii) ed" by (simp add: algebra_simps)
    have ok': "repair_ok E V p ii st'"
      unfolding repair_ok_def fin
    proof (intro conjI allI impI)
      show "heap_ok (rp_heap st')" "heap_ordered (rp_dists st') (rp_heap st')" using h by (simp_all add: st'_def)
      show "heap_elems (rp_heap st') \<subseteq> V" using h ed ok by (simp add: st'_def repair_ok_def)
      show "rp_dists st' v \<le> 0" for v using ok neg by (simp add: st'_def repair_ok_def)
      show "v \<notin> heap_elems (rp_heap st')" "rp_dists_alt st' v = p ! v + rp_dists st' v" if "final p st v" for v
        using ok that nf h(3) by (auto simp: st'_def repair_ok_def)
      show "(rp_dists st' v < 0) = (v \<in> heap_elems (rp_heap st') \<or> final p st v)" for v
        using ok neg h(3) by (simp add: st'_def repair_ok_def)
      show "v \<in> V" "entails E ii (p ! v + rp_dists st' v - p ! ii) v" if "rp_dists st' v < 0" for v
        using ok that ent ed by (auto simp: st'_def repair_ok_def split: if_splits)
    qed
    have "repair_order E p ii jj (Some es) st'" if near: "nearly E p ii jj" "es \<noteq> ii" and o: "repair_order E p ii jj (Some es) st"
    proof -
      have "p ! ed - p ! es \<le> val" using near e by (auto simp: nearly_def)
      then have far: "rp_dists st es \<le> ?g" by simp
      have last: "rp_dists st v \<le> rp_dists st es" if "final p st v" for v using o that by (simp add: repair_order_def)
      have d': "rp_dists st' v = rp_dists st v" if "final p st v" for v using mono that by (simp add: repair_mono_def)
      show ?thesis
        unfolding repair_order_def fin
      proof (intro conjI allI impI)
        fix v u assume v: "final p st v" and u: "u \<in> heap_elems (rp_heap st')"
        show "rp_dists st' v \<le> rp_dists st' u"
        proof (cases "u = ed")
          case True
          then show ?thesis using d' [OF v] last [OF v] far by (simp add: st'_def)
        next
          case False
          then show ?thesis using d' [OF v] v u h(3) o by (simp add: st'_def repair_order_def)
        qed
      next
        fix c assume "Some es = Some c"
        then show "final p st c" using es by simp
      next
        fix c v assume "Some es = Some c" "final p st v"
        then show "rp_dists st' v \<le> rp_dists st' c" using last d' es by simp
      next
        fix s d w assume "final p st s" "Some es \<noteq> Some s" "E (s, d) = Some w"
        then show "tight p st' s (d, w)" using o tight_mono [OF mono] by (simp add: repair_order_def)
      next
        fix w assume "E (ii, jj) = Some w"
        then have "rp_dists st jj \<le> p ! ii + w - p ! jj" using o by (simp add: repair_order_def)
        then show "rp_dists st' jj \<le> p ! ii + w - p ! jj" using mono unfolding repair_mono_def by (meson order_trans)
      qed
    qed
    moreover have "tight p st' es (ed, val)" using ne by (simp add: tight_def st'_def)
    ultimately show ?thesis using run ok' mono unfolding relax_post_def by blast
  qed
qed

section \<open>One round and the search\<close>

lemma relax_post_trans: "relax_post E V p ii jj es a b \<Longrightarrow> relax_post E V p ii jj es b c \<Longrightarrow> relax_post E V p ii jj es a c"
  unfolding relax_post_def using repair_mono_trans [of p a b c] by blast

lemma repair_relax_all:
  assumes "repair_ok E V p ii st" "final p st es" "\<And>d w. (d, w) \<in> set xs \<Longrightarrow> E (es, d) = Some w \<and> d \<in> V"
  shows "\<exists>st'. foldE (repair_relax p es) st xs = Inr st' \<and> relax_post E V p ii jj es st st' \<and>
    (\<forall>d w. (d, w) \<in> set xs \<longrightarrow> \<not> final p st d \<longrightarrow> tight p st' es (d, w))"
  using assms
proof (induction xs arbitrary: st)
  case Nil
  then show ?case by (simp add: relax_post_def)
next
  case (Cons x xs)
  obtain d w where x: "x = (d, w)" by (cases x)
  have e: "E (es, d) = Some w" "d \<in> V" using Cons.prems(3) [of d w] x by simp_all
  obtain st1 where s1: "repair_relax p es st (d, w) = Inr st1" "relax_post E V p ii jj es st st1" "\<not> final p st d \<longrightarrow> tight p st1 es (d, w)"
    using repair_relax_ok [OF Cons.prems(1,2) e, of jj] by blast
  have m1: "repair_mono p st st1" "repair_ok E V p ii st1" using s1(2) by (simp_all add: relax_post_def)
  have es1: "final p st1 es" using Cons.prems(2) repair_mono_final [OF m1(1)] by simp
  have xs: "E (es, d) = Some w \<and> d \<in> V" if "(d, w) \<in> set xs" for d w using Cons.prems(3) [of d w] that by simp
  obtain st2 where s2: "foldE (repair_relax p es) st1 xs = Inr st2" "relax_post E V p ii jj es st1 st2"
    "\<forall>d w. (d, w) \<in> set xs \<longrightarrow> \<not> final p st1 d \<longrightarrow> tight p st2 es (d, w)"
    using Cons.IH [OF m1(2) es1 xs] by blast
  have m2: "repair_mono p st1 st2" using s2(2) by (simp add: relax_post_def)
  have "tight p st2 es (d', w')" if "(d', w') \<in> set (x # xs)" "\<not> final p st d'" for d' w'
    using that s1(3) s2(3) x repair_mono_final [OF m1(1)] tight_mono [OF m2 es1] by auto
  moreover have "foldE (repair_relax p es) st (x # xs) = Inr st2" using s1(1) s2(1) x by simp
  ultimately show ?case using relax_post_trans [OF s1(2) s2(2)] by blast
qed

definition repair_inv :: "edge_map \<Rightarrow> vert_id set \<Rightarrow> Weight list \<Rightarrow> vert_id \<Rightarrow> vert_id \<Rightarrow> repair \<Rightarrow> bool" where
  "repair_inv E V p ii jj st \<longleftrightarrow> repair_ok E V p ii st \<and>
     (nearly E p ii jj \<longrightarrow> rp_dists st ii = 0 \<longrightarrow> repair_order E p ii jj None st)"

lemma repair_take_ok:
  assumes ok: "repair_ok E V p ii st" and ne: "heap_elems (rp_heap st) \<noteq> {}"
    and r: "heap_removeMin (dists_compare (rp_dists st)) (rp_heap st) = (es, h)"
    and st1: "st1 = st\<lparr>rp_heap := h, rp_dists_alt := (rp_dists_alt st)(es := p ! es + rp_dists st es)\<rparr>"
  shows "es \<in> V" "\<not> final p st es" "rp_dists st es < 0" "repair_ok E V p ii st1" "final p st1 v \<longleftrightarrow> v = es \<or> final p st v"
    "repair_order E p ii jj None st \<Longrightarrow> repair_order E p ii jj (Some es) st1"
proof -
  have hok: "heap_ok (rp_heap st)" "heap_ordered (rp_dists st) (rp_heap st)" using ok by (simp_all add: repair_ok_def)
  note rem = heap_removeMin_ok [OF hok(1) ne r [unfolded dists_compare_def]]
  note min = rem(4) [OF hok(2)]
  show es: "es \<in> V" "\<not> final p st es" "rp_dists st es < 0" using ok rem(2) by (auto simp: repair_ok_def)
  have fin: "final p st1 v \<longleftrightarrow> v = es \<or> final p st v" for v using es(3) by (auto simp: final_def st1)
  then show "final p st1 v \<longleftrightarrow> v = es \<or> final p st v" .
  show "repair_ok E V p ii st1"
    unfolding repair_ok_def fin
  proof (intro conjI allI impI)
    show "heap_ok (rp_heap st1)" "heap_ordered (rp_dists st1) (rp_heap st1)" using rem min by (simp_all add: st1)
    show "heap_elems (rp_heap st1) \<subseteq> V" using rem ok by (auto simp: st1 repair_ok_def)
    show "v \<notin> heap_elems (rp_heap st1)" "rp_dists_alt st1 v = p ! v + rp_dists st1 v" if "v = es \<or> final p st v" for v
      using ok that rem(3) by (auto simp: st1 repair_ok_def)
    show "(rp_dists st1 v < 0) = (v \<in> heap_elems (rp_heap st1) \<or> v = es \<or> final p st v)" for v
      using ok rem(2,3) by (auto simp: st1 repair_ok_def)
  qed (use ok in \<open>simp_all add: st1 repair_ok_def\<close>)
  assume o: "repair_order E p ii jj None st"
  have tight: "tight p st1 s e = tight p st s e" for s e by (simp add: tight_def st1)
  show "repair_order E p ii jj (Some es) st1"
    unfolding repair_order_def fin tight using o rem(2,3) min unfolding repair_order_def by (auto simp: st1)
qed

lemma repair_order_done:
  assumes "repair_order E p ii jj (Some es) st" "\<And>d w. E (es, d) = Some w \<Longrightarrow> tight p st es (d, w)"
  shows "repair_order E p ii jj None st"
proof -
  have "tight p st s (d, w)" if "final p st s" "E (s, d) = Some w" for s d w
    using assms that by (cases "s = es") (simp_all add: repair_order_def)
  then show ?thesis using assms(1) by (simp add: repair_order_def)
qed

lemma repair_round_ok:
  assumes g: "presents g E V" and inv: "repair_inv E V p ii jj st" and ne: "heap_elems (rp_heap st) \<noteq> {}"
  shows "\<exists>st' es. repair_round g p st = Some (Inr (Inl st')) \<and> repair_inv E V p ii jj st' \<and> es \<in> V \<and>
    \<not> final p st es \<and> (\<forall>v. final p st' v \<longleftrightarrow> v = es \<or> final p st v)"
proof -
  obtain es h where r: "heap_removeMin (dists_compare (rp_dists st)) (rp_heap st) = (es, h)" by fastforce
  define st1 where "st1 = st\<lparr>rp_heap := h, rp_dists_alt := (rp_dists_alt st)(es := p ! es + rp_dists st es)\<rparr>"
  have ok: "repair_ok E V p ii st" using inv by (simp add: repair_inv_def)
  note take = repair_take_ok [OF ok ne r st1_def]
  have es: "final p st1 es" using take(5) by simp
  have succs: "E (es, d) = Some w \<and> d \<in> V" if "(d, w) \<in> set (gv_e_succs g es)" for d w
    using that presentsD(10) [OF g take(1)] presentsD(5) [OF g] by blast
  obtain st2 where s2: "foldE (repair_relax p es) st1 (gv_e_succs g es) = Inr st2" "relax_post E V p ii jj es st1 st2"
    "\<forall>d w. (d, w) \<in> set (gv_e_succs g es) \<longrightarrow> \<not> final p st1 d \<longrightarrow> tight p st2 es (d, w)"
    using repair_relax_all [OF take(4) es succs] by blast
  have ok2: "repair_ok E V p ii st2" and mono: "repair_mono p st1 st2" using s2(2) by (simp_all add: relax_post_def)
  have fin: "final p st2 v = final p st1 v" for v using repair_mono_final [OF mono] .
  have le: "rp_dists st2 v \<le> rp_dists st v" for v using mono by (simp add: repair_mono_def st1_def)
  have "repair_order E p ii jj None st2" if near: "nearly E p ii jj" and z: "rp_dists st2 ii = 0"
  proof -
    have neg: "rp_dists st2 es < 0" using le [of es] take(3) by simp
    then have ne: "es \<noteq> ii" using z by auto
    have "rp_dists st ii = 0" using le [of ii] z ok by (simp add: repair_ok_def order_antisym)
    then have "repair_order E p ii jj None st" using inv near by (simp add: repair_inv_def)
    then have o: "repair_order E p ii jj (Some es) st2" using take(6) s2(2) near ne by (simp add: relax_post_def)
    have "tight p st2 es (d, w)" if e: "E (es, d) = Some w" for d w
    proof (cases "final p st1 d")
      case True
      then have "rp_dists st2 d \<le> rp_dists st2 es" using o fin by (simp add: repair_order_def)
      moreover have "p ! d - p ! es \<le> w" using near ne e by (auto simp: nearly_def)
      ultimately show ?thesis by (simp add: tight_def)
    next
      case False
      then show ?thesis using s2(3) presentsD(10) [OF g take(1)] e by blast
    qed
    with o show ?thesis by (rule repair_order_done)
  qed
  then have "repair_inv E V p ii jj st2" using ok2 by (simp add: repair_inv_def)
  moreover have "\<not> heap_empty (rp_heap st)" using ne by (simp add: heap_empty_iff)
  then have "repair_round g p st = Some (Inr (Inl st2))"
    using r s2(1) by (simp add: repair_round_def Let_def lift_res_def st1_def)
  ultimately show ?thesis using take(1,2,5) fin by blast
qed

lemma repair_loop_ok:
  assumes g: "presents g E V" and fin: "finite V" and inv: "repair_inv E V p ii jj st"
  shows "\<exists>st'. loop_run (repair_round g p) st = Some (Inr st') \<and> repair_inv E V p ii jj st' \<and> heap_elems (rp_heap st') = {}"
proof (rule loop_run_total [where R = "measure (\<lambda>st. card {v \<in> V. \<not> final p st v})" and P = "repair_inv E V p ii jj"])
  fix st assume inv: "repair_inv E V p ii jj st"
  show "(\<exists>st'. repair_round g p st = Some (Inr (Inl st')) \<and> repair_inv E V p ii jj st' \<and>
      (st', st) \<in> measure (\<lambda>st. card {v \<in> V. \<not> final p st v})) \<or>
    (\<exists>b. repair_round g p st = Some (Inr (Inr b)) \<and> repair_inv E V p ii jj b \<and> heap_elems (rp_heap b) = {})"
  proof (cases "heap_elems (rp_heap st) = {}")
    case True
    then show ?thesis using inv by (simp add: repair_round_def heap_empty_iff)
  next
    case False
    obtain st' es where s: "repair_round g p st = Some (Inr (Inl st'))" "repair_inv E V p ii jj st'" "es \<in> V"
      "\<not> final p st es" "\<forall>v. final p st' v \<longleftrightarrow> v = es \<or> final p st v"
      using repair_round_ok [OF g inv False] by blast
    have "{v \<in> V. \<not> final p st' v} \<subset> {v \<in> V. \<not> final p st v}" using s(3-5) by auto
    then have "card {v \<in> V. \<not> final p st' v} < card {v \<in> V. \<not> final p st v}" using fin by (intro psubset_card_mono) simp_all
    then show ?thesis using s(1,2) by auto
  qed
qed (use inv in simp_all)

lemma fold_list_upd:
  "length (fold (\<lambda>v p. p[v := f v]) vs p) = length p"
  "u < length p \<Longrightarrow> fold (\<lambda>v p. p[v := f v]) vs p ! u = (if u \<in> set vs then f u else p ! u)"
  by (induction vs arbitrary: p) (auto simp: nth_list_update)

lemma repair_potential_ok:
  assumes g: "presents g E V" and fin: "finite V" and len: "\<And>v. v \<in> V \<Longrightarrow> v < length p" and e: "E (ii, jj) = Some w"
    and near: "nearly E p ii jj"
  shows "\<exists>r. repair_potential g p ii jj = Some (Inr r) \<and>
    (case r of None \<Rightarrow> (\<nexists>q. sat E q) | Some p' \<Rightarrow> length p' = length p \<and> sat E (\<lambda>v. p' ! v))"
proof -
  have V: "ii \<in> V" "jj \<in> V" using presentsD(4,5) [OF g e] by auto
  have w: "gv_edge_val g ii jj = w" using presentsD(8) [OF g e] .
  let ?c = "p ! ii + w - p ! jj"
  show ?thesis
  proof (cases "?c \<ge> 0")
    case True
    then have "sat E (\<lambda>v. p ! v)" using near e unfolding sat_def nearly_def by fastforce
    then show ?thesis using True w by (simp add: repair_potential_def)
  next
    case False
    let ?d = "(\<lambda>_. 0)(jj := ?c)"
    obtain h where h: "heap_insert (key_lt ?d) jj heap_new = Inr h" "heap_ok h" "heap_elems h = {jj}" "heap_ordered ?d h"
      using heap_insert_ok [of heap_new jj ?d] by auto
    let ?st = "\<lparr>rp_dists = ?d, rp_dists_alt = (\<lambda>v. p ! v), rp_heap = h\<rparr>"
    have "entails E ii (p ! jj + ?c - p ! ii) jj" using entails_edge [of E ii jj w] e by simp
    then have "repair_ok E V p ii ?st" using h V False by (auto simp: repair_ok_def final_def)
    moreover have "repair_order E p ii jj None ?st" using e by (auto simp: repair_order_def final_def)
    ultimately have "repair_inv E V p ii jj ?st" by (simp add: repair_inv_def)
    then obtain st where st: "loop_run (repair_round g p) ?st = Some (Inr st)" "repair_inv E V p ii jj st" "heap_elems (rp_heap st) = {}"
      using repair_loop_ok [OF g fin] by blast
    have ok: "repair_ok E V p ii st" using st(2) by (simp add: repair_inv_def)
    let ?r = "if rp_dists st ii < 0 then None else Some (fold (\<lambda>v p. p[v := rp_dists_alt st v]) (gv_verts g) p)"
    have run: "repair_potential g p ii jj = Some (Inr ?r)"
      using False h(1) st(1) by (simp add: repair_potential_def Let_def w dists_compare_def lift_res_def)
    show ?thesis
    proof (cases "rp_dists st ii < 0")
      case True
      then have "entails E ii (p ! ii + rp_dists st ii - p ! ii) ii" using ok unfolding repair_ok_def by blast
      then have "entails E ii (rp_dists st ii) ii" by simp
      then have "\<nexists>q. sat E q" using True entailsD by fastforce
      then show ?thesis using run True by simp
    next
      case False
      then have z: "rp_dists st ii = 0" using ok by (simp add: repair_ok_def order_antisym not_less)
      then have o: "repair_order E p ii jj None st" using st(2) near by (simp add: repair_inv_def)
      have alt: "rp_dists_alt st v = p ! v + rp_dists st v" for v
      proof (cases "final p st v")
        case False
        then have "\<not> rp_dists st v < 0" using ok st(3) by (simp add: repair_ok_def)
        then have "rp_dists st v = 0" using ok by (simp add: repair_ok_def order_antisym not_less)
        then show ?thesis using False by (simp add: final_def)
      qed (use ok in \<open>simp add: repair_ok_def\<close>)
      have sat: "rp_dists_alt st d - rp_dists_alt st s \<le> k" if sd: "E (s, d) = Some k" for s d k
      proof (cases "final p st s")
        case True
        then show ?thesis using o sd unfolding repair_order_def tight_def alt by fastforce
      next
        case False
        then have s: "rp_dists_alt st s = p ! s" by (simp add: final_def)
        show ?thesis
        proof (cases "(s, d) = (ii, jj)")
          case True
          then have "rp_dists st jj \<le> p ! ii + k - p ! jj" using o sd by (simp add: repair_order_def)
          then show ?thesis using True s alt [of jj] by simp
        next
          case False
          then have "p ! d - p ! s \<le> k" using near sd by (auto simp: nearly_def)
          moreover have "rp_dists st d \<le> 0" using ok by (simp add: repair_ok_def)
          ultimately show ?thesis using s alt [of d] by simp
        qed
      qed
      let ?p = "fold (\<lambda>v p. p[v := rp_dists_alt st v]) (gv_verts g) p"
      have "?p ! v = rp_dists_alt st v" if "v \<in> V" for v
        using fold_list_upd(2) [OF len [OF that]] that presentsD(1) [OF g] by simp
      then have "?p ! d - ?p ! s \<le> k" if "E (s, d) = Some k" for s d k
        using sat [OF that] presentsD(4,5) [OF g that] by simp
      then have "sat E (\<lambda>v. ?p ! v)" unfolding sat_def by blast
      then show ?thesis using run z by (simp add: fold_list_upd)
    qed
  qed
qed

section \<open>The property\<close>

text \<open>
  C13. \<^verbatim>\<open>repair_potential\<close>, on a well-formed graph with an edge from \<open>ii\<close> to \<open>jj\<close>, and on potentials that
  cover the vertices and satisfy every other edge, always returns. It returns \<^verbatim>\<open>false\<close> only when the bounds
  of the graph have no solution at all; otherwise the potentials keep their number and satisfy every
  edge of the graph, the one from \<open>ii\<close> to \<open>jj\<close> included.
\<close>

theorem repair_potential_decides:
  assumes "graph_ok g" "edges g (ii, jj) = Some w" "graph_size g \<le> length p" "nearly (edges g) p ii jj"
  shows "\<exists>r. repair_potential (whole g) p ii jj = Some (Inr r) \<and>
    (case r of None \<Rightarrow> (\<nexists>q. sat (edges g) q) | Some p' \<Rightarrow> length p' = length p \<and> sat (edges g) (\<lambda>v. p' ! v))"
proof (rule repair_potential_ok [OF presents_whole [OF assms(1)] _ _ assms(2,4)])
  show "v < length p" if "v \<in> verts g" for v using presentsD(3) [OF presents_whole [OF assms(1)] that] assms(3) by (simp add: whole_def)
  show "finite (verts g)" using presentsD(1) [OF presents_whole [OF assms(1)]] by (metis List.finite_set)
qed

text \<open>The bounds \<open>x1 - x0 \<le> 1\<close> and \<open>x0 - x1 \<le> - 1\<close>, with potentials that miss the second.\<close>

theorem repair_potential_decides_witness:
  "\<exists>r. repair_potential (whole (add_edge 1 (- 1) 0 (add_edge 0 1 1 (growTo 2 graph_new)))) [0, 0] 1 0 = Some (Inr r) \<and>
    (case r of None \<Rightarrow> (\<nexists>q. sat [(0, 1) \<mapsto> 1, (1, 0) \<mapsto> - 1] q) | Some p' \<Rightarrow> length p' = length [0, 0 :: Weight] \<and> sat [(0, 1) \<mapsto> 1, (1, 0) \<mapsto> - 1] (\<lambda>v. p' ! v))"
proof -
  have d: "dense 2 (growTo 2 graph_new)" by (rule dense_growTo) simp
  have e0: "edges (growTo 2 graph_new) = Map.empty" using growTo_new [of 2] by simp
  have g0: "graph_ok (growTo 2 graph_new)" "0 \<in> verts (growTo 2 graph_new)" "1 \<in> verts (growTo 2 graph_new)"
    using d by (simp_all add: dense_def)
  let ?g1 = "add_edge 0 1 1 (growTo 2 graph_new)"
  note a1 = add_edge_ok [OF g0, of 1]
  have g1: "graph_ok ?g1" "verts ?g1 = verts (growTo 2 graph_new)" "edges ?g1 = [(0, 1) \<mapsto> 1]" using a1 e0 by simp_all
  define g2 where "g2 = add_edge 1 (- 1) 0 ?g1"
  have a2: "graph_ok g2" "edges g2 = [(0, 1) \<mapsto> 1, (1, 0) \<mapsto> - 1]" using add_edge_ok [of ?g1 1 0 "- 1"] g1 g0 by (auto simp: g2_def)
  have "graph_size g2 \<le> length [0, 0 :: Weight]" using d by (simp add: dense_def g2_def)
  moreover have "nearly (edges g2) [0, 0] 1 0" unfolding a2(2) by (auto simp: nearly_def)
  moreover have "edges g2 (1, 0) = Some (- 1)" unfolding a2(2) by simp
  ultimately show ?thesis using repair_potential_decides [OF a2(1), of 1 0 "- 1" "[0, 0]"] unfolding a2(2) by (simp only: g2_def simp_thms)
qed

end
