(* ===== verification/Crab_Split_Dbm_Sound.thy ===== *)
theory Crab_Split_Dbm_Sound
  imports Crab_Split_Dbm Crab_Repair_Potential Crab_Interval_Arith
begin

text \<open>
  Soundness of the zone domain. \<open>dbm_gamma\<close> is the set of valuations of the variables that a state
  describes: zero and the values of the variables satisfy every edge. The invariant \<open>dbm_ok\<close> says that
  variables and live vertices correspond, and that the stored potentials satisfy every edge, so that
  no state of the domain is empty. Every operation returns, keeps the invariant and describes all the
  valuations that the concrete operation produces.
\<close>

section \<open>Meaning and invariant\<close>

abbreviation vm :: "split_dbm \<Rightarrow> variable_t \<Rightarrow> vert_id option" where
  "vm d \<equiv> map_of (db_vert_map d)"

abbreviation pot :: "split_dbm \<Rightarrow> vert_id \<Rightarrow> Weight" where
  "pot d \<equiv> (\<lambda>v. db_potential d ! v)"

definition models :: "split_dbm \<Rightarrow> (vert_id \<Rightarrow> int) \<Rightarrow> valuation \<Rightarrow> bool" where
  "models d val \<sigma> \<longleftrightarrow> val 0 = 0 \<and> (\<forall>x v. vm d x = Some v \<longrightarrow> val v = \<sigma> x) \<and> sat (edges (db_g d)) val"

definition dbm_gamma :: "split_dbm \<Rightarrow> valuation set" where
  "dbm_gamma d = {\<sigma>. \<exists>val. models d val \<sigma>}"

definition dbm_shape :: "split_dbm \<Rightarrow> bool" where
  "dbm_shape d \<longleftrightarrow> graph_ok (db_g d) \<and> omap_ok (db_vert_map d) \<and> 0 \<in> verts (db_g d) \<and>
     (\<forall>x v. vm d x = Some v \<longrightarrow> v \<in> verts (db_g d) \<and> v \<noteq> 0) \<and> (\<forall>x y v. vm d x = Some v \<longrightarrow> vm d y = Some v \<longrightarrow> x = y) \<and>
     length (db_rev_map d) = graph_size (db_g d) \<and> length (db_potential d) = graph_size (db_g d) \<and>
     sat (edges (db_g d)) (pot d) \<and> db_unstable d = []"

definition named_verts :: "split_dbm \<Rightarrow> bool" where
  "named_verts d \<longleftrightarrow> (\<forall>v \<in> verts (db_g d). v \<noteq> 0 \<longrightarrow> (\<exists>x. vm d x = Some v)) \<and>
     (\<forall>x v. vm d x = Some v \<longrightarrow> db_rev_map d ! v = Some x)"

definition dbm_ok :: "split_dbm \<Rightarrow> bool" where
  "dbm_ok d \<longleftrightarrow> dbm_shape d \<and> named_verts d"

text \<open>
  \<open>roomy ns vs d\<close>: the variables \<open>vs\<close> and those of the state are registered, and there is room in the
  graph, whose vertices are numbered by 16 bits, for a vertex for each of \<open>vs\<close> that has none.
\<close>

definition roomy :: "names \<Rightarrow> variable_t set \<Rightarrow> split_dbm \<Rightarrow> bool" where
  "roomy ns vs d \<longleftrightarrow> dom (vm d) \<subseteq> {..<length ns} \<and> vs \<subseteq> {..<length ns} \<and>
     card (verts (db_g d)) + card (vs - dom (vm d)) \<le> 65536"

lemma dbm_shapeD:
  assumes "dbm_shape d"
  shows "graph_ok (db_g d)" "omap_ok (db_vert_map d)" "0 \<in> verts (db_g d)" "vm d x = Some v \<Longrightarrow> v \<in> verts (db_g d)"
    "vm d x = Some v \<Longrightarrow> v \<noteq> 0" "vm d x = Some v \<Longrightarrow> vm d y = Some v \<Longrightarrow> x = y"
    "length (db_rev_map d) = graph_size (db_g d)" "length (db_potential d) = graph_size (db_g d)"
    "sat (edges (db_g d)) (pot d)" "db_unstable d = []"
  using assms unfolding dbm_shape_def by blast+

lemma dbm_okD: "dbm_ok d \<Longrightarrow> dbm_shape d"
  by (simp add: dbm_ok_def)

lemma dbm_gammaI: "models d val \<sigma> \<Longrightarrow> \<sigma> \<in> dbm_gamma d"
  by (auto simp: dbm_gamma_def)

lemma dbm_gammaE: "\<sigma> \<in> dbm_gamma d \<Longrightarrow> (\<And>val. models d val \<sigma> \<Longrightarrow> P) \<Longrightarrow> P"
  by (auto simp: dbm_gamma_def)

lemma modelsD:
  assumes "models d val \<sigma>"
  shows "val 0 = 0" "vm d x = Some v \<Longrightarrow> val v = \<sigma> x" "sat (edges (db_g d)) val"
  using assms by (auto simp: models_def)

lemma roomy_finite: "roomy ns vs d \<Longrightarrow> finite vs"
  by (auto simp: roomy_def intro: finite_subset)

lemma roomy_mono: "roomy ns vs d \<Longrightarrow> vs' \<subseteq> vs \<Longrightarrow> roomy ns vs' d"
proof -
  assume r: "roomy ns vs d" and s: "vs' \<subseteq> vs"
  have "card (vs' - dom (vm d)) \<le> card (vs - dom (vm d))" using roomy_finite [OF r] s by (intro card_mono) auto
  then show ?thesis using r s by (auto simp: roomy_def)
qed

lemma normalize_stable [simp]: "db_unstable d = [] \<Longrightarrow> dbm_normalize d = Some (Inr d)"
  by (simp add: dbm_normalize_def)

text \<open>The potentials themselves are a valuation that the state describes.\<close>

definition pot_state :: "split_dbm \<Rightarrow> valuation" where
  "pot_state d x = pot_value d x - pot d 0"

lemma pot_models: "dbm_shape d \<Longrightarrow> models d (\<lambda>v. pot d v - pot d 0) (pot_state d)"
  using sat_shift [OF dbm_shapeD(9), of d "- pot d 0"]
  by (auto simp: models_def pot_state_def pot_value_def try_at_def)

lemma gamma_nonempty: "dbm_shape d \<Longrightarrow> dbm_gamma d \<noteq> {}"
  using pot_models dbm_gammaI by blast

lemma dbm_top_ok: "dbm_ok dbm_top" "dbm_gamma dbm_top = UNIV" "roomy ns {} dbm_top" "vm dbm_top = Map.empty"
proof -
  note g = growTo_new [of 1, simplified]
  show "dbm_ok dbm_top" using g by (simp add: dbm_ok_def dbm_shape_def named_verts_def dbm_top_def)
  show "dbm_gamma dbm_top = UNIV" using g by (auto simp: dbm_gamma_def models_def dbm_top_def)
  show "roomy ns {} dbm_top" using g by (simp add: roomy_def dbm_top_def)
qed (simp add: dbm_top_def)

section \<open>Vertices\<close>

lemma card_verts: "graph_ok g \<Longrightarrow> ag_free_id g = [] \<Longrightarrow> card (verts g) = graph_size g"
proof -
  assume "graph_ok g" "ag_free_id g = []"
  then have "verts g = {..<graph_size g}" by (auto simp: verts_def graph_ok_def free_ok_def)
  then show ?thesis by simp
qed

lemma room_new:
  assumes "graph_ok g" "card (verts g) < 65536" "new_vertex g = (v, g')"
  shows "graph_ok g'" "edges g' = edges g" "v \<notin> verts g" "verts g' = insert v (verts g)"
    "graph_size g' = (if v < graph_size g then graph_size g else graph_size g + 1)" "v \<le> graph_size g" "v < graph_size g'"
    "card (verts g') = card (verts g) + 1"
proof -
  have room: "ag_free_id g = [] \<Longrightarrow> graph_size g < 65536" using card_verts [OF assms(1)] assms(2) by simp
  note nv = new_vertex_ok [OF assms(1) room assms(3)]
  show "graph_ok g'" "edges g' = edges g" "v \<notin> verts g" "verts g' = insert v (verts g)" using nv by simp_all
  have free: "last (ag_free_id g) < graph_size g" if "ag_free_id g \<noteq> []"
    using last_in_set [OF that] assms(1) by (auto simp: graph_ok_def free_ok_def)
  show "graph_size g' = (if v < graph_size g then graph_size g else graph_size g + 1)" "v \<le> graph_size g" "v < graph_size g'"
    using nv(5,6) free by (auto split: if_splits)
  show "card (verts g') = card (verts g) + 1" using nv(3,4) by simp
qed

text \<open>\<open>adds x v d d'\<close>: \<open>d'\<close> is \<open>d\<close> with \<open>v\<close> as the vertex of \<open>x\<close>, which it may have been before.\<close>

definition adds :: "variable_t \<Rightarrow> vert_id \<Rightarrow> split_dbm \<Rightarrow> split_dbm \<Rightarrow> bool" where
  "adds x v d d' \<longleftrightarrow> vm d' = (vm d)(x \<mapsto> v) \<and> (\<forall>y. vm d y \<noteq> None \<longrightarrow> vm d' y = vm d y) \<and> edges (db_g d') = edges (db_g d) \<and>
     verts (db_g d') = insert v (verts (db_g d)) \<and> (vm d x = None \<longrightarrow> v \<notin> verts (db_g d) \<and> pot d' v = 0) \<and>
     (\<forall>u \<in> verts (db_g d). pot d' u = pot d u)"

lemma sat_cong: "sat E q \<Longrightarrow> (\<And>s d w. E (s, d) = Some w \<Longrightarrow> q' s = q s \<and> q' d = q d) \<Longrightarrow> sat E q'"
  unfolding sat_def by metis

lemma adds_models:
  assumes a: "adds x v d d'" and sh: "dbm_shape d" and m: "models d val \<sigma>"
  shows "models d' (val(v := \<sigma> x)) \<sigma>"
proof (cases "vm d x")
  case None
  then have new: "v \<notin> verts (db_g d)" using a by (simp add: adds_def)
  then have v0: "v \<noteq> 0" using dbm_shapeD(3) [OF sh] by metis
  have same: "(val(v := \<sigma> x)) u = val u" if "u \<in> verts (db_g d)" for u using that new by auto
  have "sat (edges (db_g d)) (val(v := \<sigma> x))"
  proof (rule sat_cong [OF modelsD(3) [OF m]])
    fix s e w assume "edges (db_g d) (s, e) = Some w"
    then have "s \<in> verts (db_g d)" "e \<in> verts (db_g d)" using edges_verts [OF dbm_shapeD(1) [OF sh]] by blast+
    then show "(val(v := \<sigma> x)) s = val s \<and> (val(v := \<sigma> x)) e = val e" using same by blast
  qed
  moreover have "(val(v := \<sigma> x)) u = \<sigma> y" if "vm d' y = Some u" for y u
    using that a m dbm_shapeD(4) [OF sh] new by (auto simp: adds_def models_def split: if_splits)
  ultimately show ?thesis using a m v0 by (simp add: adds_def models_def)
next
  case (Some u)
  then have "u = v" using a by (auto simp: adds_def)
  then have "val(v := \<sigma> x) = val" using modelsD(2) [OF m Some] by auto
  then show ?thesis using a m Some \<open>u = v\<close> by (auto simp: adds_def models_def split: if_splits)
qed

lemma adds_gamma: "adds x v d d' \<Longrightarrow> dbm_shape d \<Longrightarrow> dbm_gamma d \<subseteq> dbm_gamma d'"
  by (auto elim!: dbm_gammaE intro: dbm_gammaI dest: adds_models)

lemma get_vert_ok:
  assumes sh: "dbm_shape d" and room: "roomy ns vs d" and x: "x \<in> vs"
  shows "\<exists>v d'. get_vert x d = Inr (v, d') \<and> dbm_shape d' \<and> roomy ns vs d' \<and> adds x v d d' \<and> v \<noteq> 0 \<and> (named_verts d \<longrightarrow> named_verts d')"
proof (cases "vm d x")
  case (Some v)
  then show ?thesis using assms dbm_shapeD(4,5) [OF sh Some]
    by (auto simp: get_vert_def try_at_def adds_def)
next
  case None
  obtain v g where nv: "new_vertex (db_g d) = (v, g)" by fastforce
  have "card (vs - dom (vm d)) > 0" using x None roomy_finite [OF room] by (auto simp: card_gt_0_iff domIff)
  then have small: "card (verts (db_g d)) < 65536" using room by (simp add: roomy_def)
  note n = room_new [OF dbm_shapeD(1) [OF sh] small nv]
  note len = dbm_shapeD(7,8) [OF sh]
  let ?d = "d\<lparr>db_g := g, db_vert_map := omap_put x v (db_vert_map d)\<rparr>"
  define d' where "d' = (if v < length (db_rev_map ?d)
      then ?d\<lparr>db_potential := (db_potential ?d)[v := 0], db_rev_map := (db_rev_map ?d)[v := Some x]\<rparr>
      else ?d\<lparr>db_potential := db_potential ?d @ [0], db_rev_map := db_rev_map ?d @ [Some x]\<rparr>)"
  have v0: "v \<noteq> 0" using n(3) dbm_shapeD(3) [OF sh] by metis
  have run: "get_vert x d = Inr (v, d')"
    using None n(6) len v0 unfolding get_vert_def try_at_def nv d'_def by (simp add: Let_def)
  have f: "db_g d' = g" "db_vert_map d' = omap_put x v (db_vert_map d)" "db_unstable d' = []"
    using dbm_shapeD(10) [OF sh] by (simp_all add: d'_def)
  have lens: "length (db_rev_map d') = graph_size g" "length (db_potential d') = graph_size g"
    using n(5,6) len by (auto simp: d'_def)
  have old: "u < graph_size (db_g d)" "u \<noteq> v" if "u \<in> verts (db_g d)" for u using that n(3) by (auto simp: verts_def)
  have pot: "pot d' u = pot d u" "db_rev_map d' ! u = db_rev_map d ! u" if "u \<in> verts (db_g d)" for u
    using old [OF that] len by (auto simp: d'_def nth_append)
  have potv: "pot d' v = 0" "db_rev_map d' ! v = Some x" using n(6) len by (auto simp: d'_def nth_append)
  have a: "adds x v d d'" unfolding adds_def f using n pot potv None by auto
  have "sat (edges g) (pot d')" unfolding n(2)
    by (rule sat_cong [OF dbm_shapeD(9) [OF sh]]) (use pot edges_verts [OF dbm_shapeD(1) [OF sh]] in blast)
  then have "dbm_shape d'"
    unfolding dbm_shape_def f lens using n v0 dbm_shapeD [OF sh] by (auto split: if_splits)
  moreover have "vs - dom (vm d') = (vs - dom (vm d)) - {x}" using f by auto
  then have "card (vs - dom (vm d')) + 1 = card (vs - dom (vm d))"
    using x None \<open>0 < card (vs - dom (vm d))\<close> roomy_finite [OF room] by (simp add: card_Diff_singleton_if domIff)
  then have "roomy ns vs d'" using room x n(8) f by (auto simp: roomy_def)
  moreover have "named_verts d'" if "named_verts d"
    unfolding named_verts_def f n(4)
  proof (intro conjI ballI allI impI)
    fix u assume u: "u \<in> insert v (verts (db_g d))" "u \<noteq> 0"
    show "\<exists>y. map_of (omap_put x v (db_vert_map d)) y = Some u"
    proof (cases "u = v")
      case False
      then obtain y where "vm d y = Some u" using u \<open>named_verts d\<close> by (auto simp: named_verts_def)
      then show ?thesis using None by (intro exI [of _ y]) auto
    qed (auto intro: exI [of _ x])
  qed (use that pot potv dbm_shapeD(4) [OF sh] in \<open>auto simp: named_verts_def split: if_splits\<close>)
  ultimately show ?thesis using run a v0 by blast
qed

section \<open>Operations that may find the state infeasible\<close>

definition good :: "names \<Rightarrow> variable_t set \<Rightarrow> split_dbm \<Rightarrow> bool" where
  "good ns vs d \<longleftrightarrow> dbm_ok d \<and> roomy ns vs d"

text \<open>
  \<open>keeps ns vs C d m\<close>: the operation \<open>m\<close> on \<open>d\<close> returns; a state that it returns is valid and describes
  all valuations of \<open>d\<close> that satisfy \<open>C\<close>, and if it returns \<^verbatim>\<open>false\<close> there are none.
\<close>

definition keeps :: "names \<Rightarrow> variable_t set \<Rightarrow> (valuation \<Rightarrow> bool) \<Rightarrow> split_dbm \<Rightarrow> split_dbm option run \<Rightarrow> bool" where
  "keeps ns vs C d m \<longleftrightarrow> (\<exists>r. m = Some (Inr r) \<and>
     (case r of None \<Rightarrow> (\<forall>\<sigma>. \<sigma> \<in> dbm_gamma d \<longrightarrow> \<not> C \<sigma>)
      | Some d' \<Rightarrow> good ns vs d' \<and> (\<forall>\<sigma>. \<sigma> \<in> dbm_gamma d \<longrightarrow> C \<sigma> \<longrightarrow> \<sigma> \<in> dbm_gamma d')))"

lemma goodD: "good ns vs d \<Longrightarrow> dbm_shape d" "good ns vs d \<Longrightarrow> roomy ns vs d" "good ns vs d \<Longrightarrow> dbm_ok d"
  by (simp_all add: good_def dbm_ok_def)

lemma good_normalize [simp]: "good ns vs d \<Longrightarrow> dbm_normalize d = Some (Inr d)"
  using dbm_shapeD(10) [OF goodD(1)] by simp

lemma keeps_ret: "good ns vs d \<Longrightarrow> keeps ns vs C d (retO d)"
  by (simp add: keeps_def retO_def)

lemma keeps_false: "(\<And>\<sigma>. \<sigma> \<in> dbm_gamma d \<Longrightarrow> \<not> C \<sigma>) \<Longrightarrow> keeps ns vs C d (Some (Inr None))"
  by (simp add: keeps_def)

lemma keeps_bind:
  assumes m: "keeps ns vs C d m" and f: "\<And>d'. good ns vs d' \<Longrightarrow> keeps ns vs C d' (f d')"
  shows "keeps ns vs C d (bindO m f)"
proof -
  obtain r where r: "m = Some (Inr r)" "case r of None \<Rightarrow> (\<forall>\<sigma>. \<sigma> \<in> dbm_gamma d \<longrightarrow> \<not> C \<sigma>)
      | Some d' \<Rightarrow> good ns vs d' \<and> (\<forall>\<sigma>. \<sigma> \<in> dbm_gamma d \<longrightarrow> C \<sigma> \<longrightarrow> \<sigma> \<in> dbm_gamma d')"
    using m unfolding keeps_def by blast
  show ?thesis
  proof (cases r)
    case None
    then show ?thesis using r by (simp add: keeps_def bindO_def)
  next
    case (Some d')
    then have d': "good ns vs d'" "\<And>\<sigma>. \<sigma> \<in> dbm_gamma d \<Longrightarrow> C \<sigma> \<Longrightarrow> \<sigma> \<in> dbm_gamma d'" using r(2) by auto
    have "bindO m f = f d'" using r(1) Some by (simp add: bindO_def)
    moreover obtain r' where r': "f d' = Some (Inr r')" "case r' of None \<Rightarrow> (\<forall>\<sigma>. \<sigma> \<in> dbm_gamma d' \<longrightarrow> \<not> C \<sigma>)
        | Some d'' \<Rightarrow> good ns vs d'' \<and> (\<forall>\<sigma>. \<sigma> \<in> dbm_gamma d' \<longrightarrow> C \<sigma> \<longrightarrow> \<sigma> \<in> dbm_gamma d'')"
      using f [OF d'(1)] unfolding keeps_def by blast
    ultimately show ?thesis using d'(2) unfolding keeps_def by (cases r') auto
  qed
qed

lemma keeps_fold:
  assumes "good ns vs d" "\<And>x d. x \<in> set xs \<Longrightarrow> good ns vs d \<Longrightarrow> keeps ns vs C d (f d x)"
  shows "keeps ns vs C d (foldO f d xs)"
  using assms
proof (induction xs arbitrary: d)
  case Nil
  then show ?case by (simp add: keeps_ret)
next
  case (Cons x xs)
  show ?case unfolding foldO.simps
  proof (rule keeps_bind)
    show "keeps ns vs C d (f d x)" using Cons.prems by simp
    show "keeps ns vs C d' (foldO f d' xs)" if "good ns vs d'" for d' using Cons.IH [OF that] Cons.prems(2) by simp
  qed
qed

lemma keeps_weaken:
  assumes m: "keeps ns vs C d' m" and sub: "\<And>\<sigma>. \<sigma> \<in> dbm_gamma d \<Longrightarrow> C' \<sigma> \<Longrightarrow> \<sigma> \<in> dbm_gamma d' \<and> C \<sigma>"
  shows "keeps ns vs C' d m"
proof -
  obtain r where r: "m = Some (Inr r)" "case r of None \<Rightarrow> (\<forall>\<sigma>. \<sigma> \<in> dbm_gamma d' \<longrightarrow> \<not> C \<sigma>)
      | Some d'' \<Rightarrow> good ns vs d'' \<and> (\<forall>\<sigma>. \<sigma> \<in> dbm_gamma d' \<longrightarrow> C \<sigma> \<longrightarrow> \<sigma> \<in> dbm_gamma d'')"
    using m unfolding keeps_def by blast
  show ?thesis
  proof (cases r)
    case None
    then have "\<not> C' \<sigma>" if "\<sigma> \<in> dbm_gamma d" for \<sigma> using r(2) sub [OF that] by auto
    then show ?thesis using r(1) None by (simp add: keeps_def)
  next
    case (Some d'')
    then have "\<sigma> \<in> dbm_gamma d''" if "\<sigma> \<in> dbm_gamma d" "C' \<sigma>" for \<sigma> using r(2) sub [OF that] by auto
    then show ?thesis using r Some by (simp add: keeps_def)
  qed
qed

lemma keeps_from: "keeps ns vs C d' m \<Longrightarrow> dbm_gamma d \<subseteq> dbm_gamma d' \<Longrightarrow> keeps ns vs C d m"
  by (erule keeps_weaken) blast

lemma keeps_mono: "keeps ns vs C d m \<Longrightarrow> (\<And>\<sigma>. \<sigma> \<in> dbm_gamma d \<Longrightarrow> C' \<sigma> \<Longrightarrow> C \<sigma>) \<Longrightarrow> keeps ns vs C' d m"
  by (erule keeps_weaken) blast

lemma keeps_get_vert:
  assumes d: "good ns vs d" and x: "x \<in> vs"
    and f: "\<And>v d'. good ns vs d' \<Longrightarrow> vm d' x = Some v \<Longrightarrow> dbm_gamma d \<subseteq> dbm_gamma d' \<Longrightarrow>
      (\<And>y u. vm d y = Some u \<Longrightarrow> vm d' y = Some u) \<Longrightarrow> keeps ns vs C d' (f (v, d'))"
  shows "keeps ns vs C d (bindR (lift_res (get_vert x d)) f)"
proof -
  obtain v d' where g: "get_vert x d = Inr (v, d')" "dbm_shape d'" "roomy ns vs d'" "adds x v d d'" "named_verts d \<longrightarrow> named_verts d'"
    using get_vert_ok [OF goodD(1,2) [OF d] x] by blast
  have good': "good ns vs d'" using g d by (simp add: good_def dbm_ok_def)
  have vm': "vm d' x = Some v" "\<And>y u. vm d y = Some u \<Longrightarrow> vm d' y = Some u" using g(4) by (auto simp: adds_def)
  note sub = adds_gamma [OF g(4) goodD(1) [OF d]]
  from keeps_from [OF f [OF good' vm'(1) sub vm'(2)] sub] show ?thesis using g(1) by simp
qed

section \<open>Changing the graph\<close>

lemma replace_graph:
  assumes d: "good ns vs d" and g: "graph_ok g'" "verts g' = verts (db_g d)" "graph_size g' = graph_size (db_g d)" "length p = length (db_potential d)"
    and s: "sat (edges g') (\<lambda>v. p ! v)"
  shows "good ns vs (d\<lparr>db_g := g', db_potential := p\<rparr>)"
  using dbm_shapeD [OF goodD(1) [OF d]] d g s by (simp add: good_def dbm_ok_def dbm_shape_def named_verts_def roomy_def)

lemma keeps_graph:
  assumes d: "good ns vs d" and g: "graph_ok g'" "verts g' = verts (db_g d)" "graph_size g' = graph_size (db_g d)"
    and s: "\<And>q. sat (edges (db_g d)) q \<Longrightarrow> sat (edges g') q"
  shows "good ns vs (d\<lparr>db_g := g'\<rparr>)" "dbm_gamma d \<subseteq> dbm_gamma (d\<lparr>db_g := g'\<rparr>)"
proof -
  have "good ns vs (d\<lparr>db_g := g', db_potential := db_potential d\<rparr>)"
    by (rule replace_graph [OF d g]) (use s dbm_shapeD(9) [OF goodD(1) [OF d]] in simp_all)
  then show "good ns vs (d\<lparr>db_g := g'\<rparr>)" by simp
  show "dbm_gamma d \<subseteq> dbm_gamma (d\<lparr>db_g := g'\<rparr>)" using s by (auto simp: dbm_gamma_def models_def)
qed

lemma keeps_edge:
  assumes d: "good ns vs d" and g: "graph_ok g'" "verts g' = verts (db_g d)" "graph_size g' = graph_size (db_g d)"
    and e: "edges g' = (edges (db_g d))((s, t) \<mapsto> w)"
    and ent: "\<And>val \<sigma>. models d val \<sigma> \<Longrightarrow> C \<sigma> \<Longrightarrow> val t - val s \<le> w"
  shows "keeps ns vs C d (dbm_repair s t (d\<lparr>db_g := g'\<rparr>))"
proof -
  have fin: "finite (verts g')" by simp
  have len: "v < length (db_potential d)" if "v \<in> verts g'" for v
    using that dbm_shapeD(8) [OF goodD(1) [OF d]] g by (simp add: verts_def)
  have edge: "edges g' (s, t) = Some w" by (simp add: e)
  have near: "nearly (edges g') (db_potential d) s t"
    using dbm_shapeD(9) [OF goodD(1) [OF d]] by (auto simp: nearly_def e sat_def)
  obtain r where r: "repair_potential (whole g') (db_potential d) s t = Some (Inr r)"
    "case r of None \<Rightarrow> (\<nexists>q. sat (edges g') q) | Some p' \<Rightarrow> length p' = length (db_potential d) \<and> sat (edges g') (\<lambda>v. p' ! v)"
    using repair_potential_ok [OF presents_whole [OF g(1)] fin len edge near] by blast
  have m: "models (d\<lparr>db_g := g', db_potential := p'\<rparr>) val \<sigma>" if "models d val \<sigma>" "C \<sigma>" for val \<sigma> p'
    using that ent [OF that] by (auto simp: models_def e sat_def)
  have run: "dbm_repair s t (d\<lparr>db_g := g'\<rparr>) = Some (Inr (map_option (\<lambda>p. d\<lparr>db_g := g', db_potential := p\<rparr>) r))"
    using r(1) by (simp add: dbm_repair_def)
  show ?thesis
  proof (cases r)
    case None
    then have none: "\<not> sat (edges g') q" for q using r(2) by auto
    have "\<not> C \<sigma>" if "\<sigma> \<in> dbm_gamma d" for \<sigma>
      using that m [of _ \<sigma> "[]"] none by (auto simp: dbm_gamma_def models_def)
    then show ?thesis using run None by (simp add: keeps_def)
  next
    case (Some p)
    then have p: "length p = length (db_potential d)" "sat (edges g') (\<lambda>v. p ! v)" using r(2) by auto
    have "good ns vs (d\<lparr>db_g := g', db_potential := p\<rparr>)" by (rule replace_graph [OF d g p])
    moreover have "\<sigma> \<in> dbm_gamma (d\<lparr>db_g := g', db_potential := p\<rparr>)" if "\<sigma> \<in> dbm_gamma d" "C \<sigma>" for \<sigma>
      using that m by (auto simp: dbm_gamma_def)
    ultimately show ?thesis using run Some by (simp add: keeps_def)
  qed
qed

text \<open>The two ways the code puts an edge before it repairs the potentials.\<close>

lemma keeps_set_edge:
  assumes d: "good ns vs d" and v: "s \<in> verts (db_g d)" "t \<in> verts (db_g d)"
    and ent: "\<And>val \<sigma>. models d val \<sigma> \<Longrightarrow> C \<sigma> \<Longrightarrow> val t - val s \<le> w"
  shows "keeps ns vs C d (dbm_repair s t (d\<lparr>db_g := set_edge s w t (db_g d)\<rparr>))"
  using set_edge_ok [OF dbm_shapeD(1) [OF goodD(1) [OF d]] v, of w] by (intro keeps_edge [OF d _ _ _ _ ent]) simp_all

lemma keeps_update_edge:
  assumes d: "good ns vs d" and v: "s \<in> verts (db_g d)" "t \<in> verts (db_g d)"
    and ent: "\<And>val \<sigma>. models d val \<sigma> \<Longrightarrow> C \<sigma> \<Longrightarrow> val t - val s \<le> w"
  shows "keeps ns vs C d (dbm_repair s t (d\<lparr>db_g := update_edge s w t (db_g d)\<rparr>))"
proof -
  let ?w = "case edges (db_g d) (s, t) of None \<Rightarrow> w | Some w0 \<Rightarrow> min w0 w"
  note u = update_edge_ok [OF dbm_shapeD(1) [OF goodD(1) [OF d]] v refl, of w]
  show ?thesis
  proof (rule keeps_edge [OF d u(1,3) _ u(2)])
    fix val \<sigma> assume m: "models d val \<sigma>" "C \<sigma>"
    have "val t - val s \<le> w0" if "edges (db_g d) (s, t) = Some w0" for w0 using satD [OF modelsD(3) [OF m(1)] that] .
    then show "val t - val s \<le> ?w" using ent [OF m] by (auto split: option.splits)
  qed simp
qed

section \<open>Intervals of variables and expressions\<close>

definition var_lb :: "split_dbm \<Rightarrow> variable_t \<Rightarrow> int option" where
  "var_lb d x = (case vm d x of None \<Rightarrow> None | Some v \<Rightarrow> map_option uminus (edges (db_g d) (v, 0)))"

definition var_ub :: "split_dbm \<Rightarrow> variable_t \<Rightarrow> int option" where
  "var_ub d x = (case vm d x of None \<Rightarrow> None | Some v \<Rightarrow> edges (db_g d) (0, v))"

definition bound_of :: "bound_t \<Rightarrow> int option \<Rightarrow> bound_t" where
  "bound_of b k = (case k of None \<Rightarrow> b | Some n \<Rightarrow> finite_ext n)"

lemma var_bounds:
  assumes "\<sigma> \<in> dbm_gamma d"
  shows "var_lb d x = Some n \<Longrightarrow> n \<le> \<sigma> x" "var_ub d x = Some n \<Longrightarrow> \<sigma> x \<le> n"
proof -
  obtain val where m: "models d val \<sigma>" using assms by (rule dbm_gammaE)
  show "n \<le> \<sigma> x" if lb: "var_lb d x = Some n"
  proof -
    obtain v where v: "vm d x = Some v" "edges (db_g d) (v, 0) = Some (- n)" using lb by (auto simp: var_lb_def split: option.splits)
    from satD [OF modelsD(3) [OF m] v(2)] show ?thesis using modelsD(1,2) [OF m] v(1) by simp
  qed
  show "\<sigma> x \<le> n" if ub: "var_ub d x = Some n"
  proof -
    obtain v where v: "vm d x = Some v" "edges (db_g d) (0, v) = Some n" using ub by (auto simp: var_ub_def split: option.splits)
    from satD [OF modelsD(3) [OF m] v(2)] show ?thesis using modelsD(1,2) [OF m] v(1) by simp
  qed
qed

lemma interval_at_bounds:
  assumes sh: "dbm_shape d" and named: "dom (vm d) \<subseteq> {..<length ns}"
  shows "interval_at ns (db_vert_map d) (db_g d) x 0 = Inr (interval (bound_of minus_infinity (var_lb d x)) (bound_of plus_infinity (var_ub d x)))"
proof (cases "vm d x")
  case None
  then show ?thesis by (simp add: interval_at_def var_lb_def var_ub_def bound_of_def ivl_top_def)
next
  case (Some v)
  have v: "v \<in> verts (db_g d)" "0 \<in> verts (db_g d)" using dbm_shapeD(3,4) [OF sh] Some by blast+
  have uns: "is_unsigned ns x = Inr (str_contains (ns ! x) ''.uvalue'')"
    using Some named by (auto simp: is_unsigned_def var_name_def)
  have trunc: "truncate_bound u 0 n = Inr (finite_ext n)" for u n by (simp add: truncate_bound_def truncate_to_uint_def truncate_to_sint_def)
  note gr = graph_elem_edges [OF dbm_shapeD(1) [OF sh]]
  have "graph_elem (db_g d) v 0 \<longleftrightarrow> edges (db_g d) (v, 0) \<noteq> None" "graph_elem (db_g d) 0 v \<longleftrightarrow> edges (db_g d) (0, v) \<noteq> None" using gr v by simp_all
  then show ?thesis using Some uns trunc graph_edge_val_edges [OF dbm_shapeD(1) [OF sh]]
    by (auto simp: interval_at_def var_lb_def var_ub_def bound_of_def split: option.splits)
qed

lemma ext_number_bound_of [simp]: "ext_number (bound_of minus_infinity k) = k" "ext_number (bound_of plus_infinity k) = k"
  by (auto simp: bound_of_def ext_number_def is_infinite_def minus_infinity_def plus_infinity_def mk_extended_def finite_ext_def split: option.splits)

lemma bound_of_ok:
  "ext_ok (bound_of minus_infinity k)" "ext_ok (bound_of plus_infinity k)"
  "abs_ext (bound_of minus_infinity k) \<le> Fin n \<longleftrightarrow> (\<forall>m. k = Some m \<longrightarrow> m \<le> n)"
  "Fin n \<le> abs_ext (bound_of plus_infinity k) \<longleftrightarrow> (\<forall>m. k = Some m \<longrightarrow> n \<le> m)"
  by (auto simp: bound_of_def split: option.splits)

lemma dbm_index_sound:
  assumes sh: "dbm_shape d" and named: "dom (vm d) \<subseteq> {..<length ns}"
  shows "\<exists>i. dbm_index ns d x = Inr i \<and> ivl_ok i \<and> ivl_lb i = bound_of minus_infinity (var_lb d x) \<and>
    ivl_ub i = bound_of plus_infinity (var_ub d x) \<and> (\<forall>\<sigma>. \<sigma> \<in> dbm_gamma d \<longrightarrow> \<sigma> x \<in> gamma_ivl i)"
proof -
  let ?l = "bound_of minus_infinity (var_lb d x)" and ?u = "bound_of plus_infinity (var_ub d x)"
  have mem: "abs_ext ?l \<le> Fin (\<sigma> x)" "Fin (\<sigma> x) \<le> abs_ext ?u" if "\<sigma> \<in> dbm_gamma d" for \<sigma>
    using var_bounds [OF that] bound_of_ok(3,4) by auto
  have p: "pot_state d \<in> dbm_gamma d" using pot_models [OF sh] by (rule dbm_gammaI)
  have ok: "ivl_ok (interval ?l ?u)" using interval_ok_member(1) [OF bound_of_ok(1,2) mem [OF p]] .
  have "abs_ext ?l \<le> abs_ext ?u" using mem [OF p] by (rule order_trans)
  then have "\<not> ext_greater ?l ?u" using ext_compare_refines(4) [OF bound_of_ok(1) bound_of_ok(2)] by (simp add: not_less)
  then have b: "ivl_lb (interval ?l ?u) = ?l" "ivl_ub (interval ?l ?u) = ?u" by (simp_all add: interval_def)
  have "\<sigma> x \<in> gamma_ivl (interval ?l ?u)" if "\<sigma> \<in> dbm_gamma d" for \<sigma>
    using interval_ok_member(2) [OF bound_of_ok(1,2) mem [OF that]] .
  then show ?thesis using ok b interval_at_bounds [OF assms] by (simp add: dbm_index_def)
qed

lemma eval_interval_sound:
  assumes sh: "dbm_shape d" and named: "dom (vm d) \<subseteq> {..<length ns}" 
  shows "\<exists>i. eval_interval ns d e = Inr i \<and> ivl_ok i \<and> (\<forall>\<sigma>. \<sigma> \<in> dbm_gamma d \<longrightarrow> lin_eval \<sigma> e \<in> gamma_ivl i)"
proof -
  have "\<exists>j. foldE (\<lambda>r (variable, coefficient). bindE (dbm_index ns d variable) (\<lambda>i. ivl_add r (ivl_mul (interval_num coefficient) i))) i ts = Inr j \<and>
      ivl_ok j \<and> (\<forall>\<sigma>. \<sigma> \<in> dbm_gamma d \<longrightarrow> f \<sigma> + terms_eval \<sigma> ts \<in> gamma_ivl j)"
    if "ivl_ok i" "\<forall>\<sigma>. \<sigma> \<in> dbm_gamma d \<longrightarrow> f \<sigma> \<in> gamma_ivl i" for f i ts
    using that
  proof (induction ts arbitrary: i f)
    case (Cons t ts)
    obtain y c where t: "t = (y, c)" by (cases t)
    obtain j where j: "dbm_index ns d y = Inr j" "ivl_ok j" "\<forall>\<sigma>. \<sigma> \<in> dbm_gamma d \<longrightarrow> \<sigma> y \<in> gamma_ivl j"
      using dbm_index_sound [OF sh named] by blast
    have mul: "ivl_ok (ivl_mul (interval_num c) j)" "\<sigma> \<in> dbm_gamma d \<Longrightarrow> c * \<sigma> y \<in> gamma_ivl (ivl_mul (interval_num c) j)" for \<sigma>
      using ivl_mul_sound [of "interval_num c" j c] j(2,3) gamma_nonempty [OF sh] by auto
    obtain k where k: "ivl_add i (ivl_mul (interval_num c) j) = Inr k" "ivl_ok k" "\<forall>\<sigma>. \<sigma> \<in> dbm_gamma d \<longrightarrow> f \<sigma> + c * \<sigma> y \<in> gamma_ivl k"
    proof -
      obtain \<sigma> where s: "\<sigma> \<in> dbm_gamma d" using gamma_nonempty [OF sh] by blast
      obtain k where k: "ivl_add i (ivl_mul (interval_num c) j) = Inr k" "ivl_ok k"
        using ivl_add_sound [OF Cons.prems(1) mul(1), of "f \<sigma>" "c * \<sigma> y"] Cons.prems(2) mul(2) s by blast
      have "f \<tau> + c * \<tau> y \<in> gamma_ivl k" if t: "\<tau> \<in> dbm_gamma d" for \<tau>
        using ivl_add_sound [OF Cons.prems(1) mul(1), of "f \<tau>" "c * \<tau> y"] Cons.prems(2) mul(2) t k(1) by auto
      with k show thesis using that by blast
    qed
    from Cons.IH [OF k(2,3)] show ?case using j(1) k(1) t by (simp add: add.assoc)
  qed simp
  from this [of "interval_num (constant_term e)" "\<lambda>_. constant_term e" "variable_terms e"]
  show ?thesis by (simp add: eval_interval_def lin_eval_def)
qed

end
