(* ===== verification/Crab_Dbm_Diffs.thy ===== *)
theory Crab_Dbm_Diffs
  imports Crab_Split_Dbm_Sound
begin

text \<open>
  The difference constraints that the zone domain extracts from an assigned expression and from a
  linear inequality hold in every valuation that satisfies it.
\<close>

section \<open>Assigned expressions\<close>

text \<open>
  The upper and the lower case of \<open>diff_terms\<close> are the same up to the sign \<open>k\<close>: with \<open>k = 1\<close> the value of
  the terms is bounded from above, with \<open>k = - 1\<close> from below.
\<close>

definition bound_sign :: "bool \<Rightarrow> int" where
  "bound_sign up = (if up then 1 else - 1)"

definition far_bound :: "bool \<Rightarrow> interval_t \<Rightarrow> number_t option" where
  "far_bound up i = ext_number (if up then ivl_ub i else ivl_lb i)"

definition near_bound :: "bool \<Rightarrow> interval_t \<Rightarrow> number_t option" where
  "near_bound up i = ext_number (if up then ivl_lb i else ivl_ub i)"

definition open_value :: "valuation \<Rightarrow> variable_t option \<Rightarrow> int" where
  "open_value \<sigma> u = (case u of None \<Rightarrow> 0 | Some v \<Rightarrow> \<sigma> v)"

lemma diff_terms_Cons:
  "diff_terms ix up ((y, c) # ts) (u, terms, res) = bindE (ix y) (\<lambda>i.
     if c < 0 then (case near_bound up i of None \<Rightarrow> Inr None | Some n \<Rightarrow> diff_terms ix up ts (u, terms, res + n * c))
     else (case far_bound up i of
         None \<Rightarrow> if u \<noteq> None \<or> c \<noteq> 1 then Inr None else diff_terms ix up ts (Some y, terms, res)
       | Some n \<Rightarrow> diff_terms ix up ts (u, terms @ [(y, n)], res + n * c)))"
  unfolding near_bound_def far_bound_def by (rule diff_terms.simps(2))

declare diff_terms.simps(2) [simp del]

lemma diff_terms_total:
  "(\<And>y. y \<in> fst ` set ts \<Longrightarrow> \<exists>i. ix y = Inr i) \<Longrightarrow> \<exists>r. diff_terms ix up ts st = Inr r"
proof (induction ts arbitrary: st)
  case (Cons t ts)
  obtain y c where t: "t = (y, c)" by (cases t)
  obtain u terms res where st: "st = (u, terms, res)" by (cases st)
  obtain i where i: "ix y = Inr i" using Cons.prems [of y] t by auto
  have "\<exists>r. diff_terms ix up ts s = Inr r" for s by (rule Cons.IH) (use Cons.prems in simp)
  then show ?case using i by (simp add: t st diff_terms_Cons split: option.split)
qed simp

lemma diff_terms_sound:
  assumes ix: "\<forall>y. y \<in> fst ` set ts \<longrightarrow> ix y = Inr (iv y)"
    and far: "\<And>y n. far_bound up (iv y) = Some n \<Longrightarrow> bound_sign up * \<sigma> y \<le> bound_sign up * n"
    and near: "\<And>y n. near_bound up (iv y) = Some n \<Longrightarrow> bound_sign up * n \<le> bound_sign up * \<sigma> y"
    and nz: "\<forall>y c. (y, c) \<in> set ts \<longrightarrow> c \<noteq> 0"
    and run: "diff_terms ix up ts (u0, terms0, res0) = Inr (Some (u, terms, res))"
  shows "bound_sign up * terms_eval \<sigma> ts \<le> bound_sign up * (res - res0 + open_value \<sigma> u - open_value \<sigma> u0) \<and>
    (\<forall>v. u = Some v \<longrightarrow> u0 = Some v \<or> v \<in> fst ` set ts) \<and>
    (\<forall>v n. (v, n) \<in> set terms \<longrightarrow> (v, n) \<in> set terms0 \<or> v \<in> fst ` set ts \<and>
       bound_sign up * (terms_eval \<sigma> ts - \<sigma> v) \<le> bound_sign up * (res - res0 - n + open_value \<sigma> u - open_value \<sigma> u0))"
  using ix nz run
proof (induction ts arbitrary: u0 terms0 res0)
  case (Cons t ts)
  obtain y c where t: "t = (y, c)" by (cases t)
  have y: "ix y = Inr (iv y)" using Cons.prems(1) t by simp
  have c0: "c \<noteq> 0" using Cons.prems(2) t by simp
  let ?k = "bound_sign up"
  have ix': "\<forall>y. y \<in> fst ` set ts \<longrightarrow> ix y = Inr (iv y)" using Cons.prems(1) by simp
  have nz': "\<forall>y c. (y, c) \<in> set ts \<longrightarrow> c \<noteq> 0" using Cons.prems(2) by simp
  note run = Cons.prems(3) [unfolded t diff_terms_Cons y bindE_simps]
  let ?T = "terms_eval \<sigma> ts" and ?T' = "terms_eval \<sigma> (t # ts)"
  have concl: ?case
    if r: "diff_terms ix up ts (u1, terms1, res1) = Inr (Some (u, terms, res))"
      and le: "\<And>z m. ?k * (?T - z) \<le> ?k * (res - res1 - m + open_value \<sigma> u - open_value \<sigma> u1) \<Longrightarrow>
        ?k * (?T' - z) \<le> ?k * (res - res0 - m + open_value \<sigma> u - open_value \<sigma> u0)"
      and u1: "u1 = u0 \<or> u1 = Some y"
      and new: "\<And>v n. ?k * ?T \<le> ?k * (res - res1 + open_value \<sigma> u - open_value \<sigma> u1) \<Longrightarrow> (v, n) \<in> set terms1 \<Longrightarrow> (v, n) \<notin> set terms0 \<Longrightarrow>
        v = y \<and> ?k * (?T' - \<sigma> v) \<le> ?k * (res - res0 - n + open_value \<sigma> u - open_value \<sigma> u0)"
    for u1 terms1 res1
  proof -
    note IH = Cons.IH [OF ix' nz' r]
    have "?k * ?T' \<le> ?k * (res - res0 + open_value \<sigma> u - open_value \<sigma> u0)" using IH le [of 0 0] by simp
    moreover have "\<forall>v. u = Some v \<longrightarrow> u0 = Some v \<or> v \<in> fst ` set (t # ts)" using IH u1 t by auto
    moreover have "(v, n) \<in> set terms0 \<or> v \<in> fst ` set (t # ts) \<and> ?k * (?T' - \<sigma> v) \<le> ?k * (res - res0 - n + open_value \<sigma> u - open_value \<sigma> u0)"
      if "(v, n) \<in> set terms" for v n
    proof -
      have "(v, n) \<in> set terms1 \<or> v \<in> fst ` set ts \<and> ?k * (?T - \<sigma> v) \<le> ?k * (res - res1 - n + open_value \<sigma> u - open_value \<sigma> u1)"
        using IH that by blast
      then show ?thesis using le [of "\<sigma> v" n] new [of v n] IH t by auto
    qed
    ultimately show ?thesis by blast
  qed
  show ?case
  proof (cases "c < 0")
    case True
    then obtain n where n: "near_bound up (iv y) = Some n" "diff_terms ix up ts (u0, terms0, res0 + n * c) = Inr (Some (u, terms, res))"
      using run by (auto split: option.splits)
    have "?k * (c * \<sigma> y) \<le> ?k * (n * c)"
      using near [OF n(1)] True mult_left_mono_neg [of "?k * n" "?k * \<sigma> y" c] by (simp add: algebra_simps)
    then show ?thesis by (intro concl [OF n(2)]) (auto simp: t algebra_simps)
  next
    case False
    then have c: "c \<ge> 1" using c0 by simp
    show ?thesis
    proof (cases "far_bound up (iv y)")
      case None
      then have u: "u0 = None" "c = 1" "diff_terms ix up ts (Some y, terms0, res0) = Inr (Some (u, terms, res))"
        using run False by (auto split: if_splits)
      show ?thesis by (rule concl [OF u(3)]) (use u in \<open>auto simp: t open_value_def algebra_simps\<close>)
    next
      case (Some n)
      then have r: "diff_terms ix up ts (u0, terms0 @ [(y, n)], res0 + n * c) = Inr (Some (u, terms, res))" using run False by simp
      have le: "?k * (c * \<sigma> y) \<le> ?k * (n * c)"
        using far [OF Some] c mult_left_mono [of "?k * \<sigma> y" "?k * n" c] by (simp add: algebra_simps)
      have le1: "?k * (c * \<sigma> y - \<sigma> y) \<le> ?k * (n * c - n)"
        using far [OF Some] c mult_left_mono [of "?k * \<sigma> y" "?k * n" "c - 1"] by (simp add: algebra_simps)
      show ?thesis by (rule concl [OF r]) (use le le1 in \<open>auto simp: t algebra_simps\<close>)
    qed
  qed
qed simp

lemma diffcsts_of_assign_sound:
  assumes sh: "dbm_shape d" and named: "dom (vm d) \<subseteq> {..<length ns}" and e: "lin_ok e"
  shows "\<exists>l. diffcsts_of_assign ns d e up = Inr l \<and> (\<forall>v n. (v, n) \<in> set l \<longrightarrow> v \<in> fst ` set (variable_terms e) \<and>
    (\<forall>\<sigma>. \<sigma> \<in> dbm_gamma d \<longrightarrow> bound_sign up * (lin_eval \<sigma> e - \<sigma> v) \<le> bound_sign up * n))"
proof -
  have "\<exists>i. dbm_index ns d y = Inr i" for y using dbm_index_sound [OF sh named] by blast
  then obtain iv where iv: "\<And>y. dbm_index ns d y = Inr (iv y)" by metis
  have bounds: "ext_number (ivl_lb (iv y)) = var_lb d y" "ext_number (ivl_ub (iv y)) = var_ub d y" for y
    using dbm_index_sound [OF sh named, of y] iv [of y] by auto
  have far: "bound_sign up * \<sigma> y \<le> bound_sign up * n" if "far_bound up (iv y) = Some n" "\<sigma> \<in> dbm_gamma d" for y n \<sigma>
    using that var_bounds [OF that(2), of y n] by (auto simp: far_bound_def bounds bound_sign_def split: if_splits)
  have near: "bound_sign up * n \<le> bound_sign up * \<sigma> y" if "near_bound up (iv y) = Some n" "\<sigma> \<in> dbm_gamma d" for y n \<sigma>
    using that var_bounds [OF that(2), of y n] by (auto simp: near_bound_def bounds bound_sign_def split: if_splits)
  have nz: "\<forall>y c. (y, c) \<in> set (variable_terms e) \<longrightarrow> c \<noteq> 0" using e by (auto simp: lin_ok_def)
  obtain r where r: "diff_terms (dbm_index ns d) up (variable_terms e) (None, [], constant_term e) = Inr r"
    using diff_terms_total [of "variable_terms e" "dbm_index ns d"] iv by blast
  show ?thesis
  proof (cases r)
    case None
    then show ?thesis using r by (simp add: diffcsts_of_assign_def)
  next
    case (Some s)
    obtain u terms res where s: "s = (u, terms, res)" by (cases s)
    have ds: "bound_sign up * terms_eval \<sigma> (variable_terms e) \<le> bound_sign up * (res - constant_term e + open_value \<sigma> u - open_value \<sigma> None) \<and>
      (\<forall>v. u = Some v \<longrightarrow> None = Some v \<or> v \<in> fst ` set (variable_terms e)) \<and>
      (\<forall>v n. (v, n) \<in> set terms \<longrightarrow> (v, n) \<in> set [] \<or> v \<in> fst ` set (variable_terms e) \<and>
         bound_sign up * (terms_eval \<sigma> (variable_terms e) - \<sigma> v) \<le> bound_sign up * (res - constant_term e - n + open_value \<sigma> u - open_value \<sigma> None))"
      if "\<sigma> \<in> dbm_gamma d" for \<sigma>
    proof (rule diff_terms_sound [where iv = iv, OF _ _ _ nz r [unfolded Some s]])
      show "bound_sign up * \<sigma> y \<le> bound_sign up * n" if "far_bound up (iv y) = Some n" for y n using far [OF that \<open>\<sigma> \<in> dbm_gamma d\<close>] .
      show "bound_sign up * n \<le> bound_sign up * \<sigma> y" if "near_bound up (iv y) = Some n" for y n using near [OF that \<open>\<sigma> \<in> dbm_gamma d\<close>] .
    qed (intro allI impI iv)
    have ne: "dbm_gamma d \<noteq> {}" by (rule gamma_nonempty [OF sh])
    show ?thesis
    proof (cases u)
      case None
      have "v \<in> fst ` set (variable_terms e) \<and> (\<forall>\<sigma>. \<sigma> \<in> dbm_gamma d \<longrightarrow> bound_sign up * (lin_eval \<sigma> e - \<sigma> v) \<le> bound_sign up * (res - n))"
        if "(v, n) \<in> set terms" for v n
        using ds that ne by (auto simp: None open_value_def lin_eval_def algebra_simps)
      then show ?thesis using r by (auto simp: diffcsts_of_assign_def Some s None)
    next
      case (Some v)
      have "v \<in> fst ` set (variable_terms e) \<and> (\<forall>\<sigma>. \<sigma> \<in> dbm_gamma d \<longrightarrow> bound_sign up * (lin_eval \<sigma> e - \<sigma> v) \<le> bound_sign up * res)"
        using ds ne by (auto simp: Some open_value_def lin_eval_def algebra_simps)
      then show ?thesis using r by (auto simp: diffcsts_of_assign_def \<open>r = Some s\<close> s Some)
    qed
  qed
qed

section \<open>Inequalities\<close>

definition part :: "(int \<Rightarrow> int \<Rightarrow> int) \<Rightarrow> valuation \<Rightarrow> ((Weight \<times> variable_t) \<times> Weight) list \<Rightarrow> int" where
  "part f \<sigma> ts = sum_list (map (\<lambda>((c, x), m). c * f (\<sigma> x) m) ts)"

abbreviation pos_part :: "valuation \<Rightarrow> ((Weight \<times> variable_t) \<times> Weight) list \<Rightarrow> int" where
  "pos_part \<equiv> part (\<lambda>x m. x - m)"

abbreviation neg_part :: "valuation \<Rightarrow> ((Weight \<times> variable_t) \<times> Weight) list \<Rightarrow> int" where
  "neg_part \<equiv> part (\<lambda>x m. m - x)"

definition scaled :: "valuation \<Rightarrow> (variable_t \<times> Weight) option \<Rightarrow> int" where
  "scaled \<sigma> u = (case u of None \<Rightarrow> 0 | Some (v, c) \<Rightarrow> c * \<sigma> v)"

text \<open>What is left of the bound when the terms that have been visited are taken off.\<close>

definition leq_slack :: "leq_terms \<Rightarrow> valuation \<Rightarrow> int" where
  "leq_slack st \<sigma> = lt_ub st - scaled \<sigma> (lt_lbvar st) + scaled \<sigma> (lt_ubvar st) - pos_part \<sigma> (lt_pos st) - neg_part \<sigma> (lt_neg st)"

definition terms_ok :: "variable_t set \<Rightarrow> valuation set \<Rightarrow> leq_terms \<Rightarrow> bool" where
  "terms_ok vs S st \<longleftrightarrow> (\<forall>x c. lt_lbvar st = Some (x, c) \<longrightarrow> x \<in> vs \<and> 1 \<le> c) \<and> (\<forall>x c. lt_ubvar st = Some (x, c) \<longrightarrow> x \<in> vs \<and> 1 \<le> c) \<and>
     (\<forall>c x m. ((c, x), m) \<in> set (lt_pos st) \<longrightarrow> x \<in> vs \<and> 1 \<le> c \<and> (\<forall>\<sigma>. \<sigma> \<in> S \<longrightarrow> m \<le> \<sigma> x)) \<and>
     (\<forall>c x m. ((c, x), m) \<in> set (lt_neg st) \<longrightarrow> x \<in> vs \<and> 1 \<le> c \<and> (\<forall>\<sigma>. \<sigma> \<in> S \<longrightarrow> \<sigma> x \<le> m))"

lemma part_simps [simp]: "part f \<sigma> [] = 0" "part f \<sigma> (ts @ [((c, x), m)]) = part f \<sigma> ts + c * f (\<sigma> x) m"
  by (simp_all add: part_def)

lemma split_terms_sound:
  assumes ix: "\<And>y. y \<in> fst ` set ts \<Longrightarrow> ix y = Inr (iv y)" and vs: "fst ` set ts \<subseteq> vs"
    and lb: "\<And>y n \<sigma>. ext_number (ivl_lb (iv y)) = Some n \<Longrightarrow> \<sigma> \<in> S \<Longrightarrow> n \<le> \<sigma> y"
    and ub: "\<And>y n \<sigma>. ext_number (ivl_ub (iv y)) = Some n \<Longrightarrow> \<sigma> \<in> S \<Longrightarrow> \<sigma> y \<le> n"
    and nz: "\<And>y c. (y, c) \<in> set ts \<Longrightarrow> c \<noteq> 0" and ok: "terms_ok vs S st0"
  shows "\<exists>r. split_terms ix ts st0 = Inr r \<and>
    (\<forall>st. r = Some st \<longrightarrow> terms_ok vs S st \<and> (\<forall>\<sigma>. leq_slack st \<sigma> = leq_slack st0 \<sigma> - terms_eval \<sigma> ts))"
  using ix vs nz ok
proof (induction ts arbitrary: st0)
  case (Cons t ts)
  obtain y c where t: "t = (y, c)" by (cases t)
  have y: "ix y = Inr (iv y)" "y \<in> vs" using Cons.prems(1,2) t by simp_all
  have c0: "c \<noteq> 0" using Cons.prems(3) [of y c] t by simp
  have rest: "\<exists>r. split_terms ix ts st = Inr r \<and>
      (\<forall>st'. r = Some st' \<longrightarrow> terms_ok vs S st' \<and> (\<forall>\<sigma>. leq_slack st' \<sigma> = leq_slack st0 \<sigma> - terms_eval \<sigma> (t # ts)))"
    if ok: "terms_ok vs S st" and sl: "\<And>\<sigma>. leq_slack st \<sigma> = leq_slack st0 \<sigma> - c * \<sigma> y" for st
  proof -
    have "\<exists>r. split_terms ix ts st = Inr r \<and>
      (\<forall>st'. r = Some st' \<longrightarrow> terms_ok vs S st' \<and> (\<forall>\<sigma>. leq_slack st' \<sigma> = leq_slack st \<sigma> - terms_eval \<sigma> ts))"
    proof (rule Cons.IH [OF _ _ _ ok])
      show "b \<noteq> 0" if "(a, b) \<in> set ts" for a b using Cons.prems(3) [of a b] that by simp
    qed (use Cons.prems(1,2) in auto)
    then show ?thesis using sl by (auto simp: t)
  qed
  note ok = Cons.prems(4)
  show ?case
  proof (cases "c > 0")
    case True
    show ?thesis
    proof (cases "ext_number (ivl_lb (iv y))")
      case None
      have "terms_ok vs S (st0\<lparr>lt_lbvar := Some (y, c)\<rparr>)" using ok True y(2) by (simp add: terms_ok_def)
      moreover have "leq_slack (st0\<lparr>lt_lbvar := Some (y, c)\<rparr>) \<sigma> = leq_slack st0 \<sigma> - c * \<sigma> y" if "lt_lbvar st0 = None" for \<sigma>
        using that by (simp add: leq_slack_def scaled_def)
      ultimately show ?thesis using rest [of "st0\<lparr>lt_lbvar := Some (y, c)\<rparr>"] t y(1) True None by (cases "lt_lbvar st0") simp_all
    next
      case (Some n)
      let ?st = "st0\<lparr>lt_ub := lt_ub st0 - n * c, lt_pos := lt_pos st0 @ [((c, y), n)]\<rparr>"
      have "terms_ok vs S ?st" using ok True y(2) lb [OF Some] by (auto simp: terms_ok_def)
      moreover have "leq_slack ?st \<sigma> = leq_slack st0 \<sigma> - c * \<sigma> y" for \<sigma> by (simp add: leq_slack_def algebra_simps)
      ultimately show ?thesis using rest [of ?st] t y(1) True Some by simp
    qed
  next
    case False
    then have c: "1 \<le> - c" using c0 by simp
    show ?thesis
    proof (cases "ext_number (ivl_ub (iv y))")
      case None
      have "terms_ok vs S (st0\<lparr>lt_ubvar := Some (y, - c)\<rparr>)" using ok c y(2) by (simp add: terms_ok_def)
      moreover have "leq_slack (st0\<lparr>lt_ubvar := Some (y, - c)\<rparr>) \<sigma> = leq_slack st0 \<sigma> - c * \<sigma> y" if "lt_ubvar st0 = None" for \<sigma>
        using that by (simp add: leq_slack_def scaled_def)
      ultimately show ?thesis using rest [of "st0\<lparr>lt_ubvar := Some (y, - c)\<rparr>"] t y(1) False None by (cases "lt_ubvar st0") simp_all
    next
      case (Some n)
      let ?st = "st0\<lparr>lt_ub := lt_ub st0 - n * c, lt_neg := lt_neg st0 @ [((- c, y), n)]\<rparr>"
      have "terms_ok vs S ?st" using ok c y(2) ub [OF Some] by (auto simp: terms_ok_def)
      moreover have "leq_slack ?st \<sigma> = leq_slack st0 \<sigma> - c * \<sigma> y" for \<sigma> by (simp add: leq_slack_def algebra_simps)
      ultimately show ?thesis using rest [of ?st] t y(1) False Some by simp
    qed
  qed
qed simp

lemma sum_list_member: "x \<in> set xs \<Longrightarrow> (\<And>y. y \<in> set xs \<Longrightarrow> 0 \<le> f y) \<Longrightarrow> f x \<le> sum_list (map f xs :: int list)"
proof (induction xs)
  case (Cons a xs)
  have nonneg: "0 \<le> sum_list (map f xs)" using Cons.prems(2) by (intro sum_list_nonneg) auto
  show ?case
  proof (cases "x = a")
    case False
    then have "f x \<le> sum_list (map f xs)" using Cons by simp
    moreover have "0 \<le> f a" using Cons.prems(2) by simp
    ultimately show ?thesis by simp
  qed (use nonneg in simp)
qed simp

lemma part_member:
  assumes "((c, x), m) \<in> set ts" "\<And>c x m. ((c, x), m) \<in> set ts \<Longrightarrow> 1 \<le> c \<and> 0 \<le> f (\<sigma> x) m"
  shows "f (\<sigma> x) m \<le> c * f (\<sigma> x) m" "c * f (\<sigma> x) m \<le> part f \<sigma> ts"
proof -
  have "0 \<le> c' * f (\<sigma> x') m'" if "((c', x'), m') \<in> set ts" for c' x' m' using assms(2) [OF that] by simp
  then show "c * f (\<sigma> x) m \<le> part f \<sigma> ts"
    using sum_list_member [of "((c, x), m)" ts "\<lambda>((c, x), m). c * f (\<sigma> x) m"] assms(1) unfolding part_def by fastforce
  show "f (\<sigma> x) m \<le> c * f (\<sigma> x) m" using assms(2) [OF assms(1)] mult_right_mono [of 1 c "f (\<sigma> x) m"] by simp
qed

lemma part_nonneg: "(\<And>c x m. ((c, x), m) \<in> set ts \<Longrightarrow> 1 \<le> c \<and> 0 \<le> f (\<sigma> x) m) \<Longrightarrow> 0 \<le> part f \<sigma> ts"
  unfolding part_def by (intro sum_list_nonneg) fastforce

lemma le_sdiv: "c * z \<le> u \<Longrightarrow> 1 \<le> c \<Longrightarrow> z \<le> u sdiv (c :: int)"
proof -
  assume le: "c * z \<le> u" and c: "1 \<le> c"
  then have "(c * z) sdiv c \<le> u sdiv c" by (intro sdiv_mono_pos) simp_all
  moreover have "(c * z) sdiv c = z" using c by (simp add: signed_divide_int_def abs_mult sgn_mult mult_sgn_abs)
  ultimately show ?thesis by simp
qed

lemma sdiv_le: "u \<le> c * z \<Longrightarrow> 1 \<le> c \<Longrightarrow> u sdiv (c :: int) \<le> z"
proof -
  assume le: "u \<le> c * z" and c: "1 \<le> c"
  then have "u sdiv c \<le> (c * z) sdiv c" by (intro sdiv_mono_pos) simp_all
  moreover have "(c * z) sdiv c = z" using c by (simp add: signed_divide_int_def abs_mult sgn_mult mult_sgn_abs)
  ultimately show ?thesis by simp
qed

text \<open>What the constraints of an inequality must satisfy, for the valuations \<open>S\<close> and variables \<open>vs\<close>.\<close>

definition csts_ok :: "variable_t set \<Rightarrow> valuation set \<Rightarrow> leq_csts \<Rightarrow> bool" where
  "csts_ok vs S cs \<longleftrightarrow> (case cs of (csts, lbs, ubs) \<Rightarrow>
     (\<forall>x y k. ((x, y), k) \<in> set csts \<longrightarrow> x \<in> vs \<and> y \<in> vs \<and> (\<forall>\<sigma>. \<sigma> \<in> S \<longrightarrow> \<sigma> x - \<sigma> y \<le> k)) \<and>
     (\<forall>x k. (x, k) \<in> set lbs \<longrightarrow> x \<in> vs \<and> (\<forall>\<sigma>. \<sigma> \<in> S \<longrightarrow> k \<le> \<sigma> x)) \<and>
     (\<forall>x k. (x, k) \<in> set ubs \<longrightarrow> x \<in> vs \<and> (\<forall>\<sigma>. \<sigma> \<in> S \<longrightarrow> \<sigma> x \<le> k)))"

lemma foldE_map_total:
  assumes "\<And>x. x \<in> set xs \<Longrightarrow> f x = Inr (g x)"
  shows "foldE_map f xs = Inr (map g xs)"
  using assms by (induction xs) simp_all

lemma csts_of_terms_sound:
  assumes ok: "terms_ok vs S st" and sl: "\<And>\<sigma>. \<sigma> \<in> S \<Longrightarrow> 0 \<le> leq_slack st \<sigma>"
  shows "\<exists>cs. csts_of_terms st = Inr cs \<and> csts_ok vs S cs"
proof -
  have pos1: "x \<in> vs" "1 \<le> c" "\<sigma> \<in> S \<Longrightarrow> 0 \<le> \<sigma> x - m" if "((c, x), m) \<in> set (lt_pos st)" for c x m \<sigma>
    using ok that unfolding terms_ok_def by (blast, blast, fastforce)
  have neg1: "x \<in> vs" "1 \<le> c" "\<sigma> \<in> S \<Longrightarrow> 0 \<le> m - \<sigma> x" if "((c, x), m) \<in> set (lt_neg st)" for c x m \<sigma>
    using ok that unfolding terms_ok_def by (blast, blast, fastforce)
  have pos0: "0 \<le> pos_part \<sigma> (lt_pos st)" and neg0: "0 \<le> neg_part \<sigma> (lt_neg st)" if "\<sigma> \<in> S" for \<sigma>
    using pos1(2,3) neg1(2,3) that by (auto intro!: part_nonneg)
  have posm: "\<sigma> x - m \<le> c * (\<sigma> x - m)" "c * (\<sigma> x - m) \<le> pos_part \<sigma> (lt_pos st)" if "((c, x), m) \<in> set (lt_pos st)" "\<sigma> \<in> S" for c x m \<sigma>
    using part_member [OF that(1), of "\<lambda>x m. x - m" \<sigma>] pos1(2,3) that(2) by blast+
  have negm: "m - \<sigma> x \<le> c * (m - \<sigma> x)" "c * (m - \<sigma> x) \<le> neg_part \<sigma> (lt_neg st)" if "((c, x), m) \<in> set (lt_neg st)" "\<sigma> \<in> S" for c x m \<sigma>
    using part_member [OF that(1), of "\<lambda>x m. m - x" \<sigma>] neg1(2,3) that(2) by blast+
  have base: "scaled \<sigma> (lt_lbvar st) + pos_part \<sigma> (lt_pos st) + neg_part \<sigma> (lt_neg st) \<le> lt_ub st + scaled \<sigma> (lt_ubvar st)" if "\<sigma> \<in> S" for \<sigma>
    using sl [OF that] by (simp add: leq_slack_def)
  show ?thesis
  proof (cases "lt_lbvar st")
    case None
    show ?thesis
    proof (cases "lt_ubvar st")
      case None': None
      have le: "pos_part \<sigma> (lt_pos st) + neg_part \<sigma> (lt_neg st) \<le> lt_ub st" if "\<sigma> \<in> S" for \<sigma>
        using base [OF that] None None' by (simp add: scaled_def)
      have "foldE_map (\<lambda>((c, y), k). bindE (num_div (- lt_ub st) c) (\<lambda>q. Inr (y, q + k))) (lt_neg st) =
          Inr (map (\<lambda>((c, y), k). (y, (- lt_ub st) sdiv c + k)) (lt_neg st))"
        by (rule foldE_map_total) (use neg1(2) in \<open>fastforce simp: num_div_def\<close>)
      moreover have "foldE_map (\<lambda>((c, x), k). bindE (num_div (lt_ub st) c) (\<lambda>q. Inr (x, q + k))) (lt_pos st) =
          Inr (map (\<lambda>((c, x), k). (x, lt_ub st sdiv c + k)) (lt_pos st))"
        by (rule foldE_map_total) (use pos1(2) in \<open>fastforce simp: num_div_def\<close>)
      moreover have "x \<in> vs \<and> y \<in> vs \<and> (\<forall>\<sigma>. \<sigma> \<in> S \<longrightarrow> \<sigma> x - \<sigma> y \<le> lt_ub st - m + k)"
        if "((c, y), m) \<in> set (lt_neg st)" "((c', x), k) \<in> set (lt_pos st)" for c c' x y m k
        using pos1(1) [OF that(2)] neg1(1) [OF that(1)] posm [OF that(2)] negm [OF that(1)] le by fastforce
      moreover have "y \<in> vs \<and> (\<forall>\<sigma>. \<sigma> \<in> S \<longrightarrow> (- lt_ub st) sdiv c + m \<le> \<sigma> y)" if n: "((c, y), m) \<in> set (lt_neg st)" for c y m
      proof -
        have "- lt_ub st \<le> c * (\<sigma> y - m)" if "\<sigma> \<in> S" for \<sigma>
          using negm(2) [OF n that] le [OF that] pos0 [OF that] by (simp add: right_diff_distrib)
        then show ?thesis using sdiv_le neg1(1,2) [OF n] by fastforce
      qed
      moreover have "x \<in> vs \<and> (\<forall>\<sigma>. \<sigma> \<in> S \<longrightarrow> \<sigma> x \<le> lt_ub st sdiv c + m)" if p: "((c, x), m) \<in> set (lt_pos st)" for c x m
      proof -
        have "c * (\<sigma> x - m) \<le> lt_ub st" if "\<sigma> \<in> S" for \<sigma>
          using posm(2) [OF p that] le [OF that] neg0 [OF that] by simp
        then show ?thesis using le_sdiv pos1(1,2) [OF p] by fastforce
      qed
      ultimately show ?thesis using None None' by (auto simp: csts_of_terms_def csts_ok_def)
    next
      case (Some yc)
      obtain y cy where yc: "yc = (y, cy)" by (cases yc)
      have y: "y \<in> vs" "1 \<le> cy" using ok Some yc by (auto simp: terms_ok_def)
      have le: "pos_part \<sigma> (lt_pos st) + neg_part \<sigma> (lt_neg st) \<le> lt_ub st + cy * \<sigma> y" if "\<sigma> \<in> S" for \<sigma>
        using base [OF that] None Some yc by (simp add: scaled_def)
      have "x \<in> vs \<and> (\<forall>\<sigma>. \<sigma> \<in> S \<longrightarrow> \<sigma> x - \<sigma> y \<le> lt_ub st + k)" if p: "((c, x), k) \<in> set (lt_pos st)" "cy = 1" for c x k
        using pos1(1) [OF p(1)] posm [OF p(1)] le neg0 p(2) by fastforce
      moreover have "\<forall>\<sigma>. \<sigma> \<in> S \<longrightarrow> (- lt_ub st) sdiv cy \<le> \<sigma> y"
        using le pos0 neg0 y(2) by (fastforce intro: sdiv_le)
      ultimately show ?thesis using None Some yc y by (auto simp: csts_of_terms_def csts_ok_def num_div_def)
    qed
  next
    case (Some xc)
    obtain x cx where xc: "xc = (x, cx)" by (cases xc)
    have x: "x \<in> vs" "1 \<le> cx" using ok Some xc by (auto simp: terms_ok_def)
    show ?thesis
    proof (cases "lt_ubvar st")
      case None
      have le: "cx * \<sigma> x + pos_part \<sigma> (lt_pos st) + neg_part \<sigma> (lt_neg st) \<le> lt_ub st" if "\<sigma> \<in> S" for \<sigma>
        using base [OF that] None Some xc by (simp add: scaled_def)
      have "y \<in> vs \<and> (\<forall>\<sigma>. \<sigma> \<in> S \<longrightarrow> \<sigma> x - \<sigma> y \<le> lt_ub st - k)" if n: "((c, y), k) \<in> set (lt_neg st)" "cx = 1" for c y k
        using neg1(1) [OF n(1)] negm [OF n(1)] le pos0 n(2) by fastforce
      moreover have "\<forall>\<sigma>. \<sigma> \<in> S \<longrightarrow> \<sigma> x \<le> lt_ub st sdiv cx"
        using le pos0 neg0 x(2) by (fastforce intro: le_sdiv)
      ultimately show ?thesis using None Some xc x by (auto simp: csts_of_terms_def csts_ok_def num_div_def)
    next
      case Some': (Some yc)
      obtain y cy where yc: "yc = (y, cy)" by (cases yc)
      have y: "y \<in> vs" using ok Some' yc by (auto simp: terms_ok_def)
      have "\<sigma> x - \<sigma> y \<le> lt_ub st" if "\<sigma> \<in> S" "cx = 1" "cy = 1" for \<sigma>
        using base [OF that(1)] pos0 [OF that(1)] neg0 [OF that(1)] Some Some' xc yc that(2,3) by (simp add: scaled_def)
      then show ?thesis using Some Some' xc yc x y by (auto simp: csts_of_terms_def csts_ok_def)
    qed
  qed
qed

lemma diffcsts_of_lin_leq_sound:
  assumes sh: "dbm_shape d" and named: "dom (vm d) \<subseteq> {..<length ns}" and e: "lin_ok e"
  shows "\<exists>cs. diffcsts_of_lin_leq ns d e = Inr cs \<and> csts_ok (fst ` set (variable_terms e)) {\<sigma> \<in> dbm_gamma d. lin_eval \<sigma> e \<le> 0} cs"
proof -
  let ?vs = "fst ` set (variable_terms e)" and ?S = "{\<sigma> \<in> dbm_gamma d. lin_eval \<sigma> e \<le> 0}"
  let ?st0 = "\<lparr>lt_ub = - constant_term e, lt_lbvar = None, lt_ubvar = None, lt_pos = [], lt_neg = []\<rparr>"
  have "\<exists>i. dbm_index ns d y = Inr i" for y using dbm_index_sound [OF sh named] by blast
  then obtain iv where iv: "\<And>y. dbm_index ns d y = Inr (iv y)" by metis
  have bounds: "ext_number (ivl_lb (iv y)) = var_lb d y" "ext_number (ivl_ub (iv y)) = var_ub d y" for y
    using dbm_index_sound [OF sh named, of y] iv [of y] by auto
  obtain r where r: "split_terms (dbm_index ns d) (variable_terms e) ?st0 = Inr r"
    and st: "\<forall>st. r = Some st \<longrightarrow> terms_ok ?vs ?S st \<and> (\<forall>\<sigma>. leq_slack st \<sigma> = leq_slack ?st0 \<sigma> - terms_eval \<sigma> (variable_terms e))"
  proof -
    have "\<exists>r. split_terms (dbm_index ns d) (variable_terms e) ?st0 = Inr r \<and>
      (\<forall>st. r = Some st \<longrightarrow> terms_ok ?vs ?S st \<and> (\<forall>\<sigma>. leq_slack st \<sigma> = leq_slack ?st0 \<sigma> - terms_eval \<sigma> (variable_terms e)))"
    proof (rule split_terms_sound [where iv = iv])
      show "n \<le> \<sigma> y" if "ext_number (ivl_lb (iv y)) = Some n" "\<sigma> \<in> ?S" for y n \<sigma> using var_bounds(1) [of \<sigma> d y n] that bounds by simp
      show "\<sigma> y \<le> n" if "ext_number (ivl_ub (iv y)) = Some n" "\<sigma> \<in> ?S" for y n \<sigma> using var_bounds(2) [of \<sigma> d y n] that bounds by simp
      show "c \<noteq> 0" if "(y, c) \<in> set (variable_terms e)" for y c using e that by (auto simp: lin_ok_def)
    qed (simp_all add: iv terms_ok_def)
    then show thesis using that by blast
  qed
  show ?thesis
  proof (cases r)
    case None
    then show ?thesis using r by (simp add: diffcsts_of_lin_leq_def csts_ok_def)
  next
    case (Some s)
    then have s: "terms_ok ?vs ?S s" "\<And>\<sigma>. leq_slack s \<sigma> = leq_slack ?st0 \<sigma> - terms_eval \<sigma> (variable_terms e)" using st by auto
    have "0 \<le> leq_slack s \<sigma>" if "\<sigma> \<in> ?S" for \<sigma>
      using that by (simp add: s(2) leq_slack_def [of ?st0] scaled_def lin_eval_def)
    from csts_of_terms_sound [OF s(1) this] show ?thesis using r Some by (simp add: diffcsts_of_lin_leq_def)
  qed
qed

end
