(* ===== verification/Crab_Dbm_Add.thy ===== *)
theory Crab_Dbm_Add
  imports Crab_Dbm_Diffs
begin

text \<open>
  Adding a linear constraint to a zone: the operation returns, finds the state infeasible only when no
  valuation satisfies the constraint, and otherwise keeps all that do.
\<close>

section \<open>Sequencing\<close>

lemma keeps_bind_result:
  assumes m: "keeps ns vs C d m" and f: "\<And>d'. m = Some (Inr (Some d')) \<Longrightarrow> good ns vs d' \<Longrightarrow> keeps ns vs C d' (f d')"
  shows "keeps ns vs C d (bindO m f)"
proof (cases "\<exists>d'. m = Some (Inr (Some d'))")
  case True
  then obtain d' where d': "m = Some (Inr (Some d'))" by blast
  then have sub: "good ns vs d'" "\<And>\<sigma>. \<sigma> \<in> dbm_gamma d \<Longrightarrow> C \<sigma> \<Longrightarrow> \<sigma> \<in> dbm_gamma d'" using m by (auto simp: keeps_def)
  have "keeps ns vs C d (f d')" by (rule keeps_weaken [OF f [OF d' sub(1)]]) (use sub(2) in blast)
  then show ?thesis using d' by (simp add: bindO_def)
next
  case False
  then show ?thesis using m by (auto simp: keeps_def bindO_def)
qed

lemma keeps_fold_inv:
  assumes "good ns vs d" "P d"
    and "\<And>x d. x \<in> set xs \<Longrightarrow> good ns vs d \<Longrightarrow> P d \<Longrightarrow> keeps ns vs C d (f d x)"
    and "\<And>x d d'. P d \<Longrightarrow> f d x = Some (Inr (Some d')) \<Longrightarrow> P d'"
  shows "keeps ns vs C d (foldO f d xs)"
  using assms(1-3)
proof (induction xs arbitrary: d)
  case Nil
  then show ?case by (simp add: keeps_ret)
next
  case (Cons x xs)
  show ?case unfolding foldO.simps
  proof (rule keeps_bind_result)
    show "keeps ns vs C d (f d x)" using Cons.prems by simp
    show "keeps ns vs C d' (foldO f d' xs)" if "f d x = Some (Inr (Some d'))" "good ns vs d'" for d'
      using Cons.IH [OF that(2) assms(4) [OF Cons.prems(2) that(1)]] Cons.prems(3) by simp
  qed
qed

lemma dbm_repair_result:
  "dbm_repair s t d = Some (Inr (Some d')) \<Longrightarrow> \<exists>p. d' = d\<lparr>db_potential := p\<rparr>"
  by (auto simp: dbm_repair_def bindR_eq_Inr)

section \<open>Bounds and differences\<close>

lemma zero_live: "good ns vs d \<Longrightarrow> 0 \<in> verts (db_g d)"
  using dbm_shapeD(3) [OF goodD(1)] .

lemma var_live: "good ns vs d \<Longrightarrow> vm d x = Some v \<Longrightarrow> v \<in> verts (db_g d)"
  using dbm_shapeD(4) [OF goodD(1)] .

lemma add_lower_bound_ok:
  assumes d: "good ns vs d" and x: "x \<in> vs" and C: "\<And>\<sigma>. C \<sigma> \<Longrightarrow> n \<le> \<sigma> x"
  shows "keeps ns vs C d (add_lower_bound d (x, n))"
  unfolding add_lower_bound_def prod.case
proof (rule keeps_get_vert [OF d x], unfold prod.case)
  fix v d' assume d': "good ns vs d'" "vm d' x = Some v"
  have "keeps ns vs C d' (dbm_repair v 0 (d'\<lparr>db_g := set_edge v (- n) 0 (db_g d')\<rparr>))"
  proof (rule keeps_set_edge [OF d'(1) var_live [OF d'] zero_live [OF d'(1)]])
    fix val \<sigma> assume "models d' val \<sigma>" "C \<sigma>"
    then show "val 0 - val v \<le> - n" using modelsD(1) [of d' val \<sigma>] modelsD(2) [of d' val \<sigma> x v] d'(2) C [of \<sigma>] by simp
  qed
  then show "keeps ns vs C d' (if case graph_lookup (db_g d') v 0 of None \<Rightarrow> False | Some w \<Rightarrow> w \<le> - n then retO d'
      else dbm_repair v 0 (d'\<lparr>db_g := set_edge v (- n) 0 (db_g d')\<rparr>))"
    using keeps_ret [OF d'(1)] by simp
qed

lemma add_upper_bound_ok:
  assumes d: "good ns vs d" and x: "x \<in> vs" and C: "\<And>\<sigma>. C \<sigma> \<Longrightarrow> \<sigma> x \<le> n"
  shows "keeps ns vs C d (add_upper_bound d (x, n))"
  unfolding add_upper_bound_def prod.case
proof (rule keeps_get_vert [OF d x], unfold prod.case)
  fix v d' assume d': "good ns vs d'" "vm d' x = Some v"
  have "keeps ns vs C d' (dbm_repair 0 v (d'\<lparr>db_g := set_edge 0 n v (db_g d')\<rparr>))"
  proof (rule keeps_set_edge [OF d'(1) zero_live [OF d'(1)] var_live [OF d']])
    fix val \<sigma> assume "models d' val \<sigma>" "C \<sigma>"
    then show "val v - val 0 \<le> n" using modelsD(1) [of d' val \<sigma>] modelsD(2) [of d' val \<sigma> x v] d'(2) C [of \<sigma>] by simp
  qed
  then show "keeps ns vs C d' (if case graph_lookup (db_g d') 0 v of None \<Rightarrow> False | Some w \<Rightarrow> w \<le> n then retO d'
      else dbm_repair 0 v (d'\<lparr>db_g := set_edge 0 n v (db_g d')\<rparr>))"
    using keeps_ret [OF d'(1)] by simp
qed

lemma close_edge_ok:
  assumes d: "good ns vs d" and e: "edges (db_g d) (s, t) = Some w" and nz: "s \<noteq> 0" "t \<noteq> 0"
  shows "keeps ns vs C d (bindR (lift_res (close_over_edge (db_g d) s t)) (\<lambda>g. retO (d\<lparr>db_g := g\<rparr>)))"
proof -
  obtain h where h: "close_over_edge (db_g d) s t = Inr h" "strengthens (db_g d) h"
    using close_over_edge_ok [OF dbm_shapeD(1) [OF goodD(1) [OF d]] e nz] by blast
  have hs: "graph_ok h" "verts h = verts (db_g d)" "graph_size h = graph_size (db_g d)" using h(2) by (simp_all add: strengthens_def)
  note k = keeps_graph [OF d hs strengthens_sat [OF h(2)]]
  show ?thesis using keeps_from [OF keeps_ret [OF k(1)] k(2)] h(1) by simp
qed

lemma add_difference_ok:
  assumes d: "good ns vs d" and xy: "x \<in> vs" "y \<in> vs" and C: "\<And>\<sigma>. C \<sigma> \<Longrightarrow> \<sigma> x - \<sigma> y \<le> k"
  shows "keeps ns vs C d (add_difference d ((x, y), k))"
  unfolding add_difference_def prod.case
proof (rule keeps_get_vert [OF d xy(2)], unfold prod.case)
  fix s d1 assume d1: "good ns vs d1" "vm d1 y = Some s"
  show "keeps ns vs C d1 (bindR (lift_res (get_vert x d1)) (\<lambda>(dest, d).
      bindO (dbm_repair s dest (d\<lparr>db_g := update_edge s k dest (db_g d)\<rparr>)) (\<lambda>d.
      bindR (lift_res (close_over_edge (db_g d) s dest)) (\<lambda>g. retO (d\<lparr>db_g := g\<rparr>)))))"
  proof (rule keeps_get_vert [OF d1(1) xy(1)], unfold prod.case)
    fix t d2 assume d2: "good ns vs d2" "vm d2 x = Some t" and old: "\<And>z u. vm d1 z = Some u \<Longrightarrow> vm d2 z = Some u"
    have s: "vm d2 y = Some s" using old d1(2) .
    note live = var_live [OF d2(1) s] var_live [OF d2]
    show "keeps ns vs C d2 (bindO (dbm_repair s t (d2\<lparr>db_g := update_edge s k t (db_g d2)\<rparr>)) (\<lambda>d.
        bindR (lift_res (close_over_edge (db_g d) s t)) (\<lambda>g. retO (d\<lparr>db_g := g\<rparr>))))"
    proof (rule keeps_bind_result)
      show "keeps ns vs C d2 (dbm_repair s t (d2\<lparr>db_g := update_edge s k t (db_g d2)\<rparr>))"
      proof (rule keeps_update_edge [OF d2(1) live])
        fix val \<sigma> assume "models d2 val \<sigma>" "C \<sigma>"
        then show "val t - val s \<le> k" using modelsD(2) [of d2 val \<sigma>] d2(2) s C by fastforce
      qed
      fix d3 assume r: "dbm_repair s t (d2\<lparr>db_g := update_edge s k t (db_g d2)\<rparr>) = Some (Inr (Some d3))" and d3: "good ns vs d3"
      have "db_g d3 = update_edge s k t (db_g d2)" using dbm_repair_result [OF r] by auto
      then have "edges (db_g d3) (s, t) \<noteq> None" using update_edge_ok(2) [OF dbm_shapeD(1) [OF goodD(1) [OF d2(1)]] live refl] by simp
      then obtain w where w: "edges (db_g d3) (s, t) = Some w" by auto
      show "keeps ns vs C d3 (bindR (lift_res (close_over_edge (db_g d3) s t)) (\<lambda>g. retO (d3\<lparr>db_g := g\<rparr>)))"
        by (rule close_edge_ok [OF d3 w]) (use dbm_shapeD(5) [OF goodD(1) [OF d2(1)]] d2(2) s in blast)+
    qed
  qed
qed

lemma close_bounds_ok:
  assumes d: "good ns vs d"
  shows "keeps ns vs C d (bindR (dbm_normalize (d\<lparr>db_g := apply_delta (db_g d) (close_after_assign (whole (db_g d)) (pot d) 0)\<rparr>)) retO)"
proof -
  have g: "graph_ok (db_g d)" using dbm_shapeD(1) [OF goodD(1) [OF d]] .
  have ok: "delta_ok (edges (db_g d)) (verts (db_g d)) (close_after_assign (whole (db_g d)) (pot d) 0)"
    by (rule close_after_assign_ok [OF presents_whole [OF g] zero_live [OF d]])
  note k = keeps_graph [OF d apply_delta_ok(1,2) [OF g ok] apply_delta_size(1) apply_delta_ok(3) [OF g ok]]
  show ?thesis using keeps_from [OF keeps_ret [OF k(1)] k(2)] good_normalize [OF k(1)] by simp
qed

lemma goodD_named: "good ns vs d \<Longrightarrow> dom (vm d) \<subseteq> {..<length ns}"
  using goodD(2) by (simp add: roomy_def)

lemma add_linear_leq_ok:
  assumes d: "good ns vs d" and e: "lin_ok e" and vs: "fst ` set (variable_terms e) \<subseteq> vs"
  shows "keeps ns vs (\<lambda>\<sigma>. lin_eval \<sigma> e \<le> 0) d (add_linear_leq ns e d)"
proof -
  let ?C = "\<lambda>\<sigma>. \<sigma> \<in> dbm_gamma d \<and> lin_eval \<sigma> e \<le> 0"
  obtain cs where cs: "diffcsts_of_lin_leq ns d e = Inr cs"
    "csts_ok (fst ` set (variable_terms e)) {\<sigma> \<in> dbm_gamma d. lin_eval \<sigma> e \<le> 0} cs"
    using diffcsts_of_lin_leq_sound [OF goodD(1) [OF d] goodD_named [OF d] e] by blast
  obtain csts lbs ubs where split: "cs = (csts, lbs, ubs)" by (cases cs)
  note cs = cs [unfolded split]
  have csts: "x \<in> vs" "y \<in> vs" "?C \<sigma> \<Longrightarrow> \<sigma> x - \<sigma> y \<le> k" if "((x, y), k) \<in> set csts" for x y k \<sigma>
    using cs(2) that vs by (auto simp: csts_ok_def)
  have lbs: "x \<in> vs" "?C \<sigma> \<Longrightarrow> k \<le> \<sigma> x" if "(x, k) \<in> set lbs" for x k \<sigma>
    using cs(2) that vs by (auto simp: csts_ok_def)
  have ubs: "x \<in> vs" "?C \<sigma> \<Longrightarrow> \<sigma> x \<le> k" if "(x, k) \<in> set ubs" for x k \<sigma>
    using cs(2) that vs by (auto simp: csts_ok_def)
  have "keeps ns vs ?C d (bindO (foldO add_lower_bound d lbs) (\<lambda>d. bindO (foldO add_upper_bound d ubs) (\<lambda>d.
      bindO (foldO add_difference d csts) (\<lambda>d.
        bindR (dbm_normalize (d\<lparr>db_g := apply_delta (db_g d) (close_after_assign (whole (db_g d)) (pot d) 0)\<rparr>)) retO))))"
  proof (intro keeps_bind close_bounds_ok)
    show "keeps ns vs ?C d (foldO add_lower_bound d lbs)"
    proof (rule keeps_fold [OF d])
      fix b d' assume b: "b \<in> set lbs" and d': "good ns vs d'"
      obtain x k where "b = (x, k)" by (cases b)
      then show "keeps ns vs ?C d' (add_lower_bound d' b)" using lbs [of x k] b add_lower_bound_ok [OF d', of x ?C k] by simp
    qed
    show "keeps ns vs ?C d' (foldO add_upper_bound d' ubs)" if "good ns vs d'" for d'
    proof (rule keeps_fold [OF that])
      fix b d' assume b: "b \<in> set ubs" and d': "good ns vs d'"
      obtain x k where "b = (x, k)" by (cases b)
      then show "keeps ns vs ?C d' (add_upper_bound d' b)" using ubs [of x k] b add_upper_bound_ok [OF d', of x ?C k] by simp
    qed
    show "keeps ns vs ?C d' (foldO add_difference d' csts)" if "good ns vs d'" for d'
    proof (rule keeps_fold [OF that])
      fix c d' assume c: "c \<in> set csts" and d': "good ns vs d'"
      obtain x y k where "c = ((x, y), k)" by (metis prod.collapse)
      then show "keeps ns vs ?C d' (add_difference d' c)" using csts [of x y k] c add_difference_ok [OF d', of x y ?C k] by simp
    qed
  qed
  then have "keeps ns vs ?C d (add_linear_leq ns e d)" using cs(1) by (simp add: add_linear_leq_def)
  then show ?thesis by (rule keeps_mono) simp
qed

section \<open>Disequations\<close>

lemma ext_number_simps [simp]: "ext_number (finite_ext n) = Some n" "ext_number plus_infinity = None" "ext_number minus_infinity = None"
  by (simp_all add: ext_number_def is_infinite_def finite_ext_def plus_infinity_def minus_infinity_def mk_extended_def)

lemma lb_member: "ivl_ok i \<Longrightarrow> z \<in> gamma_ivl i \<Longrightarrow> ext_number (ivl_lb i) = Some m \<Longrightarrow> m \<le> z"
proof -
  assume ok: "ivl_ok i" and z: "z \<in> gamma_ivl i" and m: "ext_number (ivl_lb i) = Some m"
  from ivl_okD(1) [OF ok] show ?thesis using z m mem_gamma_iff [OF ok, of z] by (cases rule: ext_exhaust) auto
qed

lemma ub_member: "ivl_ok i \<Longrightarrow> z \<in> gamma_ivl i \<Longrightarrow> ext_number (ivl_ub i) = Some m \<Longrightarrow> z \<le> m"
proof -
  assume ok: "ivl_ok i" and z: "z \<in> gamma_ivl i" and m: "ext_number (ivl_ub i) = Some m"
  from ivl_okD(2) [OF ok] show ?thesis using z m mem_gamma_iff [OF ok, of z] by (cases rule: ext_exhaust) auto
qed

lemma trim_member:
  assumes "ivl_ok i" "z \<in> gamma_ivl i" "z \<noteq> n" "\<not> (is_top i \<and> n = 0)"
  shows "ivl_ok (trim_interval i n) \<and> z \<in> gamma_ivl (trim_interval i n)"
proof -
  have z: "lo i \<le> Fin z" "Fin z \<le> hi i" using assms(2) mem_gamma_iff [OF assms(1)] by simp_all
  note e = ivl_okD(1,2) [OF assms(1)]
  show ?thesis
  proof (cases "ivl_lb i = finite_ext n")
    case True
    then have "n + 1 \<le> z" using z(1) assms(3) by simp
    then show ?thesis using True interval_ok_member [of "finite_ext (n + 1)" "ivl_ub i" z] e(2) z(2) by (simp add: trim_interval_def)
  next
    case False
    show ?thesis
    proof (cases "ivl_ub i = finite_ext n")
      case True
      then have "z \<le> n - 1" using z(2) assms(3) by simp
      then show ?thesis using True False interval_ok_member [of "ivl_lb i" "finite_ext (n - 1)" z] e(1) z(1) by (simp add: trim_interval_def)
    next
      case False': False
      have "trim_interval i n = i" using False False' assms(4) unfolding trim_interval_def by (simp only: if_False)
      then show ?thesis using assms by simp
    qed
  qed
qed

text \<open>Strengthening a bound of a vertex that stands for a variable, and the bounds that follow.\<close>

lemma models_agree:
  assumes d: "good ns vs d" and same: "db_vert_map d' = db_vert_map d" and m: "models d' val' \<sigma>" "models d val \<sigma>" and u: "u \<in> verts (db_g d)"
  shows "val' u = val u"
proof (cases "u = 0")
  case True
  then show ?thesis using modelsD(1) [OF m(1)] modelsD(1) [OF m(2)] by simp
next
  case False
  then obtain y where "vm d y = Some u" using goodD(3) [OF d] u by (auto simp: dbm_ok_def named_verts_def)
  then show ?thesis using modelsD(2) [OF m(1), of y u] modelsD(2) [OF m(2), of y u] same by simp
qed

lemma same_verts:
  assumes d: "good ns vs d" and d': "good ns vs d'" and same: "db_vert_map d' = db_vert_map d" and u: "u \<in> verts (db_g d)"
  shows "u \<in> verts (db_g d')"
proof (cases "u = 0")
  case False
  then obtain y where "vm d y = Some u" using goodD(3) [OF d] u by (auto simp: dbm_ok_def named_verts_def)
  then show ?thesis using var_live [OF d', of y] same by simp
qed (use zero_live [OF d'] in simp)

text \<open>The loops that derive further bounds from one: each bound is entailed in the state they start from.\<close>

lemma keeps_propagate:
  assumes d: "good ns vs d"
    and f: "f = (\<lambda>d (u, w). if u = 0 then retO d else dbm_repair (s u) (t u) (d\<lparr>db_g := update_edge (s u) (w + k) (t u) (db_g d)\<rparr>))"
    and es: "\<And>u w. (u, w) \<in> set es \<Longrightarrow> s u \<in> verts (db_g d) \<and> t u \<in> verts (db_g d)"
    and ent: "\<And>u w val \<sigma>. (u, w) \<in> set es \<Longrightarrow> models d val \<sigma> \<Longrightarrow> C \<sigma> \<Longrightarrow> val (t u) - val (s u) \<le> w + k"
  shows "keeps ns vs C d (foldO f d es)"
proof -
  let ?C = "\<lambda>\<sigma>. C \<sigma> \<and> (\<exists>val. models d val \<sigma>)"
  have "keeps ns vs ?C d (foldO f d es)"
  proof (rule keeps_fold_inv [where P = "\<lambda>d'. db_vert_map d' = db_vert_map d", OF d])
    fix e d' assume e: "e \<in> set es" and d': "good ns vs d'" and P: "db_vert_map d' = db_vert_map d"
    obtain u w where uw: "e = (u, w)" by (cases e)
    note v = es [OF e [unfolded uw]]
    have "keeps ns vs ?C d' (dbm_repair (s u) (t u) (d'\<lparr>db_g := update_edge (s u) (w + k) (t u) (db_g d')\<rparr>))"
    proof (rule keeps_update_edge [OF d'])
      show "s u \<in> verts (db_g d')" "t u \<in> verts (db_g d')" using same_verts [OF d d' P] v by blast+
      fix val \<sigma> assume m: "models d' val \<sigma>" and c: "?C \<sigma>"
      obtain val2 where m2: "models d val2 \<sigma>" using c by blast
      have "val (s u) = val2 (s u)" "val (t u) = val2 (t u)" using models_agree [OF d P m m2] v by blast+
      then show "val (t u) - val (s u) \<le> w + k" using ent [OF e [unfolded uw] m2] c by simp
    qed
    then show "keeps ns vs ?C d' (f d' e)" using uw keeps_ret [OF d'] by (simp add: f)
  next
    fix e d' d'' assume "db_vert_map d' = db_vert_map d" "f d' e = Some (Inr (Some d''))"
    then show "db_vert_map d'' = db_vert_map d" by (auto simp: f retO_def split: if_splits prod.splits dest: dbm_repair_result)
  qed simp
  then show ?thesis by (rule keeps_mono) (auto elim: dbm_gammaE)
qed

lemma strengthen_lower_ok:
  assumes d: "good ns vs d" and x: "vm d x = Some v" and C: "\<And>m \<sigma>. ext_number lb = Some m \<Longrightarrow> C \<sigma> \<Longrightarrow> m \<le> \<sigma> x"
  shows "keeps ns vs C d (strengthen_lower v lb d)"
proof (cases "ext_number lb")
  case None
  then show ?thesis using keeps_ret [OF d] by (simp add: strengthen_lower_def)
next
  case (Some n)
  have val: "val 0 - val v \<le> - n" if "models d' val \<sigma>" "C \<sigma>" "vm d' x = Some v" for d' val \<sigma>
    using modelsD(1) [OF that(1)] modelsD(2) [OF that(1,3)] C [OF Some that(2)] by simp
  have "keeps ns vs C d (bindO (dbm_repair v 0 (d\<lparr>db_g := set_edge v (- n) 0 (db_g d)\<rparr>))
      (\<lambda>d. foldO (propagate_lower (- n)) d (graph_e_preds (db_g d) v)))"
  proof (rule keeps_bind_result)
    show "keeps ns vs C d (dbm_repair v 0 (d\<lparr>db_g := set_edge v (- n) 0 (db_g d)\<rparr>))"
      using keeps_set_edge [OF d var_live [OF d x] zero_live [OF d], of C "- n"] val x by blast
    fix d2 assume r: "dbm_repair v 0 (d\<lparr>db_g := set_edge v (- n) 0 (db_g d)\<rparr>) = Some (Inr (Some d2))" and d2: "good ns vs d2"
    then have x2: "vm d2 x = Some v" using dbm_repair_result [OF r] x by auto
    have edge: "edges (db_g d2) (u, v) = Some w" if "(u, w) \<in> set (graph_e_preds (db_g d2) v)" for u w
      using that set_e_preds [OF dbm_shapeD(1) [OF goodD(1) [OF d2]] var_live [OF d2 x2]] by simp
    show "keeps ns vs C d2 (foldO (propagate_lower (- n)) d2 (graph_e_preds (db_g d2) v))"
    proof (rule keeps_propagate [where s = "\<lambda>u. u" and t = "\<lambda>u. 0" and k = "- n", OF d2])
      show "u \<in> verts (db_g d2) \<and> 0 \<in> verts (db_g d2)" if "(u, w) \<in> set (graph_e_preds (db_g d2) v)" for u w
        using edges_verts [OF dbm_shapeD(1) [OF goodD(1) [OF d2]] edge [OF that]] zero_live [OF d2] by simp
      show "val 0 - val u \<le> w + - n" if "(u, w) \<in> set (graph_e_preds (db_g d2) v)" "models d2 val \<sigma>" "C \<sigma>" for u w val \<sigma>
        using satD [OF modelsD(3) [OF that(2)] edge [OF that(1)]] val [OF that(2,3) x2] by simp
    qed (auto simp: propagate_lower_def fun_eq_iff)
  qed
  then show ?thesis using Some keeps_ret [OF d] by (simp add: strengthen_lower_def)
qed

lemma strengthen_upper_ok:
  assumes d: "good ns vs d" and x: "vm d x = Some v" and C: "\<And>m \<sigma>. ext_number ub = Some m \<Longrightarrow> C \<sigma> \<Longrightarrow> \<sigma> x \<le> m"
  shows "keeps ns vs C d (strengthen_upper v ub d)"
proof (cases "ext_number ub")
  case None
  then show ?thesis using keeps_ret [OF d] by (simp add: strengthen_upper_def)
next
  case (Some n)
  have val: "val v - val 0 \<le> n" if "models d' val \<sigma>" "C \<sigma>" "vm d' x = Some v" for d' val \<sigma>
    using modelsD(1) [OF that(1)] modelsD(2) [OF that(1,3)] C [OF Some that(2)] by simp
  have "keeps ns vs C d (bindO (dbm_repair 0 v (d\<lparr>db_g := set_edge 0 n v (db_g d)\<rparr>))
      (\<lambda>d. foldO (propagate_upper n) d (graph_e_succs (db_g d) v)))"
  proof (rule keeps_bind_result)
    show "keeps ns vs C d (dbm_repair 0 v (d\<lparr>db_g := set_edge 0 n v (db_g d)\<rparr>))"
      using keeps_set_edge [OF d zero_live [OF d] var_live [OF d x], of C n] val x by blast
    fix d2 assume r: "dbm_repair 0 v (d\<lparr>db_g := set_edge 0 n v (db_g d)\<rparr>) = Some (Inr (Some d2))" and d2: "good ns vs d2"
    then have x2: "vm d2 x = Some v" using dbm_repair_result [OF r] x by auto
    have edge: "edges (db_g d2) (v, u) = Some w" if "(u, w) \<in> set (graph_e_succs (db_g d2) v)" for u w
      using that set_e_succs [OF dbm_shapeD(1) [OF goodD(1) [OF d2]] var_live [OF d2 x2]] by simp
    show "keeps ns vs C d2 (foldO (propagate_upper n) d2 (graph_e_succs (db_g d2) v))"
    proof (rule keeps_propagate [where s = "\<lambda>u. 0" and t = "\<lambda>u. u" and k = n, OF d2])
      show "0 \<in> verts (db_g d2) \<and> u \<in> verts (db_g d2)" if "(u, w) \<in> set (graph_e_succs (db_g d2) v)" for u w
        using edges_verts [OF dbm_shapeD(1) [OF goodD(1) [OF d2]] edge [OF that]] zero_live [OF d2] by simp
      show "val u - val 0 \<le> w + n" if "(u, w) \<in> set (graph_e_succs (db_g d2) v)" "models d2 val \<sigma>" "C \<sigma>" for u w val \<sigma>
        using satD [OF modelsD(3) [OF that(2)] edge [OF that(1)]] val [OF that(2,3) x2] by simp
    qed (auto simp: propagate_upper_def fun_eq_iff)
  qed
  then show ?thesis using Some keeps_ret [OF d] by (simp add: strengthen_upper_def)
qed

lemma strengthen_top:
  assumes "good ns vs d" "vm d x = Some v" "var_lb d x = None" "var_ub d x = None"
  shows "strengthen_lower v lb d = retO d" "strengthen_upper v ub d = retO d"
proof -
  note g = dbm_shapeD(1) [OF goodD(1) [OF assms(1)]]
  note v = var_live [OF assms(1,2)] zero_live [OF assms(1)]
  have "graph_lookup (db_g d) v 0 = None" "graph_lookup (db_g d) 0 v = None"
    using adapt.get_E [OF g v] adapt.get_E [OF g v(2,1)] assms(2-4) by (simp_all add: var_lb_def var_ub_def)
  then show "strengthen_lower v lb d = retO d" "strengthen_upper v ub d = retO d"
    by (simp_all add: strengthen_lower_def strengthen_upper_def split: option.split)
qed

lemma bindO_result: "bindO m f = Some (Inr (Some b)) \<longleftrightarrow> (\<exists>a. m = Some (Inr (Some a)) \<and> f a = Some (Inr (Some b)))"
  by (auto simp: bindO_def bindR_eq_Inr split: option.splits)

lemma foldO_vars:
  "foldO f d xs = Some (Inr (Some d')) \<Longrightarrow> (\<And>d x d'. f d x = Some (Inr (Some d')) \<Longrightarrow> db_vert_map d' = db_vert_map d) \<Longrightarrow>
    db_vert_map d' = db_vert_map d"
  by (induction xs arbitrary: d) (auto simp: bindO_result retO_def)

lemma strengthen_lower_vars:
  assumes "strengthen_lower v lb d = Some (Inr (Some d'))"
  shows "db_vert_map d' = db_vert_map d"
proof -
  have step: "db_vert_map b = db_vert_map a" if "propagate_lower k a e = Some (Inr (Some b))" for k a b e
    using that by (auto simp: propagate_lower_def retO_def split: if_splits prod.splits dest: dbm_repair_result)
  show ?thesis using assms
    by (auto simp: strengthen_lower_def retO_def bindO_result split: option.splits if_splits dest!: dbm_repair_result foldO_vars [OF _ step])
qed

lemma add_univar_disequation_ok:
  assumes d: "good ns vs d" and x: "x \<in> vs"
  shows "keeps ns vs (\<lambda>\<sigma>. \<sigma> x \<noteq> n) d (add_univar_disequation ns x n d)"
proof -
  let ?C = "\<lambda>\<sigma>. \<sigma> \<in> dbm_gamma d \<and> \<sigma> x \<noteq> n"
  obtain i where i: "dbm_index ns d x = Inr i" "ivl_ok i" "ivl_lb i = bound_of minus_infinity (var_lb d x)"
    "ivl_ub i = bound_of plus_infinity (var_ub d x)" "\<And>\<sigma>. \<sigma> \<in> dbm_gamma d \<Longrightarrow> \<sigma> x \<in> gamma_ivl i"
    using dbm_index_sound [OF goodD(1) [OF d] goodD_named [OF d], of x] by blast
  let ?j = "trim_interval i n"
  have trim: "ivl_ok ?j" "\<sigma> x \<in> gamma_ivl ?j" if "?C \<sigma>" "\<not> (is_top i \<and> n = 0)" for \<sigma>
    using trim_member [OF i(2,5), of \<sigma> n] that by auto
  have "keeps ns vs ?C d (if is_bottom ?j then Some (Inr None) else if is_top ?j \<or> \<not> ivl_le ?j i then retO d
      else bindR (lift_res (get_vert x d)) (\<lambda>(v, d). bindO (strengthen_lower v (ivl_lb ?j) d) (\<lambda>d.
        bindO (strengthen_upper v (ivl_ub ?j) d) (\<lambda>d. bindR (dbm_normalize d) retO))))"
  proof (cases "is_top i \<and> n = 0")
    case False
    have none: "\<not> ?C \<sigma>" if b: "is_bottom ?j" for \<sigma>
    proof
      assume c: "?C \<sigma>"
      from trim [OF c False] ivl_okD(3) [OF trim(1) [OF c False]] b show False by simp
    qed
    have "keeps ns vs ?C d (bindR (lift_res (get_vert x d)) (\<lambda>(v, d). bindO (strengthen_lower v (ivl_lb ?j) d) (\<lambda>d.
        bindO (strengthen_upper v (ivl_ub ?j) d) (\<lambda>d. bindR (dbm_normalize d) retO))))"
    proof (rule keeps_get_vert [OF d x], unfold prod.case)
      fix v d' assume d': "good ns vs d'" "vm d' x = Some v"
      show "keeps ns vs ?C d' (bindO (strengthen_lower v (ivl_lb ?j) d') (\<lambda>d. bindO (strengthen_upper v (ivl_ub ?j) d) (\<lambda>d. bindR (dbm_normalize d) retO)))"
      proof (rule keeps_bind_result)
        show "keeps ns vs ?C d' (strengthen_lower v (ivl_lb ?j) d')"
          by (rule strengthen_lower_ok [OF d']) (use lb_member trim False in blast)
        fix d2 assume r: "strengthen_lower v (ivl_lb ?j) d' = Some (Inr (Some d2))" and d2: "good ns vs d2"
        have x2: "vm d2 x = Some v" using strengthen_lower_vars [OF r] d'(2) by simp
        show "keeps ns vs ?C d2 (bindO (strengthen_upper v (ivl_ub ?j) d2) (\<lambda>d. bindR (dbm_normalize d) retO))"
        proof (rule keeps_bind)
          show "keeps ns vs ?C d2 (strengthen_upper v (ivl_ub ?j) d2)"
            by (rule strengthen_upper_ok [OF d2 x2]) (use ub_member trim False in blast)
          show "keeps ns vs ?C d3 (bindR (dbm_normalize d3) retO)" if "good ns vs d3" for d3 using that keeps_ret by simp
        qed
      qed
    qed
    then show ?thesis using keeps_ret [OF d] keeps_false [of d ?C, OF none] by simp
  next
    case True
    then have tb: "var_lb d x = None" "var_ub d x = None" using i(3,4)
      by (auto simp: is_top_def bound_of_def is_infinite_def finite_ext_def split: option.splits)
    have ends: "ivl_lb i = minus_infinity" "ivl_ub i = plus_infinity" using i(3,4) tb by (simp_all add: bound_of_def)
    then have "?j = interval (finite_ext 1) (finite_ext (type_max uint64_t))" using True
      by (simp add: trim_interval_def minus_infinity_def plus_infinity_def mk_extended_def finite_ext_def)
    then have nb: "\<not> is_bottom ?j" by (simp add: interval_fin)
    have "keeps ns vs ?C d (bindR (lift_res (get_vert x d)) (\<lambda>(v, d). bindO (strengthen_lower v (ivl_lb ?j) d) (\<lambda>d.
        bindO (strengthen_upper v (ivl_ub ?j) d) (\<lambda>d. bindR (dbm_normalize d) retO))))"
    proof -
      obtain v d' where g: "get_vert x d = Inr (v, d')" "dbm_shape d'" "roomy ns vs d'" "adds x v d d'" "named_verts d \<longrightarrow> named_verts d'"
        using get_vert_ok [OF goodD(1,2) [OF d] x] by blast
      have d': "good ns vs d'" using g d by (simp add: good_def dbm_ok_def)
      have xv: "vm d' x = Some v" using g(4) by (simp add: adds_def)
      have "var_lb d' x = None \<and> var_ub d' x = None"
      proof (cases "vm d x")
        case None
        then have "v \<notin> verts (db_g d)" using g(4) by (simp add: adds_def)
        then have "edges (db_g d) (v, 0) = None" "edges (db_g d) (0, v) = None"
          using edges_verts [OF dbm_shapeD(1) [OF goodD(1) [OF d]]] by (metis not_None_eq)+
        then show ?thesis using xv g(4) by (simp add: var_lb_def var_ub_def adds_def)
      next
        case (Some u)
        then have "u = v" using g(4) by (auto simp: adds_def)
        then show ?thesis using tb xv g(4) Some by (simp add: var_lb_def var_ub_def adds_def)
      qed
      then have "strengthen_lower v (ivl_lb ?j) d' = retO d'" "strengthen_upper v (ivl_ub ?j) d' = retO d'"
        using strengthen_top [OF d' xv] by blast+
      then show ?thesis using g(1) keeps_from [OF keeps_ret [OF d'] adds_gamma [OF g(4) goodD(1) [OF d]]] good_normalize [OF d']
        by (simp add: bindO_def retO_def)
    qed
    then show ?thesis using keeps_ret [OF d] nb by simp
  qed
  then have "keeps ns vs ?C d (add_univar_disequation ns x n d)"
    using i(1) by (simp add: add_univar_disequation_def get_interval_def dbm_index_def Let_def)
  then show ?thesis by (rule keeps_mono) simp
qed

definition unit_terms :: "linear_expression_t \<Rightarrow> bool" where
  "unit_terms e = list_all (\<lambda>(v, c). c = 1 \<or> c = - 1) (variable_terms e)"

lemma compute_residual_sound:
  assumes sh: "dbm_shape d" and named: "dom (vm d) \<subseteq> {..<length ns}"
  shows "\<exists>i. compute_residual ns d e x = Inr i \<and> ivl_ok i \<and> (\<forall>\<sigma>. \<sigma> \<in> dbm_gamma d \<longrightarrow>
    - constant_term e - terms_eval \<sigma> (filter (\<lambda>(v, c). v \<noteq> x) (variable_terms e)) \<in> gamma_ivl i)"
proof -
  have "\<exists>j. foldE (\<lambda>residual (variable, coefficient).
        if variable \<noteq> x then bindE (dbm_index ns d variable) (\<lambda>i. ivl_sub residual (ivl_mul (interval_num coefficient) i))
        else Inr residual) i ts = Inr j \<and>
      ivl_ok j \<and> (\<forall>\<sigma>. \<sigma> \<in> dbm_gamma d \<longrightarrow> f \<sigma> - terms_eval \<sigma> (filter (\<lambda>(v, c). v \<noteq> x) ts) \<in> gamma_ivl j)"
    if "ivl_ok i" "\<forall>\<sigma>. \<sigma> \<in> dbm_gamma d \<longrightarrow> f \<sigma> \<in> gamma_ivl i" for f i ts
    using that
  proof (induction ts arbitrary: i f)
    case (Cons t ts)
    obtain y c where t: "t = (y, c)" by (cases t)
    show ?case
    proof (cases "y = x")
      case False
      obtain j where j: "dbm_index ns d y = Inr j" "ivl_ok j" "\<forall>\<sigma>. \<sigma> \<in> dbm_gamma d \<longrightarrow> \<sigma> y \<in> gamma_ivl j"
        using dbm_index_sound [OF sh named] by blast
      have mul: "ivl_ok (ivl_mul (interval_num c) j)" "\<sigma> \<in> dbm_gamma d \<Longrightarrow> c * \<sigma> y \<in> gamma_ivl (ivl_mul (interval_num c) j)" for \<sigma>
        using ivl_mul_sound [of "interval_num c" j c] j(2,3) gamma_nonempty [OF sh] by auto
      obtain k where k: "ivl_sub i (ivl_mul (interval_num c) j) = Inr k" "ivl_ok k" "\<forall>\<sigma>. \<sigma> \<in> dbm_gamma d \<longrightarrow> f \<sigma> - c * \<sigma> y \<in> gamma_ivl k"
      proof -
        obtain \<sigma> where s: "\<sigma> \<in> dbm_gamma d" using gamma_nonempty [OF sh] by blast
        obtain k where k: "ivl_sub i (ivl_mul (interval_num c) j) = Inr k" "ivl_ok k"
          using ivl_sub_sound [OF Cons.prems(1) mul(1), of "f \<sigma>" "c * \<sigma> y"] Cons.prems(2) mul(2) s by blast
        have "f \<tau> - c * \<tau> y \<in> gamma_ivl k" if t: "\<tau> \<in> dbm_gamma d" for \<tau>
          using ivl_sub_sound [OF Cons.prems(1) mul(1), of "f \<tau>" "c * \<tau> y"] Cons.prems(2) mul(2) t k(1) by auto
        with k show thesis using that by blast
      qed
      from Cons.IH [OF k(2,3)] show ?thesis using j(1) k(1) t False by (simp add: diff_diff_eq)
    next
      case True
      from Cons.IH [OF Cons.prems] show ?thesis using t True by simp
    qed
  qed simp
  from this [of "interval_num (- constant_term e)" "\<lambda>_. - constant_term e" "variable_terms e"]
  show ?thesis by (simp add: compute_residual_def)
qed

lemma div_unit:
  assumes "ivl_ok i" "z \<in> gamma_ivl i" "c = 1 \<or> c = - 1"
  shows "\<exists>j. ivl_div i (interval_num c) = Inr j \<and> (\<forall>k. singleton j = Some k \<longrightarrow> z = c * k)"
proof -
  have nb: "\<not> is_bottom i" using assms(1,2) ivl_okD(3) by auto
  have mem: "lo i \<le> Fin z" "Fin z \<le> hi i" using assms(2) mem_gamma_iff [OF assms(1)] by simp_all
  have single: "k = z" if "singleton i = Some k" for k
    using lb_member [OF assms(1,2), of k] ub_member [OF assms(1,2), of k] that by (auto simp: singleton_def split: if_splits)
  show ?thesis
  proof (cases "c = 1")
    case True
    then show ?thesis using nb single by (auto simp: ivl_div.simps [of i "interval_num 1"])
  next
    case False
    then have c: "c = - 1" using assms(3) by simp
    have div: "ivl_div i (interval_num c) =
        bindE (ext_div (ivl_ub i) (finite_ext (- 1))) (\<lambda>l. bindE (ext_div (ivl_lb i) (finite_ext (- 1))) (\<lambda>u. Inr (interval l u)))"
      using nb by (simp add: c ivl_div.simps [of i "interval_num (- 1)"])
    have inf: "ext_div minus_infinity (finite_ext (- 1)) = Inr minus_infinity" "ext_div plus_infinity (finite_ext (- 1)) = Inr plus_infinity"
      "ext_div (finite_ext k) (finite_ext (- 1)) = Inr (finite_ext (- k))" for k
      by (simp_all add: ext_div_def AbsDiv_def num_div_def is_infinite_def minus_infinity_def plus_infinity_def mk_extended_def finite_ext_def signed_divide_int_def sgn_mult_abs)
    have bot: "singleton (interval l u) = None" if "ext_ok l" "ext_ok u" "abs_ext u < abs_ext l" for l u
      using that by (simp add: interval_def ext_compare_refines singleton_def is_bottom_def)
    have u: "ext_ok (ivl_ub i)" "ext_ok (ivl_lb i)" using ivl_okD [OF assms(1)] by blast+
    have ub: "(\<exists>b. ivl_ub i = finite_ext b) \<or> ivl_ub i = plus_infinity" by (rule ext_exhaust [OF u(1)]) (use mem in auto)
    have lb: "(\<exists>a. ivl_lb i = finite_ext a) \<or> ivl_lb i = minus_infinity" by (rule ext_exhaust [OF u(2)]) (use mem in auto)
    from ub lb show ?thesis
    proof (elim disjE exE)
      fix a b assume e: "ivl_ub i = finite_ext b" "ivl_lb i = finite_ext a"
      then have "a \<le> z" "z \<le> b" using mem by simp_all
      moreover have "singleton (interval (finite_ext (- b)) (finite_ext (- a))) = Some k \<Longrightarrow> a = b \<and> k = - b" for k
        by (auto simp: interval_fin singleton_def [of bottom] split: if_splits)
      ultimately show ?thesis unfolding div e inf bindE_simps using c by (auto dest: sym)
    next
      fix b assume e: "ivl_ub i = finite_ext b" "ivl_lb i = minus_infinity"
      show ?thesis unfolding div e inf bindE_simps using bot [of "finite_ext (- b)" minus_infinity] by simp
    next
      fix a assume e: "ivl_ub i = plus_infinity" "ivl_lb i = finite_ext a"
      show ?thesis unfolding div e inf bindE_simps using bot [of plus_infinity "finite_ext (- a)"] by simp
    next
      assume e: "ivl_ub i = plus_infinity" "ivl_lb i = minus_infinity"
      show ?thesis unfolding div e inf bindE_simps using bot [of plus_infinity minus_infinity] by simp
    qed
  qed
qed

lemma terms_eval_split:
  assumes "omap_ok m" "(x, c) \<in> set m"
  shows "terms_eval \<sigma> m = c * \<sigma> x + terms_eval \<sigma> (filter (\<lambda>(v, c). v \<noteq> x) m)"
  using assms
proof (induction m)
  case (Cons t m)
  obtain y k where t: "t = (y, k)" by (cases t)
  have ok: "omap_ok m" "y \<notin> set (omap_keys m)" using Cons.prems(1) by (auto simp: t omap_ok_Cons)
  show ?case
  proof (cases "y = x")
    case True
    then have "v \<noteq> x" if "(v, c') \<in> set m" for v c' using ok(2) that by (force simp: omap_keys_def)
    then have "filter (\<lambda>(v, c). v \<noteq> x) m = m" "(x, c) \<notin> set m" by (auto intro!: filter_True)
    then show ?thesis using Cons.prems(2) t True by simp
  next
    case False
    then show ?thesis using Cons.IH [OF ok(1)] Cons.prems(2) t by simp
  qed
qed simp

lemma disequation_term_ok:
  assumes d: "good ns vs d" and e: "lin_ok e" "unit_terms e" and t: "t \<in> set (variable_terms e)" and vs: "fst ` set (variable_terms e) \<subseteq> vs"
  shows "keeps ns vs (\<lambda>\<sigma>. lin_eval \<sigma> e \<noteq> 0) d (disequation_term ns e d t)"
proof -
  obtain x c where xc: "t = (x, c)" by (cases t)
  have x: "x \<in> vs" using t vs xc by auto
  have c: "c = 1 \<or> c = - 1" using e(2) t xc by (auto simp: unit_terms_def list_all_iff)
  let ?R = "\<lambda>\<sigma>. - constant_term e - terms_eval \<sigma> (filter (\<lambda>(v, c). v \<noteq> x) (variable_terms e))"
  obtain i where i: "compute_residual ns d e x = Inr i" "ivl_ok i" "\<And>\<sigma>. \<sigma> \<in> dbm_gamma d \<Longrightarrow> ?R \<sigma> \<in> gamma_ivl i"
    using compute_residual_sound [OF goodD(1) [OF d] goodD_named [OF d], of e x] by blast
  obtain \<sigma>0 where s0: "\<sigma>0 \<in> dbm_gamma d" using gamma_nonempty [OF goodD(1) [OF d]] by blast
  obtain j where j: "ivl_div i (interval_num c) = Inr j" using div_unit [OF i(2) i(3) [OF s0] c] by blast
  have single: "?R \<sigma> = c * k" if "\<sigma> \<in> dbm_gamma d" "singleton j = Some k" for \<sigma> k
    using div_unit [OF i(2) i(3) [OF that(1)] c] j that(2) by auto
  have eval: "lin_eval \<sigma> e = c * \<sigma> x - ?R \<sigma>" for \<sigma>
    using terms_eval_split [of "variable_terms e" x c \<sigma>] e(1) t xc by (simp add: lin_eval_def)
  show ?thesis
  proof (cases "singleton j")
    case None
    then show ?thesis using keeps_ret [OF d] i(1) j by (simp add: disequation_term_def xc)
  next
    case (Some k)
    have "keeps ns vs (\<lambda>\<sigma>. lin_eval \<sigma> e \<noteq> 0) d (add_univar_disequation ns x k d)"
    proof (rule keeps_mono [OF add_univar_disequation_ok [OF d x]])
      fix \<sigma> assume s: "\<sigma> \<in> dbm_gamma d" and ne: "lin_eval \<sigma> e \<noteq> 0"
      show "\<sigma> x \<noteq> k" using eval [of \<sigma>] single [OF s Some] ne by auto
    qed
    then show ?thesis using i(1) j Some by (simp add: disequation_term_def xc)
  qed
qed

section \<open>Constraints\<close>

abbreviation cst_vars :: "linear_constraint_t \<Rightarrow> variable_t set" where
  "cst_vars c \<equiv> fst ` set (variable_terms (cst_expression c))"

lemma lin_plus_const_terms: "fst ` set (variable_terms (lin_plus_const e k)) \<subseteq> fst ` set (variable_terms e)"
  by (auto simp: lin_plus_const_def lin_make_def)

lemma lin_negate_terms: "fst ` set (variable_terms (lin_negate e)) \<subseteq> fst ` set (variable_terms e)"
  by (force simp: lin_negate_def lin_multiply_def lin_make_def)

lemma add_constraint_ok:
  assumes d: "good ns vs d" and e: "lin_ok (cst_expression c)" and vs: "cst_vars c \<subseteq> vs"
    and unit: "cst_kind c = NOT_ZERO \<Longrightarrow> unit_terms (cst_expression c)"
  shows "keeps ns vs (\<lambda>\<sigma>. lin_holds \<sigma> c) d (add_constraint ns c d)"
proof (cases "is_tautology c")
  case True
  then show ?thesis using keeps_ret [OF d] by (simp add: add_constraint_def)
next
  case False
  show ?thesis
  proof (cases "is_contradiction c")
    case True
    then show ?thesis using False keeps_false [of d "\<lambda>\<sigma>. lin_holds \<sigma> c"] is_contradiction_fails by (simp add: add_constraint_def)
  next
    case False': False
    let ?C = "\<lambda>\<sigma>. lin_holds \<sigma> c"
    have norm: "keeps ns vs C d' (bindR (dbm_normalize d') retO)" if "good ns vs d'" for d' C using that keeps_ret by simp
    have leq: "keeps ns vs ?C d' (add_linear_leq ns f d')"
      if d': "good ns vs d'" and f: "lin_ok f" "fst ` set (variable_terms f) \<subseteq> cst_vars c" and C: "\<And>\<sigma>. ?C \<sigma> \<Longrightarrow> lin_eval \<sigma> f \<le> 0" for d' f
    proof (rule keeps_mono [OF add_linear_leq_ok [OF d' f(1)]])
      show "fst ` set (variable_terms f) \<subseteq> vs" using f(2) vs by (rule order_trans)
      show "lin_eval \<sigma> f \<le> 0" if "?C \<sigma>" for \<sigma> using that by (rule C)
    qed
    have plus: "lin_ok (lin_plus_const (cst_expression c) 1)" "lin_eval \<sigma> (lin_plus_const (cst_expression c) 1) = lin_eval \<sigma> (cst_expression c) + 1" for \<sigma>
      using lin_update_sound(3) [OF e] by blast+
    have neg: "lin_ok (lin_negate (cst_expression c))" "lin_eval \<sigma> (lin_negate (cst_expression c)) = - lin_eval \<sigma> (cst_expression c)" for \<sigma>
      using lin_negate_sound [OF e] by blast+
    show ?thesis
      unfolding add_constraint_def using False False'
    proof (simp only: if_False, intro keeps_bind norm)
      show "keeps ns vs ?C d (case cst_kind c of
         EQUALS_ZERO \<Rightarrow> bindO (add_linear_leq ns (cst_expression c) d) (add_linear_leq ns (lin_negate (cst_expression c)))
       | LESS_THAN_OR_EQUALS_ZERO \<Rightarrow> add_linear_leq ns (cst_expression c) d
       | LESS_THAN_ZERO \<Rightarrow> add_linear_leq ns (lin_plus_const (cst_expression c) 1) d
       | NOT_ZERO \<Rightarrow> foldO (disequation_term ns (cst_expression c)) d (variable_terms (cst_expression c)))"
      proof (cases "cst_kind c")
        case EQUALS_ZERO
        have "keeps ns vs ?C d (bindO (add_linear_leq ns (cst_expression c) d) (add_linear_leq ns (lin_negate (cst_expression c))))"
          by (intro keeps_bind leq) (use d e neg lin_negate_terms EQUALS_ZERO in \<open>auto simp: lin_holds_def\<close>)
        then show ?thesis by (simp add: EQUALS_ZERO)
      next
        case LESS_THAN_OR_EQUALS_ZERO
        have "keeps ns vs ?C d (add_linear_leq ns (cst_expression c) d)"
          by (rule leq) (use d e LESS_THAN_OR_EQUALS_ZERO in \<open>auto simp: lin_holds_def\<close>)
        then show ?thesis by (simp add: LESS_THAN_OR_EQUALS_ZERO)
      next
        case LESS_THAN_ZERO
        have "keeps ns vs ?C d (add_linear_leq ns (lin_plus_const (cst_expression c) 1) d)"
          by (rule leq) (use d plus lin_plus_const_terms LESS_THAN_ZERO in \<open>auto simp: lin_holds_def\<close>)
        then show ?thesis by (simp add: LESS_THAN_ZERO)
      next
        case NOT_ZERO
        have "keeps ns vs ?C d (foldO (disequation_term ns (cst_expression c)) d (variable_terms (cst_expression c)))"
        proof (rule keeps_fold [OF d])
          fix t d' assume t: "t \<in> set (variable_terms (cst_expression c))" and d': "good ns vs d'"
          show "keeps ns vs ?C d' (disequation_term ns (cst_expression c) d' t)"
            by (rule keeps_mono [OF disequation_term_ok [OF d' e unit [OF NOT_ZERO] t vs]]) (simp add: lin_holds_def NOT_ZERO)
        qed
        then show ?thesis by (simp add: NOT_ZERO)
      qed
    qed
  qed
qed

section \<open>Property\<close>



end
