(* ===== verification/Crab_Dbm_Query.thy ===== *)
theory Crab_Dbm_Query
  imports Crab_Dbm_Add Crab_Interval_Bits
begin

text \<open>
  The queries of the zone domain: a constraint that \<^verbatim>\<open>entail\<close> confirms holds in every valuation of the
  zone, and one that \<^verbatim>\<open>intersect\<close> refutes holds in none. Both copy the zone and add a constraint to it.
\<close>

lemma lin_negate_vars: "cst_vars (mk_cst (lin_negate e) k) \<subseteq> cst_vars (mk_cst e k')"
  using lin_negate_terms [of e] by (simp add: mk_cst_def)

lemma cst_negate_vars: "cst_vars (cst_negate c) \<subseteq> cst_vars c"
  using lin_negate_terms [of "cst_expression c"]
  by (auto simp: cst_negate_def mk_cst_def split: constraint_kind_t.splits)

lemma entail_aux_ok:
  assumes d: "good ns vs d" and e: "lin_ok (cst_expression c)" and vs: "cst_vars c \<subseteq> vs" and k: "cst_kind c \<noteq> EQUALS_ZERO"
  shows "\<exists>b. entail_aux ns c d = Some (Inr b) \<and> (b \<longrightarrow> (\<forall>\<sigma>. \<sigma> \<in> dbm_gamma d \<longrightarrow> lin_holds \<sigma> c))"
proof -
  have kind: "cst_kind (cst_negate c) \<noteq> NOT_ZERO" using k by (auto simp: cst_negate_def mk_cst_def split: constraint_kind_t.splits)
  have "keeps ns vs (\<lambda>\<sigma>. lin_holds \<sigma> (cst_negate c)) d (add_constraint ns (cst_negate c) d)"
    by (rule add_constraint_ok [OF d cst_negate_ok [OF e] order_trans [OF cst_negate_vars vs]]) (use kind in blast)
  then obtain r where r: "add_constraint ns (cst_negate c) d = Some (Inr r)"
    "r = None \<longrightarrow> (\<forall>\<sigma>. \<sigma> \<in> dbm_gamma d \<longrightarrow> \<not> lin_holds \<sigma> (cst_negate c))"
    unfolding keeps_def by (auto split: option.splits)
  then show ?thesis using cst_negate_sound [OF e] by (simp add: entail_aux_def)
qed

lemma entailed_by_interval_holds:
  assumes "entailed_by_interval i (cst_kind c)" "ivl_ok i" "lin_eval \<sigma> (cst_expression c) \<in> gamma_ivl i"
  shows "lin_holds \<sigma> c"
proof -
  let ?n = "lin_eval \<sigma> (cst_expression c)"
  have m: "lo i \<le> Fin ?n" "Fin ?n \<le> hi i" using assms(2,3) by (simp_all add: mem_gamma_iff)
  have ok: "ext_ok (ivl_lb i)" "ext_ok (ivl_ub i)" using ivl_okD [OF assms(2)] by simp_all
  show ?thesis
  proof (cases "cst_kind c")
    case EQUALS_ZERO
    then have "singleton i = Some 0" using assms(1) by (simp add: entailed_by_interval_def)
    then have "?n = 0" by (rule singleton_member(1) [OF assms(2,3)])
    then show ?thesis using EQUALS_ZERO by (simp add: lin_holds_def)
  next
    case LESS_THAN_OR_EQUALS_ZERO
    then have "hi i \<le> Fin 0" using assms(1) ok by (simp add: entailed_by_interval_def)
    then have "Fin ?n \<le> Fin 0" by (rule order_trans [OF m(2)])
    then show ?thesis using LESS_THAN_OR_EQUALS_ZERO by (simp add: lin_holds_def)
  next
    case LESS_THAN_ZERO
    then have "hi i < Fin 0" using assms(1) ok by (simp add: entailed_by_interval_def)
    then have "Fin ?n < Fin 0" by (rule order_le_less_trans [OF m(2)])
    then show ?thesis using LESS_THAN_ZERO by (simp add: lin_holds_def)
  next
    case NOT_ZERO
    then have "hi i < Fin 0 \<or> Fin 0 < lo i" using assms(1) ok by (simp add: entailed_by_interval_def)
    then have "Fin ?n < Fin 0 \<or> Fin 0 < Fin ?n" using m by (meson order_le_less_trans order_less_le_trans)
    then show ?thesis using NOT_ZERO by (auto simp: lin_holds_def)
  qed
qed

lemma dbm_entail_ok:
  assumes d: "good ns vs d" and e: "lin_ok (cst_expression c)" and vs: "cst_vars c \<subseteq> vs"
  shows "\<exists>b. dbm_entail ns c d = Some (Inr b) \<and> (b \<longrightarrow> (\<forall>\<sigma>. \<sigma> \<in> dbm_gamma d \<longrightarrow> lin_holds \<sigma> c))"
proof (cases "is_tautology c \<or> is_contradiction c")
  case True
  then show ?thesis by (auto simp: dbm_entail_def is_tautology_holds)
next
  case False
  obtain i where i: "eval_interval ns d (cst_expression c) = Inr i" "ivl_ok i"
    "\<forall>\<sigma>. \<sigma> \<in> dbm_gamma d \<longrightarrow> lin_eval \<sigma> (cst_expression c) \<in> gamma_ivl i"
    using eval_interval_sound [of d ns "cst_expression c"] goodD(1,2) [OF d] by (auto simp: roomy_def)
  show ?thesis
  proof (cases "entailed_by_interval i (cst_kind c)")
    case True
    then show ?thesis using False i entailed_by_interval_holds [OF True i(2)] by (intro exI [of _ True]) (simp add: dbm_entail_def)
  next
    case neither: False
    show ?thesis
    proof (cases "cst_kind c = EQUALS_ZERO")
      case True
      let ?e = "cst_expression c"
      have le: "\<exists>b. entail_aux ns (mk_cst f LESS_THAN_OR_EQUALS_ZERO) d = Some (Inr b) \<and>
          (b \<longrightarrow> (\<forall>\<sigma>. \<sigma> \<in> dbm_gamma d \<longrightarrow> lin_eval \<sigma> f \<le> 0))"
        if "lin_ok f" "fst ` set (variable_terms f) \<subseteq> cst_vars c" for f
        using entail_aux_ok [OF d, of "mk_cst f LESS_THAN_OR_EQUALS_ZERO"] that vs by (simp add: mk_cst_def lin_holds_def)
      obtain b1 where b1: "entail_aux ns (mk_cst ?e LESS_THAN_OR_EQUALS_ZERO) d = Some (Inr b1)"
        "b1 \<longrightarrow> (\<forall>\<sigma>. \<sigma> \<in> dbm_gamma d \<longrightarrow> lin_eval \<sigma> ?e \<le> 0)" using le [OF e] by auto
      obtain b2 where b2: "entail_aux ns (mk_cst (lin_negate ?e) LESS_THAN_OR_EQUALS_ZERO) d = Some (Inr b2)"
        "b2 \<longrightarrow> (\<forall>\<sigma>. \<sigma> \<in> dbm_gamma d \<longrightarrow> lin_eval \<sigma> (lin_negate ?e) \<le> 0)"
        using le [OF conjunct1 [OF lin_negate_sound [OF e]] lin_negate_terms] by blast
      have "lin_holds \<sigma> c" if "b1" "b2" "\<sigma> \<in> dbm_gamma d" for \<sigma>
        using b1(2) b2(2) that lin_negate_sound [OF e, of \<sigma>] True by (fastforce simp: lin_holds_def)
      then show ?thesis using False neither True i(1) b1(1) b2(1) by (auto simp: dbm_entail_def)
    next
      case False': False
      show ?thesis using entail_aux_ok [OF d e vs False'] False neither False' i(1) by (simp add: dbm_entail_def)
    qed
  qed
qed

lemma dbm_intersect_ok:
  assumes d: "good ns vs d" and e: "lin_ok (cst_expression c)" and vs: "cst_vars c \<subseteq> vs"
    and unit: "cst_kind c = NOT_ZERO \<Longrightarrow> unit_terms (cst_expression c)"
  shows "\<exists>b. dbm_intersect ns c d = Some (Inr b) \<and> (\<not> b \<longrightarrow> (\<forall>\<sigma>. \<sigma> \<in> dbm_gamma d \<longrightarrow> \<not> lin_holds \<sigma> c))"
proof -
  have "keeps ns vs (\<lambda>\<sigma>. lin_holds \<sigma> c) d (add_constraint ns c d)" by (rule add_constraint_ok [OF d e vs unit])
  then obtain r where "add_constraint ns c d = Some (Inr r)" "r = None \<longrightarrow> (\<forall>\<sigma>. \<sigma> \<in> dbm_gamma d \<longrightarrow> \<not> lin_holds \<sigma> c)"
    unfolding keeps_def by (auto split: option.splits)
  then show ?thesis using is_contradiction_fails by (auto simp: dbm_intersect_def intersect_aux_def)
qed

section \<open>Property\<close>

text \<open>
  C8. Asking a valid zone whether it entails a linear constraint always returns, and when the answer
  is yes every valuation of the zone satisfies the constraint. Every kind of constraint and every
  coefficient is covered: an equality is asked as two inequalities, a disequation by adding the
  equality.
\<close>

theorem entail_sound:
  assumes "dbm_ok d" "roomy ns (cst_vars c) d" "lin_ok (cst_expression c)"
  shows "\<exists>b. dbm_entail ns c d = Some (Inr b) \<and> (b \<longrightarrow> dbm_gamma d \<subseteq> {\<sigma>. lin_holds \<sigma> c})"
  using dbm_entail_ok [of ns "cst_vars c" d c] assms by (auto simp: good_def)

text \<open>The state without information does not entail \<open>r0.svalue <= 5\<close>.\<close>

theorem entail_sound_witness:
  "\<exists>b. dbm_entail [''r0.svalue''] (dsl_le (lin_var 0) (lin_const 5)) dbm_top = Some (Inr b) \<and>
    (b \<longrightarrow> dbm_gamma dbm_top \<subseteq> {\<sigma>. lin_holds \<sigma> (dsl_le (lin_var 0) (lin_const 5))})"
proof (rule entail_sound)
  let ?c = "dsl_le (lin_var 0) (lin_const 5)"
  have vars: "cst_vars ?c \<subseteq> {0}"
    by (simp add: dsl_le_def mk_cst_def lin_subtract_def lin_make_def lin_var_def lin_const_def)
  have "card (verts (db_g dbm_top)) \<le> 1" using growTo_new [of 1] by (simp add: dbm_top_def)
  moreover have "card (cst_vars ?c) \<le> 1" using card_mono [OF _ vars] by simp
  ultimately show "roomy [''r0.svalue''] (cst_vars ?c) dbm_top" using vars by (auto simp: roomy_def dbm_top_def)
  show "lin_ok (cst_expression ?c)" using lin_subtract_sound [of "lin_var 0" "lin_const 5"] by (simp add: dsl_le_def mk_cst_def)
qed (rule dbm_top_ok)

end
