(* ===== verification/Crab_Num_Domain.thy ===== *)
theory Crab_Num_Domain
  imports Crab_Split_Dbm Crab_Bitset
begin

text \<open>
  The zone domain with a bottom element (\<^verbatim>\<open>crab/add_bottom.hpp\<close>) and the state that the layers above
  share: the registry of variable names and the global cells of the stack. A value of the domain is a
  zone or \<open>None\<close>, the empty set of valuations.
\<close>

section \<open>Zones with bottom\<close>

type_synonym num_domain = "split_dbm option"

definition nd_top :: num_domain where "nd_top = Some dbm_top"
definition nd_bottom :: num_domain where "nd_bottom = None"

definition nd_set_to_top :: "num_domain \<Rightarrow> num_domain" where
  "nd_set_to_top x = (case x of Some d \<Rightarrow> Some (set_to_top d) | None \<Rightarrow> Some dbm_top)"

definition nd_set_to_bottom :: "num_domain \<Rightarrow> num_domain" where
  "nd_set_to_bottom x = None"

definition nd_is_bottom :: "num_domain \<Rightarrow> bool" where
  "nd_is_bottom x \<longleftrightarrow> x = None"

definition nd_is_top :: "num_domain \<Rightarrow> bool" where
  "nd_is_top x \<longleftrightarrow> (case x of Some d \<Rightarrow> dbm_is_top d | None \<Rightarrow> False)"

definition nd_leq :: "num_domain \<Rightarrow> num_domain \<Rightarrow> bool res" where
  "nd_leq x y = (case (x, y) of (None, _) \<Rightarrow> Inr True | (_, None) \<Rightarrow> Inr False | (Some d, Some e) \<Rightarrow> dbm_leq d e)"

text \<open>An operation of zones that returns a zone, on a domain value: bottom stays bottom.\<close>

definition map_zone :: "(split_dbm \<Rightarrow> split_dbm run) \<Rightarrow> num_domain \<Rightarrow> num_domain run" where
  "map_zone f x = (case x of None \<Rightarrow> Some (Inr None) | Some d \<Rightarrow> bindR (f d) (\<lambda>d. Some (Inr (Some d))))"

text \<open>The two joins, \<^verbatim>\<open>|\<close> and \<^verbatim>\<open>|=\<close>, compute the same value; so do their overloads for temporaries.\<close>

definition nd_join :: "num_domain \<Rightarrow> num_domain \<Rightarrow> num_domain run" where
  "nd_join x y = (case (x, y) of (None, _) \<Rightarrow> Some (Inr y) | (_, None) \<Rightarrow> Some (Inr x) | (Some d, Some e) \<Rightarrow> map_zone (dbm_join d) (Some e))"

definition nd_widen :: "num_domain \<Rightarrow> num_domain \<Rightarrow> num_domain run" where
  "nd_widen x y = (case (x, y) of (None, _) \<Rightarrow> Some (Inr y) | (_, None) \<Rightarrow> Some (Inr x) | (Some d, Some e) \<Rightarrow> map_zone (dbm_widen d) (Some e))"

definition nd_meet :: "num_domain \<Rightarrow> num_domain \<Rightarrow> num_domain run" where
  "nd_meet x y = (case (x, y) of (Some d, Some e) \<Rightarrow> dbm_meet d e | _ \<Rightarrow> Some (Inr None))"

definition nd_narrow :: "num_domain \<Rightarrow> num_domain \<Rightarrow> num_domain" where
  "nd_narrow x y = (case (x, y) of (Some d, Some e) \<Rightarrow> Some (dbm_narrow d e) | _ \<Rightarrow> None)"

text \<open>\<^verbatim>\<open>when\<close> returns the restricted copy, \<^verbatim>\<open>+=\<close> restricts in place.\<close>

definition nd_when :: "names \<Rightarrow> linear_constraint_t \<Rightarrow> num_domain \<Rightarrow> num_domain run" where
  "nd_when ns cst x = (case x of Some d \<Rightarrow> add_constraint ns cst d | None \<Rightarrow> Some (Inr None))"

definition nd_add :: "names \<Rightarrow> linear_constraint_t \<Rightarrow> num_domain \<Rightarrow> num_domain run" where
  "nd_add ns cst x = (case x of Some d \<Rightarrow> add_constraint ns cst d | None \<Rightarrow> Some (Inr None))"

definition nd_forget :: "variable_t \<Rightarrow> num_domain \<Rightarrow> num_domain run" where
  "nd_forget v = map_zone (forget_var v)"

definition nd_assign :: "names \<Rightarrow> variable_t \<Rightarrow> linear_expression_t \<Rightarrow> num_domain \<Rightarrow> num_domain run" where
  "nd_assign ns x e = map_zone (dbm_assign ns x e)"

definition nd_assign_to :: "names \<Rightarrow> variable_t option \<Rightarrow> linear_expression_t \<Rightarrow> num_domain \<Rightarrow> num_domain run" where
  "nd_assign_to ns x e d = (case x of Some v \<Rightarrow> nd_assign ns v e d | None \<Rightarrow> Some (Inr d))"

definition nd_assign_var :: "names \<Rightarrow> variable_t \<Rightarrow> variable_t \<Rightarrow> num_domain \<Rightarrow> num_domain run" where
  "nd_assign_var ns x v = map_zone (assign_var ns x v)"

definition nd_assign_int :: "names \<Rightarrow> variable_t \<Rightarrow> int \<Rightarrow> num_domain \<Rightarrow> num_domain run" where
  "nd_assign_int ns x n = map_zone (assign_int ns x n)"

definition nd_assign_optional :: "names \<Rightarrow> variable_t \<Rightarrow> linear_expression_t option \<Rightarrow> num_domain \<Rightarrow> num_domain run" where
  "nd_assign_optional ns x e = map_zone (assign_optional_expr ns x e)"

datatype binop_t = Arith arith_binop_t | Bitwise bitwise_binop_t

definition nd_apply_var :: "names \<Rightarrow> binop_t \<Rightarrow> variable_t \<Rightarrow> variable_t \<Rightarrow> variable_t \<Rightarrow> int \<Rightarrow> num_domain \<Rightarrow> num_domain run" where
  "nd_apply_var ns op x y z finite_width = map_zone (case op of
      Arith op \<Rightarrow> apply_arith_var ns op x y z finite_width | Bitwise op \<Rightarrow> apply_bitwise_var ns op x y z finite_width)"

definition nd_apply_num :: "names \<Rightarrow> binop_t \<Rightarrow> variable_t \<Rightarrow> variable_t \<Rightarrow> number_t \<Rightarrow> int \<Rightarrow> num_domain \<Rightarrow> num_domain run" where
  "nd_apply_num ns op x y k finite_width = map_zone (case op of
      Arith op \<Rightarrow> apply_arith_num ns op x y k finite_width | Bitwise op \<Rightarrow> apply_bitwise_num ns op x y k finite_width)"

definition nd_eval_interval :: "names \<Rightarrow> linear_expression_t \<Rightarrow> num_domain \<Rightarrow> interval_t res" where
  "nd_eval_interval ns e x = (case x of Some d \<Rightarrow> eval_interval ns d e | None \<Rightarrow> Inr bottom)"

definition nd_index :: "names \<Rightarrow> variable_t \<Rightarrow> num_domain \<Rightarrow> interval_t res" where
  "nd_index ns v x = (case x of Some d \<Rightarrow> dbm_index ns d v | None \<Rightarrow> Inr bottom)"

definition nd_set :: "variable_t \<Rightarrow> interval_t \<Rightarrow> num_domain \<Rightarrow> num_domain run" where
  "nd_set v intv x = (if is_bottom intv then Some (Inr None) else map_zone (dbm_set v intv) x)"

definition nd_intersect :: "names \<Rightarrow> linear_constraint_t \<Rightarrow> num_domain \<Rightarrow> bool run" where
  "nd_intersect ns cst x = (case x of Some d \<Rightarrow> dbm_intersect ns cst d | None \<Rightarrow> Some (Inr False))"

definition nd_entail :: "names \<Rightarrow> linear_constraint_t \<Rightarrow> num_domain \<Rightarrow> bool run" where
  "nd_entail ns cst x = (case x of Some d \<Rightarrow> dbm_entail ns cst d | None \<Rightarrow> Some (Inr True))"

section \<open>Shared state\<close>

text \<open>
  A cell is a range of bytes of the stack, its offset and its size; the cells of a kind are listed by
  offset in increasing order, the order in which the radix tree of the code visits its keys. An offset whose
  cells have been removed keeps an entry with no cells.
\<close>

type_synonym cell_t = "nat \<times> nat"
type_synonym offset_map_t = "(nat, cell_t list) omap"

record shared_state =
  sh_names :: names
  sh_cells :: "data_kind_t \<Rightarrow> offset_map_t"

type_synonym 'a action = "shared_state \<Rightarrow> ('a \<times> shared_state) run"

definition initial_shared :: shared_state where
  "initial_shared = \<lparr>sh_names = default_variable_names, sh_cells = (\<lambda>_. [])\<rparr>"

definition retA :: "'a \<Rightarrow> 'a action" where
  "retA x s = Some (Inr (x, s))"

definition bindA :: "'a action \<Rightarrow> ('a \<Rightarrow> 'b action) \<Rightarrow> 'b action" where
  "bindA m f s = bindR (m s) (\<lambda>(x, s). f x s)"

definition throwA :: "exn \<Rightarrow> 'a action" where
  "throwA e s = Some (Inl e)"

definition resA :: "'a res \<Rightarrow> 'a action" where
  "resA r s = map_option (map_sum id (\<lambda>x. (x, s))) (lift_res r)"

text \<open>A call of a variable factory, and a computation that only reads the registry.\<close>

definition nameA :: "(names \<Rightarrow> 'a \<times> names) \<Rightarrow> 'a action" where
  "nameA f s = (let (x, ns) = f (sh_names s) in Some (Inr (x, s\<lparr>sh_names := ns\<rparr>)))"

definition readA :: "(names \<Rightarrow> 'a run) \<Rightarrow> 'a action" where
  "readA f s = map_option (map_sum id (\<lambda>x. (x, s))) (f (sh_names s))"

primrec foldA :: "('s \<Rightarrow> 'a \<Rightarrow> 's action) \<Rightarrow> 's \<Rightarrow> 'a list \<Rightarrow> 's action" where
  "foldA f s [] = retA s"
| "foldA f s (x # xs) = bindA (f s x) (\<lambda>s. foldA f s xs)"

lemma action_simps [simp]:
  "bindA (retA x) f = f x" "bindA (throwA e) f = throwA e" "retA x s = Some (Inr (x, s))" "throwA e s = Some (Inl e)"
  "resA (Inr x) = retA x" "resA (Inl e) = throwA e"
  by (simp_all add: bindA_def retA_def throwA_def resA_def lift_res_def fun_eq_iff)

lemma bindA_assoc: "bindA (bindA m f) g = bindA m (\<lambda>x. bindA (f x) g)"
proof
  fix s
  show "bindA (bindA m f) g s = bindA m (\<lambda>x. bindA (f x) g) s"
    by (cases "m s"; cases "the (m s)") (auto simp: bindA_def)
qed

end
