(* ===== verification/Crab_Type_Domain.thy ===== *)
theory Crab_Type_Domain
  imports Crab_Num_Domain
begin

text \<open>
  The type domain (\<^verbatim>\<open>crab/type_domain.cpp\<close>): the type of a register is the value of its type variable,
  so its operations are assignments to and queries of that variable, and joins that keep the
  type-specific variables of a register that only one side can have with that type.
\<close>

section \<open>Register packs\<close>

definition regpackA :: "Reg \<Rightarrow> reg_pack_t action" where
  "regpackA r = nameA (reg_pack (uint (reg_v r)))"

definition kind_varA :: "data_kind_t \<Rightarrow> variable_t \<Rightarrow> variable_t action" where
  "kind_varA k v s = bindA (resA (kind_var k v (sh_names s))) (\<lambda>(x, ns) s. Some (Inr (x, s\<lparr>sh_names := ns\<rparr>))) s"

definition evalA :: "linear_expression_t \<Rightarrow> num_domain \<Rightarrow> interval_t action" where
  "evalA e invr = readA (\<lambda>ns. lift_res (nd_eval_interval ns e invr))"

definition indexA :: "variable_t \<Rightarrow> num_domain \<Rightarrow> interval_t action" where
  "indexA v invr = readA (\<lambda>ns. lift_res (nd_index ns v invr))"

definition entailA :: "linear_constraint_t \<Rightarrow> num_domain \<Rightarrow> bool action" where
  "entailA c invr = readA (\<lambda>ns. nd_entail ns c invr)"

definition addA :: "linear_constraint_t \<Rightarrow> num_domain \<Rightarrow> num_domain action" where
  "addA c invr = readA (\<lambda>ns. nd_add ns c invr)"

definition whenA :: "linear_constraint_t \<Rightarrow> num_domain \<Rightarrow> num_domain action" where
  "whenA c invr = readA (\<lambda>ns. nd_when ns c invr)"

definition runA :: "'a run \<Rightarrow> 'a action" where
  "runA m = readA (\<lambda>_. m)"

section \<open>Joins\<close>

definition has_type :: "num_domain \<Rightarrow> linear_expression_t \<Rightarrow> type_encoding_t \<Rightarrow> bool action" where
  "has_type invr v type = bindA (evalA v invr) (\<lambda>i. retA (contains i type))"

definition has_type_reg :: "num_domain \<Rightarrow> Reg \<Rightarrow> type_encoding_t \<Rightarrow> bool action" where
  "has_type_reg invr r type = bindA (regpackA r) (\<lambda>p. bindA (indexA (rp_type p) invr) (\<lambda>i. retA (contains i type)))"

text \<open>\<^verbatim>\<open>emplace\<close> keeps the value of a variable that is already in the map.\<close>

definition emplace :: "variable_t \<Rightarrow> interval_t \<Rightarrow> (variable_t, interval_t) omap \<Rightarrow> (variable_t, interval_t) omap" where
  "emplace v i m = (case map_of m v of None \<Rightarrow> omap_put v i m | Some _ \<Rightarrow> m)"

definition add_extra_invariant ::
  "num_domain \<Rightarrow> num_domain \<Rightarrow> variable_t \<Rightarrow> (variable_t, interval_t) omap \<Rightarrow> type_encoding_t \<times> data_kind_t \<Rightarrow> (variable_t, interval_t) omap action" where
  "add_extra_invariant into other type_variable extra = (\<lambda>(type, kind).
    bindA (has_type into (lin_var type_variable) type) (\<lambda>dst_has_type.
    bindA (has_type other (lin_var type_variable) type) (\<lambda>src_has_type.
    bindA (kind_varA kind type_variable) (\<lambda>v.
      if dst_has_type \<and> \<not> src_has_type then bindA (evalA (lin_var v) into) (\<lambda>i. retA (emplace v i extra))
      else if \<not> dst_has_type \<and> src_has_type then bindA (evalA (lin_var v) other) (\<lambda>i. retA (emplace v i extra))
      else retA extra))))"

definition type_specific_kinds :: "(type_encoding_t \<times> data_kind_t) list" where
  "type_specific_kinds = [(T_CTX, ctx_offsets), (T_MAP, map_fds), (T_MAP_PROGRAMS, map_fds), (T_PACKET, packet_offsets),
     (T_SHARED, shared_offsets), (T_STACK, stack_offsets), (T_SHARED, shared_region_sizes), (T_STACK, stack_numeric_sizes)]"

definition selectively_join_based_on_type :: "num_domain \<Rightarrow> num_domain \<Rightarrow> num_domain action" where
  "selectively_join_based_on_type into other =
    bindA (if nd_is_bottom into then retA []
       else bindA (readA (\<lambda>ns. Some (Inr (get_type_variables ns)))) (\<lambda>vs.
         foldA (\<lambda>extra v. foldA (add_extra_invariant into other v) extra type_specific_kinds) [] vs)) (\<lambda>extra.
    bindA (runA (nd_join into other)) (\<lambda>into.
      foldA (\<lambda>into (v, i). runA (nd_set v i into)) into extra))"

text \<open>
  The transition of a type works on a copy of the invariant and on the state \<open>'s\<close> of its caller. The invariant is
  passed by reference, so it is read from that state before every copy.
\<close>

definition join_over_types ::
  "('s \<Rightarrow> num_domain) \<Rightarrow> Reg \<Rightarrow> (num_domain \<times> 's \<Rightarrow> type_encoding_t \<Rightarrow> (num_domain \<times> 's) action) \<Rightarrow> 's \<Rightarrow> (num_domain \<times> 's) action" where
  "join_over_types invr reg transition st =
    bindA (regpackA reg) (\<lambda>p.
    bindA (evalA (lin_var (rp_type p)) (invr st)) (\<lambda>ts.
      if is_bottom ts then retA (nd_bottom, st)
      else if is_top ts then transition (invr st, st) T_UNINIT
      else
        bindA (resA (ivl_pair_bound (Signed 32) T_MIN T_MAX ts)) (\<lambda>(lb, ub).
        bindA (resA (iterate_types lb ub)) (\<lambda>tys.
          foldA (\<lambda>(res, st) type.
            bindA (transition (invr st, st) type) (\<lambda>(tmp, st).
            bindA (selectively_join_based_on_type res tmp) (\<lambda>res. retA (res, st)))) (nd_bottom, st) tys))))"

definition join_by_if_else ::
  "num_domain \<Rightarrow> linear_constraint_t \<Rightarrow> (num_domain \<Rightarrow> num_domain action) \<Rightarrow> (num_domain \<Rightarrow> num_domain action) \<Rightarrow> num_domain action" where
  "join_by_if_else invr condition if_true if_false =
    bindA (whenA condition invr) (\<lambda>true_case.
    bindA (if_true true_case) (\<lambda>true_case.
    bindA (whenA (cst_negate condition) invr) (\<lambda>false_case.
    bindA (if_false false_case) (\<lambda>false_case.
      runA (nd_join true_case false_case)))))"

section \<open>Assignments and queries\<close>

definition assign_type_reg :: "Reg \<Rightarrow> Reg \<Rightarrow> num_domain \<Rightarrow> num_domain action" where
  "assign_type_reg lhs rhs invr =
    bindA (regpackA lhs) (\<lambda>l. bindA (regpackA rhs) (\<lambda>r. readA (\<lambda>ns. nd_assign_var ns (rp_type l) (rp_type r) invr)))"

definition assign_type_to :: "variable_t option \<Rightarrow> linear_expression_t \<Rightarrow> num_domain \<Rightarrow> num_domain action" where
  "assign_type_to lhs t invr = readA (\<lambda>ns. nd_assign_to ns lhs t invr)"

definition assign_type :: "Reg \<Rightarrow> linear_expression_t option \<Rightarrow> num_domain \<Rightarrow> num_domain action" where
  "assign_type lhs rhs invr = bindA (regpackA lhs) (\<lambda>l. readA (\<lambda>ns. nd_assign_optional ns (rp_type l) rhs invr))"

definition havoc_type :: "Reg \<Rightarrow> num_domain \<Rightarrow> num_domain action" where
  "havoc_type r invr = bindA (regpackA r) (\<lambda>p. runA (nd_forget (rp_type p) invr))"

definition type_of_interval :: "interval_t \<Rightarrow> type_encoding_t res" where
  "type_of_interval i = (case singleton i of None \<Rightarrow> Inr T_UNINIT | Some n \<Rightarrow> num_narrow (Signed 32) n)"

definition get_type :: "num_domain \<Rightarrow> linear_expression_t \<Rightarrow> type_encoding_t action" where
  "get_type invr v = bindA (evalA v invr) (\<lambda>i. resA (type_of_interval i))"

definition get_type_reg :: "num_domain \<Rightarrow> Reg \<Rightarrow> type_encoding_t action" where
  "get_type_reg invr r = bindA (regpackA r) (\<lambda>p. bindA (indexA (rp_type p) invr) (\<lambda>i. resA (type_of_interval i)))"

definition same_type :: "num_domain \<Rightarrow> Reg \<Rightarrow> Reg \<Rightarrow> bool action" where
  "same_type invr a b =
    bindA (regpackA a) (\<lambda>p. bindA (regpackA b) (\<lambda>q. entailA (eq_vars (rp_type p) (rp_type q)) invr))"

definition implies_type :: "num_domain \<Rightarrow> linear_constraint_t \<Rightarrow> linear_constraint_t \<Rightarrow> bool action" where
  "implies_type invr a b = bindA (whenA a invr) (entailA b)"

text \<open>The constraints that \<^verbatim>\<open>is_in_group\<close> asks for, in order.\<close>

definition group_constraints :: "type_group \<Rightarrow> variable_t \<Rightarrow> linear_constraint_t list" where
  "group_constraints g t =
    (let is = (\<lambda>n. dsl_eq (lin_var t) (lin_const n)); at_least = (\<lambda>n. dsl_ge (lin_var t) (lin_const n));
         at_most = (\<lambda>n. dsl_le (lin_var t) (lin_const n)) in
     case g of
       TG_number \<Rightarrow> [is T_NUM] | TG_map_fd \<Rightarrow> [is T_MAP] | TG_map_fd_programs \<Rightarrow> [is T_MAP_PROGRAMS]
     | TG_ctx \<Rightarrow> [is T_CTX] | TG_packet \<Rightarrow> [is T_PACKET] | TG_stack \<Rightarrow> [is T_STACK] | TG_shared \<Rightarrow> [is T_SHARED]
     | TG_mem \<Rightarrow> [at_least T_PACKET] | TG_mem_or_num \<Rightarrow> [at_least T_NUM, dsl_neq (lin_var t) (lin_const T_CTX)]
     | TG_pointer \<Rightarrow> [at_least T_CTX] | TG_ptr_or_num \<Rightarrow> [at_least T_NUM]
     | TG_stack_or_packet \<Rightarrow> [at_least T_PACKET, at_most T_STACK] | TG_singleton_ptr \<Rightarrow> [at_least T_CTX, at_most T_STACK])"

fun entail_all :: "num_domain \<Rightarrow> linear_constraint_t list \<Rightarrow> bool action" where
  "entail_all invr [] = retA True"
| "entail_all invr (c # cs) = bindA (entailA c invr) (\<lambda>b. if b then entail_all invr cs else retA False)"

definition is_in_group :: "num_domain \<Rightarrow> Reg \<Rightarrow> type_group \<Rightarrow> bool action" where
  "is_in_group invr r g = bindA (regpackA r) (\<lambda>p. entail_all invr (group_constraints g (rp_type p)))"

definition is_singleton_type :: "type_group \<Rightarrow> bool" where
  "is_singleton_type g \<longleftrightarrow> g \<in> {TG_number, TG_map_fd, TG_map_fd_programs, TG_ctx, TG_packet, TG_stack, TG_shared}"

definition group_types :: "type_group \<Rightarrow> type_encoding_t list" where
  "group_types g = (case g of
      TG_number \<Rightarrow> [T_NUM] | TG_map_fd \<Rightarrow> [T_MAP] | TG_map_fd_programs \<Rightarrow> [T_MAP_PROGRAMS] | TG_ctx \<Rightarrow> [T_CTX]
    | TG_packet \<Rightarrow> [T_PACKET] | TG_stack \<Rightarrow> [T_STACK] | TG_shared \<Rightarrow> [T_SHARED]
    | TG_mem \<Rightarrow> [T_STACK, T_PACKET, T_SHARED] | TG_pointer \<Rightarrow> [T_CTX, T_STACK, T_PACKET, T_SHARED]
    | TG_ptr_or_num \<Rightarrow> [T_NUM, T_CTX, T_STACK, T_PACKET, T_SHARED] | TG_stack_or_packet \<Rightarrow> [T_STACK, T_PACKET]
    | TG_singleton_ptr \<Rightarrow> [T_CTX, T_STACK, T_PACKET] | TG_mem_or_num \<Rightarrow> [T_NUM, T_STACK, T_PACKET, T_SHARED])"

definition group_to_string :: "type_group \<Rightarrow> string res" where
  "group_to_string g = (case group_types g of [t] \<Rightarrow> type_to_string t | ts \<Rightarrow> typeset_to_string ts)"

end
