(* ===== verification/Crab_Array_Domain.thy ===== *)
theory Crab_Array_Domain
  imports Crab_Type_Domain
begin

text \<open>
  The array domain (\<^verbatim>\<open>crab/array_domain.cpp\<close>): the bytes of the stack that are known to be numbers, and the
  cells, ranges of bytes that have a scalar variable in the numeric domain. The cells are global
  to all abstract states and live in the shared state. Byte order conversions are those of a
  little-endian host.
\<close>

record verifier_env =
  env_narrow :: gsl_narrow
  env_info :: program_info
  env_contexts :: "ebpf_context_descriptor_t list"   \<comment> \<open>the descriptor objects that a \<open>ctx_ptr\<close> points to\<close>
  env_options :: ebpf_verifier_options_t

definition narrowE :: "verifier_env \<Rightarrow> int \<times> int \<Rightarrow> int \<Rightarrow> int res" where
  "narrowE E r v = opt_to_res NarrowingError (env_narrow E r v)"

abbreviation int32_t :: int_type where "int32_t \<equiv> Signed 32"
abbreviation uint64_range :: "int \<times> int" where "uint64_range \<equiv> (0, 2 ^ 64 - 1)"

text \<open>The conversion of an integer to \<^verbatim>\<open>size_t\<close> or \<^verbatim>\<open>index_t\<close>.\<close>

definition to_index :: "int \<Rightarrow> nat" where
  "to_index n = nat (n mod 2 ^ 64)"

section \<open>Cells\<close>

definition cell_interval :: "verifier_env \<Rightarrow> cell_t \<Rightarrow> interval_t res" where
  "cell_interval E c =
    bindE (narrowE E int32_range (int (fst c))) (\<lambda>lb. Inr (interval (finite_ext lb) (finite_ext (lb + int (snd c) - 1))))"

definition cell_is_null :: "cell_t \<Rightarrow> bool" where
  "cell_is_null c \<longleftrightarrow> fst c = 0 \<and> snd c = 0"

definition get_scalar :: "data_kind_t \<Rightarrow> cell_t \<Rightarrow> variable_t action" where
  "get_scalar kind c s =
    bindA (resA (cell_var kind (int (fst c)) (int (snd c)) (sh_names s))) (\<lambda>(v, ns) s. Some (Inr (v, s\<lparr>sh_names := ns\<rparr>))) s"

definition cell_eq :: "verifier_env \<Rightarrow> cell_t \<Rightarrow> cell_t \<Rightarrow> bool res" where
  "cell_eq E c c' = bindE (cell_interval E c) (\<lambda>x. bindE (cell_interval E c') (\<lambda>y. Inr (ivl_eq x y)))"

definition cell_less :: "cell_t \<Rightarrow> cell_t \<Rightarrow> bool" where
  "cell_less c c' \<longleftrightarrow> (if fst c = fst c' then snd c < snd c' else fst c < fst c')"

definition overlap :: "verifier_env \<Rightarrow> nat \<Rightarrow> nat \<Rightarrow> cell_t \<Rightarrow> bool res" where
  "overlap E ofs sz c =
    bindE (cell_interval E c) (\<lambda>x. bindE (cell_interval E (ofs, sz)) (\<lambda>y. Inr (\<not> is_bottom (ivl_meet x y))))"

definition maybe_between :: "num_domain \<Rightarrow> extended_number \<Rightarrow> linear_expression_t \<Rightarrow> linear_expression_t \<Rightarrow> bool action" where
  "maybe_between d x symb_lb symb_ub =
    (case ext_number x of
       None \<Rightarrow> throwA AssertionFailure
     | Some n \<Rightarrow>
         bindA (addA (dsl_ge (lin_const n) symb_lb) d) (\<lambda>tmp.
         bindA (addA (dsl_le (lin_const n) symb_ub) tmp) (\<lambda>tmp. retA (\<not> nd_is_bottom tmp))))"

definition symbolic_overlap ::
  "verifier_env \<Rightarrow> cell_t \<Rightarrow> linear_expression_t \<Rightarrow> linear_expression_t \<Rightarrow> num_domain \<Rightarrow> bool action" where
  "symbolic_overlap E c symb_lb symb_ub d =
    bindA (resA (cell_interval E c)) (\<lambda>x.
    bindA (maybe_between d (ivl_lb x) symb_lb symb_ub) (\<lambda>b.
      if b then retA True else maybe_between d (ivl_ub x) symb_lb symb_ub))"

section \<open>Maps of offsets to cells\<close>

text \<open>
  An entry lists the cells of its offset by size. Looking up an offset that has no entry creates an
  empty one, and removing the last cell of an offset leaves an empty one.
\<close>

definition om_entry :: "nat \<Rightarrow> offset_map_t \<Rightarrow> cell_t list" where
  "om_entry ofs m = (case map_of m ofs of Some cs \<Rightarrow> cs | None \<Rightarrow> [])"

definition remove_cell :: "cell_t \<Rightarrow> offset_map_t \<Rightarrow> offset_map_t" where
  "remove_cell c m = omap_put (fst c) (oset_erase c (om_entry (fst c) m)) m"

definition insert_cell :: "cell_t \<Rightarrow> offset_map_t \<Rightarrow> offset_map_t" where
  "insert_cell c m = omap_put (fst c) (oset_insert c (om_entry (fst c) m)) m"

definition get_cell :: "nat \<Rightarrow> nat \<Rightarrow> offset_map_t \<Rightarrow> cell_t option \<times> offset_map_t" where
  "get_cell ofs sz m =
    (if (ofs, sz) \<in> set (om_entry ofs m) then Some (ofs, sz) else None, omap_put ofs (om_entry ofs m) m)"

definition mk_cell :: "nat \<Rightarrow> nat \<Rightarrow> offset_map_t \<Rightarrow> cell_t \<times> offset_map_t" where
  "mk_cell ofs sz m =
    (case get_cell ofs sz m of (Some c, m) \<Rightarrow> (c, m) | (None, m) \<Rightarrow> ((ofs, sz), insert_cell (ofs, sz) m))"

definition remove_cells :: "cell_t list \<Rightarrow> offset_map_t \<Rightarrow> offset_map_t" where
  "remove_cells cs m = fold remove_cell cs m"

fun push_cell :: "verifier_env \<Rightarrow> cell_t \<Rightarrow> cell_t list \<Rightarrow> cell_t list \<Rightarrow> cell_t list res" where
  "push_cell E x [] out = Inr (out @ [x])"
| "push_cell E x (y # ys) out = bindE (cell_eq E y x) (\<lambda>b. if b then Inr out else push_cell E x ys out)"

text \<open>
  A search visits the cells of an entry and says whether one of them overlaps; it stops at the first
  entry where none does.
\<close>

definition scan_down :: "verifier_env \<Rightarrow> nat \<Rightarrow> nat \<Rightarrow> cell_t list \<times> bool \<Rightarrow> cell_t \<Rightarrow> (cell_t list \<times> bool) res" where
  "scan_down E ofs sz = (\<lambda>(out, continue) x.
    bindE (overlap E ofs sz x) (\<lambda>b.
      if \<not> b then Inr (out, continue)
      else bindE (cell_eq E x (ofs, sz)) (\<lambda>e.
           bindE (if e then Inr out else push_cell E x out out) (\<lambda>out. Inr (out, True)))))"

definition scan_up :: "verifier_env \<Rightarrow> nat \<Rightarrow> nat \<Rightarrow> cell_t list \<times> bool \<Rightarrow> cell_t \<Rightarrow> (cell_t list \<times> bool) res" where
  "scan_up E ofs sz = (\<lambda>(out, continue) x.
    bindE (overlap E ofs sz x) (\<lambda>b.
      if b then bindE (push_cell E x out out) (\<lambda>out. Inr (out, True)) else Inr (out, continue)))"

definition scan_rest :: "verifier_env \<Rightarrow> nat \<Rightarrow> nat \<Rightarrow> cell_t list \<times> bool \<Rightarrow> cell_t \<Rightarrow> (cell_t list \<times> bool) res" where
  "scan_rest E ofs sz = (\<lambda>(out, continue) x.
    bindE (cell_eq E x (ofs, sz)) (\<lambda>e. if e then Inr (out, continue) else scan_up E ofs sz (out, continue) x))"

text \<open>The result comes with the number of entries before the one where the search stopped.\<close>

fun scan_entries ::
  "(cell_t list \<times> bool \<Rightarrow> cell_t \<Rightarrow> (cell_t list \<times> bool) res) \<Rightarrow> cell_t list list \<Rightarrow> cell_t list \<Rightarrow> nat \<Rightarrow> (cell_t list \<times> nat) res" where
  "scan_entries f [] out n = Inr (out, n)"
| "scan_entries f (e # es) out n =
    bindE (foldE f (out, False) e) (\<lambda>(out, continue). if continue then scan_entries f es out (Suc n) else Inr (out, n))"

definition get_overlap_cells :: "verifier_env \<Rightarrow> nat \<Rightarrow> nat \<Rightarrow> offset_map_t \<Rightarrow> (cell_t list \<times> offset_map_t) res" where
  "get_overlap_cells E ofs sz m =
    (let (found, m) = get_cell ofs sz m;
         m' = (if found = None then insert_cell (ofs, sz) m else m);
         below = map snd (takeWhile (\<lambda>e. fst e \<le> ofs) m'); above = map snd (dropWhile (\<lambda>e. fst e \<le> ofs) m') in
     bindE (scan_entries (scan_down E ofs sz) (rev below) [] 0) (\<lambda>(out, _).
     bindE (scan_entries (scan_up E ofs sz) above out 0) (\<lambda>(out, n).
     bindE (scan_entries (scan_rest E ofs sz) (take n above) out 0) (\<lambda>(out, _).
       Inr (out, if found = None then remove_cell (ofs, sz) m' else m')))))"

definition largest_cell :: "cell_t list \<Rightarrow> cell_t" where
  "largest_cell cs = fold (\<lambda>c l. if cell_is_null l then c else if cell_less l c then c else l) cs (0, 0)"

definition get_overlap_cells_symbolic_offset ::
  "verifier_env \<Rightarrow> num_domain \<Rightarrow> linear_expression_t \<Rightarrow> linear_expression_t \<Rightarrow> offset_map_t \<Rightarrow> cell_t list action" where
  "get_overlap_cells_symbolic_offset E d symb_lb symb_ub m =
    foldA (\<lambda>out (_, o_cells).
      let l = largest_cell o_cells in
      if cell_is_null l then retA out
      else bindA (symbolic_overlap E l symb_lb symb_ub d) (\<lambda>b. retA (if b then out @ o_cells else out))) [] m"

section \<open>The global map\<close>

definition cells_of :: "data_kind_t \<Rightarrow> offset_map_t action" where
  "cells_of kind s = Some (Inr (sh_cells s kind, s))"

definition put_cells :: "data_kind_t \<Rightarrow> offset_map_t \<Rightarrow> unit action" where
  "put_cells kind m s = Some (Inr ((), s\<lparr>sh_cells := (sh_cells s)(kind := m)\<rparr>))"

definition updateA :: "data_kind_t \<Rightarrow> (offset_map_t \<Rightarrow> 'a \<times> offset_map_t) \<Rightarrow> 'a action" where
  "updateA kind f = bindA (cells_of kind) (\<lambda>m. let (x, m) = f m in bindA (put_cells kind m) (\<lambda>_. retA x))"

definition overlap_cellsA :: "verifier_env \<Rightarrow> data_kind_t \<Rightarrow> nat \<Rightarrow> nat \<Rightarrow> cell_t list action" where
  "overlap_cellsA E kind ofs sz =
    bindA (cells_of kind) (\<lambda>m. bindA (resA (get_overlap_cells E ofs sz m)) (\<lambda>(cs, m). bindA (put_cells kind m) (\<lambda>_. retA cs)))"

definition clear_thread_local_state :: "shared_state \<Rightarrow> shared_state" where
  "clear_thread_local_state s = s\<lparr>sh_cells := \<lambda>_. []\<rparr>"

section \<open>The domain\<close>

record array_domain_t =
  num_bytes :: bitset_domain_t

definition array_new :: array_domain_t where "array_new = \<lparr>num_bytes = bitset_new\<rparr>"
definition array_of :: "bitset_domain_t \<Rightarrow> array_domain_t" where "array_of b = \<lparr>num_bytes = b\<rparr>"

definition array_set_to_top :: "array_domain_t \<Rightarrow> array_domain_t" where
  "array_set_to_top a = a\<lparr>num_bytes := bitset_set_to_top (num_bytes a)\<rparr>"

definition array_set_to_bottom :: "array_domain_t \<Rightarrow> array_domain_t" where
  "array_set_to_bottom a = a\<lparr>num_bytes := bitset_set_to_bottom (num_bytes a)\<rparr>"

definition array_is_bottom :: "array_domain_t \<Rightarrow> bool" where "array_is_bottom a = bitset_is_bottom (num_bytes a)"
definition array_is_top :: "array_domain_t \<Rightarrow> bool" where "array_is_top a = bitset_is_top (num_bytes a)"

definition array_le :: "array_domain_t \<Rightarrow> array_domain_t \<Rightarrow> bool" where
  "array_le a b = bitset_le (num_bytes a) (num_bytes b)"

definition array_eq :: "array_domain_t \<Rightarrow> array_domain_t \<Rightarrow> bool" where
  "array_eq a b = bitset_eq (num_bytes a) (num_bytes b)"

definition array_join_assign :: "array_domain_t \<Rightarrow> array_domain_t \<Rightarrow> array_domain_t" where
  "array_join_assign a b = (if array_is_bottom a then b else a\<lparr>num_bytes := bitset_join (num_bytes a) (num_bytes b)\<rparr>)"

definition array_join :: "array_domain_t \<Rightarrow> array_domain_t \<Rightarrow> array_domain_t" where
  "array_join a b = array_of (bitset_join (num_bytes a) (num_bytes b))"

definition array_meet :: "array_domain_t \<Rightarrow> array_domain_t \<Rightarrow> array_domain_t" where
  "array_meet a b = array_of (bitset_meet (num_bytes a) (num_bytes b))"

definition array_widen :: "array_domain_t \<Rightarrow> array_domain_t \<Rightarrow> array_domain_t" where
  "array_widen a b = array_of (bitset_join (num_bytes a) (num_bytes b))"

definition array_narrow :: "array_domain_t \<Rightarrow> array_domain_t \<Rightarrow> array_domain_t" where
  "array_narrow a b = array_of (bitset_meet (num_bytes a) (num_bytes b))"

definition array_to_set :: "array_domain_t \<Rightarrow> string_invariant" where
  "array_to_set a = bitset_to_set (num_bytes a)"


section \<open>Bytes of values\<close>

text \<open>
  \<open>to_uint32\<close> is the conversion of an integer to \<^verbatim>\<open>unsigned int\<close>. A number of \<open>width\<close> bytes in the byte order of
  the program, read on a little-endian host, has its bytes in reverse order when the program is big-endian.
\<close>

definition to_uint32 :: "int \<Rightarrow> nat" where
  "to_uint32 n = nat (n mod 2 ^ 32)"

definition byte_at :: "int \<Rightarrow> nat \<Rightarrow> int" where
  "byte_at n k = n div 256 ^ k mod 256"

definition value_byte :: "bool \<Rightarrow> nat \<Rightarrow> int \<Rightarrow> nat \<Rightarrow> int" where
  "value_byte be width n k = byte_at n (if be then width - 1 - k else k)"

fun value_of_bytes :: "int list \<Rightarrow> int" where
  "value_of_bytes [] = 0"
| "value_of_bytes (b # bs) = b + 256 * value_of_bytes bs"

definition ordered_value :: "bool \<Rightarrow> int list \<Rightarrow> int" where
  "ordered_value be bs = value_of_bytes (if be then rev bs else bs)"

definition get_value_byte :: "verifier_env \<Rightarrow> num_domain \<Rightarrow> nat \<Rightarrow> nat \<Rightarrow> int option action" where
  "get_value_byte E invr ofs width =
    bindA (get_scalar svalues ((ofs div width) * width, width)) (\<lambda>v.
    bindA (evalA (lin_var v) invr) (\<lambda>t.
      case singleton t of
        None \<Rightarrow> retA None
      | Some t \<Rightarrow>
          bindA (resA (cast_to uint64_t t)) (\<lambda>n.
            if width \<in> {1, 2, 4, 8} then retA (Some (value_byte (big_endian (env_options E)) width n (ofs mod width)))
            else throwA (RuntimeError ''Unexpected width ''))))"

fun first_value_byte :: "verifier_env \<Rightarrow> num_domain \<Rightarrow> nat \<Rightarrow> nat list \<Rightarrow> int option action" where
  "first_value_byte E invr ofs [] = retA None"
| "first_value_byte E invr ofs (w # ws) =
    bindA (get_value_byte E invr ofs w) (\<lambda>b. case b of None \<Rightarrow> first_value_byte E invr ofs ws | Some b \<Rightarrow> retA (Some b))"

text \<open>
  The bytes of a value go to a buffer of eight bytes; writing past it is undefined behaviour, an
  exception here.
\<close>

fun value_bytes :: "verifier_env \<Rightarrow> num_domain \<Rightarrow> nat \<Rightarrow> nat list \<Rightarrow> int list \<Rightarrow> int list option action" where
  "value_bytes E invr ofs [] bs = retA (Some bs)"
| "value_bytes E invr ofs (i # is) bs =
    bindA (first_value_byte E invr ((ofs + i) mod 2 ^ 64) [8, 4, 2, 1]) (\<lambda>b.
      case b of
        None \<Rightarrow> retA None
      | Some b \<Rightarrow> if i < 8 then value_bytes E invr ofs is (bs @ [b]) else throwA OutOfRange)"

section \<open>Loads\<close>

definition loaded_value :: "verifier_env \<Rightarrow> data_kind_t \<Rightarrow> int list \<Rightarrow> linear_expression_t option" where
  "loaded_value E kind bs =
    (let b = ordered_value (big_endian (env_options E)) bs in
     if length bs \<in> {1, 2, 4} then Some (lin_const b)
     else if length bs = 8 then Some (lin_const (if kind = uvalues then b else static_cast int64_t b))
     else None)"

definition load_overlapping :: "verifier_env \<Rightarrow> data_kind_t \<Rightarrow> nat \<Rightarrow> nat \<Rightarrow> linear_expression_t option action" where
  "load_overlapping E kind ofs sz =
    bindA (overlap_cellsA E kind ofs sz) (\<lambda>cs.
      if cs = [] then bindA (updateA kind (mk_cell ofs sz)) (\<lambda>c. bindA (get_scalar kind c) (\<lambda>v. retA (Some (lin_var v))))
      else retA None)"

definition load_cell :: "verifier_env \<Rightarrow> num_domain \<Rightarrow> data_kind_t \<Rightarrow> nat \<Rightarrow> nat \<Rightarrow> linear_expression_t option action" where
  "load_cell E invr kind ofs sz =
    bindA (updateA kind (get_cell ofs sz)) (\<lambda>cell.
      case cell of
        Some c \<Rightarrow> bindA (get_scalar kind c) (\<lambda>v. retA (Some (lin_var v)))
      | None \<Rightarrow>
          bindA (if kind \<in> {svalues, uvalues} then value_bytes E invr ofs [0..<sz] [] else retA None) (\<lambda>bs.
            case Option.bind bs (loaded_value E kind) of
              Some e \<Rightarrow> retA (Some e)
            | None \<Rightarrow> load_overlapping E kind ofs sz))"

definition load_range_type :: "array_domain_t \<Rightarrow> interval_t \<Rightarrow> int \<Rightarrow> linear_expression_t option action" where
  "load_range_type a ii width =
    (case (ext_number (ivl_lb ii), ext_number (ivl_ub ii)) of
       (Some lb, Some ub) \<Rightarrow>
         (let fullwidth = ub - lb + width in
          if fits uint32_t lb \<and> fits uint32_t fullwidth then
            bindA (resA (uniformity (num_bytes a) (nat lb) (static_cast int32_t fullwidth))) (\<lambda>(only_num, _).
              retA (if only_num then Some (lin_const T_NUM) else None))
          else retA None)
     | _ \<Rightarrow> retA None)"

definition array_load ::
  "verifier_env \<Rightarrow> array_domain_t \<Rightarrow> num_domain \<Rightarrow> data_kind_t \<Rightarrow> linear_expression_t \<Rightarrow> int \<Rightarrow> linear_expression_t option action" where
  "array_load E a invr kind i width =
    bindA (evalA i invr) (\<lambda>ii.
      case singleton ii of
        Some n \<Rightarrow>
          bindA (resA (num_narrow int64_t n)) (\<lambda>k.
            if kind = types then
              bindA (resA (uniformity (num_bytes a) (to_index k) width)) (\<lambda>(only_num, only_non_num).
                if only_num then retA (Some (lin_const T_NUM))
                else if \<not> only_non_num \<or> width \<noteq> 8 then retA None
                else load_cell E invr kind (to_index k) (to_uint32 width))
            else load_cell E invr kind (to_index k) (to_uint32 width))
      | None \<Rightarrow> if kind = types then load_range_type a ii width else retA None)"

section \<open>Splitting and removing cells\<close>

definition split_cell :: "verifier_env \<Rightarrow> array_domain_t \<Rightarrow> data_kind_t \<Rightarrow> int \<Rightarrow> int \<Rightarrow> num_domain \<Rightarrow> num_domain action" where
  "split_cell E a kind cell_start_index len invr =
    (if kind \<notin> {svalues, uvalues} then throwA AssertionFailure
     else
       bindA (array_load E a invr svalues (lin_const cell_start_index) (static_cast int32_t len)) (\<lambda>svalue.
       bindA (array_load E a invr uvalues (lin_const cell_start_index) (static_cast int32_t len)) (\<lambda>uvalue.
       bindA (updateA kind (mk_cell (to_index cell_start_index) (to_uint32 len))) (\<lambda>new_cell.
       bindA (get_scalar svalues new_cell) (\<lambda>sv.
       bindA (readA (\<lambda>ns. nd_assign_optional ns sv svalue invr)) (\<lambda>invr.
       bindA (get_scalar uvalues new_cell) (\<lambda>uv.
         readA (\<lambda>ns. nd_assign_optional ns uv uvalue invr))))))))"

definition split_overlapping ::
  "verifier_env \<Rightarrow> array_domain_t \<Rightarrow> data_kind_t \<Rightarrow> nat \<Rightarrow> nat \<Rightarrow> num_domain \<Rightarrow> cell_t \<Rightarrow> num_domain action" where
  "split_overlapping E a kind ofs sz invr c =
    bindA (resA (cell_interval E c)) (\<lambda>intv.
    bindA (resA (ext_narrow int32_t (ivl_lb intv))) (\<lambda>cell_start_index.
    bindA (resA (ext_narrow int32_t (ivl_ub intv))) (\<lambda>cell_end_index.
    bindA (resA (all_num (num_bytes a) cell_start_index (cell_end_index + 1))) (\<lambda>numeric.
      if \<not> numeric \<or> to_index (cell_end_index + 1) < to_index (cell_start_index + 8) then retA invr
      else
        bindA (get_scalar kind c) (\<lambda>v.
        bindA (evalA (lin_var v) invr) (\<lambda>value.
          if singleton value = None then retA invr
          else
            bindA (if to_index cell_start_index < ofs then
                     bindA (resA (narrowE E uint32_range (int (to_index (int ofs - cell_start_index))))) (\<lambda>len.
                       split_cell E a kind cell_start_index len invr)
                   else retA invr) (\<lambda>invr.
              if to_index (int (ofs + sz)) < to_index (cell_end_index + 1) then
                bindA (resA (narrowE E int32_range (int (to_index (int (ofs + sz)))))) (\<lambda>start.
                bindA (resA (narrowE E uint32_range (int (to_index (cell_end_index - (int (ofs + sz) - 1)))))) (\<lambda>len.
                  split_cell E a kind start len invr))
              else retA invr)))))))"

text \<open>The offset and the size of an access, when both are constants.\<close>

definition constant_range :: "num_domain \<Rightarrow> linear_expression_t \<Rightarrow> linear_expression_t \<Rightarrow> (nat \<times> nat) option action" where
  "constant_range invr i elem_size =
    bindA (evalA i invr) (\<lambda>ii.
      case singleton ii of
        None \<Rightarrow> retA None
      | Some n \<Rightarrow>
          bindA (evalA elem_size invr) (\<lambda>i_elem_size.
            case singleton i_elem_size of
              None \<Rightarrow> retA None
            | Some n_bytes \<Rightarrow>
                bindA (resA (num_narrow uint32_t n_bytes)) (\<lambda>sz.
                bindA (resA (num_narrow uint64_t n)) (\<lambda>ofs. retA (Some (nat ofs, nat sz))))))"

definition split_number_var ::
  "verifier_env \<Rightarrow> array_domain_t \<Rightarrow> data_kind_t \<Rightarrow> linear_expression_t \<Rightarrow> linear_expression_t \<Rightarrow> num_domain \<Rightarrow> num_domain action" where
  "split_number_var E a kind i elem_size invr =
    (if kind \<notin> {svalues, uvalues} then throwA AssertionFailure
     else
       bindA (constant_range invr i elem_size) (\<lambda>r.
         case r of
           None \<Rightarrow> retA invr
         | Some (ofs, sz) \<Rightarrow>
             bindA (overlap_cellsA E kind ofs sz) (\<lambda>cs. foldA (split_overlapping E a kind ofs sz) invr cs)))"

definition forget_cell :: "data_kind_t \<Rightarrow> num_domain \<Rightarrow> cell_t \<Rightarrow> num_domain action" where
  "forget_cell kind invr c =
    bindA (get_scalar kind c) (\<lambda>v.
    bindA (runA (nd_forget v invr)) (\<lambda>invr.
      if kind \<in> {svalues, uvalues} then
        bindA (get_scalar (if kind = svalues then uvalues else svalues) c) (\<lambda>v. runA (nd_forget v invr))
      else retA invr))"

definition kill_and_find_var ::
  "verifier_env \<Rightarrow> data_kind_t \<Rightarrow> linear_expression_t \<Rightarrow> linear_expression_t \<Rightarrow> num_domain \<Rightarrow> ((nat \<times> nat) option \<times> num_domain) action" where
  "kill_and_find_var E kind i elem_size invr =
    bindA (constant_range invr i elem_size) (\<lambda>r.
    bindA (case r of
        Some (ofs, sz) \<Rightarrow> overlap_cellsA E kind ofs sz
      | None \<Rightarrow> bindA (cells_of kind) (\<lambda>m. get_overlap_cells_symbolic_offset E invr i (lin_plus i elem_size) m)) (\<lambda>cs.
    bindA (foldA (forget_cell kind) invr cs) (\<lambda>invr.
    bindA (updateA kind (\<lambda>m. ((), remove_cells cs m))) (\<lambda>_. retA (r, invr)))))"

definition split_and_find_var ::
  "verifier_env \<Rightarrow> array_domain_t \<Rightarrow> data_kind_t \<Rightarrow> linear_expression_t \<Rightarrow> linear_expression_t \<Rightarrow> num_domain \<Rightarrow>
   ((nat \<times> nat) option \<times> num_domain) action" where
  "split_and_find_var E a kind idx elem_size invr =
    bindA (if kind \<in> {svalues, uvalues} then split_number_var E a kind idx elem_size invr else retA invr) (\<lambda>invr.
      kill_and_find_var E kind idx elem_size invr)"

section \<open>Operations\<close>

definition initialize_numbers :: "int \<Rightarrow> int \<Rightarrow> array_domain_t \<Rightarrow> array_domain_t action" where
  "initialize_numbers lb width a =
    bindA (resA (bitset_reset (num_bytes a) (to_index lb) width)) (\<lambda>bs.
    bindA (updateA svalues (mk_cell (to_index lb) (to_uint32 width))) (\<lambda>_. retA (a\<lparr>num_bytes := bs\<rparr>)))"

definition array_all_num :: "array_domain_t \<Rightarrow> num_domain \<Rightarrow> linear_expression_t \<Rightarrow> linear_expression_t \<Rightarrow> bool action" where
  "array_all_num a invr lb ub =
    bindA (evalA lb invr) (\<lambda>l.
    bindA (evalA ub invr) (\<lambda>u.
      case (ext_number (ivl_lb l), ext_number (ivl_ub u)) of
        (Some min_lb, Some max_ub) \<Rightarrow>
          if \<not> fits int32_t min_lb \<or> \<not> fits int32_t max_ub then retA False
          else if min_lb \<ge> max_ub then retA True
          else resA (all_num (num_bytes a) min_lb max_ub)
      | _ \<Rightarrow> retA False))"

definition min_all_num_size :: "array_domain_t \<Rightarrow> num_domain \<Rightarrow> variable_t \<Rightarrow> int action" where
  "min_all_num_size a invr v =
    bindA (evalA (lin_var v) invr) (\<lambda>i.
      case (ext_number (ivl_lb i), ext_number (ivl_ub i)) of
        (Some lb, Some ub) \<Rightarrow>
          retA (if \<not> fits int32_t lb \<or> \<not> fits int32_t ub then 0
                else max 0 (all_num_width (num_bytes a) (to_index lb) - (ub - lb)))
      | _ \<Rightarrow> retA 0)"

text \<open>A strong update of the types of a range: numbers, or anything.\<close>

definition set_types :: "num_domain \<Rightarrow> linear_expression_t \<Rightarrow> nat \<Rightarrow> nat \<Rightarrow> array_domain_t \<Rightarrow> array_domain_t action" where
  "set_types invr val ofs sz a =
    bindA (evalA val invr) (\<lambda>t.
    bindA (resA ((if singleton t = Some T_NUM then bitset_reset else bitset_havoc) (num_bytes a) ofs (static_cast int32_t (int sz)))) (\<lambda>bs.
      retA (a\<lparr>num_bytes := bs\<rparr>)))"

definition array_store ::
  "verifier_env \<Rightarrow> data_kind_t \<Rightarrow> linear_expression_t \<Rightarrow> linear_expression_t \<Rightarrow> linear_expression_t \<Rightarrow>
   num_domain \<Rightarrow> array_domain_t \<Rightarrow> (variable_t option \<times> num_domain \<times> array_domain_t) action" where
  "array_store E kind idx elem_size val invr a =
    bindA (split_and_find_var E a kind idx elem_size invr) (\<lambda>(maybe_cell, invr).
      case maybe_cell of
        None \<Rightarrow> retA (None, invr, a)
      | Some (ofs, sz) \<Rightarrow>
          bindA (if kind = types then set_types invr val ofs sz a else retA a) (\<lambda>a.
          bindA (updateA kind (mk_cell ofs sz)) (\<lambda>c.
          bindA (get_scalar kind c) (\<lambda>v. retA (Some v, invr, a)))))"

definition store_type ::
  "verifier_env \<Rightarrow> linear_expression_t \<Rightarrow> linear_expression_t \<Rightarrow> linear_expression_t \<Rightarrow> num_domain \<Rightarrow> array_domain_t \<Rightarrow>
   (variable_t option \<times> num_domain \<times> array_domain_t) action" where
  "store_type E idx elem_size val invr a =
    bindA (split_and_find_var E a types idx elem_size invr) (\<lambda>(maybe_cell, invr).
      case maybe_cell of
        None \<Rightarrow> retA (None, invr, a)
      | Some (ofs, sz) \<Rightarrow>
          bindA (set_types invr val ofs sz a) (\<lambda>a.
          bindA (updateA types (mk_cell ofs sz)) (\<lambda>c.
          bindA (get_scalar types c) (\<lambda>v. retA (Some v, invr, a)))))"

definition store_type_reg ::
  "verifier_env \<Rightarrow> linear_expression_t \<Rightarrow> linear_expression_t \<Rightarrow> Reg \<Rightarrow> num_domain \<Rightarrow> array_domain_t \<Rightarrow>
   (variable_t option \<times> num_domain \<times> array_domain_t) action" where
  "store_type_reg E idx elem_size reg invr a =
    bindA (nameA (var_reg types (uint (reg_v reg)))) (\<lambda>v. store_type E idx elem_size (lin_var v) invr a)"

definition array_havoc ::
  "verifier_env \<Rightarrow> data_kind_t \<Rightarrow> linear_expression_t \<Rightarrow> linear_expression_t \<Rightarrow> num_domain \<Rightarrow> array_domain_t \<Rightarrow>
   (num_domain \<times> array_domain_t) action" where
  "array_havoc E kind idx elem_size invr a =
    bindA (split_and_find_var E a kind idx elem_size invr) (\<lambda>(maybe_cell, invr).
      case maybe_cell of
        Some (ofs, sz) \<Rightarrow>
          if kind = types then
            bindA (resA (bitset_havoc (num_bytes a) ofs (static_cast int32_t (int sz)))) (\<lambda>bs. retA (invr, a\<lparr>num_bytes := bs\<rparr>))
          else retA (invr, a)
      | None \<Rightarrow> retA (invr, a))"

definition store_numbers :: "num_domain \<Rightarrow> variable_t \<Rightarrow> variable_t \<Rightarrow> array_domain_t \<Rightarrow> array_domain_t action" where
  "store_numbers invr idx wd a =
    (if array_is_bottom a then retA a
     else
       bindA (indexA idx invr) (\<lambda>i.
         case singleton i of
           None \<Rightarrow> retA a
         | Some idx_n \<Rightarrow>
             bindA (indexA wd invr) (\<lambda>w.
               case singleton w of
                 None \<Rightarrow> retA a
               | Some width \<Rightarrow>
                   if idx_n + width > EBPF_TOTAL_STACK_SIZE then retA a
                   else
                     bindA (resA (num_narrow uint64_t idx_n)) (\<lambda>lb.
                     bindA (resA (num_narrow int32_t width)) (\<lambda>n.
                     bindA (resA (bitset_reset (num_bytes a) (nat lb) n)) (\<lambda>bs. retA (a\<lparr>num_bytes := bs\<rparr>)))))))"


section \<open>Properties\<close>

lemma byte_at_Suc: "byte_at n (Suc k) = byte_at (n div 256) k"
  by (simp add: byte_at_def zdiv_zmult2_eq)


lemma value_of_byte_list: "value_of_bytes (map (byte_at n) [0..<w]) = n mod 256 ^ w"
proof (induction w arbitrary: n)
  case (Suc w)
  have "map (byte_at n) [0..<Suc w] = byte_at n 0 # map (byte_at (n div 256)) [0..<w]"
    by (simp add: upt_conv_Cons map_Suc_upt [symmetric] byte_at_Suc del: upt_Suc)
  then have "value_of_bytes (map (byte_at n) [0..<Suc w]) = n mod 256 + 256 * (n div 256 mod 256 ^ w)"
    by (simp add: Suc byte_at_def)
  then show ?case by (simp add: zmod_zmult2_eq del: upt_Suc)
qed simp

lemma rev_upt_map: "map (\<lambda>k. f (w - 1 - k)) [0..<w] = rev (map f [0..<w])"
  by (rule nth_equalityI) (simp_all add: rev_nth)



text \<open>
  The search for cells that overlap a range stops at the first lower offset without an overlapping cell, and
  a lookup leaves an empty entry: after a lookup at offset 2 the cell of bytes 0 to 7 is no longer found for a write to
  bytes 4 to 7. A cell that is exactly the range is never found.
\<close>

definition env_of :: "program_info \<Rightarrow> verifier_env" where
  "env_of info = \<lparr>env_narrow = gsl_narrow_ref, env_info = info, env_contexts = [], env_options = default_options\<rparr>"

lemma overlap_search_misses_cell:
  "map_sum id fst (get_overlap_cells (env_of info) 4 4 [(0, [(0, 8)])]) = Inr [(0, 8)]"
  "map_sum id fst (get_overlap_cells (env_of info) 4 4 (snd (get_cell 2 1 [(0, [(0, 8)])]))) = Inr []"
  "map_sum id fst (get_overlap_cells (env_of info) 0 8 [(0, [(0, 8)])]) = Inr []"
  by code_simp+

end
