(* ===== verification/Crab_Ebpf_Domain.thy ===== *)
theory Crab_Ebpf_Domain
  imports Crab_Array_Domain Crab_Cfg Ebpf_Assertions Ebpf_Unmarshal
begin

text \<open>
  The abstract domain of eBPF states (\<^verbatim>\<open>crab/ebpf_domain.cpp\<close>): a zone over the variables of the registers and of the
  cells of the stack, and the bytes of the stack that hold numbers. The queries of map descriptors, the state
  at the entry of a program, and the limits that widening uses.
\<close>

definition MAX_PACKET_SIZE :: int where "MAX_PACKET_SIZE = 0xffff"
definition PTR_MAX :: int where "PTR_MAX = type_max int32_t - MAX_PACKET_SIZE"

record ebpf_domain_t =
  ed_inv :: num_domain
  ed_stack :: array_domain_t

section \<open>The program and its platform\<close>

text \<open>Following a null pointer to a context descriptor is undefined behaviour, an exception here.\<close>

definition context_descriptor :: "verifier_env \<Rightarrow> ebpf_context_descriptor_t res" where
  "context_descriptor E =
    (case pt_context_descriptor (info_type (env_info E)) of
       None \<Rightarrow> Inl AssertionFailure
     | Some p \<Rightarrow> if p < length (env_contexts E) then Inr (env_contexts E ! p) else Inl AssertionFailure)"

definition map_descriptor :: "verifier_env \<Rightarrow> int \<Rightarrow> EbpfMapDescriptor res" where
  "map_descriptor E fd = get_map_descriptor (info_platform (env_info E)) (info_map_descriptors (env_info E)) fd"

definition make_call :: "verifier_env \<Rightarrow> i32 \<Rightarrow> call_t res" where
  "make_call E func = makeCall (env_narrow E) (env_info E) func"

section \<open>Lattice\<close>

definition ed_new :: ebpf_domain_t where "ed_new = \<lparr>ed_inv = nd_top, ed_stack = array_new\<rparr>"

definition ed_set_to_top :: "ebpf_domain_t \<Rightarrow> ebpf_domain_t" where
  "ed_set_to_top d = \<lparr>ed_inv = nd_set_to_top (ed_inv d), ed_stack = array_set_to_top (ed_stack d)\<rparr>"

definition ed_set_to_bottom :: "ebpf_domain_t \<Rightarrow> ebpf_domain_t" where
  "ed_set_to_bottom d = d\<lparr>ed_inv := nd_set_to_bottom (ed_inv d)\<rparr>"

definition ed_top :: ebpf_domain_t where "ed_top = ed_set_to_top ed_new"
definition ed_bottom :: ebpf_domain_t where "ed_bottom = ed_set_to_bottom ed_new"
definition ed_is_bottom :: "ebpf_domain_t \<Rightarrow> bool" where "ed_is_bottom d = nd_is_bottom (ed_inv d)"
definition ed_is_top :: "ebpf_domain_t \<Rightarrow> bool" where "ed_is_top d \<longleftrightarrow> nd_is_top (ed_inv d) \<and> array_is_top (ed_stack d)"

definition ed_leq :: "ebpf_domain_t \<Rightarrow> ebpf_domain_t \<Rightarrow> bool res" where
  "ed_leq d e = bindE (nd_leq (ed_inv d) (ed_inv e)) (\<lambda>b. Inr (b \<and> array_le (ed_stack d) (ed_stack e)))"

definition ed_eq :: "ebpf_domain_t \<Rightarrow> ebpf_domain_t \<Rightarrow> bool res" where
  "ed_eq d e =
    (if \<not> array_eq (ed_stack d) (ed_stack e) then Inr False
     else bindE (nd_leq (ed_inv d) (ed_inv e)) (\<lambda>b. if b then nd_leq (ed_inv e) (ed_inv d) else Inr False))"

text \<open>The join in place keeps type-specific variables, the join that returns a new state does not.\<close>

definition ed_join_assign :: "ebpf_domain_t \<Rightarrow> ebpf_domain_t \<Rightarrow> ebpf_domain_t action" where
  "ed_join_assign d e =
    (if ed_is_bottom d then retA e
     else if ed_is_bottom e then retA d
     else bindA (selectively_join_based_on_type (ed_inv d) (ed_inv e)) (\<lambda>invr.
       retA \<lparr>ed_inv = invr, ed_stack = array_join_assign (ed_stack d) (ed_stack e)\<rparr>))"

definition ed_join :: "ebpf_domain_t \<Rightarrow> ebpf_domain_t \<Rightarrow> ebpf_domain_t run" where
  "ed_join d e =
    bindR (nd_join (ed_inv d) (ed_inv e)) (\<lambda>invr. Some (Inr \<lparr>ed_inv = invr, ed_stack = array_join (ed_stack d) (ed_stack e)\<rparr>))"

definition ed_join_moved :: "ebpf_domain_t \<Rightarrow> ebpf_domain_t \<Rightarrow> ebpf_domain_t run" where
  "ed_join_moved d e = ed_join e d"

definition ed_meet :: "ebpf_domain_t \<Rightarrow> ebpf_domain_t \<Rightarrow> ebpf_domain_t run" where
  "ed_meet d e =
    bindR (nd_meet (ed_inv d) (ed_inv e)) (\<lambda>invr. Some (Inr \<lparr>ed_inv = invr, ed_stack = array_meet (ed_stack d) (ed_stack e)\<rparr>))"

definition ed_narrow :: "ebpf_domain_t \<Rightarrow> ebpf_domain_t \<Rightarrow> ebpf_domain_t" where
  "ed_narrow d e = \<lparr>ed_inv = nd_narrow (ed_inv d) (ed_inv e), ed_stack = array_meet (ed_stack d) (ed_stack e)\<rparr>"

definition ed_add :: "linear_constraint_t \<Rightarrow> ebpf_domain_t \<Rightarrow> ebpf_domain_t action" where
  "ed_add c d = bindA (addA c (ed_inv d)) (\<lambda>invr. retA (d\<lparr>ed_inv := invr\<rparr>))"

definition ed_forget :: "variable_t \<Rightarrow> ebpf_domain_t \<Rightarrow> ebpf_domain_t action" where
  "ed_forget v d = bindA (runA (nd_forget v (ed_inv d))) (\<lambda>invr. retA (d\<lparr>ed_inv := invr\<rparr>))"

definition ed_add_all :: "linear_constraint_t list \<Rightarrow> ebpf_domain_t \<Rightarrow> ebpf_domain_t action" where
  "ed_add_all cs d = foldA (\<lambda>d c. ed_add c d) d cs"

section \<open>Widening\<close>

abbreviation at_most :: "variable_t \<Rightarrow> int \<Rightarrow> linear_constraint_t" where
  "at_most v n \<equiv> dsl_le (lin_var v) (lin_const n)"

abbreviation at_least :: "variable_t \<Rightarrow> int \<Rightarrow> linear_constraint_t" where
  "at_least v n \<equiv> dsl_ge (lin_var v) (lin_const n)"

definition register_limits :: "bool \<Rightarrow> ebpf_domain_t \<Rightarrow> int \<Rightarrow> ebpf_domain_t action" where
  "register_limits termination d i =
    bindA (nameA (reg_pack i)) (\<lambda>r.
    bindA (ed_add_all [at_most (rp_svalue r) (type_max int32_t), at_least (rp_svalue r) (type_min int32_t),
        at_most (rp_uvalue r) (type_max uint32_t), at_least (rp_uvalue r) 0,
        at_most (rp_stack_offset r) EBPF_TOTAL_STACK_SIZE, at_least (rp_stack_offset r) 0,
        dsl_le (lin_var (rp_shared_offset r)) (lin_var (rp_shared_region_size r)), at_least (rp_shared_offset r) 0] d) (\<lambda>d.
    bindA (nameA packet_size) (\<lambda>size.
    bindA (ed_add_all [dsl_le (lin_var (rp_packet_offset r)) (lin_var size), at_least (rp_packet_offset r) 0] d) (\<lambda>d.
      if termination then
        bindA (readA (\<lambda>ns. Some (Inr (get_loop_counters ns)))) (\<lambda>counters.
          foldA (\<lambda>d counter. ed_add_all [at_most counter (type_max int32_t), at_least counter 0,
            dsl_le (lin_var counter) (lin_var (rp_svalue r))] d) d counters)
      else retA d))))"

definition calculate_constant_limits :: "ebpf_verifier_options_t \<Rightarrow> ebpf_domain_t action" where
  "calculate_constant_limits opts = foldA (register_limits (check_for_termination opts)) ed_new [0, 1, 2, 3, 4, 5, 6, 7, 8, 9]"

text \<open>The limits are computed once, when the program starts: with the default options and the initial registry.\<close>

definition constant_limits :: "ebpf_domain_t run" where
  "constant_limits = bindR (calculate_constant_limits default_options initial_shared) (\<lambda>(d, _). Some (Inr d))"

definition ed_widen :: "ebpf_domain_t \<Rightarrow> ebpf_domain_t \<Rightarrow> bool \<Rightarrow> ebpf_domain_t run" where
  "ed_widen d e to_constants =
    bindR (nd_widen (ed_inv d) (ed_inv e)) (\<lambda>invr.
      let res = \<lparr>ed_inv = invr, ed_stack = array_join (ed_stack d) (ed_stack e)\<rparr> in
      if to_constants then bindR constant_limits (\<lambda>limits. ed_meet res limits) else Some (Inr res))"

section \<open>Queries\<close>

definition get_type_offset_variable :: "Reg \<Rightarrow> type_encoding_t \<Rightarrow> variable_t option action" where
  "get_type_offset_variable reg type =
    bindA (regpackA reg) (\<lambda>r. retA (
      if type = T_CTX then Some (rp_ctx_offset r)
      else if type = T_MAP \<or> type = T_MAP_PROGRAMS then Some (rp_map_fd r)
      else if type = T_PACKET then Some (rp_packet_offset r)
      else if type = T_SHARED then Some (rp_shared_offset r)
      else if type = T_STACK then Some (rp_stack_offset r)
      else None))"

definition get_type_offset_variable_in :: "Reg \<Rightarrow> num_domain \<Rightarrow> variable_t option action" where
  "get_type_offset_variable_in reg invr =
    bindA (regpackA reg) (\<lambda>r. bindA (get_type invr (lin_var (rp_type r))) (\<lambda>type. get_type_offset_variable reg type))"

definition get_map_fd_range :: "Reg \<Rightarrow> ebpf_domain_t \<Rightarrow> (int \<times> int) option action" where
  "get_map_fd_range map_fd_reg d =
    bindA (regpackA map_fd_reg) (\<lambda>r.
    bindA (indexA (rp_map_fd r) (ed_inv d)) (\<lambda>i.
      case (ext_number (ivl_lb i), ext_number (ivl_ub i)) of
        (Some lb, Some ub) \<Rightarrow>
          if \<not> fits int32_t lb \<or> \<not> fits int32_t ub then retA None
          else bindA (resA (finite_size i)) (\<lambda>s.
            case s of None \<Rightarrow> throwA AssertionFailure | Some s \<Rightarrow> retA (if s < 32 then Some (lb, ub) else None))
      | _ \<Rightarrow> retA None))"

text \<open>The loops over the descriptors of a range; the second compares the type of a map with a descriptor.\<close>

fun map_type_loop :: "verifier_env \<Rightarrow> int list \<Rightarrow> u32 option \<Rightarrow> u32 option res" where
  "map_type_loop E [] type = Inr type"
| "map_type_loop E (fd # fds) type =
    bindE (map_descriptor E fd) (\<lambda>m.
      case type of
        None \<Rightarrow> map_type_loop E fds (Some (md_type m))
      | Some t \<Rightarrow> if md_type m \<noteq> t then Inr None else map_type_loop E fds type)"

fun inner_map_fd_loop :: "verifier_env \<Rightarrow> int list \<Rightarrow> u32 option \<Rightarrow> u32 option res" where
  "inner_map_fd_loop E [] inner = Inr inner"
| "inner_map_fd_loop E (fd # fds) inner =
    bindE (map_descriptor E fd) (\<lambda>m.
      case inner of
        None \<Rightarrow> inner_map_fd_loop E fds (Some (md_inner_map_fd m))
      | Some t \<Rightarrow> if md_type m \<noteq> t then Inr None else inner_map_fd_loop E fds inner)"

definition map_sizes :: "verifier_env \<Rightarrow> (EbpfMapDescriptor \<Rightarrow> u32) \<Rightarrow> int list \<Rightarrow> interval_t res" where
  "map_sizes E f fds = foldE (\<lambda>result fd. bindE (map_descriptor E fd) (\<lambda>m. Inr (ivl_join result (interval_num (uint (f m)))))) bottom fds"

definition domain_map_type :: "verifier_env \<Rightarrow> Reg \<Rightarrow> ebpf_domain_t \<Rightarrow> u32 option action" where
  "domain_map_type E r d = bindA (get_map_fd_range r d) (\<lambda>range.
    case range of None \<Rightarrow> retA None | Some (lo, hi) \<Rightarrow> resA (map_type_loop E [lo..hi] None))"

definition get_map_inner_map_fd :: "verifier_env \<Rightarrow> Reg \<Rightarrow> ebpf_domain_t \<Rightarrow> u32 option action" where
  "get_map_inner_map_fd E r d = bindA (get_map_fd_range r d) (\<lambda>range.
    case range of None \<Rightarrow> retA None | Some (lo, hi) \<Rightarrow> resA (inner_map_fd_loop E [lo..hi] None))"

definition get_map_sizes :: "verifier_env \<Rightarrow> (EbpfMapDescriptor \<Rightarrow> u32) \<Rightarrow> Reg \<Rightarrow> ebpf_domain_t \<Rightarrow> interval_t action" where
  "get_map_sizes E f r d = bindA (get_map_fd_range r d) (\<lambda>range.
    case range of None \<Rightarrow> retA ivl_top | Some (lo, hi) \<Rightarrow> resA (map_sizes E f [lo..hi]))"

definition get_map_key_size :: "verifier_env \<Rightarrow> Reg \<Rightarrow> ebpf_domain_t \<Rightarrow> interval_t action" where
  "get_map_key_size E = get_map_sizes E md_key_size"

definition get_map_value_size :: "verifier_env \<Rightarrow> Reg \<Rightarrow> ebpf_domain_t \<Rightarrow> interval_t action" where
  "get_map_value_size E = get_map_sizes E md_value_size"

definition get_map_max_entries :: "verifier_env \<Rightarrow> Reg \<Rightarrow> ebpf_domain_t \<Rightarrow> interval_t action" where
  "get_map_max_entries E = get_map_sizes E md_max_entries"

definition get_loop_count_upper_bound :: "ebpf_domain_t \<Rightarrow> extended_number action" where
  "get_loop_count_upper_bound d =
    bindA (readA (\<lambda>ns. Some (Inr (get_loop_counters ns)))) (\<lambda>counters.
      foldA (\<lambda>ub counter. bindA (indexA counter (ed_inv d)) (\<lambda>i.
        retA (if ext_less ub (ivl_ub i) then ivl_ub i else ub))) (finite_ext 0) counters)"

definition get_r0 :: "ebpf_domain_t \<Rightarrow> interval_t action" where
  "get_r0 d = bindA (nameA (reg_pack (uint R0_RETURN_VALUE))) (\<lambda>r. indexA (rp_svalue r) (ed_inv d))"

section \<open>The entry of a program\<close>

definition initialize_packet :: "verifier_env \<Rightarrow> ebpf_domain_t \<Rightarrow> ebpf_domain_t action" where
  "initialize_packet E d =
    bindA (nameA packet_size) (\<lambda>size.
    bindA (ed_forget size d) (\<lambda>d.
    bindA (nameA meta_offset) (\<lambda>meta.
    bindA (ed_forget meta d) (\<lambda>d.
    bindA (ed_add_all [dsl_le (lin_const 0) (lin_var size), dsl_less (lin_var size) (lin_const MAX_PACKET_SIZE)] d) (\<lambda>d.
    bindA (resA (context_descriptor E)) (\<lambda>desc.
      if ctx_meta desc \<ge> 0 then ed_add_all [at_most meta 0, at_least meta (- 4098)] d
      else bindA (readA (\<lambda>ns. nd_assign_int ns meta 0 (ed_inv d))) (\<lambda>invr. retA (d\<lparr>ed_inv := invr\<rparr>))))))))"

definition entry_pointer ::
  "Reg \<Rightarrow> (reg_pack_t \<Rightarrow> variable_t) \<Rightarrow> int \<Rightarrow> int \<Rightarrow> type_encoding_t \<Rightarrow> ebpf_domain_t \<Rightarrow> ebpf_domain_t action" where
  "entry_pointer reg offset_of offset_value least type d =
    bindA (regpackA reg) (\<lambda>r.
    bindA (ed_add_all [dsl_le (lin_const least) (lin_var (rp_svalue r)), at_most (rp_svalue r) PTR_MAX] d) (\<lambda>d.
    bindA (readA (\<lambda>ns. nd_assign_int ns (offset_of r) offset_value (ed_inv d))) (\<lambda>invr.
    bindA (assign_type reg (Some (lin_const type)) invr) (\<lambda>invr. retA (d\<lparr>ed_inv := invr\<rparr>)))))"

definition setup_entry :: "verifier_env \<Rightarrow> bool \<Rightarrow> ebpf_domain_t action" where
  "setup_entry E init_r1 =
    bindA (entry_pointer (Reg R10_STACK_POINTER) rp_stack_offset EBPF_TOTAL_STACK_SIZE EBPF_TOTAL_STACK_SIZE T_STACK ed_new) (\<lambda>d.
    bindA (if init_r1 then entry_pointer (Reg 1) rp_ctx_offset 0 1 T_CTX d else retA d) (\<lambda>d.
      initialize_packet E d))"

text \<open>The constraints and the numeric ranges of the stack come from a parser of their text forms.\<close>

definition from_constraints ::
  "verifier_env \<Rightarrow> (linear_constraint_t list \<times> interval_t list) action \<Rightarrow> bool \<Rightarrow> ebpf_domain_t action" where
  "from_constraints E parse setup =
    bindA (if setup then setup_entry E False else retA ed_new) (\<lambda>d.
    bindA parse (\<lambda>(csts, numeric_ranges).
    bindA (ed_add_all csts d) (\<lambda>d.
      foldA (\<lambda>d range.
        bindA (resA (ext_narrow int32_t (ivl_lb range))) (\<lambda>start.
        bindA (resA (finite_size range)) (\<lambda>s.
          case s of
            None \<Rightarrow> throwA AssertionFailure
          | Some s \<Rightarrow>
              bindA (resA (num_narrow int32_t s)) (\<lambda>n.
              bindA (initialize_numbers start (1 + n) (ed_stack d)) (\<lambda>a. retA (d\<lparr>ed_stack := a\<rparr>)))))) d numeric_ranges)))"

end
