(* ===== verification/Crab_Assume.thy ===== *)
theory Crab_Assume
  imports Crab_Ebpf_Domain
begin

text \<open>
  The constraints of a comparison (\<^verbatim>\<open>crab/ebpf_transformer.cpp\<close>): what a conditional jump that is taken says of
  the signed and the unsigned value of its operands. The functions only read the invariant, an argument
  together with the registry of variable names.
\<close>

section \<open>Operands\<close>

record comparands =
  left_svalue :: variable_t
  left_uvalue :: variable_t
  right_svalue :: linear_expression_t
  right_uvalue :: linear_expression_t

abbreviation ls :: "comparands \<Rightarrow> linear_expression_t" where "ls v \<equiv> lin_var (left_svalue v)"
abbreviation lu :: "comparands \<Rightarrow> linear_expression_t" where "lu v \<equiv> lin_var (left_uvalue v)"

text \<open>The reader of an invariant, and the intervals of the widths.\<close>

type_synonym reader = "linear_expression_t \<Rightarrow> interval_t res"

abbreviation nonnegative_64 :: interval_t where "nonnegative_64 \<equiv> nonnegative_range int64_t"
abbreviation negative_64 :: interval_t where "negative_64 \<equiv> negative_range int64_t"
abbreviation unsigned_high_64 :: interval_t where "unsigned_high_64 \<equiv> high_range uint64_t"
abbreviation nonnegative_32 :: interval_t where "nonnegative_32 \<equiv> nonnegative_range int32_t"
abbreviation negative_32 :: interval_t where "negative_32 \<equiv> negative_range int32_t"
abbreviation unsigned_high_32 :: interval_t where "unsigned_high_32 \<equiv> high_range uint32_t"

definition less_cst :: "bool \<Rightarrow> linear_expression_t \<Rightarrow> linear_expression_t \<Rightarrow> linear_constraint_t" where
  "less_cst strictly e f = (if strictly then dsl_less e f else dsl_le e f)"

definition greater_cst :: "bool \<Rightarrow> linear_expression_t \<Rightarrow> linear_expression_t \<Rightarrow> linear_constraint_t" where
  "greater_cst strictly e f = (if strictly then dsl_greater e f else dsl_ge e f)"

text \<open>Dereferencing the empty number of an infinite bound is undefined behaviour, an exception here.\<close>

definition bound_number :: "extended_number \<Rightarrow> number_t res" where
  "bound_number b = opt_to_res AssertionFailure (ext_number b)"

definition both_within :: "reader \<Rightarrow> linear_expression_t \<Rightarrow> linear_expression_t \<Rightarrow> interval_t \<Rightarrow> bool res" where
  "both_within ev e f i = bindE (ev e) (\<lambda>x. if ivl_le x i then bindE (ev f) (\<lambda>y. Inr (ivl_le y i)) else Inr False)"

section \<open>Offsets and bit tests\<close>

definition assume_cst_offsets_reg :: "cond_op_t \<Rightarrow> variable_t \<Rightarrow> variable_t \<Rightarrow> linear_constraint_t" where
  "assume_cst_offsets_reg op dst_offset src_offset =
    (let x = lin_var dst_offset; y = lin_var src_offset in
     case op of
       Cond_EQ \<Rightarrow> eq_vars dst_offset src_offset
     | Cond_NE \<Rightarrow> neq_vars dst_offset src_offset
     | Cond_GE \<Rightarrow> dsl_ge x y
     | Cond_SGE \<Rightarrow> dsl_ge x y
     | Cond_LE \<Rightarrow> dsl_le x y
     | Cond_SLE \<Rightarrow> dsl_le x y
     | Cond_GT \<Rightarrow> dsl_greater x y
     | Cond_SGT \<Rightarrow> dsl_greater x y
     | Cond_SLT \<Rightarrow> dsl_greater y x
     | Cond_LT \<Rightarrow> dsl_greater y x
     | _ \<Rightarrow> dsl_eq (lin_subtract x x) (lin_const 0))"

definition assume_bit_cst_interval :: "reader \<Rightarrow> cond_op_t \<Rightarrow> bool \<Rightarrow> variable_t \<Rightarrow> interval_t \<Rightarrow> linear_constraint_t list res" where
  "assume_bit_cst_interval ev op is64 dst_uvalue src_interval =
    bindE (ev (lin_var dst_uvalue)) (\<lambda>dst_interval.
      case (singleton dst_interval, singleton src_interval) of
        (Some dst_n, Some src_n) \<Rightarrow>
          if \<not> fits_cast_to int64_t dst_n \<or> \<not> fits_cast_to int64_t src_n then Inr []
          else
            bindE (cast_to uint64_t src_n) (\<lambda>s.
            bindE (cast_to uint64_t dst_n) (\<lambda>d.
              let src_int_value = (if is64 then s else s mod 2 ^ 32); common = d AND src_int_value in
              case op of
                Cond_SET \<Rightarrow> Inr [if common \<noteq> 0 then true_const else false_const]
              | Cond_NSET \<Rightarrow> Inr [if common = 0 then true_const else false_const]
              | _ \<Rightarrow> Inl StdException))
      | _ \<Rightarrow> Inr [])"

section \<open>Equality\<close>

definition assume_signed_64bit_eq :: "comparands \<Rightarrow> interval_t \<Rightarrow> linear_constraint_t list" where
  "assume_signed_64bit_eq v right_interval =
    [dsl_eq (ls v) (right_svalue v), dsl_eq (lu v) (right_uvalue v)] @
    (if ivl_le right_interval nonnegative_64 \<and> \<not> ivl_is_singleton right_interval then [eq_vars (left_svalue v) (left_uvalue v)] else [])"

text \<open>The high half of the one number and the low half of the other, as a signed number.\<close>

definition halves :: "int \<Rightarrow> int \<Rightarrow> int" where
  "halves hi lo = static_cast int64_t ((hi AND 0xFFFFFFFF00000000) OR (lo AND 0xFFFFFFFF))"

definition assume_signed_32bit_eq :: "reader \<Rightarrow> comparands \<Rightarrow> interval_t \<Rightarrow> linear_constraint_t list res" where
  "assume_signed_32bit_eq ev v right_interval =
    (case singleton right_interval of
       None \<Rightarrow> Inr []
     | Some rn \<Rightarrow>
         bindE (ev (ls v)) (\<lambda>left_svalue_interval.
         bindE (finite_size left_svalue_interval) (\<lambda>s.
           case s of
             None \<Rightarrow> Inr []
           | Some _ \<Rightarrow>
               bindE (bound_number (ivl_lb left_svalue_interval)) (\<lambda>n.
               bindE (cast_to int64_t n) (\<lambda>lb.
               bindE (cast_to int64_t rn) (\<lambda>r.
               bindE (bound_number (ivl_ub left_svalue_interval)) (\<lambda>n.
               bindE (cast_to int64_t n) (\<lambda>ub.
                 let lb_match = halves lb r; ub_match = halves ub r;
                     ulb = static_cast uint64_t lb_match; uub = static_cast uint64_t ub_match in
                 Inr ([at_least (left_svalue v) lb_match, at_most (left_svalue v) ub_match] @
                   (if ulb \<le> uub then [at_least (left_uvalue v) ulb, at_most (left_uvalue v) uub] else []))))))))))"

section \<open>Intervals of the operands\<close>

text \<open>The left interval, the right interval, and the two halves of the left interval.\<close>

type_synonym four_intervals = "interval_t \<times> interval_t \<times> interval_t \<times> interval_t"

definition truncate_both :: "int_type \<Rightarrow> interval_t \<Rightarrow> interval_t \<Rightarrow> (interval_t \<times> interval_t) res" where
  "truncate_both T l r = bindE (ivl_truncate_to T l) (\<lambda>l. bindE (ivl_truncate_to T r) (\<lambda>r. Inr (l, r)))"

definition get_signed_intervals :: "reader \<Rightarrow> bool \<Rightarrow> comparands \<Rightarrow> four_intervals res" where
  "get_signed_intervals ev is64 v =
    bindE (ev (ls v)) (\<lambda>l.
    bindE (ev (right_svalue v)) (\<lambda>r.
    bindE (if is64 \<or> (ivl_le l nonnegative_32 \<and> ivl_le r nonnegative_32) \<or> (ivl_le l negative_32 \<and> ivl_le r negative_32)
           then Inr (l, r) else truncate_both int32_t l r) (\<lambda>(l, r).
    bindE (if \<not> is_top l then Inr (l, ivl_meet l nonnegative_64, ivl_meet l negative_64)
           else
             bindE (ev (lu v)) (\<lambda>l.
               if \<not> is_top l then
                 Inr (l, ivl_meet l nonnegative_64, interval (finite_ext (type_min int64_t))
                   (finite_ext (case ext_number (ivl_ub l) of Some n \<Rightarrow> truncate_to int64_t n | None \<Rightarrow> - 1)))
               else Inr (l, nonnegative_64, negative_64))) (\<lambda>(l, pos_half, neg_half).
    bindE (truncate_both int64_t l r) (\<lambda>(l, r). Inr (l, r, pos_half, neg_half))))))"

definition get_unsigned_intervals :: "reader \<Rightarrow> bool \<Rightarrow> comparands \<Rightarrow> four_intervals res" where
  "get_unsigned_intervals ev is64 v =
    bindE (ev (lu v)) (\<lambda>l.
    bindE (ev (right_uvalue v)) (\<lambda>r.
    bindE (if is64 \<or> (ivl_le l nonnegative_32 \<and> ivl_le r nonnegative_32) \<or> (ivl_le l unsigned_high_32 \<and> ivl_le r unsigned_high_32)
           then Inr (l, r) else truncate_both uint32_t l r) (\<lambda>(l, r).
    bindE (if \<not> is_top l then Inr (l, ivl_meet l nonnegative_64, ivl_meet l unsigned_high_64)
           else
             bindE (ev (ls v)) (\<lambda>l.
               if \<not> is_top l then
                 bindE (ivl_truncate_to uint64_t (interval (finite_ext 0) (ivl_ub l))) (\<lambda>low.
                 bindE (ivl_truncate_to uint64_t (interval (ivl_lb l) (finite_ext (- 1)))) (\<lambda>high. Inr (l, low, high)))
               else Inr (l, nonnegative_64, unsigned_high_64))) (\<lambda>(l, low, high).
    bindE (truncate_both uint64_t l r) (\<lambda>(l, r). Inr (l, r, low, high))))))"

section \<open>Signed comparisons\<close>

definition assume_signed_64bit_lt ::
  "bool \<Rightarrow> comparands \<Rightarrow> interval_t \<Rightarrow> interval_t \<Rightarrow> interval_t \<Rightarrow> linear_constraint_t list" where
  "assume_signed_64bit_lt strictly v pos_half neg_half right_interval =
    (if ivl_le right_interval negative_64 \<or> ivl_le (ivl_join neg_half pos_half) nonnegative_64 \<and> ivl_le right_interval nonnegative_64
     then [less_cst strictly (ls v) (right_svalue v), dsl_le (lin_const 0) (lu v), less_cst strictly (lu v) (right_uvalue v)]
     else [less_cst strictly (ls v) (right_svalue v)])"

definition assume_signed_32bit_lt ::
  "reader \<Rightarrow> bool \<Rightarrow> comparands \<Rightarrow> interval_t \<Rightarrow> interval_t \<Rightarrow> interval_t \<Rightarrow> linear_constraint_t list res" where
  "assume_signed_32bit_lt ev strictly v pos_half neg_half right_interval =
    (if ivl_le right_interval negative_32 then
       Inr [dsl_less (lin_const (type_max int32_t)) (lu v), less_cst strictly (lu v) (right_uvalue v), less_cst strictly (ls v) (right_svalue v)]
     else if ivl_le (ivl_join neg_half pos_half) nonnegative_32 \<and> ivl_le right_interval nonnegative_32 then
       bindE (ivl_truncate_to int32_t pos_half) (\<lambda>p.
       bindE (bound_number (ivl_ub p)) (\<lambda>lpub.
         Inr [dsl_ge (ls v) (lin_const 0), less_cst strictly (ls v) (right_svalue v), dsl_le (ls v) (lu v), dsl_ge (ls v) (lu v),
           dsl_ge (lu v) (lin_const 0), less_cst strictly (lu v) (right_uvalue v), dsl_le (lu v) (lin_const lpub)]))
     else bindE (both_within ev (ls v) (right_svalue v) (full int32_t)) (\<lambda>b.
       Inr (if b then [less_cst strictly (ls v) (right_svalue v)] else [])))"

definition assume_signed_64bit_gt ::
  "bool \<Rightarrow> comparands \<Rightarrow> interval_t \<Rightarrow> interval_t \<Rightarrow> interval_t \<Rightarrow> linear_constraint_t list res" where
  "assume_signed_64bit_gt strictly v pos_half neg_half right_interval =
    (if ivl_le right_interval nonnegative_64 then
       bindE (ivl_truncate_to int64_t pos_half) (\<lambda>p.
       bindE (bound_number (ivl_ub p)) (\<lambda>lpub.
         Inr [dsl_ge (ls v) (lin_const 0), greater_cst strictly (ls v) (right_svalue v), dsl_le (ls v) (lu v), dsl_ge (ls v) (lu v),
           dsl_ge (lu v) (lin_const 0), greater_cst strictly (lu v) (right_uvalue v), dsl_le (lu v) (lin_const lpub)]))
     else if ivl_le (ivl_join neg_half pos_half) negative_64 \<and> ivl_le right_interval negative_64 then
       Inr [dsl_less (lin_const (type_max int64_t)) (lu v), greater_cst strictly (lu v) (right_uvalue v), greater_cst strictly (ls v) (right_svalue v)]
     else Inr [greater_cst strictly (ls v) (right_svalue v)])"

definition assume_signed_32bit_gt ::
  "reader \<Rightarrow> bool \<Rightarrow> comparands \<Rightarrow> interval_t \<Rightarrow> interval_t \<Rightarrow> interval_t \<Rightarrow> linear_constraint_t list res" where
  "assume_signed_32bit_gt ev strictly v pos_half neg_half right_interval =
    (if ivl_le right_interval nonnegative_32 then
       bindE (ivl_truncate_to int32_t pos_half) (\<lambda>p.
       bindE (bound_number (ivl_ub p)) (\<lambda>lpub.
         Inr [dsl_ge (ls v) (lin_const 0), greater_cst strictly (ls v) (right_svalue v), dsl_le (ls v) (lu v), dsl_ge (ls v) (lu v),
           dsl_ge (lu v) (lin_const 0), greater_cst strictly (lu v) (right_uvalue v), dsl_le (lu v) (lin_const lpub)]))
     else if ivl_le (ivl_join neg_half pos_half) negative_32 \<and> ivl_le right_interval negative_32 then
       Inr [dsl_ge (lu v) (lin_const (type_max int32_t + 1)), greater_cst strictly (lu v) (right_uvalue v), greater_cst strictly (ls v) (right_svalue v)]
     else bindE (both_within ev (ls v) (right_svalue v) (full int32_t)) (\<lambda>b.
       Inr (if b then [greater_cst strictly (ls v) (right_svalue v)] else [])))"

definition assume_signed_cst_interval :: "reader \<Rightarrow> cond_op_t \<Rightarrow> bool \<Rightarrow> comparands \<Rightarrow> linear_constraint_t list res" where
  "assume_signed_cst_interval ev op is64 v =
    bindE (get_signed_intervals ev is64 v) (\<lambda>(left_interval, right_interval, pos_half, neg_half).
      if op = Cond_EQ then
        (if is64 then Inr (assume_signed_64bit_eq v right_interval) else assume_signed_32bit_eq ev v right_interval)
      else
        let is_lt = (op = Cond_SLT \<or> op = Cond_SLE); strictly = (op = Cond_SLT \<or> op = Cond_SGT);
            llb = ivl_lb left_interval; lub = ivl_ub left_interval; rlb = ivl_lb right_interval; rub = ivl_ub right_interval in
        if \<not> is_lt \<and> (if strictly then ext_le lub rlb else ext_less lub rlb) then Inr [false_const]
        else if is_lt \<and> (if strictly then ext_ge llb rub else ext_greater llb rub) then Inr [false_const]
        else if is_lt \<and> (if strictly then ext_less lub rlb else ext_le lub rlb) then Inr [true_const]
        else if \<not> is_lt \<and> (if strictly then ext_greater llb rub else ext_ge llb rub) then Inr [true_const]
        else if is64 then
          (if is_lt then Inr (assume_signed_64bit_lt strictly v pos_half neg_half right_interval)
           else assume_signed_64bit_gt strictly v pos_half neg_half right_interval)
        else
          (if is_lt then assume_signed_32bit_lt ev strictly v pos_half neg_half right_interval
           else assume_signed_32bit_gt ev strictly v pos_half neg_half right_interval))"

section \<open>Unsigned comparisons\<close>

definition out_of_range_high :: "linear_constraint_t \<Rightarrow> reader \<Rightarrow> comparands \<Rightarrow> linear_constraint_t list res" where
  "out_of_range_high below ev v =
    bindE (ev (ls v)) (\<lambda>i.
      Inr ([dsl_ge (lu v) (lin_const 0), below] @
        (case ext_number (ivl_ub i) of Some lsubn \<Rightarrow> [dsl_le (lu v) (lin_const lsubn)] | None \<Rightarrow> []) @
        [dsl_ge (ls v) (lin_const 0)]))"

definition assume_unsigned_64bit_lt ::
  "reader \<Rightarrow> bool \<Rightarrow> comparands \<Rightarrow> interval_t \<Rightarrow> interval_t \<Rightarrow> interval_t \<Rightarrow> linear_constraint_t list res" where
  "assume_unsigned_64bit_lt ev strictly v low high right_interval =
    (let rub = ivl_ub right_interval; above = (\<lambda>b. if strictly then ext_ge b rub else ext_greater b rub) in
     bindE (ivl_truncate_to uint64_t low) (\<lambda>low'.
       if ivl_le right_interval nonnegative_64 \<and> above (ivl_lb low') then out_of_range_high (less_cst strictly (lu v) (right_uvalue v)) ev v
       else
         bindE (ivl_truncate_to uint64_t high) (\<lambda>high'.
           if ivl_le right_interval unsigned_high_64 \<and> above (ivl_lb high') then
             bindE (bound_number rub) (\<lambda>n. out_of_range_high (less_cst strictly (lu v) (lin_const n)) ev v)
           else if ivl_le right_interval (full int64_t) then
             bindE (bound_number (ivl_ub low')) (\<lambda>llub.
               Inr [dsl_le (lin_const 0) (lu v), less_cst strictly (lu v) (right_uvalue v), dsl_le (lu v) (lin_const llub),
                 dsl_le (lin_const 0) (ls v), less_cst strictly (ls v) (right_svalue v)])
           else if is_bottom low \<and> ivl_le right_interval unsigned_high_64 then
             Inr [dsl_le (lin_const 0) (lu v), less_cst strictly (lu v) (right_uvalue v), less_cst strictly (ls v) (right_svalue v)]
           else if ivl_eq (ivl_join low high) (full uint64_t) then Inr [less_cst strictly (lu v) (right_uvalue v)]
           else Inr [dsl_le (lin_const 0) (lu v), less_cst strictly (lu v) (right_uvalue v)])))"

definition assume_unsigned_32bit_lt :: "reader \<Rightarrow> bool \<Rightarrow> comparands \<Rightarrow> linear_constraint_t list res" where
  "assume_unsigned_32bit_lt ev strictly v =
    (let both = [dsl_le (lin_const 0) (lu v), less_cst strictly (lu v) (right_uvalue v), less_cst strictly (ls v) (right_svalue v)] in
     bindE (both_within ev (lu v) (right_uvalue v) nonnegative_32) (\<lambda>b.
       if b then Inr both
       else
         bindE (both_within ev (ls v) (right_svalue v) negative_32) (\<lambda>b.
           if b then Inr both
           else
             bindE (both_within ev (lu v) (right_uvalue v) (full uint32_t)) (\<lambda>b.
               Inr (if b then [dsl_le (lin_const 0) (lu v), less_cst strictly (lu v) (right_uvalue v)] else [])))))"

definition assume_unsigned_64bit_gt ::
  "bool \<Rightarrow> comparands \<Rightarrow> interval_t \<Rightarrow> interval_t \<Rightarrow> interval_t \<Rightarrow> linear_constraint_t list res" where
  "assume_unsigned_64bit_gt strictly v low high right_interval =
    (let rlb = ivl_lb right_interval;
         both = [dsl_le (lin_const 0) (lu v), greater_cst strictly (lu v) (right_uvalue v), greater_cst strictly (ls v) (right_svalue v)] in
     bindE (ivl_truncate_to uint64_t low) (\<lambda>low'.
     bindE (ivl_truncate_to uint64_t high) (\<lambda>high'.
       if ivl_le right_interval nonnegative_64 \<and> (if strictly then ext_le (ivl_ub low') rlb else ext_less (ivl_ub low') rlb) then
         bindE (bound_number (ivl_lb high')) (\<lambda>lhlb.
           Inr [greater_cst strictly (lu v) (right_uvalue v),
             (if lhlb = type_max uint64_t then dsl_eq else dsl_ge) (lu v) (lin_const lhlb), dsl_less (ls v) (lin_const 0)])
       else if ivl_le right_interval unsigned_high_64 then Inr both
       else if ivl_le (ivl_join low high) nonnegative_64 \<and> ivl_le right_interval nonnegative_64 then Inr both
       else Inr [dsl_le (lin_const 0) (lu v), greater_cst strictly (lu v) (right_uvalue v)])))"

definition assume_unsigned_32bit_gt :: "reader \<Rightarrow> bool \<Rightarrow> comparands \<Rightarrow> interval_t \<Rightarrow> linear_constraint_t list res" where
  "assume_unsigned_32bit_gt ev strictly v right_interval =
    (if ivl_le right_interval unsigned_high_32 then
       Inr [dsl_le (lin_const 0) (lu v), greater_cst strictly (lu v) (right_uvalue v), greater_cst strictly (ls v) (right_svalue v)]
     else bindE (both_within ev (lu v) (right_uvalue v) (full uint32_t)) (\<lambda>b.
       Inr (if b then [dsl_le (lin_const 0) (lu v), greater_cst strictly (lu v) (right_uvalue v)] else [])))"

text \<open>
  A disequation with the lower bound of the left interval is a strictly comparison, and so is one with its upper
  bound; another disequation says nothing.
\<close>

definition disequation_as_order :: "bool \<Rightarrow> interval_t \<Rightarrow> interval_t \<Rightarrow> (cond_op_t \<times> interval_t) option res" where
  "disequation_as_order is64 left_interval right_interval =
    (case singleton right_interval of
       None \<Rightarrow> Inr None
     | Some rn \<Rightarrow>
         bindE (ivl_truncate_to_uint (if is64 then 64 else 32) left_interval) (\<lambda>t.
           Inr (if Some rn = ext_number (ivl_lb t) then Some (Cond_GT, interval_bound (ivl_lb left_interval))
                else if Some rn = ext_number (ivl_ub left_interval) then Some (Cond_LT, interval_bound (ivl_ub left_interval))
                else None)))"

definition assume_unsigned_order ::
  "reader \<Rightarrow> cond_op_t \<Rightarrow> bool \<Rightarrow> comparands \<Rightarrow> interval_t \<Rightarrow> interval_t \<Rightarrow> interval_t \<Rightarrow> interval_t \<Rightarrow> linear_constraint_t list res" where
  "assume_unsigned_order ev op is64 v left_interval right_interval low high =
    (let is_lt = (op = Cond_LT \<or> op = Cond_LE); strictly = (op = Cond_LT \<or> op = Cond_GT);
         llb = ivl_lb left_interval; lub = ivl_ub left_interval; rlb = ivl_lb right_interval; rub = ivl_ub right_interval in
     if (if is_lt then (if strictly then ext_ge llb rub else ext_greater llb rub) else (if strictly then ext_le lub rlb else ext_less lub rlb))
     then Inr [false_const]
     else if is_lt \<and> (if strictly then ext_less lub rlb else ext_le lub rlb) then
       Inr (if is64 then [less_cst strictly (lu v) (right_uvalue v)] else [])
     else if \<not> is_lt \<and> (if strictly then ext_greater llb rub else ext_ge llb rub) then
       Inr (if is64 then [greater_cst strictly (lu v) (right_uvalue v)] else [])
     else if is64 then
       (if is_lt then assume_unsigned_64bit_lt ev strictly v low high right_interval
        else assume_unsigned_64bit_gt strictly v low high right_interval)
     else
       (if is_lt then assume_unsigned_32bit_lt ev strictly v else assume_unsigned_32bit_gt ev strictly v right_interval))"

definition assume_unsigned_cst_interval :: "reader \<Rightarrow> cond_op_t \<Rightarrow> bool \<Rightarrow> comparands \<Rightarrow> linear_constraint_t list res" where
  "assume_unsigned_cst_interval ev op is64 v =
    bindE (get_unsigned_intervals ev is64 v) (\<lambda>(left_interval, right_interval, low, high).
      if op = Cond_NE then
        bindE (disequation_as_order is64 left_interval right_interval) (\<lambda>r.
          case r of
            None \<Rightarrow> Inr []
          | Some (op, right_interval) \<Rightarrow> assume_unsigned_order ev op is64 v left_interval right_interval low high)
      else assume_unsigned_order ev op is64 v left_interval right_interval low high)"

section \<open>Comparisons\<close>

definition assume_cst_imm :: "reader \<Rightarrow> cond_op_t \<Rightarrow> bool \<Rightarrow> variable_t \<Rightarrow> variable_t \<Rightarrow> int \<Rightarrow> linear_constraint_t list res" where
  "assume_cst_imm ev op is64 dst_svalue dst_uvalue k =
    (let v = \<lparr>left_svalue = dst_svalue, left_uvalue = dst_uvalue, right_svalue = lin_const k,
               right_uvalue = lin_const (static_cast uint64_t k)\<rparr> in
     if op \<in> {Cond_EQ, Cond_SGE, Cond_SLE, Cond_SGT, Cond_SLT} then assume_signed_cst_interval ev op is64 v
     else if op \<in> {Cond_SET, Cond_NSET} then assume_bit_cst_interval ev op is64 dst_uvalue (interval_num k)
     else assume_unsigned_cst_interval ev op is64 v)"

definition assume_cst_reg ::
  "reader \<Rightarrow> cond_op_t \<Rightarrow> bool \<Rightarrow> variable_t \<Rightarrow> variable_t \<Rightarrow> variable_t \<Rightarrow> variable_t \<Rightarrow> linear_constraint_t list res" where
  "assume_cst_reg ev op is64 dst_svalue dst_uvalue src_svalue src_uvalue =
    (let v = \<lparr>left_svalue = dst_svalue, left_uvalue = dst_uvalue, right_svalue = lin_var src_svalue, right_uvalue = lin_var src_uvalue\<rparr>;
         bits = bindE (ev (lin_var src_uvalue)) (assume_bit_cst_interval ev op is64 dst_uvalue);
         x = lin_var dst_svalue; y = lin_var src_svalue in
     if is64 then
       (case op of
          Cond_EQ \<Rightarrow>
            bindE (ev y) (\<lambda>src_interval.
              Inr ([eq_vars dst_svalue src_svalue, eq_vars dst_uvalue src_uvalue] @
                (if \<not> ivl_is_singleton src_interval \<and> ivl_le src_interval nonnegative_64 then [eq_vars dst_svalue dst_uvalue] else [])))
        | Cond_NE \<Rightarrow> Inr [neq_vars dst_svalue src_svalue]
        | Cond_SGE \<Rightarrow> Inr [dsl_ge x y]
        | Cond_SLE \<Rightarrow> Inr [dsl_le x y]
        | Cond_SGT \<Rightarrow> Inr [dsl_greater x y]
        | Cond_SLT \<Rightarrow> Inr [dsl_greater y x]
        | Cond_SET \<Rightarrow> bits
        | Cond_NSET \<Rightarrow> bits
        | _ \<Rightarrow> assume_unsigned_cst_interval ev op is64 v)
     else if op \<in> {Cond_EQ, Cond_SGE, Cond_SLE, Cond_SGT, Cond_SLT} then assume_signed_cst_interval ev op is64 v
     else if op \<in> {Cond_SET, Cond_NSET} then bits
     else assume_unsigned_cst_interval ev op is64 v)"

end
