(* ===== verification/Crab_Ebpf_Checker.thy ===== *)
theory Crab_Ebpf_Checker
  imports Crab_Ebpf_Domain Asm_Ostream
begin

text \<open>
  The checks of assertions on abstract states (\<^verbatim>\<open>crab/ebpf_checker.cpp\<close>) and the text forms of assertions that
  their warnings contain (\<^verbatim>\<open>asm_ostream.cpp\<close>). A check either assumes the constraints that an assertion needs, or
  records a warning for each one that the state does not entail.
\<close>

section \<open>Text forms of assertions\<close>

definition var_nameA :: "variable_t \<Rightarrow> string action" where
  "var_nameA v = readA (\<lambda>ns. lift_res (var_name ns v))"

definition reg_var_name :: "data_kind_t \<Rightarrow> Reg \<Rightarrow> string action" where
  "reg_var_name kind r = bindA (nameA (var_reg kind (uint (reg_v r)))) var_nameA"

definition type_constraint_to_string :: "Reg \<Rightarrow> type_group \<Rightarrow> string action" where
  "type_constraint_to_string r g =
    bindA (reg_var_name types r) (\<lambda>t.
    bindA (resA (group_to_string g)) (\<lambda>s.
      retA (t @ '' '' @ (if is_singleton_type g then ''=='' else ''in'') @ '' '' @ s)))"

definition valid_access_to_string :: "valid_access_t \<Rightarrow> string action" where
  "valid_access_to_string a =
    bindA (if va_or_null a then
             bindA (type_constraint_to_string (va_reg a) TG_number) (\<lambda>s.
               retA (''('' @ s @ '' and '' @ reg_to_string (va_reg a) @ ''.value == 0) or ''))
           else retA []) (\<lambda>null.
      retA (null @ ''valid_access('' @ reg_to_string (va_reg a) @ ''.offset'' @
        (if va_offset a > 0 then ''+'' @ int_to_string (va_offset a)
         else if va_offset a < 0 then int_to_string (va_offset a) else []) @
        (if va_width a = Imm 0 then '') for comparison/subtraction''
         else '', width='' @ val_to_string (va_width a) @ '') for '' @
           (if va_access_type a = Access_read then ''read'' else ''write''))))"

definition loop_count_limit :: int where "loop_count_limit = 100000"

definition helper_prototype :: "verifier_env \<Rightarrow> i32 \<Rightarrow> EbpfHelperPrototype res" where
  "helper_prototype E func = get_helper_prototype (info_platform (env_info E)) (info_type (env_info E)) func"

definition assertion_to_string :: "verifier_env \<Rightarrow> Assertion \<Rightarrow> string action" where
  "assertion_to_string E a = (case a of
      ValidStore mem val \<Rightarrow> bindA (type_constraint_to_string val TG_number) (\<lambda>s. retA (reg_to_string mem @ ''.type != stack -> '' @ s))
    | ValidAccess a \<Rightarrow> valid_access_to_string a
    | BoundedLoopCount name \<Rightarrow>
        bindA (nameA (loop_counter (label_to_string name))) (\<lambda>v.
        bindA (var_nameA v) (\<lambda>s. retA (s @ '' < '' @ int_to_string loop_count_limit)))
    | ValidSize r can_be_zero \<Rightarrow> retA (reg_to_string r @ ''.value'' @ (if can_be_zero then '' >= '' else '' > '') @ ''0'')
    | ValidCall func _ \<Rightarrow> bindA (resA (helper_prototype E func)) (\<lambda>proto. retA (''valid call('' @ proto_name proto @ '')''))
    | ValidMapKeyValue access fd key \<Rightarrow>
        retA (''within stack('' @ reg_to_string access @ '':'' @ (if key then ''key_size'' else ''value_size'') @ ''('' @
          reg_to_string fd @ ''))'')
    | ZeroCtxOffset r \<Rightarrow> bindA (reg_var_name ctx_offsets r) (\<lambda>s. retA (s @ '' == 0''))
    | Comparable r1 r2 or_number \<Rightarrow>
        bindA (if or_number then bindA (type_constraint_to_string r2 TG_number) (\<lambda>s. retA (s @ '' or '')) else retA []) (\<lambda>p.
        bindA (reg_var_name types r1) (\<lambda>s1.
        bindA (reg_var_name types r2) (\<lambda>s2.
        bindA (resA (group_to_string TG_singleton_ptr)) (\<lambda>g. retA (p @ s1 @ '' == '' @ s2 @ '' in '' @ g)))))
    | Addable ptr num \<Rightarrow>
        bindA (type_constraint_to_string ptr TG_pointer) (\<lambda>s.
        bindA (type_constraint_to_string num TG_number) (\<lambda>t. retA (s @ '' -> '' @ t)))
    | ValidDivisor r _ \<Rightarrow> retA (reg_to_string r @ '' != 0'')
    | TypeConstraint r g \<Rightarrow> type_constraint_to_string r g
    | FuncConstraint r \<Rightarrow> bindA (reg_var_name types r) (\<lambda>s. retA (s @ '' is helper'')))"

section \<open>Requirements\<close>

definition check_require :: "num_domain \<Rightarrow> linear_constraint_t \<Rightarrow> bool action" where
  "check_require invr cst =
    (if nd_is_bottom invr then retA True
     else if is_contradiction cst then retA False
     else bindA (entailA cst invr) (\<lambda>b.
       if b then retA True
       else bindA (readA (\<lambda>ns. nd_intersect ns cst invr)) (\<lambda>_. retA False)))"

datatype check_mode = Assume_mode | Check_mode

record checker_t =
  ck_dom :: ebpf_domain_t
  ck_warnings :: "string list"

text \<open>The environment of one check: the program, the mode, and the assertion that warnings name.\<close>

record check_env =
  ce_env :: verifier_env
  ce_mode :: check_mode
  ce_assertion :: Assertion

abbreviation ck_inv :: "checker_t \<Rightarrow> num_domain" where "ck_inv st \<equiv> ed_inv (ck_dom st)"

definition set_ck_inv :: "num_domain \<Rightarrow> checker_t \<Rightarrow> checker_t" where
  "set_ck_inv invr st = st\<lparr>ck_dom := (ck_dom st)\<lparr>ed_inv := invr\<rparr>\<rparr>"

text \<open>A requirement on an invariant \<open>invr\<close> that is passed by reference.\<close>

definition require_in :: "check_env \<Rightarrow> linear_constraint_t \<Rightarrow> string \<Rightarrow> num_domain \<times> checker_t \<Rightarrow> (num_domain \<times> checker_t) action" where
  "require_in C cst msg = (\<lambda>(invr, st).
    bindA (assertion_to_string (ce_env C) (ce_assertion C)) (\<lambda>s.
      case ce_mode C of
        Assume_mode \<Rightarrow> bindA (addA cst invr) (\<lambda>invr. retA (invr, st))
      | Check_mode \<Rightarrow>
          bindA (check_require invr cst) (\<lambda>good.
            retA (invr, if good then st else st\<lparr>ck_warnings := ck_warnings st @ [msg @ '' ('' @ s @ '')'']\<rparr>))))"

definition require :: "check_env \<Rightarrow> linear_constraint_t \<Rightarrow> string \<Rightarrow> checker_t \<Rightarrow> checker_t action" where
  "require C cst msg st = bindA (require_in C cst msg (ck_inv st, st)) (\<lambda>(invr, st). retA (set_ck_inv invr st))"

definition fail_check :: "check_env \<Rightarrow> string \<Rightarrow> checker_t \<Rightarrow> checker_t action" where
  "fail_check C msg st = require C false_const msg st"

text \<open>A failure inside a transition of a type: the requirement is on the state, not on the copy.\<close>

definition fail_outside :: "check_env \<Rightarrow> string \<Rightarrow> num_domain \<times> checker_t \<Rightarrow> (num_domain \<times> checker_t) action" where
  "fail_outside C msg = (\<lambda>(invr, st). bindA (fail_check C msg st) (\<lambda>st. retA (invr, st)))"

definition check_over_types ::
  "Reg \<Rightarrow> (num_domain \<times> checker_t \<Rightarrow> type_encoding_t \<Rightarrow> (num_domain \<times> checker_t) action) \<Rightarrow> checker_t \<Rightarrow> checker_t action" where
  "check_over_types reg transition st =
    bindA (join_over_types ck_inv reg transition st) (\<lambda>(invr, st). retA (set_ck_inv invr st))"

section \<open>Bounds of memory accesses\<close>

definition type_is_pointer :: "reg_pack_t \<Rightarrow> linear_constraint_t" where
  "type_is_pointer r = at_least (rp_type r) T_CTX"

definition type_is_number :: "reg_pack_t \<Rightarrow> linear_constraint_t" where
  "type_is_number r = dsl_eq (lin_var (rp_type r)) (lin_const T_NUM)"

definition type_is_not_stack :: "reg_pack_t \<Rightarrow> linear_constraint_t" where
  "type_is_not_stack r = dsl_neq (lin_var (rp_type r)) (lin_const T_STACK)"

definition check_access_stack ::
  "check_env \<Rightarrow> linear_expression_t \<Rightarrow> linear_expression_t \<Rightarrow> num_domain \<times> checker_t \<Rightarrow> (num_domain \<times> checker_t) action" where
  "check_access_stack C lb ub = (\<lambda>(invr, st).
    bindA (nameA (reg_pack (uint R10_STACK_POINTER))) (\<lambda>r10.
    bindA (evalA (lin_var (rp_stack_offset r10)) invr) (\<lambda>interval.
    bindA (case singleton interval of
        None \<Rightarrow> retA (invr, st)
      | Some n \<Rightarrow>
          bindA (resA (cast_to int64_t n)) (\<lambda>stack_offset.
            require_in C (dsl_ge lb (lin_const (stack_offset - EBPF_SUBPROGRAM_STACK_SIZE)))
              ''Lower bound must be at least r10.stack_offset - EBPF_SUBPROGRAM_STACK_SIZE'' (invr, st)))
      (require_in C (dsl_le ub (lin_const EBPF_TOTAL_STACK_SIZE)) ''Upper bound must be at most EBPF_TOTAL_STACK_SIZE''))))"

definition check_access_context ::
  "check_env \<Rightarrow> linear_expression_t \<Rightarrow> linear_expression_t \<Rightarrow> num_domain \<times> checker_t \<Rightarrow> (num_domain \<times> checker_t) action" where
  "check_access_context C lb ub x =
    bindA (require_in C (dsl_ge lb (lin_const 0)) ''Lower bound must be at least 0'' x) (\<lambda>x.
    bindA (resA (context_descriptor (ce_env C))) (\<lambda>desc.
      require_in C (dsl_le ub (lin_const (ctx_size desc))) (''Upper bound must be at most '' @ int_to_string (ctx_size desc)) x))"

definition check_access_packet ::
  "check_env \<Rightarrow> linear_expression_t \<Rightarrow> linear_expression_t \<Rightarrow> variable_t option \<Rightarrow> num_domain \<times> checker_t \<Rightarrow> (num_domain \<times> checker_t) action" where
  "check_access_packet C lb ub size_var x =
    bindA (nameA meta_offset) (\<lambda>meta.
    bindA (require_in C (dsl_ge lb (lin_var meta)) ''Lower bound must be at least meta_offset'' x) (\<lambda>x.
      case size_var of
        Some v \<Rightarrow> require_in C (dsl_le ub (lin_var v)) ''Upper bound must be at most packet_size'' x
      | None \<Rightarrow> require_in C (dsl_le ub (lin_const MAX_PACKET_SIZE)) (''Upper bound must be at most '' @ int_to_string MAX_PACKET_SIZE) x))"

definition check_access_shared ::
  "check_env \<Rightarrow> linear_expression_t \<Rightarrow> linear_expression_t \<Rightarrow> variable_t \<Rightarrow> num_domain \<times> checker_t \<Rightarrow> (num_domain \<times> checker_t) action" where
  "check_access_shared C lb ub region_size x =
    bindA (require_in C (dsl_ge lb (lin_const 0)) ''Lower bound must be at least 0'' x) (\<lambda>x.
    bindA (var_nameA region_size) (\<lambda>n.
      require_in C (dsl_le ub (lin_var region_size)) (''Upper bound must be at most '' @ n) x))"

section \<open>Assertions\<close>

definition lb_ub_access_pair :: "valid_access_t \<Rightarrow> variable_t \<Rightarrow> (linear_expression_t \<times> linear_expression_t) action" where
  "lb_ub_access_pair s v =
    (let lb = lin_plus (lin_var v) (lin_const (va_offset s)) in
     case va_width s of
       Imm w \<Rightarrow> retA (lb, lin_plus lb (lin_const (uint w)))
     | RegV r \<Rightarrow> bindA (regpackA r) (\<lambda>p. retA (lb, lin_plus lb (lin_var (rp_svalue p)))))"

text \<open>Reading the stack needs numbers in the range, known from the bytes or from the numeric size of the pointer.\<close>

definition check_stack_read ::
  "check_env \<Rightarrow> valid_access_t \<Rightarrow> reg_pack_t \<Rightarrow> linear_expression_t \<Rightarrow> linear_expression_t \<Rightarrow> num_domain \<times> checker_t \<Rightarrow>
   (num_domain \<times> checker_t) action" where
  "check_stack_read C s r lb ub = (\<lambda>(invr, st).
    bindA (array_all_num (ed_stack (ck_dom st)) invr lb ub) (\<lambda>numeric.
      if numeric then retA (invr, st)
      else if va_offset s < 0 then fail_outside C ''Stack content is not numeric'' (invr, st)
      else
        bindA (case va_width s of
            Imm w \<Rightarrow> bindA (resA (narrowE (ce_env C) int32_range (uint w))) (\<lambda>n. retA (lin_const n))
          | RegV w \<Rightarrow> bindA (regpackA w) (\<lambda>p. retA (lin_var (rp_svalue p)))) (\<lambda>width.
        bindA (entailA (dsl_le width (lin_subtract (lin_var (rp_stack_numeric_size r)) (lin_const (va_offset s)))) invr) (\<lambda>b.
          if b then retA (invr, st) else fail_outside C ''Stack content is not numeric'' (invr, st)))))"

definition check_access_type ::
  "check_env \<Rightarrow> valid_access_t \<Rightarrow> reg_pack_t \<Rightarrow> num_domain \<times> checker_t \<Rightarrow> type_encoding_t \<Rightarrow> (num_domain \<times> checker_t) action" where
  "check_access_type C s r x type =
    (let comparison = (va_width s = Imm 0) in
     if type = T_PACKET then
       bindA (lb_ub_access_pair s (rp_packet_offset r)) (\<lambda>(lb, ub).
       bindA (if comparison then retA None else bindA (nameA packet_size) (\<lambda>v. retA (Some v))) (\<lambda>size_var.
         check_access_packet C lb ub size_var x))
     else if type = T_STACK then
       bindA (lb_ub_access_pair s (rp_stack_offset r)) (\<lambda>(lb, ub).
       bindA (check_access_stack C lb ub x) (\<lambda>x.
         if va_access_type s = Access_read then check_stack_read C s r lb ub x else retA x))
     else if type = T_CTX then
       bindA (lb_ub_access_pair s (rp_ctx_offset r)) (\<lambda>(lb, ub). check_access_context C lb ub x)
     else if type = T_SHARED then
       bindA (lb_ub_access_pair s (rp_shared_offset r)) (\<lambda>(lb, ub).
       bindA (check_access_shared C lb ub (rp_shared_region_size r) x) (\<lambda>x.
         if \<not> comparison \<and> \<not> va_or_null s then
           require_in C (dsl_greater (lin_var (rp_svalue r)) (lin_const 0)) ''Possible null access'' x
         else retA x))
     else if type = T_NUM then
       (if comparison then retA x
        else if va_or_null s then require_in C (dsl_eq (lin_var (rp_svalue r)) (lin_const 0)) ''Non-null number'' x
        else fail_outside C ''Only pointers can be dereferenced'' x)
     else if type = T_MAP \<or> type = T_MAP_PROGRAMS then
       (if comparison then retA x else fail_outside C ''FDs cannot be dereferenced directly'' x)
     else fail_outside C ''Invalid type'' x)"

definition check_valid_access :: "check_env \<Rightarrow> valid_access_t \<Rightarrow> checker_t \<Rightarrow> checker_t action" where
  "check_valid_access C s st =
    bindA (regpackA (va_reg s)) (\<lambda>r. check_over_types (va_reg s) (check_access_type C s r) st)"

definition comparable_access :: "Reg \<Rightarrow> valid_access_t" where
  "comparable_access r = \<lparr>va_call_stack_depth = MAX_CALL_STACK_FRAMES, va_reg = r, va_offset = 0, va_width = Imm 0,
     va_or_null = False, va_access_type = Access_compare\<rparr>"

definition check_comparable :: "check_env \<Rightarrow> Reg \<Rightarrow> Reg \<Rightarrow> checker_t \<Rightarrow> checker_t action" where
  "check_comparable C r1 r2 st =
    bindA (same_type (ck_inv st) r1 r2) (\<lambda>same.
    bindA (regpackA r2) (\<lambda>p2.
      if same then
        bindA (whenA (dsl_neq (lin_var (rp_type p2)) (lin_const T_NUM)) (ck_inv st)) (\<lambda>invr.
        bindA (is_in_group invr r1 TG_singleton_ptr) (\<lambda>b.
        bindA (if b then retA True else is_in_group invr r1 TG_map_fd) (\<lambda>b.
          if \<not> b then fail_check C ''Cannot subtract pointers to non-singleton regions'' st
          else bindA (check_valid_access C (comparable_access r1) st) (check_valid_access C (comparable_access r2)))))
      else require C (type_is_number p2) ''Cannot subtract pointers to different regions'' st))"

definition check_implied_number :: "check_env \<Rightarrow> (reg_pack_t \<Rightarrow> linear_constraint_t) \<Rightarrow> Reg \<Rightarrow> Reg \<Rightarrow> string \<Rightarrow> checker_t \<Rightarrow> checker_t action" where
  "check_implied_number C condition r num msg st =
    bindA (regpackA r) (\<lambda>p.
    bindA (regpackA num) (\<lambda>q.
    bindA (implies_type (ck_inv st) (condition p) (type_is_number q)) (\<lambda>b.
      if b then retA st else fail_check C msg st)))"

definition check_divisor :: "check_env \<Rightarrow> Reg \<Rightarrow> bool \<Rightarrow> checker_t \<Rightarrow> checker_t action" where
  "check_divisor C r is_signed st =
    bindA (check_implied_number C type_is_pointer r r ''Only numbers can be used as divisors'' st) (\<lambda>st.
    bindA (regpackA r) (\<lambda>p.
      if allow_division_by_zero (env_options (ce_env C)) then retA st
      else require C (dsl_neq (lin_var (if is_signed then rp_svalue p else rp_uvalue p)) (lin_const 0)) ''Possible division by zero'' st))"

definition check_type :: "check_env \<Rightarrow> Reg \<Rightarrow> type_group \<Rightarrow> checker_t \<Rightarrow> checker_t action" where
  "check_type C r g st = bindA (is_in_group (ck_inv st) r g) (\<lambda>b. if b then retA st else fail_check C ''Invalid type'' st)"

definition check_loop_count :: "check_env \<Rightarrow> label_t \<Rightarrow> checker_t \<Rightarrow> checker_t action" where
  "check_loop_count C name st =
    bindA (nameA (loop_counter (label_to_string name))) (\<lambda>counter.
      require C (at_most counter loop_count_limit) ''Loop counter is too large'' st)"

definition check_size :: "check_env \<Rightarrow> Reg \<Rightarrow> bool \<Rightarrow> checker_t \<Rightarrow> checker_t action" where
  "check_size C r can_be_zero st =
    bindA (regpackA r) (\<lambda>p.
      require C ((if can_be_zero then dsl_ge else dsl_greater) (lin_var (rp_svalue p)) (lin_const 0)) ''Invalid size'' st)"

definition check_call :: "check_env \<Rightarrow> i32 \<Rightarrow> string \<Rightarrow> checker_t \<Rightarrow> checker_t action" where
  "check_call C func pfx st =
    (if pfx = [] then retA st
     else bindA (resA (helper_prototype (ce_env C) func)) (\<lambda>proto.
       if proto_return_type proto = EBPF_RETURN_TYPE_INTEGER_OR_NO_RETURN_IF_SUCCEED then
         fail_check C ''tail call not supported in subprogram'' st
       else retA st))"

definition check_ctx_offset :: "check_env \<Rightarrow> Reg \<Rightarrow> checker_t \<Rightarrow> checker_t action" where
  "check_ctx_offset C r st =
    bindA (regpackA r) (\<lambda>p. require C (dsl_eq (lin_var (rp_ctx_offset p)) (lin_const 0)) ''Nonzero context offset'' st)"

section \<open>Map keys and values\<close>

definition bound_to_string :: "string \<Rightarrow> extended_number \<Rightarrow> string" where
  "bound_to_string infinity b =
    (case ext_number b of Some n \<Rightarrow> if fits int32_t n then int_to_string n else infinity | None \<Rightarrow> infinity)"

text \<open>In strict mode the key of an array map must be below the least number of entries of its maps.\<close>

definition check_array_index ::
  "check_env \<Rightarrow> Reg \<Rightarrow> bool \<Rightarrow> reg_pack_t \<Rightarrow> num_domain \<times> checker_t \<Rightarrow> (num_domain \<times> checker_t) action" where
  "check_array_index C fd key r = (\<lambda>(invr, st).
    bindA (indexA (rp_stack_offset r) invr) (\<lambda>i.
      case singleton i of
        None \<Rightarrow> fail_outside C ''Pointer must be a singleton'' (invr, st)
      | Some ofs \<Rightarrow>
          if \<not> key then retA (invr, st)
          else
            bindA (\<lambda>s. bindA (resA (cell_var svalues ofs 4 (sh_names s))) (\<lambda>(v, ns) s. Some (Inr (v, s\<lparr>sh_names := ns\<rparr>))) s) (\<lambda>key_value.
            bindA (get_map_max_entries (ce_env C) fd (ck_dom st)) (\<lambda>entries.
            bindA (case ext_number (ivl_lb entries) of
                Some max_entries \<Rightarrow> require_in C (dsl_less (lin_var key_value) (lin_const max_entries)) ''Array index overflow'' (invr, st)
              | None \<Rightarrow> fail_outside C ''Max entries is not finite'' (invr, st)) (\<lambda>x.
              require_in C (at_least key_value 0) ''Array index underflow'' x)))))"

definition check_key_value_type ::
  "check_env \<Rightarrow> Reg \<Rightarrow> bool \<Rightarrow> u32 option \<Rightarrow> reg_pack_t \<Rightarrow> int \<Rightarrow> num_domain \<times> checker_t \<Rightarrow> type_encoding_t \<Rightarrow> (num_domain \<times> checker_t) action" where
  "check_key_value_type C fd key fd_type r width = (\<lambda>(invr, st) type.
    (let range_of = (\<lambda>v. (lin_var v, lin_plus (lin_var v) (lin_const width))) in
     if type = T_STACK then
       (case range_of (rp_stack_offset r) of (lb, ub) \<Rightarrow>
         bindA (array_all_num (ed_stack (ck_dom st)) invr lb ub) (\<lambda>numeric.
           if \<not> numeric then
             bindA (indexA (rp_stack_offset r) invr) (\<lambda>l.
             bindA (evalA ub invr) (\<lambda>u.
               require_in C false_const (''Illegal map update with a non-numerical value ['' @ bound_to_string ''-oo'' (ivl_lb l) @ ''-'' @
                 bound_to_string ''oo'' (ivl_ub u) @ '')'') (invr, st)))
           else if strict (env_options (ce_env C)) \<and> fd_type \<noteq> None then
             bindA (resA (get_map_type (info_platform (env_info (ce_env C))) (the fd_type))) (\<lambda>map_type.
               if mt_is_array map_type then check_array_index C fd key r (invr, st) else retA (invr, st))
           else retA (invr, st)))
     else if type = T_PACKET then
       (case range_of (rp_packet_offset r) of (lb, ub) \<Rightarrow> check_access_packet C lb ub None (invr, st))
     else if type = T_SHARED then
       (case range_of (rp_shared_offset r) of (lb, ub) \<Rightarrow>
         bindA (check_access_shared C lb ub (rp_shared_region_size r) (invr, st)) (\<lambda>x.
           require_in C (dsl_greater (lin_var (rp_svalue r)) (lin_const 0)) ''Possible null access'' x))
     else fail_outside C ''Only stack or packet can be used as a parameter'' (invr, st)))"

definition check_map_key_value :: "check_env \<Rightarrow> Reg \<Rightarrow> Reg \<Rightarrow> bool \<Rightarrow> checker_t \<Rightarrow> checker_t action" where
  "check_map_key_value C access fd key st =
    bindA (domain_map_type (ce_env C) fd (ck_dom st)) (\<lambda>fd_type.
    bindA (regpackA access) (\<lambda>r.
    bindA ((if key then get_map_key_size else get_map_value_size) (ce_env C) fd (ck_dom st)) (\<lambda>sz.
      case singleton sz of
        None \<Rightarrow> fail_check C (if key then ''Map key size is not singleton'' else ''Map value size is not singleton'') st
      | Some n \<Rightarrow>
          bindA (resA (num_narrow int32_t n)) (\<lambda>width.
            check_over_types access (check_key_value_type C fd key fd_type r width) st))))"

section \<open>Checking an assertion\<close>

text \<open>
  The check of a function in a register checks the assertions of the call it stands for. No assertion of a
  call is about a function in a register, so two levels are enough.
\<close>

fun visit :: "nat \<Rightarrow> verifier_env \<Rightarrow> check_mode \<Rightarrow> Assertion \<Rightarrow> checker_t \<Rightarrow> checker_t action" where
  "visit n E mode a st =
    (let C = \<lparr>ce_env = E, ce_mode = mode, ce_assertion = a\<rparr> in
     case a of
       Comparable r1 r2 _ \<Rightarrow> check_comparable C r1 r2 st
     | Addable ptr num \<Rightarrow> check_implied_number C type_is_pointer ptr num ''Only numbers can be added to pointers'' st
     | ValidDivisor r is_signed \<Rightarrow> check_divisor C r is_signed st
     | ValidAccess s \<Rightarrow> check_valid_access C s st
     | ValidStore mem val \<Rightarrow> check_implied_number C type_is_not_stack mem val ''Only numbers can be stored to externally-visible regions'' st
     | ValidSize r can_be_zero \<Rightarrow> check_size C r can_be_zero st
     | ValidMapKeyValue access fd key \<Rightarrow> check_map_key_value C access fd key st
     | ValidCall func pfx \<Rightarrow> check_call C func pfx st
     | TypeConstraint r g \<Rightarrow> check_type C r g st
     | ZeroCtxOffset r \<Rightarrow> check_ctx_offset C r st
     | BoundedLoopCount name \<Rightarrow> check_loop_count C name st
     | FuncConstraint r \<Rightarrow>
         bindA (regpackA r) (\<lambda>p.
         bindA (evalA (lin_var (rp_svalue p)) (ck_inv st)) (\<lambda>i.
           case singleton i of
             None \<Rightarrow> fail_check C ''callx helper function id is not a valid singleton'' st
           | Some func \<Rightarrow>
               if \<not> fits int32_t func then fail_check C ''callx helper function id is not a valid singleton'' st
               else if \<not> is_helper_usable (info_platform (env_info E)) (info_type (env_info E)) (word_of_int func) then
                 fail_check C (''invalid helper function id '' @ int_to_string func) st
               else
                 bindA (resA (make_call E (word_of_int func))) (\<lambda>call.
                 bindA (resA (get_assertions (env_narrow E) (Call call) (env_info E) None)) (\<lambda>as.
                   case n of
                     0 \<Rightarrow> (\<lambda>_. None)
                   | Suc n \<Rightarrow> foldA (\<lambda>st a. visit n E mode a st) st as)))))"

declare visit.simps [simp del]

definition ebpf_domain_assume :: "verifier_env \<Rightarrow> Assertion \<Rightarrow> ebpf_domain_t \<Rightarrow> ebpf_domain_t action" where
  "ebpf_domain_assume E a d =
    (if ed_is_bottom d then retA d
     else bindA (visit 1 E Assume_mode a \<lparr>ck_dom = d, ck_warnings = []\<rparr>) (\<lambda>st. retA (ck_dom st)))"

definition ebpf_domain_check :: "verifier_env \<Rightarrow> Assertion \<Rightarrow> ebpf_domain_t \<Rightarrow> string list action" where
  "ebpf_domain_check E a d =
    (if ed_is_bottom d then retA []
     else bindA (visit 1 E Check_mode a \<lparr>ck_dom = d, ck_warnings = []\<rparr>) (\<lambda>st. retA (ck_warnings st)))"

end
