(* ===== verification/Crab_Arith.thy ===== *)
theory Crab_Arith
  imports Crab_Assume Crab_Ebpf_Checker
begin

text \<open>
  The arithmetic of the transfer functions (\<^verbatim>\<open>crab/ebpf_transformer.cpp\<close>): forgetting and saving registers,
  operations on the signed and the unsigned value of a register with the wrap-around of their width, shifts,
  sign extension and byte swaps.
\<close>

definition num_action :: "(num_domain \<Rightarrow> num_domain action) \<Rightarrow> ebpf_domain_t \<Rightarrow> ebpf_domain_t action" where
  "num_action f d = bindA (f (ed_inv d)) (\<lambda>invr. retA (d\<lparr>ed_inv := invr\<rparr>))"

definition havoc_vars :: "variable_t list \<Rightarrow> num_domain \<Rightarrow> num_domain action" where
  "havoc_vars vs invr = foldA (\<lambda>invr v. runA (nd_forget v invr)) invr vs"

definition assign_varA :: "variable_t \<Rightarrow> variable_t \<Rightarrow> num_domain \<Rightarrow> num_domain action" where
  "assign_varA x y invr = readA (\<lambda>ns. nd_assign_var ns x y invr)"

definition assign_intA :: "variable_t \<Rightarrow> int \<Rightarrow> num_domain \<Rightarrow> num_domain action" where
  "assign_intA x n invr = readA (\<lambda>ns. nd_assign_int ns x n invr)"

definition assign_optionalA :: "variable_t \<Rightarrow> linear_expression_t option \<Rightarrow> num_domain \<Rightarrow> num_domain action" where
  "assign_optionalA x e invr = readA (\<lambda>ns. nd_assign_optional ns x e invr)"

definition setA :: "variable_t \<Rightarrow> interval_t \<Rightarrow> num_domain \<Rightarrow> num_domain action" where
  "setA x i invr = runA (nd_set x i invr)"

section \<open>Registers\<close>

definition offset_vars :: "reg_pack_t \<Rightarrow> variable_t list" where
  "offset_vars r = [rp_ctx_offset r, rp_map_fd r, rp_packet_offset r, rp_shared_offset r, rp_shared_region_size r,
     rp_stack_offset r, rp_stack_numeric_size r]"

definition havoc_offsets :: "Reg \<Rightarrow> num_domain \<Rightarrow> num_domain action" where
  "havoc_offsets reg invr = bindA (regpackA reg) (\<lambda>r. havoc_vars (offset_vars r) invr)"

definition havoc_register :: "Reg \<Rightarrow> num_domain \<Rightarrow> num_domain action" where
  "havoc_register reg invr =
    bindA (regpackA reg) (\<lambda>r. bindA (havoc_offsets reg invr) (havoc_vars [rp_svalue r, rp_uvalue r]))"

definition scratch_caller_saved_registers :: "num_domain \<Rightarrow> num_domain action" where
  "scratch_caller_saved_registers invr =
    foldA (\<lambda>invr r. bindA (havoc_register r invr) (havoc_type r)) invr [Reg 1, Reg 2, Reg 3, Reg 4, Reg 5]"

definition callee_saved :: "(int \<times> data_kind_t) list" where
  "callee_saved = concat (map (\<lambda>r. map (Pair r) all_kinds) [6, 7, 8, 9])"

definition save_callee_saved_registers :: "string \<Rightarrow> num_domain \<Rightarrow> num_domain action" where
  "save_callee_saved_registers pfx invr =
    foldA (\<lambda>invr (r, kind).
      bindA (nameA (var_reg kind r)) (\<lambda>src_var.
      bindA (indexA src_var invr) (\<lambda>i.
        if is_top i then retA invr
        else bindA (nameA (stack_frame_var kind r pfx)) (\<lambda>v. assign_varA v src_var invr)))) invr callee_saved"

definition restore_callee_saved_registers :: "string \<Rightarrow> num_domain \<Rightarrow> num_domain action" where
  "restore_callee_saved_registers pfx invr =
    foldA (\<lambda>invr (r, kind).
      bindA (nameA (stack_frame_var kind r pfx)) (\<lambda>src_var.
      bindA (indexA src_var invr) (\<lambda>i.
      bindA (nameA (var_reg kind r)) (\<lambda>v.
      bindA (if is_top i then havoc_vars [v] invr else assign_varA v src_var invr) (havoc_vars [src_var]))))) invr callee_saved"

definition havoc_subprogram_stack :: "verifier_env \<Rightarrow> ebpf_domain_t \<Rightarrow> ebpf_domain_t action" where
  "havoc_subprogram_stack E d =
    bindA (nameA (reg_pack (uint R10_STACK_POINTER))) (\<lambda>r10.
    bindA (evalA (lin_var (rp_stack_offset r10)) (ed_inv d)) (\<lambda>intv.
      case singleton intv of
        None \<Rightarrow> retA d
      | Some n \<Rightarrow>
          bindA (resA (cast_to int64_t n)) (\<lambda>n.
            foldA (\<lambda>d kind.
              bindA (array_havoc E kind (lin_const (n - EBPF_SUBPROGRAM_STACK_SIZE)) (lin_const EBPF_SUBPROGRAM_STACK_SIZE) (ed_inv d) (ed_stack d))
                (\<lambda>(invr, a). retA \<lparr>ed_inv = invr, ed_stack = a\<rparr>)) d all_kinds)))"

definition forget_packet_pointers :: "verifier_env \<Rightarrow> ebpf_domain_t \<Rightarrow> ebpf_domain_t action" where
  "forget_packet_pointers E d =
    bindA (readA (\<lambda>ns. Some (Inr (get_type_variables ns)))) (\<lambda>vs.
    bindA (foldA (\<lambda>d v.
        bindA (has_type (ed_inv d) (lin_var v) T_PACKET) (\<lambda>b.
          if b then foldA (\<lambda>d kind. bindA (kind_varA kind v) (\<lambda>x. num_action (havoc_vars [x]) d)) d [types, packet_offsets, svalues, uvalues]
          else retA d)) d vs)
      (initialize_packet E))"

section \<open>Wrap-around\<close>

definition overflow_bounds :: "variable_t \<Rightarrow> number_t \<Rightarrow> int \<Rightarrow> bool \<Rightarrow> num_domain \<Rightarrow> num_domain action" where
  "overflow_bounds lhs span finite_width issigned invr =
    bindA (indexA lhs invr) (\<lambda>i.
    bindA (resA (ext_sub (ivl_ub i) (ivl_lb i))) (\<lambda>s.
      if ext_ge s (finite_ext span) \<or> is_bottom i then havoc_vars [lhs] invr
      else
        bindA (resA (pair_number i)) (\<lambda>(lb_value, ub_value).
        bindA (resA (truncate_to_uint finite_width lb_value)) (\<lambda>lb.
        bindA (resA (truncate_to_uint finite_width ub_value)) (\<lambda>ub.
          let lb = (if issigned then truncate_to int64_t lb else lb); ub = (if issigned then truncate_to int64_t ub else ub) in
          if lb > ub then havoc_vars [lhs] invr
          else
            let new_interval = interval (finite_ext lb) (finite_ext ub) in
            if \<not> ivl_eq new_interval i then setA lhs new_interval invr else retA invr)))))"

definition overflow_span :: "int \<Rightarrow> number_t res" where
  "overflow_span finite_width =
    (if finite_width = 64 then Inr (type_max uint64_t) else if finite_width = 32 then Inr (type_max uint32_t) else Inl StdException)"

definition overflow_signed :: "variable_t \<Rightarrow> int \<Rightarrow> num_domain \<Rightarrow> num_domain action" where
  "overflow_signed lhs w invr = bindA (resA (overflow_span w)) (\<lambda>span. overflow_bounds lhs span w True invr)"

definition overflow_unsigned :: "variable_t \<Rightarrow> int \<Rightarrow> num_domain \<Rightarrow> num_domain action" where
  "overflow_unsigned lhs w invr = bindA (resA (overflow_span w)) (\<lambda>span. overflow_bounds lhs span w False invr)"

definition overflow_both :: "variable_t \<Rightarrow> variable_t \<Rightarrow> int \<Rightarrow> num_domain \<Rightarrow> num_domain action" where
  "overflow_both xs xu w invr = bindA (overflow_signed xs w invr) (overflow_unsigned xu w)"

section \<open>Operations on both values of a register\<close>

datatype operand_t = OpVar variable_t | OpNum number_t

definition applyA :: "binop_t \<Rightarrow> variable_t \<Rightarrow> variable_t \<Rightarrow> operand_t \<Rightarrow> int \<Rightarrow> num_domain \<Rightarrow> num_domain action" where
  "applyA op x y z w invr =
    readA (\<lambda>ns. case z of OpVar z \<Rightarrow> nd_apply_var ns op x y z w invr | OpNum k \<Rightarrow> nd_apply_num ns op x y k w invr)"

definition apply_signed ::
  "binop_t \<Rightarrow> variable_t \<Rightarrow> variable_t \<Rightarrow> variable_t \<Rightarrow> operand_t \<Rightarrow> int \<Rightarrow> num_domain \<Rightarrow> num_domain action" where
  "apply_signed op xs xu y z w invr =
    bindA (applyA op xs y z w invr) (\<lambda>invr.
      if w \<noteq> 0 then bindA (assign_varA xu xs invr) (overflow_both xs xu w) else retA invr)"

definition apply_unsigned ::
  "binop_t \<Rightarrow> variable_t \<Rightarrow> variable_t \<Rightarrow> variable_t \<Rightarrow> operand_t \<Rightarrow> int \<Rightarrow> num_domain \<Rightarrow> num_domain action" where
  "apply_unsigned op xs xu y z w invr =
    bindA (applyA op xu y z w invr) (\<lambda>invr.
      if w \<noteq> 0 then bindA (assign_varA xs xu invr) (overflow_both xs xu w) else retA invr)"

definition add_to :: "variable_t \<Rightarrow> operand_t \<Rightarrow> num_domain \<Rightarrow> num_domain action" where
  "add_to lhs op2 = apply_signed (Arith ADD) lhs lhs lhs op2 0"

definition sub_from :: "variable_t \<Rightarrow> operand_t \<Rightarrow> num_domain \<Rightarrow> num_domain action" where
  "sub_from lhs op2 = apply_signed (Arith SUB) lhs lhs lhs op2 0"

definition precise_value :: "variable_t \<Rightarrow> variable_t \<Rightarrow> num_domain \<Rightarrow> variable_t action" where
  "precise_value lhss lhsu invr = bindA (evalA (lin_var lhss) invr) (\<lambda>i. retA (if \<not> is_top i then lhss else lhsu))"

definition add_overflow :: "variable_t \<Rightarrow> variable_t \<Rightarrow> operand_t \<Rightarrow> int \<Rightarrow> num_domain \<Rightarrow> num_domain action" where
  "add_overflow lhss lhsu op2 w invr = bindA (precise_value lhss lhsu invr) (\<lambda>y. apply_signed (Arith ADD) lhss lhsu y op2 w invr)"

definition sub_overflow :: "variable_t \<Rightarrow> variable_t \<Rightarrow> operand_t \<Rightarrow> int \<Rightarrow> num_domain \<Rightarrow> num_domain action" where
  "sub_overflow lhss lhsu op2 w invr = bindA (precise_value lhss lhsu invr) (\<lambda>y. apply_signed (Arith SUB) lhss lhsu y op2 w invr)"

definition neg_value :: "variable_t \<Rightarrow> variable_t \<Rightarrow> int \<Rightarrow> num_domain \<Rightarrow> num_domain action" where
  "neg_value lhss lhsu w = apply_signed (Arith MUL) lhss lhsu lhss (OpNum (- 1)) w"

definition mul_value :: "variable_t \<Rightarrow> variable_t \<Rightarrow> operand_t \<Rightarrow> int \<Rightarrow> num_domain \<Rightarrow> num_domain action" where
  "mul_value lhss lhsu op2 w = apply_signed (Arith MUL) lhss lhsu lhss op2 w"

definition sdiv_value :: "variable_t \<Rightarrow> variable_t \<Rightarrow> operand_t \<Rightarrow> int \<Rightarrow> num_domain \<Rightarrow> num_domain action" where
  "sdiv_value lhss lhsu op2 w = apply_signed (Arith SDIV) lhss lhsu lhss op2 w"

definition udiv_value :: "variable_t \<Rightarrow> variable_t \<Rightarrow> operand_t \<Rightarrow> int \<Rightarrow> num_domain \<Rightarrow> num_domain action" where
  "udiv_value lhss lhsu op2 w = apply_unsigned (Arith UDIV) lhss lhsu lhsu op2 w"

definition srem_value :: "variable_t \<Rightarrow> variable_t \<Rightarrow> operand_t \<Rightarrow> int \<Rightarrow> num_domain \<Rightarrow> num_domain action" where
  "srem_value lhss lhsu op2 w = apply_signed (Arith SREM) lhss lhsu lhss op2 w"

definition urem_value :: "variable_t \<Rightarrow> variable_t \<Rightarrow> operand_t \<Rightarrow> int \<Rightarrow> num_domain \<Rightarrow> num_domain action" where
  "urem_value lhss lhsu op2 w = apply_unsigned (Arith UREM) lhss lhsu lhsu op2 w"

text \<open>With an immediate the bitwise operations use width 64, so that the signed value is set as well.\<close>

definition bitwise_width :: "operand_t \<Rightarrow> int \<Rightarrow> int" where
  "bitwise_width op2 w = (case op2 of OpVar _ \<Rightarrow> w | OpNum _ \<Rightarrow> 64)"

definition bitwise_and :: "variable_t \<Rightarrow> variable_t \<Rightarrow> operand_t \<Rightarrow> int \<Rightarrow> num_domain \<Rightarrow> num_domain action" where
  "bitwise_and lhss lhsu op2 w = apply_unsigned (Bitwise Bitwise_AND) lhss lhsu lhsu op2 (bitwise_width op2 w)"

definition bitwise_or :: "variable_t \<Rightarrow> variable_t \<Rightarrow> operand_t \<Rightarrow> int \<Rightarrow> num_domain \<Rightarrow> num_domain action" where
  "bitwise_or lhss lhsu op2 w = apply_unsigned (Bitwise Bitwise_OR) lhss lhsu lhsu op2 (bitwise_width op2 w)"

definition bitwise_xor :: "variable_t \<Rightarrow> variable_t \<Rightarrow> operand_t \<Rightarrow> int \<Rightarrow> num_domain \<Rightarrow> num_domain action" where
  "bitwise_xor lhss lhsu op2 w = apply_unsigned (Bitwise Bitwise_XOR) lhss lhsu lhsu op2 (bitwise_width op2 w)"

definition shl_overflow :: "variable_t \<Rightarrow> variable_t \<Rightarrow> operand_t \<Rightarrow> num_domain \<Rightarrow> num_domain action" where
  "shl_overflow lhss lhsu op2 = apply_unsigned (Bitwise SHL) lhss lhsu lhsu op2 64"

section \<open>Addition of an immediate to a register\<close>

definition recompute_stack_numeric_size :: "array_domain_t \<Rightarrow> variable_t \<Rightarrow> num_domain \<Rightarrow> num_domain action" where
  "recompute_stack_numeric_size a type_variable invr =
    bindA (kind_varA stack_numeric_sizes type_variable) (\<lambda>size_variable.
    bindA (evalA (lin_var size_variable) invr) (\<lambda>i.
      if \<not> is_top i then retA invr
      else
        bindA (has_type invr (lin_var type_variable) T_STACK) (\<lambda>b.
          if \<not> b then retA invr
          else
            bindA (kind_varA stack_offsets type_variable) (\<lambda>offset_variable.
            bindA (min_all_num_size a invr offset_variable) (\<lambda>numeric_size.
              if numeric_size > 0 then assign_intA size_variable numeric_size invr else retA invr)))))"

definition add_imm :: "Reg \<Rightarrow> int \<Rightarrow> int \<Rightarrow> ebpf_domain_t \<Rightarrow> ebpf_domain_t action" where
  "add_imm reg k w d =
    bindA (regpackA reg) (\<lambda>r.
    bindA (get_type_offset_variable_in reg (ed_inv d)) (\<lambda>offset_variable.
      num_action (\<lambda>invr.
        bindA (add_overflow (rp_svalue r) (rp_uvalue r) (OpNum k) w invr) (\<lambda>invr.
          case offset_variable of
            None \<Rightarrow> retA invr
          | Some v \<Rightarrow>
              bindA (add_to v (OpNum k) invr) (\<lambda>invr.
              bindA (if k > 0 then sub_from (rp_stack_numeric_size r) (OpNum k) invr
                     else if k < 0 then havoc_vars [rp_stack_numeric_size r] invr
                     else retA invr)
                (recompute_stack_numeric_size (ed_stack d) (rp_type r))))) d))"

section \<open>Shifts\<close>

text \<open>A shift of a 64-bit number by 64 or more is undefined behaviour, an exception here.\<close>

definition shr_uint64 :: "int \<Rightarrow> int \<Rightarrow> int res" where
  "shr_uint64 n k = (if 0 \<le> k \<and> k < 64 then Inr (drop_bit (nat k) n) else Inl AssertionFailure)"

definition uint_max :: "int \<Rightarrow> int" where
  "uint_max w = (if w = 64 then type_max uint64_t else type_max uint32_t)"

definition shl_uint64 :: "int \<Rightarrow> int \<Rightarrow> int" where
  "shl_uint64 n k = push_bit (nat k) n mod 2 ^ 64"

text \<open>The bounds of a left shift: all results when the bits that are shifted out differ.\<close>

definition shl_bounds :: "int \<Rightarrow> int \<Rightarrow> int \<Rightarrow> int \<Rightarrow> (int \<times> int) res" where
  "shl_bounds w k lb ub =
    bindE (shr_uint64 lb (w - k)) (\<lambda>l.
    bindE (shr_uint64 ub (w - k)) (\<lambda>u.
      if l \<noteq> u then Inr (0, shl_uint64 (uint_max w) k AND uint_max w)
      else Inr (shl_uint64 lb k AND uint_max w, shl_uint64 ub k AND uint_max w)))"

definition set_unsigned_result :: "reg_pack_t \<Rightarrow> interval_t \<Rightarrow> int \<Rightarrow> num_domain \<Rightarrow> num_domain action" where
  "set_unsigned_result r i w invr =
    bindA (setA (rp_uvalue r) i invr) (\<lambda>invr.
    bindA (assign_varA (rp_svalue r) (rp_uvalue r) invr) (overflow_both (rp_svalue r) (rp_uvalue r) w))"

definition set_signed_result :: "reg_pack_t \<Rightarrow> interval_t \<Rightarrow> int \<Rightarrow> num_domain \<Rightarrow> num_domain action" where
  "set_signed_result r i w invr =
    bindA (setA (rp_svalue r) i invr) (\<lambda>invr.
    bindA (assign_varA (rp_uvalue r) (rp_svalue r) invr) (overflow_both (rp_svalue r) (rp_uvalue r) w))"

definition havoc_value :: "Reg \<Rightarrow> reg_pack_t \<Rightarrow> num_domain \<Rightarrow> num_domain action" where
  "havoc_value reg r invr = bindA (havoc_vars [rp_svalue r, rp_uvalue r] invr) (havoc_offsets reg)"

definition shl_imm :: "Reg \<Rightarrow> int \<Rightarrow> int \<Rightarrow> num_domain \<Rightarrow> num_domain action" where
  "shl_imm reg k w invr =
    bindA (regpackA reg) (\<lambda>r.
      let k = k AND (w - 1);
          otherwise = bindA (shl_overflow (rp_svalue r) (rp_uvalue r) (OpNum k) invr) (havoc_offsets reg) in
      bindA (entailA (type_is_number r) invr) (\<lambda>number.
        if \<not> number then otherwise
        else
          bindA (evalA (lin_var (rp_uvalue r)) invr) (\<lambda>i.
          bindA (resA (finite_size i)) (\<lambda>s.
            if s = None then otherwise
            else
              bindA (resA (pair_number i)) (\<lambda>(lb, ub).
              bindA (resA (cast_to uint64_t lb)) (\<lambda>lb.
              bindA (resA (cast_to uint64_t ub)) (\<lambda>ub.
              bindA (resA (shl_bounds w k lb ub)) (\<lambda>(lb, ub).
                set_unsigned_result r (interval (finite_ext lb) (finite_ext ub)) w invr))))))))"

definition lshr_bounds :: "int \<Rightarrow> int \<Rightarrow> int \<Rightarrow> int \<Rightarrow> (int \<times> int) res" where
  "lshr_bounds w k lb ub =
    (if w = 64 then
       bindE (cast_to uint64_t lb) (\<lambda>lb. bindE (cast_to uint64_t ub) (\<lambda>ub. Inr (drop_bit (nat k) lb, drop_bit (nat k) ub)))
     else
       bindE (cast_to_sint w lb) (\<lambda>lb_w.
       bindE (cast_to_sint w ub) (\<lambda>ub_w.
       bindE (cast_to uint32_t lb_w) (\<lambda>lb.
       bindE (cast_to uint32_t ub_w) (\<lambda>ub.
         let l = drop_bit (nat k) lb; u = drop_bit (nat k) ub in
         if l \<le> u then Inr (l, u) else Inl AssertionFailure)))))"

definition lshr_imm :: "Reg \<Rightarrow> int \<Rightarrow> int \<Rightarrow> num_domain \<Rightarrow> num_domain action" where
  "lshr_imm reg k w invr =
    bindA (regpackA reg) (\<lambda>r.
      let k = k AND (w - 1) in
      bindA (entailA (type_is_number r) invr) (\<lambda>number.
        if \<not> number then havoc_value reg r invr
        else
          bindA (evalA (lin_var (rp_uvalue r)) invr) (\<lambda>i.
          bindA (resA (finite_size i)) (\<lambda>s.
          bindA (if s = None then retA (0, drop_bit (nat k) (type_max uint64_t))
                 else bindA (resA (pair_number i)) (\<lambda>(lb, ub). resA (lshr_bounds w k lb ub))) (\<lambda>(lb, ub).
            set_unsigned_result r (interval (finite_ext lb) (finite_ext ub)) w invr)))))"

definition ashr_bounds :: "int \<Rightarrow> int \<Rightarrow> interval_t \<Rightarrow> (int \<times> int) res" where
  "ashr_bounds w k left_interval =
    (let whole = (drop_bit (nat k) (type_min int64_t), drop_bit (nat k) (type_max int64_t)) in
     bindE (finite_size left_interval) (\<lambda>s.
       if s = None then Inr whole
       else
         bindE (pair_number left_interval) (\<lambda>(lb, ub).
           if w = 64 then
             bindE (cast_to int64_t lb) (\<lambda>lb. bindE (cast_to int64_t ub) (\<lambda>ub. Inr (drop_bit (nat k) lb, drop_bit (nat k) ub)))
           else
             bindE (cast_to_sint w lb) (\<lambda>l.
             bindE (num_shr l k) (\<lambda>lb_w.
             bindE (cast_to_sint w ub) (\<lambda>u.
             bindE (num_shr u k) (\<lambda>ub_w.
             bindE (cast_to uint32_t lb_w) (\<lambda>lb.
             bindE (cast_to uint32_t ub_w) (\<lambda>ub. Inr (if lb \<le> ub then (lb, ub) else whole))))))))))"

definition ashr_value :: "Reg \<Rightarrow> linear_expression_t \<Rightarrow> int \<Rightarrow> num_domain \<Rightarrow> num_domain action" where
  "ashr_value reg right w invr =
    bindA (regpackA reg) (\<lambda>r.
    bindA (entailA (type_is_number r) invr) (\<lambda>number.
      if \<not> number then havoc_value reg r invr
      else
        bindA (readA (\<lambda>ns. lift_res (get_signed_intervals (\<lambda>e. nd_eval_interval ns e invr) (w = 64)
          \<lparr>left_svalue = rp_svalue r, left_uvalue = rp_uvalue r, right_svalue = right, right_uvalue = right\<rparr>))) (\<lambda>(left_interval, right_interval, _, _).
          case singleton right_interval of
            None \<Rightarrow> havoc_value reg r invr
          | Some sn \<Rightarrow>
              bindA (resA (cast_to int64_t sn)) (\<lambda>n.
              bindA (resA (ashr_bounds w (n AND (w - 1)) left_interval)) (\<lambda>(lb, ub).
                set_signed_result r (interval (finite_ext lb) (finite_ext ub)) w invr)))))"

section \<open>Sign extension\<close>

definition movsx_bits :: "bin_op_t \<Rightarrow> int res" where
  "movsx_bits op = (case op of Bin_MOVSX8 \<Rightarrow> Inr 8 | Bin_MOVSX16 \<Rightarrow> Inr 16 | Bin_MOVSX32 \<Rightarrow> Inr 32 | _ \<Rightarrow> Inl StdException)"

definition sign_extend_bound :: "int \<Rightarrow> extended_number \<Rightarrow> int res" where
  "sign_extend_bound bits b =
    bindE (opt_to_res StdException (ext_number b)) (\<lambda>n.
    bindE (cast_to int64_t n) (\<lambda>n.
      let span = 2 ^ nat bits; mask = 2 ^ nat (bits - 1) in Inr (((n AND (span - 1)) XOR mask) - mask)))"

text \<open>The interval of the results; each bound is extended on its own.\<close>

definition sign_extend_interval :: "int \<Rightarrow> interval_t \<Rightarrow> interval_t res" where
  "sign_extend_interval bits i =
    bindE (ext_sub (ivl_ub i) (ivl_lb i)) (\<lambda>s.
    bindE (if ext_ge s (finite_ext (2 ^ nat bits)) then signed_int bits else Inr i) (\<lambda>i.
    bindE (sign_extend_bound bits (ivl_lb i)) (\<lambda>lb.
    bindE (sign_extend_bound bits (ivl_ub i)) (\<lambda>ub. Inr (interval (finite_ext lb) (finite_ext ub))))))"

text \<open>
  A byte whose value is anything from 0 to 255 has an empty interval after sign extension: the width of the
  interval is one less than the number of bytes, and its bounds become 0 and \<open>- 1\<close>.
\<close>

lemma sign_extend_of_byte_is_empty: "sign_extend_interval 8 (interval (finite_ext 0) (finite_ext 255)) = Inr bottom"
  by code_simp

definition sign_extend_to :: "Reg \<Rightarrow> linear_expression_t \<Rightarrow> int \<Rightarrow> bin_op_t \<Rightarrow> num_domain \<Rightarrow> num_domain action" where
  "sign_extend_to reg right w op invr =
    bindA (resA (movsx_bits op)) (\<lambda>bits.
    bindA (regpackA reg) (\<lambda>r.
    bindA (evalA right invr) (\<lambda>i.
    bindA (assign_type reg (Some (lin_const T_NUM)) invr) (\<lambda>invr.
    bindA (havoc_offsets reg invr) (\<lambda>invr.
    bindA (resA (sign_extend_interval bits i)) (\<lambda>i.
      if w \<noteq> 0 then set_signed_result r i w invr else setA (rp_svalue r) i invr))))))"

section \<open>Byte swaps\<close>

definition byte_swap :: "nat \<Rightarrow> int \<Rightarrow> int" where
  "byte_swap n x = value_of_bytes (map (value_byte True n x) [0..<n])"

text \<open>The functions on the signed and the unsigned value, or nothing when the order is already right.\<close>

definition swap_functions :: "bool \<Rightarrow> un_op_t \<Rightarrow> ((int \<Rightarrow> int) \<times> (int \<Rightarrow> int)) option" where
  "swap_functions be op =
    (let swap = (\<lambda>n. (byte_swap n, byte_swap n)); truncate = (\<lambda>w. (take_bit w, take_bit w));
         swap64 = (\<lambda>x. static_cast int64_t (byte_swap 8 x), byte_swap 8) in
     case op of
       Un_BE16 \<Rightarrow> Some (if \<not> be then swap 2 else truncate 16)
     | Un_BE32 \<Rightarrow> Some (if \<not> be then swap 4 else truncate 32)
     | Un_BE64 \<Rightarrow> if \<not> be then Some swap64 else None
     | Un_LE16 \<Rightarrow> Some (if be then swap 2 else truncate 16)
     | Un_LE32 \<Rightarrow> Some (if be then swap 4 else truncate 32)
     | Un_LE64 \<Rightarrow> if be then Some swap64 else None
     | Un_SWAP16 \<Rightarrow> Some (swap 2)
     | Un_SWAP32 \<Rightarrow> Some (swap 4)
     | Un_SWAP64 \<Rightarrow> Some swap64
     | Un_NEG \<Rightarrow> None)"

definition swap_endianness :: "Reg \<Rightarrow> variable_t \<Rightarrow> (int \<Rightarrow> int) \<Rightarrow> num_domain \<Rightarrow> num_domain action" where
  "swap_endianness reg v f invr =
    bindA (regpackA reg) (\<lambda>r.
    bindA (entailA (type_is_number r) invr) (\<lambda>number.
      let forget = bindA (havoc_vars [v] invr) (havoc_offsets reg) in
      if \<not> number then forget
      else
        bindA (evalA (lin_var v) invr) (\<lambda>i.
          case singleton i of
            None \<Rightarrow> forget
          | Some n \<Rightarrow>
              if \<not> fits_cast_to int64_t n then forget
              else bindA (resA (cast_to int64_t n)) (\<lambda>n. setA v (interval_num (f n)) invr))))"

definition transform_un :: "verifier_env \<Rightarrow> un_t \<Rightarrow> num_domain \<Rightarrow> num_domain action" where
  "transform_un E stmt invr =
    bindA (regpackA (un_dst stmt)) (\<lambda>r.
      if un_op stmt = Un_NEG then
        bindA (neg_value (rp_svalue r) (rp_uvalue r) (if un_is64 stmt then 64 else 32) invr) (havoc_offsets (un_dst stmt))
      else
        case swap_functions (big_endian (env_options E)) (un_op stmt) of
          None \<Rightarrow> retA invr
        | Some (f, g) \<Rightarrow>
            bindA (swap_endianness (un_dst stmt) (rp_svalue r) f invr) (swap_endianness (un_dst stmt) (rp_uvalue r) g))"

end
