(* ===== verification/Crab_Transfer_Bin.thy ===== *)
theory Crab_Transfer_Bin
  imports Crab_Arith
begin

text \<open>
  The transfer functions of assumptions and of binary operations (\<^verbatim>\<open>crab/ebpf_transformer.cpp\<close>). An operation
  whose effect depends on the type of an operand is a join over the types that the operand may have.
\<close>

section \<open>Joins over types\<close>

text \<open>
  A transition of a type that changes its copy of the invariant only, and the assignment of the join to the
  invariant of the state.
\<close>

definition over_types :: "Reg \<Rightarrow> (num_domain \<Rightarrow> type_encoding_t \<Rightarrow> num_domain action) \<Rightarrow> num_domain \<Rightarrow> num_domain action" where
  "over_types reg f invr =
    bindA (join_over_types id reg (\<lambda>(x, st) type. bindA (f x type) (\<lambda>x. retA (x, st))) invr) (\<lambda>(x, _). retA x)"

section \<open>Assumptions\<close>

definition assume_all :: "linear_constraint_t list \<Rightarrow> num_domain \<Rightarrow> num_domain action" where
  "assume_all cs invr = foldA (\<lambda>invr c. addA c invr) invr cs"

definition readerA :: "(reader \<Rightarrow> 'a res) \<Rightarrow> num_domain \<Rightarrow> 'a action" where
  "readerA f invr = readA (\<lambda>ns. lift_res (f (\<lambda>e. nd_eval_interval ns e invr)))"

text \<open>The condition on two registers of the same type: a comparison of numbers, or of the offsets of pointers.\<close>

definition assume_same_type :: "condition_t \<Rightarrow> Reg \<Rightarrow> num_domain \<Rightarrow> num_domain action" where
  "assume_same_type cond src_reg m_inv =
    bindA (regpackA (cond_left cond)) (\<lambda>l.
    bindA (regpackA src_reg) (\<lambda>r.
      over_types (cond_left cond) (\<lambda>invr type.
        if type = T_NUM then
          bindA (readerA (\<lambda>ev. assume_cst_reg ev (cond_op cond) (cond_is64 cond) (rp_svalue l) (rp_uvalue l) (rp_svalue r) (rp_uvalue r)) m_inv)
            (\<lambda>cs. assume_all cs invr)
        else
          bindA (get_type_offset_variable (cond_left cond) type) (\<lambda>dst_offset.
            case dst_offset of
              None \<Rightarrow> retA invr
            | Some d \<Rightarrow>
                bindA (get_type_offset_variable src_reg type) (\<lambda>src_offset.
                  case src_offset of None \<Rightarrow> retA invr | Some s \<Rightarrow> addA (assume_cst_offsets_reg (cond_op cond) d s) invr))) m_inv))"

definition transform_assume :: "verifier_env \<Rightarrow> condition_t \<Rightarrow> num_domain \<Rightarrow> num_domain action" where
  "transform_assume E cond invr =
    bindA (regpackA (cond_left cond)) (\<lambda>l.
      case cond_right cond of
        RegV src_reg \<Rightarrow>
          bindA (same_type invr (cond_left cond) src_reg) (\<lambda>same.
            if same then assume_same_type cond src_reg invr
            else if assume_assertions (env_options E) \<and> \<not> nd_is_bottom invr then throwA AssertionFailure
            else retA (nd_set_to_top invr))
      | Imm v \<Rightarrow>
          bindA (readerA (\<lambda>ev. assume_cst_imm ev (cond_op cond) (cond_is64 cond) (rp_svalue l) (rp_uvalue l) (sint v)) invr)
            (\<lambda>cs. assume_all cs invr))"

section \<open>Binary operations with an immediate\<close>

definition low_32_bits :: "reg_pack_t \<Rightarrow> num_domain \<Rightarrow> num_domain action" where
  "low_32_bits r = bitwise_and (rp_svalue r) (rp_uvalue r) (OpNum (type_max uint32_t)) 64"

text \<open>An operation on the numbers of a register that leaves nothing known of its offsets.\<close>

definition then_havoc_offsets :: "Reg \<Rightarrow> (num_domain \<Rightarrow> num_domain action) \<Rightarrow> num_domain \<Rightarrow> num_domain action" where
  "then_havoc_offsets reg f invr = bindA (f invr) (havoc_offsets reg)"

definition bin_imm_value :: "bin_t \<Rightarrow> u64 \<Rightarrow> int" where
  "bin_imm_value b v = (if bin_is64 b then sint v else static_cast int32_t (uint v))"

text \<open>A 32-bit operation first drops the high half of a number, or everything known of a register that may be no number.\<close>

definition narrow_destination :: "bin_t \<Rightarrow> num_domain \<Rightarrow> num_domain action" where
  "narrow_destination b invr =
    (if bin_is64 b then retA invr
     else
       bindA (regpackA (bin_dst b)) (\<lambda>r.
       bindA (low_32_bits r invr) (\<lambda>invr.
       bindA (has_type_reg invr (bin_dst b) T_NUM) (\<lambda>number.
         if number then retA invr
         else
           bindA (havoc_register (bin_dst b) invr) (\<lambda>invr.
           bindA (havoc_offsets (bin_dst b) invr) (havoc_vars [rp_type r]))))))"

definition move_imm :: "Reg \<Rightarrow> reg_pack_t \<Rightarrow> int \<Rightarrow> int \<Rightarrow> num_domain \<Rightarrow> num_domain action" where
  "move_imm reg r k w invr =
    bindA (setA (rp_svalue r) (interval_num k) invr) (\<lambda>invr.
    bindA (setA (rp_uvalue r) (interval_num k) invr) (\<lambda>invr.
    bindA (overflow_unsigned (rp_uvalue r) w invr) (\<lambda>invr.
    bindA (assign_type reg (Some (lin_const T_NUM)) invr) (havoc_offsets reg))))"

definition and_imm :: "verifier_env \<Rightarrow> reg_pack_t \<Rightarrow> int \<Rightarrow> num_domain \<Rightarrow> num_domain action" where
  "and_imm E r k invr =
    bindA (bitwise_and (rp_svalue r) (rp_uvalue r) (OpNum k) 64 invr) (\<lambda>invr.
    bindA (resA (narrowE E int32_range k)) (\<lambda>n.
      if n > 0 then
        assume_all [at_most (rp_svalue r) k, at_most (rp_uvalue r) k, dsl_le (lin_const 0) (lin_var (rp_svalue r)),
          dsl_le (lin_const 0) (lin_var (rp_uvalue r))] invr
      else retA invr))"

text \<open>The result comes with a flag that says whether the function returns at once.\<close>

definition bin_imm :: "verifier_env \<Rightarrow> bin_t \<Rightarrow> reg_pack_t \<Rightarrow> int \<Rightarrow> ebpf_domain_t \<Rightarrow> (ebpf_domain_t \<times> bool) action" where
  "bin_imm E b r k d =
    (let w = (if bin_is64 b then 64 else 32); reg = bin_dst b; s = rp_svalue r; u = rp_uvalue r;
         go = (\<lambda>f. bindA (num_action f d) (\<lambda>d. retA (d, False)));
         add_k = (\<lambda>k. bindA (resA (narrowE E int32_range k)) (\<lambda>n. bindA (add_imm reg n w d) (\<lambda>d. retA (d, False))));
         narrowed = (\<lambda>f. bindA (resA (narrowE E int32_range k)) (\<lambda>n. go (f n))) in
     case bin_op b of
       Bin_MOV \<Rightarrow> go (move_imm reg r k w)
     | Bin_ADD \<Rightarrow> if k = 0 then retA (d, True) else add_k k
     | Bin_SUB \<Rightarrow> if k = 0 then retA (d, True) else add_k (- k)
     | Bin_MUL \<Rightarrow> go (then_havoc_offsets reg (mul_value s u (OpNum k) w))
     | Bin_UDIV \<Rightarrow> go (then_havoc_offsets reg (udiv_value s u (OpNum k) w))
     | Bin_UMOD \<Rightarrow> go (then_havoc_offsets reg (urem_value s u (OpNum k) w))
     | Bin_SDIV \<Rightarrow> go (then_havoc_offsets reg (sdiv_value s u (OpNum k) w))
     | Bin_SMOD \<Rightarrow> go (then_havoc_offsets reg (srem_value s u (OpNum k) w))
     | Bin_OR \<Rightarrow> go (then_havoc_offsets reg (bitwise_or s u (OpNum k) 64))
     | Bin_AND \<Rightarrow> go (then_havoc_offsets reg (and_imm E r k))
     | Bin_XOR \<Rightarrow> go (then_havoc_offsets reg (bitwise_xor s u (OpNum k) 64))
     | Bin_LSH \<Rightarrow> narrowed (\<lambda>n. shl_imm reg n w)
     | Bin_RSH \<Rightarrow> narrowed (\<lambda>n. lshr_imm reg n w)
     | Bin_ARSH \<Rightarrow> narrowed (\<lambda>n. ashr_value reg (lin_const n) w)
     | _ \<Rightarrow> throwA (RuntimeError ''Unsupported operation''))"

section \<open>Binary operations with a register\<close>

definition applyA_plain :: "arith_binop_t \<Rightarrow> variable_t \<Rightarrow> variable_t \<Rightarrow> variable_t \<Rightarrow> num_domain \<Rightarrow> num_domain action" where
  "applyA_plain op x y z = applyA (Arith op) x y (OpVar z) 0"

definition required_offset :: "Reg \<Rightarrow> type_encoding_t \<Rightarrow> variable_t action" where
  "required_offset reg type = bindA (get_type_offset_variable reg type) (\<lambda>v. case v of None \<Rightarrow> throwA StdException | Some v \<Rightarrow> retA v)"

definition intersectA :: "linear_constraint_t \<Rightarrow> num_domain \<Rightarrow> bool action" where
  "intersectA c invr = readA (\<lambda>ns. nd_intersect ns c invr)"

text \<open>The sum for one pair of types; \<open>m_inv\<close> is the state that the operation started from.\<close>

definition add_types ::
  "Reg \<Rightarrow> Reg \<Rightarrow> reg_pack_t \<Rightarrow> reg_pack_t \<Rightarrow> int \<Rightarrow> ebpf_domain_t \<Rightarrow> type_encoding_t \<Rightarrow> type_encoding_t \<Rightarrow> num_domain \<Rightarrow> num_domain action" where
  "add_types dst_reg src_reg r s w d dst_type src_type invr =
    (if dst_type = T_NUM \<and> src_type \<noteq> T_NUM then
       bindA (assign_type dst_reg (Some (lin_const src_type)) invr) (\<lambda>invr.
       bindA (get_type_offset_variable dst_reg src_type) (\<lambda>dst_offset.
       bindA (case dst_offset of
           None \<Rightarrow> retA invr
         | Some v \<Rightarrow> bindA (required_offset src_reg src_type) (\<lambda>src_offset. applyA_plain ADD v (rp_svalue r) src_offset invr)) (\<lambda>invr.
         if src_type = T_SHARED then assign_varA (rp_shared_region_size r) (rp_shared_region_size s) invr else retA invr)))
     else if dst_type \<noteq> T_NUM \<and> src_type = T_NUM then
       bindA (assign_type dst_reg (Some (lin_const dst_type)) invr) (\<lambda>invr.
       bindA (get_type_offset_variable dst_reg dst_type) (\<lambda>dst_offset.
         case dst_offset of
           None \<Rightarrow> retA invr
         | Some v \<Rightarrow>
             bindA (applyA_plain ADD v v (rp_svalue s) invr) (\<lambda>invr.
               if dst_type \<noteq> T_STACK then retA invr
               else
                 bindA (intersectA (dsl_less (lin_var (rp_svalue s)) (lin_const 0)) (ed_inv d)) (\<lambda>b.
                   if b then
                     bindA (havoc_vars [rp_stack_numeric_size r] invr) (recompute_stack_numeric_size (ed_stack d) (rp_type r))
                   else
                     apply_signed (Arith SUB) (rp_stack_numeric_size r) (rp_stack_numeric_size r) (rp_stack_numeric_size r) (OpVar (rp_svalue s)) 0 invr))))
     else if dst_type = T_NUM \<and> src_type = T_NUM then
       apply_signed (Arith ADD) (rp_svalue r) (rp_uvalue r) (rp_svalue r) (OpVar (rp_svalue s)) w invr
     else retA (nd_set_to_bottom invr))"

definition add_reg :: "Reg \<Rightarrow> Reg \<Rightarrow> reg_pack_t \<Rightarrow> reg_pack_t \<Rightarrow> int \<Rightarrow> ebpf_domain_t \<Rightarrow> ebpf_domain_t action" where
  "add_reg dst_reg src_reg r s w d =
    bindA (same_type (ed_inv d) dst_reg src_reg) (\<lambda>same.
      if same then num_action (add_overflow (rp_svalue r) (rp_uvalue r) (OpVar (rp_svalue s)) w) d
      else
        num_action (\<lambda>m_inv.
          bindA (over_types dst_reg (\<lambda>invr dst_type.
              over_types src_reg (\<lambda>invr src_type. add_types dst_reg src_reg r s w d dst_type src_type invr) invr) m_inv)
            (apply_signed (Arith ADD) (rp_svalue r) (rp_uvalue r) (rp_svalue r) (OpVar (rp_svalue s)) w)) d)"

definition sub_same_type :: "Reg \<Rightarrow> Reg \<Rightarrow> reg_pack_t \<Rightarrow> reg_pack_t \<Rightarrow> int \<Rightarrow> type_encoding_t \<Rightarrow> num_domain \<Rightarrow> num_domain action" where
  "sub_same_type dst_reg src_reg r s w type invr =
    (if type = T_NUM then
       bindA (apply_signed (Arith SUB) (rp_svalue r) (rp_uvalue r) (rp_svalue r) (OpVar (rp_svalue s)) w invr) (\<lambda>invr.
       bindA (assign_type dst_reg (Some (lin_const T_NUM)) invr) (havoc_offsets dst_reg))
     else
       bindA (get_type_offset_variable dst_reg type) (\<lambda>dst_offset.
       bindA (case dst_offset of
           None \<Rightarrow> retA invr
         | Some v \<Rightarrow>
             bindA (required_offset src_reg type) (\<lambda>src_offset.
             bindA (apply_signed (Arith SUB) (rp_svalue r) (rp_uvalue r) v (OpVar src_offset) w invr) (havoc_vars [v]))) (\<lambda>invr.
       bindA (havoc_offsets dst_reg invr) (assign_type dst_reg (Some (lin_const T_NUM))))))"

definition sub_numeric_size :: "array_domain_t \<Rightarrow> reg_pack_t \<Rightarrow> reg_pack_t \<Rightarrow> num_domain \<Rightarrow> num_domain action" where
  "sub_numeric_size a r s invr =
    bindA (has_type invr (lin_var (rp_type r)) T_STACK) (\<lambda>b.
      if \<not> b then retA invr
      else
        bindA (intersectA (dsl_greater (lin_var (rp_svalue s)) (lin_const 0)) invr) (\<lambda>b.
          if b then bindA (havoc_vars [rp_stack_numeric_size r] invr) (recompute_stack_numeric_size a (rp_type r))
          else applyA_plain ADD (rp_stack_numeric_size r) (rp_stack_numeric_size r) (rp_svalue s) invr))"

definition sub_reg :: "Reg \<Rightarrow> Reg \<Rightarrow> reg_pack_t \<Rightarrow> reg_pack_t \<Rightarrow> int \<Rightarrow> ebpf_domain_t \<Rightarrow> ebpf_domain_t action" where
  "sub_reg dst_reg src_reg r s w d = num_action (\<lambda>invr.
    bindA (same_type invr dst_reg src_reg) (\<lambda>same.
      if same then over_types dst_reg (\<lambda>invr type. sub_same_type dst_reg src_reg r s w type invr) invr
      else
        bindA (get_type_reg invr src_reg) (\<lambda>type.
          if type \<noteq> T_NUM then bindA (havoc_type dst_reg invr) (havoc_value dst_reg r)
          else
            bindA (sub_overflow (rp_svalue r) (rp_uvalue r) (OpVar (rp_svalue s)) w invr) (\<lambda>invr.
            bindA (get_type_offset_variable_in dst_reg invr) (\<lambda>dst_offset.
              case dst_offset of
                None \<Rightarrow> retA invr
              | Some v \<Rightarrow> bindA (sub_from v (OpVar (rp_svalue s)) invr) (sub_numeric_size (ed_stack d) r s)))))) d"

text \<open>A shift by a register whose value is known is a shift by an immediate.\<close>

definition shift_reg ::
  "bin_t \<Rightarrow> Reg \<Rightarrow> reg_pack_t \<Rightarrow> reg_pack_t \<Rightarrow> (int \<Rightarrow> num_domain \<Rightarrow> num_domain action) \<Rightarrow> (num_domain \<Rightarrow> num_domain action) \<Rightarrow>
   num_domain \<Rightarrow> num_domain action" where
  "shift_reg b src_reg r s by_imm otherwise invr =
    bindA (entailA (type_is_number s) invr) (\<lambda>number.
      if \<not> number then otherwise invr
      else
        bindA (evalA (lin_var (rp_uvalue s)) invr) (\<lambda>i.
          case singleton i of
            None \<Rightarrow> otherwise invr
          | Some sn \<Rightarrow>
              bindA (resA (cast_to uint64_t sn)) (\<lambda>n.
              bindA (if bin_is64 b then retA invr else low_32_bits r invr) (by_imm (n AND (if bin_is64 b then 63 else 31))))))"

definition move_type :: "bin_t \<Rightarrow> reg_pack_t \<Rightarrow> reg_pack_t \<Rightarrow> type_encoding_t \<Rightarrow> num_domain \<Rightarrow> num_domain action" where
  "move_type b r s type invr =
    (let copy = (\<lambda>vs. if bin_is64 b then
            bindA (assign_intA (rp_type r) type invr) (\<lambda>invr. foldA (\<lambda>invr f. assign_varA (f r) (f s) invr) invr vs)
          else retA invr) in
     if type = T_CTX then copy [rp_ctx_offset]
     else if type = T_MAP \<or> type = T_MAP_PROGRAMS then copy [rp_map_fd]
     else if type = T_PACKET then copy [rp_packet_offset]
     else if type = T_SHARED then copy [rp_shared_region_size, rp_shared_offset]
     else if type = T_STACK then copy [rp_stack_offset, rp_stack_numeric_size]
     else assign_intA (rp_type r) type invr)"

definition move_reg :: "bin_t \<Rightarrow> Reg \<Rightarrow> reg_pack_t \<Rightarrow> reg_pack_t \<Rightarrow> num_domain \<Rightarrow> num_domain action" where
  "move_reg b src_reg r s invr =
    bindA (assign_varA (rp_svalue r) (rp_svalue s) invr) (\<lambda>invr.
    bindA (assign_varA (rp_uvalue r) (rp_uvalue s) invr) (\<lambda>invr.
    bindA (havoc_offsets (bin_dst b) invr) (\<lambda>invr.
    bindA (over_types src_reg (\<lambda>invr type. move_type b r s type invr) invr) (\<lambda>invr.
      if \<not> bin_is64 b then retA invr
      else
        bindA (if bin_dst b \<noteq> src_reg then retA True else bindA (get_type invr (lin_var (rp_type r))) (\<lambda>t. retA (t = T_UNINIT))) (\<lambda>forget.
        bindA (if forget then havoc_vars [rp_type r] invr else retA invr) (assign_type_reg (bin_dst b) src_reg))))))"

definition sign_extend_reg :: "bin_t \<Rightarrow> Reg \<Rightarrow> reg_pack_t \<Rightarrow> reg_pack_t \<Rightarrow> int \<Rightarrow> num_domain \<Rightarrow> num_domain action" where
  "sign_extend_reg b src_reg r s w invr =
    bindA (entailA (type_is_number s) invr) (\<lambda>number.
      if number then sign_extend_to (bin_dst b) (lin_var (rp_svalue s)) w (bin_op b) invr else havoc_value (bin_dst b) r invr)"

text \<open>A move of a register to itself that changes nothing.\<close>

definition moves_nothing :: "variable_t \<Rightarrow> variable_t \<Rightarrow> variable_t \<Rightarrow> interval_t res \<Rightarrow> num_domain \<Rightarrow> bool action" where
  "moves_nothing dst_svalue src_svalue v limits invr =
    (if dst_svalue \<noteq> src_svalue then retA False
     else bindA (evalA (lin_var v) invr) (\<lambda>i. bindA (resA limits) (\<lambda>limits. retA (ivl_le i limits))))"

definition bin_reg :: "verifier_env \<Rightarrow> bin_t \<Rightarrow> Reg \<Rightarrow> reg_pack_t \<Rightarrow> reg_pack_t \<Rightarrow> ebpf_domain_t \<Rightarrow> (ebpf_domain_t \<times> bool) action" where
  "bin_reg E b src_reg r s d =
    (let w = (if bin_is64 b then 64 else 32); reg = bin_dst b; sv = rp_svalue r; uv = rp_uvalue r;
         ss = OpVar (rp_svalue s); su = OpVar (rp_uvalue s);
         go = (\<lambda>f. bindA (num_action f d) (\<lambda>d. retA (d, False)));
         arith = (\<lambda>f. go (then_havoc_offsets reg f));
         unless = (\<lambda>quit f. bindA (quit (ed_inv d)) (\<lambda>q. if q then retA (d, True) else go f));
         movsx = unless (moves_nothing sv (rp_svalue s) sv (bindE (movsx_bits (bin_op b)) signed_int)) (sign_extend_reg b src_reg r s w) in
     case bin_op b of
       Bin_ADD \<Rightarrow> bindA (add_reg reg src_reg r s w d) (\<lambda>d. retA (d, False))
     | Bin_SUB \<Rightarrow> bindA (sub_reg reg src_reg r s w d) (\<lambda>d. retA (d, False))
     | Bin_MUL \<Rightarrow> arith (mul_value sv uv ss w)
     | Bin_UDIV \<Rightarrow> arith (udiv_value sv uv su w)
     | Bin_UMOD \<Rightarrow> arith (urem_value sv uv su w)
     | Bin_SDIV \<Rightarrow> arith (sdiv_value sv uv ss w)
     | Bin_SMOD \<Rightarrow> arith (srem_value sv uv ss w)
     | Bin_OR \<Rightarrow> arith (bitwise_or sv uv su w)
     | Bin_AND \<Rightarrow> arith (bitwise_and sv uv su w)
     | Bin_XOR \<Rightarrow> arith (bitwise_xor sv uv su w)
     | Bin_LSH \<Rightarrow> go (shift_reg b src_reg r s (\<lambda>k. shl_imm reg k w) (then_havoc_offsets reg (shl_overflow sv uv su)))
     | Bin_RSH \<Rightarrow> go (shift_reg b src_reg r s (\<lambda>k. lshr_imm reg k w) (havoc_value reg r))
     | Bin_ARSH \<Rightarrow> go (\<lambda>invr. bindA (entailA (type_is_number s) invr) (\<lambda>number.
         if number then ashr_value reg (lin_var (rp_svalue s)) w invr else havoc_value reg r invr))
     | Bin_MOVSX8 \<Rightarrow> movsx
     | Bin_MOVSX16 \<Rightarrow> movsx
     | Bin_MOVSX32 \<Rightarrow> movsx
     | Bin_MOV \<Rightarrow> unless (moves_nothing sv (rp_svalue s) uv (unsigned_int w)) (move_reg b src_reg r s))"

definition transform_bin :: "verifier_env \<Rightarrow> bin_t \<Rightarrow> ebpf_domain_t \<Rightarrow> ebpf_domain_t action" where
  "transform_bin E b d =
    bindA (regpackA (bin_dst b)) (\<lambda>r.
    bindA (case bin_v b of
        Imm v \<Rightarrow> bindA (num_action (narrow_destination b) d) (\<lambda>d. bin_imm E b r (bin_imm_value b v) d)
      | RegV src_reg \<Rightarrow> bindA (regpackA src_reg) (\<lambda>s. bin_reg E b src_reg r s d)) (\<lambda>(d, finished).
      if finished \<or> bin_is64 b then retA d else num_action (low_32_bits r) d))"

end
