(* ===== verification/Crab_Transformer.thy ===== *)
theory Crab_Transformer
  imports Crab_Transfer_Bin
begin

text \<open>
  The transfer functions of memory accesses, calls and the remaining instructions, and the transfer function of
  an instruction (\<^verbatim>\<open>crab/ebpf_transformer.cpp\<close>).
\<close>

section \<open>Loads\<close>

text \<open>Copying the type-specific variables of a stack slot, when the loaded type may be the one they belong to.\<close>

definition load_kinds ::
  "verifier_env \<Rightarrow> array_domain_t \<Rightarrow> linear_expression_t \<Rightarrow> int \<Rightarrow> (variable_t \<times> data_kind_t) list \<Rightarrow> num_domain \<Rightarrow> num_domain action" where
  "load_kinds E a addr width vs invr =
    foldA (\<lambda>invr (v, kind). bindA (array_load E a invr kind addr width) (\<lambda>e. assign_optionalA v e invr)) invr vs"

definition load_if_types ::
  "verifier_env \<Rightarrow> array_domain_t \<Rightarrow> linear_expression_t \<Rightarrow> int \<Rightarrow> variable_t \<Rightarrow> type_encoding_t list \<Rightarrow> (variable_t \<times> data_kind_t) list \<Rightarrow>
   num_domain \<Rightarrow> num_domain action" where
  "load_if_types E a addr width type_variable tys vs invr =
    bindA (foldA (\<lambda>b t. if b then retA True else has_type invr (lin_var type_variable) t) False tys) (\<lambda>b.
      if b then load_kinds E a addr width vs invr else retA invr)"

definition do_load_stack ::
  "verifier_env \<Rightarrow> array_domain_t \<Rightarrow> Reg \<Rightarrow> linear_expression_t \<Rightarrow> int \<Rightarrow> Reg \<Rightarrow> num_domain \<Rightarrow> num_domain action" where
  "do_load_stack E a target_reg addr width src_reg invr =
    bindA (array_load E a invr types addr width) (\<lambda>type.
    bindA (assign_type target_reg type invr) (\<lambda>invr.
    bindA (regpackA src_reg) (\<lambda>s.
    bindA (entailA (dsl_le (lin_const width) (lin_var (rp_stack_numeric_size s))) invr) (\<lambda>numeric.
    bindA (if numeric then assign_type target_reg (Some (lin_const T_NUM)) invr else retA invr) (\<lambda>invr.
    bindA (regpackA target_reg) (\<lambda>r.
      if width \<in> {1, 2, 4, 8} then
        bindA (array_load E a invr svalues addr width) (\<lambda>sresult.
        bindA (array_load E a invr uvalues addr width) (\<lambda>uresult.
        bindA (havoc_register target_reg invr) (\<lambda>invr.
        bindA (assign_optionalA (rp_svalue r) sresult invr) (\<lambda>invr.
        bindA (assign_optionalA (rp_uvalue r) uresult invr) (\<lambda>invr.
          foldA (\<lambda>invr (tys, vs). load_if_types E a addr width (rp_type r) tys vs invr) invr
            [([T_CTX], [(rp_ctx_offset r, ctx_offsets)]),
             ([T_MAP, T_MAP_PROGRAMS], [(rp_map_fd r, map_fds)]),
             ([T_PACKET], [(rp_packet_offset r, packet_offsets)]),
             ([T_SHARED], [(rp_shared_offset r, shared_offsets), (rp_shared_region_size r, shared_region_sizes)]),
             ([T_STACK], [(rp_stack_offset r, stack_offsets), (rp_stack_numeric_size r, stack_numeric_sizes)])])))))
      else havoc_register target_reg invr))))))"

definition load_unknown_ctx :: "Reg \<Rightarrow> bool \<Rightarrow> num_domain \<Rightarrow> num_domain action" where
  "load_unknown_ctx target_reg may_touch_ptr invr =
    (if may_touch_ptr then havoc_type target_reg invr else assign_type target_reg (Some (lin_const T_NUM)) invr)"

definition do_load_ctx :: "verifier_env \<Rightarrow> Reg \<Rightarrow> linear_expression_t \<Rightarrow> int \<Rightarrow> num_domain \<Rightarrow> num_domain action" where
  "do_load_ctx E target_reg addr_vague width invr =
    (if nd_is_bottom invr then retA invr
     else
       bindA (resA (context_descriptor E)) (\<lambda>desc.
       bindA (regpackA target_reg) (\<lambda>r.
         if ctx_end desc < 0 then
           bindA (havoc_register target_reg invr) (assign_type target_reg (Some (lin_const T_NUM)))
         else
           bindA (evalA addr_vague invr) (\<lambda>i.
           bindA (havoc_register target_reg invr) (\<lambda>invr.
             let may_touch_ptr = contains i (ctx_data desc) \<or> contains i (ctx_meta desc) \<or> contains i (ctx_end desc);
                 offset_width = ctx_end desc - ctx_data desc;
                 pointer = (\<lambda>f.
                   if width \<noteq> offset_width then retA invr
                   else
                     bindA (f invr) (\<lambda>invr.
                     bindA (assign_type target_reg (Some (lin_const T_PACKET)) invr)
                       (assume_all [dsl_le (lin_const 4098) (lin_var (rp_svalue r)), at_most (rp_svalue r) PTR_MAX]))) in
             case singleton i of
               None \<Rightarrow> load_unknown_ctx target_reg may_touch_ptr invr
             | Some addr \<Rightarrow>
                 if addr = ctx_data desc then pointer (assign_intA (rp_packet_offset r) 0)
                 else if addr = ctx_end desc then
                   pointer (\<lambda>invr. bindA (nameA packet_size) (\<lambda>v. assign_varA (rp_packet_offset r) v invr))
                 else if addr = ctx_meta desc then
                   pointer (\<lambda>invr. bindA (nameA meta_offset) (\<lambda>v. assign_varA (rp_packet_offset r) v invr))
                 else load_unknown_ctx target_reg may_touch_ptr invr)))))"

definition do_load_packet_or_shared :: "Reg \<Rightarrow> int \<Rightarrow> num_domain \<Rightarrow> num_domain action" where
  "do_load_packet_or_shared target_reg width invr =
    (if nd_is_bottom invr then retA invr
     else
       bindA (regpackA target_reg) (\<lambda>r.
       bindA (assign_type target_reg (Some (lin_const T_NUM)) invr) (\<lambda>invr.
       bindA (havoc_register target_reg invr) (\<lambda>invr.
         let limit = (\<lambda>T. bindA (setA (rp_svalue r) (full T) invr) (setA (rp_uvalue r) (full T))) in
         if width = 1 then limit uint8_t else if width = 2 then limit uint16_t else retA invr))))"

definition do_load :: "verifier_env \<Rightarrow> deref_t \<Rightarrow> Reg \<Rightarrow> ebpf_domain_t \<Rightarrow> ebpf_domain_t action" where
  "do_load E access target_reg d =
    (let base = deref_basereg access; width = deref_width access;
         at = (\<lambda>v. lin_plus (lin_var v) (lin_const (deref_offset access))) in
     bindA (regpackA base) (\<lambda>m.
       if reg_v base = R10_STACK_POINTER then
         num_action (do_load_stack E (ed_stack d) target_reg (at (rp_stack_offset m)) width base) d
       else
         num_action (over_types base (\<lambda>invr type.
           if type \<in> {T_UNINIT, T_MAP, T_MAP_PROGRAMS, T_NUM} then retA invr
           else if type = T_CTX then do_load_ctx E target_reg (at (rp_ctx_offset m)) width invr
           else if type = T_STACK then do_load_stack E (ed_stack d) target_reg (at (rp_stack_offset m)) width base invr
           else do_load_packet_or_shared target_reg width invr)) d))"

section \<open>Stores\<close>

text \<open>
  A store changes an invariant that is either that of the state itself or, inside a join over types, a copy of
  it; some of its steps read and change the invariant of the state in both cases.
\<close>

type_synonym store_t = "num_domain option \<times> ebpf_domain_t"

definition st_inv :: "store_t \<Rightarrow> num_domain" where
  "st_inv x = (case fst x of Some invr \<Rightarrow> invr | None \<Rightarrow> ed_inv (snd x))"

definition put_inv :: "num_domain \<Rightarrow> store_t \<Rightarrow> store_t" where
  "put_inv invr x = (case fst x of Some _ \<Rightarrow> (Some invr, snd x) | None \<Rightarrow> (None, (snd x)\<lparr>ed_inv := invr\<rparr>))"

definition put_stack :: "array_domain_t \<Rightarrow> store_t \<Rightarrow> store_t" where
  "put_stack a x = (fst x, (snd x)\<lparr>ed_stack := a\<rparr>)"

record stored_value =
  val_type :: linear_expression_t
  val_svalue :: linear_expression_t
  val_uvalue :: linear_expression_t
  opt_val_reg :: "reg_pack_t option"

definition store_kind :: "verifier_env \<Rightarrow> linear_expression_t \<Rightarrow> int \<Rightarrow> data_kind_t \<Rightarrow> linear_expression_t \<Rightarrow> store_t \<Rightarrow> store_t action" where
  "store_kind E addr width kind val x =
    bindA (array_store E kind addr (lin_const width) val (st_inv x) (ed_stack (snd x))) (\<lambda>(v, invr, a).
    bindA (assign_type_to v val invr) (\<lambda>invr. retA (put_inv invr (put_stack a x))))"

definition havoc_kind :: "verifier_env \<Rightarrow> linear_expression_t \<Rightarrow> linear_expression_t \<Rightarrow> data_kind_t \<Rightarrow> store_t \<Rightarrow> store_t action" where
  "havoc_kind E addr width kind x =
    bindA (array_havoc E kind addr width (st_inv x) (ed_stack (snd x))) (\<lambda>(invr, a). retA (put_inv invr (put_stack a x)))"

definition havoc_kinds :: "verifier_env \<Rightarrow> linear_expression_t \<Rightarrow> linear_expression_t \<Rightarrow> data_kind_t list \<Rightarrow> store_t \<Rightarrow> store_t action" where
  "havoc_kinds E addr width kinds x = foldA (\<lambda>x kind. havoc_kind E addr width kind x) x kinds"

text \<open>Each type-specific variable is stored when the value may have its type, and forgotten otherwise.\<close>

definition store_if_types ::
  "verifier_env \<Rightarrow> linear_expression_t \<Rightarrow> int \<Rightarrow> stored_value \<Rightarrow> type_encoding_t list \<Rightarrow> ((reg_pack_t \<Rightarrow> variable_t) \<times> data_kind_t) list \<Rightarrow>
   data_kind_t list \<Rightarrow> store_t \<Rightarrow> store_t action" where
  "store_if_types E addr width val tys stored forgotten x =
    (case opt_val_reg val of
       None \<Rightarrow> havoc_kinds E addr (lin_const width) forgotten x
     | Some r \<Rightarrow>
         bindA (foldA (\<lambda>b t. if b then retA True else has_type (ed_inv (snd x)) (val_type val) t) False tys) (\<lambda>b.
           if b then foldA (\<lambda>x (f, kind). store_kind E addr width kind (lin_var (f r)) x) x stored
           else havoc_kinds E addr (lin_const width) forgotten x))"

definition store_numbers_of :: "verifier_env \<Rightarrow> linear_expression_t \<Rightarrow> int \<Rightarrow> stored_value \<Rightarrow> store_t \<Rightarrow> store_t action" where
  "store_numbers_of E addr width val x =
    bindA (store_kind E addr width svalues (val_svalue val) x) (store_kind E addr width uvalues (val_uvalue val))"

text \<open>The numeric sizes of the stack pointers whose numeric range the store may touch are computed anew.\<close>

definition update_numeric_sizes :: "linear_expression_t \<Rightarrow> int \<Rightarrow> store_t \<Rightarrow> store_t action" where
  "update_numeric_sizes addr width x =
    bindA (readA (\<lambda>ns. Some (Inr (get_type_variables ns)))) (\<lambda>vs.
      foldA (\<lambda>x v.
        bindA (has_type (st_inv x) (lin_var v) T_STACK) (\<lambda>b.
          if \<not> b then retA x
          else
            bindA (kind_varA stack_offsets v) (\<lambda>ofs.
            bindA (kind_varA stack_numeric_sizes v) (\<lambda>sz.
            bindA (intersectA (dsl_le addr (lin_plus (lin_var ofs) (lin_var sz))) (ed_inv (snd x))) (\<lambda>b.
            bindA (if b then intersectA (dsl_ge (lin_plus addr (lin_const width)) (lin_var ofs)) (ed_inv (snd x)) else retA False) (\<lambda>b.
              if \<not> b then retA x
              else
                bindA (num_action (\<lambda>invr. bindA (havoc_vars [sz] invr) (recompute_stack_numeric_size (ed_stack (snd x)) v)) (snd x))
                  (\<lambda>d. retA (fst x, d)))))))) x vs)"

definition do_store_stack :: "verifier_env \<Rightarrow> linear_expression_t \<Rightarrow> int \<Rightarrow> stored_value \<Rightarrow> store_t \<Rightarrow> store_t action" where
  "do_store_stack E addr width val x =
    bindA (store_type E addr (lin_const width) (val_type val) (st_inv x) (ed_stack (snd x))) (\<lambda>(v, invr, a).
    bindA (assign_type_to v (val_type val) invr) (\<lambda>invr.
    let x = put_inv invr (put_stack a x) in
    bindA (if width = 8 then
        bindA (store_numbers_of E addr width val x) (\<lambda>x.
          foldA (\<lambda>x (tys, stored, forgotten). store_if_types E addr width val tys stored forgotten x) x
            [([T_CTX], [(rp_ctx_offset, ctx_offsets)], [ctx_offsets]),
             ([T_MAP, T_MAP_PROGRAMS], [(rp_map_fd, map_fds)], [map_fds]),
             ([T_PACKET], [(rp_packet_offset, packet_offsets)], [packet_offsets]),
             ([T_SHARED], [(rp_shared_offset, shared_offsets), (rp_shared_region_size, shared_region_sizes)],
               [shared_region_sizes, shared_offsets]),
             ([T_STACK], [(rp_stack_offset, stack_offsets), (rp_stack_numeric_size, stack_numeric_sizes)],
               [stack_offsets, stack_numeric_sizes])])
      else
        bindA (if width \<in> {1, 2, 4} then bindA (get_type (ed_inv (snd x)) (val_type val)) (\<lambda>t. retA (t = T_NUM)) else retA False) (\<lambda>number.
        bindA (if number then store_numbers_of E addr width val x else havoc_kinds E addr (lin_const width) [svalues, uvalues] x)
          (havoc_kinds E addr (lin_const width) [ctx_offsets, map_fds, packet_offsets, shared_offsets, stack_offsets,
            shared_region_sizes, stack_numeric_sizes])))
      (update_numeric_sizes addr width)))"

definition do_mem_store :: "verifier_env \<Rightarrow> deref_t \<Rightarrow> stored_value \<Rightarrow> ebpf_domain_t \<Rightarrow> ebpf_domain_t action" where
  "do_mem_store E access val d =
    (let base = deref_basereg access; width = deref_width access; ofs = deref_offset access in
     if ed_is_bottom d then retA d
     else if reg_v base = R10_STACK_POINTER then
       bindA (regpackA base) (\<lambda>r.
       bindA (evalA (lin_var (rp_stack_offset r)) (ed_inv d)) (\<lambda>i.
         case singleton i of
           None \<Rightarrow> retA d
         | Some n \<Rightarrow>
             bindA (resA (cast_to int32_t n)) (\<lambda>base_addr.
             bindA (do_store_stack E (lin_const (base_addr + ofs)) width val (None, d)) (\<lambda>(_, d). retA d))))
     else
       bindA (join_over_types ed_inv base (\<lambda>(invr, d) type.
           if type = T_STACK then
             bindA (required_offset base type) (\<lambda>v.
             bindA (do_store_stack E (lin_plus (lin_var v) (lin_const ofs)) width val (Some invr, d)) (\<lambda>x. retA (st_inv x, snd x)))
           else retA (invr, d)) d) (\<lambda>(invr, d). retA (d\<lparr>ed_inv := invr\<rparr>)))"

definition transform_mem :: "verifier_env \<Rightarrow> mem_t \<Rightarrow> ebpf_domain_t \<Rightarrow> ebpf_domain_t action" where
  "transform_mem E b d =
    (if ed_is_bottom d then retA d
     else case mem_value b of
       RegV reg \<Rightarrow>
         if mem_is_load b then do_load E (mem_access b) reg d
         else
           bindA (regpackA reg) (\<lambda>r.
             do_mem_store E (mem_access b) \<lparr>val_type = lin_var (rp_type r), val_svalue = lin_var (rp_svalue r),
               val_uvalue = lin_var (rp_uvalue r), opt_val_reg = Some r\<rparr> d)
     | Imm v \<Rightarrow>
         do_mem_store E (mem_access b) \<lparr>val_type = lin_const T_NUM, val_svalue = lin_const (sint v), val_uvalue = lin_const (uint v),
           opt_val_reg = None\<rparr> d)"

section \<open>Atomic operations\<close>

definition atomic_to_bin :: "atomic_t \<Rightarrow> bin_t" where
  "atomic_to_bin a = \<lparr>bin_op = (case at_op a of
        Atomic_ADD \<Rightarrow> Bin_ADD | Atomic_OR \<Rightarrow> Bin_OR | Atomic_AND \<Rightarrow> Bin_AND | Atomic_XOR \<Rightarrow> Bin_XOR
      | Atomic_XCHG \<Rightarrow> Bin_MOV | Atomic_CMPXCHG \<Rightarrow> Bin_MOV),
     bin_dst = Reg R11_ATOMIC_SCRATCH, bin_v = RegV (at_valreg a), bin_is64 = (deref_width (at_access a) = 8), bin_lddw = False\<rparr>"

definition transform_atomic :: "verifier_env \<Rightarrow> atomic_t \<Rightarrow> ebpf_domain_t \<Rightarrow> ebpf_domain_t action" where
  "transform_atomic E a d =
    (let r11 = Reg R11_ATOMIC_SCRATCH;
         access = (\<lambda>reg is_load. transform_mem E \<lparr>mem_access = at_access a, mem_value = RegV reg, mem_is_load = is_load\<rparr>) in
     if ed_is_bottom d then retA d
     else
       bindA (regpackA (deref_basereg (at_access a))) (\<lambda>base.
       bindA (entailA (type_is_pointer base) (ed_inv d)) (\<lambda>pointer.
       bindA (if pointer then bindA (regpackA (at_valreg a)) (\<lambda>v. entailA (type_is_number v) (ed_inv d)) else retA False) (\<lambda>applies.
         if \<not> applies then retA d
         else
           bindA (entailA (type_is_not_stack base) (ed_inv d)) (\<lambda>volatile.
             if volatile then
               (if at_op a = Atomic_CMPXCHG then num_action (havoc_register (Reg R0_RETURN_VALUE)) d
                else if at_fetch a then num_action (havoc_register (at_valreg a)) d
                else retA d)
             else
               bindA (access r11 True d) (\<lambda>d.
               bindA (transform_bin E (atomic_to_bin a) d) (\<lambda>d.
               bindA (if at_op a = Atomic_CMPXCHG then
                        bindA (access (Reg R0_RETURN_VALUE) True d) (num_action (havoc_register r11))
                      else if at_fetch a then access (at_valreg a) True d
                      else retA d) (\<lambda>d.
               bindA (access r11 False d) (num_action (\<lambda>invr. bindA (havoc_register r11 invr) (havoc_type r11)))))))))))"

section \<open>Calls\<close>

definition assign_valid_ptr :: "Reg \<Rightarrow> bool \<Rightarrow> num_domain \<Rightarrow> num_domain action" where
  "assign_valid_ptr dst_reg maybe_null invr =
    bindA (regpackA dst_reg) (\<lambda>r.
    bindA (havoc_vars [rp_svalue r, rp_uvalue r] invr) (\<lambda>invr.
    bindA (assume_all [(if maybe_null then dsl_le else dsl_less) (lin_const 0) (lin_var (rp_svalue r)), at_most (rp_svalue r) PTR_MAX] invr)
      (assign_varA (rp_uvalue r) (rp_svalue r))))"

definition platform_map_type :: "verifier_env \<Rightarrow> u32 \<Rightarrow> EbpfMapType res" where
  "platform_map_type E type = get_map_type (info_platform (env_info E)) type"

definition do_load_mapfd :: "verifier_env \<Rightarrow> Reg \<Rightarrow> int \<Rightarrow> bool \<Rightarrow> num_domain \<Rightarrow> num_domain action" where
  "do_load_mapfd E dst_reg mapfd maybe_null invr =
    bindA (resA (map_descriptor E mapfd)) (\<lambda>desc.
    bindA (resA (platform_map_type E (md_type desc))) (\<lambda>type.
    bindA (assign_type dst_reg (Some (lin_const (if mt_value_type type = MapValue_PROGRAM then T_MAP_PROGRAMS else T_MAP))) invr) (\<lambda>invr.
    bindA (regpackA dst_reg) (\<lambda>r.
    bindA (setA (rp_map_fd r) (interval_num mapfd) invr) (assign_valid_ptr dst_reg maybe_null)))))"

definition map_fd_argument :: "arg_single_t list \<Rightarrow> Reg option" where
  "map_fd_argument singles = fold (\<lambda>p fd. if single_kind p = Single_MAP_FD then Some (single_reg p) else fd) singles None"

text \<open>Memory that the callee may write: the stack forgets the range, and then knows that it holds numbers.\<close>

definition havoc_written :: "verifier_env \<Rightarrow> variable_t \<Rightarrow> variable_t \<Rightarrow> num_domain \<times> ebpf_domain_t \<times> bool \<Rightarrow> type_encoding_t \<Rightarrow>
   (num_domain \<times> ebpf_domain_t \<times> bool) action" where
  "havoc_written E addr width = (\<lambda>(invr, d, numbers) type.
    if type = T_STACK then
      bindA (havoc_kinds E (lin_var addr) (lin_var width) [types, svalues, uvalues, ctx_offsets, map_fds, packet_offsets,
          shared_offsets, stack_offsets, shared_region_sizes] (Some invr, d)) (\<lambda>x. retA (st_inv x, snd x, numbers))
    else retA (invr, d, False))"

definition transform_pair :: "verifier_env \<Rightarrow> ebpf_domain_t \<Rightarrow> arg_pair_t \<Rightarrow> ebpf_domain_t action" where
  "transform_pair E d param =
    (if pair_kind param \<noteq> Pair_PTR_TO_WRITABLE_MEM then retA d
     else
       bindA (get_type_offset_variable_in (pair_mem param) (ed_inv d)) (\<lambda>v.
         case v of
           None \<Rightarrow> retA d
         | Some addr \<Rightarrow>
             bindA (regpackA (pair_size param)) (\<lambda>s.
             bindA (join_over_types (\<lambda>(d, _). ed_inv d) (pair_mem param) (havoc_written E addr (rp_svalue s)) (d, True)) (\<lambda>(invr, d, numbers).
             let d = d\<lparr>ed_inv := invr\<rparr> in
             if \<not> numbers then retA d
             else bindA (store_numbers invr addr (rp_svalue s) (ed_stack d)) (\<lambda>a. retA (d\<lparr>ed_stack := a\<rparr>))))))"

text \<open>
  The result of a map lookup: a descriptor for the inner map of a map of maps, otherwise a shared region that may
  be null.
\<close>

definition shared_result :: "interval_t option \<Rightarrow> num_domain \<Rightarrow> num_domain action" where
  "shared_result region_size invr =
    bindA (regpackA (Reg R0_RETURN_VALUE)) (\<lambda>r0.
    bindA (assign_valid_ptr (Reg R0_RETURN_VALUE) True invr) (\<lambda>invr.
    bindA (setA (rp_shared_offset r0) (interval_num 0) invr) (\<lambda>invr.
    bindA (case region_size of Some i \<Rightarrow> setA (rp_shared_region_size r0) i invr | None \<Rightarrow> retA invr)
      (assign_type (Reg R0_RETURN_VALUE) (Some (lin_const T_SHARED))))))"

definition lookup_result :: "verifier_env \<Rightarrow> Reg option \<Rightarrow> ebpf_domain_t \<Rightarrow> ebpf_domain_t action" where
  "lookup_result E maybe_fd_reg d =
    (case maybe_fd_reg of
       None \<Rightarrow> num_action (shared_result None) d
     | Some fd \<Rightarrow>
         bindA (domain_map_type E fd d) (\<lambda>map_type.
           case map_type of
             None \<Rightarrow> num_action (shared_result None) d
           | Some t \<Rightarrow>
               bindA (resA (platform_map_type E t)) (\<lambda>mt.
                 if mt_value_type mt = MapValue_MAP then
                   bindA (get_map_inner_map_fd E fd d) (\<lambda>inner.
                     case inner of
                       Some n \<Rightarrow> num_action (do_load_mapfd E (Reg R0_RETURN_VALUE) (sint n) True) d
                     | None \<Rightarrow> num_action (shared_result None) d)
                 else
                   bindA (regpackA (Reg R0_RETURN_VALUE)) (\<lambda>r0.
                   bindA (num_action (assign_valid_ptr (Reg R0_RETURN_VALUE) True) d) (\<lambda>d.
                   bindA (num_action (setA (rp_shared_offset r0) (interval_num 0)) d) (\<lambda>d.
                   bindA (get_map_value_size E fd d) (\<lambda>sz.
                   bindA (num_action (setA (rp_shared_region_size r0) sz) d) (\<lambda>d.
                   bindA (num_action (assign_type (Reg R0_RETURN_VALUE) (Some (lin_const T_SHARED))) d)
                     (num_action (shared_result None))))))))))"

definition number_result :: "num_domain \<Rightarrow> num_domain action" where
  "number_result invr =
    bindA (regpackA (Reg R0_RETURN_VALUE)) (\<lambda>r0.
    bindA (havoc_value (Reg R0_RETURN_VALUE) r0 invr) (assign_type (Reg R0_RETURN_VALUE) (Some (lin_const T_NUM))))"

definition transform_call :: "verifier_env \<Rightarrow> call_t \<Rightarrow> ebpf_domain_t \<Rightarrow> ebpf_domain_t action" where
  "transform_call E call d =
    (if ed_is_bottom d then retA d
     else
       bindA (foldA (transform_pair E) d (call_pairs call)) (\<lambda>d.
       bindA (regpackA (Reg R0_RETURN_VALUE)) (\<lambda>r0.
       bindA (num_action (havoc_vars [rp_stack_numeric_size r0]) d) (\<lambda>d.
       bindA (if call_is_map_lookup call then lookup_result E (map_fd_argument (call_singles call)) d else num_action number_result d) (\<lambda>d.
       bindA (num_action scratch_caller_saved_registers d) (\<lambda>d.
         if call_reallocate_packet call then forget_packet_pointers E d else retA d))))))"

definition transform_callx :: "verifier_env \<Rightarrow> Reg \<Rightarrow> ebpf_domain_t \<Rightarrow> ebpf_domain_t action" where
  "transform_callx E func d =
    (if ed_is_bottom d then retA d
     else
       bindA (regpackA func) (\<lambda>r.
       bindA (evalA (lin_var (rp_svalue r)) (ed_inv d)) (\<lambda>i.
         case singleton i of
           None \<Rightarrow> retA d
         | Some n \<Rightarrow>
             if \<not> fits int32_t n \<or> \<not> is_helper_usable (info_platform (env_info E)) (info_type (env_info E)) (word_of_int n) then retA d
             else bindA (resA (make_call E (word_of_int n))) (\<lambda>call. transform_call E call d))))"

definition transform_call_local :: "string \<Rightarrow> ebpf_domain_t \<Rightarrow> ebpf_domain_t action" where
  "transform_call_local pfx d =
    (if ed_is_bottom d then retA d
     else bindA (num_action (save_callee_saved_registers pfx) d) (add_imm (Reg R10_STACK_POINTER) (- EBPF_SUBPROGRAM_STACK_SIZE) 64))"

definition transform_exit :: "verifier_env \<Rightarrow> string \<Rightarrow> ebpf_domain_t \<Rightarrow> ebpf_domain_t action" where
  "transform_exit E pfx d =
    (if pfx = [] then retA d
     else
       bindA (havoc_subprogram_stack E d) (\<lambda>d.
       bindA (num_action (restore_callee_saved_registers pfx) d) (add_imm (Reg R10_STACK_POINTER) EBPF_SUBPROGRAM_STACK_SIZE 64)))"

definition transform_packet :: "num_domain \<Rightarrow> num_domain action" where
  "transform_packet invr =
    (let r0_reg = Reg R0_RETURN_VALUE in
     bindA (regpackA r0_reg) (\<lambda>r0.
     bindA (assign_type r0_reg (Some (lin_const T_NUM)) invr) (\<lambda>invr.
     bindA (havoc_offsets r0_reg invr) (\<lambda>invr.
     bindA (havoc_vars [rp_svalue r0, rp_uvalue r0] invr) scratch_caller_saved_registers))))"

section \<open>Instructions\<close>

definition initialize_loop_counter :: "label_t \<Rightarrow> num_domain \<Rightarrow> num_domain action" where
  "initialize_loop_counter l invr = bindA (nameA (loop_counter (label_to_string l))) (\<lambda>v. assign_intA v 0 invr)"

definition increment_loop_counter :: "label_t \<Rightarrow> num_domain \<Rightarrow> num_domain action" where
  "increment_loop_counter l invr = bindA (nameA (loop_counter (label_to_string l))) (\<lambda>v. add_to v (OpNum 1) invr)"

definition transform_instruction :: "verifier_env \<Rightarrow> Instruction \<Rightarrow> ebpf_domain_t \<Rightarrow> ebpf_domain_t action" where
  "transform_instruction E ins d =
    (case ins of
       Undefined _ \<Rightarrow> retA d
     | Bin b \<Rightarrow> transform_bin E b d
     | UnOp s \<Rightarrow> num_action (transform_un E s) d
     | LoadMapFd l \<Rightarrow> num_action (do_load_mapfd E (lmf_dst l) (sint (lmf_mapfd l)) False) d
     | Call call \<Rightarrow> transform_call E call d
     | CallLocal call \<Rightarrow> transform_call_local (cl_prefix call) d
     | Callx func \<Rightarrow> transform_callx E func d
     | Exit pfx \<Rightarrow> transform_exit E pfx d
     | Jmp _ \<Rightarrow> retA d
     | Mem m \<Rightarrow> transform_mem E m d
     | Packet _ \<Rightarrow> num_action transform_packet d
     | Atomic a \<Rightarrow> transform_atomic E a d
     | Assume a \<Rightarrow> num_action (transform_assume E (assume_cond a)) d
     | IncrementLoopCounter l \<Rightarrow> num_action (increment_loop_counter l) d)"

text \<open>An instruction other than an assumption must not lead to bottom; the exception is a \<^verbatim>\<open>std::logic_error\<close>.\<close>

definition ebpf_domain_transform :: "verifier_env \<Rightarrow> Instruction \<Rightarrow> ebpf_domain_t \<Rightarrow> ebpf_domain_t action" where
  "ebpf_domain_transform E ins d =
    (if ed_is_bottom d then retA d
     else
       bindA (transform_instruction E ins d) (\<lambda>d.
         if ed_is_bottom d \<and> (case ins of Assume _ \<Rightarrow> False | _ \<Rightarrow> True) then throwA StdException else retA d))"

definition ebpf_domain_initialize_loop_counter :: "label_t \<Rightarrow> ebpf_domain_t \<Rightarrow> ebpf_domain_t action" where
  "ebpf_domain_initialize_loop_counter l d = num_action (initialize_loop_counter l) d"

end
