(* ===== verification/Crab_Assume_Sound.thy ===== *)
theory Crab_Assume_Sound
  imports Crab_Assume Crab_Interval_Bits
begin

text \<open>
  Soundness of the constraints that a comparison of 64-bit operands adds to a state: when the comparison holds of
  two machine words, the constraints hold of every valuation that gives the operands their signed and unsigned
  values. The reader of the invariant is any function whose intervals contain the values of the expressions.
\<close>

section \<open>Constraints and values\<close>

declare dsl_holds [simp]

lemma vars_hold [simp]:
  "lin_holds \<sigma> (eq_vars u v) \<longleftrightarrow> \<sigma> u = \<sigma> v" "lin_holds \<sigma> (neq_vars u v) \<longleftrightarrow> \<sigma> u \<noteq> \<sigma> v"
  using lin_subtract_sound [of "lin_var u" "lin_var v" \<sigma>] by (simp_all add: eq_vars_def neq_vars_def lin_holds_def mk_cst_def)

lemma const_hold [simp]: "lin_holds \<sigma> true_const" "\<not> lin_holds \<sigma> false_const"
  by (simp_all add: true_const_def false_const_def lin_holds_def mk_cst_def)

definition in_order :: "bool \<Rightarrow> int \<Rightarrow> int \<Rightarrow> bool" where
  "in_order strictly a b = (if strictly then a < b else a \<le> b)"

lemma order_csts_hold [simp]:
  assumes "lin_ok e" "lin_ok f"
  shows "lin_holds \<sigma> (less_cst strictly e f) \<longleftrightarrow> in_order strictly (lin_eval \<sigma> e) (lin_eval \<sigma> f)"
    "lin_holds \<sigma> (greater_cst strictly e f) \<longleftrightarrow> in_order strictly (lin_eval \<sigma> f) (lin_eval \<sigma> e)"
  using assms by (simp_all add: less_cst_def greater_cst_def in_order_def)

text \<open>The signed and the unsigned value of a 64-bit word.\<close>

definition both_values :: "int \<Rightarrow> int \<Rightarrow> bool" where
  "both_values a A \<longleftrightarrow> - (2 ^ 63) \<le> a \<and> a < 2 ^ 63 \<and> A = (if a < 0 then a + 2 ^ 64 else a)"

lemma both_values_word: "both_values (sint w) (uint w)" for w :: "64 word"
proof -
  have u: "0 \<le> uint w" "uint w < 2 ^ 64" using uint_lt2p [of w] by simp_all
  have "sint w = take_bit 64 (uint w) - 2 ^ 64 * of_bool (odd (uint w div 2 ^ 63))"
    by (simp add: sint_uint signed_take_bit_eq_take_bit_minus bit_iff_odd)
  moreover have "take_bit 64 (uint w) = uint w" using u by (simp add: take_bit_int_eq_self)
  moreover have "uint w div 2 ^ 63 = (if uint w < 2 ^ 63 then 0 else 1)"
    using u by (auto simp: div_pos_pos_trivial intro!: int_div_pos_eq [where r = "uint w - 2 ^ 63"])
  ultimately show ?thesis using u by (auto simp: both_values_def)
qed

section \<open>Intervals\<close>

definition has :: "interval_t \<Rightarrow> int \<Rightarrow> bool" where
  "has i n \<longleftrightarrow> ivl_ok i \<and> n \<in> gamma_ivl i"

lemma width_ranges [simp]:
  "ivl_ok nonnegative_64" "n \<in> gamma_ivl nonnegative_64 \<longleftrightarrow> 0 \<le> n \<and> n < 2 ^ 63"
  "ivl_ok negative_64" "n \<in> gamma_ivl negative_64 \<longleftrightarrow> - (2 ^ 63) \<le> n \<and> n < 0"
  "ivl_ok unsigned_high_64" "n \<in> gamma_ivl unsigned_high_64 \<longleftrightarrow> 2 ^ 63 \<le> n \<and> n < 2 ^ 64"
  by (auto simp: nonnegative_range_def negative_range_def high_range_def interval_sound)

lemma has_le: "has i n \<Longrightarrow> ivl_ok j \<Longrightarrow> ivl_le i j \<Longrightarrow> n \<in> gamma_ivl j"
  by (auto simp: has_def ivl_le_refines)

lemma has_bounds: "has i n \<Longrightarrow> ext_ok (ivl_lb i) \<and> ext_ok (ivl_ub i) \<and> lo i \<le> Fin n \<and> Fin n \<le> hi i"
  using ivl_okD [of i] by (auto simp: has_def mem_gamma_iff)

lemma has_singleton: "has i n \<Longrightarrow> singleton i = Some k \<Longrightarrow> n = k"
  using singleton_member [of i n k] by (auto simp: has_def)

lemma order_by_bounds:
  assumes "has i m" "has j n"
  shows "ext_ge (ivl_lb i) (ivl_ub j) \<Longrightarrow> n \<le> m" "ext_greater (ivl_lb i) (ivl_ub j) \<Longrightarrow> n < m"
    "ext_le (ivl_ub i) (ivl_lb j) \<Longrightarrow> m \<le> n" "ext_less (ivl_ub i) (ivl_lb j) \<Longrightarrow> m < n"
proof -
  note i = has_bounds [OF assms(1)] and j = has_bounds [OF assms(2)]
  have le: "a \<le> b \<Longrightarrow> b \<le> c \<Longrightarrow> c \<le> d \<Longrightarrow> a \<le> d" and less: "a \<le> b \<Longrightarrow> b < c \<Longrightarrow> c \<le> d \<Longrightarrow> a < d" for a b c d :: ext
    by order+
  show "ext_ge (ivl_lb i) (ivl_ub j) \<Longrightarrow> n \<le> m" using i j le [of "Fin n" "hi j" "lo i" "Fin m"] by (simp add: ext_compare_refines)
  show "ext_greater (ivl_lb i) (ivl_ub j) \<Longrightarrow> n < m" using i j less [of "Fin n" "hi j" "lo i" "Fin m"] by (simp add: ext_compare_refines)
  show "ext_le (ivl_ub i) (ivl_lb j) \<Longrightarrow> m \<le> n" using i j le [of "Fin m" "hi i" "lo j" "Fin n"] by (simp add: ext_compare_refines)
  show "ext_less (ivl_ub i) (ivl_lb j) \<Longrightarrow> m < n" using i j less [of "Fin m" "hi i" "lo j" "Fin n"] by (simp add: ext_compare_refines)
qed

lemma bound_number_sound:
  assumes "has i n"
  shows "bound_number (ivl_ub i) = Inr k \<Longrightarrow> n \<le> k" "bound_number (ivl_lb i) = Inr k \<Longrightarrow> k \<le> n"
    "ext_number (ivl_ub i) = Some k \<Longrightarrow> n \<le> k"
  using has_bounds [OF assms] by (auto simp: bound_number_def opt_to_res_def elim!: ext_exhaust split: option.splits)

lemma truncated:
  assumes "has i n" "ivl_truncate_to T i = Inr j" "0 < type_width T"
  shows "has j (static_cast T n)"
  using ivl_truncate_to_sound_lemma [of i n T] assms by (auto simp: has_def)

lemma truncated_ok:
  assumes "ivl_ok i" "ivl_truncate_to T i = Inr j" "0 < type_width T"
  shows "ivl_ok j"
proof (cases "i = bottom")
  case True
  then show ?thesis using assms(2) by (simp add: ivl_truncate_to_def ivl_le_def)
next
  case False
  then obtain n where "n \<in> gamma_ivl i" using ivl_gamma_empty [OF assms(1)] by blast
  then show ?thesis using truncated [of i n T j] assms by (simp add: has_def)
qed

lemma cast_both_values:
  assumes "both_values a A"
  shows "static_cast int64_t a = a" "static_cast int64_t A = a" "static_cast uint64_t a = A" "static_cast uint64_t A = A"
proof -
  have r: "- (2 ^ 63) \<le> a" "a < 2 ^ 63" "A = (if a < 0 then a + 2 ^ 64 else a)" using assms by (simp_all add: both_values_def)
  have "take_bit 64 (a + 2 ^ 64) = take_bit 64 a" by (simp add: take_bit_eq_mod)
  moreover have "take_bit 64 A = A" using r by (auto simp: take_bit_int_eq_self_iff)
  ultimately have t: "take_bit 64 a = A" using r(3) by (auto split: if_splits)
  show s: "static_cast int64_t a = a" using r by (simp add: signed_take_bit_int_eq_self)
  show "static_cast uint64_t a = A" using t by simp
  show "static_cast uint64_t A = A" using \<open>take_bit 64 A = A\<close> by simp
  have "signed_take_bit 63 (take_bit 64 a) = signed_take_bit 63 a" by (simp add: signed_take_bit_take_bit)
  then show "static_cast int64_t A = a" using t s by simp
qed

section \<open>Operands\<close>

text \<open>What a reader and a valuation must satisfy for operands with the values of two words.\<close>

definition sound_reader :: "valuation \<Rightarrow> reader \<Rightarrow> bool" where
  "sound_reader \<sigma> ev \<longleftrightarrow> (\<forall>e i. lin_ok e \<longrightarrow> ev e = Inr i \<longrightarrow> has i (lin_eval \<sigma> e))"

definition operands :: "valuation \<Rightarrow> comparands \<Rightarrow> int \<Rightarrow> int \<Rightarrow> int \<Rightarrow> int \<Rightarrow> bool" where
  "operands \<sigma> v a A b B \<longleftrightarrow> both_values a A \<and> both_values b B \<and> \<sigma> (left_svalue v) = a \<and> \<sigma> (left_uvalue v) = A \<and>
     lin_ok (right_svalue v) \<and> lin_eval \<sigma> (right_svalue v) = b \<and> lin_ok (right_uvalue v) \<and> lin_eval \<sigma> (right_uvalue v) = B"

lemma sound_readerD: "sound_reader \<sigma> ev \<Longrightarrow> ev e = Inr i \<Longrightarrow> lin_ok e \<Longrightarrow> lin_eval \<sigma> e = n \<Longrightarrow> has i n"
  by (auto simp: sound_reader_def)

lemma operandsD:
  assumes "operands \<sigma> v a A b B"
  shows "lin_ok (right_svalue v)" "lin_ok (right_uvalue v)" "\<sigma> (left_svalue v) = a" "\<sigma> (left_uvalue v) = A"
    "lin_eval \<sigma> (right_svalue v) = b" "lin_eval \<sigma> (right_uvalue v) = B"
    "- (2 ^ 63) \<le> a" "a < 2 ^ 63" "A = (if a < 0 then a + 2 ^ 64 else a)"
    "- (2 ^ 63) \<le> b" "b < 2 ^ 63" "B = (if b < 0 then b + 2 ^ 64 else b)"
    "both_values a A" "both_values b B"
  using assms by (simp_all add: operands_def both_values_def)

text \<open>The two halves of the left interval: each contains the left value if that is in its range.\<close>

lemma get_signed_intervals_sound:
  assumes r: "sound_reader \<sigma> ev" and v: "operands \<sigma> v a A b B" and g: "get_signed_intervals ev True v = Inr (l, rt, pos_half, neg_half)"
  shows "has l a" "has rt b" "0 \<le> a \<Longrightarrow> has pos_half a" "a < 0 \<Longrightarrow> \<exists>k < 0. has neg_half k" "ivl_ok pos_half" "ivl_ok neg_half"
proof -
  note d = operandsD [OF v] and cast = cast_both_values
  obtain l0 where l0: "ev (ls v) = Inr l0" and l0': "has l0 a"
    using g sound_readerD [OF r, of "ls v" _ a] d(3) by (auto simp: get_signed_intervals_def bindE_def split: sum.splits)
  obtain r0 where r0: "ev (right_svalue v) = Inr r0" and r0': "has r0 b"
    using g sound_readerD [OF r _ d(1,5)] d(1) by (auto simp: get_signed_intervals_def bindE_def split: sum.splits)
  obtain l1 where l1: "ivl_truncate_to int64_t l1 = Inr l" "ivl_truncate_to int64_t r0 = Inr rt"
    and halves: "\<not> is_top l0 \<and> l1 = l0 \<and> pos_half = ivl_meet l0 nonnegative_64 \<and> neg_half = ivl_meet l0 negative_64 \<or>
      ev (lu v) = Inr l1 \<and> pos_half = ivl_meet l1 nonnegative_64 \<and> neg_half = interval (finite_ext (type_min int64_t))
        (finite_ext (case ext_number (ivl_ub l1) of Some n \<Rightarrow> truncate_to int64_t n | None \<Rightarrow> - 1)) \<or>
      ev (lu v) = Inr l1 \<and> pos_half = nonnegative_64 \<and> neg_half = negative_64"
    using g l0 r0 by (auto simp: get_signed_intervals_def truncate_both_def bindE_def split: sum.splits if_splits)
  have trunc: "type_min int64_t \<le> truncate_to int64_t n" for n
    using static_cast_fits [of int64_t n] by (simp add: truncate_to_eq fits_def)
  have A: "has l1 A" if "ev (lu v) = Inr l1" using sound_readerD [OF r that] d(4) by simp
  show "has rt b" using truncated [OF r0' l1(2)] cast [OF d(14)] by simp
  show "has l a" using halves truncated [OF l0', of int64_t l] truncated [OF A, of int64_t l] l1(1) cast [OF d(13)] by auto
  have "ivl_ok l0" "ev (lu v) = Inr l1 \<Longrightarrow> ivl_ok l1" using l0' A by (auto simp: has_def)
  then show ok: "ivl_ok pos_half" "ivl_ok neg_half" using halves by (auto simp: ivl_meet_props)
  show "has pos_half a" if "0 \<le> a"
    using that halves l0' A d(7-9) by (auto simp: has_def ivl_meet_props)
  show "\<exists>k < 0. has neg_half k" if "a < 0"
  proof -
    have "has neg_half (- (2 ^ 63)) \<or> has neg_half a"
      using that halves l0' d(7-9) trunc ok(2) by (auto simp: has_def ivl_meet_props interval_sound split: option.splits)
    then show ?thesis using that by (metis neg_0_less_iff_less neg_less_0_iff_less zero_less_numeral zero_less_power)
  qed
qed

lemma get_unsigned_intervals_sound:
  assumes r: "sound_reader \<sigma> ev" and v: "operands \<sigma> v a A b B" and g: "get_unsigned_intervals ev True v = Inr (l, rt, low, high)"
  shows "has l A" "has rt B" "0 \<le> a \<Longrightarrow> has low A" "a < 0 \<Longrightarrow> has high A" "ivl_ok low" "ivl_ok high" "ivl_le l (full uint64_t)"
proof -
  note d = operandsD [OF v] and cast = cast_both_values
  obtain l0 where l0: "ev (lu v) = Inr l0" and l0': "has l0 A"
    using g sound_readerD [OF r, of "lu v" _ A] d(4) by (auto simp: get_unsigned_intervals_def bindE_def split: sum.splits)
  obtain r0 where r0: "ev (right_uvalue v) = Inr r0" and r0': "has r0 B"
    using g sound_readerD [OF r _ d(2,6)] d(2) by (auto simp: get_unsigned_intervals_def bindE_def split: sum.splits)
  let ?low = "\<lambda>i. interval (finite_ext 0) (ivl_ub i)" and ?high = "\<lambda>i. interval (ivl_lb i) (finite_ext (- 1))"
  obtain l1 where l1: "ivl_truncate_to uint64_t l1 = Inr l" "ivl_truncate_to uint64_t r0 = Inr rt"
    and halves: "\<not> is_top l0 \<and> l1 = l0 \<and> low = ivl_meet l0 nonnegative_64 \<and> high = ivl_meet l0 unsigned_high_64 \<or>
      ev (ls v) = Inr l1 \<and> ivl_truncate_to uint64_t (?low l1) = Inr low \<and> ivl_truncate_to uint64_t (?high l1) = Inr high \<or>
      ev (ls v) = Inr l1 \<and> low = nonnegative_64 \<and> high = unsigned_high_64"
    using g l0 r0 by (auto simp: get_unsigned_intervals_def truncate_both_def bindE_def split: sum.splits if_splits)
  have a: "has l1 a" if "ev (ls v) = Inr l1" using sound_readerD [OF r that] d(3) by simp
  have halves_ok: "ivl_ok (?low l1) \<and> ivl_ok (?high l1) \<and> (0 \<le> a \<longrightarrow> has (?low l1) a) \<and> (a < 0 \<longrightarrow> has (?high l1) a)" if "has l1 a"
    using has_bounds [OF that] interval_ok_member [of "finite_ext 0" "ivl_ub l1" a] interval_ok_member [of "ivl_lb l1" "finite_ext (- 1)" a]
    by (auto simp: has_def intro!: interval_okI)
  show "has rt B" using truncated [OF r0' l1(2)] cast [OF d(14)] by simp
  show "has l A" using halves truncated [OF l0', of uint64_t l] truncated [OF a, of uint64_t l] l1(1) cast [OF d(13)] by auto
  have l1_ok: "ivl_ok l1" using halves l0' a by (auto simp: has_def)
  show "ivl_le l (full uint64_t)" using ivl_truncate_to_fits [OF l1_ok l1(1)] by simp
  have l0_ok: "ivl_ok l0" using l0' by (simp add: has_def)
  show "ivl_ok low" using halves l0_ok a halves_ok truncated_ok [of "?low l1" uint64_t low] by (auto simp: ivl_meet_props)
  show "ivl_ok high" using halves l0_ok a halves_ok truncated_ok [of "?high l1" uint64_t high] by (auto simp: ivl_meet_props)
  show "has low A" if "0 \<le> a"
    using that halves l0' a halves_ok truncated [of "?low l1" a uint64_t low] cast(3) [OF d(13)] d(7-9)
    by (auto simp: has_def ivl_meet_props)
  show "has high A" if "a < 0"
    using that halves l0' a halves_ok truncated [of "?high l1" a uint64_t high] cast(3) [OF d(13)] d(7-9)
    by (auto simp: has_def ivl_meet_props)
qed

section \<open>Signed comparisons\<close>

lemma in_order_le: "in_order strictly a b \<Longrightarrow> a \<le> b"
  by (auto simp: in_order_def split: if_splits)

lemma in_order_shift [simp]: "in_order strictly (a + k) (b + k) \<longleftrightarrow> in_order strictly a b"
  by (simp add: in_order_def)

lemma join_within:
  assumes "ivl_le (ivl_join i j) k" "ivl_ok i" "ivl_ok j" "ivl_ok k" "has i n \<or> has j n"
  shows "n \<in> gamma_ivl k"
  using assms ivl_join_props(1,2) [of i j] ivl_le_refines [of "ivl_join i j" k] by (auto simp: has_def)

lemma assume_signed_64bit_lt_sound:
  assumes v: "operands \<sigma> v a A b B" and o: "in_order strictly a b" and rt: "has rt b"
    and halves: "0 \<le> a \<Longrightarrow> has pos_half a" "a < 0 \<Longrightarrow> \<exists>k < 0. has neg_half k" "ivl_ok pos_half" "ivl_ok neg_half"
    and c: "c \<in> set (assume_signed_64bit_lt strictly v pos_half neg_half rt)"
  shows "lin_holds \<sigma> c"
proof -
  note d = operandsD [OF v]
  have "in_order strictly A B" if "ivl_le rt negative_64 \<or> ivl_le (ivl_join neg_half pos_half) nonnegative_64 \<and> ivl_le rt nonnegative_64"
  proof -
    have "0 \<le> a" if "ivl_le (ivl_join neg_half pos_half) nonnegative_64"
    proof (rule ccontr)
      assume "\<not> 0 \<le> a"
      then obtain k where "k < 0" "has neg_half k" using halves(2) by auto
      then show False using join_within [OF that halves(4,3), of k] by auto
    qed
    then have "b < 0 \<or> 0 \<le> a \<and> 0 \<le> b" using that has_le [OF rt, of negative_64] has_le [OF rt, of nonnegative_64] by auto
    then show ?thesis using d(9,12) o by (auto simp: in_order_def split: if_splits)
  qed
  then show ?thesis using c d o by (auto simp: assume_signed_64bit_lt_def split: if_splits)
qed

lemma assume_signed_64bit_gt_sound:
  assumes v: "operands \<sigma> v a A b B" and o: "in_order strictly b a" and rt: "has rt b"
    and halves: "0 \<le> a \<Longrightarrow> has pos_half a" "a < 0 \<Longrightarrow> \<exists>k < 0. has neg_half k" "ivl_ok pos_half" "ivl_ok neg_half"
    and e: "assume_signed_64bit_gt strictly v pos_half neg_half rt = Inr cs" and c: "c \<in> set cs"
  shows "lin_holds \<sigma> c"
proof -
  note d = operandsD [OF v] and le = in_order_le [OF o]
  consider (nonneg) "ivl_le rt nonnegative_64"
    | (neg) "\<not> ivl_le rt nonnegative_64" "ivl_le (ivl_join neg_half pos_half) negative_64 \<and> ivl_le rt negative_64"
    | (other) "\<not> ivl_le rt nonnegative_64" "\<not> (ivl_le (ivl_join neg_half pos_half) negative_64 \<and> ivl_le rt negative_64)"
    by blast
  then show ?thesis
  proof cases
    case nonneg
    then have b: "0 \<le> b" using has_le [OF rt, of nonnegative_64] by simp
    with le have pos: "0 \<le> a" by simp
    from nonneg e obtain p lpub where p: "ivl_truncate_to int64_t pos_half = Inr p" "bound_number (ivl_ub p) = Inr lpub"
      and cs: "cs = [dsl_ge (ls v) (lin_const 0), greater_cst strictly (ls v) (right_svalue v), dsl_le (ls v) (lu v), dsl_ge (ls v) (lu v),
           dsl_ge (lu v) (lin_const 0), greater_cst strictly (lu v) (right_uvalue v), dsl_le (lu v) (lin_const lpub)]"
      by (auto simp: assume_signed_64bit_gt_def bindE_def split: sum.splits)
    have "a \<le> lpub" using bound_number_sound(1) [OF truncated [OF halves(1) [OF pos] p(1)] p(2)] cast_both_values [OF d(13)] by simp
    then show ?thesis using c cs d o b pos by auto
  next
    case neg
    have "a < 0"
    proof (rule ccontr)
      assume "\<not> a < 0"
      then show False using join_within [of neg_half pos_half negative_64 a] neg(2) halves by auto
    qed
    moreover have "b < 0" using has_le [OF rt, of negative_64] neg(2) by simp
    ultimately show ?thesis using neg e c d o by (auto simp: assume_signed_64bit_gt_def)
  next
    case other
    then show ?thesis using e c d o by (auto simp: assume_signed_64bit_gt_def)
  qed
qed

lemma assume_signed_cst_interval_sound:
  assumes r: "sound_reader \<sigma> ev" and v: "operands \<sigma> v a A b B" and e: "assume_signed_cst_interval ev op True v = Inr cs" and c: "c \<in> set cs"
    and op: "op = Cond_EQ \<and> a = b \<or> op = Cond_SLT \<and> a < b \<or> op = Cond_SLE \<and> a \<le> b \<or> op = Cond_SGT \<and> b < a \<or> op = Cond_SGE \<and> b \<le> a"
  shows "lin_holds \<sigma> c"
proof -
  obtain l rt p n where g: "get_signed_intervals ev True v = Inr (l, rt, p, n)"
    using e by (auto simp: assume_signed_cst_interval_def bindE_def split: sum.splits)
  note h = get_signed_intervals_sound [OF r v g] and d = operandsD [OF v]
  note bounds = order_by_bounds(1,2) [OF h(1,2)] order_by_bounds(3,4) [OF h(1,2)]
  show ?thesis
  proof (cases "op = Cond_EQ")
    case True
    then have "a = b" "A = B" using op d(9,12) by auto
    moreover have "a = A" if "ivl_le rt nonnegative_64" using has_le [OF h(2) _ that] d(9) \<open>a = b\<close> by simp
    ultimately show ?thesis using True g e c d by (auto simp: assume_signed_cst_interval_def assume_signed_64bit_eq_def split: if_splits)
  next
    case False
    let ?lt = "op = Cond_SLT \<or> op = Cond_SLE" and ?strictly = "op = Cond_SLT \<or> op = Cond_SGT"
    have lt: "?lt \<Longrightarrow> in_order ?strictly a b" and gt: "\<not> ?lt \<Longrightarrow> in_order ?strictly b a"
      using op False by (auto simp: in_order_def)
    have "cs = [true_const] \<or> ?lt \<and> cs = assume_signed_64bit_lt ?strictly v p n rt \<or> \<not> ?lt \<and> assume_signed_64bit_gt ?strictly v p n rt = Inr cs"
      using e g False lt gt bounds
      by (auto simp: assume_signed_cst_interval_def Let_def in_order_def split: if_splits)
    then show ?thesis
      using c assume_signed_64bit_lt_sound [OF v lt h(2-6)] assume_signed_64bit_gt_sound [OF v gt h(2-6)] by auto
  qed
qed

section \<open>Unsigned comparisons\<close>

lemma out_of_range_high_sound:
  assumes r: "sound_reader \<sigma> ev" and v: "operands \<sigma> v a A b B" and e: "out_of_range_high below ev v = Inr cs" and c: "c \<in> set cs"
    and "lin_holds \<sigma> below" "0 \<le> a"
  shows "lin_holds \<sigma> c"
proof -
  note d = operandsD [OF v]
  obtain i where i: "ev (ls v) = Inr i" using e by (auto simp: out_of_range_high_def bindE_def split: sum.splits)
  have "has i a" using sound_readerD [OF r i, of a] d(3) by simp
  then show ?thesis
    using i e c assms(5,6) d(3,4,9) bound_number_sound(3) [of i a] by (auto simp: out_of_range_high_def split: option.splits)
qed

lemma assume_unsigned_64bit_lt_sound:
  assumes r: "sound_reader \<sigma> ev" and v: "operands \<sigma> v a A b B" and o: "in_order strictly A B" and rt: "has rt B"
    and halves: "0 \<le> a \<Longrightarrow> has low A" "a < 0 \<Longrightarrow> has high A" "ivl_ok low" "ivl_ok high"
    and e: "assume_unsigned_64bit_lt ev strictly v low high rt = Inr cs" and c: "c \<in> set cs"
  shows "lin_holds \<sigma> c"
proof -
  let ?above = "\<lambda>x. if strictly then ext_ge x (ivl_ub rt) else ext_greater x (ivl_ub rt)"
  note d = operandsD [OF v] and le = in_order_le [OF o]
  have A: "0 \<le> A" using d(7,9) by simp
  obtain low' where low': "ivl_truncate_to uint64_t low = Inr low'"
    using e by (auto simp: assume_unsigned_64bit_lt_def bindE_def Let_def split: sum.splits)
  have low_A: "0 \<le> a \<Longrightarrow> has low' A" using truncated [OF halves(1) low'] cast_both_values [OF d(13)] by simp
  have above: "\<not> ?above (ivl_lb i)" if "has i A" for i
    using order_by_bounds(1,2) [OF that rt] o by (auto simp: in_order_def)
  show ?thesis
  proof (cases "ivl_le rt nonnegative_64 \<and> ?above (ivl_lb low')")
    case True
    then have "B < 2 ^ 63" using has_le [OF rt, of nonnegative_64] by simp
    then have "0 \<le> a" using le d(7-9) by (simp split: if_splits)
    then show ?thesis using above [OF low_A] True by blast
  next
    case guard1: False
    obtain high' where high': "ivl_truncate_to uint64_t high = Inr high'"
      using e low' guard1 by (auto simp: assume_unsigned_64bit_lt_def bindE_def Let_def split: sum.splits)
    have high_A: "a < 0 \<Longrightarrow> has high' A" using truncated [OF halves(2) high'] cast_both_values [OF d(13)] by simp
    show ?thesis
    proof (cases "ivl_le rt unsigned_high_64 \<and> ?above (ivl_lb high')")
      case True
      then have a: "0 \<le> a" using above [OF high_A] by force
      from True guard1 e low' high' obtain n where n: "bound_number (ivl_ub rt) = Inr n"
        and cs: "out_of_range_high (less_cst strictly (lu v) (lin_const n)) ev v = Inr cs"
        by (auto simp: assume_unsigned_64bit_lt_def bindE_def Let_def split: sum.splits if_splits)
      have "in_order strictly A n" using o bound_number_sound(1) [OF rt n] by (auto simp: in_order_def split: if_splits)
      then show ?thesis using d(4) by (intro out_of_range_high_sound [OF r v cs c _ a]) simp
    next
      case guard2: False
      let ?both = "[dsl_le (lin_const 0) (lu v), less_cst strictly (lu v) (right_uvalue v)]"
      consider (low) llub where "ivl_le rt (full int64_t)" "bound_number (ivl_ub low') = Inr llub"
          "cs = ?both @ [dsl_le (lu v) (lin_const llub), dsl_le (lin_const 0) (ls v), less_cst strictly (ls v) (right_svalue v)]"
        | (high) "is_bottom low" "ivl_le rt unsigned_high_64" "cs = ?both @ [less_cst strictly (ls v) (right_svalue v)]"
        | (other) "set cs \<subseteq> set ?both"
        using e low' high' guard1 guard2
        by (auto simp: assume_unsigned_64bit_lt_def bindE_def Let_def split: sum.splits if_splits)
      then show ?thesis
      proof cases
        case low
        have B: "B < 2 ^ 63" using has_le [OF rt _ low(1)] by (simp add: fits_def)
        then have a: "0 \<le> a" "0 \<le> b" using le d(7-12) by (simp_all split: if_splits)
        then have "A = a" "B = b" using d(9,12) by simp_all
        then show ?thesis
          using c a(1) d(1-6) o bound_number_sound(1) [OF low_A [OF a(1)] low(2)] unfolding low(3) by auto
      next
        case high
        have "2 ^ 63 \<le> B" using has_le [OF rt _ high(2)] by simp
        moreover have "a < 0" using high(1) halves(1,3) ivl_okD(3) by (force simp: has_def)
        ultimately have "in_order strictly a b" using o d(7-12) by (auto simp: in_order_def split: if_splits)
        then show ?thesis using high(3) c d(1-6) A o by auto
      next
        case other
        then show ?thesis using c d(1-6) A o by auto
      qed
    qed
  qed
qed

lemma assume_unsigned_64bit_gt_sound:
  assumes r: "sound_reader \<sigma> ev" and v: "operands \<sigma> v a A b B" and o: "in_order strictly B A" and rt: "has rt B"
    and halves: "0 \<le> a \<Longrightarrow> has low A" "a < 0 \<Longrightarrow> has high A" "ivl_ok low" "ivl_ok high"
    and e: "assume_unsigned_64bit_gt strictly v low high rt = Inr cs" and c: "c \<in> set cs"
  shows "lin_holds \<sigma> c"
proof -
  let ?below = "\<lambda>x. if strictly then ext_le x (ivl_lb rt) else ext_less x (ivl_lb rt)"
  let ?both = "[dsl_le (lin_const 0) (lu v), greater_cst strictly (lu v) (right_uvalue v), greater_cst strictly (ls v) (right_svalue v)]"
  note d = operandsD [OF v] and le = in_order_le [OF o]
  have A: "0 \<le> A" "A < 2 ^ 64" using d(7-9) by simp_all
  obtain low' high' where low': "ivl_truncate_to uint64_t low = Inr low'" and high': "ivl_truncate_to uint64_t high = Inr high'"
    using e by (auto simp: assume_unsigned_64bit_gt_def bindE_def Let_def split: sum.splits)
  have in_low: "0 \<le> a \<Longrightarrow> has low' A" and in_high: "a < 0 \<Longrightarrow> has high' A"
    using truncated [OF halves(1) low'] truncated [OF halves(2) high'] cast_both_values [OF d(13)] by simp_all
  have below: "\<not> ?below (ivl_ub i)" if "has i A" for i
    using order_by_bounds(3,4) [OF that rt] o by (auto simp: in_order_def)
  have both: "lin_holds \<sigma> c" if "c \<in> set ?both" "in_order strictly b a"
    using that d(1-6) A o by auto
  consider (out) lhlb where "ivl_le rt nonnegative_64 \<and> ?below (ivl_ub low')" "bound_number (ivl_lb high') = Inr lhlb"
      "cs = [greater_cst strictly (lu v) (right_uvalue v), (if lhlb = type_max uint64_t then dsl_eq else dsl_ge) (lu v) (lin_const lhlb),
             dsl_less (ls v) (lin_const 0)]"
    | (high) "ivl_le rt unsigned_high_64" "cs = ?both"
    | (low) "ivl_le (ivl_join low high) nonnegative_64" "ivl_le rt nonnegative_64" "cs = ?both"
    | (other) "cs = [dsl_le (lin_const 0) (lu v), greater_cst strictly (lu v) (right_uvalue v)]"
    using e low' high'
    by (auto simp: assume_unsigned_64bit_gt_def bindE_def Let_def split: sum.splits if_splits)
  then show ?thesis
  proof cases
    case out
    then have a: "a < 0" using below [OF in_low] by force
    then have "lhlb \<le> A" using bound_number_sound(2) [OF in_high out(2)] by simp
    then show ?thesis using c a d(1-6) A o unfolding out(3) by (auto split: if_splits)
  next
    case high
    have "2 ^ 63 \<le> B" using has_le [OF rt _ high(1)] by simp
    then have "in_order strictly b a" using o d(7-12) by (auto simp: in_order_def split: if_splits)
    then show ?thesis using both c high(2) by simp
  next
    case low
    have "0 \<le> a"
    proof (rule ccontr)
      assume "\<not> 0 \<le> a"
      then show False using join_within [OF low(1) halves(3,4), of A] halves(2) d(7-9) by simp
    qed
    moreover have "0 \<le> b" using has_le [OF rt _ low(2)] d(10-12) by (simp split: if_splits)
    ultimately have "in_order strictly b a" using o d(9,12) by simp
    then show ?thesis using both c low(3) by simp
  next
    case other
    then show ?thesis using c d(1-6) A o by auto
  qed
qed

lemma assume_unsigned_order_sound:
  assumes r: "sound_reader \<sigma> ev" and v: "operands \<sigma> v a A b B"
    and op: "op = Cond_LT \<and> A < B \<or> op = Cond_LE \<and> A \<le> B \<or> op = Cond_GT \<and> B < A \<or> op = Cond_GE \<and> B \<le> A"
    and h: "has l A" "has rt B" "0 \<le> a \<Longrightarrow> has low A" "a < 0 \<Longrightarrow> has high A" "ivl_ok low" "ivl_ok high"
    and e: "assume_unsigned_order ev op True v l rt low high = Inr cs" and c: "c \<in> set cs"
  shows "lin_holds \<sigma> c"
proof -
  let ?lt = "op = Cond_LT \<or> op = Cond_LE" and ?strictly = "op = Cond_LT \<or> op = Cond_GT"
  note d = operandsD [OF v]
  note bounds = order_by_bounds(1,2) [OF h(1,2)] order_by_bounds(3,4) [OF h(1,2)]
  have lt: "?lt \<Longrightarrow> in_order ?strictly A B" and gt: "\<not> ?lt \<Longrightarrow> in_order ?strictly B A"
    using op by (auto simp: in_order_def)
  consider "?lt" "cs = [less_cst ?strictly (lu v) (right_uvalue v)]" | "\<not> ?lt" "cs = [greater_cst ?strictly (lu v) (right_uvalue v)]"
    | "?lt" "assume_unsigned_64bit_lt ev ?strictly v low high rt = Inr cs" | "\<not> ?lt" "assume_unsigned_64bit_gt ?strictly v low high rt = Inr cs"
    using e lt gt bounds
    by (cases "?lt") (simp_all add: assume_unsigned_order_def Let_def in_order_def split: if_splits)
  then show ?thesis
  proof cases
    case 1
    then show ?thesis using c d(1-6) lt by simp
  next
    case 2
    then show ?thesis using c d(1-6) gt by simp
  next
    case 3
    then show ?thesis using assume_unsigned_64bit_lt_sound [OF r v lt [OF 3(1)] h(2-6)] c by blast
  next
    case 4
    then show ?thesis using assume_unsigned_64bit_gt_sound [OF r v gt [OF 4(1)] h(2-6)] c by blast
  qed
qed

lemma assume_unsigned_cst_interval_sound:
  assumes r: "sound_reader \<sigma> ev" and v: "operands \<sigma> v a A b B" and e: "assume_unsigned_cst_interval ev op True v = Inr cs" and c: "c \<in> set cs"
    and op: "op = Cond_NE \<and> A \<noteq> B \<or> op = Cond_LT \<and> A < B \<or> op = Cond_LE \<and> A \<le> B \<or> op = Cond_GT \<and> B < A \<or> op = Cond_GE \<and> B \<le> A"
  shows "lin_holds \<sigma> c"
proof -
  obtain l rt low high where g: "get_unsigned_intervals ev True v = Inr (l, rt, low, high)"
    using e by (auto simp: assume_unsigned_cst_interval_def bindE_def split: sum.splits)
  note h = get_unsigned_intervals_sound [OF r v g]
  show ?thesis
  proof (cases "op = Cond_NE")
    case False
    then have "assume_unsigned_order ev op True v l rt low high = Inr cs" using e g by (simp add: assume_unsigned_cst_interval_def)
    then show ?thesis using assume_unsigned_order_sound [OF r v _ h(1-6)] op False c by blast
  next
    case True
    have t: "ivl_truncate_to_uint 64 l = Inr l"
      using h(7) by (simp add: ivl_truncate_to_uint_def with_width_def ivl_truncate_to_def)
    obtain q where q: "disequation_as_order True l rt = Inr q" using e g True by (auto simp: assume_unsigned_cst_interval_def bindE_def split: sum.splits)
    show ?thesis
    proof (cases q)
      case None
      then show ?thesis using e g True q c by (simp add: assume_unsigned_cst_interval_def)
    next
      case (Some p)
      then obtain op' rt' where p: "q = Some (op', rt')" by (cases p) simp
      then have e': "assume_unsigned_order ev op' True v l rt' low high = Inr cs" using e g True q by (simp add: assume_unsigned_cst_interval_def)
      from q p obtain n where n: "singleton rt = Some n" by (auto simp: disequation_as_order_def split: option.splits)
      then have B: "B = n" using has_singleton [OF h(2)] by simp
      have ok: "ext_ok (ivl_lb l)" "ext_ok (ivl_ub l)" and A: "lo l \<le> Fin A" "Fin A \<le> hi l" using has_bounds [OF h(1)] by simp_all
      have point: "x = finite_ext n" if "ext_ok x" "Some n = ext_number x" for x using that by (elim ext_exhaust) auto
      have choice: "(if Some n = ext_number (ivl_lb l) then Some (Cond_GT, interval_bound (ivl_lb l))
          else if Some n = ext_number (ivl_ub l) then Some (Cond_LT, interval_bound (ivl_ub l)) else None) = Some (op', rt')"
        using q p n by (simp add: disequation_as_order_def t)
      have num: "interval_bound (finite_ext n) = interval_num n" by (simp add: interval_bound_def interval_num_def)
      have "op' = Cond_GT \<and> ivl_lb l = finite_ext n \<and> rt' = interval_num n \<or> op' = Cond_LT \<and> ivl_ub l = finite_ext n \<and> rt' = interval_num n"
      proof (cases "Some n = ext_number (ivl_lb l)")
        case True
        then show ?thesis using choice point [OF ok(1) True] num by simp
      next
        case False
        with choice have u: "Some n = ext_number (ivl_ub l)" by (simp split: if_splits)
        then show ?thesis using choice False point [OF ok(2) u] num by simp
      qed
      then have "op' = Cond_GT \<and> B < A \<or> op' = Cond_LT \<and> A < B" and "has rt' B"
        using A B op True by (auto simp: has_def)
      then show ?thesis using assume_unsigned_order_sound [OF r v _ h(1) _ h(3-6) e' c] by blast
    qed
  qed
qed

section \<open>Bit tests\<close>

lemma assume_bit_cst_interval_sound:
  fixes x y :: u64
  assumes r: "sound_reader \<sigma> ev" and u: "\<sigma> left = uint x" and i: "has i n" and n: "n = sint y \<or> n = uint y"
    and e: "assume_bit_cst_interval ev op True left i = Inr cs" and c: "c \<in> set cs"
    and op: "op = Cond_SET \<or> op = Cond_NSET" "eval_op op x y"
  shows "lin_holds \<sigma> c"
proof -
  obtain j where j: "ev (lin_var left) = Inr j" using e by (auto simp: assume_bit_cst_interval_def bindE_def split: sum.splits)
  have x: "has j (uint x)" using sound_readerD [OF r j] u by simp
  have cast: "cast_to uint64_t m = Inr (uint z)" if "m = sint z \<or> m = uint z" "fits_cast_to int64_t m" for m and z :: u64
    using that cast_both_values(3,4) [OF both_values_word [of z]]
    by (auto simp: cast_to_eq truncate_to_eq fits_cast_to_def)
  show ?thesis
  proof (cases "singleton j = None \<or> singleton i = None")
    case True
    then have "cs = []" using e j by (auto simp: assume_bit_cst_interval_def split: option.splits)
    then show ?thesis using c by simp
  next
    case False
    then have s: "singleton j = Some (uint x)" "singleton i = Some n"
      using has_singleton [OF x] has_singleton [OF i] by auto
    have bits: "uint x AND uint y = uint (x AND y)" by (simp add: uint_and)
    have zero: "uint z = 0 \<longleftrightarrow> z = 0" for z :: u64 by (rule uint_0_iff)
    show ?thesis
      using e j s c op cast [of n y] cast [of "uint x" x] n
      by (auto simp: assume_bit_cst_interval_def eval_op_def bits zero split: if_splits)
  qed
qed

section \<open>Comparisons\<close>

lemma signed_cases:
  fixes x y :: u64
  assumes "eval_op op x y" "op \<in> {Cond_EQ, Cond_SGE, Cond_SLE, Cond_SGT, Cond_SLT}"
  shows "op = Cond_EQ \<and> sint x = sint y \<or> op = Cond_SLT \<and> sint x < sint y \<or> op = Cond_SLE \<and> sint x \<le> sint y \<or>
    op = Cond_SGT \<and> sint y < sint x \<or> op = Cond_SGE \<and> sint y \<le> sint x"
  using assms by (auto simp: eval_op_def)

lemma unsigned_cases:
  fixes x y :: u64
  assumes "eval_op op x y" "op \<notin> {Cond_EQ, Cond_SGE, Cond_SLE, Cond_SGT, Cond_SLT}" "op \<notin> {Cond_SET, Cond_NSET}"
  shows "op = Cond_NE \<and> uint x \<noteq> uint y \<or> op = Cond_LT \<and> uint x < uint y \<or> op = Cond_LE \<and> uint x \<le> uint y \<or>
    op = Cond_GT \<and> uint y < uint x \<or> op = Cond_GE \<and> uint y \<le> uint x"
  using assms by (cases op) (auto simp: eval_op_def word_less_def word_le_def word_uint_eq_iff)

text \<open>
  C12. Soundness of a comparison with an immediate: if the comparison holds of the words \<open>x\<close> and \<open>y\<close>, and the
  reader returns intervals that contain the values of the operands, then every constraint that the comparison adds
  to the state holds when the left variables are the signed and the unsigned value of \<open>x\<close>.
\<close>

theorem assume_cst_imm_sound:
  fixes x y :: u64
  assumes "sound_reader \<sigma> ev" "\<sigma> s = sint x" "\<sigma> u = uint x" "eval_op op x y"
    "assume_cst_imm ev op True s u (sint y) = Inr cs" "c \<in> set cs"
  shows "lin_holds \<sigma> c"
proof -
  let ?v = "\<lparr>left_svalue = s, left_uvalue = u, right_svalue = lin_const (sint y), right_uvalue = lin_const (static_cast uint64_t (sint y))\<rparr>"
  have v: "operands \<sigma> ?v (sint x) (uint x) (sint y) (uint y)"
    using assms(2,3) cast_both_values(3) [OF both_values_word [of y]] by (simp add: operands_def both_values_word)
  consider "op \<in> {Cond_EQ, Cond_SGE, Cond_SLE, Cond_SGT, Cond_SLT}"
    | "op \<notin> {Cond_EQ, Cond_SGE, Cond_SLE, Cond_SGT, Cond_SLT}" "op \<in> {Cond_SET, Cond_NSET}"
    | "op \<notin> {Cond_EQ, Cond_SGE, Cond_SLE, Cond_SGT, Cond_SLT}" "op \<notin> {Cond_SET, Cond_NSET}" by blast
  then show ?thesis
  proof cases
    case 1
    then have "assume_signed_cst_interval ev op True ?v = Inr cs" using assms(5) by (simp add: assume_cst_imm_def)
    then show ?thesis using assume_signed_cst_interval_sound [OF assms(1) v _ assms(6) signed_cases [OF assms(4) 1]] by blast
  next
    case 2
    have "has (interval_num (sint y)) (sint y)" by (simp add: has_def)
    moreover have "assume_bit_cst_interval ev op True u (interval_num (sint y)) = Inr cs" using 2 assms(5) by (auto simp: assume_cst_imm_def)
    ultimately show ?thesis
      using assume_bit_cst_interval_sound [OF assms(1,3), of "interval_num (sint y)" "sint y" y op cs c] 2 assms(4,6) by blast
  next
    case 3
    then have "assume_unsigned_cst_interval ev op True ?v = Inr cs" using assms(5) by (simp add: assume_cst_imm_def)
    then show ?thesis using assume_unsigned_cst_interval_sound [OF assms(1) v _ assms(6) unsigned_cases [OF assms(4) 3]] by blast
  qed
qed

text \<open>The word 3 is below 5; the reader knows the values exactly.\<close>

definition exact_reader :: "valuation \<Rightarrow> reader" where
  "exact_reader \<sigma> e = Inr (interval_num (lin_eval \<sigma> e))"

lemma exact_reader_sound: "sound_reader \<sigma> (exact_reader \<sigma>)"
  by (auto simp: sound_reader_def exact_reader_def has_def)

theorem assume_cst_imm_sound_witness: "lin_holds (\<lambda>v. 3) (dsl_less (lin_var 1) (lin_const 5))"
proof (rule assume_cst_imm_sound [where x = 3 and y = 5 and op = Cond_LT and s = 0 and u = 1])
  show "sound_reader (\<lambda>v. 3) (exact_reader (\<lambda>v. 3))" by (rule exact_reader_sound)
  show "assume_cst_imm (exact_reader (\<lambda>v. 3)) Cond_LT True 0 1 (sint (5 :: u64)) = Inr [dsl_less (lin_var 1) (lin_const 5)]"
    by code_simp
qed (simp_all add: eval_op_def)

text \<open>
  C11. Soundness of a comparison of two registers: if the comparison holds of the words \<open>x\<close> and \<open>y\<close>, and the
  reader returns intervals that contain the values of the operands, then every constraint that the comparison adds
  to the state holds when the variables of the registers are the signed and the unsigned values of the words.
\<close>

theorem assume_cst_reg_sound:
  fixes x y :: u64
  assumes "sound_reader \<sigma> ev" "\<sigma> s = sint x" "\<sigma> u = uint x" "\<sigma> s' = sint y" "\<sigma> u' = uint y" "eval_op op x y"
    "assume_cst_reg ev op True s u s' u' = Inr cs" "c \<in> set cs"
  shows "lin_holds \<sigma> c"
proof -
  let ?v = "\<lparr>left_svalue = s, left_uvalue = u, right_svalue = lin_var s', right_uvalue = lin_var u'\<rparr>"
  have v: "operands \<sigma> ?v (sint x) (uint x) (sint y) (uint y)"
    using assms(2-5) by (simp add: operands_def both_values_word)
  consider "op = Cond_EQ" | "op \<in> {Cond_NE, Cond_SGE, Cond_SLE, Cond_SGT, Cond_SLT}" | "op \<in> {Cond_SET, Cond_NSET}"
    | "op \<notin> {Cond_EQ, Cond_SGE, Cond_SLE, Cond_SGT, Cond_SLT}" "op \<notin> {Cond_SET, Cond_NSET}" "op \<noteq> Cond_NE" by blast
  then show ?thesis
  proof cases
    case 1
    then have xy: "x = y" using assms(6) by (simp add: eval_op_def)
    obtain i where i: "ev (lin_var s') = Inr i" using 1 assms(7) by (auto simp: assume_cst_reg_def bindE_def split: sum.splits)
    have "has i (sint y)" using sound_readerD [OF assms(1) i] assms(4) by simp
    then have "sint y = uint y" if "ivl_le i nonnegative_64"
      using has_le [of i "sint y", OF _ _ that] both_values_word [of y] by (simp add: both_values_def split: if_splits)
    then show ?thesis using 1 i assms(2-8) xy by (auto simp: assume_cst_reg_def split: if_splits)
  next
    case 2
    have "x \<noteq> y \<Longrightarrow> sint x \<noteq> sint y" using both_values_word [of x] both_values_word [of y] unfolding both_values_def word_uint_eq_iff by metis
    then show ?thesis using 2 assms(2-8) by (auto simp: assume_cst_reg_def eval_op_def)
  next
    case 3
    obtain i where i: "ev (lin_var u') = Inr i" "assume_bit_cst_interval ev op True u i = Inr cs"
      using 3 assms(7) by (auto simp: assume_cst_reg_def bindE_def split: sum.splits)
    have "has i (uint y)" using sound_readerD [OF assms(1) i(1)] assms(5) by simp
    then show ?thesis
      using assume_bit_cst_interval_sound [OF assms(1,3) _ _ i(2) assms(8), of "uint y" y] 3 assms(6) by blast
  next
    case 4
    then have "assume_unsigned_cst_interval ev op True ?v = Inr cs" using assms(7) by (cases op) (simp_all add: assume_cst_reg_def)
    then show ?thesis using assume_unsigned_cst_interval_sound [OF assms(1) v _ assms(8) unsigned_cases [OF assms(6) 4(1,2)]] by blast
  qed
qed

text \<open>The word 3 is below 5, as unsigned words.\<close>

theorem assume_cst_reg_sound_witness:
  "lin_holds (\<lambda>v. if v < 2 then 3 else 5) (dsl_less (lin_var 1) (lin_var 3))"
proof (rule assume_cst_reg_sound [where x = 3 and y = 5 and op = Cond_LT and s = 0 and u = 1 and s' = 2 and u' = 3])
  let ?\<sigma> = "\<lambda>v :: variable_t. if v < 2 then 3 else 5 :: int"
  show "sound_reader ?\<sigma> (exact_reader ?\<sigma>)" by (rule exact_reader_sound)
  show "assume_cst_reg (exact_reader ?\<sigma>) Cond_LT True 0 1 2 3 = Inr [dsl_less (lin_var 1) (lin_var 3)]"
    by code_simp
qed (simp_all add: eval_op_def)

section \<open>32-bit comparisons\<close>

text \<open>
  Of 32-bit operands the constraints compare all 64 bits when the right operand is negative. The low halves of
  \<open>- 2\<close> and \<open>0xffffffff\<close> are in order, and a constraint on the unsigned values fails.
\<close>

definition mixed_reader :: reader where
  "mixed_reader e =
    (if e = lin_var 0 then Inr (interval (finite_ext (- 3)) (finite_ext (- 1)))
     else if e = lin_var 2 \<or> e = lin_var 3 then Inr (interval_num 0xffffffff) else Inr ivl_top)"

definition mixed_values :: valuation where
  "mixed_values v = (if v = 0 then - 2 else if v = 1 then 0xfffffffffffffffe else 0xffffffff)"

lemma signed_32bit_comparison_unsound:
  "sound_reader mixed_values mixed_reader \<and>
   eval_op Cond_SLT (ucast (- 2 :: u64) :: u32) (ucast (0xffffffff :: u64)) \<and>
   mixed_values 0 = sint (- 2 :: u64) \<and> mixed_values 1 = uint (- 2 :: u64) \<and>
   mixed_values 2 = sint (0xffffffff :: u64) \<and> mixed_values 3 = uint (0xffffffff :: u64) \<and>
   assume_cst_reg mixed_reader Cond_SLT False 0 1 2 3 =
     Inr [dsl_less (lin_const (2 ^ 31 - 1)) (lin_var 1), dsl_less (lin_var 1) (lin_var 3), dsl_less (lin_var 0) (lin_var 2)] \<and>
   \<not> lin_holds mixed_values (dsl_less (lin_var 1) (lin_var 3))"
proof (intro conjI)
  show "sound_reader mixed_values mixed_reader"
    by (auto simp: sound_reader_def mixed_reader_def mixed_values_def has_def interval_sound split: if_splits)
  show "eval_op Cond_SLT (ucast (- 2 :: u64) :: u32) (ucast (0xffffffff :: u64))" by code_simp
  show "mixed_values 0 = sint (- 2 :: u64)" "mixed_values 1 = uint (- 2 :: u64)" "mixed_values 2 = sint (0xffffffff :: u64)"
    "mixed_values 3 = uint (0xffffffff :: u64)" by code_simp+
  show "assume_cst_reg mixed_reader Cond_SLT False 0 1 2 3 =
     Inr [dsl_less (lin_const (2 ^ 31 - 1)) (lin_var 1), dsl_less (lin_var 1) (lin_var 3), dsl_less (lin_var 0) (lin_var 2)]"
    by code_simp
  show "\<not> lin_holds mixed_values (dsl_less (lin_var 1) (lin_var 3))" by (simp add: mixed_values_def)
qed

end
