(* ===== verification/Crab_Check_Runs.thy ===== *)
theory Crab_Check_Runs
  imports Crab_Ebpf_Checker Crab_Dbm_Query
begin

text \<open>
  Runs of the checks of \<open>Crab_Ebpf_Checker\<close>: they thread the registry of variable names, which only grows, so that
  facts about variables stay true. \<open>checks\<close> relates a step of a check to what holds of every valuation when the step
  gives no warning, with rules to compose it.
\<close>

section \<open>Runs of actions\<close>

definition yields :: "'a action \<Rightarrow> shared_state \<Rightarrow> 'a \<Rightarrow> shared_state \<Rightarrow> bool" where
  "yields m s x s' \<longleftrightarrow> m s = Some (Inr (x, s'))"

lemma yields_simps [simp]:
  "yields (retA x) s y s' \<longleftrightarrow> y = x \<and> s' = s" "\<not> yields (throwA e) s y s'"
  "yields (resA r) s y s' \<longleftrightarrow> r = Inr y \<and> s' = s"
  "yields (readA f) s y s' \<longleftrightarrow> f (sh_names s) = Some (Inr y) \<and> s' = s"
  "yields (bindA m g) s y s' \<longleftrightarrow> (\<exists>x t. yields m s x t \<and> yields (g x) t y s')"
proof -
  have m: "map_sum id (\<lambda>x. (x, s)) z = Inr (y, s') \<longleftrightarrow> z = Inr y \<and> s' = s" for z :: "exn + 'x" and y
    by (cases z) auto
  note [simp] = action_simps
  show "yields (retA x) s y s' \<longleftrightarrow> y = x \<and> s' = s" "\<not> yields (throwA e) s y s'"
    "yields (bindA mm g) s y' s' \<longleftrightarrow> (\<exists>x t. yields mm s x t \<and> yields (g x) t y' s')" for mm :: "'p action" and g y'
    by (auto simp: yields_def bindA_def bindR_eq_Inr)
  show "yields (resA r) s y s' \<longleftrightarrow> r = Inr y \<and> s' = s" "yields (readA f) s y s' \<longleftrightarrow> f (sh_names s) = Some (Inr y) \<and> s' = s"
    by (auto simp: yields_def resA_def lift_res_def readA_def m)
qed

declare action_simps [simp del]

declare dsl_holds [simp]


lemma yields_nameA: "yields (nameA f) s y s' \<longleftrightarrow> (\<exists>ns. f (sh_names s) = (y, ns) \<and> s' = s\<lparr>sh_names := ns\<rparr>)"
  by (auto simp: yields_def nameA_def split: prod.splits)

text \<open>The registry grows, and a name keeps its variable.\<close>

definition grows :: "shared_state \<Rightarrow> shared_state \<Rightarrow> bool" where
  "grows s s' \<longleftrightarrow> prefix (sh_names s) (sh_names s')"

lemma grows_refl [simp]: "grows s s"
  by (simp add: grows_def)

lemma grows_trans [trans]: "grows s t \<Longrightarrow> grows t u \<Longrightarrow> grows s u"
  by (auto simp: grows_def intro: prefix_order.trans)

definition registered :: "shared_state \<Rightarrow> variable_t \<Rightarrow> bool" where
  "registered s v \<longleftrightarrow> v < length (sh_names s)"

lemma registered_grows: "registered s v \<Longrightarrow> grows s t \<Longrightarrow> registered t v"
  using prefix_length_le by (fastforce simp: registered_def grows_def)

definition factory :: "(names \<Rightarrow> 'a \<times> names) \<Rightarrow> bool" where
  "factory f \<longleftrightarrow> (\<forall>ns v ns' ms. f ns = (v, ns') \<longrightarrow> prefix ns ns' \<and> (prefix ns' ms \<longrightarrow> fst (f ms) = v))"

lemma takeWhile_prefix: "x \<in> set xs \<Longrightarrow> prefix xs ys \<Longrightarrow> takeWhile (\<lambda>y. y \<noteq> x) ys = takeWhile (\<lambda>y. y \<noteq> x) xs"
  by (auto simp: prefix_def takeWhile_append1)

lemma var_make_factory: "factory (var_make n)"
  unfolding factory_def
proof (intro allI impI conjI)
  fix ns v ns' ms assume m: "var_make n ns = (v, ns')"
  show "prefix ns ns'" by (rule var_make_name(3) [OF m])
  assume p: "prefix ns' ms"
  have n: "n \<in> set ns'" by (rule var_make_name(5) [OF m])
  have new: "takeWhile (\<lambda>y. y \<noteq> n) (ns @ [n]) = ns" if "n \<notin> set ns" using that by (subst takeWhile_append2) auto
  have "v = length (takeWhile (\<lambda>y. y \<noteq> n) ns')"
    using m new by (auto simp: var_make_def split: if_splits)
  moreover have "n \<in> set ms" using n p by (auto simp: prefix_def)
  ultimately show "fst (var_make n ms) = v" using takeWhile_prefix [OF n p] by (simp add: var_make_def)
qed

lemma factoryD:
  assumes "factory f" "yields (nameA f) s v s'"
  shows "grows s s'" "grows s' t \<Longrightarrow> fst (f (sh_names t)) = v"
  using assms by (auto simp: factory_def grows_def yields_nameA)

lemma var_make_registered: "yields (nameA (var_make n)) s v s' \<Longrightarrow> registered s' v"
  using var_make_name(1) by (auto simp: yields_nameA registered_def)

lemma factory_bind:
  assumes "factory f" "\<And>x. factory (g x)"
  shows "factory (\<lambda>ns. case f ns of (x, ns') \<Rightarrow> g x ns')"
  unfolding factory_def
proof (intro allI impI conjI)
  fix ns v ns' ms assume r: "(case f ns of (x, ns') \<Rightarrow> g x ns') = (v, ns')"
  obtain x ns1 where x: "f ns = (x, ns1)" "g x ns1 = (v, ns')" using r by (auto split: prod.splits)
  have p: "prefix ns ns1" "prefix ns1 ns'" using assms x by (auto simp: factory_def)
  then show "prefix ns ns'" by (rule prefix_order.trans)
  assume ms: "prefix ns' ms"
  then have "fst (f ms) = x" using assms(1) x(1) p(2) prefix_order.trans by (fastforce simp: factory_def)
  obtain ms1 where ms1: "f ms = (x, ms1)" using \<open>fst (f ms) = x\<close> by (cases "f ms") simp
  have "prefix ms ms1" using assms(1) ms1 by (simp add: factory_def)
  then have "prefix ns' ms1" using ms by (rule prefix_order.trans [rotated])
  then have "fst (g x ms1) = v" using assms(2) [of x] x(2) by (simp add: factory_def)
  then show "fst (case f ms of (x, ns') \<Rightarrow> g x ns') = v" using ms1 by simp
qed

lemma factory_ret: "factory (Pair x)"
  by (simp add: factory_def)

lemma var_reg_factory: "factory (var_reg k i)"
  unfolding var_reg_def [abs_def] by (rule var_make_factory)

lemma reg_pack_factory: "factory (reg_pack i)"
proof -
  have "reg_pack i = (\<lambda>ns. case var_reg svalues i ns of (a, ns) \<Rightarrow> case var_reg uvalues i ns of (b, ns) \<Rightarrow>
      case var_reg ctx_offsets i ns of (c, ns) \<Rightarrow> case var_reg map_fds i ns of (d, ns) \<Rightarrow> case var_reg packet_offsets i ns of (e, ns) \<Rightarrow>
      case var_reg shared_offsets i ns of (f, ns) \<Rightarrow> case var_reg stack_offsets i ns of (g, ns) \<Rightarrow> case var_reg types i ns of (h, ns) \<Rightarrow>
      case var_reg shared_region_sizes i ns of (j, ns) \<Rightarrow> case var_reg stack_numeric_sizes i ns of (k, ns) \<Rightarrow>
      Pair \<lparr>rp_svalue = a, rp_uvalue = b, rp_ctx_offset = c, rp_map_fd = d, rp_packet_offset = e, rp_shared_offset = f,
        rp_stack_offset = g, rp_type = h, rp_shared_region_size = j, rp_stack_numeric_size = k\<rparr> ns)"
    by (simp add: reg_pack_def fun_eq_iff)
  then show ?thesis by (simp only:) (intro factory_bind factory_ret var_reg_factory)
qed

definition pack_registered :: "shared_state \<Rightarrow> reg_pack_t \<Rightarrow> bool" where
  "pack_registered s p \<longleftrightarrow> (\<forall>v \<in> {rp_svalue p, rp_uvalue p, rp_ctx_offset p, rp_map_fd p, rp_packet_offset p, rp_shared_offset p,
     rp_stack_offset p, rp_type p, rp_shared_region_size p, rp_stack_numeric_size p}. registered s v)"

lemma pack_registered_grows: "pack_registered s p \<Longrightarrow> grows s t \<Longrightarrow> pack_registered t p"
  using registered_grows by (auto simp: pack_registered_def)

lemma regpackA_props:
  assumes "yields (regpackA r) s p s'"
  shows "grows s s'" "pack_registered s' p" "grows s' t \<Longrightarrow> fst (reg_pack (uint (reg_v r)) (sh_names t)) = p"
proof -
  note f = factoryD [OF reg_pack_factory assms [unfolded regpackA_def]]
  show "grows s s'" "grows s' t \<Longrightarrow> fst (reg_pack (uint (reg_v r)) (sh_names t)) = p" by (rule f, assumption?)+
  obtain ns where ns: "reg_pack (uint (reg_v r)) (sh_names s) = (p, ns)" "sh_names s' = ns"
    using assms by (auto simp: regpackA_def yields_nameA)
  have v: "var_reg k i ns = (v, ns') \<Longrightarrow> v < length ns' \<and> length ns \<le> length ns'" for k i ns v ns'
    using var_make_name(1,3) [of _ ns v ns'] prefix_length_le by (fastforce simp: var_reg_def)
  show "pack_registered s' p"
    using ns by (auto simp: reg_pack_def pack_registered_def registered_def Let_def split: prod.splits dest!: v)
qed

section \<open>Zones with room\<close>

text \<open>Room for the variables of one constraint, of which the checks use at most four.\<close>

definition spacious :: "shared_state \<Rightarrow> split_dbm \<Rightarrow> bool" where
  "spacious s d \<longleftrightarrow> dbm_ok d \<and> dom (vm d) \<subseteq> {v. registered s v} \<and> card (verts (db_g d)) + 4 \<le> 65536"

definition nd_spacious :: "shared_state \<Rightarrow> num_domain \<Rightarrow> bool" where
  "nd_spacious s x = (case x of None \<Rightarrow> True | Some d \<Rightarrow> spacious s d)"

definition nd_gamma :: "num_domain \<Rightarrow> valuation set" where
  "nd_gamma x = (case x of None \<Rightarrow> {} | Some d \<Rightarrow> dbm_gamma d)"

lemma nd_spacious_grows: "nd_spacious s x \<Longrightarrow> grows s t \<Longrightarrow> nd_spacious t x"
  using registered_grows by (fastforce simp: nd_spacious_def spacious_def split: option.splits)

definition vars_of :: "linear_expression_t \<Rightarrow> variable_t set" where
  "vars_of e = fst ` set (variable_terms e)"

definition expr_ok :: "shared_state \<Rightarrow> nat \<Rightarrow> linear_expression_t \<Rightarrow> bool" where
  "expr_ok s k e \<longleftrightarrow> lin_ok e \<and> vars_of e \<subseteq> {v. registered s v} \<and> card (vars_of e) \<le> k"

definition cst_ok :: "shared_state \<Rightarrow> linear_constraint_t \<Rightarrow> bool" where
  "cst_ok s c \<longleftrightarrow> expr_ok s 4 (cst_expression c)"

lemma spacious_good:
  assumes "spacious s d" "cst_ok s c"
  shows "good (sh_names s) (cst_vars c) d" "lin_ok (cst_expression c)"
proof -
  have "card (cst_vars c - dom (vm d)) \<le> card (cst_vars c)" by (intro card_mono) auto
  then show "good (sh_names s) (cst_vars c) d" "lin_ok (cst_expression c)"
    using assms by (auto simp: spacious_def cst_ok_def expr_ok_def vars_of_def good_def roomy_def registered_def lessThan_def)
qed

lemma omap_put_vars: "fst ` set (omap_put v c m) \<subseteq> insert v (fst ` set m)"
  by (induction v c m rule: omap_put.induct) auto

lemma fold_put_vars:
  "fst ` set (fold (\<lambda>(v, c) m. omap_put v (g v c) m) es m) \<subseteq> fst ` set m \<union> fst ` set es"
proof (induction es arbitrary: m)
  case (Cons e es)
  obtain v c where e: "e = (v, c)" by (cases e)
  show ?case using Cons [of "omap_put v (g v c) m"] omap_put_vars [of v "g v c" m] e by auto
qed simp

lemma lin_make_vars: "vars_of (lin_make m k) \<subseteq> fst ` set m"
  by (auto simp: vars_of_def lin_make_def)

lemma lin_combine_vars: "vars_of (lin_plus e f) \<subseteq> vars_of e \<union> vars_of f" "vars_of (lin_subtract e f) \<subseteq> vars_of e \<union> vars_of f"
proof -
  show "vars_of (lin_plus e f) \<subseteq> vars_of e \<union> vars_of f"
    using order_trans [OF lin_make_vars fold_put_vars [of "\<lambda>v c. coefficient_of e v + c" "variable_terms f" "variable_terms e"]]
    by (simp only: lin_plus_def vars_of_def)
  show "vars_of (lin_subtract e f) \<subseteq> vars_of e \<union> vars_of f"
    using order_trans [OF lin_make_vars fold_put_vars [of "\<lambda>v c. coefficient_of e v - c" "variable_terms f" "variable_terms e"]]
    by (simp only: lin_subtract_def vars_of_def)
qed

lemma expr_ok_base: "registered s v \<Longrightarrow> expr_ok s 1 (lin_var v)" "expr_ok s 0 (lin_const k)"
  by (simp_all add: expr_ok_def vars_of_def lin_var_def lin_const_def lin_ok_def omap_ok_def)

lemma expr_ok_combine:
  assumes "expr_ok s j e" "expr_ok s k f"
  shows "expr_ok s (j + k) (lin_plus e f)" "expr_ok s (j + k) (lin_subtract e f)"
proof -
  have fin: "finite (vars_of e \<union> vars_of f)" by (simp add: vars_of_def)
  have "card (vars_of e \<union> vars_of f) \<le> j + k" using card_Un_le [of "vars_of e" "vars_of f"] assms by (simp add: expr_ok_def)
  then have "card V \<le> j + k" if "V \<subseteq> vars_of e \<union> vars_of f" for V using card_mono [OF fin that] by simp
  then show "expr_ok s (j + k) (lin_plus e f)" "expr_ok s (j + k) (lin_subtract e f)"
    using assms lin_combine_vars [of e f] lin_plus_sound [of e f] lin_subtract_sound [of e f]
    by (simp_all add: expr_ok_def) (meson Un_least subset_trans)+
qed

lemma expr_ok_grows: "expr_ok s k e \<Longrightarrow> grows s t \<Longrightarrow> expr_ok t k e"
  using registered_grows by (fastforce simp: expr_ok_def)

lemma cst_okI:
  assumes "expr_ok s j e" "expr_ok s k f" "j + k \<le> 4"
  shows "cst_ok s (dsl_le e f)" "cst_ok s (dsl_ge e f)" "cst_ok s (dsl_less e f)" "cst_ok s (dsl_greater e f)"
    "cst_ok s (dsl_eq e f)" "cst_ok s (dsl_neq e f)"
  using expr_ok_combine(2) [OF assms(1,2)] expr_ok_combine(2) [OF assms(2,1)] assms(3)
  by (auto simp: cst_ok_def dsl_le_def dsl_ge_def dsl_less_def dsl_greater_def dsl_eq_def dsl_neq_def mk_cst_def expr_ok_def)

lemma entailA_sound:
  assumes "nd_spacious s x" "cst_ok s c" "yields (entailA c x) s True s'" "\<sigma> \<in> nd_gamma x"
  shows "lin_holds \<sigma> c"
proof -
  obtain d where d: "x = Some d" "\<sigma> \<in> dbm_gamma d" using assms(4) by (auto simp: nd_gamma_def split: option.splits)
  have g: "good (sh_names s) (cst_vars c) d" "lin_ok (cst_expression c)"
    using spacious_good assms(1,2) d(1) by (simp_all add: nd_spacious_def)
  show ?thesis
    using dbm_entail_ok [OF g subset_refl] assms(3) d by (auto simp: entailA_def nd_entail_def)
qed

lemma evalA_sound:
  assumes "nd_spacious s x" "yields (evalA e x) s i s'" "\<sigma> \<in> nd_gamma x"
  shows "ivl_ok i" "lin_eval \<sigma> e \<in> gamma_ivl i"
proof -
  obtain d where d: "x = Some d" "\<sigma> \<in> dbm_gamma d" using assms(3) by (auto simp: nd_gamma_def split: option.splits)
  have "dbm_shape d" "dom (vm d) \<subseteq> {..<length (sh_names s)}"
    using assms(1) d(1) by (auto simp: nd_spacious_def spacious_def dbm_ok_def registered_def)
  then show "ivl_ok i" "lin_eval \<sigma> e \<in> gamma_ivl i"
    using eval_interval_sound [of d "sh_names s" e] assms(2) d by (auto simp: evalA_def nd_eval_interval_def lift_res_def)
qed

section \<open>Actions that only register names\<close>

definition calm :: "'a action \<Rightarrow> bool" where
  "calm m \<longleftrightarrow> (\<forall>s x s'. yields m s x s' \<longrightarrow> grows s s')"

lemma calmD: "calm m \<Longrightarrow> yields m s x s' \<Longrightarrow> grows s s'"
  by (auto simp: calm_def)

lemma calm_base:
  "calm (retA x)" "calm (throwA e)" "calm (resA r)" "calm (readA f)" "factory n \<Longrightarrow> calm (nameA n)"
  using factoryD(1) by (auto simp: calm_def)

lemma calm_bind: "calm m \<Longrightarrow> (\<And>x. calm (f x)) \<Longrightarrow> calm (bindA m f)"
  unfolding calm_def by (fastforce intro: grows_trans)

lemma calm_if: "calm m \<Longrightarrow> calm n \<Longrightarrow> calm (if b then m else n)"
  by simp

lemma calm_queries:
  "calm (entailA c x)" "calm (evalA e x)" "calm (indexA v x)" "calm (regpackA r)" "calm (var_nameA v)" "calm (reg_var_name k r)"
  unfolding entailA_def evalA_def indexA_def regpackA_def var_nameA_def reg_var_name_def
  by (intro calm_bind calm_base reg_pack_factory var_reg_factory)+

lemma calm_all_num: "calm (array_all_num a x l u)"
  unfolding array_all_num_def by (auto intro!: calm_bind calm_queries calm_base split: option.splits)

lemma calm_assertion_to_string: "calm (assertion_to_string E a)"
proof -
  have t: "calm (type_constraint_to_string r g)" for r g
    unfolding type_constraint_to_string_def by (intro calm_bind calm_queries calm_base)
  have l: "calm (nameA (loop_counter n))" for n
    unfolding loop_counter_def [abs_def] by (intro calm_base var_make_factory)
  show ?thesis
    unfolding assertion_to_string_def valid_access_to_string_def
    by (cases a; simp only: Assertion.case) (intro calm_bind calm_if calm_queries calm_base t l)+
qed

section \<open>Requirements\<close>

text \<open>
  \<open>checks s0 m \<Phi>\<close>: a run of the step \<open>m\<close> of a check, from any state that extends \<open>s0\<close>, leaves the abstract state
  as it is and adds warnings; when it adds none, \<open>\<Phi>\<close> holds of every valuation. Facts about variables are
  facts about the registry, which stay true when it grows.
\<close>

definition checks ::
  "shared_state \<Rightarrow> (num_domain \<times> checker_t \<Rightarrow> (num_domain \<times> checker_t) action) \<Rightarrow> (shared_state \<Rightarrow> num_domain \<Rightarrow> valuation \<Rightarrow> bool) \<Rightarrow> bool" where
  "checks s0 m \<Phi> \<longleftrightarrow> (\<forall>st s x' st' s'. grows s0 s \<longrightarrow> nd_spacious s (ck_inv st) \<longrightarrow> yields (m (ck_inv st, st)) s (x', st') s' \<longrightarrow>
     x' = ck_inv st \<and> ck_dom st' = ck_dom st \<and> grows s s' \<and>
     (\<exists>ws. ck_warnings st' = ck_warnings st @ ws \<and>
       (ws = [] \<longrightarrow> (\<forall>\<sigma> \<in> nd_gamma (ck_inv st). \<forall>t. grows s' t \<longrightarrow> \<Phi> t (ck_inv st) \<sigma>))))"

lemma checks_mono: "checks s0 m \<Phi> \<Longrightarrow> (\<And>t x \<sigma>. grows s0 t \<Longrightarrow> \<Phi> t x \<sigma> \<Longrightarrow> \<Psi> t x \<sigma>) \<Longrightarrow> checks s0 m \<Psi>"
  unfolding checks_def by (meson grows_trans)

lemma checks_grows: "checks s0 m \<Phi> \<Longrightarrow> grows s0 t \<Longrightarrow> checks t m \<Phi>"
  unfolding checks_def by (meson grows_trans)

lemma checks_ret: "checks s0 retA (\<lambda>t x \<sigma>. True)"
  by (simp add: checks_def)

lemma checks_bind:
  assumes "checks s0 m \<Phi>" "checks s0 n \<Psi>"
  shows "checks s0 (\<lambda>x. bindA (m x) n) (\<lambda>t x \<sigma>. \<Phi> t x \<sigma> \<and> \<Psi> t x \<sigma>)"
  unfolding checks_def
proof (intro allI impI)
  fix st s x' st' s'
  assume g: "grows s0 s" "nd_spacious s (ck_inv st)" "yields (bindA (m (ck_inv st, st)) n) s (x', st') s'"
  then obtain x1 st1 s1 where r: "yields (m (ck_inv st, st)) s (x1, st1) s1" "yields (n (x1, st1)) s1 (x', st') s'" by auto
  obtain ws where w: "x1 = ck_inv st" "ck_dom st1 = ck_dom st" "grows s s1" "ck_warnings st1 = ck_warnings st @ ws"
    "ws = [] \<longrightarrow> (\<forall>\<sigma> \<in> nd_gamma (ck_inv st). \<forall>t. grows s1 t \<longrightarrow> \<Phi> t (ck_inv st) \<sigma>)"
    using assms(1) g(1,2) r(1) unfolding checks_def by blast
  have "grows s0 s1" "nd_spacious s1 (ck_inv st1)" "yields (n (ck_inv st1, st1)) s1 (x', st') s'"
    using grows_trans [OF g(1) w(3)] nd_spacious_grows [OF g(2) w(3)] w(1,2) r(2) by simp_all
  then obtain vs where v: "x' = ck_inv st1" "ck_dom st' = ck_dom st1" "grows s1 s'" "ck_warnings st' = ck_warnings st1 @ vs"
    "vs = [] \<longrightarrow> (\<forall>\<sigma> \<in> nd_gamma (ck_inv st1). \<forall>t. grows s' t \<longrightarrow> \<Psi> t (ck_inv st1) \<sigma>)"
    using assms(2) unfolding checks_def by blast
  show "x' = ck_inv st \<and> ck_dom st' = ck_dom st \<and> grows s s' \<and>
     (\<exists>ws. ck_warnings st' = ck_warnings st @ ws \<and>
       (ws = [] \<longrightarrow> (\<forall>\<sigma> \<in> nd_gamma (ck_inv st). \<forall>t. grows s' t \<longrightarrow> \<Phi> t (ck_inv st) \<sigma> \<and> \<Psi> t (ck_inv st) \<sigma>)))"
    using w v grows_trans [OF w(3) v(3)] grows_trans [OF v(3)] by (auto intro!: exI [of _ "ws @ vs"])
qed

lemma checks_let:
  assumes "calm a" "\<And>s v s'. grows s0 s \<Longrightarrow> yields a s v s' \<Longrightarrow> checks s' (f v) \<Phi>"
  shows "checks s0 (\<lambda>x. bindA a (\<lambda>v. f v x)) \<Phi>"
  unfolding checks_def
proof (intro allI impI)
  fix st s x' st' s'
  assume g: "grows s0 s" "nd_spacious s (ck_inv st)" "yields (bindA a (\<lambda>v. f v (ck_inv st, st))) s (x', st') s'"
  then obtain v s1 where r: "yields a s v s1" "yields (f v (ck_inv st, st)) s1 (x', st') s'" by auto
  have s1: "grows s s1" by (rule calmD [OF assms(1) r(1)])
  have "checks s1 (f v) \<Phi>" by (rule assms(2) [OF g(1) r(1)])
  then show "x' = ck_inv st \<and> ck_dom st' = ck_dom st \<and> grows s s' \<and>
     (\<exists>ws. ck_warnings st' = ck_warnings st @ ws \<and> (ws = [] \<longrightarrow> (\<forall>\<sigma> \<in> nd_gamma (ck_inv st). \<forall>t. grows s' t \<longrightarrow> \<Phi> t (ck_inv st) \<sigma>)))"
    using nd_spacious_grows [OF g(2) s1] r(2) grows_trans [OF s1] unfolding checks_def by (meson grows_refl)
qed

lemma check_require_sound:
  assumes "yields (check_require x c) s b s'"
  shows "grows s s'" "b \<Longrightarrow> nd_spacious s x \<Longrightarrow> cst_ok s c \<Longrightarrow> \<sigma> \<in> nd_gamma x \<Longrightarrow> lin_holds \<sigma> c"
proof -
  show "grows s s'" using assms by (auto simp: check_require_def entailA_def split: if_splits)
  assume b: "b" "nd_spacious s x" "cst_ok s c" "\<sigma> \<in> nd_gamma x"
  then have "\<not> nd_is_bottom x" by (auto simp: nd_gamma_def nd_is_bottom_def split: option.splits)
  then obtain t where "yields (entailA c x) s True t" using assms b(1) by (auto simp: check_require_def split: if_splits)
  then show "lin_holds \<sigma> c" using entailA_sound b(2-4) by blast
qed

lemma checks_require:
  assumes C: "ce_mode C = Check_mode" and c: "cst_ok s0 c"
  shows "checks s0 (require_in C c msg) (\<lambda>t x \<sigma>. lin_holds \<sigma> c)"
  unfolding checks_def
proof (intro allI impI)
  fix st s x' st' s'
  assume g: "grows s0 s" "nd_spacious s (ck_inv st)" "yields (require_in C c msg (ck_inv st, st)) s (x', st') s'"
  obtain a s1 good where r: "yields (assertion_to_string (ce_env C) (ce_assertion C)) s a s1" "yields (check_require (ck_inv st) c) s1 good s'"
    "x' = ck_inv st" "st' = (if good then st else st\<lparr>ck_warnings := ck_warnings st @ [msg @ '' ('' @ a @ '')'']\<rparr>)"
    using g(3) C by (auto simp: require_in_def)
  have s1: "grows s s1" by (rule calmD [OF calm_assertion_to_string r(1)])
  have ok: "cst_ok s1 c" using c grows_trans [OF g(1) s1] expr_ok_grows by (auto simp: cst_ok_def)
  note req = check_require_sound [OF r(2)]
  have "lin_holds \<sigma> c" if "good" "\<sigma> \<in> nd_gamma (ck_inv st)" for \<sigma>
    using req(2) that nd_spacious_grows [OF g(2) s1] ok by blast
  then show "x' = ck_inv st \<and> ck_dom st' = ck_dom st \<and> grows s s' \<and>
     (\<exists>ws. ck_warnings st' = ck_warnings st @ ws \<and>
       (ws = [] \<longrightarrow> (\<forall>\<sigma> \<in> nd_gamma (ck_inv st). \<forall>t. grows s' t \<longrightarrow> lin_holds \<sigma> c)))"
    using r(3,4) grows_trans [OF s1 req(1)] by (cases good) auto
qed

lemma false_const_ok: "cst_ok s false_const"
  by (simp add: cst_ok_def false_const_def mk_cst_def expr_ok_def vars_of_def lin_const_def lin_ok_def omap_ok_def)

lemma checks_fail:
  assumes "ce_mode C = Check_mode"
  shows "checks s0 (fail_outside C msg) (\<lambda>t x \<sigma>. False)"
  unfolding checks_def
proof (intro allI impI)
  fix st s x' st' s'
  assume g: "grows s0 s" "nd_spacious s (ck_inv st)" "yields (fail_outside C msg (ck_inv st, st)) s (x', st') s'"
  obtain y st1 where r: "yields (require_in C false_const msg (ck_inv st, st)) s (y, st1) s'" "st' = set_ck_inv y st1" "x' = ck_inv st"
    using g(3) by (auto simp: fail_outside_def fail_check_def require_def)
  obtain ws where w: "y = ck_inv st" "ck_dom st1 = ck_dom st" "grows s s'" "ck_warnings st1 = ck_warnings st @ ws"
    "ws = [] \<longrightarrow> (\<forall>\<sigma> \<in> nd_gamma (ck_inv st). \<forall>t. grows s' t \<longrightarrow> lin_holds \<sigma> false_const)"
    using checks_require [OF assms false_const_ok [of s0], of msg] g(1,2) r(1) unfolding checks_def by blast
  have "\<not> lin_holds \<sigma> false_const" for \<sigma> by (simp add: false_const_def lin_holds_def mk_cst_def)
  then show "x' = ck_inv st \<and> ck_dom st' = ck_dom st \<and> grows s s' \<and>
     (\<exists>ws. ck_warnings st' = ck_warnings st @ ws \<and> (ws = [] \<longrightarrow> (\<forall>\<sigma> \<in> nd_gamma (ck_inv st). \<forall>t. grows s' t \<longrightarrow> False)))"
    using w r(2,3) by (auto simp: set_ck_inv_def intro: grows_refl)
qed

lemma checks_if: "(b \<Longrightarrow> checks s0 m \<Phi>) \<Longrightarrow> (\<not> b \<Longrightarrow> checks s0 n \<Phi>) \<Longrightarrow> checks s0 (\<lambda>x. if b then m x else n x) \<Phi>"
  by (cases b) simp_all

end
