(* ===== verification/Crab_Check_Sound.thy ===== *)
theory Crab_Check_Sound
  imports Crab_Check_Runs
begin

text \<open>
  Soundness of the checks: when checking an assertion on an abstract state gives no warning, every valuation of
  the state satisfies what the assertion says. Memory accesses come first, for one type of the accessed register
  and then for all types it can have; then the requirements on single registers; then all assertions.
\<close>

section \<open>Memory accesses\<close>

definition pack :: "shared_state \<Rightarrow> Reg \<Rightarrow> reg_pack_t" where
  "pack t r = fst (reg_pack (uint (reg_v r)) (sh_names t))"

definition meta_var :: "shared_state \<Rightarrow> variable_t" where "meta_var t = fst (meta_offset (sh_names t))"
definition size_var_of :: "shared_state \<Rightarrow> variable_t" where "size_var_of t = fst (packet_size (sh_names t))"

definition access_width :: "shared_state \<Rightarrow> valid_access_t \<Rightarrow> valuation \<Rightarrow> int" where
  "access_width t s \<sigma> = (case va_width s of Imm w \<Rightarrow> uint w | RegV r \<Rightarrow> \<sigma> (rp_svalue (pack t r)))"

lemma expr_ok_le: "expr_ok s k e \<Longrightarrow> k \<le> n \<Longrightarrow> expr_ok s n e"
  by (simp add: expr_ok_def)

lemma lb_ub_access_pair_props:
  assumes "yields (lb_ub_access_pair s v) st (lb, ub) st'" "registered st v"
  shows "grows st st'" "expr_ok st' 1 lb" "expr_ok st' 2 ub" "lin_eval \<sigma> lb = \<sigma> v + va_offset s"
    "grows st' t \<Longrightarrow> lin_eval \<sigma> ub = \<sigma> v + va_offset s + access_width t s \<sigma>"
proof -
  let ?lb = "lin_plus (lin_var v) (lin_const (va_offset s))"
  have lb: "lb = ?lb" using assms(1) by (auto simp: lb_ub_access_pair_def Let_def split: val.splits)
  have ev: "lin_eval \<sigma> ?lb = \<sigma> v + va_offset s" "lin_ok ?lb" using lin_plus_sound [of "lin_var v" "lin_const (va_offset s)"] by simp_all
  then show "lin_eval \<sigma> lb = \<sigma> v + va_offset s" using lb by simp
  have ok: "expr_ok t 1 ?lb" if "grows st t" for t
    using expr_ok_combine(1) [OF expr_ok_base(1) [OF registered_grows [OF assms(2) that]] expr_ok_base(2)] by simp
  have "grows st st' \<and> expr_ok st' 2 ub \<and> (grows st' t \<longrightarrow> lin_eval \<sigma> ub = \<sigma> v + va_offset s + access_width t s \<sigma>)"
  proof (cases "va_width s")
    case (Imm w)
    then have "ub = lin_plus ?lb (lin_const (uint w))" "st' = st" using assms(1) by (simp_all add: lb_ub_access_pair_def Let_def)
    then show ?thesis using Imm ev lin_plus_sound [of ?lb "lin_const (uint w)"] expr_ok_combine(1) [OF ok expr_ok_base(2), of st "uint w"]
      by (simp add: access_width_def expr_ok_le)
  next
    case (RegV r)
    then obtain p where p: "yields (regpackA r) st p st'" "ub = lin_plus ?lb (lin_var (rp_svalue p))"
      using assms(1) by (auto simp: lb_ub_access_pair_def Let_def)
    note r = regpackA_props [OF p(1)]
    have "expr_ok st' 2 ub"
      using expr_ok_combine(1) [OF ok [OF r(1)] expr_ok_base(1), of "rp_svalue p"] r(2) p(2) by (simp add: pack_registered_def numeral_2_eq_2)
    then show ?thesis using RegV r(1,3) p(2) ev lin_plus_sound [of ?lb "lin_var (rp_svalue p)"] by (simp add: access_width_def pack_def)
  qed
  then show "grows st st'" "expr_ok st' 2 ub" "grows st' t \<Longrightarrow> lin_eval \<sigma> ub = \<sigma> v + va_offset s + access_width t s \<sigma>" by simp_all
  then show "expr_ok st' 1 lb" using ok lb by simp
qed

lemma checks_access_packet:
  assumes C: "ce_mode C = Check_mode" and e: "expr_ok s0 1 lb" "expr_ok s0 2 ub" and v: "\<And>v. size_var = Some v \<Longrightarrow> registered s0 v"
  shows "checks s0 (check_access_packet C lb ub size_var)
    (\<lambda>t x \<sigma>. \<sigma> (meta_var t) \<le> lin_eval \<sigma> lb \<and> lin_eval \<sigma> ub \<le> (case size_var of Some v \<Rightarrow> \<sigma> v | None \<Rightarrow> MAX_PACKET_SIZE))"
  unfolding check_access_packet_def [abs_def]
proof (rule checks_let)
  have f: "factory meta_offset" unfolding meta_offset_def [abs_def] by (rule var_make_factory)
  show "calm (nameA meta_offset)" by (rule calm_base(5) [OF f])
  fix s meta s' assume s: "grows s0 s" and r: "yields (nameA meta_offset) s meta s'"
  note m = factoryD [OF f r]
  have reg: "registered s' meta" using r var_make_registered unfolding meta_offset_def [abs_def] by blast
  have s': "grows s0 s'" using s m(1) by (rule grows_trans)
  note e' = expr_ok_grows [OF e(1) s'] expr_ok_grows [OF e(2) s']
  have lower: "checks s' (require_in C (dsl_ge lb (lin_var meta)) ''Lower bound must be at least meta_offset'')
      (\<lambda>t x \<sigma>. \<sigma> (meta_var t) \<le> lin_eval \<sigma> lb)"
    by (rule checks_mono [OF checks_require [OF C]])
       (use cst_okI(2) [OF e'(1) expr_ok_base(1) [OF reg]] e(1) m(2) in \<open>simp_all add: expr_ok_def meta_var_def\<close>)
  have upper: "checks s' (\<lambda>x. case size_var of
        Some v \<Rightarrow> require_in C (dsl_le ub (lin_var v)) ''Upper bound must be at most packet_size'' x
      | None \<Rightarrow> require_in C (dsl_le ub (lin_const MAX_PACKET_SIZE)) (''Upper bound must be at most '' @ int_to_string MAX_PACKET_SIZE) x)
      (\<lambda>t x \<sigma>. lin_eval \<sigma> ub \<le> (case size_var of Some v \<Rightarrow> \<sigma> v | None \<Rightarrow> MAX_PACKET_SIZE))"
  proof (cases size_var)
    case None
    have "cst_ok s' (dsl_le ub (lin_const MAX_PACKET_SIZE))" by (rule cst_okI(1) [OF e'(2) expr_ok_base(2)]) simp
    from checks_require [OF C this] show ?thesis unfolding None option.case
      by (rule checks_mono) (use e(2) in \<open>simp add: expr_ok_def\<close>)
  next
    case (Some v)
    have "cst_ok s' (dsl_le ub (lin_var v))"
      by (rule cst_okI(1) [OF e'(2) expr_ok_base(1) [OF registered_grows [OF v [OF Some] s']]]) simp
    from checks_require [OF C this] show ?thesis unfolding Some option.case
      by (rule checks_mono) (use e(2) in \<open>simp add: expr_ok_def\<close>)
  qed
  from checks_bind [OF lower upper]
  show "checks s' (\<lambda>x. bindA (require_in C (dsl_ge lb (lin_var meta)) ''Lower bound must be at least meta_offset'' x) (\<lambda>x. case size_var of
        Some v \<Rightarrow> require_in C (dsl_le ub (lin_var v)) ''Upper bound must be at most packet_size'' x
      | None \<Rightarrow> require_in C (dsl_le ub (lin_const MAX_PACKET_SIZE)) (''Upper bound must be at most '' @ int_to_string MAX_PACKET_SIZE) x))
      (\<lambda>t x \<sigma>. \<sigma> (meta_var t) \<le> lin_eval \<sigma> lb \<and> lin_eval \<sigma> ub \<le> (case size_var of Some v \<Rightarrow> \<sigma> v | None \<Rightarrow> MAX_PACKET_SIZE))" .
qed

text \<open>Requirements that one expression is below another, where both use few variables.\<close>

lemma checks_below:
  assumes "ce_mode C = Check_mode" "expr_ok s0 j e" "expr_ok s0 k f" "j + k \<le> 4"
  shows "checks s0 (require_in C (dsl_le e f) msg) (\<lambda>t x \<sigma>. lin_eval \<sigma> e \<le> lin_eval \<sigma> f)"
    "checks s0 (require_in C (dsl_ge f e) msg) (\<lambda>t x \<sigma>. lin_eval \<sigma> e \<le> lin_eval \<sigma> f)"
    "checks s0 (require_in C (dsl_greater f e) msg) (\<lambda>t x \<sigma>. lin_eval \<sigma> e < lin_eval \<sigma> f)"
    "checks s0 (require_in C (dsl_eq e f) msg) (\<lambda>t x \<sigma>. lin_eval \<sigma> e = lin_eval \<sigma> f)"
proof -
  have ok: "lin_ok e" "lin_ok f" using assms(2,3) by (simp_all add: expr_ok_def)
  have "k + j \<le> 4" using assms(4) by simp
  note c = cst_okI [OF assms(2,3,4)] cst_okI [OF assms(3,2) this]
  note r = checks_require [OF assms(1)]
  show "checks s0 (require_in C (dsl_le e f) msg) (\<lambda>t x \<sigma>. lin_eval \<sigma> e \<le> lin_eval \<sigma> f)"
    using r [OF c(1)] by (rule checks_mono) (use ok in simp)
  show "checks s0 (require_in C (dsl_ge f e) msg) (\<lambda>t x \<sigma>. lin_eval \<sigma> e \<le> lin_eval \<sigma> f)"
    using r [OF c(8)] by (rule checks_mono) (use ok in simp)
  show "checks s0 (require_in C (dsl_greater f e) msg) (\<lambda>t x \<sigma>. lin_eval \<sigma> e < lin_eval \<sigma> f)"
    using r [OF c(10)] by (rule checks_mono) (use ok in simp)
  show "checks s0 (require_in C (dsl_eq e f) msg) (\<lambda>t x \<sigma>. lin_eval \<sigma> e = lin_eval \<sigma> f)"
    using r [OF c(5)] by (rule checks_mono) (use ok in simp)
qed

lemma checks_access_context:
  assumes C: "ce_mode C = Check_mode" and e: "expr_ok s0 1 lb" "expr_ok s0 2 ub"
  shows "checks s0 (check_access_context C lb ub)
    (\<lambda>t x \<sigma>. 0 \<le> lin_eval \<sigma> lb \<and> (\<exists>desc. context_descriptor (ce_env C) = Inr desc \<and> lin_eval \<sigma> ub \<le> ctx_size desc))"
proof -
  have lower: "checks s0 (require_in C (dsl_ge lb (lin_const 0)) ''Lower bound must be at least 0'') (\<lambda>t x \<sigma>. 0 \<le> lin_eval \<sigma> lb)"
    by (rule checks_mono [OF checks_below(2) [OF C expr_ok_base(2) e(1)]]) simp_all
  have upper: "checks s0 (\<lambda>x. bindA (resA (context_descriptor (ce_env C))) (\<lambda>desc.
      require_in C (dsl_le ub (lin_const (ctx_size desc))) (''Upper bound must be at most '' @ int_to_string (ctx_size desc)) x))
      (\<lambda>t x \<sigma>. \<exists>desc. context_descriptor (ce_env C) = Inr desc \<and> lin_eval \<sigma> ub \<le> ctx_size desc)"
  proof (rule checks_let)
    fix s desc s' assume g: "grows s0 s" "yields (resA (context_descriptor (ce_env C))) s desc s'"
    then have "grows s0 s'" "context_descriptor (ce_env C) = Inr desc" by simp_all
    then show "checks s' (require_in C (dsl_le ub (lin_const (ctx_size desc))) (''Upper bound must be at most '' @ int_to_string (ctx_size desc)))
        (\<lambda>t x \<sigma>. \<exists>desc. context_descriptor (ce_env C) = Inr desc \<and> lin_eval \<sigma> ub \<le> ctx_size desc)"
      by (intro checks_mono [OF checks_below(1) [OF C expr_ok_grows [OF e(2)] expr_ok_base(2)]]) simp_all
  qed (rule calm_base)
  show ?thesis using checks_bind [OF lower upper] unfolding check_access_context_def [abs_def] .
qed

lemma checks_access_shared:
  assumes C: "ce_mode C = Check_mode" and e: "expr_ok s0 1 lb" "expr_ok s0 2 ub" and v: "registered s0 sz"
  shows "checks s0 (check_access_shared C lb ub sz) (\<lambda>t x \<sigma>. 0 \<le> lin_eval \<sigma> lb \<and> lin_eval \<sigma> ub \<le> \<sigma> sz)"
proof -
  have lower: "checks s0 (require_in C (dsl_ge lb (lin_const 0)) ''Lower bound must be at least 0'') (\<lambda>t x \<sigma>. 0 \<le> lin_eval \<sigma> lb)"
    by (rule checks_mono [OF checks_below(2) [OF C expr_ok_base(2) e(1)]]) simp_all
  have upper: "checks s0 (\<lambda>x. bindA (var_nameA sz) (\<lambda>n.
      require_in C (dsl_le ub (lin_var sz)) (''Upper bound must be at most '' @ n) x)) (\<lambda>t x \<sigma>. lin_eval \<sigma> ub \<le> \<sigma> sz)"
  proof (rule checks_let)
    fix s n s' assume "grows s0 s" "yields (var_nameA sz) s n s'"
    then have g: "grows s0 s'" by (simp add: var_nameA_def)
    show "checks s' (require_in C (dsl_le ub (lin_var sz)) (''Upper bound must be at most '' @ n)) (\<lambda>t x \<sigma>. lin_eval \<sigma> ub \<le> \<sigma> sz)"
      by (rule checks_mono [OF checks_below(1) [OF C expr_ok_grows [OF e(2) g] expr_ok_base(1) [OF registered_grows [OF v g]]]]) simp_all
  qed (rule calm_queries)
  show ?thesis using checks_bind [OF lower upper] unfolding check_access_shared_def [abs_def] .
qed

lemma checks_eval:
  assumes a: "\<And>x. calm (a x)" and f: "\<And>s x v s'. grows s0 s \<Longrightarrow> yields (a x) s v s' \<Longrightarrow> checks s' (f v) (\<Psi> v)"
    and \<Phi>: "\<And>s x v s' t \<sigma>. grows s0 s \<Longrightarrow> nd_spacious s (fst x) \<Longrightarrow> yields (a x) s v s' \<Longrightarrow> grows s' t \<Longrightarrow> \<Psi> v t (fst x) \<sigma> \<Longrightarrow> \<Phi> t (fst x) \<sigma>"
  shows "checks s0 (\<lambda>x. bindA (a x) (\<lambda>v. f v x)) \<Phi>"
  unfolding checks_def
proof (intro allI impI)
  fix st s x' st' s'
  assume g: "grows s0 s" "nd_spacious s (ck_inv st)" "yields (bindA (a (ck_inv st, st)) (\<lambda>v. f v (ck_inv st, st))) s (x', st') s'"
  then obtain v s1 where r: "yields (a (ck_inv st, st)) s v s1" "yields (f v (ck_inv st, st)) s1 (x', st') s'" by auto
  have s1: "grows s s1" by (rule calmD [OF a r(1)])
  have "checks s1 (f v) (\<Psi> v)" by (rule f [OF g(1) r(1)])
  then obtain ws where w: "x' = ck_inv st" "ck_dom st' = ck_dom st" "grows s1 s'" "ck_warnings st' = ck_warnings st @ ws"
    "ws = [] \<longrightarrow> (\<forall>\<sigma> \<in> nd_gamma (ck_inv st). \<forall>t. grows s' t \<longrightarrow> \<Psi> v t (ck_inv st) \<sigma>)"
    using nd_spacious_grows [OF g(2) s1] r(2) unfolding checks_def by (meson grows_refl)
  have "\<Phi> t (ck_inv st) \<sigma>" if "ws = []" "\<sigma> \<in> nd_gamma (ck_inv st)" "grows s' t" for \<sigma> t
    using \<Phi> [OF g(1) _ r(1) grows_trans [OF w(3) that(3)], of \<sigma>] g(2) w(5) that by simp
  then show "x' = ck_inv st \<and> ck_dom st' = ck_dom st \<and> grows s s' \<and>
     (\<exists>ws. ck_warnings st' = ck_warnings st @ ws \<and> (ws = [] \<longrightarrow> (\<forall>\<sigma> \<in> nd_gamma (ck_inv st). \<forall>t. grows s' t \<longrightarrow> \<Phi> t (ck_inv st) \<sigma>)))"
    using w grows_trans [OF s1 w(3)] by blast
qed

text \<open>A variable whose bounds are both known to be \<open>k\<close>, as the stack offset of \<^verbatim>\<open>r10\<close> is.\<close>

definition known_value :: "num_domain \<Rightarrow> variable_t \<Rightarrow> int \<Rightarrow> bool" where
  "known_value x v k \<longleftrightarrow> (\<exists>d. x = Some d \<and> var_lb d v = Some k \<and> var_ub d v = Some k)"

lemma known_value_singleton:
  assumes "known_value x v k" "nd_spacious s x" "yields (evalA (lin_var v) x) s i s'"
  shows "singleton i = Some k"
proof -
  obtain d where d: "x = Some d" "var_lb d v = Some k" "var_ub d v = Some k" using assms(1) by (auto simp: known_value_def)
  have sh: "dbm_shape d" "dom (vm d) \<subseteq> {..<length (sh_names s)}"
    using assms(2) d(1) by (auto simp: nd_spacious_def spacious_def dbm_ok_def registered_def)
  obtain j where j: "dbm_index (sh_names s) d v = Inr j" "ivl_lb j = finite_ext k" "ivl_ub j = finite_ext k"
    using dbm_index_sound [OF sh, of v] d(2,3) by (auto simp: bound_of_def)
  then have "j = fin_ivl k k" by (simp add: fin_ivl_def)
  moreover have "ivl_add (interval_num 0) (ivl_mul (interval_num 1) (fin_ivl k k)) = Inr (fin_ivl k k)"
    by (simp add: ivl_add_def ivl_mul_def minmax_interval_def interval_num_def is_bottom_def interval_def ext_min_list_def ext_max_list_def fin_ivl_def)
  ultimately show ?thesis
    using assms(3) d(1) j(1) sh
    by (auto simp: evalA_def nd_eval_interval_def lift_res_def eval_interval_def lin_var_def)
qed

lemma checks_access_stack:
  assumes C: "ce_mode C = Check_mode" and e: "expr_ok s0 1 lb" "expr_ok s0 2 ub"
  shows "checks s0 (check_access_stack C lb ub)
    (\<lambda>t x \<sigma>. (\<forall>k. known_value x (rp_stack_offset (pack t (Reg R10_STACK_POINTER))) k \<longrightarrow> fits int64_t k \<longrightarrow> k - EBPF_SUBPROGRAM_STACK_SIZE \<le> lin_eval \<sigma> lb) \<and>
       lin_eval \<sigma> ub \<le> EBPF_TOTAL_STACK_SIZE)" (is "checks s0 _ ?\<Phi>")
proof -
  let ?lower = "\<lambda>interval x. case singleton interval of None \<Rightarrow> retA x
      | Some n \<Rightarrow> bindA (resA (cast_to int64_t n)) (\<lambda>stack_offset.
            require_in C (dsl_ge lb (lin_const (stack_offset - EBPF_SUBPROGRAM_STACK_SIZE)))
              ''Lower bound must be at least r10.stack_offset - EBPF_SUBPROGRAM_STACK_SIZE'' x)"
  let ?upper = "require_in C (dsl_le ub (lin_const EBPF_TOTAL_STACK_SIZE)) ''Upper bound must be at most EBPF_TOTAL_STACK_SIZE''"
  have eq: "check_access_stack C lb ub = (\<lambda>x. bindA (regpackA (Reg R10_STACK_POINTER)) (\<lambda>r10.
      bindA (evalA (lin_var (rp_stack_offset r10)) (fst x)) (\<lambda>interval. bindA (?lower interval x) ?upper)))"
    by (rule ext) (simp add: check_access_stack_def regpackA_def split_beta cong: option.case_cong)
  have lower: "checks s' (?lower interval) (\<lambda>t x \<sigma>. \<forall>n. singleton interval = Some n \<longrightarrow> fits int64_t n \<longrightarrow> n - EBPF_SUBPROGRAM_STACK_SIZE \<le> lin_eval \<sigma> lb)"
    if g: "grows s0 s'" for interval s'
  proof (cases "singleton interval")
    case None
    then show ?thesis by (simp add: checks_mono [OF checks_ret])
  next
    case (Some n)
    show ?thesis unfolding Some option.case
    proof (rule checks_let)
      fix s m t assume s: "grows s' s" "yields (resA (cast_to int64_t n)) s m t"
      then have t: "grows s0 t" and m: "fits int64_t n \<Longrightarrow> m = n" using grows_trans [OF g] by (auto simp: cast_to_def)
      show "checks t (require_in C (dsl_ge lb (lin_const (m - EBPF_SUBPROGRAM_STACK_SIZE)))
          ''Lower bound must be at least r10.stack_offset - EBPF_SUBPROGRAM_STACK_SIZE'')
          (\<lambda>t x \<sigma>. \<forall>na. Some n = Some na \<longrightarrow> fits int64_t na \<longrightarrow> na - EBPF_SUBPROGRAM_STACK_SIZE \<le> lin_eval \<sigma> lb)"
        by (rule checks_mono [OF checks_below(2) [OF C expr_ok_base(2) expr_ok_grows [OF e(1) t]]]) (use m in auto)
    qed (rule calm_base)
  qed
  have upper: "checks s' ?upper (\<lambda>t x \<sigma>. lin_eval \<sigma> ub \<le> EBPF_TOTAL_STACK_SIZE)" if g: "grows s0 s'" for s'
    by (rule checks_mono [OF checks_below(1) [OF C expr_ok_grows [OF e(2) g] expr_ok_base(2)]]) simp_all
  show ?thesis unfolding eq
  proof (rule checks_let [OF calm_queries(4)])
    fix s r10 s' assume s: "grows s0 s" and r: "yields (regpackA (Reg R10_STACK_POINTER)) s r10 s'"
    note p = regpackA_props [OF r]
    have s': "grows s0 s'" using s p(1) by (rule grows_trans)
    show "checks s' (\<lambda>x. bindA (evalA (lin_var (rp_stack_offset r10)) (fst x)) (\<lambda>interval. bindA (?lower interval x) ?upper)) ?\<Phi>"
    proof (rule checks_eval [OF calm_queries(2)])
      fix u x v u' assume "grows s' u" "yields (evalA (lin_var (rp_stack_offset r10)) (fst x)) u v u'"
      then have "grows s0 u'" using s' grows_trans by (auto simp: evalA_def)
      then show "checks u' (\<lambda>x. bindA (?lower v x) ?upper) (\<lambda>t x \<sigma>.
          (\<forall>n. singleton v = Some n \<longrightarrow> fits int64_t n \<longrightarrow> n - EBPF_SUBPROGRAM_STACK_SIZE \<le> lin_eval \<sigma> lb) \<and> lin_eval \<sigma> ub \<le> EBPF_TOTAL_STACK_SIZE)"
        by (intro checks_bind lower upper)
    next
      fix u x v u' t \<sigma>
      assume u: "grows s' u" "nd_spacious u (fst x)" "yields (evalA (lin_var (rp_stack_offset r10)) (fst x)) u v u'" "grows u' t"
        and h: "(\<forall>n. singleton v = Some n \<longrightarrow> fits int64_t n \<longrightarrow> n - EBPF_SUBPROGRAM_STACK_SIZE \<le> lin_eval \<sigma> lb) \<and> lin_eval \<sigma> ub \<le> EBPF_TOTAL_STACK_SIZE"
      have "grows s' t" using u grows_trans by (auto simp: evalA_def)
      then have "pack t (Reg R10_STACK_POINTER) = r10" using p(3) by (simp add: pack_def)
      then show "?\<Phi> t (fst x) \<sigma>" using h known_value_singleton [OF _ u(2,3)] by auto
    qed
  qed
qed

lemma checks_stack_read:
  assumes C: "ce_mode C = Check_mode"
  shows "checks s0 (check_stack_read C s r lb ub) (\<lambda>t x \<sigma>. True)"
proof -
  let ?fail = "fail_outside C ''Stack content is not numeric''"
  let ?width = "case va_width s of Imm w \<Rightarrow> bindA (resA (narrowE (ce_env C) int32_range (uint w))) (\<lambda>n. retA (lin_const n))
      | RegV w \<Rightarrow> bindA (regpackA w) (\<lambda>p. retA (lin_var (rp_svalue p)))"
  let ?sized = "\<lambda>x. bindA ?width (\<lambda>width. bindA (entailA (dsl_le width (lin_subtract (lin_var (rp_stack_numeric_size r)) (lin_const (va_offset s)))) (fst x))
      (\<lambda>b. if b then retA x else ?fail x))"
  let ?f = "\<lambda>numeric x. if numeric then retA x else if va_offset s < 0 then ?fail x else ?sized x"
  have T: "checks t m (\<lambda>t x \<sigma>. True)" if "checks t m \<Phi>" for t m \<Phi> using that by (rule checks_mono) simp
  have f: "checks t ?fail (\<lambda>t x \<sigma>. True)" for t by (rule T [OF checks_fail [OF C]])
  have sized: "checks t ?sized (\<lambda>t x \<sigma>. True)" for t
  proof (rule checks_let)
    show "calm ?width" by (cases "va_width s"; simp only: val.case) (intro calm_bind calm_base calm_queries)+
  next
    fix u width u'
    show "checks u' (\<lambda>x. bindA (entailA (dsl_le width (lin_subtract (lin_var (rp_stack_numeric_size r)) (lin_const (va_offset s)))) (fst x))
        (\<lambda>b. if b then retA x else ?fail x)) (\<lambda>t x \<sigma>. True)"
      by (rule checks_eval [OF calm_queries(1), where \<Psi> = "\<lambda>v t x \<sigma>. True"]) (auto intro: checks_if f checks_ret)
  qed
  have eq: "check_stack_read C s r lb ub = (\<lambda>x. bindA (array_all_num (ed_stack (ck_dom (snd x))) (fst x) lb ub) (\<lambda>numeric. ?f numeric x))"
    by (rule ext) (simp add: check_stack_read_def split_beta cong: if_cong)
  show ?thesis unfolding eq
    by (rule checks_eval [OF calm_all_num, where \<Psi> = "\<lambda>v t x \<sigma>. True"]) (intro checks_if f sized checks_ret, simp)
qed

definition access_within :: "verifier_env \<Rightarrow> shared_state \<Rightarrow> num_domain \<Rightarrow> valid_access_t \<Rightarrow> valuation \<Rightarrow> type_encoding_t \<Rightarrow> bool" where
  "access_within E t x s \<sigma> type =
    (let r = pack t (va_reg s); comparison = (va_width s = Imm 0); w = access_width t s \<sigma>; start = (\<lambda>v. \<sigma> v + va_offset s) in
     if type = T_PACKET then
       \<sigma> (meta_var t) \<le> start (rp_packet_offset r) \<and>
       start (rp_packet_offset r) + w \<le> (if comparison then MAX_PACKET_SIZE else \<sigma> (size_var_of t))
     else if type = T_STACK then
       (\<forall>k. known_value x (rp_stack_offset (pack t (Reg R10_STACK_POINTER))) k \<longrightarrow> fits int64_t k \<longrightarrow>
          k - EBPF_SUBPROGRAM_STACK_SIZE \<le> start (rp_stack_offset r)) \<and>
       start (rp_stack_offset r) + w \<le> EBPF_TOTAL_STACK_SIZE
     else if type = T_CTX then
       0 \<le> start (rp_ctx_offset r) \<and> (\<exists>desc. context_descriptor E = Inr desc \<and> start (rp_ctx_offset r) + w \<le> ctx_size desc)
     else if type = T_SHARED then
       0 \<le> start (rp_shared_offset r) \<and> start (rp_shared_offset r) + w \<le> \<sigma> (rp_shared_region_size r) \<and>
       (comparison \<or> va_or_null s \<or> 0 < \<sigma> (rp_svalue r))
     else if type = T_NUM then comparison \<or> va_or_null s \<and> \<sigma> (rp_svalue r) = 0
     else comparison \<and> (type = T_MAP \<or> type = T_MAP_PROGRAMS))"

lemma checks_pair:
  assumes v: "registered s0 v" and f: "\<And>s' lb ub. grows s0 s' \<Longrightarrow> expr_ok s' 1 lb \<Longrightarrow> expr_ok s' 2 ub \<Longrightarrow>
    (\<And>\<sigma>. lin_eval \<sigma> lb = \<sigma> v + va_offset s) \<Longrightarrow> (\<And>t \<sigma>. grows s' t \<Longrightarrow> lin_eval \<sigma> ub = \<sigma> v + va_offset s + access_width t s \<sigma>) \<Longrightarrow>
    checks s' (f lb ub) \<Phi>"
  shows "checks s0 (\<lambda>x. bindA (lb_ub_access_pair s v) (\<lambda>(lb, ub). f lb ub x)) \<Phi>"
proof (rule checks_let)
  show "calm (lb_ub_access_pair s v)"
    unfolding lb_ub_access_pair_def Let_def by (cases "va_width s"; simp only: val.case) (intro calm_bind calm_base calm_queries)+
  fix u p u' assume u: "grows s0 u" "yields (lb_ub_access_pair s v) u p u'"
  obtain lb ub where p: "p = (lb, ub)" by (cases p)
  note l = lb_ub_access_pair_props [OF u(2) [unfolded p] registered_grows [OF v u(1)]]
  show "checks u' (\<lambda>x. case p of (lb, ub) \<Rightarrow> f lb ub x) \<Phi>"
    unfolding p prod.case by (rule f) (use l grows_trans [OF u(1) l(1)] in simp_all)
qed

lemma checks_access_type:
  assumes C: "ce_mode C = Check_mode" and r: "pack_registered s0 r" "\<And>t. grows s0 t \<Longrightarrow> pack t (va_reg s) = r"
  shows "checks s0 (\<lambda>x. check_access_type C s r x type) (\<lambda>t x \<sigma>. access_within (ce_env C) t x s \<sigma> type)"
proof -
  note ne = T_PACKET_def T_STACK_def T_CTX_def T_SHARED_def T_NUM_def T_MAP_def T_MAP_PROGRAMS_def
  note reg = r(1) [unfolded pack_registered_def, simplified]
  have fail: "checks s0 (fail_outside C msg) \<Phi>" for msg \<Phi> by (rule checks_mono [OF checks_fail [OF C]]) simp
  have ret: "checks u retA \<Phi>" if "\<And>t x \<sigma>. grows u t \<Longrightarrow> \<Phi> t x \<sigma>" for \<Phi> u by (rule checks_mono [OF checks_ret]) (rule that)
  consider (packet) "type = T_PACKET" | (stack) "type = T_STACK" | (ctx) "type = T_CTX" | (shared) "type = T_SHARED" | (number) "type = T_NUM"
    | (map) "type = T_MAP \<or> type = T_MAP_PROGRAMS" | (other) "type \<notin> {T_PACKET, T_STACK, T_CTX, T_SHARED, T_NUM, T_MAP, T_MAP_PROGRAMS}" by blast
  then show ?thesis
  proof cases
    case packet
    have f: "factory packet_size" unfolding packet_size_def [abs_def] by (rule var_make_factory)
    let ?size = "if va_width s = Imm 0 then retA None else bindA (nameA packet_size) (\<lambda>v. retA (Some v))"
    have "checks s0 (\<lambda>x. bindA (lb_ub_access_pair s (rp_packet_offset r)) (\<lambda>(lb, ub). bindA ?size (\<lambda>size_var. check_access_packet C lb ub size_var x)))
      (\<lambda>t x \<sigma>. access_within (ce_env C) t x s \<sigma> type)"
    proof (rule checks_pair, simp add: reg)
      fix s1 lb ub
      assume g: "grows s0 s1" and e: "expr_ok s1 1 lb" "expr_ok s1 2 ub" and lb: "\<And>\<sigma>. lin_eval \<sigma> lb = \<sigma> (rp_packet_offset r) + va_offset s"
        and ub: "\<And>t \<sigma>. grows s1 t \<Longrightarrow> lin_eval \<sigma> ub = \<sigma> (rp_packet_offset r) + va_offset s + access_width t s \<sigma>"
      show "checks s1 (\<lambda>x. bindA ?size (\<lambda>size_var. check_access_packet C lb ub size_var x)) (\<lambda>t x \<sigma>. access_within (ce_env C) t x s \<sigma> type)"
      proof (rule checks_let)
        show "calm ?size" by (intro calm_if calm_bind calm_base f)
        fix u sv u' assume u: "grows s1 u" "yields ?size u sv u'"
        have s1: "grows s1 u'" using u factoryD(1) [OF f] grows_trans by (auto split: if_splits)
        have v: "registered u' v \<and> (\<forall>t. grows u' t \<longrightarrow> size_var_of t = v)" if "sv = Some v" for v
        proof -
          have r: "yields (nameA packet_size) u v u'" using u(2) that by (auto split: if_splits)
          show ?thesis using factoryD(2) [OF f r] var_make_registered r unfolding size_var_of_def packet_size_def [abs_def] by blast
        qed
        have sv: "va_width s = Imm 0 \<longleftrightarrow> sv = None" using u(2) by (auto split: if_splits)
        show "checks u' (check_access_packet C lb ub sv) (\<lambda>t x \<sigma>. access_within (ce_env C) t x s \<sigma> type)"
        proof (rule checks_mono [OF checks_access_packet [OF C expr_ok_grows [OF e(1) s1] expr_ok_grows [OF e(2) s1]]])
          show "registered u' v" if "sv = Some v" for v using v that by blast
          fix t x \<sigma> assume t: "grows u' t"
          have "grows s1 t" using s1 t by (rule grows_trans)
          then have "lin_eval \<sigma> ub = \<sigma> (rp_packet_offset r) + va_offset s + access_width t s \<sigma>" "pack t (va_reg s) = r"
            using ub r(2) grows_trans [OF g] by blast+
          then show "\<sigma> (meta_var t) \<le> lin_eval \<sigma> lb \<and> lin_eval \<sigma> ub \<le> (case sv of Some v \<Rightarrow> \<sigma> v | None \<Rightarrow> MAX_PACKET_SIZE) \<Longrightarrow>
              access_within (ce_env C) t x s \<sigma> type"
            using v sv t by (auto simp: access_within_def Let_def packet lb split: option.splits)
        qed
      qed
    qed
    then show ?thesis by (simp add: packet check_access_type_def)
  next
    case map
    have "checks s0 (\<lambda>x. if va_width s = Imm 0 then retA x else fail_outside C ''FDs cannot be dereferenced directly'' x)
      (\<lambda>t x \<sigma>. access_within (ce_env C) t x s \<sigma> type)"
      by (intro checks_if fail ret) (use map in \<open>auto simp: access_within_def ne\<close>)
    then show ?thesis using map by (elim disjE) (simp_all add: check_access_type_def ne)
  next
    case other
    then have "(\<lambda>x. check_access_type C s r x type) = fail_outside C ''Invalid type''" by (auto simp: check_access_type_def fun_eq_iff)
    then show ?thesis using fail by simp
  next
    case stack
    let ?read = "\<lambda>lb ub x. if va_access_type s = Access_read then check_stack_read C s r lb ub x else retA x"
    have "checks s0 (\<lambda>x. bindA (lb_ub_access_pair s (rp_stack_offset r)) (\<lambda>(lb, ub). bindA (check_access_stack C lb ub x) (?read lb ub)))
      (\<lambda>t x \<sigma>. access_within (ce_env C) t x s \<sigma> type)"
    proof (rule checks_pair, simp add: reg)
      fix s1 lb ub
      assume g: "grows s0 s1" and e: "expr_ok s1 1 lb" "expr_ok s1 2 ub" and lb: "\<And>\<sigma>. lin_eval \<sigma> lb = \<sigma> (rp_stack_offset r) + va_offset s"
        and ub: "\<And>t \<sigma>. grows s1 t \<Longrightarrow> lin_eval \<sigma> ub = \<sigma> (rp_stack_offset r) + va_offset s + access_width t s \<sigma>"
      have read: "checks s1 (?read lb ub) (\<lambda>t x \<sigma>. True)" by (intro checks_if checks_stack_read [OF C] checks_ret)
      show "checks s1 (\<lambda>x. bindA (check_access_stack C lb ub x) (?read lb ub)) (\<lambda>t x \<sigma>. access_within (ce_env C) t x s \<sigma> type)"
        by (rule checks_mono [OF checks_bind [OF checks_access_stack [OF C e] read]])
           (use r(2) grows_trans [OF g] in \<open>auto simp: access_within_def Let_def stack lb ub ne\<close>)
    qed
    then show ?thesis by (simp add: stack check_access_type_def ne)
  next
    case ctx
    have "checks s0 (\<lambda>x. bindA (lb_ub_access_pair s (rp_ctx_offset r)) (\<lambda>(lb, ub). check_access_context C lb ub x))
      (\<lambda>t x \<sigma>. access_within (ce_env C) t x s \<sigma> type)"
    proof (rule checks_pair, simp add: reg)
      fix s1 lb ub
      assume g: "grows s0 s1" and e: "expr_ok s1 1 lb" "expr_ok s1 2 ub" and lb: "\<And>\<sigma>. lin_eval \<sigma> lb = \<sigma> (rp_ctx_offset r) + va_offset s"
        and ub: "\<And>t \<sigma>. grows s1 t \<Longrightarrow> lin_eval \<sigma> ub = \<sigma> (rp_ctx_offset r) + va_offset s + access_width t s \<sigma>"
      show "checks s1 (check_access_context C lb ub) (\<lambda>t x \<sigma>. access_within (ce_env C) t x s \<sigma> type)"
        by (rule checks_mono [OF checks_access_context [OF C e]])
           (use r(2) grows_trans [OF g] in \<open>auto simp: access_within_def Let_def ctx lb ub ne\<close>)
    qed
    then show ?thesis by (simp add: ctx check_access_type_def ne)
  next
    case shared
    let ?null = "\<lambda>x. if va_width s \<noteq> Imm 0 \<and> \<not> va_or_null s then
        require_in C (dsl_greater (lin_var (rp_svalue r)) (lin_const 0)) ''Possible null access'' x else retA x"
    have "checks s0 (\<lambda>x. bindA (lb_ub_access_pair s (rp_shared_offset r)) (\<lambda>(lb, ub).
        bindA (check_access_shared C lb ub (rp_shared_region_size r) x) ?null)) (\<lambda>t x \<sigma>. access_within (ce_env C) t x s \<sigma> type)"
    proof (rule checks_pair, simp add: reg)
      fix s1 lb ub
      assume g: "grows s0 s1" and e: "expr_ok s1 1 lb" "expr_ok s1 2 ub" and lb: "\<And>\<sigma>. lin_eval \<sigma> lb = \<sigma> (rp_shared_offset r) + va_offset s"
        and ub: "\<And>t \<sigma>. grows s1 t \<Longrightarrow> lin_eval \<sigma> ub = \<sigma> (rp_shared_offset r) + va_offset s + access_width t s \<sigma>"
      have size: "registered s1 (rp_shared_region_size r)" and val: "expr_ok s1 1 (lin_var (rp_svalue r))"
        using reg registered_grows [OF _ g] expr_ok_base(1) by blast+
      have null: "checks s1 ?null (\<lambda>t x \<sigma>. va_width s = Imm 0 \<or> va_or_null s \<or> 0 < \<sigma> (rp_svalue r))"
        by (intro checks_if ret checks_mono [OF checks_below(3) [OF C expr_ok_base(2) val]]) auto
      show "checks s1 (\<lambda>x. bindA (check_access_shared C lb ub (rp_shared_region_size r) x) ?null) (\<lambda>t x \<sigma>. access_within (ce_env C) t x s \<sigma> type)"
        by (rule checks_mono [OF checks_bind [OF checks_access_shared [OF C e size] null]])
           (use r(2) grows_trans [OF g] in \<open>auto simp: access_within_def Let_def shared lb ub ne\<close>)
    qed
    then show ?thesis by (simp add: shared check_access_type_def ne)
  next
    case number
    have val: "expr_ok s0 1 (lin_var (rp_svalue r))" using reg expr_ok_base(1) by blast
    have "checks s0 (\<lambda>x. if va_width s = Imm 0 then retA x
        else if va_or_null s then require_in C (dsl_eq (lin_var (rp_svalue r)) (lin_const 0)) ''Non-null number'' x
        else fail_outside C ''Only pointers can be dereferenced'' x) (\<lambda>t x \<sigma>. access_within (ce_env C) t x s \<sigma> type)"
      by (intro checks_if fail ret checks_mono [OF checks_below(4) [OF C val expr_ok_base(2)]])
         (use r(2) number in \<open>auto simp: access_within_def Let_def ne\<close>)
    then show ?thesis by (simp add: number check_access_type_def ne)
  qed
qed

section \<open>All types of a register\<close>

lemma calm_fold: "(\<And>x y. calm (f x y)) \<Longrightarrow> calm (foldA f x ys)"
  by (induction ys arbitrary: x) (auto intro: calm_bind calm_base)

lemma calm_selective_join: "calm (selectively_join_based_on_type x y)"
proof -
  have kind: "calm (kind_varA k v)" for k v
  proof -
    have "grows s s'" if "yields (kind_varA k v) s u s'" for s u s'
      using that var_make_name(3)
      by (auto simp: yields_def kind_varA_def kind_var_def bindA_def resA_def lift_res_def bindE_def grows_def bindR_eq_Inr split: sum.splits)
    then show ?thesis by (auto simp: calm_def)
  qed
  have type: "calm (has_type x v t)" for x v t unfolding has_type_def by (intro calm_bind calm_queries calm_base)
  have extra: "calm (add_extra_invariant into other v m p)" for into other v m p
    unfolding add_extra_invariant_def by (cases p, simp only: prod.case) (intro calm_bind type kind calm_if calm_queries calm_base)
  have run: "calm (runA m)" for m :: "'x run" unfolding runA_def by (rule calm_base)
  have run': "calm (case p of (v, i) \<Rightarrow> runA (m v i))" for p and m :: "'a \<Rightarrow> 'b \<Rightarrow> 'x run" by (cases p) (simp add: run)
  show ?thesis unfolding selectively_join_based_on_type_def
    by (intro calm_bind calm_if calm_base calm_fold extra run run')
qed

text \<open>What a run over all types adds up to: \<open>\<Phi> type\<close> is what the transition of a type checks.\<close>

definition checked_run :: "checker_t \<Rightarrow> shared_state \<Rightarrow> checker_t \<Rightarrow> shared_state \<Rightarrow> (shared_state \<Rightarrow> num_domain \<Rightarrow> valuation \<Rightarrow> bool) \<Rightarrow> bool" where
  "checked_run st s st' s' \<Phi> \<longleftrightarrow> ck_dom st' = ck_dom st \<and> grows s s' \<and>
     (\<exists>ws. ck_warnings st' = ck_warnings st @ ws \<and> (ws = [] \<longrightarrow> (\<forall>\<sigma> \<in> nd_gamma (ck_inv st). \<forall>t. grows s' t \<longrightarrow> \<Phi> t (ck_inv st) \<sigma>)))"

lemma checksD:
  assumes "checks s0 m \<Phi>" "grows s0 s" "nd_spacious s (ck_inv st)" "yields (m (ck_inv st, st)) s (x', st') s'"
  shows "x' = ck_inv st" "checked_run st s st' s' \<Phi>"
  using assms unfolding checks_def checked_run_def by blast+

lemma checked_run_trans:
  assumes "checked_run st s st1 s1 \<Phi>" "checked_run st1 s1 st' s' \<Psi>"
  shows "checked_run st s st' s' (\<lambda>t x \<sigma>. \<Phi> t x \<sigma> \<and> \<Psi> t x \<sigma>)"
proof -
  obtain ws vs where "ck_dom st1 = ck_dom st" "grows s s1" "ck_warnings st1 = ck_warnings st @ ws"
    "ws = [] \<longrightarrow> (\<forall>\<sigma> \<in> nd_gamma (ck_inv st). \<forall>t. grows s1 t \<longrightarrow> \<Phi> t (ck_inv st) \<sigma>)"
    "ck_dom st' = ck_dom st1" "grows s1 s'" "ck_warnings st' = ck_warnings st1 @ vs"
    "vs = [] \<longrightarrow> (\<forall>\<sigma> \<in> nd_gamma (ck_inv st1). \<forall>t. grows s' t \<longrightarrow> \<Psi> t (ck_inv st1) \<sigma>)"
    using assms unfolding checked_run_def by blast
  then show ?thesis unfolding checked_run_def using grows_trans by (auto intro!: exI [of _ "ws @ vs"])
qed

lemma types_fold:
  assumes tr: "\<And>type. checks s0 (\<lambda>x. transition x type) (\<Phi> type)"
    and s: "grows s0 s" "nd_spacious s (ck_inv st)"
    and r: "yields (foldA (\<lambda>(res, st) type. bindA (transition (ck_inv st, st) type) (\<lambda>(tmp, st).
        bindA (selectively_join_based_on_type res tmp) (\<lambda>res. retA (res, st)))) (res, st) tys) s (res', st') s'"
  shows "checked_run st s st' s' (\<lambda>t x \<sigma>. \<forall>type \<in> set tys. \<Phi> type t x \<sigma>)"
  using s r
proof (induction tys arbitrary: res st s)
  case Nil
  then show ?case by (simp add: checked_run_def)
next
  case (Cons type tys)
  from Cons.prems(3) obtain tmp st1 s1 res1 s2 where r: "yields (transition (ck_inv st, st) type) s (tmp, st1) s1"
    "yields (selectively_join_based_on_type res tmp) s1 res1 s2"
    "yields (foldA (\<lambda>(res, st) type. bindA (transition (ck_inv st, st) type) (\<lambda>(tmp, st).
        bindA (selectively_join_based_on_type res tmp) (\<lambda>res. retA (res, st)))) (res1, st1) tys) s2 (res', st') s'"
    by auto
  have one: "checked_run st s st1 s1 (\<Phi> type)" using checksD(2) [OF tr Cons.prems(1,2)] r(1) by blast
  have g: "grows s s1" "grows s1 s2" using one calmD [OF calm_selective_join r(2)] by (simp_all add: checked_run_def)
  have one': "checked_run st s st1 s2 (\<Phi> type)" using one g(2) grows_trans unfolding checked_run_def by blast
  have "ck_dom st1 = ck_dom st" using one by (simp add: checked_run_def)
  then have "nd_spacious s2 (ck_inv st1)" using nd_spacious_grows [OF Cons.prems(2) grows_trans [OF g]] by simp
  from Cons.IH [OF grows_trans [OF Cons.prems(1) grows_trans [OF g]] this r(3)]
  have "checked_run st1 s2 st' s' (\<lambda>t x \<sigma>. \<forall>type \<in> set tys. \<Phi> type t x \<sigma>)" .
  from checked_run_trans [OF one' this] show ?case by (simp add: checked_run_def)
qed

lemma pair_bound_member:
  assumes i: "ivl_ok i" "n \<in> gamma_ivl i" and n: "T_MIN \<le> n" "n \<le> T_MAX" and r: "ivl_pair_bound int32_t T_MIN T_MAX i = Inr (l, u)"
  shows "l \<le> n" "n \<le> u"
proof -
  let ?b = "ivl_meet (interval (finite_ext T_MIN) (finite_ext T_MAX)) i"
  have b: "ivl_ok ?b" "n \<in> gamma_ivl ?b" using ivl_meet_props [of "interval (finite_ext T_MIN) (finite_ext T_MAX)" i] i n
    by (auto simp: interval_sound)
  have m: "lo ?b \<le> Fin n" "Fin n \<le> hi ?b" using b by (simp_all add: mem_gamma_iff)
  have "ext_narrow int32_t (ivl_lb ?b) = Inr l" "ext_narrow int32_t (ivl_ub ?b) = Inr u"
    using r by (auto simp: ivl_pair_bound_def Let_def bindE_def split: sum.splits if_splits)
  moreover have "ivl_ok ?b \<Longrightarrow> ext_ok (ivl_lb ?b) \<and> ext_ok (ivl_ub ?b)" using ivl_okD by blast
  ultimately show "l \<le> n" "n \<le> u" using m b(1)
    by (auto elim!: ext_exhaust simp: num_narrow_def ext_narrow_def plus_infinity_def minus_infinity_def mk_extended_def finite_ext_def abs_ext_def split: if_splits)
qed

lemma check_over_types_sound:
  assumes tr: "\<And>s1 type. grows s s1 \<Longrightarrow> (\<And>t. grows s1 t \<Longrightarrow> pack t reg = p) \<Longrightarrow> pack_registered s1 p \<Longrightarrow>
      checks s1 (\<lambda>x. transition x type) (\<Phi> type)"
    and p: "p = fst (reg_pack (uint (reg_v reg)) (sh_names s))"
    and s: "nd_spacious s (ck_inv st)" and r: "yields (check_over_types reg transition st) s st' s'"
    and w: "ck_warnings st' = ck_warnings st" and \<sigma>: "\<sigma> \<in> nd_gamma (ck_inv st)"
    and ty: "T_MIN \<le> \<sigma> (rp_type (pack s' reg))" "\<sigma> (rp_type (pack s' reg)) \<le> T_MAX"
  shows "\<Phi> (\<sigma> (rp_type (pack s' reg))) s' (ck_inv st) \<sigma> \<or> \<Phi> T_UNINIT s' (ck_inv st) \<sigma>"
proof -
  from r obtain res st1 where j: "yields (join_over_types ck_inv reg transition st) s (res, st1) s'" and w1: "ck_warnings st1 = ck_warnings st"
    using w by (auto simp: check_over_types_def set_ck_inv_def)
  let ?rest = "\<lambda>ts. if is_bottom ts then retA (nd_bottom, st)
      else if is_top ts then transition (ck_inv st, st) T_UNINIT
      else
        bindA (resA (ivl_pair_bound (Signed 32) T_MIN T_MAX ts)) (\<lambda>(lb, ub).
        bindA (resA (iterate_types lb ub)) (\<lambda>tys.
          foldA (\<lambda>(res, st) type.
            bindA (transition (ck_inv st, st) type) (\<lambda>(tmp, st).
            bindA (selectively_join_based_on_type res tmp) (\<lambda>res. retA (res, st)))) (nd_bottom, st) tys))"
  from j obtain q s1 ts where q: "yields (regpackA reg) s q s1" and ts: "yields (evalA (lin_var (rp_type q)) (ck_inv st)) s1 ts s1"
    and rest: "yields (?rest ts) s1 (res, st1) s'"
    unfolding join_over_types_def by (auto simp: evalA_def)
  note g = regpackA_props [OF q]
  have qp: "q = p" using g(3) [OF grows_refl] q p by (auto simp: regpackA_def yields_nameA)
  have tr1: "checks s1 (\<lambda>x. transition x type) (\<Phi> type)" for type
    using tr [OF g(1)] g(2,3) qp by (simp add: pack_def)
  have s1: "nd_spacious s1 (ck_inv st)" by (rule nd_spacious_grows [OF s g(1)])
  have mem: "ivl_ok ts" "\<sigma> (rp_type q) \<in> gamma_ivl ts" using evalA_sound [OF s1 ts \<sigma>] by simp_all
  then have nb: "\<not> is_bottom ts" using ivl_okD(3) by auto
  have "grows s1 s' \<and> (\<exists>type. checked_run st s1 st1 s' (\<Phi> type) \<and> (type = T_UNINIT \<or> (grows s1 s' \<longrightarrow> type = \<sigma> (rp_type (pack s' reg)))))"
  proof (cases "is_top ts")
    case True
    then have "yields (transition (ck_inv st, st) T_UNINIT) s1 (res, st1) s'" using rest nb by simp
    then have "checked_run st s1 st1 s' (\<Phi> T_UNINIT)" using checksD(2) [OF tr1 grows_refl s1] by blast
    then show ?thesis by (auto simp: checked_run_def)
  next
    case False
    then obtain lb ub tys where b: "ivl_pair_bound int32_t T_MIN T_MAX ts = Inr (lb, ub)" "iterate_types lb ub = Inr tys"
      "yields (foldA (\<lambda>(res, st) type. bindA (transition (ck_inv st, st) type) (\<lambda>(tmp, st).
            bindA (selectively_join_based_on_type res tmp) (\<lambda>res. retA (res, st)))) (nd_bottom, st) tys) s1 (res, st1) s'"
      using rest nb by auto
    note run = types_fold [OF tr1 grows_refl s1 b(3)]
    then have g': "grows s1 s'" by (simp add: checked_run_def)
    then have "pack s' reg = q" using g(3) by (simp add: pack_def)
    then have "lb \<le> \<sigma> (rp_type (pack s' reg))" "\<sigma> (rp_type (pack s' reg)) \<le> ub"
      using pair_bound_member [OF mem _ _ b(1)] ty by simp_all
    moreover have "tys = [lb..ub]" using b(2) by (auto simp: iterate_types_def bindE_def split: if_splits sum.splits)
    ultimately have "\<sigma> (rp_type (pack s' reg)) \<in> set tys" by simp
    then have "checked_run st s1 st1 s' (\<Phi> (\<sigma> (rp_type (pack s' reg))))"
      using run unfolding checked_run_def by blast
    then show ?thesis using g' by blast
  qed
  then obtain type where "checked_run st s1 st1 s' (\<Phi> type)" "type = T_UNINIT \<or> type = \<sigma> (rp_type (pack s' reg))" by blast
  then show ?thesis using w1 \<sigma> unfolding checked_run_def by auto
qed

section \<open>Single requirements\<close>

lemma set_ck_inv_same: "ck_dom st1 = ck_dom st \<Longrightarrow> set_ck_inv (ck_inv st) st1 = st1"
  by (simp add: set_ck_inv_def)

lemma require_checked:
  assumes "ce_mode C = Check_mode" "cst_ok s c" "nd_spacious s (ck_inv st)" "yields (require C c msg st) s st' s'"
  shows "checked_run st s st' s' (\<lambda>t x \<sigma>. lin_holds \<sigma> c)"
proof -
  obtain x1 st1 where r: "yields (require_in C c msg (ck_inv st, st)) s (x1, st1) s'" "st' = set_ck_inv x1 st1"
    using assms(4) by (auto simp: require_def)
  note c = checksD [OF checks_require [OF assms(1,2)] grows_refl assms(3) r(1)]
  have "set_ck_inv (ck_inv st) st1 = st1" using c(2) by (intro set_ck_inv_same) (simp add: checked_run_def)
  then show ?thesis using c r(2) by simp
qed

lemma fail_checked:
  assumes "ce_mode C = Check_mode" "nd_spacious s (ck_inv st)" "yields (fail_check C msg st) s st' s'"
  shows "checked_run st s st' s' (\<lambda>t x \<sigma>. False)"
  using require_checked [OF assms(1) false_const_ok assms(2), of msg st' s'] assms(3)
  by (simp add: fail_check_def false_const_def lin_holds_def mk_cst_def)

lemma checked_run_refl: "(\<And>t \<sigma>. \<sigma> \<in> nd_gamma (ck_inv st) \<Longrightarrow> grows s t \<Longrightarrow> \<Phi> t (ck_inv st) \<sigma>) \<Longrightarrow> checked_run st s st s \<Phi>"
  by (simp add: checked_run_def)

lemma checked_run_grows: "checked_run st s1 st' s' \<Phi> \<Longrightarrow> grows s s1 \<Longrightarrow> checked_run st s st' s' \<Phi>"
  using grows_trans unfolding checked_run_def by blast

lemma checked_runD: "checked_run st s st' s' \<Phi> \<Longrightarrow> ck_warnings st' = ck_warnings st \<Longrightarrow> \<sigma> \<in> nd_gamma (ck_inv st) \<Longrightarrow> \<Phi> s' (ck_inv st) \<sigma>"
  unfolding checked_run_def by auto

text \<open>An implication between two constraints on types, asked on the part of the state where the first one holds.\<close>

lemma implies_type_sound:
  assumes s: "nd_spacious s x" and a: "expr_ok s 1 (cst_expression a)" "cst_kind a = NOT_ZERO \<Longrightarrow> unit_terms (cst_expression a)"
    and b: "expr_ok s 1 (cst_expression b)" and r: "yields (implies_type x a b) s True s'" and \<sigma>: "\<sigma> \<in> nd_gamma x" "lin_holds \<sigma> a"
  shows "lin_holds \<sigma> b"
proof -
  obtain d where d: "x = Some d" "\<sigma> \<in> dbm_gamma d" using \<sigma>(1) by (auto simp: nd_gamma_def split: option.splits)
  let ?vs = "cst_vars a \<union> cst_vars b" and ?ns = "sh_names s"
  have "card (?vs - dom (vm d)) \<le> card ?vs" by (intro card_mono) auto
  moreover have "card ?vs \<le> 2" using card_Un_le [of "cst_vars a" "cst_vars b"] a(1) b by (simp add: expr_ok_def vars_of_def)
  ultimately have g: "good ?ns ?vs d" using s d(1) a(1) b
    by (auto simp: nd_spacious_def spacious_def expr_ok_def vars_of_def good_def roomy_def registered_def lessThan_def)
  have "keeps ?ns ?vs (\<lambda>\<sigma>. lin_holds \<sigma> a) d (add_constraint ?ns a d)"
    by (rule add_constraint_ok [OF g]) (use a in \<open>auto simp: expr_ok_def\<close>)
  then obtain d' where d': "add_constraint ?ns a d = Some (Inr (Some d'))" "good ?ns ?vs d'" "\<sigma> \<in> dbm_gamma d'"
    using d(2) \<sigma>(2) unfolding keeps_def by (auto split: option.splits)
  have "dbm_entail ?ns b d' = Some (Inr True)"
    using r d(1) d'(1) by (auto simp: implies_type_def whenA_def entailA_def nd_when_def nd_entail_def)
  then show ?thesis using dbm_entail_ok [OF d'(2), of b] b d'(3) by (auto simp: expr_ok_def)
qed

lemma check_implied_number_checked:
  assumes C: "ce_mode C = Check_mode" and s: "nd_spacious s (ck_inv st)" and r: "yields (check_implied_number C condition r num msg st) s st' s'"
    and c: "condition = type_is_pointer \<or> condition = type_is_not_stack"
  shows "checked_run st s st' s' (\<lambda>t x \<sigma>. lin_holds \<sigma> (condition (pack t r)) \<longrightarrow> \<sigma> (rp_type (pack t num)) = T_NUM)"
proof -
  obtain p s1 q s2 b s3 where p: "yields (regpackA r) s p s1" and q: "yields (regpackA num) s1 q s2"
    and b: "yields (implies_type (ck_inv st) (condition p) (type_is_number q)) s2 b s3"
    and rest: "yields (if b then retA st else fail_check C msg st) s3 st' s'"
    using r by (auto simp: check_implied_number_def)
  note P = regpackA_props [OF p] and Q = regpackA_props [OF q]
  have s3: "s3 = s2" using b by (auto simp: implies_type_def whenA_def entailA_def)
  have g: "grows s s2" using P(1) Q(1) by (rule grows_trans)
  have s2: "nd_spacious s2 (ck_inv st)" by (rule nd_spacious_grows [OF s g])
  have reg: "registered s2 (rp_type p)" "registered s2 (rp_type q)"
    using pack_registered_grows [OF P(2) Q(1)] Q(2) by (simp_all add: pack_registered_def)
  have expr: "expr_ok s2 1 (lin_subtract (lin_var v) (lin_const k))" "expr_ok s2 1 (lin_subtract (lin_const k) (lin_var v))"
    if "registered s2 v" for v k
    using expr_ok_combine(2) [OF expr_ok_base(1) [OF that] expr_ok_base(2)] expr_ok_combine(2) [OF expr_ok_base(2) expr_ok_base(1) [OF that]]
    by simp_all
  have a: "expr_ok s2 1 (cst_expression (condition p))" "cst_kind (condition p) = NOT_ZERO \<Longrightarrow> unit_terms (cst_expression (condition p))"
    using c expr [OF reg(1)]
    by (auto simp: type_is_pointer_def type_is_not_stack_def dsl_ge_def dsl_le_def dsl_neq_def mk_cst_def unit_terms_def lin_subtract_def
        lin_make_def lin_var_def lin_const_def)
  have n: "expr_ok s2 1 (cst_expression (type_is_number q))"
    using expr [OF reg(2)] by (simp add: type_is_number_def dsl_eq_def mk_cst_def)
  have packs: "pack t r = p" "pack t num = q" if "grows s2 t" for t
    using P(3) [OF grows_trans [OF Q(1) that]] Q(3) [OF that] by (simp_all add: pack_def)
  show ?thesis
  proof (cases b)
    case True
    then have eq: "st' = st" "s' = s2" using rest s3 by simp_all
    have holds: "\<sigma> (rp_type q) = T_NUM" if "\<sigma> \<in> nd_gamma (ck_inv st)" "lin_holds \<sigma> (condition p)" for \<sigma>
      using implies_type_sound [OF s2 a(1) _ n _ that, of s2] a(2) b True s3 by (simp add: type_is_number_def)
    show ?thesis unfolding eq
      by (rule checked_run_grows [OF checked_run_refl g]) (use holds packs in simp)
  next
    case False
    then have "checked_run st s2 st' s' (\<lambda>t x \<sigma>. False)" using fail_checked [OF C s2] rest s3 by simp
    then show ?thesis using g grows_trans unfolding checked_run_def by blast
  qed
qed

lemma entail_all_sound:
  assumes "nd_spacious s x" "\<And>c. c \<in> set cs \<Longrightarrow> cst_ok s c" "yields (entail_all x cs) s b s'"
  shows "s' = s" "b \<Longrightarrow> \<sigma> \<in> nd_gamma x \<Longrightarrow> \<forall>c \<in> set cs. lin_holds \<sigma> c"
proof -
  have "s' = s \<and> (b \<longrightarrow> \<sigma> \<in> nd_gamma x \<longrightarrow> (\<forall>c \<in> set cs. lin_holds \<sigma> c))"
    using assms(2,3)
  proof (induction cs)
    case (Cons c cs)
    from Cons.prems(2) obtain d where d: "yields (entailA c x) s d s" "yields (if d then entail_all x cs else retA False) s b s'"
      by (auto simp: entailA_def)
    then show ?case using Cons.IH Cons.prems(1) entailA_sound [OF assms(1) _ _, of c s \<sigma>] by (cases d) auto
  qed simp
  then show "s' = s" "b \<Longrightarrow> \<sigma> \<in> nd_gamma x \<Longrightarrow> \<forall>c \<in> set cs. lin_holds \<sigma> c" by simp_all
qed

lemma group_constraints_types:
  assumes "\<forall>c \<in> set (group_constraints g v). lin_holds \<sigma> c" "T_MIN \<le> \<sigma> v" "\<sigma> v \<le> T_MAX"
  shows "\<sigma> v \<in> set (group_types g)"
proof -
  note defs = T_MIN_def T_MAX_def T_UNINIT_def T_PACKET_def T_STACK_def T_CTX_def T_SHARED_def T_NUM_def T_MAP_def T_MAP_PROGRAMS_def
  show ?thesis using assms by (cases g) (auto simp: group_constraints_def group_types_def defs)
qed

lemma check_type_checked:
  assumes C: "ce_mode C = Check_mode" and s: "nd_spacious s (ck_inv st)" and r: "yields (check_type C r g st) s st' s'"
  shows "checked_run st s st' s' (\<lambda>t x \<sigma>. T_MIN \<le> \<sigma> (rp_type (pack t r)) \<longrightarrow> \<sigma> (rp_type (pack t r)) \<le> T_MAX \<longrightarrow>
    \<sigma> (rp_type (pack t r)) \<in> set (group_types g))"
proof -
  obtain p s1 b s2 where p: "yields (regpackA r) s p s1" and b: "yields (entail_all (ck_inv st) (group_constraints g (rp_type p))) s1 b s2"
    and rest: "yields (if b then retA st else fail_check C ''Invalid type'' st) s2 st' s'"
    using r by (auto simp: check_type_def is_in_group_def)
  note P = regpackA_props [OF p]
  have s1: "nd_spacious s1 (ck_inv st)" by (rule nd_spacious_grows [OF s P(1)])
  have v: "expr_ok s1 1 (lin_var (rp_type p))" using P(2) by (intro expr_ok_base(1)) (simp add: pack_registered_def)
  have ok: "cst_ok s1 c" if "c \<in> set (group_constraints g (rp_type p))" for c
    using that cst_okI [OF v expr_ok_base(2)] by (cases g) (auto simp: group_constraints_def)
  note e = entail_all_sound [OF s1 ok b]
  show ?thesis
  proof (cases b)
    case True
    then have eq: "st' = st" "s' = s1" using rest e(1) by simp_all
    have "pack t r = p" if "grows s1 t" for t using P(3) [OF that] by (simp add: pack_def)
    then show ?thesis unfolding eq using e(2) True group_constraints_types
      by (intro checked_run_grows [OF checked_run_refl P(1)]) simp
  next
    case False
    then have "checked_run st s1 st' s' (\<lambda>t x \<sigma>. False)" using fail_checked [OF C s1] rest e(1) by simp
    then show ?thesis using P(1) grows_trans unfolding checked_run_def by blast
  qed
qed

text \<open>A requirement on the variables of one register.\<close>

lemma regpack_require_checked:
  assumes C: "ce_mode C = Check_mode" and s: "nd_spacious s (ck_inv st)"
    and r: "yields (bindA (regpackA r) (\<lambda>p. require C (c p) msg st)) s st' s'"
    and ok: "\<And>t p. pack_registered t p \<Longrightarrow> cst_ok t (c p)"
  shows "checked_run st s st' s' (\<lambda>t x \<sigma>. lin_holds \<sigma> (c (pack t r)))"
proof -
  obtain p s1 where p: "yields (regpackA r) s p s1" and q: "yields (require C (c p) msg st) s1 st' s'" using r by auto
  note P = regpackA_props [OF p]
  have "checked_run st s1 st' s' (\<lambda>t x \<sigma>. lin_holds \<sigma> (c p))"
    by (rule require_checked [OF C ok [OF P(2)] nd_spacious_grows [OF s P(1)] q])
  moreover have "pack t r = p" if "grows s1 t" for t using P(3) [OF that] by (simp add: pack_def)
  ultimately show ?thesis using P(1) grows_trans unfolding checked_run_def by fastforce
qed

section \<open>What an assertion says\<close>

text \<open>
  What the state \<open>\<sigma>\<close> of a run must satisfy for an assertion, on the variables that the registry \<open>t\<close> names. The
  assertions about map keys and calls are not of this form and say nothing here; \<open>access_within\<close> is what
  the assertion about a memory access says.
\<close>

definition type_of :: "shared_state \<Rightarrow> valuation \<Rightarrow> Reg \<Rightarrow> type_encoding_t" where
  "type_of t \<sigma> r = \<sigma> (rp_type (pack t r))"

definition assertion_holds :: "verifier_env \<Rightarrow> shared_state \<Rightarrow> valuation \<Rightarrow> Assertion \<Rightarrow> bool" where
  "assertion_holds E t \<sigma> a = (case a of
      ValidSize r can_be_zero \<Rightarrow> (if can_be_zero then 0 \<le> \<sigma> (rp_svalue (pack t r)) else 0 < \<sigma> (rp_svalue (pack t r)))
    | ZeroCtxOffset r \<Rightarrow> \<sigma> (rp_ctx_offset (pack t r)) = 0
    | BoundedLoopCount name \<Rightarrow> \<sigma> (fst (loop_counter (label_to_string name) (sh_names t))) \<le> loop_count_limit
    | TypeConstraint r g \<Rightarrow> type_of t \<sigma> r \<in> set (group_types g)
    | Addable ptr num \<Rightarrow> T_CTX \<le> type_of t \<sigma> ptr \<longrightarrow> type_of t \<sigma> num = T_NUM
    | ValidStore mem val \<Rightarrow> type_of t \<sigma> mem \<noteq> T_STACK \<longrightarrow> type_of t \<sigma> val = T_NUM
    | Comparable r1 r2 _ \<Rightarrow> type_of t \<sigma> r1 = type_of t \<sigma> r2 \<or> type_of t \<sigma> r2 = T_NUM
    | ValidDivisor r is_signed \<Rightarrow> (T_CTX \<le> type_of t \<sigma> r \<longrightarrow> type_of t \<sigma> r = T_NUM) \<and>
        (allow_division_by_zero (env_options E) \<or> \<sigma> ((if is_signed then rp_svalue else rp_uvalue) (pack t r)) \<noteq> 0)
    | _ \<Rightarrow> True)"

text \<open>The types of the registers are encodings of types.\<close>

definition types_valid :: "shared_state \<Rightarrow> valuation \<Rightarrow> bool" where
  "types_valid t \<sigma> \<longleftrightarrow> (\<forall>r. T_MIN \<le> type_of t \<sigma> r \<and> type_of t \<sigma> r \<le> T_MAX)"

lemma check_valid_access_sound:
  assumes C: "ce_mode C = Check_mode" and s: "nd_spacious s (ck_inv st)" and r: "yields (check_valid_access C a st) s st' s'"
    and w: "ck_warnings st' = ck_warnings st" and \<sigma>: "\<sigma> \<in> nd_gamma (ck_inv st)" "types_valid s' \<sigma>"
  shows "access_within (ce_env C) s' (ck_inv st) a \<sigma> (type_of s' \<sigma> (va_reg a))"
proof -
  obtain p s1 where p: "yields (regpackA (va_reg a)) s p s1" and q: "yields (check_over_types (va_reg a) (check_access_type C a p) st) s1 st' s'"
    using r by (auto simp: check_valid_access_def)
  note P = regpackA_props [OF p]
  have "access_within (ce_env C) s' (ck_inv st) a \<sigma> (\<sigma> (rp_type (pack s' (va_reg a)))) \<or> access_within (ce_env C) s' (ck_inv st) a \<sigma> T_UNINIT"
    by (rule check_over_types_sound [where \<Phi> = "\<lambda>type t x \<sigma>. access_within (ce_env C) t x a \<sigma> type", OF checks_access_type [OF C] _ _ q w \<sigma>(1)])
       (use P(3) nd_spacious_grows [OF s P(1)] \<sigma>(2) in \<open>auto simp: types_valid_def type_of_def\<close>)
  moreover have "\<not> access_within (ce_env C) s' (ck_inv st) a \<sigma> T_UNINIT"
    by (simp add: access_within_def Let_def T_UNINIT_def T_PACKET_def T_STACK_def T_CTX_def T_SHARED_def T_NUM_def T_MAP_def T_MAP_PROGRAMS_def)
  ultimately show ?thesis by (simp add: type_of_def)
qed

lemma checked_run_registers:
  "checked_run st s st' s' \<Phi> \<Longrightarrow> nd_spacious s (ck_inv st) \<Longrightarrow> nd_spacious s' (ck_inv st')"
  using nd_spacious_grows by (auto simp: checked_run_def)

lemma check_divisor_sound:
  assumes C: "ce_mode C = Check_mode" and s: "nd_spacious s (ck_inv st)" and r: "yields (check_divisor C r is_signed st) s st' s'"
  shows "checked_run st s st' s' (\<lambda>t x \<sigma>. (T_CTX \<le> type_of t \<sigma> r \<longrightarrow> type_of t \<sigma> r = T_NUM) \<and>
    (allow_division_by_zero (env_options (ce_env C)) \<or> \<sigma> ((if is_signed then rp_svalue else rp_uvalue) (pack t r)) \<noteq> 0))"
proof -
  obtain st1 s1 p s2 where q: "yields (check_implied_number C type_is_pointer r r ''Only numbers can be used as divisors'' st) s st1 s1"
    and p: "yields (regpackA r) s1 p s2"
    and d: "yields (if allow_division_by_zero (env_options (ce_env C)) then retA st1
      else require C (dsl_neq (lin_var (if is_signed then rp_svalue p else rp_uvalue p)) (lin_const 0)) ''Possible division by zero'' st1) s2 st' s'"
    using r by (auto simp: check_divisor_def)
  let ?v = "\<lambda>p. if is_signed then rp_svalue p else rp_uvalue p"
  have one: "checked_run st s st1 s1 (\<lambda>t x \<sigma>. T_CTX \<le> type_of t \<sigma> r \<longrightarrow> type_of t \<sigma> r = T_NUM)"
    using check_implied_number_checked [OF C s q] by (simp add: type_is_pointer_def type_of_def)
  have s1: "nd_spacious s1 (ck_inv st1)" by (rule checked_run_registers [OF one s])
  have two: "checked_run st1 s1 st' s' (\<lambda>t x \<sigma>. allow_division_by_zero (env_options (ce_env C)) \<or> \<sigma> (?v (pack t r)) \<noteq> 0)"
  proof (cases "allow_division_by_zero (env_options (ce_env C))")
    case True
    then have "st' = st1" "s' = s2" using d by simp_all
    then show ?thesis using checked_run_grows [OF checked_run_refl regpackA_props(1) [OF p]] True by simp
  next
    case False
    have "checked_run st1 s1 st' s' (\<lambda>t x \<sigma>. lin_holds \<sigma> (dsl_neq (lin_var (?v (pack t r))) (lin_const 0)))"
    proof (rule regpack_require_checked [OF C s1])
      show "yields (bindA (regpackA r) (\<lambda>p. require C (dsl_neq (lin_var (?v p)) (lin_const 0)) ''Possible division by zero'' st1)) s1 st' s'"
        unfolding yields_simps using p d False by (simp only: if_False) blast
      show "cst_ok t (dsl_neq (lin_var (?v p)) (lin_const 0))" if "pack_registered t p" for t p
        using that cst_okI(6) [OF expr_ok_base(1) expr_ok_base(2)] by (simp add: pack_registered_def)
    qed
    then show ?thesis using False by simp
  qed
  show ?thesis using checked_run_trans [OF one two] by (cases is_signed) simp_all
qed

lemma calm_requirements: "calm (require_in C c msg x)" "calm (require C c msg st)" "calm (fail_check C msg st)" "calm (fail_outside C msg x)"
proof -
  have add: "calm (addA c x)" for c x unfolding addA_def by (rule calm_base)
  have check: "calm (check_require x c)" for x c unfolding check_require_def by (intro calm_if calm_bind calm_queries calm_base)
  show req: "calm (require_in C c msg x)" for c msg x
    unfolding require_in_def split_beta
    by (cases "ce_mode C"; simp only: check_mode.case) (intro calm_bind calm_assertion_to_string add check calm_base)+
  show r: "calm (require C c msg st)" for c msg st unfolding require_def split_beta by (intro calm_bind req calm_base)
  show f: "calm (fail_check C msg st)" for msg st unfolding fail_check_def by (rule r)
  show "calm (fail_outside C msg x)" unfolding fail_outside_def split_beta by (intro calm_bind f calm_base)
qed

lemma calm_valid_access: "calm (check_valid_access C a st)"
proof -
  note calm = calm_bind calm_if calm_queries calm_base calm_requirements calm_all_num calm_selective_join
  have f: "factory meta_offset" "factory packet_size" "factory (reg_pack i)" for i
    unfolding meta_offset_def [abs_def] packet_size_def [abs_def] by (rule var_make_factory reg_pack_factory)+
  have pair: "calm (lb_ub_access_pair a v)" for v
    unfolding lb_ub_access_pair_def Let_def by (cases "va_width a"; simp only: val.case) (intro calm)+
  have packet: "calm (check_access_packet C lb ub v x)" for lb ub v x
    unfolding check_access_packet_def by (cases v; simp only: option.case) (intro calm f)+
  have stack: "calm (check_access_stack C lb ub x)" for lb ub x
  proof -
    have lower: "calm (case n of None \<Rightarrow> retA x | Some n \<Rightarrow> bindA (resA (cast_to int64_t n)) (\<lambda>k. require_in C (g k) msg x))" for n g msg x
      by (cases n; simp only: option.case) (intro calm)+
    show ?thesis unfolding check_access_stack_def split_beta by (intro calm f lower)
  qed
  have ctxt: "calm (check_access_context C lb ub x)" for lb ub x unfolding check_access_context_def by (intro calm)
  have shared: "calm (check_access_shared C lb ub v x)" for lb ub v x unfolding check_access_shared_def by (intro calm)
  have read: "calm (check_stack_read C a r lb ub x)" for r lb ub x
    unfolding check_stack_read_def split_beta by (cases "va_width a"; simp only: val.case) (intro calm)+
  have type: "calm (check_access_type C a r x type)" for r x type
    unfolding check_access_type_def Let_def split_beta by (intro calm f pair packet stack ctxt shared read)
  have join: "calm (join_over_types invr reg (check_access_type C a r) st)" for invr :: "checker_t \<Rightarrow> num_domain" and reg r st
    unfolding join_over_types_def split_beta by (intro calm type calm_fold)
  show ?thesis unfolding check_valid_access_def check_over_types_def split_beta by (intro calm join)
qed

lemma check_comparable_sound:
  assumes s: "nd_spacious s (ck_inv st)" and C: "ce_mode C = Check_mode" and r: "yields (check_comparable C r1 r2 st) s st' s'"
    and w: "ck_warnings st' = ck_warnings st" and \<sigma>: "\<sigma> \<in> nd_gamma (ck_inv st)"
  shows "type_of s' \<sigma> r1 = type_of s' \<sigma> r2 \<or> type_of s' \<sigma> r2 = T_NUM"
proof -
  note calm = calm_bind calm_if calm_queries calm_base calm_requirements calm_valid_access
  obtain p s1 q s2 same p2 s3 where p: "yields (regpackA r1) s p s1" and q: "yields (regpackA r2) s1 q s2"
    and b: "yields (entailA (eq_vars (rp_type p) (rp_type q)) (ck_inv st)) s2 same s2" and p2: "yields (regpackA r2) s2 p2 s3"
    and rest: "yields (if same then
        bindA (whenA (dsl_neq (lin_var (rp_type p2)) (lin_const T_NUM)) (ck_inv st)) (\<lambda>invr.
        bindA (is_in_group invr r1 TG_singleton_ptr) (\<lambda>b.
        bindA (if b then retA True else is_in_group invr r1 TG_map_fd) (\<lambda>b.
          if \<not> b then fail_check C ''Cannot subtract pointers to non-singleton regions'' st
          else bindA (check_valid_access C (comparable_access r1) st) (check_valid_access C (comparable_access r2)))))
      else require C (type_is_number p2) ''Cannot subtract pointers to different regions'' st) s3 st' s'"
    using r by (auto simp: check_comparable_def same_type_def entailA_def)
  note P = regpackA_props [OF p] and Q = regpackA_props [OF q] and P2 = regpackA_props [OF p2]
  have eq: "eq_vars v u = dsl_eq (lin_var v) (lin_var u)" for v u by (simp add: eq_vars_def dsl_eq_def)
  have s2: "nd_spacious s2 (ck_inv st)" by (rule nd_spacious_grows [OF nd_spacious_grows [OF s P(1)] Q(1)])
  have reg: "registered s2 (rp_type p)" "registered s2 (rp_type q)" "registered s3 (rp_type p2)"
    using pack_registered_grows [OF P(2) Q(1)] Q(2) P2(2) by (simp_all add: pack_registered_def)
  have types: "type_of t \<sigma> r1 = \<sigma> (rp_type p)" "type_of t \<sigma> r2 = \<sigma> (rp_type q)" "type_of t \<sigma> r2 = \<sigma> (rp_type p2)" if "grows s3 t" for t
    using P(3) [OF grows_trans [OF Q(1) grows_trans [OF P2(1) that]]] Q(3) [OF grows_trans [OF P2(1) that]] P2(3) [OF that]
    by (simp_all add: type_of_def pack_def)
  show ?thesis
  proof (cases same)
    case True
    have "cst_ok s2 (eq_vars (rp_type p) (rp_type q))"
      unfolding eq by (rule cst_okI [OF expr_ok_base(1) [OF reg(1)] expr_ok_base(1) [OF reg(2)]]) simp
    then have "\<sigma> (rp_type p) = \<sigma> (rp_type q)" using entailA_sound [OF s2 _ _ \<sigma>] b True by (fastforce simp: eq)
    moreover have "grows s3 s'"
    proof (rule calmD [OF _ rest])
      have "calm (entail_all x cs)" for x cs by (induction cs) (auto intro!: calm)
      then have "calm (is_in_group x r g)" for x r g unfolding is_in_group_def by (intro calm)
      then show "calm (if same then
        bindA (whenA (dsl_neq (lin_var (rp_type p2)) (lin_const T_NUM)) (ck_inv st)) (\<lambda>invr.
        bindA (is_in_group invr r1 TG_singleton_ptr) (\<lambda>b.
        bindA (if b then retA True else is_in_group invr r1 TG_map_fd) (\<lambda>b.
          if \<not> b then fail_check C ''Cannot subtract pointers to non-singleton regions'' st
          else bindA (check_valid_access C (comparable_access r1) st) (check_valid_access C (comparable_access r2)))))
      else require C (type_is_number p2) ''Cannot subtract pointers to different regions'' st)"
        unfolding whenA_def by (intro calm)
    qed
    ultimately show ?thesis using types by simp
  next
    case False
    have "cst_ok s3 (type_is_number p2)"
      unfolding type_is_number_def by (rule cst_okI [OF expr_ok_base(1) [OF reg(3)] expr_ok_base(2)]) simp
    then have run: "checked_run st s3 st' s' (\<lambda>t x \<sigma>. lin_holds \<sigma> (type_is_number p2))"
      using rest False by (intro require_checked [OF C _ nd_spacious_grows [OF s2 P2(1)]]) simp_all
    then have "\<sigma> (rp_type p2) = T_NUM" using checked_runD [OF run w \<sigma>] by (simp add: type_is_number_def)
    then show ?thesis using types(3) run by (simp add: checked_run_def)
  qed
qed

lemma assertion_check_run:
  assumes C: "C = \<lparr>ce_env = E, ce_mode = Check_mode, ce_assertion = a\<rparr>" and s: "nd_spacious s (ck_inv st)"
    and r: "yields (visit n E Check_mode a st) s st' s'" and w: "ck_warnings st' = ck_warnings st"
    and \<sigma>: "\<sigma> \<in> nd_gamma (ck_inv st)" "types_valid s' \<sigma>"
  shows "assertion_holds E s' \<sigma> a"
proof -
  have m: "ce_mode C = Check_mode" and e: "ce_env C = E" by (simp_all add: C)
  note v = r [unfolded visit.simps [of n E Check_mode a st] Let_def C [symmetric]]
  note val = expr_ok_base(1) cst_okI [OF expr_ok_base(1) expr_ok_base(2)]
  have var: "registered t (rp_svalue p)" "registered t (rp_ctx_offset p)" if "pack_registered t p" for t p
    using that by (simp_all add: pack_registered_def)
  show ?thesis
  proof (cases a)
    case (Comparable r1 r2 b)
    then show ?thesis using check_comparable_sound [OF s m _ w \<sigma>(1), of r1 r2] v by (simp add: assertion_holds_def)
  next
    case (ValidSize r z)
    let ?c = "\<lambda>p. (if z then dsl_ge else dsl_greater) (lin_var (rp_svalue p)) (lin_const 0)"
    have "checked_run st s st' s' (\<lambda>t x \<sigma>. lin_holds \<sigma> (?c (pack t r)))"
      by (rule regpack_require_checked [OF m s]) (use v var cst_okI in \<open>auto simp: ValidSize check_size_def intro!: val\<close>)
    from checked_runD [OF this w \<sigma>(1)] show ?thesis by (auto simp: assertion_holds_def ValidSize split: if_splits)
  next
    case (ZeroCtxOffset r)
    have "checked_run st s st' s' (\<lambda>t x \<sigma>. lin_holds \<sigma> (dsl_eq (lin_var (rp_ctx_offset (pack t r))) (lin_const 0)))"
      by (rule regpack_require_checked [OF m s]) (use v var in \<open>auto simp: ZeroCtxOffset check_ctx_offset_def intro!: val\<close>)
    from checked_runD [OF this w \<sigma>(1)] show ?thesis by (simp add: assertion_holds_def ZeroCtxOffset)
  next
    case (BoundedLoopCount name)
    have f: "factory (loop_counter (label_to_string name))" unfolding loop_counter_def [abs_def] by (rule var_make_factory)
    obtain c s1 where c: "yields (nameA (loop_counter (label_to_string name))) s c s1"
      and q: "yields (require C (at_most c loop_count_limit) ''Loop counter is too large'' st) s1 st' s'"
      using v by (auto simp: BoundedLoopCount check_loop_count_def)
    note F = factoryD [OF f c]
    have "registered s1 c" using c var_make_registered unfolding loop_counter_def [abs_def] by blast
    then have "checked_run st s1 st' s' (\<lambda>t x \<sigma>. lin_holds \<sigma> (at_most c loop_count_limit))"
      using q by (intro require_checked [OF m _ nd_spacious_grows [OF s F(1)]] val) simp_all
    note run = this
    have "\<sigma> c \<le> loop_count_limit" using checked_runD [OF run w \<sigma>(1)] by simp
    moreover have "grows s1 s'" using run by (simp add: checked_run_def)
    ultimately show ?thesis using F(2) by (simp add: assertion_holds_def BoundedLoopCount)
  next
    case (TypeConstraint r g)
    have "checked_run st s st' s' (\<lambda>t x \<sigma>. T_MIN \<le> \<sigma> (rp_type (pack t r)) \<longrightarrow> \<sigma> (rp_type (pack t r)) \<le> T_MAX \<longrightarrow>
        \<sigma> (rp_type (pack t r)) \<in> set (group_types g))"
      using check_type_checked [OF m s] v by (simp add: TypeConstraint)
    from checked_runD [OF this w \<sigma>(1)] show ?thesis using \<sigma>(2) by (simp add: assertion_holds_def TypeConstraint types_valid_def type_of_def)
  next
    case (Addable p q)
    have "checked_run st s st' s' (\<lambda>t x \<sigma>. lin_holds \<sigma> (type_is_pointer (pack t p)) \<longrightarrow> \<sigma> (rp_type (pack t q)) = T_NUM)"
      using check_implied_number_checked [OF m s] v by (simp add: Addable)
    from checked_runD [OF this w \<sigma>(1)] show ?thesis by (simp add: assertion_holds_def Addable type_is_pointer_def type_of_def)
  next
    case (ValidStore p q)
    have "checked_run st s st' s' (\<lambda>t x \<sigma>. lin_holds \<sigma> (type_is_not_stack (pack t p)) \<longrightarrow> \<sigma> (rp_type (pack t q)) = T_NUM)"
      using check_implied_number_checked [OF m s] v by (simp add: ValidStore)
    from checked_runD [OF this w \<sigma>(1)] show ?thesis by (simp add: assertion_holds_def ValidStore type_is_not_stack_def type_of_def)
  next
    case (ValidDivisor r b)
    have "yields (check_divisor C r b st) s st' s'" using v by (simp add: ValidDivisor)
    from checked_runD [OF check_divisor_sound [OF m s this] w \<sigma>(1)] show ?thesis
      unfolding assertion_holds_def ValidDivisor Assertion.case e .
  qed (simp_all add: assertion_holds_def)
qed

lemma check_yields:
  assumes "ebpf_domain_check E a d s = Some (Inr (ws, s'))" "\<sigma> \<in> nd_gamma (ed_inv d)"
  shows "\<exists>st'. yields (visit 1 E Check_mode a \<lparr>ck_dom = d, ck_warnings = []\<rparr>) s st' s' \<and> ck_warnings st' = ws"
proof -
  have "\<not> ed_is_bottom d" using assms(2) by (auto simp: ed_is_bottom_def nd_is_bottom_def nd_gamma_def split: option.splits)
  moreover have "yields (ebpf_domain_check E a d) s ws s'" using assms(1) by (simp add: yields_def)
  ultimately show ?thesis by (auto simp: ebpf_domain_check_def)
qed

section \<open>An example\<close>

text \<open>The register \<open>r1\<close> points to the start of a context of 32 bytes.\<close>

definition probe_names :: names where
  "probe_names = [''r1.svalue'', ''r1.uvalue'', ''r1.ctx_offset'', ''r1.map_fd'', ''r1.packet_offset'', ''r1.shared_offset'',
     ''r1.stack_offset'', ''r1.type'', ''r1.shared_region_size'', ''r1.stack_numeric_size'']"

definition probe_state :: shared_state where
  "probe_state = \<lparr>sh_names = probe_names, sh_cells = (\<lambda>_. [])\<rparr>"

definition probe_zone :: split_dbm where
  "probe_zone = \<lparr>db_vert_map = [(2, 2), (7, 1)], db_rev_map = [None, Some 7, Some 2],
     db_g = \<lparr>ag_preds = [[(1, 1), (2, 3)], [(0, 0)], [(0, 2)]], ag_succs = [[(1, 0), (2, 2)], [(0, 1)], [(0, 3)]],
       ag_ws = [- 3, 3, 0, 0], ag_edge_count = 4, ag_is_free = [False, False, False], ag_free_id = [], ag_free_widx = []\<rparr>,
     db_potential = [0, - 3, 0], db_unstable = []\<rparr>"


definition probe_env :: "ebpf_platform_t \<Rightarrow> verifier_env" where
  "probe_env p = \<lparr>env_narrow = gsl_narrow_ref,
     env_info = \<lparr>info_platform = p, info_map_descriptors = [],
       info_type = \<lparr>pt_name = ''example'', pt_context_descriptor = Some 0, pt_platform_specific_data = 0, pt_section_prefixes = [], pt_is_privileged = False\<rparr>,
       info_cache = [], info_line_info = []\<rparr>,
     env_contexts = [\<lparr>ctx_size = 32, ctx_data = 0, ctx_end = 4, ctx_meta = 8\<rparr>], env_options = default_options\<rparr>"

definition probe_access :: valid_access_t where
  "probe_access = \<lparr>va_call_stack_depth = 1, va_reg = Reg 1, va_offset = 28, va_width = Imm 4, va_or_null = False, va_access_type = Access_read\<rparr>"

definition probe_domain :: ebpf_domain_t where
  "probe_domain = \<lparr>ed_inv = Some probe_zone, ed_stack = array_new\<rparr>"


lemma probe_reg_pack: "reg_pack 1 probe_names = (\<lparr>rp_svalue = 0, rp_uvalue = 1, rp_ctx_offset = 2, rp_map_fd = 3, rp_packet_offset = 4,
   rp_shared_offset = 5, rp_stack_offset = 6, rp_type = 7, rp_shared_region_size = 8, rp_stack_numeric_size = 9\<rparr>, probe_names)"
  by code_simp

lemma probe_weight_index: "weight_index (db_g probe_zone) s d = (if s = 0 \<and> d = 1 then Some 0 else if s = 1 \<and> d = 0 then Some 1 else if s = 0 \<and> d = 2 then Some 2
  else if s = 2 \<and> d = 0 then Some 3 else None)"
  by (auto simp: weight_index_def probe_zone_def graph_size_def less_Suc_eq numeral_3_eq_3 nth_Cons split: nat.splits)

lemma probe_size: "graph_size (db_g probe_zone) = 3" by code_simp
lemma probe_dom: "dom (edges (db_g probe_zone)) = {(0,1),(1,0),(0,2),(2,0)}"
  by (auto simp: dom_edges probe_weight_index split: if_splits)
lemma probe_edges: "edges (db_g probe_zone) (s, d) = (if s = 0 \<and> d = 1 then Some (-3) else if s = 1 \<and> d = 0 then Some 3 else if s = 0 \<and> d = 2 then Some 0
  else if s = 2 \<and> d = 0 then Some 0 else None)"
  by (simp add: edges_def' probe_weight_index, simp add: probe_zone_def)
lemma below_three: "(v :: nat) < 3 \<longleftrightarrow> v \<in> {0, 1, 2}"
  by auto

lemma probe_verts: "verts (db_g probe_zone) = {0, 1, 2}"
proof -
  have "\<forall>v \<in> {0, 1, 2}. \<not> ag_is_free (db_g probe_zone) ! v" by (simp add: probe_zone_def)
  then show ?thesis unfolding verts_def probe_size below_three by blast
qed

lemma probe_graph: "graph_ok (db_g probe_zone)"
proof -
  let ?g = "db_g probe_zone"
  have len: "length (ag_preds ?g) = 3" "length (ag_is_free ?g) = 3" "length (ag_ws ?g) = 4" "ag_free_widx ?g = []" "ag_free_id ?g = []" "ag_edge_count ?g = 4"
    by (simp_all add: probe_zone_def)
  have free: "\<not> ag_is_free ?g ! v" if "v < 3" for v
    using that unfolding below_three by (elim insertE) (simp_all add: probe_zone_def)
  have sorted: "\<forall>v \<in> {0, 1, 2}. omap_ok (ag_succs ?g ! v) \<and> omap_ok (ag_preds ?g ! v)" by (simp add: probe_zone_def omap_ok_def)
  have preds: "\<forall>s \<in> {0, 1, 2}. \<forall>d \<in> {0, 1, 2}. map_of (ag_preds ?g ! d) s = weight_index ?g s d"
    by (simp add: probe_weight_index) (simp add: probe_zone_def)
  have range: "\<forall>d \<in> {0, 1, 2}. \<forall>s i. map_of (ag_preds ?g ! d) s = Some i \<longrightarrow> s \<in> {0, 1, 2}"
    by (simp add: probe_zone_def)
  have "adj_ok ?g" unfolding adj_ok_def probe_size below_three Ball_def [symmetric]
    using len(1) sorted preds range by (auto simp: probe_verts probe_weight_index split: if_splits)
  moreover have "index_ok ?g" by (auto simp: index_ok_def len probe_weight_index split: if_splits)
  moreover have "free_ok ?g" using free len(2,5) by (auto simp: free_ok_def probe_size)
  ultimately show ?thesis by (simp add: graph_ok_def probe_size probe_dom len)
qed

lemma probe_vm: "vm probe_zone x = (if x = 2 then Some 2 else if x = 7 then Some 1 else None)"
  by (simp add: probe_zone_def)

lemma probe_zone_ok: "dbm_ok probe_zone"
proof -
  note vm = probe_vm
  have pot: "pot probe_zone v = [0, - 3, 0] ! v" for v by (simp add: probe_zone_def)
  have "sat (edges (db_g probe_zone)) (pot probe_zone)"
    by (auto simp: sat_def probe_edges pot split: if_splits)
  moreover have "omap_ok (db_vert_map probe_zone)" "length (db_rev_map probe_zone) = 3" "length (db_potential probe_zone) = 3"
    "db_unstable probe_zone = []" "db_rev_map probe_zone ! 1 = Some 7" "db_rev_map probe_zone ! 2 = Some 2"
    by (simp_all add: probe_zone_def omap_ok_def)
  moreover have "\<exists>x. vm probe_zone x = Some v" if "v = 1 \<or> v = 2" for v using that vm [of 7] vm [of 2] by auto
  ultimately show ?thesis
    unfolding dbm_ok_def dbm_shape_def named_verts_def probe_size probe_verts
    using probe_graph by (auto simp: vm split: if_splits)
qed


lemma probe_spacious: "spacious probe_state probe_zone"
  by (auto simp: spacious_def probe_zone_ok probe_vm registered_def probe_state_def probe_names_def probe_verts dom_def split: if_splits)

lemma probe_gamma: "\<sigma> 2 = 0 \<Longrightarrow> \<sigma> 7 = T_CTX \<Longrightarrow> \<sigma> \<in> dbm_gamma probe_zone"
  by (rule dbm_gammaI [where val = "\<lambda>v. if v = 1 then T_CTX else 0"])
    (auto simp: models_def probe_vm sat_def probe_edges T_CTX_def split: if_splits)

lemma probe_index: "dbm_index probe_names probe_zone 7 = Inr (fin_ivl T_CTX T_CTX)"
  "dbm_index probe_names probe_zone 2 = Inr (fin_ivl 0 0)"
proof -
  have sh: "dbm_shape probe_zone" "dom (vm probe_zone) \<subseteq> {..<length probe_names}"
    using probe_zone_ok probe_spacious by (auto simp: dbm_ok_def spacious_def registered_def probe_state_def)
  have "var_lb probe_zone 7 = Some T_CTX" "var_ub probe_zone 7 = Some T_CTX" "var_lb probe_zone 2 = Some 0" "var_ub probe_zone 2 = Some 0"
    by code_simp+
  then show "dbm_index probe_names probe_zone 7 = Inr (fin_ivl T_CTX T_CTX)" "dbm_index probe_names probe_zone 2 = Inr (fin_ivl 0 0)"
    using dbm_index_sound [OF sh, of 7] dbm_index_sound [OF sh, of 2] by (auto simp: bound_of_def fin_ivl_def)
qed


lemma probe_entailed:
  assumes "eval_interval probe_names probe_zone (cst_expression c) = Inr i" "entailed_by_interval i (cst_kind c)"
    "variable_terms (cst_expression c) \<noteq> []"
  shows "entailA c (ed_inv probe_domain) probe_state = Some (Inr (True, probe_state))"
  using assms by (simp add: entailA_def readA_def nd_entail_def dbm_entail_def is_tautology_def is_contradiction_def is_constant_def
      lift_res_def probe_state_def probe_domain_def)

lemma bindE_Inr: "bindE m Inr = m"
  by (cases m) simp_all

lemma probe_eval:
  "eval_interval probe_names probe_zone \<lparr>constant_term = k, variable_terms = [(7, c)]\<rparr> =
    ivl_add (interval_num k) (ivl_mul (interval_num c) (fin_ivl T_CTX T_CTX))"
  "eval_interval probe_names probe_zone \<lparr>constant_term = k, variable_terms = [(2, c)]\<rparr> =
    ivl_add (interval_num k) (ivl_mul (interval_num c) (fin_ivl 0 0))"
  by (simp_all add: eval_interval_def probe_index bindE_Inr)

lemma probe_entail_type: "entailA (dsl_eq (lin_var 7) (lin_const T_CTX)) (ed_inv probe_domain) probe_state = Some (Inr (True, probe_state))"
proof (rule probe_entailed)
  have e: "cst_expression (dsl_eq (lin_var 7) (lin_const T_CTX)) = \<lparr>constant_term = 3, variable_terms = [(7, 1)]\<rparr>" by code_simp
  show "eval_interval probe_names probe_zone (cst_expression (dsl_eq (lin_var 7) (lin_const T_CTX))) = Inr (interval_num 0)"
    unfolding e probe_eval by code_simp
qed code_simp+

lemma probe_entail_lower: "entailA (dsl_ge (lin_plus (lin_var 2) (lin_const 28)) (lin_const 0)) (ed_inv probe_domain) probe_state = Some (Inr (True, probe_state))"
proof (rule probe_entailed)
  let ?c = "dsl_ge (lin_plus (lin_var 2) (lin_const 28)) (lin_const 0)"
  have e: "cst_expression ?c = \<lparr>constant_term = - 28, variable_terms = [(2, - 1)]\<rparr>" by code_simp
  show "eval_interval probe_names probe_zone (cst_expression ?c) = Inr (interval_num (- 28))"
    unfolding e probe_eval by code_simp
qed code_simp+

lemma probe_entail_upper: "entailA (dsl_le (lin_plus (lin_plus (lin_var 2) (lin_const 28)) (lin_const 4)) (lin_const 32)) (ed_inv probe_domain) probe_state = Some (Inr (True, probe_state))"
proof (rule probe_entailed)
  let ?c = "dsl_le (lin_plus (lin_plus (lin_var 2) (lin_const 28)) (lin_const 4)) (lin_const 32)"
  have e: "cst_expression ?c = \<lparr>constant_term = 0, variable_terms = [(2, 1)]\<rparr>" by code_simp
  show "eval_interval probe_names probe_zone (cst_expression ?c) = Inr (interval_num 0)"
    unfolding e probe_eval by code_simp
qed code_simp+

lemma probe_pack: "regpackA (Reg 1) probe_state = Some (Inr (fst (reg_pack 1 probe_names), probe_state))"
  by (simp add: regpackA_def nameA_def probe_state_def probe_reg_pack)

lemma probe_not_bottom: "\<not> ed_is_bottom probe_domain" by (simp add: ed_is_bottom_def nd_is_bottom_def probe_domain_def)

lemma probe_type_check: "ebpf_domain_check (probe_env p) (TypeConstraint (Reg 1) TG_ctx) probe_domain probe_state = Some (Inr ([], probe_state))"
  using probe_entail_type probe_reg_pack
  by (simp add: ebpf_domain_check_def probe_not_bottom visit.simps check_type_def is_in_group_def probe_pack bindA_def group_constraints_def retA_def)

lemma probe_access_check: "ebpf_domain_check (probe_env p) (ValidAccess probe_access) probe_domain probe_state = Some (Inr ([], probe_state))"
proof -
  let ?st = "\<lparr>ck_dom = probe_domain, ck_warnings = []\<rparr>" and ?C = "\<lparr>ce_env = probe_env p, ce_mode = Check_mode, ce_assertion = ValidAccess probe_access\<rparr>"
   and ?r = "fst (reg_pack 1 probe_names)" and ?invr = "ed_inv probe_domain"
  have shown: "\<exists>x. assertion_to_string (probe_env p) (ValidAccess probe_access) probe_state = Some (Inr (x, probe_state))"
    by (simp add: assertion_to_string_def valid_access_to_string_def probe_access_def bindA_def retA_def)
  have req: "require_in ?C c msg (?invr, ?st) probe_state = Some (Inr ((?invr, ?st), probe_state))"
    if "entailA c ?invr probe_state = Some (Inr (True, probe_state))" "\<not> is_contradiction c" for c msg
    using shown that by (auto simp: require_in_def bindA_def check_require_def nd_is_bottom_def probe_domain_def retA_def)
  have desc: "context_descriptor (probe_env p) = Inr \<lparr>ctx_size = 32, ctx_data = 0, ctx_end = 4, ctx_meta = 8\<rparr>"
    by (simp add: context_descriptor_def probe_env_def)
  have lower: "require_in ?C (dsl_ge (lin_plus (lin_var 2) (lin_const 28)) (lin_const 0)) msg (?invr, ?st) probe_state = Some (Inr ((?invr, ?st), probe_state))" for msg
    by (rule req [OF probe_entail_lower]) code_simp
  have upper: "require_in ?C (dsl_le (lin_plus (lin_plus (lin_var 2) (lin_const 28)) (lin_const 4)) (lin_const 32)) msg (?invr, ?st) probe_state = Some (Inr ((?invr, ?st), probe_state))" for msg
    by (rule req [OF probe_entail_upper]) code_simp
  have pair: "lb_ub_access_pair probe_access 2 = retA (lin_plus (lin_var 2) (lin_const 28), lin_plus (lin_plus (lin_var 2) (lin_const 28)) (lin_const 4))"
    by (simp add: lb_ub_access_pair_def probe_access_def Let_def)
  have ctx: "check_access_type ?C probe_access ?r (?invr, ?st) T_CTX probe_state = Some (Inr ((?invr, ?st), probe_state))"
    using lower upper
    by (simp add: check_access_type_def T_CTX_def T_PACKET_def T_STACK_def probe_reg_pack pair check_access_context_def desc bindA_def retA_def resA_def lift_res_def)
  have "eval_interval probe_names probe_zone (lin_var 7) = Inr (fin_ivl T_CTX T_CTX)"
    unfolding lin_var_def probe_eval by code_simp
  then have ts: "evalA (lin_var 7) ?invr probe_state = Some (Inr (fin_ivl T_CTX T_CTX, probe_state))"
    by (simp add: evalA_def readA_def nd_eval_interval_def lift_res_def probe_domain_def probe_state_def)
  have types: "is_bottom (fin_ivl T_CTX T_CTX) = False" "is_top (fin_ivl T_CTX T_CTX) = False"
    "ivl_pair_bound int32_t T_MIN T_MAX (fin_ivl T_CTX T_CTX) = Inr (T_CTX, T_CTX)" "iterate_types T_CTX T_CTX = Inr [T_CTX]"
    by code_simp+
  have join: "selectively_join_based_on_type nd_bottom ?invr probe_state = Some (Inr (?invr, probe_state))"
    by (simp add: selectively_join_based_on_type_def nd_is_bottom_def nd_bottom_def nd_join_def runA_def readA_def bindA_def retA_def probe_domain_def)
  have reg: "va_reg probe_access = Reg 1" by (simp add: probe_access_def)
  have over: "join_over_types ck_inv (Reg 1) (check_access_type ?C probe_access ?r) ?st probe_state = Some (Inr ((?invr, ?st), probe_state))"
    using ctx ts join
    by (simp add: join_over_types_def bindA_def probe_pack probe_reg_pack types resA_def lift_res_def retA_def)
  have "check_valid_access ?C probe_access ?st probe_state = Some (Inr (?st, probe_state))"
    using over
    by (simp add: check_valid_access_def check_over_types_def reg bindA_def probe_pack retA_def set_ck_inv_def)
  then show ?thesis
    by (simp add: ebpf_domain_check_def probe_not_bottom visit.simps bindA_def retA_def)
qed

section \<open>Properties\<close>

text \<open>
  C9. When checking a memory access on an abstract state gives no warning, the access is within bounds in every
  state of a run that the abstract state describes: the accessed bytes of a packet lie between its metadata and its end, those of
  the context and of a shared region lie inside them, those of the stack lie in the frame of the current subprogram
  and below the top of the stack, a pointer to a shared region is not null, and the register is not a number
  unless that number is null and the access allows it. This is read at the type that the register has in that state.
\<close>

theorem access_check_sound:
  assumes "nd_spacious s (ed_inv d)" "ebpf_domain_check E (ValidAccess a) d s = Some (Inr ([], s'))"
    "\<sigma> \<in> nd_gamma (ed_inv d)" "types_valid s' \<sigma>"
  shows "access_within E s' (ed_inv d) a \<sigma> (type_of s' \<sigma> (va_reg a))"
proof -
  let ?st = "\<lparr>ck_dom = d, ck_warnings = []\<rparr>" and ?C = "\<lparr>ce_env = E, ce_mode = Check_mode, ce_assertion = ValidAccess a\<rparr>"
  obtain st' where st': "yields (check_valid_access ?C a ?st) s st' s'" "ck_warnings st' = []"
    using check_yields [OF assms(2,3)] by (auto simp: visit.simps)
  show ?thesis using check_valid_access_sound [of ?C s ?st a st' s' \<sigma>] st' assms by simp
qed

text \<open>Reading the last four bytes of the context.\<close>

definition probe_value :: valuation where "probe_value v = (if v = 7 then T_CTX else 0)"

lemma probe_value_ok: "nd_spacious probe_state (ed_inv probe_domain)" "probe_value \<in> nd_gamma (ed_inv probe_domain)" "types_valid probe_state probe_value"
  "type_of probe_state probe_value (Reg 1) = T_CTX"
  using probe_spacious probe_gamma [of probe_value]
  by (simp_all add: nd_spacious_def nd_gamma_def probe_domain_def probe_value_def types_valid_def type_of_def pack_def probe_state_def
      probe_reg_pack T_CTX_def T_MIN_def T_MAX_def T_UNINIT_def T_SHARED_def)

theorem access_check_sound_witness:
  "\<forall>p. access_within (probe_env p) probe_state (ed_inv probe_domain) probe_access probe_value T_CTX"
proof
  fix p
  have "va_reg probe_access = Reg 1" by (simp add: probe_access_def)
  then show "access_within (probe_env p) probe_state (ed_inv probe_domain) probe_access probe_value T_CTX"
    using access_check_sound [OF probe_value_ok(1) probe_access_check probe_value_ok(2,3)] probe_value_ok(4) by simp
qed



end
