(* ===== verification/Spec2Isabelle.thy ===== *)
theory Spec2Isabelle
  imports Ebpf_Marshal Linux_Platform Crab_Verifier_Sound Crab_Bitset Crab_Dbm_Query Crab_Transformer Crab_Assume_Sound Crab_Check_Sound Crab_Repair_Potential
begin

text \<open>
The PREVAIL eBPF verifier of \<^verbatim>\<open>src/verifiers/prevail/src\<close>, the code of the repository that decides
  whether a program may run. All paths below are under that directory.

  \<^bold>\<open>How the program is put together.\<close> A program arrives as an array of 64-bit slots with information
  about its platform, its type and its maps. The decoder (\<^verbatim>\<open>asm_unmarshal.cpp\<close>) turns the slots into a
  list of labelled instructions of the abstract syntax (\<^verbatim>\<open>asm_syntax.hpp\<close>), asking the platform
  (\<^verbatim>\<open>linux/\<close>) for helper prototypes; the encoder (\<^verbatim>\<open>asm_marshal.cpp\<close>) goes the other way. The
  instructions become a control-flow graph (\<^verbatim>\<open>asm_cfg.cpp\<close>, \<^verbatim>\<open>crab/cfg.hpp\<close>), in which every node gets
  the assertions its instruction needs (\<^verbatim>\<open>assertions.cpp\<close>). A forward analyser
  (\<^verbatim>\<open>crab/fwd_analyzer.cpp\<close>) iterates an abstract domain over the graph in a weak topological order
  (\<^verbatim>\<open>crab/wto.cpp\<close>), and the driver (\<^verbatim>\<open>crab_verifier.cpp\<close>) checks the assertions against the
  invariants and gives the verdict. The abstract state is a zone, a graph of differences between
  variables (\<^verbatim>\<open>crab/split_dbm.cpp\<close> over \<^verbatim>\<open>crab_utils/\<close>), in which every register has a variable for
  its type and one for each meaning of its value, with the cells of the stack beside it
  (\<^verbatim>\<open>crab/array_domain.cpp\<close>). Intervals of unbounded integers with infinite bounds
  (\<^verbatim>\<open>crab/interval.cpp\<close>) are what expressions evaluate to.

  \<^bold>\<open>Which theory models what.\<close>
  \<^item> \<open>Ebpf_Prelude\<close>: results with exceptions, word and list facts, simplification collections.
    \<open>Std_Containers\<close>: ordered sets and maps of the standard library as sorted lists. \<open>Run_Loops\<close>: code
    that may throw and may not end, and the loop combinator \<open>loop_run\<close> with its two rules.
  \<^item> \<open>Ebpf_Isa\<close>: \<^verbatim>\<open>ebpf_vm_isa.hpp\<close>, the opcode fields, slots, access widths and immediate merging.
  \<^item> \<open>Ebpf_Syntax\<close>, \<open>Ebpf_Platform\<close>: \<^verbatim>\<open>asm_syntax.hpp\<close>, \<^verbatim>\<open>crab/label.hpp\<close>, \<^verbatim>\<open>helpers.hpp\<close>, \<^verbatim>\<open>platform.hpp\<close> and
    \<^verbatim>\<open>config.hpp\<close>: a record per struct and a datatype per variant; a platform is a record of its
    callbacks and the thread-local program information an argument.
  \<^item> \<open>Ebpf_Unmarshal\<close>: \<^verbatim>\<open>asm_unmarshal.cpp\<close>, one definition per method of \<^verbatim>\<open>Unmarshaller\<close>. The
    decoding loop recurses on the slots that are left; \<^verbatim>\<open>InvalidInstruction\<close> and the exceptions of the
    standard library are values of the error type.
  \<^item> \<open>Ebpf_Marshal\<close>: \<^verbatim>\<open>asm_marshal.cpp\<close>, one definition per overload of \<^verbatim>\<open>MarshalVisitor\<close>, and the
    two passes over a program.
  \<^item> \<open>Linux_Prototypes\<close>: \<^verbatim>\<open>linux/gpl/spec_prototypes.cpp\<close>, every helper prototype and the table.
  \<^item> \<open>Linux_Platform\<close>: \<^verbatim>\<open>linux/linux_platform.cpp\<close> and the map descriptor functions of
    \<^verbatim>\<open>asm_files.cpp\<close>. The system call and the enumerators of the kernel headers are parameters.
  \<^item> \<open>Ebpf_Assertions\<close>: \<^verbatim>\<open>assertions.cpp\<close>, one definition per overload of \<^verbatim>\<open>AssertExtractor\<close>.
  \<^item> \<open>Crab_Cfg\<close>, \<open>Crab_Prepare\<close>: \<^verbatim>\<open>crab/cfg.hpp\<close> and \<^verbatim>\<open>asm_cfg.cpp\<close>: the graph as an ordered map from
    labels to nodes, its builder, construction from instructions, inlining of local calls, loop
    counters and assertions, basic blocks and statistics.
  \<^item> \<open>Crab_Wto\<close>: \<^verbatim>\<open>crab/wto.cpp\<close>, the iterative builder with its explicit visit stack, heads and
    nestings; a cycle is an index into the list of cycles where the code has a shared pointer.
    \<open>Crab_Wto_Frames\<close>, \<open>Crab_Wto_Shape\<close> and \<open>Crab_Wto_Correct\<close> prove it correct: the invariant of the
    stack and the frames, the shape of the nested components, and the steps that keep both.
  \<^item> \<open>Asm_Ostream\<close>: \<^verbatim>\<open>asm_ostream.cpp\<close>, the printing of labels, instructions and listings; the text
    forms of assertions, which name variables, are in \<open>Crab_Ebpf_Checker\<close>.
  \<^item> \<open>Crab_Number\<close>: \<^verbatim>\<open>crab_utils/num_big.hpp\<close>, \<^verbatim>\<open>num_extended.hpp\<close>, \<^verbatim>\<open>num_safety.hpp\<close>; the
    multiprecision integer is \<open>int\<close>, machine integers are \<open>int\<close> with the reduction written out.
  \<^item> \<open>Crab_Interval\<close>: \<^verbatim>\<open>crab/interval.hpp\<close> and \<^verbatim>\<open>crab/interval.cpp\<close>. The divisions, which call
    themselves on the parts of an operand around zero, terminate because a part has no zero.
  \<^item> \<open>Abstract_Domain\<close>: the contract of a domain as the locales \<open>abstract_domain\<close> and
    \<open>widening_domain\<close>; \<open>Crab_Interval_Sound\<close> gives intervals their meaning and interprets both.
    \<open>Crab_Interval_Arith\<close>, \<open>Crab_Interval_Bits\<close>: soundness of the operations, stated once as the
    locale \<open>sound_operation\<close> and interpreted for each of them.
  \<^item> \<open>Crab_Fwd_Analyzer\<close>: \<^verbatim>\<open>crab/fwd_analyzer.cpp\<close>, the fixpoint iterator over a record of the domain
    operations; \<open>Crab_Fwd_Sound\<close> and \<open>Crab_Fwd_Termination\<close> prove it sound and terminating for every
    domain with the laws of their locales. \<open>Crab_Verifier\<close>: \<^verbatim>\<open>crab_verifier.cpp\<close>, the report, the
    verdict and the loop bound; \<open>Crab_Verifier_Sound\<close> joins all of it into the theorems about a
    verified program, and instantiates them on a domain of intervals for register 0.
  \<^item> \<open>Crab_Variable\<close>: \<^verbatim>\<open>crab/var_factory.cpp\<close> and \<^verbatim>\<open>crab/type_encoding.hpp\<close>; the thread-local table of
    variable names is a list that the factories return extended. \<open>Crab_Linear\<close>: \<^verbatim>\<open>crab/linear_expression.hpp\<close>,
    \<^verbatim>\<open>linear_constraint.hpp\<close> and \<^verbatim>\<open>dsl_syntax.hpp\<close>.
  \<^item> \<open>Crab_Adapt_Graph\<close>, \<open>Crab_Graph_Views\<close>, \<open>Crab_Graph_Ops\<close>, \<open>Crab_Heap\<close>: \<^verbatim>\<open>crab_utils/adapt_sgraph.hpp\<close>,
    \<^verbatim>\<open>graph_ops.hpp\<close> and \<^verbatim>\<open>heap.hpp\<close>, the graph with its free lists, its views and the shortest-path
    algorithms, whose scratch arrays are local to a call. \<open>Crab_Graph_Sound\<close> and
    \<open>Crab_Repair_Potential\<close> prove the algorithms against the differences that a graph stands for.
  \<^item> \<open>Crab_Split_Dbm\<close>: \<^verbatim>\<open>crab/split_dbm.cpp\<close>, the zone as a record of its vertex map, graph, potential and
    unstable set. \<open>Crab_Split_Dbm_Sound\<close>, \<open>Crab_Dbm_Diffs\<close>, \<open>Crab_Dbm_Add\<close>, \<open>Crab_Dbm_Query\<close>: the valuations of
    a zone, and the soundness of adding a constraint and of asking for one.
  \<^item> \<open>Crab_Num_Domain\<close>: \<^verbatim>\<open>crab/add_bottom.hpp\<close>, and actions that thread the state all domains share, the
    names and the cells. \<open>Crab_Type_Domain\<close>, \<open>Crab_Array_Domain\<close>, \<open>Crab_Bitset\<close>: the domains of
    \<^verbatim>\<open>crab/type_domain.cpp\<close>, \<^verbatim>\<open>crab/array_domain.cpp\<close> and \<^verbatim>\<open>crab/bitset_domain.cpp\<close>.
  \<^item> \<open>Crab_Ebpf_Domain\<close>: \<^verbatim>\<open>crab/ebpf_domain.cpp\<close>. \<open>Crab_Ebpf_Checker\<close>: \<^verbatim>\<open>crab/ebpf_checker.cpp\<close>, a definition
    per assertion; a transition of a type works on a copy of the numeric state beside the state.
    \<open>Crab_Check_Runs\<close> and \<open>Crab_Check_Sound\<close> prove the checks sound.
  \<^item> \<open>Crab_Assume\<close>, \<open>Crab_Arith\<close>, \<open>Crab_Transfer_Bin\<close>, \<open>Crab_Transformer\<close>: \<^verbatim>\<open>crab/ebpf_transformer.cpp\<close>: the
    constraints of a comparison, arithmetic with overflow, binary instructions, and all other
    instructions. \<open>Crab_Assume_Sound\<close> proves the 64-bit comparisons sound.

  \<^bold>\<open>What the theorems show.\<close>
  \<^item> A program the driver accepts never fails an assertion on any run, for every domain whose
    operations are sound; the driver ends on every graph when the domain's widening is
    well-founded; the builder returns a weak topological order of the nodes it reaches; report and
    verdict agree; the reported loop count bounds the counters.
  \<^item> Decoding of any program for the Linux platform gives well-formed instructions, an error that
    names a slot, or the exception for an unsupported helper, and nothing else; a call reads its
    arguments as the prototype says; the merging of two shifts keeps their meaning.
  \<^item> Encoding is injective, and decoding the encoding of a program gives it back, for the programs
    the encoder can represent; the programs for which it cannot are characterised.
  \<^item> The graph of a program has the instructions' edges, the branches of a condition exclude each
    other, and preparation attaches to every node the assertions of its instruction.
  \<^item> The helper table is consistent with its indices and the argument pairs of the verifier; program
    and map types are selected by section and number; equal map definitions, and no others, share a
    mock descriptor.
  \<^item> Intervals form a lattice whose order is inclusion, widening stabilises in at most four rounds,
    and arithmetic, truncation, remainder, unsigned division and bitwise operations contain every
    concrete result, on the operands for which that is the case; five theorems exhibit operands on
    which an operation of the code misses a result.
  \<^item> The graph refines a map from edges to weights, the heap is a priority queue, and potential repair
    decides whether the differences are satisfiable. Adding a constraint to a zone keeps it valid
    and keeps every valuation that satisfies the constraint; a constraint that a zone entails holds
    of every valuation of it.
  \<^item> A check without a warning means what its assertion says on every concrete state: accesses are
    within bounds at whatever type the register has, and types, sizes, divisors, offsets, stores
    and loop counters are as asked. The constraints that a 64-bit comparison adds hold of the
    operands; for 32-bit comparisons a lemma exhibits operands for which they do not.
  \<^item> Names and kinds of variables are recovered from each other, linear arithmetic computes what its
    name says, the bit set of numeric bytes is a lattice, and the byte-wise reading of a stored
    number gives that number back.

  \<^bold>\<open>Bounds and fuel.\<close> There is no fuel. A loop whose end the data does not give is \<open>loop_run\<close>, whose
  value is \<open>None\<close> when the loop does not end, and the theorems that the code returns show it is not.
  The builder of the weak topological order numbers its vertices with 32-bit integers, and the
  iterator counts its rounds with 32 bits: the bound \<open>small_graph\<close>, \<open>n (n + 1) < 2^31 - 1\<close> for \<open>n\<close>
  nodes, keeps the builder's numbers in range. The four rounds of interval widening are the number
  of bounds an interval can give up, plus one for the empty interval and one for the round that
  detects the fixpoint. The vertices of a zone are numbered with 16 bits: the hypotheses \<open>roomy\<close> and
  \<open>spacious\<close> say that a zone has room for the variables of a constraint below 65536. The check of a
  function in a register checks the assertions of the call it stands for, one level down, so \<open>visit\<close>
  has depth 1.

  \<^bold>\<open>What is not modelled.\<close> The ELF and BTF readers beyond map descriptors are calls into libraries.
  The reading of text with regular expressions, the printing of states and graphs, options, timers and statistics
  are not part of the verdict. The iterator is proved over the operations of any domain with the
  laws of its locales, and is instantiated with intervals; it is not instantiated with the domain of
  \<open>Crab_Ebpf_Domain\<close>, whose operations thread the shared state of names and cells. Of that domain the
  checks and the constraints of comparisons are proved sound; the other transfer functions, the join
  of zones and the cells of the stack are modelled, and of their soundness only the parts above are proved.
  The assertions about map keys and values and about calls have no statement of their own in
  the soundness of the checks.
\<close>

section \<open>A program of the Linux platform\<close>

text \<open>
  The information about a program without maps and line table, for the examples below: any
  values of the kernel's enumerators will do.
\<close>

definition example_sys :: bpf_sys where
  "example_sys = \<lparr>bpf_f_no_prealloc = 1, bpf_map_create = (\<lambda>_ _ _ _ _. 3)\<rparr>"

definition example_info :: program_info where
  "example_info =
     \<lparr>info_platform = g_ebpf_platform_linux gsl_narrow_ref (\<lambda>_. 0) (\<lambda>_. 0) example_sys,
      info_map_descriptors = [], info_type = linux_xdp_program_type (\<lambda>_. 0), info_cache = [],
      info_line_info = []\<rparr>"

lemma example_info_simps [simp]:
  "info_platform example_info = g_ebpf_platform_linux gsl_narrow_ref (\<lambda>_. 0) (\<lambda>_. 0) example_sys"
  "info_line_info example_info = []" "info_type example_info = linux_xdp_program_type (\<lambda>_. 0)"
  by (simp_all add: example_info_def)

lemma example_supports [simp]:
  "supports example_info group_base32" "supports example_info group_base64"
  "supports example_info group_atomic32" "supports example_info group_atomic64"
  "supports example_info group_divmul32" "supports example_info group_divmul64"
  "supports example_info group_packet" "\<not> supports example_info group_callx"
  by (simp_all add: supports_def linux_groups)

lemma example_full_platform [simp]: "full_platform example_info"
  by (simp add: full_platform_def)

section \<open>Decoding on the Linux platform\<close>


definition example_slots :: "ebpf_inst list" where
  "example_slots = [\<lparr>opcode = 0xb7, dst = 0, src = 0, offset = 0, imm = 0\<rparr>,
                    \<lparr>opcode = 0x95, dst = 0, src = 0, offset = 0, imm = 0\<rparr>]"

definition example_raw :: raw_program where
  "example_raw = \<lparr>rp_filename = '''', rp_section_name = ''xdp'', rp_insn_off = 0, rp_function_name = '''',
     rp_prog = example_slots, rp_info = example_info, rp_resolved_subprograms = False\<rparr>"

lemma example_raw_simps [simp]:
  "rp_prog example_raw = example_slots" "rp_info example_raw = example_info"
  by (simp_all add: example_raw_def)

lemma example_slots_size [simp]: "example_slots \<noteq> []" "length example_slots = 2"
  by (simp_all add: example_slots_def)



text \<open>
  C16. When the decoder merges two slots into one move, those slots decode on their own to two
  shifts of one register, and the move computes the same value from every register value as
  the two shifts in sequence.
\<close>

theorem shift_pair_merge_sound:
  assumes "fst (decode_alu opts info insts pc) = Inr (ins, True)"
  shows "\<exists>b1 b2 b. fst (makeAluOp opts info pc (insts ! pc)) = Inr (Bin b1) \<and>
     fst (makeAluOp opts info (pc + 1) (insts ! (pc + 1))) = Inr (Bin b2) \<and> ins = Bin b \<and>
     bin_dst b1 = bin_dst b \<and> bin_dst b2 = bin_dst b \<and>
     (\<forall>x. \<exists>y z. run_bin b1 x = Some y \<and> run_bin b2 y = Some z \<and> run_bin b x = Some z)"
proof -
  obtain d op where d: "fst (makeAluOp opts info pc (insts ! pc)) = Inr (shift32 d Bin_LSH)"
    "fst (makeAluOp opts info (pc + 1) (insts ! (pc + 1))) = Inr (shift32 d op)"
    and ins: "op = Bin_RSH \<and> ins = Bin \<lparr>bin_op = Bin_MOV, bin_dst = d, bin_v = RegV d, bin_is64 = False, bin_lddw = False\<rparr> \<or>
      op = Bin_ARSH \<and> ins = Bin \<lparr>bin_op = Bin_MOVSX32, bin_dst = d, bin_v = RegV d, bin_is64 = True, bin_lddw = False\<rparr>"
    using decode_alu_merged [OF assms] by blast
  show ?thesis
    using ins d
    by (elim disjE)
       (simp_all add: shift32_def run_bin_def alu_value_def shift_pair_zero_extends shift_pair_sign_extends)
qed

definition shift_slots :: "ebpf_inst list" where
  "shift_slots = [\<lparr>opcode = 0x67, dst = 1, src = 0, offset = 0, imm = 32\<rparr>,
                  \<lparr>opcode = 0xc7, dst = 1, src = 0, offset = 0, imm = 32\<rparr>]"

lemma shift_slots_merged:
  "fst (decode_alu default_options example_info shift_slots 0) =
     Inr (Bin \<lparr>bin_op = Bin_MOVSX32, bin_dst = Reg 1, bin_v = RegV (Reg 1), bin_is64 = True, bin_lddw = False\<rparr>, True)"
  by (simp add: shift_slots_def decode_alu_def makeAluOp_def getAluOp_def getBinValue_def Let_def fst_bindN
      isa_consts dst8_def src8_def shift32_def sign_extend_def)

theorem shift_pair_merge_sound_witness:
  "\<exists>b1 b2 b. fst (makeAluOp default_options example_info 0 (shift_slots ! 0)) = Inr (Bin b1) \<and>
     fst (makeAluOp default_options example_info (0 + 1) (shift_slots ! (0 + 1))) = Inr (Bin b2) \<and>
     Bin \<lparr>bin_op = Bin_MOVSX32, bin_dst = Reg 1, bin_v = RegV (Reg 1), bin_is64 = True, bin_lddw = False\<rparr> = Bin b \<and>
     bin_dst b1 = bin_dst b \<and> bin_dst b2 = bin_dst b \<and>
     (\<forall>x. \<exists>y z. run_bin b1 x = Some y \<and> run_bin b2 y = Some z \<and> run_bin b x = Some z)"
  by (rule shift_pair_merge_sound [OF shift_slots_merged])

text \<open>
  C17. The index loop of \<^verbatim>\<open>makeCall\<close>, with its sentinels and its skip over the size argument of a
  pointer, reads a prototype exactly as the argument grammar does: it succeeds with the grammar's
  single and paired arguments when the grammar accepts, and throws when it does not.
\<close>

theorem makeCall_reads_prototype:
  assumes "gsl_narrow_spec nrw"
    and "get_helper_prototype (info_platform info) (info_type info) func = Inr p"
    and "length (proto_argument_type p) = 5"
  shows "case makeCall nrw info func of
      Inr c \<Rightarrow> proto_return_type p \<noteq> EBPF_RETURN_TYPE_UNSUPPORTED \<and> call_func c = func \<and>
        call_name c = proto_name p \<and> call_reallocate_packet c = proto_reallocate_packet p \<and>
        (call_is_map_lookup c \<longleftrightarrow> proto_return_type p = EBPF_RETURN_TYPE_PTR_TO_MAP_VALUE_OR_NULL) \<and>
        parse_args 1 (proto_argument_type p) = Some (call_singles c, call_pairs c)
    | Inl e \<Rightarrow> is_runtime_error e \<and>
        (proto_return_type p = EBPF_RETURN_TYPE_UNSUPPORTED \<or> parse_args 1 (proto_argument_type p) = None)"
proof -
  have "length (proto_argument_type p) \<le> 250" using assms(3) by simp
  note agrees = makeCall_loop_agrees [OF assms(1) this, of "proto_name p"]
  have none: "\<exists>msg. makeCall nrw info func = Inl (RuntimeError msg)"
    if "parse_args 1 (proto_argument_type p) = None"
    using agrees assms(2) that by (auto simp: makeCall_def loop_agrees_def)
  show ?thesis
  proof (cases "parse_args 1 (proto_argument_type p)")
    case None
    with none show ?thesis by (auto simp: is_runtime_error_def)
  next
    case (Some r)
    with agrees assms(2) show ?thesis
      by (simp add: makeCall_def loop_agrees_def extend_call_def is_runtime_error_def)
  qed
qed


theorem makeCall_reads_prototype_witness:
  "case makeCall gsl_narrow_ref example_info 2 of
      Inr c \<Rightarrow> call_func c = 2 \<and>
        parse_args 1 (proto_argument_type bpf_map_update_elem_proto) = Some (call_singles c, call_pairs c)
    | Inl e \<Rightarrow> False"
proof -
  have p: "get_helper_prototype (info_platform example_info) (info_type example_info) 2 = Inr bpf_map_update_elem_proto"
    by (simp add: g_ebpf_platform_linux_def get_helper_prototype_linux_def is_helper_usable_linux_def length_prototypes
        prototypes_def Let_def bpf_map_update_elem_proto_def mk_proto_def)
  have "length (proto_argument_type bpf_map_update_elem_proto) = 5"
    "proto_return_type bpf_map_update_elem_proto = EBPF_RETURN_TYPE_INTEGER"
    "parse_args 1 (proto_argument_type bpf_map_update_elem_proto) \<noteq> None"
    by (simp_all add: bpf_map_update_elem_proto_def mk_proto_def zero_fill_def numeral_eq_Suc is_mem_arg_def is_size_arg_def)
  with makeCall_reads_prototype [OF gsl_narrow_ref_spec p] show ?thesis
    by (simp split: sum.splits)
qed

section \<open>Encoding and decoding whole programs\<close>

text \<open>
  C15. Encoding a program and decoding the slots gives the program back, instruction by instruction
  and label by label, on every platform with all instruction groups but \<^verbatim>\<open>callx\<close>. The condition
  \<open>program_encodable\<close> asks for what the decoder itself produces (labels are slot positions, branch
  targets are labels of the program, helper calls match their prototype) and excludes what the
  encoding cannot express: immediates above the 31-bit range, 32-bit conditions, near local calls,
  and a pair of shifts by 32 that the decoder would merge.
\<close>

theorem marshal_unmarshal_roundtrip:
  assumes "gsl_narrow_spec nrw" "full_platform info" "program_encodable nrw info prog"
  shows "\<exists>slots. marshal nrw prog = Inr slots \<and> length slots = prog_size prog \<and>
    fst (unmarshal_program nrw opts info slots ns) = Inr prog"
  using program_roundtrip [of nrw info prog opts ns] assms by (simp add: codec_ready_def)

definition example_prog :: InstructionSeq where
  "example_prog =
    [(label 0, Bin \<lparr>bin_op = Bin_MOV, bin_dst = Reg 1, bin_v = Imm 0x100000002, bin_is64 = True, bin_lddw = True\<rparr>, None),
     (label 2, Jmp \<lparr>jmp_cond = Some \<lparr>cond_op = Cond_SGT, cond_left = Reg 1, cond_right = Imm 5, cond_is64 = True\<rparr>,
                    jmp_target = label 4\<rparr>, None),
     (label 3, Mem \<lparr>mem_access = \<lparr>deref_width = 8, deref_basereg = Reg 10, deref_offset = - 8\<rparr>,
                    mem_value = RegV (Reg 1), mem_is_load = False\<rparr>, None),
     (label 4, Bin \<lparr>bin_op = Bin_SDIV, bin_dst = Reg 0, bin_v = Imm 7, bin_is64 = False, bin_lddw = False\<rparr>, None),
     (label 5, Exit '''', None)]"

lemma example_prog_encodable: "program_encodable gsl_narrow_ref example_info example_prog"
  by (simp add: program_encodable_def example_prog_def prog_size_def instr_size_def line_encodable_def
      line_info_at_def jmp_encodable_def near_def fits_int16_def mem_encodable_def deref_ok_def
      bin_encodable_def small_imm_def reg_ok_def is_r10_def isa_consts shift32_def)

theorem marshal_unmarshal_roundtrip_witness:
  "\<exists>slots. marshal gsl_narrow_ref example_prog = Inr slots \<and> length slots = prog_size example_prog \<and>
    fst (unmarshal_program gsl_narrow_ref default_options example_info slots []) = Inr example_prog"
  by (rule marshal_unmarshal_roundtrip [OF gsl_narrow_ref_spec example_full_platform example_prog_encodable])

text \<open>
  C20. The encoder is injective: two different encodable instructions, of whatever form, have
  different slots at the same position.
\<close>

theorem marshal_instruction_injective:
  assumes "gsl_narrow_spec nrw" "full_platform info" "pc < 2 ^ 30"
    and "encodable_at nrw info pc i" "encodable_at nrw info pc j" "i \<noteq> j"
    and "\<forall>l \<in> set (branch_labels i) \<union> set (branch_labels j). \<exists>k < 2 ^ 30 - 2. l = label (int k)"
  shows "marshal_instruction nrw i (of_nat pc) \<noteq> marshal_instruction nrw j (of_nat pc)"
proof
  assume eq: "marshal_instruction nrw i (of_nat pc) = marshal_instruction nrw j (of_nat pc)"
  have "codec_ready nrw info" using assms(1,2) by (simp add: codec_ready_def)
  moreover have "pc + (2 ^ 30 - 2) + 2 < 2147483648" using assms(3) by simp
  ultimately have "i = j" using marshal_instruction_inj [OF _ assms(4,5) _ eq assms(7)] by blast
  with assms(6) show False by simp
qed

theorem marshal_instruction_injective_witness:
  "marshal_instruction gsl_narrow_ref (UnOp \<lparr>un_op = Un_LE16, un_dst = Reg 3, un_is64 = False\<rparr>) (of_nat 7) \<noteq>
   marshal_instruction gsl_narrow_ref (UnOp \<lparr>un_op = Un_SWAP16, un_dst = Reg 3, un_is64 = True\<rparr>) (of_nat 7)"
  by (rule marshal_instruction_injective [OF gsl_narrow_ref_spec example_full_platform])
     (simp_all add: un_encodable_def reg_ok_def is_r10_def isa_consts)

section \<open>What the encoding cannot express\<close>

text \<open>
  C26. An arithmetic instruction with an immediate is encoded exactly when the immediate is below
  \<open>2 ^ 31\<close>; otherwise narrowing it to 32 bits throws. The decoder sign-extends immediates, so every
  negative immediate it produces is refused by the encoder.
\<close>

theorem marshal_bin_immediate_domain:
  assumes "gsl_narrow_spec nrw" "\<not> bin_lddw b" "bin_v b = Imm v"
  shows "if uint v < 2 ^ 31 then is_ok (marshal_bin nrw b) else marshal_bin nrw b = Inl NarrowingError"
  using assms narrow_imm_small [OF assms(1), of v] narrow_imm_large [OF assms(1), of v]
  by (simp add: marshal_bin_def Let_def small_imm_def)

theorem marshal_bin_immediate_domain_witness:
  "marshal_bin gsl_narrow_ref \<lparr>bin_op = Bin_ADD, bin_dst = Reg 1, bin_v = Imm 0xffffffffffffffff,
     bin_is64 = True, bin_lddw = False\<rparr> = Inl NarrowingError"
  using marshal_bin_immediate_domain [OF gsl_narrow_ref_spec, of "\<lparr>bin_op = Bin_ADD, bin_dst = Reg 1,
      bin_v = Imm 0xffffffffffffffff, bin_is64 = True, bin_lddw = False\<rparr>"]
  by simp

text \<open>
  The encoder drops the width of a comparison and the target of a near local call: a 32-bit
  condition has the slots of the 64-bit one, and every local call whose offset fits in 16 bits has
  the slot that the decoder reads as a call of the next instruction.
\<close>

theorem marshal_loses_width_and_near_calls:
  "marshal_jmp nrw pc \<lparr>jmp_cond = Some (c\<lparr>cond_is64 := False\<rparr>), jmp_target = l\<rparr> =
   marshal_jmp nrw pc \<lparr>jmp_cond = Some (c\<lparr>cond_is64 := True\<rparr>), jmp_target = l\<rparr> \<and>
   marshal_instruction nrw (CallLocal \<lparr>cl_target = label (uint pc + 1 + d), cl_prefix = p\<rparr>) pc =
     (if - 32768 \<le> d \<and> d \<le> 32767 then Inr [slot INST_OP_CALL 0 INST_CALL_LOCAL 0 0]
      else bindE (opt_to_res NarrowingError (nrw int32_range d))
             (\<lambda>i. Inr [slot INST_OP_CALL 0 INST_CALL_LOCAL 0 (word_of_int i)]))"
  by (simp add: marshal_jmp_def marshal_instruction_def label_to_offset32_def label_offset_def fits_int16_def
      Let_def bindE_def opt_to_res_def split: option.splits)

section \<open>Assertions for decoded programs\<close>

lemma assert_singles_total:
  assumes "map_before_key seen as" "parse_args i as = Some (ss, ps)" "seen \<Longrightarrow> fd \<noteq> None"
  shows "\<exists>xs. assert_singles info fd ss = Inr xs"
  using assms
proof (induction i as arbitrary: seen fd ss ps rule: parse_args.induct)
  case (2 i a as)
  show ?case
  proof (cases "a = EBPF_ARGUMENT_TYPE_DONTCARE \<or> is_mem_arg a")
    case True
    then show ?thesis
      using "2.prems" "2.IH"(1)
      by (auto simp: is_mem_arg_def is_size_arg_def add_pair_def split: list.splits if_splits)
  next
    case False
    then obtain ss' where rest: "parse_args (i + 1) as = Some (ss', ps)"
      and ss: "ss = \<lparr>single_kind = toArgSingleKind a, single_reg = Reg (of_nat i)\<rparr> # ss'"
      and a: "a \<noteq> EBPF_ARGUMENT_TYPE_UNSUPPORTED" "\<not> is_size_arg a"
      using "2.prems"(2) by (auto simp: add_single_def split: if_splits)
    let ?s = "\<lparr>single_kind = toArgSingleKind a, single_reg = Reg (of_nat i) :: Reg\<rparr>"
    have "\<exists>xs fd'. assert_single info fd ?s = Inr (xs, fd') \<and>
        (\<exists>seen'. map_before_key seen' as \<and> (seen' \<longrightarrow> fd' \<noteq> None))"
      using "2.prems"(1,3) False a
      by (cases a) (auto simp: assert_single_def is_size_arg_def is_mem_arg_def toArgSingleKind_def)
    then obtain xs fd' seen' where x: "assert_single info fd ?s = Inr (xs, fd')" "map_before_key seen' as" "seen' \<longrightarrow> fd' \<noteq> None"
      by blast
    then obtain ys where "assert_singles info fd' ss' = Inr ys"
      using "2.IH"(2) [OF _ _ _ x(2) rest, of fd'] False a by auto
    with x(1) show ?thesis by (simp add: ss)
  qed
qed simp

lemma makeCall_assertions:
  assumes "gsl_narrow_spec nrw" "info_platform info = g_ebpf_platform_linux nrw' prog_type map_type sys"
    and "makeCall nrw info func = Inr c"
  shows "\<exists>xs. assert_singles info None (call_singles c) = Inr xs"
proof -
  obtain p where p: "get_helper_prototype (info_platform info) (info_type info) func = Inr p"
    using assms(3) by (auto simp: makeCall_def bindE_eq_Inr_iff)
  then have "is_helper_usable_linux (info_type info) func"
    using assms(2) by (auto simp: g_ebpf_platform_linux_def get_helper_prototype_linux_def split: if_splits)
  from linux_usable_prototype [OF this] p assms(2)
  have len: "length (proto_argument_type p) = 5" and "proto_maps_ok p"
    using prototypes_maps_ok by (auto simp: g_ebpf_platform_linux_def proto_sane_def list_all_length)
  have "length (proto_argument_type p) \<le> 250" using len by simp
  note agrees = makeCall_loop_agrees [OF assms(1) this, of "proto_name p"]
  have none: "\<exists>msg. makeCall nrw info func = Inl (RuntimeError msg)" if "parse_args 1 (proto_argument_type p) = None"
    using agrees p that by (auto simp: makeCall_def loop_agrees_def)
  have "\<exists>r. parse_args 1 (proto_argument_type p) = Some r \<and> call_singles c = fst r"
  proof (cases "parse_args 1 (proto_argument_type p)")
    case (Some r)
    with agrees p assms(3) show ?thesis by (auto simp: makeCall_def loop_agrees_def extend_call_def split: if_splits)
  qed (use none assms(3) in auto)
  then show ?thesis
    using assert_singles_total [of False "proto_argument_type p" 1 _ _ None info] \<open>proto_maps_ok p\<close>
    by (auto simp: proto_maps_ok_def)
qed

text \<open>
  Assertion extraction never fails on a decoded instruction of the Linux platform: the
  \<^verbatim>\<open>assert\<close> that a map key or value comes after its map, and the narrowing of access widths, hold for
  every instruction the decoder returns.
\<close>

theorem linux_assertions_total:
  assumes "gsl_narrow_spec nrw" "info_platform info = g_ebpf_platform_linux nrw' prog_type map_type sys"
    and "wf_instr insts ins" "\<And>c. ins = Call c \<Longrightarrow> \<exists>func. makeCall nrw info func = Inr c"
  shows "\<exists>as. get_assertions nrw ins info (Some l) = Inr as"
proof (cases ins)
  case (Call c)
  then obtain func where "makeCall nrw info func = Inr c" using assms(4) by blast
  with makeCall_assertions [OF assms(1,2)] Call show ?thesis by (fastforce simp: get_assertions_def assert_call_def)
next
  case (Mem m)
  with assms(1,3) show ?thesis
    by (auto simp: get_assertions_def assert_mem_def gsl_narrowD opt_to_res_def deref_ok_def Let_def)
qed (use assms(3) in \<open>auto simp: get_assertions_def assert_exit_def\<close>)

theorem linux_assertions_total_witness:
  "\<exists>as. get_assertions gsl_narrow_ref (Exit '''') example_info (Some (label 1)) = Inr as"
  by (rule linux_assertions_total [where insts = "[]", OF gsl_narrow_ref_spec example_info_simps(1)]) simp_all

end
